(* ===== verification/Prelude.thy ===== *)
theory Prelude
  imports Main "HOL-Library.Word"
begin

text \<open>
  Shared material: the machine integer types, the result type of fallible code, checked array
  accesses, the counted loop, and the bit view of bytes and byte buffers.
\<close>

unbundle bit_operations_syntax

type_synonym u8 = "8 word"
type_synonym u16 = "16 word"
type_synonym u32 = "32 word"
type_synonym u64 = "64 word"

named_theorems res_simps "unfolding of the result type and of the array accesses"

section \<open>Results\<close>

text \<open>
  \<open>Die\<close> is the firmware's \<open>DIE(...)\<close> (a noreturn panic), \<open>Oob\<close> an access outside an array
  (undefined behaviour in C), \<open>Div0\<close> a division by zero and \<open>Hang\<close> a loop that never ends.
\<close>

datatype fault = Die | Oob | Div0 | Hang

type_synonym 'a res = "fault + 'a"

definition bnd :: "'a res \<Rightarrow> ('a \<Rightarrow> 'b res) \<Rightarrow> 'b res" where
  "bnd r f = (case r of Inl e \<Rightarrow> Inl e | Inr x \<Rightarrow> f x)"

definition guard :: "bool \<Rightarrow> fault \<Rightarrow> 'a res \<Rightarrow> 'a res" where
  "guard b e r = (if b then r else Inl e)"

lemma bnd_simps [simp]: "bnd (Inl e) f = Inl e" "bnd (Inr x) f = f x"
  by (simp_all add: bnd_def)

lemma bnd_Inr_iff: "bnd r f = Inr y \<longleftrightarrow> (\<exists>x. r = Inr x \<and> f x = Inr y)"
  by (cases r) auto

lemma bnd_InrE:
  assumes "bnd r f = Inr y"
  obtains x where "r = Inr x" and "f x = Inr y"
  using assms by (cases r) auto

lemma bnd_Inl_iff: "bnd r f = Inl e \<longleftrightarrow> r = Inl e \<or> (\<exists>x. r = Inr x \<and> f x = Inl e)"
  by (cases r) auto

lemma bnd_assoc: "bnd (bnd r f) g = bnd r (\<lambda>x. bnd (f x) g)"
  by (cases r) auto

lemma bnd_cong [fundef_cong]:
  "r = r' \<Longrightarrow> (\<And>x. r' = Inr x \<Longrightarrow> f x = f' x) \<Longrightarrow> bnd r f = bnd r' f'"
  by (cases r') auto

lemma guard_simps [simp]: "guard True e r = r" "guard False e r = Inl e"
  by (simp_all add: guard_def)

lemma guard_Inr_iff: "guard b e r = Inr x \<longleftrightarrow> b \<and> r = Inr x"
  by (simp add: guard_def)

section \<open>Arrays\<close>

text \<open>
  A C array is a list; a pointer into it is the list from there on.  \<open>rd\<close> and \<open>wr\<close> are one
  element's read and write, \<open>memcpy\<close> is the library function, \<open>window k f\<close> runs \<open>f\<close> on the
  array seen through a pointer to its element \<open>k\<close>.
\<close>

definition rd :: "'a list \<Rightarrow> nat \<Rightarrow> 'a res" where
  "rd xs i = (if i < length xs then Inr (xs ! i) else Inl Oob)"

definition wr :: "'a list \<Rightarrow> nat \<Rightarrow> 'a \<Rightarrow> 'a list res" where
  "wr xs i x = (if i < length xs then Inr (xs[i := x]) else Inl Oob)"

definition memcpy :: "'a list \<Rightarrow> 'a list \<Rightarrow> nat \<Rightarrow> 'a list res" where
  "memcpy dst src n =
     (if n \<le> length dst \<and> n \<le> length src then Inr (take n src @ drop n dst) else Inl Oob)"

definition memset0 :: "'a::zero list \<Rightarrow> nat \<Rightarrow> 'a list res" where
  "memset0 dst n = (if n \<le> length dst then Inr (replicate n 0 @ drop n dst) else Inl Oob)"

definition window :: "nat \<Rightarrow> ('a list \<Rightarrow> 'a list res) \<Rightarrow> 'a list \<Rightarrow> 'a list res" where
  "window k f xs = (if k \<le> length xs then bnd (f (drop k xs)) (\<lambda>ys. Inr (take k xs @ ys)) else Inl Oob)"

lemma rd_ok [simp]: "i < length xs \<Longrightarrow> rd xs i = Inr (xs ! i)"
  by (simp add: rd_def)

lemma rd_oob [simp]: "length xs \<le> i \<Longrightarrow> rd xs i = Inl Oob"
  by (simp add: rd_def)

lemma wr_ok [simp]: "i < length xs \<Longrightarrow> wr xs i x = Inr (xs[i := x])"
  by (simp add: wr_def)

lemma wr_oob [simp]: "length xs \<le> i \<Longrightarrow> wr xs i x = Inl Oob"
  by (simp add: wr_def)

lemma rd_Inr_iff: "rd xs i = Inr x \<longleftrightarrow> i < length xs \<and> x = xs ! i"
  by (auto simp: rd_def)

lemma wr_Inr_iff: "wr xs i x = Inr ys \<longleftrightarrow> i < length xs \<and> ys = xs[i := x]"
  by (auto simp: wr_def)

lemma memcpy_ok: "n \<le> length dst \<Longrightarrow> n \<le> length src \<Longrightarrow> memcpy dst src n = Inr (take n src @ drop n dst)"
  by (simp add: memcpy_def)

section \<open>The counted loop\<close>

text \<open>\<open>loop n f s\<close> is \<open>for (i = 0; i < n; i++) s = f(i, s);\<close>, stopping at the first fault.\<close>

primrec loop :: "nat \<Rightarrow> (nat \<Rightarrow> 's \<Rightarrow> 's res) \<Rightarrow> 's \<Rightarrow> 's res" where
  "loop 0 f s = Inr s"
| "loop (Suc n) f s = bnd (loop n f s) (f n)"

lemma loop_cong [fundef_cong]:
  assumes "n = n'" and "\<And>i s. i < n' \<Longrightarrow> f i s = f' i s" and "s = s'"
  shows "loop n f s = loop n' f' s'"
proof -
  have "m \<le> n' \<Longrightarrow> loop m f s = loop m f' s" for m
  proof (induction m)
    case (Suc m)
    then show ?case using assms(2) by (cases "loop m f' s") auto
  qed simp
  then show ?thesis using assms by simp
qed

lemma loop_numeral: "loop (numeral k) f s = bnd (loop (pred_numeral k) f s) (f (pred_numeral k))"
  by (simp add: numeral_eq_Suc)

text \<open>Total correctness: every pass keeps the invariant and finds no fault.\<close>

lemma loop_inv:
  assumes "I 0 s"
    and "\<And>i s. i < n \<Longrightarrow> I i s \<Longrightarrow> \<exists>s'. f i s = Inr s' \<and> I (Suc i) s'"
  shows "\<exists>s'. loop n f s = Inr s' \<and> I n s'"
proof -
  have "m \<le> n \<Longrightarrow> \<exists>s'. loop m f s = Inr s' \<and> I m s'" for m
  proof (induction m)
    case 0
    then show ?case using assms(1) by simp
  next
    case (Suc m)
    then obtain t where "loop m f s = Inr t" and "I m t" by auto
    then show ?case using assms(2) [of m t] Suc.prems by auto
  qed
  then show ?thesis by blast
qed

lemma loop_pure: "loop n (\<lambda>i s. Inr (g i s)) s = Inr (fold g [0..<n] s)"
  by (induction n) auto

text \<open>A loop that fills \<open>out[0..n)\<close>.\<close>

lemma loop_fill:
  assumes "n \<le> length out" and "\<And>i. i < n \<Longrightarrow> h i = Inr (v i)"
  shows "loop n (\<lambda>i o'. bnd (h i) (\<lambda>x. wr o' i x)) out = Inr (map v [0..<n] @ drop n out)"
  using assms
proof (induction n)
  case 0
  then show ?case by simp
next
  case (Suc n)
  have drp: "drop n out = out ! n # drop (Suc n) out"
    using Suc.prems by (simp add: Cons_nth_drop_Suc)
  have "loop n (\<lambda>i o'. bnd (h i) (\<lambda>x. wr o' i x)) out = Inr (map v [0..<n] @ drop n out)"
    using Suc by simp
  then show ?case using Suc.prems drp by (simp add: list_update_append)
qed

section \<open>Bits\<close>

lemma word8_eqI:
  fixes a b :: u8
  assumes "bit a 0 = bit b 0" "bit a 1 = bit b 1" "bit a 2 = bit b 2" "bit a 3 = bit b 3"
    "bit a 4 = bit b 4" "bit a 5 = bit b 5" "bit a 6 = bit b 6" "bit a 7 = bit b 7"
  shows "a = b"
proof (rule bit_word_eqI)
  fix n :: nat assume "n < LENGTH(8)"
  then have "n \<in> {0, 1, 2, 3, 4, 5, 6, 7}" by auto
  then show "bit a n = bit b n" using assms by auto
qed

text \<open>Equality bit by bit.\<close>

lemma word_eq_bits:
  assumes "list_all (\<lambda>n. bit a n = bit b n) [0..<LENGTH('a)]"
  shows "a = (b :: 'a::len word)"
  by (rule bit_word_eqI) (use assms in \<open>simp add: list_all_iff\<close>)

lemma Suc_Suc_0 [simp]: "Suc (Suc 0) = 2"
  by simp

text \<open>Masking with \<open>2 ^ k - 1\<close> keeps the low \<open>k\<close> bits.\<close>

lemma and_masks:
  fixes x :: "'a::len word"
  shows "x AND 1 = take_bit 1 x"
    and "1 AND x = take_bit 1 x"
    and "x AND 0x3 = take_bit 2 x"
    and "0x3 AND x = take_bit 2 x"
    and "x AND 0x7 = take_bit 3 x"
    and "0x7 AND x = take_bit 3 x"
    and "x AND 0xf = take_bit 4 x"
    and "0xf AND x = take_bit 4 x"
    and "x AND 0x1f = take_bit 5 x"
    and "0x1f AND x = take_bit 5 x"
    and "x AND 0x3f = take_bit 6 x"
    and "0x3f AND x = take_bit 6 x"
    and "x AND 0x7f = take_bit 7 x"
    and "0x7f AND x = take_bit 7 x"
    and "x AND 0xff = take_bit 8 x"
    and "0xff AND x = take_bit 8 x"
    and "x AND 0x1ff = take_bit 9 x"
    and "0x1ff AND x = take_bit 9 x"
    and "x AND 0x3ff = take_bit 10 x"
    and "0x3ff AND x = take_bit 10 x"
    and "x AND 0xffff = take_bit 16 x"
    and "0xffff AND x = take_bit 16 x"
    and "x AND 0xffffff = take_bit 24 x"
    and "0xffffff AND x = take_bit 24 x"
  by (simp_all add: take_bit_eq_mask mask_eq_exp_minus_1 and.commute)

lemma one_and_nonzero: "1 AND (x :: 'a::len word) \<noteq> 0 \<longleftrightarrow> bit x 0" "(x :: 'a::len word) AND 1 \<noteq> 0 \<longleftrightarrow> bit x 0"
  by (simp_all add: one_and_eq and_one_eq bit_0 odd_iff_mod_2_eq_one)

lemma xor_cancel [simp]:
  fixes x :: "'a::len word"
  shows "x XOR z = y XOR z \<longleftrightarrow> x = y" and "z XOR x = z XOR y \<longleftrightarrow> x = y"
  by (metis xor.assoc xor_self_eq xor.right_neutral, metis xor.assoc xor_self_eq xor.left_neutral)

lemma bit_times_2 [simp]:
  "bit ((x :: 'a::len word) * 2) n \<longleftrightarrow> 0 < n \<and> n < LENGTH('a) \<and> bit x (n - 1)"
  using bit_push_bit_iff [of 1 x n] by (auto simp: push_bit_eq_mult bit_push_bit_iff Suc_le_eq)

lemma unat_less_bits: "(\<And>j. bit w j \<Longrightarrow> j < n) \<Longrightarrow> unat (w :: 'a::len word) < 2 ^ n"
proof -
  assume "\<And>j. bit w j \<Longrightarrow> j < n"
  then have "take_bit n w = w" by (intro bit_word_eqI) (auto simp: bit_simps)
  then have "unat w = take_bit n (unat w)" by (metis unsigned_take_bit_eq)
  then show ?thesis by (metis take_bit_nat_less_exp)
qed

lemma low_bits: "unat (d :: 'a::len word) < 2 ^ n \<Longrightarrow> bit d j \<Longrightarrow> j < n"
proof -
  assume "unat d < 2 ^ n"
  then have "take_bit n (unat d) = unat d" by (simp add: take_bit_nat_eq_self)
  then have "take_bit n d = d" by (metis unsigned_take_bit_eq unsigned_word_eqI)
  then show "bit d j \<Longrightarrow> j < n" by (metis bit_take_bit_iff)
qed

lemma less8_cases: "n < (8::nat) \<Longrightarrow> n \<in> {0, 1, 2, 3, 4, 5, 6, 7}"
  by auto

text \<open>Bytes needed for a number of bits.\<close>

lemma byte_align_cases:
  "n mod 8 = 0 \<Longrightarrow> (n + 7) div 8 = n div (8::nat)"
  "n mod 8 \<noteq> 0 \<Longrightarrow> (n + 7) div 8 = Suc (n div (8::nat))"
proof -
  have n: "n + 7 = 8 * (n div 8) + (n mod 8 + 7)" by simp
  have q: "(n + 7) div 8 = n div 8 + (n mod 8 + 7) div 8"
    by (subst n) (rule div_mult_self4, simp)
  show "n mod 8 = 0 \<Longrightarrow> (n + 7) div 8 = n div 8" using q by simp
  assume "n mod 8 \<noteq> 0"
  then have "(n mod 8 + 7) div 8 = 1" by (intro div_nat_eqI) auto
  then show "(n + 7) div 8 = Suc (n div 8)" using q by simp
qed

text \<open>Bit \<open>i\<close> of a byte buffer, least significant bit of each byte first (air order).\<close>

definition bitat :: "u8 list \<Rightarrow> nat \<Rightarrow> bool" where
  "bitat xs i = bit (xs ! (i div 8)) (i mod 8)"

lemma bitat_drop: "n \<le> length xs \<Longrightarrow> bitat (drop n xs) i = bitat xs (8 * n + i)"
  by (simp add: bitat_def)

lemma bitat_append: "bitat (xs @ ys) i = (if i < 8 * length xs then bitat xs i else bitat ys (i - 8 * length xs))"
proof (cases "i < 8 * length xs")
  case True
  then have "i div 8 < length xs" by (simp add: less_mult_imp_div_less mult.commute)
  then show ?thesis using True by (simp add: bitat_def nth_append)
next
  case False
  then have le: "8 * length xs \<le> i" by simp
  then have "\<not> i div 8 < length xs" by auto
  moreover have "i div 8 - length xs = (i - 8 * length xs) div 8"
    by (metis div_mult_self4 le_add_diff_inverse add_diff_cancel_left' le zero_neq_numeral)
  moreover have "(i - 8 * length xs) mod 8 = i mod 8"
    by (metis le le_add_diff_inverse mod_mult_self4)
  ultimately show ?thesis using False by (simp add: bitat_def nth_append)
qed

lemma bytes_eqI:
  assumes "length xs = length ys" and "\<And>i. i < 8 * length xs \<Longrightarrow> bitat xs i = bitat ys i"
  shows "xs = ys"
proof (rule nth_equalityI [OF assms(1)])
  fix k assume k: "k < length xs"
  show "xs ! k = ys ! k"
  proof (rule bit_word_eqI)
    fix n :: nat assume "n < LENGTH(8)"
    then have n: "n < 8" by simp
    then have "8 * k + n < 8 * length xs" using k by simp
    from assms(2) [OF this] n show "bit (xs ! k) n = bit (ys ! k) n"
      by (simp add: bitat_def)
  qed
qed

end
