(* ===== verification/Linear.thy ===== *)
theory Linear
  imports Prelude
begin

text \<open>
  Every lookup table of the codec is linear over GF(2): its entry for \<open>x\<close> is the XOR of one basis
  entry per bit of \<open>x\<close>.  \<open>lin_tab\<close> builds such a table by doubling, so that a literal table of the
  source is checked against its basis with one XOR per entry, and \<open>lin_tab_eq\<close> then says that the
  table is the linear function with that basis.
\<close>

definition lin_tab :: "'a::len word list \<Rightarrow> 'a word list" where
  "lin_tab cs = foldl (\<lambda>t c. t @ map (\<lambda>x. x XOR c) t) [0] cs"

lemma lin_tab_Nil [simp]: "lin_tab [] = [0]"
  by (simp add: lin_tab_def)

lemma lin_tab_snoc: "lin_tab (cs @ [c]) = lin_tab cs @ map (\<lambda>x. x XOR c) (lin_tab cs)"
  by (simp add: lin_tab_def)

lemma length_lin_tab [simp]: "length (lin_tab cs) = 2 ^ length cs"
  by (induction cs rule: rev_induct) (simp_all add: lin_tab_snoc)

definition linear_word :: "('b::len word \<Rightarrow> 'a::len word) \<Rightarrow> bool" where
  "linear_word f \<longleftrightarrow> (\<forall>x y. f (x XOR y) = f x XOR f y)"

lemma linear_wordD: "linear_word f \<Longrightarrow> f (x XOR y) = f x XOR f y"
  by (simp add: linear_word_def)

lemma linear_word_0: "linear_word f \<Longrightarrow> f 0 = 0"
  using linear_wordD [of f 0 0] by simp

lemma linear_comp: "linear_word f \<Longrightarrow> linear_word g \<Longrightarrow> linear_word (\<lambda>x. f (g x))"
  by (simp add: linear_word_def)

lemma linear_funpow:
  fixes f :: "'a::len word \<Rightarrow> 'a word"
  shows "linear_word f \<Longrightarrow> linear_word (\<lambda>x. (f ^^ n) x)"
  by (induction n) (simp_all add: linear_word_def)

lemma linear_ucast: "linear_word (ucast :: 'b::len word \<Rightarrow> 'a::len word)"
  unfolding linear_word_def by (simp add: bit_eq_iff bit_simps)

lemma clear_top_bit:
  fixes x :: "'b::len word"
  assumes ge: "2 ^ k \<le> unat x" and lt: "unat x < 2 ^ Suc k"
  shows "unat (x XOR push_bit k 1) = unat x - 2 ^ k" and "bit x k"
proof -
  have q: "unat x div 2 ^ k = 1"
    using ge lt by (simp add: div_eq_dividend_iff Suc_leI div_nat_eqI)
  then have "odd (unat x div 2 ^ k)" by simp
  then have bk: "bit (unat x) k" by (simp add: bit_iff_odd)
  then show "bit x k" by (simp add: bit_unsigned_iff)
  have "unat (x XOR push_bit k 1) = Bit_Operations.xor (unat x) (2 ^ k)"
  proof (rule bit_eqI)
    fix n
    have "bit x k" using bk by (simp add: bit_unsigned_iff)
    then have "k < LENGTH('b)" by (rule bit_imp_le_length)
    then show "bit (unat (x XOR push_bit k 1)) n = bit (Bit_Operations.xor (unat x) (2 ^ k)) n"
      by (auto simp: bit_simps bit_unsigned_iff dest: bit_imp_le_length)
  qed
  also have "\<dots> = unat x - 2 ^ k"
  proof -
    have "unat x = take_bit k (unat x) + 2 ^ k"
      using q by (metis add.commute mult.right_neutral div_mult_mod_eq take_bit_eq_mod mult.commute)
    moreover have "Bit_Operations.xor (unat x) (2 ^ k) = take_bit k (unat x)"
    proof (rule bit_eqI)
      fix n
      have "bit (unat x) n \<Longrightarrow> n \<le> k"
        using lt by (metis bit_take_bit_iff less_Suc_eq_le take_bit_nat_eq_self)
      then show "bit (Bit_Operations.xor (unat x) (2 ^ k)) n = bit (take_bit k (unat x)) n"
        using bk by (auto simp: bit_simps le_less)
    qed
    ultimately show ?thesis by simp
  qed
  finally show "unat (x XOR push_bit k 1) = unat x - 2 ^ k" .
qed

theorem lin_tab_eq:
  fixes f :: "'b::len word \<Rightarrow> 'a::len word"
  assumes lin: "linear_word f"
    and basis: "\<And>i. i < length cs \<Longrightarrow> f (push_bit i 1) = cs ! i"
    and "unat x < 2 ^ length cs"
  shows "lin_tab cs ! unat x = f x"
  using assms(3) basis
proof (induction cs arbitrary: x rule: rev_induct)
  case Nil
  then have "x = 0" by (simp add: unat_eq_0)
  then show ?case using linear_word_0 [OF lin] by simp
next
  case (snoc c cs)
  have IH: "lin_tab cs ! unat y = f y" if "unat y < 2 ^ length cs" for y
    using snoc.IH [OF that] snoc.prems(2) by (metis less_Suc_eq length_append_singleton nth_append_left)
  have fc: "f (push_bit (length cs) 1) = c"
    using snoc.prems(2) [of "length cs"] by simp
  show ?case
  proof (cases "unat x < 2 ^ length cs")
    case True
    then show ?thesis using IH by (simp add: lin_tab_snoc nth_append)
  next
    case False
    let ?y = "x XOR push_bit (length cs) 1"
    have y: "unat ?y = unat x - 2 ^ length cs"
      using clear_top_bit(1) [of "length cs" x] False snoc.prems(1) by simp
    then have lt: "unat ?y < 2 ^ length cs" using snoc.prems(1) False by simp
    have "lin_tab (cs @ [c]) ! unat x = lin_tab cs ! unat ?y XOR c"
      using False lt y snoc.prems(1) by (simp add: lin_tab_snoc nth_append)
    also have "\<dots> = f ?y XOR c" using IH [OF lt] by simp
    also have "\<dots> = f x" using linear_wordD [OF lin] fc by (simp add: xor.assoc)
    finally show ?thesis .
  qed
qed

lemma lin_tab_eq_map:
  fixes f :: "'b::len word \<Rightarrow> 'a::len word"
  assumes "linear_word f" and basis: "map (\<lambda>i. f (push_bit i 1)) [0..<length cs] = cs"
    and "unat x < 2 ^ length cs"
  shows "lin_tab cs ! unat x = f x"
proof (rule lin_tab_eq [OF assms(1) _ assms(3)])
  fix i assume "i < length cs"
  then show "f (push_bit i 1) = cs ! i"
    by (subst basis [symmetric]) simp
qed

section \<open>Table entries as sums of basis entries\<close>

primrec xsum :: "'a::len word list \<Rightarrow> 'b::len word \<Rightarrow> 'a word" where
  "xsum [] x = 0"
| "xsum (c # cs) x = (if bit x 0 then c else 0) XOR xsum cs (drop_bit 1 x)"

lemma xsum_xor: "xsum cs (x XOR y) = xsum cs x XOR xsum cs y"
  by (induction cs arbitrary: x y)
    (auto simp: bit_xor_iff drop_bit_xor xor.assoc xor.left_commute xor.commute)

lemma xsum_linear: "linear_word (xsum cs)"
  by (simp add: linear_word_def xsum_xor)

lemma xsum_zero [simp]: "xsum cs 0 = 0"
  by (rule linear_word_0 [OF xsum_linear])

lemma drop_bit_push_bit_1:
  "i < LENGTH('b) \<Longrightarrow> drop_bit 1 (push_bit (Suc i) (1 :: 'b::len word)) = (if Suc i < LENGTH('b) then push_bit i 1 else 0)"
  by (rule bit_word_eqI) (auto simp: bit_simps)

lemma xsum_basis:
  "i < length cs \<Longrightarrow> length cs \<le> LENGTH('b) \<Longrightarrow> xsum cs (push_bit i (1 :: 'b::len word)) = cs ! i"
proof (induction cs arbitrary: i)
  case (Cons c cs)
  show ?case
  proof (cases i)
    case 0
    have "drop_bit 1 (1 :: 'b word) = 0" by (rule bit_word_eqI) (auto simp: bit_simps)
    with 0 show ?thesis by simp
  next
    case (Suc j)
    have "xsum (c # cs) (push_bit i (1 :: 'b word)) = xsum cs (drop_bit 1 (push_bit i (1 :: 'b word)))"
      using Suc by (simp add: bit_simps)
    also have "\<dots> = xsum cs (push_bit j (1 :: 'b word))"
      using Suc Cons.prems drop_bit_push_bit_1 [where i = j and 'b = 'b] by simp
    finally show ?thesis using Suc Cons by simp
  qed
qed simp

lemma lin_tab_nth:
  fixes x :: "'b::len word"
  assumes "unat x < 2 ^ length cs" and "length cs \<le> LENGTH('b)"
  shows "lin_tab cs ! unat x = xsum cs x"
  by (rule lin_tab_eq [OF xsum_linear _ assms(1)]) (rule xsum_basis [OF _ assms(2)])

section \<open>Shift registers\<close>

text \<open>\<open>lfsr p s\<close> shifts right and adds the feedback \<open>p\<close> when a one falls out.\<close>

definition lfsr :: "'a::len word \<Rightarrow> 'a word \<Rightarrow> 'a word" where
  "lfsr p s = (if bit s 0 then drop_bit 1 s XOR p else drop_bit 1 s)"

lemma lfsr_linear: "linear_word (lfsr p)"
  unfolding linear_word_def lfsr_def
  by (auto simp: bit_eq_iff bit_simps)

lemma lfsr_funpow_xor: "(lfsr p ^^ n) (x XOR y) = (lfsr p ^^ n) x XOR (lfsr p ^^ n) y"
  by (rule linear_wordD [OF linear_funpow [OF lfsr_linear]])

lemma lfsr_shift: "take_bit k y = 0 \<Longrightarrow> (lfsr p ^^ k) y = drop_bit k y"
proof (induction k arbitrary: y)
  case (Suc k)
  have b: "\<not> bit y n" if "n < Suc k" for n
    using Suc.prems that by (metis bit_0_eq bit_take_bit_iff bot_apply bot_bool_def)
  have "take_bit k (drop_bit 1 y) = 0"
    by (rule bit_word_eqI) (use b in \<open>auto simp: bit_simps\<close>)
  then have "(lfsr p ^^ k) (drop_bit 1 y) = drop_bit k (drop_bit 1 y)" by (rule Suc.IH)
  moreover have "lfsr p y = drop_bit 1 y" using b [of 0] by (simp add: lfsr_def)
  ultimately show ?case by (simp add: funpow_Suc_right del: funpow.simps)
qed simp

lemma funpow_eval: "(f ^^ numeral k) x = (f ^^ pred_numeral k) (f x)" "(f ^^ Suc 0) x = f x"
  by (simp_all add: numeral_eq_Suc funpow_Suc_right del: funpow.simps Suc_Suc_0)

text \<open>
  The identity behind table-driven shift registers: \<open>k\<close> steps are a table entry for the low \<open>k\<close>
  bits, added to the register shifted by \<open>k\<close>.
\<close>

lemma lfsr_table: "(lfsr p ^^ k) x = (lfsr p ^^ k) (take_bit k x) XOR drop_bit k x"
proof -
  let ?y = "x XOR take_bit k x"
  have z: "take_bit k ?y = 0" and d: "drop_bit k ?y = drop_bit k x"
    by (rule bit_word_eqI; auto simp: bit_simps)+
  have "(lfsr p ^^ k) (take_bit k x XOR ?y) = (lfsr p ^^ k) (take_bit k x) XOR (lfsr p ^^ k) ?y"
    by (rule lfsr_funpow_xor)
  moreover have "(lfsr p ^^ k) ?y = drop_bit k x" using lfsr_shift [OF z] d by simp
  moreover have "take_bit k x XOR ?y = x" by (simp add: xor.left_commute)
  ultimately show ?thesis by simp
qed

text \<open>Data bits fed in at the output are data added to the register beforehand.\<close>

primrec lfsr_in :: "'a::len word \<Rightarrow> nat \<Rightarrow> 'a word \<Rightarrow> 'a word \<Rightarrow> 'a word" where
  "lfsr_in p 0 d s = s"
| "lfsr_in p (Suc n) d s = lfsr_in p n (drop_bit 1 d) (lfsr p (s XOR (d AND 1)))"

lemma lfsr_in_eq: "lfsr_in p n d s = (lfsr p ^^ n) (s XOR take_bit n d)"
proof (induction n arbitrary: d s)
  case (Suc n)
  let ?r = "take_bit (Suc n) d XOR (d AND 1)"
  have "\<not> bit ?r 0" by (simp only: bit_xor_iff bit_and_iff bit_take_bit_iff) (simp add: bit_1_iff)
  then have "lfsr p ?r = drop_bit 1 ?r" by (simp only: lfsr_def if_False)
  moreover have "drop_bit 1 ?r = take_bit n (drop_bit 1 d)"
    by (rule bit_word_eqI) (auto simp: bit_simps and_masks)
  ultimately have "lfsr p ?r = take_bit n (drop_bit 1 d)" by simp
  then have "lfsr p (s XOR (d AND 1) XOR ?r) = lfsr p (s XOR (d AND 1)) XOR take_bit n (drop_bit 1 d)"
    by (simp only: linear_wordD [OF lfsr_linear] xor.assoc)
  moreover have "s XOR (d AND 1) XOR ?r = s XOR take_bit (Suc n) d"
    by (rule bit_word_eqI) (auto simp: bit_xor_iff)
  ultimately show ?case using Suc by (simp add: funpow_Suc_right del: funpow.simps)
qed simp

end
