(* ===== verification/Tables.thy ===== *)
theory Tables
  imports Linear
begin

text \<open>
  The lookup tables of firmware/btbr/src/codec/bitstream_proc.c, entry by entry, and for each the
  basis over GF(2) it is built from (\<open>..._lin\<close>).
\<close>

definition rev8_map :: "8 word list" where
  "rev8_map = [
    0x0, 0x80, 0x40, 0xc0, 0x20, 0xa0, 0x60, 0xe0, 0x10, 0x90, 0x50, 0xd0, 0x30, 0xb0, 0x70, 0xf0,
    0x8, 0x88, 0x48, 0xc8, 0x28, 0xa8, 0x68, 0xe8, 0x18, 0x98, 0x58, 0xd8, 0x38, 0xb8, 0x78, 0xf8,
    0x4, 0x84, 0x44, 0xc4, 0x24, 0xa4, 0x64, 0xe4, 0x14, 0x94, 0x54, 0xd4, 0x34, 0xb4, 0x74, 0xf4,
    0xc, 0x8c, 0x4c, 0xcc, 0x2c, 0xac, 0x6c, 0xec, 0x1c, 0x9c, 0x5c, 0xdc, 0x3c, 0xbc, 0x7c, 0xfc,
    0x2, 0x82, 0x42, 0xc2, 0x22, 0xa2, 0x62, 0xe2, 0x12, 0x92, 0x52, 0xd2, 0x32, 0xb2, 0x72, 0xf2,
    0xa, 0x8a, 0x4a, 0xca, 0x2a, 0xaa, 0x6a, 0xea, 0x1a, 0x9a, 0x5a, 0xda, 0x3a, 0xba, 0x7a, 0xfa,
    0x6, 0x86, 0x46, 0xc6, 0x26, 0xa6, 0x66, 0xe6, 0x16, 0x96, 0x56, 0xd6, 0x36, 0xb6, 0x76, 0xf6,
    0xe, 0x8e, 0x4e, 0xce, 0x2e, 0xae, 0x6e, 0xee, 0x1e, 0x9e, 0x5e, 0xde, 0x3e, 0xbe, 0x7e, 0xfe,
    0x1, 0x81, 0x41, 0xc1, 0x21, 0xa1, 0x61, 0xe1, 0x11, 0x91, 0x51, 0xd1, 0x31, 0xb1, 0x71, 0xf1,
    0x9, 0x89, 0x49, 0xc9, 0x29, 0xa9, 0x69, 0xe9, 0x19, 0x99, 0x59, 0xd9, 0x39, 0xb9, 0x79, 0xf9,
    0x5, 0x85, 0x45, 0xc5, 0x25, 0xa5, 0x65, 0xe5, 0x15, 0x95, 0x55, 0xd5, 0x35, 0xb5, 0x75, 0xf5,
    0xd, 0x8d, 0x4d, 0xcd, 0x2d, 0xad, 0x6d, 0xed, 0x1d, 0x9d, 0x5d, 0xdd, 0x3d, 0xbd, 0x7d, 0xfd,
    0x3, 0x83, 0x43, 0xc3, 0x23, 0xa3, 0x63, 0xe3, 0x13, 0x93, 0x53, 0xd3, 0x33, 0xb3, 0x73, 0xf3,
    0xb, 0x8b, 0x4b, 0xcb, 0x2b, 0xab, 0x6b, 0xeb, 0x1b, 0x9b, 0x5b, 0xdb, 0x3b, 0xbb, 0x7b, 0xfb,
    0x7, 0x87, 0x47, 0xc7, 0x27, 0xa7, 0x67, 0xe7, 0x17, 0x97, 0x57, 0xd7, 0x37, 0xb7, 0x77, 0xf7,
    0xf, 0x8f, 0x4f, 0xcf, 0x2f, 0xaf, 0x6f, 0xef, 0x1f, 0x9f, 0x5f, 0xdf, 0x3f, 0xbf, 0x7f, 0xff]"

lemma rev8_map_lin: "rev8_map = lin_tab [0x80, 0x40, 0x20, 0x10, 0x8, 0x4, 0x2, 0x1]"
  by (simp add: lin_tab_def rev8_map_def)

definition whiten_word_tbl :: "8 word list" where
  "whiten_word_tbl = [
    0x00, 0x40, 0x20, 0x60, 0x90, 0xd0, 0xb0, 0xf0, 0x48, 0x08, 0x68, 0x28, 0xd8, 0x98, 0xf8, 0xb8,
    0x24, 0x64, 0x04, 0x44, 0xb4, 0xf4, 0x94, 0xd4, 0x6c, 0x2c, 0x4c, 0x0c, 0xfc, 0xbc, 0xdc, 0x9c,
    0x92, 0xd2, 0xb2, 0xf2, 0x02, 0x42, 0x22, 0x62, 0xda, 0x9a, 0xfa, 0xba, 0x4a, 0x0a, 0x6a, 0x2a,
    0xb6, 0xf6, 0x96, 0xd6, 0x26, 0x66, 0x06, 0x46, 0xfe, 0xbe, 0xde, 0x9e, 0x6e, 0x2e, 0x4e, 0x0e,
    0xc9, 0x89, 0xe9, 0xa9, 0x59, 0x19, 0x79, 0x39, 0x81, 0xc1, 0xa1, 0xe1, 0x11, 0x51, 0x31, 0x71,
    0xed, 0xad, 0xcd, 0x8d, 0x7d, 0x3d, 0x5d, 0x1d, 0xa5, 0xe5, 0x85, 0xc5, 0x35, 0x75, 0x15, 0x55,
    0x5b, 0x1b, 0x7b, 0x3b, 0xcb, 0x8b, 0xeb, 0xab, 0x13, 0x53, 0x33, 0x73, 0x83, 0xc3, 0xa3, 0xe3,
    0x7f, 0x3f, 0x5f, 0x1f, 0xef, 0xaf, 0xcf, 0x8f, 0x37, 0x77, 0x17, 0x57, 0xa7, 0xe7, 0x87, 0xc7]"

lemma whiten_word_tbl_lin: "whiten_word_tbl = lin_tab [0x40, 0x20, 0x90, 0x48, 0x24, 0x92, 0xc9]"
  by (simp add: lin_tab_def whiten_word_tbl_def)

definition whiten_state_tbl_0 :: "8 word list" where
  "whiten_state_tbl_0 = [
    0x00, 0x02, 0x04, 0x06, 0x08, 0x0a, 0x0c, 0x0e, 0x10, 0x12, 0x14, 0x16, 0x18, 0x1a, 0x1c, 0x1e,
    0x20, 0x22, 0x24, 0x26, 0x28, 0x2a, 0x2c, 0x2e, 0x30, 0x32, 0x34, 0x36, 0x38, 0x3a, 0x3c, 0x3e,
    0x40, 0x42, 0x44, 0x46, 0x48, 0x4a, 0x4c, 0x4e, 0x50, 0x52, 0x54, 0x56, 0x58, 0x5a, 0x5c, 0x5e,
    0x60, 0x62, 0x64, 0x66, 0x68, 0x6a, 0x6c, 0x6e, 0x70, 0x72, 0x74, 0x76, 0x78, 0x7a, 0x7c, 0x7e,
    0x11, 0x13, 0x15, 0x17, 0x19, 0x1b, 0x1d, 0x1f, 0x01, 0x03, 0x05, 0x07, 0x09, 0x0b, 0x0d, 0x0f,
    0x31, 0x33, 0x35, 0x37, 0x39, 0x3b, 0x3d, 0x3f, 0x21, 0x23, 0x25, 0x27, 0x29, 0x2b, 0x2d, 0x2f,
    0x51, 0x53, 0x55, 0x57, 0x59, 0x5b, 0x5d, 0x5f, 0x41, 0x43, 0x45, 0x47, 0x49, 0x4b, 0x4d, 0x4f,
    0x71, 0x73, 0x75, 0x77, 0x79, 0x7b, 0x7d, 0x7f, 0x61, 0x63, 0x65, 0x67, 0x69, 0x6b, 0x6d, 0x6f]"

lemma whiten_state_tbl_0_lin: "whiten_state_tbl_0 = lin_tab [0x02, 0x04, 0x08, 0x10, 0x20, 0x40, 0x11]"
  by (simp add: lin_tab_def whiten_state_tbl_0_def)

definition whiten_state_tbl_1 :: "8 word list" where
  "whiten_state_tbl_1 = [
    0x00, 0x04, 0x08, 0x0c, 0x10, 0x14, 0x18, 0x1c, 0x20, 0x24, 0x28, 0x2c, 0x30, 0x34, 0x38, 0x3c,
    0x40, 0x44, 0x48, 0x4c, 0x50, 0x54, 0x58, 0x5c, 0x60, 0x64, 0x68, 0x6c, 0x70, 0x74, 0x78, 0x7c,
    0x11, 0x15, 0x19, 0x1d, 0x01, 0x05, 0x09, 0x0d, 0x31, 0x35, 0x39, 0x3d, 0x21, 0x25, 0x29, 0x2d,
    0x51, 0x55, 0x59, 0x5d, 0x41, 0x45, 0x49, 0x4d, 0x71, 0x75, 0x79, 0x7d, 0x61, 0x65, 0x69, 0x6d,
    0x22, 0x26, 0x2a, 0x2e, 0x32, 0x36, 0x3a, 0x3e, 0x02, 0x06, 0x0a, 0x0e, 0x12, 0x16, 0x1a, 0x1e,
    0x62, 0x66, 0x6a, 0x6e, 0x72, 0x76, 0x7a, 0x7e, 0x42, 0x46, 0x4a, 0x4e, 0x52, 0x56, 0x5a, 0x5e,
    0x33, 0x37, 0x3b, 0x3f, 0x23, 0x27, 0x2b, 0x2f, 0x13, 0x17, 0x1b, 0x1f, 0x03, 0x07, 0x0b, 0x0f,
    0x73, 0x77, 0x7b, 0x7f, 0x63, 0x67, 0x6b, 0x6f, 0x53, 0x57, 0x5b, 0x5f, 0x43, 0x47, 0x4b, 0x4f]"

lemma whiten_state_tbl_1_lin: "whiten_state_tbl_1 = lin_tab [0x04, 0x08, 0x10, 0x20, 0x40, 0x11, 0x22]"
  by (simp add: lin_tab_def whiten_state_tbl_1_def)

definition whiten_state_tbl_2 :: "8 word list" where
  "whiten_state_tbl_2 = [
    0x00, 0x08, 0x10, 0x18, 0x20, 0x28, 0x30, 0x38, 0x40, 0x48, 0x50, 0x58, 0x60, 0x68, 0x70, 0x78,
    0x11, 0x19, 0x01, 0x09, 0x31, 0x39, 0x21, 0x29, 0x51, 0x59, 0x41, 0x49, 0x71, 0x79, 0x61, 0x69,
    0x22, 0x2a, 0x32, 0x3a, 0x02, 0x0a, 0x12, 0x1a, 0x62, 0x6a, 0x72, 0x7a, 0x42, 0x4a, 0x52, 0x5a,
    0x33, 0x3b, 0x23, 0x2b, 0x13, 0x1b, 0x03, 0x0b, 0x73, 0x7b, 0x63, 0x6b, 0x53, 0x5b, 0x43, 0x4b,
    0x44, 0x4c, 0x54, 0x5c, 0x64, 0x6c, 0x74, 0x7c, 0x04, 0x0c, 0x14, 0x1c, 0x24, 0x2c, 0x34, 0x3c,
    0x55, 0x5d, 0x45, 0x4d, 0x75, 0x7d, 0x65, 0x6d, 0x15, 0x1d, 0x05, 0x0d, 0x35, 0x3d, 0x25, 0x2d,
    0x66, 0x6e, 0x76, 0x7e, 0x46, 0x4e, 0x56, 0x5e, 0x26, 0x2e, 0x36, 0x3e, 0x06, 0x0e, 0x16, 0x1e,
    0x77, 0x7f, 0x67, 0x6f, 0x57, 0x5f, 0x47, 0x4f, 0x37, 0x3f, 0x27, 0x2f, 0x17, 0x1f, 0x07, 0x0f]"

lemma whiten_state_tbl_2_lin: "whiten_state_tbl_2 = lin_tab [0x08, 0x10, 0x20, 0x40, 0x11, 0x22, 0x44]"
  by (simp add: lin_tab_def whiten_state_tbl_2_def)

definition whiten_state_tbl_3 :: "8 word list" where
  "whiten_state_tbl_3 = [
    0x00, 0x10, 0x20, 0x30, 0x40, 0x50, 0x60, 0x70, 0x11, 0x01, 0x31, 0x21, 0x51, 0x41, 0x71, 0x61,
    0x22, 0x32, 0x02, 0x12, 0x62, 0x72, 0x42, 0x52, 0x33, 0x23, 0x13, 0x03, 0x73, 0x63, 0x53, 0x43,
    0x44, 0x54, 0x64, 0x74, 0x04, 0x14, 0x24, 0x34, 0x55, 0x45, 0x75, 0x65, 0x15, 0x05, 0x35, 0x25,
    0x66, 0x76, 0x46, 0x56, 0x26, 0x36, 0x06, 0x16, 0x77, 0x67, 0x57, 0x47, 0x37, 0x27, 0x17, 0x07,
    0x19, 0x09, 0x39, 0x29, 0x59, 0x49, 0x79, 0x69, 0x08, 0x18, 0x28, 0x38, 0x48, 0x58, 0x68, 0x78,
    0x3b, 0x2b, 0x1b, 0x0b, 0x7b, 0x6b, 0x5b, 0x4b, 0x2a, 0x3a, 0x0a, 0x1a, 0x6a, 0x7a, 0x4a, 0x5a,
    0x5d, 0x4d, 0x7d, 0x6d, 0x1d, 0x0d, 0x3d, 0x2d, 0x4c, 0x5c, 0x6c, 0x7c, 0x0c, 0x1c, 0x2c, 0x3c,
    0x7f, 0x6f, 0x5f, 0x4f, 0x3f, 0x2f, 0x1f, 0x0f, 0x6e, 0x7e, 0x4e, 0x5e, 0x2e, 0x3e, 0x0e, 0x1e]"

lemma whiten_state_tbl_3_lin: "whiten_state_tbl_3 = lin_tab [0x10, 0x20, 0x40, 0x11, 0x22, 0x44, 0x19]"
  by (simp add: lin_tab_def whiten_state_tbl_3_def)

definition whiten_state_tbl_4 :: "8 word list" where
  "whiten_state_tbl_4 = [
    0x00, 0x20, 0x40, 0x60, 0x11, 0x31, 0x51, 0x71, 0x22, 0x02, 0x62, 0x42, 0x33, 0x13, 0x73, 0x53,
    0x44, 0x64, 0x04, 0x24, 0x55, 0x75, 0x15, 0x35, 0x66, 0x46, 0x26, 0x06, 0x77, 0x57, 0x37, 0x17,
    0x19, 0x39, 0x59, 0x79, 0x08, 0x28, 0x48, 0x68, 0x3b, 0x1b, 0x7b, 0x5b, 0x2a, 0x0a, 0x6a, 0x4a,
    0x5d, 0x7d, 0x1d, 0x3d, 0x4c, 0x6c, 0x0c, 0x2c, 0x7f, 0x5f, 0x3f, 0x1f, 0x6e, 0x4e, 0x2e, 0x0e,
    0x32, 0x12, 0x72, 0x52, 0x23, 0x03, 0x63, 0x43, 0x10, 0x30, 0x50, 0x70, 0x01, 0x21, 0x41, 0x61,
    0x76, 0x56, 0x36, 0x16, 0x67, 0x47, 0x27, 0x07, 0x54, 0x74, 0x14, 0x34, 0x45, 0x65, 0x05, 0x25,
    0x2b, 0x0b, 0x6b, 0x4b, 0x3a, 0x1a, 0x7a, 0x5a, 0x09, 0x29, 0x49, 0x69, 0x18, 0x38, 0x58, 0x78,
    0x6f, 0x4f, 0x2f, 0x0f, 0x7e, 0x5e, 0x3e, 0x1e, 0x4d, 0x6d, 0x0d, 0x2d, 0x5c, 0x7c, 0x1c, 0x3c]"

lemma whiten_state_tbl_4_lin: "whiten_state_tbl_4 = lin_tab [0x20, 0x40, 0x11, 0x22, 0x44, 0x19, 0x32]"
  by (simp add: lin_tab_def whiten_state_tbl_4_def)

definition whiten_state_tbl_5 :: "8 word list" where
  "whiten_state_tbl_5 = [
    0x00, 0x40, 0x11, 0x51, 0x22, 0x62, 0x33, 0x73, 0x44, 0x04, 0x55, 0x15, 0x66, 0x26, 0x77, 0x37,
    0x19, 0x59, 0x08, 0x48, 0x3b, 0x7b, 0x2a, 0x6a, 0x5d, 0x1d, 0x4c, 0x0c, 0x7f, 0x3f, 0x6e, 0x2e,
    0x32, 0x72, 0x23, 0x63, 0x10, 0x50, 0x01, 0x41, 0x76, 0x36, 0x67, 0x27, 0x54, 0x14, 0x45, 0x05,
    0x2b, 0x6b, 0x3a, 0x7a, 0x09, 0x49, 0x18, 0x58, 0x6f, 0x2f, 0x7e, 0x3e, 0x4d, 0x0d, 0x5c, 0x1c,
    0x64, 0x24, 0x75, 0x35, 0x46, 0x06, 0x57, 0x17, 0x20, 0x60, 0x31, 0x71, 0x02, 0x42, 0x13, 0x53,
    0x7d, 0x3d, 0x6c, 0x2c, 0x5f, 0x1f, 0x4e, 0x0e, 0x39, 0x79, 0x28, 0x68, 0x1b, 0x5b, 0x0a, 0x4a,
    0x56, 0x16, 0x47, 0x07, 0x74, 0x34, 0x65, 0x25, 0x12, 0x52, 0x03, 0x43, 0x30, 0x70, 0x21, 0x61,
    0x4f, 0x0f, 0x5e, 0x1e, 0x6d, 0x2d, 0x7c, 0x3c, 0x0b, 0x4b, 0x1a, 0x5a, 0x29, 0x69, 0x38, 0x78]"

lemma whiten_state_tbl_5_lin: "whiten_state_tbl_5 = lin_tab [0x40, 0x11, 0x22, 0x44, 0x19, 0x32, 0x64]"
  by (simp add: lin_tab_def whiten_state_tbl_5_def)

definition whiten_state_tbl_6 :: "8 word list" where
  "whiten_state_tbl_6 = [
    0x00, 0x11, 0x22, 0x33, 0x44, 0x55, 0x66, 0x77, 0x19, 0x08, 0x3b, 0x2a, 0x5d, 0x4c, 0x7f, 0x6e,
    0x32, 0x23, 0x10, 0x01, 0x76, 0x67, 0x54, 0x45, 0x2b, 0x3a, 0x09, 0x18, 0x6f, 0x7e, 0x4d, 0x5c,
    0x64, 0x75, 0x46, 0x57, 0x20, 0x31, 0x02, 0x13, 0x7d, 0x6c, 0x5f, 0x4e, 0x39, 0x28, 0x1b, 0x0a,
    0x56, 0x47, 0x74, 0x65, 0x12, 0x03, 0x30, 0x21, 0x4f, 0x5e, 0x6d, 0x7c, 0x0b, 0x1a, 0x29, 0x38,
    0x59, 0x48, 0x7b, 0x6a, 0x1d, 0x0c, 0x3f, 0x2e, 0x40, 0x51, 0x62, 0x73, 0x04, 0x15, 0x26, 0x37,
    0x6b, 0x7a, 0x49, 0x58, 0x2f, 0x3e, 0x0d, 0x1c, 0x72, 0x63, 0x50, 0x41, 0x36, 0x27, 0x14, 0x05,
    0x3d, 0x2c, 0x1f, 0x0e, 0x79, 0x68, 0x5b, 0x4a, 0x24, 0x35, 0x06, 0x17, 0x60, 0x71, 0x42, 0x53,
    0x0f, 0x1e, 0x2d, 0x3c, 0x4b, 0x5a, 0x69, 0x78, 0x16, 0x07, 0x34, 0x25, 0x52, 0x43, 0x70, 0x61]"

lemma whiten_state_tbl_6_lin: "whiten_state_tbl_6 = lin_tab [0x11, 0x22, 0x44, 0x19, 0x32, 0x64, 0x59]"
  by (simp add: lin_tab_def whiten_state_tbl_6_def)

definition whiten_state_tbl_7 :: "8 word list" where
  "whiten_state_tbl_7 = [
    0x00, 0x22, 0x44, 0x66, 0x19, 0x3b, 0x5d, 0x7f, 0x32, 0x10, 0x76, 0x54, 0x2b, 0x09, 0x6f, 0x4d,
    0x64, 0x46, 0x20, 0x02, 0x7d, 0x5f, 0x39, 0x1b, 0x56, 0x74, 0x12, 0x30, 0x4f, 0x6d, 0x0b, 0x29,
    0x59, 0x7b, 0x1d, 0x3f, 0x40, 0x62, 0x04, 0x26, 0x6b, 0x49, 0x2f, 0x0d, 0x72, 0x50, 0x36, 0x14,
    0x3d, 0x1f, 0x79, 0x5b, 0x24, 0x06, 0x60, 0x42, 0x0f, 0x2d, 0x4b, 0x69, 0x16, 0x34, 0x52, 0x70,
    0x23, 0x01, 0x67, 0x45, 0x3a, 0x18, 0x7e, 0x5c, 0x11, 0x33, 0x55, 0x77, 0x08, 0x2a, 0x4c, 0x6e,
    0x47, 0x65, 0x03, 0x21, 0x5e, 0x7c, 0x1a, 0x38, 0x75, 0x57, 0x31, 0x13, 0x6c, 0x4e, 0x28, 0x0a,
    0x7a, 0x58, 0x3e, 0x1c, 0x63, 0x41, 0x27, 0x05, 0x48, 0x6a, 0x0c, 0x2e, 0x51, 0x73, 0x15, 0x37,
    0x1e, 0x3c, 0x5a, 0x78, 0x07, 0x25, 0x43, 0x61, 0x2c, 0x0e, 0x68, 0x4a, 0x35, 0x17, 0x71, 0x53]"

lemma whiten_state_tbl_7_lin: "whiten_state_tbl_7 = lin_tab [0x22, 0x44, 0x19, 0x32, 0x64, 0x59, 0x23]"
  by (simp add: lin_tab_def whiten_state_tbl_7_def)

definition whiten_state_tbl :: "8 word list list" where
  "whiten_state_tbl = [whiten_state_tbl_0,
    whiten_state_tbl_1,
    whiten_state_tbl_2,
    whiten_state_tbl_3,
    whiten_state_tbl_4,
    whiten_state_tbl_5,
    whiten_state_tbl_6,
    whiten_state_tbl_7]"

definition fec13_tbl :: "32 word list" where
  "fec13_tbl = [
    0x000000, 0x000007, 0x000038, 0x00003f, 0x0001c0, 0x0001c7, 0x0001f8, 0x0001ff,
    0x000e00, 0x000e07, 0x000e38, 0x000e3f, 0x000fc0, 0x000fc7, 0x000ff8, 0x000fff,
    0x007000, 0x007007, 0x007038, 0x00703f, 0x0071c0, 0x0071c7, 0x0071f8, 0x0071ff,
    0x007e00, 0x007e07, 0x007e38, 0x007e3f, 0x007fc0, 0x007fc7, 0x007ff8, 0x007fff,
    0x038000, 0x038007, 0x038038, 0x03803f, 0x0381c0, 0x0381c7, 0x0381f8, 0x0381ff,
    0x038e00, 0x038e07, 0x038e38, 0x038e3f, 0x038fc0, 0x038fc7, 0x038ff8, 0x038fff,
    0x03f000, 0x03f007, 0x03f038, 0x03f03f, 0x03f1c0, 0x03f1c7, 0x03f1f8, 0x03f1ff,
    0x03fe00, 0x03fe07, 0x03fe38, 0x03fe3f, 0x03ffc0, 0x03ffc7, 0x03fff8, 0x03ffff,
    0x1c0000, 0x1c0007, 0x1c0038, 0x1c003f, 0x1c01c0, 0x1c01c7, 0x1c01f8, 0x1c01ff,
    0x1c0e00, 0x1c0e07, 0x1c0e38, 0x1c0e3f, 0x1c0fc0, 0x1c0fc7, 0x1c0ff8, 0x1c0fff,
    0x1c7000, 0x1c7007, 0x1c7038, 0x1c703f, 0x1c71c0, 0x1c71c7, 0x1c71f8, 0x1c71ff,
    0x1c7e00, 0x1c7e07, 0x1c7e38, 0x1c7e3f, 0x1c7fc0, 0x1c7fc7, 0x1c7ff8, 0x1c7fff,
    0x1f8000, 0x1f8007, 0x1f8038, 0x1f803f, 0x1f81c0, 0x1f81c7, 0x1f81f8, 0x1f81ff,
    0x1f8e00, 0x1f8e07, 0x1f8e38, 0x1f8e3f, 0x1f8fc0, 0x1f8fc7, 0x1f8ff8, 0x1f8fff,
    0x1ff000, 0x1ff007, 0x1ff038, 0x1ff03f, 0x1ff1c0, 0x1ff1c7, 0x1ff1f8, 0x1ff1ff,
    0x1ffe00, 0x1ffe07, 0x1ffe38, 0x1ffe3f, 0x1fffc0, 0x1fffc7, 0x1ffff8, 0x1fffff,
    0xe00000, 0xe00007, 0xe00038, 0xe0003f, 0xe001c0, 0xe001c7, 0xe001f8, 0xe001ff,
    0xe00e00, 0xe00e07, 0xe00e38, 0xe00e3f, 0xe00fc0, 0xe00fc7, 0xe00ff8, 0xe00fff,
    0xe07000, 0xe07007, 0xe07038, 0xe0703f, 0xe071c0, 0xe071c7, 0xe071f8, 0xe071ff,
    0xe07e00, 0xe07e07, 0xe07e38, 0xe07e3f, 0xe07fc0, 0xe07fc7, 0xe07ff8, 0xe07fff,
    0xe38000, 0xe38007, 0xe38038, 0xe3803f, 0xe381c0, 0xe381c7, 0xe381f8, 0xe381ff,
    0xe38e00, 0xe38e07, 0xe38e38, 0xe38e3f, 0xe38fc0, 0xe38fc7, 0xe38ff8, 0xe38fff,
    0xe3f000, 0xe3f007, 0xe3f038, 0xe3f03f, 0xe3f1c0, 0xe3f1c7, 0xe3f1f8, 0xe3f1ff,
    0xe3fe00, 0xe3fe07, 0xe3fe38, 0xe3fe3f, 0xe3ffc0, 0xe3ffc7, 0xe3fff8, 0xe3ffff,
    0xfc0000, 0xfc0007, 0xfc0038, 0xfc003f, 0xfc01c0, 0xfc01c7, 0xfc01f8, 0xfc01ff,
    0xfc0e00, 0xfc0e07, 0xfc0e38, 0xfc0e3f, 0xfc0fc0, 0xfc0fc7, 0xfc0ff8, 0xfc0fff,
    0xfc7000, 0xfc7007, 0xfc7038, 0xfc703f, 0xfc71c0, 0xfc71c7, 0xfc71f8, 0xfc71ff,
    0xfc7e00, 0xfc7e07, 0xfc7e38, 0xfc7e3f, 0xfc7fc0, 0xfc7fc7, 0xfc7ff8, 0xfc7fff,
    0xff8000, 0xff8007, 0xff8038, 0xff803f, 0xff81c0, 0xff81c7, 0xff81f8, 0xff81ff,
    0xff8e00, 0xff8e07, 0xff8e38, 0xff8e3f, 0xff8fc0, 0xff8fc7, 0xff8ff8, 0xff8fff,
    0xfff000, 0xfff007, 0xfff038, 0xfff03f, 0xfff1c0, 0xfff1c7, 0xfff1f8, 0xfff1ff,
    0xfffe00, 0xfffe07, 0xfffe38, 0xfffe3f, 0xffffc0, 0xffffc7, 0xfffff8, 0xffffff]"

lemma fec13_tbl_lin: "fec13_tbl = lin_tab [0x000007, 0x000038, 0x0001c0, 0x000e00, 0x007000, 0x038000, 0x1c0000, 0xe00000]"
  by (simp add: lin_tab_def fec13_tbl_def)

definition unfec13_tbl :: "16 word list" where
  "unfec13_tbl = [
    0x0000, 0x4000, 0x4000, 0x4001, 0x4000, 0x4001, 0x4001, 0x0001,
    0x4000, 0x8000, 0x8000, 0x8001, 0x8000, 0x8001, 0x8001, 0x4001,
    0x4000, 0x8000, 0x8000, 0x8001, 0x8000, 0x8001, 0x8001, 0x4001,
    0x4002, 0x8002, 0x8002, 0x8003, 0x8002, 0x8003, 0x8003, 0x4003,
    0x4000, 0x8000, 0x8000, 0x8001, 0x8000, 0x8001, 0x8001, 0x4001,
    0x4002, 0x8002, 0x8002, 0x8003, 0x8002, 0x8003, 0x8003, 0x4003,
    0x4002, 0x8002, 0x8002, 0x8003, 0x8002, 0x8003, 0x8003, 0x4003,
    0x0002, 0x4002, 0x4002, 0x4003, 0x4002, 0x4003, 0x4003, 0x0003]"

definition fec23_tbl_0 :: "8 word list" where
  "fec23_tbl_0 = [
    0x00, 0x0b, 0x16, 0x1d, 0x07, 0x0c, 0x11, 0x1a, 0x0e, 0x05, 0x18, 0x13, 0x09, 0x02, 0x1f, 0x14,
    0x1c, 0x17, 0x0a, 0x01, 0x1b, 0x10, 0x0d, 0x06, 0x12, 0x19, 0x04, 0x0f, 0x15, 0x1e, 0x03, 0x08,
    0x13, 0x18, 0x05, 0x0e, 0x14, 0x1f, 0x02, 0x09, 0x1d, 0x16, 0x0b, 0x00, 0x1a, 0x11, 0x0c, 0x07,
    0x0f, 0x04, 0x19, 0x12, 0x08, 0x03, 0x1e, 0x15, 0x01, 0x0a, 0x17, 0x1c, 0x06, 0x0d, 0x10, 0x1b,
    0x0d, 0x06, 0x1b, 0x10, 0x0a, 0x01, 0x1c, 0x17, 0x03, 0x08, 0x15, 0x1e, 0x04, 0x0f, 0x12, 0x19,
    0x11, 0x1a, 0x07, 0x0c, 0x16, 0x1d, 0x00, 0x0b, 0x1f, 0x14, 0x09, 0x02, 0x18, 0x13, 0x0e, 0x05,
    0x1e, 0x15, 0x08, 0x03, 0x19, 0x12, 0x0f, 0x04, 0x10, 0x1b, 0x06, 0x0d, 0x17, 0x1c, 0x01, 0x0a,
    0x02, 0x09, 0x14, 0x1f, 0x05, 0x0e, 0x13, 0x18, 0x0c, 0x07, 0x1a, 0x11, 0x0b, 0x00, 0x1d, 0x16,
    0x1a, 0x11, 0x0c, 0x07, 0x1d, 0x16, 0x0b, 0x00, 0x14, 0x1f, 0x02, 0x09, 0x13, 0x18, 0x05, 0x0e,
    0x06, 0x0d, 0x10, 0x1b, 0x01, 0x0a, 0x17, 0x1c, 0x08, 0x03, 0x1e, 0x15, 0x0f, 0x04, 0x19, 0x12,
    0x09, 0x02, 0x1f, 0x14, 0x0e, 0x05, 0x18, 0x13, 0x07, 0x0c, 0x11, 0x1a, 0x00, 0x0b, 0x16, 0x1d,
    0x15, 0x1e, 0x03, 0x08, 0x12, 0x19, 0x04, 0x0f, 0x1b, 0x10, 0x0d, 0x06, 0x1c, 0x17, 0x0a, 0x01,
    0x17, 0x1c, 0x01, 0x0a, 0x10, 0x1b, 0x06, 0x0d, 0x19, 0x12, 0x0f, 0x04, 0x1e, 0x15, 0x08, 0x03,
    0x0b, 0x00, 0x1d, 0x16, 0x0c, 0x07, 0x1a, 0x11, 0x05, 0x0e, 0x13, 0x18, 0x02, 0x09, 0x14, 0x1f,
    0x04, 0x0f, 0x12, 0x19, 0x03, 0x08, 0x15, 0x1e, 0x0a, 0x01, 0x1c, 0x17, 0x0d, 0x06, 0x1b, 0x10,
    0x18, 0x13, 0x0e, 0x05, 0x1f, 0x14, 0x09, 0x02, 0x16, 0x1d, 0x00, 0x0b, 0x11, 0x1a, 0x07, 0x0c]"

definition fec23_tbl_1 :: "8 word list" where
  "fec23_tbl_1 = [
    0x1f, 0x14, 0x09, 0x02, 0x18, 0x13, 0x0e, 0x05, 0x11, 0x1a, 0x07, 0x0c, 0x16, 0x1d, 0x00, 0x0b,
    0x03, 0x08, 0x15, 0x1e, 0x04, 0x0f, 0x12, 0x19, 0x0d, 0x06, 0x1b, 0x10, 0x0a, 0x01, 0x1c, 0x17,
    0x0c, 0x07, 0x1a, 0x11, 0x0b, 0x00, 0x1d, 0x16, 0x02, 0x09, 0x14, 0x1f, 0x05, 0x0e, 0x13, 0x18,
    0x10, 0x1b, 0x06, 0x0d, 0x17, 0x1c, 0x01, 0x0a, 0x1e, 0x15, 0x08, 0x03, 0x19, 0x12, 0x0f, 0x04,
    0x12, 0x19, 0x04, 0x0f, 0x15, 0x1e, 0x03, 0x08, 0x1c, 0x17, 0x0a, 0x01, 0x1b, 0x10, 0x0d, 0x06,
    0x0e, 0x05, 0x18, 0x13, 0x09, 0x02, 0x1f, 0x14, 0x00, 0x0b, 0x16, 0x1d, 0x07, 0x0c, 0x11, 0x1a,
    0x01, 0x0a, 0x17, 0x1c, 0x06, 0x0d, 0x10, 0x1b, 0x0f, 0x04, 0x19, 0x12, 0x08, 0x03, 0x1e, 0x15,
    0x1d, 0x16, 0x0b, 0x00, 0x1a, 0x11, 0x0c, 0x07, 0x13, 0x18, 0x05, 0x0e, 0x14, 0x1f, 0x02, 0x09,
    0x05, 0x0e, 0x13, 0x18, 0x02, 0x09, 0x14, 0x1f, 0x0b, 0x00, 0x1d, 0x16, 0x0c, 0x07, 0x1a, 0x11,
    0x19, 0x12, 0x0f, 0x04, 0x1e, 0x15, 0x08, 0x03, 0x17, 0x1c, 0x01, 0x0a, 0x10, 0x1b, 0x06, 0x0d,
    0x16, 0x1d, 0x00, 0x0b, 0x11, 0x1a, 0x07, 0x0c, 0x18, 0x13, 0x0e, 0x05, 0x1f, 0x14, 0x09, 0x02,
    0x0a, 0x01, 0x1c, 0x17, 0x0d, 0x06, 0x1b, 0x10, 0x04, 0x0f, 0x12, 0x19, 0x03, 0x08, 0x15, 0x1e,
    0x08, 0x03, 0x1e, 0x15, 0x0f, 0x04, 0x19, 0x12, 0x06, 0x0d, 0x10, 0x1b, 0x01, 0x0a, 0x17, 0x1c,
    0x14, 0x1f, 0x02, 0x09, 0x13, 0x18, 0x05, 0x0e, 0x1a, 0x11, 0x0c, 0x07, 0x1d, 0x16, 0x0b, 0x00,
    0x1b, 0x10, 0x0d, 0x06, 0x1c, 0x17, 0x0a, 0x01, 0x15, 0x1e, 0x03, 0x08, 0x12, 0x19, 0x04, 0x0f,
    0x07, 0x0c, 0x11, 0x1a, 0x00, 0x0b, 0x16, 0x1d, 0x09, 0x02, 0x1f, 0x14, 0x0e, 0x05, 0x18, 0x13]"

definition fec23_tbl_2 :: "8 word list" where
  "fec23_tbl_2 = [
    0x15, 0x1e, 0x03, 0x08, 0x12, 0x19, 0x04, 0x0f, 0x1b, 0x10, 0x0d, 0x06, 0x1c, 0x17, 0x0a, 0x01,
    0x09, 0x02, 0x1f, 0x14, 0x0e, 0x05, 0x18, 0x13, 0x07, 0x0c, 0x11, 0x1a, 0x00, 0x0b, 0x16, 0x1d,
    0x06, 0x0d, 0x10, 0x1b, 0x01, 0x0a, 0x17, 0x1c, 0x08, 0x03, 0x1e, 0x15, 0x0f, 0x04, 0x19, 0x12,
    0x1a, 0x11, 0x0c, 0x07, 0x1d, 0x16, 0x0b, 0x00, 0x14, 0x1f, 0x02, 0x09, 0x13, 0x18, 0x05, 0x0e,
    0x18, 0x13, 0x0e, 0x05, 0x1f, 0x14, 0x09, 0x02, 0x16, 0x1d, 0x00, 0x0b, 0x11, 0x1a, 0x07, 0x0c,
    0x04, 0x0f, 0x12, 0x19, 0x03, 0x08, 0x15, 0x1e, 0x0a, 0x01, 0x1c, 0x17, 0x0d, 0x06, 0x1b, 0x10,
    0x0b, 0x00, 0x1d, 0x16, 0x0c, 0x07, 0x1a, 0x11, 0x05, 0x0e, 0x13, 0x18, 0x02, 0x09, 0x14, 0x1f,
    0x17, 0x1c, 0x01, 0x0a, 0x10, 0x1b, 0x06, 0x0d, 0x19, 0x12, 0x0f, 0x04, 0x1e, 0x15, 0x08, 0x03,
    0x0f, 0x04, 0x19, 0x12, 0x08, 0x03, 0x1e, 0x15, 0x01, 0x0a, 0x17, 0x1c, 0x06, 0x0d, 0x10, 0x1b,
    0x13, 0x18, 0x05, 0x0e, 0x14, 0x1f, 0x02, 0x09, 0x1d, 0x16, 0x0b, 0x00, 0x1a, 0x11, 0x0c, 0x07,
    0x1c, 0x17, 0x0a, 0x01, 0x1b, 0x10, 0x0d, 0x06, 0x12, 0x19, 0x04, 0x0f, 0x15, 0x1e, 0x03, 0x08,
    0x00, 0x0b, 0x16, 0x1d, 0x07, 0x0c, 0x11, 0x1a, 0x0e, 0x05, 0x18, 0x13, 0x09, 0x02, 0x1f, 0x14,
    0x02, 0x09, 0x14, 0x1f, 0x05, 0x0e, 0x13, 0x18, 0x0c, 0x07, 0x1a, 0x11, 0x0b, 0x00, 0x1d, 0x16,
    0x1e, 0x15, 0x08, 0x03, 0x19, 0x12, 0x0f, 0x04, 0x10, 0x1b, 0x06, 0x0d, 0x17, 0x1c, 0x01, 0x0a,
    0x11, 0x1a, 0x07, 0x0c, 0x16, 0x1d, 0x00, 0x0b, 0x1f, 0x14, 0x09, 0x02, 0x18, 0x13, 0x0e, 0x05,
    0x0d, 0x06, 0x1b, 0x10, 0x0a, 0x01, 0x1c, 0x17, 0x03, 0x08, 0x15, 0x1e, 0x04, 0x0f, 0x12, 0x19]"

definition fec23_tbl_3 :: "8 word list" where
  "fec23_tbl_3 = [
    0x0a, 0x01, 0x1c, 0x17, 0x0d, 0x06, 0x1b, 0x10, 0x04, 0x0f, 0x12, 0x19, 0x03, 0x08, 0x15, 0x1e,
    0x16, 0x1d, 0x00, 0x0b, 0x11, 0x1a, 0x07, 0x0c, 0x18, 0x13, 0x0e, 0x05, 0x1f, 0x14, 0x09, 0x02,
    0x19, 0x12, 0x0f, 0x04, 0x1e, 0x15, 0x08, 0x03, 0x17, 0x1c, 0x01, 0x0a, 0x10, 0x1b, 0x06, 0x0d,
    0x05, 0x0e, 0x13, 0x18, 0x02, 0x09, 0x14, 0x1f, 0x0b, 0x00, 0x1d, 0x16, 0x0c, 0x07, 0x1a, 0x11,
    0x07, 0x0c, 0x11, 0x1a, 0x00, 0x0b, 0x16, 0x1d, 0x09, 0x02, 0x1f, 0x14, 0x0e, 0x05, 0x18, 0x13,
    0x1b, 0x10, 0x0d, 0x06, 0x1c, 0x17, 0x0a, 0x01, 0x15, 0x1e, 0x03, 0x08, 0x12, 0x19, 0x04, 0x0f,
    0x14, 0x1f, 0x02, 0x09, 0x13, 0x18, 0x05, 0x0e, 0x1a, 0x11, 0x0c, 0x07, 0x1d, 0x16, 0x0b, 0x00,
    0x08, 0x03, 0x1e, 0x15, 0x0f, 0x04, 0x19, 0x12, 0x06, 0x0d, 0x10, 0x1b, 0x01, 0x0a, 0x17, 0x1c,
    0x10, 0x1b, 0x06, 0x0d, 0x17, 0x1c, 0x01, 0x0a, 0x1e, 0x15, 0x08, 0x03, 0x19, 0x12, 0x0f, 0x04,
    0x0c, 0x07, 0x1a, 0x11, 0x0b, 0x00, 0x1d, 0x16, 0x02, 0x09, 0x14, 0x1f, 0x05, 0x0e, 0x13, 0x18,
    0x03, 0x08, 0x15, 0x1e, 0x04, 0x0f, 0x12, 0x19, 0x0d, 0x06, 0x1b, 0x10, 0x0a, 0x01, 0x1c, 0x17,
    0x1f, 0x14, 0x09, 0x02, 0x18, 0x13, 0x0e, 0x05, 0x11, 0x1a, 0x07, 0x0c, 0x16, 0x1d, 0x00, 0x0b,
    0x1d, 0x16, 0x0b, 0x00, 0x1a, 0x11, 0x0c, 0x07, 0x13, 0x18, 0x05, 0x0e, 0x14, 0x1f, 0x02, 0x09,
    0x01, 0x0a, 0x17, 0x1c, 0x06, 0x0d, 0x10, 0x1b, 0x0f, 0x04, 0x19, 0x12, 0x08, 0x03, 0x1e, 0x15,
    0x0e, 0x05, 0x18, 0x13, 0x09, 0x02, 0x1f, 0x14, 0x00, 0x0b, 0x16, 0x1d, 0x07, 0x0c, 0x11, 0x1a,
    0x12, 0x19, 0x04, 0x0f, 0x15, 0x1e, 0x03, 0x08, 0x1c, 0x17, 0x0a, 0x01, 0x1b, 0x10, 0x0d, 0x06]"

definition fec23_tbl :: "8 word list" where
  "fec23_tbl = fec23_tbl_0 @ fec23_tbl_1 @ fec23_tbl_2 @ fec23_tbl_3"

lemma fec23_tbl_lin: "fec23_tbl = lin_tab [0x0b, 0x16, 0x07, 0x0e, 0x1c, 0x13, 0x0d, 0x1a, 0x1f, 0x15]"
  by (simp add: lin_tab_def fec23_tbl_0_def fec23_tbl_1_def fec23_tbl_2_def fec23_tbl_3_def fec23_tbl_def)

definition crc_tbl :: "16 word list" where
  "crc_tbl = [
    0x0000, 0x1189, 0x2312, 0x329b, 0x4624, 0x57ad, 0x6536, 0x74bf,
    0x8c48, 0x9dc1, 0xaf5a, 0xbed3, 0xca6c, 0xdbe5, 0xe97e, 0xf8f7,
    0x1081, 0x0108, 0x3393, 0x221a, 0x56a5, 0x472c, 0x75b7, 0x643e,
    0x9cc9, 0x8d40, 0xbfdb, 0xae52, 0xdaed, 0xcb64, 0xf9ff, 0xe876,
    0x2102, 0x308b, 0x0210, 0x1399, 0x6726, 0x76af, 0x4434, 0x55bd,
    0xad4a, 0xbcc3, 0x8e58, 0x9fd1, 0xeb6e, 0xfae7, 0xc87c, 0xd9f5,
    0x3183, 0x200a, 0x1291, 0x0318, 0x77a7, 0x662e, 0x54b5, 0x453c,
    0xbdcb, 0xac42, 0x9ed9, 0x8f50, 0xfbef, 0xea66, 0xd8fd, 0xc974,
    0x4204, 0x538d, 0x6116, 0x709f, 0x0420, 0x15a9, 0x2732, 0x36bb,
    0xce4c, 0xdfc5, 0xed5e, 0xfcd7, 0x8868, 0x99e1, 0xab7a, 0xbaf3,
    0x5285, 0x430c, 0x7197, 0x601e, 0x14a1, 0x0528, 0x37b3, 0x263a,
    0xdecd, 0xcf44, 0xfddf, 0xec56, 0x98e9, 0x8960, 0xbbfb, 0xaa72,
    0x6306, 0x728f, 0x4014, 0x519d, 0x2522, 0x34ab, 0x0630, 0x17b9,
    0xef4e, 0xfec7, 0xcc5c, 0xddd5, 0xa96a, 0xb8e3, 0x8a78, 0x9bf1,
    0x7387, 0x620e, 0x5095, 0x411c, 0x35a3, 0x242a, 0x16b1, 0x0738,
    0xffcf, 0xee46, 0xdcdd, 0xcd54, 0xb9eb, 0xa862, 0x9af9, 0x8b70,
    0x8408, 0x9581, 0xa71a, 0xb693, 0xc22c, 0xd3a5, 0xe13e, 0xf0b7,
    0x0840, 0x19c9, 0x2b52, 0x3adb, 0x4e64, 0x5fed, 0x6d76, 0x7cff,
    0x9489, 0x8500, 0xb79b, 0xa612, 0xd2ad, 0xc324, 0xf1bf, 0xe036,
    0x18c1, 0x0948, 0x3bd3, 0x2a5a, 0x5ee5, 0x4f6c, 0x7df7, 0x6c7e,
    0xa50a, 0xb483, 0x8618, 0x9791, 0xe32e, 0xf2a7, 0xc03c, 0xd1b5,
    0x2942, 0x38cb, 0x0a50, 0x1bd9, 0x6f66, 0x7eef, 0x4c74, 0x5dfd,
    0xb58b, 0xa402, 0x9699, 0x8710, 0xf3af, 0xe226, 0xd0bd, 0xc134,
    0x39c3, 0x284a, 0x1ad1, 0x0b58, 0x7fe7, 0x6e6e, 0x5cf5, 0x4d7c,
    0xc60c, 0xd785, 0xe51e, 0xf497, 0x8028, 0x91a1, 0xa33a, 0xb2b3,
    0x4a44, 0x5bcd, 0x6956, 0x78df, 0x0c60, 0x1de9, 0x2f72, 0x3efb,
    0xd68d, 0xc704, 0xf59f, 0xe416, 0x90a9, 0x8120, 0xb3bb, 0xa232,
    0x5ac5, 0x4b4c, 0x79d7, 0x685e, 0x1ce1, 0x0d68, 0x3ff3, 0x2e7a,
    0xe70e, 0xf687, 0xc41c, 0xd595, 0xa12a, 0xb0a3, 0x8238, 0x93b1,
    0x6b46, 0x7acf, 0x4854, 0x59dd, 0x2d62, 0x3ceb, 0x0e70, 0x1ff9,
    0xf78f, 0xe606, 0xd49d, 0xc514, 0xb1ab, 0xa022, 0x92b9, 0x8330,
    0x7bc7, 0x6a4e, 0x58d5, 0x495c, 0x3de3, 0x2c6a, 0x1ef1, 0x0f78]"

lemma crc_tbl_lin: "crc_tbl = lin_tab [0x1189, 0x2312, 0x4624, 0x8c48, 0x1081, 0x2102, 0x4204, 0x8408]"
  by (simp add: lin_tab_def crc_tbl_def)

definition hec_tbl :: "8 word list" where
  "hec_tbl = [
    0x00, 0xce, 0x57, 0x99, 0xae, 0x60, 0xf9, 0x37,
    0x97, 0x59, 0xc0, 0x0e, 0x39, 0xf7, 0x6e, 0xa0,
    0xe5, 0x2b, 0xb2, 0x7c, 0x4b, 0x85, 0x1c, 0xd2,
    0x72, 0xbc, 0x25, 0xeb, 0xdc, 0x12, 0x8b, 0x45]"

lemma hec_tbl_lin: "hec_tbl = lin_tab [0xce, 0x57, 0xae, 0x97, 0xe5]"
  by (simp add: lin_tab_def hec_tbl_def)

definition fec23_cor :: "16 word list" where
  "fec23_cor = [
    0x00, 0x00, 0x00, 0x00, 0x00, 0x00, 0x00, 0x04,
    0x00, 0x00, 0x00, 0x01, 0x00, 0x40, 0x08, 0x00,
    0x00, 0x00, 0x00, 0x20, 0x00, 0x200, 0x02, 0x00,
    0x00, 0x00, 0x80, 0x00, 0x10, 0x00, 0x00, 0x100]"

end
