(* ===== verification/Crc.thy ===== *)
theory Crc
  imports Tables
begin

text \<open>
  Byte reversal, header check (HEC) and CRC of firmware/btbr/include/ubtbr/bb.h, with the
  bit-serial references: the slow version that \<open>hec_compute\<close> keeps under \<open>#else\<close>, and the CCITT
  shift register for the CRC.
\<close>

section \<open>Byte reversal\<close>

definition reverse8 :: "u8 \<Rightarrow> u8" where
  "reverse8 data = rev8_map ! unat data"

definition reverse16 :: "u16 \<Rightarrow> u16" where
  "reverse16 data = ucast (reverse8 (ucast (drop_bit 8 data)))
     OR push_bit 8 (ucast (reverse8 (ucast (data AND 0xff))))"

definition reverse32 :: "u32 \<Rightarrow> u32" where
  "reverse32 data = ucast (reverse16 (ucast (drop_bit 16 data)))
     OR push_bit 16 (ucast (reverse16 (ucast (data AND 0xffff))))"

lemma unat_u8: "unat (x :: u8) < 256"
  using unsigned_less [of x] by simp

lemma reverse8_xsum: "reverse8 x = xsum [0x80, 0x40, 0x20, 0x10, 0x08, 0x04, 0x02, 0x01] x"
  unfolding reverse8_def rev8_map_lin
  by (rule lin_tab_nth) (use unat_u8 [of x] in simp_all)

lemma bit_reverse8: "bit (reverse8 x) n \<longleftrightarrow> n < 8 \<and> bit x (7 - n)"
proof (cases "n < 8")
  case True
  from less8_cases [OF this] show ?thesis
    by (elim insertE emptyE) (simp_all add: reverse8_xsum bit_simps)
next
  case False
  then show ?thesis using bit_imp_le_length [of "reverse8 x" n] by auto
qed

lemma bit_reverse16: "bit (reverse16 x) n \<longleftrightarrow> n < 16 \<and> bit x (15 - n)"
proof -
  have "n < 8 \<Longrightarrow> 8 + (7 - n) = 15 - n" and "\<not> n < 8 \<Longrightarrow> 7 - (n - 8) = 15 - n" by arith+
  then show ?thesis unfolding reverse16_def
    by (cases "n < 8") (auto simp: bit_simps bit_reverse8 and_masks)
qed

lemma bit_reverse32: "bit (reverse32 x) n \<longleftrightarrow> n < 32 \<and> bit x (31 - n)"
proof -
  have "n < 16 \<Longrightarrow> 16 + (15 - n) = 31 - n" and "\<not> n < 16 \<Longrightarrow> 15 - (n - 16) = 31 - n" by arith+
  then show ?thesis unfolding reverse32_def
    by (cases "n < 16") (auto simp: bit_simps bit_reverse16 and_masks)
qed

section \<open>Header error check\<close>

definition hec_compute :: "u16 \<Rightarrow> u8 \<Rightarrow> u8" where
  "hec_compute data hec0 =
     (let hec1 = reverse8 hec0;
          hec2 = drop_bit 5 hec1 XOR hec_tbl ! unat ((data XOR ucast hec1) AND 0x1f);
          hec3 = drop_bit 5 hec2 XOR hec_tbl ! unat ((drop_bit 5 data XOR ucast hec2) AND 0x1f)
      in hec3)"

text \<open>The disabled bit-serial version, ten passes.\<close>

primrec hec_slow_loop :: "nat \<Rightarrow> u16 \<Rightarrow> u8 \<Rightarrow> u8" where
  "hec_slow_loop 0 data hec = hec"
| "hec_slow_loop (Suc n) data hec =
     (let b = 1 AND (data XOR ucast hec);
          hec' = drop_bit 1 hec
      in hec_slow_loop n (drop_bit 1 data) (if b \<noteq> 0 then hec' XOR 0xe5 else hec'))"

definition hec_slow :: "u16 \<Rightarrow> u8 \<Rightarrow> u8" where
  "hec_slow data hec = hec_slow_loop 10 data (reverse8 hec)"

lemma hec_tbl_xsum: "unat d < 32 \<Longrightarrow> hec_tbl ! unat (d :: u16) = xsum [0xce, 0x57, 0xae, 0x97, 0xe5] d"
  unfolding hec_tbl_lin by (rule lin_tab_nth) simp_all

text \<open>
  The slow loop is the shift register \<open>lfsr 0xe5\<close> with the data bit added to its output; five
  passes over five data bits \<open>d\<close> add \<open>hec_tbl ! d\<close> to the register shifted by five.
\<close>

lemma lfsr_table_hec: "unat d < 32 \<Longrightarrow> hec_tbl ! unat (d :: u8) = (lfsr 0xe5 ^^ 5) d"
  unfolding hec_tbl_lin
  by (rule lin_tab_eq_map [OF linear_funpow [OF lfsr_linear]])
    (simp_all add: upt_conv_Cons funpow_eval lfsr_def)

lemma hec_slow_loop_eq: "n \<le> 8 \<Longrightarrow> hec_slow_loop n data hec = lfsr_in 0xe5 n (ucast data) hec"
proof (induction n arbitrary: data hec)
  case (Suc n)
  have b: "bit (hec XOR (ucast data AND 1)) 0 \<longleftrightarrow> 1 AND (data XOR ucast hec) \<noteq> 0"
    by (auto simp: one_and_nonzero bit_simps)
  have d: "drop_bit 1 (hec XOR (ucast data AND 1)) = drop_bit 1 hec"
    by (rule bit_word_eqI) (auto simp: bit_simps and_masks)
  have u: "lfsr_in 0xe5 n (drop_bit 1 (ucast data)) s = lfsr_in 0xe5 n (ucast (drop_bit 1 data)) s" for s :: u8
  proof -
    have "take_bit n (drop_bit 1 (ucast data :: u8)) = take_bit n (ucast (drop_bit 1 data))"
      by (rule bit_word_eqI) (use Suc.prems in \<open>auto simp: bit_simps\<close>)
    then show ?thesis by (simp add: lfsr_in_eq)
  qed
  show ?case using Suc by (simp add: lfsr_def b d u [unfolded One_nat_def] Let_def)
qed simp

lemma hec_slow_loop_add: "hec_slow_loop (m + n) data hec = hec_slow_loop n (drop_bit m data) (hec_slow_loop m data hec)"
  by (induction m arbitrary: data hec) (simp_all add: Let_def add.commute)

lemma hec_slow_loop_5:
  "hec_slow_loop 5 data hec = drop_bit 5 hec XOR hec_tbl ! unat ((data XOR ucast hec) AND 0x1f)"
proof -
  let ?x = "hec XOR take_bit 5 (ucast data)"
  let ?i = "(data XOR ucast hec) AND 0x1f"
  have t: "take_bit 5 ?x = ucast ?i"
    by (rule bit_word_eqI) (auto simp: bit_simps and_masks)
  have "unat ?i < 32"
    using word_and_le1 [of "data XOR ucast hec" "0x1f :: u16"] by (simp add: word_le_nat_alt)
  then have i: "unat (ucast ?i :: u8) = unat ?i" and "unat (ucast ?i :: u8) < 32"
    by (simp_all add: unsigned_ucast_eq take_bit_nat_eq_self)
  then have h: "(lfsr 0xe5 ^^ 5) (take_bit 5 ?x) = hec_tbl ! unat ?i"
    using lfsr_table_hec [of "ucast ?i"] t by simp
  have d: "drop_bit 5 ?x = drop_bit 5 hec"
    by (rule bit_word_eqI) (auto simp: bit_simps)
  have "hec_slow_loop 5 data hec = (lfsr 0xe5 ^^ 5) ?x"
    by (simp add: hec_slow_loop_eq lfsr_in_eq)
  also have "\<dots> = (lfsr 0xe5 ^^ 5) (take_bit 5 ?x) XOR drop_bit 5 ?x"
    by (rule lfsr_table)
  finally show ?thesis by (simp only: h d xor.commute)
qed

text \<open>
  The table driven header check \<open>hec_compute\<close> returns, for every header and every start value, what
  the bit-serial version kept under \<open>#else\<close> computes.
\<close>

theorem hec_compute_eq_slow: "hec_compute data hec = hec_slow data hec"
  using hec_slow_loop_add [of 5 5 data "reverse8 hec"]
  by (simp add: hec_compute_def hec_slow_def Let_def hec_slow_loop_5)

section \<open>CRC\<close>

definition crc_compute :: "u8 list \<Rightarrow> nat \<Rightarrow> u16 \<Rightarrow> u16 res" where
  "crc_compute inp nbytes crc0 =
     guard (nbytes < 65536) Hang
       (loop nbytes (\<lambda>i crc. bnd (rd inp i) (\<lambda>b.
          Inr (drop_bit 8 crc XOR crc_tbl ! unat (0xff AND (ucast b XOR crc))))) crc0)"

text \<open>The reference: every data bit, low bit first, through the register \<open>x\<^sup>16 + x\<^sup>12 + x\<^sup>5 + 1\<close>.\<close>

definition crc_byte :: "u16 \<Rightarrow> u8 \<Rightarrow> u16" where
  "crc_byte crc b = lfsr_in 0x8408 8 (ucast b) crc"

definition crc_spec :: "u8 list \<Rightarrow> u16 \<Rightarrow> u16" where
  "crc_spec bs crc = foldl crc_byte crc bs"

lemma lfsr_table_crc: "unat d < 256 \<Longrightarrow> crc_tbl ! unat (d :: u16) = (lfsr 0x8408 ^^ 8) d"
  unfolding crc_tbl_lin
  by (rule lin_tab_eq_map [OF linear_funpow [OF lfsr_linear]])
    (simp_all add: upt_conv_Cons funpow_eval lfsr_def)

lemma crc_byte_tbl: "crc_byte crc b = drop_bit 8 crc XOR crc_tbl ! unat (0xff AND (ucast b XOR crc))"
proof -
  let ?x = "crc XOR take_bit 8 (ucast b)"
  have t: "take_bit 8 ?x = 0xff AND (ucast b XOR crc)"
    by (rule bit_word_eqI) (auto simp: bit_simps and_masks)
  have "unat (0xff AND (ucast b XOR crc)) < 256"
    using word_and_le2 [of "0xff :: u16" "ucast b XOR crc"] by (simp add: word_le_nat_alt)
  from lfsr_table_crc [OF this] t
  have h: "(lfsr 0x8408 ^^ 8) (take_bit 8 ?x) = crc_tbl ! unat (0xff AND (ucast b XOR crc))" by simp
  have d: "drop_bit 8 ?x = drop_bit 8 crc"
    by (rule bit_word_eqI) (auto simp: bit_simps)
  have "crc_byte crc b = (lfsr 0x8408 ^^ 8) ?x"
    by (simp add: crc_byte_def lfsr_in_eq)
  also have "\<dots> = (lfsr 0x8408 ^^ 8) (take_bit 8 ?x) XOR drop_bit 8 ?x"
    by (rule lfsr_table)
  finally show ?thesis by (simp only: h d xor.commute)
qed

lemma crc_compute_spec:
  assumes "nbytes \<le> length inp" and "nbytes < 65536"
  shows "crc_compute inp nbytes crc = Inr (crc_spec (take nbytes inp) crc)"
proof -
  have "n \<le> length inp \<Longrightarrow>
    loop n (\<lambda>i crc. bnd (rd inp i) (\<lambda>b. Inr (drop_bit 8 crc XOR crc_tbl ! unat (0xff AND (ucast b XOR crc))))) crc
      = Inr (crc_spec (take n inp) crc)" for n
    by (induction n) (simp_all add: crc_spec_def take_Suc_conv_app_nth crc_byte_tbl)
  then show ?thesis using assms by (simp add: crc_compute_def)
qed

lemma crc_spec_append: "crc_spec (xs @ ys) crc = crc_spec ys (crc_spec xs crc)"
  by (simp add: crc_spec_def)

text \<open>
  C29 (equivalence).  The table driven \<open>crc_compute\<close> returns the content of the CCITT shift register after the bits of
  the first \<open>nbytes\<close> bytes, low bit first.  The bound on \<open>nbytes\<close> is that of its 16-bit loop counter.
\<close>

theorem crc_compute_eq_spec:
  "nbytes \<le> length inp \<Longrightarrow> nbytes < 65536 \<Longrightarrow>
   crc_compute inp nbytes crc = Inr (crc_spec (take nbytes inp) crc)"
  by (rule crc_compute_spec)

theorem crc_compute_eq_spec_witness:
  "crc_compute [0x12, 0x34, 0x56] 2 0x4700 = Inr (crc_spec [0x12, 0x34] 0x4700)"
  using crc_compute_eq_spec [of 2 "[0x12, 0x34, 0x56]" "0x4700"] by simp

text \<open>The feedback sets the top bit, so a step can be undone and no two registers are merged.\<close>

lemma lfsr_inj:
  assumes "bit p (LENGTH('a) - 1)" and eq: "lfsr p x = lfsr p (y :: 'a::len word)"
  shows "x = y"
proof (rule bit_word_eqI)
  fix n assume n: "n < LENGTH('a)"
  have top: "bit (lfsr p z) (LENGTH('a) - 1) \<longleftrightarrow> bit z 0" for z
    using assms(1) by (auto simp: lfsr_def bit_simps)
  have z0: "bit x 0 \<longleftrightarrow> bit y 0" using top [of x] top [of y] eq by simp
  show "bit x n \<longleftrightarrow> bit y n"
  proof (cases n)
    case (Suc m)
    have "bit (lfsr p z) m \<longleftrightarrow> (bit z n \<noteq> (bit z 0 \<and> bit p m))" for z
      using Suc n by (auto simp: lfsr_def bit_simps)
    then show ?thesis using eq z0 by metis
  qed (simp add: z0)
qed

lemma lfsr_funpow_inj:
  assumes "bit p (LENGTH('a) - 1)"
  shows "(lfsr p ^^ n) x = (lfsr p ^^ n) (y :: 'a::len word) \<Longrightarrow> x = y"
  by (induction n) (auto dest: lfsr_inj [OF assms])

lemma crc_byte_inj: "crc_byte c b = crc_byte c' b \<Longrightarrow> c = c'"
  unfolding crc_byte_def lfsr_in_eq
  by (drule lfsr_funpow_inj [rotated]) (simp_all add: bit_simps)

lemma crc_byte_inj_data: "crc_byte c b = crc_byte c b' \<Longrightarrow> b = b'"
proof -
  assume "crc_byte c b = crc_byte c b'"
  then have "c XOR take_bit 8 (ucast b) = c XOR take_bit 8 (ucast b')"
    unfolding crc_byte_def lfsr_in_eq
    by (rule lfsr_funpow_inj [rotated]) (simp add: bit_simps)
  then have eq: "take_bit 8 (ucast b :: u16) = take_bit 8 (ucast b')" by simp
  show "b = b'"
  proof (rule bit_word_eqI)
    fix n :: nat assume "n < LENGTH(8)"
    then show "bit b n = bit b' n"
      using arg_cong [OF eq, of "\<lambda>w. bit w n"] by (simp add: bit_take_bit_iff bit_ucast_iff)
  qed
qed

lemma crc_spec_inj: "crc_spec xs c = crc_spec xs c' \<Longrightarrow> c = c'"
  by (induction xs arbitrary: c c') (auto simp: crc_spec_def dest: crc_byte_inj)

lemma crc_spec_byte_error:
  assumes "i < length xs" and "b \<noteq> xs ! i"
  shows "crc_spec (xs[i := b]) crc \<noteq> crc_spec xs crc"
proof
  assume eq: "crc_spec (xs[i := b]) crc = crc_spec xs crc"
  have s1: "xs[i := b] = take i xs @ b # drop (Suc i) xs"
    using assms(1) by (rule upd_conv_take_nth_drop)
  have s2: "xs = take i xs @ xs ! i # drop (Suc i) xs"
    using assms(1) by (rule id_take_nth_drop)
  let ?c = "crc_spec (take i xs) crc"
  have "crc_spec (drop (Suc i) xs) (crc_byte ?c b) = crc_spec (xs[i := b]) crc"
    by (simp add: s1 crc_spec_append) (simp add: crc_spec_def)
  also have "\<dots> = crc_spec (drop (Suc i) xs) (crc_byte ?c (xs ! i))"
    unfolding eq using s2 by (metis crc_spec_append crc_spec_def foldl_Cons)
  finally have "crc_byte ?c b = crc_byte ?c (xs ! i)" by (rule crc_spec_inj)
  then show False using assms(2) crc_byte_inj_data by blast
qed

text \<open>
  \<open>crc_compute\<close> tells two payloads that differ in one byte apart, whatever the byte is changed to.
\<close>

theorem crc_detects_byte_error:
  assumes "length xs < 65536" and "i < length xs" and "b \<noteq> xs ! i"
  shows "crc_compute (xs[i := b]) (length xs) crc \<noteq> crc_compute xs (length xs) crc"
  using crc_spec_byte_error [OF assms(2,3)] assms(1) by (simp add: crc_compute_spec)

theorem crc_detects_byte_error_witness:
  "crc_compute ([0x12, 0x34, 0x56][1 := 0x35]) 3 0x4700 \<noteq> crc_compute [0x12, 0x34, 0x56] 3 0x4700"
  using crc_detects_byte_error [of "[0x12, 0x34, 0x56]" 1 "0x35" "0x4700"] by simp

text \<open>The CRC of a payload followed by its own CRC, low byte first, is zero.\<close>

lemma crc_residue: "crc_spec (xs @ [ucast crc', ucast (drop_bit 8 crc')]) crc = 0"
  if "crc' = crc_spec xs crc"
proof -
  have z: "crc_byte c (ucast c) = drop_bit 8 c" for c
  proof -
    have "take_bit 8 (c XOR take_bit 8 (ucast (ucast c :: u8))) = 0"
      by (rule bit_word_eqI) (auto simp: bit_simps)
    from lfsr_shift [OF this] show ?thesis
      unfolding crc_byte_def lfsr_in_eq
      by (simp, intro bit_word_eqI) (auto simp: bit_simps)
  qed
  have d8: "drop_bit 8 (drop_bit 8 c) = 0" for c :: u16
    by (rule bit_word_eqI) (auto simp: bit_simps)
  have "crc_byte (crc_byte c (ucast c)) (ucast (drop_bit 8 c)) = 0" for c
    using z [of c] z [of "drop_bit 8 c"] d8 [of c] by simp
  then show ?thesis using that by (simp add: crc_spec_append) (simp add: crc_spec_def)
qed

end
