(* ===== verification/Whiten.thy ===== *)
theory Whiten
  imports Tables
begin

text \<open>
  Data whitening: \<open>whiten\<close> of firmware/btbr/src/codec/bitstream_proc.c works a byte at a time from
  two tables.  The reference is the seven bit shift register \<open>x\<^sup>7 + x\<^sup>4 + 1\<close>, whose bit 6 is added to
  each data bit in turn.
\<close>

section \<open>The code\<close>

definition whiten_byte :: "u8 list \<Rightarrow> nat \<Rightarrow> u8 list \<times> u8 \<Rightarrow> (u8 list \<times> u8) res" where
  "whiten_byte inp i = (\<lambda>(out, state).
     bnd (rd inp i) (\<lambda>b.
     bnd (rd whiten_word_tbl (unat state)) (\<lambda>w.
     bnd (wr out i (b XOR w)) (\<lambda>out'.
     bnd (rd (whiten_state_tbl ! 7) (unat state)) (\<lambda>state'.
     Inr (out', state'))))))"

definition whiten :: "u8 list \<Rightarrow> u8 list \<Rightarrow> nat \<Rightarrow> u8 \<Rightarrow> (u8 list \<times> u8) res" where
  "whiten out inp len statep =
     (let nbytes = len div 8; nbits = len mod 8 in
      bnd (loop nbytes (whiten_byte inp) (out, statep AND 0x7f)) (\<lambda>(out', state).
      if nbits \<noteq> 0 then
        bnd (rd inp nbytes) (\<lambda>b.
        bnd (rd whiten_word_tbl (unat state)) (\<lambda>w.
        bnd (wr out' nbytes ((b XOR w) AND (push_bit nbits 1 - 1))) (\<lambda>out''.
        bnd (rd (whiten_state_tbl ! (nbits - 1)) (unat state)) (\<lambda>state'.
        Inr (out'', state')))))
      else Inr (out', state)))"

section \<open>The reference register\<close>

definition wstep :: "u8 \<Rightarrow> u8" where
  "wstep s = (if bit s 6 then take_bit 7 (push_bit 1 s) XOR 0x11 else take_bit 7 (push_bit 1 s))"

primrec kword :: "nat \<Rightarrow> u8 \<Rightarrow> u8" where
  "kword 0 s = 0"
| "kword (Suc n) s = (if bit s 6 then 1 else 0) XOR push_bit 1 (kword n (wstep s))"

text \<open>The key stream from state \<open>s\<close>.\<close>

definition keybit :: "u8 \<Rightarrow> nat \<Rightarrow> bool" where
  "keybit s i = bit ((wstep ^^ i) s) 6"

lemma wstep_linear: "linear_word wstep"
  unfolding linear_word_def wstep_def
  by (auto intro!: bit_word_eqI simp: bit_simps)

lemma kword_linear: "linear_word (kword n)"
proof (induction n)
  case (Suc n)
  then have "kword n (wstep (x XOR y)) = kword n (wstep x) XOR kword n (wstep y)" for x y
    using wstep_linear by (simp add: linear_word_def)
  then show ?case
    unfolding linear_word_def kword.simps
    by (auto simp only: push_bit_xor intro!: bit_word_eqI) (auto simp: bit_simps bit_1_iff)
qed (simp add: linear_word_def)

lemma bit_kword: "bit (kword n s) j \<longleftrightarrow> j < n \<and> j < 8 \<and> keybit s j"
proof (induction n arbitrary: s j)
  case (Suc n)
  show ?case
  proof (cases j)
    case 0
    then show ?thesis by (simp add: keybit_def bit_xor_iff bit_push_bit_iff bit_1_iff)
  next
    case (Suc i)
    then have "keybit s j = keybit (wstep s) i"
      by (simp add: keybit_def funpow_Suc_right del: funpow.simps)
    then show ?thesis using Suc Suc.IH [of "wstep s" i]
      by (auto simp: bit_push_bit_iff bit_xor_iff bit_1_iff)
  qed
qed simp

lemma keybit_add: "keybit ((wstep ^^ n) s) i = keybit s (n + i)"
  by (simp add: keybit_def add.commute funpow_add)

lemma wstep_less: "unat (wstep s) < 128"
proof -
  have "wstep s = take_bit 7 (wstep s)"
    by (simp add: wstep_def take_bit_xor)
  then have "unat (wstep s) = take_bit 7 (unat (wstep s))"
    by (metis unsigned_take_bit_eq)
  also have "\<dots> < 2 ^ 7" by (rule take_bit_nat_less_exp)
  finally show ?thesis by simp
qed

lemma wstep_funpow_less: "unat s < 128 \<Longrightarrow> unat ((wstep ^^ n) s) < 128"
  by (cases n) (simp_all add: wstep_less)

section \<open>The tables\<close>

lemma wstep_units:
  "wstep 1 = 2" "wstep 2 = 4" "wstep 4 = 8" "wstep 8 = 16" "wstep 16 = 32" "wstep 32 = 64" "wstep 64 = 17"
  "wstep 17 = 34" "wstep 34 = 68" "wstep 68 = 25" "wstep 25 = 50" "wstep 50 = 100" "wstep 100 = 89"
  "wstep 89 = 35"
  by (simp_all add: wstep_def)

lemma kword_numeral: "kword (numeral k) s = (if bit s 6 then 1 else 0) XOR push_bit 1 (kword (pred_numeral k) (wstep s))"
  by (simp add: numeral_eq_Suc del: Suc_Suc_0)

lemma whiten_word_tbl_eq: "unat s < 128 \<Longrightarrow> whiten_word_tbl ! unat s = kword 8 s"
  unfolding whiten_word_tbl_lin
  by (rule lin_tab_eq_map [OF kword_linear]) (simp_all add: upt_conv_Cons kword_numeral wstep_units)

lemmas whiten_state_lin = whiten_state_tbl_0_lin whiten_state_tbl_1_lin whiten_state_tbl_2_lin
  whiten_state_tbl_3_lin whiten_state_tbl_4_lin whiten_state_tbl_5_lin whiten_state_tbl_6_lin
  whiten_state_tbl_7_lin

text \<open>The images of the seven unit states after \<open>k\<close> steps.\<close>

definition wbasis :: "nat \<Rightarrow> u8 list" where
  "wbasis k = map (\<lambda>i. (wstep ^^ k) (push_bit i 1)) [0..<7]"

lemma wbasis_Suc: "wbasis (Suc k) = map wstep (wbasis k)"
  by (simp add: wbasis_def)

lemma wbasis_0: "wbasis 0 = [1, 2, 4, 8, 16, 32, 64]"
  by (simp add: wbasis_def upt_conv_Cons)

lemma whiten_state_row:
  assumes "lin_tab (wbasis k) = t" and "unat s < 128"
  shows "t ! unat s = (wstep ^^ k) s"
proof -
  have "length (wbasis k) = 7" by (simp add: wbasis_def)
  then have "lin_tab (wbasis k) ! unat s = (wstep ^^ k) s"
    using assms(2) by (intro lin_tab_eq_map [OF linear_funpow [OF wstep_linear]]) (simp_all add: wbasis_def)
  then show ?thesis using assms(1) by simp
qed

lemma wbasis_rows:
  "wbasis 1 = [2, 4, 8, 16, 32, 64, 17]" "wbasis 2 = [4, 8, 16, 32, 64, 17, 34]"
  "wbasis 3 = [8, 16, 32, 64, 17, 34, 68]" "wbasis 4 = [16, 32, 64, 17, 34, 68, 25]"
  "wbasis 5 = [32, 64, 17, 34, 68, 25, 50]" "wbasis 6 = [64, 17, 34, 68, 25, 50, 100]"
  "wbasis 7 = [17, 34, 68, 25, 50, 100, 89]" "wbasis 8 = [34, 68, 25, 50, 100, 89, 35]"
proof -
  show 1: "wbasis 1 = [2, 4, 8, 16, 32, 64, 17]" using wbasis_Suc [of 0] by (simp add: wbasis_0 wstep_units)
  show 2: "wbasis 2 = [4, 8, 16, 32, 64, 17, 34]" using wbasis_Suc [of 1] 1 by (simp add: wstep_units)
  show 3: "wbasis 3 = [8, 16, 32, 64, 17, 34, 68]" using wbasis_Suc [of 2] 2 by (simp add: wstep_units)
  show 4: "wbasis 4 = [16, 32, 64, 17, 34, 68, 25]" using wbasis_Suc [of 3] 3 by (simp add: wstep_units)
  show 5: "wbasis 5 = [32, 64, 17, 34, 68, 25, 50]" using wbasis_Suc [of 4] 4 by (simp add: wstep_units)
  show 6: "wbasis 6 = [64, 17, 34, 68, 25, 50, 100]" using wbasis_Suc [of 5] 5 by (simp add: wstep_units)
  show 7: "wbasis 7 = [17, 34, 68, 25, 50, 100, 89]" using wbasis_Suc [of 6] 6 by (simp add: wstep_units)
  show "wbasis 8 = [34, 68, 25, 50, 100, 89, 35]" using wbasis_Suc [of 7] 7 by (simp add: wstep_units)
qed

lemma whiten_state_rows:
  assumes "unat s < 128"
  shows "lin_tab [2, 4, 8, 16, 32, 64, 17] ! unat s = (wstep ^^ 1) s"
    and "lin_tab [4, 8, 16, 32, 64, 17, 34] ! unat s = (wstep ^^ 2) s"
    and "lin_tab [8, 16, 32, 64, 17, 34, 68] ! unat s = (wstep ^^ 3) s"
    and "lin_tab [16, 32, 64, 17, 34, 68, 25] ! unat s = (wstep ^^ 4) s"
    and "lin_tab [32, 64, 17, 34, 68, 25, 50] ! unat s = (wstep ^^ 5) s"
    and "lin_tab [64, 17, 34, 68, 25, 50, 100] ! unat s = (wstep ^^ 6) s"
    and "lin_tab [17, 34, 68, 25, 50, 100, 89] ! unat s = (wstep ^^ 7) s"
    and "lin_tab [34, 68, 25, 50, 100, 89, 35] ! unat s = (wstep ^^ 8) s"
  by (rule whiten_state_row [OF _ assms], simp only: wbasis_rows)+

lemma whiten_state_tbl_eq:
  assumes "k < 8" and "unat s < 128"
  shows "whiten_state_tbl ! k ! unat s = (wstep ^^ Suc k) s"
proof -
  have "k \<in> {0, 1, 2, 3, 4, 5, 6, 7}" by (rule less8_cases [OF assms(1)])
  then show ?thesis
    unfolding whiten_state_tbl_def whiten_state_lin
    by (elim insertE emptyE) (simp_all add: whiten_state_rows [OF assms(2)] del: funpow.simps)
qed

lemma length_whiten_word_tbl [simp]: "length whiten_word_tbl = 128"
  by (simp add: whiten_word_tbl_lin)

lemma length_whiten_state_tbl [simp]:
  assumes "k < 8"
  shows "length (whiten_state_tbl ! k) = 128"
proof -
  have "list_all (\<lambda>t. length t = 128) whiten_state_tbl"
    by (simp add: whiten_state_tbl_def whiten_state_lin)
  moreover have "length whiten_state_tbl = 8" by (simp add: whiten_state_tbl_def)
  ultimately show ?thesis using assms by (simp add: list_all_length)
qed

section \<open>Correctness\<close>

lemma bitat_update:
  "k < length xs \<Longrightarrow> bitat (xs[k := b]) i = (if i div 8 = k then bit b (i mod 8) else bitat xs i)"
  by (auto simp: bitat_def nth_list_update)

definition whiten_inv :: "u8 list \<Rightarrow> u8 list \<Rightarrow> u8 \<Rightarrow> nat \<Rightarrow> u8 list \<times> u8 \<Rightarrow> bool" where
  "whiten_inv inp out0 s n st \<longleftrightarrow>
     length (fst st) = length out0 \<and> snd st = (wstep ^^ (8 * n)) s \<and>
     (\<forall>j. bitat (fst st) j = (if j < 8 * n then bitat inp j \<noteq> keybit s j else bitat out0 j))"

lemma whiten_byte_inv:
  assumes "n < length inp" and "n < length out0" and s: "unat s < 128" and I: "whiten_inv inp out0 s n st"
  shows "\<exists>st'. whiten_byte inp n st = Inr st' \<and> whiten_inv inp out0 s (Suc n) st'"
proof -
  let ?s = "(wstep ^^ (8 * n)) s"
  have lt: "unat ?s < 128" by (rule wstep_funpow_less [OF s])
  obtain o' where st: "st = (o', ?s)" and len: "length o' = length out0"
    and bits: "\<And>j. bitat o' j = (if j < 8 * n then bitat inp j \<noteq> keybit s j else bitat out0 j)"
    using I by (cases st) (auto simp: whiten_inv_def)
  let ?o = "o'[n := inp ! n XOR kword 8 ?s]"
  have "whiten_byte inp n st = Inr (?o, (wstep ^^ 8) ?s)"
    using assms(1,2) lt len whiten_state_tbl_eq [of 7 ?s]
    by (simp add: whiten_byte_def st whiten_word_tbl_eq)
  moreover have "(wstep ^^ 8) ?s = (wstep ^^ (8 * Suc n)) s"
    by (metis funpow_add o_apply mult_Suc_right)
  moreover have "bitat ?o j = (if j < 8 * Suc n then bitat inp j \<noteq> keybit s j else bitat out0 j)" for j
  proof (cases "j div 8 = n")
    case True
    then have j: "j = 8 * n + j mod 8" by (metis mult_div_mod_eq)
    have "keybit ?s (j mod 8) = keybit s j" using j by (simp add: keybit_add flip: j)
    moreover have "j < 8 * Suc n" using j by simp
    ultimately show ?thesis using True len assms(2)
      by (simp add: bitat_update bit_xor_iff bit_kword) (simp add: bitat_def True)
  next
    case False
    then have "j < 8 * n \<longleftrightarrow> j < 8 * Suc n" by auto
    then show ?thesis using False len assms(2) by (simp add: bitat_update bits)
  qed
  ultimately show ?thesis using len by (auto simp: whiten_inv_def)
qed

lemma whiten_bytes:
  assumes "n \<le> length inp" and "n \<le> length out" and "unat s < 128"
  shows "\<exists>out'. loop n (whiten_byte inp) (out, s) = Inr (out', (wstep ^^ (8 * n)) s) \<and> length out' = length out \<and>
    (\<forall>j. bitat out' j = (if j < 8 * n then bitat inp j \<noteq> keybit s j else bitat out j))"
proof -
  have "\<exists>st. loop n (whiten_byte inp) (out, s) = Inr st \<and> whiten_inv inp out s n st"
  proof (rule loop_inv)
    show "whiten_inv inp out s 0 (out, s)" by (simp add: whiten_inv_def)
  next
    fix i st assume "i < n" and "whiten_inv inp out s i st"
    then show "\<exists>st'. whiten_byte inp i st = Inr st' \<and> whiten_inv inp out s (Suc i) st'"
      using assms by (intro whiten_byte_inv) simp_all
  qed
  then show ?thesis by (auto simp: whiten_inv_def)
qed

lemma and_7f: "unat (s AND 0x7f :: u8) < 128"
  using word_and_le1 [of s "0x7f"] by (simp add: word_le_nat_alt)

lemma low_mask_8: "(x :: u8) AND (2 ^ n - 1) = take_bit n x"
  by (simp add: take_bit_eq_mask mask_eq_exp_minus_1)

text \<open>
  \<open>whiten\<close> of \<open>n\<close> bits adds the key stream of the register to them, leaves the register \<open>n\<close> steps
  on, and clears the rest of the last byte.
\<close>

lemma whiten_spec:
  assumes li: "(len + 7) div 8 \<le> length inp" and lo: "(len + 7) div 8 \<le> length out"
  shows "\<exists>out'. whiten out inp len s = Inr (out', (wstep ^^ len) (s AND 0x7f)) \<and> length out' = length out \<and>
    (\<forall>j. bitat out' j = (if j < len then bitat inp j \<noteq> keybit (s AND 0x7f) j
                        else if j < 8 * ((len + 7) div 8) then False else bitat out j))"
proof -
  let ?n = "len div 8" and ?k = "len mod 8" and ?s = "s AND 0x7f"
  have len: "len = 8 * ?n + ?k" by simp
  have "?n \<le> (len + 7) div 8" by (rule div_le_mono) simp
  then have n: "?n \<le> length inp" "?n \<le> length out" using li lo by linarith+
  obtain o1 where o1: "loop ?n (whiten_byte inp) (out, ?s) = Inr (o1, (wstep ^^ (8 * ?n)) ?s)"
    and l1: "length o1 = length out"
    and b1: "\<And>j. bitat o1 j = (if j < 8 * ?n then bitat inp j \<noteq> keybit ?s j else bitat out j)"
    using whiten_bytes [OF n and_7f [of s]] by auto
  show ?thesis
  proof (cases "?k = 0")
    case True
    then have "len = 8 * ?n" by presburger
    moreover from True have "(len + 7) div 8 = ?n" by (rule byte_align_cases)
    ultimately show ?thesis using o1 l1 b1 True by (auto simp: whiten_def Let_def)
  next
    case False
    let ?t = "(wstep ^^ (8 * ?n)) ?s"
    let ?o = "o1[?n := take_bit ?k (inp ! ?n XOR kword 8 ?t)]"
    have up: "(len + 7) div 8 = Suc ?n" using False by (rule byte_align_cases)
    have lt: "unat ?t < 128" by (rule wstep_funpow_less [OF and_7f])
    have ni: "?n < length inp" "?n < length out" using li lo unfolding up by (simp_all add: Suc_le_eq)
    have "whiten out inp len s = Inr (?o, (wstep ^^ Suc (?k - 1)) ?t)"
      using o1 l1 ni False lt whiten_state_tbl_eq [of "?k - 1" ?t] whiten_word_tbl_eq [of ?t]
      by (simp add: whiten_def Let_def low_mask_8 del: funpow.simps)
    also have "(wstep ^^ Suc (?k - 1)) ?t = (wstep ^^ len) ?s"
    proof -
      have "Suc (?k - 1) + 8 * ?n = len" using False by simp
      then show ?thesis by (metis funpow_add o_apply)
    qed
    finally have w: "whiten out inp len s = Inr (?o, (wstep ^^ len) ?s)" .
    have "bitat ?o j = (if j < len then bitat inp j \<noteq> keybit ?s j
        else if j < 8 * Suc ?n then False else bitat out j)" for j
    proof (cases "j div 8 = ?n")
      case True
      then have j: "j = 8 * ?n + j mod 8" by (metis mult_div_mod_eq)
      then have jl: "j < len \<longleftrightarrow> j mod 8 < ?k" using len by linarith
      have "j < 8 * Suc ?n" using dividend_less_div_times [of 8 j] True by simp
      moreover have "keybit ?t (j mod 8) = keybit ?s j" using j by (simp add: keybit_add flip: j)
      ultimately show ?thesis using True l1 ni jl
        by (simp add: bitat_update bit_take_bit_iff bit_xor_iff bit_kword) (simp add: bitat_def True)
    next
      case False
      have a: "j < 8 * m \<longleftrightarrow> j div 8 < m" for m by (simp add: div_less_iff_less_mult mult.commute)
      have lt: "j < 8 * ?n" if "j div 8 \<le> ?n"
        unfolding a using that False by linarith
      have "j < 8 * ?n" if "j < len" by (rule lt) (rule div_le_mono, use that in simp)
      moreover have "j < len" if "j < 8 * ?n" using that len by linarith
      moreover have "j < 8 * ?n" if "j < 8 * Suc ?n"
        by (rule lt) (use that in \<open>simp only: a less_Suc_eq_le\<close>)
      ultimately have "j < 8 * ?n \<longleftrightarrow> j < len" and "j < 8 * ?n \<longleftrightarrow> j < 8 * Suc ?n"
        by (blast, simp add: iff_conv_conj_imp)
      then show ?thesis using False l1 ni by (auto simp: bitat_update b1)
    qed
    then show ?thesis using w l1 up by auto
  qed
qed

text \<open>
  C28. \<open>whiten\<close> adds to the first \<open>len\<close> bits the key stream of the shift register started at the low
  seven bits of the state, for every length, byte aligned or not, and returns the register after
  \<open>len\<close> steps as the new state.
\<close>

theorem whiten_keystream:
  assumes "(len + 7) div 8 \<le> length inp" and "(len + 7) div 8 \<le> length out"
  shows "\<exists>out'. whiten out inp len s = Inr (out', (wstep ^^ len) (s AND 0x7f)) \<and> length out' = length out \<and>
    (\<forall>j<len. bitat out' j = (bitat inp j \<noteq> keybit (s AND 0x7f) j))"
proof -
  obtain out' where "whiten out inp len s = Inr (out', (wstep ^^ len) (s AND 0x7f))" and "length out' = length out"
    and "\<And>j. bitat out' j = (if j < len then bitat inp j \<noteq> keybit (s AND 0x7f) j
                        else if j < 8 * ((len + 7) div 8) then False else bitat out j)"
    using whiten_spec [OF assms, of s] by blast
  then show ?thesis by (intro exI [of _ out']) simp
qed

theorem whiten_keystream_witness:
  "\<exists>out'. whiten [0, 0, 0] [0x12, 0x34, 0x03] 18 0x55 = Inr (out', (wstep ^^ 18) (0x55 AND 0x7f)) \<and> length out' = 3 \<and>
    (\<forall>j<18. bitat out' j = (bitat [0x12, 0x34, 0x03] j \<noteq> keybit (0x55 AND 0x7f) j))"
  using whiten_keystream [of 18 "[0x12, 0x34, 0x03]" "[0, 0, 0]" "0x55"] by simp

end
