(* ===== verification/BitFields.thy ===== *)
theory BitFields
  imports Prelude
begin

text \<open>
  Bit fields in byte buffers: the EXTRACT and ENCODE macros of firmware/btbr/include/ubtbr/bb.h,
  one macro per bit offset \<open>k\<close> in the first byte, and the lemmas that read and write them as runs of
  bits of the air order.
\<close>

section \<open>The macros\<close>

definition EXTRACT6 :: "nat \<Rightarrow> u32 \<Rightarrow> u32 \<Rightarrow> u32" where
  "EXTRACT6 k p0 p1 =
    (if k = 0 then p0 AND 0x3F
     else if k = 2 then drop_bit 2 p0 AND 0x3F
     else if k = 4 then drop_bit 4 p0 OR push_bit 4 (p1 AND 0x3)
     else drop_bit 6 p0 OR push_bit 2 (p1 AND 0xf))"

definition EXTRACT15 :: "nat \<Rightarrow> u32 \<Rightarrow> u32 \<Rightarrow> u32 \<Rightarrow> u32" where
  "EXTRACT15 k p0 p1 p2 =
    (if k = 0 then p0 OR push_bit 8 (p1 AND 0x7f)
     else if k = 1 then drop_bit 1 (p0 AND 0xfe) OR push_bit 7 p1
     else if k = 2 then drop_bit 2 (p0 AND 0xfc) OR push_bit 6 p1 OR push_bit 14 (p2 AND 0x01)
     else if k = 3 then drop_bit 3 (p0 AND 0xf8) OR push_bit 5 p1 OR push_bit 13 (p2 AND 0x03)
     else if k = 4 then drop_bit 4 (p0 AND 0xf0) OR push_bit 4 p1 OR push_bit 12 (p2 AND 0x07)
     else if k = 5 then drop_bit 5 (p0 AND 0xe0) OR push_bit 3 p1 OR push_bit 11 (p2 AND 0x0f)
     else if k = 6 then drop_bit 6 (p0 AND 0xc0) OR push_bit 2 p1 OR push_bit 10 (p2 AND 0x1f)
     else drop_bit 7 (p0 AND 0x80) OR push_bit 1 p1 OR push_bit 9 (p2 AND 0x3f))"

definition EXTRACT10 :: "nat \<Rightarrow> u32 \<Rightarrow> u32 \<Rightarrow> u32 \<Rightarrow> u32" where
  "EXTRACT10 k p0 p1 p2 =
    (if k = 0 then p0 OR push_bit 8 (p1 AND 0x03)
     else if k = 1 then drop_bit 1 p0 OR push_bit 7 (p1 AND 0x07)
     else if k = 2 then drop_bit 2 p0 OR push_bit 6 (p1 AND 0x0f)
     else if k = 3 then drop_bit 3 p0 OR push_bit 5 (p1 AND 0x1f)
     else if k = 4 then drop_bit 4 p0 OR push_bit 4 (p1 AND 0x3f)
     else if k = 5 then drop_bit 5 p0 OR push_bit 3 (p1 AND 0x7f)
     else if k = 6 then drop_bit 6 p0 OR push_bit 2 p1
     else drop_bit 7 p0 OR push_bit 1 p1 OR push_bit 9 (p2 AND 0x01))"

text \<open>
  All ENCODE macros write \<open>val\<close> from bit \<open>k\<close> of the first byte on: that byte is assigned when
  \<open>k = 0\<close> and or-ed into otherwise, the following ones are assigned \<open>val >> (8 * j - k)\<close>.
\<close>

definition put_bytes :: "nat \<Rightarrow> nat \<Rightarrow> u32 \<Rightarrow> u8 list \<Rightarrow> nat \<Rightarrow> u8 list res" where
  "put_bytes nb k val p byte =
     bnd (if k = 0 then wr p byte (ucast val)
          else bnd (rd p byte) (\<lambda>b. wr p byte (b OR ucast (push_bit k val)))) (\<lambda>p'.
     loop (nb - 1) (\<lambda>j q. wr q (byte + Suc j) (ucast (drop_bit (8 * Suc j - k) val))) p')"

definition ENCODE15 :: "nat \<Rightarrow> u32 \<Rightarrow> u8 list \<Rightarrow> nat \<Rightarrow> u8 list res" where
  "ENCODE15 k val p byte = put_bytes (if k \<le> 1 then 2 else 3) k val p byte"

definition ENCODE10 :: "nat \<Rightarrow> u32 \<Rightarrow> u8 list \<Rightarrow> nat \<Rightarrow> u8 list res" where
  "ENCODE10 k val p byte = put_bytes (if k \<le> 6 then 2 else 3) k val p byte"

definition ENCODE24 :: "nat \<Rightarrow> u32 \<Rightarrow> u8 list \<Rightarrow> nat \<Rightarrow> u8 list res" where
  "ENCODE24 k val p byte =
     (if k = 0 then put_bytes 3 0 val p byte
      else bnd (put_bytes 3 k val p byte) (\<lambda>p'.
           wr p' (byte + 3) (ucast ((push_bit k 1 - 1) AND drop_bit (24 - k) val))))"

section \<open>Reading\<close>

definition byte3 :: "u8 \<Rightarrow> u8 \<Rightarrow> u8 \<Rightarrow> nat \<Rightarrow> bool" where
  "byte3 a b c i = (if i < 8 then bit a i else if i < 16 then bit b (i - 8) else bit c (i - 16))"

lemma u8_bit_8: "bit (x :: u8) n \<Longrightarrow> n < 8"
  using bit_imp_le_length [of x n] by simp

lemma even_bits:
  fixes x :: u8
  shows "even (drop_bit n (ucast x) :: u32) \<longleftrightarrow> \<not> bit x n" and "even (ucast x :: u32) \<longleftrightarrow> \<not> bit x 0"
proof -
  have "even (drop_bit n (ucast x :: u32)) \<longleftrightarrow> \<not> bit x n" for n
    using bit_iff_odd_drop_bit [of "ucast x :: u32" n] u8_bit_8 [of x n] by (auto simp: bit_simps)
  from this [of n] this [of 0]
  show "even (drop_bit n (ucast x) :: u32) \<longleftrightarrow> \<not> bit x n" and "even (ucast x :: u32) \<longleftrightarrow> \<not> bit x 0"
    by simp_all
qed

lemma bit_and_high_masks:
  fixes x :: u8
  shows "drop_bit 1 (ucast x AND 0xfe) = (drop_bit 1 (ucast x) :: u32)"
    "drop_bit 2 (ucast x AND 0xfc) = (drop_bit 2 (ucast x) :: u32)"
    "drop_bit 3 (ucast x AND 0xf8) = (drop_bit 3 (ucast x) :: u32)"
    "drop_bit 4 (ucast x AND 0xf0) = (drop_bit 4 (ucast x) :: u32)"
    "drop_bit 5 (ucast x AND 0xe0) = (drop_bit 5 (ucast x) :: u32)"
    "drop_bit 6 (ucast x AND 0xc0) = (drop_bit 6 (ucast x) :: u32)"
    "drop_bit 7 (ucast x AND 0x80) = (drop_bit 7 (ucast x) :: u32)"
  by (simp_all add: drop_bit_and and_masks)
    (rule bit_word_eqI; auto simp: bit_simps even_bits dest: u8_bit_8; frule u8_bit_8; simp)+

lemma EXTRACT_low_byte:
  fixes x :: u8
  shows "drop_bit n (ucast x :: u32) = ucast (drop_bit n x)"
  by (rule bit_word_eqI) (auto simp: bit_simps dest: u8_bit_8)

lemma bit_EXTRACT15:
  assumes "k < 8"
  shows "bit (EXTRACT15 k (ucast a) (ucast b) (ucast c)) j \<longleftrightarrow> j < 15 \<and> byte3 a b c (k + j)"
  using less8_cases [OF assms]
  by (elim insertE emptyE)
    (auto simp: EXTRACT15_def byte3_def bit_and_high_masks and_masks bit_simps even_bits dest: u8_bit_8)

lemma bit_EXTRACT10:
  assumes "k < 8"
  shows "bit (EXTRACT10 k (ucast a) (ucast b) (ucast c)) j \<longleftrightarrow> j < 10 \<and> byte3 a b c (k + j)"
  using less8_cases [OF assms]
  by (elim insertE emptyE)
    (auto simp: EXTRACT10_def byte3_def and_masks bit_simps even_bits dest: u8_bit_8)

lemma bit_EXTRACT6:
  assumes "k \<in> {0, 2, 4, 6}"
  shows "bit (EXTRACT6 k (ucast a) (ucast b)) j \<longleftrightarrow> j < 6 \<and> byte3 a b c (k + j)"
  using assms
  by (elim insertE emptyE)
    (auto simp: EXTRACT6_def byte3_def and_masks bit_simps even_bits dest: u8_bit_8)

section \<open>Buffers as bit strings\<close>

text \<open>\<open>mkbytes n f\<close> is the buffer of \<open>n\<close> bytes whose bits in air order are \<open>f\<close>.\<close>

definition mkbyte :: "(nat \<Rightarrow> bool) \<Rightarrow> u8" where
  "mkbyte f = horner_sum of_bool 2 (map f [0..<8])"

definition mkbytes :: "nat \<Rightarrow> (nat \<Rightarrow> bool) \<Rightarrow> u8 list" where
  "mkbytes n f = map (\<lambda>i. mkbyte (\<lambda>b. f (8 * i + b))) [0..<n]"

lemma bit_mkbyte: "bit (mkbyte f) j \<longleftrightarrow> j < 8 \<and> f j"
  by (auto simp: mkbyte_def bit_horner_sum_bit_iff)

lemma length_mkbytes [simp]: "length (mkbytes n f) = n"
  by (simp add: mkbytes_def)

lemma bitat_mkbytes [simp]: "q < 8 * n \<Longrightarrow> bitat (mkbytes n f) q = f q"
proof -
  assume "q < 8 * n"
  then have "q div 8 < n" by (simp add: less_mult_imp_div_less mult.commute)
  then show ?thesis by (simp add: bitat_def mkbytes_def bit_mkbyte)
qed

lemma mkbytes_eqI:
  "length xs = n \<Longrightarrow> (\<And>q. q < 8 * n \<Longrightarrow> bitat xs q = f q) \<Longrightarrow> xs = mkbytes n f"
  by (rule bytes_eqI) auto

text \<open>The \<open>w\<close> bits from position \<open>pos\<close> on, as a number.\<close>

definition getbits :: "nat \<Rightarrow> u8 list \<Rightarrow> nat \<Rightarrow> u32" where
  "getbits w inp pos = horner_sum of_bool 2 (map (\<lambda>j. bitat inp (pos + j)) [0..<w])"

lemma bit_getbits: "bit (getbits w inp pos) j \<longleftrightarrow> j < w \<and> j < 32 \<and> bitat inp (pos + j)"
  by (auto simp: getbits_def bit_horner_sum_bit_iff)

text \<open>The \<open>switch (pos & 7)\<close> over the EXTRACT macros at \<open>in + (pos >> 3)\<close>.\<close>

definition ext15 :: "u8 list \<Rightarrow> nat \<Rightarrow> u32 res" where
  "ext15 inp pos =
     (let byte_pos = pos div 8; k = pos mod 8 in
      bnd (rd inp byte_pos) (\<lambda>a.
      bnd (rd inp (byte_pos + 1)) (\<lambda>b.
      if k \<le> 1 then Inr (EXTRACT15 k (ucast a) (ucast b) 0)
      else bnd (rd inp (byte_pos + 2)) (\<lambda>c. Inr (EXTRACT15 k (ucast a) (ucast b) (ucast c))))))"

definition ext10 :: "u8 list \<Rightarrow> nat \<Rightarrow> u32 res" where
  "ext10 inp pos =
     (let byte_pos = pos div 8; k = pos mod 8 in
      bnd (rd inp byte_pos) (\<lambda>a.
      bnd (rd inp (byte_pos + 1)) (\<lambda>b.
      if k \<le> 6 then Inr (EXTRACT10 k (ucast a) (ucast b) 0)
      else bnd (rd inp (byte_pos + 2)) (\<lambda>c. Inr (EXTRACT10 k (ucast a) (ucast b) (ucast c))))))"

definition ext6 :: "u8 list \<Rightarrow> nat \<Rightarrow> u32 res" where
  "ext6 inp pos =
     (let byte_pos = pos div 8; k = pos mod 8 in
      bnd (rd inp byte_pos) (\<lambda>a.
      if k = 0 \<or> k = 2 then Inr (EXTRACT6 k (ucast a) 0)
      else bnd (rd inp (byte_pos + 1)) (\<lambda>b. Inr (EXTRACT6 k (ucast a) (ucast b)))))"

lemma bitat_byte: "m < 8 \<Longrightarrow> bitat xs (8 * i + m) = bit (xs ! i) m"
  by (simp add: bitat_def)

lemma byte3_bitat:
  assumes "k + j < 24"
  shows "byte3 (inp ! B) (inp ! (B + 1)) (inp ! (B + 2)) (k + j) = bitat inp (8 * B + k + j)"
proof -
  define m q where "m = (k + j) mod 8" and "q = (k + j) div 8"
  have m: "m < 8" and q: "q \<in> {0, 1, 2}" and kj: "k + j = 8 * q + m"
    using assms by (auto simp: m_def q_def)
  have s: "8 * B + k + j = 8 * (B + q) + m" using kj by simp
  show ?thesis
    unfolding s bitat_byte [OF m] unfolding byte3_def kj using m q by (elim insertE emptyE) auto
qed

lemma need_bytes:
  assumes "pos + w \<le> 8 * (n :: nat)"
  shows "8 * c < pos mod 8 + w \<Longrightarrow> pos div 8 + c < n"
proof -
  assume "8 * c < pos mod 8 + w"
  moreover have "pos + w = 8 * (pos div 8) + (pos mod 8 + w)" by simp
  ultimately have "8 * (pos div 8 + c) < pos + w" unfolding distrib_left by (metis nat_add_left_cancel_less)
  then have "8 * (pos div 8 + c) < 8 * n" using assms by linarith
  then show ?thesis by simp
qed

lemma ext15_ok:
  assumes "pos + 15 \<le> 8 * length inp"
  shows "ext15 inp pos = Inr (getbits 15 inp pos)"
proof -
  define k B where "k = pos mod 8" and "B = pos div 8"
  have k: "k < 8" and pos: "pos = 8 * B + k" by (simp_all add: k_def B_def)
  note need = need_bytes [OF assms, folded k_def B_def]
  have in1: "B < length inp" "Suc B < length inp" using need [of 0] need [of 1] by simp_all
  have val: "EXTRACT15 k (ucast (inp ! B)) (ucast (inp ! Suc B)) (ucast c) = getbits 15 inp pos"
    if c: "1 < k \<Longrightarrow> c = inp ! Suc (Suc B)" for c
  proof -
    have eq: "byte3 (inp ! B) (inp ! Suc B) c (k + j) = byte3 (inp ! B) (inp ! (B + 1)) (inp ! (B + 2)) (k + j)"
      if "j < 15" for j
      using that c by (cases "1 < k") (auto simp: byte3_def)
    show ?thesis
      by (rule bit_word_eqI)
        (use k eq byte3_bitat [of k _ inp B] in \<open>auto simp: bit_EXTRACT15 bit_getbits pos\<close>)
  qed
  show ?thesis
  proof (cases "k \<le> 1")
    case True
    then show ?thesis using in1 val [of 0] by (simp add: ext15_def Let_def k_def [symmetric] B_def [symmetric])
  next
    case False
    then have "Suc (Suc B) < length inp" using need [of 2] by simp
    then show ?thesis using False in1 val [of "inp ! Suc (Suc B)"]
      by (simp add: ext15_def Let_def k_def [symmetric] B_def [symmetric])
  qed
qed

lemma ext10_ok:
  assumes "pos + 10 \<le> 8 * length inp"
  shows "ext10 inp pos = Inr (getbits 10 inp pos)"
proof -
  define k B where "k = pos mod 8" and "B = pos div 8"
  have k: "k < 8" and pos: "pos = 8 * B + k" by (simp_all add: k_def B_def)
  note need = need_bytes [OF assms, folded k_def B_def]
  have in1: "B < length inp" "Suc B < length inp" using need [of 0] need [of 1] by simp_all
  have val: "EXTRACT10 k (ucast (inp ! B)) (ucast (inp ! Suc B)) (ucast c) = getbits 10 inp pos"
    if c: "6 < k \<Longrightarrow> c = inp ! Suc (Suc B)" for c
  proof -
    have eq: "byte3 (inp ! B) (inp ! Suc B) c (k + j) = byte3 (inp ! B) (inp ! (B + 1)) (inp ! (B + 2)) (k + j)"
      if "j < 10" for j
      using that c by (cases "6 < k") (auto simp: byte3_def)
    show ?thesis
      by (rule bit_word_eqI)
        (use k eq byte3_bitat [of k _ inp B] in \<open>auto simp: bit_EXTRACT10 bit_getbits pos\<close>)
  qed
  show ?thesis
  proof (cases "k \<le> 6")
    case True
    then show ?thesis using in1 val [of 0] by (simp add: ext10_def Let_def k_def [symmetric] B_def [symmetric])
  next
    case False
    then have "Suc (Suc B) < length inp" using need [of 2] k by simp
    then show ?thesis using False in1 val [of "inp ! Suc (Suc B)"]
      by (simp add: ext10_def Let_def k_def [symmetric] B_def [symmetric])
  qed
qed

lemma ext6_ok:
  assumes "pos + 6 \<le> 8 * length inp" and ev: "even pos"
  shows "ext6 inp pos = Inr (getbits 6 inp pos)"
proof -
  define k B where "k = pos mod 8" and "B = pos div 8"
  have k8: "k < 8" and pos: "pos = 8 * B + k" by (simp_all add: k_def B_def)
  have k: "k \<in> {0, 2, 4, 6}"
    using less8_cases [OF k8] ev unfolding pos by auto
  note need = need_bytes [OF assms(1), folded k_def B_def]
  have in1: "B < length inp" using need [of 0] by simp
  have val: "EXTRACT6 k (ucast (inp ! B)) (ucast b) = getbits 6 inp pos"
    if b: "\<not> (k = 0 \<or> k = 2) \<Longrightarrow> b = inp ! Suc B" for b
  proof -
    have eq: "byte3 (inp ! B) b c (k + j) = byte3 (inp ! B) (inp ! (B + 1)) (inp ! (B + 2)) (k + j)"
      if "j < 6" for j c
      using that b k by (cases "k = 0 \<or> k = 2") (auto simp: byte3_def)
    show ?thesis
      by (rule bit_word_eqI)
        (use eq k8 byte3_bitat [of k _ inp B] in
          \<open>auto simp: bit_EXTRACT6 [OF k, where c = 0] bit_getbits pos\<close>)
  qed
  show ?thesis
  proof (cases "k = 0 \<or> k = 2")
    case True
    then show ?thesis using in1 val [of 0] by (simp add: ext6_def Let_def k_def [symmetric] B_def [symmetric])
  next
    case False
    then have "Suc B < length inp" using need [of 1] k by auto
    then show ?thesis using False in1 val [of "inp ! Suc B"]
      by (simp add: ext6_def Let_def k_def [symmetric] B_def [symmetric])
  qed
qed

section \<open>Writing\<close>

text \<open>
  \<open>align8 p\<close> is the first byte boundary from \<open>p\<close> on.  A buffer is clean at \<open>p\<close> when the rest of
  the byte \<open>p\<close> falls in is zero ("buffer must be zeroed"); every write leaves it clean at its end.
  \<open>putn out pos w n v\<close> is \<open>out\<close> with the \<open>n\<close> fields \<open>v 0, v 1, \<dots>\<close> of \<open>w\<close> bits from \<open>pos\<close> on.
\<close>

definition align8 :: "nat \<Rightarrow> nat" where
  "align8 p = 8 * ((p + 7) div 8)"

definition clean :: "u8 list \<Rightarrow> nat \<Rightarrow> bool" where
  "clean out p \<longleftrightarrow> (\<forall>q. p \<le> q \<longrightarrow> q < align8 p \<longrightarrow> \<not> bitat out q)"

definition putn :: "u8 list \<Rightarrow> nat \<Rightarrow> nat \<Rightarrow> nat \<Rightarrow> (nat \<Rightarrow> u32) \<Rightarrow> u8 list" where
  "putn out pos w n v = mkbytes (length out) (\<lambda>q.
     if pos \<le> q \<and> q < align8 (pos + n * w)
     then q < pos + n * w \<and> bit (v ((q - pos) div w)) ((q - pos) mod w)
     else bitat out q)"

lemma length_putn [simp]: "length (putn out pos w n v) = length out"
  by (simp add: putn_def)

lemma bitat_putn:
  "q < 8 * length out \<Longrightarrow> bitat (putn out pos w n v) q =
    (if pos \<le> q \<and> q < align8 (pos + n * w)
     then q < pos + n * w \<and> bit (v ((q - pos) div w)) ((q - pos) mod w) else bitat out q)"
  by (simp add: putn_def)

lemma align8_cases: "align8 (8 * B + k) = 8 * B + align8 k"
  by (simp add: align8_def add.assoc)

lemma align8_le: "p \<le> align8 p" "align8 p < p + 8"
  unfolding align8_def by presburger+

lemma loop_wr:
  "b + m \<le> length p \<Longrightarrow>
   loop m (\<lambda>j q. wr q (b + j) (f j)) p = Inr (take b p @ map f [0..<m] @ drop (b + m) p)"
proof (induction m)
  case (Suc m)
  then have "drop (b + m) p = p ! (b + m) # drop (b + Suc m) p"
    by (simp add: Cons_nth_drop_Suc)
  then show ?case using Suc by (simp add: list_update_append)
qed simp

lemma put_bytes_eq:
  assumes "k < 8" and "0 < nb" and "byte + nb \<le> length p"
    and cl: "k \<noteq> 0 \<Longrightarrow> \<forall>i. k \<le> i \<longrightarrow> i < 8 \<longrightarrow> \<not> bit (p ! byte) i"
  shows "put_bytes nb k val p byte = Inr (mkbytes (length p) (\<lambda>q.
    if 8 * byte + k \<le> q \<and> q < 8 * (byte + nb) then bit val (q - (8 * byte + k)) else bitat p q))"
proof -
  define b0 where "b0 = (if k = 0 then ucast val else p ! byte OR ucast (push_bit k val))"
  define g where "g = (\<lambda>j. ucast (drop_bit (8 * Suc j - k) val) :: u8)"
  define r where "r = take byte p @ b0 # map g [0..<nb - 1] @ drop (byte + nb) p"
  have b0: "bit b0 m \<longleftrightarrow> (if k \<le> m then bit val (m - k) else bit (p ! byte) m)" if "m < 8" for m
    using that cl assms(1) by (auto simp: b0_def bit_simps)
  have g: "bit (g j) m \<longleftrightarrow> bit val (8 * Suc j - k + m)" if "m < 8" for j m
    using that by (simp add: g_def bit_simps)
  have eq: "put_bytes nb k val p byte = loop (nb - 1) (\<lambda>j q. wr q (Suc byte + j) (g j)) (p[byte := b0])"
    using assms by (simp add: put_bytes_def b0_def g_def)
  have "\<dots> = Inr r"
    using assms loop_wr [of "Suc byte" "nb - 1" "p[byte := b0]" g]
    by (simp add: r_def take_Suc_conv_app_nth)
  moreover have "r = mkbytes (length p) (\<lambda>q.
    if 8 * byte + k \<le> q \<and> q < 8 * (byte + nb) then bit val (q - (8 * byte + k)) else bitat p q)"
  proof (rule mkbytes_eqI)
    show "length r = length p" using assms by (simp add: r_def)
    fix q assume q: "q < 8 * length p"
    define i m where "i = q div 8" and "m = q mod 8"
    have qim: "q = 8 * i + m" and m: "m < 8" by (simp_all add: i_def m_def)
    have rest: "r ! i = p ! i" if "i < byte \<or> byte + nb \<le> i"
      using that assms
      by (auto simp: r_def nth_append nth_Cons split: nat.splits intro!: arg_cong [where f = "nth p"])
    have mid: "r ! i = g (i - Suc byte)" if "byte < i" "i < byte + nb"
      using that assms
      by (auto simp: r_def nth_append nth_Cons split: nat.splits intro!: arg_cong [where f = g])
    have first: "r ! byte = b0" using assms by (simp add: r_def nth_append)
    consider "i < byte" | "i = byte" | "byte < i" "i < byte + nb" | "byte + nb \<le> i" by linarith
    then show "bitat r q = (if 8 * byte + k \<le> q \<and> q < 8 * (byte + nb) then bit val (q - (8 * byte + k))
        else bitat p q)"
    proof cases
      case 1
      then show ?thesis using rest m by (simp add: qim bitat_byte)
    next
      case 2
      then show ?thesis using first b0 [OF m] m assms(2) by (simp add: qim bitat_byte)
    next
      case 3
      then have "8 * Suc (i - Suc byte) - k + m = 8 * i + m - (8 * byte + k)"
        using assms(1) by simp
      then show ?thesis using 3 mid g [OF m, of "i - Suc byte"] m assms(1)
        by (simp add: qim bitat_byte)
    next
      case 4
      then show ?thesis using rest m by (simp add: qim bitat_byte)
    qed
  qed
  ultimately show ?thesis using eq by simp
qed

lemma clean_byte:
  assumes "clean out (8 * B + k)" and "k \<noteq> 0" and "k \<le> i" and "i < 8"
  shows "\<not> bit (out ! B) i"
proof -
  have "align8 k = 8" using assms by (simp add: align8_def div_nat_eqI)
  then have "\<not> bitat out (8 * B + i)"
    using assms unfolding clean_def align8_cases by simp
  then show ?thesis using assms(4) by (simp add: bitat_byte)
qed

text \<open>One field: \<open>nb\<close> is the number of bytes it touches.\<close>

lemma put_bytes_field:
  assumes "clean out pos" and "pos + w \<le> 8 * length out"
    and v: "\<And>j. bit val j \<Longrightarrow> j < w" and nb: "align8 (pos mod 8 + w) = 8 * nb" "0 < nb"
  shows "put_bytes nb (pos mod 8) val out (pos div 8) = Inr (putn out pos w 1 (\<lambda>_. val))"
proof -
  define k B where "k = pos mod 8" and "B = pos div 8"
  have k: "k < 8" and pos: "pos = 8 * B + k" by (simp_all add: k_def B_def)
  have al: "align8 (pos + w) = 8 * (B + nb)"
    using nb align8_cases [of B "k + w"] k by (simp add: pos add.assoc)
  have fits: "B + nb \<le> length out"
  proof -
    have "(pos + w + 7) div 8 = B + nb" using al by (simp add: align8_def)
    moreover have "(pos + w + 7) div 8 \<le> (8 * length out + 7) div 8"
      using assms(2) by (intro div_le_mono) simp
    ultimately show ?thesis by simp
  qed
  have "put_bytes nb k val out B = Inr (mkbytes (length out) (\<lambda>q.
    if 8 * B + k \<le> q \<and> q < 8 * (B + nb) then bit val (q - (8 * B + k)) else bitat out q))"
    using clean_byte [OF assms(1) [unfolded pos]] by (intro put_bytes_eq [OF k nb(2) fits]) blast
  also have "mkbytes (length out) (\<lambda>q.
    if 8 * B + k \<le> q \<and> q < 8 * (B + nb) then bit val (q - (8 * B + k)) else bitat out q)
    = putn out pos w 1 (\<lambda>_. val)"
  proof -
    have "bit val (q - pos) \<longleftrightarrow> q < pos + w \<and> bit val ((q - pos) mod w)" if "pos \<le> q" for q
      using v [of "q - pos"] that by (cases "q < pos + w") (auto simp: less_diff_conv2)
    then show ?thesis unfolding putn_def pos [symmetric] mult_1 al
      by (intro arg_cong [where f = "mkbytes (length out)"] ext if_cong refl) blast
  qed
  finally show ?thesis by (simp add: k_def B_def)
qed

lemma putn_0: "clean out pos \<Longrightarrow> putn out pos w 0 v = out"
  unfolding putn_def by (rule mkbytes_eqI [symmetric]) (auto simp: clean_def)

lemma clean_putn:
  assumes "pos + n * w \<le> 8 * length out"
  shows "clean (putn out pos w n v) (pos + n * w)"
proof -
  have "align8 (pos + n * w) \<le> 8 * length out"
  proof -
    have "(pos + n * w + 7) div 8 \<le> (8 * length out + 7) div 8" using assms by (intro div_le_mono) simp
    then show ?thesis by (simp add: align8_def)
  qed
  then show ?thesis by (simp add: clean_def bitat_putn)
qed

lemma putn_Suc:
  assumes "0 < w" and "pos + Suc n * w \<le> 8 * length out"
  shows "putn (putn out pos w n v) (pos + n * w) w 1 (\<lambda>_. v n) = putn out pos w (Suc n) v"
proof -
  have mono: "align8 (pos + n * w) \<le> align8 (pos + Suc n * w)"
    unfolding align8_def by (intro mult_le_mono2 div_le_mono) simp
  have dm: "(q - pos) div w = n \<and> (q - pos) mod w = q - (pos + n * w)"
    if "pos + n * w \<le> q" "q < pos + Suc n * w" for q
  proof -
    have s: "q - pos = n * w + (q - (pos + n * w))" and "q - (pos + n * w) < w" using that by auto
    then show ?thesis by (metis div_mult_self3 mod_mult_self3 div_less mod_less assms(1) add.right_neutral less_irrefl)
  qed
  show ?thesis
    unfolding putn_def [of out pos w "Suc n"]
  proof (rule mkbytes_eqI)
    fix q assume q: "q < 8 * length out"
    define P P' where "P = pos + n * w" and "P' = pos + Suc n * w"
    have P': "P + w = P'" "P + 1 * w = P'" by (simp_all add: P_def P'_def)
    have ord: "pos \<le> P" "P \<le> align8 P" "P' \<le> align8 P'" "align8 P \<le> align8 P'" "P \<le> P'"
      using mono align8_le(1) by (simp_all add: P_def P'_def)
    define r where "r = putn (putn out pos w n v) P w 1 (\<lambda>_. v n)"
    have outer: "bitat r q =
       (if P \<le> q \<and> q < align8 P' then q < P' \<and> bit (v n) ((q - P) mod w) else bitat (putn out pos w n v) q)"
      using q bitat_putn [of q "putn out pos w n v" P w 1 "\<lambda>_. v n"] unfolding P'(2) r_def [symmetric]
      by simp
    have inner: "bitat (putn out pos w n v) q =
       (if pos \<le> q \<and> q < align8 P then q < P \<and> bit (v ((q - pos) div w)) ((q - pos) mod w) else bitat out q)"
      using q by (simp add: bitat_putn P_def)
    have last: "(q - P) mod w = q - P \<and> (q - pos) div w = n \<and> (q - pos) mod w = q - P" if "P \<le> q" "q < P'"
      using dm [of q] that P' by (simp add: P_def P'_def)
    have "bitat r q =
       (if pos \<le> q \<and> q < align8 P' then q < P' \<and> bit (v ((q - pos) div w)) ((q - pos) mod w) else bitat out q)"
    proof (cases "P \<le> q")
      case True
      then show ?thesis using ord last by (cases "q < P'") (simp_all add: outer inner)
    next
      case False
      then show ?thesis using ord by (simp add: outer inner)
    qed
    then show "bitat (putn (putn out pos w n v) (pos + n * w) w 1 (\<lambda>_. v n)) q =
       (if pos \<le> q \<and> q < align8 (pos + Suc n * w)
       then q < pos + Suc n * w \<and> bit (v ((q - pos) div w)) ((q - pos) mod w) else bitat out q)"
      by (simp only: P_def P'_def r_def)
  qed simp
qed

lemma align8_eqI: "8 * (nb - 1) < n \<Longrightarrow> n \<le> 8 * nb \<Longrightarrow> align8 n = 8 * nb"
proof -
  assume a: "8 * (nb - 1) < n" "n \<le> 8 * nb"
  have "(n + 7) div 8 = nb" by (rule div_nat_eqI) (use a in auto)
  then show ?thesis by (simp add: align8_def)
qed

lemma ENCODE15_field:
  assumes "clean out pos" and "pos + 15 \<le> 8 * length out" and "\<And>j. bit val j \<Longrightarrow> j < 15"
  shows "ENCODE15 (pos mod 8) val out (pos div 8) = Inr (putn out pos 15 1 (\<lambda>_. val))"
  unfolding ENCODE15_def
  by (rule put_bytes_field [OF assms])
    (use align8_eqI [of 2 "pos mod 8 + 15"] align8_eqI [of 3 "pos mod 8 + 15"] in auto)

lemma ENCODE10_field:
  assumes "clean out pos" and "pos + 10 \<le> 8 * length out" and "\<And>j. bit val j \<Longrightarrow> j < 10"
  shows "ENCODE10 (pos mod 8) val out (pos div 8) = Inr (putn out pos 10 1 (\<lambda>_. val))"
  unfolding ENCODE10_def
  by (rule put_bytes_field [OF assms])
    (use align8_eqI [of 2 "pos mod 8 + 10"] align8_eqI [of 3 "pos mod 8 + 10"] in auto)

text \<open>A loop that writes one field after the other.\<close>

lemma loop_putn:
  assumes "clean out pos" and "0 < w" and len: "pos + n * w \<le> 8 * length out"
    and step: "\<And>i q. i < n \<Longrightarrow> length q = length out \<Longrightarrow> clean q (pos + i * w) \<Longrightarrow>
      pos + i * w + w \<le> 8 * length out \<Longrightarrow>
      (\<And>p. p < pos \<Longrightarrow> bitat q p = bitat out p) \<Longrightarrow> f i q = Inr (putn q (pos + i * w) w 1 (\<lambda>_. v i))"
  shows "loop n f out = Inr (putn out pos w n v)"
proof -
  have "m \<le> n \<Longrightarrow> loop m f out = Inr (putn out pos w m v)" for m
  proof (induction m)
    case 0
    then show ?case using putn_0 [OF assms(1)] by simp
  next
    case (Suc m)
    have "Suc m * w \<le> n * w" using Suc.prems by (rule mult_le_mono1)
    then have l1: "pos + Suc m * w \<le> 8 * length out" using len by simp
    then have l0: "pos + m * w \<le> 8 * length out" by simp
    have "f m (putn out pos w m v) = Inr (putn (putn out pos w m v) (pos + m * w) w 1 (\<lambda>_. v m))"
      by (rule step) (use Suc.prems l1 l0 clean_putn [OF l0] in \<open>auto simp: bitat_putn\<close>)
    then show ?case using Suc putn_Suc [OF assms(2) l1] by simp
  qed
  then show ?thesis by simp
qed

lemma getbits_putn:
  assumes "i < n" and "pos + n * w \<le> 8 * length out" and "w \<le> 32" and "\<And>j. bit (v i) j \<Longrightarrow> j < w"
  shows "getbits w (putn out pos w n v) (pos + i * w) = v i"
proof (rule bit_word_eqI)
  fix j
  have b: "bitat (putn out pos w n v) (pos + i * w + j) = bit (v i) j" if j: "j < w"
  proof -
    have "Suc i * w \<le> n * w" using assms(1) by (intro mult_le_mono1) simp
    then have lt: "i * w + j < n * w" using j by simp
    have "(i * w + j) div w = i" "(i * w + j) mod w = j" using j by auto
    then show ?thesis
      using lt assms(2) align8_le(1) [of "pos + n * w"] by (simp add: bitat_putn add.assoc)
  qed
  show "bit (getbits w (putn out pos w n v) (pos + i * w)) j = bit (v i) j"
    using b assms(3) assms(4) [of j] by (auto simp: bit_getbits)
qed

end
