(* ===== verification/Fec13.thy ===== *)
theory Fec13
  imports Tables BitFields
begin

text \<open>
  The 1/3 rate code: every bit is sent three times and decoded by majority.  \<open>fec13\<close> and \<open>unfec13\<close> of
  firmware/btbr/src/codec/bitstream_proc.c work through tables, eight bits (two bits) at a time;
  \<open>unfec13_hdr\<close> of include/ubtbr/bb.h is the unrolled decoder for the 18 bits of a packet header.
\<close>

section \<open>The code\<close>

definition fec13 :: "u8 list \<Rightarrow> u8 list \<Rightarrow> nat \<Rightarrow> nat \<Rightarrow> (int \<times> u8 list) res" where
  "fec13 out inp out_of nbits =
     (if odd out_of \<or> odd nbits then Inr (- 1, out)
      else
        bnd (loop (nbits div 8) (\<lambda>i out.
               let out_bit_pos = out_of + i * 24 in
               bnd (rd inp i) (\<lambda>b.
               bnd (rd fec13_tbl (unat b)) (\<lambda>data.
               ENCODE24 (out_bit_pos mod 8) data out (out_bit_pos div 8)))) out) (\<lambda>out.
        let n = nbits div 8; left = nbits - n * 8; out_bit_pos = out_of + n * 24 in
        if left \<noteq> 0 then
          bnd (rd inp n) (\<lambda>b.
          bnd (rd fec13_tbl (unat b)) (\<lambda>data.
          bnd (ENCODE24 (out_bit_pos mod 8) (data AND (push_bit (left * 3) 1 - 1)) out (out_bit_pos div 8)) (\<lambda>out.
          Inr (0, out))))
        else Inr (0, out)))"

definition unfec13 :: "u8 list \<Rightarrow> u8 list \<Rightarrow> nat \<Rightarrow> nat \<Rightarrow> (int \<times> u8 list) res" where
  "unfec13 out inp in_of nbits =
     (if odd in_of \<or> odd nbits then Inr (1, out)
      else loop (nbits div 2) (\<lambda>i (be, out).
        let in_bit_pos = in_of + i * 6; out_bit_pos = i * 2 in
        bnd (ext6 inp in_bit_pos) (\<lambda>v.
        bnd (rd unfec13_tbl (unat v)) (\<lambda>li.
        bnd (rd out (out_bit_pos div 8)) (\<lambda>b.
        bnd (wr out (out_bit_pos div 8) (b OR ucast (push_bit (out_bit_pos mod 8) (li AND 3)))) (\<lambda>out.
        Inr (be + uint (drop_bit 14 li), out)))))) (0, out))"

definition unfec13_hdr :: "u8 list \<Rightarrow> u8 list \<Rightarrow> (int \<times> u8 list) res" where
  "unfec13_hdr out inp =
     (let look = (\<lambda>p. bnd (ext6 inp p) (\<lambda>x. bnd (rd unfec13_tbl (unat x)) (\<lambda>v. Inr (ucast v :: u32)))) in
      bnd (look (8 * 0 + 4)) (\<lambda>v0.
      bnd (look (8 * 1 + 2)) (\<lambda>v1.
      bnd (look (8 * 2 + 0)) (\<lambda>v2.
      bnd (look (8 * 2 + 6)) (\<lambda>v3.
      bnd (look (8 * 3 + 4)) (\<lambda>v4.
      bnd (look (8 * 4 + 2)) (\<lambda>v5.
      bnd (look (8 * 5 + 0)) (\<lambda>v6.
      bnd (look (8 * 5 + 6)) (\<lambda>v7.
      bnd (look (8 * 6 + 4)) (\<lambda>v8.
      bnd (wr out 0 (ucast (v0 OR push_bit 2 v1 OR push_bit 4 v2 OR push_bit 6 v3))) (\<lambda>out.
      bnd (wr out 1 (ucast (v4 OR push_bit 2 v5 OR push_bit 4 v6 OR push_bit 6 v7))) (\<lambda>out.
      bnd (wr out 2 (ucast v8)) (\<lambda>out.
      Inr (uint (drop_bit 14 (v0 + v1 + v2 + v3 + v4 + v5 + v6 + v7 + v8)), out))))))))))))))"

section \<open>Words\<close>

lemma bit_fec13_tbl: "bit (fec13_tbl ! unat (b :: u8)) j \<longleftrightarrow> j < 24 \<and> bit b (j div 3)"
proof -
  have "unat b < 256" using unsigned_less [of b] by simp
  then have x: "fec13_tbl ! unat b = xsum [0x000007, 0x000038, 0x0001c0, 0x000e00, 0x007000, 0x038000, 0x1c0000, 0xe00000] b"
    unfolding fec13_tbl_lin by (intro lin_tab_nth) simp_all
  have top: "take_bit 24 (fec13_tbl ! unat b) = fec13_tbl ! unat b"
    unfolding x by (simp add: xsum_def)
  show ?thesis
  proof (cases "j < 24")
    case True
    have "j = 3 * (j div 3) + j mod 3" by simp
    moreover have "j div 3 \<in> {0, 1, 2, 3, 4, 5, 6, 7}" using True by auto
    moreover have "j mod 3 \<in> {0, 1, 2}" by auto
    ultimately show ?thesis
      unfolding x using True by (elim insertE emptyE) (simp_all add: bit_simps)
  next
    case False
    then show ?thesis using arg_cong [OF top, of "\<lambda>w. bit w j"] by (simp add: bit_simps)
  qed
qed

definition maj3 :: "bool \<Rightarrow> bool \<Rightarrow> bool \<Rightarrow> bool" where
  "maj3 a b c \<longleftrightarrow> (a \<and> b) \<or> (a \<and> c) \<or> (b \<and> c)"

definition bad3 :: "bool \<Rightarrow> bool \<Rightarrow> bool \<Rightarrow> nat" where
  "bad3 a b c = (if a = b \<and> b = c then 0 else 1)"

definition pair13 :: "u32 \<Rightarrow> u16" where
  "pair13 x = of_bool (maj3 (bit x 0) (bit x 1) (bit x 2)) + 2 * of_bool (maj3 (bit x 3) (bit x 4) (bit x 5))
     + 0x4000 * of_nat (bad3 (bit x 0) (bit x 1) (bit x 2) + bad3 (bit x 3) (bit x 4) (bit x 5))"

lemma unfec13_tbl_eq: "unfec13_tbl = map (\<lambda>n. pair13 (of_nat n)) [0..<64]"
  by (simp add: unfec13_tbl_def upt_conv_Cons pair13_def maj3_def bad3_def)

section \<open>Encoding\<close>

lemma byte_pos_eq: "m < 8 \<Longrightarrow> k < 8 \<Longrightarrow> 8 * i + m = 8 * B + k \<longleftrightarrow> i = B \<and> m = (k :: nat)"
proof (intro iffI conjI)
  assume mk: "m < 8" "k < 8" and eq: "8 * i + m = 8 * B + k"
  have "(8 * i + m) div 8 = i" "(8 * B + k) div 8 = B" "(8 * i + m) mod 8 = m" "(8 * B + k) mod 8 = k"
    using mk by simp_all
  then show "i = B" "m = k" unfolding eq by simp_all
qed simp

lemma plus_3: "Suc (Suc (Suc n)) = n + 3"
  by simp

lemma ENCODE24_put_bytes:
  assumes "\<And>j. bit val j \<Longrightarrow> j < 24" and "k < 8"
  shows "ENCODE24 k val p byte = put_bytes (if k = 0 then 3 else 4) k val p byte"
proof (cases "k = 0")
  case False
  have "(push_bit k 1 - 1) AND drop_bit (24 - k) val = drop_bit (24 - k) val"
    by (rule bit_word_eqI)
      (use assms(1) [of "24 - k + _"] assms(2) in
        \<open>auto simp: bit_simps mask_eq_exp_minus_1 [symmetric] push_bit_eq_mult less_diff_conv2\<close>)
  then show ?thesis using False
    by (simp add: ENCODE24_def put_bytes_def bnd_assoc loop_numeral plus_3)
qed (simp add: ENCODE24_def)

lemma ENCODE24_field:
  assumes "clean out pos" and "pos + 24 \<le> 8 * length out" and val: "\<And>j. bit val j \<Longrightarrow> j < 24"
  shows "ENCODE24 (pos mod 8) val out (pos div 8) = Inr (putn out pos 24 1 (\<lambda>_. val))"
proof -
  have "ENCODE24 (pos mod 8) val out (pos div 8) = put_bytes (if pos mod 8 = 0 then 3 else 4) (pos mod 8) val out (pos div 8)"
    using val by (intro ENCODE24_put_bytes) auto
  also have "\<dots> = Inr (putn out pos 24 1 (\<lambda>_. val))"
    by (rule put_bytes_field [OF assms])
      (use align8_eqI [of 3 "pos mod 8 + 24"] align8_eqI [of 4 "pos mod 8 + 24"] in auto)
  finally show ?thesis .
qed

text \<open>The 24-bit fields \<open>fec13\<close> writes for an input of \<open>nbits\<close> bits.\<close>

definition rep24 :: "u8 list \<Rightarrow> nat \<Rightarrow> nat \<Rightarrow> u32" where
  "rep24 inp nbits i = take_bit (3 * (nbits - 8 * i)) (fec13_tbl ! unat (inp ! i))"

lemma bit_rep24:
  "bit (rep24 inp nbits i) j \<longleftrightarrow> j < 24 \<and> j < 3 * (nbits - 8 * i) \<and> bitat inp (8 * i + j div 3)"
proof (cases "j < 24")
  case True
  then have "j div 3 < 8" by simp
  then show ?thesis by (auto simp: rep24_def bit_simps bit_fec13_tbl bitat_byte)
next
  case False
  then show ?thesis by (simp add: rep24_def bit_simps bit_fec13_tbl)
qed

lemma length_fec13_tbl: "length fec13_tbl = 256" "length unfec13_tbl = 64"
  by (simp add: fec13_tbl_lin) (simp add: unfec13_tbl_def)

lemma rd_fec13: "rd fec13_tbl (unat (b :: u8)) = Inr (fec13_tbl ! unat b)"
proof -
  have "unat b < 256" using unsigned_less [of b] by simp
  then show ?thesis by (simp add: length_fec13_tbl)
qed

lemma fec13_eq:
  assumes "even out_of" "even nbits" and cl: "clean out out_of"
    and out: "out_of + 24 * ((nbits + 7) div 8) \<le> 8 * length out"
    and inp: "(nbits + 7) div 8 \<le> length inp"
  shows "fec13 out inp out_of nbits = Inr (0, putn out out_of 24 ((nbits + 7) div 8) (rep24 inp nbits))"
proof -
  define n where "n = nbits div 8"
  define f where "f = (\<lambda>i out. let out_bit_pos = out_of + i * 24 in
               bnd (rd inp i) (\<lambda>b.
               bnd (rd fec13_tbl (unat b)) (\<lambda>data.
               ENCODE24 (out_bit_pos mod 8) data out (out_bit_pos div 8))))"
  have nle: "n \<le> (nbits + 7) div 8" unfolding n_def by (rule div_le_mono) simp
  have full: "fec13_tbl ! unat (inp ! i) = rep24 inp nbits i" if "i < n" for i
  proof -
    have "8 * Suc i \<le> nbits" using that by (simp add: n_def less_eq_div_iff_mult_less_eq Suc_le_eq)
    then show ?thesis by (intro bit_word_eqI) (auto simp: rep24_def bit_simps bit_fec13_tbl)
  qed
  have fl: "loop n f out = Inr (putn out out_of 24 n (rep24 inp nbits))"
  proof (rule loop_putn [OF cl])
    show "out_of + n * 24 \<le> 8 * length out" using nle out by simp
    fix i q assume i: "i < n" and q: "clean q (out_of + i * 24)" "length q = length out"
      "out_of + i * 24 + 24 \<le> 8 * length out"
    have "ENCODE24 ((out_of + i * 24) mod 8) (rep24 inp nbits i) q ((out_of + i * 24) div 8)
      = Inr (putn q (out_of + i * 24) 24 1 (\<lambda>_. rep24 inp nbits i))"
      by (rule ENCODE24_field) (use q bit_rep24 in auto)
    then show "f i q = Inr (putn q (out_of + i * 24) 24 1 (\<lambda>_. rep24 inp nbits i))"
      using i nle inp full [OF i] by (simp add: f_def Let_def rd_fec13)
  qed simp
  have l8: "nbits - n * 8 = nbits mod 8" by (simp only: n_def minus_div_mult_eq_mod)
  show ?thesis
  proof (cases "nbits mod 8 = 0")
    case True
    then have nn: "(nbits + 7) div 8 = n" using byte_align_cases(1) by (simp add: n_def)
    show ?thesis using assms(1,2) fl True l8
      unfolding nn fec13_def f_def [symmetric] n_def [symmetric] by (simp add: Let_def)
  next
    case False
    then have nn: "(nbits + 7) div 8 = Suc n" using byte_align_cases(2) by (simp add: n_def)
    have lt: "n * 8 < nbits" using l8 False by simp
    let ?q = "putn out out_of 24 n (rep24 inp nbits)"
    let ?d = "fec13_tbl ! unat (inp ! n) AND (push_bit (nbits mod 8 * 3) 1 - 1)"
    have d: "?d = rep24 inp nbits n"
      using l8 by (simp add: rep24_def take_bit_eq_mask mask_eq_exp_minus_1 push_bit_eq_mult mult.commute)
    have "clean ?q (out_of + n * 24)" by (rule clean_putn) (use out nn in simp)
    then have "ENCODE24 ((out_of + n * 24) mod 8) ?d ?q ((out_of + n * 24) div 8)
      = Inr (putn ?q (out_of + n * 24) 24 1 (\<lambda>_. rep24 inp nbits n))"
      unfolding d by (rule ENCODE24_field) (use out nn bit_rep24 in auto)
    also have "putn ?q (out_of + n * 24) 24 1 (\<lambda>_. rep24 inp nbits n) = putn out out_of 24 (Suc n) (rep24 inp nbits)"
      by (rule putn_Suc) (use out nn in auto)
    finally show ?thesis using assms(1,2) fl l8 lt inp
      unfolding nn fec13_def f_def [symmetric] n_def [symmetric] by (simp add: Let_def rd_fec13)
  qed
qed

section \<open>Decoding\<close>

text \<open>Majority of the three air bits from \<open>p\<close> on, and whether they disagree.\<close>

definition maj_at :: "u8 list \<Rightarrow> nat \<Rightarrow> bool" where
  "maj_at xs p = maj3 (bitat xs p) (bitat xs (p + 1)) (bitat xs (p + 2))"

definition bad_at :: "u8 list \<Rightarrow> nat \<Rightarrow> nat" where
  "bad_at xs p = bad3 (bitat xs p) (bitat xs (p + 1)) (bitat xs (p + 2))"

lemma bad3_le: "bad3 a b c \<le> 1"
  by (simp add: bad3_def)

lemma look13:
  assumes "p + 6 \<le> 8 * length inp" and "even p"
  shows "bnd (ext6 inp p) (\<lambda>x. rd unfec13_tbl (unat x)) =
    Inr (of_bool (maj_at inp p) + 2 * of_bool (maj_at inp (p + 3)) + 0x4000 * of_nat (bad_at inp p + bad_at inp (p + 3)))"
proof -
  let ?g = "getbits 6 inp p"
  have "unat ?g < 2 ^ 6" by (rule unat_less_bits) (simp add: bit_getbits)
  then have "rd unfec13_tbl (unat ?g) = Inr (pair13 ?g)"
    by (simp add: length_fec13_tbl) (simp add: unfec13_tbl_eq)
  moreover have "pair13 ?g = of_bool (maj_at inp p) + 2 * of_bool (maj_at inp (p + 3))
      + 0x4000 * of_nat (bad_at inp p + bad_at inp (p + 3))"
    by (simp add: pair13_def bit_getbits maj_at_def bad_at_def add.commute [of p])
  ultimately show ?thesis using ext6_ok [OF assms] by simp
qed

lemma pair_word:
  fixes v :: u16
  assumes "v = of_bool a + 2 * of_bool b + 0x4000 * of_nat e" and "e \<le> 2"
  shows "unat v = of_bool a + 2 * of_bool b + 16384 * e" and "drop_bit 14 v = of_nat e"
    and "bit v 0 = a" and "bit v 1 = b" and "2 \<le> j \<Longrightarrow> j < 14 \<Longrightarrow> \<not> bit v j"
proof -
  have e: "e \<in> {0, 1, 2}" using assms(2) by auto
  then show "unat v = of_bool a + 2 * of_bool b + 16384 * e" and "drop_bit 14 v = of_nat e"
    and "bit v 0 = a" and "bit v 1 = b"
    using assms(1) by (elim insertE emptyE; cases a; cases b; simp)+
  have "take_bit 14 v = take_bit 2 v"
    using assms(1) e by (elim insertE emptyE; cases a; cases b; simp)
  then show "2 \<le> j \<Longrightarrow> j < 14 \<Longrightarrow> \<not> bit v j" by (metis bit_take_bit_iff not_le)
qed

definition bad_sum :: "u8 list \<Rightarrow> nat \<Rightarrow> nat \<Rightarrow> nat" where
  "bad_sum inp pos n = sum (\<lambda>i. bad_at inp (pos + 3 * i)) {..<n}"

lemma bad_sum_Suc: "bad_sum inp pos (Suc n) = bad_sum inp pos n + bad_at inp (pos + 3 * n)"
  by (simp add: bad_sum_def)

lemma unfec13_eq:
  assumes "even in_of" "even nbits" and inp: "in_of + 3 * nbits \<le> 8 * length inp"
    and out: "nbits \<le> 8 * length out" and zero: "\<And>q. q < nbits \<Longrightarrow> \<not> bitat out q"
  shows "unfec13 out inp in_of nbits = Inr (int (bad_sum inp in_of nbits),
    mkbytes (length out) (\<lambda>q. if q < nbits then maj_at inp (in_of + 3 * q) else bitat out q))"
proof -
  define st where "st = (\<lambda>n. (int (bad_sum inp in_of n),
    mkbytes (length out) (\<lambda>q. if q < n then maj_at inp (in_of + 3 * q) else bitat out q)))"
  define f where "f = (\<lambda>i (be :: int, out :: u8 list).
        let in_bit_pos = in_of + i * 6; out_bit_pos = i * 2 in
        bnd (ext6 inp in_bit_pos) (\<lambda>v.
        bnd (rd unfec13_tbl (unat v)) (\<lambda>li.
        bnd (rd out (out_bit_pos div 8)) (\<lambda>b.
        bnd (wr out (out_bit_pos div 8) (b OR ucast (push_bit (out_bit_pos mod 8) (li AND 3)))) (\<lambda>out.
        Inr (be + uint (drop_bit 14 li), out))))))"
  have step: "f n (st (2 * n)) = Inr (st (2 * Suc n))" if n: "2 * Suc n \<le> nbits" for n
  proof -
    define e where "e = bad_at inp (in_of + 6 * n) + bad_at inp (in_of + 6 * n + 3)"
    define a b where "a = maj_at inp (in_of + 6 * n)" and "b = maj_at inp (in_of + 6 * n + 3)"
    define li :: u16 where "li = of_bool a + 2 * of_bool b + 0x4000 * of_nat e"
    have e2: "e \<le> 2" using bad3_le by (simp add: e_def bad_at_def add_le_mono [of _ 1 _ 1, simplified])
    note li = pair_word [OF li_def e2]
    have look: "bnd (ext6 inp (in_of + 6 * n)) (\<lambda>x. rd unfec13_tbl (unat x)) = Inr li"
      using look13 [of "in_of + 6 * n" inp] n inp assms(1) by (simp add: li_def a_def b_def e_def)
    define B k where "B = (2 * n) div 8" and "k = (2 * n) mod 8"
    have pos: "2 * n = 8 * B + k" unfolding B_def k_def by (rule mult_div_mod_eq [symmetric])
    have "k = 2 * (n mod 4)" using mod_mult_mult1 [of 2 n 4] by (simp add: k_def)
    moreover have "n mod 4 < 4" by simp
    ultimately have k: "k < 7" by linarith
    have B: "B < length out" using n out pos by simp
    let ?o = "snd (st (2 * n))"
    let ?o' = "?o[B := ?o ! B OR ucast (push_bit k (li AND 3))]"
    have tgt: "snd (st (2 * Suc n)) = mkbytes (length out)
        (\<lambda>q. if q < 2 * Suc n then maj_at inp (in_of + 3 * q) else bitat out q)"
      by (simp add: st_def)
    have "?o' = snd (st (2 * Suc n))"
      unfolding tgt
    proof (rule mkbytes_eqI)
      fix q assume q: "q < 8 * length out"
      define i m where "i = q div 8" and "m = q mod 8"
      have qim: "q = 8 * i + m" and m: "m < 8" by (simp_all add: i_def m_def)
      have i: "i < length out" using q qim by simp
      have old: "bit (?o ! i) m = (if q < 2 * n then maj_at inp (in_of + 3 * q) else bitat out q)"
      proof -
        have "bit (?o ! i) m = bitat ?o q" by (simp only: qim bitat_byte [OF m])
        then show ?thesis using q by (simp add: st_def)
      qed
      have zq: "q < 2 * Suc n \<Longrightarrow> \<not> bitat out q" using zero n by simp
      have new: "bitat ?o' q = (bit (?o ! i) m \<or> (i = B \<and> k \<le> m \<and> bit (li AND 3) (m - k)))"
        using B i m by (auto simp: qim bitat_byte nth_list_update st_def bit_simps)
      have low: "bit (li AND 3) x = ((x = 0 \<and> a) \<or> (x = 1 \<and> b))" for x
        using li(3,4) by (cases "x < 2") (auto simp: and_masks bit_take_bit_iff less_2_cases_iff)
      have "i = B \<and> m = k \<longleftrightarrow> q = 2 * n" and "i = B \<and> m = Suc k \<longleftrightarrow> q = 2 * n + 1"
        using byte_pos_eq [OF m, of k i B] byte_pos_eq [OF m, of "Suc k" i B] k by (simp_all add: pos qim)
      moreover have "k \<le> m \<and> bit (li AND 3) (m - k) \<longleftrightarrow> (m = k \<and> a) \<or> (m = Suc k \<and> b)"
        unfolding low by auto
      ultimately have "(i = B \<and> k \<le> m \<and> bit (li AND 3) (m - k)) \<longleftrightarrow> (q = 2 * n \<and> a) \<or> (q = 2 * n + 1 \<and> b)"
        by blast
      then show "bitat ?o' q = (if q < 2 * Suc n then maj_at inp (in_of + 3 * q) else bitat out q)"
        using new old zq less_Suc_eq [of q "2 * n"] less_Suc_eq [of q "Suc (2 * n)"]
        by (auto simp: a_def b_def algebra_simps)
    qed (simp add: st_def)
    moreover have "fst (st (2 * n)) + uint (drop_bit 14 li) = fst (st (2 * Suc n))"
    proof -
      have "e \<in> {0, 1, 2}" using e2 by auto
      then have "uint (drop_bit 14 li) = int e" unfolding li by auto
      then show ?thesis by (simp add: st_def bad_sum_Suc e_def algebra_simps)
    qed
    moreover have "f n (st (2 * n)) = Inr (fst (st (2 * n)) + uint (drop_bit 14 li), ?o')"
    proof -
      obtain x where x: "ext6 inp (in_of + 6 * n) = Inr x" "rd unfec13_tbl (unat x) = Inr li"
        using look by (auto simp: bnd_Inr_iff)
      have len: "B < length ?o" using B by (simp add: st_def)
      show ?thesis
        unfolding f_def Let_def mult.commute [of n] B_def [symmetric] k_def [symmetric] case_prod_beta
        by (simp only: x bnd_simps rd_ok [OF len] wr_ok [OF len])
    qed
    ultimately show ?thesis by (metis prod.collapse)
  qed
  have loop: "2 * n \<le> nbits \<Longrightarrow> loop n f (0, out) = Inr (st (2 * n))" for n
  proof (induction n)
    case 0
    have "out = mkbytes (length out) (bitat out)" by (rule mkbytes_eqI) simp_all
    then show ?case by (simp add: st_def bad_sum_def)
  next
    case (Suc n)
    then show ?case using step [of n] by simp
  qed
  show ?thesis
    using loop [of "nbits div 2"] assms(1,2) unfolding unfec13_def f_def [symmetric] by (simp add: st_def)
qed

lemma sum_pairs:
  fixes v0 v1 v2 v3 v4 v5 v6 v7 v8 :: u32
  assumes "unat v0 = b0 + 16384 * e0" "unat v1 = b1 + 16384 * e1" "unat v2 = b2 + 16384 * e2"
    "unat v3 = b3 + 16384 * e3" "unat v4 = b4 + 16384 * e4" "unat v5 = b5 + 16384 * e5"
    "unat v6 = b6 + 16384 * e6" "unat v7 = b7 + 16384 * e7" "unat v8 = b8 + 16384 * e8"
    and "b0 \<le> 3" "b1 \<le> 3" "b2 \<le> 3" "b3 \<le> 3" "b4 \<le> 3" "b5 \<le> 3" "b6 \<le> 3" "b7 \<le> 3" "b8 \<le> 3"
    and "e0 \<le> 2" "e1 \<le> 2" "e2 \<le> 2" "e3 \<le> 2" "e4 \<le> 2" "e5 \<le> 2" "e6 \<le> 2" "e7 \<le> 2" "e8 \<le> 2"
  shows "uint (drop_bit 14 (v0 + v1 + v2 + v3 + v4 + v5 + v6 + v7 + v8)) =
    int (e0 + e1 + e2 + e3 + e4 + e5 + e6 + e7 + e8)"
proof -
  define B E where "B = b0 + b1 + b2 + b3 + b4 + b5 + b6 + b7 + b8"
    and "E = e0 + e1 + e2 + e3 + e4 + e5 + e6 + e7 + e8"
  have w: "v0 + v1 + v2 + v3 + v4 + v5 + v6 + v7 + v8 = of_nat (B + 16384 * E)"
  proof -
    have "v = of_nat (unat v)" for v :: u32 by simp
    then have "v0 + v1 + v2 + v3 + v4 + v5 + v6 + v7 + v8 =
      of_nat (unat v0 + unat v1 + unat v2 + unat v3 + unat v4 + unat v5 + unat v6 + unat v7 + unat v8)"
      by simp
    then show ?thesis unfolding assms(1-9) B_def E_def by (simp add: algebra_simps)
  qed
  have BE: "B \<le> 27" "E \<le> 18" using assms by (simp_all add: B_def E_def)
  have "unat (of_nat (B + 16384 * E) :: u32) = B + 16384 * E"
    using BE by (simp add: unsigned_of_nat take_bit_nat_eq_self del: of_nat_add of_nat_mult)
  moreover have "unat (drop_bit 14 x) = unat x div 16384" for x :: u32
  proof -
    have "unat x < 2 ^ 32" using unsigned_less [of x] by simp
    then show ?thesis by (subst unsigned_drop_bit_eq) (simp add: drop_bit_eq_div take_bit_nat_eq_self)
  qed
  ultimately have "unat (drop_bit 14 (of_nat (B + 16384 * E) :: u32)) = E"
    using BE by (simp del: of_nat_add of_nat_mult drop_bit_of_nat)
  then show ?thesis unfolding w E_def [symmetric] by (metis uint_nat)
qed

lemma bit_four_pairs:
  fixes l0 l1 l2 l3 :: u16
  assumes hi: "\<And>j. 2 \<le> j \<Longrightarrow> j < 14 \<Longrightarrow> \<not> bit l0 j \<and> \<not> bit l1 j \<and> \<not> bit l2 j" and "m < 8"
  shows "bit (ucast ((ucast l0 :: u32) OR push_bit 2 (ucast l1) OR push_bit 4 (ucast l2) OR push_bit 6 (ucast l3)) :: u8) m
    = [bit l0 0, bit l0 1, bit l1 0, bit l1 1, bit l2 0, bit l2 1, bit l3 0, bit l3 1] ! m"
  using less8_cases [OF assms(2)]
  by (elim insertE emptyE) (simp_all add: bit_simps hi)

lemma unfec13_hdr_eq:
  assumes "8 \<le> length inp" and "3 \<le> length out"
  shows "unfec13_hdr out inp = Inr (int (bad_sum inp 4 18),
    mkbytes 3 (\<lambda>q. q < 18 \<and> maj_at inp (4 + 3 * q)) @ drop 3 out)"
proof -
  define e where "e = (\<lambda>k. bad_at inp (4 + 6 * k) + bad_at inp (4 + 6 * k + 3))"
  define l :: "nat \<Rightarrow> u16" where "l = (\<lambda>k. of_bool (maj_at inp (4 + 6 * k)) + 2 * of_bool (maj_at inp (4 + 6 * k + 3))
     + 0x4000 * of_nat (e k))"
  have e2: "e k \<le> 2" for k using bad3_le by (simp add: e_def bad_at_def add_le_mono [of _ 1 _ 1, simplified])
  note pw = pair_word [OF fun_cong [OF l_def] e2]
  have look: "bnd (ext6 inp (4 + 6 * k)) (\<lambda>x. bnd (rd unfec13_tbl (unat x)) (\<lambda>v. Inr (ucast v :: u32)))
    = Inr (ucast (l k))" if "k < 9" for k
  proof -
    have "bnd (ext6 inp (4 + 6 * k)) (\<lambda>x. rd unfec13_tbl (unat x)) = Inr (l k)"
      using look13 [of "4 + 6 * k" inp] that assms(1) by (simp add: l_def e_def)
    then show ?thesis by (auto simp: bnd_Inr_iff)
  qed
  have un: "unat (ucast (l k) :: u32) = (of_bool (maj_at inp (4 + 6 * k)) + 2 * of_bool (maj_at inp (4 + 6 * k + 3)))
      + 16384 * e k" for k
  proof -
    have "unat (l k) < 2 ^ 16" using unsigned_less [of "l k"] by simp
    then have "unat (ucast (l k) :: u32) = unat (l k)" by (simp add: unsigned_ucast_eq take_bit_nat_eq_self)
    then show ?thesis using pw(1) by simp
  qed
  have be: "uint (drop_bit 14 ((ucast (l 0) :: u32) + ucast (l 1) + ucast (l 2) + ucast (l 3) + ucast (l 4)
      + ucast (l 5) + ucast (l 6) + ucast (l 7) + ucast (l 8))) = int (bad_sum inp 4 18)"
    by (subst sum_pairs [OF un un un un un un un un un])
      (simp_all only: e2, simp_all add: e_def bad_sum_def lessThan_nat_numeral lessThan_Suc)
  have bits: "bit (ucast ((ucast (l a) :: u32) OR push_bit 2 (ucast (l b)) OR push_bit 4 (ucast (l c)) OR push_bit 6 (ucast (l d))) :: u8) m
    = [bit (l a) 0, bit (l a) 1, bit (l b) 0, bit (l b) 1, bit (l c) 0, bit (l c) 1, bit (l d) 0, bit (l d) 1] ! m"
    if "m < 8" for a b c d m
    by (rule bit_four_pairs [OF _ that]) (use pw(5) in blast)
  define w where "w a b c d = (ucast ((ucast (l a) :: u32) OR push_bit 2 (ucast (l b)) OR push_bit 4 (ucast (l c)) OR push_bit 6 (ucast (l d))) :: u8)" for a b c d
  define w8 :: u8 where "w8 = ucast (ucast (l 8) :: u32)"
  obtain x0 x1 x2 r where out: "out = x0 # x1 # x2 # r"
    using assms(2) by (auto simp: numeral_3_eq_3 Suc_le_length_iff simp del: Suc_Suc_0)
  have code: "unfec13_hdr out inp = Inr (int (bad_sum inp 4 18), w 0 1 2 3 # w 4 5 6 7 # w8 # r)"
    using look [of 0] look [of 1] look [of 2] look [of 3] look [of 4] look [of 5] look [of 6] look [of 7] look [of 8]
    unfolding be [symmetric] w_def w8_def
    by (simp add: unfec13_hdr_def Let_def out)
  have bw8: "bit w8 m \<longleftrightarrow> (m = 0 \<and> bit (l 8) 0) \<or> (m = 1 \<and> bit (l 8) 1)" if "m < 8" for m
    using pw(5) [of m 8] that by (cases "m < 2") (auto simp: w8_def bit_simps less_2_cases_iff)
  note b = bits [folded w_def]
  have mk: "[w 0 1 2 3, w 4 5 6 7, w8] = mkbytes 3 (\<lambda>q. q < 18 \<and> maj_at inp (4 + 3 * q))"
    by (simp add: mkbytes_def upt_conv_Cons, intro conjI word8_eqI)
      (simp_all add: b bw8 bit_mkbyte pw(3,4) [unfolded One_nat_def])
  show ?thesis unfolding code mk [symmetric] by (simp add: out)
qed

section \<open>Properties\<close>

lemma zero_bits: "q < 8 * n \<Longrightarrow> \<not> bitat (replicate n 0) q" "q < 24 \<Longrightarrow> \<not> bitat [0, 0, 0] q"
proof -
  have *: "\<not> bitat (replicate n 0) q" if "q < 8 * n" for n q
  proof -
    have "q div 8 < n" using that by (simp add: less_mult_imp_div_less mult.commute)
    then show ?thesis by (simp add: bitat_def)
  qed
  show "q < 8 * n \<Longrightarrow> \<not> bitat (replicate n 0) q" by (rule *)
  show "q < 24 \<Longrightarrow> \<not> bitat [0, 0, 0] q" using * [of q 3] by (simp add: numeral_3_eq_3 del: Suc_Suc_0)
qed

text \<open>The three copies \<open>fec13\<close> writes for bit \<open>i\<close>.\<close>

lemma fec13_copies:
  assumes "even nbits" and len: "out_of + 24 * ((nbits + 7) div 8) \<le> 8 * length out"
    and "i < nbits" and "j < 3"
  shows "bitat (putn out out_of 24 ((nbits + 7) div 8) (rep24 inp nbits)) (out_of + 3 * i + j) = bitat inp i"
proof -
  define p r where "p = 3 * i + j" and "r = 3 * (i mod 8) + j"
  have s: "p = 24 * (i div 8) + r"
    using mult_div_mod_eq [of 8 i] unfolding p_def r_def by linarith
  have "i mod 8 < 8" by simp
  then have r: "r < 24" "r div 3 = i mod 8" using assms(4) by (simp_all add: r_def)
  have p: "p div 24 = i div 8" "p mod 24 = r" using r(1) unfolding s by simp_all
  have n: "Suc (i div 8) \<le> (nbits + 7) div 8"
  proof -
    have "Suc (i div 8) = (i + 8) div 8" by simp
    also have "\<dots> \<le> (nbits + 7) div 8" using assms(3) by (intro div_le_mono) simp
    finally show ?thesis .
  qed
  have "p < 24 * Suc (i div 8)" using r(1) s by simp
  also have "\<dots> \<le> 24 * ((nbits + 7) div 8)" using n by (rule mult_le_mono2)
  finally have pl: "p < ((nbits + 7) div 8) * 24" by (simp add: mult.commute)
  have "r < 3 * (nbits - 8 * (i div 8))"
  proof -
    have "i mod 8 < nbits - 8 * (i div 8)" using assms(3) mult_div_mod_eq [of 8 i] by linarith
    then show ?thesis using assms(4) by (simp add: r_def)
  qed
  then have "bit (rep24 inp nbits (i div 8)) r \<longleftrightarrow> bitat inp (8 * (i div 8) + i mod 8)"
    using r by (simp add: bit_rep24)
  moreover have "out_of + p < 8 * length out" using pl len by simp
  moreover have "out_of + 3 * i + j = out_of + p" by (simp add: p_def)
  ultimately show ?thesis
    using pl align8_le(1) [of "out_of + (nbits + 7) div 8 * 24"] by (simp add: bitat_putn p)
qed

lemma ex_less_3: "(\<exists>j < 3. P j) \<longleftrightarrow> P 0 \<or> P 1 \<or> P (2 :: nat)"
proof -
  have "j < 3 \<longleftrightarrow> j = 0 \<or> j = 1 \<or> j = (2 :: nat)" for j by auto
  then show ?thesis by auto
qed

lemma three_copies:
  assumes "\<And>j. j < 3 \<Longrightarrow> bitat air (p + j) = b"
    and "card {j. j < 3 \<and> bitat rx (p + j) \<noteq> bitat air (p + j)} \<le> 1"
  shows "maj_at rx p = b" and "bad_at rx p = of_bool (\<exists>j < 3. bitat rx (p + j) \<noteq> bitat air (p + j))"
proof -
  let ?S = "{j. j < (3 :: nat) \<and> bitat rx (p + j) \<noteq> bitat air (p + j)}"
  have air: "bitat air p = b" "bitat air (p + 1) = b" "bitat air (p + 2) = b"
    using assms(1) [of 0] assms(1) [of 1] assms(1) [of 2] by simp_all
  have fin: "finite ?S" by simp
  have eq: "j = k" if "j < 3" "k < 3" "bitat rx (p + j) \<noteq> b" "bitat rx (p + k) \<noteq> b" for j k
  proof -
    have "j \<in> ?S" "k \<in> ?S" using that assms(1) by auto
    then show ?thesis using assms(2) card_le_Suc0_iff_eq [OF fin] by (simp only: One_nat_def)
  qed
  have o: "bitat rx p = b \<or> bitat rx (p + 1) = b" "bitat rx p = b \<or> bitat rx (p + 2) = b"
    "bitat rx (p + 1) = b \<or> bitat rx (p + 2) = b"
    using eq [of 0 1] eq [of 0 2] eq [of 1 2] by auto
  then show "maj_at rx p = b" unfolding maj_at_def maj3_def by blast
  have "(\<exists>j < 3. bitat rx (p + j) \<noteq> bitat air (p + j)) \<longleftrightarrow>
      bitat rx p \<noteq> b \<or> bitat rx (p + 1) \<noteq> b \<or> bitat rx (p + 2) \<noteq> b"
    unfolding ex_less_3 using air by auto
  then show "bad_at rx p = of_bool (\<exists>j < 3. bitat rx (p + j) \<noteq> bitat air (p + j))"
    unfolding bad_at_def bad3_def using o by auto
qed

text \<open>What is received when no bit has more than one wrong copy.\<close>

lemma fec13_receive:
  fixes out_of nbits out inp rx
  defines "air \<equiv> putn out out_of 24 ((nbits + 7) div 8) (rep24 inp nbits)"
  defines "bad i \<equiv> \<exists>j < 3. bitat rx (out_of + 3 * i + j) \<noteq> bitat air (out_of + 3 * i + j)"
  assumes "even nbits" and "out_of + 24 * ((nbits + 7) div 8) \<le> 8 * length out"
    and err: "\<forall>i < nbits. card {j. j < 3 \<and> bitat rx (out_of + 3 * i + j) \<noteq> bitat air (out_of + 3 * i + j)} \<le> 1"
  shows "i < nbits \<Longrightarrow> maj_at rx (out_of + 3 * i) = bitat inp i"
    and "bad_sum rx out_of nbits = card {i. i < nbits \<and> bad i}"
proof -
  have bit: "maj_at rx (out_of + 3 * i) = bitat inp i" "bad_at rx (out_of + 3 * i) = of_bool (bad i)"
    if "i < nbits" for i
    using three_copies [OF fec13_copies [OF assms(3,4) that] err [unfolded air_def, rule_format, OF that]]
    by (simp_all add: bad_def air_def)
  then show "i < nbits \<Longrightarrow> maj_at rx (out_of + 3 * i) = bitat inp i" by blast
  have "bad_sum rx out_of nbits = (\<Sum>i<nbits. of_bool (bad i))"
    unfolding bad_sum_def by (rule sum.cong) (use bit(2) in auto)
  also have "\<dots> = card ({..<nbits} \<inter> {i. bad i})" by (subst sum_of_bool_eq) simp_all
  also have "{..<nbits} \<inter> {i. bad i} = {i. i < nbits \<and> bad i}" by blast
  finally show "bad_sum rx out_of nbits = card {i. i < nbits \<and> bad i}" .
qed

text \<open>
  C26 (roundtrip).  A buffer encoded by \<open>fec13\<close> and received with at most one wrong copy of each bit is decoded by
  \<open>unfec13\<close> into the original bits, and the returned error count is the number of bits of which a copy
  was wrong.
\<close>

theorem fec13_roundtrip:
  assumes "even out_of" and "even nbits" and "clean out out_of"
    and "out_of + 24 * ((nbits + 7) div 8) \<le> 8 * length out" and "(nbits + 7) div 8 \<le> length inp"
    and "nbits \<le> 8 * length dst" and "\<forall>q < nbits. \<not> bitat dst q"
  shows "\<exists>air. fec13 out inp out_of nbits = Inr (0, air) \<and>
    (\<forall>rx. length rx = length air \<longrightarrow>
      (\<forall>i < nbits. card {j. j < 3 \<and> bitat rx (out_of + 3 * i + j) \<noteq> bitat air (out_of + 3 * i + j)} \<le> 1) \<longrightarrow>
      (\<exists>dst'. unfec13 dst rx out_of nbits =
          Inr (int (card {i. i < nbits \<and> (\<exists>j < 3. bitat rx (out_of + 3 * i + j) \<noteq> bitat air (out_of + 3 * i + j))}), dst') \<and>
        (\<forall>q < nbits. bitat dst' q = bitat inp q)))"
proof (intro exI conjI allI impI)
  let ?air = "putn out out_of 24 ((nbits + 7) div 8) (rep24 inp nbits)"
  show "fec13 out inp out_of nbits = Inr (0, ?air)" by (rule fec13_eq [OF assms(1-5)])
  fix rx assume len: "length rx = length ?air"
    and err: "\<forall>i < nbits. card {j. j < 3 \<and> bitat rx (out_of + 3 * i + j) \<noteq> bitat ?air (out_of + 3 * i + j)} \<le> 1"
  let ?P = "\<lambda>i. \<exists>j < 3. bitat rx (out_of + 3 * i + j) \<noteq> bitat ?air (out_of + 3 * i + j)"
  note bit = fec13_receive(1) [OF assms(2,4) err]
  note be = fec13_receive(2) [OF assms(2,4) err]
  have "nbits \<le> 8 * ((nbits + 7) div 8)" using align8_le(1) [of nbits] by (simp add: align8_def)
  then have inl: "out_of + 3 * nbits \<le> 8 * length rx" using assms(4) len by simp
  let ?d = "mkbytes (length dst) (\<lambda>q. if q < nbits then maj_at rx (out_of + 3 * q) else bitat dst q)"
  show "unfec13 dst rx out_of nbits = Inr (int (card {i. i < nbits \<and> ?P i}), ?d)"
    using unfec13_eq [OF assms(1,2) inl assms(6)] assms(7) unfolding be by blast
  show "bitat ?d q = bitat inp q" if "q < nbits" for q
    using that assms(6) bit by simp
qed

theorem fec13_roundtrip_witness:
  "\<exists>air. fec13 (replicate 7 0) [0xc5, 0x02] 4 10 = Inr (0, air) \<and>
    (\<forall>rx. length rx = length air \<longrightarrow>
      (\<forall>i < 10. card {j. j < 3 \<and> bitat rx (4 + 3 * i + j) \<noteq> bitat air (4 + 3 * i + j)} \<le> 1) \<longrightarrow>
      (\<exists>dst'. unfec13 (replicate 2 0) rx 4 10 =
          Inr (int (card {i. i < 10 \<and> (\<exists>j < 3. bitat rx (4 + 3 * i + j) \<noteq> bitat air (4 + 3 * i + j))}), dst') \<and>
        (\<forall>q < 10. bitat dst' q = bitat [0xc5, 0x02] q)))"
  by (rule fec13_roundtrip) (simp_all add: clean_def align8_def bitat_def zero_bits)

text \<open>
  The unrolled header decoder \<open>unfec13_hdr\<close> returns the same bytes and the same error count as the
  general \<open>unfec13\<close> run on the 18 bits from air bit 4 on.
\<close>

theorem unfec13_hdr_eq_unfec13:
  assumes "8 \<le> length inp"
  shows "unfec13_hdr [a, b, c] inp = unfec13 [0, 0, 0] inp 4 18"
proof -
  have "unfec13 [0, 0, 0] inp 4 18 = Inr (int (bad_sum inp 4 18),
    mkbytes 3 (\<lambda>q. if q < 18 then maj_at inp (4 + 3 * q) else bitat [0, 0, 0] q))"
    using unfec13_eq [of 4 18 inp "[0, 0, 0]"] assms by (simp add: zero_bits)
  also have "mkbytes 3 (\<lambda>q. if q < 18 then maj_at inp (4 + 3 * q) else bitat [0, 0, 0] q)
    = mkbytes 3 (\<lambda>q. q < 18 \<and> maj_at inp (4 + 3 * q))"
    by (rule mkbytes_eqI) (simp_all add: zero_bits)
  finally show ?thesis using unfec13_hdr_eq [of inp "[a, b, c]"] assms by simp
qed

theorem unfec13_hdr_eq_unfec13_witness:
  "unfec13_hdr [9, 9, 9] [0x70, 0x1c, 0xc7, 0x71, 0x1c, 0xc7, 0x71, 0x1c] = unfec13 [0, 0, 0] [0x70, 0x1c, 0xc7, 0x71, 0x1c, 0xc7, 0x71, 0x1c] 4 18"
  by (rule unfec13_hdr_eq_unfec13) simp

end
