(* ===== verification/Fec23.thy ===== *)
theory Fec23
  imports Tables BitFields
begin

text \<open>
  The 2/3 rate code of firmware/btbr/src/codec/bitstream_proc.c: a shortened (15,10) Hamming code,
  ten data bits followed by five parity bits.  \<open>fec23\<close> encodes, \<open>unfec23\<close> decodes, eight words at a
  time (\<open>unfec23_10bytes\<close>) where the input starts at bit 2 of a byte, else word by word.
\<close>

section \<open>The code\<close>

definition fec23_word :: "u32 \<Rightarrow> u32 res" where
  "fec23_word data = bnd (rd fec23_tbl (unat data)) (\<lambda>f. Inr (data OR push_bit 10 (ucast f)))"

text \<open>The loop runs while \<open>in_bit_pos < nout\<close>, in steps of ten: \<open>\<lceil>nout / 10\<rceil>\<close> passes.\<close>

definition fec23_passes :: "nat \<Rightarrow> nat" where
  "fec23_passes nbits = (let nout = (nbits + 9) div 10 * 15 in (nout + 9) div 10)"

definition fec23 :: "u8 list \<Rightarrow> u8 list \<Rightarrow> nat \<Rightarrow> nat \<Rightarrow> u8 list res" where
  "fec23 out inp out_of nbits =
     loop (fec23_passes nbits) (\<lambda>i out.
       let in_bit_pos = i * 10; out_bit_pos = out_of + i * 15 in
       bnd (ext10 inp in_bit_pos) (\<lambda>data.
       bnd (fec23_word data) (\<lambda>data.
       ENCODE15 (out_bit_pos mod 8) data out (out_bit_pos div 8)))) out"

definition unfec23_10bits :: "u16 \<Rightarrow> u16 res" where
  "unfec23_10bits inp =
     (let data = inp AND 0x3ff in
      bnd (rd fec23_tbl (unat data)) (\<lambda>f.
      let err = 0x1f AND (drop_bit 10 inp XOR ucast f) in
      bnd (rd fec23_cor (unat err)) (\<lambda>cor.
      Inr (data XOR cor))))"

text \<open>
  \<open>unfec23_10bytes(&out[o], &in[b])\<close>: all eight words are read before any is written; words \<open>0\<close> to
  \<open>3\<close> and \<open>4\<close> to \<open>7\<close> go to two runs of five bytes.
\<close>

definition unfec23_10bytes :: "u8 list \<Rightarrow> nat \<Rightarrow> u8 list \<Rightarrow> nat \<Rightarrow> u8 list res" where
  "unfec23_10bytes out ob inp ib =
     bnd (bnd (ext15 inp (8 * ib + 2)) (\<lambda>w. unfec23_10bits (ucast w))) (\<lambda>in1.
     bnd (bnd (ext15 inp (8 * (ib + 2) + 1)) (\<lambda>w. unfec23_10bits (ucast w))) (\<lambda>in2.
     bnd (bnd (ext15 inp (8 * (ib + 4) + 0)) (\<lambda>w. unfec23_10bits (ucast w))) (\<lambda>in3.
     bnd (bnd (ext15 inp (8 * (ib + 5) + 7)) (\<lambda>w. unfec23_10bits (ucast w))) (\<lambda>in4.
     bnd (bnd (ext15 inp (8 * (ib + 7) + 6)) (\<lambda>w. unfec23_10bits (ucast w))) (\<lambda>in5.
     bnd (bnd (ext15 inp (8 * (ib + 9) + 5)) (\<lambda>w. unfec23_10bits (ucast w))) (\<lambda>in6.
     bnd (bnd (ext15 inp (8 * (ib + 11) + 4)) (\<lambda>w. unfec23_10bits (ucast w))) (\<lambda>in7.
     bnd (bnd (ext15 inp (8 * (ib + 13) + 3)) (\<lambda>w. unfec23_10bits (ucast w))) (\<lambda>in8.
     bnd (ENCODE10 0 (ucast (in1 AND 0x3ff)) out ob) (\<lambda>out.
     bnd (ENCODE10 2 (ucast (in2 AND 0x3ff)) out (ob + 1)) (\<lambda>out.
     bnd (ENCODE10 4 (ucast (in3 AND 0x3ff)) out (ob + 2)) (\<lambda>out.
     bnd (ENCODE10 6 (ucast (in4 AND 0x3ff)) out (ob + 3)) (\<lambda>out.
     bnd (ENCODE10 0 (ucast (in5 AND 0x3ff)) out (ob + 5)) (\<lambda>out.
     bnd (ENCODE10 2 (ucast (in6 AND 0x3ff)) out (ob + 6)) (\<lambda>out.
     bnd (ENCODE10 4 (ucast (in7 AND 0x3ff)) out (ob + 7)) (\<lambda>out.
     ENCODE10 6 (ucast (in8 AND 0x3ff)) out (ob + 8))))))))))))))))"

text \<open>
  The two loops of \<open>unfec23\<close>: the first takes ten bytes while \<open>out_bit_pos \<le> nbits - 80\<close>, the second
  goes on by words while \<open>out_bit_pos < nbits\<close>.  The result of the C function is always zero, as
  \<open>unfec23_10bits\<close> sets no bit above the tenth; it is left out.
\<close>

definition unfec23_fast_passes :: "nat \<Rightarrow> nat \<Rightarrow> nat" where
  "unfec23_fast_passes in_of nbits = (if in_of mod 8 = 2 then nbits div 80 else 0)"

definition unfec23_pass :: "u8 list \<Rightarrow> nat \<Rightarrow> nat \<Rightarrow> u8 list \<Rightarrow> u8 list res" where
  "unfec23_pass inp in_bit_pos out_bit_pos out =
     bnd (ext15 inp in_bit_pos) (\<lambda>data.
     bnd (unfec23_10bits (ucast data)) (\<lambda>data.
     ENCODE10 (out_bit_pos mod 8) (ucast data AND 0x3ff) out (out_bit_pos div 8)))"

definition unfec23 :: "u8 list \<Rightarrow> u8 list \<Rightarrow> nat \<Rightarrow> nat \<Rightarrow> u8 list res" where
  "unfec23 out inp in_of nbits0 =
     (let nbits = (10 * nbits0 + 9) div 10;
          m = unfec23_fast_passes in_of nbits in
      bnd (memset0 out ((nbits + 7) div 8)) (\<lambda>out.
      bnd (loop m (\<lambda>i out. unfec23_10bytes out ((i * 80) div 8) inp ((in_of + i * 120) div 8)) out) (\<lambda>out.
      loop ((nbits - m * 80 + 9) div 10) (\<lambda>i out.
        unfec23_pass inp (in_of + m * 120 + i * 15) (m * 80 + i * 10) out) out)))"

section \<open>Words\<close>

text \<open>The five parity bits and the code word of ten data bits, as functions.\<close>

definition parity23 :: "u32 \<Rightarrow> u8" where
  "parity23 d = xsum [0x0b, 0x16, 0x07, 0x0e, 0x1c, 0x13, 0x0d, 0x1a, 0x1f, 0x15] (ucast d :: 10 word)"

definition enc23 :: "u32 \<Rightarrow> u32" where
  "enc23 d = take_bit 10 d OR push_bit 10 (ucast (parity23 d))"

definition synd23 :: "u32 \<Rightarrow> u16" where
  "synd23 w = 0x1f AND (drop_bit 10 (ucast w) XOR ucast (parity23 w))"

definition dec23 :: "u32 \<Rightarrow> u32" where
  "dec23 w = take_bit 10 w XOR ucast (fec23_cor ! unat (synd23 w))"

lemma fec23_tbl_nth:
  fixes d :: "'a::len word"
  assumes "unat d < 1024" and "10 \<le> LENGTH('a)"
  shows "fec23_tbl ! unat d = parity23 (ucast d)"
proof -
  have "unat (ucast d :: 10 word) = unat d"
    using assms by (simp add: unsigned_ucast_eq take_bit_nat_eq_self)
  moreover have "ucast (ucast d :: u32) = (ucast d :: 10 word)"
    by (rule bit_word_eqI) (auto simp: bit_simps dest: bit_imp_le_length)
  ultimately show ?thesis
    using lin_tab_nth [of "ucast d :: 10 word" "[0x0b, 0x16, 0x07, 0x0e, 0x1c, 0x13, 0x0d, 0x1a, 0x1f, 0x15]"]
      assms(1) by (simp add: fec23_tbl_lin parity23_def)
qed

lemma parity23_xor: "parity23 (x XOR y) = parity23 x XOR parity23 y"
proof -
  have "(ucast (x XOR y) :: 10 word) = ucast x XOR ucast y"
    by (rule bit_word_eqI) (simp add: bit_simps)
  then show ?thesis by (simp add: parity23_def xsum_xor)
qed

lemma parity23_low: "take_bit 10 x = take_bit 10 y \<Longrightarrow> parity23 x = parity23 y"
proof -
  assume eq: "take_bit 10 x = take_bit 10 y"
  have "(ucast x :: 10 word) = ucast y"
  proof (rule bit_word_eqI)
    fix n :: nat assume "n < LENGTH(10)"
    then show "bit (ucast x :: 10 word) n = bit (ucast y :: 10 word) n"
      using arg_cong [OF eq, of "\<lambda>w. bit w n"] by (simp add: bit_simps)
  qed
  then show ?thesis by (simp add: parity23_def)
qed

lemma synd23_xor: "synd23 (x XOR y) = synd23 x XOR synd23 y"
  unfolding synd23_def parity23_xor by (rule bit_word_eqI) (auto simp: bit_simps)

lemma parity23_bits: "bit (parity23 d) n \<Longrightarrow> n < 5"
proof -
  have "parity23 d = take_bit 5 (parity23 d)"
    unfolding parity23_def xsum_def by simp
  then show "bit (parity23 d) n \<Longrightarrow> n < 5" by (metis bit_take_bit_iff)
qed

lemma enc23_parts: "take_bit 10 (enc23 d) = take_bit 10 d" "drop_bit 10 (enc23 d) = ucast (parity23 d)"
  unfolding enc23_def by (auto intro!: bit_word_eqI simp: bit_simps; drule u8_bit_8; simp)+

lemma synd23_enc: "synd23 (enc23 d) = 0"
proof -
  have "parity23 (enc23 d) = parity23 d" by (rule parity23_low) (simp add: enc23_parts)
  moreover have "drop_bit 10 (ucast (enc23 d)) = (ucast (drop_bit 10 (enc23 d)) AND 0x3f :: u16)"
    by (rule bit_word_eqI) (auto simp: bit_simps and_masks)
  ultimately show ?thesis
    unfolding synd23_def enc23_parts
    by (intro bit_word_eqI) (auto simp: bit_simps and_masks)
qed

lemma errors15: "j < (15::nat) \<Longrightarrow> j \<in> {0, 1, 2, 3, 4, 5, 6, 7, 8, 9, 10, 11, 12, 13, 14}"
  unfolding insert_iff empty_iff by presburger

lemma dec23_single:
  assumes "e = 0 \<or> (\<exists>j < 15. e = push_bit j 1)"
  shows "dec23 (enc23 d XOR e) = take_bit 10 d"
proof -
  have s: "synd23 (enc23 d XOR e) = synd23 e" by (simp add: synd23_xor synd23_enc)
  have c: "take_bit 10 e = (ucast (fec23_cor ! unat (synd23 e)) :: u32)"
    using assms
  proof
    assume "e = 0"
    then show ?thesis by (simp add: synd23_def parity23_def fec23_cor_def)
  next
    assume "\<exists>j < 15. e = push_bit j 1"
    then obtain j where "e = push_bit j 1" "j < 15" by blast
    from errors15 [OF this(2)] this(1) show ?thesis
      by (elim insertE emptyE) (simp_all add: synd23_def parity23_def fec23_cor_def xsum_def)
  qed
  show ?thesis
    unfolding dec23_def s c [symmetric] take_bit_xor enc23_parts by (simp add: xor.assoc)
qed

lemma fec23_cor_bits: "k < 32 \<Longrightarrow> bit (fec23_cor ! k) n \<Longrightarrow> n < 10"
proof -
  assume k: "k < 32" and b: "bit (fec23_cor ! k) n"
  have "list_all (\<lambda>c. take_bit 10 c = c) fec23_cor" by (simp add: fec23_cor_def)
  moreover have "length fec23_cor = 32" by (simp add: fec23_cor_def)
  ultimately have "take_bit 10 (fec23_cor ! k) = fec23_cor ! k" using k by (simp add: list_all_length)
  then show "n < 10" using b by (metis bit_take_bit_iff)
qed

lemma synd23_less: "unat (synd23 w) < 32"
  using word_and_le2 [of "0x1f" "drop_bit 10 (ucast w) XOR ucast (parity23 w) :: u16"]
  by (simp add: synd23_def word_le_nat_alt)

lemma dec23_bits: "bit (dec23 w) n \<Longrightarrow> n < 10"
  using fec23_cor_bits [OF synd23_less] by (auto simp: dec23_def bit_simps)

lemma enc23_bits: "bit (enc23 w) n \<Longrightarrow> n < 15"
  using parity23_bits [of w "n - 10"] by (auto simp: enc23_def bit_simps)

lemma length_fec23_tbl: "length fec23_tbl = 1024" "length fec23_cor = 32"
  by (simp add: fec23_tbl_lin) (simp add: fec23_cor_def)

lemma fec23_word_eq: "(\<And>j. bit d j \<Longrightarrow> j < 10) \<Longrightarrow> fec23_word d = Inr (enc23 d)"
proof -
  assume b: "\<And>j. bit d j \<Longrightarrow> j < 10"
  then have "unat d < 1024" using unat_less_bits [of d 10] by simp
  moreover have "take_bit 10 d = d" using b by (intro bit_word_eqI) (auto simp: bit_simps)
  moreover have "ucast d = d" by simp
  ultimately show ?thesis
    by (simp add: fec23_word_def enc23_def length_fec23_tbl fec23_tbl_nth)
qed

lemma unfec23_10bits_eq: "unfec23_10bits (ucast (w :: u32)) = Inr (ucast (dec23 w))"
proof -
  let ?d = "ucast w AND 0x3ff :: u16"
  have d: "unat ?d < 1024"
    using word_and_le1 [of "ucast w :: u16" "0x3ff"] by (simp add: word_le_nat_alt)
  have p: "parity23 (ucast ?d) = parity23 w"
    by (rule parity23_low) (rule bit_word_eqI, auto simp: bit_simps and_masks)
  have "(0x1f :: u16) AND (drop_bit 10 (ucast w) XOR ucast (parity23 w)) = synd23 w"
    by (simp add: synd23_def)
  moreover have "(ucast (dec23 w) :: u16) = ?d XOR fec23_cor ! unat (synd23 w)"
    unfolding dec23_def by (rule bit_word_eqI) (auto simp: bit_simps and_masks)
  ultimately show ?thesis
    using d synd23_less [of w]
    by (simp add: unfec23_10bits_def Let_def length_fec23_tbl fec23_tbl_nth p)
qed

section \<open>Whole buffers\<close>

lemma fec23_eq:
  assumes "clean out out_of" and len: "out_of + fec23_passes nbits * 15 \<le> 8 * length out"
    and inp: "fec23_passes nbits * 10 \<le> 8 * length inp"
  shows "fec23 out inp out_of nbits =
    Inr (putn out out_of 15 (fec23_passes nbits) (\<lambda>i. enc23 (getbits 10 inp (i * 10))))"
  unfolding fec23_def Let_def
proof (rule loop_putn [OF assms(1) _ len])
  fix i q assume i: "i < fec23_passes nbits" and q: "clean q (out_of + i * 15)" "length q = length out"
    "out_of + i * 15 + 15 \<le> 8 * length out"
  have "ext10 inp (i * 10) = Inr (getbits 10 inp (i * 10))"
    by (rule ext10_ok) (use i inp in linarith)
  moreover have "fec23_word (getbits 10 inp (i * 10)) = Inr (enc23 (getbits 10 inp (i * 10)))"
    by (rule fec23_word_eq) (simp add: bit_getbits)
  moreover have "ENCODE15 ((out_of + i * 15) mod 8) (enc23 (getbits 10 inp (i * 10))) q ((out_of + i * 15) div 8)
      = Inr (putn q (out_of + i * 15) 15 1 (\<lambda>_. enc23 (getbits 10 inp (i * 10))))"
    by (rule ENCODE15_field) (use q enc23_bits in auto)
  ultimately show "bnd (ext10 inp (i * 10)) (\<lambda>data. bnd (fec23_word data)
      (\<lambda>data. ENCODE15 ((out_of + i * 15) mod 8) data q ((out_of + i * 15) div 8)))
    = Inr (putn q (out_of + i * 15) 15 1 (\<lambda>_. enc23 (getbits 10 inp (i * 10))))"
    by simp
qed simp

lemma dec23_mask: "(ucast (ucast (dec23 w) :: u16) :: u32) AND 0x3ff = dec23 w"
  "(ucast ((ucast (dec23 w) :: u16) AND 0x3ff) :: u32) = dec23 w"
  by (rule bit_word_eqI; auto simp: bit_simps and_masks; frule dec23_bits; simp)+

text \<open>Word \<open>n\<close> of the decoder's output, behind the words before it.\<close>

lemma put_dec23:
  assumes "10 * Suc n \<le> 8 * length z" and "clean z 0"
  shows "ENCODE10 ((10 * n) mod 8) (dec23 (w n)) (putn z 0 10 n (\<lambda>i. dec23 (w i))) ((10 * n) div 8)
    = Inr (putn z 0 10 (Suc n) (\<lambda>i. dec23 (w i)))"
proof -
  let ?q = "putn z 0 10 n (\<lambda>i. dec23 (w i))"
  have "clean ?q (10 * n)" using clean_putn [of 0 n 10 z] assms(1) by (simp add: mult.commute)
  then have "ENCODE10 ((10 * n) mod 8) (dec23 (w n)) ?q ((10 * n) div 8)
      = Inr (putn ?q (10 * n) 10 1 (\<lambda>_. dec23 (w n)))"
    by (rule ENCODE10_field) (use assms(1) dec23_bits in auto)
  then show ?thesis using putn_Suc [of 10 0 n z "\<lambda>i. dec23 (w i)"] assms(1) by (simp add: mult.commute)
qed

lemma Suc3: "Suc (Suc (Suc n)) = 3 + n"
  by simp

text \<open>Eight words, from bit \<open>2\<close> of byte \<open>ib\<close>, behind \<open>8 * i\<close> others.\<close>

lemma unfec23_10bytes_eq:
  assumes len: "80 * Suc i \<le> 8 * length z" and "clean z 0"
    and inp: "8 * ib + 2 + 120 \<le> 8 * length inp"
    and w: "\<And>c. w (8 * i + c) = getbits 15 inp (8 * ib + 2 + 15 * c)"
  shows "unfec23_10bytes (putn z 0 10 (8 * i) (\<lambda>i. dec23 (w i))) (10 * i) inp ib
    = Inr (putn z 0 10 (8 * Suc i) (\<lambda>i. dec23 (w i)))"
proof -
  have r: "ext15 inp (8 * ib + 2 + 15 * c) = Inr (w (8 * i + c))" if "c < 8" for c
    using ext15_ok [of "8 * ib + 2 + 15 * c" inp] that inp w [of c] by simp
  have p: "ENCODE10 k (dec23 (w (8 * i + c))) (putn z 0 10 (8 * i + c) (\<lambda>i. dec23 (w i))) (10 * i + b)
      = Inr (putn z 0 10 (Suc (8 * i + c)) (\<lambda>i. dec23 (w i)))"
    if "10 * c = 8 * b + k" "k < 8" "c < 8" for c b k
  proof -
    have n: "10 * (8 * i + c) = 8 * (10 * i + b) + k" using that by simp
    have dm: "(8 * X + k) mod 8 = k" "(8 * X + k) div 8 = X" for X using \<open>k < 8\<close> by simp_all
    have "10 * Suc (8 * i + c) \<le> 8 * length z" using that len by simp
    from put_dec23 [OF this assms(2), of w] show ?thesis unfolding n dm .
  qed
  show ?thesis
    using r [of 0] r [of 1] r [of 2] r [of 3] r [of 4] r [of 5] r [of 6] r [of 7]
      p [of 0 0 0] p [of 1 1 2] p [of 2 2 4] p [of 3 3 6] p [of 4 5 0] p [of 5 6 2] p [of 6 7 4] p [of 7 8 6]
    by (simp add: unfec23_10bytes_def unfec23_10bits_eq dec23_mask Suc3 algebra_simps)
qed

lemma fast_passes_le: "unfec23_fast_passes in_of nbits * 80 \<le> nbits"
  by (simp add: unfec23_fast_passes_def)

lemma clean_0: "clean z 0"
  by (simp add: clean_def align8_def)

lemma unfec23_eq:
  defines "W n \<equiv> (n + 9) div (10 :: nat)"
  assumes out: "10 * W nbits \<le> 8 * length out" and inp: "in_of + 15 * W nbits \<le> 8 * length inp"
  shows "unfec23 out inp in_of nbits =
    Inr (putn (replicate ((nbits + 7) div 8) 0 @ drop ((nbits + 7) div 8) out) 0 10 (W nbits)
      (\<lambda>i. dec23 (getbits 15 inp (in_of + 15 * i))))"
proof -
  define nb where "nb = (nbits + 7) div 8"
  define z where "z = replicate nb 0 @ drop nb out"
  define w where "w = (\<lambda>i. getbits 15 inp (in_of + 15 * i))"
  define P where "P = (\<lambda>n. putn z 0 10 n (\<lambda>i. dec23 (w i)))"
  define m where "m = unfec23_fast_passes in_of nbits"
  have same: "(10 * nbits + 9) div 10 = nbits" by simp
  have wn: "nbits \<le> 10 * W nbits" unfolding W_def by linarith
  have nb: "nb \<le> length out"
  proof -
    have "(nbits + 7) div 8 \<le> (8 * length out + 7) div 8"
      using wn out by (intro div_le_mono) simp
    then show ?thesis by (simp add: nb_def)
  qed
  have lz: "length z = length out" using nb by (simp add: z_def)
  have mle: "80 * m \<le> nbits" using fast_passes_le [of in_of nbits] by (simp add: m_def mult.commute)
  have fast: "loop m (\<lambda>i out. unfec23_10bytes out ((i * 80) div 8) inp ((in_of + i * 120) div 8)) z = Inr (P (8 * m))"
  proof -
    have "k \<le> m \<Longrightarrow> loop k (\<lambda>i out. unfec23_10bytes out ((i * 80) div 8) inp ((in_of + i * 120) div 8)) z
      = Inr (P (8 * k))" for k
    proof (induction k)
      case 0
      then show ?case using putn_0 [OF clean_0, of z 10] by (simp add: P_def)
    next
      case (Suc k)
      define ib where "ib = (in_of + k * 120) div 8"
      have "in_of mod 8 = 2" using Suc.prems by (simp add: m_def unfec23_fast_passes_def split: if_splits)
      moreover have "(in_of + 8 * (15 * k)) mod 8 = in_of mod 8" by (rule mod_mult_self2)
      ultimately have "(in_of + k * 120) mod 8 = 2" by (simp add: mult.commute)
      then have ib: "8 * ib + 2 = in_of + 120 * k"
        using mult_div_mod_eq [of 8 "in_of + k * 120"] by (simp only: ib_def mult.commute)
      have "80 * Suc k \<le> 80 * m" using Suc.prems by (rule mult_le_mono2)
      then have k1: "80 * Suc k \<le> 10 * W nbits" using mle wn by (meson le_trans)
      have k: "80 * Suc k \<le> 10 * W nbits" "8 * Suc k \<le> W nbits" using k1 by simp_all
      have "unfec23_10bytes (P (8 * k)) (10 * k) inp ib = Inr (P (8 * Suc k))"
        unfolding P_def
      proof (rule unfec23_10bytes_eq)
        show "80 * Suc k \<le> 8 * length z" using k out lz by linarith
        show "8 * ib + 2 + 120 \<le> 8 * length inp" using k(2) inp ib by simp
        show "w (8 * k + c) = getbits 15 inp (8 * ib + 2 + 15 * c)" for c
          by (simp only: w_def ib) (simp add: algebra_simps)
      qed (rule clean_0)
      then show ?case using Suc by (simp add: ib_def)
    qed
    then show ?thesis by simp
  qed
  have slow: "loop k (\<lambda>i out. unfec23_pass inp (in_of + m * 120 + i * 15) (m * 80 + i * 10) out) (P (8 * m))
      = Inr (P (8 * m + k))" if "8 * m + k \<le> W nbits" for k
    using that
  proof (induction k)
    case (Suc k)
    let ?n = "8 * m + k"
    have "10 * Suc ?n \<le> 10 * W nbits" using Suc.prems by simp
    then have "10 * Suc ?n \<le> 8 * length z" using out lz by simp
    from put_dec23 [OF this clean_0, of w]
    have "ENCODE10 ((10 * ?n) mod 8) (dec23 (w ?n)) (P ?n) ((10 * ?n) div 8) = Inr (P (Suc ?n))"
      by (simp only: P_def)
    moreover have "ext15 inp (in_of + 15 * ?n) = Inr (w ?n)"
      unfolding w_def by (rule ext15_ok) (use Suc.prems inp in simp)
    moreover have e: "in_of + m * 120 + k * 15 = in_of + 15 * ?n" "m * 80 + k * 10 = 10 * ?n" by simp_all
    ultimately have "unfec23_pass inp (in_of + m * 120 + k * 15) (m * 80 + k * 10) (P ?n) = Inr (P (Suc ?n))"
      unfolding unfec23_pass_def e by (simp only: unfec23_10bits_eq dec23_mask bnd_simps)
    then show ?case using Suc by simp
  qed simp
  have "8 * m + (nbits - m * 80 + 9) div 10 = W nbits"
  proof -
    have "nbits + 9 = 10 * (8 * m) + (nbits - m * 80 + 9)" using mle by simp
    then show ?thesis unfolding W_def by (metis div_mult_self4 zero_neq_numeral)
  qed
  then show ?thesis
    using slow [of "(nbits - m * 80 + 9) div 10"] fast nb
    by (simp add: unfec23_def Let_def same memset0_def P_def w_def m_def [symmetric] nb_def [symmetric]
      z_def [symmetric])
qed

section \<open>Properties\<close>

text \<open>
  Encoding and error correction: the code word \<open>fec23\<close> writes for ten data bits carries them in
  its low bits, and decoding that word, as sent or with any one of its fifteen bits flipped, gives
  the ten bits back.
\<close>

theorem fec23_corrects_single_error:
  assumes "unat d < 1024" and "e = 0 \<or> (\<exists>j < 15. e = push_bit j 1)"
  shows "\<exists>w. fec23_word d = Inr w \<and> take_bit 10 w = d \<and> unfec23_10bits (ucast (w XOR e)) = Inr (ucast d)"
proof -
  have b: "\<And>j. bit d j \<Longrightarrow> j < 10" using low_bits [of d 10] assms(1) by simp
  then have d: "take_bit 10 d = d" by (intro bit_word_eqI) (auto simp: bit_simps)
  then have "take_bit 10 (enc23 d) = d" and "dec23 (enc23 d XOR e) = d"
    using dec23_single [OF assms(2), of d] by (simp_all add: enc23_parts)
  then show ?thesis using fec23_word_eq [OF b] by (simp add: unfec23_10bits_eq)
qed

theorem fec23_corrects_single_error_witness:
  "\<exists>w. fec23_word 0x2a5 = Inr w \<and> take_bit 10 w = 0x2a5 \<and>
     unfec23_10bits (ucast (w XOR push_bit 12 1)) = Inr (ucast (0x2a5 :: u32))"
  by (rule fec23_corrects_single_error) (simp, rule disjI2, rule exI [of _ 12], simp)

lemma one_error:
  assumes "card {j. j < 15 \<and> bitat rx (p + j) \<noteq> bitat air (p + j)} \<le> 1"
  shows "\<exists>e. (e = 0 \<or> (\<exists>j < 15. e = push_bit j 1)) \<and> getbits 15 rx p = getbits 15 air p XOR e"
proof -
  let ?S = "{j. j < 15 \<and> bitat rx (p + j) \<noteq> bitat air (p + j)}"
  have fin: "finite ?S" by simp
  consider "?S = {}" | k where "?S = {k}"
  proof (cases "?S = {}")
    case False
    then obtain k where k: "k \<in> ?S" by blast
    then have "?S = {k}" using assms card_le_Suc0_iff_eq [OF fin] by auto
    then show thesis by (rule that(2))
  qed (rule that(1))
  then show ?thesis
  proof cases
    case 1
    then have "getbits 15 rx p = getbits 15 air p" by (intro bit_word_eqI) (auto simp: bit_getbits)
    then show ?thesis by (intro exI [of _ 0]) simp
  next
    case (2 k)
    then have k: "k < 15" "bitat rx (p + k) \<noteq> bitat air (p + k)"
      and o: "j < 15 \<Longrightarrow> j \<noteq> k \<Longrightarrow> bitat rx (p + j) = bitat air (p + j)" for j by blast+
    have "getbits 15 rx p = getbits 15 air p XOR push_bit k 1"
    proof (rule bit_word_eqI)
      fix j :: nat assume "j < LENGTH(32)"
      then show "bit (getbits 15 rx p) j = bit (getbits 15 air p XOR push_bit k 1) j"
        using k o [of j] by (cases "j = k") (auto simp: bit_getbits bit_simps bit_1_iff)
    qed
    then show ?thesis using k by blast
  qed
qed

lemma passes_ge: "(nbits + 9) div 10 \<le> fec23_passes nbits"
proof -
  have "(nbits + 9) div 10 * 10 \<le> (nbits + 9) div 10 * 15 + 9" by simp
  then show ?thesis unfolding fec23_passes_def Let_def by (simp add: less_eq_div_iff_mult_less_eq)
qed

text \<open>
  C25. A buffer encoded by \<open>fec23\<close> and received with at most one wrong bit in each 15-bit word is
  decoded by \<open>unfec23\<close>, whichever of its two loops runs, into the original bits.
\<close>

theorem fec23_roundtrip:
  assumes "clean out out_of" and "out_of + fec23_passes nbits * 15 \<le> 8 * length out"
    and "fec23_passes nbits * 10 \<le> 8 * length inp"
    and "10 * ((nbits + 9) div 10) \<le> 8 * length dst"
  shows "\<exists>air. fec23 out inp out_of nbits = Inr air \<and>
    (\<forall>rx. length rx = length air \<longrightarrow>
      (\<forall>i < (nbits + 9) div 10.
        card {j. j < 15 \<and> bitat rx (out_of + 15 * i + j) \<noteq> bitat air (out_of + 15 * i + j)} \<le> 1) \<longrightarrow>
      (\<exists>dst'. unfec23 dst rx out_of nbits = Inr dst' \<and> (\<forall>p < nbits. bitat dst' p = bitat inp p)))"
proof (intro exI conjI allI impI)
  let ?W = "(nbits + 9) div 10"
  let ?air = "putn out out_of 15 (fec23_passes nbits) (\<lambda>i. enc23 (getbits 10 inp (i * 10)))"
  show "fec23 out inp out_of nbits = Inr ?air"
    by (rule fec23_eq [OF assms(1-3)])
  fix rx assume len: "length rx = length ?air"
    and err: "\<forall>i < ?W. card {j. j < 15 \<and> bitat rx (out_of + 15 * i + j) \<noteq> bitat ?air (out_of + 15 * i + j)} \<le> 1"
  let ?z = "replicate ((nbits + 7) div 8) 0 @ drop ((nbits + 7) div 8) dst"
  let ?dst = "putn ?z 0 10 ?W (\<lambda>i. dec23 (getbits 15 rx (out_of + 15 * i)))"
  have "15 * ?W \<le> 15 * fec23_passes nbits" using passes_ge by (rule mult_le_mono2)
  then have "out_of + 15 * ?W \<le> 8 * length rx" using assms(2) len by simp
  then show "unfec23 dst rx out_of nbits = Inr ?dst" by (rule unfec23_eq [OF assms(4)])
  have word: "dec23 (getbits 15 rx (out_of + 15 * i)) = getbits 10 inp (10 * i)" if i: "i < ?W" for i
  proof -
    have "getbits 15 ?air (out_of + i * 15) = enc23 (getbits 10 inp (i * 10))"
      by (rule getbits_putn) (use i passes_ge [of nbits] assms(2) enc23_bits in auto)
    moreover obtain e where "e = 0 \<or> (\<exists>j < 15. e = push_bit j 1)"
      "getbits 15 rx (out_of + 15 * i) = getbits 15 ?air (out_of + 15 * i) XOR e"
      using one_error [OF err [rule_format, OF i]] by (elim exE conjE) (rule that)
    moreover have "take_bit 10 (getbits 10 inp (10 * i)) = getbits 10 inp (10 * i)"
      by (rule bit_word_eqI) (auto simp: bit_simps bit_getbits)
    ultimately show ?thesis using dec23_single by (simp add: mult.commute)
  qed
  fix p assume p: "p < nbits"
  have "Suc (p div 10) = (p + 10) div 10" by simp
  also have "\<dots> \<le> ?W" using p by (intro div_le_mono) simp
  finally have pw: "p div 10 < ?W" "p < ?W * 10" using p by simp_all
  have "(nbits + 7) div 8 \<le> length dst" using assms(4) by simp
  then have "p < 8 * length ?z" using pw(2) assms(4) by simp
  then have "bitat ?dst p = bit (dec23 (getbits 15 rx (out_of + 15 * (p div 10)))) (p mod 10)"
    using pw(2) align8_le(1) [of "?W * 10"] by (simp add: bitat_putn)
  moreover have "p mod 10 < 32" by (rule less_trans [OF mod_less_divisor]) simp_all
  ultimately show "bitat ?dst p = bitat inp p" using word [OF pw(1)] by (simp add: bit_getbits)
qed

theorem fec23_roundtrip_witness:
  "\<exists>air. fec23 (replicate 6 0) [0xa5, 0x01, 0x00] 2 10 = Inr air \<and>
    (\<forall>rx. length rx = length air \<longrightarrow>
      (\<forall>i < (10 + 9) div 10.
        card {j. j < 15 \<and> bitat rx (2 + 15 * i + j) \<noteq> bitat air (2 + 15 * i + j)} \<le> 1) \<longrightarrow>
      (\<exists>dst'. unfec23 [7, 7] rx 2 10 = Inr dst' \<and> (\<forall>p < 10. bitat dst' p = bitat [0xa5, 0x01, 0x00] p)))"
  by (rule fec23_roundtrip) (simp_all add: clean_def align8_def bitat_def fec23_passes_def)

lemma loop_oob: "(\<And>i s e. i < n \<Longrightarrow> f i s = Inl e \<Longrightarrow> e = Oob) \<Longrightarrow> loop n f s = Inl e \<Longrightarrow> e = Oob"
  by (induction n) (auto simp: bnd_Inl_iff less_Suc_eq)

lemma wr_Inl: "wr xs i x = Inl e \<Longrightarrow> e = Oob" and rd_Inl: "rd xs i = Inl e \<Longrightarrow> e = Oob"
  by (auto simp: wr_def rd_def split: if_split_asm)

lemma put_bytes_oob: "put_bytes nb k val p byte = Inl e \<Longrightarrow> e = Oob"
proof -
  assume "put_bytes nb k val p byte = Inl e"
  then show ?thesis
    unfolding put_bytes_def bnd_Inl_iff
  proof (elim disjE exE conjE)
    assume "(if k = 0 then wr p byte (ucast val)
          else bnd (rd p byte) (\<lambda>b. wr p byte (b OR ucast (push_bit k val)))) = Inl e"
    then show ?thesis by (auto simp: bnd_Inl_iff dest: wr_Inl rd_Inl split: if_split_asm)
  next
    fix x assume "loop (nb - 1) (\<lambda>j q. wr q (byte + Suc j) (ucast (drop_bit (8 * Suc j - k) val))) x = Inl e"
    then show ?thesis by (rule loop_oob [rotated]) (rule wr_Inl)
  qed
qed

lemma passes_last:
  assumes "0 < nbits" shows "(nbits + 7) div 8 \<le> ((fec23_passes nbits - 1) * 10) div 8 + 1" and "0 < fec23_passes nbits"
proof -
  define W N where "W = (nbits + 9) div 10" and "N = fec23_passes nbits"
  have nW: "nbits \<le> 10 * W" unfolding W_def by linarith
  have W1: "1 \<le> W" using assms unfolding W_def by (simp add: less_eq_div_iff_mult_less_eq)
  have N: "N = (15 * W + 9) div 10" by (simp add: N_def fec23_passes_def W_def Let_def mult.commute)
  then have N10: "15 * W \<le> 10 * N" by linarith
  then show "0 < fec23_passes nbits" using W1 by (cases "N = 0") (simp_all add: N_def)
  have "(nbits + 7) div 8 \<le> (N - 1) * 10 div 8 + 1"
  proof (cases "W = 1")
    case True
    then have "N = 2" using N by simp
    moreover have "(nbits + 7) div 8 \<le> 17 div 8" using nW True by (intro div_le_mono) simp
    ultimately show ?thesis by simp
  next
    case False
    then have "nbits \<le> (N - 1) * 10" using N10 nW W1 by linarith
    then have "(nbits + 7) div 8 \<le> ((N - 1) * 10 + 8) div 8" by (intro div_le_mono) simp
    then show ?thesis by simp
  qed
  then show "(nbits + 7) div 8 \<le> ((fec23_passes nbits - 1) * 10) div 8 + 1" by (simp add: N_def)
qed

text \<open>
  \<open>fec23\<close> reads past its input: its loop is bounded by the number of output bits instead of
  \<open>nbits\<close>, so on an input buffer of exactly \<open>nbits\<close> bits (as its comment describes it) every call with
  \<open>nbits > 0\<close> leaves the buffer.
\<close>


theorem fec23_overreads:
  assumes "0 < nbits" and "length inp = (nbits + 7) div 8"
  shows "fec23 out inp out_of nbits = Inl Oob"
proof -
  let ?f = "\<lambda>i out. let in_bit_pos = i * 10; out_bit_pos = out_of + i * 15 in
       bnd (ext10 inp in_bit_pos) (\<lambda>data.
       bnd (fec23_word data) (\<lambda>data.
       ENCODE15 (out_bit_pos mod 8) data out (out_bit_pos div 8)))"
  obtain m where m: "fec23_passes nbits = Suc m" using passes_last(2) [OF assms(1)] by (cases "fec23_passes nbits") auto
  have "length inp \<le> m * 10 div 8 + 1" using passes_last(1) [OF assms(1)] assms(2) m by simp
  then have last: "ext10 inp (m * 10) = Inl Oob"
    by (cases "m * 10 div 8 < length inp") (simp_all add: ext10_def Let_def)
  have oob: "?f i s = Inl e \<Longrightarrow> e = Oob" for i s e
    unfolding Let_def bnd_Inl_iff ENCODE15_def fec23_word_def ext10_def
    by (auto simp: rd_def bnd_Inl_iff split: if_split_asm dest: put_bytes_oob)
  have "loop (Suc m) ?f out = Inl Oob"
  proof (cases "loop m ?f out")
    case (Inl e)
    then have "e = Oob" using loop_oob [where f = ?f] oob by blast
    then show ?thesis using Inl by simp
  next
    case (Inr s)
    then show ?thesis using last by (simp add: Let_def)
  qed
  then show ?thesis by (simp add: fec23_def m)
qed

theorem fec23_overreads_witness: "fec23 (replicate 200 0) (replicate 80 0x55) 2 640 = Inl Oob"
  by (rule fec23_overreads) simp_all

end
