(* ===== verification/NullCode.thy ===== *)
theory NullCode
  imports BitFields
begin

text \<open>
  Payloads without error correction: \<open>null_encode\<close> and \<open>null_decode\<close> of
  firmware/btbr/src/codec/bitstream_proc.c copy whole bytes to and from bit 0 or bit 2 of an air byte.
  Their byte offset is a \<open>uint8_t\<close>, so it wraps at 256 bytes.
\<close>

section \<open>The code\<close>

definition null_decode :: "u8 list \<Rightarrow> u8 list \<Rightarrow> nat \<Rightarrow> nat \<Rightarrow> u8 list res" where
  "null_decode out inp in_of byte_count =
     (if byte_count = 0 then Inr out
      else
        let byte_of = unat (of_nat (in_of div 8) :: u8); bit_of = in_of mod 8 in
        if length inp < byte_of then Inl Oob
        else
          let inp = drop byte_of inp in
          if bit_of = 0 then memcpy out inp byte_count
          else if bit_of \<noteq> 2 then Inl Die
          else loop byte_count (\<lambda>i out.
            bnd (rd inp i) (\<lambda>a.
            bnd (rd inp (i + 1)) (\<lambda>b.
            wr out i (drop_bit 2 a OR push_bit 6 b)))) out)"

definition null_encode_at :: "nat \<Rightarrow> nat \<Rightarrow> u8 list \<Rightarrow> u8 list \<Rightarrow> u8 list res" where
  "null_encode_at bit_of byte_count inp out =
     (if bit_of = 0 then memcpy out inp byte_count
      else if bit_of \<noteq> 2 then Inl Die
      else
        bnd (rd inp 0) (\<lambda>a.
        bnd (rd out 0) (\<lambda>o0.
        bnd (wr out 0 (o0 OR push_bit 2 a)) (\<lambda>out.
        bnd (loop (byte_count - 1) (\<lambda>i out.
          bnd (rd inp i) (\<lambda>a.
          bnd (rd inp (i + 1)) (\<lambda>b.
          wr out (i + 1) (drop_bit 6 a OR push_bit 2 b)))) out) (\<lambda>out.
        bnd (rd inp (byte_count - 1)) (\<lambda>a.
        wr out byte_count (drop_bit 6 a)))))))"

definition null_encode :: "u8 list \<Rightarrow> u8 list \<Rightarrow> nat \<Rightarrow> nat \<Rightarrow> u8 list res" where
  "null_encode out inp out_of byte_count =
     (if byte_count = 0 then Inr out
      else window (unat (of_nat (out_of div 8) :: u8)) (null_encode_at (out_of mod 8) byte_count inp) out)"

section \<open>What they compute\<close>

lemma u8_of: "unat (of_nat n :: u8) = n mod 256"
  by (simp add: unsigned_of_nat take_bit_eq_mod)

lemma bitat_take: "i < 8 * n \<Longrightarrow> bitat (take n xs) i = bitat xs i"
proof -
  assume "i < 8 * n"
  then have "i div 8 < n" by (simp add: less_mult_imp_div_less mult.commute)
  then show ?thesis by (simp add: bitat_def)
qed

text \<open>The decoder reads from byte \<open>(in_of div 8) mod 256\<close> on.\<close>

lemma null_decode_eq:
  assumes "0 < n" and "in_of mod 8 \<in> {0, 2}"
    and B: "B = in_of div 8 mod 256" and inp: "8 * B + in_of mod 8 + 8 * n \<le> 8 * length inp" and out: "n \<le> length out"
  shows "null_decode out inp in_of n =
    Inr (mkbytes (length out) (\<lambda>q. if q < 8 * n then bitat inp (8 * B + in_of mod 8 + q) else bitat out q))"
proof -
  define k where "k = in_of mod 8"
  define ys where "ys = drop B inp"
  have k: "k = 0 \<or> k = 2" using assms(2) by (simp add: k_def)
  have Bl: "B \<le> length inp" using inp by simp
  have ys: "bitat ys q = bitat inp (8 * B + q)" for q using Bl by (simp add: ys_def bitat_drop)
  have yl: "n \<le> length ys" "k = 2 \<Longrightarrow> n < length ys" using inp Bl by (simp_all add: ys_def k_def)
  let ?R = "mkbytes (length out) (\<lambda>q. if q < 8 * n then bitat inp (8 * B + k + q) else bitat out q)"
  have "null_decode out inp in_of n = Inr ?R"
  proof (cases "k = 0")
    case True
    have "take n ys @ drop n out = ?R"
    proof (rule mkbytes_eqI)
      fix q assume q: "q < 8 * length out"
      show "bitat (take n ys @ drop n out) q = (if q < 8 * n then bitat inp (8 * B + k + q) else bitat out q)"
        using yl(1) out True
        by (cases "q < 8 * n") (simp_all add: bitat_append bitat_drop bitat_take ys)
    qed (use yl out in simp)
    then show ?thesis using True assms(1) Bl yl out
      by (simp add: null_decode_def u8_of Let_def B [symmetric] k_def [symmetric] ys_def [symmetric] memcpy_ok)
  next
    case False
    then have k2: "k = 2" using k by simp
    define v where "v = (\<lambda>i. drop_bit 2 (ys ! i) OR push_bit 6 (ys ! (i + 1)))"
    have step: "bnd (rd ys i) (\<lambda>a. bnd (rd ys (i + 1)) (\<lambda>b. wr o' i (drop_bit 2 a OR push_bit 6 b))) = wr o' (0 + i) (v i)"
      if "i < n" for i o'
      using that yl(2) [OF k2] by (simp add: v_def)
    have "loop n (\<lambda>i out. bnd (rd ys i) (\<lambda>a. bnd (rd ys (i + 1)) (\<lambda>b. wr out i (drop_bit 2 a OR push_bit 6 b)))) out
        = Inr (map v [0..<n] @ drop n out)"
      using loop_cong [OF refl step refl, where s = out] loop_wr [of 0 n out v] out by simp
    moreover have "map v [0..<n] @ drop n out = ?R"
    proof (rule mkbytes_eqI)
      fix q assume q: "q < 8 * length out"
      define i m where "i = q div 8" and "m = q mod 8"
      have qim: "q = 8 * i + m" and m: "m < 8" by (simp_all add: i_def m_def)
      have vb: "bit (v i) m = bitat inp (8 * B + k + q)"
      proof (cases "m < 6")
        case True
        then have "8 * B + k + q = 8 * B + (8 * i + (m + 2))" by (simp add: k2 qim)
        then show ?thesis using True m bitat_byte [of "m + 2" ys i]
          by (simp only: ys [symmetric]) (simp add: v_def bit_simps)
      next
        case False
        then have "8 * B + k + q = 8 * B + (8 * Suc i + (m - 6))" by (simp add: k2 qim)
        then show ?thesis using False m
          by (simp only: ys [symmetric] bitat_byte) (auto simp: v_def bit_simps dest: u8_bit_8)
      qed
      show "bitat (map v [0..<n] @ drop n out) q = (if q < 8 * n then bitat inp (8 * B + k + q) else bitat out q)"
      proof (cases "q < 8 * n")
        case True
        then have "i < n" using qim by simp
        then show ?thesis using True vb m by (simp add: bitat_append qim bitat_byte)
      next
        case False
        then show ?thesis using out by (simp add: bitat_append bitat_drop)
      qed
    qed (use out in simp)
    ultimately show ?thesis using k2 assms(1) Bl
      by (simp add: null_decode_def u8_of Let_def B [symmetric] k_def [symmetric] ys_def [symmetric] del: One_nat_def)
  qed
  then show ?thesis by (simp only: k_def)
qed

text \<open>The encoder behind its byte offset is a run of 8-bit fields.\<close>

lemma null_encode_at_eq:
  assumes "0 < n" and "k = 0 \<or> k = 2" and cl: "clean out k"
    and out: "k + 8 * n \<le> 8 * length out" and inp: "n \<le> length inp"
  shows "null_encode_at k n inp out = Inr (putn out k 8 n (\<lambda>i. ucast (inp ! i)))"
proof (cases "k = 0")
  case True
  have "take n inp @ drop n out = putn out 0 8 n (\<lambda>i. ucast (inp ! i))"
    unfolding putn_def
  proof (rule mkbytes_eqI)
    fix q assume q: "q < 8 * length out"
    have "align8 (n * 8) = 8 * n" by (simp add: align8_def)
    moreover have "q mod 8 < 32" by (rule less_trans [OF mod_less_divisor]) simp_all
    then have "bit (ucast (inp ! (q div 8)) :: u32) (q mod 8) = bitat inp q"
      by (simp add: bitat_def bit_ucast_iff)
    ultimately show "bitat (take n inp @ drop n out) q = (if 0 \<le> q \<and> q < align8 (0 + n * 8)
        then q < 0 + n * 8 \<and> bit (ucast (inp ! ((q - 0) div 8)) :: u32) ((q - 0) mod 8) else bitat out q)"
      using inp out True
      by (cases "q < 8 * n") (simp_all add: bitat_append bitat_drop bitat_take)
  qed (use out inp True in simp)
  then show ?thesis using True out inp by (simp add: null_encode_at_def memcpy_ok)
next
  case False
  then have k2: "k = 2" using assms(2) by simp
  define b0 where "b0 = out ! 0 OR push_bit 2 (inp ! 0)"
  define v where "v = (\<lambda>i. drop_bit 6 (inp ! i) OR push_bit 2 (inp ! (i + 1)))"
  define r where "r = b0 # map v [0..<n - 1] @ [drop_bit 6 (inp ! (n - 1))] @ drop (Suc n) out"
  have l: "n < length out" using out k2 by simp
  have step: "bnd (rd inp i) (\<lambda>a. bnd (rd inp (i + 1)) (\<lambda>b. wr o' (i + 1) (drop_bit 6 a OR push_bit 2 b)))
      = wr o' (1 + i) (v i)" if "i < n - 1" for i o'
    using that inp by (simp add: v_def)
  have "loop (n - 1) (\<lambda>i out. bnd (rd inp i) (\<lambda>a. bnd (rd inp (i + 1)) (\<lambda>b. wr out (i + 1) (drop_bit 6 a OR push_bit 2 b))))
      (out[0 := b0]) = Inr (b0 # map v [0..<n - 1] @ drop n out)"
  proof -
    have "take 1 (out[0 := b0]) = [b0]" using l by (cases out) simp_all
    moreover have "drop (1 + (n - 1)) (out[0 := b0]) = drop n out" using assms(1) by simp
    ultimately show ?thesis
      using loop_cong [OF refl step refl, where s = "out[0 := b0]"] loop_wr [of 1 "n - 1" "out[0 := b0]" v] l
      by simp
  qed
  moreover have "(b0 # map v [0..<n - 1] @ drop n out)[n := drop_bit 6 (inp ! (n - 1))] = r"
    using l assms(1) by (simp add: r_def list_update_append Cons_nth_drop_Suc [symmetric] split: nat.split)
  moreover have "r = putn out 2 8 n (\<lambda>i. ucast (inp ! i))"
    unfolding putn_def
  proof (rule mkbytes_eqI)
    show "length r = length out" using l assms(1) by (simp add: r_def)
    fix q assume q: "q < 8 * length out"
    define i m where "i = q div 8" and "m = q mod 8"
    have qim: "q = 8 * i + m" and m: "m < 8" by (simp_all add: i_def m_def)
    have al: "align8 (2 + n * 8) = 8 * Suc n" by (simp add: align8_def div_nat_eqI)
    have "(q - 2) mod 8 < 32" by (rule less_trans [OF mod_less_divisor]) simp_all
    then have val: "bit (ucast (inp ! ((q - 2) div 8)) :: u32) ((q - 2) mod 8) = bitat inp (q - 2)"
      by (simp add: bitat_def bit_ucast_iff)
    have low: "bitat inp (q - 2) = bit (inp ! (i - 1)) (m + 6)" if "0 < i" "m < 2"
    proof -
      have "q - 2 = 8 * (i - 1) + (m + 6)" using that by (simp add: qim)
      then show ?thesis using that bitat_byte [of "m + 6" inp "i - 1"] by simp
    qed
    have high: "bitat inp (q - 2) = bit (inp ! i) (m - 2)" if "2 \<le> m"
    proof -
      have "q - 2 = 8 * i + (m - 2)" using that by (simp add: qim)
      then show ?thesis using m bitat_byte [of "m - 2" inp i] by simp
    qed
    have rb: "bitat r q = bit (r ! i) m" using bitat_byte [OF m] by (simp only: qim)
    have out0: "\<not> bit (out ! 0) x" if "2 \<le> x" "x < 8" for x
      using clean_byte [of out 0 2 x] cl k2 that by simp
    consider "i = 0" | "0 < i" "i < n" | "i = n" | "n < i" by linarith
    then show "bitat r q = (if 2 \<le> q \<and> q < align8 (2 + n * 8)
        then q < 2 + n * 8 \<and> bit (ucast (inp ! ((q - 2) div 8)) :: u32) ((q - 2) mod 8) else bitat out q)"
      unfolding al val
    proof cases
      case 1
      then have "r ! i = b0" by (simp add: r_def)
      have "bitat out q = bit (out ! 0) m" using 1 bitat_byte [OF m, of out 0] by (simp add: qim)
      then show "bitat r q = (if 2 \<le> q \<and> q < 8 * Suc n then q < 2 + n * 8 \<and> bitat inp (q - 2) else bitat out q)"
        unfolding rb \<open>r ! i = b0\<close>
        using 1 m high assms(1) out0 by (cases "2 \<le> m") (auto simp: qim b0_def bit_simps)
    next
      case 2
      then have "r ! i = v (i - 1)" by (auto simp: r_def nth_append nth_Cons split: nat.split)
      then show "bitat r q = (if 2 \<le> q \<and> q < 8 * Suc n then q < 2 + n * 8 \<and> bitat inp (q - 2) else bitat out q)"
        unfolding rb \<open>r ! i = v (i - 1)\<close>
        using 2 m low high by (cases "2 \<le> m") (auto simp: qim v_def bit_simps add.commute [of m 6] dest: u8_bit_8)
    next
      case 3
      then have "r ! i = drop_bit 6 (inp ! (n - 1))"
        using assms(1) by (simp add: r_def nth_append nth_Cons split: nat.split)
      then show "bitat r q = (if 2 \<le> q \<and> q < 8 * Suc n then q < 2 + n * 8 \<and> bitat inp (q - 2) else bitat out q)"
        unfolding rb \<open>r ! i = drop_bit 6 (inp ! (n - 1))\<close>
        using 3 m low assms(1) by (cases "2 \<le> m") (auto simp: qim bit_simps add.commute dest: u8_bit_8)
    next
      case 4
      then have "r ! i = out ! i"
        using l assms(1)
        by (auto simp: r_def nth_append nth_Cons split: nat.split intro!: arg_cong [where f = "nth out"])
      then show "bitat r q = (if 2 \<le> q \<and> q < 8 * Suc n then q < 2 + n * 8 \<and> bitat inp (q - 2) else bitat out q)"
        unfolding rb \<open>r ! i = out ! i\<close>
        using 4 m bitat_byte [OF m, of out i] by (simp add: qim)
    qed
  qed
  moreover have "0 < length inp" "n - 1 < length inp" "0 < length out" using l inp assms(1) by auto
  ultimately show ?thesis using l assms(1)
    by (simp add: null_encode_at_def k2 b0_def split: nat.splits)
qed

lemma null_encode_eq:
  assumes "0 < n" and "out_of mod 8 \<in> {0, 2}" and "out_of < 2048"
    and cl: "clean out out_of" and out: "out_of + 8 * n \<le> 8 * length out" and inp: "n \<le> length inp"
  shows "null_encode out inp out_of n = Inr (putn out out_of 8 n (\<lambda>i. ucast (inp ! i)))"
proof -
  define k B where "k = out_of mod 8" and "B = out_of div 8"
  have pos: "out_of = 8 * B + k" by (simp add: k_def B_def)
  have k: "k = 0 \<or> k = 2" using assms(2) by (simp add: k_def)
  have B: "B < 256" "B \<le> length out" using assms(3) out pos by simp_all
  let ?o = "drop B out"
  have bo: "bitat ?o q = bitat out (8 * B + q)" for q using B by (simp add: bitat_drop)
  have "clean ?o k"
    unfolding clean_def
  proof (intro allI impI)
    fix q assume "k \<le> q" "q < align8 k"
    then have "out_of \<le> 8 * B + q" "8 * B + q < align8 out_of" by (simp_all add: pos align8_cases)
    then show "\<not> bitat ?o q" using cl unfolding clean_def bo by blast
  qed
  moreover have "k + 8 * n \<le> 8 * length ?o" using out B pos by simp
  ultimately have "null_encode_at k n inp ?o = Inr (putn ?o k 8 n (\<lambda>i. ucast (inp ! i)))"
    using assms(1) k inp by (intro null_encode_at_eq)
  moreover have "take B out @ putn ?o k 8 n (\<lambda>i. ucast (inp ! i)) = putn out out_of 8 n (\<lambda>i. ucast (inp ! i))"
    unfolding putn_def [of out]
  proof (rule mkbytes_eqI)
    fix q assume q: "q < 8 * length out"
    have al: "align8 (out_of + n * 8) = 8 * B + align8 (k + n * 8)"
      using align8_cases [of B "k + n * 8"] by (simp add: pos add.assoc)
    show "bitat (take B out @ putn ?o k 8 n (\<lambda>i. ucast (inp ! i))) q =
      (if out_of \<le> q \<and> q < align8 (out_of + n * 8)
       then q < out_of + n * 8 \<and> bit (ucast (inp ! ((q - out_of) div 8)) :: u32) ((q - out_of) mod 8) else bitat out q)"
    proof (cases "q < 8 * B")
      case True
      then show ?thesis using B pos by (simp add: bitat_append bitat_take)
    next
      case False
      then obtain p where p: "q = 8 * B + p" using le_Suc_ex by (metis not_less)
      then show ?thesis using False q B by (simp add: bitat_append bitat_putn bo al) (simp add: pos)
    qed
  qed (use B in simp)
  ultimately show ?thesis using assms(1) B
    by (simp add: null_encode_def window_def u8_of k_def B_def)
qed

section \<open>Properties\<close>

text \<open>
  C27 (roundtrip).  Below bit 2048 of the air buffer, \<open>null_decode\<close> gives back the bytes \<open>null_encode\<close> wrote, at both
  bit offsets the code supports.
\<close>

theorem null_roundtrip:
  assumes "ofs < 2048" and "ofs mod 8 \<in> {0, 2}" and "clean air ofs"
    and "0 < n" and "ofs + 8 * n \<le> 8 * length air" and "n \<le> length inp" and "n \<le> length dst"
  shows "\<exists>air'. null_encode air inp ofs n = Inr air' \<and> length air' = length air \<and>
    null_decode dst air' ofs n = Inr (take n inp @ drop n dst)"
proof (intro exI conjI)
  let ?air = "putn air ofs 8 n (\<lambda>i. ucast (inp ! i))"
  show "null_encode air inp ofs n = Inr ?air" using assms by (intro null_encode_eq)
  show "length ?air = length air" by simp
  have pos: "8 * (ofs div 8) + ofs mod 8 = ofs" by simp
  have B: "ofs div 8 mod 256 = ofs div 8" using assms(1) by (simp add: less_mult_imp_div_less)
  have d: "null_decode dst ?air ofs n = Inr (mkbytes (length dst)
      (\<lambda>q. if q < 8 * n then bitat ?air (8 * (ofs div 8) + ofs mod 8 + q) else bitat dst q))"
    by (rule null_decode_eq [OF assms(4,2) B [symmetric]]) (use assms in simp_all)
  have "take n inp @ drop n dst = mkbytes (length dst)
      (\<lambda>q. if q < 8 * n then bitat ?air (8 * (ofs div 8) + ofs mod 8 + q) else bitat dst q)"
    unfolding pos
  proof (rule mkbytes_eqI)
    fix q assume "q < 8 * length dst"
    have "q mod 8 < 32" by (rule less_trans [OF mod_less_divisor]) simp_all
    then have "bit (ucast (inp ! (q div 8)) :: u32) (q mod 8) = bitat inp q"
      by (simp add: bitat_def bit_ucast_iff)
    then have "q < 8 * n \<Longrightarrow> bitat ?air (ofs + q) = bitat inp q"
      using assms(5) align8_le(1) [of "ofs + n * 8"] by (simp add: bitat_putn)
    then show "bitat (take n inp @ drop n dst) q = (if q < 8 * n then bitat ?air (ofs + q) else bitat dst q)"
      using assms(6,7) by (cases "q < 8 * n") (simp_all add: bitat_append bitat_drop bitat_take)
  qed (use assms(6,7) in simp)
  then show "null_decode dst ?air ofs n = Inr (take n inp @ drop n dst)" using d by simp
qed

theorem null_roundtrip_witness:
  "\<exists>air'. null_encode (replicate 4 0) [0xab, 0xcd] 10 2 = Inr air' \<and> length air' = length (replicate 4 (0 :: u8)) \<and>
    null_decode [1, 2, 3] air' 10 2 = Inr (take 2 [0xab, 0xcd] @ drop 2 [1, 2, 3])"
  by (rule null_roundtrip) (simp_all add: clean_def align8_def bitat_def)

text \<open>
  From bit 2048 of the air buffer on, \<open>null_decode\<close> reads the wrong bytes: its \<open>uint8_t\<close> byte offset
  wraps, so it returns what it would return 256 bytes earlier.  (The longest DH5 packet ends at bit
  2802, so its last chunks are decoded from the front of the packet.)
\<close>

theorem null_decode_wraps:
  "null_decode out inp (in_of + 2048 * k) n = null_decode out inp in_of n"
proof -
  have "in_of + 2048 * k = in_of + 8 * (256 * k)" by simp
  then have d: "(in_of + 2048 * k) div 8 = in_of div 8 + 256 * k" and m: "(in_of + 2048 * k) mod 8 = in_of mod 8"
    by (simp_all only: div_mult_self2 mod_mult_self2)
  have "(of_nat (in_of div 8 + 256 * k) :: u8) = of_nat (in_of div 8)"
    by (rule unsigned_word_eqI [where 'a = nat]) (simp add: u8_of del: of_nat_add of_nat_mult)
  then show ?thesis by (simp only: null_decode_def d m)
qed

end
