(* ===== verification/Codec.thy ===== *)
theory Codec
  imports Crc Whiten Fec13 Fec23 NullCode
begin

text \<open>
  The packet codec of firmware/btbr/src/codec/codec.c: packet headers, and payloads in chunks (80
  bytes at a time to the air, 10 at a time from it) with the running CRC and whitening state kept in
  a \<open>bbcodec_t\<close>.
\<close>

section \<open>Packet types\<close>

record bbcodec_types =
  nslots :: nat
  payload_header_bytes :: nat
  payload_bytes :: nat
  has_fec23 :: bool
  has_crc :: bool

definition bbtype :: "nat \<Rightarrow> nat \<Rightarrow> nat \<Rightarrow> bool \<Rightarrow> bool \<Rightarrow> bbcodec_types" where
  "bbtype ns hlen plen fec crc =
     \<lparr>nslots = ns, payload_header_bytes = hlen, payload_bytes = plen, has_fec23 = fec, has_crc = crc\<rparr>"

text \<open>Entries the initialiser leaves out (HV1 to AUX1, EV4, EV5) are zero.\<close>

definition bbcodec_acl_types :: "bbcodec_types list" where
  "bbcodec_acl_types =
    [bbtype 1 0 0 False False, \<comment> \<open>0: NULL\<close>
     bbtype 1 0 0 False False, \<comment> \<open>1: POLL\<close>
     bbtype 1 0 18 True True,  \<comment> \<open>2: FHS\<close>
     bbtype 1 1 17 True True,  \<comment> \<open>3: DM1\<close>
     bbtype 1 1 27 False True, \<comment> \<open>4: DH1\<close>
     bbtype 0 0 0 False False, bbtype 0 0 0 False False, bbtype 0 0 0 False False,
     bbtype 0 0 0 False False, bbtype 0 0 0 False False,
     bbtype 3 2 121 True True, \<comment> \<open>10: DM3\<close>
     bbtype 3 2 183 False True, \<comment> \<open>11: DH3\<close>
     bbtype 0 0 0 False False, bbtype 0 0 0 False False,
     bbtype 5 2 224 True True, \<comment> \<open>14: DM5\<close>
     bbtype 5 2 339 False True \<comment> \<open>15: DH5\<close>]"

section \<open>State\<close>

record bbcodec =
  uap :: u8
  use_whiten :: bool
  rx_raw :: bool
  whiten_state :: u8
  crc_state :: u16
  crc_pos :: nat
  ct :: "bbcodec_types option"
  payload_length :: nat
  air_bytes :: nat
  coded_total :: nat
  air_off_b :: nat
  coded_pos :: nat

record bbhdr =
  lt_addr :: u8
  btype :: u8
  flags :: u8
  hec :: u8

definition bbcodec_init :: "u32 \<Rightarrow> u8 \<Rightarrow> bool \<Rightarrow> bool \<Rightarrow> bbcodec" where
  "bbcodec_init whiten_init uap0 use_whiten0 rx_raw0 =
     \<lparr>uap = uap0, use_whiten = use_whiten0, rx_raw = rx_raw0, whiten_state = ucast whiten_init,
      crc_state = push_bit 8 (ucast (reverse8 uap0)), crc_pos = 0, ct = None, payload_length = 0,
      air_bytes = 0, coded_total = 0, air_off_b = 0, coded_pos = 0\<rparr>"

text \<open>\<open>unsigned\<close> subtraction, and the pointer to the type (a null pointer is not read).\<close>

definition usub :: "nat \<Rightarrow> nat \<Rightarrow> nat" where
  "usub a b = (a + 2 ^ 32 - b) mod 2 ^ 32"

definition typ_of :: "bbcodec \<Rightarrow> bbcodec_types res" where
  "typ_of codec = (case ct codec of None \<Rightarrow> Inl Oob | Some t \<Rightarrow> Inr t)"

definition CODEC_RX_CHUNK_SIZE :: nat where "CODEC_RX_CHUNK_SIZE = 10"
definition CODEC_TX_CHUNK_SIZE :: nat where "CODEC_TX_CHUNK_SIZE = 80"

section \<open>Payload length\<close>

definition hdr_payload_length :: "bbcodec_types \<Rightarrow> u8 list \<Rightarrow> nat res" where
  "hdr_payload_length t payload =
     (if payload_header_bytes t = 1 then bnd (rd payload 0) (\<lambda>p0. Inr (unat (drop_bit 3 p0)))
      else if payload_header_bytes t = 2 then
        bnd (rd payload 0) (\<lambda>p0. bnd (rd payload 1) (\<lambda>p1.
          Inr (unat (0x3ff AND drop_bit 3 ((ucast p0 :: u32) OR push_bit 8 (ucast p1))))))
      else Inr (payload_bytes t))"

definition bbcodec_calc_payload_length :: "bbcodec \<Rightarrow> u8 list option \<Rightarrow> bbcodec res" where
  "bbcodec_calc_payload_length codec payload =
     bnd (typ_of codec) (\<lambda>t.
     if payload_bytes t \<noteq> 0 \<and> payload = None then Inl Die
     else
       bnd (if rx_raw codec then Inr (payload_bytes t)
            else bnd (hdr_payload_length t (case payload of None \<Rightarrow> [] | Some p \<Rightarrow> p)) (\<lambda>n.
              Inr (if n > payload_bytes t then 0 else n))) (\<lambda>n.
       let total = payload_header_bytes t + n + (if has_crc t then 2 else 0);
           payload_bits = (if has_fec23 t then total * 12 else total * 8) in
       Inr (codec\<lparr>payload_length := n, coded_total := total, air_bytes := (58 + payload_bits + 7) div 8\<rparr>)))"

definition bbcodec_set_payload_type :: "bbcodec \<Rightarrow> u8 \<Rightarrow> bbcodec" where
  "bbcodec_set_payload_type codec type =
     (let t = bbcodec_acl_types ! unat (type AND 0xf) in
      codec\<lparr>ct := Some (if nslots t = 0 then bbcodec_acl_types ! 0 else t)\<rparr>)"

section \<open>Headers\<close>

definition unwhiten_hdr :: "bbcodec \<Rightarrow> u8 list \<Rightarrow> (u8 list \<times> bbcodec) res" where
  "unwhiten_hdr codec hdr_bytes =
     (if use_whiten codec then
        bnd (whiten hdr_bytes hdr_bytes 18 (whiten_state codec)) (\<lambda>(h, st).
        Inr (h, codec\<lparr>whiten_state := st\<rparr>))
      else Inr (hdr_bytes, codec))"

text \<open>The result is \<open>None\<close> where the code returns \<open>-1\<close>.\<close>

definition bbcodec_decode_header :: "bbcodec \<Rightarrow> u8 list \<Rightarrow> (bbcodec \<times> bbhdr option) res" where
  "bbcodec_decode_header codec in_data =
     bnd (unfec13_hdr [0, 0, 0] in_data) (\<lambda>(be, hdr_bytes).
     if be > 3 then Inr (codec, None)
     else
       bnd (unwhiten_hdr codec hdr_bytes) (\<lambda>(hb, codec).
       let h32 = (ucast (hb ! 0) :: u32) OR push_bit 8 (ucast (hb ! 1)) OR push_bit 16 (ucast (hb ! 2));
           hdr_data = h32 AND 0x3ff;
           hdr = \<lparr>lt_addr = ucast (hdr_data AND 7), btype = ucast (drop_bit 3 hdr_data AND 0xf),
                  flags = ucast (drop_bit 7 hdr_data AND 7), hec = ucast (drop_bit 10 h32)\<rparr> in
       if hec_compute (ucast hdr_data) (uap codec) AND 0x7f \<noteq> 0x7f AND hec hdr then Inr (codec, None)
       else Inr (bbcodec_set_payload_type (codec\<lparr>air_off_b := 58\<rparr>) (btype hdr), Some hdr)))"

definition header_word :: "bbcodec \<Rightarrow> bbhdr \<Rightarrow> u32" where
  "header_word codec in_hdr =
     (let h1 = ucast (7 AND lt_addr in_hdr);
          h2 = h1 OR push_bit 3 (ucast (0xf AND btype in_hdr));
          h3 = h2 OR push_bit 7 (ucast (7 AND flags in_hdr))
      in h3 OR push_bit 10 (ucast (hec_compute (ucast h3) (uap codec))))"

definition bbcodec_encode_header ::
    "bbcodec \<Rightarrow> u8 list \<Rightarrow> bbhdr \<Rightarrow> u8 \<Rightarrow> u8 list option \<Rightarrow> (bbcodec \<times> u8 list) res" where
  "bbcodec_encode_header codec air_data in_hdr trailer in_data =
     (let h32 = header_word codec in_hdr;
          hdr_bytes = [ucast (0xff AND h32), ucast (0xff AND drop_bit 8 h32), ucast (0xff AND drop_bit 16 h32)] in
      bnd (unwhiten_hdr codec hdr_bytes) (\<lambda>(hb, codec).
      bnd (wr air_data 0 trailer) (\<lambda>air_data.
      bnd (fec13 air_data hb 4 18) (\<lambda>(_, air_data).
      bnd (bbcodec_calc_payload_length (bbcodec_set_payload_type (codec\<lparr>air_off_b := 58\<rparr>) (btype in_hdr)) in_data) (\<lambda>codec.
      Inr (codec, air_data))))))"

section \<open>Payload chunks\<close>

text \<open>The whitened input goes to the stack buffer \<open>tmp\<close>; without whitening \<open>tmp\<close> keeps what it held.\<close>

definition bbcodec_encode_chunk ::
    "bbcodec \<Rightarrow> u8 list \<Rightarrow> u8 list \<Rightarrow> u8 list \<Rightarrow> (bbcodec \<times> u8 list \<times> u8 list) res" where
  "bbcodec_encode_chunk codec air_data in_data tmp0 =
     bnd (typ_of codec) (\<lambda>t.
     let byte_left = usub (coded_total codec) (coded_pos codec) in
     if byte_left = 0 then Inr (codec, air_data, in_data)
     else
       bnd (if \<not> rx_raw codec \<and> has_crc t \<and> byte_left > 2 then
              let crc_num = min (byte_left - 2) CODEC_TX_CHUNK_SIZE in
              bnd (crc_compute (drop (coded_pos codec) in_data) crc_num (crc_state codec)) (\<lambda>crc.
              if coded_pos codec + byte_left = coded_total codec then
                bnd (wr in_data (coded_total codec - 2) (ucast (0xff AND crc))) (\<lambda>in_data.
                bnd (wr in_data (coded_total codec - 1) (ucast (0xff AND drop_bit 8 crc))) (\<lambda>in_data.
                Inr (codec\<lparr>crc_state := crc\<rparr>, in_data)))
              else Inr (codec\<lparr>crc_state := crc\<rparr>, in_data))
            else Inr (codec, in_data)) (\<lambda>(codec, in_data).
       let byte_num = min byte_left CODEC_TX_CHUNK_SIZE in
       bnd (if use_whiten codec then
              bnd (whiten tmp0 (drop (coded_pos codec) in_data) (byte_num * 8) (whiten_state codec)) (\<lambda>(tmp, st).
              Inr (codec\<lparr>whiten_state := st\<rparr>, tmp))
            else Inr (codec, tmp0)) (\<lambda>(codec, tmp).
       let o8 = air_off_b codec div 8; ob = air_off_b codec mod 8 in
       bnd (if has_fec23 t
            then window o8 (\<lambda>a. fec23 a tmp ob (byte_num * 8)) air_data
            else window o8 (\<lambda>a. null_encode a tmp ob byte_num) air_data) (\<lambda>air_data.
       let out_bitlen = (if has_fec23 t then byte_num * 12 else byte_num * 8) in
       Inr (codec\<lparr>coded_pos := coded_pos codec + byte_num, air_off_b := air_off_b codec + out_bitlen\<rparr>,
            air_data, in_data)))))"

definition bbcodec_decode_update_crc :: "bbcodec \<Rightarrow> u8 list \<Rightarrow> bbcodec res" where
  "bbcodec_decode_update_crc codec data =
     (let crc_num = usub (min (usub (coded_total codec) 2) (coded_pos codec)) (crc_pos codec) in
      if crc_num = 0 then Inr codec
      else bnd (crc_compute (drop (crc_pos codec) data) crc_num (crc_state codec)) (\<lambda>crc.
        Inr (codec\<lparr>crc_state := crc, crc_pos := (crc_pos codec + crc_num) mod 2 ^ 16\<rparr>)))"

datatype chunk_rc = Bbcodec_more | Bbcodec_done | Bbcodec_short

definition unwhiten_at :: "bbcodec \<Rightarrow> u8 list \<Rightarrow> nat \<Rightarrow> nat \<Rightarrow> (bbcodec \<times> u8 list) res" where
  "unwhiten_at codec out pos byte_num =
     (if use_whiten codec then
        bnd (whiten (drop pos out) (drop pos out) (byte_num * 8) (whiten_state codec)) (\<lambda>(ys, st).
        Inr (codec\<lparr>whiten_state := st\<rparr>, take pos out @ ys))
      else Inr (codec, out))"

text \<open>The part of \<open>bbcodec_decode_chunk\<close> behind its guards.\<close>

definition decode_chunk_body ::
    "bbcodec \<Rightarrow> bbcodec_types \<Rightarrow> nat \<Rightarrow> nat \<Rightarrow> u8 list \<Rightarrow> u8 list \<Rightarrow> (chunk_rc \<times> bbcodec \<times> u8 list) res" where
  "decode_chunk_body codec t byte_num in_bitlen out in_data =
     (let first_chunk = (coded_pos codec = 0); pos = coded_pos codec in
      bnd (window pos (\<lambda>o'. if has_fec23 t then unfec23 o' in_data (air_off_b codec) (8 * byte_num)
                            else null_decode o' in_data (air_off_b codec) byte_num) out) (\<lambda>out.
      bnd (unwhiten_at codec out pos byte_num) (\<lambda>(codec, out).
      bnd (let codec = codec\<lparr>air_off_b := air_off_b codec + in_bitlen, coded_pos := coded_pos codec + byte_num\<rparr> in
           if first_chunk then bbcodec_calc_payload_length codec (Some out) else Inr codec) (\<lambda>codec.
      bnd (if \<not> rx_raw codec \<and> has_crc t then bbcodec_decode_update_crc codec out else Inr codec) (\<lambda>codec.
      Inr (if coded_pos codec \<ge> coded_total codec then Bbcodec_done else Bbcodec_more, codec, out))))))"

definition bbcodec_decode_chunk ::
    "bbcodec \<Rightarrow> u8 list \<Rightarrow> u8 list \<Rightarrow> nat \<Rightarrow> (chunk_rc \<times> bbcodec \<times> u8 list) res" where
  "bbcodec_decode_chunk codec out in_data in_length =
     bnd (typ_of codec) (\<lambda>t.
     if payload_bytes t = 0 then Inr (Bbcodec_done, codec, out)
     else if coded_pos codec \<noteq> 0 \<and> coded_total codec = 0 then Inl Die
     else
       let byte_num = (if coded_pos codec = 0 then CODEC_RX_CHUNK_SIZE
                       else min CODEC_RX_CHUNK_SIZE (usub (coded_total codec) (coded_pos codec))) in
       if byte_num = 0 then Inr (Bbcodec_done, codec, out)
       else
         let bit_av = int (in_length * 8) - int (air_off_b codec);
             in_bitlen = (if has_fec23 t then 12 * byte_num else 8 * byte_num) in
         if bit_av < 0 then Inl Die
         else if bit_av < int in_bitlen then Inr (Bbcodec_short, codec, out)
         else decode_chunk_body codec t byte_num in_bitlen out in_data)"

text \<open>Result: the flags, and the size written to \<open>*out_size\<close>.\<close>

definition bbcodec_decode_finalize :: "bbcodec \<Rightarrow> u8 list \<Rightarrow> (u8 \<times> u16) res" where
  "bbcodec_decode_finalize codec out =
     bnd (typ_of codec) (\<lambda>t.
     if coded_pos codec < coded_total codec then Inl Die
     else if \<not> rx_raw codec \<and> has_crc t then
       bnd (rd out (usub (coded_total codec) 2)) (\<lambda>lo.
       bnd (rd out (usub (coded_total codec) 1)) (\<lambda>hi.
       let crc = (ucast lo :: u16) OR push_bit 8 (ucast hi) in
       Inr (if crc \<noteq> crc_state codec then 0 else push_bit 3 1, of_nat (usub (coded_total codec) 2))))
     else Inr (0, of_nat (coded_total codec)))"

section \<open>Header lemmas\<close>

lemma length_acl_types: "length bbcodec_acl_types = 16"
  by (simp add: bbcodec_acl_types_def)

text \<open>Header bytes whose six top bits are clear.\<close>

definition hdr18 :: "u8 list \<Rightarrow> bool" where
  "hdr18 h \<longleftrightarrow> length h = 3 \<and> (\<forall>q. 18 \<le> q \<longrightarrow> q < 24 \<longrightarrow> \<not> bitat h q)"

lemma hdr18_eqI: "hdr18 g \<Longrightarrow> hdr18 h \<Longrightarrow> (\<And>q. q < 18 \<Longrightarrow> bitat g q = bitat h q) \<Longrightarrow> g = h"
  unfolding hdr18_def by (rule bytes_eqI) (auto simp: not_less [symmetric])

definition after_hdr :: "bbcodec \<Rightarrow> u8" where
  "after_hdr c = (if use_whiten c then (wstep ^^ 18) (whiten_state c AND 0x7f) else whiten_state c)"

lemma unwhiten_hdr_spec:
  assumes "length h = 3" and plain: "\<not> use_whiten c \<Longrightarrow> hdr18 h"
  shows "\<exists>g. unwhiten_hdr c h = Inr (g, c\<lparr>whiten_state := after_hdr c\<rparr>) \<and> hdr18 g \<and>
    (\<forall>q < 18. bitat g q = (bitat h q \<noteq> (use_whiten c \<and> keybit (whiten_state c AND 0x7f) q)))"
proof (cases "use_whiten c")
  case True
  obtain g where g: "whiten h h 18 (whiten_state c) = Inr (g, (wstep ^^ 18) (whiten_state c AND 0x7f))"
    "length g = length h"
    "\<And>j. bitat g j = (if j < 18 then bitat h j \<noteq> keybit (whiten_state c AND 0x7f) j
                        else if j < 8 * ((18 + 7) div 8) then False else bitat h j)"
    using whiten_spec [of 18 h h "whiten_state c"] assms(1) by auto
  then have "hdr18 g" using assms(1) by (simp add: hdr18_def)
  then show ?thesis using g True by (auto simp: unwhiten_hdr_def after_hdr_def)
next
  case False
  then have "unwhiten_hdr c h = Inr (h, c\<lparr>whiten_state := after_hdr c\<rparr>)"
    by (simp add: unwhiten_hdr_def after_hdr_def)
  then show ?thesis using plain False by blast
qed

lemma bit_header_word:
  "bit (header_word c h) j \<longleftrightarrow>
    (if j < 3 then bit (lt_addr h) j else if j < 7 then bit (btype h) (j - 3)
     else if j < 10 then bit (flags h) (j - 7)
     else j < 18 \<and> bit (hec_compute (ucast (take_bit 10 (header_word c h))) (uap c)) (j - 10))"
proof -
  define x :: u32 where "x = ucast (7 AND lt_addr h) OR push_bit 3 (ucast (0xf AND btype h)) OR push_bit 7 (ucast (7 AND flags h))"
  have bx: "bit x j \<longleftrightarrow> (if j < 3 then bit (lt_addr h) j else if j < 7 then bit (btype h) (j - 3)
     else j < 10 \<and> bit (flags h) (j - 7))" for j
    unfolding x_def and_masks by (auto simp: bit_simps)
  have w: "header_word c h = x OR push_bit 10 (ucast (hec_compute (ucast x) (uap c)))"
    by (simp add: header_word_def x_def Let_def or.assoc)
  have "take_bit 10 (header_word c h) = x"
    unfolding w by (rule bit_word_eqI) (auto simp: bit_simps bx)
  then show ?thesis
    unfolding w by (auto simp: bit_simps bx dest: u8_bit_8)
qed

definition hdr_word :: "u8 list \<Rightarrow> u32" where
  "hdr_word hb = ucast (hb ! 0) OR push_bit 8 (ucast (hb ! 1)) OR push_bit 16 (ucast (hb ! 2))"

lemma bit_hdr_word: "hdr18 hb \<Longrightarrow> bit (hdr_word hb) j \<longleftrightarrow> j < 18 \<and> bitat hb j"
proof -
  assume h: "hdr18 hb"
  show ?thesis
  proof (cases "j < 24")
    case True
    define i m where "i = j div 8" and "m = j mod 8"
    have jim: "j = 8 * i + m" and m: "m < 8" by (simp_all add: i_def m_def)
    have "i \<in> {0, 1, 2}" using True jim by auto
    then have "bit (hdr_word hb) j = bit (hb ! i) m"
      using m unfolding hdr_word_def jim by (elim insertE emptyE) (auto simp: bit_simps dest: u8_bit_8)
    moreover have "bitat hb j = bit (hb ! i) m" using bitat_byte [OF m] by (simp only: jim)
    ultimately show ?thesis using h True unfolding hdr18_def by (metis not_le)
  next
    case False
    then have "\<not> bit (hdr_word hb) j" by (auto simp: hdr_word_def bit_simps dest: u8_bit_8)
    then show ?thesis using False by simp
  qed
qed

definition word_bytes3 :: "u32 \<Rightarrow> u8 list" where
  "word_bytes3 w = [ucast (0xff AND w), ucast (0xff AND drop_bit 8 w), ucast (0xff AND drop_bit 16 w)]"

lemma bitat_word_bytes3: "q < 24 \<Longrightarrow> bitat (word_bytes3 w) q = bit w q"
proof -
  assume q: "q < 24"
  define i m where "i = q div 8" and "m = q mod 8"
  have qim: "q = 8 * i + m" and m: "m < 8" by (simp_all add: i_def m_def)
  have "i \<in> {0, 1, 2}" using q qim by auto
  then show ?thesis
    using m unfolding qim bitat_byte [OF m] by (elim insertE emptyE) (auto simp: word_bytes3_def bit_simps and_masks)
qed

lemma calc_payload_length_ok:
  assumes "ct c = Some t" and "2 \<le> length p"
  shows "\<exists>n \<le> payload_bytes t.
    let total = payload_header_bytes t + n + (if has_crc t then 2 else 0) in
    bbcodec_calc_payload_length c (Some p) = Inr (c\<lparr>payload_length := n, coded_total := total,
      air_bytes := (58 + total * (if has_fec23 t then 12 else 8) + 7) div 8\<rparr>)"
proof -
  have "0 < length p" "1 < length p" using assms(2) by linarith+
  then have "\<exists>m. hdr_payload_length t p = Inr m" by (simp add: hdr_payload_length_def del: One_nat_def)
  then obtain m where m: "hdr_payload_length t p = Inr m" ..
  define n where "n = (if rx_raw c then payload_bytes t else if m > payload_bytes t then 0 else m)"
  have "n \<le> payload_bytes t" by (simp add: n_def)
  moreover have "bbcodec_calc_payload_length c (Some p) = Inr (c\<lparr>payload_length := n,
      coded_total := payload_header_bytes t + n + (if has_crc t then 2 else 0),
      air_bytes := (58 + (payload_header_bytes t + n + (if has_crc t then 2 else 0)) * (if has_fec23 t then 12 else 8) + 7) div 8\<rparr>)"
    using assms(1) m by (simp add: bbcodec_calc_payload_length_def typ_of_def Let_def n_def)
  ultimately show ?thesis by (auto simp: Let_def)
qed

lemma decode_header_word:
  assumes "unwhiten_hdr c hb = Inr (g, c')" and "hdr18 g" and g: "hdr_word g = header_word c0 h"
    and "uap c' = uap c0" and "be \<le> 3" and "unfec13_hdr [0, 0, 0] air = Inr (be, hb)"
  shows "bbcodec_decode_header c air = Inr (bbcodec_set_payload_type (c'\<lparr>air_off_b := 58\<rparr>) (0xf AND btype h),
    Some \<lparr>lt_addr = 7 AND lt_addr h, btype = 0xf AND btype h, flags = 7 AND flags h,
      hec = ucast (drop_bit 10 (header_word c0 h))\<rparr>)"
proof -
  let ?w = "header_word c0 h"
  have f: "ucast ((?w AND 0x3ff) AND 7) = 7 AND lt_addr h" "ucast (drop_bit 3 (?w AND 0x3ff) AND 0xf) = 0xf AND btype h"
    "ucast (drop_bit 7 (?w AND 0x3ff) AND 7) = 7 AND flags h"
    by (rule bit_word_eqI; auto simp: bit_simps and_masks bit_header_word)+
  have "hec_compute (ucast (?w AND 0x3ff)) (uap c0) = ucast (drop_bit 10 ?w)"
    by (rule bit_word_eqI) (auto simp: bit_simps and_masks bit_header_word [of c0 h "10 + _"])
  then have "hec_compute (ucast (?w AND 0x3ff)) (uap c') AND 0x7f = 0x7f AND ucast (drop_bit 10 ?w)"
    using assms(4) by (simp add: and.commute)
  then show ?thesis
    unfolding bbcodec_decode_header_def assms(6) bnd_simps case_prod_conv assms(1) Let_def
      hdr_word_def [symmetric] g f
    using assms(5) by simp
qed

text \<open>
  C23. A header encoded for the air decodes to its own fields (cut to their 3, 4 and 3 bits), with the
  packet type of the encoder's codec, when both codecs have the same UAP and whitening state, even
  if up to three of the 18 header bits arrive with one of their three copies wrong.
\<close>

theorem header_roundtrip:
  assumes "trailer < 16" and "10 \<le> length air" and "2 \<le> length p"
    and "uap rxc = uap txc" and "use_whiten rxc = use_whiten txc" and "whiten_state rxc = whiten_state txc"
  shows "\<exists>txc' air'. bbcodec_encode_header txc air h trailer (Some p) = Inr (txc', air') \<and> length air' = length air \<and>
    (\<forall>rx. length rx = length air' \<longrightarrow>
      (\<forall>i < 18. card {j. j < 3 \<and> bitat rx (4 + 3 * i + j) \<noteq> bitat air' (4 + 3 * i + j)} \<le> 1) \<longrightarrow>
      card {i. i < 18 \<and> (\<exists>j < 3. bitat rx (4 + 3 * i + j) \<noteq> bitat air' (4 + 3 * i + j))} \<le> 3 \<longrightarrow>
      (\<exists>rxc' h'. bbcodec_decode_header rxc rx = Inr (rxc', Some h') \<and> ct rxc' = ct txc' \<and>
        whiten_state rxc' = whiten_state txc' \<and> air_off_b rxc' = air_off_b txc' \<and>
        lt_addr h' = 7 AND lt_addr h \<and> btype h' = 0xf AND btype h \<and> flags h' = 7 AND flags h))"
proof -
  let ?w = "header_word txc h"
  let ?hb = "word_bytes3 ?w"
  have hb: "length ?hb = 3" "hdr18 ?hb" by (auto simp: hdr18_def word_bytes3_def bitat_word_bytes3 [unfolded word_bytes3_def] bit_header_word)
  define st where "st = after_hdr txc"
  have st_rx: "after_hdr rxc = st" using assms(5,6) by (simp add: st_def after_hdr_def)
  obtain g where g: "unwhiten_hdr txc ?hb = Inr (g, txc\<lparr>whiten_state := st\<rparr>)" "hdr18 g"
    and gb: "\<forall>q < 18. bitat g q = (bitat ?hb q \<noteq> (use_whiten txc \<and> keybit (whiten_state txc AND 0x7f) q))"
    using unwhiten_hdr_spec [of ?hb txc] hb st_def by blast
  let ?ini = "air[0 := trailer]"
  have "clean ?ini 4"
  proof -
    have "bit trailer q \<Longrightarrow> q < 4" for q
      using low_bits [of trailer 4 q] assms(1) by (simp add: word_less_nat_alt)
    moreover have "air[0 := trailer] ! 0 = trailer" using assms(2) by (intro nth_list_update_eq) linarith
    ultimately show ?thesis by (auto simp: clean_def align8_def bitat_def not_le [symmetric])
  qed
  have g3: "length g = 3" using g(2) by (simp add: hdr18_def)
  let ?air = "putn ?ini 4 24 ((18 + 7) div 8) (rep24 g 18)"
  have enc: "fec13 ?ini g 4 18 = Inr (0, ?air)"
    by (rule fec13_eq) (use \<open>clean ?ini 4\<close> assms(2) g3 in simp_all)
  define c0 where "c0 = bbcodec_set_payload_type (txc\<lparr>whiten_state := st, air_off_b := 58\<rparr>) (btype h)"
  obtain t where t: "ct c0 = Some t" by (simp add: c0_def bbcodec_set_payload_type_def Let_def)
  obtain n tot ab where calc: "bbcodec_calc_payload_length c0 (Some p) =
      Inr (c0\<lparr>payload_length := n, coded_total := tot, air_bytes := ab\<rparr>)"
    using calc_payload_length_ok [OF t assms(3)] by (auto simp: Let_def)
  let ?txc = "c0\<lparr>payload_length := n, coded_total := tot, air_bytes := ab\<rparr>"
  have w0: "wr air 0 trailer = Inr ?ini" using assms(2) by (intro wr_ok) linarith
  have e: "bbcodec_encode_header txc air h trailer (Some p) = Inr (?txc, ?air)"
    using g(1) enc calc w0
    by (simp add: bbcodec_encode_header_def Let_def word_bytes3_def c0_def)
  have dec: "\<exists>rxc' h'. bbcodec_decode_header rxc rx = Inr (rxc', Some h') \<and> ct rxc' = ct ?txc \<and>
        whiten_state rxc' = whiten_state ?txc \<and> air_off_b rxc' = air_off_b ?txc \<and>
        lt_addr h' = 7 AND lt_addr h \<and> btype h' = 0xf AND btype h \<and> flags h' = 7 AND flags h"
    if len: "length rx = length ?air"
      and err: "\<forall>i < 18. card {j. j < 3 \<and> bitat rx (4 + 3 * i + j) \<noteq> bitat ?air (4 + 3 * i + j)} \<le> 1"
      and tot: "card {i. i < 18 \<and> (\<exists>j < 3. bitat rx (4 + 3 * i + j) \<noteq> bitat ?air (4 + 3 * i + j))} \<le> 3" for rx
  proof -
    have evn: "even (18 :: nat)" by simp
    have room: "4 + 24 * ((18 + 7) div 8) \<le> 8 * length ?ini" using assms(2) by simp
    note maj = fec13_receive(1) [OF evn room err]
    have "mkbytes 3 (\<lambda>q. q < 18 \<and> maj_at rx (4 + 3 * q)) = g"
      by (rule hdr18_eqI [OF _ g(2)]) (auto simp: hdr18_def maj)
    moreover have "8 \<le> length rx" using len assms(2) by simp
    ultimately have u: "unfec13_hdr [0, 0, 0] rx = Inr (int (bad_sum rx 4 18), g)"
      using unfec13_hdr_eq [of rx "[0, 0, 0]"] by simp
    have be: "int (bad_sum rx 4 18) \<le> 3" using fec13_receive(2) [OF evn room err] tot by simp
    obtain k where k: "unwhiten_hdr rxc g = Inr (k, rxc\<lparr>whiten_state := st\<rparr>)" "hdr18 k"
      and kb: "\<forall>q < 18. bitat k q = (bitat g q \<noteq> (use_whiten rxc \<and> keybit (whiten_state rxc AND 0x7f) q))"
      using unwhiten_hdr_spec [OF g3, of rxc] g(2) st_rx by auto
    have "k = ?hb"
      by (rule hdr18_eqI [OF k(2) hb(2)]) (use gb kb assms(5,6) in auto)
    then have "hdr_word k = ?w"
      by (intro bit_word_eqI)
        (use k(2) in \<open>auto simp: bit_hdr_word bitat_word_bytes3 bit_header_word\<close>)
    from decode_header_word [OF k(1,2) this _ be u] assms(4)
    show ?thesis
      by (simp add: c0_def bbcodec_set_payload_type_def and.commute Let_def) (simp add: and.left_commute)
  qed
  show ?thesis using e dec by (intro exI [of _ ?txc] exI [of _ ?air]) auto
qed

definition demo_codec :: bbcodec where
  "demo_codec = bbcodec_init 0x55 0x47 True False"

theorem header_roundtrip_witness:
  "\<exists>txc' air'. bbcodec_encode_header demo_codec (replicate 10 0) \<lparr>lt_addr = 1, btype = 4, flags = 5, hec = 0\<rparr> 0xa (Some [0x10, 0x20])
      = Inr (txc', air') \<and> length air' = length (replicate 10 (0 :: u8)) \<and>
    (\<forall>rx. length rx = length air' \<longrightarrow>
      (\<forall>i < 18. card {j. j < 3 \<and> bitat rx (4 + 3 * i + j) \<noteq> bitat air' (4 + 3 * i + j)} \<le> 1) \<longrightarrow>
      card {i. i < 18 \<and> (\<exists>j < 3. bitat rx (4 + 3 * i + j) \<noteq> bitat air' (4 + 3 * i + j))} \<le> 3 \<longrightarrow>
      (\<exists>rxc' h'. bbcodec_decode_header demo_codec rx = Inr (rxc', Some h') \<and> ct rxc' = ct txc' \<and>
        whiten_state rxc' = whiten_state txc' \<and> air_off_b rxc' = air_off_b txc' \<and>
        lt_addr h' = 7 AND lt_addr \<lparr>lt_addr = 1, btype = 4, flags = 5, hec = 0\<rparr> \<and>
        btype h' = 0xf AND btype \<lparr>lt_addr = 1, btype = 4, flags = 5, hec = 0\<rparr> \<and>
        flags h' = 7 AND flags \<lparr>lt_addr = 1, btype = 4, flags = 5, hec = 0\<rparr>))"
  by (rule header_roundtrip) simp_all

section \<open>The running CRC of the decoder\<close>

text \<open>
  Between chunks the decoder has taken the CRC, from start value \<open>init\<close>, of the bytes decoded so far
  that are not the packet's own CRC.
\<close>

definition crc_inv :: "u16 \<Rightarrow> bbcodec \<Rightarrow> u8 list \<Rightarrow> bool" where
  "crc_inv init c out \<longleftrightarrow>
     (coded_pos c = 0 \<longrightarrow> crc_pos c = 0) \<and>
     (coded_pos c \<noteq> 0 \<longrightarrow> 2 \<le> coded_total c \<and> coded_total c < 65536 \<and>
        crc_pos c = min (coded_total c - 2) (coded_pos c)) \<and>
     crc_state c = crc_spec (take (crc_pos c) out) init"

lemma crc_compute_Inr: "crc_compute inp n crc = Inr x \<Longrightarrow> n \<le> length inp \<and> x = crc_spec (take n inp) crc"
proof -
  assume a: "crc_compute inp n crc = Inr x"
  have "n \<le> length inp"
  proof (rule ccontr)
    assume "\<not> n \<le> length inp"
    then obtain m where n: "n = Suc m" and m: "length inp \<le> m" by (cases n) auto
    have "bnd (loop m f crc) (\<lambda>crc. bnd (rd inp m) (\<lambda>b. g b crc)) \<noteq> Inr x" for f g
      using m by (cases "loop m f crc") simp_all
    then show False using a by (auto simp: crc_compute_def n guard_Inr_iff)
  qed
  then show ?thesis using a crc_compute_spec [of n inp crc] by (cases "n < 65536") (auto simp: crc_compute_def)
qed

lemma usub_le: "b \<le> a \<Longrightarrow> a < 2 ^ 32 \<Longrightarrow> usub a b = a - b"
proof -
  assume "b \<le> a" and a: "a < 2 ^ 32"
  then have eq: "a + 2 ^ 32 - b = (a - b) + 2 ^ 32" by linarith
  have "usub a b = (a - b) mod 2 ^ 32" unfolding usub_def eq by (rule mod_add_self2)
  then show ?thesis using a by (metis less_imp_diff_less mod_less)
qed

lemma update_crc_inv:
  assumes r: "bbcodec_decode_update_crc c out = Inr c'" and tot: "2 \<le> coded_total c" "coded_total c < 65536"
    and pos: "crc_pos c \<le> min (coded_total c - 2) (coded_pos c)"
    and st: "crc_state c = crc_spec (take (crc_pos c) out) init" and "coded_pos c \<noteq> 0"
  shows "crc_inv init c' out"
proof -
  let ?m = "min (coded_total c - 2) (coded_pos c)"
  have m: "usub (min (usub (coded_total c) 2) (coded_pos c)) (crc_pos c) = ?m - crc_pos c"
    using tot pos by (simp add: usub_le)
  have m16: "?m < 65536" using tot by simp
  show ?thesis
  proof (cases "?m - crc_pos c = 0")
    case True
    then have "c' = c" "crc_pos c = ?m" using r pos unfolding bbcodec_decode_update_crc_def m Let_def by simp_all
    then show ?thesis using st tot assms(6) by (simp add: crc_inv_def)
  next
    case False
    then obtain x where x: "crc_compute (drop (crc_pos c) out) (?m - crc_pos c) (crc_state c) = Inr x"
      and c': "c' = c\<lparr>crc_state := x, crc_pos := (crc_pos c + (?m - crc_pos c)) mod 2 ^ 16\<rparr>"
      using r unfolding bbcodec_decode_update_crc_def m Let_def by (auto simp: bnd_Inr_iff)
    have "take ?m out = take (crc_pos c) out @ take (?m - crc_pos c) (drop (crc_pos c) out)"
      using pos by (metis le_add_diff_inverse take_add)
    then have "x = crc_spec (take ?m out) init"
      using crc_compute_Inr [OF x] st by (simp add: crc_spec_append)
    then show ?thesis using c' pos m16 tot assms(6) by (simp add: crc_inv_def)
  qed
qed

lemma calc_payload_length_total:
  assumes "bbcodec_calc_payload_length c p = Inr c'" and "ct c = Some t" and "t \<in> set bbcodec_acl_types" and "has_crc t"
  shows "2 \<le> coded_total c'" and "coded_total c' < 65536" and "crc_pos c' = crc_pos c" and "crc_state c' = crc_state c"
    and "coded_pos c' = coded_pos c" and "rx_raw c' = rx_raw c" and "ct c' = ct c"
proof -
  have b: "payload_bytes t \<le> 339" "payload_header_bytes t \<le> 2"
    using assms(3) by (auto simp: bbcodec_acl_types_def bbtype_def)
  let ?A = "payload_bytes t \<noteq> 0 \<and> p = None"
  let ?B = "if rx_raw c then Inr (payload_bytes t)
            else bnd (hdr_payload_length t (case p of None \<Rightarrow> [] | Some p \<Rightarrow> p)) (\<lambda>n.
              Inr (if n > payload_bytes t then 0 else n))"
  have e: "(if ?A then Inl Die else bnd ?B (\<lambda>n. let total = payload_header_bytes t + n + (if has_crc t then 2 else 0);
           payload_bits = (if has_fec23 t then total * 12 else total * 8) in
       Inr (c\<lparr>payload_length := n, coded_total := total, air_bytes := (58 + payload_bits + 7) div 8\<rparr>))) = Inr c'"
    using assms(1) unfolding bbcodec_calc_payload_length_def typ_of_def assms(2) option.case bnd_simps .
  then have "\<not> ?A" by (rule contrapos_pn) simp
  with e obtain n where n: "?B = Inr n" and c': "c' = c\<lparr>payload_length := n, coded_total := payload_header_bytes t + n + 2,
      air_bytes := (58 + (if has_fec23 t then (payload_header_bytes t + n + 2) * 12 else (payload_header_bytes t + n + 2) * 8) + 7) div 8\<rparr>"
    using assms(4) by (simp only: if_False Let_def if_True) (erule bnd_InrE, simp)
  have "n \<le> payload_bytes t"
  proof (cases "rx_raw c")
    case False
    then have "bnd (hdr_payload_length t (case p of None \<Rightarrow> [] | Some p \<Rightarrow> p)) (\<lambda>n.
              Inr (if n > payload_bytes t then 0 else n)) = Inr n" using n by simp
    then show ?thesis by (rule bnd_InrE) (auto split: if_split_asm)
  qed (use n in simp)
  then show "2 \<le> coded_total c'" "coded_total c' < 65536" "crc_pos c' = crc_pos c" "crc_state c' = crc_state c"
    "coded_pos c' = coded_pos c" "rx_raw c' = rx_raw c" "ct c' = ct c"
    using b unfolding c' by simp_all
qed

lemma window_prefix: "window k f xs = Inr ys \<Longrightarrow> n \<le> k \<Longrightarrow> take n ys = take n xs \<and> k \<le> length ys"
  by (auto simp: window_def bnd_Inr_iff split: if_splits)

lemma unwhiten_at_Inr:
  assumes "unwhiten_at c out pos n = Inr (c', out')"
  shows "c' = c\<lparr>whiten_state := whiten_state c'\<rparr>" and "m \<le> pos \<Longrightarrow> pos \<le> length out \<Longrightarrow> take m out' = take m out"
  using assms by (auto simp: unwhiten_at_def bnd_Inr_iff split: if_splits prod.splits)

lemma decode_chunk_cases:
  assumes "ct c = Some t" and "bbcodec_decode_chunk c out air len = Inr (rc, c', out')"
  shows "(c' = c \<and> out' = out) \<or> (\<exists>bn bl. bn \<noteq> 0 \<and> decode_chunk_body c t bn bl out air = Inr (rc, c', out'))"
proof -
  define bn where "bn = (if coded_pos c = 0 then CODEC_RX_CHUNK_SIZE
    else min CODEC_RX_CHUNK_SIZE (usub (coded_total c) (coded_pos c)))"
  define bl where "bl = (if has_fec23 t then 12 * bn else 8 * bn)"
  note r = assms(2) [unfolded bbcodec_decode_chunk_def typ_of_def assms(1) option.case bnd_simps Let_def
    bn_def [symmetric] bl_def [symmetric]]
  show ?thesis
  proof (cases "bn = 0")
    case True
    then show ?thesis using r by (simp split: if_split_asm)
  next
    case False
    then show ?thesis using r by (simp split: if_split_asm) blast+
  qed
qed

lemma decode_chunk_body_crc:
  assumes t: "ct c = Some t" "t \<in> set bbcodec_acl_types" "has_crc t" "\<not> rx_raw c" and inv: "crc_inv init c out"
    and bn: "bn \<noteq> 0" and r: "decode_chunk_body c t bn bl out air = Inr (rc, c', out')"
  shows "crc_inv init c' out' \<and> ct c' = Some t \<and> \<not> rx_raw c'"
proof -
  let ?W = "window (coded_pos c) (\<lambda>o'. if has_fec23 t then unfec23 o' air (air_off_b c) (8 * bn)
                                   else null_decode o' air (air_off_b c) bn) out"
  obtain out1 where w: "?W = Inr out1"
    and r1: "bnd (unwhiten_at c out1 (coded_pos c) bn) (\<lambda>(codec, out).
      bnd (let codec = codec\<lparr>air_off_b := air_off_b codec + bl, coded_pos := coded_pos codec + bn\<rparr> in
           if coded_pos c = 0 then bbcodec_calc_payload_length codec (Some out) else Inr codec) (\<lambda>codec.
      bnd (if \<not> rx_raw codec \<and> has_crc t then bbcodec_decode_update_crc codec out else Inr codec) (\<lambda>codec.
      Inr (if coded_pos codec \<ge> coded_total codec then Bbcodec_done else Bbcodec_more, codec, out)))) = Inr (rc, c', out')"
    by (rule bnd_InrE [OF r [unfolded decode_chunk_body_def Let_def [of "coded_pos c = 0"] Let_def [of "coded_pos c"]]])
  obtain x where "unwhiten_at c out1 (coded_pos c) bn = Inr x" by (rule bnd_InrE [OF r1])
  then obtain c2 out2 where uw: "unwhiten_at c out1 (coded_pos c) bn = Inr (c2, out2)" by (cases x) simp
  obtain st where c2: "c2 = c\<lparr>whiten_state := st\<rparr>" using unwhiten_at_Inr(1) [OF uw] by blast
  let ?c3 = "c2\<lparr>air_off_b := air_off_b c2 + bl, coded_pos := coded_pos c2 + bn\<rparr>"
  obtain c4 where c4: "(if coded_pos c = 0 then bbcodec_calc_payload_length ?c3 (Some out2) else Inr ?c3) = Inr c4"
    and r2: "bnd (if \<not> rx_raw c4 \<and> has_crc t then bbcodec_decode_update_crc c4 out2 else Inr c4) (\<lambda>codec.
      Inr (if coded_pos codec \<ge> coded_total codec then Bbcodec_done else Bbcodec_more, codec, out2)) = Inr (rc, c', out')"
    by (rule bnd_InrE [OF r1 [unfolded uw bnd_simps case_prod_conv Let_def]])
  have pre: "2 \<le> coded_total c4" "coded_total c4 < 65536" "crc_pos c4 = crc_pos c" "crc_state c4 = crc_state c"
    "coded_pos c4 = coded_pos c + bn" "rx_raw c4 = rx_raw c" "coded_pos c \<noteq> 0 \<Longrightarrow> coded_total c4 = coded_total c"
    "ct c4 = Some t"
  proof -
    have "2 \<le> coded_total c4 \<and> coded_total c4 < 65536 \<and> crc_pos c4 = crc_pos c \<and> crc_state c4 = crc_state c \<and>
      coded_pos c4 = coded_pos c + bn \<and> rx_raw c4 = rx_raw c \<and> (coded_pos c \<noteq> 0 \<longrightarrow> coded_total c4 = coded_total c) \<and>
      ct c4 = Some t"
    proof (cases "coded_pos c = 0")
      case True
      then have calc: "bbcodec_calc_payload_length ?c3 (Some out2) = Inr c4" using c4 by simp
      have "ct ?c3 = Some t" using c2 t(1) by simp
      from calc_payload_length_total [OF calc this t(2,3)] show ?thesis using True c2 t(1) by simp
    next
      case False
      then have "c4 = ?c3" using c4 by simp
      then show ?thesis using False c2 inv t(1) by (simp add: crc_inv_def)
    qed
    then show "2 \<le> coded_total c4" "coded_total c4 < 65536" "crc_pos c4 = crc_pos c" "crc_state c4 = crc_state c"
      "coded_pos c4 = coded_pos c + bn" "rx_raw c4 = rx_raw c" "coded_pos c \<noteq> 0 \<Longrightarrow> coded_total c4 = coded_total c"
      "ct c4 = Some t" by simp_all
  qed
  obtain c5 where c5: "bbcodec_decode_update_crc c4 out2 = Inr c5" and fin: "c' = c5" "out' = out2"
    using r2 pre(6) t(3,4) by (auto elim!: bnd_InrE)
  have ple: "crc_pos c \<le> coded_pos c" using inv by (auto simp: crc_inv_def)
  have "take (crc_pos c) out1 = take (crc_pos c) out" "coded_pos c \<le> length out1"
    using window_prefix [OF w ple] by simp_all
  then have same: "take (crc_pos c) out2 = take (crc_pos c) out"
    using unwhiten_at_Inr(2) [OF uw ple] by simp
  have "crc_inv init c5 out2"
  proof (rule update_crc_inv [OF c5 pre(1,2)])
    show "crc_pos c4 \<le> min (coded_total c4 - 2) (coded_pos c4)"
      using inv pre by (cases "coded_pos c = 0") (auto simp: crc_inv_def)
    show "crc_state c4 = crc_spec (take (crc_pos c4) out2) init"
      using inv same pre by (simp add: crc_inv_def)
    show "coded_pos c4 \<noteq> 0" using pre(5) bn by simp
  qed
  moreover have "ct c5 = ct c4 \<and> rx_raw c5 = rx_raw c4"
    using c5 unfolding bbcodec_decode_update_crc_def Let_def by (auto elim!: bnd_InrE split: if_split_asm)
  ultimately show ?thesis using fin pre t(4) by simp
qed

text \<open>Decoding as the receiver does it: chunks until the codec has seen the whole payload.\<close>

inductive decode_run :: "nat \<Rightarrow> u8 list \<Rightarrow> bbcodec \<Rightarrow> u8 list \<Rightarrow> bbcodec \<Rightarrow> u8 list \<Rightarrow> bool" for len air where
  run_refl: "decode_run len air c out c out"
| run_step: "bbcodec_decode_chunk c out air len = Inr (rc, c', out') \<Longrightarrow> decode_run len air c' out' c'' out'' \<Longrightarrow>
    decode_run len air c out c'' out''"

lemma decode_run_crc:
  assumes "decode_run len air c out c' out'" and "ct c = Some t" and "t \<in> set bbcodec_acl_types" and "has_crc t"
    and "\<not> rx_raw c" and "crc_inv init c out"
  shows "crc_inv init c' out' \<and> ct c' = Some t \<and> \<not> rx_raw c'"
  using assms
proof (induction rule: decode_run.induct)
  case (run_step c out rc c1 out1 c2 out2)
  have "crc_inv init c1 out1 \<and> ct c1 = Some t \<and> \<not> rx_raw c1"
    using decode_chunk_cases [OF run_step.prems(1) run_step.hyps(1)] run_step.prems
      decode_chunk_body_crc [OF run_step.prems(1,2,3,4,5)] by blast
  then show ?case using run_step by blast
qed simp

text \<open>
  C24. After any number of chunks, \<open>bbcodec_decode_finalize\<close> sets the good-CRC flag exactly when the two
  bytes behind the decoded payload are the CRC of that payload, from the start value the codec was
  set up with, and it returns the payload's size.
\<close>

theorem decode_crc_flag:
  assumes "ct c = Some t" and "t \<in> set bbcodec_acl_types" and "has_crc t" and "\<not> rx_raw c"
    and "coded_pos c = 0" and "crc_pos c = 0"
    and "decode_run len air c out c' out'" and "coded_pos c' \<noteq> 0"
    and "bbcodec_decode_finalize c' out' = Inr (fl, sz)"
  shows "sz = of_nat (coded_total c' - 2) \<and>
    (bit fl 3 \<longleftrightarrow> (ucast (out' ! (coded_total c' - 2)) :: u16) OR push_bit 8 (ucast (out' ! (coded_total c' - 1)))
      = crc_spec (take (coded_total c' - 2) out') (crc_state c))"
proof -
  have inv: "crc_inv (crc_state c) c' out'" and ct': "ct c' = Some t" "\<not> rx_raw c'"
    using decode_run_crc [OF assms(7,1,2,3,4)] assms(5,6) by (auto simp: crc_inv_def crc_spec_def)
  have tot: "2 \<le> coded_total c'" "coded_total c' < 65536" using inv assms(8) by (simp_all add: crc_inv_def)
  then have u: "usub (coded_total c') 2 = coded_total c' - 2" "usub (coded_total c') 1 = coded_total c' - 1"
    by (simp_all add: usub_le)
  have fin: "\<not> coded_pos c' < coded_total c'"
    using assms(9) ct' by (auto simp: bbcodec_decode_finalize_def typ_of_def)
  then have st: "crc_state c' = crc_spec (take (coded_total c' - 2) out') (crc_state c)"
    using inv assms(8) by (simp add: crc_inv_def min_absorb1)
  have "coded_total c' - 1 < length out'" "coded_total c' - 2 < length out'"
    using assms(9) ct' fin assms(3) unfolding bbcodec_decode_finalize_def typ_of_def u
    by (auto elim!: bnd_InrE simp: rd_Inr_iff)
  then show ?thesis
    using assms(9) ct' fin assms(3) unfolding bbcodec_decode_finalize_def typ_of_def u st [symmetric]
    by (auto simp: bit_simps split: if_splits)
qed

definition demo_rx :: bbcodec where
  "demo_rx = (bbcodec_init 0 0 False False)\<lparr>ct := Some (bbcodec_acl_types ! 4), air_off_b := 58\<rparr>"

lemma replicate_update: "(replicate n x)[i := x] = replicate n x"
  by (cases "i < n") (auto intro!: nth_equalityI simp: nth_list_update)

lemma demo_chunk: "\<exists>c'. bbcodec_decode_chunk demo_rx (replicate 12 0) (replicate 18 0) 18 = Inr (Bbcodec_done, c', replicate 12 0) \<and>
   coded_pos c' = 10 \<and> coded_total c' = 3 \<and> crc_state c' = 0 \<and> ct c' = Some (bbcodec_acl_types ! 4) \<and> rx_raw c' = False"
proof -
  have nd: "null_decode (replicate 12 0) (replicate 18 0) 58 10 = Inr (replicate 12 0)"
    by (simp add: null_decode_def Let_def loop_numeral replicate_update drop_replicate u8_of)
  have crc: "crc_compute (replicate 12 0) 1 0 = Inr 0"
    by (simp add: crc_compute_def crc_tbl_def)
  show ?thesis
    using nd crc
    by (simp add: bbcodec_decode_chunk_def decode_chunk_body_def typ_of_def demo_rx_def bbcodec_init_def bbcodec_acl_types_def
        bbtype_def CODEC_RX_CHUNK_SIZE_def window_def unwhiten_at_def bbcodec_calc_payload_length_def hdr_payload_length_def
        bbcodec_decode_update_crc_def usub_def Let_def reverse8_def rev8_map_def)
qed

theorem decode_crc_flag_witness:
  "\<exists>c' sz fl. decode_run 18 (replicate 18 0) demo_rx (replicate 12 0) c' (replicate 12 0) \<and>
    bbcodec_decode_finalize c' (replicate 12 0) = Inr (fl, sz) \<and> sz = of_nat (coded_total c' - 2) \<and>
    (bit fl 3 \<longleftrightarrow> (ucast (replicate 12 (0 :: u8) ! (coded_total c' - 2)) :: u16) OR push_bit 8 (ucast (replicate 12 (0 :: u8) ! (coded_total c' - 1)))
      = crc_spec (take (coded_total c' - 2) (replicate 12 0)) (crc_state demo_rx))"
proof -
  obtain c' where c: "bbcodec_decode_chunk demo_rx (replicate 12 0) (replicate 18 0) 18 = Inr (Bbcodec_done, c', replicate 12 0)"
    "coded_pos c' = 10" "coded_total c' = 3" "crc_state c' = 0" "ct c' = Some (bbcodec_acl_types ! 4)" "rx_raw c' = False"
    using demo_chunk by blast
  have run: "decode_run 18 (replicate 18 0) demo_rx (replicate 12 0) c' (replicate 12 0)"
    by (rule run_step [OF c(1) run_refl])
  have "bbcodec_decode_finalize c' (replicate 12 0) = Inr (8, 1)"
    by (simp add: bbcodec_decode_finalize_def typ_of_def c usub_def bbcodec_acl_types_def bbtype_def)
  moreover from decode_crc_flag [OF _ _ _ _ _ _ run _ this, of "bbcodec_acl_types ! 4"]
  have "1 = (of_nat (coded_total c' - 2) :: u16) \<and> (bit (8 :: u8) 3 \<longleftrightarrow>
      (ucast (replicate 12 (0 :: u8) ! (coded_total c' - 2)) :: u16) OR push_bit 8 (ucast (replicate 12 (0 :: u8) ! (coded_total c' - 1)))
      = crc_spec (take (coded_total c' - 2) (replicate 12 0)) (crc_state demo_rx))"
    using c(2) by (simp add: demo_rx_def bbcodec_init_def bbcodec_acl_types_def bbtype_def)
  ultimately show ?thesis using run by blast
qed

end
