(* ===== verification/Perm5Tab.thy ===== *)
theory Perm5Tab
  imports Linear
begin

text \<open>
  The lookup table \<open>perm5_lut\<close> of src/codec/perm5.c (2 times 4096 bytes), one definition for every
  sixteen lines of the source, and what it holds: block \<open>p\<close> of half \<open>h\<close> is the permutation
  of five bits by the seven control bits \<open>p\<close> of that half.  The blocks are linear tables, whose bases
  are built by one exchange per control bit; each literal is checked against that.
\<close>

section \<open>The table\<close>

definition perm5_lut_0_0 :: "u8 list" where
  "perm5_lut_0_0 = [0x00, 0x01, 0x02, 0x03, 0x04, 0x05, 0x06, 0x07, 0x08, 0x09, 0x0a, 0x0b, 0x0c, 0x0d, 0x0e, 0x0f,
    0x10, 0x11, 0x12, 0x13, 0x14, 0x15, 0x16, 0x17, 0x18, 0x19, 0x1a, 0x1b, 0x1c, 0x1d, 0x1e, 0x1f,
    0x00, 0x01, 0x02, 0x03, 0x04, 0x05, 0x06, 0x07, 0x10, 0x11, 0x12, 0x13, 0x14, 0x15, 0x16, 0x17,
    0x08, 0x09, 0x0a, 0x0b, 0x0c, 0x0d, 0x0e, 0x0f, 0x18, 0x19, 0x1a, 0x1b, 0x1c, 0x1d, 0x1e, 0x1f,
    0x00, 0x01, 0x10, 0x11, 0x04, 0x05, 0x14, 0x15, 0x08, 0x09, 0x18, 0x19, 0x0c, 0x0d, 0x1c, 0x1d,
    0x02, 0x03, 0x12, 0x13, 0x06, 0x07, 0x16, 0x17, 0x0a, 0x0b, 0x1a, 0x1b, 0x0e, 0x0f, 0x1e, 0x1f,
    0x00, 0x01, 0x08, 0x09, 0x04, 0x05, 0x0c, 0x0d, 0x10, 0x11, 0x18, 0x19, 0x14, 0x15, 0x1c, 0x1d,
    0x02, 0x03, 0x0a, 0x0b, 0x06, 0x07, 0x0e, 0x0f, 0x12, 0x13, 0x1a, 0x1b, 0x16, 0x17, 0x1e, 0x1f,
    0x00, 0x08, 0x02, 0x0a, 0x04, 0x0c, 0x06, 0x0e, 0x01, 0x09, 0x03, 0x0b, 0x05, 0x0d, 0x07, 0x0f,
    0x10, 0x18, 0x12, 0x1a, 0x14, 0x1c, 0x16, 0x1e, 0x11, 0x19, 0x13, 0x1b, 0x15, 0x1d, 0x17, 0x1f,
    0x00, 0x10, 0x02, 0x12, 0x04, 0x14, 0x06, 0x16, 0x01, 0x11, 0x03, 0x13, 0x05, 0x15, 0x07, 0x17,
    0x08, 0x18, 0x0a, 0x1a, 0x0c, 0x1c, 0x0e, 0x1e, 0x09, 0x19, 0x0b, 0x1b, 0x0d, 0x1d, 0x0f, 0x1f,
    0x00, 0x08, 0x10, 0x18, 0x04, 0x0c, 0x14, 0x1c, 0x01, 0x09, 0x11, 0x19, 0x05, 0x0d, 0x15, 0x1d,
    0x02, 0x0a, 0x12, 0x1a, 0x06, 0x0e, 0x16, 0x1e, 0x03, 0x0b, 0x13, 0x1b, 0x07, 0x0f, 0x17, 0x1f,
    0x00, 0x10, 0x08, 0x18, 0x04, 0x14, 0x0c, 0x1c, 0x01, 0x11, 0x09, 0x19, 0x05, 0x15, 0x0d, 0x1d,
    0x02, 0x12, 0x0a, 0x1a, 0x06, 0x16, 0x0e, 0x1e, 0x03, 0x13, 0x0b, 0x1b, 0x07, 0x17, 0x0f, 0x1f]"

definition perm5_lut_0_1 :: "u8 list" where
  "perm5_lut_0_1 = [0x00, 0x01, 0x02, 0x03, 0x10, 0x11, 0x12, 0x13, 0x08, 0x09, 0x0a, 0x0b, 0x18, 0x19, 0x1a, 0x1b,
    0x04, 0x05, 0x06, 0x07, 0x14, 0x15, 0x16, 0x17, 0x0c, 0x0d, 0x0e, 0x0f, 0x1c, 0x1d, 0x1e, 0x1f,
    0x00, 0x01, 0x02, 0x03, 0x08, 0x09, 0x0a, 0x0b, 0x10, 0x11, 0x12, 0x13, 0x18, 0x19, 0x1a, 0x1b,
    0x04, 0x05, 0x06, 0x07, 0x0c, 0x0d, 0x0e, 0x0f, 0x14, 0x15, 0x16, 0x17, 0x1c, 0x1d, 0x1e, 0x1f,
    0x00, 0x01, 0x10, 0x11, 0x02, 0x03, 0x12, 0x13, 0x08, 0x09, 0x18, 0x19, 0x0a, 0x0b, 0x1a, 0x1b,
    0x04, 0x05, 0x14, 0x15, 0x06, 0x07, 0x16, 0x17, 0x0c, 0x0d, 0x1c, 0x1d, 0x0e, 0x0f, 0x1e, 0x1f,
    0x00, 0x01, 0x08, 0x09, 0x02, 0x03, 0x0a, 0x0b, 0x10, 0x11, 0x18, 0x19, 0x12, 0x13, 0x1a, 0x1b,
    0x04, 0x05, 0x0c, 0x0d, 0x06, 0x07, 0x0e, 0x0f, 0x14, 0x15, 0x1c, 0x1d, 0x16, 0x17, 0x1e, 0x1f,
    0x00, 0x08, 0x02, 0x0a, 0x10, 0x18, 0x12, 0x1a, 0x01, 0x09, 0x03, 0x0b, 0x11, 0x19, 0x13, 0x1b,
    0x04, 0x0c, 0x06, 0x0e, 0x14, 0x1c, 0x16, 0x1e, 0x05, 0x0d, 0x07, 0x0f, 0x15, 0x1d, 0x17, 0x1f,
    0x00, 0x10, 0x02, 0x12, 0x08, 0x18, 0x0a, 0x1a, 0x01, 0x11, 0x03, 0x13, 0x09, 0x19, 0x0b, 0x1b,
    0x04, 0x14, 0x06, 0x16, 0x0c, 0x1c, 0x0e, 0x1e, 0x05, 0x15, 0x07, 0x17, 0x0d, 0x1d, 0x0f, 0x1f,
    0x00, 0x08, 0x10, 0x18, 0x02, 0x0a, 0x12, 0x1a, 0x01, 0x09, 0x11, 0x19, 0x03, 0x0b, 0x13, 0x1b,
    0x04, 0x0c, 0x14, 0x1c, 0x06, 0x0e, 0x16, 0x1e, 0x05, 0x0d, 0x15, 0x1d, 0x07, 0x0f, 0x17, 0x1f,
    0x00, 0x10, 0x08, 0x18, 0x02, 0x12, 0x0a, 0x1a, 0x01, 0x11, 0x09, 0x19, 0x03, 0x13, 0x0b, 0x1b,
    0x04, 0x14, 0x0c, 0x1c, 0x06, 0x16, 0x0e, 0x1e, 0x05, 0x15, 0x0d, 0x1d, 0x07, 0x17, 0x0f, 0x1f]"

definition perm5_lut_0_2 :: "u8 list" where
  "perm5_lut_0_2 = [0x00, 0x01, 0x08, 0x09, 0x04, 0x05, 0x0c, 0x0d, 0x02, 0x03, 0x0a, 0x0b, 0x06, 0x07, 0x0e, 0x0f,
    0x10, 0x11, 0x18, 0x19, 0x14, 0x15, 0x1c, 0x1d, 0x12, 0x13, 0x1a, 0x1b, 0x16, 0x17, 0x1e, 0x1f,
    0x00, 0x01, 0x10, 0x11, 0x04, 0x05, 0x14, 0x15, 0x02, 0x03, 0x12, 0x13, 0x06, 0x07, 0x16, 0x17,
    0x08, 0x09, 0x18, 0x19, 0x0c, 0x0d, 0x1c, 0x1d, 0x0a, 0x0b, 0x1a, 0x1b, 0x0e, 0x0f, 0x1e, 0x1f,
    0x00, 0x01, 0x08, 0x09, 0x04, 0x05, 0x0c, 0x0d, 0x10, 0x11, 0x18, 0x19, 0x14, 0x15, 0x1c, 0x1d,
    0x02, 0x03, 0x0a, 0x0b, 0x06, 0x07, 0x0e, 0x0f, 0x12, 0x13, 0x1a, 0x1b, 0x16, 0x17, 0x1e, 0x1f,
    0x00, 0x01, 0x10, 0x11, 0x04, 0x05, 0x14, 0x15, 0x08, 0x09, 0x18, 0x19, 0x0c, 0x0d, 0x1c, 0x1d,
    0x02, 0x03, 0x12, 0x13, 0x06, 0x07, 0x16, 0x17, 0x0a, 0x0b, 0x1a, 0x1b, 0x0e, 0x0f, 0x1e, 0x1f,
    0x00, 0x08, 0x01, 0x09, 0x04, 0x0c, 0x05, 0x0d, 0x02, 0x0a, 0x03, 0x0b, 0x06, 0x0e, 0x07, 0x0f,
    0x10, 0x18, 0x11, 0x19, 0x14, 0x1c, 0x15, 0x1d, 0x12, 0x1a, 0x13, 0x1b, 0x16, 0x1e, 0x17, 0x1f,
    0x00, 0x10, 0x01, 0x11, 0x04, 0x14, 0x05, 0x15, 0x02, 0x12, 0x03, 0x13, 0x06, 0x16, 0x07, 0x17,
    0x08, 0x18, 0x09, 0x19, 0x0c, 0x1c, 0x0d, 0x1d, 0x0a, 0x1a, 0x0b, 0x1b, 0x0e, 0x1e, 0x0f, 0x1f,
    0x00, 0x08, 0x01, 0x09, 0x04, 0x0c, 0x05, 0x0d, 0x10, 0x18, 0x11, 0x19, 0x14, 0x1c, 0x15, 0x1d,
    0x02, 0x0a, 0x03, 0x0b, 0x06, 0x0e, 0x07, 0x0f, 0x12, 0x1a, 0x13, 0x1b, 0x16, 0x1e, 0x17, 0x1f,
    0x00, 0x10, 0x01, 0x11, 0x04, 0x14, 0x05, 0x15, 0x08, 0x18, 0x09, 0x19, 0x0c, 0x1c, 0x0d, 0x1d,
    0x02, 0x12, 0x03, 0x13, 0x06, 0x16, 0x07, 0x17, 0x0a, 0x1a, 0x0b, 0x1b, 0x0e, 0x1e, 0x0f, 0x1f]"

definition perm5_lut_0_3 :: "u8 list" where
  "perm5_lut_0_3 = [0x00, 0x01, 0x08, 0x09, 0x10, 0x11, 0x18, 0x19, 0x02, 0x03, 0x0a, 0x0b, 0x12, 0x13, 0x1a, 0x1b,
    0x04, 0x05, 0x0c, 0x0d, 0x14, 0x15, 0x1c, 0x1d, 0x06, 0x07, 0x0e, 0x0f, 0x16, 0x17, 0x1e, 0x1f,
    0x00, 0x01, 0x10, 0x11, 0x08, 0x09, 0x18, 0x19, 0x02, 0x03, 0x12, 0x13, 0x0a, 0x0b, 0x1a, 0x1b,
    0x04, 0x05, 0x14, 0x15, 0x0c, 0x0d, 0x1c, 0x1d, 0x06, 0x07, 0x16, 0x17, 0x0e, 0x0f, 0x1e, 0x1f,
    0x00, 0x01, 0x08, 0x09, 0x02, 0x03, 0x0a, 0x0b, 0x10, 0x11, 0x18, 0x19, 0x12, 0x13, 0x1a, 0x1b,
    0x04, 0x05, 0x0c, 0x0d, 0x06, 0x07, 0x0e, 0x0f, 0x14, 0x15, 0x1c, 0x1d, 0x16, 0x17, 0x1e, 0x1f,
    0x00, 0x01, 0x10, 0x11, 0x02, 0x03, 0x12, 0x13, 0x08, 0x09, 0x18, 0x19, 0x0a, 0x0b, 0x1a, 0x1b,
    0x04, 0x05, 0x14, 0x15, 0x06, 0x07, 0x16, 0x17, 0x0c, 0x0d, 0x1c, 0x1d, 0x0e, 0x0f, 0x1e, 0x1f,
    0x00, 0x08, 0x01, 0x09, 0x10, 0x18, 0x11, 0x19, 0x02, 0x0a, 0x03, 0x0b, 0x12, 0x1a, 0x13, 0x1b,
    0x04, 0x0c, 0x05, 0x0d, 0x14, 0x1c, 0x15, 0x1d, 0x06, 0x0e, 0x07, 0x0f, 0x16, 0x1e, 0x17, 0x1f,
    0x00, 0x10, 0x01, 0x11, 0x08, 0x18, 0x09, 0x19, 0x02, 0x12, 0x03, 0x13, 0x0a, 0x1a, 0x0b, 0x1b,
    0x04, 0x14, 0x05, 0x15, 0x0c, 0x1c, 0x0d, 0x1d, 0x06, 0x16, 0x07, 0x17, 0x0e, 0x1e, 0x0f, 0x1f,
    0x00, 0x08, 0x01, 0x09, 0x02, 0x0a, 0x03, 0x0b, 0x10, 0x18, 0x11, 0x19, 0x12, 0x1a, 0x13, 0x1b,
    0x04, 0x0c, 0x05, 0x0d, 0x06, 0x0e, 0x07, 0x0f, 0x14, 0x1c, 0x15, 0x1d, 0x16, 0x1e, 0x17, 0x1f,
    0x00, 0x10, 0x01, 0x11, 0x02, 0x12, 0x03, 0x13, 0x08, 0x18, 0x09, 0x19, 0x0a, 0x1a, 0x0b, 0x1b,
    0x04, 0x14, 0x05, 0x15, 0x06, 0x16, 0x07, 0x17, 0x0c, 0x1c, 0x0d, 0x1d, 0x0e, 0x1e, 0x0f, 0x1f]"

definition perm5_lut_0_4 :: "u8 list" where
  "perm5_lut_0_4 = [0x00, 0x08, 0x02, 0x0a, 0x04, 0x0c, 0x06, 0x0e, 0x01, 0x09, 0x03, 0x0b, 0x05, 0x0d, 0x07, 0x0f,
    0x10, 0x18, 0x12, 0x1a, 0x14, 0x1c, 0x16, 0x1e, 0x11, 0x19, 0x13, 0x1b, 0x15, 0x1d, 0x17, 0x1f,
    0x00, 0x10, 0x02, 0x12, 0x04, 0x14, 0x06, 0x16, 0x01, 0x11, 0x03, 0x13, 0x05, 0x15, 0x07, 0x17,
    0x08, 0x18, 0x0a, 0x1a, 0x0c, 0x1c, 0x0e, 0x1e, 0x09, 0x19, 0x0b, 0x1b, 0x0d, 0x1d, 0x0f, 0x1f,
    0x00, 0x08, 0x10, 0x18, 0x04, 0x0c, 0x14, 0x1c, 0x01, 0x09, 0x11, 0x19, 0x05, 0x0d, 0x15, 0x1d,
    0x02, 0x0a, 0x12, 0x1a, 0x06, 0x0e, 0x16, 0x1e, 0x03, 0x0b, 0x13, 0x1b, 0x07, 0x0f, 0x17, 0x1f,
    0x00, 0x10, 0x08, 0x18, 0x04, 0x14, 0x0c, 0x1c, 0x01, 0x11, 0x09, 0x19, 0x05, 0x15, 0x0d, 0x1d,
    0x02, 0x12, 0x0a, 0x1a, 0x06, 0x16, 0x0e, 0x1e, 0x03, 0x13, 0x0b, 0x1b, 0x07, 0x17, 0x0f, 0x1f,
    0x00, 0x01, 0x02, 0x03, 0x04, 0x05, 0x06, 0x07, 0x08, 0x09, 0x0a, 0x0b, 0x0c, 0x0d, 0x0e, 0x0f,
    0x10, 0x11, 0x12, 0x13, 0x14, 0x15, 0x16, 0x17, 0x18, 0x19, 0x1a, 0x1b, 0x1c, 0x1d, 0x1e, 0x1f,
    0x00, 0x01, 0x02, 0x03, 0x04, 0x05, 0x06, 0x07, 0x10, 0x11, 0x12, 0x13, 0x14, 0x15, 0x16, 0x17,
    0x08, 0x09, 0x0a, 0x0b, 0x0c, 0x0d, 0x0e, 0x0f, 0x18, 0x19, 0x1a, 0x1b, 0x1c, 0x1d, 0x1e, 0x1f,
    0x00, 0x01, 0x10, 0x11, 0x04, 0x05, 0x14, 0x15, 0x08, 0x09, 0x18, 0x19, 0x0c, 0x0d, 0x1c, 0x1d,
    0x02, 0x03, 0x12, 0x13, 0x06, 0x07, 0x16, 0x17, 0x0a, 0x0b, 0x1a, 0x1b, 0x0e, 0x0f, 0x1e, 0x1f,
    0x00, 0x01, 0x08, 0x09, 0x04, 0x05, 0x0c, 0x0d, 0x10, 0x11, 0x18, 0x19, 0x14, 0x15, 0x1c, 0x1d,
    0x02, 0x03, 0x0a, 0x0b, 0x06, 0x07, 0x0e, 0x0f, 0x12, 0x13, 0x1a, 0x1b, 0x16, 0x17, 0x1e, 0x1f]"

definition perm5_lut_0_5 :: "u8 list" where
  "perm5_lut_0_5 = [0x00, 0x08, 0x02, 0x0a, 0x10, 0x18, 0x12, 0x1a, 0x01, 0x09, 0x03, 0x0b, 0x11, 0x19, 0x13, 0x1b,
    0x04, 0x0c, 0x06, 0x0e, 0x14, 0x1c, 0x16, 0x1e, 0x05, 0x0d, 0x07, 0x0f, 0x15, 0x1d, 0x17, 0x1f,
    0x00, 0x10, 0x02, 0x12, 0x08, 0x18, 0x0a, 0x1a, 0x01, 0x11, 0x03, 0x13, 0x09, 0x19, 0x0b, 0x1b,
    0x04, 0x14, 0x06, 0x16, 0x0c, 0x1c, 0x0e, 0x1e, 0x05, 0x15, 0x07, 0x17, 0x0d, 0x1d, 0x0f, 0x1f,
    0x00, 0x08, 0x10, 0x18, 0x02, 0x0a, 0x12, 0x1a, 0x01, 0x09, 0x11, 0x19, 0x03, 0x0b, 0x13, 0x1b,
    0x04, 0x0c, 0x14, 0x1c, 0x06, 0x0e, 0x16, 0x1e, 0x05, 0x0d, 0x15, 0x1d, 0x07, 0x0f, 0x17, 0x1f,
    0x00, 0x10, 0x08, 0x18, 0x02, 0x12, 0x0a, 0x1a, 0x01, 0x11, 0x09, 0x19, 0x03, 0x13, 0x0b, 0x1b,
    0x04, 0x14, 0x0c, 0x1c, 0x06, 0x16, 0x0e, 0x1e, 0x05, 0x15, 0x0d, 0x1d, 0x07, 0x17, 0x0f, 0x1f,
    0x00, 0x01, 0x02, 0x03, 0x10, 0x11, 0x12, 0x13, 0x08, 0x09, 0x0a, 0x0b, 0x18, 0x19, 0x1a, 0x1b,
    0x04, 0x05, 0x06, 0x07, 0x14, 0x15, 0x16, 0x17, 0x0c, 0x0d, 0x0e, 0x0f, 0x1c, 0x1d, 0x1e, 0x1f,
    0x00, 0x01, 0x02, 0x03, 0x08, 0x09, 0x0a, 0x0b, 0x10, 0x11, 0x12, 0x13, 0x18, 0x19, 0x1a, 0x1b,
    0x04, 0x05, 0x06, 0x07, 0x0c, 0x0d, 0x0e, 0x0f, 0x14, 0x15, 0x16, 0x17, 0x1c, 0x1d, 0x1e, 0x1f,
    0x00, 0x01, 0x10, 0x11, 0x02, 0x03, 0x12, 0x13, 0x08, 0x09, 0x18, 0x19, 0x0a, 0x0b, 0x1a, 0x1b,
    0x04, 0x05, 0x14, 0x15, 0x06, 0x07, 0x16, 0x17, 0x0c, 0x0d, 0x1c, 0x1d, 0x0e, 0x0f, 0x1e, 0x1f,
    0x00, 0x01, 0x08, 0x09, 0x02, 0x03, 0x0a, 0x0b, 0x10, 0x11, 0x18, 0x19, 0x12, 0x13, 0x1a, 0x1b,
    0x04, 0x05, 0x0c, 0x0d, 0x06, 0x07, 0x0e, 0x0f, 0x14, 0x15, 0x1c, 0x1d, 0x16, 0x17, 0x1e, 0x1f]"

definition perm5_lut_0_6 :: "u8 list" where
  "perm5_lut_0_6 = [0x00, 0x02, 0x08, 0x0a, 0x04, 0x06, 0x0c, 0x0e, 0x01, 0x03, 0x09, 0x0b, 0x05, 0x07, 0x0d, 0x0f,
    0x10, 0x12, 0x18, 0x1a, 0x14, 0x16, 0x1c, 0x1e, 0x11, 0x13, 0x19, 0x1b, 0x15, 0x17, 0x1d, 0x1f,
    0x00, 0x02, 0x10, 0x12, 0x04, 0x06, 0x14, 0x16, 0x01, 0x03, 0x11, 0x13, 0x05, 0x07, 0x15, 0x17,
    0x08, 0x0a, 0x18, 0x1a, 0x0c, 0x0e, 0x1c, 0x1e, 0x09, 0x0b, 0x19, 0x1b, 0x0d, 0x0f, 0x1d, 0x1f,
    0x00, 0x10, 0x08, 0x18, 0x04, 0x14, 0x0c, 0x1c, 0x01, 0x11, 0x09, 0x19, 0x05, 0x15, 0x0d, 0x1d,
    0x02, 0x12, 0x0a, 0x1a, 0x06, 0x16, 0x0e, 0x1e, 0x03, 0x13, 0x0b, 0x1b, 0x07, 0x17, 0x0f, 0x1f,
    0x00, 0x08, 0x10, 0x18, 0x04, 0x0c, 0x14, 0x1c, 0x01, 0x09, 0x11, 0x19, 0x05, 0x0d, 0x15, 0x1d,
    0x02, 0x0a, 0x12, 0x1a, 0x06, 0x0e, 0x16, 0x1e, 0x03, 0x0b, 0x13, 0x1b, 0x07, 0x0f, 0x17, 0x1f,
    0x00, 0x02, 0x01, 0x03, 0x04, 0x06, 0x05, 0x07, 0x08, 0x0a, 0x09, 0x0b, 0x0c, 0x0e, 0x0d, 0x0f,
    0x10, 0x12, 0x11, 0x13, 0x14, 0x16, 0x15, 0x17, 0x18, 0x1a, 0x19, 0x1b, 0x1c, 0x1e, 0x1d, 0x1f,
    0x00, 0x02, 0x01, 0x03, 0x04, 0x06, 0x05, 0x07, 0x10, 0x12, 0x11, 0x13, 0x14, 0x16, 0x15, 0x17,
    0x08, 0x0a, 0x09, 0x0b, 0x0c, 0x0e, 0x0d, 0x0f, 0x18, 0x1a, 0x19, 0x1b, 0x1c, 0x1e, 0x1d, 0x1f,
    0x00, 0x10, 0x01, 0x11, 0x04, 0x14, 0x05, 0x15, 0x08, 0x18, 0x09, 0x19, 0x0c, 0x1c, 0x0d, 0x1d,
    0x02, 0x12, 0x03, 0x13, 0x06, 0x16, 0x07, 0x17, 0x0a, 0x1a, 0x0b, 0x1b, 0x0e, 0x1e, 0x0f, 0x1f,
    0x00, 0x08, 0x01, 0x09, 0x04, 0x0c, 0x05, 0x0d, 0x10, 0x18, 0x11, 0x19, 0x14, 0x1c, 0x15, 0x1d,
    0x02, 0x0a, 0x03, 0x0b, 0x06, 0x0e, 0x07, 0x0f, 0x12, 0x1a, 0x13, 0x1b, 0x16, 0x1e, 0x17, 0x1f]"

definition perm5_lut_0_7 :: "u8 list" where
  "perm5_lut_0_7 = [0x00, 0x02, 0x08, 0x0a, 0x10, 0x12, 0x18, 0x1a, 0x01, 0x03, 0x09, 0x0b, 0x11, 0x13, 0x19, 0x1b,
    0x04, 0x06, 0x0c, 0x0e, 0x14, 0x16, 0x1c, 0x1e, 0x05, 0x07, 0x0d, 0x0f, 0x15, 0x17, 0x1d, 0x1f,
    0x00, 0x02, 0x10, 0x12, 0x08, 0x0a, 0x18, 0x1a, 0x01, 0x03, 0x11, 0x13, 0x09, 0x0b, 0x19, 0x1b,
    0x04, 0x06, 0x14, 0x16, 0x0c, 0x0e, 0x1c, 0x1e, 0x05, 0x07, 0x15, 0x17, 0x0d, 0x0f, 0x1d, 0x1f,
    0x00, 0x10, 0x08, 0x18, 0x02, 0x12, 0x0a, 0x1a, 0x01, 0x11, 0x09, 0x19, 0x03, 0x13, 0x0b, 0x1b,
    0x04, 0x14, 0x0c, 0x1c, 0x06, 0x16, 0x0e, 0x1e, 0x05, 0x15, 0x0d, 0x1d, 0x07, 0x17, 0x0f, 0x1f,
    0x00, 0x08, 0x10, 0x18, 0x02, 0x0a, 0x12, 0x1a, 0x01, 0x09, 0x11, 0x19, 0x03, 0x0b, 0x13, 0x1b,
    0x04, 0x0c, 0x14, 0x1c, 0x06, 0x0e, 0x16, 0x1e, 0x05, 0x0d, 0x15, 0x1d, 0x07, 0x0f, 0x17, 0x1f,
    0x00, 0x02, 0x01, 0x03, 0x10, 0x12, 0x11, 0x13, 0x08, 0x0a, 0x09, 0x0b, 0x18, 0x1a, 0x19, 0x1b,
    0x04, 0x06, 0x05, 0x07, 0x14, 0x16, 0x15, 0x17, 0x0c, 0x0e, 0x0d, 0x0f, 0x1c, 0x1e, 0x1d, 0x1f,
    0x00, 0x02, 0x01, 0x03, 0x08, 0x0a, 0x09, 0x0b, 0x10, 0x12, 0x11, 0x13, 0x18, 0x1a, 0x19, 0x1b,
    0x04, 0x06, 0x05, 0x07, 0x0c, 0x0e, 0x0d, 0x0f, 0x14, 0x16, 0x15, 0x17, 0x1c, 0x1e, 0x1d, 0x1f,
    0x00, 0x10, 0x01, 0x11, 0x02, 0x12, 0x03, 0x13, 0x08, 0x18, 0x09, 0x19, 0x0a, 0x1a, 0x0b, 0x1b,
    0x04, 0x14, 0x05, 0x15, 0x06, 0x16, 0x07, 0x17, 0x0c, 0x1c, 0x0d, 0x1d, 0x0e, 0x1e, 0x0f, 0x1f,
    0x00, 0x08, 0x01, 0x09, 0x02, 0x0a, 0x03, 0x0b, 0x10, 0x18, 0x11, 0x19, 0x12, 0x1a, 0x13, 0x1b,
    0x04, 0x0c, 0x05, 0x0d, 0x06, 0x0e, 0x07, 0x0f, 0x14, 0x1c, 0x15, 0x1d, 0x16, 0x1e, 0x17, 0x1f]"

definition perm5_lut_0_8 :: "u8 list" where
  "perm5_lut_0_8 = [0x00, 0x01, 0x04, 0x05, 0x02, 0x03, 0x06, 0x07, 0x08, 0x09, 0x0c, 0x0d, 0x0a, 0x0b, 0x0e, 0x0f,
    0x10, 0x11, 0x14, 0x15, 0x12, 0x13, 0x16, 0x17, 0x18, 0x19, 0x1c, 0x1d, 0x1a, 0x1b, 0x1e, 0x1f,
    0x00, 0x01, 0x04, 0x05, 0x02, 0x03, 0x06, 0x07, 0x10, 0x11, 0x14, 0x15, 0x12, 0x13, 0x16, 0x17,
    0x08, 0x09, 0x0c, 0x0d, 0x0a, 0x0b, 0x0e, 0x0f, 0x18, 0x19, 0x1c, 0x1d, 0x1a, 0x1b, 0x1e, 0x1f,
    0x00, 0x01, 0x04, 0x05, 0x10, 0x11, 0x14, 0x15, 0x08, 0x09, 0x0c, 0x0d, 0x18, 0x19, 0x1c, 0x1d,
    0x02, 0x03, 0x06, 0x07, 0x12, 0x13, 0x16, 0x17, 0x0a, 0x0b, 0x0e, 0x0f, 0x1a, 0x1b, 0x1e, 0x1f,
    0x00, 0x01, 0x04, 0x05, 0x08, 0x09, 0x0c, 0x0d, 0x10, 0x11, 0x14, 0x15, 0x18, 0x19, 0x1c, 0x1d,
    0x02, 0x03, 0x06, 0x07, 0x0a, 0x0b, 0x0e, 0x0f, 0x12, 0x13, 0x16, 0x17, 0x1a, 0x1b, 0x1e, 0x1f,
    0x00, 0x08, 0x04, 0x0c, 0x02, 0x0a, 0x06, 0x0e, 0x01, 0x09, 0x05, 0x0d, 0x03, 0x0b, 0x07, 0x0f,
    0x10, 0x18, 0x14, 0x1c, 0x12, 0x1a, 0x16, 0x1e, 0x11, 0x19, 0x15, 0x1d, 0x13, 0x1b, 0x17, 0x1f,
    0x00, 0x10, 0x04, 0x14, 0x02, 0x12, 0x06, 0x16, 0x01, 0x11, 0x05, 0x15, 0x03, 0x13, 0x07, 0x17,
    0x08, 0x18, 0x0c, 0x1c, 0x0a, 0x1a, 0x0e, 0x1e, 0x09, 0x19, 0x0d, 0x1d, 0x0b, 0x1b, 0x0f, 0x1f,
    0x00, 0x08, 0x04, 0x0c, 0x10, 0x18, 0x14, 0x1c, 0x01, 0x09, 0x05, 0x0d, 0x11, 0x19, 0x15, 0x1d,
    0x02, 0x0a, 0x06, 0x0e, 0x12, 0x1a, 0x16, 0x1e, 0x03, 0x0b, 0x07, 0x0f, 0x13, 0x1b, 0x17, 0x1f,
    0x00, 0x10, 0x04, 0x14, 0x08, 0x18, 0x0c, 0x1c, 0x01, 0x11, 0x05, 0x15, 0x09, 0x19, 0x0d, 0x1d,
    0x02, 0x12, 0x06, 0x16, 0x0a, 0x1a, 0x0e, 0x1e, 0x03, 0x13, 0x07, 0x17, 0x0b, 0x1b, 0x0f, 0x1f]"

definition perm5_lut_0_9 :: "u8 list" where
  "perm5_lut_0_9 = [0x00, 0x01, 0x10, 0x11, 0x02, 0x03, 0x12, 0x13, 0x08, 0x09, 0x18, 0x19, 0x0a, 0x0b, 0x1a, 0x1b,
    0x04, 0x05, 0x14, 0x15, 0x06, 0x07, 0x16, 0x17, 0x0c, 0x0d, 0x1c, 0x1d, 0x0e, 0x0f, 0x1e, 0x1f,
    0x00, 0x01, 0x08, 0x09, 0x02, 0x03, 0x0a, 0x0b, 0x10, 0x11, 0x18, 0x19, 0x12, 0x13, 0x1a, 0x1b,
    0x04, 0x05, 0x0c, 0x0d, 0x06, 0x07, 0x0e, 0x0f, 0x14, 0x15, 0x1c, 0x1d, 0x16, 0x17, 0x1e, 0x1f,
    0x00, 0x01, 0x02, 0x03, 0x10, 0x11, 0x12, 0x13, 0x08, 0x09, 0x0a, 0x0b, 0x18, 0x19, 0x1a, 0x1b,
    0x04, 0x05, 0x06, 0x07, 0x14, 0x15, 0x16, 0x17, 0x0c, 0x0d, 0x0e, 0x0f, 0x1c, 0x1d, 0x1e, 0x1f,
    0x00, 0x01, 0x02, 0x03, 0x08, 0x09, 0x0a, 0x0b, 0x10, 0x11, 0x12, 0x13, 0x18, 0x19, 0x1a, 0x1b,
    0x04, 0x05, 0x06, 0x07, 0x0c, 0x0d, 0x0e, 0x0f, 0x14, 0x15, 0x16, 0x17, 0x1c, 0x1d, 0x1e, 0x1f,
    0x00, 0x08, 0x10, 0x18, 0x02, 0x0a, 0x12, 0x1a, 0x01, 0x09, 0x11, 0x19, 0x03, 0x0b, 0x13, 0x1b,
    0x04, 0x0c, 0x14, 0x1c, 0x06, 0x0e, 0x16, 0x1e, 0x05, 0x0d, 0x15, 0x1d, 0x07, 0x0f, 0x17, 0x1f,
    0x00, 0x10, 0x08, 0x18, 0x02, 0x12, 0x0a, 0x1a, 0x01, 0x11, 0x09, 0x19, 0x03, 0x13, 0x0b, 0x1b,
    0x04, 0x14, 0x0c, 0x1c, 0x06, 0x16, 0x0e, 0x1e, 0x05, 0x15, 0x0d, 0x1d, 0x07, 0x17, 0x0f, 0x1f,
    0x00, 0x08, 0x02, 0x0a, 0x10, 0x18, 0x12, 0x1a, 0x01, 0x09, 0x03, 0x0b, 0x11, 0x19, 0x13, 0x1b,
    0x04, 0x0c, 0x06, 0x0e, 0x14, 0x1c, 0x16, 0x1e, 0x05, 0x0d, 0x07, 0x0f, 0x15, 0x1d, 0x17, 0x1f,
    0x00, 0x10, 0x02, 0x12, 0x08, 0x18, 0x0a, 0x1a, 0x01, 0x11, 0x03, 0x13, 0x09, 0x19, 0x0b, 0x1b,
    0x04, 0x14, 0x06, 0x16, 0x0c, 0x1c, 0x0e, 0x1e, 0x05, 0x15, 0x07, 0x17, 0x0d, 0x1d, 0x0f, 0x1f]"

definition perm5_lut_0_10 :: "u8 list" where
  "perm5_lut_0_10 = [0x00, 0x01, 0x04, 0x05, 0x08, 0x09, 0x0c, 0x0d, 0x02, 0x03, 0x06, 0x07, 0x0a, 0x0b, 0x0e, 0x0f,
    0x10, 0x11, 0x14, 0x15, 0x18, 0x19, 0x1c, 0x1d, 0x12, 0x13, 0x16, 0x17, 0x1a, 0x1b, 0x1e, 0x1f,
    0x00, 0x01, 0x04, 0x05, 0x10, 0x11, 0x14, 0x15, 0x02, 0x03, 0x06, 0x07, 0x12, 0x13, 0x16, 0x17,
    0x08, 0x09, 0x0c, 0x0d, 0x18, 0x19, 0x1c, 0x1d, 0x0a, 0x0b, 0x0e, 0x0f, 0x1a, 0x1b, 0x1e, 0x1f,
    0x00, 0x01, 0x04, 0x05, 0x08, 0x09, 0x0c, 0x0d, 0x10, 0x11, 0x14, 0x15, 0x18, 0x19, 0x1c, 0x1d,
    0x02, 0x03, 0x06, 0x07, 0x0a, 0x0b, 0x0e, 0x0f, 0x12, 0x13, 0x16, 0x17, 0x1a, 0x1b, 0x1e, 0x1f,
    0x00, 0x01, 0x04, 0x05, 0x10, 0x11, 0x14, 0x15, 0x08, 0x09, 0x0c, 0x0d, 0x18, 0x19, 0x1c, 0x1d,
    0x02, 0x03, 0x06, 0x07, 0x12, 0x13, 0x16, 0x17, 0x0a, 0x0b, 0x0e, 0x0f, 0x1a, 0x1b, 0x1e, 0x1f,
    0x00, 0x08, 0x04, 0x0c, 0x01, 0x09, 0x05, 0x0d, 0x02, 0x0a, 0x06, 0x0e, 0x03, 0x0b, 0x07, 0x0f,
    0x10, 0x18, 0x14, 0x1c, 0x11, 0x19, 0x15, 0x1d, 0x12, 0x1a, 0x16, 0x1e, 0x13, 0x1b, 0x17, 0x1f,
    0x00, 0x10, 0x04, 0x14, 0x01, 0x11, 0x05, 0x15, 0x02, 0x12, 0x06, 0x16, 0x03, 0x13, 0x07, 0x17,
    0x08, 0x18, 0x0c, 0x1c, 0x09, 0x19, 0x0d, 0x1d, 0x0a, 0x1a, 0x0e, 0x1e, 0x0b, 0x1b, 0x0f, 0x1f,
    0x00, 0x08, 0x04, 0x0c, 0x01, 0x09, 0x05, 0x0d, 0x10, 0x18, 0x14, 0x1c, 0x11, 0x19, 0x15, 0x1d,
    0x02, 0x0a, 0x06, 0x0e, 0x03, 0x0b, 0x07, 0x0f, 0x12, 0x1a, 0x16, 0x1e, 0x13, 0x1b, 0x17, 0x1f,
    0x00, 0x10, 0x04, 0x14, 0x01, 0x11, 0x05, 0x15, 0x08, 0x18, 0x0c, 0x1c, 0x09, 0x19, 0x0d, 0x1d,
    0x02, 0x12, 0x06, 0x16, 0x03, 0x13, 0x07, 0x17, 0x0a, 0x1a, 0x0e, 0x1e, 0x0b, 0x1b, 0x0f, 0x1f]"

definition perm5_lut_0_11 :: "u8 list" where
  "perm5_lut_0_11 = [0x00, 0x01, 0x10, 0x11, 0x08, 0x09, 0x18, 0x19, 0x02, 0x03, 0x12, 0x13, 0x0a, 0x0b, 0x1a, 0x1b,
    0x04, 0x05, 0x14, 0x15, 0x0c, 0x0d, 0x1c, 0x1d, 0x06, 0x07, 0x16, 0x17, 0x0e, 0x0f, 0x1e, 0x1f,
    0x00, 0x01, 0x08, 0x09, 0x10, 0x11, 0x18, 0x19, 0x02, 0x03, 0x0a, 0x0b, 0x12, 0x13, 0x1a, 0x1b,
    0x04, 0x05, 0x0c, 0x0d, 0x14, 0x15, 0x1c, 0x1d, 0x06, 0x07, 0x0e, 0x0f, 0x16, 0x17, 0x1e, 0x1f,
    0x00, 0x01, 0x02, 0x03, 0x08, 0x09, 0x0a, 0x0b, 0x10, 0x11, 0x12, 0x13, 0x18, 0x19, 0x1a, 0x1b,
    0x04, 0x05, 0x06, 0x07, 0x0c, 0x0d, 0x0e, 0x0f, 0x14, 0x15, 0x16, 0x17, 0x1c, 0x1d, 0x1e, 0x1f,
    0x00, 0x01, 0x02, 0x03, 0x10, 0x11, 0x12, 0x13, 0x08, 0x09, 0x0a, 0x0b, 0x18, 0x19, 0x1a, 0x1b,
    0x04, 0x05, 0x06, 0x07, 0x14, 0x15, 0x16, 0x17, 0x0c, 0x0d, 0x0e, 0x0f, 0x1c, 0x1d, 0x1e, 0x1f,
    0x00, 0x08, 0x10, 0x18, 0x01, 0x09, 0x11, 0x19, 0x02, 0x0a, 0x12, 0x1a, 0x03, 0x0b, 0x13, 0x1b,
    0x04, 0x0c, 0x14, 0x1c, 0x05, 0x0d, 0x15, 0x1d, 0x06, 0x0e, 0x16, 0x1e, 0x07, 0x0f, 0x17, 0x1f,
    0x00, 0x10, 0x08, 0x18, 0x01, 0x11, 0x09, 0x19, 0x02, 0x12, 0x0a, 0x1a, 0x03, 0x13, 0x0b, 0x1b,
    0x04, 0x14, 0x0c, 0x1c, 0x05, 0x15, 0x0d, 0x1d, 0x06, 0x16, 0x0e, 0x1e, 0x07, 0x17, 0x0f, 0x1f,
    0x00, 0x08, 0x02, 0x0a, 0x01, 0x09, 0x03, 0x0b, 0x10, 0x18, 0x12, 0x1a, 0x11, 0x19, 0x13, 0x1b,
    0x04, 0x0c, 0x06, 0x0e, 0x05, 0x0d, 0x07, 0x0f, 0x14, 0x1c, 0x16, 0x1e, 0x15, 0x1d, 0x17, 0x1f,
    0x00, 0x10, 0x02, 0x12, 0x01, 0x11, 0x03, 0x13, 0x08, 0x18, 0x0a, 0x1a, 0x09, 0x19, 0x0b, 0x1b,
    0x04, 0x14, 0x06, 0x16, 0x05, 0x15, 0x07, 0x17, 0x0c, 0x1c, 0x0e, 0x1e, 0x0d, 0x1d, 0x0f, 0x1f]"

definition perm5_lut_0_12 :: "u8 list" where
  "perm5_lut_0_12 = [0x00, 0x08, 0x04, 0x0c, 0x02, 0x0a, 0x06, 0x0e, 0x01, 0x09, 0x05, 0x0d, 0x03, 0x0b, 0x07, 0x0f,
    0x10, 0x18, 0x14, 0x1c, 0x12, 0x1a, 0x16, 0x1e, 0x11, 0x19, 0x15, 0x1d, 0x13, 0x1b, 0x17, 0x1f,
    0x00, 0x10, 0x04, 0x14, 0x02, 0x12, 0x06, 0x16, 0x01, 0x11, 0x05, 0x15, 0x03, 0x13, 0x07, 0x17,
    0x08, 0x18, 0x0c, 0x1c, 0x0a, 0x1a, 0x0e, 0x1e, 0x09, 0x19, 0x0d, 0x1d, 0x0b, 0x1b, 0x0f, 0x1f,
    0x00, 0x08, 0x04, 0x0c, 0x10, 0x18, 0x14, 0x1c, 0x01, 0x09, 0x05, 0x0d, 0x11, 0x19, 0x15, 0x1d,
    0x02, 0x0a, 0x06, 0x0e, 0x12, 0x1a, 0x16, 0x1e, 0x03, 0x0b, 0x07, 0x0f, 0x13, 0x1b, 0x17, 0x1f,
    0x00, 0x10, 0x04, 0x14, 0x08, 0x18, 0x0c, 0x1c, 0x01, 0x11, 0x05, 0x15, 0x09, 0x19, 0x0d, 0x1d,
    0x02, 0x12, 0x06, 0x16, 0x0a, 0x1a, 0x0e, 0x1e, 0x03, 0x13, 0x07, 0x17, 0x0b, 0x1b, 0x0f, 0x1f,
    0x00, 0x01, 0x04, 0x05, 0x02, 0x03, 0x06, 0x07, 0x08, 0x09, 0x0c, 0x0d, 0x0a, 0x0b, 0x0e, 0x0f,
    0x10, 0x11, 0x14, 0x15, 0x12, 0x13, 0x16, 0x17, 0x18, 0x19, 0x1c, 0x1d, 0x1a, 0x1b, 0x1e, 0x1f,
    0x00, 0x01, 0x04, 0x05, 0x02, 0x03, 0x06, 0x07, 0x10, 0x11, 0x14, 0x15, 0x12, 0x13, 0x16, 0x17,
    0x08, 0x09, 0x0c, 0x0d, 0x0a, 0x0b, 0x0e, 0x0f, 0x18, 0x19, 0x1c, 0x1d, 0x1a, 0x1b, 0x1e, 0x1f,
    0x00, 0x01, 0x04, 0x05, 0x10, 0x11, 0x14, 0x15, 0x08, 0x09, 0x0c, 0x0d, 0x18, 0x19, 0x1c, 0x1d,
    0x02, 0x03, 0x06, 0x07, 0x12, 0x13, 0x16, 0x17, 0x0a, 0x0b, 0x0e, 0x0f, 0x1a, 0x1b, 0x1e, 0x1f,
    0x00, 0x01, 0x04, 0x05, 0x08, 0x09, 0x0c, 0x0d, 0x10, 0x11, 0x14, 0x15, 0x18, 0x19, 0x1c, 0x1d,
    0x02, 0x03, 0x06, 0x07, 0x0a, 0x0b, 0x0e, 0x0f, 0x12, 0x13, 0x16, 0x17, 0x1a, 0x1b, 0x1e, 0x1f]"

definition perm5_lut_0_13 :: "u8 list" where
  "perm5_lut_0_13 = [0x00, 0x08, 0x10, 0x18, 0x02, 0x0a, 0x12, 0x1a, 0x01, 0x09, 0x11, 0x19, 0x03, 0x0b, 0x13, 0x1b,
    0x04, 0x0c, 0x14, 0x1c, 0x06, 0x0e, 0x16, 0x1e, 0x05, 0x0d, 0x15, 0x1d, 0x07, 0x0f, 0x17, 0x1f,
    0x00, 0x10, 0x08, 0x18, 0x02, 0x12, 0x0a, 0x1a, 0x01, 0x11, 0x09, 0x19, 0x03, 0x13, 0x0b, 0x1b,
    0x04, 0x14, 0x0c, 0x1c, 0x06, 0x16, 0x0e, 0x1e, 0x05, 0x15, 0x0d, 0x1d, 0x07, 0x17, 0x0f, 0x1f,
    0x00, 0x08, 0x02, 0x0a, 0x10, 0x18, 0x12, 0x1a, 0x01, 0x09, 0x03, 0x0b, 0x11, 0x19, 0x13, 0x1b,
    0x04, 0x0c, 0x06, 0x0e, 0x14, 0x1c, 0x16, 0x1e, 0x05, 0x0d, 0x07, 0x0f, 0x15, 0x1d, 0x17, 0x1f,
    0x00, 0x10, 0x02, 0x12, 0x08, 0x18, 0x0a, 0x1a, 0x01, 0x11, 0x03, 0x13, 0x09, 0x19, 0x0b, 0x1b,
    0x04, 0x14, 0x06, 0x16, 0x0c, 0x1c, 0x0e, 0x1e, 0x05, 0x15, 0x07, 0x17, 0x0d, 0x1d, 0x0f, 0x1f,
    0x00, 0x01, 0x10, 0x11, 0x02, 0x03, 0x12, 0x13, 0x08, 0x09, 0x18, 0x19, 0x0a, 0x0b, 0x1a, 0x1b,
    0x04, 0x05, 0x14, 0x15, 0x06, 0x07, 0x16, 0x17, 0x0c, 0x0d, 0x1c, 0x1d, 0x0e, 0x0f, 0x1e, 0x1f,
    0x00, 0x01, 0x08, 0x09, 0x02, 0x03, 0x0a, 0x0b, 0x10, 0x11, 0x18, 0x19, 0x12, 0x13, 0x1a, 0x1b,
    0x04, 0x05, 0x0c, 0x0d, 0x06, 0x07, 0x0e, 0x0f, 0x14, 0x15, 0x1c, 0x1d, 0x16, 0x17, 0x1e, 0x1f,
    0x00, 0x01, 0x02, 0x03, 0x10, 0x11, 0x12, 0x13, 0x08, 0x09, 0x0a, 0x0b, 0x18, 0x19, 0x1a, 0x1b,
    0x04, 0x05, 0x06, 0x07, 0x14, 0x15, 0x16, 0x17, 0x0c, 0x0d, 0x0e, 0x0f, 0x1c, 0x1d, 0x1e, 0x1f,
    0x00, 0x01, 0x02, 0x03, 0x08, 0x09, 0x0a, 0x0b, 0x10, 0x11, 0x12, 0x13, 0x18, 0x19, 0x1a, 0x1b,
    0x04, 0x05, 0x06, 0x07, 0x0c, 0x0d, 0x0e, 0x0f, 0x14, 0x15, 0x16, 0x17, 0x1c, 0x1d, 0x1e, 0x1f]"

definition perm5_lut_0_14 :: "u8 list" where
  "perm5_lut_0_14 = [0x00, 0x02, 0x04, 0x06, 0x08, 0x0a, 0x0c, 0x0e, 0x01, 0x03, 0x05, 0x07, 0x09, 0x0b, 0x0d, 0x0f,
    0x10, 0x12, 0x14, 0x16, 0x18, 0x1a, 0x1c, 0x1e, 0x11, 0x13, 0x15, 0x17, 0x19, 0x1b, 0x1d, 0x1f,
    0x00, 0x02, 0x04, 0x06, 0x10, 0x12, 0x14, 0x16, 0x01, 0x03, 0x05, 0x07, 0x11, 0x13, 0x15, 0x17,
    0x08, 0x0a, 0x0c, 0x0e, 0x18, 0x1a, 0x1c, 0x1e, 0x09, 0x0b, 0x0d, 0x0f, 0x19, 0x1b, 0x1d, 0x1f,
    0x00, 0x10, 0x04, 0x14, 0x08, 0x18, 0x0c, 0x1c, 0x01, 0x11, 0x05, 0x15, 0x09, 0x19, 0x0d, 0x1d,
    0x02, 0x12, 0x06, 0x16, 0x0a, 0x1a, 0x0e, 0x1e, 0x03, 0x13, 0x07, 0x17, 0x0b, 0x1b, 0x0f, 0x1f,
    0x00, 0x08, 0x04, 0x0c, 0x10, 0x18, 0x14, 0x1c, 0x01, 0x09, 0x05, 0x0d, 0x11, 0x19, 0x15, 0x1d,
    0x02, 0x0a, 0x06, 0x0e, 0x12, 0x1a, 0x16, 0x1e, 0x03, 0x0b, 0x07, 0x0f, 0x13, 0x1b, 0x17, 0x1f,
    0x00, 0x02, 0x04, 0x06, 0x01, 0x03, 0x05, 0x07, 0x08, 0x0a, 0x0c, 0x0e, 0x09, 0x0b, 0x0d, 0x0f,
    0x10, 0x12, 0x14, 0x16, 0x11, 0x13, 0x15, 0x17, 0x18, 0x1a, 0x1c, 0x1e, 0x19, 0x1b, 0x1d, 0x1f,
    0x00, 0x02, 0x04, 0x06, 0x01, 0x03, 0x05, 0x07, 0x10, 0x12, 0x14, 0x16, 0x11, 0x13, 0x15, 0x17,
    0x08, 0x0a, 0x0c, 0x0e, 0x09, 0x0b, 0x0d, 0x0f, 0x18, 0x1a, 0x1c, 0x1e, 0x19, 0x1b, 0x1d, 0x1f,
    0x00, 0x10, 0x04, 0x14, 0x01, 0x11, 0x05, 0x15, 0x08, 0x18, 0x0c, 0x1c, 0x09, 0x19, 0x0d, 0x1d,
    0x02, 0x12, 0x06, 0x16, 0x03, 0x13, 0x07, 0x17, 0x0a, 0x1a, 0x0e, 0x1e, 0x0b, 0x1b, 0x0f, 0x1f,
    0x00, 0x08, 0x04, 0x0c, 0x01, 0x09, 0x05, 0x0d, 0x10, 0x18, 0x14, 0x1c, 0x11, 0x19, 0x15, 0x1d,
    0x02, 0x0a, 0x06, 0x0e, 0x03, 0x0b, 0x07, 0x0f, 0x12, 0x1a, 0x16, 0x1e, 0x13, 0x1b, 0x17, 0x1f]"

definition perm5_lut_0_15 :: "u8 list" where
  "perm5_lut_0_15 = [0x00, 0x02, 0x10, 0x12, 0x08, 0x0a, 0x18, 0x1a, 0x01, 0x03, 0x11, 0x13, 0x09, 0x0b, 0x19, 0x1b,
    0x04, 0x06, 0x14, 0x16, 0x0c, 0x0e, 0x1c, 0x1e, 0x05, 0x07, 0x15, 0x17, 0x0d, 0x0f, 0x1d, 0x1f,
    0x00, 0x02, 0x08, 0x0a, 0x10, 0x12, 0x18, 0x1a, 0x01, 0x03, 0x09, 0x0b, 0x11, 0x13, 0x19, 0x1b,
    0x04, 0x06, 0x0c, 0x0e, 0x14, 0x16, 0x1c, 0x1e, 0x05, 0x07, 0x0d, 0x0f, 0x15, 0x17, 0x1d, 0x1f,
    0x00, 0x10, 0x02, 0x12, 0x08, 0x18, 0x0a, 0x1a, 0x01, 0x11, 0x03, 0x13, 0x09, 0x19, 0x0b, 0x1b,
    0x04, 0x14, 0x06, 0x16, 0x0c, 0x1c, 0x0e, 0x1e, 0x05, 0x15, 0x07, 0x17, 0x0d, 0x1d, 0x0f, 0x1f,
    0x00, 0x08, 0x02, 0x0a, 0x10, 0x18, 0x12, 0x1a, 0x01, 0x09, 0x03, 0x0b, 0x11, 0x19, 0x13, 0x1b,
    0x04, 0x0c, 0x06, 0x0e, 0x14, 0x1c, 0x16, 0x1e, 0x05, 0x0d, 0x07, 0x0f, 0x15, 0x1d, 0x17, 0x1f,
    0x00, 0x02, 0x10, 0x12, 0x01, 0x03, 0x11, 0x13, 0x08, 0x0a, 0x18, 0x1a, 0x09, 0x0b, 0x19, 0x1b,
    0x04, 0x06, 0x14, 0x16, 0x05, 0x07, 0x15, 0x17, 0x0c, 0x0e, 0x1c, 0x1e, 0x0d, 0x0f, 0x1d, 0x1f,
    0x00, 0x02, 0x08, 0x0a, 0x01, 0x03, 0x09, 0x0b, 0x10, 0x12, 0x18, 0x1a, 0x11, 0x13, 0x19, 0x1b,
    0x04, 0x06, 0x0c, 0x0e, 0x05, 0x07, 0x0d, 0x0f, 0x14, 0x16, 0x1c, 0x1e, 0x15, 0x17, 0x1d, 0x1f,
    0x00, 0x10, 0x02, 0x12, 0x01, 0x11, 0x03, 0x13, 0x08, 0x18, 0x0a, 0x1a, 0x09, 0x19, 0x0b, 0x1b,
    0x04, 0x14, 0x06, 0x16, 0x05, 0x15, 0x07, 0x17, 0x0c, 0x1c, 0x0e, 0x1e, 0x0d, 0x1d, 0x0f, 0x1f,
    0x00, 0x08, 0x02, 0x0a, 0x01, 0x09, 0x03, 0x0b, 0x10, 0x18, 0x12, 0x1a, 0x11, 0x19, 0x13, 0x1b,
    0x04, 0x0c, 0x06, 0x0e, 0x05, 0x0d, 0x07, 0x0f, 0x14, 0x1c, 0x16, 0x1e, 0x15, 0x1d, 0x17, 0x1f]"

definition perm5_lut_1_0 :: "u8 list" where
  "perm5_lut_1_0 = [0x00, 0x01, 0x02, 0x03, 0x04, 0x05, 0x06, 0x07, 0x08, 0x09, 0x0a, 0x0b, 0x0c, 0x0d, 0x0e, 0x0f,
    0x10, 0x11, 0x12, 0x13, 0x14, 0x15, 0x16, 0x17, 0x18, 0x19, 0x1a, 0x1b, 0x1c, 0x1d, 0x1e, 0x1f,
    0x00, 0x02, 0x01, 0x03, 0x04, 0x06, 0x05, 0x07, 0x08, 0x0a, 0x09, 0x0b, 0x0c, 0x0e, 0x0d, 0x0f,
    0x10, 0x12, 0x11, 0x13, 0x14, 0x16, 0x15, 0x17, 0x18, 0x1a, 0x19, 0x1b, 0x1c, 0x1e, 0x1d, 0x1f,
    0x00, 0x01, 0x02, 0x03, 0x08, 0x09, 0x0a, 0x0b, 0x04, 0x05, 0x06, 0x07, 0x0c, 0x0d, 0x0e, 0x0f,
    0x10, 0x11, 0x12, 0x13, 0x18, 0x19, 0x1a, 0x1b, 0x14, 0x15, 0x16, 0x17, 0x1c, 0x1d, 0x1e, 0x1f,
    0x00, 0x02, 0x01, 0x03, 0x08, 0x0a, 0x09, 0x0b, 0x04, 0x06, 0x05, 0x07, 0x0c, 0x0e, 0x0d, 0x0f,
    0x10, 0x12, 0x11, 0x13, 0x18, 0x1a, 0x19, 0x1b, 0x14, 0x16, 0x15, 0x17, 0x1c, 0x1e, 0x1d, 0x1f,
    0x00, 0x01, 0x04, 0x05, 0x02, 0x03, 0x06, 0x07, 0x08, 0x09, 0x0c, 0x0d, 0x0a, 0x0b, 0x0e, 0x0f,
    0x10, 0x11, 0x14, 0x15, 0x12, 0x13, 0x16, 0x17, 0x18, 0x19, 0x1c, 0x1d, 0x1a, 0x1b, 0x1e, 0x1f,
    0x00, 0x02, 0x04, 0x06, 0x01, 0x03, 0x05, 0x07, 0x08, 0x0a, 0x0c, 0x0e, 0x09, 0x0b, 0x0d, 0x0f,
    0x10, 0x12, 0x14, 0x16, 0x11, 0x13, 0x15, 0x17, 0x18, 0x1a, 0x1c, 0x1e, 0x19, 0x1b, 0x1d, 0x1f,
    0x00, 0x01, 0x08, 0x09, 0x02, 0x03, 0x0a, 0x0b, 0x04, 0x05, 0x0c, 0x0d, 0x06, 0x07, 0x0e, 0x0f,
    0x10, 0x11, 0x18, 0x19, 0x12, 0x13, 0x1a, 0x1b, 0x14, 0x15, 0x1c, 0x1d, 0x16, 0x17, 0x1e, 0x1f,
    0x00, 0x02, 0x08, 0x0a, 0x01, 0x03, 0x09, 0x0b, 0x04, 0x06, 0x0c, 0x0e, 0x05, 0x07, 0x0d, 0x0f,
    0x10, 0x12, 0x18, 0x1a, 0x11, 0x13, 0x19, 0x1b, 0x14, 0x16, 0x1c, 0x1e, 0x15, 0x17, 0x1d, 0x1f]"

definition perm5_lut_1_1 :: "u8 list" where
  "perm5_lut_1_1 = [0x00, 0x01, 0x02, 0x03, 0x04, 0x05, 0x06, 0x07, 0x10, 0x11, 0x12, 0x13, 0x14, 0x15, 0x16, 0x17,
    0x08, 0x09, 0x0a, 0x0b, 0x0c, 0x0d, 0x0e, 0x0f, 0x18, 0x19, 0x1a, 0x1b, 0x1c, 0x1d, 0x1e, 0x1f,
    0x00, 0x02, 0x01, 0x03, 0x04, 0x06, 0x05, 0x07, 0x10, 0x12, 0x11, 0x13, 0x14, 0x16, 0x15, 0x17,
    0x08, 0x0a, 0x09, 0x0b, 0x0c, 0x0e, 0x0d, 0x0f, 0x18, 0x1a, 0x19, 0x1b, 0x1c, 0x1e, 0x1d, 0x1f,
    0x00, 0x01, 0x02, 0x03, 0x08, 0x09, 0x0a, 0x0b, 0x10, 0x11, 0x12, 0x13, 0x18, 0x19, 0x1a, 0x1b,
    0x04, 0x05, 0x06, 0x07, 0x0c, 0x0d, 0x0e, 0x0f, 0x14, 0x15, 0x16, 0x17, 0x1c, 0x1d, 0x1e, 0x1f,
    0x00, 0x02, 0x01, 0x03, 0x08, 0x0a, 0x09, 0x0b, 0x10, 0x12, 0x11, 0x13, 0x18, 0x1a, 0x19, 0x1b,
    0x04, 0x06, 0x05, 0x07, 0x0c, 0x0e, 0x0d, 0x0f, 0x14, 0x16, 0x15, 0x17, 0x1c, 0x1e, 0x1d, 0x1f,
    0x00, 0x01, 0x04, 0x05, 0x02, 0x03, 0x06, 0x07, 0x10, 0x11, 0x14, 0x15, 0x12, 0x13, 0x16, 0x17,
    0x08, 0x09, 0x0c, 0x0d, 0x0a, 0x0b, 0x0e, 0x0f, 0x18, 0x19, 0x1c, 0x1d, 0x1a, 0x1b, 0x1e, 0x1f,
    0x00, 0x02, 0x04, 0x06, 0x01, 0x03, 0x05, 0x07, 0x10, 0x12, 0x14, 0x16, 0x11, 0x13, 0x15, 0x17,
    0x08, 0x0a, 0x0c, 0x0e, 0x09, 0x0b, 0x0d, 0x0f, 0x18, 0x1a, 0x1c, 0x1e, 0x19, 0x1b, 0x1d, 0x1f,
    0x00, 0x01, 0x08, 0x09, 0x02, 0x03, 0x0a, 0x0b, 0x10, 0x11, 0x18, 0x19, 0x12, 0x13, 0x1a, 0x1b,
    0x04, 0x05, 0x0c, 0x0d, 0x06, 0x07, 0x0e, 0x0f, 0x14, 0x15, 0x1c, 0x1d, 0x16, 0x17, 0x1e, 0x1f,
    0x00, 0x02, 0x08, 0x0a, 0x01, 0x03, 0x09, 0x0b, 0x10, 0x12, 0x18, 0x1a, 0x11, 0x13, 0x19, 0x1b,
    0x04, 0x06, 0x0c, 0x0e, 0x05, 0x07, 0x0d, 0x0f, 0x14, 0x16, 0x1c, 0x1e, 0x15, 0x17, 0x1d, 0x1f]"

definition perm5_lut_1_2 :: "u8 list" where
  "perm5_lut_1_2 = [0x00, 0x10, 0x02, 0x12, 0x04, 0x14, 0x06, 0x16, 0x08, 0x18, 0x0a, 0x1a, 0x0c, 0x1c, 0x0e, 0x1e,
    0x01, 0x11, 0x03, 0x13, 0x05, 0x15, 0x07, 0x17, 0x09, 0x19, 0x0b, 0x1b, 0x0d, 0x1d, 0x0f, 0x1f,
    0x00, 0x10, 0x01, 0x11, 0x04, 0x14, 0x05, 0x15, 0x08, 0x18, 0x09, 0x19, 0x0c, 0x1c, 0x0d, 0x1d,
    0x02, 0x12, 0x03, 0x13, 0x06, 0x16, 0x07, 0x17, 0x0a, 0x1a, 0x0b, 0x1b, 0x0e, 0x1e, 0x0f, 0x1f,
    0x00, 0x10, 0x02, 0x12, 0x08, 0x18, 0x0a, 0x1a, 0x04, 0x14, 0x06, 0x16, 0x0c, 0x1c, 0x0e, 0x1e,
    0x01, 0x11, 0x03, 0x13, 0x09, 0x19, 0x0b, 0x1b, 0x05, 0x15, 0x07, 0x17, 0x0d, 0x1d, 0x0f, 0x1f,
    0x00, 0x10, 0x01, 0x11, 0x08, 0x18, 0x09, 0x19, 0x04, 0x14, 0x05, 0x15, 0x0c, 0x1c, 0x0d, 0x1d,
    0x02, 0x12, 0x03, 0x13, 0x0a, 0x1a, 0x0b, 0x1b, 0x06, 0x16, 0x07, 0x17, 0x0e, 0x1e, 0x0f, 0x1f,
    0x00, 0x10, 0x04, 0x14, 0x02, 0x12, 0x06, 0x16, 0x08, 0x18, 0x0c, 0x1c, 0x0a, 0x1a, 0x0e, 0x1e,
    0x01, 0x11, 0x05, 0x15, 0x03, 0x13, 0x07, 0x17, 0x09, 0x19, 0x0d, 0x1d, 0x0b, 0x1b, 0x0f, 0x1f,
    0x00, 0x10, 0x04, 0x14, 0x01, 0x11, 0x05, 0x15, 0x08, 0x18, 0x0c, 0x1c, 0x09, 0x19, 0x0d, 0x1d,
    0x02, 0x12, 0x06, 0x16, 0x03, 0x13, 0x07, 0x17, 0x0a, 0x1a, 0x0e, 0x1e, 0x0b, 0x1b, 0x0f, 0x1f,
    0x00, 0x10, 0x08, 0x18, 0x02, 0x12, 0x0a, 0x1a, 0x04, 0x14, 0x0c, 0x1c, 0x06, 0x16, 0x0e, 0x1e,
    0x01, 0x11, 0x09, 0x19, 0x03, 0x13, 0x0b, 0x1b, 0x05, 0x15, 0x0d, 0x1d, 0x07, 0x17, 0x0f, 0x1f,
    0x00, 0x10, 0x08, 0x18, 0x01, 0x11, 0x09, 0x19, 0x04, 0x14, 0x0c, 0x1c, 0x05, 0x15, 0x0d, 0x1d,
    0x02, 0x12, 0x0a, 0x1a, 0x03, 0x13, 0x0b, 0x1b, 0x06, 0x16, 0x0e, 0x1e, 0x07, 0x17, 0x0f, 0x1f]"

definition perm5_lut_1_3 :: "u8 list" where
  "perm5_lut_1_3 = [0x00, 0x08, 0x02, 0x0a, 0x04, 0x0c, 0x06, 0x0e, 0x10, 0x18, 0x12, 0x1a, 0x14, 0x1c, 0x16, 0x1e,
    0x01, 0x09, 0x03, 0x0b, 0x05, 0x0d, 0x07, 0x0f, 0x11, 0x19, 0x13, 0x1b, 0x15, 0x1d, 0x17, 0x1f,
    0x00, 0x08, 0x01, 0x09, 0x04, 0x0c, 0x05, 0x0d, 0x10, 0x18, 0x11, 0x19, 0x14, 0x1c, 0x15, 0x1d,
    0x02, 0x0a, 0x03, 0x0b, 0x06, 0x0e, 0x07, 0x0f, 0x12, 0x1a, 0x13, 0x1b, 0x16, 0x1e, 0x17, 0x1f,
    0x00, 0x04, 0x02, 0x06, 0x08, 0x0c, 0x0a, 0x0e, 0x10, 0x14, 0x12, 0x16, 0x18, 0x1c, 0x1a, 0x1e,
    0x01, 0x05, 0x03, 0x07, 0x09, 0x0d, 0x0b, 0x0f, 0x11, 0x15, 0x13, 0x17, 0x19, 0x1d, 0x1b, 0x1f,
    0x00, 0x04, 0x01, 0x05, 0x08, 0x0c, 0x09, 0x0d, 0x10, 0x14, 0x11, 0x15, 0x18, 0x1c, 0x19, 0x1d,
    0x02, 0x06, 0x03, 0x07, 0x0a, 0x0e, 0x0b, 0x0f, 0x12, 0x16, 0x13, 0x17, 0x1a, 0x1e, 0x1b, 0x1f,
    0x00, 0x08, 0x04, 0x0c, 0x02, 0x0a, 0x06, 0x0e, 0x10, 0x18, 0x14, 0x1c, 0x12, 0x1a, 0x16, 0x1e,
    0x01, 0x09, 0x05, 0x0d, 0x03, 0x0b, 0x07, 0x0f, 0x11, 0x19, 0x15, 0x1d, 0x13, 0x1b, 0x17, 0x1f,
    0x00, 0x08, 0x04, 0x0c, 0x01, 0x09, 0x05, 0x0d, 0x10, 0x18, 0x14, 0x1c, 0x11, 0x19, 0x15, 0x1d,
    0x02, 0x0a, 0x06, 0x0e, 0x03, 0x0b, 0x07, 0x0f, 0x12, 0x1a, 0x16, 0x1e, 0x13, 0x1b, 0x17, 0x1f,
    0x00, 0x04, 0x08, 0x0c, 0x02, 0x06, 0x0a, 0x0e, 0x10, 0x14, 0x18, 0x1c, 0x12, 0x16, 0x1a, 0x1e,
    0x01, 0x05, 0x09, 0x0d, 0x03, 0x07, 0x0b, 0x0f, 0x11, 0x15, 0x19, 0x1d, 0x13, 0x17, 0x1b, 0x1f,
    0x00, 0x04, 0x08, 0x0c, 0x01, 0x05, 0x09, 0x0d, 0x10, 0x14, 0x18, 0x1c, 0x11, 0x15, 0x19, 0x1d,
    0x02, 0x06, 0x0a, 0x0e, 0x03, 0x07, 0x0b, 0x0f, 0x12, 0x16, 0x1a, 0x1e, 0x13, 0x17, 0x1b, 0x1f]"

definition perm5_lut_1_4 :: "u8 list" where
  "perm5_lut_1_4 = [0x00, 0x01, 0x08, 0x09, 0x04, 0x05, 0x0c, 0x0d, 0x02, 0x03, 0x0a, 0x0b, 0x06, 0x07, 0x0e, 0x0f,
    0x10, 0x11, 0x18, 0x19, 0x14, 0x15, 0x1c, 0x1d, 0x12, 0x13, 0x1a, 0x1b, 0x16, 0x17, 0x1e, 0x1f,
    0x00, 0x02, 0x08, 0x0a, 0x04, 0x06, 0x0c, 0x0e, 0x01, 0x03, 0x09, 0x0b, 0x05, 0x07, 0x0d, 0x0f,
    0x10, 0x12, 0x18, 0x1a, 0x14, 0x16, 0x1c, 0x1e, 0x11, 0x13, 0x19, 0x1b, 0x15, 0x17, 0x1d, 0x1f,
    0x00, 0x01, 0x04, 0x05, 0x08, 0x09, 0x0c, 0x0d, 0x02, 0x03, 0x06, 0x07, 0x0a, 0x0b, 0x0e, 0x0f,
    0x10, 0x11, 0x14, 0x15, 0x18, 0x19, 0x1c, 0x1d, 0x12, 0x13, 0x16, 0x17, 0x1a, 0x1b, 0x1e, 0x1f,
    0x00, 0x02, 0x04, 0x06, 0x08, 0x0a, 0x0c, 0x0e, 0x01, 0x03, 0x05, 0x07, 0x09, 0x0b, 0x0d, 0x0f,
    0x10, 0x12, 0x14, 0x16, 0x18, 0x1a, 0x1c, 0x1e, 0x11, 0x13, 0x15, 0x17, 0x19, 0x1b, 0x1d, 0x1f,
    0x00, 0x01, 0x08, 0x09, 0x02, 0x03, 0x0a, 0x0b, 0x04, 0x05, 0x0c, 0x0d, 0x06, 0x07, 0x0e, 0x0f,
    0x10, 0x11, 0x18, 0x19, 0x12, 0x13, 0x1a, 0x1b, 0x14, 0x15, 0x1c, 0x1d, 0x16, 0x17, 0x1e, 0x1f,
    0x00, 0x02, 0x08, 0x0a, 0x01, 0x03, 0x09, 0x0b, 0x04, 0x06, 0x0c, 0x0e, 0x05, 0x07, 0x0d, 0x0f,
    0x10, 0x12, 0x18, 0x1a, 0x11, 0x13, 0x19, 0x1b, 0x14, 0x16, 0x1c, 0x1e, 0x15, 0x17, 0x1d, 0x1f,
    0x00, 0x01, 0x04, 0x05, 0x02, 0x03, 0x06, 0x07, 0x08, 0x09, 0x0c, 0x0d, 0x0a, 0x0b, 0x0e, 0x0f,
    0x10, 0x11, 0x14, 0x15, 0x12, 0x13, 0x16, 0x17, 0x18, 0x19, 0x1c, 0x1d, 0x1a, 0x1b, 0x1e, 0x1f,
    0x00, 0x02, 0x04, 0x06, 0x01, 0x03, 0x05, 0x07, 0x08, 0x0a, 0x0c, 0x0e, 0x09, 0x0b, 0x0d, 0x0f,
    0x10, 0x12, 0x14, 0x16, 0x11, 0x13, 0x15, 0x17, 0x18, 0x1a, 0x1c, 0x1e, 0x19, 0x1b, 0x1d, 0x1f]"

definition perm5_lut_1_5 :: "u8 list" where
  "perm5_lut_1_5 = [0x00, 0x01, 0x10, 0x11, 0x04, 0x05, 0x14, 0x15, 0x02, 0x03, 0x12, 0x13, 0x06, 0x07, 0x16, 0x17,
    0x08, 0x09, 0x18, 0x19, 0x0c, 0x0d, 0x1c, 0x1d, 0x0a, 0x0b, 0x1a, 0x1b, 0x0e, 0x0f, 0x1e, 0x1f,
    0x00, 0x02, 0x10, 0x12, 0x04, 0x06, 0x14, 0x16, 0x01, 0x03, 0x11, 0x13, 0x05, 0x07, 0x15, 0x17,
    0x08, 0x0a, 0x18, 0x1a, 0x0c, 0x0e, 0x1c, 0x1e, 0x09, 0x0b, 0x19, 0x1b, 0x0d, 0x0f, 0x1d, 0x1f,
    0x00, 0x01, 0x10, 0x11, 0x08, 0x09, 0x18, 0x19, 0x02, 0x03, 0x12, 0x13, 0x0a, 0x0b, 0x1a, 0x1b,
    0x04, 0x05, 0x14, 0x15, 0x0c, 0x0d, 0x1c, 0x1d, 0x06, 0x07, 0x16, 0x17, 0x0e, 0x0f, 0x1e, 0x1f,
    0x00, 0x02, 0x10, 0x12, 0x08, 0x0a, 0x18, 0x1a, 0x01, 0x03, 0x11, 0x13, 0x09, 0x0b, 0x19, 0x1b,
    0x04, 0x06, 0x14, 0x16, 0x0c, 0x0e, 0x1c, 0x1e, 0x05, 0x07, 0x15, 0x17, 0x0d, 0x0f, 0x1d, 0x1f,
    0x00, 0x01, 0x10, 0x11, 0x02, 0x03, 0x12, 0x13, 0x04, 0x05, 0x14, 0x15, 0x06, 0x07, 0x16, 0x17,
    0x08, 0x09, 0x18, 0x19, 0x0a, 0x0b, 0x1a, 0x1b, 0x0c, 0x0d, 0x1c, 0x1d, 0x0e, 0x0f, 0x1e, 0x1f,
    0x00, 0x02, 0x10, 0x12, 0x01, 0x03, 0x11, 0x13, 0x04, 0x06, 0x14, 0x16, 0x05, 0x07, 0x15, 0x17,
    0x08, 0x0a, 0x18, 0x1a, 0x09, 0x0b, 0x19, 0x1b, 0x0c, 0x0e, 0x1c, 0x1e, 0x0d, 0x0f, 0x1d, 0x1f,
    0x00, 0x01, 0x10, 0x11, 0x02, 0x03, 0x12, 0x13, 0x08, 0x09, 0x18, 0x19, 0x0a, 0x0b, 0x1a, 0x1b,
    0x04, 0x05, 0x14, 0x15, 0x06, 0x07, 0x16, 0x17, 0x0c, 0x0d, 0x1c, 0x1d, 0x0e, 0x0f, 0x1e, 0x1f,
    0x00, 0x02, 0x10, 0x12, 0x01, 0x03, 0x11, 0x13, 0x08, 0x0a, 0x18, 0x1a, 0x09, 0x0b, 0x19, 0x1b,
    0x04, 0x06, 0x14, 0x16, 0x05, 0x07, 0x15, 0x17, 0x0c, 0x0e, 0x1c, 0x1e, 0x0d, 0x0f, 0x1d, 0x1f]"

definition perm5_lut_1_6 :: "u8 list" where
  "perm5_lut_1_6 = [0x00, 0x10, 0x08, 0x18, 0x04, 0x14, 0x0c, 0x1c, 0x02, 0x12, 0x0a, 0x1a, 0x06, 0x16, 0x0e, 0x1e,
    0x01, 0x11, 0x09, 0x19, 0x05, 0x15, 0x0d, 0x1d, 0x03, 0x13, 0x0b, 0x1b, 0x07, 0x17, 0x0f, 0x1f,
    0x00, 0x10, 0x08, 0x18, 0x04, 0x14, 0x0c, 0x1c, 0x01, 0x11, 0x09, 0x19, 0x05, 0x15, 0x0d, 0x1d,
    0x02, 0x12, 0x0a, 0x1a, 0x06, 0x16, 0x0e, 0x1e, 0x03, 0x13, 0x0b, 0x1b, 0x07, 0x17, 0x0f, 0x1f,
    0x00, 0x10, 0x04, 0x14, 0x08, 0x18, 0x0c, 0x1c, 0x02, 0x12, 0x06, 0x16, 0x0a, 0x1a, 0x0e, 0x1e,
    0x01, 0x11, 0x05, 0x15, 0x09, 0x19, 0x0d, 0x1d, 0x03, 0x13, 0x07, 0x17, 0x0b, 0x1b, 0x0f, 0x1f,
    0x00, 0x10, 0x04, 0x14, 0x08, 0x18, 0x0c, 0x1c, 0x01, 0x11, 0x05, 0x15, 0x09, 0x19, 0x0d, 0x1d,
    0x02, 0x12, 0x06, 0x16, 0x0a, 0x1a, 0x0e, 0x1e, 0x03, 0x13, 0x07, 0x17, 0x0b, 0x1b, 0x0f, 0x1f,
    0x00, 0x10, 0x08, 0x18, 0x02, 0x12, 0x0a, 0x1a, 0x04, 0x14, 0x0c, 0x1c, 0x06, 0x16, 0x0e, 0x1e,
    0x01, 0x11, 0x09, 0x19, 0x03, 0x13, 0x0b, 0x1b, 0x05, 0x15, 0x0d, 0x1d, 0x07, 0x17, 0x0f, 0x1f,
    0x00, 0x10, 0x08, 0x18, 0x01, 0x11, 0x09, 0x19, 0x04, 0x14, 0x0c, 0x1c, 0x05, 0x15, 0x0d, 0x1d,
    0x02, 0x12, 0x0a, 0x1a, 0x03, 0x13, 0x0b, 0x1b, 0x06, 0x16, 0x0e, 0x1e, 0x07, 0x17, 0x0f, 0x1f,
    0x00, 0x10, 0x04, 0x14, 0x02, 0x12, 0x06, 0x16, 0x08, 0x18, 0x0c, 0x1c, 0x0a, 0x1a, 0x0e, 0x1e,
    0x01, 0x11, 0x05, 0x15, 0x03, 0x13, 0x07, 0x17, 0x09, 0x19, 0x0d, 0x1d, 0x0b, 0x1b, 0x0f, 0x1f,
    0x00, 0x10, 0x04, 0x14, 0x01, 0x11, 0x05, 0x15, 0x08, 0x18, 0x0c, 0x1c, 0x09, 0x19, 0x0d, 0x1d,
    0x02, 0x12, 0x06, 0x16, 0x03, 0x13, 0x07, 0x17, 0x0a, 0x1a, 0x0e, 0x1e, 0x0b, 0x1b, 0x0f, 0x1f]"

definition perm5_lut_1_7 :: "u8 list" where
  "perm5_lut_1_7 = [0x00, 0x08, 0x10, 0x18, 0x04, 0x0c, 0x14, 0x1c, 0x02, 0x0a, 0x12, 0x1a, 0x06, 0x0e, 0x16, 0x1e,
    0x01, 0x09, 0x11, 0x19, 0x05, 0x0d, 0x15, 0x1d, 0x03, 0x0b, 0x13, 0x1b, 0x07, 0x0f, 0x17, 0x1f,
    0x00, 0x08, 0x10, 0x18, 0x04, 0x0c, 0x14, 0x1c, 0x01, 0x09, 0x11, 0x19, 0x05, 0x0d, 0x15, 0x1d,
    0x02, 0x0a, 0x12, 0x1a, 0x06, 0x0e, 0x16, 0x1e, 0x03, 0x0b, 0x13, 0x1b, 0x07, 0x0f, 0x17, 0x1f,
    0x00, 0x04, 0x10, 0x14, 0x08, 0x0c, 0x18, 0x1c, 0x02, 0x06, 0x12, 0x16, 0x0a, 0x0e, 0x1a, 0x1e,
    0x01, 0x05, 0x11, 0x15, 0x09, 0x0d, 0x19, 0x1d, 0x03, 0x07, 0x13, 0x17, 0x0b, 0x0f, 0x1b, 0x1f,
    0x00, 0x04, 0x10, 0x14, 0x08, 0x0c, 0x18, 0x1c, 0x01, 0x05, 0x11, 0x15, 0x09, 0x0d, 0x19, 0x1d,
    0x02, 0x06, 0x12, 0x16, 0x0a, 0x0e, 0x1a, 0x1e, 0x03, 0x07, 0x13, 0x17, 0x0b, 0x0f, 0x1b, 0x1f,
    0x00, 0x08, 0x10, 0x18, 0x02, 0x0a, 0x12, 0x1a, 0x04, 0x0c, 0x14, 0x1c, 0x06, 0x0e, 0x16, 0x1e,
    0x01, 0x09, 0x11, 0x19, 0x03, 0x0b, 0x13, 0x1b, 0x05, 0x0d, 0x15, 0x1d, 0x07, 0x0f, 0x17, 0x1f,
    0x00, 0x08, 0x10, 0x18, 0x01, 0x09, 0x11, 0x19, 0x04, 0x0c, 0x14, 0x1c, 0x05, 0x0d, 0x15, 0x1d,
    0x02, 0x0a, 0x12, 0x1a, 0x03, 0x0b, 0x13, 0x1b, 0x06, 0x0e, 0x16, 0x1e, 0x07, 0x0f, 0x17, 0x1f,
    0x00, 0x04, 0x10, 0x14, 0x02, 0x06, 0x12, 0x16, 0x08, 0x0c, 0x18, 0x1c, 0x0a, 0x0e, 0x1a, 0x1e,
    0x01, 0x05, 0x11, 0x15, 0x03, 0x07, 0x13, 0x17, 0x09, 0x0d, 0x19, 0x1d, 0x0b, 0x0f, 0x1b, 0x1f,
    0x00, 0x04, 0x10, 0x14, 0x01, 0x05, 0x11, 0x15, 0x08, 0x0c, 0x18, 0x1c, 0x09, 0x0d, 0x19, 0x1d,
    0x02, 0x06, 0x12, 0x16, 0x03, 0x07, 0x13, 0x17, 0x0a, 0x0e, 0x1a, 0x1e, 0x0b, 0x0f, 0x1b, 0x1f]"

definition perm5_lut_1_8 :: "u8 list" where
  "perm5_lut_1_8 = [0x00, 0x04, 0x02, 0x06, 0x01, 0x05, 0x03, 0x07, 0x08, 0x0c, 0x0a, 0x0e, 0x09, 0x0d, 0x0b, 0x0f,
    0x10, 0x14, 0x12, 0x16, 0x11, 0x15, 0x13, 0x17, 0x18, 0x1c, 0x1a, 0x1e, 0x19, 0x1d, 0x1b, 0x1f,
    0x00, 0x04, 0x01, 0x05, 0x02, 0x06, 0x03, 0x07, 0x08, 0x0c, 0x09, 0x0d, 0x0a, 0x0e, 0x0b, 0x0f,
    0x10, 0x14, 0x11, 0x15, 0x12, 0x16, 0x13, 0x17, 0x18, 0x1c, 0x19, 0x1d, 0x1a, 0x1e, 0x1b, 0x1f,
    0x00, 0x08, 0x02, 0x0a, 0x01, 0x09, 0x03, 0x0b, 0x04, 0x0c, 0x06, 0x0e, 0x05, 0x0d, 0x07, 0x0f,
    0x10, 0x18, 0x12, 0x1a, 0x11, 0x19, 0x13, 0x1b, 0x14, 0x1c, 0x16, 0x1e, 0x15, 0x1d, 0x17, 0x1f,
    0x00, 0x08, 0x01, 0x09, 0x02, 0x0a, 0x03, 0x0b, 0x04, 0x0c, 0x05, 0x0d, 0x06, 0x0e, 0x07, 0x0f,
    0x10, 0x18, 0x11, 0x19, 0x12, 0x1a, 0x13, 0x1b, 0x14, 0x1c, 0x15, 0x1d, 0x16, 0x1e, 0x17, 0x1f,
    0x00, 0x02, 0x04, 0x06, 0x01, 0x03, 0x05, 0x07, 0x08, 0x0a, 0x0c, 0x0e, 0x09, 0x0b, 0x0d, 0x0f,
    0x10, 0x12, 0x14, 0x16, 0x11, 0x13, 0x15, 0x17, 0x18, 0x1a, 0x1c, 0x1e, 0x19, 0x1b, 0x1d, 0x1f,
    0x00, 0x01, 0x04, 0x05, 0x02, 0x03, 0x06, 0x07, 0x08, 0x09, 0x0c, 0x0d, 0x0a, 0x0b, 0x0e, 0x0f,
    0x10, 0x11, 0x14, 0x15, 0x12, 0x13, 0x16, 0x17, 0x18, 0x19, 0x1c, 0x1d, 0x1a, 0x1b, 0x1e, 0x1f,
    0x00, 0x02, 0x08, 0x0a, 0x01, 0x03, 0x09, 0x0b, 0x04, 0x06, 0x0c, 0x0e, 0x05, 0x07, 0x0d, 0x0f,
    0x10, 0x12, 0x18, 0x1a, 0x11, 0x13, 0x19, 0x1b, 0x14, 0x16, 0x1c, 0x1e, 0x15, 0x17, 0x1d, 0x1f,
    0x00, 0x01, 0x08, 0x09, 0x02, 0x03, 0x0a, 0x0b, 0x04, 0x05, 0x0c, 0x0d, 0x06, 0x07, 0x0e, 0x0f,
    0x10, 0x11, 0x18, 0x19, 0x12, 0x13, 0x1a, 0x1b, 0x14, 0x15, 0x1c, 0x1d, 0x16, 0x17, 0x1e, 0x1f]"

definition perm5_lut_1_9 :: "u8 list" where
  "perm5_lut_1_9 = [0x00, 0x04, 0x02, 0x06, 0x01, 0x05, 0x03, 0x07, 0x10, 0x14, 0x12, 0x16, 0x11, 0x15, 0x13, 0x17,
    0x08, 0x0c, 0x0a, 0x0e, 0x09, 0x0d, 0x0b, 0x0f, 0x18, 0x1c, 0x1a, 0x1e, 0x19, 0x1d, 0x1b, 0x1f,
    0x00, 0x04, 0x01, 0x05, 0x02, 0x06, 0x03, 0x07, 0x10, 0x14, 0x11, 0x15, 0x12, 0x16, 0x13, 0x17,
    0x08, 0x0c, 0x09, 0x0d, 0x0a, 0x0e, 0x0b, 0x0f, 0x18, 0x1c, 0x19, 0x1d, 0x1a, 0x1e, 0x1b, 0x1f,
    0x00, 0x08, 0x02, 0x0a, 0x01, 0x09, 0x03, 0x0b, 0x10, 0x18, 0x12, 0x1a, 0x11, 0x19, 0x13, 0x1b,
    0x04, 0x0c, 0x06, 0x0e, 0x05, 0x0d, 0x07, 0x0f, 0x14, 0x1c, 0x16, 0x1e, 0x15, 0x1d, 0x17, 0x1f,
    0x00, 0x08, 0x01, 0x09, 0x02, 0x0a, 0x03, 0x0b, 0x10, 0x18, 0x11, 0x19, 0x12, 0x1a, 0x13, 0x1b,
    0x04, 0x0c, 0x05, 0x0d, 0x06, 0x0e, 0x07, 0x0f, 0x14, 0x1c, 0x15, 0x1d, 0x16, 0x1e, 0x17, 0x1f,
    0x00, 0x02, 0x04, 0x06, 0x01, 0x03, 0x05, 0x07, 0x10, 0x12, 0x14, 0x16, 0x11, 0x13, 0x15, 0x17,
    0x08, 0x0a, 0x0c, 0x0e, 0x09, 0x0b, 0x0d, 0x0f, 0x18, 0x1a, 0x1c, 0x1e, 0x19, 0x1b, 0x1d, 0x1f,
    0x00, 0x01, 0x04, 0x05, 0x02, 0x03, 0x06, 0x07, 0x10, 0x11, 0x14, 0x15, 0x12, 0x13, 0x16, 0x17,
    0x08, 0x09, 0x0c, 0x0d, 0x0a, 0x0b, 0x0e, 0x0f, 0x18, 0x19, 0x1c, 0x1d, 0x1a, 0x1b, 0x1e, 0x1f,
    0x00, 0x02, 0x08, 0x0a, 0x01, 0x03, 0x09, 0x0b, 0x10, 0x12, 0x18, 0x1a, 0x11, 0x13, 0x19, 0x1b,
    0x04, 0x06, 0x0c, 0x0e, 0x05, 0x07, 0x0d, 0x0f, 0x14, 0x16, 0x1c, 0x1e, 0x15, 0x17, 0x1d, 0x1f,
    0x00, 0x01, 0x08, 0x09, 0x02, 0x03, 0x0a, 0x0b, 0x10, 0x11, 0x18, 0x19, 0x12, 0x13, 0x1a, 0x1b,
    0x04, 0x05, 0x0c, 0x0d, 0x06, 0x07, 0x0e, 0x0f, 0x14, 0x15, 0x1c, 0x1d, 0x16, 0x17, 0x1e, 0x1f]"

definition perm5_lut_1_10 :: "u8 list" where
  "perm5_lut_1_10 = [0x00, 0x04, 0x02, 0x06, 0x10, 0x14, 0x12, 0x16, 0x08, 0x0c, 0x0a, 0x0e, 0x18, 0x1c, 0x1a, 0x1e,
    0x01, 0x05, 0x03, 0x07, 0x11, 0x15, 0x13, 0x17, 0x09, 0x0d, 0x0b, 0x0f, 0x19, 0x1d, 0x1b, 0x1f,
    0x00, 0x04, 0x01, 0x05, 0x10, 0x14, 0x11, 0x15, 0x08, 0x0c, 0x09, 0x0d, 0x18, 0x1c, 0x19, 0x1d,
    0x02, 0x06, 0x03, 0x07, 0x12, 0x16, 0x13, 0x17, 0x0a, 0x0e, 0x0b, 0x0f, 0x1a, 0x1e, 0x1b, 0x1f,
    0x00, 0x08, 0x02, 0x0a, 0x10, 0x18, 0x12, 0x1a, 0x04, 0x0c, 0x06, 0x0e, 0x14, 0x1c, 0x16, 0x1e,
    0x01, 0x09, 0x03, 0x0b, 0x11, 0x19, 0x13, 0x1b, 0x05, 0x0d, 0x07, 0x0f, 0x15, 0x1d, 0x17, 0x1f,
    0x00, 0x08, 0x01, 0x09, 0x10, 0x18, 0x11, 0x19, 0x04, 0x0c, 0x05, 0x0d, 0x14, 0x1c, 0x15, 0x1d,
    0x02, 0x0a, 0x03, 0x0b, 0x12, 0x1a, 0x13, 0x1b, 0x06, 0x0e, 0x07, 0x0f, 0x16, 0x1e, 0x17, 0x1f,
    0x00, 0x02, 0x04, 0x06, 0x10, 0x12, 0x14, 0x16, 0x08, 0x0a, 0x0c, 0x0e, 0x18, 0x1a, 0x1c, 0x1e,
    0x01, 0x03, 0x05, 0x07, 0x11, 0x13, 0x15, 0x17, 0x09, 0x0b, 0x0d, 0x0f, 0x19, 0x1b, 0x1d, 0x1f,
    0x00, 0x01, 0x04, 0x05, 0x10, 0x11, 0x14, 0x15, 0x08, 0x09, 0x0c, 0x0d, 0x18, 0x19, 0x1c, 0x1d,
    0x02, 0x03, 0x06, 0x07, 0x12, 0x13, 0x16, 0x17, 0x0a, 0x0b, 0x0e, 0x0f, 0x1a, 0x1b, 0x1e, 0x1f,
    0x00, 0x02, 0x08, 0x0a, 0x10, 0x12, 0x18, 0x1a, 0x04, 0x06, 0x0c, 0x0e, 0x14, 0x16, 0x1c, 0x1e,
    0x01, 0x03, 0x09, 0x0b, 0x11, 0x13, 0x19, 0x1b, 0x05, 0x07, 0x0d, 0x0f, 0x15, 0x17, 0x1d, 0x1f,
    0x00, 0x01, 0x08, 0x09, 0x10, 0x11, 0x18, 0x19, 0x04, 0x05, 0x0c, 0x0d, 0x14, 0x15, 0x1c, 0x1d,
    0x02, 0x03, 0x0a, 0x0b, 0x12, 0x13, 0x1a, 0x1b, 0x06, 0x07, 0x0e, 0x0f, 0x16, 0x17, 0x1e, 0x1f]"

definition perm5_lut_1_11 :: "u8 list" where
  "perm5_lut_1_11 = [0x00, 0x04, 0x02, 0x06, 0x08, 0x0c, 0x0a, 0x0e, 0x10, 0x14, 0x12, 0x16, 0x18, 0x1c, 0x1a, 0x1e,
    0x01, 0x05, 0x03, 0x07, 0x09, 0x0d, 0x0b, 0x0f, 0x11, 0x15, 0x13, 0x17, 0x19, 0x1d, 0x1b, 0x1f,
    0x00, 0x04, 0x01, 0x05, 0x08, 0x0c, 0x09, 0x0d, 0x10, 0x14, 0x11, 0x15, 0x18, 0x1c, 0x19, 0x1d,
    0x02, 0x06, 0x03, 0x07, 0x0a, 0x0e, 0x0b, 0x0f, 0x12, 0x16, 0x13, 0x17, 0x1a, 0x1e, 0x1b, 0x1f,
    0x00, 0x08, 0x02, 0x0a, 0x04, 0x0c, 0x06, 0x0e, 0x10, 0x18, 0x12, 0x1a, 0x14, 0x1c, 0x16, 0x1e,
    0x01, 0x09, 0x03, 0x0b, 0x05, 0x0d, 0x07, 0x0f, 0x11, 0x19, 0x13, 0x1b, 0x15, 0x1d, 0x17, 0x1f,
    0x00, 0x08, 0x01, 0x09, 0x04, 0x0c, 0x05, 0x0d, 0x10, 0x18, 0x11, 0x19, 0x14, 0x1c, 0x15, 0x1d,
    0x02, 0x0a, 0x03, 0x0b, 0x06, 0x0e, 0x07, 0x0f, 0x12, 0x1a, 0x13, 0x1b, 0x16, 0x1e, 0x17, 0x1f,
    0x00, 0x02, 0x04, 0x06, 0x08, 0x0a, 0x0c, 0x0e, 0x10, 0x12, 0x14, 0x16, 0x18, 0x1a, 0x1c, 0x1e,
    0x01, 0x03, 0x05, 0x07, 0x09, 0x0b, 0x0d, 0x0f, 0x11, 0x13, 0x15, 0x17, 0x19, 0x1b, 0x1d, 0x1f,
    0x00, 0x01, 0x04, 0x05, 0x08, 0x09, 0x0c, 0x0d, 0x10, 0x11, 0x14, 0x15, 0x18, 0x19, 0x1c, 0x1d,
    0x02, 0x03, 0x06, 0x07, 0x0a, 0x0b, 0x0e, 0x0f, 0x12, 0x13, 0x16, 0x17, 0x1a, 0x1b, 0x1e, 0x1f,
    0x00, 0x02, 0x08, 0x0a, 0x04, 0x06, 0x0c, 0x0e, 0x10, 0x12, 0x18, 0x1a, 0x14, 0x16, 0x1c, 0x1e,
    0x01, 0x03, 0x09, 0x0b, 0x05, 0x07, 0x0d, 0x0f, 0x11, 0x13, 0x19, 0x1b, 0x15, 0x17, 0x1d, 0x1f,
    0x00, 0x01, 0x08, 0x09, 0x04, 0x05, 0x0c, 0x0d, 0x10, 0x11, 0x18, 0x19, 0x14, 0x15, 0x1c, 0x1d,
    0x02, 0x03, 0x0a, 0x0b, 0x06, 0x07, 0x0e, 0x0f, 0x12, 0x13, 0x1a, 0x1b, 0x16, 0x17, 0x1e, 0x1f]"

definition perm5_lut_1_12 :: "u8 list" where
  "perm5_lut_1_12 = [0x00, 0x04, 0x08, 0x0c, 0x01, 0x05, 0x09, 0x0d, 0x02, 0x06, 0x0a, 0x0e, 0x03, 0x07, 0x0b, 0x0f,
    0x10, 0x14, 0x18, 0x1c, 0x11, 0x15, 0x19, 0x1d, 0x12, 0x16, 0x1a, 0x1e, 0x13, 0x17, 0x1b, 0x1f,
    0x00, 0x04, 0x08, 0x0c, 0x02, 0x06, 0x0a, 0x0e, 0x01, 0x05, 0x09, 0x0d, 0x03, 0x07, 0x0b, 0x0f,
    0x10, 0x14, 0x18, 0x1c, 0x12, 0x16, 0x1a, 0x1e, 0x11, 0x15, 0x19, 0x1d, 0x13, 0x17, 0x1b, 0x1f,
    0x00, 0x08, 0x04, 0x0c, 0x01, 0x09, 0x05, 0x0d, 0x02, 0x0a, 0x06, 0x0e, 0x03, 0x0b, 0x07, 0x0f,
    0x10, 0x18, 0x14, 0x1c, 0x11, 0x19, 0x15, 0x1d, 0x12, 0x1a, 0x16, 0x1e, 0x13, 0x1b, 0x17, 0x1f,
    0x00, 0x08, 0x04, 0x0c, 0x02, 0x0a, 0x06, 0x0e, 0x01, 0x09, 0x05, 0x0d, 0x03, 0x0b, 0x07, 0x0f,
    0x10, 0x18, 0x14, 0x1c, 0x12, 0x1a, 0x16, 0x1e, 0x11, 0x19, 0x15, 0x1d, 0x13, 0x1b, 0x17, 0x1f,
    0x00, 0x02, 0x08, 0x0a, 0x01, 0x03, 0x09, 0x0b, 0x04, 0x06, 0x0c, 0x0e, 0x05, 0x07, 0x0d, 0x0f,
    0x10, 0x12, 0x18, 0x1a, 0x11, 0x13, 0x19, 0x1b, 0x14, 0x16, 0x1c, 0x1e, 0x15, 0x17, 0x1d, 0x1f,
    0x00, 0x01, 0x08, 0x09, 0x02, 0x03, 0x0a, 0x0b, 0x04, 0x05, 0x0c, 0x0d, 0x06, 0x07, 0x0e, 0x0f,
    0x10, 0x11, 0x18, 0x19, 0x12, 0x13, 0x1a, 0x1b, 0x14, 0x15, 0x1c, 0x1d, 0x16, 0x17, 0x1e, 0x1f,
    0x00, 0x02, 0x04, 0x06, 0x01, 0x03, 0x05, 0x07, 0x08, 0x0a, 0x0c, 0x0e, 0x09, 0x0b, 0x0d, 0x0f,
    0x10, 0x12, 0x14, 0x16, 0x11, 0x13, 0x15, 0x17, 0x18, 0x1a, 0x1c, 0x1e, 0x19, 0x1b, 0x1d, 0x1f,
    0x00, 0x01, 0x04, 0x05, 0x02, 0x03, 0x06, 0x07, 0x08, 0x09, 0x0c, 0x0d, 0x0a, 0x0b, 0x0e, 0x0f,
    0x10, 0x11, 0x14, 0x15, 0x12, 0x13, 0x16, 0x17, 0x18, 0x19, 0x1c, 0x1d, 0x1a, 0x1b, 0x1e, 0x1f]"

definition perm5_lut_1_13 :: "u8 list" where
  "perm5_lut_1_13 = [0x00, 0x04, 0x10, 0x14, 0x01, 0x05, 0x11, 0x15, 0x02, 0x06, 0x12, 0x16, 0x03, 0x07, 0x13, 0x17,
    0x08, 0x0c, 0x18, 0x1c, 0x09, 0x0d, 0x19, 0x1d, 0x0a, 0x0e, 0x1a, 0x1e, 0x0b, 0x0f, 0x1b, 0x1f,
    0x00, 0x04, 0x10, 0x14, 0x02, 0x06, 0x12, 0x16, 0x01, 0x05, 0x11, 0x15, 0x03, 0x07, 0x13, 0x17,
    0x08, 0x0c, 0x18, 0x1c, 0x0a, 0x0e, 0x1a, 0x1e, 0x09, 0x0d, 0x19, 0x1d, 0x0b, 0x0f, 0x1b, 0x1f,
    0x00, 0x08, 0x10, 0x18, 0x01, 0x09, 0x11, 0x19, 0x02, 0x0a, 0x12, 0x1a, 0x03, 0x0b, 0x13, 0x1b,
    0x04, 0x0c, 0x14, 0x1c, 0x05, 0x0d, 0x15, 0x1d, 0x06, 0x0e, 0x16, 0x1e, 0x07, 0x0f, 0x17, 0x1f,
    0x00, 0x08, 0x10, 0x18, 0x02, 0x0a, 0x12, 0x1a, 0x01, 0x09, 0x11, 0x19, 0x03, 0x0b, 0x13, 0x1b,
    0x04, 0x0c, 0x14, 0x1c, 0x06, 0x0e, 0x16, 0x1e, 0x05, 0x0d, 0x15, 0x1d, 0x07, 0x0f, 0x17, 0x1f,
    0x00, 0x02, 0x10, 0x12, 0x01, 0x03, 0x11, 0x13, 0x04, 0x06, 0x14, 0x16, 0x05, 0x07, 0x15, 0x17,
    0x08, 0x0a, 0x18, 0x1a, 0x09, 0x0b, 0x19, 0x1b, 0x0c, 0x0e, 0x1c, 0x1e, 0x0d, 0x0f, 0x1d, 0x1f,
    0x00, 0x01, 0x10, 0x11, 0x02, 0x03, 0x12, 0x13, 0x04, 0x05, 0x14, 0x15, 0x06, 0x07, 0x16, 0x17,
    0x08, 0x09, 0x18, 0x19, 0x0a, 0x0b, 0x1a, 0x1b, 0x0c, 0x0d, 0x1c, 0x1d, 0x0e, 0x0f, 0x1e, 0x1f,
    0x00, 0x02, 0x10, 0x12, 0x01, 0x03, 0x11, 0x13, 0x08, 0x0a, 0x18, 0x1a, 0x09, 0x0b, 0x19, 0x1b,
    0x04, 0x06, 0x14, 0x16, 0x05, 0x07, 0x15, 0x17, 0x0c, 0x0e, 0x1c, 0x1e, 0x0d, 0x0f, 0x1d, 0x1f,
    0x00, 0x01, 0x10, 0x11, 0x02, 0x03, 0x12, 0x13, 0x08, 0x09, 0x18, 0x19, 0x0a, 0x0b, 0x1a, 0x1b,
    0x04, 0x05, 0x14, 0x15, 0x06, 0x07, 0x16, 0x17, 0x0c, 0x0d, 0x1c, 0x1d, 0x0e, 0x0f, 0x1e, 0x1f]"

definition perm5_lut_1_14 :: "u8 list" where
  "perm5_lut_1_14 = [0x00, 0x04, 0x08, 0x0c, 0x10, 0x14, 0x18, 0x1c, 0x02, 0x06, 0x0a, 0x0e, 0x12, 0x16, 0x1a, 0x1e,
    0x01, 0x05, 0x09, 0x0d, 0x11, 0x15, 0x19, 0x1d, 0x03, 0x07, 0x0b, 0x0f, 0x13, 0x17, 0x1b, 0x1f,
    0x00, 0x04, 0x08, 0x0c, 0x10, 0x14, 0x18, 0x1c, 0x01, 0x05, 0x09, 0x0d, 0x11, 0x15, 0x19, 0x1d,
    0x02, 0x06, 0x0a, 0x0e, 0x12, 0x16, 0x1a, 0x1e, 0x03, 0x07, 0x0b, 0x0f, 0x13, 0x17, 0x1b, 0x1f,
    0x00, 0x08, 0x04, 0x0c, 0x10, 0x18, 0x14, 0x1c, 0x02, 0x0a, 0x06, 0x0e, 0x12, 0x1a, 0x16, 0x1e,
    0x01, 0x09, 0x05, 0x0d, 0x11, 0x19, 0x15, 0x1d, 0x03, 0x0b, 0x07, 0x0f, 0x13, 0x1b, 0x17, 0x1f,
    0x00, 0x08, 0x04, 0x0c, 0x10, 0x18, 0x14, 0x1c, 0x01, 0x09, 0x05, 0x0d, 0x11, 0x19, 0x15, 0x1d,
    0x02, 0x0a, 0x06, 0x0e, 0x12, 0x1a, 0x16, 0x1e, 0x03, 0x0b, 0x07, 0x0f, 0x13, 0x1b, 0x17, 0x1f,
    0x00, 0x02, 0x08, 0x0a, 0x10, 0x12, 0x18, 0x1a, 0x04, 0x06, 0x0c, 0x0e, 0x14, 0x16, 0x1c, 0x1e,
    0x01, 0x03, 0x09, 0x0b, 0x11, 0x13, 0x19, 0x1b, 0x05, 0x07, 0x0d, 0x0f, 0x15, 0x17, 0x1d, 0x1f,
    0x00, 0x01, 0x08, 0x09, 0x10, 0x11, 0x18, 0x19, 0x04, 0x05, 0x0c, 0x0d, 0x14, 0x15, 0x1c, 0x1d,
    0x02, 0x03, 0x0a, 0x0b, 0x12, 0x13, 0x1a, 0x1b, 0x06, 0x07, 0x0e, 0x0f, 0x16, 0x17, 0x1e, 0x1f,
    0x00, 0x02, 0x04, 0x06, 0x10, 0x12, 0x14, 0x16, 0x08, 0x0a, 0x0c, 0x0e, 0x18, 0x1a, 0x1c, 0x1e,
    0x01, 0x03, 0x05, 0x07, 0x11, 0x13, 0x15, 0x17, 0x09, 0x0b, 0x0d, 0x0f, 0x19, 0x1b, 0x1d, 0x1f,
    0x00, 0x01, 0x04, 0x05, 0x10, 0x11, 0x14, 0x15, 0x08, 0x09, 0x0c, 0x0d, 0x18, 0x19, 0x1c, 0x1d,
    0x02, 0x03, 0x06, 0x07, 0x12, 0x13, 0x16, 0x17, 0x0a, 0x0b, 0x0e, 0x0f, 0x1a, 0x1b, 0x1e, 0x1f]"

definition perm5_lut_1_15 :: "u8 list" where
  "perm5_lut_1_15 = [0x00, 0x04, 0x10, 0x14, 0x08, 0x0c, 0x18, 0x1c, 0x02, 0x06, 0x12, 0x16, 0x0a, 0x0e, 0x1a, 0x1e,
    0x01, 0x05, 0x11, 0x15, 0x09, 0x0d, 0x19, 0x1d, 0x03, 0x07, 0x13, 0x17, 0x0b, 0x0f, 0x1b, 0x1f,
    0x00, 0x04, 0x10, 0x14, 0x08, 0x0c, 0x18, 0x1c, 0x01, 0x05, 0x11, 0x15, 0x09, 0x0d, 0x19, 0x1d,
    0x02, 0x06, 0x12, 0x16, 0x0a, 0x0e, 0x1a, 0x1e, 0x03, 0x07, 0x13, 0x17, 0x0b, 0x0f, 0x1b, 0x1f,
    0x00, 0x08, 0x10, 0x18, 0x04, 0x0c, 0x14, 0x1c, 0x02, 0x0a, 0x12, 0x1a, 0x06, 0x0e, 0x16, 0x1e,
    0x01, 0x09, 0x11, 0x19, 0x05, 0x0d, 0x15, 0x1d, 0x03, 0x0b, 0x13, 0x1b, 0x07, 0x0f, 0x17, 0x1f,
    0x00, 0x08, 0x10, 0x18, 0x04, 0x0c, 0x14, 0x1c, 0x01, 0x09, 0x11, 0x19, 0x05, 0x0d, 0x15, 0x1d,
    0x02, 0x0a, 0x12, 0x1a, 0x06, 0x0e, 0x16, 0x1e, 0x03, 0x0b, 0x13, 0x1b, 0x07, 0x0f, 0x17, 0x1f,
    0x00, 0x02, 0x10, 0x12, 0x08, 0x0a, 0x18, 0x1a, 0x04, 0x06, 0x14, 0x16, 0x0c, 0x0e, 0x1c, 0x1e,
    0x01, 0x03, 0x11, 0x13, 0x09, 0x0b, 0x19, 0x1b, 0x05, 0x07, 0x15, 0x17, 0x0d, 0x0f, 0x1d, 0x1f,
    0x00, 0x01, 0x10, 0x11, 0x08, 0x09, 0x18, 0x19, 0x04, 0x05, 0x14, 0x15, 0x0c, 0x0d, 0x1c, 0x1d,
    0x02, 0x03, 0x12, 0x13, 0x0a, 0x0b, 0x1a, 0x1b, 0x06, 0x07, 0x16, 0x17, 0x0e, 0x0f, 0x1e, 0x1f,
    0x00, 0x02, 0x10, 0x12, 0x04, 0x06, 0x14, 0x16, 0x08, 0x0a, 0x18, 0x1a, 0x0c, 0x0e, 0x1c, 0x1e,
    0x01, 0x03, 0x11, 0x13, 0x05, 0x07, 0x15, 0x17, 0x09, 0x0b, 0x19, 0x1b, 0x0d, 0x0f, 0x1d, 0x1f,
    0x00, 0x01, 0x10, 0x11, 0x04, 0x05, 0x14, 0x15, 0x08, 0x09, 0x18, 0x19, 0x0c, 0x0d, 0x1c, 0x1d,
    0x02, 0x03, 0x12, 0x13, 0x06, 0x07, 0x16, 0x17, 0x0a, 0x0b, 0x1a, 0x1b, 0x0e, 0x0f, 0x1e, 0x1f]"

definition perm5_lut :: "u8 list list" where
  "perm5_lut =
    [concat [perm5_lut_0_0, perm5_lut_0_1, perm5_lut_0_2, perm5_lut_0_3, perm5_lut_0_4, perm5_lut_0_5, perm5_lut_0_6, perm5_lut_0_7, perm5_lut_0_8, perm5_lut_0_9, perm5_lut_0_10, perm5_lut_0_11, perm5_lut_0_12, perm5_lut_0_13, perm5_lut_0_14, perm5_lut_0_15],
     concat [perm5_lut_1_0, perm5_lut_1_1, perm5_lut_1_2, perm5_lut_1_3, perm5_lut_1_4, perm5_lut_1_5, perm5_lut_1_6, perm5_lut_1_7, perm5_lut_1_8, perm5_lut_1_9, perm5_lut_1_10, perm5_lut_1_11, perm5_lut_1_12, perm5_lut_1_13, perm5_lut_1_14, perm5_lut_1_15]]"

section \<open>One exchange per control bit\<close>

text \<open>The index arrays of \<open>perm5\<close>: control bit \<open>i\<close> exchanges the bits \<open>index1[i]\<close> and \<open>index2[i]\<close>.\<close>

definition index1 :: "nat list" where
  "index1 = [0, 2, 1, 3, 0, 1, 0, 3, 1, 0, 2, 1, 0, 1]"

definition index2 :: "nat list" where
  "index2 = [1, 3, 2, 4, 4, 3, 2, 4, 4, 3, 4, 3, 3, 2]"

definition swp :: "nat \<Rightarrow> 'a list \<Rightarrow> 'a list" where
  "swp i zs = zs[index1 ! i := zs ! (index2 ! i), index2 ! i := zs ! (index1 ! i)]"

lemma swp_eval:
  "swp 0 [a, b, c, d, e] = [b, a, c, d, e]"
  "swp 1 [a, b, c, d, e] = [a, b, d, c, e]"
  "swp 2 [a, b, c, d, e] = [a, c, b, d, e]"
  "swp 3 [a, b, c, d, e] = [a, b, c, e, d]"
  "swp 4 [a, b, c, d, e] = [e, b, c, d, a]"
  "swp 5 [a, b, c, d, e] = [a, d, c, b, e]"
  "swp 6 [a, b, c, d, e] = [c, b, a, d, e]"
  "swp 7 [a, b, c, d, e] = [a, b, c, e, d]"
  "swp 8 [a, b, c, d, e] = [a, e, c, d, b]"
  "swp 9 [a, b, c, d, e] = [d, b, c, a, e]"
  "swp 10 [a, b, c, d, e] = [a, b, e, d, c]"
  "swp 11 [a, b, c, d, e] = [a, d, c, b, e]"
  "swp 12 [a, b, c, d, e] = [d, b, c, a, e]"
  "swp 13 [a, b, c, d, e] = [a, c, b, d, e]"
  by (simp_all add: swp_def index1_def index2_def numeral_eq_Suc del: Suc_Suc_0)

text \<open>
  The bases of all settings of the control bits \<open>ks\<close>, the first of \<open>ks\<close> being bit 0 of the setting.
\<close>

definition bases :: "nat list \<Rightarrow> 'a list \<Rightarrow> 'a list list" where
  "bases ks b0 = foldl (\<lambda>T k. T @ map (swp k) T) [b0] ks"

definition perm_block :: "nat list \<Rightarrow> nat list \<Rightarrow> u8 list" where
  "perm_block ks low = concat (map (\<lambda>b. lin_tab (foldl (\<lambda>b k. swp k b) b ks)) (bases low [1, 2, 4, 8, 16]))"

lemmas block_eval = perm_block_def bases_def swp_eval swp_eval(2) [unfolded One_nat_def] lin_tab_def

section \<open>The literals are the permutations\<close>

lemma perm5_lut_0_0: "perm5_lut_0_0 = perm_block [] [7, 8, 9]"
  by (simp add: perm5_lut_0_0_def block_eval)

lemma perm5_lut_0_1: "perm5_lut_0_1 = perm_block [10] [7, 8, 9]"
  by (simp add: perm5_lut_0_1_def block_eval)

lemma perm5_lut_0_2: "perm5_lut_0_2 = perm_block [11] [7, 8, 9]"
  by (simp add: perm5_lut_0_2_def block_eval)

lemma perm5_lut_0_3: "perm5_lut_0_3 = perm_block [10, 11] [7, 8, 9]"
  by (simp add: perm5_lut_0_3_def block_eval)

lemma perm5_lut_0_4: "perm5_lut_0_4 = perm_block [12] [7, 8, 9]"
  by (simp add: perm5_lut_0_4_def block_eval)

lemma perm5_lut_0_5: "perm5_lut_0_5 = perm_block [10, 12] [7, 8, 9]"
  by (simp add: perm5_lut_0_5_def block_eval)

lemma perm5_lut_0_6: "perm5_lut_0_6 = perm_block [11, 12] [7, 8, 9]"
  by (simp add: perm5_lut_0_6_def block_eval)

lemma perm5_lut_0_7: "perm5_lut_0_7 = perm_block [10, 11, 12] [7, 8, 9]"
  by (simp add: perm5_lut_0_7_def block_eval)

lemma perm5_lut_0_8: "perm5_lut_0_8 = perm_block [13] [7, 8, 9]"
  by (simp add: perm5_lut_0_8_def block_eval)

lemma perm5_lut_0_9: "perm5_lut_0_9 = perm_block [10, 13] [7, 8, 9]"
  by (simp add: perm5_lut_0_9_def block_eval)

lemma perm5_lut_0_10: "perm5_lut_0_10 = perm_block [11, 13] [7, 8, 9]"
  by (simp add: perm5_lut_0_10_def block_eval)

lemma perm5_lut_0_11: "perm5_lut_0_11 = perm_block [10, 11, 13] [7, 8, 9]"
  by (simp add: perm5_lut_0_11_def block_eval)

lemma perm5_lut_0_12: "perm5_lut_0_12 = perm_block [12, 13] [7, 8, 9]"
  by (simp add: perm5_lut_0_12_def block_eval)

lemma perm5_lut_0_13: "perm5_lut_0_13 = perm_block [10, 12, 13] [7, 8, 9]"
  by (simp add: perm5_lut_0_13_def block_eval)

lemma perm5_lut_0_14: "perm5_lut_0_14 = perm_block [11, 12, 13] [7, 8, 9]"
  by (simp add: perm5_lut_0_14_def block_eval)

lemma perm5_lut_0_15: "perm5_lut_0_15 = perm_block [10, 11, 12, 13] [7, 8, 9]"
  by (simp add: perm5_lut_0_15_def block_eval)

lemma perm5_lut_1_0: "perm5_lut_1_0 = perm_block [] [0, 1, 2]"
  by (simp add: perm5_lut_1_0_def block_eval)

lemma perm5_lut_1_1: "perm5_lut_1_1 = perm_block [3] [0, 1, 2]"
  by (simp add: perm5_lut_1_1_def block_eval)

lemma perm5_lut_1_2: "perm5_lut_1_2 = perm_block [4] [0, 1, 2]"
  by (simp add: perm5_lut_1_2_def block_eval)

lemma perm5_lut_1_3: "perm5_lut_1_3 = perm_block [3, 4] [0, 1, 2]"
  by (simp add: perm5_lut_1_3_def block_eval)

lemma perm5_lut_1_4: "perm5_lut_1_4 = perm_block [5] [0, 1, 2]"
  by (simp add: perm5_lut_1_4_def block_eval)

lemma perm5_lut_1_5: "perm5_lut_1_5 = perm_block [3, 5] [0, 1, 2]"
  by (simp add: perm5_lut_1_5_def block_eval)

lemma perm5_lut_1_6: "perm5_lut_1_6 = perm_block [4, 5] [0, 1, 2]"
  by (simp add: perm5_lut_1_6_def block_eval)

lemma perm5_lut_1_7: "perm5_lut_1_7 = perm_block [3, 4, 5] [0, 1, 2]"
  by (simp add: perm5_lut_1_7_def block_eval)

lemma perm5_lut_1_8: "perm5_lut_1_8 = perm_block [6] [0, 1, 2]"
  by (simp add: perm5_lut_1_8_def block_eval)

lemma perm5_lut_1_9: "perm5_lut_1_9 = perm_block [3, 6] [0, 1, 2]"
  by (simp add: perm5_lut_1_9_def block_eval)

lemma perm5_lut_1_10: "perm5_lut_1_10 = perm_block [4, 6] [0, 1, 2]"
  by (simp add: perm5_lut_1_10_def block_eval)

lemma perm5_lut_1_11: "perm5_lut_1_11 = perm_block [3, 4, 6] [0, 1, 2]"
  by (simp add: perm5_lut_1_11_def block_eval)

lemma perm5_lut_1_12: "perm5_lut_1_12 = perm_block [5, 6] [0, 1, 2]"
  by (simp add: perm5_lut_1_12_def block_eval)

lemma perm5_lut_1_13: "perm5_lut_1_13 = perm_block [3, 5, 6] [0, 1, 2]"
  by (simp add: perm5_lut_1_13_def block_eval)

lemma perm5_lut_1_14: "perm5_lut_1_14 = perm_block [4, 5, 6] [0, 1, 2]"
  by (simp add: perm5_lut_1_14_def block_eval)

lemma perm5_lut_1_15: "perm5_lut_1_15 = perm_block [3, 4, 5, 6] [0, 1, 2]"
  by (simp add: perm5_lut_1_15_def block_eval)

lemmas perm5_lut_0 =
  perm5_lut_0_0 perm5_lut_0_1 perm5_lut_0_2 perm5_lut_0_3 perm5_lut_0_4 perm5_lut_0_5 perm5_lut_0_6 perm5_lut_0_7 perm5_lut_0_8 perm5_lut_0_9 perm5_lut_0_10 perm5_lut_0_11 perm5_lut_0_12 perm5_lut_0_13 perm5_lut_0_14 perm5_lut_0_15

lemmas perm5_lut_1 =
  perm5_lut_1_0 perm5_lut_1_1 perm5_lut_1_2 perm5_lut_1_3 perm5_lut_1_4 perm5_lut_1_5 perm5_lut_1_6 perm5_lut_1_7 perm5_lut_1_8 perm5_lut_1_9 perm5_lut_1_10 perm5_lut_1_11 perm5_lut_1_12 perm5_lut_1_13 perm5_lut_1_14 perm5_lut_1_15

end
