(* ===== verification/Perm5.thy ===== *)
theory Perm5
  imports Perm5Tab
begin

text \<open>
  The five bit permutation of the hop selection: the table lookup of include/ubtbr/hop.h and the
  bit-wise versions kept in src/codec/perm5.c, with the equivalence that \<open>perm5_test\<close> there samples.
\<close>

section \<open>The code\<close>

definition perm5 :: "u8 \<Rightarrow> u8 \<Rightarrow> u16 \<Rightarrow> u8 res" where
  "perm5 z p_high p_low =
     (let p = (p_low AND 0x1ff) OR push_bit 9 (ucast (p_high AND 0x1f)); z = z AND 0x1f in
      bnd (rd perm5_lut 0) (\<lambda>lut0. bnd (rd perm5_lut 1) (\<lambda>lut1.
      bnd (rd lut0 (unat (push_bit 5 (drop_bit 7 p) OR ucast z))) (\<lambda>z.
      rd lut1 (unat (push_bit 5 (0x7f AND p) OR ucast z))))))"

text \<open>\<open>z_bit\<close> holds the bits of \<open>z\<close>; \<open>exchange\<close> is one butterfly operation, \<open>rebuild\<close> the output loop.\<close>

definition z_bits :: "u8 \<Rightarrow> u8 list" where
  "z_bits z = map (\<lambda>i. drop_bit i z AND 1) [0..<5]"

definition exchange :: "bool \<Rightarrow> nat \<Rightarrow> u8 list \<Rightarrow> u8 list" where
  "exchange c i z_bit = (if c then swp i z_bit else z_bit)"

definition rebuild :: "u8 list \<Rightarrow> u8" where
  "rebuild z_bit = fold (\<lambda>i out. out + push_bit i (z_bit ! i)) [0..<5] 0"

definition perm5_slow :: "u8 \<Rightarrow> u8 \<Rightarrow> u16 \<Rightarrow> u8" where
  "perm5_slow z p_high p_low =
     (let z = z AND 0x1f; p_low = p_low AND 0x1ff; p_high = p_high AND 0x1f;
          p = map (\<lambda>i. drop_bit i p_low AND 1) [0..<9] @ map (\<lambda>i. ucast (drop_bit i p_high) AND 1) [0..<5]
      in rebuild (fold (\<lambda>i. exchange (p ! i \<noteq> 0) i) (rev [0..<14]) (z_bits z)))"

definition perm5_short :: "u8 \<Rightarrow> u16 \<Rightarrow> nat \<Rightarrow> u8" where
  "perm5_short z p offset =
     (let z = z AND 0x1f; p = push_bit (7 - offset) p in
      rebuild (fold (\<lambda>j. let i = 14 - 1 - offset - j in exchange (p AND push_bit i 1 \<noteq> 0) i) [0..<7] (z_bits z)))"

text \<open>The tables are filled row by row; the loops run over \<open>z\<close> and \<open>p\<close>.\<close>

definition precal_at :: "nat \<Rightarrow> nat \<Rightarrow> u8 list list \<Rightarrow> u8 list list res" where
  "precal_at z p lut =
     bnd (rd lut 0) (\<lambda>l0.
     bnd (wr l0 (z + 32 * p) (perm5_short (of_nat z) (of_nat p) 0)) (\<lambda>l0.
     bnd (rd lut 1) (\<lambda>l1.
     bnd (wr l1 (z + 32 * p) (perm5_short (of_nat z) (of_nat p) 7)) (\<lambda>l1.
     Inr [l0, l1]))))"

definition perm5_precal :: "u8 list list \<Rightarrow> u8 list list res" where
  "perm5_precal lut = loop 32 (\<lambda>z lut. loop 128 (\<lambda>p lut. precal_at z p lut) lut) lut"

section \<open>Exchanges\<close>

lemma length_swp [simp]: "length (swp i zs) = length zs"
  by (simp add: swp_def)

lemma length5E:
  assumes "length zs = 5"
  obtains a b c d e where "zs = [a, b, c, d, e]"
  using assms by (auto simp: numeral_eq_Suc length_Suc_conv simp del: Suc_Suc_0)

lemma less14_cases: "k < 14 \<Longrightarrow> k \<in> {0, 1, 2, 3, 4, 5, 6, 7, 8, 9, 10, 11, 12, 13 :: nat}"
  by (simp, presburger)

text \<open>\<open>sel zs b\<close> adds the words of \<open>b\<close> whose bit in \<open>zs\<close> is set.\<close>

primrec sel :: "bool list \<Rightarrow> u8 list \<Rightarrow> u8" where
  "sel [] bs = 0"
| "sel (z # zs) bs = (if z then hd bs else 0) XOR sel zs (tl bs)"

lemma sel_swp:
  assumes "length zs = 5" "length b = 5" "k < 14"
  shows "sel (swp k zs) b = sel zs (swp k b)"
proof -
  obtain z0 z1 z2 z3 z4 where z: "zs = [z0, z1, z2, z3, z4]" using assms(1) by (rule length5E)
  obtain b0 b1 b2 b3 b4 where b: "b = [b0, b1, b2, b3, b4]" using assms(2) by (rule length5E)
  show ?thesis using less14_cases [OF assms(3)] unfolding z b
    by (auto simp: swp_eval swp_eval(2) [unfolded One_nat_def] xor.assoc xor.left_commute xor.commute)
qed

text \<open>The rows of \<open>bases\<close>: the exchanges of the set control bits, applied to the basis.\<close>

definition row :: "(nat \<Rightarrow> bool) \<Rightarrow> nat list \<Rightarrow> u8 list \<Rightarrow> u8 list" where
  "row c ks b = fold (\<lambda>k b. if c k then swp k b else b) ks b"

lemma row_snoc [simp]: "row c (ks @ [k]) b = (if c k then swp k (row c ks b) else row c ks b)"
  by (simp add: row_def)

lemma length_row [simp]: "length (row c ks b) = length b"
  by (induction ks rule: rev_induct) (auto simp: row_def)

lemma bases_snoc: "bases (ks @ [k]) b = bases ks b @ map (swp k) (bases ks b)"
  by (simp add: bases_def)

lemma length_bases [simp]: "length (bases ks b) = 2 ^ length ks"
  by (induction ks rule: rev_induct) (simp_all add: bases_snoc, simp add: bases_def)

lemma length_in_bases: "x \<in> set (bases ks b) \<Longrightarrow> length x = length b"
  by (induction ks arbitrary: x rule: rev_induct) (auto simp: bases_snoc, simp add: bases_def)

lemma bases_nth:
  assumes "p < 2 ^ length ks" and "\<And>i. i < length ks \<Longrightarrow> c (ks ! i) = bit p i"
  shows "bases ks b ! p = row c ks b"
  using assms
proof (induction ks arbitrary: p rule: rev_induct)
  case Nil
  then show ?case by (simp add: bases_def row_def)
next
  case (snoc k ks)
  let ?n = "length ks"
  have ck: "c k = bit p ?n" using snoc.prems(2) [of ?n] by simp
  have c: "c (ks ! i) = bit p i" if "i < ?n" for i
    using snoc.prems(2) [of i] that by (simp add: nth_append)
  show ?case
  proof (cases "p < 2 ^ ?n")
    case True
    then have "\<not> bit p ?n" by (simp add: bit_iff_odd)
    then show ?thesis using True snoc.IH [OF True c] ck by (simp add: bases_snoc nth_append)
  next
    case False
    then obtain q where q: "p = 2 ^ ?n + q" by (metis le_Suc_ex not_less)
    then have lt: "q < 2 ^ ?n" using snoc.prems(1) by simp
    have b: "bit p ?n" using lt q by (simp add: bit_iff_odd div_add_self1)
    have "bit q i = bit p i" if "i < ?n" for i
    proof -
      have "take_bit ?n p = q" using q lt by (simp add: take_bit_eq_mod)
      then show ?thesis using that by (metis bit_take_bit_iff)
    qed
    then have "bases ks b ! q = row c ks b" using snoc.IH [OF lt] c by simp
    then show ?thesis using False q lt b ck by (simp add: bases_snoc nth_append)
  qed
qed

text \<open>Exchanging bits downwards over \<open>ks\<close> is reading the row.\<close>

definition bfly :: "(nat \<Rightarrow> bool) \<Rightarrow> nat list \<Rightarrow> 'a list \<Rightarrow> 'a list" where
  "bfly c ks zs = fold (\<lambda>k zs. if c k then swp k zs else zs) (rev ks) zs"

lemma bfly_snoc [simp]: "bfly c (ks @ [k]) zs = bfly c ks (if c k then swp k zs else zs)"
  by (simp add: bfly_def)

lemma bfly_append: "bfly c (ks @ ls) zs = bfly c ks (bfly c ls zs)"
  by (simp add: bfly_def)

lemma length_bfly [simp]: "length (bfly c ks zs) = length zs"
  by (induction ks arbitrary: zs rule: rev_induct) (auto, simp add: bfly_def)

lemma sel_bfly:
  assumes "length zs = 5" "length b = 5" "\<And>k. k \<in> set ks \<Longrightarrow> k < 14"
  shows "sel (bfly c ks zs) b = sel zs (row c ks b)"
  using assms
proof (induction ks arbitrary: zs rule: rev_induct)
  case (snoc k ks)
  have "sel (bfly c (ks @ [k]) zs) b = sel (if c k then swp k zs else zs) (row c ks b)"
    using snoc by simp
  also have "\<dots> = sel zs (row c (ks @ [k]) b)"
    using snoc.prems sel_swp [of zs "row c ks b" k] by simp
  finally show ?case .
qed (simp add: bfly_def row_def)

section \<open>The tables as blocks of permutations\<close>

abbreviation basis5 :: "u8 list" where
  "basis5 \<equiv> [1, 2, 4, 8, 16]"

lemma swp_rows: "map (swp k) (map (\<lambda>b. foldl (\<lambda>b k. swp k b) b ks) T) = map (\<lambda>b. foldl (\<lambda>b k. swp k b) b (ks @ [k])) T"
  by simp

lemma perm_block_bases:
  "concat (map lin_tab (bases (low @ [i, j, k, l]) basis5)) =
    concat [perm_block [] low, perm_block [i] low, perm_block [j] low, perm_block [i, j] low,
      perm_block [k] low, perm_block [i, k] low, perm_block [j, k] low, perm_block [i, j, k] low,
      perm_block [l] low, perm_block [i, l] low, perm_block [j, l] low, perm_block [i, j, l] low,
      perm_block [k, l] low, perm_block [i, k, l] low, perm_block [j, k, l] low, perm_block [i, j, k, l] low]"
proof -
  have "bases (low @ [i, j, k, l]) basis5 = bases ((((low @ [i]) @ [j]) @ [k]) @ [l]) basis5" by simp
  then show ?thesis unfolding bases_snoc perm_block_def by (simp add: comp_def)
qed

lemma perm5_lut_blocks:
  "perm5_lut = [concat (map lin_tab (bases [7, 8, 9, 10, 11, 12, 13] basis5)),
                concat (map lin_tab (bases [0, 1, 2, 3, 4, 5, 6] basis5))]"
  using perm_block_bases [of "[7, 8, 9]" 10 11 12 13] perm_block_bases [of "[0, 1, 2]" 3 4 5 6]
  unfolding perm5_lut_def perm5_lut_0 perm5_lut_1 by simp

lemma concat_nth_blocks:
  assumes "\<And>xs. xs \<in> set xss \<Longrightarrow> length xs = n" and "i < length xss" and "j < n"
  shows "concat xss ! (n * i + j) = xss ! i ! j"
  using assms
proof (induction xss arbitrary: i)
  case (Cons xs xss)
  then show ?case by (cases i) (auto simp: nth_append add.assoc)
qed simp

lemma length_concat_blocks: "(\<And>xs. xs \<in> set xss \<Longrightarrow> length xs = n) \<Longrightarrow> length (concat xss) = n * length xss"
  by (induction xss) auto

lemma block_nth:
  fixes z :: u8
  assumes "p < 2 ^ length ks" and "unat z < 32" and "\<And>i. i < length ks \<Longrightarrow> c (ks ! i) = bit p i"
  shows "concat (map lin_tab (bases ks basis5)) ! (32 * p + unat z) = xsum (row c ks basis5) z"
proof -
  have len: "length xs = 32" if "xs \<in> set (map lin_tab (bases ks basis5))" for xs
    using that length_in_bases [of _ ks basis5] by auto
  have "concat (map lin_tab (bases ks basis5)) ! (32 * p + unat z) = lin_tab (bases ks basis5 ! p) ! unat z"
    (is "concat ?B ! _ = _")
  proof -
    have "concat ?B ! (32 * p + unat z) = ?B ! p ! unat z"
      by (rule concat_nth_blocks [OF len]) (use assms in simp_all)
    then show ?thesis using assms(1) by simp
  qed
  also have "\<dots> = xsum (row c ks basis5) z"
  proof -
    have "bases ks basis5 ! p = row c ks basis5" by (rule bases_nth [OF assms(1,3)])
    then show ?thesis using assms(2) by (simp add: lin_tab_nth)
  qed
  finally show ?thesis .
qed

lemma length_blocks: "length (concat (map lin_tab (bases ks basis5))) = 32 * 2 ^ length ks"
proof -
  have "length xs = 32" if "xs \<in> set (map lin_tab (bases ks basis5))" for xs
    using that length_in_bases [of _ ks basis5] by auto
  then show ?thesis by (subst length_concat_blocks) simp_all
qed

text \<open>The bits of \<open>z\<close> as truth values; the sum of a basis over them.\<close>

definition zb :: "u8 \<Rightarrow> bool list" where
  "zb z = map (bit z) [0..<5]"

lemma length_zb [simp]: "length (zb z) = 5"
  by (simp add: zb_def)

lemma xsum_sel:
  assumes "length b = 5"
  shows "xsum b z = sel (zb z) b"
proof -
  obtain b0 b1 b2 b3 b4 where b: "b = [b0, b1, b2, b3, b4]" using assms by (rule length5E)
  show ?thesis unfolding b zb_def
    by (simp add: upt_conv_Cons bit_drop_bit_eq)
qed

definition out5 :: "bool list \<Rightarrow> u8" where
  "out5 zs = sel zs basis5"

lemma bit_basis5:
  "bit (1 :: u8) j \<longleftrightarrow> j = 0" "bit (2 :: u8) j \<longleftrightarrow> j = 1" "bit (4 :: u8) j \<longleftrightarrow> j = 2"
  "bit (8 :: u8) j \<longleftrightarrow> j = 3" "bit (16 :: u8) j \<longleftrightarrow> j = 4"
proof -
  have "bit (push_bit k 1 :: u8) j \<longleftrightarrow> j = k" if "k < 8" for k
    using that by (auto simp: bit_simps)
  from this [of 0] this [of 1] this [of 2] this [of 3] this [of 4]
  show "bit (1 :: u8) j \<longleftrightarrow> j = 0" "bit (2 :: u8) j \<longleftrightarrow> j = 1" "bit (4 :: u8) j \<longleftrightarrow> j = 2"
    "bit (8 :: u8) j \<longleftrightarrow> j = 3" "bit (16 :: u8) j \<longleftrightarrow> j = 4" by simp_all
qed

lemma bit_out5:
  assumes "length zs = 5"
  shows "bit (out5 zs) j \<longleftrightarrow> j < 5 \<and> zs ! j"
proof -
  obtain a b c d e where z: "zs = [a, b, c, d, e]" using assms by (rule length5E)
  have sel: "bit (if x then w else 0) j \<longleftrightarrow> x \<and> bit w j" for x and w :: u8 by simp
  have b: "bit (out5 zs) j \<longleftrightarrow> ((a \<and> j = 0) \<noteq> ((b \<and> j = 1) \<noteq> ((c \<and> j = 2) \<noteq> ((d \<and> j = 3) \<noteq> (e \<and> j = 4)))))"
    unfolding out5_def z by (simp only: sel.simps list.sel bit_xor_iff sel bit_basis5 xor.right_neutral)
  consider "j = 0" | "j = 1" | "j = 2" | "j = 3" | "j = 4" | "5 \<le> j" by linarith
  then show ?thesis unfolding b by cases (simp_all add: z)
qed

lemma zb_out5: "length zs = 5 \<Longrightarrow> zb (out5 zs) = zs"
  by (rule nth_equalityI) (simp_all add: zb_def bit_out5)

text \<open>One lookup is one half of the butterfly.\<close>

lemma block_bfly:
  assumes "p < 2 ^ length ks" and "unat z < 32" and "\<And>i. i < length ks \<Longrightarrow> c (ks ! i) = bit p i"
    and "\<And>k. k \<in> set ks \<Longrightarrow> k < 14"
  shows "concat (map lin_tab (bases ks basis5)) ! (32 * p + unat z) = out5 (bfly c ks (zb z))"
  using block_nth [OF assms(1-3)] sel_bfly [of "zb z" basis5 ks c] assms(4)
  by (simp add: xsum_sel out5_def)

section \<open>Table lookup and bit-wise version\<close>

lemma unat_index:
  fixes q :: u16 and z :: u8
  assumes "unat q < 128" and "unat z < 32"
  shows "unat (push_bit 5 q OR ucast z) = 32 * unat q + unat z"
proof -
  have "push_bit 5 (unat q) AND unat z = 0"
    by (rule bit_eqI) (use assms(2) low_bits [of z 5] in \<open>force simp: bit_simps bit_unsigned_iff\<close>)
  then have o: "push_bit 5 (unat q) OR unat z = push_bit 5 (unat q) + unat z"
    by (rule disjunctive_add_eq_or [symmetric])
  have "push_bit 5 (unat q) < 2 ^ LENGTH(16)" using assms(1) by (simp add: push_bit_eq_mult)
  then have "unat (push_bit 5 q) = push_bit 5 (unat q)"
    by (metis take_bit_nat_eq_self unsigned_push_bit_eq)
  moreover have "unat (ucast z :: u16) = unat z"
    using assms(2) by (simp add: unsigned_ucast_eq take_bit_nat_eq_self)
  ultimately show ?thesis using o by (simp add: unsigned_or_eq push_bit_eq_mult)
qed

definition ctl :: "u8 \<Rightarrow> u16 \<Rightarrow> u16" where
  "ctl p_high p_low = (p_low AND 0x1ff) OR push_bit 9 (ucast (p_high AND 0x1f))"

lemma bit_ctl: "bit (ctl ph pl) i \<longleftrightarrow> (if i < 9 then bit pl i else i < 14 \<and> bit ph (i - 9))"
  unfolding ctl_def and_masks by (auto simp: bit_simps)

lemma unat_and_31: "unat (z AND 0x1f :: u8) < 32"
  unfolding and_masks using unat_less_bits [of "take_bit 5 z" 5] by (simp add: bit_simps)

lemma lut_half:
  fixes q :: u16 and z :: u8
  assumes "unat q < 128" and "unat z < 32" and "\<And>i. i < 7 \<Longrightarrow> c (k + i) = bit q i" and "k \<le> 7"
  shows "rd (concat (map lin_tab (bases [k..<k + 7] basis5))) (unat (push_bit 5 q OR ucast z)) =
    Inr (out5 (bfly c [k..<k + 7] (zb z)))"
proof -
  have "concat (map lin_tab (bases [k..<k + 7] basis5)) ! (32 * unat q + unat z) = out5 (bfly c [k..<k + 7] (zb z))"
    using assms by (intro block_bfly) (auto simp: bit_unsigned_iff)
  then show ?thesis
    using assms(1,2) unfolding unat_index [OF assms(1,2)]
    by (subst rd_ok) (auto simp: length_blocks)
qed

lemma halves: "[7..<7 + 7] = [7, 8, 9, 10, 11, 12, 13 :: nat]" "[0..<0 + 7] = [0, 1, 2, 3, 4, 5, 6 :: nat]"
  by (simp_all add: upt_conv_Cons)

lemma perm5_lut_halves:
  "perm5_lut = [concat (map lin_tab (bases [7..<7 + 7] basis5)), concat (map lin_tab (bases [0..<0 + 7] basis5))]"
  unfolding halves by (rule perm5_lut_blocks)

lemma unat_out5: "length zs = 5 \<Longrightarrow> unat (out5 zs) < 32"
  using unat_less_bits [of "out5 zs" 5] by (simp add: bit_out5)

theorem perm5_bfly:
  "perm5 z ph pl = Inr (out5 (bfly (bit (ctl ph pl)) [0..<14] (zb (z AND 0x1f))))"
proof -
  let ?p = "ctl ph pl" and ?z = "z AND 0x1f"
  define hi where "hi = out5 (bfly (bit ?p) [7..<7 + 7] (zb ?z))"
  have q: "unat (drop_bit 7 ?p) < 128" "unat (0x7f AND ?p) < 128"
  proof -
    have "bit (drop_bit 7 ?p) j \<Longrightarrow> j < 7" "bit (0x7f AND ?p) j \<Longrightarrow> j < 7" for j
      unfolding and_masks by (auto simp: bit_simps bit_ctl split: if_splits)
    then show "unat (drop_bit 7 ?p) < 128" "unat (0x7f AND ?p) < 128"
      using unat_less_bits [of _ 7] by force+
  qed
  have "rd (concat (map lin_tab (bases [7..<7 + 7] basis5))) (unat (push_bit 5 (drop_bit 7 ?p) OR ucast ?z)) = Inr hi"
    unfolding hi_def by (rule lut_half [OF q(1) unat_and_31]) (simp_all add: bit_simps)
  moreover have "rd (concat (map lin_tab (bases [0..<0 + 7] basis5))) (unat (push_bit 5 (0x7f AND ?p) OR ucast hi))
      = Inr (out5 (bfly (bit ?p) [0..<0 + 7] (zb hi)))"
    by (rule lut_half [OF q(2)]) (simp_all add: hi_def unat_out5 bit_simps and_masks)
  moreover have "zb hi = bfly (bit ?p) [7..<7 + 7] (zb ?z)"
    unfolding hi_def by (simp add: zb_out5)
  moreover have "[0..<14] = [0..<0 + 7] @ [7..<7 + 7 :: nat]" by (simp add: upt_conv_Cons)
  ultimately show ?thesis
    unfolding perm5_def ctl_def [symmetric] Let_def perm5_lut_halves by (simp add: bfly_append)
qed

section \<open>The bit-wise versions\<close>

abbreviation bit_of :: "bool \<Rightarrow> u8" where
  "bit_of b \<equiv> (if b then 1 else 0)"

lemma and_1_bit: "(x :: 'a::len word) AND 1 = (if bit x 0 then 1 else 0)"
  by (simp add: and_one_eq bit_0 odd_iff_mod_2_eq_one even_iff_mod_2_eq_zero)

lemma z_bits_zb: "z_bits z = map bit_of (zb z)"
  unfolding z_bits_def zb_def by (simp add: and_1_bit bit_drop_bit_eq)

lemma index_bounds: "k < 14 \<Longrightarrow> index1 ! k < 5 \<and> index2 ! k < 5"
  using less14_cases [of k] by (auto simp: index1_def index2_def)

lemma swp_map: "k < 14 \<Longrightarrow> length zs = 5 \<Longrightarrow> swp k (map f zs) = map f (swp k zs)"
  using index_bounds [of k] by (simp add: swp_def map_update)

lemma fold_exchange:
  assumes "length zs = 5" and "\<And>k. k \<in> set ks \<Longrightarrow> k < 14 \<and> (e k \<longleftrightarrow> c k)"
  shows "fold (\<lambda>k. exchange (e k) k) (rev ks) (map bit_of zs) = map bit_of (bfly c ks zs)"
  using assms
proof (induction ks arbitrary: zs rule: rev_induct)
  case (snoc k ks)
  then show ?case by (simp add: exchange_def swp_map)
qed (simp add: bfly_def)

lemma rebuild_out5:
  assumes "length zs = 5"
  shows "rebuild (map bit_of zs) = out5 zs"
proof -
  obtain a b c d e where z: "zs = [a, b, c, d, e]" using assms by (rule length5E)
  show ?thesis unfolding z rebuild_def out5_def by (simp add: upt_conv_Cons)
qed

lemma ctl_bits:
  assumes "i < 14"
  shows "(map (\<lambda>i. drop_bit i (pl AND 0x1ff) AND 1) [0..<9] @
      map (\<lambda>i. ucast (drop_bit i (ph AND 0x1f)) AND 1) [0..<5]) ! i \<noteq> (0 :: u16) \<longleftrightarrow> bit (ctl ph pl) i"
  using assms unfolding and_masks(9,17) 
  by (auto simp: nth_append and_1_bit bit_simps bit_ctl)

lemma perm5_slow_bfly: "perm5_slow z ph pl = out5 (bfly (bit (ctl ph pl)) [0..<14] (zb (z AND 0x1f)))"
proof -
  let ?p = "map (\<lambda>i. drop_bit i (pl AND 0x1ff) AND 1) [0..<9] @
      map (\<lambda>i. ucast (drop_bit i (ph AND 0x1f)) AND 1) [0..<5]"
  have "fold (\<lambda>i. exchange (?p ! i \<noteq> (0 :: u16)) i) (rev [0..<14]) (map bit_of (zb (z AND 0x1f))) =
      map bit_of (bfly (bit (ctl ph pl)) [0..<14] (zb (z AND 0x1f)))"
    by (rule fold_exchange) (simp, use ctl_bits in simp)
  then show ?thesis unfolding perm5_slow_def Let_def z_bits_zb by (simp only: rebuild_out5 length_bfly length_zb)
qed

lemma and_push_bit_1: "(p :: 'a::len word) AND push_bit i 1 \<noteq> 0 \<longleftrightarrow> bit p i"
proof -
  have "bit (p AND push_bit i 1) n \<longleftrightarrow> n = i \<and> bit p i" for n
    by (auto simp: bit_simps dest: bit_imp_le_length)
  then show ?thesis by (metis bit_eqI bit_0_eq bot_apply bot_bool_def)
qed

lemmas and_exp_1 = and_push_bit_1 [unfolded push_bit_eq_mult mult_1]

lemma perm5_short_bfly:
  assumes "k = 7 \<or> k = 0" and "\<And>i. 7 \<le> i \<Longrightarrow> \<not> bit p i"
  shows "perm5_short z p (7 - k) = out5 (bfly (\<lambda>i. bit p (i - k)) [k..<k + 7] (zb (z AND 0x1f)))"
proof -
  let ?e = "\<lambda>i. push_bit k p AND push_bit i 1 \<noteq> 0"
  have "fold (\<lambda>j. let i = 14 - 1 - (7 - k) - j in exchange (?e i) i) [0..<7] zs = fold (\<lambda>i. exchange (?e i) i) (rev [k..<k + 7]) zs" for zs
    using assms(1) by (auto simp: upt_conv_Cons)
  moreover have "fold (\<lambda>i. exchange (?e i) i) (rev [k..<k + 7]) (map bit_of (zb (z AND 0x1f))) =
      map bit_of (bfly (\<lambda>i. bit p (i - k)) [k..<k + 7] (zb (z AND 0x1f)))"
    by (rule fold_exchange) (simp, use assms(1) in \<open>auto simp: and_exp_1 bit_simps\<close>)
  moreover have "7 - (7 - k) = k" using assms(1) by auto
  ultimately show ?thesis
    unfolding perm5_short_def Let_def z_bits_zb by (simp only: rebuild_out5 length_bfly length_zb)
qed

text \<open>C22: The table lookup that the firmware uses for the hop permutation agrees with the bit-wise
  butterfly of the specification for every input.\<close>

theorem perm5_eq_slow: "perm5 z p_high p_low = Inr (perm5_slow z p_high p_low)"
  unfolding perm5_bfly perm5_slow_bfly by (rule refl)

lemma swp_swp:
  assumes "k < 14" and "length zs = 5"
  shows "swp k (swp k zs) = zs"
proof -
  obtain a b c d e where "zs = [a, b, c, d, e]" using assms(2) by (rule length5E)
  then show ?thesis using less14_cases [OF assms(1)] by (auto simp: swp_eval swp_eval(2) [unfolded One_nat_def])
qed

lemma bfly_inj:
  assumes "length xs = 5" "length ys = 5" "\<And>k. k \<in> set ks \<Longrightarrow> k < 14" and "bfly c ks xs = bfly c ks ys"
  shows "xs = ys"
  using assms
proof (induction ks arbitrary: xs ys rule: rev_induct)
  case (snoc k ks)
  have "(if c k then swp k xs else xs) = (if c k then swp k ys else ys)"
    by (rule snoc.IH) (use snoc.prems(1-3) in simp, use snoc.prems(1-3) in simp, use snoc.prems(3) in simp,
      use snoc.prems(4) in simp)
  moreover have "swp k (swp k xs) = xs" "swp k (swp k ys) = ys"
    using snoc.prems(1-3) by (simp_all add: swp_swp)
  ultimately show ?case by (cases "c k") metis+
qed (simp add: bfly_def)

text \<open>For fixed control bits the lookup is a permutation of the 32 five-bit values.\<close>

theorem perm5_permutation:
  "bij_betw (\<lambda>z. projr (perm5 z p_high p_low)) {z. unat z < 32} {z. unat z < 32}"
proof (rule bij_betw_imageI)
  let ?f = "\<lambda>z. projr (perm5 z p_high p_low)"
  have m: "z AND 0x1f = z" if "unat z < 32" for z :: u8
    unfolding and_masks by (rule bit_word_eqI) (use that low_bits [of z 5] in \<open>auto simp: bit_simps\<close>)
  have zinj: "x = y" if "zb x = zb y" and "unat x < 32" "unat y < 32" for x y :: u8
  proof (rule bit_eqI)
    fix n
    have "n < 5 \<Longrightarrow> bit x n = bit y n" using arg_cong [OF that(1), of "\<lambda>l. l ! n"] by (simp add: zb_def)
    then show "bit x n = bit y n" using low_bits [of x 5 n] low_bits [of y 5 n] that(2,3) by auto
  qed
  show "inj_on ?f {z. unat z < 32}"
  proof (rule inj_onI)
    fix x y assume xy: "x \<in> {z. unat z < 32}" "y \<in> {z. unat z < 32}" and "?f x = ?f y"
    then have "bfly (bit (ctl p_high p_low)) [0..<14] (zb x) = bfly (bit (ctl p_high p_low)) [0..<14] (zb y)"
      unfolding perm5_bfly by (metis length_bfly length_zb m mem_Collect_eq sum.sel(2) zb_out5)
    then have "zb x = zb y" by (rule bfly_inj [rotated -1]) simp_all
    then show "x = y" using xy by (intro zinj) simp_all
  qed
  moreover have "?f ` {z. unat z < 32} \<subseteq> {z. unat z < 32}"
    unfolding perm5_bfly by (auto simp: unat_out5)
  ultimately show "?f ` {z. unat z < 32} = {z. unat z < 32}"
    by (intro endo_inj_surj) simp_all
qed

section \<open>Filling the tables\<close>

lemma perm5_lut_entry:
  assumes "z < 32" and "p < 128"
  shows "perm5_lut ! 0 ! (z + 32 * p) = perm5_short (of_nat z) (of_nat p) 0"
    and "perm5_lut ! 1 ! (z + 32 * p) = perm5_short (of_nat z) (of_nat p) 7"
proof -
  have z: "unat (of_nat z :: u8) = z" using assms(1) by (simp add: unat_of_nat)
  have m: "(of_nat z :: u8) AND 0x1f = of_nat z" (is "?z AND _ = _")
    unfolding and_masks by (rule bit_word_eqI) (use z assms(1) low_bits [of ?z 5] in \<open>auto simp: bit_simps\<close>)
  have b: "bit (of_nat p :: u16) i = bit p i" if "i < 7" for i
    using that by (simp add: bit_of_nat_iff)
  have b7: "\<not> bit (of_nat p :: u16) i" if "7 \<le> i" for i
  proof -
    have "take_bit 7 p = p" using assms(2) by (simp add: take_bit_nat_eq_self)
    then have "\<not> bit p i" using that by (metis bit_take_bit_iff not_less)
    then show ?thesis by (simp add: bit_of_nat_iff)
  qed
  have e: "concat (map lin_tab (bases [k..<k + 7] basis5)) ! (z + 32 * p) = perm5_short ?z (of_nat p) (7 - k)"
    if "k = 7 \<or> k = 0" for k
  proof -
    have "concat (map lin_tab (bases [k..<k + 7] basis5)) ! (32 * p + unat ?z) =
        out5 (bfly (\<lambda>i. bit (of_nat p :: u16) (i - k)) [k..<k + 7] (zb ?z))"
      by (rule block_bfly) (use assms z b that in auto)
    then show ?thesis using perm5_short_bfly [of k "of_nat p" ?z] that b7 m z by (simp add: add.commute)
  qed
  show "perm5_lut ! 0 ! (z + 32 * p) = perm5_short (of_nat z) (of_nat p) 0"
    using e [of 7] unfolding perm5_lut_halves by simp
  show "perm5_lut ! 1 ! (z + 32 * p) = perm5_short (of_nat z) (of_nat p) 7"
    using e [of 0] unfolding perm5_lut_halves by simp
qed

text \<open>What is filled after the columns below \<open>z\<close> and the rows below \<open>p\<close> of column \<open>z\<close>.\<close>

definition filled :: "nat \<Rightarrow> nat \<Rightarrow> u8 list list \<Rightarrow> bool" where
  "filled z p lut \<longleftrightarrow> length lut = 2 \<and> length (lut ! 0) = 4096 \<and> length (lut ! 1) = 4096 \<and>
     (\<forall>k < 4096. k mod 32 < z \<or> k mod 32 = z \<and> k div 32 < p \<longrightarrow>
        lut ! 0 ! k = perm5_lut ! 0 ! k \<and> lut ! 1 ! k = perm5_lut ! 1 ! k)"

lemma filled_next: "filled z 128 lut \<Longrightarrow> filled (Suc z) 0 lut"
  by (auto simp: filled_def less_Suc_eq)

lemma length2E:
  assumes "length xs = 2"
  obtains a b where "xs = [a, b]"
  using assms by (auto simp: numeral_eq_Suc length_Suc_conv simp del: Suc_Suc_0)

lemma filled_step:
  assumes "filled z p lut" and "z < 32" and "p < 128"
  shows "\<exists>lut'. precal_at z p lut = Inr lut' \<and> filled z (Suc p) lut'"
proof -
  obtain a b where lut: "lut = [a, b]" using assms(1) by (auto simp: filled_def elim: length2E)
  let ?i = "z + 32 * p"
  have i: "?i < 4096" using assms(2,3) by simp
  let ?n = "[a[?i := perm5_lut ! 0 ! ?i], b[?i := perm5_lut ! 1 ! ?i]]"
  have "filled z (Suc p) ?n"
    unfolding filled_def
  proof (intro conjI allI impI)
    fix k :: nat assume k: "k < 4096" and c: "k mod 32 < z \<or> k mod 32 = z \<and> k div 32 < Suc p"
    have h: "k mod 32 < z \<or> k mod 32 = z \<and> k div 32 < p" if "k \<noteq> ?i"
    proof (cases "k mod 32 = z \<and> k div 32 = p")
      case True
      then have "k = ?i" using mod_mult_div_eq [of k 32] by simp
      then show ?thesis using that by simp
    qed (use c in auto)
    have "a ! k = perm5_lut ! 0 ! k \<and> b ! k = perm5_lut ! 1 ! k" if ne: "k \<noteq> ?i"
      using h [OF ne] assms(1) k unfolding filled_def lut by auto
    then show "?n ! 0 ! k = perm5_lut ! 0 ! k" "?n ! 1 ! k = perm5_lut ! 1 ! k"
      using assms(1) k unfolding filled_def lut by (cases "k = ?i"; simp)+
  qed (use assms(1) in \<open>simp_all add: filled_def lut\<close>)
  then show ?thesis
    using assms(1) i perm5_lut_entry [OF assms(2,3)] by (simp add: lut filled_def precal_at_def)
qed

text \<open>\<open>perm5_precal\<close>, the program that computes the two tables, stores exactly the
  tables of the source, whatever the arrays held before.\<close>

theorem perm5_precal_eq:
  assumes "length lut = 2" and "length (lut ! 0) = 4096" and "length (lut ! 1) = 4096"
  shows "perm5_precal lut = Inr perm5_lut"
proof -
  have "\<exists>lut'. perm5_precal lut = Inr lut' \<and> filled 32 0 lut'"
    unfolding perm5_precal_def
  proof (rule loop_inv)
    show "filled 0 0 lut" using assms by (simp add: filled_def)
  next
    fix z s assume z: "z < (32 :: nat)" and "filled z 0 s"
    have "\<exists>s'. loop 128 (precal_at z) s = Inr s' \<and> filled z 128 s'"
      by (rule loop_inv [of "filled z"]) (use \<open>filled z 0 s\<close> filled_step [OF _ z] in simp_all)
    then show "\<exists>s'. loop 128 (precal_at z) s = Inr s' \<and> filled (Suc z) 0 s'"
      using filled_next by blast
  qed
  then obtain lut' where r: "perm5_precal lut = Inr lut'" and f: "filled 32 0 lut'" by blast
  obtain a b where l: "lut' = [a, b]" using f by (auto simp: filled_def elim: length2E)
  have len: "length (perm5_lut ! 0) = 4096" "length (perm5_lut ! 1) = 4096"
    unfolding perm5_lut_halves by (simp_all only: nth_Cons_0 nth_Cons_Suc One_nat_def length_blocks, simp_all)
  have "a = perm5_lut ! 0" "b = perm5_lut ! 1"
    using f len by (auto simp: filled_def l intro: nth_equalityI)
  moreover have "perm5_lut = [perm5_lut ! 0, perm5_lut ! 1]" unfolding perm5_lut_def by simp
  ultimately show ?thesis using r l by simp
qed

theorem perm5_precal_eq_witness:
  "perm5_precal [replicate 4096 0, replicate 4096 0xff] = Inr perm5_lut"
  by (rule perm5_precal_eq) simp_all

end
