(* ===== verification/Hop.thy ===== *)
theory Hop
  imports Perm5
begin

text \<open>
  The hop selection of src/btphy/hop.c: the frequency register banks, the selection kernel, the basic
  and adapted (AFH) hopping sequences and the inquiry and page sequences.
\<close>

section \<open>State\<close>

abbreviation NUM_BREDR_CHANNELS :: nat where
  "NUM_BREDR_CHANNELS \<equiv> 79"

datatype btphy_mode = BT_MODE_INQUIRY | BT_MODE_PAGING | BT_MODE_INQUIRY_SCAN | BT_MODE_PAGE_SCAN
  | BT_MODE_MASTER | BT_MODE_SLAVE

text \<open>\<open>bank\<close> points to one of the two register banks.\<close>

datatype bank_ptr = Basic_bank | Afh_bank

record hop_state =
  a27_23 :: u8
  a22_19 :: u8
  hop_C :: u8
  hop_E :: u8
  a18_10 :: u16
  hop_x :: u8
  basic_bank :: "u8 list"
  afh_bank :: "u8 list"
  afh_chan_count :: u8
  afh_enabled :: u8
  bank :: bank_ptr
  chan_count :: u8

definition bank_of :: "hop_state \<Rightarrow> u8 list" where
  "bank_of hs = (case bank hs of Basic_bank \<Rightarrow> basic_bank hs | Afh_bank \<Rightarrow> afh_bank hs)"

section \<open>Operations\<close>

definition addr_C :: "u32 \<Rightarrow> u8" where
  "addr_C address = ucast
     ((drop_bit 4 address AND 0x10) OR (drop_bit 3 address AND 0x08) OR (drop_bit 2 address AND 0x04) OR
      (drop_bit 1 address AND 0x02) OR (address AND 0x01))"

definition addr_E :: "u32 \<Rightarrow> u8" where
  "addr_E address = ucast
     ((drop_bit 7 address AND 0x40) + (drop_bit 6 address AND 0x20) + (drop_bit 5 address AND 0x10) +
      (drop_bit 4 address AND 0x08) + (drop_bit 3 address AND 0x04) + (drop_bit 2 address AND 0x02) +
      (drop_bit 1 address AND 0x01))"

definition hop_init :: "u32 \<Rightarrow> hop_state \<Rightarrow> hop_state res" where
  "hop_init address hs =
     bnd (loop NUM_BREDR_CHANNELS (\<lambda>i b. wr b i (of_nat (i * 2 mod NUM_BREDR_CHANNELS))) (basic_bank hs)) (\<lambda>b.
     Inr (hs\<lparr>basic_bank := b,
       a27_23 := ucast (drop_bit 23 address AND 0x1f), a22_19 := ucast (drop_bit 19 address AND 0x0f),
       hop_C := addr_C address, a18_10 := ucast (drop_bit 10 address AND 0x1ff), hop_E := addr_E address,
       hop_x := 0, afh_enabled := 0, bank := Basic_bank, chan_count := of_nat NUM_BREDR_CHANNELS\<rparr>))"

definition hop_selection_kernel :: "u8 \<Rightarrow> u8 \<Rightarrow> u8 \<Rightarrow> u8 \<Rightarrow> u8 \<Rightarrow> u8 \<Rightarrow> u16 \<Rightarrow> u8 \<Rightarrow> u8 \<Rightarrow> u8 res" where
  "hop_selection_kernel x y1 y2 a b c d e f =
     (let y1 = NOT (y1 - 1) in
      bnd (perm5 ((a + x) XOR b) (y1 XOR c) d) (\<lambda>p. Inr (p + e + f + y2)))"

definition umod :: "'a::len word \<Rightarrow> 'a word \<Rightarrow> 'a word res" where
  "umod a b = (if b = 0 then Inl Div0 else Inr (a mod b))"

definition hop_inquiry :: "u32 \<Rightarrow> hop_state \<Rightarrow> u8 res" where
  "hop_inquiry clk hs =
     (let clk1 = ucast (1 AND drop_bit 1 clk) in
      bnd (hop_selection_kernel (hop_x hs) clk1 (push_bit 5 clk1) (a27_23 hs) (a22_19 hs) (hop_C hs)
        (a18_10 hs) (hop_E hs) 0) (\<lambda>k.
      bnd (umod k (of_nat NUM_BREDR_CHANNELS)) (\<lambda>sel.
      rd (basic_bank hs) (unat sel))))"

definition hop_set_afh_map :: "u8 list \<Rightarrow> hop_state \<Rightarrow> hop_state res" where
  "hop_set_afh_map afh_map hs =
     bnd (loop NUM_BREDR_CHANNELS (\<lambda>i (b, count).
       bnd (rd (basic_bank hs) i) (\<lambda>chan.
       bnd (rd afh_map (unat chan div 8)) (\<lambda>m.
       if m AND push_bit (unat chan mod 8) 1 \<noteq> 0
       then bnd (wr b count chan) (\<lambda>b. Inr (b, count + 1))
       else Inr (b, count)))) (afh_bank hs, 0 :: nat)) (\<lambda>(b, count).
     Inr (hs\<lparr>afh_bank := b, afh_chan_count := of_nat count\<rparr>))"

definition hop_cfg_afh :: "u8 list \<Rightarrow> hop_state \<Rightarrow> hop_state res" where
  "hop_cfg_afh buf hs =
     bnd (rd buf 0) (\<lambda>b0.
     let enabled = b0 AND 1; afh_map = drop 1 buf in
     bnd (if enabled \<noteq> 0
          then bnd (hop_set_afh_map afh_map hs) (\<lambda>hs.
               Inr (hs\<lparr>bank := Afh_bank, chan_count := afh_chan_count hs\<rparr>))
          else Inr (hs\<lparr>bank := Basic_bank, chan_count := of_nat NUM_BREDR_CHANNELS\<rparr>)) (\<lambda>hs.
     Inr (hs\<lparr>afh_enabled := enabled\<rparr>)))"

definition hop_basic :: "u32 \<Rightarrow> hop_state \<Rightarrow> u8 res" where
  "hop_basic clk hs =
     (let clk1 = (if afh_enabled hs \<noteq> 0 then 0 else ucast (1 AND drop_bit 1 clk)) in
      bnd (umod (drop_bit (7 - 4) clk AND push_bit 4 0x1fffff) (ucast (chan_count hs))) (\<lambda>f.
      bnd (hop_selection_kernel
        (ucast (0x1f AND drop_bit 2 clk))
        clk1
        (push_bit 5 clk1)
        (a27_23 hs XOR ucast (0x1f AND drop_bit 21 clk))
        (a22_19 hs)
        (hop_C hs XOR ucast (0x1f AND drop_bit 16 clk))
        (a18_10 hs XOR ucast (0x1ff AND drop_bit 7 clk))
        (hop_E hs)
        (ucast f)) (\<lambda>sel.
      bnd (umod sel (chan_count hs)) (\<lambda>i.
      rd (bank_of hs) (unat i)))))"

definition hop_channel :: "btphy_mode \<Rightarrow> u32 \<Rightarrow> hop_state \<Rightarrow> u8 res" where
  "hop_channel mode clk hs =
     (case mode of
        BT_MODE_INQUIRY \<Rightarrow> hop_inquiry clk hs
      | BT_MODE_PAGING \<Rightarrow> hop_inquiry clk hs
      | BT_MODE_INQUIRY_SCAN \<Rightarrow> hop_inquiry clk hs
      | BT_MODE_PAGE_SCAN \<Rightarrow> hop_inquiry clk hs
      | BT_MODE_MASTER \<Rightarrow> hop_basic clk hs
      | BT_MODE_SLAVE \<Rightarrow> hop_basic clk hs)"

definition hop_increment :: "hop_state \<Rightarrow> hop_state" where
  "hop_increment hs = hs\<lparr>hop_x := hop_x hs + 1\<rparr>"

section \<open>The banks\<close>

definition bank79 :: "u8 list" where
  "bank79 = map (\<lambda>i. of_nat (i * 2 mod 79)) [0..<79]"

lemma length_bank79 [simp]: "length bank79 = 79"
  by (simp add: bank79_def)

lemma unat_bank79: "i < 79 \<Longrightarrow> unat (bank79 ! i) = i * 2 mod 79"
proof -
  assume "i < 79"
  moreover have "i * 2 mod 79 < 79" by simp
  then have "i * 2 mod 79 < 2 ^ 8" by (rule less_trans) simp
  ultimately show ?thesis by (simp add: bank79_def unat_of_nat)
qed

lemma fill_bank79:
  "length b = 79 \<Longrightarrow> loop 79 (\<lambda>i b. wr b i (of_nat (i * 2 mod 79))) b = Inr bank79"
  using loop_fill [of 79 b "\<lambda>i. Inr (of_nat (i * 2 mod 79))" "\<lambda>i. of_nat (i * 2 mod 79)"]
  by (simp add: bank79_def)

lemma bank79_bij: "bij_betw (\<lambda>i. unat (bank79 ! i)) {..<79} {..<79}"
proof -
  have "inj_on (\<lambda>i. i * 2 mod 79 :: nat) {..<79}"
  proof (rule inj_on_inverseI [where g = "\<lambda>k. k * 40 mod 79"])
    fix x :: nat assume x: "x \<in> {..<79}"
    have "x * 2 mod 79 * 40 mod 79 = (x + 79 * x) mod 79" by (simp add: mod_mult_left_eq)
    also have "\<dots> = x mod 79" by (rule mod_mult_self2)
    also have "\<dots> = x" using x by simp
    finally show "x * 2 mod 79 * 40 mod 79 = x" .
  qed
  then have "inj_on (\<lambda>i. unat (bank79 ! i)) {..<79}"
    by (rule inj_on_cong [THEN iffD1, rotated]) (simp add: unat_bank79)
  moreover have "(\<lambda>i. unat (bank79 ! i)) ` {..<79} \<subseteq> {..<79}"
    by (auto simp: unat_bank79)
  ultimately show ?thesis
    unfolding bij_betw_def by (intro conjI endo_inj_surj) simp_all
qed

text \<open>
  The invariant of the hop state: the basic bank lists the 79 channels, the AFH bank holds channels,
  the bank in use has \<open>chan_count\<close> entries.
\<close>

definition hop_inv :: "hop_state \<Rightarrow> bool" where
  "hop_inv hs \<longleftrightarrow> basic_bank hs = bank79 \<and> length (afh_bank hs) = 79 \<and>
     (\<forall>i < unat (afh_chan_count hs). unat (afh_bank hs ! i) < 79) \<and> unat (afh_chan_count hs) \<le> 79 \<and>
     (case bank hs of Basic_bank \<Rightarrow> chan_count hs = 79 | Afh_bank \<Rightarrow> chan_count hs = afh_chan_count hs)"

text \<open>The channels of an AFH map, in the order of the basic bank.\<close>

definition afh_on :: "u8 list \<Rightarrow> u8 \<Rightarrow> bool" where
  "afh_on afh_map chan = bit (afh_map ! (unat chan div 8)) (unat chan mod 8)"

definition afh_channels :: "u8 list \<Rightarrow> u8 list" where
  "afh_channels afh_map = filter (afh_on afh_map) bank79"

lemma length_afh_channels: "length (afh_channels afh_map) \<le> 79"
  using length_filter_le [of "afh_on afh_map" bank79] by (simp add: afh_channels_def)

lemma hop_set_afh_map_eq:
  assumes "basic_bank hs = bank79" and "length (afh_bank hs) = 79" and "10 \<le> length afh_map"
  shows "hop_set_afh_map afh_map hs = Inr (hs\<lparr>
    afh_bank := afh_channels afh_map @ drop (length (afh_channels afh_map)) (afh_bank hs),
    afh_chan_count := of_nat (length (afh_channels afh_map))\<rparr>)"
proof -
  define f where "f = (\<lambda>i (b, count).
       bnd (rd (basic_bank hs) i) (\<lambda>chan.
       bnd (rd afh_map (unat chan div 8)) (\<lambda>m.
       if m AND push_bit (unat chan mod 8) 1 \<noteq> 0
       then bnd (wr b count chan) (\<lambda>b. Inr (b, count + 1))
       else Inr (b, count))))"
  define g where "g = (\<lambda>n. filter (afh_on afh_map) (take n bank79))"
  have "\<exists>s. loop 79 f (afh_bank hs, 0) = Inr s \<and> s = (g 79 @ drop (length (g 79)) (afh_bank hs), length (g 79))"
  proof (rule loop_inv)
    show "(afh_bank hs, 0) = (g 0 @ drop (length (g 0)) (afh_bank hs), length (g 0))" by (simp add: g_def)
  next
    fix i s assume i: "i < 79" and s: "s = (g i @ drop (length (g i)) (afh_bank hs), length (g i))"
    let ?c = "bank79 ! i"
    have tk: "take (Suc i) bank79 = take i bank79 @ [?c]" using i by (simp add: take_Suc_conv_app_nth)
    have len: "length (g i) < 79"
      using length_filter_le [of "afh_on afh_map" "take i bank79"] i unfolding g_def by simp
    have "unat ?c < 79" using i by (simp add: unat_bank79)
    then have d: "unat ?c div 8 < length afh_map" using assms(3) by (simp add: less_mult_imp_div_less)
    have dr: "drop (length (g i)) (afh_bank hs) = afh_bank hs ! length (g i) # drop (Suc (length (g i))) (afh_bank hs)"
      using len assms(2) by (simp add: Cons_nth_drop_Suc)
    show "\<exists>s'. f i s = Inr s' \<and> s' = (g (Suc i) @ drop (length (g (Suc i))) (afh_bank hs), length (g (Suc i)))"
      using d len i dr assms(1,2) unfolding f_def s
      by (simp add: g_def tk afh_on_def and_exp_1 list_update_append)
  qed
  then have "loop 79 f (afh_bank hs, 0) = Inr (g 79 @ drop (length (g 79)) (afh_bank hs), length (g 79))" by simp
  moreover have "g 79 = afh_channels afh_map" by (simp add: g_def afh_channels_def)
  ultimately show ?thesis unfolding hop_set_afh_map_def f_def [symmetric] by simp
qed

section \<open>Reachable states\<close>

lemma hop_init_inv:
  assumes "length (basic_bank hs) = 79" and "length (afh_bank hs) = 79" and "afh_chan_count hs = 0"
  shows "\<exists>hs'. hop_init address hs = Inr hs' \<and> hop_inv hs'"
  using assms by (simp add: hop_init_def fill_bank79 hop_inv_def)

lemma set_bank79_less: "c \<in> set bank79 \<Longrightarrow> unat c < 79"
  by (metis in_set_conv_nth length_bank79 unat_bank79 mod_less_divisor zero_less_numeral)

lemma set_bank79: "unat c < 79 \<Longrightarrow> c \<in> set bank79"
proof -
  assume "unat c < 79"
  then have "unat c \<in> (\<lambda>i. unat (bank79 ! i)) ` {..<79}" using bank79_bij by (simp add: bij_betw_def)
  then obtain i where "i < 79" and "unat c = unat (bank79 ! i)" by auto
  then have "i < 79" and "c = bank79 ! i" by (simp_all add: unsigned_word_eqI)
  then show "c \<in> set bank79" by simp
qed

lemma afh_count: "unat (of_nat (length (afh_channels m)) :: u8) = length (afh_channels m)"
  using length_afh_channels [of m] by (simp add: unat_of_nat)

text \<open>The state that a configuration with the map \<open>m\<close> leads to.\<close>

definition afh_state :: "u8 list \<Rightarrow> hop_state \<Rightarrow> hop_state" where
  "afh_state m hs = hs\<lparr>afh_bank := afh_channels m @ drop (length (afh_channels m)) (afh_bank hs),
     afh_chan_count := of_nat (length (afh_channels m)), bank := Afh_bank,
     chan_count := of_nat (length (afh_channels m)), afh_enabled := 1\<rparr>"

lemma hop_cfg_afh_on:
  assumes "hop_inv hs" and "11 \<le> length buf" and "bit (buf ! 0) 0"
  shows "hop_cfg_afh buf hs = Inr (afh_state (drop 1 buf) hs)"
proof -
  have "hop_set_afh_map (drop 1 buf) hs = Inr (hs\<lparr>
      afh_bank := afh_channels (drop 1 buf) @ drop (length (afh_channels (drop 1 buf))) (afh_bank hs),
      afh_chan_count := of_nat (length (afh_channels (drop 1 buf)))\<rparr>)"
    by (rule hop_set_afh_map_eq) (use assms in \<open>simp_all add: hop_inv_def\<close>)
  moreover have "rd buf 0 = Inr (buf ! 0)" using assms(2) by (intro rd_ok) linarith
  moreover have "buf ! 0 AND 1 = 1" using assms(3) by (simp add: and_1_bit)
  ultimately show ?thesis by (simp add: hop_cfg_afh_def afh_state_def)
qed

lemma hop_cfg_afh_off:
  assumes "11 \<le> length buf" and "\<not> bit (buf ! 0) 0"
  shows "hop_cfg_afh buf hs = Inr (hs\<lparr>bank := Basic_bank, chan_count := 79, afh_enabled := 0\<rparr>)"
proof -
  have "rd buf 0 = Inr (buf ! 0)" using assms(1) by (intro rd_ok) linarith
  moreover have "buf ! 0 AND 1 = 0" using assms(2) by (simp add: and_1_bit)
  ultimately show ?thesis by (simp add: hop_cfg_afh_def)
qed

lemma afh_channels_less: "c \<in> set (afh_channels m) \<Longrightarrow> unat c < 79"
  by (auto simp: afh_channels_def dest: set_bank79_less)

lemma afh_state_inv:
  assumes "hop_inv hs"
  shows "hop_inv (afh_state m hs)"
proof -
  have "unat (afh_channels m ! i) < 79" if "i < length (afh_channels m)" for i
    using nth_mem [OF that] by (rule afh_channels_less)
  then show ?thesis
    using assms length_afh_channels [of m] by (auto simp: hop_inv_def afh_state_def afh_count nth_append)
qed

lemma hop_cfg_afh_inv:
  assumes "hop_inv hs" and "11 \<le> length buf" and "hop_cfg_afh buf hs = Inr hs'"
  shows "hop_inv hs'"
proof (cases "bit (buf ! 0) 0")
  case True
  then show ?thesis using assms afh_state_inv hop_cfg_afh_on [OF assms(1,2)] by auto
next
  case False
  then show ?thesis using assms by (auto simp: hop_cfg_afh_off hop_inv_def)
qed

lemma unat_umod: "b \<noteq> 0 \<Longrightarrow> umod a b = Inr (a mod b)" "unat (a mod b) = unat a mod unat b"
  by (simp_all add: umod_def unat_mod)

lemma hop_inquiry_ok:
  assumes "hop_inv hs"
  shows "\<exists>ch. hop_inquiry clk hs = Inr ch \<and> unat ch < 79"
proof -
  have "unat (k mod 79) < 79" for k :: u8 by (simp add: unat_mod)
  then show ?thesis
    using assms by (simp add: hop_inquiry_def hop_selection_kernel_def perm5_eq_slow unat_umod(1) hop_inv_def Let_def unat_bank79)
qed

text \<open>The kernel input of \<open>hop_basic\<close> at a clock, as the selection rule of the specification has it.\<close>

definition clk1_of :: "u32 \<Rightarrow> hop_state \<Rightarrow> u8" where
  "clk1_of clk hs = (if afh_enabled hs \<noteq> 0 then 0 else ucast (1 AND drop_bit 1 clk))"

definition sel_F :: "u32 \<Rightarrow> u8 \<Rightarrow> u32" where
  "sel_F clk n = (drop_bit 3 clk AND 0x1fffff0) mod ucast n"

definition sel_perm :: "u32 \<Rightarrow> hop_state \<Rightarrow> u8" where
  "sel_perm clk hs = perm5_slow
     ((a27_23 hs XOR ucast (0x1f AND drop_bit 21 clk)) + ucast (0x1f AND drop_bit 2 clk) XOR a22_19 hs)
     (NOT (clk1_of clk hs - 1) XOR (hop_C hs XOR ucast (0x1f AND drop_bit 16 clk)))
     (a18_10 hs XOR ucast (0x1ff AND drop_bit 7 clk))"

definition sel_sum :: "u32 \<Rightarrow> hop_state \<Rightarrow> u8" where
  "sel_sum clk hs = sel_perm clk hs + hop_E hs + ucast (sel_F clk (chan_count hs)) + push_bit 5 (clk1_of clk hs)"

lemma unat_ucast_u8: "unat (ucast (c :: u8) :: u32) = unat c"
proof -
  have "unat c < 256" using unsigned_less [of c] by simp
  then show ?thesis by (simp add: unsigned_ucast_eq take_bit_nat_eq_self)
qed

lemma ucast_u8_0: "(ucast (c :: u8) :: u32) = 0 \<longleftrightarrow> c = 0"
  by (metis unat_ucast_u8 unat_eq_0 unsigned_0)

lemma hop_basic_eq:
  assumes "chan_count hs \<noteq> 0"
  shows "hop_basic clk hs = rd (bank_of hs) (unat (sel_sum clk hs mod chan_count hs))"
proof -
  have "ucast (chan_count hs) \<noteq> (0 :: u32)" using assms by (simp add: ucast_u8_0)
  then show ?thesis
    unfolding hop_basic_def hop_selection_kernel_def clk1_of_def [symmetric] Let_def perm5_eq_slow
    using assms by (simp add: unat_umod(1) sel_sum_def sel_perm_def sel_F_def)
qed

lemma hop_basic_bank:
  assumes "hop_inv hs" and "chan_count hs \<noteq> 0"
  obtains i where "i < unat (chan_count hs)" and "hop_basic clk hs = Inr (bank_of hs ! i)"
proof -
  let ?i = "unat (sel_sum clk hs mod chan_count hs)"
  have "0 < unat (chan_count hs)" using assms(2) by (simp add: unat_gt_0)
  then have i: "?i < unat (chan_count hs)" by (simp add: unat_mod)
  moreover have "unat (chan_count hs) \<le> length (bank_of hs)"
    using assms(1) by (auto simp: hop_inv_def bank_of_def split: bank_ptr.splits)
  ultimately show ?thesis using that hop_basic_eq [OF assms(2)] by simp
qed

lemma hop_basic_div0: "chan_count hs = 0 \<Longrightarrow> hop_basic clk hs = Inl Div0"
  by (simp add: hop_basic_def umod_def Let_def)

text \<open>The static storage of \<open>hop_state\<close> and the calls that change it.\<close>

definition hop_zero :: hop_state where
  "hop_zero = \<lparr>a27_23 = 0, a22_19 = 0, hop_C = 0, hop_E = 0, a18_10 = 0, hop_x = 0,
     basic_bank = replicate 79 0, afh_bank = replicate 79 0, afh_chan_count = 0, afh_enabled = 0,
     bank = Basic_bank, chan_count = 0\<rparr>"

inductive hop_reach :: "hop_state \<Rightarrow> bool" where
  reach_boot: "hop_init address hop_zero = Inr hs \<Longrightarrow> hop_reach hs"
| reach_init: "hop_reach hs \<Longrightarrow> hop_init address hs = Inr hs' \<Longrightarrow> hop_reach hs'"
| reach_cfg: "hop_reach hs \<Longrightarrow> 11 \<le> length buf \<Longrightarrow> hop_cfg_afh buf hs = Inr hs' \<Longrightarrow> hop_reach hs'"
| reach_inc: "hop_reach hs \<Longrightarrow> hop_reach (hop_increment hs)"

lemma hop_reach_inv: "hop_reach hs \<Longrightarrow> hop_inv hs"
proof (induction rule: hop_reach.induct)
  case (reach_boot address hs)
  then show ?case by (auto simp: hop_init_def hop_zero_def fill_bank79 hop_inv_def)
next
  case (reach_init hs address hs')
  then show ?case by (auto simp: hop_init_def fill_bank79 hop_inv_def)
next
  case (reach_cfg hs buf hs')
  then show ?case by (blast intro: hop_cfg_afh_inv)
next
  case (reach_inc hs)
  then show ?case by (cases "bank hs") (simp_all add: hop_increment_def hop_inv_def)
qed

text \<open>C17: In every state that the hop functions can reach, every mode's hop is one of the 79 channels;
  the only failure is the remainder by a channel count of zero, of an AFH map with no channel.\<close>

theorem hop_channel_in_band:
  assumes "hop_reach hs"
  shows "(\<exists>ch. hop_channel mode clk hs = Inr ch \<and> unat ch < NUM_BREDR_CHANNELS) \<or>
    (hop_channel mode clk hs = Inl Div0 \<and> mode \<in> {BT_MODE_MASTER, BT_MODE_SLAVE} \<and>
      bank hs = Afh_bank \<and> afh_chan_count hs = 0)"
proof -
  have inv: "hop_inv hs" using assms by (rule hop_reach_inv)
  have b: "(\<exists>ch. hop_basic clk hs = Inr ch \<and> unat ch < 79) \<or>
      (hop_basic clk hs = Inl Div0 \<and> bank hs = Afh_bank \<and> afh_chan_count hs = 0)"
  proof (cases "chan_count hs = 0")
    case True
    then show ?thesis using inv hop_basic_div0 [OF True] by (auto simp: hop_inv_def split: bank_ptr.splits)
  next
    case False
    obtain i where "i < unat (chan_count hs)" and "hop_basic clk hs = Inr (bank_of hs ! i)"
      using hop_basic_bank [OF inv False] .
    then show ?thesis
      using inv by (auto simp: hop_inv_def bank_of_def unat_bank79 split: bank_ptr.splits)
  qed
  then show ?thesis using hop_inquiry_ok [OF inv, of clk]
    by (cases mode) (simp_all add: hop_channel_def)
qed

lemma hop_init_reach: "\<exists>hs. hop_init address hop_zero = Inr hs \<and> hop_reach hs"
proof -
  obtain hs where "hop_init address hop_zero = Inr hs"
    by (simp add: hop_init_def hop_zero_def fill_bank79)
  then show ?thesis using reach_boot by blast
qed

theorem hop_channel_in_band_witness:
  "\<exists>hs. hop_init 0x9e8b33 hop_zero = Inr hs \<and>
    ((\<exists>ch. hop_channel BT_MODE_MASTER 77 hs = Inr ch \<and> unat ch < NUM_BREDR_CHANNELS) \<or>
    (hop_channel BT_MODE_MASTER 77 hs = Inl Div0 \<and> BT_MODE_MASTER \<in> {BT_MODE_MASTER, BT_MODE_SLAVE} \<and>
      bank hs = Afh_bank \<and> afh_chan_count hs = 0))"
  using hop_init_reach hop_channel_in_band by blast

text \<open>C18: After an AFH configuration whose map enables some channel, every hop of a connection is an
  enabled channel of that map, and with a map that enables none every hop divides by zero.\<close>

theorem afh_hops_enabled:
  assumes "hop_reach hs" and "11 \<le> length buf" and "bit (buf ! 0) 0" and "hop_cfg_afh buf hs = Inr hs'"
  shows "if \<exists>c. unat c < NUM_BREDR_CHANNELS \<and> afh_on (drop 1 buf) c
    then \<exists>ch. hop_basic clk hs' = Inr ch \<and> unat ch < NUM_BREDR_CHANNELS \<and> afh_on (drop 1 buf) ch
    else hop_basic clk hs' = Inl Div0"
proof -
  let ?m = "drop 1 buf"
  have inv: "hop_inv hs" using assms(1) by (rule hop_reach_inv)
  have hs': "hs' = afh_state ?m hs" using hop_cfg_afh_on [OF inv assms(2,3)] assms(4) by simp
  have ex: "(\<exists>c. unat c < 79 \<and> afh_on ?m c) \<longleftrightarrow> afh_channels ?m \<noteq> []"
    using set_bank79 set_bank79_less by (auto simp: afh_channels_def filter_empty_conv)
  show ?thesis
  proof (cases "afh_channels ?m = []")
    case True
    then have "chan_count hs' = 0" by (simp add: hs' afh_state_def)
    then show ?thesis using True hop_basic_div0 unfolding ex by simp
  next
    case False
    have cc: "unat (chan_count hs') = length (afh_channels ?m)"
      unfolding hs' afh_state_def by (simp add: afh_count)
    then have "chan_count hs' \<noteq> 0" using False by auto
    moreover have "hop_inv hs'" unfolding hs' by (rule afh_state_inv [OF inv])
    ultimately obtain i where "i < length (afh_channels ?m)" and "hop_basic clk hs' = Inr (bank_of hs' ! i)"
      using hop_basic_bank [of hs' clk] cc by metis
    moreover from this have "bank_of hs' ! i = afh_channels ?m ! i"
      by (simp add: hs' afh_state_def bank_of_def nth_append)
    ultimately have "hop_basic clk hs' = Inr (bank_of hs' ! i)" "bank_of hs' ! i \<in> set (afh_channels ?m)" by simp_all
    then show ?thesis using False set_bank79_less unfolding ex by (auto simp: afh_channels_def)
  qed
qed

theorem afh_hops_enabled_witness:
  "\<exists>hs hs'. hop_init 0x9e8b33 hop_zero = Inr hs \<and> hop_cfg_afh (1 # 0x21 # replicate 9 0) hs = Inr hs' \<and>
    (\<exists>ch. hop_basic 77 hs' = Inr ch \<and> unat ch < NUM_BREDR_CHANNELS \<and> afh_on (0x21 # replicate 9 0) ch)"
proof -
  obtain hs where hs: "hop_init 0x9e8b33 hop_zero = Inr hs" "hop_reach hs"
    using hop_init_reach by blast
  let ?b = "1 # 0x21 # replicate 9 0 :: u8 list"
  have len: "11 \<le> length ?b" and b0: "bit (?b ! 0) 0" by simp_all
  obtain hs' where hs': "hop_cfg_afh ?b hs = Inr hs'"
    using hop_cfg_afh_on [OF hop_reach_inv [OF hs(2)] len b0] by blast
  have on: "\<exists>c. unat (c :: u8) < 79 \<and> afh_on (drop 1 ?b) c"
    by (rule exI [of _ 5]) (simp add: afh_on_def)
  have "\<exists>ch. hop_basic 77 hs' = Inr ch \<and> unat ch < 79 \<and> afh_on (drop 1 ?b) ch"
    using afh_hops_enabled [OF hs(2) len b0 hs', of 77] unfolding if_P [OF on] .
  then show ?thesis using hs hs' by auto
qed

end
