(* ===== verification/HopRxtx.thy ===== *)
theory HopRxtx
  imports Hop
begin

text \<open>
  The hopping and the access code search of the older firmware, firmware/bluetooth_rxtx/bluetooth.c,
  and its relation to the hop selection of the btbr firmware.
\<close>

section \<open>State and operations\<close>

record bt_state =
  target_address :: u64
  target_syncword :: u64
  rx_syncword :: u64
  rx_afh_enabled :: u8
  rx_afh_map :: "u8 list"
  used_channels :: u8
  rx_a1 :: u8
  rx_b :: u8
  rx_c1 :: u8
  rx_e :: u8
  rx_d1 :: u16
  rx_bank :: "u8 list"
  rx_afh_bank :: "u8 list"

text \<open>\<open>n AND (n - 1)\<close> clears the lowest set bit, so the loop ends.\<close>

function count_loop :: "u64 \<Rightarrow> u8 \<Rightarrow> u8" where
  "count_loop n i = (if n = 0 then i else count_loop (n AND (n - 1)) (i + 1))"
  by pat_completeness auto

lemma and_pred_less: "n \<noteq> 0 \<Longrightarrow> unat (n AND (n - 1) :: 'a::len word) < unat n"
proof -
  assume n: "n \<noteq> 0"
  have "n AND (n - 1) \<le> n - 1" by (rule word_and_le1)
  also have "n - 1 < n" using n by (metis word_le_sub1 le_less_linear measure_unat unat_gt_0 word_less_nat_alt)
  finally show ?thesis by (simp add: word_less_nat_alt)
qed

termination count_loop
  by (relation "measure (\<lambda>(n, i). unat n)") (simp_all add: and_pred_less)

declare count_loop.simps [simp del]

definition count_bits :: "u64 \<Rightarrow> u8" where
  "count_bits n = count_loop n 0"

definition precalc_afh :: "bt_state \<Rightarrow> bt_state res" where
  "precalc_afh st =
     bnd (loop 10 (\<lambda>i u. bnd (rd (rx_afh_map st) i) (\<lambda>m. Inr (u + count_bits (ucast m)))) 0) (\<lambda>u.
     bnd (loop NUM_BREDR_CHANNELS (\<lambda>i (b, j).
       let chan = i * 2 mod NUM_BREDR_CHANNELS in
       bnd (rd (rx_afh_map st) (chan div 8)) (\<lambda>m.
       if m AND push_bit (chan mod 8) 1 \<noteq> 0
       then bnd (wr b j (of_nat chan)) (\<lambda>b. Inr (b, j + 1))
       else Inr (b, j))) (rx_bank st, 0 :: nat)) (\<lambda>(b, j).
     Inr (st\<lparr>used_channels := u, rx_bank := b\<rparr>)))"

definition precalc :: "bt_state \<Rightarrow> bt_state res" where
  "precalc st =
     (let address = ucast (target_address st AND 0xffffffff) :: u32 in
      bnd (loop NUM_BREDR_CHANNELS (\<lambda>i b. wr b i (of_nat (i * 2 mod NUM_BREDR_CHANNELS))) (rx_bank st)) (\<lambda>b.
      let st = st\<lparr>rx_syncword := 0, rx_bank := b,
        rx_a1 := ucast (drop_bit 23 address AND 0x1f), rx_b := ucast (drop_bit 19 address AND 0x0f),
        rx_c1 := ucast ((drop_bit 4 address AND 0x10) + (drop_bit 3 address AND 0x08) +
          (drop_bit 2 address AND 0x04) + (drop_bit 1 address AND 0x02) + (address AND 0x01)),
        rx_d1 := ucast (drop_bit 10 address AND 0x1ff),
        rx_e := ucast ((drop_bit 7 address AND 0x40) + (drop_bit 6 address AND 0x20) +
          (drop_bit 5 address AND 0x10) + (drop_bit 4 address AND 0x08) + (drop_bit 3 address AND 0x04) +
          (drop_bit 2 address AND 0x02) + (drop_bit 1 address AND 0x01))\<rparr> in
      if rx_afh_enabled st \<noteq> 0 then precalc_afh st else Inr st))"

definition rx_perm5 :: "u8 \<Rightarrow> u8 \<Rightarrow> u16 \<Rightarrow> u8" where
  "rx_perm5 z p_high p_low =
     (let z = z AND 0x1f; p_high = p_high AND 0x1f; p_low = p_low AND 0x1ff;
          p = map (\<lambda>i. drop_bit i p_low AND 1) [0..<9] @ map (\<lambda>i. ucast (drop_bit i p_high) AND 1) [0..<5]
      in rebuild (fold (\<lambda>i. exchange (p ! i \<noteq> 0) i) (rev [0..<14]) (z_bits z)))"

definition next_hop :: "u32 \<Rightarrow> bt_state \<Rightarrow> u16 res" where
  "next_hop clock st =
     (let clock = clock AND 0xffffffff;
          x = ucast (drop_bit 2 clock AND 0x1f) :: u8;
          y1 = ucast (drop_bit 1 clock AND 0x01) :: u8;
          y2 = push_bit 5 (ucast y1) :: u16;
          a = ucast ((ucast (rx_a1 st) XOR drop_bit 21 clock) AND 0x1f) :: u8;
          c = ucast ((ucast (rx_c1 st) XOR drop_bit 16 clock) AND 0x1f) :: u8;
          d = ucast ((ucast (rx_d1 st) XOR drop_bit 7 clock) AND 0x1ff) :: u16;
          base_f = drop_bit 3 clock AND 0x1fffff0;
          f = base_f mod 79;
          perm = rx_perm5 (((x + a) mod 32) XOR rx_b st) ((y1 * 0x1f) XOR c) d;
          sum = (\<lambda>f. ucast perm + ucast (rx_e st) + f + ucast y2) in
      bnd (rd (rx_bank st) (unat (sum f mod 79))) (\<lambda>ch.
      bnd (if rx_afh_enabled st \<noteq> 0
           then bnd (umod base_f (ucast (used_channels st))) (\<lambda>f_dash.
                bnd (umod (sum f_dash) (ucast (used_channels st))) (\<lambda>i. rd (rx_afh_bank st) (unat i)))
           else Inr ch) (\<lambda>next_channel.
      Inr (2402 + ucast next_channel))))"

abbreviation DMA_SIZE :: nat where
  "DMA_SIZE \<equiv> 50"

abbreviation MAX_SYNCWORD_ERRS :: u8 where
  "MAX_SYNCWORD_ERRS \<equiv> 5"

text \<open>
  The search loop; \<open>n\<close> passes are left of the \<open>8 * DMA_SIZE - 64\<close>, so \<open>count\<close> is that less \<open>n\<close>.  It
  returns the position, or -1, and the last window, which stays in \<open>syncword\<close>.
\<close>

primrec find_loop :: "nat \<Rightarrow> u8 list \<Rightarrow> u64 \<Rightarrow> nat \<Rightarrow> u8 \<Rightarrow> u64 \<Rightarrow> (int \<times> u64) res" where
  "find_loop 0 idle_rxbuf target i curr_buf sw = Inr (-1, sw)"
| "find_loop (Suc n) idle_rxbuf target i curr_buf sw =
     (let count = 8 * DMA_SIZE - 64 - Suc n in
      if count_bits (sw XOR target) < MAX_SYNCWORD_ERRS then Inr (int count, sw)
      else
        let i' = (if count mod 8 = 0 then i + 1 else i) in
        bnd (if count mod 8 = 0 then rd idle_rxbuf i' else Inr curr_buf) (\<lambda>curr_buf.
        find_loop n idle_rxbuf target i' (push_bit 1 curr_buf)
          ((push_bit 1 sw AND 0xfffffffffffffffe) OR ucast (drop_bit 7 (curr_buf AND 0x80)))))"

definition find_access_code :: "u8 list \<Rightarrow> bt_state \<Rightarrow> (int \<times> bt_state) res" where
  "find_access_code idle_rxbuf st =
     bnd (if rx_syncword st = 0
          then bnd (loop 8 (\<lambda>i sw. bnd (rd idle_rxbuf i) (\<lambda>b.
                 Inr ((push_bit 8 sw AND 0xffffffffffffff00) OR ucast b))) 0) (\<lambda>sw. Inr (sw, 8, 64))
          else Inr (rx_syncword st, 0, 0)) (\<lambda>(sw, i, count).
     bnd (rd idle_rxbuf i) (\<lambda>curr_buf.
     bnd (find_loop (8 * DMA_SIZE - 64 - count) idle_rxbuf (target_syncword st) i curr_buf sw) (\<lambda>(r, sw).
     Inr (r, st\<lparr>rx_syncword := sw\<rparr>))))"

section \<open>Counting bits\<close>

lemma clear_lowest_nat:
  "0 < (n :: nat) \<Longrightarrow> \<exists>k. bit n k \<and> (\<forall>i. bit (n AND (n - 1)) i \<longleftrightarrow> bit n i \<and> i \<noteq> k)"
proof (induction n rule: less_induct)
  case (less n)
  show ?case
  proof (cases "odd n")
    case True
    then obtain a where a: "n = 2 * a + 1" by (elim oddE)
    then have "bit (n AND (n - 1)) i \<longleftrightarrow> bit n i \<and> i \<noteq> 0" for i
      unfolding bit_and_iff a by (cases i) (auto simp: bit_Suc bit_0)
    then show ?thesis using True by (intro exI [of _ 0]) (simp add: bit_0)
  next
    case False
    then have "even n" by simp
    then obtain a where a: "n = 2 * a" by (elim evenE)
    with less.prems have "0 < a" "a < n" by auto
    from less.IH [OF this(2,1)] obtain k
      where k: "bit a k" "\<And>i. bit (a AND (a - 1)) i \<longleftrightarrow> bit a i \<and> i \<noteq> k" by blast
    have "n - 1 = 2 * (a - 1) + 1" using a \<open>0 < a\<close> by simp
    have "bit (n AND (n - 1)) i \<longleftrightarrow> bit n i \<and> i \<noteq> Suc k" for i
      using k(2) [unfolded bit_and_iff] unfolding bit_and_iff \<open>n - 1 = 2 * (a - 1) + 1\<close> unfolding a
      by (cases i) (simp_all add: bit_Suc bit_0)
    then show ?thesis using a k(1) by (intro exI [of _ "Suc k"]) (simp add: bit_Suc)
  qed
qed

lemma clear_lowest:
  assumes "n \<noteq> (0 :: 'a::len word)"
  obtains k where "bit n k" and "\<And>i. bit (n AND (n - 1)) i \<longleftrightarrow> bit n i \<and> i \<noteq> k"
proof -
  have "0 < unat n" using assms by (simp add: unat_gt_0)
  then obtain k where k: "bit (unat n) k" "\<And>i. bit (unat n AND (unat n - 1)) i \<longleftrightarrow> bit (unat n) i \<and> i \<noteq> k"
    using clear_lowest_nat by blast
  have "unat (n - 1) = unat n - 1" using assms by (simp add: unat_minus_one)
  then have u: "unat (n AND (n - 1)) = unat n AND (unat n - 1)" by (simp add: unsigned_and_eq)
  have b: "bit w i \<longleftrightarrow> bit (unat w) i" for w :: "'a word" and i
    by (auto simp: bit_unsigned_iff dest: bit_imp_le_length)
  show ?thesis by (rule that [of k]) (simp_all add: b u k del: One_nat_def)
qed

definition popc :: "u64 \<Rightarrow> nat" where
  "popc n = card {i. bit n i}"

lemma finite_bits: "finite {i. bit (n :: 'a::len word) i}"
  by (rule finite_subset [of _ "{..<LENGTH('a)}"]) (auto dest: bit_imp_le_length)

lemma popc_le: "popc n \<le> 64"
proof -
  have "{i. bit n i} \<subseteq> {..<64}" using bit_imp_le_length [of n] by auto
  from card_mono [OF _ this] show ?thesis by (simp add: popc_def)
qed

lemma popc_clear: "n \<noteq> 0 \<Longrightarrow> Suc (popc (n AND (n - 1))) = popc n"
proof -
  assume "n \<noteq> 0"
  then obtain k where "bit n k" and "\<And>i. bit (n AND (n - 1)) i \<longleftrightarrow> bit n i \<and> i \<noteq> k" by (rule clear_lowest) blast
  then have eq: "{i. bit (n AND (n - 1)) i} = {i. bit n i} - {k}" by auto
  show ?thesis unfolding popc_def eq by (rule card_Suc_Diff1) (use \<open>bit n k\<close> finite_bits in simp_all)
qed

lemma count_loop_popc: "count_loop n i = i + of_nat (popc n)"
proof (induction n i rule: count_loop.induct)
  case (1 n i)
  show ?case
  proof (cases "n = 0")
    case True
    then show ?thesis by (simp add: count_loop.simps popc_def)
  next
    case False
    then show ?thesis using 1 by (subst count_loop.simps) (simp flip: popc_clear)
  qed
qed

lemma count_bits_popc: "unat (count_bits n) = popc n"
  using popc_le [of n] by (simp add: count_bits_def count_loop_popc unat_of_nat)

section \<open>The two hop selections\<close>

lemma perm5_slow_cong:
  "z AND 0x1f = z' AND 0x1f \<Longrightarrow> ph AND 0x1f = ph' AND 0x1f \<Longrightarrow> pl AND 0x1ff = pl' AND 0x1ff \<Longrightarrow>
    perm5_slow z ph pl = perm5_slow z' ph' pl'"
  unfolding perm5_slow_def by simp

lemma rx_perm5_eq: "rx_perm5 z ph pl = perm5_slow z ph pl"
  by (simp add: rx_perm5_def perm5_slow_def Let_def)

lemma and_pow:
  fixes x :: "'a::len word"
  shows "x AND 0x40 = (if bit x 6 then 0x40 else 0)" "x AND 0x20 = (if bit x 5 then 0x20 else 0)"
    "x AND 0x10 = (if bit x 4 then 0x10 else 0)" "x AND 0x08 = (if bit x 3 then 0x08 else 0)"
    "x AND 0x04 = (if bit x 2 then 0x04 else 0)" "x AND 0x02 = (if bit x 1 then 0x02 else 0)"
    "x AND 0x01 = (if bit x 0 then 0x01 else 0)"
proof -
  have *: "x AND push_bit k 1 = (if bit x k then push_bit k 1 else 0)" for k
    by (rule bit_word_eqI) (auto simp: bit_simps)
  show "x AND 0x40 = (if bit x 6 then 0x40 else 0)" "x AND 0x20 = (if bit x 5 then 0x20 else 0)"
    "x AND 0x10 = (if bit x 4 then 0x10 else 0)" "x AND 0x08 = (if bit x 3 then 0x08 else 0)"
    "x AND 0x04 = (if bit x 2 then 0x04 else 0)" "x AND 0x02 = (if bit x 1 then 0x02 else 0)"
    "x AND 0x01 = (if bit x 0 then 0x01 else 0)"
    using * [of 6] * [of 5] * [of 4] * [of 3] * [of 2] * [of 1] * [of 0] by simp_all
qed

lemma addr_C_sum: "addr_C a = ucast ((drop_bit 4 a AND 0x10) + (drop_bit 3 a AND 0x08) +
    (drop_bit 2 a AND 0x04) + (drop_bit 1 a AND 0x02) + (a AND 0x01))"
  unfolding addr_C_def and_pow by simp

lemma addr_E_less: "unat (addr_E a) < 128"
proof -
  have "unat (ucast (x :: u32) :: u8) = unat x" if "unat x < 128" for x
    using that by (simp add: unsigned_ucast_eq take_bit_nat_eq_self)
  show ?thesis unfolding addr_E_def and_pow by simp
qed

lemma precalc_plain:
  assumes "rx_afh_enabled st = 0" and "length (rx_bank st) = 79"
  shows "\<exists>st'. precalc st = Inr st' \<and> rx_bank st' = bank79 \<and> rx_afh_enabled st' = 0
    \<and> rx_a1 st' = ucast (drop_bit 23 (ucast (target_address st) :: u32) AND 0x1f)
    \<and> rx_b st' = ucast (drop_bit 19 (ucast (target_address st) :: u32) AND 0x0f)
    \<and> rx_c1 st' = addr_C (ucast (target_address st))
    \<and> rx_d1 st' = ucast (drop_bit 10 (ucast (target_address st) :: u32) AND 0x1ff)
    \<and> rx_e st' = addr_E (ucast (target_address st))"
proof -
  have a: "ucast (target_address st AND 0xffffffff) = (ucast (target_address st) :: u32)"
    by (rule bit_word_eqI) (simp add: bit_simps take_bit_eq_mask [of 32, symmetric, where 'a = "64 word", unfolded mask_eq_exp_minus_1, simplified])
  show ?thesis
    using assms by (simp add: precalc_def a fill_bank79 addr_C_sum addr_E_def Let_def)
qed

text \<open>The sum of the selection kernel in unbounded arithmetic.\<close>

definition kernel_sum :: "u32 \<Rightarrow> hop_state \<Rightarrow> nat" where
  "kernel_sum clk hs = unat (sel_perm clk hs) + unat (hop_E hs) + unat (sel_F clk 79) + 32 * unat (clk1_of clk hs)"

lemma clk1_cases: "clk1_of clk hs = 0 \<or> clk1_of clk hs = 1"
proof -
  have "(1 :: u32) AND drop_bit 1 clk = 0 \<or> (1 :: u32) AND drop_bit 1 clk = 1"
    by (simp add: and.commute [of 1] and_1_bit)
  then show ?thesis by (auto simp: clk1_of_def)
qed

lemma unat_clk1: "unat (clk1_of clk hs) \<le> 1"
  using clk1_cases [of clk hs] by auto

lemma unat_sel_F: "unat (sel_F clk 79) < 79"
  by (simp add: sel_F_def unat_mod)

lemma sel_sum_wraps: "chan_count hs = 79 \<Longrightarrow> unat (sel_sum clk hs) = kernel_sum clk hs mod 256"
proof -
  assume c: "chan_count hs = 79"
  have f: "unat (ucast (sel_F clk 79) :: u8) = unat (sel_F clk 79)"
    using unat_sel_F [of clk] by (simp add: unsigned_ucast_eq take_bit_nat_eq_self)
  have y: "unat (push_bit 5 (clk1_of clk hs)) = 32 * unat (clk1_of clk hs)"
    using clk1_cases [of clk hs] by auto
  show ?thesis unfolding sel_sum_def kernel_sum_def c
    by (simp add: unat_word_ariths f y mod_simps)
qed

lemma perm5_slow_less: "unat (perm5_slow z ph pl) < 32"
  unfolding perm5_slow_bfly by (rule unat_out5) simp

lemma kernel_sum_bound:
  assumes "unat (hop_E hs) < 128"
  shows "kernel_sum clk hs < 270"
proof -
  have "unat (sel_perm clk hs) < 32" unfolding sel_perm_def by (rule perm5_slow_less)
  then show ?thesis using assms unat_clk1 [of clk hs] unat_sel_F [of clk] unfolding kernel_sum_def by linarith
qed

lemma sel_perm_rx:
  assumes "a27_23 hs = ucast (drop_bit 23 a AND 0x1f)" and "a22_19 hs = ucast (drop_bit 19 a AND 0x0f)"
  shows "sel_perm clk hs = perm5_slow
    (((ucast (drop_bit 2 clk AND 0x1f) + ucast ((ucast (a27_23 hs) XOR drop_bit 21 clk) AND 0x1f)) mod 32) XOR a22_19 hs)
    ((clk1_of clk hs * 0x1f) XOR ucast ((ucast (hop_C hs) XOR drop_bit 16 clk) AND 0x1f))
    (ucast ((ucast (a18_10 hs) XOR drop_bit 7 clk) AND 0x1ff))"
  unfolding sel_perm_def
proof (rule perm5_slow_cong)
  have m: "w mod 32 = take_bit 5 w" for w :: u8
    by (simp add: take_bit_eq_mod)
  let ?x = "ucast (drop_bit 2 clk AND 0x1f) :: u8" and ?a = "ucast ((ucast (a27_23 hs) XOR drop_bit 21 clk) AND 0x1f) :: u8"
  have a: "a27_23 hs XOR ucast (0x1f AND drop_bit 21 clk) = ?a"
    unfolding assms(1) and_masks by (rule bit_word_eqI) (auto simp: bit_simps)
  show "((a27_23 hs XOR ucast (0x1f AND drop_bit 21 clk)) + ucast (0x1f AND drop_bit 2 clk) XOR a22_19 hs) AND 0x1f =
     (((?x + ?a) mod 32) XOR a22_19 hs) AND 0x1f"
    unfolding a m unfolding and_masks take_bit_xor by (simp add: add.commute)
  show "(NOT (clk1_of clk hs - 1) XOR (hop_C hs XOR ucast (0x1f AND drop_bit 16 clk))) AND 0x1f =
     ((clk1_of clk hs * 0x1f) XOR ucast ((ucast (hop_C hs) XOR drop_bit 16 clk) AND 0x1f)) AND 0x1f"
  proof -
    have y: "take_bit 5 (NOT (clk1_of clk hs - 1)) = take_bit 5 (clk1_of clk hs * 0x1f)"
      using clk1_cases [of clk hs] by (auto simp: mask_eq_exp_minus_1)
    show ?thesis unfolding and_masks take_bit_xor y
      by (rule bit_word_eqI) (auto simp: bit_simps)
  qed
  show "(a18_10 hs XOR ucast (0x1ff AND drop_bit 7 clk)) AND 0x1ff =
     ucast ((ucast (a18_10 hs) XOR drop_bit 7 clk) AND 0x1ff) AND 0x1ff"
    unfolding and_masks by (rule bit_word_eqI) (auto simp: bit_simps)
qed

lemma hop_init_vals:
  assumes "hop_init a hop_zero = Inr hs"
  shows "hop_inv hs" "afh_enabled hs = 0" "bank hs = Basic_bank" "chan_count hs = 79" "basic_bank hs = bank79"
    "a27_23 hs = ucast (drop_bit 23 a AND 0x1f)" "a22_19 hs = ucast (drop_bit 19 a AND 0x0f)"
    "hop_C hs = addr_C a" "a18_10 hs = ucast (drop_bit 10 a AND 0x1ff)" "hop_E hs = addr_E a"
proof -
  show "hop_inv hs" using assms by (rule hop_reach_inv [OF reach_boot])
qed (use assms in \<open>auto simp: hop_init_def hop_zero_def fill_bank79\<close>)

lemma next_hop_plain:
  assumes hs: "hop_init a hop_zero = Inr hs"
    and st: "rx_bank st = bank79" "rx_afh_enabled st = 0" "rx_a1 st = a27_23 hs" "rx_b st = a22_19 hs"
      "rx_c1 st = hop_C hs" "rx_d1 st = a18_10 hs" "rx_e st = hop_E hs"
  shows "next_hop clk st = Inr (2402 + ucast (bank79 ! (kernel_sum clk hs mod 79)))"
proof -
  have "(0xffffffff :: u32) = - 1" by simp
  then have clk: "clk AND 0xffffffff = clk" by (simp only: and.right_neutral)
  have y1: "ucast (drop_bit 1 clk AND 0x01) = clk1_of clk hs"
    by (simp add: clk1_of_def hop_init_vals [OF hs] and.commute)
  have y2: "ucast (push_bit 5 (ucast (clk1_of clk hs)) :: u16) = (32 * ucast (clk1_of clk hs) :: u32)"
    using clk1_cases [of clk hs] by auto
  let ?s = "ucast (sel_perm clk hs) + ucast (hop_E hs) + (drop_bit 3 clk AND 0x1fffff0) mod 79
    + 32 * ucast (clk1_of clk hs) :: u32"
  have F: "(drop_bit 3 clk AND 0x1fffff0) mod 79 = sel_F clk 79" by (simp add: sel_F_def)
  have E: "unat (hop_E hs) < 128" using addr_E_less by (simp add: hop_init_vals [OF hs])
  have "unat (32 * ucast (clk1_of clk hs) :: u32) = 32 * unat (clk1_of clk hs)"
    using clk1_cases [of clk hs] by auto
  then have "unat ?s = kernel_sum clk hs mod 2 ^ 32"
    unfolding F by (simp add: kernel_sum_def unat_word_ariths unat_ucast_u8 mod_simps)
  also have "\<dots> = kernel_sum clk hs" using kernel_sum_bound [OF E, of clk] by simp
  finally have s: "unat (?s mod 79) = kernel_sum clk hs mod 79" by (simp add: unat_mod)
  show ?thesis
    unfolding next_hop_def Let_def clk y1 y2 st rx_perm5_eq
      sel_perm_rx [OF hop_init_vals(6,7) [OF hs], symmetric] s
    by simp
qed

text \<open>
  C19: The two firmwares hop alike exactly as long as the kernel's sum fits a byte: the btbr kernel
  returns a byte, so a sum of 256 or more is reduced modulo 256 before it is reduced modulo 79, and the
  channel is another one than \<open>next_hop\<close>'s.
\<close>

theorem hops_agree_iff:
  assumes "hop_init (ucast (target_address st)) hop_zero = Inr hs"
    and "precalc st = Inr st'" and "rx_afh_enabled st = 0" and "length (rx_bank st) = NUM_BREDR_CHANNELS"
  shows "\<exists>ch w. hop_basic clk hs = Inr ch \<and> next_hop clk st' = Inr w \<and>
    (w = 2402 + ucast ch \<longleftrightarrow> kernel_sum clk hs < 256)"
proof -
  note v = hop_init_vals [OF assms(1)]
  let ?n = "kernel_sum clk hs"
  have E: "unat (hop_E hs) < 128" using addr_E_less by (simp add: v)
  have nh: "next_hop clk st' = Inr (2402 + ucast (bank79 ! (?n mod 79)))"
    by (rule next_hop_plain [OF assms(1)]) (use precalc_plain [OF assms(3,4)] assms(2) v in auto)
  have hb: "hop_basic clk hs = Inr (bank79 ! (?n mod 256 mod 79))"
  proof -
    have "unat (sel_sum clk hs mod 79) = ?n mod 256 mod 79"
      using sel_sum_wraps [OF v(4), of clk] by (simp add: unat_mod)
    then show ?thesis using hop_basic_eq [of hs clk] v by (simp add: bank_of_def)
  qed
  have inj: "2402 + ucast x = (2402 + ucast y :: u16) \<longleftrightarrow> x = y" for x y :: u8
  proof -
    have "ucast (ucast z :: u16) = z" for z :: u8 by (rule bit_word_eqI) (simp add: bit_simps)
    then have "(ucast x :: u16) = ucast y \<longleftrightarrow> x = y" by metis
    then show ?thesis by simp
  qed
  have "bank79 ! (?n mod 79) = bank79 ! (?n mod 256 mod 79) \<longleftrightarrow> ?n mod 79 = ?n mod 256 mod 79"
    using bank79_bij by (auto simp: bij_betw_def inj_on_def)
  also have "\<dots> \<longleftrightarrow> ?n < 256"
  proof (cases "?n < 256")
    case False
    then obtain k where k: "?n = 256 + k" "k < 14"
      using kernel_sum_bound [OF E, of clk] by (metis add_less_cancel_left le_Suc_ex not_less numeral_plus_numeral add_num_simps)
    then have "?n mod 256 = k" by simp
    moreover have "(256 + k) mod 79 = 19 + k" using k(2) by (intro mod_nat_eqI) auto
    ultimately show ?thesis using k by simp
  qed simp
  finally show ?thesis using nh hb inj by simp
qed

text \<open>The static storage of the globals, with a target address.\<close>

definition bt_zero :: "u64 \<Rightarrow> bt_state" where
  "bt_zero address = \<lparr>target_address = address, target_syncword = 0, rx_syncword = 0, rx_afh_enabled = 0,
     rx_afh_map = replicate 10 0, used_channels = 0, rx_a1 = 0, rx_b = 0, rx_c1 = 0, rx_e = 0, rx_d1 = 0,
     rx_bank = replicate 79 0, rx_afh_bank = replicate 79 0\<rparr>"

lemma bfly_same: "(\<And>k. k \<in> set ks \<Longrightarrow> k < 14) \<Longrightarrow> bfly c ks [a, a, a, a, a] = [a, a, a, a, a]"
proof (induction ks rule: rev_induct)
  case (snoc k ks)
  have "swp k [a, a, a, a, a] = [a, a, a, a, a]"
    using less14_cases [of k] snoc.prems by (auto simp: swp_eval swp_eval(2) [unfolded One_nat_def])
  then show ?case using snoc by simp
qed (simp add: bfly_def)

lemma perm5_slow_31: "perm5_slow 31 ph pl = 31"
proof -
  have "zb (31 AND 0x1f) = [True, True, True, True, True]" by (simp add: zb_def upt_conv_Cons)
  moreover have "bfly c [0..<14] [True, True, True, True, True] = [True, True, True, True, True]" for c
    by (rule bfly_same) simp
  moreover have "out5 [True, True, True, True, True] = 31" by (simp add: out5_def)
  ultimately show ?thesis unfolding perm5_slow_bfly by (simp only:)
qed

lemma kernel_sum_2aaa:
  assumes "hop_init 0x2aaa hop_zero = Inr hs"
  shows "kernel_sum 0x77e hs = 256"
proof -
  note v = hop_init_vals [OF assms]
  have c: "clk1_of 0x77e hs = 1" by (simp add: clk1_of_def v)
  have p: "sel_perm 0x77e hs = 31"
    unfolding sel_perm_def c v by (simp add: perm5_slow_31)
  show ?thesis unfolding kernel_sum_def p c by (simp add: v addr_E_def sel_F_def)
qed

theorem hops_agree_iff_witness:
  "\<exists>hs st'. hop_init (ucast (target_address (bt_zero 0x2aaa))) hop_zero = Inr hs \<and> precalc (bt_zero 0x2aaa) = Inr st' \<and>
    (\<exists>ch w. hop_basic 0x77e hs = Inr ch \<and> next_hop 0x77e st' = Inr w \<and> w \<noteq> 2402 + ucast ch)"
proof -
  have a: "ucast (target_address (bt_zero 0x2aaa)) = (0x2aaa :: u32)" by (simp add: bt_zero_def)
  obtain hs where hs: "hop_init 0x2aaa hop_zero = Inr hs" using hop_init_reach by blast
  have st: "rx_afh_enabled (bt_zero 0x2aaa) = 0" "length (rx_bank (bt_zero 0x2aaa)) = 79"
    by (simp_all add: bt_zero_def)
  then obtain st' where st': "precalc (bt_zero 0x2aaa) = Inr st'" using precalc_plain by blast
  have "\<exists>ch w. hop_basic 0x77e hs = Inr ch \<and> next_hop 0x77e st' = Inr w \<and> (w = 2402 + ucast ch \<longleftrightarrow> kernel_sum 0x77e hs < 256)"
    by (rule hops_agree_iff [OF _ st' st]) (simp only: a hs)
  then show ?thesis using hs st' kernel_sum_2aaa [OF hs] a by auto
qed

section \<open>The AFH bank of the older firmware\<close>

lemma precalc_afh_ok:
  assumes "length (rx_afh_map st) = 10" and "length (rx_bank st) = 79"
    and "loop 10 (\<lambda>i u. bnd (rd (rx_afh_map st) i) (\<lambda>m. Inr (u + count_bits (ucast m)))) 0 = Inr u"
  shows "\<exists>b. precalc_afh st = Inr (st\<lparr>used_channels := u, rx_bank := b\<rparr>) \<and> length b = 79"
proof -
  define f where "f = (\<lambda>i (b, j).
       let chan = i * 2 mod NUM_BREDR_CHANNELS in
       bnd (rd (rx_afh_map st) (chan div 8)) (\<lambda>m.
       if m AND push_bit (chan mod 8) 1 \<noteq> 0
       then bnd (wr b j (of_nat chan :: u8)) (\<lambda>b. Inr (b, j + 1))
       else Inr (b, j)))"
  have "\<exists>s. loop 79 f (rx_bank st, 0 :: nat) = Inr s \<and> (length (fst s) = 79 \<and> snd s \<le> (79 :: nat))"
  proof (rule loop_inv [where I = "\<lambda>i s. length (fst s) = 79 \<and> snd s \<le> i"])
    show "length (fst (rx_bank st, 0 :: nat)) = 79 \<and> snd (rx_bank st, 0 :: nat) \<le> 0" using assms by simp
  next
    fix i and s :: "u8 list \<times> nat" assume i: "i < 79" and s: "length (fst s) = 79 \<and> snd s \<le> i"
    have "i * 2 mod 79 < 80" by (rule less_trans [OF mod_less_divisor]) simp_all
    then have "i * 2 mod 79 div 8 < length (rx_afh_map st)" using assms(1) by (simp add: less_mult_imp_div_less)
    then show "\<exists>s'. f i s = Inr s' \<and> length (fst s') = 79 \<and> snd s' \<le> Suc i"
      using i s by (cases s) (auto simp: f_def Let_def)
  qed
  then show ?thesis unfolding precalc_afh_def f_def [symmetric] using assms(3) by (auto simp: split_beta)
qed

lemma precalc_afh_keeps: "precalc_afh st = Inr st' \<Longrightarrow> rx_afh_bank st' = rx_afh_bank st \<and> rx_afh_enabled st' = rx_afh_enabled st"
  by (auto simp: precalc_afh_def bnd_Inr_iff split_beta)

lemma precalc_keeps: "precalc st = Inr st' \<Longrightarrow> rx_afh_bank st' = rx_afh_bank st \<and> rx_afh_enabled st' = rx_afh_enabled st"
  by (auto simp: precalc_def bnd_Inr_iff Let_def dest: precalc_afh_keeps split: if_splits)

text \<open>
  C20: With AFH enabled the older firmware does not hop: \<open>precalc\<close> stores the adapted channels in
  \<open>bank\<close>, \<open>next_hop\<close> reads \<open>afh_bank\<close>, which nothing writes, so every hop is 2402 MHz.
\<close>

theorem rx_afh_stuck:
  assumes "precalc st = Inr st'" and "rx_afh_bank st = replicate NUM_BREDR_CHANNELS 0" and "rx_afh_enabled st \<noteq> 0"
    and "length (rx_bank st') = NUM_BREDR_CHANNELS" and "used_channels st' \<noteq> 0" and "unat (used_channels st') \<le> NUM_BREDR_CHANNELS"
  shows "next_hop clk st' = Inr 2402"
proof -
  have k: "rx_afh_bank st' = replicate 79 0" "rx_afh_enabled st' \<noteq> 0"
    using precalc_keeps [OF assms(1)] assms(2,3) by auto
  have u: "ucast (used_channels st') \<noteq> (0 :: u32)" using assms(5) by (simp add: ucast_u8_0)
  have i: "unat (x mod ucast (used_channels st') :: u32) < 79" for x
    using assms(5,6) by (simp add: unat_mod unat_ucast_u8) (metis mod_less_divisor order_less_le_trans unat_gt_0)
  have j: "unat (x mod 79 :: u32) < length (rx_bank st')" for x by (simp add: unat_mod assms(4))
  show ?thesis
    unfolding next_hop_def Let_def rd_ok [OF j] using k u i by (simp add: unat_umod(1))
qed

theorem rx_afh_stuck_witness:
  "\<exists>st'. precalc ((bt_zero 0x9e8b33)\<lparr>rx_afh_enabled := 1, rx_afh_map := 3 # replicate 9 0\<rparr>) = Inr st' \<and>
    next_hop 123456 st' = Inr 2402"
proof -
  let ?st = "(bt_zero 0x9e8b33)\<lparr>rx_afh_enabled := 1, rx_afh_map := 3 # replicate 9 0\<rparr>"
  have cb: "count_bits 3 = 2" "count_bits 0 = 0"
    by (simp_all add: count_bits_def count_loop.simps)
  have "\<exists>st'. precalc ?st = Inr st' \<and> used_channels st' = 2 \<and> length (rx_bank st') = 79"
  proof -
    have afh: "\<exists>st'. precalc_afh st = Inr st' \<and> used_channels st' = 2 \<and> length (rx_bank st') = 79"
      if "rx_afh_map st = 3 # replicate 9 0" "length (rx_bank st) = 79" for st
    proof -
      have "\<exists>b. precalc_afh st = Inr (st\<lparr>used_channels := 2, rx_bank := b\<rparr>) \<and> length b = 79"
        by (rule precalc_afh_ok) (use that cb in \<open>simp_all add: loop_numeral\<close>)
      then show ?thesis by auto
    qed
    show ?thesis by (simp add: precalc_def bt_zero_def fill_bank79 Let_def) (rule afh; simp)
  qed
  then obtain st' where "precalc ?st = Inr st'" "used_channels st' = 2" "length (rx_bank st') = 79" by blast
  moreover from this have "next_hop 123456 st' = Inr 2402"
    by (intro rx_afh_stuck [of ?st]) (simp_all add: bt_zero_def)
  ultimately show ?thesis by blast
qed

section \<open>The access code search\<close>

lemma find_loop_sound:
  assumes "find_loop n buf target i cur sw = Inr (r, sw')" and "n \<le> 336"
  shows "r = -1 \<or> (0 \<le> r \<and> r < 336 \<and> popc (sw' XOR target) < 5)"
  using assms
proof (induction n arbitrary: i cur sw)
  case (Suc n)
  show ?case
  proof (cases "count_bits (sw XOR target) < 5")
    case True
    then have "popc (sw XOR target) < 5" by (simp add: word_less_nat_alt count_bits_popc)
    then show ?thesis using Suc.prems True by (auto simp: Let_def)
  next
    case False
    then show ?thesis using Suc by (auto simp: Let_def bnd_Inr_iff split: if_splits)
  qed
qed simp

text \<open>A position that the search reports lies in the searched range, and the window it leaves in
  \<open>syncword\<close> differs from the target in at most four bits.\<close>

theorem find_access_code_sound:
  assumes "find_access_code idle_rxbuf st = Inr (r, st')" and "r \<noteq> -1"
  shows "0 \<le> r \<and> r < 8 * int DMA_SIZE - 64 \<and> popc (rx_syncword st' XOR target_syncword st) < unat MAX_SYNCWORD_ERRS"
proof -
  obtain n i cur sw sw' where "find_loop n idle_rxbuf (target_syncword st) i cur sw = Inr (r, sw')"
      and "n \<le> 336" and "rx_syncword st' = sw'"
    using assms(1) by (auto simp: find_access_code_def bnd_Inr_iff split: if_splits)
  then show ?thesis using find_loop_sound [of n idle_rxbuf "target_syncword st" i cur sw r sw'] assms(2) by auto
qed

lemma find_loop_cong:
  assumes "length buf' = length buf" and "\<And>j. i < j \<Longrightarrow> buf' ! j = buf ! j"
  shows "find_loop n buf' target i cur sw = find_loop n buf target i cur sw"
  using assms(2)
proof (induction n arbitrary: i cur sw)
  case (Suc n)
  have r: "rd buf' (Suc i) = rd buf (Suc i)" using Suc.prems assms(1) by (simp add: rd_def)
  have "find_loop n buf' target (i + 1) c s = find_loop n buf target (i + 1) c s"
    "find_loop n buf' target i c s = find_loop n buf target i c s" for c s
    using Suc.prems by (intro Suc.IH; simp)+
  then show ?case by (simp add: Let_def r cong: bnd_cong)
qed simp

lemma find_loop_first: "n < 336 \<Longrightarrow> (336 - Suc n) mod 8 = 0 \<Longrightarrow> find_loop (Suc n) buf target i cur sw = find_loop (Suc n) buf target i cur' sw"
  by (simp add: Let_def)

text \<open>
  C21 (error).  The search never looks at the first byte after its initial window (byte 8 of the buffer for a fresh
  search, byte 0 for a continued one): the loop replaces it before its bits are shifted in, so every
  buffer is searched as if that byte were missing.
\<close>

theorem find_access_code_skips:
  assumes "length idle_rxbuf = DMA_SIZE" and "k = (if rx_syncword st = 0 then 8 else 0)"
  shows "find_access_code (idle_rxbuf[k := x]) st = find_access_code idle_rxbuf st"
proof -
  let ?b = "idle_rxbuf[k := x]"
  have fl: "find_loop n ?b t k c s = find_loop n idle_rxbuf t k c' s" if "n = 272 \<or> n = 336" for n t c c' s
  proof -
    have "find_loop n ?b t k c s = find_loop n idle_rxbuf t k c s"
      by (rule find_loop_cong) simp_all
    also have "\<dots> = find_loop n idle_rxbuf t k c' s"
      using that find_loop_first [of 271 idle_rxbuf t k c s c'] find_loop_first [of 335 idle_rxbuf t k c s c'] by auto
    finally show ?thesis .
  qed
  show ?thesis
  proof (cases "rx_syncword st = 0")
    case True
    have "loop 8 (\<lambda>i sw. bnd (rd ?b i) (\<lambda>b. Inr ((push_bit 8 sw AND 0xffffffffffffff00) OR ucast b))) (0 :: u64) =
        loop 8 (\<lambda>i sw. bnd (rd idle_rxbuf i) (\<lambda>b. Inr ((push_bit 8 sw AND 0xffffffffffffff00) OR ucast b))) 0"
      by (rule loop_cong) (use assms True in \<open>simp_all add: rd_def\<close>)
    then show ?thesis using assms True fl [of 272, unfolded assms(2), where c' = "idle_rxbuf ! 8"]
      by (simp add: find_access_code_def bnd_assoc cong: bnd_cong)
  next
    case False
    then show ?thesis using assms fl [of 336, where c' = "idle_rxbuf ! 0"] by (simp add: find_access_code_def)
  qed
qed

theorem find_access_code_skips_witness:
  "find_access_code ((replicate 50 0)[8 := 0x55]) (bt_zero 7) = find_access_code (replicate 50 0) (bt_zero 7)"
  by (rule find_access_code_skips) (simp_all add: bt_zero_def)

end
