(* ===== verification/Packet.thy ===== *)
theory Packet
  imports Prelude
begin

text \<open>
  The FHS packet of src/codec/packet_proc.c: the fields that a master stores before it pages or answers
  an inquiry, the clock it adds at transmission, and the receiver's view.
\<close>

section \<open>The code\<close>

record fhs_info =
  bdaddr :: u64
  clk27_2 :: u32
  fhs_lt_addr :: u8

text \<open>\<open>stores xs k vs\<close>: the assignments \<open>xs[k] = v0; xs[k+1] = v1; ...\<close>.\<close>

primrec stores :: "'a list \<Rightarrow> nat \<Rightarrow> 'a list \<Rightarrow> 'a list res" where
  "stores xs k [] = Inr xs"
| "stores xs k (v # vs) = bnd (wr xs k v) (\<lambda>xs. stores xs (Suc k) vs)"

definition bbpkt_fhs_prepare_payload ::
    "u8 list \<Rightarrow> u64 \<Rightarrow> u32 \<Rightarrow> u8 \<Rightarrow> u16 \<Rightarrow> u32 \<Rightarrow> u8 \<Rightarrow> u8 \<Rightarrow> u8 list res" where
  "bbpkt_fhs_prepare_payload data parity lap uap nap cls ltaddr has_eir = stores data 0
     [ucast (0xff AND parity),
      ucast (0xff AND drop_bit 8 parity),
      ucast (0xff AND drop_bit 16 parity),
      ucast (0xff AND drop_bit 24 parity),
      ucast (0x3 AND drop_bit 32 parity) OR ucast (0xfc AND push_bit 2 lap),
      ucast (0xff AND drop_bit 6 lap),
      ucast (0xff AND drop_bit 14 lap),
      ucast (0x03 AND drop_bit 22 lap) OR push_bit 2 (has_eir AND 1) OR push_bit 4 1 OR push_bit 6 2,
      uap,
      ucast (0xff AND nap),
      ucast (0xff AND drop_bit 8 nap),
      ucast (0xff AND cls),
      ucast (0xff AND drop_bit 8 cls),
      ucast (0xff AND drop_bit 16 cls),
      ltaddr]"

definition bbpkt_fhs_finalize_payload :: "u8 list \<Rightarrow> u32 \<Rightarrow> u8 list res" where
  "bbpkt_fhs_finalize_payload fhs_data clk =
     bnd (rd fhs_data 14) (\<lambda>d14. stores fhs_data 14
       [(d14 AND 7) OR ucast (0xf8 AND push_bit 3 clk),
        ucast (0xff AND drop_bit 5 clk),
        ucast (0xff AND drop_bit 13 clk),
        ucast (0x1f AND drop_bit 21 clk)])"

definition bbpkt_decode_fhs :: "u8 list \<Rightarrow> fhs_info res" where
  "bbpkt_decode_fhs data =
     bnd (rd data 4) (\<lambda>d4. bnd (rd data 5) (\<lambda>d5. bnd (rd data 6) (\<lambda>d6. bnd (rd data 7) (\<lambda>d7.
     bnd (rd data 8) (\<lambda>uap. bnd (rd data 9) (\<lambda>d9. bnd (rd data 10) (\<lambda>d10.
     bnd (rd data 14) (\<lambda>d14. bnd (rd data 15) (\<lambda>d15. bnd (rd data 16) (\<lambda>d16. bnd (rd data 17) (\<lambda>d17.
     let lap = ucast (drop_bit 2 d4) OR push_bit 6 (ucast d5) OR push_bit 14 (ucast d6) OR push_bit 22 (ucast (d7 AND 3)) :: u32;
         nap = ucast d9 OR push_bit 8 (ucast d10) :: u16;
         ltaddr = d14 AND 7;
         clk = ucast (drop_bit 3 d14) OR push_bit 5 (ucast d15) OR push_bit 13 (ucast d16) OR push_bit 21 (ucast (d17 AND 0x1f)) :: u32
     in Inr \<lparr>bdaddr = ucast lap OR push_bit 24 (ucast uap) OR push_bit 32 (ucast nap), clk27_2 = clk, fhs_lt_addr = ltaddr\<rparr>)))))))))))"

section \<open>Round trip\<close>

lemma stores_ok: "k + length vs \<le> length xs \<Longrightarrow> stores xs k vs = Inr (take k xs @ vs @ drop (k + length vs) xs)"
proof (induction vs arbitrary: xs k)
  case (Cons v vs)
  then have "k < length xs" by simp
  then show ?case using Cons
    by (simp add: upd_conv_take_nth_drop Cons.IH take_Suc_conv_app_nth nth_list_update add.commute)
qed simp

lemma bit_fc: "bit (0xfc :: u32) n \<longleftrightarrow> 2 \<le> n \<and> n < 8"
proof -
  have e: "(0xfc :: u32) = push_bit 2 (mask 6)" by (simp add: mask_eq_exp_minus_1)
  show ?thesis unfolding e by (simp only: bit_push_bit_iff bit_mask_iff) auto
qed

lemma bit_f8: "bit (0xf8 :: u32) n \<longleftrightarrow> 3 \<le> n \<and> n < 8"
proof -
  have e: "(0xf8 :: u32) = push_bit 3 (mask 5)" by (simp add: mask_eq_exp_minus_1)
  show ?thesis unfolding e by (simp only: bit_push_bit_iff bit_mask_iff) auto
qed

lemma fhs_finalize_list:
  "bbpkt_fhs_finalize_payload ([p0, p1, p2, p3, p4, p5, p6, p7, p8, p9, p10, p11, p12, p13, p14, p15, p16, p17] @ r) clk =
    Inr ([p0, p1, p2, p3, p4, p5, p6, p7, p8, p9, p10, p11, p12, p13,
      (p14 AND 7) OR ucast (0xf8 AND push_bit 3 clk), ucast (0xff AND drop_bit 5 clk),
      ucast (0xff AND drop_bit 13 clk), ucast (0x1f AND drop_bit 21 clk)] @ r)"
  unfolding bbpkt_fhs_finalize_payload_def by (simp add: stores_ok del: stores.simps)

lemma fhs_decode_list:
  "bbpkt_decode_fhs ([p0, p1, p2, p3, p4, p5, p6, p7, p8, p9, p10, p11, p12, p13, p14, p15, p16, p17] @ r) =
    Inr \<lparr>bdaddr = ucast (ucast (drop_bit 2 p4) OR push_bit 6 (ucast p5) OR push_bit 14 (ucast p6) OR push_bit 22 (ucast (p7 AND 3)) :: u32)
         OR push_bit 24 (ucast p8) OR push_bit 32 (ucast (ucast p9 OR push_bit 8 (ucast p10) :: u16)),
      clk27_2 = ucast (drop_bit 3 p14) OR push_bit 5 (ucast p15) OR push_bit 13 (ucast p16) OR push_bit 21 (ucast (p17 AND 0x1f)),
      fhs_lt_addr = p14 AND 7\<rparr>"
  unfolding bbpkt_decode_fhs_def by (simp add: Let_def)

lemma length18E:
  assumes "length xs = 18"
  obtains x0 x1 x2 x3 x4 x5 x6 x7 x8 x9 x10 x11 x12 x13 x14 x15 x16 x17
  where "xs = [x0, x1, x2, x3, x4, x5, x6, x7, x8, x9, x10, x11, x12, x13, x14, x15, x16, x17]"
  using assms by (auto simp: numeral_eq_Suc length_Suc_conv simp del: Suc_Suc_0)

lemma split18:
  assumes "18 \<le> length xs"
  obtains x0 x1 x2 x3 x4 x5 x6 x7 x8 x9 x10 x11 x12 x13 x14 x15 x16 x17 r
  where "xs = [x0, x1, x2, x3, x4, x5, x6, x7, x8, x9, x10, x11, x12, x13, x14, x15, x16, x17] @ r"
proof -
  have "length (take 18 xs) = 18" using assms by simp
  then obtain x0 x1 x2 x3 x4 x5 x6 x7 x8 x9 x10 x11 x12 x13 x14 x15 x16 x17
    where "take 18 xs = [x0, x1, x2, x3, x4, x5, x6, x7, x8, x9, x10, x11, x12, x13, x14, x15, x16, x17]"
    by (rule length18E)
  then show ?thesis using that append_take_drop_id [of 18 xs] by metis
qed

text \<open>
  C31: A receiver of a prepared and finalised FHS payload reads the sender's address, clock and logical
  transport address: the 24 bits of the LAP, the UAP, the NAP, 26 bits of the clock and 3 of the LT_ADDR.
\<close>

theorem fhs_roundtrip:
  assumes "18 \<le> length data"
  shows "bnd (bbpkt_fhs_prepare_payload data parity lap uap nap cls ltaddr has_eir) (\<lambda>data.
         bnd (bbpkt_fhs_finalize_payload data clk) bbpkt_decode_fhs) =
    Inr \<lparr>bdaddr = ucast (take_bit 24 lap) OR push_bit 24 (ucast uap) OR push_bit 32 (ucast nap),
         clk27_2 = take_bit 26 clk, fhs_lt_addr = take_bit 3 ltaddr\<rparr>"
proof -
  have lap: "ucast (drop_bit 2 (ucast (0x3 AND drop_bit 32 parity) OR ucast (0xfc AND push_bit 2 lap) :: u8)) OR
      push_bit 6 (ucast (ucast (0xff AND drop_bit 6 lap) :: u8)) OR push_bit 14 (ucast (ucast (0xff AND drop_bit 14 lap) :: u8)) OR
      push_bit 22 (ucast ((ucast (0x03 AND drop_bit 22 lap) OR push_bit 2 (has_eir AND 1) OR push_bit 4 1 OR push_bit 6 2 :: u8) AND 3))
      = take_bit 24 lap"
    unfolding and_masks by (rule word_eq_bits) (simp add: upt_conv_Cons bit_simps bit_fc)
  have nap: "ucast (ucast (0xff AND nap) :: u8) OR push_bit 8 (ucast (ucast (0xff AND drop_bit 8 nap) :: u8)) = nap"
    unfolding and_masks by (rule bit_word_eqI) (auto simp: bit_simps)
  let ?d14 = "(ltaddr AND 7) OR ucast (0xf8 AND push_bit 3 clk) :: u8"
  have lt: "?d14 AND 7 = take_bit 3 ltaddr"
    unfolding and_masks by (rule word_eq_bits) (simp add: upt_conv_Cons bit_simps bit_f8)
  have clk: "ucast (drop_bit 3 ?d14) OR push_bit 5 (ucast (ucast (0xff AND drop_bit 5 clk) :: u8)) OR
      push_bit 13 (ucast (ucast (0xff AND drop_bit 13 clk) :: u8)) OR
      push_bit 21 (ucast ((ucast (0x1f AND drop_bit 21 clk) :: u8) AND 0x1f)) = take_bit 26 clk"
    unfolding and_masks by (rule word_eq_bits) (simp add: upt_conv_Cons bit_simps bit_f8)
  obtain x0 x1 x2 x3 x4 x5 x6 x7 x8 x9 x10 x11 x12 x13 x14 x15 x16 x17 r
    where x: "data = [x0, x1, x2, x3, x4, x5, x6, x7, x8, x9, x10, x11, x12, x13, x14, x15, x16, x17] @ r"
    using assms by (rule split18)
  have p: "bbpkt_fhs_prepare_payload data parity lap uap nap cls ltaddr has_eir = Inr (
     [ucast (0xff AND parity), ucast (0xff AND drop_bit 8 parity), ucast (0xff AND drop_bit 16 parity),
      ucast (0xff AND drop_bit 24 parity),
      ucast (0x3 AND drop_bit 32 parity) OR ucast (0xfc AND push_bit 2 lap),
      ucast (0xff AND drop_bit 6 lap), ucast (0xff AND drop_bit 14 lap),
      ucast (0x03 AND drop_bit 22 lap) OR push_bit 2 (has_eir AND 1) OR push_bit 4 1 OR push_bit 6 2,
      uap, ucast (0xff AND nap), ucast (0xff AND drop_bit 8 nap),
      ucast (0xff AND cls), ucast (0xff AND drop_bit 8 cls), ucast (0xff AND drop_bit 16 cls), ltaddr,
      x15, x16, x17] @ r)"
    unfolding bbpkt_fhs_prepare_payload_def x by (subst stores_ok) simp_all
  show ?thesis
    unfolding p bnd_simps(2) fhs_finalize_list fhs_decode_list lap nap lt clk by (rule refl)
qed

theorem fhs_roundtrip_witness:
  "bnd (bbpkt_fhs_prepare_payload (replicate 20 0) 0x2c7820e7e 0x9e8b33 0x12 0x3456 0x5a020c 5 1) (\<lambda>data.
         bnd (bbpkt_fhs_finalize_payload data 0x1234567) bbpkt_decode_fhs) =
    Inr \<lparr>bdaddr = 0x3456129e8b33, clk27_2 = 0x1234567, fhs_lt_addr = 5\<rparr>"
  by (subst fhs_roundtrip) simp_all

end
