(* ===== verification/SyncWord.thy ===== *)
theory SyncWord
  imports Linear
begin

text \<open>
  The sync word of src/codec/btbb.c, a sum of rows of a generator matrix, and its specification: the
  (64, 30) code word of the LAP and a Barker sequence under the scrambling sequence of the standard.
\<close>

section \<open>The code\<close>

definition DEFAULT_CODEWORD :: u64 where
  "DEFAULT_CODEWORD = 0xb0000002c7820e7e"

definition sw_matrix :: "u64 list" where
  "sw_matrix =
    [0xfe000002a0d1c014, 0x01000003f0b9201f, 0x008000033ae40edb, 0x004000035fca99b9,
     0x002000036d5dd208, 0x00100001b6aee904, 0x00080000db577482, 0x000400006dabba41,
     0x00020002f46d43f4, 0x000100017a36a1fa, 0x00008000bd1b50fd, 0x000040029c3536aa,
     0x000020014e1a9b55, 0x0000100265b5d37e, 0x0000080132dae9bf, 0x000004025bd5ea0b,
     0x00000203ef526bd1, 0x000001033511ab3c, 0x000000819a88d59e, 0x00000040cd446acf,
     0x00000022a41aabb3, 0x0000001390b5cb0d, 0x0000000b0ae27b52, 0x0000000585713da9]"

definition btbb_gen_syncword :: "u32 \<Rightarrow> u64" where
  "btbb_gen_syncword LAP =
     fold (\<lambda>i codeword. if LAP AND drop_bit i 0x800000 \<noteq> 0 then codeword XOR sw_matrix ! i else codeword)
       [0..<24] DEFAULT_CODEWORD"

section \<open>The specification\<close>

text \<open>
  The generator polynomial of the code, octal 260534236651 in the comment of the source, the scrambling
  sequence, and the products of the polynomial with a polynomial of degree below 30.
\<close>

definition sw_poly :: u64 where
  "sw_poly = 0x585713da9"

definition PN :: u64 where
  "PN = 0x83848d96bbcc54fc"

definition clmul :: "u64 \<Rightarrow> u64 \<Rightarrow> u64" where
  "clmul p q = xsum (map (\<lambda>i. push_bit i p) [0..<30]) q"

text \<open>The 30 information bits: the LAP below the Barker sequence its top bit selects.\<close>

definition sync_info :: "u32 \<Rightarrow> u64" where
  "sync_info LAP = ucast (take_bit 24 LAP) OR push_bit 24 (if bit LAP 23 then 0x13 else 0x2c)"

section \<open>The generator matrix computes the code\<close>

lemma gen_test: "i < 24 \<Longrightarrow> LAP AND drop_bit i 0x800000 \<noteq> (0 :: u32) \<longleftrightarrow> bit LAP (23 - i)"
proof -
  assume i: "i < 24"
  have e: "(0x800000 :: u32) = push_bit 23 1" by simp
  have "drop_bit i (0x800000 :: u32) = push_bit (23 - i) 1"
    unfolding e by (rule bit_word_eqI) (use i in \<open>simp only: bit_drop_bit_eq bit_push_bit_iff bit_1_iff comp_apply, auto\<close>)
  moreover have "LAP AND push_bit k 1 \<noteq> 0 \<longleftrightarrow> bit LAP k" for k
  proof -
    have "bit (LAP AND push_bit k 1) n \<longleftrightarrow> n = k \<and> bit LAP k" for n
      by (auto simp: bit_simps dest: bit_imp_le_length)
    then show ?thesis by (metis bit_eqI bit_0_eq bot_apply bot_bool_def)
  qed
  ultimately show ?thesis by simp
qed

text \<open>The sum of the entries that the bits of the LAP select, the top bit first.\<close>

primrec row_sum :: "u64 list \<Rightarrow> nat \<Rightarrow> u32 \<Rightarrow> u64" where
  "row_sum [] i LAP = 0"
| "row_sum (r # rs) i LAP = (if bit LAP (23 - i) then r else 0) XOR row_sum rs (Suc i) LAP"

lemma fold_row_sum:
  "fold (\<lambda>i c. if bit LAP (23 - i) then c XOR ms ! i else c) [k..<length ms] c = c XOR row_sum (drop k ms) k LAP"
proof (induction "length ms - k" arbitrary: k c)
  case (Suc n)
  then have k: "k < length ms" and n: "n = length ms - Suc k" by simp_all
  then have "drop k ms = ms ! k # drop (Suc k) ms" by (simp add: Cons_nth_drop_Suc)
  then show ?case using k Suc.hyps(1) [OF n] by (simp add: upt_conv_Cons xor.assoc)
qed simp

lemma gen_eq: "btbb_gen_syncword LAP = DEFAULT_CODEWORD XOR row_sum sw_matrix 0 LAP"
proof -
  have "btbb_gen_syncword LAP = fold (\<lambda>i c. if bit LAP (23 - i) then c XOR sw_matrix ! i else c) [0..<24] DEFAULT_CODEWORD"
    unfolding btbb_gen_syncword_def by (rule fold_cong) (simp_all add: gen_test)
  moreover have "length sw_matrix = 24" by (simp add: sw_matrix_def)
  ultimately show ?thesis using fold_row_sum [of LAP sw_matrix 0 DEFAULT_CODEWORD] by simp
qed

lemma row_sum_map: "linear_word f \<Longrightarrow> f (row_sum rs i LAP) = row_sum (map f rs) i LAP"
  by (induction rs arbitrary: i) (simp_all add: linear_word_0 linear_wordD)

text \<open>The quotients of the rows by the polynomial.\<close>

definition sw_quot :: "u64 list" where
  "sw_quot =
    [0x34317134, 0x5cea47, 0x2e7523, 0x173a91, 0xb9d48, 0x5cea4,
     0x2e752, 0x173a9, 0xb9d4, 0x5cea, 0x2e75, 0x173a,
     0xb9d, 0x5ce, 0x2e7, 0x173, 0xb9, 0x5c,
     0x2e, 0x17, 0xb, 0x5, 0x2, 0x1]"

lemma clmul_linear: "linear_word (clmul p)"
  unfolding clmul_def by (rule xsum_linear)

lemma sw_shifts: "map (\<lambda>i. push_bit i sw_poly) [0..<30] =
   [0x585713da9, 0xb0ae27b52, 0x1615c4f6a4, 0x2c2b89ed48, 0x585713da90,
    0xb0ae27b520, 0x1615c4f6a40, 0x2c2b89ed480, 0x585713da900, 0xb0ae27b5200,
    0x1615c4f6a400, 0x2c2b89ed4800, 0x585713da9000, 0xb0ae27b52000, 0x1615c4f6a4000,
    0x2c2b89ed48000, 0x585713da90000, 0xb0ae27b520000, 0x1615c4f6a40000, 0x2c2b89ed480000,
    0x585713da900000, 0xb0ae27b5200000, 0x1615c4f6a400000, 0x2c2b89ed4800000, 0x585713da9000000,
    0xb0ae27b52000000, 0x1615c4f6a4000000, 0x2c2b89ed48000000, 0x585713da90000000, 0xb0ae27b520000000]"
  by (simp add: upt_conv_Cons sw_poly_def)

lemma clmul_quot: "map (clmul sw_poly) sw_quot = sw_matrix"
  unfolding clmul_def sw_shifts sw_quot_def sw_matrix_def by simp

lemma clmul_default: "clmul sw_poly 0xe99f952 = DEFAULT_CODEWORD XOR PN"
  unfolding clmul_def sw_shifts DEFAULT_CODEWORD_def PN_def by simp

lemma gen_codeword:
  "btbb_gen_syncword LAP XOR PN = clmul sw_poly (0xe99f952 XOR row_sum sw_quot 0 LAP)"
  unfolding linear_wordD [OF clmul_linear] row_sum_map [OF clmul_linear] clmul_quot clmul_default gen_eq
  by (simp add: xor.assoc xor.left_commute xor.commute)

lemma linear_drop_bit: "linear_word (drop_bit n :: u64 \<Rightarrow> u64)"
  unfolding linear_word_def by (simp add: drop_bit_xor)

lemma drop_matrix: "map (drop_bit 34) sw_matrix = 0x3f800000 # map (\<lambda>i. push_bit i 1) (rev [0..<23])"
  by (simp add: sw_matrix_def upt_conv_Cons)

lemma bit_row_sum_pows:
  "k \<le> 23 \<Longrightarrow> bit (row_sum (map (\<lambda>i. push_bit i 1) (rev [0..<k])) (24 - k) LAP) j \<longleftrightarrow> j < k \<and> bit LAP j"
proof (induction k)
  case (Suc k)
  then have "23 - (24 - Suc k) = k" "Suc (24 - Suc k) = 24 - k" by simp_all
  then show ?case using Suc by (auto simp: bit_xor_iff bit_exp_iff less_Suc_eq)
qed simp

text \<open>
  C30: The sync word of an address is the code word of its 24-bit LAP: scrambled with the PN sequence it
  is a multiple of the generator polynomial, and its top 30 bits are the LAP below the Barker sequence.
\<close>

theorem syncword_codeword:
  "(\<exists>q. btbb_gen_syncword LAP XOR PN = clmul sw_poly q) \<and> drop_bit 34 (btbb_gen_syncword LAP) = sync_info LAP"
proof (intro conjI exI)
  show "btbb_gen_syncword LAP XOR PN = clmul sw_poly (0xe99f952 XOR row_sum sw_quot 0 LAP)"
    by (rule gen_codeword)
  have d: "drop_bit 34 DEFAULT_CODEWORD = 0x2c000000" by (simp add: DEFAULT_CODEWORD_def)
  have b: "bit (row_sum (map (\<lambda>i. push_bit i 1) (rev [0..<23])) 1 LAP) j \<longleftrightarrow> j < 23 \<and> bit LAP j" for j
    using bit_row_sum_pows [of 23 LAP j] by simp
  have "drop_bit 34 (btbb_gen_syncword LAP) =
      0x2c000000 XOR ((if bit LAP 23 then 0x3f800000 else 0) XOR row_sum (map (\<lambda>i. push_bit i 1) (rev [0..<23])) 1 LAP)"
    unfolding gen_eq drop_bit_xor d row_sum_map [OF linear_drop_bit] drop_matrix by simp
  also have "\<dots> = sync_info LAP"
    unfolding sync_info_def
    by (rule word_eq_bits) (simp add: upt_conv_Cons bit_xor_iff b [unfolded One_nat_def] b bit_simps del: push_bit_of_1)
  finally show "drop_bit 34 (btbb_gen_syncword LAP) = sync_info LAP" .
qed

end
