(* ===== verification/Fifo.thy ===== *)
theory Fifo
  imports Prelude
begin

text \<open>
  The contract of a bounded first-in first-out queue, as a locale, with the client's view proved once:
  whatever is taken out is what was put in, in that order.  Ring buffers: the contents of an array
  between two indices that wrap around.
\<close>

section \<open>The interface\<close>

datatype 'a fifo_op = Put 'a | Get

text \<open>A client's sequence of calls: the queue afterwards, what was accepted and what was taken out.\<close>

primrec fifo_run ::
    "('q \<Rightarrow> 'a \<Rightarrow> 'q option) \<Rightarrow> ('q \<Rightarrow> ('a \<times> 'q) option) \<Rightarrow> 'a fifo_op list \<Rightarrow> 'q \<Rightarrow> 'q \<times> 'a list \<times> 'a list" where
  "fifo_run put get [] q = (q, [], [])"
| "fifo_run put get (op # ops) q =
     (case op of
        Put x \<Rightarrow> (case put q x of
            None \<Rightarrow> fifo_run put get ops q
          | Some q \<Rightarrow> let (q, acc, out) = fifo_run put get ops q in (q, x # acc, out))
      | Get \<Rightarrow> (case get q of
            None \<Rightarrow> fifo_run put get ops q
          | Some (x, q) \<Rightarrow> let (q, acc, out) = fifo_run put get ops q in (q, acc, x # out)))"

locale bounded_fifo =
  fixes put :: "'q \<Rightarrow> 'a \<Rightarrow> 'q option"
    and get :: "'q \<Rightarrow> ('a \<times> 'q) option"
    and contents :: "'q \<Rightarrow> 'a list"
    and inv :: "'q \<Rightarrow> bool"
    and cap :: nat
  assumes put_full: "inv q \<Longrightarrow> length (contents q) = cap \<Longrightarrow> put q x = None"
    and put_ok: "inv q \<Longrightarrow> length (contents q) < cap \<Longrightarrow>
      \<exists>q'. put q x = Some q' \<and> inv q' \<and> contents q' = contents q @ [x]"
    and get_empty: "inv q \<Longrightarrow> contents q = [] \<Longrightarrow> get q = None"
    and get_ok: "inv q \<Longrightarrow> contents q = y # ys \<Longrightarrow> \<exists>q'. get q = Some (y, q') \<and> inv q' \<and> contents q' = ys"
    and bounded: "inv q \<Longrightarrow> length (contents q) \<le> cap"
begin

lemma put_cases:
  assumes "inv q"
  obtains (full) "put q x = None" "length (contents q) = cap"
    | (ok) q' where "put q x = Some q'" "inv q'" "contents q' = contents q @ [x]"
  using put_full [OF assms] put_ok [OF assms] bounded [OF assms] by (metis le_neq_implies_less)

lemma get_cases:
  assumes "inv q"
  obtains (none) "get q = None" "contents q = []"
    | (ok) y q' where "get q = Some (y, q')" "inv q'" "contents q = y # contents q'"
  using get_empty [OF assms] get_ok [OF assms] by (metis neq_Nil_conv)

lemma run_order:
  assumes "inv q" and "fifo_run put get ops q = (q', acc, out)"
  shows "inv q' \<and> contents q @ acc = out @ contents q' \<and> length (contents q') \<le> cap"
  using assms
proof (induction ops arbitrary: q acc out)
  case Nil
  then show ?case by (simp add: bounded)
next
  case (Cons op ops)
  show ?case
  proof (cases op)
    case (Put x)
    from put_cases [OF Cons.prems(1), of x] show ?thesis
    proof cases
      case 1
      then show ?thesis using Cons Put 1 by simp
    next
      case (2 q1)
      obtain acc2 where r: "fifo_run put get ops q1 = (q', acc2, out)" and "acc = x # acc2"
        using Cons.prems(2) Put 2 by (auto split: prod.splits)
      then show ?thesis using Cons.IH [OF 2(2) r] 2 by simp
    qed
  next
    case Get
    from get_cases [OF Cons.prems(1)] show ?thesis
    proof cases
      case 1
      then show ?thesis using Cons.IH [OF Cons.prems(1)] Cons.prems Get by simp
    next
      case (2 y q1)
      obtain out2 where r: "fifo_run put get ops q1 = (q', acc, out2)" and "out = y # out2"
        using Cons.prems(2) Get 2 by (auto split: prod.splits)
      then show ?thesis using Cons.IH [OF 2(2) r] 2 by simp
    qed
  qed
qed

text \<open>What a client has taken out is a prefix of what it had put in.\<close>

lemma run_prefix:
  assumes "inv q" and "contents q = []" and "fifo_run put get ops q = (q', acc, out)"
  shows "acc = out @ contents q'"
  using run_order [OF assms(1,3)] assms(2) by simp

end

section \<open>Rings\<close>

definition ring_len :: "nat \<Rightarrow> nat \<Rightarrow> nat \<Rightarrow> nat" where
  "ring_len N r w = (w + N - r) mod N"

definition ring_list :: "nat \<Rightarrow> 'a list \<Rightarrow> nat \<Rightarrow> nat \<Rightarrow> 'a list" where
  "ring_list N buf r w = map (\<lambda>i. buf ! ((r + i) mod N)) [0..<ring_len N r w]"

lemma ring_len_less: "0 < N \<Longrightarrow> ring_len N r w < N"
  by (simp add: ring_len_def)

lemma ring_len_cases: "r < N \<Longrightarrow> w < N \<Longrightarrow> ring_len N r w = (if r \<le> w then w - r else w + N - r)"
  unfolding ring_len_def by (auto simp: mod_if)

lemma ring_next: "w < N \<Longrightarrow> Suc w mod N = (if Suc w = N then 0 else Suc w)"
  by (auto simp: mod_if)

lemma length_ring_list [simp]: "length (ring_list N buf r w) = ring_len N r w"
  by (simp add: ring_list_def)

lemma ring_empty: "r < N \<Longrightarrow> w < N \<Longrightarrow> ring_list N buf r w = [] \<longleftrightarrow> r = w"
  by (auto simp: ring_list_def ring_len_cases)

lemma ring_full: "r < N \<Longrightarrow> w < N \<Longrightarrow> Suc w mod N = r \<longleftrightarrow> ring_len N r w = N - 1"
  by (auto simp: ring_len_cases ring_next)

lemma ring_len_put: "r < N \<Longrightarrow> w < N \<Longrightarrow> Suc w mod N \<noteq> r \<Longrightarrow> ring_len N r (Suc w mod N) = Suc (ring_len N r w)"
  by (auto simp: ring_len_cases ring_next split: if_splits)

lemma ring_index: "r < N \<Longrightarrow> w < N \<Longrightarrow> (r + ring_len N r w) mod N = w"
  by (auto simp: ring_len_cases mod_if)

lemma mod_once: "a < N + N \<Longrightarrow> a mod N = (if a < N then a else a - N :: nat)"
  by (auto simp: le_mod_geq)

lemma ring_index_neq: "r < N \<Longrightarrow> w < N \<Longrightarrow> i < ring_len N r w \<Longrightarrow> w \<noteq> (r + i) mod N"
proof -
  assume a: "r < N" "w < N" "i < ring_len N r w"
  then have "i < N" using ring_len_less [of N r w] by simp
  then have "(r + i) mod N = (if r + i < N then r + i else r + i - N)" using a by (intro mod_once) simp
  then show "w \<noteq> (r + i) mod N" using a by (auto simp: ring_len_cases split: if_splits)
qed

lemma ring_put:
  assumes "r < N" and "w < N" and "Suc w mod N \<noteq> r" and "length buf = N"
  shows "ring_list N (buf[w := x]) r (Suc w mod N) = ring_list N buf r w @ [x]"
  using assms ring_index [OF assms(1,2)] ring_index_neq [OF assms(1,2)]
  by (simp add: ring_list_def ring_len_put)

lemma ring_get:
  assumes "r < N" and "w < N" and "r \<noteq> w"
  shows "ring_list N buf r w = buf ! r # ring_list N buf (Suc r mod N) w"
proof -
  have l: "ring_len N r w = Suc (ring_len N (Suc r mod N) w)"
    using assms by (auto simp: ring_len_cases ring_next)
  have "(Suc r mod N + i) mod N = (r + Suc i) mod N" for i by (simp add: mod_simps)
  then show ?thesis
    using assms by (simp add: ring_list_def l upt_conv_Cons map_Suc_upt [symmetric] del: upt_Suc)
qed

end
