(* ===== verification/Queues.thy ===== *)
theory Queues
  imports Fifo
begin

text \<open>
  The four ring buffers of the repository: the message queue of the btbr firmware (src/util/queue.c), the
  serial port FIFO (firmware/common/serial_fifo.c), the pointer queue of the older firmware
  (firmware/bluetooth_rxtx/queue.c) and the packet FIFO of the host library (ubertooth_fifo.c).  Each
  operation is a definition; each queue interprets \<open>bounded_fifo\<close>.
\<close>

section \<open>The message queue of btbr\<close>

abbreviation MSG_QUEUE_SIZE :: nat where
  "MSG_QUEUE_SIZE \<equiv> 8"

record 'a msg_queue =
  mq_head :: nat
  mq_tail :: nat
  mq_msg :: "'a list"

definition msg_queue_empty :: "'a msg_queue \<Rightarrow> bool" where
  "msg_queue_empty q \<longleftrightarrow> mq_head q = mq_tail q"

definition msg_queue_full :: "'a msg_queue \<Rightarrow> bool" where
  "msg_queue_full q \<longleftrightarrow> (mq_tail q + 1) mod MSG_QUEUE_SIZE = mq_head q"

text \<open>The result is the message, or \<open>None\<close> for NULL.\<close>

definition msg_dequeue :: "'a msg_queue \<Rightarrow> ('a option \<times> 'a msg_queue) res" where
  "msg_dequeue q =
     (if \<not> msg_queue_empty q
      then bnd (rd (mq_msg q) (mq_head q)) (\<lambda>p. Inr (Some p, q\<lparr>mq_head := (mq_head q + 1) mod MSG_QUEUE_SIZE\<rparr>))
      else Inr (None, q))"

definition msg_enqueue :: "'a msg_queue \<Rightarrow> 'a \<Rightarrow> (int \<times> 'a msg_queue) res" where
  "msg_enqueue q p =
     (if msg_queue_full q then Inr (-1, q)
      else bnd (wr (mq_msg q) (mq_tail q) p) (\<lambda>m.
           Inr (0, q\<lparr>mq_msg := m, mq_tail := (mq_tail q + 1) mod MSG_QUEUE_SIZE\<rparr>)))"

definition msg_queue_init :: "'a msg_queue \<Rightarrow> 'a msg_queue" where
  "msg_queue_init q = q\<lparr>mq_head := 0, mq_tail := 0\<rparr>"

definition mq_inv :: "'a msg_queue \<Rightarrow> bool" where
  "mq_inv q \<longleftrightarrow> mq_head q < MSG_QUEUE_SIZE \<and> mq_tail q < MSG_QUEUE_SIZE \<and> length (mq_msg q) = MSG_QUEUE_SIZE"

definition mq_list :: "'a msg_queue \<Rightarrow> 'a list" where
  "mq_list q = ring_list MSG_QUEUE_SIZE (mq_msg q) (mq_head q) (mq_tail q)"

definition mq_put :: "'a msg_queue \<Rightarrow> 'a \<Rightarrow> 'a msg_queue option" where
  "mq_put q p = (case msg_enqueue q p of Inr (rc, q') \<Rightarrow> if rc = 0 then Some q' else None | Inl e \<Rightarrow> None)"

definition mq_get :: "'a msg_queue \<Rightarrow> ('a \<times> 'a msg_queue) option" where
  "mq_get q = (case msg_dequeue q of Inr (Some p, q') \<Rightarrow> Some (p, q') | _ \<Rightarrow> None)"

text \<open>The outcome of every call on a well-formed queue, without faults.\<close>

lemma msg_enqueue_cases:
  assumes "mq_inv q"
  shows "if length (mq_list q) = 7 then msg_enqueue q p = Inr (-1, q)
    else \<exists>q'. msg_enqueue q p = Inr (0, q') \<and> mq_inv q' \<and> mq_list q' = mq_list q @ [p]"
proof -
  have b: "mq_head q < 8" "mq_tail q < 8" "length (mq_msg q) = 8" using assms by (simp_all add: mq_inv_def)
  have full: "msg_queue_full q \<longleftrightarrow> length (mq_list q) = 7"
    using ring_full [OF b(1,2)] by (simp add: msg_queue_full_def mq_list_def)
  show ?thesis
  proof (cases "msg_queue_full q")
    case False
    then have "Suc (mq_tail q) mod 8 \<noteq> mq_head q" by (simp add: msg_queue_full_def)
    from ring_put [OF b(1,2) this b(3)] show ?thesis
      using False b full by (simp add: msg_enqueue_def mq_inv_def mq_list_def)
  qed (use full in \<open>simp add: msg_enqueue_def\<close>)
qed

lemma msg_dequeue_cases:
  assumes "mq_inv q"
  shows "case mq_list q of [] \<Rightarrow> msg_dequeue q = Inr (None, q)
    | p # ps \<Rightarrow> \<exists>q'. msg_dequeue q = Inr (Some p, q') \<and> mq_inv q' \<and> mq_list q' = ps"
proof -
  have b: "mq_head q < 8" "mq_tail q < 8" "length (mq_msg q) = 8" using assms by (simp_all add: mq_inv_def)
  show ?thesis
  proof (cases "mq_head q = mq_tail q")
    case True
    then have "mq_list q = []" using ring_empty [OF b(1,2)] by (simp add: mq_list_def)
    then show ?thesis using True by (simp add: msg_dequeue_def msg_queue_empty_def)
  next
    case False
    then show ?thesis using b ring_get [OF b(1,2) False, of "mq_msg q"]
      by (simp add: msg_dequeue_def msg_queue_empty_def mq_list_def mq_inv_def)
  qed
qed

interpretation mq: bounded_fifo mq_put mq_get mq_list mq_inv 7
proof
  fix q :: "'a msg_queue" and x y ys assume inv: "mq_inv q"
  note e = msg_enqueue_cases [OF inv, of x] and d = msg_dequeue_cases [OF inv]
  show "length (mq_list q) = 7 \<Longrightarrow> mq_put q x = None" using e by (simp add: mq_put_def)
  show "length (mq_list q) < 7 \<Longrightarrow> \<exists>q'. mq_put q x = Some q' \<and> mq_inv q' \<and> mq_list q' = mq_list q @ [x]"
    using e by (auto simp: mq_put_def)
  show "mq_list q = [] \<Longrightarrow> mq_get q = None" using d by (simp add: mq_get_def)
  show "mq_list q = y # ys \<Longrightarrow> \<exists>q'. mq_get q = Some (y, q') \<and> mq_inv q' \<and> mq_list q' = ys"
    using d by (auto simp: mq_get_def)
  show "length (mq_list q) \<le> 7"
    using ring_len_less [of 8 "mq_head q" "mq_tail q"] by (simp add: mq_list_def)
qed

text \<open>
  C32: The message queue is a FIFO of seven messages: from an initialised queue, after any sequence of
  enqueue and dequeue calls, what was dequeued followed by what is still queued is what was accepted, at
  most seven messages are queued, and no call leaves the array.
\<close>

theorem msg_queue_fifo:
  assumes "length (mq_msg q0) = MSG_QUEUE_SIZE" and "fifo_run mq_put mq_get ops (msg_queue_init q0) = (q, accepted, taken)"
  shows "accepted = taken @ mq_list q \<and> length (mq_list q) < MSG_QUEUE_SIZE \<and>
    (\<exists>r. msg_enqueue q p = Inr r) \<and> (\<exists>r. msg_dequeue q = Inr r)"
proof -
  have inv: "mq_inv (msg_queue_init q0)" and emp: "mq_list (msg_queue_init q0) = []"
    using assms(1) ring_empty [of 0 8 0 "mq_msg q0"] by (simp_all add: mq_inv_def msg_queue_init_def mq_list_def)
  have "accepted = taken @ mq_list q" by (rule mq.run_prefix [OF inv emp assms(2)])
  moreover have "mq_inv q" and "length (mq_list q) \<le> 7" using mq.run_order [OF inv assms(2)] by simp_all
  moreover from this have "\<exists>r. msg_enqueue q p = Inr r" "\<exists>r. msg_dequeue q = Inr r"
    using msg_enqueue_cases [of q p] msg_dequeue_cases [of q] by (auto split: if_splits list.splits)
  ultimately show ?thesis by simp
qed

theorem msg_queue_fifo_witness:
  "\<exists>q. fifo_run mq_put mq_get [Put 1, Put 2, Get, Put 3] (msg_queue_init \<lparr>mq_head = 5, mq_tail = 2, mq_msg = replicate 8 0\<rparr>)
      = (q, [1, 2, 3], [1]) \<and> [1, 2, 3 :: nat] = [1] @ mq_list q"
proof -
  let ?q0 = "\<lparr>mq_head = 5, mq_tail = 2, mq_msg = replicate 8 0\<rparr> :: nat msg_queue"
  obtain q where r: "fifo_run mq_put mq_get [Put 1, Put 2, Get, Put 3] (msg_queue_init ?q0) = (q, [1, 2, 3], [1])"
    by (simp add: mq_put_def mq_get_def msg_enqueue_def msg_dequeue_def msg_queue_empty_def msg_queue_full_def
        msg_queue_init_def)
  moreover have "[1, 2, 3] = [1] @ mq_list q" using msg_queue_fifo [OF _ r] by simp
  ultimately show ?thesis by blast
qed

section \<open>The serial port FIFO\<close>

abbreviation VCOM_FIFO_SIZE :: nat where
  "VCOM_FIFO_SIZE \<equiv> 128"

text \<open>Here bytes are written at \<open>head\<close> and read at \<open>tail\<close>; \<open>buf\<close> is the caller's array.\<close>

record serial_fifo =
  sf_head :: nat
  sf_tail :: nat
  sf_buf :: "u8 list"

definition serial_fifo_init :: "u8 list \<Rightarrow> serial_fifo" where
  "serial_fifo_init buf = \<lparr>sf_head = 0, sf_tail = 0, sf_buf = buf\<rparr>"

definition fifo_put :: "serial_fifo \<Rightarrow> u8 \<Rightarrow> (bool \<times> serial_fifo) res" where
  "fifo_put f c =
     (let nxt = (sf_head f + 1) mod VCOM_FIFO_SIZE in
      if nxt = sf_tail f then Inr (False, f)
      else bnd (wr (sf_buf f) (sf_head f) c) (\<lambda>b. Inr (True, f\<lparr>sf_buf := b, sf_head := nxt\<rparr>)))"

definition fifo_get :: "serial_fifo \<Rightarrow> (u8 option \<times> serial_fifo) res" where
  "fifo_get f =
     (if sf_head f = sf_tail f then Inr (None, f)
      else bnd (rd (sf_buf f) (sf_tail f)) (\<lambda>c. Inr (Some c, f\<lparr>sf_tail := (sf_tail f + 1) mod VCOM_FIFO_SIZE\<rparr>)))"

definition fifo_avail :: "serial_fifo \<Rightarrow> nat" where
  "fifo_avail f = (VCOM_FIFO_SIZE + sf_head f - sf_tail f) mod VCOM_FIFO_SIZE"

definition fifo_free :: "serial_fifo \<Rightarrow> nat" where
  "fifo_free f = VCOM_FIFO_SIZE - 1 - fifo_avail f"

definition sf_inv :: "serial_fifo \<Rightarrow> bool" where
  "sf_inv f \<longleftrightarrow> sf_head f < VCOM_FIFO_SIZE \<and> sf_tail f < VCOM_FIFO_SIZE \<and> length (sf_buf f) = VCOM_FIFO_SIZE"

definition sf_list :: "serial_fifo \<Rightarrow> u8 list" where
  "sf_list f = ring_list VCOM_FIFO_SIZE (sf_buf f) (sf_tail f) (sf_head f)"

definition sf_put :: "serial_fifo \<Rightarrow> u8 \<Rightarrow> serial_fifo option" where
  "sf_put f c = (case fifo_put f c of Inr (ok, f') \<Rightarrow> if ok then Some f' else None | Inl e \<Rightarrow> None)"

definition sf_get :: "serial_fifo \<Rightarrow> (u8 \<times> serial_fifo) option" where
  "sf_get f = (case fifo_get f of Inr (Some c, f') \<Rightarrow> Some (c, f') | _ \<Rightarrow> None)"

interpretation sf: bounded_fifo sf_put sf_get sf_list sf_inv 127
proof
  fix f x y ys assume inv: "sf_inv f"
  have b: "sf_tail f < 128" "sf_head f < 128" "length (sf_buf f) = 128" using inv by (simp_all add: sf_inv_def)
  note full = ring_full [OF b(1,2)] and emp = ring_empty [OF b(1,2)]
  show "length (sf_list f) = 127 \<Longrightarrow> sf_put f x = None"
    using full by (simp add: sf_put_def fifo_put_def sf_list_def)
  show "\<exists>f'. sf_put f x = Some f' \<and> sf_inv f' \<and> sf_list f' = sf_list f @ [x]" if "length (sf_list f) < 127"
  proof -
    have "Suc (sf_head f) mod 128 \<noteq> sf_tail f" using that full by (simp add: sf_list_def)
    with ring_put [OF b(1,2) this b(3)] b show ?thesis
      by (simp add: sf_put_def fifo_put_def sf_list_def sf_inv_def)
  qed
  show "sf_list f = [] \<Longrightarrow> sf_get f = None"
    using emp [of "sf_buf f"] by (auto simp: sf_get_def fifo_get_def sf_list_def)
  show "\<exists>f'. sf_get f = Some (y, f') \<and> sf_inv f' \<and> sf_list f' = ys" if "sf_list f = y # ys"
  proof -
    have "sf_tail f \<noteq> sf_head f" using that emp [of "sf_buf f"] by (auto simp: sf_list_def)
    with ring_get [OF b(1,2) this, of "sf_buf f"] b that show ?thesis
      by (simp add: sf_get_def fifo_get_def sf_list_def sf_inv_def)
  qed
  show "length (sf_list f) \<le> 127"
    using ring_len_less [of 128 "sf_tail f" "sf_head f"] by (simp add: sf_list_def)
qed

lemma fifo_avail_list: "sf_inv f \<Longrightarrow> fifo_avail f = length (sf_list f) \<and> fifo_free f = 127 - length (sf_list f)"
  by (simp add: fifo_avail_def fifo_free_def sf_list_def ring_len_def add.commute)

theorem serial_fifo_order:
  assumes "length buf = VCOM_FIFO_SIZE" and "fifo_run sf_put sf_get ops (serial_fifo_init buf) = (f, accepted, taken)"
  shows "accepted = taken @ sf_list f \<and> fifo_avail f = length accepted - length taken"
proof -
  have inv: "sf_inv (serial_fifo_init buf)" and emp: "sf_list (serial_fifo_init buf) = []"
    using assms(1) ring_empty [of 0 128 0 buf] by (simp_all add: sf_inv_def serial_fifo_init_def sf_list_def)
  have "accepted = taken @ sf_list f" by (rule sf.run_prefix [OF inv emp assms(2)])
  then show ?thesis using sf.run_order [OF inv assms(2)] fifo_avail_list [of f] by simp
qed

section \<open>The pointer queue of the older firmware\<close>

abbreviation FIFOSIZE :: nat where
  "FIFOSIZE \<equiv> 10"

text \<open>The indices are advanced before they are used, so slot \<open>head\<close> is the unused one.\<close>

record 'a queue_t =
  q_data :: "'a list"
  q_head :: nat
  q_tail :: nat

definition queue_init :: "'a queue_t \<Rightarrow> 'a queue_t" where
  "queue_init f = f\<lparr>q_head := 0, q_tail := 0\<rparr>"

definition queue_insert :: "'a queue_t \<Rightarrow> 'a \<Rightarrow> (int \<times> 'a queue_t) res" where
  "queue_insert f x =
     (let newtail = q_tail f + 1;
          newtail = (if newtail \<ge> FIFOSIZE then 0 else newtail) in
      if newtail = q_head f then Inr (0, f)
      else bnd (wr (q_data f) newtail x) (\<lambda>d. Inr (1, f\<lparr>q_data := d, q_tail := newtail\<rparr>)))"

definition queue_remove :: "'a queue_t \<Rightarrow> (int \<times> 'a option \<times> 'a queue_t) res" where
  "queue_remove f =
     (if q_head f = q_tail f then Inr (0, None, f)
      else
        let newhead = q_head f + 1;
            newhead = (if newhead \<ge> FIFOSIZE then 0 else newhead) in
        bnd (rd (q_data f) newhead) (\<lambda>x. Inr (1, Some x, f\<lparr>q_head := newhead\<rparr>)))"

definition q_inv :: "'a queue_t \<Rightarrow> bool" where
  "q_inv f \<longleftrightarrow> q_head f < FIFOSIZE \<and> q_tail f < FIFOSIZE \<and> length (q_data f) = FIFOSIZE"

definition q_list :: "'a queue_t \<Rightarrow> 'a list" where
  "q_list f = ring_list FIFOSIZE (q_data f) (Suc (q_head f) mod FIFOSIZE) (Suc (q_tail f) mod FIFOSIZE)"

definition q_put :: "'a queue_t \<Rightarrow> 'a \<Rightarrow> 'a queue_t option" where
  "q_put f x = (case queue_insert f x of Inr (rc, f') \<Rightarrow> if rc = 1 then Some f' else None | Inl e \<Rightarrow> None)"

definition q_get :: "'a queue_t \<Rightarrow> ('a \<times> 'a queue_t) option" where
  "q_get f = (case queue_remove f of Inr (rc, Some x, f') \<Rightarrow> Some (x, f') | _ \<Rightarrow> None)"

lemma q_wrap: "t < 10 \<Longrightarrow> (if 10 \<le> t + 1 then 0 else t + 1) = Suc t mod 10"
  by (auto simp: mod_if)

lemma queue_insert_eq:
  "q_tail f < 10 \<Longrightarrow> queue_insert f x =
    (if Suc (q_tail f) mod 10 = q_head f then Inr (0, f)
     else bnd (wr (q_data f) (Suc (q_tail f) mod 10) x) (\<lambda>d. Inr (1, f\<lparr>q_data := d, q_tail := Suc (q_tail f) mod 10\<rparr>)))"
  unfolding queue_insert_def Let_def by (subst q_wrap, assumption)+ (rule refl)

lemma queue_remove_eq:
  "q_head f < 10 \<Longrightarrow> queue_remove f =
    (if q_head f = q_tail f then Inr (0, None, f)
     else bnd (rd (q_data f) (Suc (q_head f) mod 10)) (\<lambda>x. Inr (1, Some x, f\<lparr>q_head := Suc (q_head f) mod 10\<rparr>)))"
  unfolding queue_remove_def Let_def by (subst q_wrap, assumption)+ (rule refl)

lemma Suc_mod_inj: "a < N \<Longrightarrow> b < N \<Longrightarrow> Suc a mod N = Suc b mod N \<longleftrightarrow> a = b"
  by (auto simp: ring_next split: if_splits)

interpretation rq: bounded_fifo q_put q_get q_list q_inv 9
proof
  fix f :: "'a queue_t" and x y ys assume inv: "q_inv f"
  let ?r = "Suc (q_head f) mod 10" and ?w = "Suc (q_tail f) mod 10"
  have h: "q_head f < 10" "q_tail f < 10" "length (q_data f) = 10" using inv by (simp_all add: q_inv_def)
  have b: "?r < 10" "?w < 10" by simp_all
  note full = ring_full [OF b] and emp = ring_empty [OF b]
  have eq: "Suc ?w mod 10 = ?r \<longleftrightarrow> ?w = q_head f"
    using Suc_mod_inj [OF b(2) h(1)] .
  have ne: "?r = ?w \<longleftrightarrow> q_head f = q_tail f"
    using Suc_mod_inj [OF h(1,2)] .
  show "length (q_list f) = 9 \<Longrightarrow> q_put f x = None"
    using full eq by (simp add: q_put_def queue_insert_eq h(2) q_list_def)
  show "\<exists>f'. q_put f x = Some f' \<and> q_inv f' \<and> q_list f' = q_list f @ [x]" if "length (q_list f) < 9"
  proof -
    have n: "Suc ?w mod 10 \<noteq> ?r" using that full by (simp add: q_list_def)
    with ring_put [OF b n h(3), of x] h eq show ?thesis
      by (simp add: q_put_def queue_insert_eq h(2) q_list_def q_inv_def)
  qed
  show "q_list f = [] \<Longrightarrow> q_get f = None"
    using emp [of "q_data f"] ne by (auto simp: q_get_def queue_remove_def q_list_def)
  show "\<exists>f'. q_get f = Some (y, f') \<and> q_inv f' \<and> q_list f' = ys" if "q_list f = y # ys"
  proof -
    have n: "?r \<noteq> ?w" using that emp [of "q_data f"] by (auto simp: q_list_def)
    with ring_get [OF b n, of "q_data f"] h ne that show ?thesis
      by (simp add: q_get_def queue_remove_eq h(1) q_list_def q_inv_def)
  qed
  show "length (q_list f) \<le> 9"
    using ring_len_less [of 10 ?r ?w] by (simp add: q_list_def)
qed

theorem rxtx_queue_order:
  assumes "length (q_data f0) = FIFOSIZE" and "fifo_run q_put q_get ops (queue_init f0) = (f, accepted, taken)"
  shows "accepted = taken @ q_list f \<and> length (q_list f) < FIFOSIZE"
proof -
  have inv: "q_inv (queue_init f0)" and emp: "q_list (queue_init f0) = []"
    using assms(1) ring_empty [of "Suc 0 mod 10" 10 "Suc 0 mod 10" "q_data f0"]
    by (simp_all add: q_inv_def queue_init_def q_list_def)
  show ?thesis using rq.run_prefix [OF inv emp assms(2)] rq.run_order [OF inv assms(2)] by simp
qed

section \<open>The packet FIFO of the host library\<close>

abbreviation FIFO_SIZE :: nat where
  "FIFO_SIZE \<equiv> 1000000"

record 'a host_fifo =
  hf_packets :: "'a list"
  read_ptr :: nat
  write_ptr :: nat

text \<open>The fresh allocation holds any packets.\<close>

definition fifo_init :: "'a list \<Rightarrow> 'a host_fifo" where
  "fifo_init allocated = \<lparr>hf_packets = allocated, read_ptr = 0, write_ptr = 0\<rparr>"

definition fifo_inc_write_ptr :: "'a host_fifo \<Rightarrow> 'a host_fifo" where
  "fifo_inc_write_ptr f =
     (if read_ptr f \<noteq> (write_ptr f + 1) mod FIFO_SIZE
      then f\<lparr>write_ptr := (write_ptr f + 1) mod FIFO_SIZE\<rparr> else f)"

definition fifo_empty :: "'a host_fifo \<Rightarrow> bool" where
  "fifo_empty f \<longleftrightarrow> read_ptr f = write_ptr f"

definition fifo_push :: "'a host_fifo \<Rightarrow> 'a \<Rightarrow> 'a host_fifo res" where
  "fifo_push f packet =
     bnd (wr (hf_packets f) (write_ptr f) packet) (\<lambda>ps. Inr (fifo_inc_write_ptr (f\<lparr>hf_packets := ps\<rparr>)))"

definition fifo_pop :: "'a host_fifo \<Rightarrow> ('a \<times> 'a host_fifo) res" where
  "fifo_pop f =
     (let selected = read_ptr f; f = f\<lparr>read_ptr := (read_ptr f + 1) mod FIFO_SIZE\<rparr> in
      bnd (rd (hf_packets f) selected) (\<lambda>p. Inr (p, f)))"

definition fifo_get_write_element :: "'a host_fifo \<Rightarrow> nat" where
  "fifo_get_write_element f = write_ptr f"

definition hf_inv :: "'a host_fifo \<Rightarrow> bool" where
  "hf_inv f \<longleftrightarrow> read_ptr f < FIFO_SIZE \<and> write_ptr f < FIFO_SIZE \<and> length (hf_packets f) = FIFO_SIZE"

definition hf_list :: "'a host_fifo \<Rightarrow> 'a list" where
  "hf_list f = ring_list FIFO_SIZE (hf_packets f) (read_ptr f) (write_ptr f)"

definition hf_put :: "'a host_fifo \<Rightarrow> 'a \<Rightarrow> 'a host_fifo option" where
  "hf_put f p = (case fifo_push f p of Inr f' \<Rightarrow> if write_ptr f' \<noteq> write_ptr f then Some f' else None | Inl e \<Rightarrow> None)"

definition hf_get :: "'a host_fifo \<Rightarrow> ('a \<times> 'a host_fifo) option" where
  "hf_get f = (if fifo_empty f then None else case fifo_pop f of Inr r \<Rightarrow> Some r | Inl e \<Rightarrow> None)"

lemma ring_list_spare:
  "r < N \<Longrightarrow> w < N \<Longrightarrow> length buf = N \<Longrightarrow> ring_list N (buf[w := x]) r w = ring_list N buf r w"
  using ring_index_neq [of r N w] by (simp add: ring_list_def)

lemma fifo_push_cases:
  assumes "hf_inv f"
  shows "\<exists>f'. fifo_push f p = Inr f' \<and> hf_inv f' \<and>
    (if length (hf_list f) = FIFO_SIZE - 1 then hf_list f' = hf_list f \<and> write_ptr f' = write_ptr f
     else hf_list f' = hf_list f @ [p] \<and> write_ptr f' \<noteq> write_ptr f)"
proof -
  have b: "read_ptr f < FIFO_SIZE" "write_ptr f < FIFO_SIZE" "length (hf_packets f) = FIFO_SIZE"
    using assms by (simp_all add: hf_inv_def)
  note full = ring_full [OF b(1,2)]
  show ?thesis
  proof (cases "Suc (write_ptr f) mod FIFO_SIZE = read_ptr f")
    case True
    then show ?thesis using b full ring_list_spare [OF b, of p]
      by (simp add: fifo_push_def fifo_inc_write_ptr_def hf_inv_def hf_list_def)
  next
    case False
    have "Suc (write_ptr f) mod FIFO_SIZE \<noteq> write_ptr f" using ring_next [OF b(2)] by (auto split: if_splits)
    then show ?thesis using False b full ring_put [OF b(1,2) False b(3), of p]
      by (simp add: fifo_push_def fifo_inc_write_ptr_def hf_inv_def hf_list_def)
  qed
qed

lemma fifo_pop_ok:
  assumes "hf_inv f" and "\<not> fifo_empty f"
  shows "\<exists>p f'. fifo_pop f = Inr (p, f') \<and> hf_inv f' \<and> hf_list f = p # hf_list f'"
proof -
  have b: "read_ptr f < FIFO_SIZE" "write_ptr f < FIFO_SIZE" "length (hf_packets f) = FIFO_SIZE"
    using assms by (simp_all add: hf_inv_def)
  have "read_ptr f \<noteq> write_ptr f" using assms(2) by (simp add: fifo_empty_def)
  from ring_get [OF b(1,2) this, of "hf_packets f"] b show ?thesis
    by (simp add: fifo_pop_def Let_def hf_inv_def hf_list_def)
qed

lemma fifo_empty_list: "hf_inv f \<Longrightarrow> fifo_empty f \<longleftrightarrow> hf_list f = []"
  using ring_empty [of "read_ptr f" FIFO_SIZE "write_ptr f" "hf_packets f"]
  by (simp add: hf_inv_def hf_list_def fifo_empty_def)

interpretation hf: bounded_fifo hf_put hf_get hf_list hf_inv "FIFO_SIZE - 1"
proof
  fix f :: "'a host_fifo" and x y ys assume inv: "hf_inv f"
  note p = fifo_push_cases [OF inv, of x]
  show "length (hf_list f) = FIFO_SIZE - 1 \<Longrightarrow> hf_put f x = None" using p by (auto simp: hf_put_def)
  show "length (hf_list f) < FIFO_SIZE - 1 \<Longrightarrow> \<exists>f'. hf_put f x = Some f' \<and> hf_inv f' \<and> hf_list f' = hf_list f @ [x]"
    using p by (auto simp: hf_put_def)
  show "hf_list f = [] \<Longrightarrow> hf_get f = None" using fifo_empty_list [OF inv] by (simp add: hf_get_def)
  show "hf_list f = y # ys \<Longrightarrow> \<exists>f'. hf_get f = Some (y, f') \<and> hf_inv f' \<and> hf_list f' = ys"
    using fifo_empty_list [OF inv] fifo_pop_ok [OF inv] by (auto simp: hf_get_def)
  show "length (hf_list f) \<le> FIFO_SIZE - 1"
    using ring_len_less [of FIFO_SIZE "read_ptr f" "write_ptr f"] by (simp add: hf_list_def)
qed

text \<open>
  The host FIFO drops a packet that does not fit and keeps the queued ones; taking a packet out of
  an empty FIFO does not fail: it returns a stale packet and the FIFO then claims to be full.
\<close>

theorem host_fifo_pop_empty:
  assumes "hf_inv f"
  shows "(if fifo_empty f
      then \<exists>p f'. fifo_pop f = Inr (p, f') \<and> length (hf_list f') = FIFO_SIZE - 1 \<and> fifo_push f' p' = Inr (f'\<lparr>hf_packets := (hf_packets f')[write_ptr f' := p']\<rparr>)
      else \<exists>p f'. fifo_pop f = Inr (p, f') \<and> hf_list f = p # hf_list f') \<and>
    (\<exists>f'. fifo_push f p' = Inr f' \<and> hf_list f' = (if length (hf_list f) = FIFO_SIZE - 1 then hf_list f else hf_list f @ [p']))"
proof -
  have b: "read_ptr f < FIFO_SIZE" "write_ptr f < FIFO_SIZE" "length (hf_packets f) = FIFO_SIZE"
    using assms by (simp_all add: hf_inv_def)
  have "\<exists>p f'. fifo_pop f = Inr (p, f') \<and> length (hf_list f') = FIFO_SIZE - 1 \<and> fifo_push f' p' = Inr (f'\<lparr>hf_packets := (hf_packets f')[write_ptr f' := p']\<rparr>)"
    if e: "fifo_empty f"
  proof -
    let ?r = "Suc (read_ptr f) mod FIFO_SIZE"
    have "Suc (write_ptr f) mod FIFO_SIZE = ?r" using e by (simp add: fifo_empty_def)
    moreover from this have "ring_len FIFO_SIZE ?r (write_ptr f) = FIFO_SIZE - 1"
      using ring_full [of ?r FIFO_SIZE "write_ptr f"] b by simp
    ultimately show ?thesis
      using b by (simp add: fifo_pop_def Let_def hf_list_def fifo_push_def fifo_inc_write_ptr_def)
  qed
  then show ?thesis using fifo_pop_ok [OF assms] fifo_push_cases [OF assms, of p'] by (auto split: if_splits)
qed

theorem host_fifo_pop_empty_witness:
  "\<exists>p f'. fifo_pop (fifo_init (replicate FIFO_SIZE (0 :: nat))) = Inr (p, f') \<and> length (hf_list f') = FIFO_SIZE - 1"
proof -
  let ?f = "fifo_init (replicate FIFO_SIZE (0 :: nat))"
  have inv: "hf_inv ?f" by (simp add: hf_inv_def fifo_init_def)
  have "fifo_empty ?f" by (simp add: fifo_empty_def fifo_init_def)
  then show ?thesis using host_fifo_pop_empty [OF inv, of 7] by auto
qed

end
