(* ===== verification/MemPool.thy ===== *)
theory MemPool
  imports Prelude
begin

text \<open>
  The buffer pool of src/util/mem_pool.c: a free list threaded through the elements, and the contract
  of an allocator as a locale that the pool interprets.
\<close>

section \<open>The interface\<close>

datatype 'b alloc_op = Alloc | Free 'b

text \<open>A client that frees only what it holds: the pool afterwards, and what the client holds.\<close>

primrec alloc_run ::
    "('p \<Rightarrow> ('b \<times> 'p) option) \<Rightarrow> ('b \<Rightarrow> 'p \<Rightarrow> 'p) \<Rightarrow> 'b alloc_op list \<Rightarrow> 'p \<Rightarrow> 'b list \<Rightarrow> 'p \<times> 'b list" where
  "alloc_run alloc free [] p held = (p, held)"
| "alloc_run alloc free (op # ops) p held =
     (case op of
        Alloc \<Rightarrow> (case alloc p of None \<Rightarrow> alloc_run alloc free ops p held
                  | Some (b, p') \<Rightarrow> alloc_run alloc free ops p' (b # held))
      | Free b \<Rightarrow> if b \<in> set held then alloc_run alloc free ops (free b p) (remove1 b held)
                  else alloc_run alloc free ops p held)"

locale allocator =
  fixes alloc :: "'p \<Rightarrow> ('b \<times> 'p) option"
    and free :: "'b \<Rightarrow> 'p \<Rightarrow> 'p"
    and avail :: "'p \<Rightarrow> 'b list"
    and inv :: "'p \<Rightarrow> bool"
    and buffers :: "'b set"
  assumes alloc_none: "inv p \<Longrightarrow> avail p = [] \<Longrightarrow> alloc p = None"
    and alloc_some: "inv p \<Longrightarrow> avail p = b # bs \<Longrightarrow> \<exists>p'. alloc p = Some (b, p') \<and> inv p' \<and> avail p' = bs"
    and free_ok: "inv p \<Longrightarrow> b \<in> buffers \<Longrightarrow> b \<notin> set (avail p) \<Longrightarrow> inv (free b p) \<and> avail (free b p) = b # avail p"
    and avail_ok: "inv p \<Longrightarrow> distinct (avail p) \<and> set (avail p) \<subseteq> buffers"
begin

text \<open>What is free and what the client holds partition the buffers.\<close>

definition split :: "'p \<Rightarrow> 'b list \<Rightarrow> bool" where
  "split p held \<longleftrightarrow> inv p \<and> distinct (avail p @ held) \<and> set (avail p) \<union> set held = buffers"

lemma run_split: "split p held \<Longrightarrow> alloc_run alloc free ops p held = (p', held') \<Longrightarrow> split p' held'"
proof (induction ops arbitrary: p held)
  case (Cons op ops)
  show ?case
  proof (cases op)
    case Alloc
    show ?thesis
    proof (cases "avail p")
      case Nil
      then have "alloc p = None" using alloc_none Cons.prems(1) by (simp add: split_def)
      then show ?thesis using Cons.IH [OF Cons.prems(1)] Cons.prems(2) Alloc by simp
    next
      case av: (Cons b bs)
      then obtain p1 where p1: "alloc p = Some (b, p1)" "inv p1" "avail p1 = bs"
        using alloc_some [of p b bs] Cons.prems(1) by (auto simp: split_def)
      have "split p1 (b # held)" using Cons.prems(1) p1 av by (auto simp: split_def)
      then show ?thesis using Cons.IH Cons.prems(2) Alloc p1 by simp
    qed
  next
    case (Free b)
    show ?thesis
    proof (cases "b \<in> set held")
      case True
      have f: "inv (free b p)" "avail (free b p) = b # avail p"
        using free_ok [of p b] Cons.prems(1) True by (auto simp: split_def)
      have "split (free b p) (remove1 b held)"
        using Cons.prems(1) True f by (auto simp: split_def set_remove1_eq)
      then show ?thesis using Cons.IH Cons.prems(2) Free True by simp
    next
      case False
      then show ?thesis using Cons Free by simp
    qed
  qed
qed simp

end

section \<open>The pool\<close>

abbreviation BUF_NUM :: nat where
  "BUF_NUM \<equiv> 16"

text \<open>\<open>sizeof\<close> of the message, the control header and the received packet's header, and the payload.\<close>

definition BUF_SIZE :: nat where
  "BUF_SIZE = 12 + 4 + 12 + 344"

text \<open>\<open>el_li\<close> holds the link of each element; a pointer to an element is its index, NULL is \<open>None\<close>.\<close>

record mem_pool =
  pool_init :: bool
  pool_li :: "nat option"
  el_li :: "nat option list"

definition mem_pool_init :: "mem_pool \<Rightarrow> mem_pool res" where
  "mem_pool_init pool =
     bnd (loop (BUF_NUM - 1) (\<lambda>i el. wr el i (Some (i + 1))) (el_li pool)) (\<lambda>el.
     bnd (wr el (BUF_NUM - 1) None) (\<lambda>el.
     Inr (pool\<lparr>el_li := el, pool_li := Some 0, pool_init := True\<rparr>)))"

definition mem_pool_alloc :: "nat \<Rightarrow> mem_pool \<Rightarrow> (nat \<times> mem_pool) res" where
  "mem_pool_alloc n pool =
     (if \<not> pool_init pool then Inl Die
      else if n > BUF_SIZE then Inl Die
      else case pool_li pool of
          None \<Rightarrow> Inl Die
        | Some el \<Rightarrow> bnd (rd (el_li pool) el) (\<lambda>li. Inr (el, pool\<lparr>pool_li := li\<rparr>)))"

definition mem_pool_free :: "nat \<Rightarrow> mem_pool \<Rightarrow> mem_pool res" where
  "mem_pool_free el pool =
     bnd (wr (el_li pool) el (pool_li pool)) (\<lambda>els. Inr (pool\<lparr>el_li := els, pool_li := Some el\<rparr>))"

text \<open>The chain of elements that starts at a pointer.\<close>

primrec chain :: "nat option list \<Rightarrow> nat option \<Rightarrow> nat list \<Rightarrow> bool" where
  "chain nx p [] \<longleftrightarrow> p = None"
| "chain nx p (x # xs) \<longleftrightarrow> p = Some x \<and> x < length nx \<and> chain nx (nx ! x) xs"

lemma chain_unique: "chain nx p xs \<Longrightarrow> chain nx p ys \<Longrightarrow> xs = ys"
proof (induction xs arbitrary: p ys)
  case Nil
  then show ?case by (cases ys) auto
next
  case (Cons x xs)
  then show ?case by (cases ys) auto
qed

lemma chain_update: "x \<notin> set xs \<Longrightarrow> chain (nx[x := v]) p xs \<longleftrightarrow> chain nx p xs"
  by (induction xs arbitrary: p) auto

text \<open>The free list as the code reads it, at most one element per buffer.\<close>

primrec walk :: "nat \<Rightarrow> nat option list \<Rightarrow> nat option \<Rightarrow> nat list" where
  "walk 0 nx p = []"
| "walk (Suc n) nx p = (case p of None \<Rightarrow> [] | Some x \<Rightarrow> x # walk n nx (nx ! x))"

lemma walk_chain: "chain nx p xs \<Longrightarrow> length xs \<le> n \<Longrightarrow> walk n nx p = xs"
proof (induction xs arbitrary: n p)
  case Nil
  then show ?case by (cases n) auto
next
  case (Cons x xs)
  then show ?case by (cases n) auto
qed

definition free_list :: "mem_pool \<Rightarrow> nat list" where
  "free_list pool = walk BUF_NUM (el_li pool) (pool_li pool)"

definition pool_inv :: "mem_pool \<Rightarrow> bool" where
  "pool_inv pool \<longleftrightarrow> pool_init pool \<and> length (el_li pool) = BUF_NUM \<and>
     distinct (free_list pool) \<and> chain (el_li pool) (pool_li pool) (free_list pool)"

lemma chain_bound: "chain nx p xs \<Longrightarrow> set xs \<subseteq> {..<length nx}"
  by (induction xs arbitrary: p) auto

lemma pool_invI:
  assumes "pool_init pool" and "length (el_li pool) = BUF_NUM" and "distinct xs" and "chain (el_li pool) (pool_li pool) xs"
  shows "pool_inv pool" and "free_list pool = xs"
proof -
  have "length xs = card (set xs)" using assms(3) by (simp add: distinct_card)
  also have "\<dots> \<le> card {..<length (el_li pool)}" using chain_bound [OF assms(4)] by (intro card_mono) auto
  finally have "length xs \<le> BUF_NUM" using assms(2) by simp
  then show f: "free_list pool = xs" unfolding free_list_def by (rule walk_chain [OF assms(4)])
  show "pool_inv pool" using assms f by (simp add: pool_inv_def)
qed

text \<open>The pool as an allocator of messages of a size that fits.\<close>

definition pool_alloc :: "nat \<Rightarrow> mem_pool \<Rightarrow> (nat \<times> mem_pool) option" where
  "pool_alloc n pool = (case mem_pool_alloc n pool of Inr r \<Rightarrow> Some r | Inl e \<Rightarrow> None)"

definition pool_free :: "nat \<Rightarrow> mem_pool \<Rightarrow> mem_pool" where
  "pool_free el pool = (case mem_pool_free el pool of Inr p \<Rightarrow> p | Inl e \<Rightarrow> pool)"

lemma pool_alloc_cons:
  assumes "pool_inv p" and "free_list p = b # bs" and "n \<le> BUF_SIZE"
  shows "\<exists>p'. mem_pool_alloc n p = Inr (b, p') \<and> pool_inv p' \<and> free_list p' = bs"
proof -
  have c: "chain (el_li p) (pool_li p) (b # bs)" "distinct (b # bs)" "pool_init p" "length (el_li p) = 16"
    using assms(1,2) by (simp_all add: pool_inv_def)
  let ?p = "p\<lparr>pool_li := el_li p ! b\<rparr>"
  have "chain (el_li ?p) (pool_li ?p) bs" using c by simp
  then have "pool_inv ?p" "free_list ?p = bs" using c by (intro pool_invI; simp)+
  then show ?thesis using c assms(3) by (simp add: mem_pool_alloc_def)
qed

lemma pool_alloc_nil:
  assumes "pool_inv p" and "free_list p = []"
  shows "mem_pool_alloc n p = Inl Die"
  using assms by (simp add: pool_inv_def mem_pool_alloc_def)

lemma pool_free_ok:
  assumes "pool_inv p" and "b < BUF_NUM" and "b \<notin> set (free_list p)"
  shows "\<exists>p'. mem_pool_free b p = Inr p' \<and> pool_inv p' \<and> free_list p' = b # free_list p"
proof -
  let ?p = "p\<lparr>el_li := (el_li p)[b := pool_li p], pool_li := Some b\<rparr>"
  have c: "chain (el_li ?p) (pool_li ?p) (b # free_list p)"
    using assms by (simp add: pool_inv_def chain_update)
  have "pool_init ?p" "length (el_li ?p) = BUF_NUM" "distinct (b # free_list p)"
    using assms by (simp_all add: pool_inv_def)
  from pool_invI [OF this c] have "pool_inv ?p" "free_list ?p = b # free_list p" .
  moreover have "mem_pool_free b p = Inr ?p" using assms by (simp add: mem_pool_free_def pool_inv_def)
  ultimately show ?thesis by blast
qed

interpretation mp: allocator "pool_alloc BUF_SIZE" pool_free free_list pool_inv "{..<BUF_NUM}"
proof
  fix p b bs assume inv: "pool_inv p"
  show "free_list p = [] \<Longrightarrow> pool_alloc BUF_SIZE p = None"
    using pool_alloc_nil [OF inv] by (simp add: pool_alloc_def)
  show "free_list p = b # bs \<Longrightarrow> \<exists>p'. pool_alloc BUF_SIZE p = Some (b, p') \<and> pool_inv p' \<and> free_list p' = bs"
    using pool_alloc_cons [OF inv, of b bs BUF_SIZE] by (auto simp: pool_alloc_def)
  show "b \<in> {..<BUF_NUM} \<Longrightarrow> b \<notin> set (free_list p) \<Longrightarrow>
      pool_inv (pool_free b p) \<and> free_list (pool_free b p) = b # free_list p"
    using pool_free_ok [OF inv, of b] by (auto simp: pool_free_def)
  show "distinct (free_list p) \<and> set (free_list p) \<subseteq> {..<BUF_NUM}"
    using inv chain_bound [of "el_li p" "pool_li p" "free_list p"] by (simp add: pool_inv_def)
qed

lemma mem_pool_init_ok:
  assumes "length (el_li pool) = BUF_NUM"
  shows "\<exists>p. mem_pool_init pool = Inr p \<and> pool_inv p \<and> free_list p = [0..<16]"
proof -
  have l: "loop 15 (\<lambda>i el. wr el i (Some (i + 1))) (el_li pool) = Inr (map (\<lambda>i. Some (i + 1)) [0..<15] @ drop 15 (el_li pool))"
    using loop_fill [of 15 "el_li pool" "\<lambda>i. Inr (Some (i + 1))" "\<lambda>i. Some (i + 1)"] assms by simp
  let ?el = "map (\<lambda>i. Some (i + 1)) [0..<15] @ [None]"
  have "(map (\<lambda>i. Some (i + 1)) [0..<15] @ drop 15 (el_li pool))[15 := None] = ?el"
  proof -
    have "length (drop 15 (el_li pool)) = Suc 0" using assms by simp
    then obtain a where "drop 15 (el_li pool) = [a]" by (cases "drop 15 (el_li pool)") simp_all
    then show ?thesis by (simp add: list_update_append)
  qed
  then have i: "mem_pool_init pool = Inr (pool\<lparr>el_li := ?el, pool_li := Some 0, pool_init := True\<rparr>)" (is "_ = Inr ?p")
    using assms unfolding mem_pool_init_def by (simp add: l [simplified])
  have "chain ?el (Some 0) [0..<16]" by (simp add: upt_conv_Cons)
  then have "pool_inv ?p" "free_list ?p = [0..<16]" by (intro pool_invI; simp)+
  then show ?thesis using i by blast
qed

text \<open>
  C33: Whatever a client allocates and frees after \<open>mem_pool_init\<close>, as long as it frees only what it
  holds: the buffers it holds are distinct, together with the free ones they are the sixteen of the pool,
  an allocation succeeds exactly when fewer than sixteen are held, and it returns a buffer not held.
\<close>

theorem mem_pool_no_alias:
  assumes "length (el_li pool) = BUF_NUM" and "mem_pool_init pool = Inr p0"
    and "alloc_run (pool_alloc BUF_SIZE) pool_free ops p0 [] = (p, held)"
  shows "distinct held \<and> set held \<subseteq> {..<BUF_NUM} \<and>
    (if length held < BUF_NUM then \<exists>b p'. mem_pool_alloc BUF_SIZE p = Inr (b, p') \<and> b < BUF_NUM \<and> b \<notin> set held
     else mem_pool_alloc BUF_SIZE p = Inl Die)"
proof -
  have "pool_inv p0" "free_list p0 = [0..<16]" using mem_pool_init_ok [OF assms(1)] assms(2) by auto
  then have "mp.split p0 []" by (auto simp: mp.split_def)
  from mp.run_split [OF this assms(3)] have s: "pool_inv p" "distinct (free_list p @ held)"
      "set (free_list p) \<union> set held = {..<16}" by (simp_all add: mp.split_def)
  have "length (free_list p) + length held = card (set (free_list p @ held))" using s(2) by (metis distinct_card length_append)
  then have n: "length (free_list p) + length held = 16" using s(3) by simp
  show ?thesis
  proof (cases "free_list p")
    case Nil
    then show ?thesis using s n pool_alloc_nil [OF s(1)] by auto
  next
    case (Cons b bs)
    then show ?thesis using s n pool_alloc_cons [OF s(1) Cons, of BUF_SIZE] by auto
  qed
qed

theorem mem_pool_no_alias_witness:
  "\<exists>p0 p held. mem_pool_init \<lparr>pool_init = False, pool_li = None, el_li = replicate 16 None\<rparr> = Inr p0 \<and>
    alloc_run (pool_alloc BUF_SIZE) pool_free [Alloc, Alloc, Free 0, Alloc] p0 [] = (p, held) \<and>
    distinct held \<and> set held \<subseteq> {..<BUF_NUM}"
proof -
  let ?z = "\<lparr>pool_init = False, pool_li = None, el_li = replicate 16 None\<rparr>"
  have z: "length (el_li ?z) = 16" by simp
  obtain p0 where i: "mem_pool_init ?z = Inr p0" using mem_pool_init_ok [OF z] by blast
  obtain p held where r: "alloc_run (pool_alloc BUF_SIZE) pool_free [Alloc, Alloc, Free 0, Alloc] p0 [] = (p, held)"
    by (metis surj_pair)
  show ?thesis using mem_pool_no_alias [OF z i r] i r by blast
qed

text \<open>
  A buffer that is freed twice is handed out twice: the pool does not notice, and the next two
  allocations return the same buffer.
\<close>

theorem double_free_aliases:
  assumes "pool_inv p" and "b < BUF_NUM" and "n \<le> BUF_SIZE"
  shows "\<exists>p1 p2 p3 p4. mem_pool_free b p = Inr p1 \<and> mem_pool_free b p1 = Inr p2 \<and>
    mem_pool_alloc n p2 = Inr (b, p3) \<and> mem_pool_alloc n p3 = Inr (b, p4)"
  using assms by (simp add: pool_inv_def mem_pool_free_def mem_pool_alloc_def)

end
