(* ===== verification/Firmware.thy ===== *)
theory Firmware
  imports Codec Queues MemPool Hop "HOL-Library.Multiset"
begin

text \<open>
  The state the btbr firmware shares between its controller, its link layer and its physical layer, and
  the calls of include/ubtbr/btctl_intf.h and src/btctl/btctl.c on it: message allocation, the three
  message queues, the controller state machine.  Who owns which buffer of the pool is an invariant.
\<close>

section \<open>Messages\<close>

text \<open>Messages of the host interface (ubertooth_interface.h); every structure a message can hold is a case.\<close>

record rx_pkt =
  rx_clkn :: u32
  rx_chan :: u8
  rx_flags :: u8
  rx_size :: u16
  rx_hdr :: bbhdr
  rx_data :: "u8 list"

record tx_pkt =
  tx_hdr :: bbhdr
  tx_data :: "u8 list"

datatype body = No_body | Rx_body rx_pkt | Tx_body tx_pkt | Bdaddr_body u64 | Reg_body u16
  | Afh_body u32 u8 "u8 list" | State_body u8 u8

text \<open>\<open>m_len\<close> is the distance from \<open>data\<close> to the write pointer.\<close>

record message =
  m_type :: u8
  m_len :: nat
  m_body :: body

abbreviation BTCTL_DEBUG :: u8 where "BTCTL_DEBUG \<equiv> 0"
abbreviation BTCTL_RESET_REQ :: u8 where "BTCTL_RESET_REQ \<equiv> 20"
abbreviation BTCTL_IDLE_REQ :: u8 where "BTCTL_IDLE_REQ \<equiv> 21"
abbreviation BTCTL_SET_FREQ_OFF_REQ :: u8 where "BTCTL_SET_FREQ_OFF_REQ \<equiv> 22"
abbreviation BTCTL_SET_BDADDR_REQ :: u8 where "BTCTL_SET_BDADDR_REQ \<equiv> 23"
abbreviation BTCTL_INQUIRY_REQ :: u8 where "BTCTL_INQUIRY_REQ \<equiv> 24"
abbreviation BTCTL_PAGING_REQ :: u8 where "BTCTL_PAGING_REQ \<equiv> 25"
abbreviation BTCTL_SET_MAX_AC_ERRORS_REQ :: u8 where "BTCTL_SET_MAX_AC_ERRORS_REQ \<equiv> 26"
abbreviation BTCTL_TX_ACL_REQ :: u8 where "BTCTL_TX_ACL_REQ \<equiv> 27"
abbreviation BTCTL_INQUIRY_SCAN_REQ :: u8 where "BTCTL_INQUIRY_SCAN_REQ \<equiv> 28"
abbreviation BTCTL_PAGE_SCAN_REQ :: u8 where "BTCTL_PAGE_SCAN_REQ \<equiv> 29"
abbreviation BTCTL_SET_EIR_REQ :: u8 where "BTCTL_SET_EIR_REQ \<equiv> 30"
abbreviation BTCTL_SET_AFH_REQ :: u8 where "BTCTL_SET_AFH_REQ \<equiv> 31"
abbreviation BTCTL_MONITOR_REQ :: u8 where "BTCTL_MONITOR_REQ \<equiv> 32"
abbreviation BTCTL_RX_PKT :: u8 where "BTCTL_RX_PKT \<equiv> 40"
abbreviation BTCTL_STATE_RESP :: u8 where "BTCTL_STATE_RESP \<equiv> 41"

abbreviation BB_TYPE_NULL :: u8 where "BB_TYPE_NULL \<equiv> 0"
abbreviation BB_TYPE_POLL :: u8 where "BB_TYPE_POLL \<equiv> 1"
abbreviation BB_TYPE_FHS :: u8 where "BB_TYPE_FHS \<equiv> 2"

definition BBPKT_HAS_PKT :: "rx_pkt \<Rightarrow> bool" where
  "BBPKT_HAS_PKT p \<longleftrightarrow> rx_flags p AND 1 \<noteq> 0"

definition BBPKT_HAS_HDR :: "rx_pkt \<Rightarrow> bool" where
  "BBPKT_HAS_HDR p \<longleftrightarrow> rx_flags p AND 2 \<noteq> 0"

definition BBPKT_HAS_CRC :: "rx_pkt \<Rightarrow> bool" where
  "BBPKT_HAS_CRC p \<longleftrightarrow> rx_flags p AND 4 \<noteq> 0"

definition BBPKT_GOOD_CRC :: "rx_pkt \<Rightarrow> bool" where
  "BBPKT_GOOD_CRC p \<longleftrightarrow> rx_flags p AND 8 \<noteq> 0"

text \<open>The casts of a message's data: reading it as a structure it does not hold is a fault.\<close>

definition as_rx :: "message \<Rightarrow> rx_pkt res" where
  "as_rx m = (case m_body m of Rx_body p \<Rightarrow> Inr p | _ \<Rightarrow> Inl Oob)"

definition as_tx :: "message \<Rightarrow> tx_pkt res" where
  "as_tx m = (case m_body m of Tx_body p \<Rightarrow> Inr p | _ \<Rightarrow> Inl Oob)"

definition as_bdaddr :: "message \<Rightarrow> u64 res" where
  "as_bdaddr m = (case m_body m of Bdaddr_body a \<Rightarrow> Inr a | _ \<Rightarrow> Inl Oob)"

definition as_reg :: "message \<Rightarrow> u16 res" where
  "as_reg m = (case m_body m of Reg_body r \<Rightarrow> Inr r | _ \<Rightarrow> Inl Oob)"

definition as_afh :: "message \<Rightarrow> (u32 \<times> u8 \<times> u8 list) res" where
  "as_afh m = (case m_body m of Afh_body i md mp \<Rightarrow> Inr (i, md, mp) | _ \<Rightarrow> Inl Oob)"

section \<open>The shared state\<close>

datatype btctl_state = BTCTL_STATE_STANDBY | BTCTL_STATE_INQUIRY | BTCTL_STATE_PAGE | BTCTL_STATE_CONNECTED
  | BTCTL_STATE_INQUIRY_SCAN | BTCTL_STATE_PAGE_SCAN

definition state_code :: "btctl_state \<Rightarrow> u8" where
  "state_code st = (case st of BTCTL_STATE_STANDBY \<Rightarrow> 0 | BTCTL_STATE_INQUIRY \<Rightarrow> 1 | BTCTL_STATE_PAGE \<Rightarrow> 2
     | BTCTL_STATE_CONNECTED \<Rightarrow> 3 | BTCTL_STATE_INQUIRY_SCAN \<Rightarrow> 4 | BTCTL_STATE_PAGE_SCAN \<Rightarrow> 5)"

abbreviation BTCTL_REASON_SUCCESS :: u32 where "BTCTL_REASON_SUCCESS \<equiv> 0"
abbreviation BTCTL_REASON_TIMEOUT :: u32 where "BTCTL_REASON_TIMEOUT \<equiv> 1"
abbreviation BTCTL_REASON_PAGED :: u32 where "BTCTL_REASON_PAGED \<equiv> 2"

record btphy =
  ph_mode :: btphy_mode
  master_clkn :: u32
  slave_clkn :: u32
  slave_clkn_delay :: int
  clkn_delayed :: bool
  chan_lap :: u32
  chan_uap :: u8
  chan_sw :: u64
  chan_trailer :: u8
  chan_sw_lo :: "u8 list"
  chan_sw_hi :: "u8 list"
  my_lap :: u32
  my_uap :: u8
  my_nap :: u16
  my_sw :: u64

text \<open>
  \<open>bufs\<close> is the contents of the pool's buffers; a message pointer is the index of its buffer.  The
  controller's \<open>eir_pkt\<close> always points into \<open>eir_msg\<close> and is not kept apart.
\<close>

record fw =
  pool :: mem_pool
  bufs :: "message list"
  bt_state :: btctl_state
  rx_q :: "nat msg_queue"
  tx_q :: "nat msg_queue"
  acl_tx_q :: "nat msg_queue"
  eir_msg :: "nat option"
  phy :: btphy
  hop :: hop_state

definition btphy_cur_clkn :: "'z fw_scheme \<Rightarrow> u32" where
  "btphy_cur_clkn s =
     (case ph_mode (phy s) of
        BT_MODE_INQUIRY_SCAN \<Rightarrow> slave_clkn (phy s)
      | BT_MODE_PAGE_SCAN \<Rightarrow> slave_clkn (phy s)
      | BT_MODE_SLAVE \<Rightarrow> slave_clkn (phy s)
      | _ \<Rightarrow> master_clkn (phy s))"

lemma btphy_cur_clkn_cong: "phy s' = phy s \<Longrightarrow> btphy_cur_clkn s' = btphy_cur_clkn s"
  by (simp add: btphy_cur_clkn_def split: btphy_mode.split)

section \<open>Buffers\<close>

text \<open>The room of a message: control header, received packet's header, payload.\<close>

abbreviation MSG_ROOM :: nat where
  "MSG_ROOM \<equiv> 4 + 12 + 344"

definition m_put :: "nat \<Rightarrow> message \<Rightarrow> message res" where
  "m_put n m = (if int MSG_ROOM - int (m_len m) < int n then Inl Die else Inr (m\<lparr>m_len := m_len m + n\<rparr>))"

definition msg_free :: "nat \<Rightarrow> 'z fw_scheme \<Rightarrow> 'z fw_scheme res" where
  "msg_free h s = bnd (mem_pool_free h (pool s)) (\<lambda>p. Inr (s\<lparr>pool := p\<rparr>))"

definition btctl_msg_alloc :: "u8 \<Rightarrow> 'z fw_scheme \<Rightarrow> (nat \<times> 'z fw_scheme) res" where
  "btctl_msg_alloc type s =
     bnd (mem_pool_alloc (12 + MSG_ROOM) (pool s)) (\<lambda>(h, p).
     bnd (m_put 4 \<lparr>m_type = type, m_len = 0, m_body = No_body\<rparr>) (\<lambda>m.
     bnd (wr (bufs s) h m) (\<lambda>bs. Inr (h, s\<lparr>pool := p, bufs := bs\<rparr>))))"

definition btctl_tx_dequeue :: "'z fw_scheme \<Rightarrow> (nat option \<times> 'z fw_scheme) res" where
  "btctl_tx_dequeue s = bnd (msg_dequeue (tx_q s)) (\<lambda>(p, q). Inr (p, s\<lparr>tx_q := q\<rparr>))"

definition btctl_tx_enqueue :: "nat \<Rightarrow> 'z fw_scheme \<Rightarrow> (int \<times> 'z fw_scheme) res" where
  "btctl_tx_enqueue h s = bnd (msg_enqueue (tx_q s) h) (\<lambda>(rc, q). Inr (rc, s\<lparr>tx_q := q\<rparr>))"

definition btctl_rx_dequeue :: "'z fw_scheme \<Rightarrow> (nat option \<times> 'z fw_scheme) res" where
  "btctl_rx_dequeue s = bnd (msg_dequeue (rx_q s)) (\<lambda>(p, q). Inr (p, s\<lparr>rx_q := q\<rparr>))"

definition btctl_rx_enqueue :: "nat \<Rightarrow> 'z fw_scheme \<Rightarrow> (int \<times> 'z fw_scheme) res" where
  "btctl_rx_enqueue h s = bnd (msg_enqueue (rx_q s) h) (\<lambda>(rc, q). Inr (rc, s\<lparr>rx_q := q\<rparr>))"

definition btctl_acl_tx_dequeue :: "'z fw_scheme \<Rightarrow> (nat option \<times> 'z fw_scheme) res" where
  "btctl_acl_tx_dequeue s = bnd (msg_dequeue (acl_tx_q s)) (\<lambda>(p, q). Inr (p, s\<lparr>acl_tx_q := q\<rparr>))"

definition btctl_acl_tx_enqueue :: "nat \<Rightarrow> 'z fw_scheme \<Rightarrow> (int \<times> 'z fw_scheme) res" where
  "btctl_acl_tx_enqueue h s = bnd (msg_enqueue (acl_tx_q s) h) (\<lambda>(rc, q). Inr (rc, s\<lparr>acl_tx_q := q\<rparr>))"

section \<open>The controller state\<close>

definition btctl_state_transition_valid :: "btctl_state \<Rightarrow> btctl_state \<Rightarrow> bool" where
  "btctl_state_transition_valid cur nxt =
     (if nxt = BTCTL_STATE_STANDBY then True
      else if nxt = BTCTL_STATE_CONNECTED then
        cur = BTCTL_STATE_PAGE \<or> cur = BTCTL_STATE_PAGE_SCAN \<or> cur = BTCTL_STATE_CONNECTED
      else cur = BTCTL_STATE_STANDBY)"

text \<open>The return value of the enqueue is dropped, as in the code.\<close>

definition btctl_send_state_resp :: "btctl_state \<Rightarrow> u32 \<Rightarrow> 'z fw_scheme \<Rightarrow> 'z fw_scheme res" where
  "btctl_send_state_resp state reason s =
     bnd (btctl_msg_alloc BTCTL_STATE_RESP s) (\<lambda>(h, s).
     bnd (rd (bufs s) h) (\<lambda>m.
     bnd (m_put 2 m) (\<lambda>m.
     bnd (wr (bufs s) h (m\<lparr>m_body := State_body (state_code state) (ucast reason)\<rparr>)) (\<lambda>bs.
     bnd (btctl_tx_enqueue h (s\<lparr>bufs := bs\<rparr>)) (\<lambda>(_, s). Inr s)))))"

definition btctl_set_state :: "btctl_state \<Rightarrow> u32 \<Rightarrow> 'z fw_scheme \<Rightarrow> 'z fw_scheme res" where
  "btctl_set_state state reason s =
     (let old_state = bt_state s in
      if \<not> btctl_state_transition_valid old_state state then Inl Die
      else
        let s = s\<lparr>bt_state := state\<rparr> in
        if \<not> (old_state = BTCTL_STATE_STANDBY \<and> state = BTCTL_STATE_STANDBY)
        then btctl_send_state_resp state reason s
        else Inr s)"

section \<open>Buffer ownership\<close>

text \<open>
  The buffers and their owners: those held outside this state (\<open>ext\<close>), the three queues, the stored EIR
  message and the free list.
\<close>

definition owned :: "nat list \<Rightarrow> 'z fw_scheme \<Rightarrow> nat multiset" where
  "owned ext s = mset ext + mset (mq_list (rx_q s)) + mset (mq_list (tx_q s)) + mset (mq_list (acl_tx_q s)) +
     (case eir_msg s of None \<Rightarrow> {#} | Some h \<Rightarrow> {#h#}) + mset (free_list (pool s))"

definition fw_wf :: "'z fw_scheme \<Rightarrow> bool" where
  "fw_wf s \<longleftrightarrow> pool_inv (pool s) \<and> mq_inv (rx_q s) \<and> mq_inv (tx_q s) \<and> mq_inv (acl_tx_q s) \<and> length (bufs s) = BUF_NUM"

text \<open>No buffer has two owners; the buffers missing from \<open>owned\<close> are lost.\<close>

definition own :: "nat list \<Rightarrow> 'z fw_scheme \<Rightarrow> bool" where
  "own ext s \<longleftrightarrow> fw_wf s \<and> owned ext s \<subseteq># mset_set {..<BUF_NUM}"

lemma own_perm: "own ext s \<Longrightarrow> mset ext' = mset ext \<Longrightarrow> own ext' s"
  by (simp add: own_def owned_def)

lemma own_drop: "own (h # ext) s \<Longrightarrow> own ext s"
  unfolding own_def owned_def by (auto intro: subset_mset.order_trans [rotated])

lemma own_move: "own ext s \<Longrightarrow> fw_wf s' \<Longrightarrow> owned ext' s' = owned ext s \<Longrightarrow> own ext' s'"
  by (simp add: own_def)

lemma own_wf: "own ext s \<Longrightarrow> fw_wf s"
  by (simp add: own_def)

lemma own_mem: "own ext s \<Longrightarrow> h \<in># owned ext s \<Longrightarrow> h < BUF_NUM"
  unfolding own_def by (auto dest: mset_subset_eqD)

lemma own_distinct: "own ext s \<Longrightarrow> mset (xs @ ys) \<subseteq># owned ext s \<Longrightarrow> set xs \<inter> set ys = {}"
proof -
  assume "own ext s" and "mset (xs @ ys) \<subseteq># owned ext s"
  then have "mset (xs @ ys) \<subseteq># mset_set {..<BUF_NUM}" unfolding own_def by (meson subset_mset.order_trans)
  then have "count (mset (xs @ ys)) x \<le> 1" for x
    by (metis count_mset_set(1,3) finite_lessThan le_zero_eq mset_subset_eq_count nat_le_linear)
  then have "distinct (xs @ ys)" unfolding distinct_count_atmost_1
    by (metis count_eq_zero_iff le_neq_implies_less less_one set_mset_mset)
  then show ?thesis by simp
qed

lemma own_buf: "own (h # ext) s \<Longrightarrow> h < length (bufs s)"
  using own_mem [of "h # ext" s h] own_wf [of "h # ext" s] by (simp add: fw_wf_def owned_def)

lemma own_len: "own ext s \<Longrightarrow> length (bufs s) = BUF_NUM"
  using own_wf [of ext s] by (simp add: fw_wf_def)

lemma own_update [simp]:
  "own ext (s\<lparr>bt_state := st\<rparr>) \<longleftrightarrow> own ext s"
  "own ext (s\<lparr>phy := p\<rparr>) \<longleftrightarrow> own ext s"
  "own ext (s\<lparr>hop := hs\<rparr>) \<longleftrightarrow> own ext s"
  "own ext (s\<lparr>bufs := (bufs s)[h := m]\<rparr>) \<longleftrightarrow> own ext s"
  by (simp_all add: own_def owned_def fw_wf_def)

lemma own_free:
  assumes "own (h # ext) s"
  shows "\<exists>p. msg_free h s = Inr (s\<lparr>pool := p\<rparr>) \<and> own ext (s\<lparr>pool := p\<rparr>) \<and> free_list p = h # free_list (pool s)"
proof -
  have "h < 16" using own_mem [OF assms, of h] by (simp add: owned_def)
  moreover have "h \<notin> set (free_list (pool s))"
    using own_distinct [OF assms, of "[h]" "free_list (pool s)"] by (simp add: owned_def)
  ultimately obtain p where p: "mem_pool_free h (pool s) = Inr p" "pool_inv p" "free_list p = h # free_list (pool s)"
    using pool_free_ok [of "pool s" h] own_wf [OF assms] by (auto simp: fw_wf_def)
  have "own ext (s\<lparr>pool := p\<rparr>)"
    by (rule own_move [OF assms]) (use own_wf [OF assms] p in \<open>simp_all add: fw_wf_def owned_def\<close>)
  then show ?thesis using p by (auto simp: msg_free_def)
qed

definition fresh :: "u8 \<Rightarrow> message" where
  "fresh t = \<lparr>m_type = t, m_len = 4, m_body = No_body\<rparr>"

lemma alloc_nil: "own ext s \<Longrightarrow> free_list (pool s) = [] \<Longrightarrow> btctl_msg_alloc t s = Inl Die"
  using pool_alloc_nil [of "pool s"] by (simp add: btctl_msg_alloc_def own_def fw_wf_def)

lemma own_alloc:
  assumes "own ext s" and "free_list (pool s) = h # hs"
  shows "\<exists>p. btctl_msg_alloc t s = Inr (h, s\<lparr>pool := p, bufs := (bufs s)[h := fresh t]\<rparr>) \<and> free_list p = hs \<and>
      own (h # ext) (s\<lparr>pool := p, bufs := (bufs s)[h := fresh t]\<rparr>)"
proof -
  have wf: "fw_wf s" by (rule own_wf [OF assms(1)])
  have "12 + MSG_ROOM \<le> BUF_SIZE" by (simp add: BUF_SIZE_def)
  then obtain p where p: "mem_pool_alloc (12 + MSG_ROOM) (pool s) = Inr (h, p)" "pool_inv p" "free_list p = hs"
    using pool_alloc_cons [OF _ assms(2), of "12 + MSG_ROOM"] wf by (auto simp: fw_wf_def)
  have "h < 16" using own_mem [OF assms(1), of h] assms(2) by (simp add: owned_def)
  then have "btctl_msg_alloc t s = Inr (h, s\<lparr>pool := p, bufs := (bufs s)[h := fresh t]\<rparr>)"
    using p own_len [OF assms(1)] by (simp add: btctl_msg_alloc_def m_put_def fresh_def)
  moreover have "own (h # ext) (s\<lparr>pool := p, bufs := (bufs s)[h := fresh t]\<rparr>)"
    by (rule own_move [OF assms(1)]) (use wf p assms(2) in \<open>simp_all add: fw_wf_def owned_def\<close>)
  ultimately show ?thesis using p(3) by blast
qed

text \<open>A queue operation moves a buffer between its owners.\<close>

lemma own_tx_enqueue:
  assumes "own (h # ext) s" and "length (mq_list (tx_q s)) \<noteq> 7"
  shows "\<exists>q. btctl_tx_enqueue h s = Inr (0, s\<lparr>tx_q := q\<rparr>) \<and> mq_list q = mq_list (tx_q s) @ [h] \<and> own ext (s\<lparr>tx_q := q\<rparr>)"
proof -
  have wf: "fw_wf s" by (rule own_wf [OF assms(1)])
  then obtain q where q: "msg_enqueue (tx_q s) h = Inr (0, q)" "mq_inv q" "mq_list q = mq_list (tx_q s) @ [h]"
    using msg_enqueue_cases [of "tx_q s" h] assms(2) by (auto simp: fw_wf_def)
  have "own ext (s\<lparr>tx_q := q\<rparr>)"
    by (rule own_move [OF assms(1)]) (use wf q in \<open>simp_all add: fw_wf_def owned_def\<close>)
  then show ?thesis using q by (auto simp: btctl_tx_enqueue_def)
qed

lemma tx_enqueue_full: "own ext s \<Longrightarrow> length (mq_list (tx_q s)) = 7 \<Longrightarrow> btctl_tx_enqueue h s = Inr (-1, s)"
  using msg_enqueue_cases [of "tx_q s" h] own_wf [of ext s] by (simp add: fw_wf_def btctl_tx_enqueue_def)

lemma own_acl_tx_enqueue:
  assumes "own (h # ext) s" and "length (mq_list (acl_tx_q s)) \<noteq> 7"
  shows "\<exists>q. btctl_acl_tx_enqueue h s = Inr (0, s\<lparr>acl_tx_q := q\<rparr>) \<and> mq_list q = mq_list (acl_tx_q s) @ [h] \<and>
      own ext (s\<lparr>acl_tx_q := q\<rparr>)"
proof -
  have wf: "fw_wf s" by (rule own_wf [OF assms(1)])
  then obtain q where q: "msg_enqueue (acl_tx_q s) h = Inr (0, q)" "mq_inv q" "mq_list q = mq_list (acl_tx_q s) @ [h]"
    using msg_enqueue_cases [of "acl_tx_q s" h] assms(2) by (auto simp: fw_wf_def)
  have "own ext (s\<lparr>acl_tx_q := q\<rparr>)"
    by (rule own_move [OF assms(1)]) (use wf q in \<open>simp_all add: fw_wf_def owned_def\<close>)
  then show ?thesis using q by (auto simp: btctl_acl_tx_enqueue_def)
qed

lemma acl_tx_enqueue_full:
  "own ext s \<Longrightarrow> length (mq_list (acl_tx_q s)) = 7 \<Longrightarrow> btctl_acl_tx_enqueue h s = Inr (-1, s)"
  using msg_enqueue_cases [of "acl_tx_q s" h] own_wf [of ext s] by (simp add: fw_wf_def btctl_acl_tx_enqueue_def)

lemma own_acl_tx_dequeue:
  assumes "own ext s" and "mq_list (acl_tx_q s) = h # hs"
  shows "\<exists>q. btctl_acl_tx_dequeue s = Inr (Some h, s\<lparr>acl_tx_q := q\<rparr>) \<and> mq_list q = hs \<and> own (h # ext) (s\<lparr>acl_tx_q := q\<rparr>)"
proof -
  have wf: "fw_wf s" by (rule own_wf [OF assms(1)])
  then obtain q where q: "msg_dequeue (acl_tx_q s) = Inr (Some h, q)" "mq_inv q" "mq_list q = hs"
    using msg_dequeue_cases [of "acl_tx_q s"] assms(2) by (auto simp: fw_wf_def)
  have "own (h # ext) (s\<lparr>acl_tx_q := q\<rparr>)"
    by (rule own_move [OF assms(1)]) (use wf q assms(2) in \<open>simp_all add: fw_wf_def owned_def\<close>)
  then show ?thesis using q by (auto simp: btctl_acl_tx_dequeue_def)
qed

lemma acl_tx_dequeue_nil: "own ext s \<Longrightarrow> mq_list (acl_tx_q s) = [] \<Longrightarrow> btctl_acl_tx_dequeue s = Inr (None, s)"
  using msg_dequeue_cases [of "acl_tx_q s"] own_wf [of ext s] by (simp add: fw_wf_def btctl_acl_tx_dequeue_def)

lemma own_rx_dequeue:
  assumes "own ext s" and "mq_list (rx_q s) = h # hs"
  shows "\<exists>q. btctl_rx_dequeue s = Inr (Some h, s\<lparr>rx_q := q\<rparr>) \<and> mq_list q = hs \<and> own (h # ext) (s\<lparr>rx_q := q\<rparr>)"
proof -
  have wf: "fw_wf s" by (rule own_wf [OF assms(1)])
  then obtain q where q: "msg_dequeue (rx_q s) = Inr (Some h, q)" "mq_inv q" "mq_list q = hs"
    using msg_dequeue_cases [of "rx_q s"] assms(2) by (auto simp: fw_wf_def)
  have "own (h # ext) (s\<lparr>rx_q := q\<rparr>)"
    by (rule own_move [OF assms(1)]) (use wf q assms(2) in \<open>simp_all add: fw_wf_def owned_def\<close>)
  then show ?thesis using q by (auto simp: btctl_rx_dequeue_def)
qed

lemma rx_dequeue_nil: "own ext s \<Longrightarrow> mq_list (rx_q s) = [] \<Longrightarrow> btctl_rx_dequeue s = Inr (None, s)"
  using msg_dequeue_cases [of "rx_q s"] own_wf [of ext s] by (simp add: fw_wf_def btctl_rx_dequeue_def)

section \<open>The state response\<close>

definition state_msg :: "btctl_state \<Rightarrow> u32 \<Rightarrow> message" where
  "state_msg st reason = \<lparr>m_type = BTCTL_STATE_RESP, m_len = 6, m_body = State_body (state_code st) (ucast reason)\<rparr>"

text \<open>Sending a state to the host: the response is queued, or its buffer is lost when the queue is full.\<close>

lemma send_state_resp_ok:
  assumes "own ext s" and "free_list (pool s) = h # hs"
  shows "\<exists>p q. btctl_send_state_resp st reason s = Inr (s\<lparr>pool := p, bufs := (bufs s)[h := state_msg st reason], tx_q := q\<rparr>) \<and>
      own ext (s\<lparr>pool := p, bufs := (bufs s)[h := state_msg st reason], tx_q := q\<rparr>) \<and> free_list p = hs \<and>
      mq_list q = (if length (mq_list (tx_q s)) = 7 then mq_list (tx_q s) else mq_list (tx_q s) @ [h])"
proof -
  obtain p where a: "btctl_msg_alloc BTCTL_STATE_RESP s = Inr (h, s\<lparr>pool := p, bufs := (bufs s)[h := fresh BTCTL_STATE_RESP]\<rparr>)"
      and f: "free_list p = hs" and o: "own (h # ext) (s\<lparr>pool := p, bufs := (bufs s)[h := fresh BTCTL_STATE_RESP]\<rparr>)"
    using own_alloc [OF assms] by blast
  let ?s = "s\<lparr>pool := p, bufs := (bufs s)[h := state_msg st reason]\<rparr>"
  have lb: "h < length (bufs s)" using own_buf [OF o] by simp
  have os: "own (h # ext) ?s" using o by (simp add: own_def owned_def fw_wf_def)
  have e: "btctl_send_state_resp st reason s = bnd (btctl_tx_enqueue h ?s) (\<lambda>(_, s). Inr s)"
    using lb by (simp add: btctl_send_state_resp_def a m_put_def fresh_def state_msg_def)
  show ?thesis
  proof (cases "length (mq_list (tx_q s)) = 7")
    case True
    then have "btctl_send_state_resp st reason s = Inr (?s\<lparr>tx_q := tx_q s\<rparr>)" using tx_enqueue_full [OF os] e by simp
    moreover have "own ext (?s\<lparr>tx_q := tx_q s\<rparr>)" using own_drop [OF os] by simp
    ultimately show ?thesis using True f by (intro exI [of _ p] exI [of _ "tx_q s"]) simp
  next
    case False
    then obtain q where "btctl_tx_enqueue h ?s = Inr (0, ?s\<lparr>tx_q := q\<rparr>)" "mq_list q = mq_list (tx_q s) @ [h]" "own ext (?s\<lparr>tx_q := q\<rparr>)"
      using own_tx_enqueue [OF os] by auto
    then show ?thesis using False f e by (intro exI [of _ p] exI [of _ q]) simp
  qed
qed

text \<open>
  What a change of the controller state leaves alone: everything but the state, the pool, the host queue
  and the buffers nobody uses.
\<close>

definition in_use :: "nat list \<Rightarrow> 'z fw_scheme \<Rightarrow> nat set" where
  "in_use ext s = set ext \<union> set (mq_list (rx_q s)) \<union> set (mq_list (tx_q s)) \<union> set (mq_list (acl_tx_q s)) \<union>
     (case eir_msg s of None \<Rightarrow> {} | Some h \<Rightarrow> {h})"

definition untouched :: "nat list \<Rightarrow> 'z fw_scheme \<Rightarrow> 'z fw_scheme \<Rightarrow> bool" where
  "untouched ext s s' \<longleftrightarrow> (\<forall>k \<in> in_use ext s. bufs s' ! k = bufs s ! k) \<and> rx_q s' = rx_q s \<and> acl_tx_q s' = acl_tx_q s \<and>
     eir_msg s' = eir_msg s \<and> phy s' = phy s \<and> hop s' = hop s \<and> fw.more s' = fw.more s"

lemma free_not_in_use: "own ext s \<Longrightarrow> free_list (pool s) = h # hs \<Longrightarrow> h \<notin> in_use ext s"
proof -
  assume o: "own ext s" and f: "free_list (pool s) = h # hs"
  have "mset ([h] @ ext) \<subseteq># owned ext s" "mset ([h] @ mq_list (rx_q s)) \<subseteq># owned ext s"
    "mset ([h] @ mq_list (tx_q s)) \<subseteq># owned ext s" "mset ([h] @ mq_list (acl_tx_q s)) \<subseteq># owned ext s"
    "mset ([h] @ (case eir_msg s of None \<Rightarrow> [] | Some h \<Rightarrow> [h])) \<subseteq># owned ext s"
    using f by (simp_all add: owned_def subset_mset.add_increasing2 split: option.splits)
  note this [THEN own_distinct [OF o]]
  then show ?thesis by (auto simp: in_use_def split: option.splits)
qed

lemma set_state_Inr:
  assumes "own ext s" and "btctl_set_state st reason s = Inr s'"
  shows "own ext s'" and "bt_state s' = st" and "untouched ext s s'"
    and "btctl_state_transition_valid (bt_state s) st"
    and "\<exists>hs. mq_list (tx_q s') = mq_list (tx_q s) @ hs \<and> length hs \<le> 1 \<and> set hs \<subseteq> set (free_list (pool s))"
proof -
  let ?s = "s\<lparr>bt_state := st\<rparr>"
  have v: "btctl_state_transition_valid (bt_state s) st"
    using assms(2) by (auto simp: btctl_set_state_def Let_def split: if_splits)
  have o: "own ext ?s" using assms(1) by simp
  have "own ext s' \<and> bt_state s' = st \<and> untouched ext s s' \<and>
    (\<exists>hs. mq_list (tx_q s') = mq_list (tx_q s) @ hs \<and> length hs \<le> 1 \<and> set hs \<subseteq> set (free_list (pool s)))"
  proof (cases "bt_state s = BTCTL_STATE_STANDBY \<and> st = BTCTL_STATE_STANDBY")
    case True
    then have "s' = ?s" using assms(2) v by (simp add: btctl_set_state_def Let_def)
    then show ?thesis using o by (auto simp: untouched_def)
  next
    case False
    then have e: "btctl_send_state_resp st reason ?s = Inr s'"
      using assms(2) v by (auto simp: btctl_set_state_def Let_def split: if_splits)
    then obtain h hs where f: "free_list (pool s) = h # hs"
      using alloc_nil [OF o] by (cases "free_list (pool s)") (simp_all add: btctl_send_state_resp_def)
    then have f': "free_list (pool ?s) = h # hs" by simp
    obtain p q where r: "s' = ?s\<lparr>pool := p, bufs := (bufs s)[h := state_msg st reason], tx_q := q\<rparr>" "own ext s'"
        "mq_list q = (if length (mq_list (tx_q s)) = 7 then mq_list (tx_q s) else mq_list (tx_q s) @ [h])"
      using send_state_resp_ok [OF o f', of st reason] e by auto
    have "\<forall>k \<in> in_use ext s. (bufs s)[h := state_msg st reason] ! k = bufs s ! k"
      using free_not_in_use [OF assms(1) f] by (metis nth_list_update_neq)
    then have "untouched ext s s'" by (simp add: untouched_def r(1))
    then show ?thesis using r f by (intro conjI) (auto simp: r(1))
  qed
  then show "own ext s'" "bt_state s' = st" "untouched ext s s'" "btctl_state_transition_valid (bt_state s) st"
    "\<exists>hs. mq_list (tx_q s') = mq_list (tx_q s) @ hs \<and> length hs \<le> 1 \<and> set hs \<subseteq> set (free_list (pool s))"
    using v by blast+
qed

lemma set_state_total:
  assumes "own ext s" and "free_list (pool s) \<noteq> []" and "btctl_state_transition_valid (bt_state s) st"
  shows "\<exists>s'. btctl_set_state st reason s = Inr s'"
proof -
  obtain h hs where f: "free_list (pool (s\<lparr>bt_state := st\<rparr>)) = h # hs" using assms(2) by (cases "free_list (pool s)") auto
  have "own ext (s\<lparr>bt_state := st\<rparr>)" using assms(1) by simp
  from send_state_resp_ok [OF this f, of st reason] show ?thesis using assms(3)
    by (auto simp: btctl_set_state_def Let_def)
qed

section \<open>A concrete state\<close>

definition phy_zero :: btphy where
  "phy_zero = \<lparr>ph_mode = BT_MODE_INQUIRY, master_clkn = 0, slave_clkn = 0, slave_clkn_delay = 0, clkn_delayed = False,
     chan_lap = 0, chan_uap = 0, chan_sw = 0, chan_trailer = 0, chan_sw_lo = [0, 0, 0, 0], chan_sw_hi = [0, 0, 0, 0],
     my_lap = 0, my_uap = 0, my_nap = 0, my_sw = 0\<rparr>"

definition queue_zero :: "nat msg_queue" where
  "queue_zero = \<lparr>mq_head = 0, mq_tail = 0, mq_msg = replicate 8 0\<rparr>"

text \<open>Buffer 0 holds a message that waits in the queue of packets to send; the other fifteen are free.\<close>

definition fw_acl :: "btctl_state \<Rightarrow> message \<Rightarrow> fw" where
  "fw_acl st m = \<lparr>pool = \<lparr>pool_init = True, pool_li = Some 1, el_li = map (\<lambda>i. Some (i + 1)) [0..<15] @ [None]\<rparr>,
     bufs = replicate 16 m, bt_state = st, rx_q = queue_zero, tx_q = queue_zero,
     acl_tx_q = \<lparr>mq_head = 0, mq_tail = 1, mq_msg = replicate 8 0\<rparr>, eir_msg = None, phy = phy_zero, hop = hop_zero\<rparr>"

lemma queue_zero: "mq_inv queue_zero" "mq_list queue_zero = []"
  by (simp_all add: queue_zero_def mq_inv_def mq_list_def ring_list_def ring_len_def)

lemma fw_acl_own: "own [] (fw_acl st m)" and fw_acl_free: "free_list (pool (fw_acl st m)) = [1..<16]"
  and fw_acl_queue: "mq_list (acl_tx_q (fw_acl st m)) = [0]"
proof -
  let ?p = "\<lparr>pool_init = True, pool_li = Some 1, el_li = map (\<lambda>i. Some (i + 1)) [0..<15] @ [None]\<rparr> :: mem_pool"
  have "chain (el_li ?p) (pool_li ?p) [1..<16]" by (simp add: upt_conv_Cons)
  then have p: "pool_inv ?p" "free_list ?p = [1..<16]" by (intro pool_invI; simp)+
  then show "free_list (pool (fw_acl st m)) = [1..<16]" by (simp add: fw_acl_def)
  let ?q = "\<lparr>mq_head = 0, mq_tail = 1, mq_msg = replicate 8 0\<rparr> :: nat msg_queue"
  have q: "mq_inv ?q" "mq_list ?q = [0]" by (simp_all add: mq_inv_def mq_list_def ring_list_def ring_len_def)
  then show "mq_list (acl_tx_q (fw_acl st m)) = [0]" by (simp add: fw_acl_def)
  have "mset ([0] @ [1..<16]) = mset_set {..<16 :: nat}"
    by (simp only: append_Cons append_Nil upt_conv_Cons [symmetric]) (simp add: mset_upt lessThan_atLeast0 flip: upt_conv_Cons)
  then have "owned [] (fw_acl st m) = mset_set {..<16}" by (simp add: owned_def fw_acl_def queue_zero q [simplified] p [simplified])
  then show "own [] (fw_acl st m)" using p q by (simp add: own_def) (simp add: fw_wf_def fw_acl_def queue_zero)
qed

end
