(* ===== verification/LinkLayer.thy ===== *)
theory LinkLayer
  imports Firmware
begin

text \<open>
  The link layer of src/btphy/ll.c: acknowledgements and retransmission with one bit sequence numbers, the
  supervision timeout, and the message that is being sent.
\<close>

section \<open>The code\<close>

abbreviation CLKN_RATE :: u32 where
  "CLKN_RATE \<equiv> 3200"

definition SUPERVISION_TO :: u32 where
  "SUPERVISION_TO = 1 * CLKN_RATE"

record link_layer =
  ll_connected :: u8
  ll_master :: u8
  clkn_start :: u32
  clkn_last_rx :: u32
  rx_count :: u32
  ll_lt_addr :: u8
  rmt_seqn :: u8
  loc_seqn :: u8
  loc_arqn :: u8
  ll_tx_hdr :: bbhdr
  cur_tx_msg :: "nat option"

text \<open>Bits of the packet header's flags.\<close>

definition has_arqn :: "bbhdr \<Rightarrow> bool" where
  "has_arqn h \<longleftrightarrow> flags h AND 2 \<noteq> 0"

definition seqn_of :: "bbhdr \<Rightarrow> u8" where
  "seqn_of h = 1 AND drop_bit 2 (flags h)"

definition ll_rx_timeout :: "link_layer \<Rightarrow> int \<Rightarrow> 'z fw_scheme \<Rightarrow> int" where
  "ll_rx_timeout ll rc s =
     (let clk_diff = btphy_cur_clkn s - clkn_last_rx ll in
      if clk_diff > SUPERVISION_TO then -1 else rc)"

definition ll_rx_connect :: "link_layer \<Rightarrow> 'z fw_scheme \<Rightarrow> (link_layer \<times> 'z fw_scheme) res" where
  "ll_rx_connect ll s =
     bnd (if ll_connected ll = 0
          then bnd (btctl_set_state BTCTL_STATE_CONNECTED (BTCTL_REASON_SUCCESS OR push_bit 5 (ucast (ll_lt_addr ll))) s) (\<lambda>s.
               Inr (ll\<lparr>ll_connected := 1\<rparr>, s))
          else Inr (ll, s)) (\<lambda>(ll, s).
     Inr (ll\<lparr>clkn_last_rx := btphy_cur_clkn s, rx_count := rx_count ll + 1\<rparr>, s))"

definition ll_rx_arqn :: "link_layer \<Rightarrow> bbhdr \<Rightarrow> 'z fw_scheme \<Rightarrow> (link_layer \<times> 'z fw_scheme) res" where
  "ll_rx_arqn ll h s =
     (if has_arqn h then
        (case cur_tx_msg ll of
           Some m \<Rightarrow> bnd (msg_free m s) (\<lambda>s. Inr (ll\<lparr>cur_tx_msg := None, loc_seqn := loc_seqn ll XOR 1\<rparr>, s))
         | None \<Rightarrow> Inr (ll, s))
      else Inr (ll, s))"

text \<open>The first component is \<open>do_free_msg\<close>.\<close>

definition ll_rx_seqn :: "link_layer \<Rightarrow> rx_pkt \<Rightarrow> nat \<Rightarrow> 'z fw_scheme \<Rightarrow> (bool \<times> link_layer \<times> 'z fw_scheme) res" where
  "ll_rx_seqn ll pkt msg s =
     (if BBPKT_HAS_CRC pkt then
        if seqn_of (rx_hdr pkt) \<noteq> rmt_seqn ll then Inr (True, ll\<lparr>loc_arqn := 1\<rparr>, s)
        else if BBPKT_GOOD_CRC pkt then
          bnd (btctl_tx_enqueue msg s) (\<lambda>(rc, s).
          if rc \<noteq> 0 then Inl Die
          else Inr (False, ll\<lparr>rmt_seqn := rmt_seqn ll XOR 1, loc_arqn := 1\<rparr>, s))
        else Inr (True, ll, s)
      else Inr (True, ll, s))"

text \<open>From the check whether the packet must be discarded to the end.\<close>

definition ll_rx_accept :: "link_layer \<Rightarrow> rx_pkt \<Rightarrow> nat \<Rightarrow> int \<Rightarrow> 'z fw_scheme \<Rightarrow> (int \<times> link_layer \<times> 'z fw_scheme) res" where
  "ll_rx_accept ll pkt msg rc s =
     (if ll_master ll = 0 \<and> lt_addr (rx_hdr pkt) \<noteq> ll_lt_addr ll then
        bnd (msg_free msg s) (\<lambda>s. Inr (rc, ll, s))
      else
        bnd (ll_rx_arqn ll (rx_hdr pkt) s) (\<lambda>(ll, s).
        bnd (ll_rx_seqn ll pkt msg s) (\<lambda>(do_free_msg, ll, s).
        let rc = (if ll_master ll \<noteq> 0 \<or> btype (rx_hdr pkt) = BB_TYPE_POLL \<or> loc_arqn ll \<noteq> 0 then 1 else rc) in
        bnd (if do_free_msg then msg_free msg s else Inr s) (\<lambda>s. Inr (rc, ll, s)))))"

definition ll_process_rx :: "link_layer \<Rightarrow> nat \<Rightarrow> 'z fw_scheme \<Rightarrow> (int \<times> link_layer \<times> 'z fw_scheme) res" where
  "ll_process_rx ll msg s =
     (let rc = (if ll_master ll \<noteq> 0 then 1 else 0) in
      bnd (rd (bufs s) msg) (\<lambda>h.
      if m_type h \<noteq> BTCTL_RX_PKT then Inl Die
      else
        bnd (as_rx h) (\<lambda>pkt.
        if \<not> BBPKT_HAS_HDR pkt then
          bnd (msg_free msg s) (\<lambda>s'. Inr (ll_rx_timeout ll rc s, ll, s'))
        else
          bnd (ll_rx_connect ll s) (\<lambda>(ll, s). ll_rx_accept ll pkt msg rc s))))"

text \<open>What \<open>ll_prepare_tx\<close> points its two results to: its own header without data, or a message.\<close>

datatype tx_src = Src_own | Src_msg nat

definition ll_tx_flags :: "link_layer \<Rightarrow> u8" where
  "ll_tx_flags ll = push_bit 1 (loc_arqn ll) OR push_bit 2 (loc_seqn ll) OR 1"

definition ll_tx_dequeue :: "link_layer \<Rightarrow> 'z fw_scheme \<Rightarrow> (link_layer \<times> 'z fw_scheme) res" where
  "ll_tx_dequeue ll s =
     (if cur_tx_msg ll = None
      then bnd (btctl_acl_tx_dequeue s) (\<lambda>(m, s). Inr (ll\<lparr>cur_tx_msg := m\<rparr>, s))
      else Inr (ll, s))"

definition ll_prepare_tx :: "link_layer \<Rightarrow> 'z fw_scheme \<Rightarrow> (tx_src \<times> link_layer \<times> 'z fw_scheme) res" where
  "ll_prepare_tx ll s =
     bnd (ll_tx_dequeue ll s) (\<lambda>(ll, s).
     case cur_tx_msg ll of
       None \<Rightarrow>
         let h = (ll_tx_hdr ll)\<lparr>lt_addr := ll_lt_addr ll, btype := (if ll_master ll \<noteq> 0 then BB_TYPE_POLL else BB_TYPE_NULL)\<rparr> in
         Inr (Src_own, ll\<lparr>ll_tx_hdr := h\<lparr>flags := ll_tx_flags ll\<rparr>, loc_arqn := 0\<rparr>, s)
     | Some m \<Rightarrow>
         bnd (rd (bufs s) m) (\<lambda>msg.
         if m_type msg \<noteq> BTCTL_TX_ACL_REQ then Inl Die
         else
           bnd (as_tx msg) (\<lambda>pkt.
           let pkt = pkt\<lparr>tx_hdr := (tx_hdr pkt)\<lparr>flags := ll_tx_flags ll\<rparr>\<rparr> in
           bnd (wr (bufs s) m (msg\<lparr>m_body := Tx_body pkt\<rparr>)) (\<lambda>bs.
           Inr (Src_msg m, ll\<lparr>loc_arqn := 0\<rparr>, s\<lparr>bufs := bs\<rparr>)))))"

definition ll_reset :: "link_layer \<Rightarrow> 'z fw_scheme \<Rightarrow> (link_layer \<times> 'z fw_scheme) res" where
  "ll_reset ll s =
     (case cur_tx_msg ll of
        None \<Rightarrow> Inr (ll, s)
      | Some m \<Rightarrow> bnd (msg_free m s) (\<lambda>s. Inr (ll\<lparr>cur_tx_msg := None\<rparr>, s)))"

definition ll_init :: "link_layer \<Rightarrow> u8 \<Rightarrow> u8 \<Rightarrow> 'z fw_scheme \<Rightarrow> link_layer" where
  "ll_init ll is_master lta s =
     ll\<lparr>ll_master := is_master, ll_connected := 0, ll_lt_addr := lta, rmt_seqn := 1, loc_seqn := 1, loc_arqn := 0,
        cur_tx_msg := None, rx_count := 0, clkn_last_rx := btphy_cur_clkn s, clkn_start := btphy_cur_clkn s\<rparr>"

section \<open>Invariant\<close>

definition ll_inv :: "link_layer \<Rightarrow> bool" where
  "ll_inv ll \<longleftrightarrow> rmt_seqn ll \<in> {0, 1} \<and> loc_seqn ll \<in> {0, 1} \<and> loc_arqn ll \<in> {0, 1}"

definition ll_held :: "link_layer \<Rightarrow> nat list" where
  "ll_held ll = (case cur_tx_msg ll of None \<Rightarrow> [] | Some h \<Rightarrow> [h])"

lemma ll_init_inv: "ll_inv (ll_init ll m lta s)" "ll_held (ll_init ll m lta s) = []"
  by (simp_all add: ll_inv_def ll_init_def ll_held_def)

lemma flip_bit: "(x :: u8) \<in> {0, 1} \<Longrightarrow> x XOR 1 \<in> {0, 1}" "(x :: u8) \<in> {0, 1} \<Longrightarrow> x XOR 1 \<noteq> x"
  by auto

lemma ll_tx_flags_bits:
  assumes "ll_inv ll"
  shows "has_arqn (h\<lparr>flags := ll_tx_flags ll\<rparr>) \<longleftrightarrow> loc_arqn ll = 1" and "seqn_of (h\<lparr>flags := ll_tx_flags ll\<rparr>) = loc_seqn ll"
  using assms by (auto simp: ll_inv_def ll_tx_flags_def has_arqn_def seqn_of_def)

section \<open>Reception\<close>

text \<open>The decisions \<open>ll_process_rx\<close> takes from the received packet and the flags of the link.\<close>

definition for_us :: "link_layer \<Rightarrow> rx_pkt \<Rightarrow> bool" where
  "for_us ll pkt \<longleftrightarrow> BBPKT_HAS_HDR pkt \<and> (ll_master ll = 0 \<longrightarrow> lt_addr (rx_hdr pkt) = ll_lt_addr ll)"

definition is_acked :: "link_layer \<Rightarrow> rx_pkt \<Rightarrow> bool" where
  "is_acked ll pkt \<longleftrightarrow> for_us ll pkt \<and> has_arqn (rx_hdr pkt) \<and> cur_tx_msg ll \<noteq> None"

definition is_new :: "link_layer \<Rightarrow> rx_pkt \<Rightarrow> bool" where
  "is_new ll pkt \<longleftrightarrow> for_us ll pkt \<and> BBPKT_HAS_CRC pkt \<and> BBPKT_GOOD_CRC pkt \<and> seqn_of (rx_hdr pkt) = rmt_seqn ll"

definition is_repeat :: "link_layer \<Rightarrow> rx_pkt \<Rightarrow> bool" where
  "is_repeat ll pkt \<longleftrightarrow> for_us ll pkt \<and> BBPKT_HAS_CRC pkt \<and> seqn_of (rx_hdr pkt) \<noteq> rmt_seqn ll"

lemma ll_rx_arqn_ok:
  assumes "own (h # ll_held ll @ ext) s"
  shows "\<exists>p. ll_rx_arqn ll hr s = Inr (if has_arqn hr \<and> cur_tx_msg ll \<noteq> None
        then ll\<lparr>cur_tx_msg := None, loc_seqn := loc_seqn ll XOR 1\<rparr> else ll, s\<lparr>pool := p\<rparr>) \<and>
      own (h # ll_held (if has_arqn hr \<and> cur_tx_msg ll \<noteq> None then ll\<lparr>cur_tx_msg := None\<rparr> else ll) @ ext) (s\<lparr>pool := p\<rparr>)"
proof (cases "has_arqn hr \<and> cur_tx_msg ll \<noteq> None")
  case True
  then obtain m where m: "cur_tx_msg ll = Some m" by blast
  have "own (m # h # ext) s" by (rule own_perm [OF assms]) (simp add: ll_held_def m)
  from own_free [OF this] obtain p where "msg_free m s = Inr (s\<lparr>pool := p\<rparr>)" "own (h # ext) (s\<lparr>pool := p\<rparr>)" by blast
  then show ?thesis using True m by (auto simp: ll_rx_arqn_def ll_held_def)
next
  case False
  then have "ll_rx_arqn ll hr s = Inr (ll, s\<lparr>pool := pool s\<rparr>)" by (auto simp: ll_rx_arqn_def split: option.splits)
  then show ?thesis using False assms by (intro exI [of _ "pool s"]) auto
qed

lemma ll_rx_connect_Inr:
  assumes "own ext s" and "ll_rx_connect ll s = Inr (ll', s')"
  shows "own ext s'" and "untouched ext s s'"
    and "\<exists>hs. mq_list (tx_q s') = mq_list (tx_q s) @ hs \<and> length hs \<le> 1 \<and> set hs \<subseteq> set (free_list (pool s))"
    and "ll' = ll\<lparr>ll_connected := ll_connected ll', clkn_last_rx := btphy_cur_clkn s, rx_count := rx_count ll + 1\<rparr>"
proof -
  have "own ext s' \<and> untouched ext s s' \<and>
    (\<exists>hs. mq_list (tx_q s') = mq_list (tx_q s) @ hs \<and> length hs \<le> 1 \<and> set hs \<subseteq> set (free_list (pool s))) \<and>
    ll' = ll\<lparr>ll_connected := ll_connected ll', clkn_last_rx := btphy_cur_clkn s, rx_count := rx_count ll + 1\<rparr>"
  proof (cases "ll_connected ll = 0")
    case True
    then obtain r where r: "btctl_set_state BTCTL_STATE_CONNECTED r s = Inr s'"
        and l: "ll' = ll\<lparr>ll_connected := 1, clkn_last_rx := btphy_cur_clkn s', rx_count := rx_count ll + 1\<rparr>"
      using assms(2) by (auto simp: ll_rx_connect_def bnd_Inr_iff)
    have "phy s' = phy s" using set_state_Inr(3) [OF assms(1) r] by (simp add: untouched_def)
    then have "btphy_cur_clkn s' = btphy_cur_clkn s" by (rule btphy_cur_clkn_cong)
    then show ?thesis using set_state_Inr [OF assms(1) r] l by simp
  next
    case False
    then show ?thesis using assms by (auto simp: ll_rx_connect_def untouched_def)
  qed
  then show "own ext s'" "untouched ext s s'"
    "\<exists>hs. mq_list (tx_q s') = mq_list (tx_q s) @ hs \<and> length hs \<le> 1 \<and> set hs \<subseteq> set (free_list (pool s))"
    "ll' = ll\<lparr>ll_connected := ll_connected ll', clkn_last_rx := btphy_cur_clkn s, rx_count := rx_count ll + 1\<rparr>"
    by blast+
qed

lemma ll_rx_seqn_Inr:
  assumes "own (h # ext) s" and "ll_rx_seqn ll pkt h s = Inr (f, ll', s')"
  shows "own (if f then h # ext else ext) s'"
    and "f \<longleftrightarrow> \<not> (BBPKT_HAS_CRC pkt \<and> seqn_of (rx_hdr pkt) = rmt_seqn ll \<and> BBPKT_GOOD_CRC pkt)"
    and "ll' = ll\<lparr>rmt_seqn := if f then rmt_seqn ll else rmt_seqn ll XOR 1,
      loc_arqn := if \<not> f \<or> BBPKT_HAS_CRC pkt \<and> seqn_of (rx_hdr pkt) \<noteq> rmt_seqn ll then 1 else loc_arqn ll\<rparr>"
    and "\<exists>q. s' = s\<lparr>tx_q := q\<rparr> \<and> mq_list q = (if f then mq_list (tx_q s) else mq_list (tx_q s) @ [h])"
proof -
  have "own (if f then h # ext else ext) s' \<and>
    (f \<longleftrightarrow> \<not> (BBPKT_HAS_CRC pkt \<and> seqn_of (rx_hdr pkt) = rmt_seqn ll \<and> BBPKT_GOOD_CRC pkt)) \<and>
    ll' = ll\<lparr>rmt_seqn := if f then rmt_seqn ll else rmt_seqn ll XOR 1,
      loc_arqn := if \<not> f \<or> BBPKT_HAS_CRC pkt \<and> seqn_of (rx_hdr pkt) \<noteq> rmt_seqn ll then 1 else loc_arqn ll\<rparr> \<and>
    (\<exists>q. s' = s\<lparr>tx_q := q\<rparr> \<and> mq_list q = (if f then mq_list (tx_q s) else mq_list (tx_q s) @ [h]))"
  proof (cases "BBPKT_HAS_CRC pkt \<and> seqn_of (rx_hdr pkt) = rmt_seqn ll \<and> BBPKT_GOOD_CRC pkt")
    case True
    then have e: "bnd (btctl_tx_enqueue h s) (\<lambda>(rc, s). if rc \<noteq> 0 then Inl Die
          else Inr (False, ll\<lparr>rmt_seqn := rmt_seqn ll XOR 1, loc_arqn := 1\<rparr>, s)) = Inr (f, ll', s')"
      using assms(2) by (simp add: ll_rx_seqn_def)
    then have "length (mq_list (tx_q s)) \<noteq> 7" using tx_enqueue_full [OF assms(1)] by auto
    from own_tx_enqueue [OF assms(1) this] obtain q where "btctl_tx_enqueue h s = Inr (0, s\<lparr>tx_q := q\<rparr>)"
      "mq_list q = mq_list (tx_q s) @ [h]" "own ext (s\<lparr>tx_q := q\<rparr>)" by blast
    then show ?thesis using True e by auto
  next
    case False
    then have "ll_rx_seqn ll pkt h s =
        Inr (True, if BBPKT_HAS_CRC pkt \<and> seqn_of (rx_hdr pkt) \<noteq> rmt_seqn ll then ll\<lparr>loc_arqn := 1\<rparr> else ll, s)"
      by (auto simp: ll_rx_seqn_def)
    then have "f" "s' = s\<lparr>tx_q := tx_q s\<rparr>" "ll' = (if BBPKT_HAS_CRC pkt \<and> seqn_of (rx_hdr pkt) \<noteq> rmt_seqn ll then ll\<lparr>loc_arqn := 1\<rparr> else ll)"
      using assms(2) by simp_all
    then show ?thesis using assms(1) False by (intro conjI exI [of _ "tx_q s"]) simp_all
  qed
  then show "own (if f then h # ext else ext) s'"
    "f \<longleftrightarrow> \<not> (BBPKT_HAS_CRC pkt \<and> seqn_of (rx_hdr pkt) = rmt_seqn ll \<and> BBPKT_GOOD_CRC pkt)"
    "ll' = ll\<lparr>rmt_seqn := if f then rmt_seqn ll else rmt_seqn ll XOR 1,
      loc_arqn := if \<not> f \<or> BBPKT_HAS_CRC pkt \<and> seqn_of (rx_hdr pkt) \<noteq> rmt_seqn ll then 1 else loc_arqn ll\<rparr>"
    "\<exists>q. s' = s\<lparr>tx_q := q\<rparr> \<and> mq_list q = (if f then mq_list (tx_q s) else mq_list (tx_q s) @ [h])"
    by blast+
qed

text \<open>The flags of the link after a reception.\<close>

definition ll_after_rx :: "link_layer \<Rightarrow> rx_pkt \<Rightarrow> link_layer \<Rightarrow> bool" where
  "ll_after_rx ll pkt ll' \<longleftrightarrow>
     cur_tx_msg ll' = (if is_acked ll pkt then None else cur_tx_msg ll) \<and>
     loc_seqn ll' = (if is_acked ll pkt then loc_seqn ll XOR 1 else loc_seqn ll) \<and>
     rmt_seqn ll' = (if is_new ll pkt then rmt_seqn ll XOR 1 else rmt_seqn ll) \<and>
     loc_arqn ll' = (if is_new ll pkt \<or> is_repeat ll pkt then 1 else loc_arqn ll) \<and>
     ll_master ll' = ll_master ll \<and> ll_lt_addr ll' = ll_lt_addr ll"

lemma in_use_append: "in_use (xs @ ys) s = set xs \<union> in_use ys s"
  by (auto simp: in_use_def)

lemma in_use_Cons: "in_use (x # ys) s = insert x (in_use ys s)"
  by (auto simp: in_use_def)

lemma not_in_tx: "own (h # ext) s \<Longrightarrow> h \<notin> set (mq_list (tx_q s))"
  using own_distinct [of "h # ext" s "[h]" "mq_list (tx_q s)"] by (simp add: owned_def subset_mset.add_increasing2)

lemma not_in_free: "own (h # ext) s \<Longrightarrow> h \<notin> set (free_list (pool s))"
  using own_distinct [of "h # ext" s "[h]" "free_list (pool s)"] by (simp add: owned_def subset_mset.add_increasing2)

lemma own_free_Inr:
  assumes "own (h # ext) s" and "msg_free h s = Inr s'"
  shows "own ext s'" and "\<exists>p. s' = s\<lparr>pool := p\<rparr>"
  using own_free [OF assms(1)] assms(2) by auto

lemma untouched_trans_pool: "untouched ext s s' \<Longrightarrow> untouched ext s (s'\<lparr>pool := p\<rparr>)" "untouched ext s s' \<Longrightarrow> untouched ext s (s'\<lparr>tx_q := q\<rparr>)"
  by (simp_all add: untouched_def)

lemma untouched_weaken: "untouched (h # ext) s s' \<Longrightarrow> untouched ext s s'"
  by (simp add: untouched_def in_use_Cons)

text \<open>One reception, all branches; first a packet with a header, after the connection check.\<close>

definition rx_post :: "link_layer \<Rightarrow> nat list \<Rightarrow> rx_pkt \<Rightarrow> nat \<Rightarrow> 'z fw_scheme \<Rightarrow> int \<Rightarrow> link_layer \<Rightarrow> 'z fw_scheme \<Rightarrow> bool" where
  "rx_post ll ext pkt h s rc ll' s' \<longleftrightarrow>
     own (ll_held ll' @ ext) s' \<and> ll_after_rx ll pkt ll' \<and> untouched (ll_held ll @ ext) s s' \<and>
     (h \<in> set (mq_list (tx_q s')) \<longleftrightarrow> is_new ll pkt) \<and>
     rc = (if \<not> BBPKT_HAS_HDR pkt then ll_rx_timeout ll (if ll_master ll \<noteq> 0 then 1 else 0) s
       else if ll_master ll \<noteq> 0 then 1
       else if for_us ll pkt \<and> (btype (rx_hdr pkt) = BB_TYPE_POLL \<or> loc_arqn ll' \<noteq> 0) then 1 else 0)"

lemma process_rx_no_hdr:
  assumes o: "own (h # ll_held ll @ ext) s" and "ll_process_rx ll h s = Inr (rc, ll', s')"
    and b: "m_body (bufs s ! h) = Rx_body pkt" and "\<not> BBPKT_HAS_HDR pkt"
  shows "rx_post ll ext pkt h s rc ll' s'"
proof -
  have "ll' = ll" "msg_free h s = Inr s'" "rc = ll_rx_timeout ll (if ll_master ll \<noteq> 0 then 1 else 0) s"
    using assms(2) own_buf [OF o] b assms(4) by (auto simp: ll_process_rx_def as_rx_def bnd_Inr_iff Let_def split: if_splits)
  moreover from this own_free_Inr [OF o] obtain p where "own (ll_held ll @ ext) s'" "s' = s\<lparr>pool := p\<rparr>" by blast
  moreover from this have "tx_q s' = tx_q s" "untouched (ll_held ll @ ext) s s'" by (simp_all add: untouched_def)
  ultimately show ?thesis using assms(4) not_in_tx [OF o]
    by (auto simp: rx_post_def ll_after_rx_def is_acked_def is_new_def is_repeat_def for_us_def)
qed

lemma rx_accept_Inr:
  assumes o: "own (h # ll_held ll @ ext) s" and ac: "ll_rx_accept ll pkt h rc0 s = Inr (rc, ll', s')"
    and hh: "BBPKT_HAS_HDR pkt"
  shows "own (ll_held ll' @ ext) s'" and "ll_after_rx ll pkt ll'"
    and "\<exists>p q. s' = s\<lparr>pool := p, tx_q := q\<rparr> \<and> mq_list q = mq_list (tx_q s) @ (if is_new ll pkt then [h] else [])"
    and "rc = (if for_us ll pkt \<and> (ll_master ll \<noteq> 0 \<or> btype (rx_hdr pkt) = BB_TYPE_POLL \<or> loc_arqn ll' \<noteq> 0) then 1 else rc0)"
proof -
  have "own (ll_held ll' @ ext) s' \<and> ll_after_rx ll pkt ll' \<and>
    (\<exists>p q. s' = s\<lparr>pool := p, tx_q := q\<rparr> \<and> mq_list q = mq_list (tx_q s) @ (if is_new ll pkt then [h] else [])) \<and>
    rc = (if for_us ll pkt \<and> (ll_master ll \<noteq> 0 \<or> btype (rx_hdr pkt) = BB_TYPE_POLL \<or> loc_arqn ll' \<noteq> 0) then 1 else rc0)"
  proof (cases "for_us ll pkt")
    case False
    then have "ll' = ll" "msg_free h s = Inr s'" "rc = rc0"
      using ac hh by (auto simp: ll_rx_accept_def for_us_def bnd_Inr_iff)
    moreover from this own_free_Inr [OF o] obtain p where "own (ll_held ll @ ext) s'" "s' = s\<lparr>pool := p\<rparr>" by blast
    ultimately show ?thesis using False
      by (auto simp: ll_after_rx_def is_acked_def is_new_def is_repeat_def intro!: exI [of _ p] exI [of _ "tx_q s"])
  next
    case True
    define ll1 where "ll1 = (if has_arqn (rx_hdr pkt) \<and> cur_tx_msg ll \<noteq> None
        then ll\<lparr>cur_tx_msg := None, loc_seqn := loc_seqn ll XOR 1\<rparr> else ll)"
    have ak: "is_acked ll pkt \<longleftrightarrow> has_arqn (rx_hdr pkt) \<and> cur_tx_msg ll \<noteq> None" using True by (simp add: is_acked_def)
    have l1: "cur_tx_msg ll1 = (if is_acked ll pkt then None else cur_tx_msg ll)"
        "loc_seqn ll1 = (if is_acked ll pkt then loc_seqn ll XOR 1 else loc_seqn ll)" "rmt_seqn ll1 = rmt_seqn ll"
        "loc_arqn ll1 = loc_arqn ll" "ll_master ll1 = ll_master ll" "ll_lt_addr ll1 = ll_lt_addr ll"
      unfolding ll1_def ak by auto
    have "ll_held (if has_arqn (rx_hdr pkt) \<and> cur_tx_msg ll \<noteq> None then ll\<lparr>cur_tx_msg := None\<rparr> else ll) = ll_held ll1"
      by (simp add: ll_held_def ll1_def)
    then obtain p where ar: "ll_rx_arqn ll (rx_hdr pkt) s = Inr (ll1, s\<lparr>pool := p\<rparr>)" "own (h # ll_held ll1 @ ext) (s\<lparr>pool := p\<rparr>)"
      using ll_rx_arqn_ok [OF o, of "rx_hdr pkt"] unfolding ll1_def [symmetric] by metis
    have nn: "(ll_master ll = 0 \<and> lt_addr (rx_hdr pkt) \<noteq> ll_lt_addr ll) = False" using True by (simp add: for_us_def)
    have "bnd (ll_rx_seqn ll1 pkt h (s\<lparr>pool := p\<rparr>)) (\<lambda>(f, ll, s). bnd (if f then msg_free h s else Inr s) (\<lambda>s.
        Inr (if ll_master ll \<noteq> 0 \<or> btype (rx_hdr pkt) = BB_TYPE_POLL \<or> loc_arqn ll \<noteq> 0 then 1 else rc0, ll, s))) = Inr (rc, ll', s')"
      using ac unfolding ll_rx_accept_def ar(1) nn by (simp only: if_False bnd_simps prod.case Let_def)
    then obtain f s2 where sq: "ll_rx_seqn ll1 pkt h (s\<lparr>pool := p\<rparr>) = Inr (f, ll', s2)"
        and fr: "(if f then msg_free h s2 else Inr s2) = Inr s'"
        and rc: "rc = (if ll_master ll' \<noteq> 0 \<or> btype (rx_hdr pkt) = BB_TYPE_POLL \<or> loc_arqn ll' \<noteq> 0 then 1 else rc0)"
      by (elim bnd_InrE) (clarsimp simp: bnd_Inr_iff simp del: if_split)
    note sr = ll_rx_seqn_Inr [OF ar(2) sq]
    have ll': "cur_tx_msg ll' = cur_tx_msg ll1" "ll_master ll' = ll_master ll" "loc_seqn ll' = loc_seqn ll1"
        "ll_lt_addr ll' = ll_lt_addr ll" "rmt_seqn ll' = (if f then rmt_seqn ll else rmt_seqn ll XOR 1)"
        "loc_arqn ll' = (if \<not> f \<or> BBPKT_HAS_CRC pkt \<and> seqn_of (rx_hdr pkt) \<noteq> rmt_seqn ll then 1 else loc_arqn ll)"
      by (subst sr(3), simp add: l1)+
    have held: "ll_held ll' = ll_held ll1" by (simp only: ll_held_def ll'(1))
    have new: "f \<longleftrightarrow> \<not> is_new ll pkt" using sr(2) True by (auto simp: is_new_def l1)
    have "is_repeat ll pkt \<longleftrightarrow> BBPKT_HAS_CRC pkt \<and> seqn_of (rx_hdr pkt) \<noteq> rmt_seqn ll" using True by (simp add: is_repeat_def)
    then have after: "ll_after_rx ll pkt ll'" by (simp only: ll_after_rx_def ll' l1 new) auto
    obtain q where "s2 = s\<lparr>pool := p, tx_q := q\<rparr>" "mq_list q = (if f then mq_list (tx_q (s\<lparr>pool := p\<rparr>)) else mq_list (tx_q (s\<lparr>pool := p\<rparr>)) @ [h])"
      using sr(4) by blast
    then have q: "s2 = s\<lparr>pool := p, tx_q := q\<rparr>" "mq_list q = mq_list (tx_q s) @ (if is_new ll pkt then [h] else [])"
      using new by simp_all
    have fin: "\<exists>p. own (ll_held ll' @ ext) s' \<and> s' = s\<lparr>pool := p, tx_q := q\<rparr>"
    proof (cases f)
      case True
      then obtain p' where "own (ll_held ll' @ ext) s'" "s' = s2\<lparr>pool := p'\<rparr>"
        using own_free_Inr [of h "ll_held ll' @ ext" s2 s'] sr(1) fr by (auto simp: held)
      then show ?thesis by (intro exI [of _ p']) (simp add: q(1))
    next
      case False
      then show ?thesis using sr(1) fr by (auto simp: held q(1))
    qed
    then obtain p' where "own (ll_held ll' @ ext) s'" "s' = s\<lparr>pool := p', tx_q := q\<rparr>" by blast
    then show ?thesis using after q(2) rc True ll'(2)
      by (intro conjI exI [of _ p'] exI [of _ q]) simp_all
  qed
  then show "own (ll_held ll' @ ext) s'" "ll_after_rx ll pkt ll'"
    "\<exists>p q. s' = s\<lparr>pool := p, tx_q := q\<rparr> \<and> mq_list q = mq_list (tx_q s) @ (if is_new ll pkt then [h] else [])"
    "rc = (if for_us ll pkt \<and> (ll_master ll \<noteq> 0 \<or> btype (rx_hdr pkt) = BB_TYPE_POLL \<or> loc_arqn ll' \<noteq> 0) then 1 else rc0)"
    by blast+
qed

lemma process_rx_hdr:
  assumes o: "own (h # ll_held ll @ ext) s" and pr: "ll_process_rx ll h s = Inr (rc, ll', s')"
    and b: "m_body (bufs s ! h) = Rx_body pkt" and hh: "BBPKT_HAS_HDR pkt"
  shows "rx_post ll ext pkt h s rc ll' s'"
proof -
  have "h < length (bufs s)" by (rule own_buf [OF o])
  then obtain ll1 s1 where c: "ll_rx_connect ll s = Inr (ll1, s1)"
      and ac: "ll_rx_accept ll1 pkt h (if ll_master ll \<noteq> 0 then 1 else 0) s1 = Inr (rc, ll', s')"
    using pr b hh by (auto simp: ll_process_rx_def as_rx_def bnd_Inr_iff Let_def simp del: if_split split: if_split_asm)
  note cn = ll_rx_connect_Inr [OF o c]
  have same: "cur_tx_msg ll1 = cur_tx_msg ll" "loc_seqn ll1 = loc_seqn ll" "rmt_seqn ll1 = rmt_seqn ll"
      "loc_arqn ll1 = loc_arqn ll" "ll_master ll1 = ll_master ll" "ll_lt_addr ll1 = ll_lt_addr ll"
    by (subst cn(4), simp)+
  then have fu: "for_us ll1 pkt = for_us ll pkt" by (simp only: for_us_def)
  then have de: "is_acked ll1 pkt = is_acked ll pkt" "is_new ll1 pkt = is_new ll pkt"
      "is_repeat ll1 pkt = is_repeat ll pkt" "ll_held ll1 = ll_held ll"
    by (simp_all only: is_acked_def is_new_def is_repeat_def ll_held_def same)
  then have "ll_after_rx ll1 pkt ll' = ll_after_rx ll pkt ll'" by (simp only: ll_after_rx_def same)
  note dec = fu de this
  note ra = rx_accept_Inr [of h ll1 ext s1, unfolded dec, OF cn(1) ac hh]
  have "untouched (ll_held ll @ ext) s s'"
    using untouched_weaken [OF cn(2)] ra(3) by (auto intro: untouched_trans_pool)
  moreover have "h \<in> set (mq_list (tx_q s')) \<longleftrightarrow> is_new ll pkt"
    using ra(3) cn(3) not_in_tx [OF o] not_in_free [OF o] unfolding dec by auto
  moreover have "own (ll_held ll' @ ext) s'" "ll_after_rx ll pkt ll'" using ra(1,2) dec by simp_all
  moreover note ra(4) [unfolded dec]
  ultimately show ?thesis using hh same by (simp add: rx_post_def)
qed

lemma process_rx_post:
  assumes "own (h # ll_held ll @ ext) s" and "ll_process_rx ll h s = Inr (rc, ll', s')"
    and "m_body (bufs s ! h) = Rx_body pkt"
  shows "rx_post ll ext pkt h s rc ll' s'"
  using process_rx_hdr [OF assms] process_rx_no_hdr [OF assms] by blast

text \<open>With a buffer for the state response, room in the host queue and a valid transition, reception returns.\<close>

definition can_connect :: "'z fw_scheme \<Rightarrow> bool" where
  "can_connect s \<longleftrightarrow> bt_state s \<in> {BTCTL_STATE_PAGE, BTCTL_STATE_PAGE_SCAN, BTCTL_STATE_CONNECTED}"

lemma rx_accept_total:
  assumes o: "own (h # ll_held ll @ ext) s" and "length (mq_list (tx_q s)) < 7"
  shows "\<exists>r. ll_rx_accept ll pkt h rc s = Inr r"
proof (cases "ll_master ll = 0 \<and> lt_addr (rx_hdr pkt) \<noteq> ll_lt_addr ll")
  case True
  then show ?thesis using own_free [OF o] by (auto simp: ll_rx_accept_def)
next
  case False
  obtain ll1 p where ar: "ll_rx_arqn ll (rx_hdr pkt) s = Inr (ll1, s\<lparr>pool := p\<rparr>)"
      and o1: "own (h # ll_held ll1 @ ext) (s\<lparr>pool := p\<rparr>)"
    using ll_rx_arqn_ok [OF o, of "rx_hdr pkt"] by (auto simp: ll_held_def split: if_splits)
  have "\<exists>r. ll_rx_seqn ll1 pkt h (s\<lparr>pool := p\<rparr>) = Inr r"
    using own_tx_enqueue [OF o1] assms(2) by (auto simp: ll_rx_seqn_def)
  then obtain f ll2 s2 where sq: "ll_rx_seqn ll1 pkt h (s\<lparr>pool := p\<rparr>) = Inr (f, ll2, s2)" by auto
  have "f \<Longrightarrow> \<exists>s3. msg_free h s2 = Inr s3" using own_free [of h "ll_held ll1 @ ext" s2] ll_rx_seqn_Inr(1) [OF o1 sq] by auto
  then show ?thesis using False ar sq by (cases f) (auto simp: ll_rx_accept_def Let_def)
qed

lemma process_rx_total:
  assumes o: "own (h # ll_held ll @ ext) s" and b: "m_type (bufs s ! h) = BTCTL_RX_PKT" "m_body (bufs s ! h) = Rx_body pkt"
    and "length (mq_list (tx_q s)) \<le> 5" and "free_list (pool s) \<noteq> []" and "can_connect s"
  shows "\<exists>r. ll_process_rx ll h s = Inr r"
proof (cases "BBPKT_HAS_HDR pkt")
  case False
  then show ?thesis using own_free [OF o] own_buf [OF o] b by (auto simp: ll_process_rx_def as_rx_def)
next
  case True
  have "btctl_state_transition_valid (bt_state s) BTCTL_STATE_CONNECTED"
    using assms(6) by (auto simp: can_connect_def btctl_state_transition_valid_def)
  then have "\<exists>r. ll_rx_connect ll s = Inr r"
    using set_state_total [OF o assms(5)] by (auto simp: ll_rx_connect_def bnd_def split: sum.splits) (metis old.sum.distinct(2))
  then obtain ll1 s1 where c: "ll_rx_connect ll s = Inr (ll1, s1)" by auto
  note cn = ll_rx_connect_Inr [OF o c]
  have "ll_held ll1 = ll_held ll" by (subst cn(4)) (simp add: ll_held_def)
  then have "own (h # ll_held ll1 @ ext) s1" "length (mq_list (tx_q s1)) < 7" using cn(1,3) assms(4) by auto
  from rx_accept_total [OF this] show ?thesis using True own_buf [OF o] b c
    by (simp add: ll_process_rx_def as_rx_def Let_def)
qed

lemma after_rx_inv: "ll_inv ll \<Longrightarrow> ll_after_rx ll pkt ll' \<Longrightarrow> ll_inv ll'"
  using flip_bit(1) [of "loc_seqn ll"] flip_bit(1) [of "rmt_seqn ll"] by (simp add: ll_inv_def ll_after_rx_def)

section \<open>Transmission\<close>

lemma ll_tx_dequeue_Inr:
  assumes "own (ll_held ll @ ext) s" and "ll_tx_dequeue ll s = Inr (ll', s')"
  shows "own (ll_held ll' @ ext) s'" and "\<exists>q. s' = s\<lparr>acl_tx_q := q\<rparr>" and "ll' = ll\<lparr>cur_tx_msg := cur_tx_msg ll'\<rparr>"
    and "cur_tx_msg ll' = (case cur_tx_msg ll of Some m \<Rightarrow> Some m
      | None \<Rightarrow> (case mq_list (acl_tx_q s) of [] \<Rightarrow> None | m # ms \<Rightarrow> Some m))"
proof -
  have "own (ll_held ll' @ ext) s' \<and> (\<exists>q. s' = s\<lparr>acl_tx_q := q\<rparr>) \<and> ll' = ll\<lparr>cur_tx_msg := cur_tx_msg ll'\<rparr> \<and>
    cur_tx_msg ll' = (case cur_tx_msg ll of Some m \<Rightarrow> Some m
      | None \<Rightarrow> (case mq_list (acl_tx_q s) of [] \<Rightarrow> None | m # ms \<Rightarrow> Some m))"
  proof (cases "cur_tx_msg ll")
    case (Some m)
    then have "ll' = ll" "s' = s\<lparr>acl_tx_q := acl_tx_q s\<rparr>" using assms(2) by (simp_all add: ll_tx_dequeue_def)
    then show ?thesis using Some assms(1) by (intro conjI exI [of _ "acl_tx_q s"]) simp_all
  next
    case None
    then have o: "own ext s" using assms(1) by (simp add: ll_held_def)
    show ?thesis
    proof (cases "mq_list (acl_tx_q s)")
      case Nil
      then have "ll' = ll\<lparr>cur_tx_msg := None\<rparr>" "s' = s\<lparr>acl_tx_q := acl_tx_q s\<rparr>"
        using assms(2) None acl_tx_dequeue_nil [OF o] by (simp_all add: ll_tx_dequeue_def)
      then show ?thesis using None Nil o by (intro conjI exI [of _ "acl_tx_q s"]) (simp_all add: ll_held_def)
    next
      case (Cons m ms)
      then obtain q where "btctl_acl_tx_dequeue s = Inr (Some m, s\<lparr>acl_tx_q := q\<rparr>)" "own (m # ext) (s\<lparr>acl_tx_q := q\<rparr>)"
        using own_acl_tx_dequeue [OF o] by blast
      then have "ll' = ll\<lparr>cur_tx_msg := Some m\<rparr>" "s' = s\<lparr>acl_tx_q := q\<rparr>" "own (m # ext) s'"
        using assms(2) None by (simp_all add: ll_tx_dequeue_def)
      then show ?thesis using None Cons by (intro conjI exI [of _ q]) (simp_all add: ll_held_def)
    qed
  qed
  then show "own (ll_held ll' @ ext) s'" "\<exists>q. s' = s\<lparr>acl_tx_q := q\<rparr>" "ll' = ll\<lparr>cur_tx_msg := cur_tx_msg ll'\<rparr>"
    "cur_tx_msg ll' = (case cur_tx_msg ll of Some m \<Rightarrow> Some m
      | None \<Rightarrow> (case mq_list (acl_tx_q s) of [] \<Rightarrow> None | m # ms \<Rightarrow> Some m))"
    by blast+
qed

text \<open>The packet the two results of \<open>ll_prepare_tx\<close> describe.\<close>

definition air_packet :: "tx_src \<Rightarrow> link_layer \<Rightarrow> 'z fw_scheme \<Rightarrow> (bbhdr \<times> u8 list) res" where
  "air_packet src ll s =
     (case src of
        Src_own \<Rightarrow> Inr (ll_tx_hdr ll, [])
      | Src_msg m \<Rightarrow> bnd (rd (bufs s) m) (\<lambda>msg. bnd (as_tx msg) (\<lambda>p. Inr (tx_hdr p, tx_data p))))"

definition tx_post :: "link_layer \<Rightarrow> nat list \<Rightarrow> 'z fw_scheme \<Rightarrow> bbhdr \<Rightarrow> u8 list \<Rightarrow> link_layer \<Rightarrow> 'z fw_scheme \<Rightarrow> bool" where
  "tx_post ll ext s h d ll' s' \<longleftrightarrow> own (ll_held ll' @ ext) s' \<and>
     (pool s', tx_q s', bt_state s') = (pool s, tx_q s, bt_state s) \<and>
     (rmt_seqn ll', loc_seqn ll', loc_arqn ll', ll_master ll', ll_lt_addr ll') = (rmt_seqn ll, loc_seqn ll, 0, ll_master ll, ll_lt_addr ll) \<and>
     (has_arqn h \<longleftrightarrow> loc_arqn ll = 1) \<and> seqn_of h = loc_seqn ll \<and>
     (case cur_tx_msg ll' of
        None \<Rightarrow> cur_tx_msg ll = None \<and> d = [] \<and> (btype h, lt_addr h) = (if ll_master ll \<noteq> 0 then BB_TYPE_POLL else BB_TYPE_NULL, ll_lt_addr ll)
      | Some m \<Rightarrow> (cur_tx_msg ll = Some m \<or> cur_tx_msg ll = None) \<and> m < length (bufs s) \<and>
          (\<exists>hdr0. m_body (bufs s ! m) = Tx_body \<lparr>tx_hdr = hdr0, tx_data = d\<rparr> \<and> h = hdr0\<lparr>flags := ll_tx_flags ll\<rparr>) \<and>
          m_body (bufs s' ! m) = Tx_body \<lparr>tx_hdr = h, tx_data = d\<rparr>)"

lemma prepare_tx_post:
  assumes o: "own (ll_held ll @ ext) s" and inv: "ll_inv ll"
    and pr: "ll_prepare_tx ll s = Inr (src, ll', s')" and air: "air_packet src ll' s' = Inr (h, d)"
  shows "tx_post ll ext s h d ll' s'"
proof -
  obtain ll1 s1 where dq: "ll_tx_dequeue ll s = Inr (ll1, s1)" using pr by (auto simp: ll_prepare_tx_def bnd_Inr_iff)
  note dr = ll_tx_dequeue_Inr [OF o dq]
  have l1: "rmt_seqn ll1 = rmt_seqn ll" "loc_seqn ll1 = loc_seqn ll" "loc_arqn ll1 = loc_arqn ll" "ll_master ll1 = ll_master ll"
      "ll_lt_addr ll1 = ll_lt_addr ll" by (subst dr(3), simp)+
  then have fl: "ll_tx_flags ll1 = ll_tx_flags ll" by (simp only: ll_tx_flags_def)
  have cur: "cur_tx_msg ll = None \<or> cur_tx_msg ll = cur_tx_msg ll1" using dr(4) by (auto split: option.splits)
  have b1: "bufs s1 = bufs s" "pool s1 = pool s" "tx_q s1 = tx_q s" "bt_state s1 = bt_state s" using dr(2) by auto
  note bits = ll_tx_flags_bits [OF inv]
  show ?thesis
  proof (cases "cur_tx_msg ll1")
    case None
    then have "cur_tx_msg ll = None" using cur by auto
    moreover have "src = Src_own" "s' = s1"
        "ll' = ll1\<lparr>ll_tx_hdr := (ll_tx_hdr ll1)\<lparr>lt_addr := ll_lt_addr ll, btype := (if ll_master ll \<noteq> 0 then BB_TYPE_POLL else BB_TYPE_NULL), flags := ll_tx_flags ll\<rparr>, loc_arqn := 0\<rparr>"
      using pr dq None by (simp_all add: ll_prepare_tx_def Let_def fl l1)
    moreover define h0 where "h0 = (ll_tx_hdr ll1)\<lparr>lt_addr := ll_lt_addr ll, btype := (if ll_master ll \<noteq> 0 then BB_TYPE_POLL else BB_TYPE_NULL)\<rparr>"
    ultimately have "h = h0\<lparr>flags := ll_tx_flags ll\<rparr>" "d = []" "cur_tx_msg ll' = None" "cur_tx_msg ll = None" "s' = s1"
        "ll_held ll' = ll_held ll1" "btype h0 = (if ll_master ll \<noteq> 0 then BB_TYPE_POLL else BB_TYPE_NULL)" "lt_addr h0 = ll_lt_addr ll"
        "(rmt_seqn ll', loc_seqn ll', loc_arqn ll', ll_master ll', ll_lt_addr ll') = (rmt_seqn ll, loc_seqn ll, 0, ll_master ll, ll_lt_addr ll)"
      using air None l1 by (simp_all add: air_packet_def ll_held_def h0_def)
    then show ?thesis using dr(1) bits [of h0] b1 by (simp add: tx_post_def)
  next
    case (Some m)
    have "own (m # ext) s1" using dr(1) Some by (simp add: ll_held_def)
    then have m: "m < length (bufs s)" using own_buf b1(1) by metis
    obtain pkt where p: "m_body (bufs s ! m) = Tx_body pkt" and e: "src = Src_msg m" "ll' = ll1\<lparr>loc_arqn := 0\<rparr>"
        "s' = s1\<lparr>bufs := (bufs s1)[m := (bufs s ! m)\<lparr>m_body := Tx_body (pkt\<lparr>tx_hdr := (tx_hdr pkt)\<lparr>flags := ll_tx_flags ll\<rparr>\<rparr>)\<rparr>]\<rparr>"
      using pr dq Some m by (auto simp: ll_prepare_tx_def Let_def fl b1 as_tx_def bnd_Inr_iff split: body.splits if_splits)
    have hd: "h = (tx_hdr pkt)\<lparr>flags := ll_tx_flags ll\<rparr>" "d = tx_data pkt"
      using air m by (simp_all add: e air_packet_def b1 as_tx_def)
    have "own (ll_held ll' @ ext) s'" using dr(1) Some by (simp add: e ll_held_def)
    moreover have "cur_tx_msg ll' = Some m"
      "(rmt_seqn ll', loc_seqn ll', loc_arqn ll', ll_master ll', ll_lt_addr ll') = (rmt_seqn ll, loc_seqn ll, 0, ll_master ll, ll_lt_addr ll)"
      by (simp_all add: e Some l1)
    moreover obtain h0 where pk: "pkt = \<lparr>tx_hdr = h0, tx_data = d\<rparr>" using hd(2) by (cases pkt) simp
    moreover have "m_body (bufs s' ! m) = Tx_body \<lparr>tx_hdr = h, tx_data = d\<rparr>" using m by (simp add: e b1 hd(1) pk)
    moreover have "cur_tx_msg ll = Some m \<or> cur_tx_msg ll = None" using cur Some by auto
    moreover have "h = h0\<lparr>flags := ll_tx_flags ll\<rparr>" using hd(1) pk by simp
    moreover have "(pool s', tx_q s', bt_state s') = (pool s, tx_q s, bt_state s)" by (simp add: e b1)
    ultimately show ?thesis using m p bits [of h0] unfolding tx_post_def
      by (simp only: option.case pk) blast
  qed
qed

text \<open>With well-typed messages in its hands, the link layer always has something to send.\<close>

definition is_acl :: "message \<Rightarrow> bool" where
  "is_acl m \<longleftrightarrow> m_type m = BTCTL_TX_ACL_REQ \<and> (\<exists>p. m_body m = Tx_body p)"

lemma prepare_tx_total:
  assumes o: "own (ll_held ll @ ext) s" and acl: "\<forall>k \<in> set (ll_held ll) \<union> set (mq_list (acl_tx_q s)). is_acl (bufs s ! k)"
  shows "\<exists>src ll' s' h d. ll_prepare_tx ll s = Inr (src, ll', s') \<and> air_packet src ll' s' = Inr (h, d)"
proof -
  have "\<exists>r. ll_tx_dequeue ll s = Inr r"
  proof (cases "cur_tx_msg ll")
    case None
    then have "own ext s" using o by (simp add: ll_held_def)
    then have "\<exists>r. btctl_acl_tx_dequeue s = Inr r"
      using own_acl_tx_dequeue acl_tx_dequeue_nil by (cases "mq_list (acl_tx_q s)") (blast, metis)
    then show ?thesis using None by (auto simp: ll_tx_dequeue_def)
  qed (simp add: ll_tx_dequeue_def)
  then obtain ll1 s1 where dq: "ll_tx_dequeue ll s = Inr (ll1, s1)" by auto
  note dr = ll_tx_dequeue_Inr [OF o dq]
  show ?thesis
  proof (cases "cur_tx_msg ll1")
    case None
    then show ?thesis using dq by (auto simp: ll_prepare_tx_def air_packet_def Let_def)
  next
    case (Some m)
    have "own (m # ext) s1" using dr(1) Some by (simp add: ll_held_def)
    then have m: "m < length (bufs s1)" by (rule own_buf)
    have "bufs s1 = bufs s" using dr(2) by auto
    moreover have "m \<in> set (ll_held ll) \<union> set (mq_list (acl_tx_q s))"
      using dr(4) Some by (auto simp: ll_held_def split: option.splits list.splits)
    ultimately have "is_acl (bufs s1 ! m)" using acl by simp
    then show ?thesis using dq Some m
      by (auto simp: is_acl_def ll_prepare_tx_def air_packet_def as_tx_def Let_def)
  qed
qed

end
