(* ===== verification/Arq.thy ===== *)
theory Arq
  imports LinkLayer
begin

text \<open>
  Two devices that run the link layer of src/btphy/ll.c over a radio channel that loses and damages packets.
  Each device is a link layer with its own firmware state; between two transmissions the rest of a device may
  do anything that leaves the buffer of the message being sent alone.
\<close>

section \<open>The system\<close>

text \<open>
  \<open>taken\<close> is what the link layer has taken from its queue to send, \<open>dlv\<close> what it has handed to the host, as
  packet type and payload.
\<close>

record node =
  nd_ll :: link_layer
  nd_fw :: fw
  taken :: "(u8 \<times> u8 list) list"
  dlv :: "(u8 \<times> u8 list) list"

text \<open>What the channel does to a packet, and what the receiver's radio task then reports.\<close>

datatype fate = Lost | No_header | Bad_crc "u8 list" | Good

definition crc_type :: "bbhdr \<Rightarrow> bool" where
  "crc_type h = has_crc (bbcodec_acl_types ! unat (btype h AND 0xf))"

definition hear :: "fate \<Rightarrow> bbhdr \<Rightarrow> u8 list \<Rightarrow> rx_pkt" where
  "hear ft h d =
     (let r = \<lparr>rx_clkn = 0, rx_chan = 0, rx_flags = 0, rx_size = 0, rx_hdr = h, rx_data = []\<rparr> in
      case ft of
        Lost \<Rightarrow> r
      | No_header \<Rightarrow> r\<lparr>rx_flags := 1\<rparr>
      | Bad_crc g \<Rightarrow> r\<lparr>rx_flags := (if crc_type h then 7 else 3), rx_size := of_nat (length g), rx_data := g\<rparr>
      | Good \<Rightarrow> r\<lparr>rx_flags := (if crc_type h then 15 else 3), rx_size := of_nat (length d), rx_data := d\<rparr>)"

definition transmit :: "node \<Rightarrow> (bbhdr \<times> u8 list \<times> node) res" where
  "transmit n =
     bnd (ll_prepare_tx (nd_ll n) (nd_fw n)) (\<lambda>(src, ll, s).
     bnd (air_packet src ll s) (\<lambda>(h, d).
     Inr (h, d, n\<lparr>nd_ll := ll, nd_fw := s,
       taken := (if cur_tx_msg (nd_ll n) = None \<and> cur_tx_msg ll \<noteq> None then taken n @ [(btype h, d)] else taken n)\<rparr>)))"

text \<open>The radio task allocates the message, fills it in and passes it to the link layer.\<close>

definition receive :: "rx_pkt \<Rightarrow> node \<Rightarrow> node res" where
  "receive pkt n =
     bnd (btctl_msg_alloc BTCTL_RX_PKT (nd_fw n)) (\<lambda>(h, s).
     bnd (rd (bufs s) h) (\<lambda>m.
     bnd (m_put (12 + length (rx_data pkt)) m) (\<lambda>m.
     bnd (wr (bufs s) h (m\<lparr>m_body := Rx_body pkt\<rparr>)) (\<lambda>bs.
     bnd (ll_process_rx (nd_ll n) h (s\<lparr>bufs := bs\<rparr>)) (\<lambda>(rc, ll, s).
     Inr (n\<lparr>nd_ll := ll, nd_fw := s,
       dlv := (if h \<in> set (mq_list (tx_q s)) then dlv n @ [(btype (rx_hdr pkt), rx_data pkt)] else dlv n)\<rparr>))))))"

text \<open>Anything else the device does.\<close>

definition background :: "node \<Rightarrow> node \<Rightarrow> bool" where
  "background n n' \<longleftrightarrow> (\<exists>s'. n' = n\<lparr>nd_fw := s'\<rparr> \<and> own (ll_held (nd_ll n)) s' \<and>
     (\<forall>k \<in> set (ll_held (nd_ll n)). bufs s' ! k = bufs (nd_fw n) ! k))"

definition node_init :: "u8 \<Rightarrow> u8 \<Rightarrow> link_layer \<Rightarrow> fw \<Rightarrow> node" where
  "node_init is_master lta ll s = \<lparr>nd_ll = ll_init ll is_master lta s, nd_fw = s, taken = [], dlv = []\<rparr>"

inductive arq_step :: "node \<times> node \<Rightarrow> node \<times> node \<Rightarrow> bool" where
  a_to_b: "transmit a = Inr (h, d, a') \<Longrightarrow> receive (hear ft h d) b = Inr b' \<Longrightarrow> arq_step (a, b) (a', b')"
| b_to_a: "transmit b = Inr (h, d, b') \<Longrightarrow> receive (hear ft h d) a = Inr a' \<Longrightarrow> arq_step (a, b) (a', b')"
| env_a: "background a a' \<Longrightarrow> arq_step (a, b) (a', b)"
| env_b: "background b b' \<Longrightarrow> arq_step (a, b) (a, b')"

inductive arq_reach :: "node \<times> node \<Rightarrow> bool" where
  init: "own [] s \<Longrightarrow> own [] t \<Longrightarrow> arq_reach (node_init m1 lta1 l1 s, node_init m2 lta2 l2 t)"
| more: "arq_reach ab \<Longrightarrow> arq_step ab ab' \<Longrightarrow> arq_reach ab'"

inductive_cases arq_stepE: "arq_step (a, b) ab'"

section \<open>One transmission, one reception\<close>

definition node_ok :: "node \<Rightarrow> bool" where
  "node_ok n \<longleftrightarrow> own (ll_held (nd_ll n)) (nd_fw n) \<and> ll_inv (nd_ll n)"

text \<open>The packet in the buffer of the current message.\<close>

definition sends :: "node \<Rightarrow> nat \<Rightarrow> u8 \<times> u8 list \<Rightarrow> bool" where
  "sends n m x \<longleftrightarrow> (\<exists>h d. m_body (bufs (nd_fw n) ! m) = Tx_body \<lparr>tx_hdr = h, tx_data = d\<rparr> \<and> x = (btype h, d))"

lemma sends_unique: "sends n m x \<Longrightarrow> sends n m y \<Longrightarrow> x = y"
  by (auto simp: sends_def)

lemma transmit_Inr:
  assumes "node_ok n" and "transmit n = Inr (h, d, n')"
  shows "node_ok n'" and "dlv n' = dlv n"
    and "rmt_seqn (nd_ll n') = rmt_seqn (nd_ll n)" and "loc_seqn (nd_ll n') = loc_seqn (nd_ll n)" and "loc_arqn (nd_ll n') = 0"
    and "ll_master (nd_ll n') = ll_master (nd_ll n)" and "ll_lt_addr (nd_ll n') = ll_lt_addr (nd_ll n)"
    and "has_arqn h \<longleftrightarrow> loc_arqn (nd_ll n) = 1" and "seqn_of h = loc_seqn (nd_ll n)"
    and "(pool (nd_fw n'), tx_q (nd_fw n'), bt_state (nd_fw n')) = (pool (nd_fw n), tx_q (nd_fw n), bt_state (nd_fw n))"
    and "case cur_tx_msg (nd_ll n') of
        None \<Rightarrow> cur_tx_msg (nd_ll n) = None \<and> taken n' = taken n \<and> btype h \<in> {BB_TYPE_POLL, BB_TYPE_NULL}
      | Some m \<Rightarrow> sends n' m (btype h, d) \<and>
          (cur_tx_msg (nd_ll n) = Some m \<and> taken n' = taken n \<and> sends n m (btype h, d) \<or>
           cur_tx_msg (nd_ll n) = None \<and> taken n' = taken n @ [(btype h, d)])"
proof -
  obtain src ll s where pr: "ll_prepare_tx (nd_ll n) (nd_fw n) = Inr (src, ll, s)" and air: "air_packet src ll s = Inr (h, d)"
      and n': "n' = n\<lparr>nd_ll := ll, nd_fw := s,
       taken := (if cur_tx_msg (nd_ll n) = None \<and> cur_tx_msg ll \<noteq> None then taken n @ [(btype h, d)] else taken n)\<rparr>"
    using assms(2) by (auto simp: transmit_def bnd_Inr_iff)
  have o: "own (ll_held (nd_ll n) @ []) (nd_fw n)" and i: "ll_inv (nd_ll n)" using assms(1) by (simp_all add: node_ok_def)
  have po: "tx_post (nd_ll n) [] (nd_fw n) h d ll s" by (rule prepare_tx_post [OF o i pr air])
  then show "node_ok n'" using i by (simp add: tx_post_def n' node_ok_def ll_inv_def)
  show "dlv n' = dlv n" by (simp add: n')
  show "rmt_seqn (nd_ll n') = rmt_seqn (nd_ll n)" "loc_seqn (nd_ll n') = loc_seqn (nd_ll n)" "loc_arqn (nd_ll n') = 0"
    "ll_master (nd_ll n') = ll_master (nd_ll n)" "ll_lt_addr (nd_ll n') = ll_lt_addr (nd_ll n)"
    "has_arqn h \<longleftrightarrow> loc_arqn (nd_ll n) = 1" "seqn_of h = loc_seqn (nd_ll n)"
    "(pool (nd_fw n'), tx_q (nd_fw n'), bt_state (nd_fw n')) = (pool (nd_fw n), tx_q (nd_fw n), bt_state (nd_fw n))"
    using po by (simp_all add: tx_post_def n')
  show "case cur_tx_msg (nd_ll n') of
        None \<Rightarrow> cur_tx_msg (nd_ll n) = None \<and> taken n' = taken n \<and> btype h \<in> {BB_TYPE_POLL, BB_TYPE_NULL}
      | Some m \<Rightarrow> sends n' m (btype h, d) \<and>
          (cur_tx_msg (nd_ll n) = Some m \<and> taken n' = taken n \<and> sends n m (btype h, d) \<or>
           cur_tx_msg (nd_ll n) = None \<and> taken n' = taken n @ [(btype h, d)])"
  proof (cases "cur_tx_msg ll")
    case None
    then show ?thesis using po by (simp add: tx_post_def n' split: if_splits)
  next
    case (Some m)
    then obtain h0 where m: "m_body (bufs (nd_fw n) ! m) = Tx_body \<lparr>tx_hdr = h0, tx_data = d\<rparr>" "h = h0\<lparr>flags := ll_tx_flags (nd_ll n)\<rparr>"
        "m_body (bufs s ! m) = Tx_body \<lparr>tx_hdr = h, tx_data = d\<rparr>" "cur_tx_msg (nd_ll n) = Some m \<or> cur_tx_msg (nd_ll n) = None"
      using po by (auto simp: tx_post_def)
    moreover have "sends n m (btype h, d)" "sends n' m (btype h, d)" using m by (simp_all add: sends_def n')
    ultimately show ?thesis using Some by (auto simp: n')
  qed
qed

lemma receive_Inr:
  assumes "node_ok n" and "receive pkt n = Inr n'"
  shows "node_ok n'" and "ll_after_rx (nd_ll n) pkt (nd_ll n')" and "taken n' = taken n"
    and "dlv n' = dlv n @ (if is_new (nd_ll n) pkt then [(btype (rx_hdr pkt), rx_data pkt)] else [])"
    and "cur_tx_msg (nd_ll n') = Some m \<Longrightarrow> cur_tx_msg (nd_ll n) = Some m \<and> bufs (nd_fw n') ! m = bufs (nd_fw n) ! m"
    and "acl_tx_q (nd_fw n') = acl_tx_q (nd_fw n)"
    and "\<forall>k \<in> set (mq_list (acl_tx_q (nd_fw n))). bufs (nd_fw n') ! k = bufs (nd_fw n) ! k"
proof -
  let ?ll = "nd_ll n" and ?s = "nd_fw n"
  have o: "own (ll_held ?ll) ?s" and inv: "ll_inv ?ll" using assms(1) by (simp_all add: node_ok_def)
  have "free_list (pool ?s) \<noteq> []" using assms(2) alloc_nil [OF o] by (auto simp: receive_def)
  then obtain h hs where f: "free_list (pool ?s) = h # hs" by (cases "free_list (pool ?s)") auto
  obtain p where al: "btctl_msg_alloc BTCTL_RX_PKT ?s = Inr (h, ?s\<lparr>pool := p, bufs := (bufs ?s)[h := fresh BTCTL_RX_PKT]\<rparr>)"
      and oh: "own (h # ll_held ?ll) (?s\<lparr>pool := p, bufs := (bufs ?s)[h := fresh BTCTL_RX_PKT]\<rparr>)"
    using own_alloc [OF o f] by blast
  have h: "h < length (bufs ?s)" using own_buf [OF oh] by simp
  obtain len where len: "m_put (12 + length (rx_data pkt)) (fresh BTCTL_RX_PKT) = Inr ((fresh BTCTL_RX_PKT)\<lparr>m_len := len\<rparr>)"
    using assms(2) al h by (auto simp: receive_def m_put_def split: if_splits)
  define s1 where "s1 = ?s\<lparr>pool := p, bufs := (bufs ?s)[h := (fresh BTCTL_RX_PKT)\<lparr>m_len := len, m_body := Rx_body pkt\<rparr>]\<rparr>"
  have o1: "own (h # ll_held ?ll @ []) s1" using oh by (simp add: s1_def own_def owned_def fw_wf_def)
  obtain rc ll s where pr: "ll_process_rx ?ll h s1 = Inr (rc, ll, s)"
      and n': "n' = n\<lparr>nd_ll := ll, nd_fw := s, dlv := (if h \<in> set (mq_list (tx_q s)) then dlv n @ [(btype (rx_hdr pkt), rx_data pkt)] else dlv n)\<rparr>"
    using assms(2) h len by (auto simp: receive_def al s1_def bnd_Inr_iff)
  have "m_body (bufs s1 ! h) = Rx_body pkt" using h by (simp add: s1_def)
  from process_rx_post [OF o1 pr this] have po: "rx_post ?ll [] pkt h s1 rc ll s" .
  then have af: "ll_after_rx ?ll pkt ll" by (simp add: rx_post_def)
  then show "node_ok n'" using po after_rx_inv [OF inv af] by (simp add: rx_post_def n' node_ok_def)
  show "ll_after_rx (nd_ll n) pkt (nd_ll n')" using af by (simp add: n')
  show "taken n' = taken n" by (simp add: n')
  show "dlv n' = dlv n @ (if is_new (nd_ll n) pkt then [(btype (rx_hdr pkt), rx_data pkt)] else [])"
    using po by (simp add: rx_post_def n')
  show "acl_tx_q (nd_fw n') = acl_tx_q (nd_fw n)" using po by (simp add: rx_post_def untouched_def n' s1_def)
  have keep: "bufs (nd_fw n') ! k = bufs ?s ! k" if "k \<in> in_use (ll_held ?ll) ?s" for k
  proof -
    have "k \<noteq> h" using free_not_in_use [OF o f] that by blast
    moreover have "k \<in> in_use (ll_held ?ll @ []) s1" using that by (simp add: in_use_def s1_def)
    then have "bufs s ! k = bufs s1 ! k" using po by (simp add: rx_post_def untouched_def)
    ultimately show ?thesis by (simp add: n' s1_def)
  qed
  then show "\<forall>k \<in> set (mq_list (acl_tx_q ?s)). bufs (nd_fw n') ! k = bufs ?s ! k" by (simp add: in_use_def)
  show "cur_tx_msg (nd_ll n') = Some m \<Longrightarrow> cur_tx_msg (nd_ll n) = Some m \<and> bufs (nd_fw n') ! m = bufs (nd_fw n) ! m"
  proof -
    assume c: "cur_tx_msg (nd_ll n') = Some m"
    then have m: "cur_tx_msg ?ll = Some m" using af by (simp add: ll_after_rx_def n' split: if_splits)
    then have u: "m \<in> in_use (ll_held ?ll) ?s" by (simp add: in_use_def ll_held_def)
    then show ?thesis using keep m by blast
  qed
qed

lemma hear_flags:
  "rx_hdr (hear ft h d) = h"
  "BBPKT_HAS_HDR (hear ft h d) \<longleftrightarrow> (case ft of Bad_crc g \<Rightarrow> True | Good \<Rightarrow> True | _ \<Rightarrow> False)"
  "BBPKT_HAS_CRC (hear ft h d) \<longleftrightarrow> crc_type h \<and> (case ft of Bad_crc g \<Rightarrow> True | Good \<Rightarrow> True | _ \<Rightarrow> False)"
  "BBPKT_GOOD_CRC (hear ft h d) \<longleftrightarrow> crc_type h \<and> ft = Good"
  "ft = Good \<Longrightarrow> rx_data (hear ft h d) = d"
  by (auto simp: hear_def Let_def BBPKT_HAS_HDR_def BBPKT_HAS_CRC_def BBPKT_GOOD_CRC_def split: fate.split)

lemma no_crc: "btype h \<in> {BB_TYPE_POLL, BB_TYPE_NULL} \<Longrightarrow> \<not> crc_type h"
  by (auto simp: crc_type_def bbcodec_acl_types_def bbtype_def)

section \<open>The invariant of one direction\<close>

text \<open>
  \<open>x\<close> sends to \<open>y\<close>.  A message under way has either not arrived (the sequence bits agree, it is not yet
  acknowledged and not delivered) or has arrived (the bits differ and it is delivered).
\<close>

definition link_ok :: "node \<Rightarrow> node \<Rightarrow> bool" where
  "link_ok x y \<longleftrightarrow>
     (case cur_tx_msg (nd_ll x) of
        None \<Rightarrow> rmt_seqn (nd_ll y) = loc_seqn (nd_ll x) \<and> loc_arqn (nd_ll y) = 0 \<and> taken x = dlv y
      | Some m \<Rightarrow> \<exists>d. sends x m d \<and>
          (if rmt_seqn (nd_ll y) = loc_seqn (nd_ll x) then loc_arqn (nd_ll y) = 0 \<and> taken x = dlv y @ [d] else taken x = dlv y))"

lemma link_okI:
  assumes "cur_tx_msg (nd_ll x) = Some m" and "sends x m d"
    and "if rmt_seqn (nd_ll y) = loc_seqn (nd_ll x) then loc_arqn (nd_ll y) = 0 \<and> taken x = dlv y @ [d] else taken x = dlv y"
  shows "link_ok x y"
  unfolding link_ok_def assms(1) option.case using assms(2,3) by blast

lemma link_ok_Some:
  assumes "link_ok x y" and "cur_tx_msg (nd_ll x) = Some m"
  obtains d where "sends x m d"
    and "if rmt_seqn (nd_ll y) = loc_seqn (nd_ll x) then loc_arqn (nd_ll y) = 0 \<and> taken x = dlv y @ [d] else taken x = dlv y"
  using assms(1) unfolding link_ok_def assms(2) option.case by blast

lemma data_step:
  assumes x: "node_ok x" and y: "node_ok y" and l: "link_ok x y"
    and tr: "transmit x = Inr (h, d, x')" and rc: "receive (hear ft h d) y = Inr y'"
  shows "link_ok x' y'"
proof -
  let ?p = "hear ft h d"
  note t = transmit_Inr [OF x tr] and r = receive_Inr(1-4) [OF y rc]
  have af: "rmt_seqn (nd_ll y') = (if is_new (nd_ll y) ?p then rmt_seqn (nd_ll y) XOR 1 else rmt_seqn (nd_ll y))"
      "loc_arqn (nd_ll y') = (if is_new (nd_ll y) ?p \<or> is_repeat (nd_ll y) ?p then 1 else loc_arqn (nd_ll y))"
    using r(2) by (simp_all only: ll_after_rx_def)
  show ?thesis
  proof (cases "cur_tx_msg (nd_ll x')")
    case None
    then have "\<not> is_new (nd_ll y) ?p" "\<not> is_repeat (nd_ll y) ?p" "cur_tx_msg (nd_ll x) = None" "taken x' = taken x"
      using t(11) no_crc by (auto simp: is_new_def is_repeat_def hear_flags)
    then show ?thesis using None l t(4) r(4) by (simp add: link_ok_def af)
  next
    case (Some m)
    have s: "sends x' m (btype h, d)" and old: "cur_tx_msg (nd_ll x) = Some m \<and> taken x' = taken x \<and> sends x m (btype h, d) \<or>
           cur_tx_msg (nd_ll x) = None \<and> taken x' = taken x @ [(btype h, d)]"
      using t(11) Some by simp_all
    have st: "if rmt_seqn (nd_ll y) = loc_seqn (nd_ll x) then loc_arqn (nd_ll y) = 0 \<and> taken x' = dlv y @ [(btype h, d)] else taken x' = dlv y"
      using old l sends_unique [of x m] by (auto simp: link_ok_def split: if_splits)
    have nf: "rmt_seqn (nd_ll y) XOR 1 \<noteq> rmt_seqn (nd_ll y)" using y flip_bit(2) by (simp add: node_ok_def ll_inv_def)
    show ?thesis
    proof (cases "is_new (nd_ll y) ?p")
      case True
      then have "ft = Good" "rmt_seqn (nd_ll y) = loc_seqn (nd_ll x)" using t(9) by (auto simp: is_new_def hear_flags)
      then show ?thesis using True st nf t(4) by (intro link_okI [OF Some s]) (simp add: af r(4) hear_flags)
    next
      case False
      have "rmt_seqn (nd_ll y) = loc_seqn (nd_ll x) \<Longrightarrow> \<not> is_repeat (nd_ll y) ?p" using t(9) by (simp add: is_repeat_def hear_flags)
      then show ?thesis using False st t(4) by (intro link_okI [OF Some s]) (auto simp: af r(4))
    qed
  qed
qed

lemma ack_step:
  assumes x: "node_ok x" and y: "node_ok y" and l: "link_ok y x"
    and tr: "transmit x = Inr (h, d, x')" and rc: "receive (hear ft h d) y = Inr y'"
  shows "link_ok y' x'"
proof -
  let ?p = "hear ft h d"
  note t = transmit_Inr(1-9) [OF x tr] and r = receive_Inr [OF y rc]
  have af: "cur_tx_msg (nd_ll y') = (if is_acked (nd_ll y) ?p then None else cur_tx_msg (nd_ll y))"
      "loc_seqn (nd_ll y') = (if is_acked (nd_ll y) ?p then loc_seqn (nd_ll y) XOR 1 else loc_seqn (nd_ll y))"
    using r(2) by (simp_all only: ll_after_rx_def)
  show ?thesis
  proof (cases "is_acked (nd_ll y) ?p")
    case True
    then obtain m where "cur_tx_msg (nd_ll y) = Some m" "loc_arqn (nd_ll x) = 1" using t(8) by (auto simp: is_acked_def hear_flags)
    then have "rmt_seqn (nd_ll x) \<noteq> loc_seqn (nd_ll y)" "taken y = dlv x" using l by (auto simp: link_ok_def split: if_splits)
    moreover have "rmt_seqn (nd_ll x) = loc_seqn (nd_ll y) XOR 1"
      using x y calculation(1) by (auto simp: node_ok_def ll_inv_def)
    ultimately show ?thesis using True t r(3) by (simp add: link_ok_def af)
  next
    case False
    then have c: "cur_tx_msg (nd_ll y') = cur_tx_msg (nd_ll y)" "loc_seqn (nd_ll y') = loc_seqn (nd_ll y)" by (simp_all add: af)
    show ?thesis
    proof (cases "cur_tx_msg (nd_ll y)")
      case None
      then show ?thesis using l c t r(3) by (simp add: link_ok_def)
    next
      case (Some m)
      have "bufs (nd_fw y') ! m = bufs (nd_fw y) ! m" using r(5) c(1) Some by simp
      then have e: "\<And>d. sends y' m d = sends y m d" by (simp only: sends_def)
      obtain d0 where d0: "sends y m d0" and i: "if rmt_seqn (nd_ll x) = loc_seqn (nd_ll y)
          then loc_arqn (nd_ll x) = 0 \<and> taken y = dlv x @ [d0] else taken y = dlv x"
        using link_ok_Some [OF l Some] .
      show ?thesis
      proof (rule link_okI [of _ m d0])
        show "cur_tx_msg (nd_ll y') = Some m" using c(1) Some by simp
        show "sends y' m d0" using d0 e by simp
        show "if rmt_seqn (nd_ll x') = loc_seqn (nd_ll y') then loc_arqn (nd_ll x') = 0 \<and> taken y' = dlv x' @ [d0] else taken y' = dlv x'"
          using i c(2) t(2,3,5) r(3) by simp
      qed
    qed
  qed
qed

lemma background_ok:
  assumes "node_ok x" and "background x x'"
  shows "node_ok x'" and "link_ok x y \<Longrightarrow> link_ok x' y" and "link_ok y x \<Longrightarrow> link_ok y x'"
proof -
  obtain s' where x': "x' = x\<lparr>nd_fw := s'\<rparr>" and o: "own (ll_held (nd_ll x)) s'"
      and b: "\<forall>k \<in> set (ll_held (nd_ll x)). bufs s' ! k = bufs (nd_fw x) ! k"
    using assms(2) by (auto simp: background_def)
  then show "node_ok x'" using assms(1) by (simp add: node_ok_def)
  have same: "nd_ll x' = nd_ll x" "taken x' = taken x" "dlv x' = dlv x" by (simp_all add: x')
  show "link_ok y x \<Longrightarrow> link_ok y x'" unfolding link_ok_def same .
  show "link_ok x y \<Longrightarrow> link_ok x' y"
  proof (cases "cur_tx_msg (nd_ll x)")
    case (Some m)
    then have "bufs s' ! m = bufs (nd_fw x) ! m" using b by (simp add: ll_held_def)
    then have "sends x' m d = sends x m d" for d by (simp add: sends_def x')
    then show "link_ok x y \<Longrightarrow> link_ok x' y" unfolding link_ok_def same Some by simp
  qed (simp add: link_ok_def same)
qed

definition arq_inv :: "node \<times> node \<Rightarrow> bool" where
  "arq_inv ab \<longleftrightarrow> (let (a, b) = ab in node_ok a \<and> node_ok b \<and> link_ok a b \<and> link_ok b a)"

lemma arq_reach_inv: "arq_reach ab \<Longrightarrow> arq_inv ab"
proof (induction rule: arq_reach.induct)
  case (init s t m1 lta1 l1 m2 lta2 l2)
  then show ?case
    by (simp add: arq_inv_def node_ok_def link_ok_def node_init_def ll_init_inv) (simp add: ll_init_def)
next
  case (more ab ab')
  obtain a b where ab: "ab = (a, b)" by (cases ab)
  have i: "node_ok a" "node_ok b" "link_ok a b" "link_ok b a" using more.IH by (simp_all add: ab arq_inv_def)
  from more(2) [unfolded ab] show ?case
  proof (rule arq_stepE)
    fix h d a' ft b' assume e: "ab' = (a', b')" and s: "transmit a = Inr (h, d, a')" "receive (hear ft h d) b = Inr b'"
    show ?thesis using transmit_Inr(1) [OF i(1) s(1)] receive_Inr(1) [OF i(2) s(2)] data_step [OF i(1,2,3) s] ack_step [OF i(1,2,4) s]
      by (simp add: e arq_inv_def)
  next
    fix h d b' ft a' assume e: "ab' = (a', b')" and s: "transmit b = Inr (h, d, b')" "receive (hear ft h d) a = Inr a'"
    show ?thesis using transmit_Inr(1) [OF i(2) s(1)] receive_Inr(1) [OF i(1) s(2)] data_step [OF i(2,1,4) s] ack_step [OF i(2,1,3) s]
      by (simp add: e arq_inv_def)
  next
    fix a' assume "ab' = (a', b)" "background a a'"
    then show ?thesis using background_ok [OF i(1), of a'] i by (simp add: arq_inv_def)
  next
    fix b' assume "ab' = (a, b')" "background b b'"
    then show ?thesis using background_ok [OF i(2), of b'] i by (simp add: arq_inv_def)
  qed
qed

section \<open>Delivery\<close>

text \<open>
  C1: Over a channel that may lose packets, miss headers and damage payloads, and whatever else the two
  devices do, each device hands to its host what the other link layer has taken from its queue, in order,
  each message once; at most the message under way is missing.
\<close>

theorem arq_exactly_once:
  assumes "arq_reach (a, b)"
  shows "(\<exists>rest. taken a = dlv b @ rest \<and> length rest \<le> 1) \<and> (\<exists>rest. taken b = dlv a @ rest \<and> length rest \<le> 1)"
proof -
  have "\<exists>rest. taken x = dlv y @ rest \<and> length rest \<le> 1" if "link_ok x y" for x y
  proof (cases "cur_tx_msg (nd_ll x)")
    case None
    then show ?thesis using that by (simp add: link_ok_def)
  next
    case (Some m)
    from link_ok_Some [OF that Some] obtain d where "taken x = dlv y @ [d] \<or> taken x = dlv y @ []" by (metis append_Nil2)
    then show ?thesis by (elim disjE) (intro exI, erule conjI, simp)+
  qed
  then show ?thesis using arq_reach_inv [OF assms] by (simp add: arq_inv_def)
qed

text \<open>A device with only packets to send; one with two free buffers, room in the host queue and a state that may connect.\<close>

definition well_typed :: "node \<Rightarrow> bool" where
  "well_typed n \<longleftrightarrow> (\<forall>k \<in> set (ll_held (nd_ll n)) \<union> set (mq_list (acl_tx_q (nd_fw n))). is_acl (bufs (nd_fw n) ! k))"

definition roomy :: "node \<Rightarrow> bool" where
  "roomy n \<longleftrightarrow> length (free_list (pool (nd_fw n))) \<ge> 2 \<and> length (mq_list (tx_q (nd_fw n))) \<le> 5 \<and> can_connect (nd_fw n)"

lemma transmit_total: "node_ok n \<Longrightarrow> well_typed n \<Longrightarrow> \<exists>h d n'. transmit n = Inr (h, d, n')"
  using prepare_tx_total [of "nd_ll n" "[]" "nd_fw n"] by (auto simp: node_ok_def well_typed_def transmit_def)

lemma receive_total:
  assumes "node_ok n" and "roomy n" and "length (rx_data pkt) \<le> 344"
  shows "\<exists>n'. receive pkt n = Inr n'"
proof -
  let ?ll = "nd_ll n" and ?s = "nd_fw n"
  have o: "own (ll_held ?ll) ?s" using assms(1) by (simp add: node_ok_def)
  have room: "2 \<le> length (free_list (pool ?s))" "length (mq_list (tx_q ?s)) \<le> 5" "can_connect ?s"
    using assms(2) by (simp_all add: roomy_def)
  then obtain h hs where f: "free_list (pool ?s) = h # hs" "hs \<noteq> []" by (cases "free_list (pool ?s)") (auto simp: Suc_le_length_iff)
  obtain p where al: "btctl_msg_alloc BTCTL_RX_PKT ?s = Inr (h, ?s\<lparr>pool := p, bufs := (bufs ?s)[h := fresh BTCTL_RX_PKT]\<rparr>)"
      and p: "free_list p = hs"
      and oh: "own (h # ll_held ?ll) (?s\<lparr>pool := p, bufs := (bufs ?s)[h := fresh BTCTL_RX_PKT]\<rparr>)"
    using own_alloc [OF o f(1)] by blast
  have h: "h < length (bufs ?s)" using own_buf [OF oh] by simp
  define s1 where "s1 = ?s\<lparr>pool := p, bufs := (bufs ?s)[h := (fresh BTCTL_RX_PKT)\<lparr>m_len := 16 + length (rx_data pkt), m_body := Rx_body pkt\<rparr>]\<rparr>"
  have o1: "own (h # ll_held ?ll @ []) s1" using oh by (simp add: s1_def own_def owned_def fw_wf_def)
  have "\<exists>r. ll_process_rx ?ll h s1 = Inr r"
    by (rule process_rx_total [OF o1]) (use h p f(2) room in \<open>simp_all add: s1_def fresh_def can_connect_def\<close>)
  then obtain r where "ll_process_rx ?ll h s1 = Inr r" ..
  then show ?thesis using h assms(3)
    by (cases r) (simp add: receive_def al m_put_def fresh_def s1_def add.assoc)
qed

text \<open>
  C2: In every reachable state, when a device transmits a packet with a CRC for the other one and that packet
  and the answer arrive, then all that was taken to be sent has been delivered, and the acknowledged message is
  released; neither device stops on the way.
\<close>

theorem arq_progress:
  assumes "arq_reach (a, b)" and "roomy a" and "roomy b" and "well_typed b"
    and "transmit a = Inr (h, d, a1)" and "crc_type h" and "length d \<le> 344"
    and "ll_master (nd_ll b) = 0 \<longrightarrow> lt_addr h = ll_lt_addr (nd_ll b)"
  shows "\<exists>b1 h2 d2 b2. receive (hear Good h d) b = Inr b1 \<and> transmit b1 = Inr (h2, d2, b2) \<and> dlv b2 = taken a1 \<and>
    (length d2 \<le> 344 \<and> (ll_master (nd_ll a) = 0 \<longrightarrow> lt_addr h2 = ll_lt_addr (nd_ll a)) \<longrightarrow>
     (\<exists>a2. receive (hear Good h2 d2) a1 = Inr a2 \<and> cur_tx_msg (nd_ll a2) = None \<and> taken a2 = dlv b2))"
proof -
  have i: "node_ok a" "node_ok b" "link_ok a b" using arq_reach_inv [OF assms(1)] by (simp_all add: arq_inv_def)
  note ta = transmit_Inr [OF i(1) assms(5)]
  obtain m where m: "cur_tx_msg (nd_ll a1) = Some m" using ta(11) no_crc assms(6) by (cases "cur_tx_msg (nd_ll a1)") auto
  obtain b1 where b1: "receive (hear Good h d) b = Inr b1"
    using receive_total [OF i(2) assms(3), of "hear Good h d"] assms(7) by (auto simp: hear_flags)
  note rb = receive_Inr [OF i(2) b1]
  have "for_us (nd_ll b) (hear Good h d)" using assms(8) by (simp add: for_us_def hear_flags)
  then have arqn: "loc_arqn (nd_ll b1) = 1"
    using rb(2) assms(6) by (auto simp: ll_after_rx_def is_new_def is_repeat_def hear_flags)
  have "link_ok a1 b1" by (rule data_step [OF i assms(5) b1])
  then have deliv: "taken a1 = dlv b1" using link_ok_Some [OF _ m] arqn by (metis zero_neq_one)
  have "is_acl (bufs (nd_fw b1) ! k)" if "k \<in> set (ll_held (nd_ll b1)) \<union> set (mq_list (acl_tx_q (nd_fw b1)))" for k
  proof (cases "k \<in> set (mq_list (acl_tx_q (nd_fw b)))")
    case True
    then show ?thesis using assms(4) rb(7) by (simp add: well_typed_def)
  next
    case False
    then have "cur_tx_msg (nd_ll b1) = Some k" using that rb(6) by (auto simp: ll_held_def split: option.splits)
    then show ?thesis using rb(5) [of k] assms(4) by (simp add: well_typed_def ll_held_def)
  qed
  then have "well_typed b1" by (simp add: well_typed_def)
  then obtain h2 d2 b2 where b2: "transmit b1 = Inr (h2, d2, b2)" using transmit_total rb(1) by blast
  note tb = transmit_Inr [OF rb(1) b2]
  have "\<exists>a2. receive (hear Good h2 d2) a1 = Inr a2 \<and> cur_tx_msg (nd_ll a2) = None \<and> taken a2 = dlv b2"
    if len: "length d2 \<le> 344" and ad: "ll_master (nd_ll a) = 0 \<longrightarrow> lt_addr h2 = ll_lt_addr (nd_ll a)"
  proof -
    have "roomy a1" using assms(2) ta(10) by (simp add: roomy_def can_connect_def)
    then obtain a2 where a2: "receive (hear Good h2 d2) a1 = Inr a2"
      using receive_total [OF ta(1), of "hear Good h2 d2"] len by (auto simp: hear_flags)
    note ra = receive_Inr [OF ta(1) a2]
    have "is_acked (nd_ll a1) (hear Good h2 d2)"
      using ad m tb(8) arqn ta(6,7) by (simp add: is_acked_def for_us_def hear_flags)
    then show ?thesis using a2 ra(2,3) deliv tb(2) by (simp add: ll_after_rx_def)
  qed
  then show ?thesis using b1 b2 deliv tb(2) by metis
qed

section \<open>A concrete run\<close>

definition demo_msg :: message where
  "demo_msg = \<lparr>m_type = BTCTL_TX_ACL_REQ, m_len = 11,
     m_body = Tx_body \<lparr>tx_hdr = \<lparr>lt_addr = 1, btype = 3, flags = 0, hec = 0\<rparr>, tx_data = [0x10, 7, 9]\<rparr>\<rparr>"

definition ll_zero :: link_layer where
  "ll_zero = \<lparr>ll_connected = 0, ll_master = 0, clkn_start = 0, clkn_last_rx = 0, rx_count = 0, ll_lt_addr = 0, rmt_seqn = 0,
     loc_seqn = 0, loc_arqn = 0, ll_tx_hdr = \<lparr>lt_addr = 0, btype = 0, flags = 0, hec = 0\<rparr>, cur_tx_msg = None\<rparr>"

definition demo_a :: node where
  "demo_a = node_init 1 1 ll_zero (fw_acl BTCTL_STATE_PAGE demo_msg)"

definition demo_b :: node where
  "demo_b = node_init 0 1 ll_zero (fw_acl BTCTL_STATE_PAGE_SCAN demo_msg)"

lemma demo_reach: "arq_reach (demo_a, demo_b)"
  unfolding demo_a_def demo_b_def by (rule arq_reach.init) (rule fw_acl_own)+

lemma demo_transmit: "\<exists>a1. transmit demo_a = Inr (\<lparr>lt_addr = 1, btype = 3, flags = 5, hec = 0\<rparr>, [0x10, 7, 9], a1) \<and> taken a1 = [(3, [0x10, 7, 9])]"
  by (simp add: transmit_def demo_a_def node_init_def ll_prepare_tx_def ll_tx_dequeue_def ll_init_def ll_zero_def fw_acl_def
      btctl_acl_tx_dequeue_def msg_dequeue_def msg_queue_empty_def demo_msg_def as_tx_def ll_tx_flags_def air_packet_def)

lemma demo_ready: "roomy demo_a" "roomy demo_b" "well_typed demo_b"
proof -
  show "roomy demo_a" "roomy demo_b"
    by (simp_all add: roomy_def demo_a_def demo_b_def node_init_def fw_acl_free)
      (simp_all add: fw_acl_def can_connect_def queue_zero)
  show "well_typed demo_b"
    by (simp add: well_typed_def demo_b_def node_init_def ll_init_inv fw_acl_queue)
      (simp add: fw_acl_def is_acl_def demo_msg_def)
qed

theorem arq_progress_witness:
  "\<exists>h d a1 b1 h2 d2 b2. transmit demo_a = Inr (h, d, a1) \<and> receive (hear Good h d) demo_b = Inr b1 \<and>
     transmit b1 = Inr (h2, d2, b2) \<and> dlv b2 = [(3, [0x10, 7, 9])]"
proof -
  obtain a1 where t: "transmit demo_a = Inr (\<lparr>lt_addr = 1, btype = 3, flags = 5, hec = 0\<rparr>, [0x10, 7, 9], a1)" "taken a1 = [(3, [0x10, 7, 9])]"
    using demo_transmit by blast
  have c: "crc_type \<lparr>lt_addr = 1, btype = 3, flags = 5, hec = 0\<rparr>" by (simp add: crc_type_def bbcodec_acl_types_def bbtype_def)
  from arq_progress [OF demo_reach demo_ready t(1) c] show ?thesis using t
    by (auto simp: demo_b_def node_init_def ll_init_def)
qed

theorem arq_exactly_once_witness:
  "\<exists>a b. arq_reach (a, b) \<and> taken a = [(3, [0x10, 7, 9])] \<and> (\<exists>rest. taken a = dlv b @ rest \<and> length rest \<le> 1)"
proof -
  obtain a1 where t: "transmit demo_a = Inr (\<lparr>lt_addr = 1, btype = 3, flags = 5, hec = 0\<rparr>, [0x10, 7, 9], a1)" "taken a1 = [(3, [0x10, 7, 9])]"
    using demo_transmit by blast
  have "node_ok demo_b" using arq_reach_inv [OF demo_reach] by (simp add: arq_inv_def)
  then obtain b1 where "receive (hear Lost \<lparr>lt_addr = 1, btype = 3, flags = 5, hec = 0\<rparr> [0x10, 7, 9]) demo_b = Inr b1"
    using receive_total [OF _ demo_ready(2), of "hear Lost \<lparr>lt_addr = 1, btype = 3, flags = 5, hec = 0\<rparr> [0x10, 7, 9]"]
    by (auto simp: hear_def)
  then have "arq_reach (a1, b1)" by (intro arq_reach.more [OF demo_reach] arq_step.a_to_b [OF t(1)])
  with arq_exactly_once [OF this] t(2) show ?thesis by blast
qed

end
