(* ===== verification/Msg.thy ===== *)
theory Msg
  imports Prelude
begin

text \<open>
  The message buffers of include/ubtbr/msg.h: a byte array with a write position behind the bytes put
  so far and a read position behind the bytes pulled so far.
\<close>

section \<open>The code\<close>

text \<open>The pointers \<open>read\<close> and \<open>write\<close> are offsets from \<open>data\<close>.\<close>

record msg =
  data_len :: u16
  msg_read :: int
  msg_write :: int
  msg_data :: "u8 list"

text \<open>The conversion of an \<open>unsigned\<close> argument to \<open>int\<close>.\<close>

definition to_int :: "u32 \<Rightarrow> int" where
  "to_int n = sint n"

definition msg_alloc :: "u32 \<Rightarrow> u8 list \<Rightarrow> msg" where
  "msg_alloc n buf = \<lparr>data_len = ucast n, msg_read = 0, msg_write = 0, msg_data = buf\<rparr>"

definition msg_write_len :: "msg \<Rightarrow> int" where
  "msg_write_len msg = msg_write msg"

definition msg_read_avail :: "msg \<Rightarrow> int" where
  "msg_read_avail msg = msg_write msg - msg_read msg"

definition msg_write_avail :: "msg \<Rightarrow> int" where
  "msg_write_avail msg = uint (data_len msg) - msg_write_len msg"

definition msg_set_write :: "msg \<Rightarrow> int \<Rightarrow> int \<times> msg" where
  "msg_set_write msg pos =
     (if pos < 0 \<or> pos > uint (data_len msg) then (-1, msg) else (0, msg\<lparr>msg_write := pos\<rparr>))"

definition msg_put :: "msg \<Rightarrow> u32 \<Rightarrow> (int \<times> msg) res" where
  "msg_put msg len =
     (let tmp = msg_write msg in
      if msg_write_avail msg < to_int len then Inl Die
      else Inr (tmp, msg\<lparr>msg_write := msg_write msg + uint len\<rparr>))"

definition msg_pull :: "msg \<Rightarrow> u32 \<Rightarrow> (int \<times> msg) res" where
  "msg_pull msg len =
     (let pos = msg_read msg in
      if msg_read_avail msg < to_int len then Inl Die
      else Inr (pos, msg\<lparr>msg_read := msg_read msg + uint len\<rparr>))"

section \<open>The byte stream\<close>

definition msg_inv :: "msg \<Rightarrow> bool" where
  "msg_inv msg \<longleftrightarrow> 0 \<le> msg_read msg \<and> msg_read msg \<le> msg_write msg \<and>
     msg_write msg \<le> uint (data_len msg) \<and> uint (data_len msg) \<le> int (length (msg_data msg))"

definition msg_bytes :: "msg \<Rightarrow> u8 list" where
  "msg_bytes msg = drop (nat (msg_read msg)) (take (nat (msg_write msg)) (msg_data msg))"

text \<open>The caller's stores through the pointer that \<open>msg_put\<close> returned, and the loads after \<open>msg_pull\<close>.\<close>

definition msg_fill :: "nat \<Rightarrow> u8 list \<Rightarrow> msg \<Rightarrow> msg" where
  "msg_fill pos bs msg = msg\<lparr>msg_data := take pos (msg_data msg) @ bs @ drop (pos + length bs) (msg_data msg)\<rparr>"

definition msg_view :: "nat \<Rightarrow> nat \<Rightarrow> msg \<Rightarrow> u8 list" where
  "msg_view pos n msg = take n (drop pos (msg_data msg))"

lemma uint_unat: "uint len = int (unat len)"
  by simp

lemma to_int_small: "unat len < 2 ^ 31 \<Longrightarrow> to_int len = int (unat len)"
proof -
  assume "unat len < 2 ^ 31"
  then have "int (unat len) < int (2 ^ 31)" by (simp only: of_nat_less_iff)
  then have lt: "int (unat len) < 2 ^ 31" by simp
  have "- (2 ^ 31) \<le> int (unat len)" by (rule order_trans [of _ 0]) simp_all
  from signed_take_bit_int_eq_self [OF this lt] show ?thesis
    by (simp add: to_int_def sint_uint)
qed

lemma msg_put_cases:
  assumes "msg_inv msg" and "unat len < 2 ^ 31"
  shows "if msg_write_avail msg < int (unat len) then msg_put msg len = Inl Die
    else \<exists>msg'. msg_put msg len = Inr (msg_write msg, msg') \<and> msg_inv msg' \<and>
      msg_write msg' = msg_write msg + int (unat len) \<and> msg_read msg' = msg_read msg \<and>
      msg_data msg' = msg_data msg \<and> data_len msg' = data_len msg"
proof -
  have "0 \<le> int (unat len)" by (rule of_nat_0_le_iff)
  then show ?thesis
    using assms(1) to_int_small [OF assms(2)] unfolding msg_put_def msg_inv_def uint_unat [of len]
    by (auto simp: msg_write_avail_def msg_write_len_def Let_def intro: add_increasing2)
qed

lemma drop_take_append:
  assumes "r \<le> w" and "w + length bs \<le> length xs"
  shows "drop r (take (w + length bs) (take w xs @ bs @ drop (w + length bs) xs)) = drop r (take w xs) @ bs"
  using assms by simp

lemma take_drop_take: "n \<le> w - r \<Longrightarrow> r \<le> w \<Longrightarrow> take n (drop r xs) = take n (drop r (take w xs))"
  by (simp add: take_drop min_def)

lemma msg_put_appends:
  assumes "msg_inv msg" and "length bs < 2 ^ 31" and "msg_put msg (of_nat (length bs)) = Inr (pos, msg')"
  shows "msg_inv (msg_fill (nat pos) bs msg') \<and> msg_bytes (msg_fill (nat pos) bs msg') = msg_bytes msg @ bs"
proof -
  have u: "unat (of_nat (length bs) :: u32) = length bs" using assms(2) by (simp add: unat_of_nat)
  have c: "\<not> msg_write_avail msg < int (length bs)" "pos = msg_write msg" "msg_write msg' = msg_write msg + int (length bs)"
      "msg_read msg' = msg_read msg" "msg_data msg' = msg_data msg" "data_len msg' = data_len msg" "msg_inv msg'"
    using msg_put_cases [OF assms(1), of "of_nat (length bs)"] assms(2,3) unfolding u by (auto split: if_splits)
  let ?r = "nat (msg_read msg)" and ?w = "nat (msg_write msg)"
  have b: "?r \<le> ?w" "?w + length bs \<le> length (msg_data msg)" "nat (msg_write msg + int (length bs)) = ?w + length bs"
    using assms(1) c(7) unfolding msg_inv_def c(3,5,6) by auto
  have "msg_bytes (msg_fill (nat pos) bs msg') = msg_bytes msg @ bs"
    unfolding msg_bytes_def msg_fill_def using drop_take_append [OF b(1,2)] c b(3) by simp
  moreover have "msg_inv (msg_fill (nat pos) bs msg')"
    using c b by (auto simp: msg_inv_def msg_fill_def)
  ultimately show ?thesis by blast
qed

lemma msg_pull_takes:
  assumes "msg_inv msg" and "n < 2 ^ 31"
  shows "if n \<le> length (msg_bytes msg)
    then \<exists>pos msg'. msg_pull msg (of_nat n) = Inr (pos, msg') \<and> msg_inv msg' \<and>
      msg_view (nat pos) n msg' = take n (msg_bytes msg) \<and> msg_bytes msg' = drop n (msg_bytes msg)
    else msg_pull msg (of_nat n) = Inl Die"
proof -
  have u: "unat (of_nat n :: u32) = n" using assms(2) by (simp add: unat_of_nat)
  then have t: "to_int (of_nat n) = int n" using to_int_small [of "of_nat n"] assms(2) by simp
  let ?r = "nat (msg_read msg)" and ?w = "nat (msg_write msg)"
  have b: "?r \<le> ?w" "?w \<le> length (msg_data msg)" "msg_read msg = int ?r" "msg_write msg = int ?w"
    using assms(1) by (auto simp: msg_inv_def)
  have len: "length (msg_bytes msg) = ?w - ?r" using b by (simp add: msg_bytes_def)
  show ?thesis
  proof (cases "n \<le> ?w - ?r")
    case True
    then have e: "msg_pull msg (of_nat n) = Inr (msg_read msg, msg\<lparr>msg_read := msg_read msg + int n\<rparr>)"
    proof -
      have "\<not> msg_read_avail msg < int n" using True b unfolding msg_read_avail_def by linarith
      then show ?thesis by (simp only: msg_pull_def Let_def t uint_unat u if_False)
    qed
    have "nat (msg_read msg + int n) = n + ?r" using assms(1) by (simp add: msg_inv_def nat_add_distrib)
    then show ?thesis using True e len b assms(1) take_drop_take [OF True b(1)]
      by (auto simp: msg_inv_def msg_view_def msg_bytes_def)
  next
    case False
    then have "msg_read_avail msg < int n" using b unfolding msg_read_avail_def by linarith
    then have "msg_pull msg (of_nat n) = Inl Die" by (simp add: msg_pull_def Let_def t)
    then show ?thesis using False len by simp
  qed
qed

end
