(* ===== verification/Usb.thy ===== *)
theory Usb
  imports Msg Queues MemPool
begin

text \<open>
  The USB driver of src/drivers/ubertooth_usb.c at the level of its packets: \<open>usb_bulk_out_handler\<close> puts the messages of
  the host together, \<open>usb_work\<close> takes the messages for the host apart.  What one sends the other receives.
\<close>

section \<open>The driver\<close>

text \<open>
  The memory pool with the message in every block, the two queues and the two messages under way.  A message that
  is not in use holds in \<open>msg_data\<close> the bytes its block still has.
\<close>

record usb =
  u_pool :: mem_pool
  u_msgs :: "msg list"
  u_rx_q :: "nat msg_queue"
  u_tx_q :: "nat msg_queue"
  u_rx_msg :: "nat option"
  u_tx_msg :: "nat option"

abbreviation MAX_PACKET_SIZE :: nat where "MAX_PACKET_SIZE \<equiv> 64"
abbreviation BTUSB_MSG_START :: u8 where "BTUSB_MSG_START \<equiv> 0x53"
abbreviation BTUSB_MSG_CONT :: u8 where "BTUSB_MSG_CONT \<equiv> 0x43"

text \<open>\<open>msg_alloc\<close> in the memory pool.\<close>

definition usb_msg_alloc :: "u16 \<Rightarrow> usb \<Rightarrow> (nat \<times> usb) res" where
  "usb_msg_alloc n s =
     bnd (mem_pool_alloc (12 + unat n) (u_pool s)) (\<lambda>(h, p).
     bnd (rd (u_msgs s) h) (\<lambda>m.
     bnd (wr (u_msgs s) h (msg_alloc (ucast n) (msg_data m))) (\<lambda>ms.
     Inr (h, s\<lparr>u_pool := p, u_msgs := ms\<rparr>))))"

text \<open>
  \<open>p = msg_put(msg, wsize); memcpy(p, d, wsize);\<close>.  A negative \<open>wsize\<close> passes the test of \<open>msg_put\<close> and is a huge
  count for \<open>memcpy\<close>.
\<close>

definition usb_append :: "nat \<Rightarrow> u8 list \<Rightarrow> int \<Rightarrow> usb \<Rightarrow> usb res" where
  "usb_append h d wsize s =
     bnd (rd (u_msgs s) h) (\<lambda>m.
     bnd (msg_put m (word_of_int wsize)) (\<lambda>(pos, m).
     if wsize < 0 \<or> int (length d) < wsize \<or> int (length (msg_data m)) < pos + wsize then Inl Oob
     else bnd (wr (u_msgs s) h (msg_fill (nat pos) (take (nat wsize) d) m)) (\<lambda>ms. Inr (s\<lparr>u_msgs := ms\<rparr>))))"

text \<open>A message that is complete goes into the queue; the result of the enqueue is dropped.\<close>

definition usb_rx_done :: "nat \<Rightarrow> usb \<Rightarrow> usb res" where
  "usb_rx_done h s =
     bnd (rd (u_msgs s) h) (\<lambda>m.
     if msg_write_avail m = 0
     then bnd (msg_enqueue (u_rx_q s) h) (\<lambda>(_, q). Inr (s\<lparr>u_rx_q := q, u_rx_msg := None\<rparr>))
     else Inr (s\<lparr>u_rx_msg := Some h\<rparr>))"

text \<open>The buffer \<open>data\<close> after the read of the endpoint, which has put \<open>bulk_size\<close> bytes into it, or has failed and returned -1.\<close>

definition usb_bulk_out_handler :: "u8 list \<Rightarrow> int \<Rightarrow> usb \<Rightarrow> usb res" where
  "usb_bulk_out_handler data bulk_size s =
     bnd (rd data 0) (\<lambda>type.
     bnd (case u_rx_msg s of
            None \<Rightarrow>
              if type \<noteq> BTUSB_MSG_START then Inl Die
              else
                bnd (rd data 2) (\<lambda>lo. bnd (rd data 3) (\<lambda>hi.
                bnd (usb_msg_alloc (ucast lo OR push_bit 8 (ucast hi)) s) (\<lambda>(h, s).
                bnd (rd (u_msgs s) h) (\<lambda>m.
                bnd (usb_append h (drop 4 data) (min (bulk_size - 4) (msg_write_avail m)) s) (\<lambda>s.
                Inr (h, s))))))
          | Some h \<Rightarrow>
              if type \<noteq> BTUSB_MSG_CONT then Inl Die
              else
                bnd (rd (u_msgs s) h) (\<lambda>m.
                bnd (usb_append h (drop 1 data) (min (bulk_size - 1) (msg_write_avail m)) s) (\<lambda>s.
                Inr (h, s)))) (\<lambda>(h, s).
     usb_rx_done h s))"

text \<open>\<open>memcpy(buf+buf_idx, msg_pull(tx_msg, len), len)\<close>: the bytes and the message behind them.\<close>

definition usb_take :: "nat \<Rightarrow> int \<Rightarrow> usb \<Rightarrow> (u8 list \<times> usb) res" where
  "usb_take h len s =
     bnd (rd (u_msgs s) h) (\<lambda>m.
     bnd (msg_pull m (word_of_int len)) (\<lambda>(pos, m).
     bnd (wr (u_msgs s) h m) (\<lambda>ms.
     Inr (msg_view (nat pos) (nat len) m, s\<lparr>u_msgs := ms\<rparr>))))"

definition usb_avail :: "nat \<Rightarrow> usb \<Rightarrow> int res" where
  "usb_avail h s = bnd (rd (u_msgs s) h) (\<lambda>m. Inr (msg_read_avail m))"

text \<open>The message to go on with and the header of the packet; \<open>None\<close> when there is nothing to send.\<close>

definition usb_next :: "usb \<Rightarrow> ((nat \<times> u8 list) option \<times> usb) res" where
  "usb_next s =
     (case u_tx_msg s of
        Some h \<Rightarrow> Inr (Some (h, [BTUSB_MSG_CONT]), s)
      | None \<Rightarrow>
          bnd (msg_dequeue (u_tx_q s)) (\<lambda>(om, q).
          case om of
            None \<Rightarrow> Inr (None, s\<lparr>u_tx_q := q\<rparr>)
          | Some h \<Rightarrow>
              bnd (usb_avail h s) (\<lambda>n.
              let full_len = word_of_int n :: u16 in
              Inr (Some (h, [BTUSB_MSG_START, 0, ucast (full_len AND 0xff), ucast (drop_bit 8 full_len)]),
                s\<lparr>u_tx_q := q, u_tx_msg := Some h\<rparr>))))"

text \<open>One packet: what is left of the message, as far as it fits behind the header, when the buffer is free.\<close>

definition usb_packet :: "nat \<Rightarrow> u8 list \<Rightarrow> bool \<Rightarrow> usb \<Rightarrow> (u8 list list \<times> u8 list \<times> usb) res" where
  "usb_packet h hdr full s =
     bnd (usb_avail h s) (\<lambda>n.
     let len = min n (int (MAX_PACKET_SIZE - length hdr)) in
     if len \<noteq> 0 \<and> \<not> full
     then bnd (usb_take h len s) (\<lambda>(d, s). Inr ([hdr @ d], [BTUSB_MSG_CONT], s))
     else Inr ([], hdr, s))"

text \<open>The two packets, and the end of the message.\<close>

definition usb_send2 :: "nat \<Rightarrow> u8 list \<Rightarrow> bool \<Rightarrow> bool \<Rightarrow> usb \<Rightarrow> (int \<times> u8 list list \<times> usb) res" where
  "usb_send2 h hdr b1full b2full s =
     bnd (usb_packet h hdr b1full s) (\<lambda>(ps, hdr, s).
     bnd (usb_packet h hdr b2full s) (\<lambda>(qs, _, s).
     bnd (usb_avail h s) (\<lambda>n.
     bnd (if n = 0 then bnd (mem_pool_free h (u_pool s)) (\<lambda>p. Inr (s\<lparr>u_pool := p, u_tx_msg := None\<rparr>)) else Inr s) (\<lambda>s.
     Inr (1, ps @ qs, s)))))"

text \<open>\<open>b1full\<close> and \<open>b2full\<close> are the state of the endpoint's two buffers; the result is \<open>work\<close> and the packets written.\<close>

definition usb_work :: "bool \<Rightarrow> bool \<Rightarrow> usb \<Rightarrow> (int \<times> u8 list list \<times> usb) res" where
  "usb_work b1full b2full s =
     (if b1full \<and> b2full then Inr (0, [], s)
      else
        bnd (usb_next s) (\<lambda>(nxt, s).
        case nxt of
          None \<Rightarrow> Inr (0, [], s)
        | Some (h, hdr) \<Rightarrow> usb_send2 h hdr b1full b2full s))"

section \<open>The packets of a message\<close>

fun cont_packets :: "u8 list \<Rightarrow> u8 list list" where
  "cont_packets bs = (if bs = [] then [] else (BTUSB_MSG_CONT # take 63 bs) # cont_packets (drop 63 bs))"

declare cont_packets.simps [simp del]

lemma cont_packets_Nil [simp]: "cont_packets [] = []" by (subst cont_packets.simps) simp

text \<open>The packets from the one with the header \<open>hdr\<close> on.\<close>

definition packets_from :: "u8 list \<Rightarrow> u8 list \<Rightarrow> u8 list list" where
  "packets_from hdr bs =
     (if bs = [] then [] else (hdr @ take (64 - length hdr) bs) # cont_packets (drop (64 - length hdr) bs))"

definition start_hdr :: "u8 list \<Rightarrow> u8 list" where
  "start_hdr bs = [BTUSB_MSG_START, 0, of_nat (length bs), of_nat (length bs div 256)]"

definition usb_packets :: "u8 list \<Rightarrow> u8 list list" where
  "usb_packets bs = packets_from (start_hdr bs) bs"

lemma packets_from_cont: "packets_from [BTUSB_MSG_CONT] bs = cont_packets bs"
  by (subst cont_packets.simps) (simp add: packets_from_def)

lemma length_start_hdr [simp]: "length (start_hdr bs) = 4" by (simp add: start_hdr_def)

section \<open>Sending\<close>

definition u_bytes :: "usb \<Rightarrow> nat \<Rightarrow> u8 list" where
  "u_bytes s h = msg_bytes (u_msgs s ! h)"

definition u_ok :: "usb \<Rightarrow> nat \<Rightarrow> bool" where
  "u_ok s h \<longleftrightarrow> h < length (u_msgs s) \<and> msg_inv (u_msgs s ! h) \<and> length (u_bytes s h) < 65536"

lemma read_avail: "msg_inv m \<Longrightarrow> msg_read_avail m = int (length (msg_bytes m))"
  by (auto simp: msg_inv_def msg_read_avail_def msg_bytes_def)

lemma usb_avail_ok: "u_ok s h \<Longrightarrow> usb_avail h s = Inr (int (length (u_bytes s h)))"
  by (simp add: usb_avail_def u_ok_def u_bytes_def read_avail)

lemma usb_take_ok:
  assumes "u_ok s h" and "n \<le> length (u_bytes s h)"
  shows "\<exists>m'. usb_take h (int n) s = Inr (take n (u_bytes s h), s\<lparr>u_msgs := (u_msgs s)[h := m']\<rparr>) \<and>
    msg_inv m' \<and> msg_bytes m' = drop n (u_bytes s h)"
proof -
  have w: "(word_of_int (int n) :: u32) = of_nat n" by simp
  have i: "msg_inv (u_msgs s ! h)" "h < length (u_msgs s)" "n < 2 ^ 31" "n \<le> length (msg_bytes (u_msgs s ! h))"
    using assms by (auto simp: u_ok_def u_bytes_def)
  from msg_pull_takes [OF i(1,3)] i(4) obtain pos m' where "msg_pull (u_msgs s ! h) (of_nat n) = Inr (pos, m')" "msg_inv m'"
      "msg_view (nat pos) n m' = take n (msg_bytes (u_msgs s ! h))" "msg_bytes m' = drop n (msg_bytes (u_msgs s ! h))"
    by auto
  then show ?thesis using i(2) unfolding usb_take_def w by (auto simp: u_bytes_def)
qed

lemma usb_packet_ok:
  assumes ok: "u_ok s h" and hdr: "length hdr \<le> 4"
  shows "if u_bytes s h \<noteq> [] \<and> \<not> full
    then \<exists>m'. usb_packet h hdr full s = Inr ([hdr @ take (64 - length hdr) (u_bytes s h)], [BTUSB_MSG_CONT], s\<lparr>u_msgs := (u_msgs s)[h := m']\<rparr>) \<and>
      msg_inv m' \<and> msg_bytes m' = drop (64 - length hdr) (u_bytes s h)
    else usb_packet h hdr full s = Inr ([], hdr, s)"
proof (cases "u_bytes s h \<noteq> [] \<and> \<not> full")
  case True
  let ?n = "min (length (u_bytes s h)) (64 - length hdr)"
  have n: "min (int (length (u_bytes s h))) (int (MAX_PACKET_SIZE - length hdr)) = int ?n" "int ?n \<noteq> 0" using True hdr by auto
  obtain m' where m: "usb_take h (int ?n) s = Inr (take ?n (u_bytes s h), s\<lparr>u_msgs := (u_msgs s)[h := m']\<rparr>)"
      "msg_inv m'" "msg_bytes m' = drop ?n (u_bytes s h)"
    using usb_take_ok [OF ok, of ?n] by auto
  have t: "take ?n (u_bytes s h) = take (64 - length hdr) (u_bytes s h)" "drop ?n (u_bytes s h) = drop (64 - length hdr) (u_bytes s h)"
    by (simp_all add: min_def)
  show ?thesis using True m n(2) unfolding usb_packet_def usb_avail_ok [OF ok] bnd_simps Let_def n(1) t by auto
next
  case False
  then show ?thesis unfolding usb_packet_def usb_avail_ok [OF ok] bnd_simps Let_def by auto
qed

text \<open>What \<open>usb_packet\<close> leaves: the packets written, the header of the next one, and the message.\<close>

lemma usb_packet_step:
  assumes ok: "u_ok s h" and hdr: "length hdr \<le> 4"
  shows "\<exists>ps hdr' m'. usb_packet h hdr full s = Inr (ps, hdr', s\<lparr>u_msgs := (u_msgs s)[h := m']\<rparr>) \<and> msg_inv m' \<and> length hdr' \<le> 4 \<and>
    packets_from hdr (u_bytes s h) = ps @ packets_from hdr' (msg_bytes m') \<and> length (msg_bytes m') \<le> length (u_bytes s h) \<and>
    (ps = [] \<longrightarrow> hdr' = hdr \<and> msg_bytes m' = u_bytes s h) \<and> (ps \<noteq> [] \<longrightarrow> hdr' = [BTUSB_MSG_CONT]) \<and>
    (u_bytes s h \<noteq> [] \<longrightarrow> \<not> full \<longrightarrow> ps \<noteq> [])"
proof (cases "u_bytes s h \<noteq> [] \<and> \<not> full")
  case True
  then show ?thesis using usb_packet_ok [OF ok hdr, of full] by (auto simp: packets_from_cont) (auto simp: packets_from_def)
next
  case False
  have "s\<lparr>u_msgs := (u_msgs s)[h := u_msgs s ! h]\<rparr> = s" by simp
  then show ?thesis using False usb_packet_ok [OF ok hdr, of full] ok hdr
    by (intro exI [of _ "[]"] exI [of _ hdr] exI [of _ "u_msgs s ! h"]) (auto simp: u_ok_def u_bytes_def)
qed

lemma u_ok_upd:
  "u_ok s h \<Longrightarrow> msg_inv m' \<Longrightarrow> length (msg_bytes m') \<le> length (u_bytes s h) \<Longrightarrow>
    u_ok (s\<lparr>u_msgs := (u_msgs s)[h := m']\<rparr>) h \<and> u_bytes (s\<lparr>u_msgs := (u_msgs s)[h := m']\<rparr>) h = msg_bytes m'"
  by (simp add: u_ok_def u_bytes_def)

lemma usb_send2_ok:
  assumes ok: "u_ok s h" and hdr: "length hdr \<le> 4" and b: "\<not> (b1 \<and> b2)" and ne: "u_bytes s h \<noteq> []"
    and pool: "pool_inv (u_pool s)" "h < BUF_NUM" "h \<notin> set (free_list (u_pool s))" and tx: "u_tx_msg s = Some h"
  shows "\<exists>ps m' p. usb_send2 h hdr b1 b2 s =
      Inr (1, ps, s\<lparr>u_msgs := (u_msgs s)[h := m'], u_pool := p, u_tx_msg := (if msg_bytes m' = [] then None else Some h)\<rparr>) \<and>
    ps \<noteq> [] \<and> packets_from hdr (u_bytes s h) = ps @ cont_packets (msg_bytes m') \<and> msg_inv m' \<and>
    length (msg_bytes m') \<le> length (u_bytes s h) \<and> pool_inv p \<and>
    free_list p = (if msg_bytes m' = [] then [h] else []) @ free_list (u_pool s)"
proof -
  obtain ps hdr1 m1 where p1: "usb_packet h hdr b1 s = Inr (ps, hdr1, s\<lparr>u_msgs := (u_msgs s)[h := m1]\<rparr>)" "msg_inv m1" "length hdr1 \<le> 4"
      "packets_from hdr (u_bytes s h) = ps @ packets_from hdr1 (msg_bytes m1)" "length (msg_bytes m1) \<le> length (u_bytes s h)"
      "ps = [] \<longrightarrow> hdr1 = hdr \<and> msg_bytes m1 = u_bytes s h" "ps \<noteq> [] \<longrightarrow> hdr1 = [BTUSB_MSG_CONT]" "\<not> b1 \<longrightarrow> ps \<noteq> []"
    using usb_packet_step [OF ok hdr, of b1] ne by blast
  let ?s1 = "s\<lparr>u_msgs := (u_msgs s)[h := m1]\<rparr>"
  from u_ok_upd [OF ok p1(2,5)] have ok1: "u_ok ?s1 h" and by1: "u_bytes ?s1 h = msg_bytes m1" by blast+
  obtain qs hdr2 m2 where p2: "usb_packet h hdr1 b2 ?s1 = Inr (qs, hdr2, ?s1\<lparr>u_msgs := (u_msgs ?s1)[h := m2]\<rparr>)" "msg_inv m2"
      "packets_from hdr1 (msg_bytes m1) = qs @ packets_from hdr2 (msg_bytes m2)" "length (msg_bytes m2) \<le> length (msg_bytes m1)"
      "qs = [] \<longrightarrow> hdr2 = hdr1 \<and> msg_bytes m2 = msg_bytes m1" "qs \<noteq> [] \<longrightarrow> hdr2 = [BTUSB_MSG_CONT]" "msg_bytes m1 \<noteq> [] \<longrightarrow> \<not> b2 \<longrightarrow> qs \<noteq> []"
    using usb_packet_step [OF ok1 p1(3), of b2] unfolding by1 by blast
  let ?s2 = "s\<lparr>u_msgs := (u_msgs s)[h := m2]\<rparr>"
  have s2: "?s1\<lparr>u_msgs := (u_msgs ?s1)[h := m2]\<rparr> = ?s2" by simp
  have l2: "length (msg_bytes m2) \<le> length (u_bytes s h)" using p1(5) p2(4) by simp
  from u_ok_upd [OF ok p2(2) l2] have av: "usb_avail h ?s2 = Inr (int (length (msg_bytes m2)))" using usb_avail_ok [of ?s2 h] by simp
  have sent: "ps @ qs \<noteq> []" using b p1(6,8) p2(7) ne by auto
  then have "hdr2 = [BTUSB_MSG_CONT]" using p1(7) p2(5,6) by auto
  then have pk: "packets_from hdr (u_bytes s h) = (ps @ qs) @ cont_packets (msg_bytes m2)"
    using p1(4) p2(3) by (simp add: packets_from_cont)
  obtain p where p: "mem_pool_free h (u_pool s) = Inr p" "pool_inv p" "free_list p = h # free_list (u_pool s)"
    using pool_free_ok [OF pool] by blast
  let ?p = "if msg_bytes m2 = [] then p else u_pool s"
  have r: "usb_send2 h hdr b1 b2 s =
      Inr (1, ps @ qs, ?s2\<lparr>u_pool := ?p, u_tx_msg := (if msg_bytes m2 = [] then None else Some h)\<rparr>)"
    unfolding usb_send2_def p1(1) bnd_simps prod.case p2(1) s2 av by (cases "msg_bytes m2 = []") (simp_all add: p(1) tx)
  show ?thesis using r sent pk p2(2) l2 p pool(1) by (intro exI [of _ "ps @ qs"] exI [of _ m2] exI [of _ ?p]) simp
qed

text \<open>The messages that are still to be sent, the one under way first, and the packets that are left of them.\<close>

definition tx_live :: "usb \<Rightarrow> nat list" where
  "tx_live s = (case u_tx_msg s of None \<Rightarrow> [] | Some h \<Rightarrow> [h]) @ mq_list (u_tx_q s)"

definition tx_wf :: "usb \<Rightarrow> bool" where
  "tx_wf s \<longleftrightarrow> mq_inv (u_tx_q s) \<and> pool_inv (u_pool s) \<and> distinct (tx_live s) \<and>
     (\<forall>h \<in> set (tx_live s). u_ok s h \<and> h < BUF_NUM \<and> h \<notin> set (free_list (u_pool s)) \<and> u_bytes s h \<noteq> [])"

definition pending :: "usb \<Rightarrow> u8 list list" where
  "pending s = (case u_tx_msg s of None \<Rightarrow> [] | Some h \<Rightarrow> cont_packets (u_bytes s h)) @
     concat (map (\<lambda>h. usb_packets (u_bytes s h)) (mq_list (u_tx_q s)))"

lemma start_hdr_code:
  assumes "length bs < 65536"
  shows "[BTUSB_MSG_START, 0, ucast ((word_of_int (int (length bs)) :: u16) AND 0xff), ucast (drop_bit 8 (word_of_int (int (length bs)) :: u16))] = start_hdr bs"
proof -
  let ?w = "of_nat (length bs) :: u16"
  have w: "word_of_int (int (length bs)) = ?w" by simp
  have u: "unat ?w = length bs" using assms by (simp add: unat_of_nat)
  have "ucast (?w AND 0xff) = (ucast ?w :: u8)" unfolding and_masks by (rule bit_word_eqI) (simp add: bit_simps)
  moreover have "unat (ucast ?w :: u8) = unat (of_nat (length bs) :: u8)"
    using assms by (simp add: unsigned_ucast_eq u take_bit_eq_mod unat_of_nat)
  ultimately have "ucast (?w AND 0xff) = (of_nat (length bs) :: u8)" by (simp add: word_unat_eq_iff)
  moreover have dd: "unat (drop_bit 8 ?w) = length bs div 256" by (simp only: unat_drop_bit_eq u) (simp add: drop_bit_eq_div)
  have "unat (ucast (drop_bit 8 ?w) :: u8) = length bs div 256"
    using assms unfolding unsigned_ucast_eq dd by (simp add: take_bit_eq_mod)
  then have "ucast (drop_bit 8 ?w) = (of_nat (length bs div 256) :: u8)" using assms by (simp add: word_unat_eq_iff unat_of_nat)
  ultimately show ?thesis by (simp only: w start_hdr_def)
qed

lemma usb_next_ok:
  assumes wf: "tx_wf s" and p: "pending s \<noteq> []"
  shows "\<exists>h hdr q. usb_next s = Inr (Some (h, hdr), s\<lparr>u_tx_q := q, u_tx_msg := Some h\<rparr>) \<and> mq_inv q \<and> length hdr \<le> 4 \<and>
    tx_live s = h # mq_list q \<and>
    pending s = packets_from hdr (u_bytes s h) @ concat (map (\<lambda>h. usb_packets (u_bytes s h)) (mq_list q))"
proof (cases "u_tx_msg s")
  case (Some h)
  have "s\<lparr>u_tx_q := u_tx_q s, u_tx_msg := Some h\<rparr> = s" using Some by simp
  then show ?thesis using wf Some
    by (intro exI [of _ h] exI [of _ "[BTUSB_MSG_CONT]"] exI [of _ "u_tx_q s"]) (simp add: usb_next_def tx_wf_def tx_live_def pending_def packets_from_cont)
next
  case None
  then obtain h hs where q: "mq_list (u_tx_q s) = h # hs" using p by (cases "mq_list (u_tx_q s)") (auto simp: pending_def)
  obtain q' where q': "msg_dequeue (u_tx_q s) = Inr (Some h, q')" "mq_inv q'" "mq_list q' = hs"
    using msg_dequeue_cases [of "u_tx_q s"] wf q by (auto simp: tx_wf_def)
  have ok: "u_ok s h" using wf q None by (simp add: tx_wf_def tx_live_def)
  then have l: "length (u_bytes s h) < 65536" by (simp add: u_ok_def)
  have "usb_next s = Inr (Some (h, start_hdr (u_bytes s h)), s\<lparr>u_tx_q := q', u_tx_msg := Some h\<rparr>)"
    unfolding usb_next_def None option.case q'(1) bnd_simps prod.case usb_avail_ok [OF ok] Let_def start_hdr_code [OF l] ..
  then show ?thesis using q q' None by (auto simp: tx_live_def pending_def usb_packets_def)
qed

lemma pending_empty: "tx_wf s \<Longrightarrow> pending s = [] \<longleftrightarrow> u_tx_msg s = None \<and> mq_list (u_tx_q s) = []"
proof -
  assume wf: "tx_wf s"
  have "usb_packets bs \<noteq> []" "cont_packets bs \<noteq> []" if "bs \<noteq> []" for bs
    using that by (simp_all add: usb_packets_def packets_from_def) (subst cont_packets.simps, simp)
  then show ?thesis using wf by (cases "mq_list (u_tx_q s)") (auto simp: pending_def tx_wf_def tx_live_def split: option.splits)
qed

lemma usb_work_step:
  assumes wf: "tx_wf s"
  shows "\<exists>w ps s'. usb_work b1 b2 s = Inr (w, ps, s') \<and> tx_wf s' \<and> pending s = ps @ pending s' \<and>
    (pending s \<noteq> [] \<longrightarrow> \<not> (b1 \<and> b2) \<longrightarrow> ps \<noteq> [])"
proof (cases "b1 \<and> b2")
  case True
  then show ?thesis using wf by (simp add: usb_work_def)
next
  case b: False
  show ?thesis
  proof (cases "pending s = []")
    case True
    have e: "u_tx_msg s = None" "mq_list (u_tx_q s) = []" using True pending_empty [OF wf] by simp_all
    then have "msg_dequeue (u_tx_q s) = Inr (None, u_tx_q s)" using msg_dequeue_cases [of "u_tx_q s"] wf by (simp add: tx_wf_def)
    then have "usb_work b1 b2 s = Inr (0, [], s)" using b e by (simp add: usb_work_def usb_next_def)
    then show ?thesis using wf True by simp
  next
    case False
    obtain h hdr q where n: "usb_next s = Inr (Some (h, hdr), s\<lparr>u_tx_q := q, u_tx_msg := Some h\<rparr>)" "mq_inv q" "length hdr \<le> 4"
        "tx_live s = h # mq_list q"
        "pending s = packets_from hdr (u_bytes s h) @ concat (map (\<lambda>h. usb_packets (u_bytes s h)) (mq_list q))"
      using usb_next_ok [OF wf False] by blast
    let ?s = "s\<lparr>u_tx_q := q, u_tx_msg := Some h\<rparr>"
    have h: "u_ok ?s h" "u_bytes ?s h \<noteq> []" "pool_inv (u_pool ?s)" "h < BUF_NUM" "h \<notin> set (free_list (u_pool ?s))" "u_tx_msg ?s = Some h"
      using wf n(4) by (auto simp: tx_wf_def u_ok_def u_bytes_def)
    obtain ps m' p where r: "usb_send2 h hdr b1 b2 ?s =
          Inr (1, ps, ?s\<lparr>u_msgs := (u_msgs ?s)[h := m'], u_pool := p, u_tx_msg := (if msg_bytes m' = [] then None else Some h)\<rparr>)"
        "ps \<noteq> []" "packets_from hdr (u_bytes ?s h) = ps @ cont_packets (msg_bytes m')" "msg_inv m'"
        "length (msg_bytes m') \<le> length (u_bytes ?s h)" "pool_inv p"
        "free_list p = (if msg_bytes m' = [] then [h] else []) @ free_list (u_pool ?s)"
      using usb_send2_ok [OF h(1) n(3) b h(2-6)] by blast
    let ?s' = "?s\<lparr>u_msgs := (u_msgs ?s)[h := m'], u_pool := p, u_tx_msg := (if msg_bytes m' = [] then None else Some h)\<rparr>"
    have w: "usb_work b1 b2 s = Inr (1, ps, ?s')" unfolding usb_work_def using b n(1) r(1) by simp
    have d: "h \<notin> set (mq_list q)" "distinct (mq_list q)" using wf n(4) by (simp_all add: tx_wf_def)
    have other: "g \<in> set (mq_list q) \<Longrightarrow> (u_msgs s)[h := m'] ! g = u_msgs s ! g" for g
      using d(1) by (cases "g = h") auto
    have by': "g \<in> set (mq_list q) \<Longrightarrow> u_bytes ?s' g = u_bytes s g" "g \<in> set (mq_list q) \<Longrightarrow> u_ok s g \<Longrightarrow> u_ok ?s' g" for g
      by (simp_all add: u_bytes_def u_ok_def other)
    have hl: "h < length (u_msgs s)" using h(1) by (simp add: u_ok_def)
    have live: "\<forall>g \<in> set (mq_list q). u_ok s g \<and> g < BUF_NUM \<and> g \<notin> set (free_list (u_pool s)) \<and> u_bytes s g \<noteq> []"
      using wf n(4) by (simp add: tx_wf_def)
    have live': "tx_live ?s' = (if msg_bytes m' = [] then [] else [h]) @ mq_list q" by (simp add: tx_live_def)
    have hh: "u_ok ?s' h \<and> u_bytes ?s' h = msg_bytes m'" using u_ok_upd [OF h(1) r(4,5)] hl by (simp add: u_ok_def u_bytes_def)
    have fr: "set (free_list (u_pool ?s')) = (if msg_bytes m' = [] then {h} else {}) \<union> set (free_list (u_pool s))" using r(7) by auto
    have rest: "\<forall>g \<in> set (mq_list q). u_ok ?s' g \<and> g < BUF_NUM \<and> g \<notin> set (free_list (u_pool ?s')) \<and> u_bytes ?s' g \<noteq> []"
      using live d(1) by' unfolding fr by auto
    have cur: "msg_bytes m' \<noteq> [] \<Longrightarrow> u_ok ?s' h \<and> h < BUF_NUM \<and> h \<notin> set (free_list (u_pool ?s')) \<and> u_bytes ?s' h \<noteq> []"
      using hh h(4,5) fr by simp
    have "mq_inv (u_tx_q ?s')" "pool_inv (u_pool ?s')" "distinct (tx_live ?s')" using n(2) r(6) d unfolding live' by auto
    then have wf': "tx_wf ?s'" unfolding tx_wf_def live' using rest cur by (cases "msg_bytes m' = []") simp_all
    have "pending ?s' = cont_packets (msg_bytes m') @ concat (map (\<lambda>h. usb_packets (u_bytes s h)) (mq_list q))"
      using by'(1) hl by (auto simp: pending_def u_bytes_def nth_list_update intro!: arg_cong [of _ _ concat])
    then show ?thesis using w wf' n(5) r(2,3) by (auto simp: u_bytes_def)
  qed
qed

text \<open>The calls of the main loop, with the state of the two buffers at each.\<close>

primrec usb_works :: "(bool \<times> bool) list \<Rightarrow> usb \<Rightarrow> (u8 list list \<times> usb) res" where
  "usb_works [] s = Inr ([], s)"
| "usb_works (f # fs) s =
     bnd (usb_work (fst f) (snd f) s) (\<lambda>(_, ps, s). bnd (usb_works fs s) (\<lambda>(qs, s). Inr (ps @ qs, s)))"

lemma usb_works_ok:
  assumes "tx_wf s"
  shows "\<exists>ps s'. usb_works fs s = Inr (ps, s') \<and> tx_wf s' \<and> pending s = ps @ pending s' \<and>
    (length (pending s) \<le> length (filter (\<lambda>f. \<not> (fst f \<and> snd f)) fs) \<longrightarrow> pending s' = [])"
  using assms
proof (induction fs arbitrary: s)
  case (Cons f fs)
  obtain w ps s1 where 1: "usb_work (fst f) (snd f) s = Inr (w, ps, s1)" "tx_wf s1" "pending s = ps @ pending s1"
      "pending s \<noteq> [] \<longrightarrow> \<not> (fst f \<and> snd f) \<longrightarrow> ps \<noteq> []"
    using usb_work_step [OF Cons.prems, of "fst f" "snd f"] by blast
  obtain qs s2 where 2: "usb_works fs s1 = Inr (qs, s2)" "tx_wf s2" "pending s1 = qs @ pending s2"
      "length (pending s1) \<le> length (filter (\<lambda>f. \<not> (fst f \<and> snd f)) fs) \<longrightarrow> pending s2 = []"
    using Cons.IH [OF 1(2)] by blast
  have "length (pending s) \<le> length (filter (\<lambda>f. \<not> (fst f \<and> snd f)) (f # fs)) \<Longrightarrow> pending s2 = []"
    using 1(3,4) 2(3,4) by (cases ps) (auto split: if_splits)
  then show ?case using 1 2 by auto
qed simp

section \<open>Receiving\<close>

text \<open>The bytes behind a message's write position still to come.\<close>

definition u_room :: "msg \<Rightarrow> nat" where
  "u_room m = nat (msg_write_avail m)"

lemma usb_append_ok:
  assumes h: "h < length (u_msgs s)" and m: "msg_inv (u_msgs s ! h)" and n: "n \<le> length d" "n \<le> u_room (u_msgs s ! h)" "n < 2 ^ 31"
  shows "\<exists>m'. usb_append h d (int n) s = Inr (s\<lparr>u_msgs := (u_msgs s)[h := m']\<rparr>) \<and> msg_inv m' \<and>
    msg_bytes m' = msg_bytes (u_msgs s ! h) @ take n d \<and> u_room m' = u_room (u_msgs s ! h) - n \<and>
    data_len m' = data_len (u_msgs s ! h) \<and> length (msg_data m') = length (msg_data (u_msgs s ! h))"
proof -
  let ?m = "u_msgs s ! h"
  have av: "\<not> msg_write_avail ?m < int n" using n(2) m by (auto simp: u_room_def msg_write_avail_def msg_write_len_def msg_inv_def)
  have l: "length (take n d) = n" using n(1) by simp
  have w: "(word_of_int (int n) :: u32) = of_nat (length (take n d))" unfolding l by simp
  have u: "unat (of_nat (length (take n d)) :: u32) = n" unfolding l using n(3) by (simp add: unat_of_nat)
  have sm: "unat (of_nat (length (take n d)) :: u32) < 2 ^ 31" "length (take n d) < 2 ^ 31"
    using n(3) by (simp only: u, simp only: l)
  from msg_put_cases [OF m sm(1)] av obtain m1 where p: "msg_put ?m (of_nat (length (take n d))) = Inr (msg_write ?m, m1)" "msg_inv m1"
      "msg_write m1 = msg_write ?m + int n" "msg_read m1 = msg_read ?m" "msg_data m1 = msg_data ?m" "data_len m1 = data_len ?m"
    unfolding u by auto
  let ?m' = "msg_fill (nat (msg_write ?m)) (take n d) m1"
  from msg_put_appends [OF m sm(2) p(1)] have f: "msg_inv ?m'" "msg_bytes ?m' = msg_bytes ?m @ take n d" by blast+
  have le: "msg_write ?m + int n \<le> int (length (msg_data m1))" using p by (auto simp: msg_inv_def)
  have r: "u_room ?m' = u_room ?m - n" "data_len ?m' = data_len ?m" "length (msg_data ?m') = length (msg_data ?m)"
    using p le m by (auto simp: u_room_def msg_write_avail_def msg_write_len_def msg_fill_def msg_inv_def)
  show ?thesis unfolding usb_append_def w using h p(1) le n(1) f r by (intro exI [of _ ?m']) (simp add: wr_ok)
qed

lemma avail_room: "msg_inv m \<Longrightarrow> msg_write_avail m = int (u_room m)"
  by (auto simp: u_room_def msg_write_avail_def msg_write_len_def msg_inv_def)

text \<open>The packets as they arrive; the handler sees of its buffer only the bytes of the packet.\<close>

primrec usb_receive :: "u8 list list \<Rightarrow> usb \<Rightarrow> usb res" where
  "usb_receive [] s = Inr s"
| "usb_receive (p # ps) s = bnd (usb_bulk_out_handler p (int (length p)) s) (usb_receive ps)"

lemma usb_rx_done_ok:
  assumes "h < length (u_msgs s)" and "msg_inv (u_msgs s ! h)" and "mq_inv (u_rx_q s)" and "length (mq_list (u_rx_q s)) < 7"
  shows "if u_room (u_msgs s ! h) = 0
    then \<exists>q. usb_rx_done h s = Inr (s\<lparr>u_rx_q := q, u_rx_msg := None\<rparr>) \<and> mq_inv q \<and> mq_list q = mq_list (u_rx_q s) @ [h]
    else usb_rx_done h s = Inr (s\<lparr>u_rx_msg := Some h\<rparr>)"
  using assms msg_enqueue_cases [OF assms(3), of h] by (auto simp: usb_rx_done_def avail_room)

lemma receive_cont:
  assumes "u_rx_msg s = Some h" and "h < length (u_msgs s)" and "msg_inv (u_msgs s ! h)" and "u_room (u_msgs s ! h) = length bs"
    and "bs \<noteq> []" and "mq_inv (u_rx_q s)" and "length (mq_list (u_rx_q s)) < 7"
  shows "\<exists>m' q. usb_receive (cont_packets bs) s = Inr (s\<lparr>u_msgs := (u_msgs s)[h := m'], u_rx_q := q, u_rx_msg := None\<rparr>) \<and>
    msg_inv m' \<and> msg_bytes m' = msg_bytes (u_msgs s ! h) @ bs \<and> length (msg_data m') = length (msg_data (u_msgs s ! h)) \<and>
    mq_inv q \<and> mq_list q = mq_list (u_rx_q s) @ [h]"
  using assms
proof (induction bs arbitrary: s rule: cont_packets.induct)
  case (1 bs)
  let ?p = "BTUSB_MSG_CONT # take 63 bs"
  let ?n = "length (take 63 bs)"
  have c: "cont_packets bs = ?p # cont_packets (drop 63 bs)" using 1(6) by (subst cont_packets.simps) simp
  have w: "min (int (length ?p) - 1) (msg_write_avail (u_msgs s ! h)) = int ?n"
    using avail_room [OF 1(4)] 1(5) by simp
  obtain m1 where m1: "usb_append h (take 63 bs) (int ?n) s = Inr (s\<lparr>u_msgs := (u_msgs s)[h := m1]\<rparr>)" "msg_inv m1"
      "msg_bytes m1 = msg_bytes (u_msgs s ! h) @ take 63 bs" "u_room m1 = length (drop 63 bs)"
      "length (msg_data m1) = length (msg_data (u_msgs s ! h))"
  proof -
    have n: "?n \<le> u_room (u_msgs s ! h)" "?n < 2 ^ 31" "u_room (u_msgs s ! h) - ?n = length (drop 63 bs)"
      unfolding 1(5) by simp_all
    have t: "take ?n (take 63 bs) = take 63 bs" by (rule take_all) (rule order_refl)
    from usb_append_ok [OF 1(3,4) order_refl n(1,2), unfolded n(3) t] show ?thesis using that by blast
  qed
  let ?s1 = "s\<lparr>u_msgs := (u_msgs s)[h := m1]\<rparr>"
  have s1: "h < length (u_msgs ?s1)" "u_msgs ?s1 ! h = m1" "mq_inv (u_rx_q ?s1)" "length (mq_list (u_rx_q ?s1)) < 7"
    using 1(3,7,8) by simp_all
  have step: "usb_bulk_out_handler ?p (int (length ?p)) s = usb_rx_done h ?s1"
    unfolding usb_bulk_out_handler_def 1(2) option.case using 1(3) m1(1) w by simp
  note done1 = usb_rx_done_ok [OF s1(1) _ s1(3,4), unfolded s1(2), OF m1(2), unfolded m1(4)]
  show ?case
  proof (cases "drop 63 bs = []")
    case True
    then obtain q where q: "usb_rx_done h ?s1 = Inr (?s1\<lparr>u_rx_q := q, u_rx_msg := None\<rparr>)" "mq_inv q" "mq_list q = mq_list (u_rx_q s) @ [h]"
      using done1 by auto
    have "take 63 bs = bs" using True by simp
    then show ?thesis unfolding c True using step q m1 by (intro exI [of _ m1] exI [of _ q]) simp
  next
    case False
    let ?s2 = "?s1\<lparr>u_rx_msg := Some h\<rparr>"
    have d: "usb_rx_done h ?s1 = Inr ?s2" using done1 False by (auto split: if_splits)
    obtain m' q where r: "usb_receive (cont_packets (drop 63 bs)) ?s2 = Inr (?s2\<lparr>u_msgs := (u_msgs ?s2)[h := m'], u_rx_q := q, u_rx_msg := None\<rparr>)"
        "msg_inv m'" "msg_bytes m' = msg_bytes (u_msgs ?s2 ! h) @ drop 63 bs" "length (msg_data m') = length (msg_data (u_msgs ?s2 ! h))"
        "mq_inv q" "mq_list q = mq_list (u_rx_q ?s2) @ [h]"
      using 1(1) [OF 1(6), of ?s2] 1(3,7,8) m1 False by auto
    have "?s2\<lparr>u_msgs := (u_msgs ?s2)[h := m'], u_rx_q := q, u_rx_msg := None\<rparr> = s\<lparr>u_msgs := (u_msgs s)[h := m'], u_rx_q := q, u_rx_msg := None\<rparr>" by simp
    then show ?thesis unfolding c using step d r 1(3) m1(3,5) by (intro exI [of _ m'] exI [of _ q]) simp
  qed
qed

lemma start_size: "n < 65536 \<Longrightarrow> ucast (of_nat n :: u8) OR push_bit 8 (ucast (of_nat (n div 256) :: u8)) = (of_nat n :: u16)"
proof -
  assume "n < 65536"
  have "n div 256 = drop_bit 8 n" by (simp add: drop_bit_eq_div)
  then show ?thesis by (intro bit_word_eqI) (auto simp: bit_simps)
qed

lemma usb_msg_alloc_ok:
  assumes "pool_inv (u_pool s)" and "free_list (u_pool s) = h # hs" and "h < length (u_msgs s)"
    and "n \<le> BUF_SIZE - 12" and "n \<le> length (msg_data (u_msgs s ! h))"
  shows "\<exists>p m. usb_msg_alloc (of_nat n) s = Inr (h, s\<lparr>u_pool := p, u_msgs := (u_msgs s)[h := m]\<rparr>) \<and> pool_inv p \<and> free_list p = hs \<and>
    msg_inv m \<and> msg_bytes m = [] \<and> u_room m = n \<and> msg_data m = msg_data (u_msgs s ! h)"
proof -
  have n: "n < 65536" using assms(4) by (simp add: BUF_SIZE_def)
  then have u: "unat (of_nat n :: u16) = n" by (simp add: unat_of_nat)
  have "12 + n \<le> BUF_SIZE" using assms(4) by (simp add: BUF_SIZE_def)
  then obtain p where p: "mem_pool_alloc (12 + unat (of_nat n :: u16)) (u_pool s) = Inr (h, p)" "pool_inv p" "free_list p = hs"
    using pool_alloc_cons [OF assms(1,2)] unfolding u by blast
  let ?m = "msg_alloc (ucast (of_nat n :: u16)) (msg_data (u_msgs s ! h))"
  have "data_len ?m = of_nat n" unfolding msg_alloc_def by (rule bit_word_eqI) (simp add: bit_simps)
  then have d: "uint (data_len ?m) = int n" by (simp only: uint_unat u)
  have m: "msg_inv ?m" "msg_bytes ?m = []" "u_room ?m = n" "msg_data ?m = msg_data (u_msgs s ! h)"
    using d assms(5) by (simp_all add: msg_inv_def msg_bytes_def u_room_def msg_write_avail_def msg_write_len_def msg_alloc_def)
  show ?thesis unfolding usb_msg_alloc_def p(1) using assms(3) p(2,3) m by (intro exI [of _ p] exI [of _ ?m]) simp
qed

lemma receive_message:
  assumes rx: "u_rx_msg s = None" and pool: "pool_inv (u_pool s)" "free_list (u_pool s) = h # hs" and h: "h < length (u_msgs s)"
    and bs: "bs \<noteq> []" "length bs \<le> BUF_SIZE - 12" "length bs \<le> length (msg_data (u_msgs s ! h))"
    and q: "mq_inv (u_rx_q s)" "length (mq_list (u_rx_q s)) < 7"
  shows "\<exists>p m' q. usb_receive (usb_packets bs) s = Inr (s\<lparr>u_pool := p, u_msgs := (u_msgs s)[h := m'], u_rx_q := q\<rparr>) \<and>
    pool_inv p \<and> free_list p = hs \<and> msg_bytes m' = bs \<and> length (msg_data m') = length (msg_data (u_msgs s ! h)) \<and>
    mq_inv q \<and> mq_list q = mq_list (u_rx_q s) @ [h]"
proof -
  let ?p = "start_hdr bs @ take 60 bs" and ?n = "length (take 60 bs)"
  have c: "usb_packets bs = ?p # cont_packets (drop 60 bs)" using bs(1) by (simp add: usb_packets_def packets_from_def)
  have len: "length bs < 65536" using bs(2) by (simp add: BUF_SIZE_def)
  obtain p m0 where a: "usb_msg_alloc (of_nat (length bs)) s = Inr (h, s\<lparr>u_pool := p, u_msgs := (u_msgs s)[h := m0]\<rparr>)" "pool_inv p" "free_list p = hs"
      "msg_inv m0" "msg_bytes m0 = []" "u_room m0 = length bs" "msg_data m0 = msg_data (u_msgs s ! h)"
    using usb_msg_alloc_ok [OF pool h bs(2,3)] by blast
  let ?s0 = "s\<lparr>u_pool := p, u_msgs := (u_msgs s)[h := m0]\<rparr>"
  have s0: "h < length (u_msgs ?s0)" "u_msgs ?s0 ! h = m0" using h by simp_all
  have w: "min (int (length ?p) - 4) (msg_write_avail m0) = int ?n" using avail_room [OF a(4)] a(6) by simp
  have n: "?n \<le> u_room m0" "?n < 2 ^ 31" "u_room m0 - ?n = length (drop 60 bs)" unfolding a(6) by simp_all
  have t: "take ?n (take 60 bs) = take 60 bs" by (rule take_all) (rule order_refl)
  obtain m1 where m1: "usb_append h (take 60 bs) (int ?n) ?s0 = Inr (?s0\<lparr>u_msgs := (u_msgs ?s0)[h := m1]\<rparr>)" "msg_inv m1"
      "msg_bytes m1 = take 60 bs" "u_room m1 = length (drop 60 bs)" "length (msg_data m1) = length (msg_data m0)"
    using usb_append_ok [OF s0(1) _ order_refl, unfolded s0(2), OF a(4) n(1,2), unfolded n(3) t a(5) append_Nil] by blast
  let ?s1 = "?s0\<lparr>u_msgs := (u_msgs ?s0)[h := m1]\<rparr>"
  have s1: "h < length (u_msgs ?s1)" "u_msgs ?s1 ! h = m1" "mq_inv (u_rx_q ?s1)" "length (mq_list (u_rx_q ?s1)) < 7" using h q by simp_all
  have hdr: "?p = BTUSB_MSG_START # 0 # of_nat (length bs) # of_nat (length bs div 256) # take 60 bs" by (simp add: start_hdr_def)
  have step: "usb_bulk_out_handler ?p (int (length ?p)) s = usb_rx_done h ?s1"
    unfolding usb_bulk_out_handler_def rx option.case using h m1(1) w a(1) start_size [OF len] unfolding hdr by simp
  note done1 = usb_rx_done_ok [OF s1(1) _ s1(3,4), unfolded s1(2), OF m1(2), unfolded m1(4)]
  show ?thesis
  proof (cases "drop 60 bs = []")
    case True
    then obtain q' where q': "usb_rx_done h ?s1 = Inr (?s1\<lparr>u_rx_q := q', u_rx_msg := None\<rparr>)" "mq_inv q'" "mq_list q' = mq_list (u_rx_q s) @ [h]"
      using done1 by auto
    have "take 60 bs = bs" using True by simp
    then show ?thesis unfolding c True using step q' m1 a rx by (intro exI [of _ p] exI [of _ m1] exI [of _ q']) simp
  next
    case False
    let ?s2 = "?s1\<lparr>u_rx_msg := Some h\<rparr>"
    have d: "usb_rx_done h ?s1 = Inr ?s2" using done1 False by (auto split: if_splits)
    obtain m' q' where r: "usb_receive (cont_packets (drop 60 bs)) ?s2 = Inr (?s2\<lparr>u_msgs := (u_msgs ?s2)[h := m'], u_rx_q := q', u_rx_msg := None\<rparr>)"
        "msg_bytes m' = msg_bytes (u_msgs ?s2 ! h) @ drop 60 bs" "length (msg_data m') = length (msg_data (u_msgs ?s2 ! h))"
        "mq_inv q'" "mq_list q' = mq_list (u_rx_q ?s2) @ [h]"
      using receive_cont [of ?s2 h "drop 60 bs"] h q m1 False by auto
    have "?s2\<lparr>u_msgs := (u_msgs ?s2)[h := m'], u_rx_q := q', u_rx_msg := None\<rparr> = s\<lparr>u_pool := p, u_msgs := (u_msgs s)[h := m'], u_rx_q := q'\<rparr>"
      using rx by simp
    then show ?thesis unfolding c using step d r h m1(3,5) a by (intro exI [of _ p] exI [of _ m'] exI [of _ q']) simp
  qed
qed

section \<open>From one device to another\<close>

definition rx_wf :: "usb \<Rightarrow> bool" where
  "rx_wf r \<longleftrightarrow> u_rx_msg r = None \<and> mq_inv (u_rx_q r) \<and> pool_inv (u_pool r) \<and>
     (\<forall>h \<in> set (free_list (u_pool r)). h < length (u_msgs r) \<and> h \<notin> set (mq_list (u_rx_q r))) \<and>
     (\<forall>h < length (u_msgs r). BUF_SIZE - 12 \<le> length (msg_data (u_msgs r ! h)))"

text \<open>The contents of the messages in a queue.\<close>

definition q_bytes :: "usb \<Rightarrow> nat msg_queue \<Rightarrow> u8 list list" where
  "q_bytes s q = map (u_bytes s) (mq_list q)"

lemma receive_append: "usb_receive (ps @ qs) r = bnd (usb_receive ps r) (usb_receive qs)"
proof (induction ps arbitrary: r)
  case (Cons p ps)
  then have "usb_receive (ps @ qs) = (\<lambda>r. bnd (usb_receive ps r) (usb_receive qs))" by (intro ext)
  then show ?case by (simp add: bnd_assoc)
qed simp

lemma receive_all:
  assumes "rx_wf r" and "length bss \<le> length (free_list (u_pool r))" and "length (mq_list (u_rx_q r)) + length bss \<le> 7"
    and "\<forall>bs \<in> set bss. bs \<noteq> [] \<and> length bs \<le> BUF_SIZE - 12"
  shows "\<exists>r'. usb_receive (concat (map usb_packets bss)) r = Inr r' \<and> rx_wf r' \<and> q_bytes r' (u_rx_q r') = q_bytes r (u_rx_q r) @ bss"
  using assms
proof (induction bss arbitrary: r)
  case (Cons bs bss)
  obtain h hs where f: "free_list (u_pool r) = h # hs" using Cons.prems(2) by (cases "free_list (u_pool r)") auto
  have d: "distinct (h # hs)" using Cons.prems(1) f by (simp add: rx_wf_def pool_inv_def)
  have h: "h < length (u_msgs r)" "h \<notin> set (mq_list (u_rx_q r))" "BUF_SIZE - 12 \<le> length (msg_data (u_msgs r ! h))"
    using Cons.prems(1) f by (auto simp: rx_wf_def)
  have b: "bs \<noteq> []" "length bs \<le> BUF_SIZE - 12" "length bs \<le> length (msg_data (u_msgs r ! h))" using Cons.prems(4) h(3) by auto
  have w: "u_rx_msg r = None" "pool_inv (u_pool r)" "mq_inv (u_rx_q r)" "length (mq_list (u_rx_q r)) < 7"
    using Cons.prems(1,3) by (auto simp: rx_wf_def)
  obtain p m q where r1: "usb_receive (usb_packets bs) r = Inr (r\<lparr>u_pool := p, u_msgs := (u_msgs r)[h := m], u_rx_q := q\<rparr>)"
      "pool_inv p" "free_list p = hs" "msg_bytes m = bs" "length (msg_data m) = length (msg_data (u_msgs r ! h))" "mq_inv q"
      "mq_list q = mq_list (u_rx_q r) @ [h]"
    using receive_message [OF w(1,2) f h(1) b w(3,4)] by blast
  let ?r = "r\<lparr>u_pool := p, u_msgs := (u_msgs r)[h := m], u_rx_q := q\<rparr>"
  have other: "g \<noteq> h \<Longrightarrow> u_bytes ?r g = u_bytes r g" for g by (simp add: u_bytes_def)
  have same: "u_bytes ?r h = bs" using h(1) r1(4) by (simp add: u_bytes_def)
  have "g < length (u_msgs ?r) \<Longrightarrow> BUF_SIZE - 12 \<le> length (msg_data (u_msgs ?r ! g))" for g
    using Cons.prems(1) h(3) r1(5) by (cases "g = h") (auto simp: rx_wf_def)
  then have wf: "rx_wf ?r" using Cons.prems(1) f d r1 by (auto simp: rx_wf_def)
  have "map (u_bytes ?r) (mq_list (u_rx_q r)) = map (u_bytes r) (mq_list (u_rx_q r))" by (intro map_cong refl) (rule other, use h(2) in auto)
  then have qb: "q_bytes ?r (u_rx_q ?r) = q_bytes r (u_rx_q r) @ [bs]" using same r1(7) by (simp add: q_bytes_def)
  have "length bss \<le> length (free_list (u_pool ?r))" "length (mq_list (u_rx_q ?r)) + length bss \<le> 7" "\<forall>bs \<in> set bss. bs \<noteq> [] \<and> length bs \<le> BUF_SIZE - 12"
    using Cons.prems(2-4) f r1(3,7) by simp_all
  from Cons.IH [OF wf this] obtain r' where "usb_receive (concat (map usb_packets bss)) ?r = Inr r'" "rx_wf r'"
      "q_bytes r' (u_rx_q r') = q_bytes ?r (u_rx_q ?r) @ bss" by blast
  then show ?case using r1(1) qb by (simp add: receive_append)
qed (simp add: q_bytes_def)

text \<open>
  C5 (roundtrip).  What \<open>usb_work\<close> takes apart \<open>usb_bulk_out_handler\<close> puts together: whatever the states of the
  two endpoint buffers are, when at least as many calls find a free one as there are packets, all messages queued
  for the host are sent, and a receiver with free blocks and room in its queue gets the same bytes in the same order.
\<close>

theorem usb_transfer:
  assumes "tx_wf s" and "u_tx_msg s = None" and "\<forall>bs \<in> set (q_bytes s (u_tx_q s)). length bs \<le> BUF_SIZE - 12"
    and "length (pending s) \<le> length (filter (\<lambda>f. \<not> (fst f \<and> snd f)) fs)"
    and "rx_wf r" and "length (mq_list (u_tx_q s)) \<le> length (free_list (u_pool r))"
    and "length (mq_list (u_rx_q r)) + length (mq_list (u_tx_q s)) \<le> 7"
  shows "\<exists>ps s' r'. usb_works fs s = Inr (ps, s') \<and> u_tx_msg s' = None \<and> mq_list (u_tx_q s') = [] \<and>
    usb_receive ps r = Inr r' \<and> u_rx_msg r' = None \<and> q_bytes r' (u_rx_q r') = q_bytes r (u_rx_q r) @ q_bytes s (u_tx_q s)"
proof -
  obtain ps s' where w: "usb_works fs s = Inr (ps, s')" "tx_wf s'" "pending s = ps @ pending s'" "pending s' = []"
    using usb_works_ok [OF assms(1), of fs] assms(4) by blast
  let ?bss = "q_bytes s (u_tx_q s)"
  have ps: "ps = concat (map usb_packets ?bss)" using w(3,4) assms(2) by (simp add: pending_def q_bytes_def comp_def)
  have "\<forall>bs \<in> set ?bss. bs \<noteq> [] \<and> length bs \<le> BUF_SIZE - 12"
    using assms(1-3) by (auto simp: tx_wf_def tx_live_def q_bytes_def)
  then obtain r' where "usb_receive ps r = Inr r'" "rx_wf r'" "q_bytes r' (u_rx_q r') = q_bytes r (u_rx_q r) @ ?bss"
    using receive_all [OF assms(5), of ?bss] assms(6,7) unfolding ps by (auto simp: q_bytes_def)
  then show ?thesis using w(1) pending_empty [OF w(2)] w(4) by (auto simp: rx_wf_def)
qed

text \<open>A sender with one message of two bytes, and a receiver with all blocks free.\<close>

theorem usb_transfer_witness:
  "\<exists>s r ps s' r'. usb_works [(True, True), (False, True)] s = Inr (ps, s') \<and> usb_receive ps r = Inr r' \<and> q_bytes r' (u_rx_q r') = [[1, 2]]"
proof -
  obtain p where p: "pool_inv p" "free_list p = 0 # [1..<16]"
    using mem_pool_init_ok [of "\<lparr>pool_init = False, pool_li = None, el_li = replicate 16 None\<rparr>"] by (auto simp: upt_conv_Cons)
  obtain p1 where p1: "pool_inv p1" "free_list p1 = [1..<16]" using pool_alloc_cons [OF p, of 0] by auto
  let ?m = "\<lparr>data_len = 2, msg_read = 0, msg_write = 2, msg_data = [1, 2]\<rparr>"
  obtain q0 :: "nat msg_queue" where q0: "mq_inv q0" "mq_list q0 = []"
  proof
    let ?q = "\<lparr>mq_head = 0, mq_tail = 0, mq_msg = replicate 8 0\<rparr> :: nat msg_queue"
    show "mq_inv ?q" "mq_list ?q = []" by (simp_all add: mq_inv_def mq_list_def ring_list_def ring_len_def)
  qed
  obtain q1 :: "nat msg_queue" where q1: "mq_inv q1" "mq_list q1 = [0]"
    using msg_enqueue_cases [OF q0(1), of 0] q0(2) by auto
  let ?s = "\<lparr>u_pool = p1, u_msgs = [?m], u_rx_q = q0, u_tx_q = q1, u_rx_msg = None, u_tx_msg = None\<rparr>"
  let ?r = "\<lparr>u_pool = p, u_msgs = replicate 16 \<lparr>data_len = 0, msg_read = 0, msg_write = 0, msg_data = replicate 360 0\<rparr>,
    u_rx_q = q0, u_tx_q = q0, u_rx_msg = None, u_tx_msg = None\<rparr>"
  note q = q0 q1
  have b: "u_bytes ?s 0 = [1, 2]" by (simp add: u_bytes_def msg_bytes_def)
  have 1: "tx_wf ?s" using q p1 b by (simp add: tx_wf_def tx_live_def u_ok_def msg_inv_def)
  have pe: "pending ?s = [[BTUSB_MSG_START, 0, 2, 0, 1, 2]]" using q b by (simp add: pending_def usb_packets_def packets_from_def start_hdr_def)
  have 2: "rx_wf ?r" using q p by (simp add: rx_wf_def BUF_SIZE_def)
  have "\<forall>bs \<in> set (q_bytes ?s (u_tx_q ?s)). length bs \<le> BUF_SIZE - 12" using q b by (simp add: q_bytes_def BUF_SIZE_def)
  from usb_transfer [OF 1 _ this _ 2, of "[(True, True), (False, True)]"] obtain ps s' r' where
      "usb_works [(True, True), (False, True)] ?s = Inr (ps, s')" "usb_receive ps ?r = Inr r'"
      "q_bytes r' (u_rx_q r') = q_bytes ?r (u_rx_q ?r) @ q_bytes ?s (u_tx_q ?s)"
    using q pe p by auto
  moreover have "q_bytes ?r (u_rx_q ?r) @ q_bytes ?s (u_tx_q ?s) = [[1, 2]]" using q b by (simp add: q_bytes_def)
  ultimately show ?thesis by metis
qed

text \<open>
  C39 (error).  The driver does not expect an empty packet, or a failed read, in the middle of a message: when the byte left in the
  buffer from the packet before is the type of a continuation, the size to copy is negative, passes the test of
  \<open>msg_put\<close>, and \<open>memcpy\<close> runs out of the buffers.
\<close>

theorem usb_empty_packet_overruns:
  assumes "u_rx_msg s = Some h" and "h < length (u_msgs s)" and "msg_inv (u_msgs s ! h)" and "bulk_size \<in> {-1, 0}"
  shows "usb_bulk_out_handler (BTUSB_MSG_CONT # d) bulk_size s = Inl Oob"
proof -
  have av: "0 \<le> msg_write_avail (u_msgs s ! h)" using assms(3) by (simp add: avail_room)
  then have w: "min (bulk_size - 1) (msg_write_avail (u_msgs s ! h)) = bulk_size - 1" using assms(4) by auto
  have t: "to_int (word_of_int (bulk_size - 1)) = bulk_size - 1" using assms(4) by (auto simp: to_int_def)
  have "usb_append h d (bulk_size - 1) s = Inl Oob"
    using assms(2,4) av t by (auto simp: usb_append_def msg_put_def Let_def)
  then show ?thesis unfolding usb_bulk_out_handler_def assms(1) option.case using assms(2) w by simp
qed

theorem usb_empty_packet_overruns_witness:
  "\<exists>s. u_rx_msg s = Some 0 \<and> msg_inv (u_msgs s ! 0) \<and> usb_bulk_out_handler [BTUSB_MSG_CONT] 0 s = Inl Oob"
proof -
  let ?s = "\<lparr>u_pool = \<lparr>pool_init = True, pool_li = None, el_li = replicate 16 None\<rparr>,
    u_msgs = [\<lparr>data_len = 2, msg_read = 0, msg_write = 1, msg_data = [1, 2]\<rparr>],
    u_rx_q = \<lparr>mq_head = 0, mq_tail = 0, mq_msg = replicate 8 0\<rparr>, u_tx_q = \<lparr>mq_head = 0, mq_tail = 0, mq_msg = replicate 8 0\<rparr>,
    u_rx_msg = Some 0, u_tx_msg = None\<rparr>"
  show ?thesis using usb_empty_packet_overruns [of ?s 0 0 "[]"] by (intro exI [of _ ?s]) (simp add: msg_inv_def)
qed
end
