(* ===== verification/Tdma.thy ===== *)
theory Tdma
  imports Prelude "HOL-Library.Multiset" "HOL-Library.Sublist"
begin

text \<open>
  The TDMA scheduler of src/btphy/tdma_sched.c: a wheel of sixteen buckets of at most four items, the
  priority order in which the items of the current bucket run, and the view of the wheel as the items
  due in each of the next sixteen frames.
\<close>

section \<open>State\<close>

abbreviation TDMASCHED_NUM_FRAMES :: nat where
  "TDMASCHED_NUM_FRAMES \<equiv> 16"

abbreviation TDMASCHED_NUM_CB :: nat where
  "TDMASCHED_NUM_CB \<equiv> 4"

text \<open>A callback pointer: NULL, the end marker \<open>tdma_end_set\<close>, or a function.\<close>

datatype 'c callback = Cb_null | Cb_end_set | Cb 'c

record 'c sched_item =
  cb :: "'c callback"
  p1 :: u8
  p2 :: u8
  p3 :: u16
  prio :: int
  item_flags :: u16

record 'c sched_bucket =
  item :: "'c sched_item list"
  num_items :: nat

record 'c tdma_scheduler =
  bucket :: "'c sched_bucket list"
  cur_bucket :: nat

section \<open>Operations\<close>

definition wrap_bucket :: "u8 \<Rightarrow> 'c tdma_scheduler \<Rightarrow> nat" where
  "wrap_bucket offset s = (cur_bucket s + unat offset) mod TDMASCHED_NUM_FRAMES"

definition tdma_schedule ::
    "u8 \<Rightarrow> 'c callback \<Rightarrow> u8 \<Rightarrow> u8 \<Rightarrow> u16 \<Rightarrow> int \<Rightarrow> 'c tdma_scheduler \<Rightarrow> (int \<times> 'c tdma_scheduler) res" where
  "tdma_schedule frame_offset c q1 q2 q3 pr s =
     (let bucket_nr = wrap_bucket frame_offset s in
      bnd (rd (bucket s) bucket_nr) (\<lambda>b.
      if num_items b \<ge> TDMASCHED_NUM_CB then Inr (-1, s)
      else
        bnd (rd (item b) (num_items b)) (\<lambda>it.
        bnd (wr (item b) (num_items b) (it\<lparr>cb := c, p1 := q1, p2 := q2, p3 := q3, prio := pr\<rparr>)) (\<lambda>its.
        bnd (wr (bucket s) bucket_nr (b\<lparr>item := its, num_items := num_items b + 1\<rparr>)) (\<lambda>bs.
        Inr (0, s\<lparr>bucket := bs\<rparr>))))))"

text \<open>The loop over a set of items; \<open>bucket_nr\<close>, \<open>frame_offset\<close> and \<open>j\<close> are its variables.\<close>

fun schedule_set_loop ::
    "'c sched_item list \<Rightarrow> u8 \<Rightarrow> nat \<Rightarrow> int \<Rightarrow> u16 \<Rightarrow> 'c tdma_scheduler \<Rightarrow> (int \<times> 'c tdma_scheduler) res" where
  "schedule_set_loop [] frame_offset bucket_nr j q3 s = Inl Oob"
| "schedule_set_loop (it # item_set) frame_offset bucket_nr j q3 s =
     (case cb it of
        Cb_end_set \<Rightarrow> Inr (j, s)
      | Cb_null \<Rightarrow> schedule_set_loop item_set (frame_offset + 1) (wrap_bucket (frame_offset + 1) s) (j + 1) q3 s
      | Cb c \<Rightarrow>
          bnd (rd (bucket s) bucket_nr) (\<lambda>b.
          if num_items b \<ge> TDMASCHED_NUM_CB then Inr (-1, s)
          else
            bnd (wr (item b) (num_items b) (it\<lparr>p3 := q3\<rparr>)) (\<lambda>its.
            bnd (wr (bucket s) bucket_nr (b\<lparr>item := its, num_items := num_items b + 1\<rparr>)) (\<lambda>bs.
            schedule_set_loop item_set frame_offset bucket_nr j q3 (s\<lparr>bucket := bs\<rparr>)))))"

definition tdma_schedule_set ::
    "u8 \<Rightarrow> 'c sched_item list \<Rightarrow> u16 \<Rightarrow> 'c tdma_scheduler \<Rightarrow> (int \<times> 'c tdma_scheduler) res" where
  "tdma_schedule_set frame_offset item_set q3 s =
     schedule_set_loop item_set frame_offset (wrap_bucket frame_offset s) 0 q3 s"

definition tdma_sched_advance :: "'c tdma_scheduler \<Rightarrow> 'c tdma_scheduler" where
  "tdma_sched_advance s = s\<lparr>cur_bucket := wrap_bucket 1 s\<rparr>"

definition tdma_sched_flag_scan :: "'c tdma_scheduler \<Rightarrow> u16 res" where
  "tdma_sched_flag_scan s =
     bnd (rd (bucket s) (cur_bucket s)) (\<lambda>b.
     loop (num_items b) (\<lambda>i flags. bnd (rd (item b) i) (\<lambda>it. Inr (flags OR item_flags it))) 0)"

text \<open>\<open>item_i\<close> is the index of the item the pointer of that name points to.\<close>

definition sort_pass :: "'c sched_bucket \<Rightarrow> nat \<Rightarrow> nat list \<Rightarrow> nat list res" where
  "sort_pass b i seq =
     bnd (rd seq i) (\<lambda>item_i.
     bnd (loop (num_items b - Suc i) (\<lambda>d (item_i, seq).
       let j = Suc i + d in
       bnd (rd seq j) (\<lambda>item_j.
       bnd (rd (item b) item_i) (\<lambda>it_i.
       bnd (rd (item b) item_j) (\<lambda>it_j.
       if prio it_i > prio it_j
       then bnd (rd seq i) (\<lambda>k.
            bnd (rd seq j) (\<lambda>sj.
            bnd (wr seq i sj) (\<lambda>seq.
            bnd (wr seq j k) (\<lambda>seq. Inr (item_j, seq)))))
       else Inr (item_i, seq))))) (item_i, seq)) (\<lambda>(item_i, seq). Inr seq))"

definition tdma_sched_bucket_sort :: "'c sched_bucket \<Rightarrow> nat list res" where
  "tdma_sched_bucket_sort b = loop (num_items b) (sort_pass b) [0..<TDMASCHED_NUM_CB]"

text \<open>
  Running the items: \<open>call\<close> is the meaning of the callback functions on the scheduler and the rest
  of the state, which a callback may both change.  The bound \<open>num_items\<close> is read again before every pass;
  \<open>seq\<close> has four entries, so a fifth pass faults and no more than five are needed.
\<close>

type_synonym ('c, 's) call = "'c \<Rightarrow> u8 \<Rightarrow> u8 \<Rightarrow> u16 \<Rightarrow> 'c tdma_scheduler \<times> 's \<Rightarrow> (int \<times> 'c tdma_scheduler \<times> 's) res"

definition call_item :: "('c, 's) call \<Rightarrow> 'c sched_item \<Rightarrow> 'c tdma_scheduler \<times> 's \<Rightarrow> (int \<times> 'c tdma_scheduler \<times> 's) res" where
  "call_item call it st =
     (case cb it of
        Cb_null \<Rightarrow> Inl Oob
      | Cb_end_set \<Rightarrow> Inr (0, st)
      | Cb c \<Rightarrow> call c (p1 it) (p2 it) (p3 it) st)"

primrec exec_loop :: "nat \<Rightarrow> ('c, 's) call \<Rightarrow> nat \<Rightarrow> nat list \<Rightarrow> nat \<Rightarrow> 'c tdma_scheduler \<times> 's \<Rightarrow> (int \<times> 'c tdma_scheduler \<times> 's) res" where
  "exec_loop 0 call nr seq i st = Inl Oob"
| "exec_loop (Suc n) call nr seq i st =
     bnd (rd (bucket (fst st)) nr) (\<lambda>b.
     if i < num_items b
     then
       bnd (rd seq i) (\<lambda>k.
       bnd (rd (item b) k) (\<lambda>it.
       bnd (call_item call it st) (\<lambda>(rc, st).
       if rc < 0 then Inr (rc, st) else exec_loop n call nr seq (Suc i) st)))
     else
       bnd (wr (bucket (fst st)) nr (b\<lparr>num_items := 0\<rparr>)) (\<lambda>bs.
       Inr (int i, (fst st)\<lparr>bucket := bs\<rparr>, snd st)))"

definition tdma_sched_execute :: "('c, 's) call \<Rightarrow> 'c tdma_scheduler \<times> 's \<Rightarrow> (int \<times> 'c tdma_scheduler \<times> 's) res" where
  "tdma_sched_execute call st =
     bnd (rd (bucket (fst st)) (cur_bucket (fst st))) (\<lambda>b.
     bnd (tdma_sched_bucket_sort b) (\<lambda>seq.
     exec_loop (TDMASCHED_NUM_CB + 1) call (cur_bucket (fst st)) seq 0 st))"

definition tdma_sched_reset :: "'c tdma_scheduler \<Rightarrow> 'c tdma_scheduler res" where
  "tdma_sched_reset s =
     bnd (loop TDMASCHED_NUM_FRAMES (\<lambda>nr bs.
       bnd (rd bs nr) (\<lambda>b.
       if nr \<noteq> cur_bucket s then wr bs nr (b\<lparr>num_items := 0\<rparr>) else Inr bs)) (bucket s)) (\<lambda>bs.
     Inr (s\<lparr>bucket := bs\<rparr>))"

section \<open>Invariant and view\<close>

definition bucket_ok :: "'c sched_bucket \<Rightarrow> bool" where
  "bucket_ok b \<longleftrightarrow> length (item b) = TDMASCHED_NUM_CB \<and> num_items b \<le> TDMASCHED_NUM_CB"

definition sched_inv :: "'c tdma_scheduler \<Rightarrow> bool" where
  "sched_inv s \<longleftrightarrow> cur_bucket s < TDMASCHED_NUM_FRAMES \<and> length (bucket s) = TDMASCHED_NUM_FRAMES \<and>
     (\<forall>b \<in> set (bucket s). bucket_ok b)"

definition bucket_items :: "'c sched_bucket \<Rightarrow> 'c sched_item list" where
  "bucket_items b = take (num_items b) (item b)"

text \<open>The items due in \<open>k\<close> frames.\<close>

definition due :: "'c tdma_scheduler \<Rightarrow> nat \<Rightarrow> 'c sched_item list" where
  "due s k = bucket_items (bucket s ! ((cur_bucket s + k) mod TDMASCHED_NUM_FRAMES))"

lemma sched_bucket: "sched_inv s \<Longrightarrow> n < 16 \<Longrightarrow> bucket_ok (bucket s ! n)"
  by (simp add: sched_inv_def)

lemma due_wraps: "due s (k mod 16) = due s k"
  by (simp add: due_def mod_simps)

lemma wheel_neq: "c < 16 \<Longrightarrow> j < 16 \<Longrightarrow> k < 16 \<Longrightarrow> (c + j) mod 16 = (c + k) mod (16 :: nat) \<longleftrightarrow> j = k"
  by (auto simp: mod_if)

section \<open>The priority order\<close>

text \<open>
  After \<open>i\<close> passes the first \<open>i\<close> positions hold the least priorities in order; the positions from
  \<open>num_items\<close> on are untouched.
\<close>

definition sorted_upto :: "'c sched_bucket \<Rightarrow> nat \<Rightarrow> nat list \<Rightarrow> bool" where
  "sorted_upto b i seq \<longleftrightarrow> mset seq = mset [0..<4] \<and> (\<forall>c. num_items b \<le> c \<and> c < 4 \<longrightarrow> seq ! c = c) \<and>
     (\<forall>a < i. \<forall>c. a < c \<and> c < num_items b \<longrightarrow> prio (item b ! (seq ! a)) \<le> prio (item b ! (seq ! c)))"

lemma sorted_upto_len: "sorted_upto b i seq \<Longrightarrow> length seq = 4 \<and> (\<forall>k < 4. seq ! k < 4)"
proof -
  assume "sorted_upto b i seq"
  then have m: "mset seq = mset [0..<4]" by (simp add: sorted_upto_def)
  then have l: "length seq = 4" using size_mset [of seq] by (metis diff_zero length_upt size_mset)
  have "set seq = set [0..<4]" using m by (metis set_mset_mset)
  then have "k < 4 \<Longrightarrow> seq ! k < 4" for k using l nth_mem [of k seq] by auto
  then show "length seq = 4 \<and> (\<forall>k < 4. seq ! k < 4)" using l by blast
qed

lemma sort_pass_ok:
  assumes b: "bucket_ok b" and i: "i < num_items b" and s: "sorted_upto b i seq"
  shows "\<exists>seq'. sort_pass b i seq = Inr seq' \<and> sorted_upto b (Suc i) seq'"
proof -
  let ?P = "\<lambda>k. prio (item b ! k)"
  define f where "f = (\<lambda>d (item_i, seq).
       let j = Suc i + d in
       bnd (rd seq j) (\<lambda>item_j.
       bnd (rd (item b) item_i) (\<lambda>it_i.
       bnd (rd (item b) item_j) (\<lambda>it_j.
       if prio it_i > prio it_j
       then bnd (rd seq i) (\<lambda>k.
            bnd (rd seq j) (\<lambda>sj.
            bnd (wr seq i sj) (\<lambda>seq.
            bnd (wr seq j k) (\<lambda>seq. Inr (item_j, seq)))))
       else Inr (item_i, seq)))))"
  define I where "I = (\<lambda>d (x, sq). x = sq ! i \<and> sorted_upto b i sq \<and>
      (\<forall>c. i < c \<and> c < Suc i + d \<longrightarrow> ?P (sq ! i) \<le> ?P (sq ! c)))"
  have n: "num_items b \<le> 4" "length (item b) = 4" using b by (simp_all add: bucket_ok_def)
  have "\<exists>r. loop (num_items b - Suc i) f (seq ! i, seq) = Inr r \<and> I (num_items b - Suc i) r"
  proof (rule loop_inv)
    show "I 0 (seq ! i, seq)" using s by (auto simp: I_def)
  next
    fix d r assume d: "d < num_items b - Suc i" and "I d r"
    then obtain sq where r: "r = (sq ! i, sq)" and sq: "sorted_upto b i sq"
        and le: "\<And>c. i < c \<Longrightarrow> c < Suc i + d \<Longrightarrow> ?P (sq ! i) \<le> ?P (sq ! c)"
      by (cases r) (auto simp: I_def)
    let ?j = "Suc i + d"
    have j: "?j < num_items b" "i < ?j" "?j < 4" "i < 4" using d n by linarith+
    have l: "length sq = 4" "sq ! i < 4" "sq ! ?j < 4" using sorted_upto_len [OF sq] j by auto
    show "\<exists>r'. f d r = Inr r' \<and> I (Suc d) r'"
    proof (cases "?P (sq ! ?j) < ?P (sq ! i)")
      case True
      let ?sq = "sq[i := sq ! ?j, ?j := sq ! i]"
      have nth: "?sq ! k = (if k = i then sq ! ?j else if k = ?j then sq ! i else sq ! k)" if "k < 4" for k
        using that l j by (simp add: nth_list_update)
      have "mset ?sq = mset sq" using j l by (intro mset_swap) simp_all
      moreover have "?sq ! c = c" if "num_items b \<le> c \<and> c < 4" for c
      proof -
        have "c \<noteq> i" "c \<noteq> ?j" "sq ! c = c" using that j sq by (auto simp: sorted_upto_def)
        then show ?thesis using nth [of c] that by simp
      qed
      moreover have "?P (?sq ! x) \<le> ?P (?sq ! c)" if x: "x < i" and c: "x < c \<and> c < num_items b" for x c
      proof -
        have le': "?P (sq ! x) \<le> ?P (sq ! y)" if "x < y" "y < num_items b" for y
          using sq x that unfolding sorted_upto_def by blast
        have "?sq ! x = sq ! x" using nth [of x] x j by simp
        moreover have "?sq ! c \<in> {sq ! i, sq ! ?j, sq ! c}" using nth [of c] c n(1) by simp
        ultimately show ?thesis using le' [of i] le' [of ?j] le' [of c] x c j by auto
      qed
      ultimately have "sorted_upto b i ?sq"
        using sq unfolding sorted_upto_def by simp
      moreover have "\<forall>c. i < c \<and> c < Suc i + Suc d \<longrightarrow> ?P (?sq ! i) \<le> ?P (?sq ! c)"
      proof (intro allI impI)
        fix c assume c: "i < c \<and> c < Suc i + Suc d"
        show "?P (?sq ! i) \<le> ?P (?sq ! c)"
        proof (cases "c = ?j")
          case False
          then have "c < ?j" using c by simp
          then show ?thesis using le [of c] c True nth [of i] nth [of c] j by auto
        qed (use True nth [of i] nth [of ?j] j in auto)
      qed
      ultimately have "I (Suc d) (sq ! ?j, ?sq)" using nth [OF j(4)] by (simp add: I_def)
      moreover have "f d r = Inr (sq ! ?j, ?sq)" using l j n True by (simp add: f_def r Let_def)
      ultimately show ?thesis by blast
    next
      case False
      then have "I (Suc d) (sq ! i, sq)" using sq le by (auto simp: I_def less_Suc_eq not_less)
      moreover have "f d r = Inr (sq ! i, sq)" using l j n False by (simp add: f_def r Let_def)
      ultimately show ?thesis by blast
    qed
  qed
  then obtain sq where lp: "loop (num_items b - Suc i) f (seq ! i, seq) = Inr (sq ! i, sq)"
      and sq: "sorted_upto b i sq" and le: "\<And>c. i < c \<Longrightarrow> c < num_items b \<Longrightarrow> ?P (sq ! i) \<le> ?P (sq ! c)"
    using i by (auto simp: I_def split: prod.splits)
  have "rd seq i = Inr (seq ! i)" using sorted_upto_len [OF s] i n by simp
  then have "sort_pass b i seq = Inr sq" unfolding sort_pass_def f_def [symmetric] by (simp add: lp)
  moreover have "sorted_upto b (Suc i) sq" using sq le by (auto simp: sorted_upto_def less_Suc_eq)
  ultimately show ?thesis by blast
qed

lemma bucket_sort_ok:
  assumes "bucket_ok b"
  shows "\<exists>seq. tdma_sched_bucket_sort b = Inr seq \<and> sorted_upto b (num_items b) seq"
  unfolding tdma_sched_bucket_sort_def
proof (rule loop_inv)
  show "sorted_upto b 0 [0..<4]" by (simp add: sorted_upto_def)
qed (rule sort_pass_ok [OF assms])

section \<open>The wheel\<close>

lemma length_due: "sched_inv s \<Longrightarrow> length (due s k) = num_items (bucket s ! ((cur_bucket s + k) mod 16))"
  using sched_bucket [of s "(cur_bucket s + k) mod 16"] by (simp add: due_def bucket_items_def bucket_ok_def)

lemma bucket_items_add:
  "bucket_ok b \<Longrightarrow> num_items b < 4 \<Longrightarrow>
    bucket_items (b\<lparr>item := (item b)[num_items b := it], num_items := Suc (num_items b)\<rparr>) = bucket_items b @ [it]"
  by (simp add: bucket_items_def bucket_ok_def take_Suc_conv_app_nth nth_list_update)

text \<open>Adding an item to a bucket, and changing a bucket, seen from the frames.\<close>

lemma due_update:
  assumes "sched_inv s" and "n = (cur_bucket s + k) mod 16"
  shows "due (s\<lparr>bucket := (bucket s)[n := b]\<rparr>) j = (if j mod 16 = k mod 16 then bucket_items b else due s j)"
proof -
  have len: "length (bucket s) = 16" and c: "cur_bucket s < 16" using assms(1) by (simp_all add: sched_inv_def)
  have "(cur_bucket s + k) mod 16 = (cur_bucket s + j) mod 16 \<longleftrightarrow> j mod 16 = k mod 16"
    using wheel_neq [OF c, of "j mod 16" "k mod 16"] by (auto simp: mod_simps)
  then show ?thesis using len by (simp add: due_def assms(2) nth_list_update)
qed

lemma sched_inv_update: "sched_inv s \<Longrightarrow> bucket_ok b \<Longrightarrow> sched_inv (s\<lparr>bucket := (bucket s)[n := b]\<rparr>)"
  using set_update_subset_insert [of "bucket s" n b] by (auto simp: sched_inv_def)

text \<open>Putting an item into the bucket of frame \<open>k\<close>.\<close>

definition push_item :: "nat \<Rightarrow> 'c sched_item \<Rightarrow> 'c tdma_scheduler \<Rightarrow> 'c tdma_scheduler" where
  "push_item n it s = s\<lparr>bucket := (bucket s)[n := (bucket s ! n)\<lparr>item := (item (bucket s ! n))[num_items (bucket s ! n) := it],
     num_items := num_items (bucket s ! n) + 1\<rparr>]\<rparr>"

lemma push_item_due:
  assumes inv: "sched_inv s" and n: "n = (cur_bucket s + k) mod 16" and room: "length (due s k) < 4"
  shows "sched_inv (push_item n it s)" and "cur_bucket (push_item n it s) = cur_bucket s"
    and "due (push_item n it s) j = (if j mod 16 = k mod 16 then due s j @ [it] else due s j)"
proof -
  let ?b = "bucket s ! n"
  have b: "bucket_ok ?b" "num_items ?b < 4" using sched_bucket [OF inv, of n] room length_due [OF inv, of k] n by simp_all
  let ?b' = "?b\<lparr>item := (item ?b)[num_items ?b := it], num_items := Suc (num_items ?b)\<rparr>"
  have p: "push_item n it s = s\<lparr>bucket := (bucket s)[n := ?b']\<rparr>" by (simp add: push_item_def)
  show "sched_inv (push_item n it s)" unfolding p using b by (intro sched_inv_update [OF inv]) (simp add: bucket_ok_def)
  show "cur_bucket (push_item n it s) = cur_bucket s" by (simp add: p)
  have "bucket_items ?b' = due s k @ [it]" using bucket_items_add [OF b, of it] by (simp add: due_def n)
  moreover have "j mod 16 = k mod 16 \<Longrightarrow> due s j = due s k" using due_wraps [of s j] due_wraps [of s k] by simp
  ultimately show "due (push_item n it s) j = (if j mod 16 = k mod 16 then due s j @ [it] else due s j)"
    unfolding p using due_update [OF inv n, of ?b' j] by simp
qed

lemma tdma_schedule_due:
  assumes inv: "sched_inv s"
  shows "if length (due s (unat offset)) = TDMASCHED_NUM_CB
    then tdma_schedule offset c q1 q2 q3 pr s = Inr (-1, s)
    else \<exists>s' it. tdma_schedule offset c q1 q2 q3 pr s = Inr (0, s') \<and> sched_inv s' \<and> cur_bucket s' = cur_bucket s \<and>
      (cb it, p1 it, p2 it, p3 it, prio it) = (c, q1, q2, q3, pr) \<and>
      (\<forall>j. due s' j = (if j mod 16 = unat offset mod 16 then due s j @ [it] else due s j))"
proof -
  let ?n = "wrap_bucket offset s" and ?b = "bucket s ! wrap_bucket offset s"
  have n: "?n < 16" "?n < length (bucket s)" and b: "bucket_ok ?b"
    using inv sched_bucket [OF inv, of ?n] by (simp_all add: wrap_bucket_def sched_inv_def)
  have len: "length (due s (unat offset)) = num_items ?b" using length_due [OF inv] by (simp add: wrap_bucket_def)
  show ?thesis
  proof (cases "num_items ?b = 4")
    case True
    then show ?thesis using n b len by (simp add: tdma_schedule_def Let_def)
  next
    case False
    then have lt: "num_items ?b < 4" using b by (simp add: bucket_ok_def)
    let ?it = "(item ?b ! num_items ?b)\<lparr>cb := c, p1 := q1, p2 := q2, p3 := q3, prio := pr\<rparr>"
    let ?b' = "?b\<lparr>item := (item ?b)[num_items ?b := ?it], num_items := Suc (num_items ?b)\<rparr>"
    let ?s = "s\<lparr>bucket := (bucket s)[?n := ?b']\<rparr>"
    have "tdma_schedule offset c q1 q2 q3 pr s = Inr (0, ?s)"
      using n b lt by (simp add: tdma_schedule_def Let_def bucket_ok_def)
    moreover have "sched_inv ?s" using b lt by (intro sched_inv_update [OF inv]) (simp add: bucket_ok_def)
    moreover have "due ?s j = (if j mod 16 = unat offset mod 16 then due s j @ [?it] else due s j)" for j
      using due_update [OF inv wrap_bucket_def, of offset ?b' j] bucket_items_add [OF b lt, of ?it] due_wraps [of s j]
        due_wraps [of s "unat offset"] by (auto simp: due_def wrap_bucket_def)
    ultimately have "\<exists>s' it. tdma_schedule offset c q1 q2 q3 pr s = Inr (0, s') \<and> sched_inv s' \<and> cur_bucket s' = cur_bucket s \<and>
        (cb it, p1 it, p2 it, p3 it, prio it) = (c, q1, q2, q3, pr) \<and>
        (\<forall>j. due s' j = (if j mod 16 = unat offset mod 16 then due s j @ [it] else due s j))"
      by (intro exI [of _ ?s] exI [of _ ?it] conjI allI) simp_all
    then show ?thesis using False len by simp
  qed
qed

lemma advance_due:
  assumes "sched_inv s"
  shows "sched_inv (tdma_sched_advance s) \<and> due (tdma_sched_advance s) k = due s (Suc k)"
  using assms by (simp add: sched_inv_def tdma_sched_advance_def wrap_bucket_def due_def mod_simps)

lemma reset_due:
  assumes inv: "sched_inv s"
  shows "\<exists>s'. tdma_sched_reset s = Inr s' \<and> sched_inv s' \<and> (\<forall>k. due s' k = (if k mod 16 = 0 then due s k else []))"
proof -
  define I where "I = (\<lambda>n bs. bs = map (\<lambda>m. if m < n \<and> m \<noteq> cur_bucket s then (bucket s ! m)\<lparr>num_items := 0\<rparr> else bucket s ! m) [0..<16])"
  have len: "length (bucket s) = 16" and c: "cur_bucket s < 16" using inv by (simp_all add: sched_inv_def)
  have "\<exists>bs. loop 16 (\<lambda>nr bs. bnd (rd bs nr) (\<lambda>b. if nr \<noteq> cur_bucket s then wr bs nr (b\<lparr>num_items := 0\<rparr>) else Inr bs)) (bucket s) = Inr bs \<and> I 16 bs"
  proof (rule loop_inv)
    show "I 0 (bucket s)" using map_nth [of "bucket s"] len by (simp add: I_def)
  next
    fix n bs assume n: "n < (16 :: nat)" and bs: "I n bs"
    have "length bs = 16" "bs ! n = bucket s ! n" using n bs by (simp_all add: I_def)
    moreover have "I (Suc n) (if n \<noteq> cur_bucket s then bs[n := (bucket s ! n)\<lparr>num_items := 0\<rparr>] else bs)"
      unfolding I_def using n bs
      by (intro nth_equalityI) (auto simp: I_def nth_list_update less_Suc_eq)
    ultimately show "\<exists>bs'. bnd (rd bs n) (\<lambda>b. if n \<noteq> cur_bucket s then wr bs n (b\<lparr>num_items := 0\<rparr>) else Inr bs) = Inr bs' \<and> I (Suc n) bs'"
      using n by (auto split: if_splits)
  qed
  then obtain bs where r: "tdma_sched_reset s = Inr (s\<lparr>bucket := bs\<rparr>)"
      and bs: "bs = map (\<lambda>m. if m \<noteq> cur_bucket s then (bucket s ! m)\<lparr>num_items := 0\<rparr> else bucket s ! m) [0..<16]"
    unfolding tdma_sched_reset_def by (auto simp: I_def)
  have "sched_inv (s\<lparr>bucket := bs\<rparr>)"
    using inv sched_bucket [OF inv] by (auto simp: sched_inv_def bs bucket_ok_def)
  moreover have "due (s\<lparr>bucket := bs\<rparr>) k = (if k mod 16 = 0 then due s k else [])" for k
  proof -
    have "(cur_bucket s + k) mod 16 = cur_bucket s \<longleftrightarrow> k mod 16 = 0"
      using wheel_neq [OF c, of "k mod 16" 0] c by (simp add: mod_simps)
    then show ?thesis by (simp add: due_def bs bucket_items_def)
  qed
  ultimately show ?thesis using r by blast
qed

section \<open>Running a frame\<close>

text \<open>
  What the callbacks of the firmware do to the wheel when they return: they put items at the end of buckets, the
  current one included, and take nothing away.  Whether they return, and what, is left open.
\<close>

definition grows :: "'c tdma_scheduler \<Rightarrow> 'c tdma_scheduler \<Rightarrow> bool" where
  "grows s s' \<longleftrightarrow> sched_inv s' \<and> cur_bucket s' = cur_bucket s \<and> (\<forall>k. prefix (due s k) (due s' k))"

definition calls_append :: "('c, 's) call \<Rightarrow> bool" where
  "calls_append call \<longleftrightarrow> (\<forall>c q1 q2 q3 s x rc s' x'.
     sched_inv s \<longrightarrow> call c q1 q2 q3 (s, x) = Inr (rc, s', x') \<longrightarrow> grows s s')"

lemma grows_refl: "sched_inv s \<Longrightarrow> grows s s"
  by (simp add: grows_def)

lemma grows_trans: "grows s s1 \<Longrightarrow> grows s1 s2 \<Longrightarrow> grows s s2"
  unfolding grows_def by (metis prefix_order.trans)

lemma grows_inv: "grows s s' \<Longrightarrow> sched_inv s'"
  by (simp add: grows_def)

lemma call_item_grows:
  assumes "calls_append call" and "sched_inv s" and "call_item call it (s, x) = Inr (rc, s', x')"
  shows "grows s s'"
proof (cases "cb it")
  case (Cb c)
  then have "call c (p1 it) (p2 it) (p3 it) (s, x) = Inr (rc, s', x')" using assms(3) by (simp add: call_item_def)
  then show ?thesis using assms(1,2) unfolding calls_append_def by blast
qed (use assms in \<open>auto simp: call_item_def grows_refl\<close>)

text \<open>The items called one after the other, each with a result that is not negative.\<close>

inductive runs :: "('c, 's) call \<Rightarrow> 'c sched_item list \<Rightarrow> 'c tdma_scheduler \<times> 's \<Rightarrow> 'c tdma_scheduler \<times> 's \<Rightarrow> bool" for call where
  Done: "runs call [] st st"
| Item: "call_item call it st = Inr (rc, st1) \<Longrightarrow> 0 \<le> rc \<Longrightarrow> runs call its st1 st2 \<Longrightarrow> runs call (it # its) st st2"

inductive_simps runs_simps [simp]: "runs call [] st st'" "runs call (it # its) st st'"

lemma runs_snoc: "runs call its st st1 \<Longrightarrow> call_item call it st1 = Inr (rc, st2) \<Longrightarrow> 0 \<le> rc \<Longrightarrow> runs call (its @ [it]) st st2"
  by (induction rule: runs.induct) auto

lemma due_0: "sched_inv s \<Longrightarrow> due s 0 = bucket_items (bucket s ! cur_bucket s)"
  by (simp add: due_def sched_inv_def)

lemma sorted_upto_perm:
  assumes s: "sorted_upto b n seq" and n: "n = num_items b" "n \<le> 4"
  shows "\<forall>k < n. seq ! k < n" and "mset (take n seq) = mset [0..<n]"
proof -
  have m: "mset seq = mset [0..<4]" using s by (simp add: sorted_upto_def)
  then have d: "distinct seq" by (metis distinct_upt mset_eq_imp_distinct_iff)
  have l: "length seq = 4" "\<And>k. k < 4 \<Longrightarrow> seq ! k < 4" using sorted_upto_len [OF s] by auto
  have fx: "seq ! c = c" if "n \<le> c" "c < 4" for c using s that n(1) by (simp add: sorted_upto_def)
  show lt: "\<forall>k < n. seq ! k < n"
  proof (intro allI impI, rule ccontr)
    fix k assume k: "k < n" "\<not> seq ! k < n"
    then have "seq ! (seq ! k) = seq ! k" using fx [of "seq ! k"] l n(2) by simp
    then have "seq ! k = k" using d k n(2) l by (simp add: nth_eq_iff_index_eq)
    then show False using k by simp
  qed
  have "set (take n seq) \<subseteq> {0..<n}" using lt l n(2) by (auto simp: in_set_conv_nth)
  moreover have "card (set (take n seq)) = n" using d l n(2) by (simp add: distinct_card)
  ultimately have "set (take n seq) = {0..<n}" by (intro card_subset_eq) auto
  then show "mset (take n seq) = mset [0..<n]"
    using d by (metis distinct_take distinct_upt set_eq_iff_mset_eq_distinct set_upt)
qed

text \<open>The items of a bucket in the order the sort puts them.\<close>

definition in_order :: "'c sched_bucket \<Rightarrow> nat list \<Rightarrow> 'c sched_item list" where
  "in_order b seq = map (\<lambda>k. bucket_items b ! (seq ! k)) [0..<num_items b]"

lemma in_order_ok:
  assumes "bucket_ok b" and "sorted_upto b (num_items b) seq"
  shows "mset (in_order b seq) = mset (bucket_items b)"
    and "sorted_wrt (\<lambda>x y. prio x \<le> prio y) (in_order b seq)"
proof -
  let ?n = "num_items b"
  have n: "?n \<le> 4" "length (item b) = 4" using assms(1) by (simp_all add: bucket_ok_def)
  note pm = sorted_upto_perm [OF assms(2) refl n(1)]
  have l: "length seq = 4" using sorted_upto_len [OF assms(2)] by simp
  have "in_order b seq = map ((!) (bucket_items b)) (take ?n seq)"
    using l n by (intro nth_equalityI) (simp_all add: in_order_def)
  then have "mset (in_order b seq) = image_mset ((!) (bucket_items b)) (mset [0..<?n])" using pm(2) by simp
  also have "\<dots> = mset (map ((!) (bucket_items b)) [0..<?n])" by simp
  also have "\<dots> = mset (bucket_items b)"
    using map_nth [of "bucket_items b"] n by (simp add: bucket_items_def)
  finally show "mset (in_order b seq) = mset (bucket_items b)" .
  show "sorted_wrt (\<lambda>x y. prio x \<le> prio y) (in_order b seq)"
    using assms(2) pm(1) unfolding sorted_wrt_iff_nth_less
    by (auto simp: in_order_def sorted_upto_def bucket_items_def)
qed

text \<open>
  How a frame can end when the items \<open>its\<close> are to run, and then those that the calls \<open>added\<close> to the frame, in the order they
  were added: with the fault or the negative result of one of them, all before it having run; or with all of them done,
  their number as the result, the bucket emptied and the other frames as the calls left them.
\<close>

definition frame_ends :: "('c, 's) call \<Rightarrow> 'c sched_item list \<Rightarrow> 'c tdma_scheduler \<times> 's \<Rightarrow> (int \<times> 'c tdma_scheduler \<times> 's) res \<Rightarrow> bool" where
  "frame_ends call its st r \<longleftrightarrow> (\<exists>added front st1. runs call front st st1 \<and> due (fst st1) 0 = due (fst st) 0 @ added \<and>
     (case r of
        Inl e \<Rightarrow> \<exists>it rest. its @ added = front @ it # rest \<and> call_item call it st1 = Inl e
      | Inr (n, s', x') \<Rightarrow>
          if n < 0 then \<exists>it rest. its @ added = front @ it # rest \<and> call_item call it st1 = Inr (n, s', x')
          else its @ added = front \<and> n = int (length front) \<and> x' = snd st1 \<and> sched_inv s' \<and> due s' 0 = [] \<and>
            (\<forall>k. k mod TDMASCHED_NUM_FRAMES \<noteq> 0 \<longrightarrow> due s' k = due (fst st1) k)))"

text \<open>The item the loop takes next is the next one of those that were due in order, and then of those that were added.\<close>

lemma next_item:
  assumes "sorted_upto b (num_items b) seq" and "num_items b \<le> 4" and "bucket_items b1 = bucket_items b @ added"
    and "bucket_ok b" and "bucket_ok b1" and "i < num_items b1"
  shows "rd seq i = Inr (seq ! i)" and "rd (item b1) (seq ! i) = Inr ((in_order b seq @ added) ! i)"
proof -
  note pm = sorted_upto_perm [OF assms(1) refl assms(2)]
  have l: "length seq = 4" "i < 4" using sorted_upto_len [OF assms(1)] assms(5,6) by (simp_all add: bucket_ok_def)
  then show "rd seq i = Inr (seq ! i)" by simp
  have lb: "length (bucket_items b) = num_items b" "length (bucket_items b1) = num_items b1" using assms(4,5) by (simp_all add: bucket_items_def bucket_ok_def)
  have k: "seq ! i < num_items b1 \<and> (in_order b seq @ added) ! i = (bucket_items b @ added) ! (seq ! i)"
  proof (cases "i < num_items b")
    case True
    then have "seq ! i < num_items b" using pm(1) by simp
    moreover have "num_items b \<le> num_items b1" using arg_cong [OF assms(3), of length] lb by simp
    ultimately show ?thesis using True lb by (simp add: in_order_def nth_append)
  next
    case False
    then have "seq ! i = i" using assms(1) l(2) by (simp add: sorted_upto_def)
    then show ?thesis using False assms(6) lb by (simp add: in_order_def nth_append)
  qed
  then have "(in_order b seq @ added) ! i = bucket_items b1 ! (seq ! i)" using assms(3) by simp
  then show "rd (item b1) (seq ! i) = Inr ((in_order b seq @ added) ! i)"
    using k assms(5) by (simp add: bucket_items_def bucket_ok_def)
qed

lemma exec_loop_ends:
  assumes ok: "calls_append call" and s: "sched_inv s" and nr: "nr = cur_bucket s" and b: "b = bucket s ! nr"
    and sq: "sorted_upto b (num_items b) seq"
    and "runs call front (s, x) (s1, x1)" and "grows s s1" and "due s1 0 = due s 0 @ added"
    and "front = take i (in_order b seq @ added)" and "length front = i" and "n + i = 5"
  shows "frame_ends call (in_order b seq) (s, x) (exec_loop n call nr seq i (s1, x1))"
  using assms(6-)
proof (induction n arbitrary: i front s1 x1 added)
  case 0
  have "length (due s1 0) \<le> 4"
    using length_due [OF grows_inv [OF "0.prems"(2)], of 0] sched_bucket [OF grows_inv [OF "0.prems"(2)], of "(cur_bucket s1 + 0) mod 16"]
    by (simp add: bucket_ok_def)
  moreover have "bucket_ok b" "due s 0 = bucket_items b" using s sched_bucket [OF s] due_0 [OF s] by (auto simp: b nr sched_inv_def)
  ultimately have "length (in_order b seq @ added) \<le> 4" using "0.prems"(3) by (simp add: in_order_def bucket_items_def bucket_ok_def)
  then show ?case using "0.prems" by simp
next
  case (Suc n)
  have inv: "sched_inv s1" and cur: "cur_bucket s1 = nr" using Suc.prems(2) nr by (simp_all add: grows_def)
  let ?b = "bucket s1 ! nr"
  have nl: "nr < 16" "nr < length (bucket s1)" using inv cur by (simp_all add: sched_inv_def)
  have bo: "bucket_ok b" "bucket_ok ?b" using sched_bucket [OF s, of nr] sched_bucket [OF inv, of nr] nl(1) by (simp_all add: b)
  have bi: "bucket_items ?b = bucket_items b @ added" using Suc.prems(3) due_0 [OF s] due_0 [OF inv] cur nr b by simp
  have len: "length (in_order b seq @ added) = num_items ?b"
    using arg_cong [OF bi, of length] bo by (simp add: in_order_def bucket_items_def bucket_ok_def)
  show ?case
  proof (cases "i < num_items ?b")
    case False
    let ?b' = "?b\<lparr>num_items := 0\<rparr>" let ?s = "s1\<lparr>bucket := (bucket s1)[nr := ?b']\<rparr>"
    have e: "exec_loop (Suc n) call nr seq i (s1, x1) = Inr (int i, ?s, x1)" using False nl by simp
    have i: "i = num_items ?b" using Suc.prems(4,5) len False by simp
    then have r: "front = in_order b seq @ added" using Suc.prems(4) len by simp
    have b': "bucket_ok ?b'" using bo(2) by (simp add: bucket_ok_def)
    have "nr = (cur_bucket s1 + 0) mod 16" using cur nl by simp
    note du = due_update [OF inv this, of ?b']
    have "due ?s 0 = []" "\<And>k. k mod 16 \<noteq> 0 \<Longrightarrow> due ?s k = due s1 k" unfolding du by (simp_all add: bucket_items_def)
    then show ?thesis unfolding frame_ends_def e
      using Suc.prems(1,3,5) r sched_inv_update [OF inv b'] by (intro exI [of _ added] exI [of _ front] exI [of _ "(s1, x1)"]) simp
  next
    case True
    let ?it = "(in_order b seq @ added) ! i"
    have n4: "num_items b \<le> 4" using bo(1) by (simp add: bucket_ok_def)
    note ni = next_item [OF sq n4 bi bo True]
    have at: "in_order b seq @ added = front @ ?it # drop (Suc i) (in_order b seq @ added)"
      using Suc.prems(4) True len by (metis append_take_drop_id Cons_nth_drop_Suc)
    have e: "exec_loop (Suc n) call nr seq i (s1, x1) =
        bnd (call_item call ?it (s1, x1)) (\<lambda>(rc, st). if rc < 0 then Inr (rc, st) else exec_loop n call nr seq (Suc i) st)"
      using True nl ni by simp
    show ?thesis
    proof (cases "call_item call ?it (s1, x1)")
      case (Inl er)
      then show ?thesis unfolding frame_ends_def e using Suc.prems(1,3) at
        by (intro exI [of _ added] exI [of _ front] exI [of _ "(s1, x1)"]) auto
    next
      case (Inr r)
      obtain rc s2 x2 where r: "call_item call ?it (s1, x1) = Inr (rc, s2, x2)" using Inr by (cases r) auto
      show ?thesis
      proof (cases "rc < 0")
        case True
        then show ?thesis unfolding frame_ends_def e r using Suc.prems(1,3) at r
          by (intro exI [of _ added] exI [of _ front] exI [of _ "(s1, x1)"]) auto
      next
        case False
        have g: "grows s1 s2" by (rule call_item_grows [OF ok inv r])
        then have "prefix (due s1 0) (due s2 0)" by (simp add: grows_def)
        then obtain zs where z: "due s2 0 = due s 0 @ added @ zs" using Suc.prems(3) by (auto elim: prefixE)
        have f: "front @ [?it] = take (Suc i) (in_order b seq @ added @ zs)"
          using Suc.prems(4) True len take_Suc_conv_app_nth [of i "in_order b seq @ added"]
          by (simp only: append_assoc [symmetric] take_append length_append) simp
        have "0 \<le> rc" "length (front @ [?it]) = Suc i" "n + Suc i = 5" using False Suc.prems(5,6) by simp_all
        from Suc.IH [OF runs_snoc [OF Suc.prems(1) r this(1)] grows_trans [OF Suc.prems(2) g] z f this(2,3)]
        show ?thesis unfolding e r using False by simp
      qed
    qed
  qed
qed

text \<open>
  A frame runs the items that are due, each once and in ascending order of priority, then those that the callbacks
  have put into the frame, and nothing else; it fails only when a callback does.  Nothing is assumed about the results of the callbacks.
\<close>

lemma execute_runs_due:
  assumes "calls_append call" and "sched_inv s"
  shows "\<exists>its. mset its = mset (due s 0) \<and> sorted_wrt (\<lambda>a b. prio a \<le> prio b) its \<and>
    (\<forall>x. frame_ends call its (s, x) (tdma_sched_execute call (s, x)))"
proof -
  let ?nr = "cur_bucket s" let ?b = "bucket s ! ?nr"
  have nr: "?nr < 16" "?nr < length (bucket s)" and b: "bucket_ok ?b"
    using assms(2) by (simp_all add: sched_inv_def)
  obtain seq where sq: "tdma_sched_bucket_sort ?b = Inr seq" "sorted_upto ?b (num_items ?b) seq"
    using bucket_sort_ok [OF b] by blast
  note io = in_order_ok [OF b sq(2)]
  have "frame_ends call (in_order ?b seq) (s, x) (exec_loop (4 + 1) call ?nr seq 0 (s, x))" for x
    by (rule exec_loop_ends [OF assms refl refl sq(2) Done grows_refl [OF assms(2)], of "[]"]) simp_all
  moreover have "tdma_sched_execute call (s, x) = exec_loop (4 + 1) call ?nr seq 0 (s, x)" for x
    unfolding tdma_sched_execute_def using nr sq(1) by simp
  ultimately show ?thesis using io due_0 [OF assms(2)] by metis
qed

text \<open>The wheel after a frame that front to its end, and after the step to the next.\<close>

lemma frame_ends_grows:
  assumes "calls_append call" and "runs call its st st'" and "sched_inv (fst st)"
  shows "grows (fst st) (fst st')"
  using assms(2,3)
proof (induction rule: runs.induct)
  case (Item it st rc st1 its st2)
  have "grows (fst st) (fst st1)" using call_item_grows [OF assms(1) Item.prems, of it "snd st" rc "fst st1" "snd st1"] Item.hyps(1) by simp
  then show ?case using Item.IH grows_trans grows_inv by blast
qed (rule grows_refl)

text \<open>Scheduling in a bucket that has room, in the form the proofs below use.\<close>

lemma tdma_schedule_room:
  assumes "sched_inv s" and "length (due s (unat offset)) \<noteq> TDMASCHED_NUM_CB"
  obtains s' it where "tdma_schedule offset c q1 q2 q3 pr s = Inr (0, s')" and "sched_inv s'"
    and "cb it = c" and "p1 it = q1" and "p2 it = q2" and "p3 it = q3" and "prio it = pr"
    and "\<And>j. due s' j = (if j mod 16 = unat offset mod 16 then due s j @ [it] else due s j)"
proof -
  from tdma_schedule_due [OF assms(1), of offset c q1 q2 q3 pr]
  have "\<exists>s' it. tdma_schedule offset c q1 q2 q3 pr s = Inr (0, s') \<and> sched_inv s' \<and> cur_bucket s' = cur_bucket s \<and>
      (cb it, p1 it, p2 it, p3 it, prio it) = (c, q1, q2, q3, pr) \<and>
      (\<forall>j. due s' j = (if j mod TDMASCHED_NUM_FRAMES = unat offset mod TDMASCHED_NUM_FRAMES then due s j @ [it] else due s j))"
    by (simp only: assms(2) if_False)
  then obtain s' it where *: "tdma_schedule offset c q1 q2 q3 pr s = Inr (0, s')" "sched_inv s'"
      "(cb it, p1 it, p2 it, p3 it, prio it) = (c, q1, q2, q3, pr)"
      "\<forall>j. due s' j = (if j mod TDMASCHED_NUM_FRAMES = unat offset mod TDMASCHED_NUM_FRAMES then due s j @ [it] else due s j)"
    by blast
  have "cb it = c" "p1 it = q1" "p2 it = q2" "p3 it = q3" "prio it = pr" using *(3) by auto
  then show ?thesis using that [of s' it] *(1,2,4) by simp
qed

section \<open>Frame after frame\<close>

text \<open>The scheduler's part of \<open>btphy_handler\<close>.\<close>

definition tdma_frame :: "('c, 's) call \<Rightarrow> 'c tdma_scheduler \<times> 's \<Rightarrow> ('c tdma_scheduler \<times> 's) res" where
  "tdma_frame call st = bnd (tdma_sched_execute call st) (\<lambda>(rc, s, x). Inr (tdma_sched_advance s, x))"

text \<open>What is due in a later frame moves one frame closer, and stays in its place.\<close>

lemma frame_moves:
  assumes ok: "calls_append call" and inv: "sched_inv s" and "tdma_frame call (s, x) = Inr (s', x')"
  shows "sched_inv s'" and "Suc k < 16 \<Longrightarrow> prefix (due s (Suc k)) (due s' k)"
proof -
  obtain rc s2 where e: "tdma_sched_execute call (s, x) = Inr (rc, s2, x')" and s': "s' = tdma_sched_advance s2"
    using assms(3) by (auto simp: tdma_frame_def bnd_Inr_iff)
  obtain its where "frame_ends call its (s, x) (Inr (rc, s2, x'))" using execute_runs_due [OF ok inv] e by metis
  then obtain front s1 x1 where r: "runs call front (s, x) (s1, x1)"
      and c: "(\<exists>it. call_item call it (s1, x1) = Inr (rc, s2, x')) \<or> sched_inv s2 \<and> (\<forall>k. k mod 16 \<noteq> 0 \<longrightarrow> due s2 k = due s1 k)"
    unfolding frame_ends_def by (cases "rc < 0") (simp_all, blast+)
  have g: "grows s s1" using frame_ends_grows [OF ok r] inv by simp
  from c have "sched_inv s2 \<and> (\<forall>k. k mod 16 \<noteq> 0 \<longrightarrow> prefix (due s k) (due s2 k))"
  proof
    assume "\<exists>it. call_item call it (s1, x1) = Inr (rc, s2, x')"
    then have "grows s1 s2" using call_item_grows [OF ok grows_inv [OF g]] by blast
    then show ?thesis using grows_trans [OF g] by (auto simp: grows_def)
  qed (use g in \<open>simp add: grows_def\<close>)
  then show "sched_inv s'" "Suc k < 16 \<Longrightarrow> prefix (due s (Suc k)) (due s' k)"
    using advance_due [of s2 k] by (simp_all add: s')
qed

section \<open>A concrete wheel\<close>

text \<open>The zeroed static scheduler.\<close>

definition sched_zero :: "'c tdma_scheduler" where
  "sched_zero = \<lparr>bucket = replicate 16 \<lparr>item = replicate 4 \<lparr>cb = Cb_null, p1 = 0, p2 = 0, p3 = 0, prio = 0, item_flags = 0\<rparr>,
     num_items = 0\<rparr>, cur_bucket = 0\<rparr>"

lemma sched_zero_inv: "sched_inv sched_zero" "due sched_zero k = []"
  by (simp_all add: sched_zero_def sched_inv_def bucket_ok_def due_def bucket_items_def)

end
