(* ===== verification/Btphy.thy ===== *)
theory Btphy
  imports Firmware SyncWord Tdma "HOL-Library.Signed_Division"
begin

text \<open>
  The physical layer of src/btphy/btphy.c: the clocks and the adjustment of the slot timer, the software
  timers, the access code of a mode, and the radio settings of src/btphy/rf.c as register writes.
\<close>

section \<open>State\<close>

text \<open>
  \<open>t0mr0\<close> is the match register of the slot timer, \<open>t1tc\<close> the free running clock (MASTER_CLKN), \<open>cc2400\<close>
  what was last written to each radio register.
\<close>

record phy_fw = fw +
  cc2400 :: "u8 \<Rightarrow> u16"
  freq_off_reg :: u16
  max_ac_errors :: u16
  t0mr0 :: u32
  t1tc :: u32

abbreviation CLKN_OFFSET_RESET_VAL :: int where
  "CLKN_OFFSET_RESET_VAL \<equiv> (50000000 div (100 div 20)) div 3200"

section \<open>Software timers\<close>

abbreviation BTPHY_TIMER_COUNT :: nat where
  "BTPHY_TIMER_COUNT \<equiv> 10"

record 'c btphy_timer =
  tm_instant :: u32
  tm_cb :: "'c option"
  tm_anyway :: bool

record 'c btphy_timers =
  tm_count :: nat
  tm_timers :: "'c btphy_timer list"

definition btphy_timers_reset :: "'c btphy_timers \<Rightarrow> 'c btphy_timers res" where
  "btphy_timers_reset ts =
     bnd (loop BTPHY_TIMER_COUNT (\<lambda>i tms. bnd (rd tms i) (\<lambda>t. wr tms i (t\<lparr>tm_cb := None\<rparr>))) (tm_timers ts)) (\<lambda>tms.
     Inr (ts\<lparr>tm_count := 0, tm_timers := tms\<rparr>))"

text \<open>
  \<open>fire\<close> runs a callback (with its argument) on the rest of the state; the callbacks of the firmware do not
  touch the timers.  The loop counts \<open>i\<close> over the array and \<open>j\<close> over the timers it has looked at.
\<close>

primrec timers_loop ::
    "nat \<Rightarrow> ('c \<Rightarrow> 's \<Rightarrow> 's res) \<Rightarrow> u32 \<Rightarrow> nat \<Rightarrow> nat \<Rightarrow> 'c btphy_timers \<times> 's \<Rightarrow> ('c btphy_timers \<times> 's) res" where
  "timers_loop 0 fire clkn i j st = Inr st"
| "timers_loop (Suc n) fire clkn i j st =
     (let (ts, s) = st in
      if \<not> j < tm_count ts then Inr st
      else
        bnd (rd (tm_timers ts) i) (\<lambda>t.
        case tm_cb t of
          None \<Rightarrow> timers_loop n fire clkn (i + 1) j st
        | Some c \<Rightarrow>
            if tm_instant t = clkn then
              bnd (fire c s) (\<lambda>s.
              timers_loop n fire clkn (i + 1) (j + 1)
                (ts\<lparr>tm_count := tm_count ts - 1, tm_timers := (tm_timers ts)[i := t\<lparr>tm_cb := None\<rparr>]\<rparr>, s))
            else if tm_instant t < clkn then
              bnd (if tm_anyway t then fire c s else Inr s) (\<lambda>s.
              timers_loop n fire clkn (i + 1) (j + 1)
                (ts\<lparr>tm_count := tm_count ts - 1, tm_timers := (tm_timers ts)[i := t\<lparr>tm_cb := None\<rparr>]\<rparr>, s))
            else timers_loop n fire clkn (i + 1) (j + 1) st))"

definition btphy_timers_execute :: "('c \<Rightarrow> 's \<Rightarrow> 's res) \<Rightarrow> u32 \<Rightarrow> 'c btphy_timers \<times> 's \<Rightarrow> ('c btphy_timers \<times> 's) res" where
  "btphy_timers_execute fire clkn st = timers_loop BTPHY_TIMER_COUNT fire clkn 0 0 st"

text \<open>The slots from \<open>i\<close> on, for the search of a free one.\<close>

primrec timer_add_loop :: "nat \<Rightarrow> nat \<Rightarrow> u32 \<Rightarrow> 'c \<Rightarrow> bool \<Rightarrow> 'c btphy_timers \<Rightarrow> 'c btphy_timers res" where
  "timer_add_loop 0 i instant c anyway ts = Inl Die"
| "timer_add_loop (Suc n) i instant c anyway ts =
     bnd (rd (tm_timers ts) i) (\<lambda>t.
     if tm_cb t = None
     then bnd (wr (tm_timers ts) i \<lparr>tm_instant = instant, tm_cb = Some c, tm_anyway = anyway\<rparr>) (\<lambda>tms.
          Inr (ts\<lparr>tm_timers := tms, tm_count := tm_count ts + 1\<rparr>))
     else timer_add_loop n (i + 1) instant c anyway ts)"

definition btphy_timer_add :: "u32 \<Rightarrow> 'c \<Rightarrow> bool \<Rightarrow> 'c btphy_timers \<Rightarrow> 'c btphy_timers res" where
  "btphy_timer_add instant c anyway ts =
     (if tm_count ts = BTPHY_TIMER_COUNT then Inl Die
      else timer_add_loop BTPHY_TIMER_COUNT 0 instant c anyway ts)"

section \<open>Clocks\<close>

definition btphy_adj_clkn_delay :: "int \<Rightarrow> 'z phy_fw_scheme \<Rightarrow> 'z phy_fw_scheme" where
  "btphy_adj_clkn_delay delay s =
     s\<lparr>t0mr0 := word_of_int (CLKN_OFFSET_RESET_VAL + delay - 1),
       phy := (phy s)\<lparr>slave_clkn_delay := slave_clkn_delay (phy s) + delay, clkn_delayed := True\<rparr>\<rparr>"

text \<open>\<open>unsigned\<close> locals hold the remainder and the quotient; passing the first to an \<open>int\<close> gives it back.\<close>

definition btphy_cancel_clkn_delay :: "'z phy_fw_scheme \<Rightarrow> 'z phy_fw_scheme" where
  "btphy_cancel_clkn_delay s =
     (let delay = slave_clkn_delay (phy s) smod CLKN_OFFSET_RESET_VAL;
          clk_delay = word_of_int (slave_clkn_delay (phy s) sdiv CLKN_OFFSET_RESET_VAL) :: u32
      in btphy_adj_clkn_delay delay (s\<lparr>phy := (phy s)\<lparr>master_clkn := master_clkn (phy s) + clk_delay\<rparr>\<rparr>))"

text \<open>The part of \<open>btphy_handler\<close> before the timers.\<close>

definition btphy_tick :: "'z phy_fw_scheme \<Rightarrow> 'z phy_fw_scheme" where
  "btphy_tick s =
     (let s = s\<lparr>phy := (phy s)\<lparr>master_clkn := master_clkn (phy s) + 1, slave_clkn := slave_clkn (phy s) + 1\<rparr>\<rparr> in
      if clkn_delayed (phy s)
      then s\<lparr>t0mr0 := word_of_int (CLKN_OFFSET_RESET_VAL - 1), phy := (phy s)\<lparr>clkn_delayed := False\<rparr>\<rparr>
      else s)"

definition btphy_handler ::
    "('t \<Rightarrow> 'z phy_fw_scheme \<Rightarrow> 'z phy_fw_scheme res) \<Rightarrow> ('c, 't btphy_timers \<times> 'z phy_fw_scheme) call \<Rightarrow>
     'c tdma_scheduler \<times> 't btphy_timers \<times> 'z phy_fw_scheme \<Rightarrow> ('c tdma_scheduler \<times> 't btphy_timers \<times> 'z phy_fw_scheme) res" where
  "btphy_handler fire call st =
     (case st of (sched, ts, s) \<Rightarrow>
        let s = btphy_tick s in
        bnd (btphy_timers_execute fire (btphy_cur_clkn s) (ts, s)) (\<lambda>(ts, s).
        tdma_frame call (sched, ts, s)))"

section \<open>Modes and addresses\<close>

definition cc2400_set :: "u8 \<Rightarrow> u16 \<Rightarrow> 'z phy_fw_scheme \<Rightarrow> 'z phy_fw_scheme" where
  "cc2400_set reg v s = s\<lparr>cc2400 := (cc2400 s)(reg := v)\<rparr>"

definition btphy_rf_cfg_sync :: "u32 \<Rightarrow> 'z phy_fw_scheme \<Rightarrow> 'z phy_fw_scheme" where
  "btphy_rf_cfg_sync sync s =
     cc2400_set 0x2D (ucast (drop_bit 16 sync AND 0xffff)) (cc2400_set 0x2C (ucast (sync AND 0xffff)) s)"

definition btphy_rf_set_freq_off :: "u8 \<Rightarrow> 'z phy_fw_scheme \<Rightarrow> 'z phy_fw_scheme" where
  "btphy_rf_set_freq_off off s =
     (let s = s\<lparr>freq_off_reg := ucast off\<rparr> in cc2400_set 0x03 (0x0029 OR push_bit 7 (freq_off_reg s)) s)"

definition btphy_rf_set_max_ac_errors :: "u8 \<Rightarrow> 'z phy_fw_scheme \<Rightarrow> 'z phy_fw_scheme" where
  "btphy_rf_set_max_ac_errors n s = s\<lparr>max_ac_errors := ucast n\<rparr>"

definition btphy_rf_tune_chan :: "u16 \<Rightarrow> bool \<Rightarrow> 'z phy_fw_scheme \<Rightarrow> 'z phy_fw_scheme" where
  "btphy_rf_tune_chan channel tx s = cc2400_set 0x02 (if tx then channel else channel - 1) s"

definition btphy_rf_cfg_rx :: "'z phy_fw_scheme \<Rightarrow> 'z phy_fw_scheme" where
  "btphy_rf_cfg_rx s = cc2400_set 0x08 (0x170 OR push_bit 9 6) (cc2400_set 0x20 (0x4E1 OR push_bit 13 (max_ac_errors s)) s)"

definition btphy_rf_cfg_tx :: "'z phy_fw_scheme \<Rightarrow> 'z phy_fw_scheme" where
  "btphy_rf_cfg_tx s = cc2400_set 0x08 (0x170 OR push_bit 9 38) (cc2400_set 0x20 0x0CE1 s)"

text \<open>The writes of \<open>btphy_rf_init\<close> to the radio; \<open>PHY_FIFO_THRESHOLD\<close> leaves 16 bytes in the FIFO.\<close>

abbreviation PHY_FIFO_THRESHOLD :: nat where
  "PHY_FIFO_THRESHOLD \<equiv> 32 - 16"

definition btphy_rf_init :: "'z phy_fw_scheme \<Rightarrow> 'z phy_fw_scheme" where
  "btphy_rf_init s =
     (let s = s\<lparr>max_ac_errors := 1\<rparr>;
          s = cc2400_set 0x0D 0x7fff s;
          s = cc2400_set 0x12 0x2b22 s;
          s = cc2400_set 0x14 (0x34b OR 0x1000) s;
          s = cc2400_set 0x05 0xb s;
          s = cc2400_set 0x03 (0x0029 OR push_bit 7 (freq_off_reg s)) s
      in cc2400_set 0x23 (of_nat PHY_FIFO_THRESHOLD) s)"

text \<open>The levels of MOSI at the clock edges of a FIFO write: the register number high bit first, the data low bit first.\<close>

definition btphy_rf_cc2400_fifo_write :: "u8 \<Rightarrow> u8 list \<Rightarrow> bool list res" where
  "btphy_rf_cc2400_fifo_write len data =
     bnd (loop 8 (\<lambda>i (out, reg). Inr (out @ [reg AND 0x80 \<noteq> 0], push_bit 1 reg)) ([], 0x70 :: u8)) (\<lambda>(out, _).
     loop (unat len) (\<lambda>i out.
       bnd (rd data i) (\<lambda>temp.
       bnd (loop 8 (\<lambda>j (out, temp). Inr (out @ [temp AND 1 \<noteq> 0], drop_bit 1 temp)) (out, temp)) (\<lambda>(out, _). Inr out))) out)"

definition btphy_rf_fifo_write :: "u8 list \<Rightarrow> u32 \<Rightarrow> bool list res" where
  "btphy_rf_fifo_write data len = btphy_rf_cc2400_fifo_write (ucast len) data"

definition btphy_whiten_seed :: "u32 \<Rightarrow> 'z phy_fw_scheme \<Rightarrow> u8" where
  "btphy_whiten_seed clk s =
     (case ph_mode (phy s) of
        BT_MODE_MASTER \<Rightarrow> ucast (drop_bit 1 clk OR 0x40)
      | BT_MODE_SLAVE \<Rightarrow> ucast (drop_bit 1 clk OR 0x40)
      | _ \<Rightarrow> hop_x (hop s) OR 0x60)"

definition sw_bytes :: "u64 \<Rightarrow> u8 list" where
  "sw_bytes sw = [ucast (0xff AND sw), ucast (0xff AND drop_bit 8 sw), ucast (0xff AND drop_bit 16 sw), ucast (0xff AND drop_bit 24 sw)]"

definition btphy_set_mode :: "btphy_mode \<Rightarrow> u32 \<Rightarrow> u8 \<Rightarrow> 'z phy_fw_scheme \<Rightarrow> 'z phy_fw_scheme res" where
  "btphy_set_mode mode lap uap0 s =
     (let sw = btbb_gen_syncword lap;
          s = s\<lparr>phy := (phy s)\<lparr>chan_lap := lap, chan_uap := uap0, chan_sw := sw,
            chan_sw_lo := sw_bytes sw, chan_sw_hi := sw_bytes (drop_bit 32 sw),
            chan_trailer := (if drop_bit 63 sw \<noteq> 0 then 0x0a else 0x05)\<rparr>\<rparr>;
          s = btphy_rf_cfg_sync (reverse32 (ucast (sw AND 0xffffffff))) s in
      bnd (hop_init (lap OR push_bit 24 (ucast uap0)) (hop s)) (\<lambda>hs.
      Inr (s\<lparr>hop := hs, phy := (phy s)\<lparr>ph_mode := mode\<rparr>\<rparr>)))"

definition btphy_set_bdaddr :: "u64 \<Rightarrow> 'z phy_fw_scheme \<Rightarrow> 'z phy_fw_scheme" where
  "btphy_set_bdaddr bdaddr s =
     (let lap = ucast (0xffffff AND bdaddr) :: u32 in
      s\<lparr>phy := (phy s)\<lparr>my_lap := lap, my_uap := ucast (0xff AND drop_bit 24 bdaddr),
        my_nap := ucast (0xffff AND drop_bit 32 bdaddr), my_sw := btbb_gen_syncword lap\<rparr>\<rparr>)"

section \<open>Timers: the invariant\<close>

definition timers_inv :: "'c btphy_timers \<Rightarrow> bool" where
  "timers_inv ts \<longleftrightarrow> length (tm_timers ts) = BTPHY_TIMER_COUNT \<and>
     tm_count ts = length (filter (\<lambda>t. tm_cb t \<noteq> None) (tm_timers ts))"

lemma count_update:
  assumes "i < length xs"
  shows "length (filter P (xs[i := x])) + (if P (xs ! i) then 1 else 0) = length (filter P xs) + (if P x then 1 else 0)"
  using assms
proof (induction xs arbitrary: i)
  case (Cons y ys)
  then show ?case by (cases i) auto
qed simp

lemma timer_add_loop_ok:
  assumes "length (tm_timers ts) = i + n" and "\<exists>k < n. tm_cb (tm_timers ts ! (i + k)) = None"
  shows "\<exists>k. i \<le> k \<and> k < i + n \<and> tm_cb (tm_timers ts ! k) = None \<and> timer_add_loop n i instant c anyway ts =
    Inr (ts\<lparr>tm_timers := (tm_timers ts)[k := \<lparr>tm_instant = instant, tm_cb = Some c, tm_anyway = anyway\<rparr>], tm_count := tm_count ts + 1\<rparr>)"
  using assms
proof (induction n arbitrary: i)
  case (Suc n)
  show ?case
  proof (cases "tm_cb (tm_timers ts ! i)")
    case None
    then show ?thesis using Suc.prems by (intro exI [of _ i]) simp
  next
    case (Some c0)
    then obtain k where k: "k < n" "tm_cb (tm_timers ts ! (Suc i + k)) = None"
      using Suc.prems(2) by (metis Nat.add_0_right add_Suc_shift less_Suc_eq_0_disj option.distinct(1))
    then obtain k' where "Suc i \<le> k'" "k' < Suc i + n" "tm_cb (tm_timers ts ! k') = None"
        "timer_add_loop n (Suc i) instant c anyway ts =
          Inr (ts\<lparr>tm_timers := (tm_timers ts)[k' := \<lparr>tm_instant = instant, tm_cb = Some c, tm_anyway = anyway\<rparr>], tm_count := tm_count ts + 1\<rparr>)"
      using Suc.IH [of "Suc i"] Suc.prems(1) by auto
    then show ?thesis using Suc.prems(1) Some by (intro exI [of _ k']) simp
  qed
qed simp

lemma timer_add_ok:
  assumes "timers_inv ts" and "tm_count ts < BTPHY_TIMER_COUNT"
  shows "\<exists>k ts'. btphy_timer_add instant c anyway ts = Inr ts' \<and> timers_inv ts' \<and> tm_count ts' = tm_count ts + 1 \<and>
    k < BTPHY_TIMER_COUNT \<and> tm_cb (tm_timers ts ! k) = None \<and>
    tm_timers ts' = (tm_timers ts)[k := \<lparr>tm_instant = instant, tm_cb = Some c, tm_anyway = anyway\<rparr>]"
proof -
  have len: "length (tm_timers ts) = 10" and cnt: "tm_count ts = length (filter (\<lambda>t. tm_cb t \<noteq> None) (tm_timers ts))"
    using assms(1) by (simp_all add: timers_inv_def)
  have "\<exists>t \<in> set (tm_timers ts). tm_cb t = None"
  proof (rule ccontr)
    assume "\<not> ?thesis"
    then have "filter (\<lambda>t. tm_cb t \<noteq> None) (tm_timers ts) = tm_timers ts" by (simp add: filter_id_conv)
    then show False using len cnt assms(2) by simp
  qed
  then obtain k where "k < 10" "tm_cb (tm_timers ts ! (0 + k)) = None" using len by (auto simp: in_set_conv_nth)
  then have ex: "\<exists>k < BTPHY_TIMER_COUNT. tm_cb (tm_timers ts ! (0 + k)) = None" by blast
  have l0: "length (tm_timers ts) = 0 + BTPHY_TIMER_COUNT" using len by simp
  obtain k where k: "k < 0 + BTPHY_TIMER_COUNT" "tm_cb (tm_timers ts ! k) = None"
      and a: "timer_add_loop BTPHY_TIMER_COUNT 0 instant c anyway ts =
        Inr (ts\<lparr>tm_timers := (tm_timers ts)[k := \<lparr>tm_instant = instant, tm_cb = Some c, tm_anyway = anyway\<rparr>], tm_count := tm_count ts + 1\<rparr>)"
    using timer_add_loop_ok [OF l0 ex, of instant c anyway] by blast
  let ?ts = "ts\<lparr>tm_timers := (tm_timers ts)[k := \<lparr>tm_instant = instant, tm_cb = Some c, tm_anyway = anyway\<rparr>], tm_count := tm_count ts + 1\<rparr>"
  have "timers_inv ?ts"
    using count_update [of k "tm_timers ts" "\<lambda>t. tm_cb t \<noteq> None" "\<lparr>tm_instant = instant, tm_cb = Some c, tm_anyway = anyway\<rparr>"] k len cnt
    by (simp add: timers_inv_def)
  then show ?thesis using a k assms(2) by (intro exI [of _ k] exI [of _ ?ts]) (simp add: btphy_timer_add_def)
qed

lemma timers_loop_inv:
  assumes "timers_inv ts" and "i + n \<le> BTPHY_TIMER_COUNT" and "timers_loop n fire clkn i j (ts, s) = Inr (ts', s')"
  shows "timers_inv ts' \<and> tm_count ts' \<le> tm_count ts"
  using assms
proof (induction n arbitrary: i j ts s)
  case (Suc n)
  let ?t = "tm_timers ts ! i"
  have i: "i < length (tm_timers ts)" using Suc.prems(1,2) by (simp add: timers_inv_def)
  show ?case
  proof (cases "j < tm_count ts \<and> tm_cb ?t \<noteq> None")
    case False
    have "(ts', s') = (ts, s) \<or> timers_loop n fire clkn (i + 1) j (ts, s) = Inr (ts', s')"
    proof (cases "j < tm_count ts")
      case True
      then have "tm_cb ?t = None" using False by simp
      then show ?thesis using True Suc.prems(3) i by simp
    qed (use Suc.prems(3) in simp)
    then show ?thesis using Suc.IH [OF Suc.prems(1), of "i + 1" j s] Suc.prems(1,2) by auto
  next
    case True
    then obtain c where c: "tm_cb ?t = Some c" by blast
    let ?ts = "ts\<lparr>tm_count := tm_count ts - 1, tm_timers := (tm_timers ts)[i := ?t\<lparr>tm_cb := None\<rparr>]\<rparr>"
    have inv: "timers_inv ?ts"
      using count_update [OF i, of "\<lambda>t. tm_cb t \<noteq> None" "?t\<lparr>tm_cb := None\<rparr>"] Suc.prems(1) c by (simp add: timers_inv_def)
    have "\<exists>s1. timers_loop n fire clkn (i + 1) (j + 1) (?ts, s1) = Inr (ts', s') \<or> timers_loop n fire clkn (i + 1) (j + 1) (ts, s1) = Inr (ts', s')"
      using Suc.prems(3) True c i by (auto simp: bnd_Inr_iff split: if_splits)
    then obtain s1 where "timers_loop n fire clkn (i + 1) (j + 1) (?ts, s1) = Inr (ts', s') \<or>
        timers_loop n fire clkn (i + 1) (j + 1) (ts, s1) = Inr (ts', s')" by blast
    then show ?thesis
      using Suc.IH [OF inv, of "i + 1" "j + 1" s1] Suc.IH [OF Suc.prems(1), of "i + 1" "j + 1" s1] Suc.prems(2) by auto
  qed
qed simp


section \<open>What a tick does to the timers\<close>

text \<open>A slot in use, and one whose instant has come or has passed; what a tick that looks at a slot does with it.\<close>

definition waiting :: "'c btphy_timer list \<Rightarrow> nat" where
  "waiting tms = length (filter (\<lambda>t. tm_cb t \<noteq> None) tms)"

definition over :: "u32 \<Rightarrow> 'c btphy_timer \<Rightarrow> bool" where
  "over clkn t \<longleftrightarrow> tm_cb t \<noteq> None \<and> tm_instant t \<le> clkn"

definition expired :: "u32 \<Rightarrow> 'c btphy_timer list \<Rightarrow> nat" where
  "expired clkn tms = length (filter (over clkn) tms)"

definition emptied :: "u32 \<Rightarrow> 'c btphy_timer \<Rightarrow> 'c btphy_timer" where
  "emptied clkn t = (if over clkn t then t\<lparr>tm_cb := None\<rparr> else t)"

definition act :: "('c \<Rightarrow> 's \<Rightarrow> 's res) \<Rightarrow> u32 \<Rightarrow> 'c btphy_timer \<Rightarrow> 's \<Rightarrow> 's res" where
  "act fire clkn t s =
     (case tm_cb t of
        None \<Rightarrow> Inr s
      | Some c \<Rightarrow> if tm_instant t = clkn \<or> tm_instant t < clkn \<and> tm_anyway t then fire c s else Inr s)"

primrec acts :: "('c \<Rightarrow> 's \<Rightarrow> 's res) \<Rightarrow> u32 \<Rightarrow> 'c btphy_timer list \<Rightarrow> 's \<Rightarrow> 's res" where
  "acts fire clkn [] s = Inr s"
| "acts fire clkn (t # tms) s = bnd (act fire clkn t s) (acts fire clkn tms)"

lemma counts_snoc [simp]:
  "waiting [] = 0" "expired clkn [] = 0"
  "waiting (tms @ [t]) = waiting tms + (if tm_cb t = None then 0 else 1)"
  "expired clkn (tms @ [t]) = expired clkn tms + (if over clkn t then 1 else 0)"
  by (simp_all add: waiting_def expired_def)

lemma expired_waiting: "expired clkn tms \<le> waiting tms"
  unfolding expired_def waiting_def over_def by (induction tms) auto

text \<open>
  The bound of the loop, \<open>j < count\<close>, moves on both sides: \<open>j\<close> counts the timers looked at, \<open>count\<close> goes down by those of
  them that are over.  So the tick stops at the first slot \<open>i\<close> where the two together reach the number of timers.
\<close>

definition seen :: "u32 \<Rightarrow> 'c btphy_timers \<Rightarrow> nat" where
  "seen clkn ts = (LEAST i. tm_count ts \<le> waiting (take i (tm_timers ts)) + expired clkn (take i (tm_timers ts)))"

text \<open>The timers after the first \<open>i\<close> slots.\<close>

definition after_slots :: "u32 \<Rightarrow> nat \<Rightarrow> 'c btphy_timers \<Rightarrow> 'c btphy_timers" where
  "after_slots clkn i ts = ts\<lparr>tm_count := tm_count ts - expired clkn (take i (tm_timers ts)),
     tm_timers := map (emptied clkn) (take i (tm_timers ts)) @ drop i (tm_timers ts)\<rparr>"

lemma after_slots_Suc:
  assumes "i < length (tm_timers ts)"
  shows "after_slots clkn (Suc i) ts =
    (if over clkn (tm_timers ts ! i)
     then (after_slots clkn i ts)\<lparr>tm_count := tm_count (after_slots clkn i ts) - 1,
       tm_timers := (tm_timers (after_slots clkn i ts))[i := (tm_timers ts ! i)\<lparr>tm_cb := None\<rparr>]\<rparr>
     else after_slots clkn i ts)"
  using assms
  by (cases ts) (simp add: after_slots_def emptied_def take_Suc_conv_app_nth list_update_append flip: Cons_nth_drop_Suc)

lemma after_slots_nth: "i < length (tm_timers ts) \<Longrightarrow> rd (tm_timers (after_slots clkn i ts)) i = Inr (tm_timers ts ! i)"
  by (simp add: after_slots_def nth_append)

lemma seen_eqI:
  assumes "tm_count ts \<le> waiting (take i (tm_timers ts)) + expired clkn (take i (tm_timers ts))"
    and "\<And>k. k < i \<Longrightarrow> waiting (take k (tm_timers ts)) + expired clkn (take k (tm_timers ts)) < tm_count ts"
  shows "seen clkn ts = i"
  unfolding seen_def using assms by (intro Least_equality) (auto simp: not_less [symmetric])

lemma timers_loop_seen:
  assumes inv: "timers_inv ts" and "i + n = BTPHY_TIMER_COUNT" and "\<And>k. k < i \<Longrightarrow>
      waiting (take k (tm_timers ts)) + expired clkn (take k (tm_timers ts)) < tm_count ts"
  shows "timers_loop n fire clkn i (waiting (take i (tm_timers ts))) (after_slots clkn i ts, s) =
    bnd (acts fire clkn (drop i (take (seen clkn ts) (tm_timers ts))) s) (\<lambda>s. Inr (after_slots clkn (seen clkn ts) ts, s))"
  using assms(2-)
proof (induction n arbitrary: i s)
  let ?tms = "tm_timers ts"
  have len: "length ?tms = 10" and cnt: "tm_count ts = waiting ?tms" using inv by (simp_all add: timers_inv_def waiting_def)
  note stop = seen_eqI [of ts _ clkn]
  {
    case 0
    then have "seen clkn ts = i" using len cnt by (intro stop) simp_all
    then show ?case by simp
  next
    case (Suc n)
    let ?t = "?tms ! i" and ?j = "waiting (take i ?tms)" and ?ts = "after_slots clkn i ts"
    have i: "i < length ?tms" using Suc.prems(1) len by simp
    have e: "expired clkn (take i ?tms) \<le> tm_count ts"
      using expired_waiting [of clkn "take i ?tms"] cnt by (metis append_take_drop_id filter_append le_add1 length_append order_trans waiting_def)
    have lt: "?j < tm_count ?ts \<longleftrightarrow> ?j + expired clkn (take i ?tms) < tm_count ts" using e by (auto simp: after_slots_def)
    show ?case
    proof (cases "?j < tm_count ?ts")
      case False
      then have "seen clkn ts = i" using lt Suc.prems(2) by (intro stop) simp_all
      then show ?thesis using False by simp
    next
      case True
      then have less: "waiting (take k ?tms) + expired clkn (take k ?tms) < tm_count ts" if "k < Suc i" for k
        using that lt Suc.prems(2) by (cases "k = i") auto
      have "\<not> seen clkn ts \<le> i"
      proof
        assume "seen clkn ts \<le> i"
        moreover have "tm_count ts \<le> waiting (take 10 ?tms) + expired clkn (take 10 ?tms)" using len cnt by simp
        then have "tm_count ts \<le> waiting (take (seen clkn ts) ?tms) + expired clkn (take (seen clkn ts) ?tms)"
          unfolding seen_def by (rule LeastI)
        ultimately show False using less [of "seen clkn ts"] by simp
      qed
      then have d: "drop i (take (seen clkn ts) ?tms) = ?t # drop (Suc i) (take (seen clkn ts) ?tms)"
        using i by (subst Cons_nth_drop_Suc [symmetric]) simp_all
      have j: "waiting (take (Suc i) ?tms) = (if tm_cb ?t = None then ?j else ?j + 1)" using i by (simp add: take_Suc_conv_app_nth)
      have IH: "timers_loop n fire clkn (Suc i) (if tm_cb ?t = None then ?j else ?j + 1) (after_slots clkn (Suc i) ts, s') =
          bnd (acts fire clkn (drop (Suc i) (take (seen clkn ts) ?tms)) s') (\<lambda>s. Inr (after_slots clkn (seen clkn ts) ts, s))" for s'
        using Suc.IH [of "Suc i" s'] Suc.prems(1) less j by simp
      show ?thesis
      proof (cases "tm_cb ?t")
        case None
        then show ?thesis using True IH after_slots_nth [OF i] by (simp add: d act_def after_slots_Suc [OF i] over_def)
      next
        case (Some c)
        show ?thesis
        proof (cases "tm_instant ?t \<le> clkn")
          case True
          then have o: "over clkn ?t" "tm_instant ?t = clkn \<or> tm_instant ?t < clkn" using Some by (auto simp: over_def)
          show ?thesis using \<open>?j < tm_count ?ts\<close> IH [unfolded after_slots_Suc [OF i]] after_slots_nth [OF i] Some o
            by (auto simp: d act_def bnd_assoc split: if_splits)
        next
          case False
          then have "\<not> over clkn ?t" "tm_instant ?t \<noteq> clkn" "\<not> tm_instant ?t < clkn" by (auto simp: over_def)
          then show ?thesis using True IH [unfolded after_slots_Suc [OF i]] after_slots_nth [OF i] Some by (simp add: d act_def)
        qed
      qed
    qed
  }
qed

text \<open>
  C35 (functional).  What \<open>btphy_timers_execute\<close> does to any set of pending timers: it looks at the slots up to the first one where the
  timers looked at, and those of them that are over, together reach the number of timers.  Up to there the timers whose instant
  is now are run, missed ones too if they are to be run \<open>anyway\<close>, and all that are over are removed; the slots after it are
  left as they are, also where their timer is due now, and such a timer counts as missed from the next tick on.  So of two timers that are due together the second is not run, unless others wait.
\<close>

theorem timers_execute_exact:
  assumes "timers_inv ts"
  shows "btphy_timers_execute fire clkn (ts, s) =
    bnd (acts fire clkn (take (seen clkn ts) (tm_timers ts)) s) (\<lambda>s. Inr (after_slots clkn (seen clkn ts) ts, s))"
proof -
  have "after_slots clkn 0 ts = ts" by (simp add: after_slots_def)
  then show ?thesis using timers_loop_seen [OF assms, of 0 BTPHY_TIMER_COUNT clkn fire s] by (simp add: btphy_timers_execute_def)
qed

text \<open>Two timers added after a reset for tick 5: the first runs, the second waits; with a third for tick 9 both run.\<close>

definition timers_zero :: "nat btphy_timers" where
  "timers_zero = \<lparr>tm_count = 0, tm_timers = replicate 10 \<lparr>tm_instant = 0, tm_cb = None, tm_anyway = False\<rparr>\<rparr>"

definition timers_two :: "nat btphy_timers" where
  "timers_two = \<lparr>tm_count = 2, tm_timers = \<lparr>tm_instant = 5, tm_cb = Some 7, tm_anyway = False\<rparr> #
     \<lparr>tm_instant = 5, tm_cb = Some 8, tm_anyway = False\<rparr> # replicate 8 \<lparr>tm_instant = 0, tm_cb = None, tm_anyway = False\<rparr>\<rparr>"

definition timers_three :: "nat btphy_timers" where
  "timers_three = \<lparr>tm_count = 3, tm_timers = \<lparr>tm_instant = 5, tm_cb = Some 7, tm_anyway = False\<rparr> #
     \<lparr>tm_instant = 5, tm_cb = Some 8, tm_anyway = False\<rparr> # \<lparr>tm_instant = 9, tm_cb = Some 9, tm_anyway = False\<rparr> #
     replicate 7 \<lparr>tm_instant = 0, tm_cb = None, tm_anyway = False\<rparr>\<rparr>"

definition log_timer :: "nat \<Rightarrow> nat list \<Rightarrow> nat list res" where
  "log_timer c s = Inr (s @ [c])"

lemma timers_two_added:
  "bnd (btphy_timer_add 5 7 False timers_zero) (btphy_timer_add 5 8 False) = Inr timers_two"
  by (simp add: btphy_timer_add_def timers_zero_def timers_two_def numeral_eq_Suc del: Suc_Suc_0)

lemma timers_inv_examples: "timers_inv timers_two" "timers_inv timers_three"
  by (simp_all add: timers_inv_def timers_two_def timers_three_def)

lemma seen_two: "seen 5 timers_two = 1"
  by (rule seen_eqI) (simp_all add: timers_two_def waiting_def expired_def over_def)

lemma seen_three: "seen 5 timers_three = 2"
proof (rule seen_eqI)
  show "waiting (take k (tm_timers timers_three)) + expired 5 (take k (tm_timers timers_three)) < tm_count timers_three" if "k < 2" for k
    using less_2_cases [OF that] by (auto simp: timers_three_def waiting_def expired_def over_def)
qed (simp add: timers_three_def waiting_def expired_def over_def)

theorem timers_execute_exact_witness:
  "(\<exists>ts'. btphy_timers_execute log_timer 5 (timers_two, []) = Inr (ts', [7]) \<and> tm_count ts' = 1 \<and> tm_cb (tm_timers ts' ! 1) = Some 8) \<and>
   (\<exists>ts'. btphy_timers_execute log_timer 5 (timers_three, []) = Inr (ts', [7, 8]) \<and> tm_count ts' = 1)"
proof
  show "\<exists>ts'. btphy_timers_execute log_timer 5 (timers_two, []) = Inr (ts', [7]) \<and> tm_count ts' = 1 \<and> tm_cb (tm_timers ts' ! 1) = Some 8"
    unfolding timers_execute_exact [OF timers_inv_examples(1)] seen_two
    by (simp add: timers_two_def after_slots_def act_def log_timer_def expired_def over_def emptied_def)
  show "\<exists>ts'. btphy_timers_execute log_timer 5 (timers_three, []) = Inr (ts', [7, 8]) \<and> tm_count ts' = 1"
    unfolding timers_execute_exact [OF timers_inv_examples(2)] seen_three
    by (simp add: timers_three_def after_slots_def act_def log_timer_def expired_def over_def emptied_def)
qed

section \<open>Adjusting the slot timer\<close>

text \<open>The time, in units of 100 ns, that the next \<open>n\<close> ticks of the slot timer take.\<close>

primrec elapsed :: "nat \<Rightarrow> 'z phy_fw_scheme \<Rightarrow> nat" where
  "elapsed 0 s = 0"
| "elapsed (Suc n) s = unat (t0mr0 s) + 1 + elapsed n (btphy_tick s)"

lemma elapsed_steady:
  assumes "t0mr0 s = word_of_int (CLKN_OFFSET_RESET_VAL - 1)" and "\<not> clkn_delayed (phy s)"
  shows "elapsed n s = n * nat CLKN_OFFSET_RESET_VAL"
  using assms
proof (induction n arbitrary: s)
  case (Suc n)
  then have "t0mr0 (btphy_tick s) = word_of_int (CLKN_OFFSET_RESET_VAL - 1) \<and> \<not> clkn_delayed (phy (btphy_tick s))"
    by (simp add: btphy_tick_def)
  with Suc show ?case by simp
qed simp

text \<open>
  C36 (bounds).  An adjustment by \<open>delay\<close> moves the slot grid once and for all: the first tick after it comes \<open>delay\<close> units
  late (early if negative), every later tick at the nominal 312.5 us, and the clocks still count one per tick.
\<close>

theorem adj_moves_grid_once:
  assumes "- CLKN_OFFSET_RESET_VAL < delay" and "CLKN_OFFSET_RESET_VAL + delay \<le> 2 ^ 32"
  shows "int (elapsed (Suc n) (btphy_adj_clkn_delay delay s)) = int (Suc n) * CLKN_OFFSET_RESET_VAL + delay"
proof -
  let ?s = "btphy_adj_clkn_delay delay s"
  have "int (unat (t0mr0 ?s)) = CLKN_OFFSET_RESET_VAL + delay - 1"
  proof -
    have "t0mr0 ?s = word_of_int (CLKN_OFFSET_RESET_VAL + delay - 1)" by (simp add: btphy_adj_clkn_delay_def)
    moreover have "uint (word_of_int (CLKN_OFFSET_RESET_VAL + delay - 1) :: u32) = CLKN_OFFSET_RESET_VAL + delay - 1"
      using assms by (subst uint_word_of_int, intro mod_pos_pos_trivial) simp_all
    ultimately show ?thesis by simp
  qed
  moreover have "elapsed n (btphy_tick ?s) = n * nat CLKN_OFFSET_RESET_VAL"
    by (rule elapsed_steady) (simp_all add: btphy_tick_def btphy_adj_clkn_delay_def)
  ultimately show ?thesis by simp
qed

section \<open>Leaving a mode\<close>

text \<open>Cancelling adds the part of the delay inside a slot again: it ends at twice that part, not at none.\<close>

lemma cancel_doubles_residue:
  "slave_clkn_delay (phy (btphy_cancel_clkn_delay s)) =
     slave_clkn_delay (phy s) + slave_clkn_delay (phy s) smod CLKN_OFFSET_RESET_VAL"
  by (simp add: btphy_cancel_clkn_delay_def btphy_adj_clkn_delay_def Let_def)

section \<open>The access code of a mode\<close>

text \<open>What a mode puts on the air: preamble, sync word and trailer; the bytes are sent low bit first.\<close>

definition bytes_word :: "u8 list \<Rightarrow> u64" where
  "bytes_word bs = foldr (\<lambda>b w. ucast b OR push_bit 8 w) bs 0"

lemma bit_bytes_word:
  "bit (bytes_word bs) n \<longleftrightarrow> n < 64 \<and> n div 8 < length bs \<and> bit (bs ! (n div 8)) (n mod 8)"
proof (induction bs arbitrary: n)
  case (Cons b bs)
  have eq: "bytes_word (b # bs) = ucast b OR push_bit 8 (bytes_word bs)" by (simp add: bytes_word_def)
  show ?case
  proof (cases "n < 8")
    case True
    then show ?thesis by (auto simp: eq bit_simps dest: bit_imp_le_length)
  next
    case False
    moreover have "n div 8 = Suc ((n - 8) div 8)" "n mod 8 = (n - 8) mod 8"
      using False by (simp_all add: le_div_geq le_mod_geq)
    moreover have "\<not> bit b n" using False by (auto dest: bit_imp_le_length)
    ultimately show ?thesis by (auto simp: eq bit_simps Cons.IH)
  qed
qed (simp add: bytes_word_def)

lemma low_byte: "(ucast (0xff AND w :: u64) :: u8) = ucast w"
proof (rule bit_word_eqI)
  have m: "(0xff :: u64) = mask 8" by (simp add: mask_eq_exp_minus_1)
  fix n assume "n < LENGTH(8)"
  then show "bit (ucast (0xff AND w :: u64) :: u8) n = bit (ucast w :: u8) n" unfolding m by (simp add: bit_simps)
qed

lemma length_sw_bytes [simp]: "length (sw_bytes sw) = 4"
  by (simp add: sw_bytes_def)

lemma nth_sw_bytes: "k < 4 \<Longrightarrow> sw_bytes sw ! k = ucast (drop_bit (8 * k) sw)"
  by (auto simp: sw_bytes_def low_byte less_Suc_eq numeral_eq_Suc simp del: Suc_Suc_0)

lemma nth_sw_bytes_8: "k < 8 \<Longrightarrow> (sw_bytes sw @ sw_bytes (drop_bit 32 sw)) ! k = ucast (drop_bit (8 * k) sw)"
proof (cases "k < 4")
  case False
  assume "k < 8"
  moreover have "8 * (k - 4) + 32 = 8 * k" using False by simp
  ultimately show ?thesis using False by (simp add: nth_append nth_sw_bytes)
qed (simp add: nth_append nth_sw_bytes)

lemma sw_bytes_word: "bytes_word (sw_bytes sw @ sw_bytes (drop_bit 32 sw)) = sw"
proof (rule bit_word_eqI)
  fix n assume "n < LENGTH(64)"
  then have n: "n < 64" "n div 8 < 8" by simp_all
  have l: "length (sw_bytes sw @ sw_bytes (drop_bit 32 sw)) = 8" by (simp add: sw_bytes_def)
  show "bit (bytes_word (sw_bytes sw @ sw_bytes (drop_bit 32 sw))) n = bit sw n"
    unfolding bit_bytes_word l nth_sw_bytes_8 [OF n(2)] using n by (simp add: bit_simps)
qed


text \<open>What \<open>hop_init\<close> relies on: the banks have their size and the AFH bank holds channels.\<close>

definition hop_mem :: "hop_state \<Rightarrow> bool" where
  "hop_mem hs \<longleftrightarrow> length (basic_bank hs) = 79 \<and> length (afh_bank hs) = 79 \<and>
     (\<forall>i < unat (afh_chan_count hs). unat (afh_bank hs ! i) < 79) \<and> unat (afh_chan_count hs) \<le> 79"

lemma hop_inv_mem: "hop_inv hs \<Longrightarrow> hop_mem hs"
  by (simp add: hop_inv_def hop_mem_def)

lemma hop_zero_mem: "hop_mem hop_zero"
  by (simp add: hop_mem_def hop_zero_def)

lemma hop_init_ok: "hop_mem hs \<Longrightarrow> \<exists>hs'. hop_init address hs = Inr hs' \<and> hop_inv hs' \<and> hop_x hs' = 0"
  by (simp add: hop_init_def fill_bank79 hop_inv_def hop_mem_def)

lemma set_mode_Inr:
  assumes "hop_mem (hop s)"
  shows "\<exists>s'. btphy_set_mode mode lap uap0 s = Inr s' \<and> hop_inv (hop s') \<and> hop_x (hop s') = 0 \<and>
    ph_mode (phy s') = mode \<and> chan_lap (phy s') = lap \<and> chan_uap (phy s') = uap0 \<and> chan_sw (phy s') = btbb_gen_syncword lap \<and>
    chan_sw_lo (phy s') = sw_bytes (btbb_gen_syncword lap) \<and> chan_sw_hi (phy s') = sw_bytes (drop_bit 32 (btbb_gen_syncword lap)) \<and>
    chan_trailer (phy s') = (if drop_bit 63 (btbb_gen_syncword lap) \<noteq> 0 then 0x0a else 0x05) \<and>
    cc2400 s' = cc2400 (btphy_rf_cfg_sync (reverse32 (ucast (btbb_gen_syncword lap AND 0xffffffff))) s)"
proof -
  obtain hs where hs: "hop_init (lap OR push_bit 24 (ucast uap0)) (hop s) = Inr hs" "hop_inv hs" "hop_x hs = 0"
    using hop_init_ok [OF assms] by blast
  then show ?thesis by (simp add: btphy_set_mode_def Let_def btphy_rf_cfg_sync_def cc2400_set_def)
qed

lemma low_half: "(ucast (sw AND 0xffffffff :: u64) :: u32) = ucast sw"
proof (rule bit_word_eqI)
  have m: "(0xffffffff :: u64) = mask 32" by (simp add: mask_eq_exp_minus_1)
  fix n assume "n < LENGTH(32)"
  then show "bit (ucast (sw AND 0xffffffff :: u64) :: u32) n = bit (ucast sw :: u32) n" unfolding m by (simp add: bit_simps)
qed

lemma low_word: "(ucast (w AND 0xffff :: u32) :: u16) = ucast w"
proof (rule bit_word_eqI)
  have m: "(0xffff :: u32) = mask 16" by (simp add: mask_eq_exp_minus_1)
  fix n assume "n < LENGTH(16)"
  then show "bit (ucast (w AND 0xffff :: u32) :: u16) n = bit (ucast w :: u16) n" unfolding m by (simp add: bit_simps)
qed

lemma top_bit: "drop_bit 63 (sw :: u64) \<noteq> 0 \<longleftrightarrow> bit sw 63"
proof
  assume "bit sw 63"
  then have "bit (drop_bit 63 sw) 0" by (simp add: bit_simps)
  then show "drop_bit 63 sw \<noteq> 0" by auto
next
  assume "drop_bit 63 sw \<noteq> 0"
  then obtain n where "bit (drop_bit 63 sw) n" by (auto simp: bit_eq_iff)
  then have "bit sw (63 + n)" by (simp add: bit_simps)
  moreover from bit_imp_le_length [OF this] have "n = 0" by simp
  ultimately show "bit sw 63" by simp
qed

lemma trailer_bits: "i < 4 \<Longrightarrow> bit (0x0a :: u8) i = odd i" "i < 4 \<Longrightarrow> bit (0x05 :: u8) i = even i"
proof -
  have "(\<forall>i \<in> {0, 1, 2, 3}. bit (0x0a :: u8) i = odd i) \<and> (\<forall>i \<in> {0, 1, 2, 3}. bit (0x05 :: u8) i = even i)" by simp
  moreover have "i < 4 \<Longrightarrow> i \<in> {0, 1, 2, 3}" by auto
  ultimately show "i < 4 \<Longrightarrow> bit (0x0a :: u8) i = odd i" "i < 4 \<Longrightarrow> bit (0x05 :: u8) i = even i" by blast+
qed

text \<open>
  C34 Setting a mode from any state whose banks have their size leaves the hop sequence well formed (basic
  bank, AFH off) and one access code in all three places that use it: the bytes sent low bit first are the sync word of the LAP,
  the radio's two sync registers hold its first 32 bits in the order of the air, and the trailer goes on
  alternating after its last bit.
\<close>

theorem set_mode_access_code:
  assumes "hop_mem (hop s)"
  shows "\<exists>s'. btphy_set_mode mode lap uap0 s = Inr s' \<and> hop_inv (hop s') \<and> ph_mode (phy s') = mode \<and>
    bytes_word (chan_sw_lo (phy s') @ chan_sw_hi (phy s')) = btbb_gen_syncword lap \<and>
    (\<forall>i < 16. bit (cc2400 s' 0x2D) (15 - i) = bit (btbb_gen_syncword lap) i \<and>
              bit (cc2400 s' 0x2C) (15 - i) = bit (btbb_gen_syncword lap) (16 + i)) \<and>
    (\<forall>i < 4. bit (chan_trailer (phy s')) i = (bit (btbb_gen_syncword lap) 63 = odd i))"
proof -
  let ?sw = "btbb_gen_syncword lap"
  obtain s' where s': "btphy_set_mode mode lap uap0 s = Inr s'" "hop_inv (hop s')" "ph_mode (phy s') = mode"
      "chan_sw_lo (phy s') = sw_bytes ?sw" "chan_sw_hi (phy s') = sw_bytes (drop_bit 32 ?sw)"
      "chan_trailer (phy s') = (if drop_bit 63 ?sw \<noteq> 0 then 0x0a else 0x05)"
      "cc2400 s' = cc2400 (btphy_rf_cfg_sync (reverse32 (ucast (?sw AND 0xffffffff))) s)"
    using set_mode_Inr [OF assms, of mode lap uap0] by blast
  have regs: "cc2400 s' 0x2C = ucast (reverse32 (ucast ?sw))" "cc2400 s' 0x2D = ucast (drop_bit 16 (reverse32 (ucast ?sw)))"
    by (simp_all add: s' btphy_rf_cfg_sync_def cc2400_set_def low_half low_word)
  have "\<forall>i < 16. bit (cc2400 s' 0x2D) (15 - i) = bit ?sw i \<and> bit (cc2400 s' 0x2C) (15 - i) = bit ?sw (16 + i)"
    by (auto simp: regs bit_simps bit_reverse32 add.commute)
  moreover have "\<forall>i < 4. bit (chan_trailer (phy s')) i = (bit ?sw 63 = odd i)"
    using trailer_bits by (simp add: s' top_bit)
  ultimately show ?thesis using s'(1-5) by (intro exI [of _ s']) (simp add: sw_bytes_word)
qed


definition phy_fw_zero :: phy_fw where
  "phy_fw_zero = \<lparr>pool = \<lparr>pool_init = True, pool_li = Some 0, el_li = map (\<lambda>i. Some (i + 1)) [0..<15] @ [None]\<rparr>,
     bufs = replicate 16 \<lparr>m_type = 0, m_len = 0, m_body = No_body\<rparr>, bt_state = BTCTL_STATE_STANDBY, rx_q = queue_zero, tx_q = queue_zero,
     acl_tx_q = queue_zero, eir_msg = None, phy = phy_zero, hop = hop_zero,
     cc2400 = (\<lambda>_. 0), freq_off_reg = 0, max_ac_errors = 1, t0mr0 = 3124, t1tc = 0\<rparr>"

theorem set_mode_access_code_witness:
  "\<exists>s'. btphy_set_mode BT_MODE_INQUIRY 0x9e8b33 0 phy_fw_zero = Inr s' \<and> hop_inv (hop s') \<and>
    bytes_word (chan_sw_lo (phy s') @ chan_sw_hi (phy s')) = btbb_gen_syncword 0x9e8b33"
proof -
  have "hop_mem (hop phy_fw_zero)" using hop_zero_mem by (simp add: phy_fw_zero_def)
  from set_mode_access_code [OF this, of BT_MODE_INQUIRY "0x9e8b33" 0] show ?thesis by blast
qed

theorem adj_moves_grid_once_witness:
  "int (elapsed (Suc 9) (btphy_adj_clkn_delay (- 100) phy_fw_zero)) = int (Suc 9) * CLKN_OFFSET_RESET_VAL + (- 100)"
  by (rule adj_moves_grid_once) simp_all


section \<open>The order of the bits on the air\<close>

lemma spi_byte:
  "loop 8 (\<lambda>j (out, temp :: u8). Inr (out @ [temp AND 1 \<noteq> 0], drop_bit 1 temp)) (out, b) = Inr (out @ map (bit b) [0..<8], 0)"
proof -
  have "n \<le> 8 \<Longrightarrow> loop n (\<lambda>j (out, temp :: u8). Inr (out @ [temp AND 1 \<noteq> 0], drop_bit 1 temp)) (out, b) =
    Inr (out @ map (bit b) [0..<n], drop_bit n b)" for n
  proof (induction n)
    case (Suc n)
    then show ?case by (simp add: one_and_nonzero bit_simps)
  qed simp
  from this [of 8] have "loop 8 (\<lambda>j (out, temp :: u8). Inr (out @ [temp AND 1 \<noteq> 0], drop_bit 1 temp)) (out, b) =
    Inr (out @ map (bit b) [0..<8], drop_bit 8 b)" by simp
  moreover have "drop_bit 8 b = 0" by (auto simp: bit_eq_iff bit_simps dest: bit_imp_le_length)
  ultimately show ?thesis by simp
qed

definition air_order :: "u8 list \<Rightarrow> bool list" where
  "air_order bs = concat (map (\<lambda>b. map (bit b) [0..<8]) bs)"

lemma fifo_loop:
  "n \<le> length data \<Longrightarrow>
    loop n (\<lambda>i out. bnd (rd data i) (\<lambda>temp.
      bnd (loop 8 (\<lambda>j (out, temp :: u8). Inr (out @ [temp AND 1 \<noteq> 0], drop_bit 1 temp)) (out, temp)) (\<lambda>(out, _). Inr out))) out =
    Inr (out @ air_order (take n data))"
proof (induction n)
  case (Suc n)
  then show ?case by (simp add: spi_byte [simplified] air_order_def take_Suc_conv_app_nth)
qed (simp add: air_order_def)

text \<open>A write of up to 255 bytes sends the FIFO's register number and then the bytes in the order of the air.\<close>

lemma fifo_write_air_order:
  assumes "unat len \<le> length data" and "unat len < 256"
  shows "btphy_rf_fifo_write data len = Inr ([False, True, True, True, False, False, False, False] @ air_order (take (unat len) data))"
proof -
  have l: "unat (ucast len :: u8) = unat len" using assms(2) by (simp add: unsigned_ucast_eq unsigned_take_bit_eq take_bit_eq_mod)
  have r: "loop 8 (\<lambda>i (out, reg). Inr (out @ [reg AND 0x80 \<noteq> 0], push_bit 1 reg)) ([], 0x70 :: u8) =
      Inr ([False, True, True, True, False, False, False, False], 0)"
    by (simp add: loop_numeral)
  show ?thesis unfolding btphy_rf_fifo_write_def btphy_rf_cc2400_fifo_write_def l r
    using fifo_loop [OF assms(1)] by simp
qed

end
