(* ===== verification/Tasks.thy ===== *)
theory Tasks
  imports LinkLayer Packet Btphy
begin

text \<open>
  The state of the whole btbr firmware and the operations that plan radio work on it: the schedule functions
  of src/btphy/rx_task.c, tx_task.c and scan_task.c.  The tasks themselves call back into the states of the
  physical layer and follow in theory Run.
\<close>

section \<open>Callbacks and pointers\<close>

text \<open>The functions that are put into the frame scheduler, one constructor per function.\<close>

datatype task = Rx_prepare | Rx_execute | Rx_decode | Tx_prepare | Tx_execute | Tx_finalize
  | Scan_start | Scan_wait_more | Inquiry_start_sync | Paging_start_sync | Start_monitor2

text \<open>The user callbacks of the three tasks; their argument is NULL everywhere.\<close>

datatype rx_task_cb = Inquiry_rx_cb | Paging_rx_cb | Paging_rx_ack_cb | Page_scan_rx_fhs_cb | Master_rx_cb
  | Slave_rx_cb | Monitor1_rx_fhs_cb | Monitor2_rx_cb

datatype tx_task_cb = Tx_fhs_cb | Tx_eir_cb | Page_scan_tx_cb | Master_tx_done_cb | Slave_tx_done_cb

datatype scan_task_cb = Inquiry_scan_rx_cb | Page_scan_rx_id_cb | Monitor1_rx_id_cb

text \<open>Where the header and the data of a packet to send live.\<close>

datatype tx_ptr = Inqscan_fhs | Paging_fhs | Master_own | Slave_own | Tx_buf nat

section \<open>The state\<close>

record rx_task_st =
  rx_pkt_cb :: "rx_task_cb option"
  rx_msg :: "nat option"
  rx_codec :: bbcodec
  do_rx_payload :: bool
  rx_dma_buf :: "u8 list"
  rx_pkt_time :: u16
  rx_offset :: nat
  rx_done :: bool
  slot_num :: u8
  rx_raw_flag :: bool

record tx_task_st =
  tx_cb :: "tx_task_cb option"
  tx_user :: "tx_ptr option"
  tx_codec :: bbcodec
  tx_data_size :: nat
  air_data :: "u8 list"
  tx_p :: "nat option"

record scan_task_st =
  sc_cb :: "scan_task_cb option"
  sc_pkt_time :: u16
  sc_pkt_received :: bool
  sc_num_slots :: int

record inquiry_st =
  inq_clkn_start :: u32

record fhs_st =
  fh_clkn_start :: u32
  fhs_hdr :: bbhdr
  fhs_data :: "u8 list"

record page_scan_st =
  ps_fhs_info :: fhs_info
  ps_clkn_start :: u32

record slave_st =
  sl_master_bdaddr :: u64
  sl_lt_addr :: u8
  sl_ll :: link_layer

text \<open>
  The registers and memory the hardware writes: for every register the values its reads return, in order.  A
  wait whose values run out never ends.  \<open>dma_air\<close> is what the radio delivers during a reception, \<open>leftover\<close> what an
  allocated buffer and the stack hold before they are written, \<open>mosi\<close> what has been sent to the radio's FIFO.
  \<open>usb_tx_msg\<close> and \<open>usb_rx_msg\<close> are the two messages the USB driver (src/drivers/ubertooth_usb.c) is working on.
\<close>

record hw =
  clkn_offset :: "u32 list"
  gio6 :: "bool list"
  dma_offset :: "nat list"
  fsm_rx :: "bool list"
  fs_tuned :: "bool list"
  dma_air :: "u8 list"
  leftover :: "u8 list"
  mosi :: "bool list"
  fifo_int :: bool

record btbr = phy_fw +
  sched :: "task tdma_scheduler"
  timers :: "unit btphy_timers"
  afh_buf :: "u8 list"
  rx_task :: rx_task_st
  tx_task :: tx_task_st
  scan_task :: scan_task_st
  inquiry_state :: inquiry_st
  inquiry_scan_state :: fhs_st
  paging_state :: fhs_st
  page_scan_state :: page_scan_st
  monitor1_state :: page_scan_st
  monitor2_bdaddr :: u64
  master_ll :: link_layer
  slave_state :: slave_st
  usb_tx_msg :: "nat option"
  usb_rx_msg :: "nat option"
  hardware :: hw

section \<open>Planning\<close>

abbreviation RX_F_PAYLOAD :: nat where "RX_F_PAYLOAD \<equiv> 0"
abbreviation RX_F_RAW :: nat where "RX_F_RAW \<equiv> 1"

text \<open>\<open>tdma_schedule\<close> and \<open>tdma_schedule_set\<close> take the delay as an 8 bit value; their results are dropped by all callers.\<close>

definition schedule :: "u32 \<Rightarrow> task \<Rightarrow> int \<Rightarrow> btbr \<Rightarrow> btbr res" where
  "schedule delay t pr s =
     bnd (tdma_schedule (ucast delay) (Cb t) 0 0 0 pr (sched s)) (\<lambda>(_, sc). Inr (s\<lparr>sched := sc\<rparr>))"

definition sched_set :: "task \<Rightarrow> task \<Rightarrow> task sched_item list" where
  "sched_set prep exec =
     [\<lparr>cb = Cb prep, p1 = 0, p2 = 0, p3 = 0, prio = 0, item_flags = 0\<rparr>,
      \<lparr>cb = Cb_null, p1 = 0, p2 = 0, p3 = 0, prio = 0, item_flags = 0\<rparr>,
      \<lparr>cb = Cb exec, p1 = 0, p2 = 0, p3 = 0, prio = - 3, item_flags = 0\<rparr>,
      \<lparr>cb = Cb_null, p1 = 0, p2 = 0, p3 = 0, prio = 0, item_flags = 0\<rparr>,
      \<lparr>cb = Cb_end_set, p1 = 0, p2 = 0, p3 = 0, prio = 0, item_flags = 0\<rparr>]"

definition rx_sched_set :: "task sched_item list" where
  "rx_sched_set = sched_set Rx_prepare Rx_execute"

definition tx_sched_set :: "task sched_item list" where
  "tx_sched_set = sched_set Tx_prepare Tx_execute"

definition schedule_items :: "u32 \<Rightarrow> task sched_item list \<Rightarrow> btbr \<Rightarrow> btbr res" where
  "schedule_items delay items s =
     bnd (tdma_schedule_set (ucast delay) items 0 (sched s)) (\<lambda>(_, sc). Inr (s\<lparr>sched := sc\<rparr>))"

definition rx_task_schedule :: "u32 \<Rightarrow> rx_task_cb \<Rightarrow> u32 \<Rightarrow> btbr \<Rightarrow> btbr res" where
  "rx_task_schedule delay c fl s =
     (if rx_msg (rx_task s) \<noteq> None then Inl Die
      else
        schedule_items delay rx_sched_set (s\<lparr>rx_task := (rx_task s)\<lparr>rx_pkt_cb := Some c,
          do_rx_payload := bit fl RX_F_PAYLOAD, rx_raw_flag := bit fl RX_F_RAW\<rparr>\<rparr>))"

definition rx_task_reset :: "btbr \<Rightarrow> btbr res" where
  "rx_task_reset s =
     (case rx_msg (rx_task s) of
        None \<Rightarrow> Inr s
      | Some m \<Rightarrow> bnd (msg_free m s) (\<lambda>s. Inr (s\<lparr>rx_task := (rx_task s)\<lparr>rx_msg := None\<rparr>\<rparr>)))"

definition tx_task_schedule :: "u32 \<Rightarrow> tx_task_cb option \<Rightarrow> tx_ptr option \<Rightarrow> btbr \<Rightarrow> btbr res" where
  "tx_task_schedule delay c p s =
     (if tx_user (tx_task s) \<noteq> None then Inl Die
      else schedule_items delay tx_sched_set (s\<lparr>tx_task := (tx_task s)\<lparr>tx_cb := c, tx_user := p\<rparr>\<rparr>))"

definition tx_task_reset :: "btbr \<Rightarrow> btbr" where
  "tx_task_reset s =
     s\<lparr>hardware := (hardware s)\<lparr>fifo_int := False\<rparr>, tx_task := (tx_task s)\<lparr>tx_user := None, tx_p := None\<rparr>\<rparr>"

text \<open>The argument \<open>delay\<close> is not used: the scan always starts in the next frame.\<close>

definition scan_task_schedule :: "u32 \<Rightarrow> scan_task_cb \<Rightarrow> btbr \<Rightarrow> btbr res" where
  "scan_task_schedule delay c s =
     schedule 1 Scan_start (- 3) (s\<lparr>scan_task := (scan_task s)\<lparr>sc_cb := Some c\<rparr>, hop := hop_increment (hop s)\<rparr>)"

end
