(* ===== verification/States.thy ===== *)
theory States
  imports Tasks
begin

text \<open>
  The states of the physical layer: inquiry, inquiry scan, paging, page scan, master, slave, and the two
  monitor states (src/btphy/*_state.c).  Every function is a function of the whole firmware state; console
  output is left out.
\<close>

section \<open>Slots\<close>

text \<open>\<open>3 & (IDX - slot)\<close>: the frames until the slot with that number comes, counted by either clock.\<close>

definition master_wait :: "u32 \<Rightarrow> btbr \<Rightarrow> u32" where
  "master_wait idx s = 3 AND (idx - (master_clkn (phy s) AND 3))"

definition slave_wait :: "u32 \<Rightarrow> btbr \<Rightarrow> u32" where
  "slave_wait idx s = 3 AND (idx - (slave_clkn (phy s) AND 3))"

abbreviation GIAC :: u32 where "GIAC \<equiv> 0x9e8b33"

text \<open>The received packet a message holds.\<close>

definition pkt_of :: "nat \<Rightarrow> btbr \<Rightarrow> (message \<times> rx_pkt) res" where
  "pkt_of msg s = bnd (rd (bufs s) msg) (\<lambda>h. bnd (as_rx h) (\<lambda>pkt. Inr (h, pkt)))"

section \<open>Inquiry\<close>

abbreviation INQ_MAX_TICKS :: u32 where "INQ_MAX_TICKS \<equiv> CLKN_RATE * 60"

definition inquiry_canceled :: "btbr \<Rightarrow> bool" where
  "inquiry_canceled s \<longleftrightarrow> bt_state s \<noteq> BTCTL_STATE_INQUIRY"

definition inquiry_schedule :: "u32 \<Rightarrow> btbr \<Rightarrow> btbr res" where
  "inquiry_schedule delay s =
     (if master_clkn (phy s) \<ge> inq_clkn_start (inquiry_state s) + INQ_MAX_TICKS
      then btctl_set_state BTCTL_STATE_STANDBY BTCTL_REASON_TIMEOUT s
      else
        bnd (tx_task_schedule delay None None s) (\<lambda>s.
        rx_task_schedule (delay + 2) Inquiry_rx_cb 1 s))"

definition inquiry_rx_cb :: "nat \<Rightarrow> btbr \<Rightarrow> btbr res" where
  "inquiry_rx_cb msg s =
     (if inquiry_canceled s then msg_free msg s
      else
        bnd (rd (bufs s) msg) (\<lambda>h.
        if m_type h \<noteq> BTCTL_RX_PKT then Inl Die
        else
          bnd (as_rx h) (\<lambda>pkt.
          if \<not> BBPKT_GOOD_CRC pkt
          then bnd (msg_free msg s) (\<lambda>s. inquiry_schedule (master_wait 3 s) s)
          else
            bnd (if btype (rx_hdr pkt) = BB_TYPE_FHS then rx_task_schedule 2 Inquiry_rx_cb 1 s
                 else inquiry_schedule (master_wait 3 s) s) (\<lambda>s.
            bnd (btctl_tx_enqueue msg s) (\<lambda>(rc, s). if rc \<noteq> 0 then Inl Die else Inr s)))))"

definition inquiry_start_sync :: "btbr \<Rightarrow> btbr res" where
  "inquiry_start_sync s =
     (let s = btphy_cancel_clkn_delay s;
          delay = 4 + master_wait 3 s
      in inquiry_schedule delay (s\<lparr>inquiry_state := \<lparr>inq_clkn_start = master_clkn (phy s) + delay\<rparr>\<rparr>))"

definition inquiry_state_setup :: "btbr \<Rightarrow> btbr res" where
  "inquiry_state_setup s =
     bnd (btphy_set_mode BT_MODE_INQUIRY GIAC 0 s) (\<lambda>s.
     bnd (schedule 2 Inquiry_start_sync (- 3) s) (\<lambda>s.
     btctl_set_state BTCTL_STATE_INQUIRY BTCTL_REASON_SUCCESS s))"

section \<open>The FHS packet of this device\<close>

definition fhs_header :: "bbhdr \<Rightarrow> bbhdr" where
  "fhs_header h = h\<lparr>lt_addr := 0, btype := BB_TYPE_FHS, flags := 0\<rparr>"

definition fhs_prepare :: "u8 \<Rightarrow> u8 \<Rightarrow> u8 list \<Rightarrow> btbr \<Rightarrow> u8 list res" where
  "fhs_prepare lta has_eir data s =
     bbpkt_fhs_prepare_payload data (my_sw (phy s) AND 0xffffffff) (my_lap (phy s)) (my_uap (phy s)) (my_nap (phy s))
       0x5A020C lta has_eir"

section \<open>Inquiry scan\<close>

abbreviation INQ_SCAN_MAX_TICKS :: u32 where "INQ_SCAN_MAX_TICKS \<equiv> CLKN_RATE * 60"

definition inquiry_scan_canceled :: "btbr \<Rightarrow> bool" where
  "inquiry_scan_canceled s \<longleftrightarrow> bt_state s \<noteq> BTCTL_STATE_INQUIRY_SCAN"

definition inquiry_scan_schedule :: "u32 \<Rightarrow> btbr \<Rightarrow> btbr res" where
  "inquiry_scan_schedule delay s =
     (if t1tc s \<ge> fh_clkn_start (inquiry_scan_state s) + INQ_SCAN_MAX_TICKS
      then btctl_set_state BTCTL_STATE_STANDBY BTCTL_REASON_TIMEOUT s
      else scan_task_schedule delay Inquiry_scan_rx_cb s)"

definition tx_eir_cb :: "btbr \<Rightarrow> btbr res" where
  "tx_eir_cb s = inquiry_scan_schedule 1 s"

definition tx_fhs_cb :: "btbr \<Rightarrow> btbr res" where
  "tx_fhs_cb s =
     (case eir_msg s of
        Some h \<Rightarrow> tx_task_schedule (slave_wait 1 s) (Some Tx_eir_cb) (Some (Tx_buf h)) s
      | None \<Rightarrow> inquiry_scan_schedule 1 s)"

definition inquiry_scan_rx_cb :: "bool \<Rightarrow> btbr \<Rightarrow> btbr res" where
  "inquiry_scan_rx_cb sw_detected s =
     (if inquiry_scan_canceled s then Inr s
      else if sw_detected then
        bnd (bbpkt_fhs_finalize_payload (fhs_data (inquiry_scan_state s)) (drop_bit 2 (master_clkn (phy s) + 2))) (\<lambda>d.
        let s = s\<lparr>inquiry_scan_state := (inquiry_scan_state s)\<lparr>fhs_data := d\<rparr>\<rparr> in
        tx_task_schedule (slave_wait 1 s) (Some Tx_fhs_cb) (Some Inqscan_fhs) s)
      else inquiry_scan_schedule 0 s)"

definition inquiry_scan_state_setup :: "btbr \<Rightarrow> btbr res" where
  "inquiry_scan_state_setup s =
     bnd (btphy_set_mode BT_MODE_INQUIRY_SCAN GIAC 0 s) (\<lambda>s.
     bnd (btctl_set_state BTCTL_STATE_INQUIRY_SCAN BTCTL_REASON_SUCCESS s) (\<lambda>s.
     let st = inquiry_scan_state s in
     bnd (fhs_prepare 0 (if eir_msg s \<noteq> None then 1 else 0) (fhs_data st) s) (\<lambda>d.
     inquiry_scan_schedule 1 (s\<lparr>inquiry_scan_state :=
       st\<lparr>fhs_hdr := fhs_header (fhs_hdr st), fhs_data := d, fh_clkn_start := t1tc s + 1\<rparr>\<rparr>))))"


section \<open>Master\<close>

definition master_canceled :: "btbr \<Rightarrow> bool" where
  "master_canceled s \<longleftrightarrow> bt_state s \<noteq> BTCTL_STATE_CONNECTED"

definition master_state_schedule_rx :: "u32 \<Rightarrow> btbr \<Rightarrow> btbr res" where
  "master_state_schedule_rx skip_slots s =
     rx_task_schedule (4 * skip_slots + master_wait 1 s) Master_rx_cb 1 s"

definition master_tx_done_cb :: "btbr \<Rightarrow> btbr res" where
  "master_tx_done_cb s = master_state_schedule_rx 0 s"

text \<open>The pointers \<open>ll_prepare_tx\<close> returns for a link layer whose own header is \<open>own_ptr\<close>.\<close>

definition tx_ptr_of :: "tx_ptr \<Rightarrow> tx_src \<Rightarrow> tx_ptr" where
  "tx_ptr_of own_ptr src = (case src of Src_own \<Rightarrow> own_ptr | Src_msg m \<Rightarrow> Tx_buf m)"

definition master_state_schedule_tx :: "u32 \<Rightarrow> btbr \<Rightarrow> btbr res" where
  "master_state_schedule_tx skip_slots s =
     (let delay = skip_slots * 4 + master_wait 3 s in
      bnd (ll_prepare_tx (master_ll s) s) (\<lambda>(src, ll, s).
      tx_task_schedule delay (Some Master_tx_done_cb) (Some (tx_ptr_of Master_own src)) (s\<lparr>master_ll := ll\<rparr>)))"

text \<open>A negative result of \<open>ll_process_rx\<close> ends the connection, one asks for a transmission.\<close>

definition master_rx_cb :: "nat \<Rightarrow> btbr \<Rightarrow> btbr res" where
  "master_rx_cb msg s =
     (if master_canceled s then
        bnd (msg_free msg s) (\<lambda>s.
        bnd (ll_reset (master_ll s) s) (\<lambda>(ll, s). Inr (s\<lparr>master_ll := ll\<rparr>)))
      else
        bnd (ll_process_rx (master_ll s) msg s) (\<lambda>(rc, ll, s).
        let s = s\<lparr>master_ll := ll\<rparr> in
        if rc < 0 then
          bnd (ll_reset (master_ll s) s) (\<lambda>(ll, s).
          btctl_set_state BTCTL_STATE_STANDBY (word_of_int (- rc)) (s\<lparr>master_ll := ll\<rparr>))
        else if rc = 1 then master_state_schedule_tx 0 s
        else master_state_schedule_rx 0 s))"

definition master_state_init :: "btbr \<Rightarrow> btbr res" where
  "master_state_init s =
     bnd (btphy_set_mode BT_MODE_MASTER (my_lap (phy s)) (my_uap (phy s)) s) (\<lambda>s.
     bnd (master_state_schedule_tx 1 (s\<lparr>master_ll := ll_init (master_ll s) 1 1 s\<rparr>)) (\<lambda>s.
     btctl_set_state BTCTL_STATE_CONNECTED BTCTL_REASON_PAGED s))"

section \<open>Paging\<close>

abbreviation PAGING_MAX_TICKS :: u32 where "PAGING_MAX_TICKS \<equiv> CLKN_RATE * 45"

definition paging_canceled :: "btbr \<Rightarrow> bool" where
  "paging_canceled s \<longleftrightarrow> bt_state s \<noteq> BTCTL_STATE_PAGE"

definition paging_schedule :: "u32 \<Rightarrow> btbr \<Rightarrow> btbr res" where
  "paging_schedule delay s =
     (if master_clkn (phy s) \<ge> fh_clkn_start (paging_state s) + PAGING_MAX_TICKS
      then btctl_set_state BTCTL_STATE_STANDBY BTCTL_REASON_TIMEOUT s
      else
        bnd (tx_task_schedule delay None None s) (\<lambda>s.
        rx_task_schedule (delay + 2) Paging_rx_cb 0 s))"

definition paging_rx_ack_cb :: "nat \<Rightarrow> btbr \<Rightarrow> btbr res" where
  "paging_rx_ack_cb msg s =
     (if paging_canceled s then msg_free msg s
      else
        bnd (pkt_of msg s) (\<lambda>(h, pkt).
        bnd (if BBPKT_HAS_PKT pkt then master_state_init s
             else paging_schedule (master_wait 3 s) s) (\<lambda>s. msg_free msg s)))"

definition paging_rx_cb :: "nat \<Rightarrow> btbr \<Rightarrow> btbr res" where
  "paging_rx_cb msg s =
     (if paging_canceled s then msg_free msg s
      else
        bnd (pkt_of msg s) (\<lambda>(h, pkt).
        bnd (if BBPKT_HAS_PKT pkt then
               let delay = master_wait 3 s in
               bnd (bbpkt_fhs_finalize_payload (fhs_data (paging_state s)) (drop_bit 2 (master_clkn (phy s) + delay + 1))) (\<lambda>d.
               bnd (tx_task_schedule delay None (Some Paging_fhs) (s\<lparr>paging_state := (paging_state s)\<lparr>fhs_data := d\<rparr>\<rparr>)) (\<lambda>s.
               rx_task_schedule (delay + 2) Paging_rx_ack_cb 0 s))
             else paging_schedule (master_wait 3 s) s) (\<lambda>s. msg_free msg s)))"

definition paging_start_sync :: "btbr \<Rightarrow> btbr res" where
  "paging_start_sync s =
     (let s = btphy_cancel_clkn_delay s;
          delay = 4 + master_wait 3 s
      in paging_schedule delay (s\<lparr>paging_state := (paging_state s)\<lparr>fh_clkn_start := master_clkn (phy s) + delay\<rparr>\<rparr>))"

definition paging_state_setup :: "u32 \<Rightarrow> u8 \<Rightarrow> btbr \<Rightarrow> btbr res" where
  "paging_state_setup lap uap0 s =
     bnd (btphy_set_mode BT_MODE_PAGING lap uap0 s) (\<lambda>s.
     let st = paging_state s in
     bnd (fhs_prepare 1 0 (fhs_data st) s) (\<lambda>d.
     bnd (schedule 2 Paging_start_sync (- 3) (s\<lparr>paging_state := st\<lparr>fhs_hdr := fhs_header (fhs_hdr st), fhs_data := d\<rparr>\<rparr>)) (\<lambda>s.
     btctl_set_state BTCTL_STATE_PAGE BTCTL_REASON_SUCCESS s)))"

section \<open>Slave\<close>

definition slave_state_canceled :: "btbr \<Rightarrow> bool" where
  "slave_state_canceled s \<longleftrightarrow> bt_state s \<noteq> BTCTL_STATE_CONNECTED"

definition set_slave_ll :: "link_layer \<Rightarrow> btbr \<Rightarrow> btbr" where
  "set_slave_ll ll s = s\<lparr>slave_state := (slave_state s)\<lparr>sl_ll := ll\<rparr>\<rparr>"

definition slave_state_schedule_rx :: "u32 \<Rightarrow> btbr \<Rightarrow> btbr res" where
  "slave_state_schedule_rx skip_slots s =
     rx_task_schedule (4 * skip_slots + slave_wait 3 s) Slave_rx_cb 1 s"

definition slave_tx_done_cb :: "btbr \<Rightarrow> btbr res" where
  "slave_tx_done_cb s = slave_state_schedule_rx 0 s"

definition slave_state_schedule_tx :: "u32 \<Rightarrow> btbr \<Rightarrow> btbr res" where
  "slave_state_schedule_tx skip_slots s =
     (let delay = 4 * skip_slots + slave_wait 1 s in
      bnd (ll_prepare_tx (sl_ll (slave_state s)) s) (\<lambda>(src, ll, s).
      tx_task_schedule delay (Some Slave_tx_done_cb) (Some (tx_ptr_of Slave_own src)) (set_slave_ll ll s)))"

definition slave_rx_cb :: "nat \<Rightarrow> int \<Rightarrow> btbr \<Rightarrow> btbr res" where
  "slave_rx_cb msg time_offset s =
     (if slave_state_canceled s then
        bnd (ll_reset (sl_ll (slave_state s)) s) (\<lambda>(ll, s). msg_free msg (set_slave_ll ll s))
      else
        bnd (pkt_of msg s) (\<lambda>(h, pkt).
        let s = (if BBPKT_HAS_PKT pkt then btphy_adj_clkn_delay time_offset s else s) in
        bnd (ll_process_rx (sl_ll (slave_state s)) msg s) (\<lambda>(rc, ll, s).
        let s = set_slave_ll ll s in
        if rc < 0 then
          bnd (ll_reset (sl_ll (slave_state s)) s) (\<lambda>(ll, s).
          btctl_set_state BTCTL_STATE_STANDBY (word_of_int (- rc)) (set_slave_ll ll s))
        else if rc = 1 then slave_state_schedule_tx 0 s
        else slave_state_schedule_rx 0 s)))"

definition slave_state_init :: "u64 \<Rightarrow> u8 \<Rightarrow> btbr \<Rightarrow> btbr res" where
  "slave_state_init master_bdaddr lta s =
     (let s = s\<lparr>slave_state := (slave_state s)\<lparr>sl_master_bdaddr := master_bdaddr, sl_lt_addr := lta\<rparr>\<rparr> in
      bnd (btphy_set_mode BT_MODE_SLAVE (ucast (master_bdaddr AND 0xffffff)) (ucast (0xff AND drop_bit 24 master_bdaddr)) s) (\<lambda>s.
      bnd (btctl_set_state BTCTL_STATE_CONNECTED BTCTL_REASON_PAGED (set_slave_ll (ll_init (sl_ll (slave_state s)) 0 lta s) s)) (\<lambda>s.
      slave_state_schedule_rx 1 s)))"

section \<open>Page scan\<close>

abbreviation PAGE_SCAN_MAX_TICKS :: u32 where "PAGE_SCAN_MAX_TICKS \<equiv> CLKN_RATE * 60"

definition page_scan_canceled :: "btbr \<Rightarrow> bool" where
  "page_scan_canceled s \<longleftrightarrow> bt_state s \<noteq> BTCTL_STATE_PAGE_SCAN"

definition page_scan_tx_cb :: "btbr \<Rightarrow> btbr res" where
  "page_scan_tx_cb s = slave_state_init (bdaddr (ps_fhs_info (page_scan_state s))) (fhs_lt_addr (ps_fhs_info (page_scan_state s))) s"

definition page_scan_schedule :: "u32 \<Rightarrow> btbr \<Rightarrow> btbr res" where
  "page_scan_schedule delay s =
     (if t1tc s \<ge> ps_clkn_start (page_scan_state s) + PAGE_SCAN_MAX_TICKS
      then btctl_set_state BTCTL_STATE_STANDBY BTCTL_REASON_TIMEOUT s
      else scan_task_schedule delay Page_scan_rx_id_cb s)"

text \<open>The slave clock after an FHS packet: the master's clock at the packet plus the ticks since.\<close>

definition sync_slave_clkn :: "fhs_info \<Rightarrow> rx_pkt \<Rightarrow> btbr \<Rightarrow> btbr" where
  "sync_slave_clkn fi pkt s =
     s\<lparr>phy := (phy s)\<lparr>slave_clkn := push_bit 2 (clk27_2 fi) + (slave_clkn (phy s) - rx_clkn pkt)\<rparr>\<rparr>"

definition page_scan_rx_fhs_cb :: "nat \<Rightarrow> btbr \<Rightarrow> btbr res" where
  "page_scan_rx_fhs_cb msg s =
     (if page_scan_canceled s then msg_free msg s
      else
        bnd (pkt_of msg s) (\<lambda>(h, pkt).
        bnd (if BBPKT_GOOD_CRC pkt then
               if btype (rx_hdr pkt) \<noteq> BB_TYPE_FHS then Inr s
               else
                 bnd (bbpkt_decode_fhs (rx_data pkt)) (\<lambda>fi.
                 let s = sync_slave_clkn fi pkt (s\<lparr>page_scan_state := (page_scan_state s)\<lparr>ps_fhs_info := fi\<rparr>\<rparr>) in
                 tx_task_schedule (slave_wait 1 s) (Some Page_scan_tx_cb) None s)
             else page_scan_schedule 0 s) (\<lambda>s. msg_free msg s)))"

definition page_scan_rx_id_cb :: "bool \<Rightarrow> btbr \<Rightarrow> btbr res" where
  "page_scan_rx_id_cb sw_detected s =
     (if page_scan_canceled s then Inr s
      else if sw_detected then
        let delay = slave_wait 1 s in
        bnd (tx_task_schedule delay None None s) (\<lambda>s.
        rx_task_schedule (delay + 2) Page_scan_rx_fhs_cb 1 s)
      else page_scan_schedule 0 s)"

definition page_scan_state_setup :: "btbr \<Rightarrow> btbr res" where
  "page_scan_state_setup s =
     bnd (btphy_set_mode BT_MODE_PAGE_SCAN (my_lap (phy s)) (my_uap (phy s)) s) (\<lambda>s.
     bnd (btctl_set_state BTCTL_STATE_PAGE_SCAN BTCTL_REASON_SUCCESS s) (\<lambda>s.
     page_scan_schedule 1 (s\<lparr>page_scan_state := (page_scan_state s)\<lparr>ps_clkn_start := t1tc s + 1\<rparr>\<rparr>)))"

section \<open>Monitor\<close>

definition monitor2_state_canceled :: "btbr \<Rightarrow> bool" where
  "monitor2_state_canceled s \<longleftrightarrow> bt_state s \<noteq> BTCTL_STATE_CONNECTED"

definition monitor2_state_schedule_rx :: "u32 \<Rightarrow> btbr \<Rightarrow> btbr res" where
  "monitor2_state_schedule_rx skip_slots s =
     rx_task_schedule (2 * skip_slots + (1 AND (1 - (slave_clkn (phy s) AND 1)))) Monitor2_rx_cb 3 s"

definition monitor2_rx_cb :: "nat \<Rightarrow> int \<Rightarrow> btbr \<Rightarrow> btbr res" where
  "monitor2_rx_cb msg time_offset s =
     (if monitor2_state_canceled s then msg_free msg s
      else
        bnd (rd (bufs s) msg) (\<lambda>h.
        if m_type h \<noteq> BTCTL_RX_PKT then Inl Die
        else
          bnd (as_rx h) (\<lambda>pkt.
          bnd (if \<not> BBPKT_HAS_PKT pkt then msg_free msg s
               else
                 let s = (if rx_clkn pkt AND 2 = 0 then btphy_adj_clkn_delay time_offset s else s) in
                 if \<not> BBPKT_HAS_HDR pkt then msg_free msg s
                 else if BBPKT_HAS_CRC pkt then
                   bnd (btctl_tx_enqueue msg s) (\<lambda>(rc, s). if rc \<noteq> 0 then Inl Die else Inr s)
                 else msg_free msg s) (\<lambda>s. monitor2_state_schedule_rx 0 s))))"

definition monitor2_state_init :: "u64 \<Rightarrow> btbr \<Rightarrow> btbr res" where
  "monitor2_state_init master_bdaddr s =
     (let s = s\<lparr>monitor2_bdaddr := master_bdaddr\<rparr> in
      bnd (btphy_set_mode BT_MODE_SLAVE (ucast (master_bdaddr AND 0xffffff)) (ucast (0xff AND drop_bit 24 master_bdaddr)) s) (\<lambda>s.
      bnd (btctl_set_state BTCTL_STATE_CONNECTED BTCTL_REASON_PAGED s) (\<lambda>s.
      monitor2_state_schedule_rx 1 s)))"

definition monitor1_canceled :: "btbr \<Rightarrow> bool" where
  "monitor1_canceled s \<longleftrightarrow> bt_state s \<noteq> BTCTL_STATE_PAGE_SCAN"

definition start_monitor2 :: "btbr \<Rightarrow> btbr res" where
  "start_monitor2 s = monitor2_state_init (bdaddr (ps_fhs_info (monitor1_state s))) s"

definition monitor1_schedule :: "u32 \<Rightarrow> btbr \<Rightarrow> btbr res" where
  "monitor1_schedule delay s =
     (if t1tc s \<ge> ps_clkn_start (monitor1_state s) + PAGE_SCAN_MAX_TICKS
      then btctl_set_state BTCTL_STATE_STANDBY BTCTL_REASON_TIMEOUT s
      else scan_task_schedule delay Monitor1_rx_id_cb s)"

text \<open>The FHS packet goes to the host; the result of the enqueue is dropped.\<close>

definition monitor1_rx_fhs_cb :: "nat \<Rightarrow> btbr \<Rightarrow> btbr res" where
  "monitor1_rx_fhs_cb msg s =
     (if monitor1_canceled s then msg_free msg s
      else
        bnd (pkt_of msg s) (\<lambda>(h, pkt).
        if BBPKT_GOOD_CRC pkt then
          if btype (rx_hdr pkt) \<noteq> BB_TYPE_FHS then msg_free msg s
          else
            bnd (bbpkt_decode_fhs (rx_data pkt)) (\<lambda>fi.
            bnd (schedule 1 Start_monitor2 (- 3) (sync_slave_clkn fi pkt (s\<lparr>monitor1_state := (monitor1_state s)\<lparr>ps_fhs_info := fi\<rparr>\<rparr>))) (\<lambda>s.
            bnd (btctl_tx_enqueue msg s) (\<lambda>(_, s). Inr s)))
        else bnd (monitor1_schedule 0 s) (\<lambda>s. msg_free msg s)))"

definition monitor1_rx_id_cb :: "bool \<Rightarrow> btbr \<Rightarrow> btbr res" where
  "monitor1_rx_id_cb sw_detected s =
     (if monitor1_canceled s then Inr s
      else if sw_detected then
        let delay = slave_wait 1 s in
        bnd (tx_task_schedule delay None None s) (\<lambda>s.
        rx_task_schedule (delay + 2) Monitor1_rx_fhs_cb 1 s)
      else monitor1_schedule 0 s)"

definition monitor1_state_setup :: "u64 \<Rightarrow> btbr \<Rightarrow> btbr res" where
  "monitor1_state_setup slave_bdaddr s =
     (let s = btphy_set_bdaddr slave_bdaddr s in
      bnd (btphy_set_mode BT_MODE_PAGE_SCAN (my_lap (phy s)) (my_uap (phy s)) s) (\<lambda>s.
      bnd (btctl_set_state BTCTL_STATE_PAGE_SCAN BTCTL_REASON_SUCCESS s) (\<lambda>s.
      monitor1_schedule 1 (s\<lparr>monitor1_state := (monitor1_state s)\<lparr>ps_clkn_start := t1tc s + 1\<rparr>\<rparr>))))"

section \<open>Dispatch\<close>

definition rx_callback :: "rx_task_cb \<Rightarrow> nat \<Rightarrow> int \<Rightarrow> btbr \<Rightarrow> btbr res" where
  "rx_callback c msg time_offset =
     (case c of
        Inquiry_rx_cb \<Rightarrow> inquiry_rx_cb msg
      | Paging_rx_cb \<Rightarrow> paging_rx_cb msg
      | Paging_rx_ack_cb \<Rightarrow> paging_rx_ack_cb msg
      | Page_scan_rx_fhs_cb \<Rightarrow> page_scan_rx_fhs_cb msg
      | Master_rx_cb \<Rightarrow> master_rx_cb msg
      | Slave_rx_cb \<Rightarrow> slave_rx_cb msg time_offset
      | Monitor1_rx_fhs_cb \<Rightarrow> monitor1_rx_fhs_cb msg
      | Monitor2_rx_cb \<Rightarrow> monitor2_rx_cb msg time_offset)"

definition tx_callback :: "tx_task_cb \<Rightarrow> btbr \<Rightarrow> btbr res" where
  "tx_callback c =
     (case c of
        Tx_fhs_cb \<Rightarrow> tx_fhs_cb
      | Tx_eir_cb \<Rightarrow> tx_eir_cb
      | Page_scan_tx_cb \<Rightarrow> page_scan_tx_cb
      | Master_tx_done_cb \<Rightarrow> master_tx_done_cb
      | Slave_tx_done_cb \<Rightarrow> slave_tx_done_cb)"

definition scan_callback :: "scan_task_cb \<Rightarrow> bool \<Rightarrow> btbr \<Rightarrow> btbr res" where
  "scan_callback c =
     (case c of
        Inquiry_scan_rx_cb \<Rightarrow> inquiry_scan_rx_cb
      | Page_scan_rx_id_cb \<Rightarrow> page_scan_rx_id_cb
      | Monitor1_rx_id_cb \<Rightarrow> monitor1_rx_id_cb)"

end
