(* ===== verification/Run.thy ===== *)
theory Run
  imports States
begin

text \<open>
  The tasks of src/btphy/rx_task.c, tx_task.c and scan_task.c: what runs in a frame, with the hardware values as
  inputs, and the interrupt handlers that run them.
\<close>

section \<open>The hardware's side\<close>

definition upd_hw :: "(hw \<Rightarrow> hw) \<Rightarrow> btbr \<Rightarrow> btbr" where
  "upd_hw f s = s\<lparr>hardware := f (hardware s)\<rparr>"

definition upd_rx :: "(rx_task_st \<Rightarrow> rx_task_st) \<Rightarrow> btbr \<Rightarrow> btbr" where
  "upd_rx f s = s\<lparr>rx_task := f (rx_task s)\<rparr>"

definition upd_tx :: "(tx_task_st \<Rightarrow> tx_task_st) \<Rightarrow> btbr \<Rightarrow> btbr" where
  "upd_tx f s = s\<lparr>tx_task := f (tx_task s)\<rparr>"

definition upd_scan :: "(scan_task_st \<Rightarrow> scan_task_st) \<Rightarrow> btbr \<Rightarrow> btbr" where
  "upd_scan f s = s\<lparr>scan_task := f (scan_task s)\<rparr>"

text \<open>
  Waiting for the packet strobe: \<open>while (CLKN_OFFSET < lim) if (GIO6 == 0) { time = CLKN_OFFSET; break; }\<close>.  The
  time is \<open>None\<close> when the limit is reached first.
\<close>

fun wait_strobe :: "u32 \<Rightarrow> u32 list \<Rightarrow> bool list \<Rightarrow> (u16 option \<times> u32 list \<times> bool list) res" where
  "wait_strobe lim [] gs = Inl Hang"
| "wait_strobe lim (t # ts) gs =
     (if \<not> t < lim then Inr (None, ts, gs)
      else case gs of
        [] \<Rightarrow> Inl Hang
      | g # gs \<Rightarrow>
          if \<not> g then (case ts of [] \<Rightarrow> Inl Hang | t2 # ts \<Rightarrow> Inr (Some (ucast t2), ts, gs))
          else wait_strobe lim ts gs)"

definition wait_packet :: "u32 \<Rightarrow> btbr \<Rightarrow> (u16 option \<times> btbr) res" where
  "wait_packet lim s =
     bnd (wait_strobe lim (clkn_offset (hardware s)) (gio6 (hardware s))) (\<lambda>(r, ts, gs).
     Inr (r, upd_hw (\<lambda>h. h\<lparr>clkn_offset := ts, gio6 := gs\<rparr>) s))"

section \<open>Reception\<close>

abbreviation NUM_PKT_HDR_BYTES :: nat where "NUM_PKT_HDR_BYTES \<equiv> (4 + 54 + 7) div 8"
abbreviation NUM_DATA_HDR_BYTES :: nat where "NUM_DATA_HDR_BYTES \<equiv> (4 + 54 + 12 * 10 + 7) div 8"
abbreviation WAIT_SYNCWORD :: u32 where "WAIT_SYNCWORD \<equiv> 610 + 100"
abbreviation WAIT_RX_MAX :: u32 where "WAIT_RX_MAX \<equiv> 1500"
abbreviation MAX_WAIT_BYTES :: nat where "MAX_WAIT_BYTES \<equiv> 150 div 8 - 2"
abbreviation RF_EXPECTED_RX_CLKN_OFFSET :: int where "RF_EXPECTED_RX_CLKN_OFFSET \<equiv> 610"

text \<open>
  The DMA has put the first \<open>sz\<close> received bytes into the buffer; those from \<open>rx_offset\<close> on still have the bit
  order of the radio.
\<close>

definition rx_buf_update :: "btbr \<Rightarrow> (nat \<times> btbr) res" where
  "rx_buf_update s =
     (case dma_offset (hardware s) of
        [] \<Rightarrow> Inl Hang
      | sz # offs \<Rightarrow>
          let rt = rx_task s in
          bnd (loop (sz - rx_offset rt) (\<lambda>k buf.
            bnd (rd (dma_air (hardware s)) (rx_offset rt + k)) (\<lambda>b. wr buf (rx_offset rt + k) (reverse8 b))) (rx_dma_buf rt)) (\<lambda>buf.
          Inr (if sz > 4 then sz - 4 else 0,
            upd_hw (\<lambda>h. h\<lparr>dma_offset := offs\<rparr>) (upd_rx (\<lambda>r. r\<lparr>rx_dma_buf := buf, rx_offset := sz\<rparr>) s))))"

text \<open>\<open>while ((size = rx_buf_update()) < n);\<close> every pass takes one value, so as many passes as values are enough.\<close>

primrec wait_bytes_loop :: "nat \<Rightarrow> nat \<Rightarrow> btbr \<Rightarrow> (nat \<times> btbr) res" where
  "wait_bytes_loop 0 n s = Inl Hang"
| "wait_bytes_loop (Suc k) n s =
     bnd (rx_buf_update s) (\<lambda>(sz, s). if sz < n then wait_bytes_loop k n s else Inr (sz, s))"

definition wait_bytes :: "nat \<Rightarrow> btbr \<Rightarrow> (nat \<times> btbr) res" where
  "wait_bytes n s = wait_bytes_loop (length (dma_offset (hardware s)) + 1) n s"

text \<open>Access to the packet of the message that is being received.\<close>

definition cur_rx :: "btbr \<Rightarrow> (nat \<times> message \<times> rx_pkt) res" where
  "cur_rx s =
     (case rx_msg (rx_task s) of
        None \<Rightarrow> Inl Oob
      | Some m \<Rightarrow> bnd (pkt_of m s) (\<lambda>(h, pkt). Inr (m, h, pkt)))"

definition upd_rx_pkt :: "(rx_pkt \<Rightarrow> rx_pkt) \<Rightarrow> btbr \<Rightarrow> btbr res" where
  "upd_rx_pkt f s =
     bnd (cur_rx s) (\<lambda>(m, h, pkt).
     bnd (wr (bufs s) m (h\<lparr>m_body := Rx_body (f pkt)\<rparr>)) (\<lambda>bs. Inr (s\<lparr>bufs := bs\<rparr>)))"

text \<open>The end of a reception up to the callback; \<open>msg_set_write\<close> leaves a message alone when the position is outside.\<close>

definition rx_close :: "btbr \<Rightarrow> (nat \<times> btbr) res" where
  "rx_close s =
     (if rx_msg (rx_task s) = None then Inl Die
      else if rx_pkt_cb (rx_task s) = None then Inl Die
      else
        bnd (cur_rx s) (\<lambda>(m, h, pkt).
        bnd (if BBPKT_HAS_HDR pkt then
               bnd (rx_buf_update s) (\<lambda>(_, s).
               bnd (bbcodec_decode_finalize (rx_codec (rx_task s)) (rx_data pkt)) (\<lambda>(fl, n).
               Inr (pkt\<lparr>rx_flags := rx_flags pkt OR fl, rx_size := n\<rparr>, s)))
             else Inr (pkt\<lparr>rx_size := 0\<rparr>, s)) (\<lambda>(pkt, s).
        let len = 4 + 12 + unat (rx_size pkt) in
        bnd (wr (bufs s) m (h\<lparr>m_body := Rx_body pkt, m_len := (if len \<le> MSG_ROOM then len else m_len h)\<rparr>)) (\<lambda>bs.
        Inr (m, upd_rx (\<lambda>r. r\<lparr>rx_msg := None\<rparr>) (s\<lparr>bufs := bs\<rparr>))))))"

definition rx_finalize :: "btbr \<Rightarrow> btbr res" where
  "rx_finalize s =
     bnd (rx_close s) (\<lambda>(m, s).
     case rx_pkt_cb (rx_task s) of
       None \<Rightarrow> Inl Die
     | Some c \<Rightarrow> rx_callback c m (uint (rx_pkt_time (rx_task s)) - RF_EXPECTED_RX_CLKN_OFFSET) s)"

text \<open>The channel of the next frame, and the radio set to it.\<close>

definition tune :: "bool \<Rightarrow> u32 \<Rightarrow> btbr \<Rightarrow> (u8 \<times> btbr) res" where
  "tune tx clk s =
     bnd (hop_channel (ph_mode (phy s)) clk (hop s)) (\<lambda>chan.
     let s = btphy_rf_tune_chan (2402 + ucast chan) tx s in
     Inr (chan, if tx then btphy_rf_cfg_tx s else btphy_rf_cfg_rx s))"

definition rx_new_pkt :: "u8 \<Rightarrow> u32 \<Rightarrow> u8 list \<Rightarrow> rx_pkt" where
  "rx_new_pkt chan clk room =
     \<lparr>rx_clkn = clk, rx_chan = chan, rx_flags = 0, rx_size = 0, rx_hdr = \<lparr>lt_addr = 0, btype = 0, flags = 0, hec = 0\<rparr>, rx_data = room\<rparr>"

definition rx_prepare :: "btbr \<Rightarrow> btbr res" where
  "rx_prepare s =
     (let clk = btphy_cur_clkn s + 1;
          s = (if ph_mode (phy s) = BT_MODE_PAGE_SCAN then s\<lparr>hop := hop_increment (hop s)\<rparr> else s) in
      bnd (tune False clk s) (\<lambda>(chan, s).
      bnd (btctl_msg_alloc BTCTL_RX_PKT s) (\<lambda>(m, s).
      bnd (rd (bufs s) m) (\<lambda>h.
      bnd (m_put 12 h) (\<lambda>h.
      bnd (wr (bufs s) m (h\<lparr>m_body := Rx_body (rx_new_pkt chan clk (leftover (hardware s)))\<rparr>)) (\<lambda>bs.
      let s = s\<lparr>bufs := bs\<rparr> in
      Inr (upd_rx (\<lambda>r. r\<lparr>rx_msg := Some m,
        rx_codec := bbcodec_init (ucast (btphy_whiten_seed clk s)) (chan_uap (phy s)) True (rx_raw_flag r),
        rx_pkt_time := 0, rx_done := False, rx_offset := 0\<rparr>) s)))))))"

text \<open>The first component is the return value's test against zero.\<close>

definition rx_pkt_hdr_callback :: "btbr \<Rightarrow> (bool \<times> btbr) res" where
  "rx_pkt_hdr_callback s =
     bnd (wait_bytes NUM_PKT_HDR_BYTES s) (\<lambda>(_, s).
     bnd (bbcodec_decode_header (rx_codec (rx_task s)) (drop 4 (rx_dma_buf (rx_task s)))) (\<lambda>(codec, oh).
     let s = upd_rx (\<lambda>r. r\<lparr>rx_codec := codec\<rparr>) s in
     case oh of
       None \<Rightarrow> Inr (False, s)
     | Some bh \<Rightarrow>
         bnd (typ_of codec) (\<lambda>t.
         bnd (upd_rx_pkt (\<lambda>pkt. pkt\<lparr>rx_hdr := bh, rx_flags := rx_flags pkt OR (if has_crc t then 4 else 0) OR 2\<rparr>) s) (\<lambda>s.
         Inr (True, s)))))"

definition rx_decode_chunk :: "nat \<Rightarrow> btbr \<Rightarrow> (chunk_rc \<times> btbr) res" where
  "rx_decode_chunk sz s =
     bnd (cur_rx s) (\<lambda>(m, h, pkt).
     bnd (bbcodec_decode_chunk (rx_codec (rx_task s)) (rx_data pkt) (drop 4 (rx_dma_buf (rx_task s))) sz) (\<lambda>(rc, codec, out).
     bnd (upd_rx_pkt (\<lambda>pkt. pkt\<lparr>rx_data := out\<rparr>) (upd_rx (\<lambda>r. r\<lparr>rx_codec := codec\<rparr>) s)) (\<lambda>s.
     Inr (rc, s))))"

definition rx_data_hdr_callback :: "btbr \<Rightarrow> btbr res" where
  "rx_data_hdr_callback s =
     bnd (wait_bytes NUM_DATA_HDR_BYTES s) (\<lambda>(sz, s).
     bnd (rx_decode_chunk sz s) (\<lambda>(rc, s).
     case rc of
       Bbcodec_more \<Rightarrow> Inr s
     | Bbcodec_done \<Rightarrow> Inr (upd_rx (\<lambda>r. r\<lparr>rx_done := True\<rparr>) s)
     | Bbcodec_short \<Rightarrow> Inl Die))"


definition rx_execute :: "btbr \<Rightarrow> btbr res" where
  "rx_execute s =
     (case fsm_rx (hardware s) of
        [] \<Rightarrow> Inl Hang
      | ready # fs \<Rightarrow>
          let s = upd_hw (\<lambda>h. h\<lparr>fsm_rx := fs\<rparr>) s in
          if \<not> ready then rx_finalize s
          else
            bnd (wait_packet WAIT_SYNCWORD s) (\<lambda>(t, s).
            case t of
              None \<Rightarrow> rx_finalize s
            | Some time \<Rightarrow>
                bnd (upd_rx_pkt (\<lambda>pkt. pkt\<lparr>rx_flags := rx_flags pkt OR 1\<rparr>) (upd_rx (\<lambda>r. r\<lparr>rx_pkt_time := time\<rparr>) s)) (\<lambda>s.
                if \<not> do_rx_payload (rx_task s) then rx_finalize s
                else
                  bnd (rx_pkt_hdr_callback s) (\<lambda>(ok, s).
                  if \<not> ok then rx_finalize s
                  else
                    bnd (typ_of (rx_codec (rx_task s))) (\<lambda>ty.
                    if payload_bytes ty = 0 then rx_finalize s
                    else
                      bnd (rx_data_hdr_callback s) (\<lambda>s.
                      if rx_done (rx_task s) then rx_finalize s
                      else
                        schedule 1 Rx_decode 0 (upd_rx (\<lambda>r. r\<lparr>slot_num := of_nat (nslots ty * 2 - 1)\<rparr>) s)))))))"

text \<open>The wait of the last slot: \<open>while (CLKN_OFFSET < WAIT_RX_MAX && size < air_bytes) size = rx_buf_update();\<close>.\<close>

primrec wait_end_loop :: "nat \<Rightarrow> nat \<Rightarrow> btbr \<Rightarrow> (nat \<times> btbr) res" where
  "wait_end_loop 0 sz s = Inl Hang"
| "wait_end_loop (Suc k) sz s =
     (case clkn_offset (hardware s) of
        [] \<Rightarrow> Inl Hang
      | t # ts \<Rightarrow>
          let s = upd_hw (\<lambda>h. h\<lparr>clkn_offset := ts\<rparr>) s in
          if t < WAIT_RX_MAX \<and> sz < air_bytes (rx_codec (rx_task s))
          then bnd (rx_buf_update s) (\<lambda>(sz, s). wait_end_loop k sz s)
          else Inr (sz, s))"

definition wait_end :: "nat \<Rightarrow> btbr \<Rightarrow> (nat \<times> btbr) res" where
  "wait_end sz s = wait_end_loop (length (clkn_offset (hardware s)) + 1) sz s"

text \<open>\<open>while ((rc = bbcodec_decode_chunk(...)) == 0);\<close> every chunk takes at least 8 of the \<open>8 * size\<close> bits received.\<close>

primrec decode_chunks :: "nat \<Rightarrow> nat \<Rightarrow> btbr \<Rightarrow> (chunk_rc \<times> btbr) res" where
  "decode_chunks 0 sz s = Inl Hang"
| "decode_chunks (Suc k) sz s =
     bnd (rx_decode_chunk sz s) (\<lambda>(rc, s). if rc = Bbcodec_more then decode_chunks k sz s else Inr (rc, s))"

definition rx_decode :: "btbr \<Rightarrow> btbr res" where
  "rx_decode s =
     (let s = upd_rx (\<lambda>r. r\<lparr>slot_num := slot_num r - 1\<rparr>) s;
          last_slot = (slot_num (rx_task s) = 0) in
      bnd (rx_buf_update s) (\<lambda>(sz, s).
      let bytes_left = usub (air_bytes (rx_codec (rx_task s))) sz in
      bnd (if last_slot \<or> bytes_left < MAX_WAIT_BYTES then wait_end sz s else Inr (sz, s)) (\<lambda>(sz, s).
      bnd (decode_chunks (sz + 2) sz s) (\<lambda>(rc, s).
      if rc = Bbcodec_done then rx_finalize s else schedule 1 Rx_decode 0 s))))"

section \<open>Transmission\<close>

text \<open>The header and the data a pointer of the transmission points to.\<close>

definition tx_msg_pkt :: "nat \<Rightarrow> btbr \<Rightarrow> (message \<times> tx_pkt) res" where
  "tx_msg_pkt m s = bnd (rd (bufs s) m) (\<lambda>h. bnd (as_tx h) (\<lambda>pkt. Inr (h, pkt)))"

definition tx_user_hdr :: "tx_ptr \<Rightarrow> btbr \<Rightarrow> bbhdr res" where
  "tx_user_hdr p s =
     (case p of
        Inqscan_fhs \<Rightarrow> Inr (fhs_hdr (inquiry_scan_state s))
      | Paging_fhs \<Rightarrow> Inr (fhs_hdr (paging_state s))
      | Master_own \<Rightarrow> Inr (ll_tx_hdr (master_ll s))
      | Slave_own \<Rightarrow> Inr (ll_tx_hdr (sl_ll (slave_state s)))
      | Tx_buf m \<Rightarrow> bnd (tx_msg_pkt m s) (\<lambda>(h, pkt). Inr (tx_hdr pkt)))"

definition tx_user_data :: "tx_ptr \<Rightarrow> btbr \<Rightarrow> u8 list option res" where
  "tx_user_data p s =
     (case p of
        Inqscan_fhs \<Rightarrow> Inr (Some (fhs_data (inquiry_scan_state s)))
      | Paging_fhs \<Rightarrow> Inr (Some (fhs_data (paging_state s)))
      | Master_own \<Rightarrow> Inr None
      | Slave_own \<Rightarrow> Inr None
      | Tx_buf m \<Rightarrow> bnd (tx_msg_pkt m s) (\<lambda>(h, pkt). Inr (Some (tx_data pkt))))"

definition set_user_data :: "tx_ptr \<Rightarrow> u8 list \<Rightarrow> btbr \<Rightarrow> btbr res" where
  "set_user_data p d s =
     (case p of
        Inqscan_fhs \<Rightarrow> Inr (s\<lparr>inquiry_scan_state := (inquiry_scan_state s)\<lparr>fhs_data := d\<rparr>\<rparr>)
      | Paging_fhs \<Rightarrow> Inr (s\<lparr>paging_state := (paging_state s)\<lparr>fhs_data := d\<rparr>\<rparr>)
      | Master_own \<Rightarrow> Inr s
      | Slave_own \<Rightarrow> Inr s
      | Tx_buf m \<Rightarrow>
          bnd (tx_msg_pkt m s) (\<lambda>(h, pkt).
          bnd (wr (bufs s) m (h\<lparr>m_body := Tx_body (pkt\<lparr>tx_data := d\<rparr>)\<rparr>)) (\<lambda>bs. Inr (s\<lparr>bufs := bs\<rparr>))))"

text \<open>One chunk; without data (a NULL pointer) there is nothing to encode and the pointer is not used.\<close>

definition tx_encode :: "tx_ptr \<Rightarrow> btbr \<Rightarrow> btbr res" where
  "tx_encode p s =
     bnd (tx_user_data p s) (\<lambda>od.
     bnd (bbcodec_encode_chunk (tx_codec (tx_task s)) (air_data (tx_task s)) (case od of None \<Rightarrow> [] | Some d \<Rightarrow> d)
       (take 80 (leftover (hardware s)))) (\<lambda>(codec, air, d).
     set_user_data p d (upd_tx (\<lambda>t. t\<lparr>tx_codec := codec, air_data := air\<rparr>) s)))"

definition fifo_write :: "u8 list \<Rightarrow> nat \<Rightarrow> btbr \<Rightarrow> btbr res" where
  "fifo_write d len s =
     bnd (btphy_rf_fifo_write d (of_nat len)) (\<lambda>bits. Inr (upd_hw (\<lambda>h. h\<lparr>mosi := mosi h @ bits\<rparr>) s))"

definition tx_push :: "nat \<Rightarrow> btbr \<Rightarrow> btbr res" where
  "tx_push most s =
     (case tx_p (tx_task s) of
        None \<Rightarrow> Inl Die
      | Some p \<Rightarrow>
          let len = min (tx_data_size (tx_task s)) most in
          bnd (fifo_write (drop p (air_data (tx_task s))) len s) (\<lambda>s.
          Inr (upd_tx (\<lambda>t. t\<lparr>tx_p := Some (p + len), tx_data_size := tx_data_size t - len\<rparr>) s)))"

definition tx_fifo_cb :: "btbr \<Rightarrow> btbr res" where
  "tx_fifo_cb s =
     bnd (tx_push PHY_FIFO_THRESHOLD s) (\<lambda>s.
     if tx_data_size (tx_task s) = 0 then Inr (upd_hw (\<lambda>h. h\<lparr>fifo_int := False\<rparr>) s)
     else case tx_user (tx_task s) of None \<Rightarrow> Inl Oob | Some p \<Rightarrow> tx_encode p s)"

definition tx_load :: "u32 \<Rightarrow> tx_ptr \<Rightarrow> btbr \<Rightarrow> (nat \<times> btbr) res" where
  "tx_load clk p s =
     bnd (tx_user_hdr p s) (\<lambda>uh.
     bnd (tx_user_data p s) (\<lambda>ud.
     bnd (bbcodec_encode_header (bbcodec_init (ucast (btphy_whiten_seed clk s)) (chan_uap (phy s)) True False)
       (map (\<lambda>_. 0) (air_data (tx_task s))) uh (chan_trailer (phy s)) ud) (\<lambda>(codec, air).
     bnd (typ_of codec) (\<lambda>ty.
     let s = upd_tx (\<lambda>t. t\<lparr>tx_codec := codec, air_data := air, tx_p := Some 0, tx_data_size := air_bytes codec\<rparr>) s in
     bnd (if ud \<noteq> None then tx_encode p s else Inr s) (\<lambda>s.
     bnd (tx_push (32 - 4) s) (\<lambda>s.
     Inr (nslots ty, s)))))))"

definition tx_prepare :: "btbr \<Rightarrow> btbr res" where
  "tx_prepare s =
     (let clk = btphy_cur_clkn s + 1;
          s = (if ph_mode (phy s) = BT_MODE_INQUIRY \<or> ph_mode (phy s) = BT_MODE_PAGING then s\<lparr>hop := hop_increment (hop s)\<rparr> else s) in
      bnd (tune True clk s) (\<lambda>(chan, s).
      bnd (fifo_write (chan_sw_hi (phy s)) 4 s) (\<lambda>s.
      bnd (case tx_user (tx_task s) of
             None \<Rightarrow> Inr (1, s)
           | Some p \<Rightarrow> tx_load clk p s) (\<lambda>(ns, s).
      schedule (of_nat (2 * ns)) Tx_finalize (- 3) s))))"

definition tx_execute :: "btbr \<Rightarrow> btbr res" where
  "tx_execute s =
     (case fs_tuned (hardware s) of
        [] \<Rightarrow> Inl Hang
      | tuned # fs \<Rightarrow>
          let s = upd_hw (\<lambda>h. h\<lparr>fs_tuned := fs\<rparr>) s in
          if \<not> tuned then Inr (tx_task_reset s)
          else
            let s = (if tx_data_size (tx_task s) \<noteq> 0 then upd_hw (\<lambda>h. h\<lparr>fifo_int := True\<rparr>) s else s) in
            if btphy_cur_clkn s AND 1 \<noteq> 0 then Inl Die else Inr s)"

definition tx_finalize :: "btbr \<Rightarrow> btbr res" where
  "tx_finalize s =
     (let s = tx_task_reset s in
      case tx_cb (tx_task s) of None \<Rightarrow> Inr s | Some c \<Rightarrow> tx_callback c s)"

section \<open>Scan\<close>

abbreviation SCAN_MAX_SLOTS :: int where "SCAN_MAX_SLOTS \<equiv> 8"
abbreviation SCAN_WAIT_SYNCWORD :: u32 where "SCAN_WAIT_SYNCWORD \<equiv> 250"

definition scan_finalize :: "btbr \<Rightarrow> btbr res" where
  "scan_finalize s =
     (case sc_cb (scan_task s) of
        None \<Rightarrow> Inl Die
      | Some c \<Rightarrow> scan_callback c (sc_pkt_received (scan_task s)) s)"

definition scan_wait :: "btbr \<Rightarrow> btbr res" where
  "scan_wait s =
     bnd (wait_packet SCAN_WAIT_SYNCWORD s) (\<lambda>(t, s).
     let s = (case t of None \<Rightarrow> s | Some time \<Rightarrow> upd_scan (\<lambda>c. c\<lparr>sc_pkt_time := time, sc_pkt_received := True\<rparr>) s);
         s = upd_scan (\<lambda>c. c\<lparr>sc_num_slots := sc_num_slots c + 1\<rparr>) s in
     if sc_pkt_received (scan_task s) then
       scan_finalize (btphy_adj_clkn_delay (uint (sc_pkt_time (scan_task s)) - RF_EXPECTED_RX_CLKN_OFFSET)
         (s\<lparr>phy := (phy s)\<lparr>slave_clkn := 0\<rparr>\<rparr>))
     else if sc_num_slots (scan_task s) = SCAN_MAX_SLOTS then scan_finalize s
     else schedule 1 Scan_wait_more (- 3) s)"

definition scan_wait_more :: "btbr \<Rightarrow> btbr res" where
  "scan_wait_more s = scan_wait s"

definition scan_start :: "btbr \<Rightarrow> btbr res" where
  "scan_start s =
     bnd (tune False 0 s) (\<lambda>(chan, s).
     scan_wait (upd_scan (\<lambda>c. c\<lparr>sc_pkt_received := False, sc_pkt_time := 0, sc_num_slots := 0\<rparr>) s))"

section \<open>A frame\<close>

definition run_task :: "task \<Rightarrow> btbr \<Rightarrow> btbr res" where
  "run_task t =
     (case t of
        Rx_prepare \<Rightarrow> rx_prepare
      | Rx_execute \<Rightarrow> rx_execute
      | Rx_decode \<Rightarrow> rx_decode
      | Tx_prepare \<Rightarrow> tx_prepare
      | Tx_execute \<Rightarrow> tx_execute
      | Tx_finalize \<Rightarrow> tx_finalize
      | Scan_start \<Rightarrow> scan_start
      | Scan_wait_more \<Rightarrow> scan_wait_more
      | Inquiry_start_sync \<Rightarrow> inquiry_start_sync
      | Paging_start_sync \<Rightarrow> paging_start_sync
      | Start_monitor2 \<Rightarrow> start_monitor2)"

text \<open>
  The scheduler and the timers of theory Tdma and Btphy work on pairs; here they are fields of the state.  A
  task finds the scheduler in the state and leaves it there, and returns 0.  The only software timer is \<open>hop_cfg_afh\<close>.
\<close>

definition task_call :: "(task, unit btphy_timers \<times> btbr) call" where
  "task_call t q1 q2 q3 st =
     (case st of (sc, ts, s) \<Rightarrow> bnd (run_task t (s\<lparr>sched := sc\<rparr>)) (\<lambda>s. Inr (0, sched s, ts, s)))"

definition fire_timer :: "unit \<Rightarrow> btbr \<Rightarrow> btbr res" where
  "fire_timer u s = bnd (hop_cfg_afh (afh_buf s) (hop s)) (\<lambda>hs. Inr (s\<lparr>hop := hs\<rparr>))"

definition TIMER0_IRQHandler :: "btbr \<Rightarrow> btbr res" where
  "TIMER0_IRQHandler s =
     bnd (btphy_handler fire_timer task_call (sched s, timers s, s)) (\<lambda>(sc, ts, s).
     Inr (s\<lparr>sched := sc, timers := ts\<rparr>))"

text \<open>The interrupt of the radio's FIFO, enabled by \<open>tx_execute\<close>; no other handler is installed.\<close>

definition EINT3_IRQHandler :: "btbr \<Rightarrow> btbr res" where
  "EINT3_IRQHandler s = (if fifo_int (hardware s) then tx_fifo_cb s else Inr s)"

end
