(* ===== verification/Btctl.thy ===== *)
theory Btctl
  imports Run
begin

text \<open>
  The controller of src/btctl/btctl.c: the requests of the host, the start of the firmware, and the events that
  drive it.
\<close>

section \<open>Requests\<close>

text \<open>The loop ends because every pass takes a message; the queue holds at most seven.\<close>

primrec flush_loop :: "nat \<Rightarrow> btbr \<Rightarrow> btbr res" where
  "flush_loop 0 s = Inl Hang"
| "flush_loop (Suc n) s =
     bnd (btctl_acl_tx_dequeue s) (\<lambda>(m, s).
     case m of None \<Rightarrow> Inr s | Some h \<Rightarrow> bnd (msg_free h s) (flush_loop n))"

definition btctl_flush_acl_tx_queue :: "btbr \<Rightarrow> btbr res" where
  "btctl_flush_acl_tx_queue s = flush_loop MSG_QUEUE_SIZE s"

text \<open>\<open>reset\<close> starts the processor again and does not return.\<close>

definition btctl_handle_reset_req :: "btbr \<Rightarrow> btbr res" where
  "btctl_handle_reset_req s = Inl Hang"

text \<open>The code then waits for 30 ticks, in which the tasks under way end.\<close>

definition btctl_handle_idle_req :: "btbr \<Rightarrow> btbr res" where
  "btctl_handle_idle_req s = btctl_set_state BTCTL_STATE_STANDBY BTCTL_REASON_SUCCESS s"

definition btctl_handle_set_freq_off_req :: "message \<Rightarrow> btbr \<Rightarrow> btbr res" where
  "btctl_handle_set_freq_off_req msg s = bnd (as_reg msg) (\<lambda>r. Inr (btphy_rf_set_freq_off (ucast (r AND 0x3f)) s))"

definition btctl_handle_set_max_ac_errors_req :: "message \<Rightarrow> btbr \<Rightarrow> btbr res" where
  "btctl_handle_set_max_ac_errors_req msg s = bnd (as_reg msg) (\<lambda>r. Inr (btphy_rf_set_max_ac_errors (ucast (r AND 3)) s))"

definition btctl_handle_set_bdaddr_req :: "message \<Rightarrow> btbr \<Rightarrow> btbr res" where
  "btctl_handle_set_bdaddr_req msg s = bnd (as_bdaddr msg) (\<lambda>a. Inr (btphy_set_bdaddr a s))"

definition btctl_handle_inquiry_req :: "btbr \<Rightarrow> btbr res" where
  "btctl_handle_inquiry_req s = inquiry_state_setup s"

definition btctl_handle_paging_req :: "message \<Rightarrow> btbr \<Rightarrow> btbr res" where
  "btctl_handle_paging_req msg s =
     bnd (as_bdaddr msg) (\<lambda>a.
     bnd (btctl_flush_acl_tx_queue s) (\<lambda>s.
     paging_state_setup (ucast (a AND 0xffffff)) (ucast (drop_bit 24 a AND 0xff)) s))"

definition btctl_handle_monitor_req :: "message \<Rightarrow> btbr \<Rightarrow> btbr res" where
  "btctl_handle_monitor_req msg s = bnd (as_bdaddr msg) (\<lambda>a. monitor1_state_setup a s)"

text \<open>The result of the enqueue is dropped and the message is not freed.\<close>

definition btctl_handle_tx_acl_req :: "nat \<Rightarrow> btbr \<Rightarrow> btbr res" where
  "btctl_handle_tx_acl_req m s = bnd (btctl_acl_tx_enqueue m s) (\<lambda>(_, s). Inr s)"

definition btctl_handle_inquiry_scan_req :: "btbr \<Rightarrow> btbr res" where
  "btctl_handle_inquiry_scan_req s = inquiry_scan_state_setup s"

definition btctl_handle_page_scan_req :: "btbr \<Rightarrow> btbr res" where
  "btctl_handle_page_scan_req s = bnd (btctl_flush_acl_tx_queue s) page_scan_state_setup"

text \<open>The buffer is static: every pending timer reads the same one when it fires.\<close>

definition btctl_handle_set_afh_req :: "message \<Rightarrow> btbr \<Rightarrow> btbr res" where
  "btctl_handle_set_afh_req msg s =
     bnd (as_afh msg) (\<lambda>(instant, mode, amap).
     bnd (wr (afh_buf s) 0 mode) (\<lambda>b.
     bnd (window 1 (\<lambda>d. memcpy d amap 10) b) (\<lambda>b.
     bnd (btphy_timer_add instant () False (timers s)) (\<lambda>ts. Inr (s\<lparr>afh_buf := b, timers := ts\<rparr>)))))"

definition btctl_handle_set_eir_req :: "nat \<Rightarrow> btbr \<Rightarrow> btbr res" where
  "btctl_handle_set_eir_req m s =
     (if bt_state s \<noteq> BTCTL_STATE_STANDBY then msg_free m s
      else
        bnd (case eir_msg s of None \<Rightarrow> Inr s | Some h \<Rightarrow> msg_free h s) (\<lambda>s.
        Inr (s\<lparr>eir_msg := Some m\<rparr>)))"

text \<open>The requests that leave their message to be freed.\<close>

definition btctl_request :: "message \<Rightarrow> btbr \<Rightarrow> btbr res" where
  "btctl_request msg s =
     (if m_type msg = BTCTL_DEBUG then Inr s
      else if m_type msg = BTCTL_RESET_REQ then btctl_handle_reset_req s
      else if m_type msg = BTCTL_IDLE_REQ then btctl_handle_idle_req s
      else if m_type msg = BTCTL_SET_FREQ_OFF_REQ then btctl_handle_set_freq_off_req msg s
      else if m_type msg = BTCTL_SET_MAX_AC_ERRORS_REQ then btctl_handle_set_max_ac_errors_req msg s
      else if m_type msg = BTCTL_SET_BDADDR_REQ then btctl_handle_set_bdaddr_req msg s
      else if m_type msg = BTCTL_INQUIRY_REQ then btctl_handle_inquiry_req s
      else if m_type msg = BTCTL_PAGING_REQ then btctl_handle_paging_req msg s
      else if m_type msg = BTCTL_INQUIRY_SCAN_REQ then btctl_handle_inquiry_scan_req s
      else if m_type msg = BTCTL_PAGE_SCAN_REQ then btctl_handle_page_scan_req s
      else if m_type msg = BTCTL_MONITOR_REQ then btctl_handle_monitor_req msg s
      else if m_type msg = BTCTL_SET_AFH_REQ then btctl_handle_set_afh_req msg s
      else Inr s)"

definition btctl_handle_msg :: "nat \<Rightarrow> btbr \<Rightarrow> btbr res" where
  "btctl_handle_msg m s =
     bnd (rd (bufs s) m) (\<lambda>msg.
     if m_type msg = BTCTL_TX_ACL_REQ then btctl_handle_tx_acl_req m s
     else if m_type msg = BTCTL_SET_EIR_REQ then btctl_handle_set_eir_req m s
     else bnd (btctl_request msg s) (msg_free m))"

definition btctl_work :: "btbr \<Rightarrow> (int \<times> btbr) res" where
  "btctl_work s =
     bnd (btctl_rx_dequeue s) (\<lambda>(om, s).
     case om of
       None \<Rightarrow> Inr (0, s)
     | Some m \<Rightarrow> bnd (btctl_handle_msg m s) (\<lambda>s. Inr (1, s)))"

section \<open>Start\<close>

definition btctl_init :: "btbr \<Rightarrow> btbr res" where
  "btctl_init s =
     Inr (s\<lparr>bt_state := BTCTL_STATE_STANDBY, eir_msg := None, rx_q := msg_queue_init (rx_q s),
       tx_q := msg_queue_init (tx_q s), acl_tx_q := msg_queue_init (acl_tx_q s)\<rparr>)"

definition clkn_start :: "btbr \<Rightarrow> btbr" where
  "clkn_start s = s\<lparr>phy := (phy s)\<lparr>master_clkn := 0\<rparr>, t0mr0 := word_of_int (CLKN_OFFSET_RESET_VAL - 1)\<rparr>"

abbreviation DEFAULT_BDADDR :: u64 where "DEFAULT_BDADDR \<equiv> 0x112233445566"

definition btphy_init :: "btbr \<Rightarrow> btbr res" where
  "btphy_init s =
     bnd (tdma_sched_reset (sched s)) (\<lambda>sc.
     let s = tx_task_reset (btphy_rf_init (clkn_start (s\<lparr>sched := sc\<rparr>))) in
     bnd (rx_task_reset s) (\<lambda>s.
     bnd (btphy_timers_reset (timers s)) (\<lambda>ts.
     Inr (btphy_set_bdaddr DEFAULT_BDADDR (s\<lparr>phy := (phy s)\<lparr>chan_sw := 0\<rparr>, timers := ts\<rparr>)))))"

text \<open>The part of \<open>main\<close> before its loop that sets up the memory and the state.\<close>

definition firmware_init :: "btbr \<Rightarrow> btbr res" where
  "firmware_init s =
     bnd (mem_pool_init (pool s)) (\<lambda>p.
     bnd (btctl_init (s\<lparr>pool := p\<rparr>)) btphy_init)"


section \<open>The host\<close>

text \<open>
  The USB driver's handling of whole messages: the first packet of a message from the host takes a buffer, the
  last one puts it into the queue, whatever the result; sending takes a message from the queue and frees it at the end.
\<close>

definition usb_rx_start :: "u16 \<Rightarrow> btbr \<Rightarrow> btbr res" where
  "usb_rx_start packet_size s =
     (if usb_rx_msg s \<noteq> None then Inl Die
      else bnd (mem_pool_alloc (12 + unat packet_size) (pool s)) (\<lambda>(h, p). Inr (s\<lparr>pool := p, usb_rx_msg := Some h\<rparr>)))"

definition usb_rx_end :: "message \<Rightarrow> btbr \<Rightarrow> btbr res" where
  "usb_rx_end msg s =
     (case usb_rx_msg s of
        None \<Rightarrow> Inl Die
      | Some h \<Rightarrow>
          bnd (wr (bufs s) h msg) (\<lambda>bs.
          bnd (btctl_rx_enqueue h (s\<lparr>bufs := bs\<rparr>)) (\<lambda>(_, s). Inr (s\<lparr>usb_rx_msg := None\<rparr>))))"

definition usb_tx_start :: "btbr \<Rightarrow> btbr res" where
  "usb_tx_start s =
     (if usb_tx_msg s = None then bnd (btctl_tx_dequeue s) (\<lambda>(m, s). Inr (s\<lparr>usb_tx_msg := m\<rparr>)) else Inr s)"

definition usb_tx_end :: "btbr \<Rightarrow> btbr res" where
  "usb_tx_end s =
     (case usb_tx_msg s of
        None \<Rightarrow> Inr s
      | Some h \<Rightarrow> bnd (msg_free h s) (\<lambda>s. Inr (s\<lparr>usb_tx_msg := None\<rparr>)))"

section \<open>Events\<close>

text \<open>
  What can happen to the firmware, each event as a whole: the frame interrupt, the interrupt of the radio's
  FIFO, the work of the main loop on one request, the steps of the USB driver, and new values from the hardware.
\<close>

inductive fw_step :: "btbr \<Rightarrow> btbr \<Rightarrow> bool" where
  Frame: "TIMER0_IRQHandler s = Inr s' \<Longrightarrow> fw_step s s'"
| Fifo: "EINT3_IRQHandler s = Inr s' \<Longrightarrow> fw_step s s'"
| Work: "btctl_work s = Inr (rc, s') \<Longrightarrow> fw_step s s'"
| Rx_start: "usb_rx_start packet_size s = Inr s' \<Longrightarrow> fw_step s s'"
| Rx_end: "usb_rx_end msg s = Inr s' \<Longrightarrow> fw_step s s'"
| Tx_start: "usb_tx_start s = Inr s' \<Longrightarrow> fw_step s s'"
| Tx_end: "usb_tx_end s = Inr s' \<Longrightarrow> fw_step s s'"
| World: "fifo_int h = fifo_int (hardware s) \<Longrightarrow> fw_step s (s\<lparr>hardware := h, t1tc := t\<rparr>)"

inductive fw_reach :: "btbr \<Rightarrow> btbr \<Rightarrow> bool" for s0 where
  Start: "fw_reach s0 s0"
| Step: "fw_reach s0 s \<Longrightarrow> fw_step s s' \<Longrightarrow> fw_reach s0 s'"

end
