(* ===== verification/Wp.thy ===== *)
theory Wp
  imports Prelude
begin

text \<open>
  Partial correctness of fallible code: \<open>post r Q\<close> says that \<open>r\<close> is a fault or a result with \<open>Q\<close>.  The rules of the operations
  are collected in \<open>wp\<close>.
\<close>

definition post :: "'a res \<Rightarrow> ('a \<Rightarrow> bool) \<Rightarrow> bool" where
  "post r Q \<longleftrightarrow> (\<forall>x. r = Inr x \<longrightarrow> Q x)"

named_theorems wp "rules for the operations of the firmware"

lemma post_simps [simp]:
  "post (Inr x) Q = Q x" "post (Inl e) Q" "post (bnd r f) Q = post r (\<lambda>x. post (f x) Q)"
  by (auto simp: post_def bnd_Inr_iff)

lemma post_if [simp]: "post (if b then r else r') Q \<longleftrightarrow> (b \<longrightarrow> post r Q) \<and> (\<not> b \<longrightarrow> post r' Q)"
  by simp

lemma post_let [simp]: "post (let x = a in f x) Q = post (f a) Q"
  by simp

lemma post_mono: "post r P \<Longrightarrow> (\<And>x. P x \<Longrightarrow> Q x) \<Longrightarrow> post r Q"
  by (auto simp: post_def)

lemma post_any: "(\<And>x. Q x) \<Longrightarrow> post r Q"
  by (auto simp: post_def)

lemma wp_rd [wp]: "(i < length xs \<Longrightarrow> Q (xs ! i)) \<Longrightarrow> post (rd xs i) Q"
  by (auto simp: post_def rd_Inr_iff)

lemma wp_wr [wp]: "(i < length xs \<Longrightarrow> Q (xs[i := x])) \<Longrightarrow> post (wr xs i x) Q"
  by (auto simp: post_def wr_Inr_iff)

lemma post_Inr: "post r Q \<Longrightarrow> r = Inr x \<Longrightarrow> Q x"
  by (simp add: post_def)

section \<open>The element of an option as a list\<close>

definition opt_list :: "'a option \<Rightarrow> 'a list" where
  "opt_list x = (case x of None \<Rightarrow> [] | Some y \<Rightarrow> [y])"

lemma opt_list_simps [simp]: "opt_list None = []" "opt_list (Some x) = [x]"
  by (simp_all add: opt_list_def)

end
