(* ===== verification/Ownership.thy ===== *)
theory Ownership
  imports Btctl Wp
begin

text \<open>
  Who owns which message buffer, over the whole firmware: every handler keeps the invariant that no buffer has
  two owners.  The proofs are weakest precondition proofs over the result type.
\<close>

section \<open>Weakest preconditions\<close>

text \<open>Computations that do not touch the state.\<close>

lemmas wp_pure [wp] =
  post_any [of _ "hop_channel m c h" for m c h] post_any [of _ "hop_init a h" for a h] post_any [of _ "hop_cfg_afh b h" for b h]
  post_any [of _ "as_rx m" for m] post_any [of _ "as_tx m" for m] post_any [of _ "as_reg m" for m]
  post_any [of _ "as_bdaddr m" for m] post_any [of _ "as_afh m" for m] post_any [of _ "m_put n m" for n m]
  post_any [of _ "typ_of c" for c] post_any [of _ "bbcodec_decode_header c i" for c i]
  post_any [of _ "bbcodec_decode_chunk c u i n" for c u i n] post_any [of _ "bbcodec_decode_finalize c u" for c u]
  post_any [of _ "bbcodec_encode_header c a h t d" for c a h t d] post_any [of _ "bbcodec_encode_chunk c a d t" for c a d t]
  post_any [of _ "bbpkt_fhs_prepare_payload d p l u n c t e" for d p l u n c t e] post_any [of _ "bbpkt_fhs_finalize_payload d c" for d c]
  post_any [of _ "bbpkt_decode_fhs d" for d] post_any [of _ "tdma_schedule d c a b e p s" for d c a b e p s]
  post_any [of _ "tdma_schedule_set d i p s" for d i p s] post_any [of _ "wait_strobe l t g" for l t g]
  post_any [of _ "btphy_rf_fifo_write d n" for d n] post_any [of _ "btphy_timer_add i c a t" for i c a t]
  post_any [of _ "window n f b" for n f b] post_any [of _ "loop n f b" for n f b]

section \<open>The invariant\<close>

lemma ll_held_opt: "ll_held ll = opt_list (cur_tx_msg ll)"
  by (simp add: ll_held_def opt_list_def)

text \<open>The buffers the firmware holds outside the queues, the stored EIR packet and the pool.\<close>

definition held :: "btbr \<Rightarrow> nat list" where
  "held s = opt_list (rx_msg (rx_task s)) @ opt_list (usb_tx_msg s) @ opt_list (usb_rx_msg s) @
     opt_list (cur_tx_msg (master_ll s)) @ opt_list (cur_tx_msg (sl_ll (slave_state s)))"

text \<open>\<open>ext\<close> are the buffers in the hands of the operation that is running.\<close>

definition ow :: "nat list \<Rightarrow> btbr \<Rightarrow> bool" where
  "ow ext s \<longleftrightarrow> own (ext @ held s) s"

lemma ow_update [simp]:
  "ow ext (s\<lparr>sched := sc\<rparr>) = ow ext s" "ow ext (s\<lparr>timers := ts\<rparr>) = ow ext s" "ow ext (s\<lparr>afh_buf := ab\<rparr>) = ow ext s"
  "ow ext (s\<lparr>tx_task := tt\<rparr>) = ow ext s" "ow ext (s\<lparr>scan_task := st\<rparr>) = ow ext s" "ow ext (s\<lparr>inquiry_state := i\<rparr>) = ow ext s"
  "ow ext (s\<lparr>inquiry_scan_state := f\<rparr>) = ow ext s" "ow ext (s\<lparr>paging_state := f\<rparr>) = ow ext s"
  "ow ext (s\<lparr>page_scan_state := p\<rparr>) = ow ext s" "ow ext (s\<lparr>monitor1_state := p\<rparr>) = ow ext s"
  "ow ext (s\<lparr>monitor2_bdaddr := a\<rparr>) = ow ext s" "ow ext (s\<lparr>hardware := h\<rparr>) = ow ext s" "ow ext (s\<lparr>phy := ph\<rparr>) = ow ext s"
  "ow ext (s\<lparr>hop := hs\<rparr>) = ow ext s" "ow ext (s\<lparr>bufs := (bufs s)[k := m]\<rparr>) = ow ext s" "ow ext (s\<lparr>cc2400 := cc\<rparr>) = ow ext s"
  "ow ext (s\<lparr>freq_off_reg := fo\<rparr>) = ow ext s" "ow ext (s\<lparr>max_ac_errors := ma\<rparr>) = ow ext s" "ow ext (s\<lparr>t0mr0 := t0\<rparr>) = ow ext s"
  "ow ext (s\<lparr>t1tc := t1\<rparr>) = ow ext s" "ow ext (s\<lparr>bt_state := bs\<rparr>) = ow ext s"
  by (simp_all add: ow_def held_def own_def owned_def fw_wf_def)


lemma more_same:
  assumes "fw.more s' = fw.more (s :: btbr)"
  shows "held s' = held s"
  using assms by (cases s; cases s') (simp add: held_def)

lemma ow_same: "ow ext s \<Longrightarrow> own (ext' @ held s) s' \<Longrightarrow> held s' = held s \<Longrightarrow> ow ext' s'"
  by (simp add: ow_def)

lemma ow_perm: "ow ext s \<Longrightarrow> mset ext' = mset ext \<Longrightarrow> ow ext' s"
  unfolding ow_def by (erule own_perm) simp

lemma ow_drop: "ow (h # ext) s \<Longrightarrow> ow ext s"
  unfolding ow_def by (simp add: own_drop)

section \<open>Messages and queues\<close>

lemma wp_free [wp]: "ow (h # ext) s \<Longrightarrow> (\<And>s'. ow ext s' \<Longrightarrow> Q s') \<Longrightarrow> post (msg_free h s) Q"
proof -
  assume o: "ow (h # ext) s" and Q: "\<And>s'. ow ext s' \<Longrightarrow> Q s'"
  from o have "own (h # ext @ held s) s" by (simp add: ow_def)
  from own_free [OF this] obtain p where p: "msg_free h s = Inr (s\<lparr>pool := p\<rparr>)" "own (ext @ held s) (s\<lparr>pool := p\<rparr>)" by blast
  have "ow ext (s\<lparr>pool := p\<rparr>)" by (rule ow_same [OF o p(2)]) (simp add: held_def)
  then show ?thesis using p(1) Q by simp
qed

lemma wp_alloc [wp]: "ow ext s \<Longrightarrow> (\<And>h s'. ow (h # ext) s' \<Longrightarrow> Q (h, s')) \<Longrightarrow> post (btctl_msg_alloc t s) Q"
proof -
  assume o: "ow ext s" and Q: "\<And>h s'. ow (h # ext) s' \<Longrightarrow> Q (h, s')"
  from o have own: "own (ext @ held s) s" by (simp add: ow_def)
  show ?thesis
  proof (cases "free_list (pool s)")
    case Nil
    then show ?thesis using alloc_nil [OF own] by simp
  next
    case (Cons h hs)
    from own_alloc [OF own this, of t] obtain p
      where p: "btctl_msg_alloc t s = Inr (h, s\<lparr>pool := p, bufs := (bufs s)[h := fresh t]\<rparr>)"
        "own (h # ext @ held s) (s\<lparr>pool := p, bufs := (bufs s)[h := fresh t]\<rparr>)" by blast
    have "ow (h # ext) (s\<lparr>pool := p, bufs := (bufs s)[h := fresh t]\<rparr>)"
      using p(2) by (simp add: ow_def held_def)
    then show ?thesis using p(1) Q by simp
  qed
qed

lemma wp_tx_enqueue [wp]:
  assumes o: "ow (h # ext) s" and "\<And>s'. ow ext s' \<Longrightarrow> Q (0, s')" and "ow (h # ext) s \<Longrightarrow> ow ext s \<Longrightarrow> Q (- 1, s)"
  shows "post (btctl_tx_enqueue h s) Q"
proof -
  from o have own: "own (h # ext @ held s) s" by (simp add: ow_def)
  show ?thesis
  proof (cases "length (mq_list (tx_q s)) = 7")
    case True
    then show ?thesis using tx_enqueue_full [OF own True] assms ow_drop [OF o] by simp
  next
    case False
    from own_tx_enqueue [OF own this] obtain q where q: "btctl_tx_enqueue h s = Inr (0, s\<lparr>tx_q := q\<rparr>)" "own (ext @ held s) (s\<lparr>tx_q := q\<rparr>)" by blast
    then have "ow ext (s\<lparr>tx_q := q\<rparr>)" by (simp add: ow_def held_def)
    then show ?thesis using q assms by simp
  qed
qed

lemma wp_acl_tx_enqueue [wp]:
  assumes o: "ow (h # ext) s" and Q: "\<And>r s'. ow ext s' \<Longrightarrow> Q (r, s')"
  shows "post (btctl_acl_tx_enqueue h s) Q"
proof -
  from o have own: "own (h # ext @ held s) s" by (simp add: ow_def)
  show ?thesis
  proof (cases "length (mq_list (acl_tx_q s)) = 7")
    case True
    then show ?thesis using acl_tx_enqueue_full [OF own True] Q [OF ow_drop [OF o]] by simp
  next
    case False
    from own_acl_tx_enqueue [OF own this] obtain q
      where q: "btctl_acl_tx_enqueue h s = Inr (0, s\<lparr>acl_tx_q := q\<rparr>)" "own (ext @ held s) (s\<lparr>acl_tx_q := q\<rparr>)" by blast
    then have "ow ext (s\<lparr>acl_tx_q := q\<rparr>)" by (simp add: ow_def held_def)
    then show ?thesis using q Q by simp
  qed
qed

lemma wp_acl_tx_dequeue [wp]:
  assumes o: "ow ext s" and Q: "\<And>m s'. ow (opt_list m @ ext) s' \<Longrightarrow> Q (m, s')"
  shows "post (btctl_acl_tx_dequeue s) Q"
proof -
  from o have own: "own (ext @ held s) s" by (simp add: ow_def)
  show ?thesis
  proof (cases "mq_list (acl_tx_q s)")
    case Nil
    then show ?thesis using acl_tx_dequeue_nil [OF own] Q [of None s] o by simp
  next
    case (Cons h hs)
    from own_acl_tx_dequeue [OF own this] obtain q
      where q: "btctl_acl_tx_dequeue s = Inr (Some h, s\<lparr>acl_tx_q := q\<rparr>)" "own (h # ext @ held s) (s\<lparr>acl_tx_q := q\<rparr>)" by blast
    then have "ow (h # ext) (s\<lparr>acl_tx_q := q\<rparr>)" by (simp add: ow_def held_def)
    then show ?thesis using q Q [of "Some h"] by simp
  qed
qed

lemma wp_rx_dequeue [wp]:
  assumes o: "ow ext s" and Q: "\<And>m s'. ow (opt_list m @ ext) s' \<Longrightarrow> Q (m, s')"
  shows "post (btctl_rx_dequeue s) Q"
proof -
  from o have own: "own (ext @ held s) s" by (simp add: ow_def)
  show ?thesis
  proof (cases "mq_list (rx_q s)")
    case Nil
    then show ?thesis using rx_dequeue_nil [OF own] Q [of None s] o by simp
  next
    case (Cons h hs)
    from own_rx_dequeue [OF own this] obtain q
      where q: "btctl_rx_dequeue s = Inr (Some h, s\<lparr>rx_q := q\<rparr>)" "own (h # ext @ held s) (s\<lparr>rx_q := q\<rparr>)" by blast
    then have "ow (h # ext) (s\<lparr>rx_q := q\<rparr>)" by (simp add: ow_def held_def)
    then show ?thesis using q Q [of "Some h"] by simp
  qed
qed

lemma wp_set_state [wp]:
  assumes o: "ow ext s" and Q: "\<And>s'. ow ext s' \<Longrightarrow> Q s'"
  shows "post (btctl_set_state st r s) Q"
proof -
  from o have own: "own (ext @ held s) s" by (simp add: ow_def)
  have "ow ext s'" if "btctl_set_state st r s = Inr s'" for s'
  proof (rule ow_same [OF o])
    show "own (ext @ held s) s'" by (rule set_state_Inr(1) [OF own that])
    have "untouched (ext @ held s) s s'" by (rule set_state_Inr(3) [OF own that])
    then show "held s' = held s" by (intro more_same) (simp add: untouched_def)
  qed
  then show ?thesis using Q by (simp add: post_def)
qed

section \<open>Planning and modes\<close>

lemma wp_schedule [wp]: "ow ext s \<Longrightarrow> (\<And>s'. ow ext s' \<Longrightarrow> Q s') \<Longrightarrow> post (schedule d t p s) Q"
  unfolding schedule_def by (auto intro!: wp)

lemma wp_schedule_items [wp]: "ow ext s \<Longrightarrow> (\<And>s'. ow ext s' \<Longrightarrow> Q s') \<Longrightarrow> post (schedule_items d is s) Q"
  unfolding schedule_items_def by (auto intro!: wp)

text \<open>Giving up buffers, and changes of the reception state that keep its message, drop it, or take one in hand.\<close>

lemma own_sub: "own ext s \<Longrightarrow> mset ext' \<subseteq># mset ext \<Longrightarrow> own ext' s"
  unfolding own_def owned_def by (auto intro: subset_mset.order_trans [rotated] subset_mset.add_mono)

lemma ow_sub: "ow ext s \<Longrightarrow> mset ext' \<subseteq># mset ext \<Longrightarrow> ow ext' s"
  unfolding ow_def by (erule own_sub) simp

text \<open>The invariant with one holder's buffers set apart.\<close>

lemma own_state: "own ext (s :: btbr) \<Longrightarrow> fw.truncate s' = fw.truncate s \<Longrightarrow> own ext s'"
  by (cases s; cases s') (simp add: own_def owned_def fw_wf_def fw.truncate_def)

lemma ow_rx_task:
  assumes "ow ext s" and "mset (ext' @ opt_list (rx_msg r)) \<subseteq># mset (ext @ opt_list (rx_msg (rx_task s)))"
  shows "ow ext' (s\<lparr>rx_task := r\<rparr>)"
proof -
  have "own (ext' @ held (s\<lparr>rx_task := r\<rparr>)) s"
    by (rule own_sub [OF assms(1) [unfolded ow_def]])
      (use assms(2) in \<open>simp add: held_def add.assoc [symmetric] subset_mset.add_right_mono\<close>)
  then show ?thesis unfolding ow_def by (rule own_state) (simp add: fw.truncate_def)
qed

lemma ow_rx_same: "ow ext s \<Longrightarrow> rx_msg r = rx_msg (rx_task s) \<Longrightarrow> ow ext (s\<lparr>rx_task := r\<rparr>)"
  by (erule ow_rx_task) simp

lemma ow_rx_take: "ow ext s \<Longrightarrow> rx_msg (rx_task s) = Some m \<Longrightarrow> rx_msg r = None \<Longrightarrow> ow (m # ext) (s\<lparr>rx_task := r\<rparr>)"
  by (erule ow_rx_task) simp

lemma ow_rx_give: "ow (m # ext) s \<Longrightarrow> rx_msg r = Some m \<Longrightarrow> ow ext (s\<lparr>rx_task := r\<rparr>)"
  by (erule ow_rx_task) simp

definition but_master :: "btbr \<Rightarrow> nat list" where
  "but_master s = opt_list (rx_msg (rx_task s)) @ opt_list (usb_tx_msg s) @ opt_list (usb_rx_msg s) @ opt_list (cur_tx_msg (sl_ll (slave_state s)))"

definition but_slave :: "btbr \<Rightarrow> nat list" where
  "but_slave s = opt_list (rx_msg (rx_task s)) @ opt_list (usb_tx_msg s) @ opt_list (usb_rx_msg s) @ opt_list (cur_tx_msg (master_ll s))"

lemma ow_master: "ow ext s \<longleftrightarrow> own (ll_held (master_ll s) @ ext @ but_master s) s"
  unfolding ow_def by (rule iffI; erule own_perm) (simp_all add: held_def but_master_def ll_held_opt)

lemma ow_slave: "ow ext s \<longleftrightarrow> own (ll_held (sl_ll (slave_state s)) @ ext @ but_slave s) s"
  unfolding ow_def by (rule iffI; erule own_perm) (simp_all add: held_def but_slave_def ll_held_opt)

lemma ow_master_set: "ow ext (s\<lparr>master_ll := ll\<rparr>) \<longleftrightarrow> own (ll_held ll @ ext @ but_master s) s"
  unfolding ow_master by (rule iffI; erule own_state [THEN own_perm]) (simp_all add: but_master_def fw.truncate_def)

lemma ow_slave_set: "ow ext (set_slave_ll ll s) \<longleftrightarrow> own (ll_held ll @ ext @ but_slave s) s"
  unfolding ow_slave set_slave_ll_def by (rule iffI; erule own_state [THEN own_perm]) (simp_all add: but_slave_def fw.truncate_def)

lemma but_more: "fw.more s' = fw.more (s :: btbr) \<Longrightarrow> but_master s' = but_master s \<and> but_slave s' = but_slave s"
  by (cases s; cases s') (simp add: but_master_def but_slave_def)

section \<open>The link layer\<close>

lemma process_own:
  assumes "own (h # ll_held ll @ ext) s" and "ll_process_rx ll h s = Inr (rc, ll', s')"
  shows "own (ll_held ll' @ ext) s' \<and> fw.more s' = fw.more s"
proof -
  obtain pkt where "m_body (bufs s ! h) = Rx_body pkt"
    using assms own_buf [OF assms(1)] by (auto simp: ll_process_rx_def as_rx_def bnd_Inr_iff Let_def split: if_splits body.splits)
  from process_rx_post [OF assms this] show ?thesis by (simp add: rx_post_def untouched_def)
qed

lemma prepare_own:
  assumes "own (ll_held ll @ ext) s" and "ll_prepare_tx ll s = Inr (src, ll', s')"
  shows "own (ll_held ll' @ ext) s' \<and> fw.more s' = fw.more s"
proof -
  obtain ll1 s1 where dq: "ll_tx_dequeue ll s = Inr (ll1, s1)" using assms(2) by (auto simp: ll_prepare_tx_def bnd_Inr_iff)
  note dr = ll_tx_dequeue_Inr [OF assms(1) dq]
  have "ll_held ll' = ll_held ll1 \<and> (s' = s1 \<or> (\<exists>k m. s' = s1\<lparr>bufs := (bufs s1)[k := m]\<rparr>))"
    using assms(2) dq by (auto simp: ll_prepare_tx_def bnd_Inr_iff wr_Inr_iff ll_held_def Let_def split: option.splits if_splits)
  moreover from dr(2) have "fw.more s1 = fw.more s" by auto
  ultimately show ?thesis using dr(1) by auto
qed

lemma reset_own:
  assumes "own (ll_held ll @ ext) s" and "ll_reset ll s = Inr (ll', s')"
  shows "own (ll_held ll' @ ext) s' \<and> fw.more s' = fw.more s"
proof (cases "cur_tx_msg ll")
  case None
  then show ?thesis using assms by (simp add: ll_reset_def)
next
  case (Some m)
  then have "own (m # ext) s" using assms(1) by (simp add: ll_held_def)
  from own_free [OF this] show ?thesis using assms(2) Some by (auto simp: ll_reset_def ll_held_def)
qed

lemma ow_master_more:
  "own (ll_held ll @ ext @ but_master s) s' \<and> fw.more s' = fw.more s \<Longrightarrow> ow ext (s'\<lparr>master_ll := ll\<rparr>)"
  using but_more [of s' s] by (simp add: ow_master_set)

lemma ow_slave_more:
  "own (ll_held ll @ ext @ but_slave s) s' \<and> fw.more s' = fw.more s \<Longrightarrow> ow ext (set_slave_ll ll s')"
  using but_more [of s' s] by (simp add: ow_slave_set)

lemma post_triple: "post r (\<lambda>(a, b, c). P b c) \<Longrightarrow> (\<And>a b c. P b c \<Longrightarrow> Q (a, b, c)) \<Longrightarrow> post r Q"
  by (auto simp: post_def)

lemma post_pair: "post r (\<lambda>(b, c). P b c) \<Longrightarrow> (\<And>b c. P b c \<Longrightarrow> Q (b, c)) \<Longrightarrow> post r Q"
  by (auto simp: post_def)

lemma post_process:
  "own (h # ll_held ll @ ext) s \<Longrightarrow> post (ll_process_rx ll h s) (\<lambda>(rc, ll', s'). own (ll_held ll' @ ext) s' \<and> fw.more s' = fw.more s)"
  by (auto simp: post_def dest: process_own)

lemma post_prepare:
  "own (ll_held ll @ ext) s \<Longrightarrow> post (ll_prepare_tx ll s) (\<lambda>(src, ll', s'). own (ll_held ll' @ ext) s' \<and> fw.more s' = fw.more s)"
  by (auto simp: post_def dest: prepare_own)

lemma post_reset:
  "own (ll_held ll @ ext) s \<Longrightarrow> post (ll_reset ll s) (\<lambda>(ll', s'). own (ll_held ll' @ ext) s' \<and> fw.more s' = fw.more s)"
  by (auto simp: post_def dest: reset_own)

lemma wp_process_master [wp]:
  assumes "ow (h # ext) s" and "\<And>rc ll s'. ow ext (s'\<lparr>master_ll := ll\<rparr>) \<Longrightarrow> Q (rc, ll, s')"
  shows "post (ll_process_rx (master_ll s) h s) Q"
proof -
  have "own (h # ll_held (master_ll s) @ ext @ but_master s) s"
    using assms(1) unfolding ow_master by (rule own_perm) simp
  from post_process [OF this] show ?thesis by (rule post_triple) (intro assms(2) ow_master_more)
qed

lemma wp_process_slave [wp]:
  assumes "ow (h # ext) s" and "\<And>rc ll s'. ow ext (set_slave_ll ll s') \<Longrightarrow> Q (rc, ll, s')"
  shows "post (ll_process_rx (sl_ll (slave_state s)) h s) Q"
proof -
  have "own (h # ll_held (sl_ll (slave_state s)) @ ext @ but_slave s) s"
    using assms(1) unfolding ow_slave by (rule own_perm) simp
  from post_process [OF this] show ?thesis by (rule post_triple) (intro assms(2) ow_slave_more)
qed

lemma wp_prepare_master [wp]:
  assumes "ow ext s" and "\<And>src ll s'. ow ext (s'\<lparr>master_ll := ll\<rparr>) \<Longrightarrow> Q (src, ll, s')"
  shows "post (ll_prepare_tx (master_ll s) s) Q"
  using post_prepare [OF assms(1) [unfolded ow_master]] by (rule post_triple) (intro assms(2) ow_master_more)

lemma wp_prepare_slave [wp]:
  assumes "ow ext s" and "\<And>src ll s'. ow ext (set_slave_ll ll s') \<Longrightarrow> Q (src, ll, s')"
  shows "post (ll_prepare_tx (sl_ll (slave_state s)) s) Q"
  using post_prepare [OF assms(1) [unfolded ow_slave]] by (rule post_triple) (intro assms(2) ow_slave_more)

lemma wp_reset_master [wp]:
  assumes "ow ext s" and "\<And>ll s'. ow ext (s'\<lparr>master_ll := ll\<rparr>) \<Longrightarrow> Q (ll, s')"
  shows "post (ll_reset (master_ll s) s) Q"
  using post_reset [OF assms(1) [unfolded ow_master]] by (rule post_pair) (intro assms(2) ow_master_more)

lemma wp_reset_master_set [wp]:
  assumes "ow ext (s\<lparr>master_ll := ll\<rparr>)" and "\<And>ll s'. ow ext (s'\<lparr>master_ll := ll\<rparr>) \<Longrightarrow> Q (ll, s')"
  shows "post (ll_reset ll (s\<lparr>master_ll := ll\<rparr>)) Q"
  using wp_reset_master [of ext "s\<lparr>master_ll := ll\<rparr>" Q] assms by simp

lemma wp_reset_slave [wp]:
  assumes "ow ext s" and "\<And>ll s'. ow ext (set_slave_ll ll s') \<Longrightarrow> Q (ll, s')"
  shows "post (ll_reset (sl_ll (slave_state s)) s) Q"
  using post_reset [OF assms(1) [unfolded ow_slave]] by (rule post_pair) (intro assms(2) ow_slave_more)

section \<open>Modes and planning\<close>

lemma ow_adj [simp]: "ow ext (btphy_adj_clkn_delay d s) = ow ext s"
  by (simp add: btphy_adj_clkn_delay_def)

lemma ow_cancel [simp]: "ow ext (btphy_cancel_clkn_delay s) = ow ext s"
  by (simp add: btphy_cancel_clkn_delay_def Let_def)

lemma ow_cc2400 [simp]: "ow ext (cc2400_set r v s) = ow ext s"
  by (simp add: cc2400_set_def)

lemma ow_radio [simp]:
  "ow ext (btphy_rf_cfg_sync y s) = ow ext s" "ow ext (btphy_rf_tune_chan ch tx s) = ow ext s" "ow ext (btphy_rf_cfg_rx s) = ow ext s"
  "ow ext (btphy_rf_cfg_tx s) = ow ext s" "ow ext (btphy_rf_set_freq_off n s) = ow ext s" "ow ext (btphy_rf_set_max_ac_errors n s) = ow ext s"
  "ow ext (btphy_rf_init s) = ow ext s" "ow ext (btphy_set_bdaddr a s) = ow ext s"
  by (simp_all add: btphy_rf_cfg_sync_def btphy_rf_tune_chan_def btphy_rf_cfg_rx_def btphy_rf_cfg_tx_def btphy_rf_set_freq_off_def
      btphy_rf_set_max_ac_errors_def btphy_rf_init_def btphy_set_bdaddr_def Let_def)

lemma wp_set_mode [wp]: "ow ext s \<Longrightarrow> (\<And>s'. ow ext s' \<Longrightarrow> Q s') \<Longrightarrow> post (btphy_set_mode m l u s) Q"
  unfolding btphy_set_mode_def by (auto simp: Let_def intro!: wp)

lemma wp_rx_task_schedule [wp]: "ow ext s \<Longrightarrow> (\<And>s'. ow ext s' \<Longrightarrow> Q s') \<Longrightarrow> post (rx_task_schedule d c f s) Q"
  unfolding rx_task_schedule_def by (auto intro!: wp intro: ow_rx_same)

lemma wp_tx_task_schedule [wp]: "ow ext s \<Longrightarrow> (\<And>s'. ow ext s' \<Longrightarrow> Q s') \<Longrightarrow> post (tx_task_schedule d c p s) Q"
  unfolding tx_task_schedule_def by (auto intro!: wp)

lemma wp_scan_task_schedule [wp]: "ow ext s \<Longrightarrow> (\<And>s'. ow ext s' \<Longrightarrow> Q s') \<Longrightarrow> post (scan_task_schedule d c s) Q"
  unfolding scan_task_schedule_def by (auto intro!: wp)

lemma ow_tx_reset [simp]: "ow ext (tx_task_reset s) = ow ext s"
  by (simp add: tx_task_reset_def)

lemma wp_pkt_of [wp]: "(\<And>h p. Q (h, p)) \<Longrightarrow> post (pkt_of m s) Q"
  by (rule post_any) auto

section \<open>States\<close>

lemma wp_inquiry_schedule [wp]: "ow ext s \<Longrightarrow> (\<And>s'. ow ext s' \<Longrightarrow> Q s') \<Longrightarrow> post (inquiry_schedule d s) Q"
  unfolding inquiry_schedule_def by (auto intro!: wp)

lemma wp_inquiry_rx_cb [wp]: "ow (m # ext) s \<Longrightarrow> (\<And>s'. ow ext s' \<Longrightarrow> Q s') \<Longrightarrow> post (inquiry_rx_cb m s) Q"
  unfolding inquiry_rx_cb_def by (auto intro!: wp)

lemma wp_inquiry_start_sync [wp]: "ow ext s \<Longrightarrow> (\<And>s'. ow ext s' \<Longrightarrow> Q s') \<Longrightarrow> post (inquiry_start_sync s) Q"
  unfolding inquiry_start_sync_def by (auto intro!: wp simp: Let_def)

lemma wp_inquiry_state_setup [wp]: "ow ext s \<Longrightarrow> (\<And>s'. ow ext s' \<Longrightarrow> Q s') \<Longrightarrow> post (inquiry_state_setup s) Q"
  unfolding inquiry_state_setup_def by (auto intro!: wp)

lemma wp_inquiry_scan_schedule [wp]: "ow ext s \<Longrightarrow> (\<And>s'. ow ext s' \<Longrightarrow> Q s') \<Longrightarrow> post (inquiry_scan_schedule d s) Q"
  unfolding inquiry_scan_schedule_def by (auto intro!: wp)

lemma wp_tx_fhs_cb [wp]: "ow ext s \<Longrightarrow> (\<And>s'. ow ext s' \<Longrightarrow> Q s') \<Longrightarrow> post (tx_fhs_cb s) Q"
  unfolding tx_fhs_cb_def by (auto intro!: wp split: option.split)

lemma wp_tx_eir_cb [wp]: "ow ext s \<Longrightarrow> (\<And>s'. ow ext s' \<Longrightarrow> Q s') \<Longrightarrow> post (tx_eir_cb s) Q"
  unfolding tx_eir_cb_def by (auto intro!: wp)

lemma wp_inquiry_scan_rx_cb [wp]: "ow ext s \<Longrightarrow> (\<And>s'. ow ext s' \<Longrightarrow> Q s') \<Longrightarrow> post (inquiry_scan_rx_cb sw s) Q"
  unfolding inquiry_scan_rx_cb_def by (auto intro!: wp simp: Let_def)

lemma wp_fhs_prepare [wp]: "(\<And>d'. Q d') \<Longrightarrow> post (fhs_prepare l e d s) Q"
  by (rule post_any)

lemma wp_inquiry_scan_state_setup [wp]: "ow ext s \<Longrightarrow> (\<And>s'. ow ext s' \<Longrightarrow> Q s') \<Longrightarrow> post (inquiry_scan_state_setup s) Q"
  unfolding inquiry_scan_state_setup_def by (auto intro!: wp simp: Let_def)

lemma wp_master_state_schedule_rx [wp]: "ow ext s \<Longrightarrow> (\<And>s'. ow ext s' \<Longrightarrow> Q s') \<Longrightarrow> post (master_state_schedule_rx k s) Q"
  unfolding master_state_schedule_rx_def by (auto intro!: wp)

lemma wp_master_tx_done_cb [wp]: "ow ext s \<Longrightarrow> (\<And>s'. ow ext s' \<Longrightarrow> Q s') \<Longrightarrow> post (master_tx_done_cb s) Q"
  unfolding master_tx_done_cb_def by (auto intro!: wp)

lemma wp_master_state_schedule_tx [wp]: "ow ext s \<Longrightarrow> (\<And>s'. ow ext s' \<Longrightarrow> Q s') \<Longrightarrow> post (master_state_schedule_tx k s) Q"
  unfolding master_state_schedule_tx_def by (auto intro!: wp simp: Let_def)

lemma wp_master_rx_cb [wp]: "ow (m # ext) s \<Longrightarrow> (\<And>s'. ow ext s' \<Longrightarrow> Q s') \<Longrightarrow> post (master_rx_cb m s) Q"
  unfolding master_rx_cb_def by (auto intro!: wp simp: Let_def)

lemma ow_master_init: "ow ext s \<Longrightarrow> ow ext (s\<lparr>master_ll := ll_init ll a b s1\<rparr>)"
proof -
  assume "ow ext s"
  then have "own (ll_held (master_ll s) @ ext @ but_master s) s" by (simp only: ow_master)
  then show ?thesis unfolding ow_master_set by (rule own_sub) (simp add: ll_init_inv(2))
qed

lemma ow_slave_init: "ow ext s \<Longrightarrow> ow ext (set_slave_ll (ll_init ll a b s1) s)"
proof -
  assume "ow ext s"
  then have "own (ll_held (sl_ll (slave_state s)) @ ext @ but_slave s) s" by (simp only: ow_slave)
  then show ?thesis unfolding ow_slave_set by (rule own_sub) (simp add: ll_init_inv(2))
qed

lemma wp_master_state_init [wp]: "ow ext s \<Longrightarrow> (\<And>s'. ow ext s' \<Longrightarrow> Q s') \<Longrightarrow> post (master_state_init s) Q"
  unfolding master_state_init_def by (auto intro!: wp ow_master_init)

lemma wp_paging_schedule [wp]: "ow ext s \<Longrightarrow> (\<And>s'. ow ext s' \<Longrightarrow> Q s') \<Longrightarrow> post (paging_schedule d s) Q"
  unfolding paging_schedule_def by (auto intro!: wp)

lemma wp_paging_rx_ack_cb [wp]: "ow (m # ext) s \<Longrightarrow> (\<And>s'. ow ext s' \<Longrightarrow> Q s') \<Longrightarrow> post (paging_rx_ack_cb m s) Q"
  unfolding paging_rx_ack_cb_def by (auto intro!: wp)

lemma wp_paging_rx_cb [wp]: "ow (m # ext) s \<Longrightarrow> (\<And>s'. ow ext s' \<Longrightarrow> Q s') \<Longrightarrow> post (paging_rx_cb m s) Q"
  unfolding paging_rx_cb_def by (auto intro!: wp simp: Let_def)

lemma wp_paging_start_sync [wp]: "ow ext s \<Longrightarrow> (\<And>s'. ow ext s' \<Longrightarrow> Q s') \<Longrightarrow> post (paging_start_sync s) Q"
  unfolding paging_start_sync_def by (auto intro!: wp simp: Let_def)

lemma wp_paging_state_setup [wp]: "ow ext s \<Longrightarrow> (\<And>s'. ow ext s' \<Longrightarrow> Q s') \<Longrightarrow> post (paging_state_setup l u s) Q"
  unfolding paging_state_setup_def by (auto intro!: wp simp: Let_def)

lemma wp_slave_state_schedule_rx [wp]: "ow ext s \<Longrightarrow> (\<And>s'. ow ext s' \<Longrightarrow> Q s') \<Longrightarrow> post (slave_state_schedule_rx k s) Q"
  unfolding slave_state_schedule_rx_def by (auto intro!: wp)

lemma wp_slave_tx_done_cb [wp]: "ow ext s \<Longrightarrow> (\<And>s'. ow ext s' \<Longrightarrow> Q s') \<Longrightarrow> post (slave_tx_done_cb s) Q"
  unfolding slave_tx_done_cb_def by (auto intro!: wp)

lemma wp_slave_state_schedule_tx [wp]: "ow ext s \<Longrightarrow> (\<And>s'. ow ext s' \<Longrightarrow> Q s') \<Longrightarrow> post (slave_state_schedule_tx k s) Q"
  unfolding slave_state_schedule_tx_def by (auto intro!: wp simp: Let_def)

lemma wp_slave_rx_cb [wp]: "ow (m # ext) s \<Longrightarrow> (\<And>s'. ow ext s' \<Longrightarrow> Q s') \<Longrightarrow> post (slave_rx_cb m t s) Q"
  unfolding slave_rx_cb_def by (auto intro!: wp simp: Let_def)

lemma ow_slave_params: "ow ext (s\<lparr>slave_state := (slave_state s)\<lparr>sl_master_bdaddr := a, sl_lt_addr := l\<rparr>\<rparr>) = ow ext s"
  by (simp add: ow_def held_def own_def owned_def fw_wf_def)

lemma wp_slave_state_init [wp]: "ow ext s \<Longrightarrow> (\<And>s'. ow ext s' \<Longrightarrow> Q s') \<Longrightarrow> post (slave_state_init a l s) Q"
  unfolding slave_state_init_def by (auto intro!: wp ow_slave_init simp: Let_def ow_slave_params)

lemma wp_page_scan_tx_cb [wp]: "ow ext s \<Longrightarrow> (\<And>s'. ow ext s' \<Longrightarrow> Q s') \<Longrightarrow> post (page_scan_tx_cb s) Q"
  unfolding page_scan_tx_cb_def by (auto intro!: wp)

lemma wp_page_scan_schedule [wp]: "ow ext s \<Longrightarrow> (\<And>s'. ow ext s' \<Longrightarrow> Q s') \<Longrightarrow> post (page_scan_schedule d s) Q"
  unfolding page_scan_schedule_def by (auto intro!: wp)

lemma ow_sync [simp]: "ow ext (sync_slave_clkn fi p s) = ow ext s"
  by (simp add: sync_slave_clkn_def)

lemma wp_page_scan_rx_fhs_cb [wp]: "ow (m # ext) s \<Longrightarrow> (\<And>s'. ow ext s' \<Longrightarrow> Q s') \<Longrightarrow> post (page_scan_rx_fhs_cb m s) Q"
  unfolding page_scan_rx_fhs_cb_def by (auto intro!: wp simp: Let_def)

lemma wp_page_scan_rx_id_cb [wp]: "ow ext s \<Longrightarrow> (\<And>s'. ow ext s' \<Longrightarrow> Q s') \<Longrightarrow> post (page_scan_rx_id_cb sw s) Q"
  unfolding page_scan_rx_id_cb_def by (auto intro!: wp simp: Let_def)

lemma wp_page_scan_state_setup [wp]: "ow ext s \<Longrightarrow> (\<And>s'. ow ext s' \<Longrightarrow> Q s') \<Longrightarrow> post (page_scan_state_setup s) Q"
  unfolding page_scan_state_setup_def by (auto intro!: wp)

lemma wp_monitor2_state_schedule_rx [wp]: "ow ext s \<Longrightarrow> (\<And>s'. ow ext s' \<Longrightarrow> Q s') \<Longrightarrow> post (monitor2_state_schedule_rx k s) Q"
  unfolding monitor2_state_schedule_rx_def by (auto intro!: wp)

lemma wp_monitor2_rx_cb [wp]: "ow (m # ext) s \<Longrightarrow> (\<And>s'. ow ext s' \<Longrightarrow> Q s') \<Longrightarrow> post (monitor2_rx_cb m t s) Q"
  unfolding monitor2_rx_cb_def by (auto intro!: wp simp: Let_def)

lemma wp_monitor2_state_init [wp]: "ow ext s \<Longrightarrow> (\<And>s'. ow ext s' \<Longrightarrow> Q s') \<Longrightarrow> post (monitor2_state_init a s) Q"
  unfolding monitor2_state_init_def by (auto intro!: wp simp: Let_def)

lemma wp_start_monitor2 [wp]: "ow ext s \<Longrightarrow> (\<And>s'. ow ext s' \<Longrightarrow> Q s') \<Longrightarrow> post (start_monitor2 s) Q"
  unfolding start_monitor2_def by (auto intro!: wp)

lemma wp_monitor1_schedule [wp]: "ow ext s \<Longrightarrow> (\<And>s'. ow ext s' \<Longrightarrow> Q s') \<Longrightarrow> post (monitor1_schedule d s) Q"
  unfolding monitor1_schedule_def by (auto intro!: wp)

lemma wp_monitor1_rx_fhs_cb [wp]: "ow (m # ext) s \<Longrightarrow> (\<And>s'. ow ext s' \<Longrightarrow> Q s') \<Longrightarrow> post (monitor1_rx_fhs_cb m s) Q"
  unfolding monitor1_rx_fhs_cb_def by (auto intro!: wp dest: ow_drop)

lemma wp_monitor1_rx_id_cb [wp]: "ow ext s \<Longrightarrow> (\<And>s'. ow ext s' \<Longrightarrow> Q s') \<Longrightarrow> post (monitor1_rx_id_cb sw s) Q"
  unfolding monitor1_rx_id_cb_def by (auto intro!: wp simp: Let_def)

lemma wp_monitor1_state_setup [wp]: "ow ext s \<Longrightarrow> (\<And>s'. ow ext s' \<Longrightarrow> Q s') \<Longrightarrow> post (monitor1_state_setup a s) Q"
  unfolding monitor1_state_setup_def by (auto intro!: wp simp: Let_def)

lemma wp_rx_callback [wp]: "ow (m # ext) s \<Longrightarrow> (\<And>s'. ow ext s' \<Longrightarrow> Q s') \<Longrightarrow> post (rx_callback c m t s) Q"
  unfolding rx_callback_def by (cases c) (auto intro!: wp)

lemma wp_tx_callback [wp]: "ow ext s \<Longrightarrow> (\<And>s'. ow ext s' \<Longrightarrow> Q s') \<Longrightarrow> post (tx_callback c s) Q"
  unfolding tx_callback_def by (cases c) (auto intro!: wp)

lemma wp_scan_callback [wp]: "ow ext s \<Longrightarrow> (\<And>s'. ow ext s' \<Longrightarrow> Q s') \<Longrightarrow> post (scan_callback c sw s) Q"
  unfolding scan_callback_def by (cases c) (auto intro!: wp)

section \<open>Tasks\<close>

lemma ow_upd [simp]: "ow ext (upd_hw f s) = ow ext s" "ow ext (upd_tx g s) = ow ext s" "ow ext (upd_scan h s) = ow ext s"
  by (simp_all add: upd_hw_def upd_tx_def upd_scan_def)

lemma ow_upd_rx [simp]: "rx_msg (f (rx_task s)) = rx_msg (rx_task s) \<Longrightarrow> ow ext (upd_rx f s) = ow ext s"
  by (simp add: upd_rx_def ow_def held_def own_def owned_def fw_wf_def)

lemma wp_wait_packet [wp]: "ow ext s \<Longrightarrow> (\<And>t s'. ow ext s' \<Longrightarrow> Q (t, s')) \<Longrightarrow> post (wait_packet l s) Q"
  unfolding wait_packet_def by (auto intro!: wp)

lemma rx_msg_upd [simp]:
  "rx_msg (rx_task (upd_hw f s)) = rx_msg (rx_task s)" "rx_msg (rx_task (upd_tx g s)) = rx_msg (rx_task s)"
  "rx_task (upd_rx h s) = h (rx_task s)"
  by (simp_all add: upd_hw_def upd_tx_def upd_rx_def)

lemma wp_rx_buf_update [wp]:
  assumes "ow ext s" and "\<And>n s'. ow ext s' \<Longrightarrow> rx_msg (rx_task s') = rx_msg (rx_task s) \<Longrightarrow> Q (n, s')"
  shows "post (rx_buf_update s) Q"
  unfolding rx_buf_update_def
  by (cases "dma_offset (hardware s)") (auto simp: Let_def assms(1) intro!: post_any assms(2))

lemma wp_wait_bytes_loop: "ow ext s \<Longrightarrow> (\<And>n s'. ow ext s' \<Longrightarrow> Q (n, s')) \<Longrightarrow> post (wait_bytes_loop k m s) Q"
  by (induction k arbitrary: s) (auto intro!: wp)

lemma wp_wait_bytes [wp]: "ow ext s \<Longrightarrow> (\<And>n s'. ow ext s' \<Longrightarrow> Q (n, s')) \<Longrightarrow> post (wait_bytes m s) Q"
  unfolding wait_bytes_def by (rule wp_wait_bytes_loop)

lemma wp_cur_rx [wp]: "(\<And>m h p. rx_msg (rx_task s) = Some m \<Longrightarrow> Q (m, h, p)) \<Longrightarrow> post (cur_rx s) Q"
  unfolding cur_rx_def by (auto intro!: wp split: option.split)

lemma wp_upd_rx_pkt [wp]: "ow ext s \<Longrightarrow> (\<And>s'. ow ext s' \<Longrightarrow> Q s') \<Longrightarrow> post (upd_rx_pkt f s) Q"
  unfolding upd_rx_pkt_def by (auto intro!: wp)

lemma ow_rx_done:
  "ow ext s \<Longrightarrow> rx_msg (rx_task s) = Some m \<Longrightarrow> ow (m # ext) (upd_rx (\<lambda>r. r\<lparr>rx_msg := None\<rparr>) s)"
  unfolding upd_rx_def by (rule ow_rx_take) simp_all

lemma wp_rx_close [wp]:
  assumes "ow ext s" and "\<And>m s'. ow (m # ext) s' \<Longrightarrow> Q (m, s')"
  shows "post (rx_close s) Q"
  unfolding rx_close_def using assms(1)
  by (auto simp: Let_def intro!: wp assms(2) ow_rx_done)

lemma wp_rx_finalize [wp]: "ow ext s \<Longrightarrow> (\<And>s'. ow ext s' \<Longrightarrow> Q s') \<Longrightarrow> post (rx_finalize s) Q"
  unfolding rx_finalize_def by (auto intro!: wp split: option.split)

lemma wp_tune [wp]: "ow ext s \<Longrightarrow> (\<And>c s'. ow ext s' \<Longrightarrow> Q (c, s')) \<Longrightarrow> post (tune tx clk s) Q"
  unfolding tune_def by (auto intro!: wp simp: Let_def)

lemma ow_rx_start:
  assumes "ow (m # ext) s" and "\<And>s'. ow ext s' \<Longrightarrow> Q s'" and "rx_msg (f (rx_task s)) = Some m"
  shows "Q (upd_rx f (s\<lparr>bufs := (bufs s)[k := h]\<rparr>))"
  using assms(1,3) by (intro assms(2)) (auto simp: upd_rx_def intro!: ow_rx_give [of m])

lemma wp_rx_prepare [wp]:
  assumes "ow ext s" and Q: "\<And>s'. ow ext s' \<Longrightarrow> Q s'"
  shows "post (rx_prepare s) Q"
  unfolding rx_prepare_def using assms(1) by (auto simp: Let_def intro!: wp elim!: ow_rx_start [where Q = Q, OF _ Q])

lemma wp_rx_decode_chunk [wp]: "ow ext s \<Longrightarrow> (\<And>c s'. ow ext s' \<Longrightarrow> Q (c, s')) \<Longrightarrow> post (rx_decode_chunk n s) Q"
  unfolding rx_decode_chunk_def by (auto intro!: wp)

lemma wp_rx_pkt_hdr_callback [wp]: "ow ext s \<Longrightarrow> (\<And>c s'. ow ext s' \<Longrightarrow> Q (c, s')) \<Longrightarrow> post (rx_pkt_hdr_callback s) Q"
  unfolding rx_pkt_hdr_callback_def by (auto intro!: wp simp: Let_def split: option.split)

lemma wp_rx_data_hdr_callback [wp]: "ow ext s \<Longrightarrow> (\<And>s'. ow ext s' \<Longrightarrow> Q s') \<Longrightarrow> post (rx_data_hdr_callback s) Q"
  unfolding rx_data_hdr_callback_def by (auto intro!: wp split: chunk_rc.split)

lemma wp_rx_execute [wp]: "ow ext s \<Longrightarrow> (\<And>s'. ow ext s' \<Longrightarrow> Q s') \<Longrightarrow> post (rx_execute s) Q"
  unfolding rx_execute_def by (auto intro!: wp simp: Let_def split: list.split option.split)

lemma wp_wait_end_loop: "ow ext s \<Longrightarrow> (\<And>c s'. ow ext s' \<Longrightarrow> Q (c, s')) \<Longrightarrow> post (wait_end_loop k n s) Q"
  by (induction k arbitrary: n s) (auto intro!: wp simp: Let_def split: list.split)

lemma wp_wait_end [wp]: "ow ext s \<Longrightarrow> (\<And>c s'. ow ext s' \<Longrightarrow> Q (c, s')) \<Longrightarrow> post (wait_end n s) Q"
  unfolding wait_end_def by (rule wp_wait_end_loop)

lemma wp_decode_chunks [wp]: "ow ext s \<Longrightarrow> (\<And>c s'. ow ext s' \<Longrightarrow> Q (c, s')) \<Longrightarrow> post (decode_chunks k n s) Q"
  by (induction k arbitrary: s) (auto intro!: wp)

lemma wp_rx_decode [wp]: "ow ext s \<Longrightarrow> (\<And>s'. ow ext s' \<Longrightarrow> Q s') \<Longrightarrow> post (rx_decode s) Q"
  unfolding rx_decode_def by (auto intro!: wp simp: Let_def)

lemma wp_tx_user_hdr [wp]: "(\<And>h. Q h) \<Longrightarrow> post (tx_user_hdr p s) Q"
  by (rule post_any)

lemma wp_tx_user_data [wp]: "(\<And>d. Q d) \<Longrightarrow> post (tx_user_data p s) Q"
  by (rule post_any)

lemma wp_tx_msg_pkt [wp]: "(\<And>h p. Q (h, p)) \<Longrightarrow> post (tx_msg_pkt m s) Q"
  by (rule post_any) auto

lemma wp_set_user_data [wp]: "ow ext s \<Longrightarrow> (\<And>s'. ow ext s' \<Longrightarrow> Q s') \<Longrightarrow> post (set_user_data p d s) Q"
  unfolding set_user_data_def by (auto intro!: wp split: tx_ptr.split)

lemma wp_tx_encode [wp]: "ow ext s \<Longrightarrow> (\<And>s'. ow ext s' \<Longrightarrow> Q s') \<Longrightarrow> post (tx_encode p s) Q"
  unfolding tx_encode_def by (auto intro!: wp)

lemma wp_fifo_write [wp]: "ow ext s \<Longrightarrow> (\<And>s'. ow ext s' \<Longrightarrow> Q s') \<Longrightarrow> post (fifo_write d n s) Q"
  unfolding fifo_write_def by (auto intro!: wp)

lemma wp_tx_push [wp]: "ow ext s \<Longrightarrow> (\<And>s'. ow ext s' \<Longrightarrow> Q s') \<Longrightarrow> post (tx_push n s) Q"
  unfolding tx_push_def by (auto intro!: wp simp: Let_def split: option.split)

lemma wp_tx_fifo_cb [wp]: "ow ext s \<Longrightarrow> (\<And>s'. ow ext s' \<Longrightarrow> Q s') \<Longrightarrow> post (tx_fifo_cb s) Q"
  unfolding tx_fifo_cb_def by (auto intro!: wp split: option.split)

lemma wp_tx_load [wp]: "ow ext s \<Longrightarrow> (\<And>c s'. ow ext s' \<Longrightarrow> Q (c, s')) \<Longrightarrow> post (tx_load clk p s) Q"
  unfolding tx_load_def by (auto intro!: wp simp: Let_def)

lemma wp_tx_prepare [wp]: "ow ext s \<Longrightarrow> (\<And>s'. ow ext s' \<Longrightarrow> Q s') \<Longrightarrow> post (tx_prepare s) Q"
  unfolding tx_prepare_def by (auto intro!: wp simp: Let_def split: option.split)

lemma wp_tx_execute [wp]: "ow ext s \<Longrightarrow> (\<And>s'. ow ext s' \<Longrightarrow> Q s') \<Longrightarrow> post (tx_execute s) Q"
  unfolding tx_execute_def by (auto intro!: wp simp: Let_def split: list.split)

lemma wp_tx_finalize [wp]: "ow ext s \<Longrightarrow> (\<And>s'. ow ext s' \<Longrightarrow> Q s') \<Longrightarrow> post (tx_finalize s) Q"
  unfolding tx_finalize_def by (auto intro!: wp simp: Let_def split: option.split)

lemma wp_scan_finalize [wp]: "ow ext s \<Longrightarrow> (\<And>s'. ow ext s' \<Longrightarrow> Q s') \<Longrightarrow> post (scan_finalize s) Q"
  unfolding scan_finalize_def by (auto intro!: wp split: option.split)

lemma wp_scan_wait [wp]: "ow ext s \<Longrightarrow> (\<And>s'. ow ext s' \<Longrightarrow> Q s') \<Longrightarrow> post (scan_wait s) Q"
  unfolding scan_wait_def by (auto intro!: wp simp: Let_def split: option.split)

lemma wp_scan_wait_more [wp]: "ow ext s \<Longrightarrow> (\<And>s'. ow ext s' \<Longrightarrow> Q s') \<Longrightarrow> post (scan_wait_more s) Q"
  unfolding scan_wait_more_def by (auto intro!: wp)

lemma wp_scan_start [wp]: "ow ext s \<Longrightarrow> (\<And>s'. ow ext s' \<Longrightarrow> Q s') \<Longrightarrow> post (scan_start s) Q"
  unfolding scan_start_def by (auto intro!: wp)

lemma wp_run_task [wp]: "ow ext s \<Longrightarrow> (\<And>s'. ow ext s' \<Longrightarrow> Q s') \<Longrightarrow> post (run_task t s) Q"
  unfolding run_task_def by (cases t) (auto intro!: wp)

section \<open>The frame\<close>

text \<open>A property of the rest of the state that every callback keeps, the scheduler and the timers keep.\<close>

lemma exec_loop_keeps:
  assumes "\<And>c a b d sc s. P s \<Longrightarrow> post (call c a b d (sc, s)) (\<lambda>(rc, sc', s'). P s')" and "P (snd st)"
  shows "post (exec_loop n call nr seq i st) (\<lambda>(rc, sc', s'). P s')"
  using assms(2)
proof (induction n arbitrary: i st)
  case (Suc n)
  have item: "post (call_item call it st) (\<lambda>(rc, sc', s'). P s')" for it
    using Suc.prems assms(1) [of "snd st" _ _ _ _ "fst st"] by (cases st) (auto simp: call_item_def split: callback.split)
  have rec: "P (snd st') \<Longrightarrow> post (exec_loop n call nr seq j st') (\<lambda>(rc, sc', s'). P s')" for j st' by (rule Suc.IH)
  show ?case using Suc.prems
    by (auto intro!: wp post_mono [OF item] rec)
qed simp


lemma execute_keeps:
  assumes "\<And>c a b d sc s. P s \<Longrightarrow> post (call c a b d (sc, s)) (\<lambda>(rc, sc', s'). P s')" and "P s"
  shows "post (tdma_sched_execute call (sc, s)) (\<lambda>(rc, sc', s'). P s')"
  unfolding tdma_sched_execute_def tdma_sched_bucket_sort_def
  by (auto intro!: wp exec_loop_keeps [where P = P] assms)

lemma frame_keeps_rest:
  assumes "\<And>c a b d sc s. P s \<Longrightarrow> post (call c a b d (sc, s)) (\<lambda>(rc, sc', s'). P s')" and "P s"
  shows "post (tdma_frame call (sc, s)) (\<lambda>(sc', s'). P s')"
  unfolding tdma_frame_def
  using execute_keeps [where P = P and call = call and sc = sc and s = s] assms by (auto intro: post_mono)

lemma timers_keep:
  assumes "\<And>c s. P s \<Longrightarrow> post (fire c s) P" and "P (snd st)"
  shows "post (timers_loop n fire clkn i j st) (\<lambda>(ts, s). P s)"
  using assms(2)
proof (induction n arbitrary: i j st)
  case (Suc n)
  then show ?case
    by (auto simp: Let_def intro!: wp post_mono [OF assms(1)] split: option.split prod.split)
qed auto

lemma wp_fire_timer: "ow ext s \<Longrightarrow> post (fire_timer c s) (ow ext)"
  unfolding fire_timer_def by (auto intro!: wp)

lemma ow_tick [simp]: "ow ext (btphy_tick s) = ow ext s"
  by (simp add: btphy_tick_def Let_def)

lemma wp_task_call: "ow ext (snd st) \<Longrightarrow> post (task_call t a b d (sc, st)) (\<lambda>(rc, sc', st'). ow ext (snd st'))"
  unfolding task_call_def by (auto intro!: wp split: prod.splits)

lemma wp_TIMER0 [wp]:
  assumes "ow ext s" and "\<And>s'. ow ext s' \<Longrightarrow> Q s'"
  shows "post (TIMER0_IRQHandler s) Q"
proof -
  have t: "post (btphy_timers_execute fire_timer clkn (ts, s)) (\<lambda>(ts, s). ow ext s)" if "ow ext s" for clkn ts s
    unfolding btphy_timers_execute_def by (rule timers_keep) (simp_all add: wp_fire_timer that)
  have f: "post (tdma_frame task_call (sc, st)) (\<lambda>(sc', st'). ow ext (snd st'))" if "ow ext (snd st)" for sc st
    by (rule frame_keeps_rest [where P = "\<lambda>st. ow ext (snd st)"]) (rule wp_task_call, assumption, rule that)
  show ?thesis unfolding TIMER0_IRQHandler_def btphy_handler_def
    using assms(1) by (auto simp: Let_def intro!: post_mono [OF t] post_mono [OF f] assms(2))
qed

lemma wp_EINT3 [wp]: "ow ext s \<Longrightarrow> (\<And>s'. ow ext s' \<Longrightarrow> Q s') \<Longrightarrow> post (EINT3_IRQHandler s) Q"
  unfolding EINT3_IRQHandler_def by (auto intro!: wp)

section \<open>The controller\<close>

lemma wp_flush_loop: "ow ext s \<Longrightarrow> (\<And>s'. ow ext s' \<Longrightarrow> Q s') \<Longrightarrow> post (flush_loop n s) Q"
  by (induction n arbitrary: s) (auto intro!: wp split: option.split)

lemma wp_flush [wp]: "ow ext s \<Longrightarrow> (\<And>s'. ow ext s' \<Longrightarrow> Q s') \<Longrightarrow> post (btctl_flush_acl_tx_queue s) Q"
  unfolding btctl_flush_acl_tx_queue_def by (rule wp_flush_loop)

lemmas request_defs = btctl_handle_reset_req_def btctl_handle_idle_req_def btctl_handle_set_freq_off_req_def
  btctl_handle_set_max_ac_errors_req_def btctl_handle_set_bdaddr_req_def btctl_handle_inquiry_req_def btctl_handle_paging_req_def
  btctl_handle_inquiry_scan_req_def btctl_handle_page_scan_req_def btctl_handle_monitor_req_def

lemma wp_set_afh_req [wp]: "ow ext s \<Longrightarrow> (\<And>s'. ow ext s' \<Longrightarrow> Q s') \<Longrightarrow> post (btctl_handle_set_afh_req m s) Q"
  unfolding btctl_handle_set_afh_req_def by (auto intro!: wp)

lemma wp_request [wp]: "ow ext s \<Longrightarrow> (\<And>s'. ow ext s' \<Longrightarrow> Q s') \<Longrightarrow> post (btctl_request m s) Q"
  unfolding btctl_request_def request_defs by (auto intro!: wp)

lemma wp_tx_acl_req [wp]: "ow (m # ext) s \<Longrightarrow> (\<And>s'. ow ext s' \<Longrightarrow> Q s') \<Longrightarrow> post (btctl_handle_tx_acl_req m s) Q"
  unfolding btctl_handle_tx_acl_req_def by (auto intro!: wp)

text \<open>The EIR packet: the old buffer goes back to the pool and the new one takes its place.\<close>

lemma ow_eir_out: "ow ext s \<Longrightarrow> eir_msg s = Some h \<Longrightarrow> ow (h # ext) (s\<lparr>eir_msg := None\<rparr>)"
  by (simp add: ow_def own_def owned_def held_def fw_wf_def)

lemma ow_eir_in: "ow (m # ext) s \<Longrightarrow> eir_msg s = None \<Longrightarrow> ow ext (s\<lparr>eir_msg := Some m\<rparr>)"
  by (simp add: ow_def own_def owned_def held_def fw_wf_def)

lemma wp_set_eir_req [wp]:
  assumes o: "ow (m # ext) s" and Q: "\<And>s'. ow ext s' \<Longrightarrow> Q s'"
  shows "post (btctl_handle_set_eir_req m s) Q"
proof (cases "eir_msg s")
  case None
  then show ?thesis unfolding btctl_handle_set_eir_req_def using o by (auto intro!: wp Q ow_eir_in)
next
  case (Some h)
  have "own (h # (m # ext) @ held (s\<lparr>eir_msg := None\<rparr>)) (s\<lparr>eir_msg := None\<rparr>)"
    using ow_eir_out [OF o Some] by (simp add: ow_def)
  from own_free [OF this] obtain p where p: "msg_free h (s\<lparr>eir_msg := None\<rparr>) = Inr (s\<lparr>eir_msg := None, pool := p\<rparr>)"
      "own ((m # ext) @ held (s\<lparr>eir_msg := None\<rparr>)) (s\<lparr>eir_msg := None, pool := p\<rparr>)" by auto
  then have f: "msg_free h s = Inr (s\<lparr>pool := p\<rparr>)" by (auto simp: msg_free_def bnd_Inr_iff dest: arg_cong [where f = pool])
  have "ow (m # ext) (s\<lparr>eir_msg := None, pool := p\<rparr>)" using p(2) by (simp add: ow_def held_def)
  from ow_eir_in [OF this] have "ow ext (s\<lparr>pool := p, eir_msg := Some m\<rparr>)" by simp
  then show ?thesis unfolding btctl_handle_set_eir_req_def using o Some f by (auto intro!: wp Q)
qed

lemma wp_handle_msg [wp]: "ow (m # ext) s \<Longrightarrow> (\<And>s'. ow ext s' \<Longrightarrow> Q s') \<Longrightarrow> post (btctl_handle_msg m s) Q"
  unfolding btctl_handle_msg_def by (auto intro!: wp)

lemma wp_work [wp]: "ow ext s \<Longrightarrow> (\<And>c s'. ow ext s' \<Longrightarrow> Q (c, s')) \<Longrightarrow> post (btctl_work s) Q"
  unfolding btctl_work_def by (auto intro!: wp split: option.split)

section \<open>The host\<close>

lemma ow_usb_tx: "ow (opt_list m @ ext) s \<Longrightarrow> usb_tx_msg s = None \<Longrightarrow> ow ext (s\<lparr>usb_tx_msg := m\<rparr>)"
  by (cases m) (simp_all add: ow_def own_def owned_def held_def fw_wf_def)

lemma ow_usb_tx_out: "ow ext s \<Longrightarrow> usb_tx_msg s = Some m \<Longrightarrow> ow (m # ext) (s\<lparr>usb_tx_msg := None\<rparr>)"
  by (simp add: ow_def own_def owned_def held_def fw_wf_def)

lemma ow_usb_rx: "ow (m # ext) s \<Longrightarrow> usb_rx_msg s = None \<Longrightarrow> ow ext (s\<lparr>usb_rx_msg := Some m\<rparr>)"
  by (simp add: ow_def own_def owned_def held_def fw_wf_def)

lemma ow_usb_rx_out: "ow ext s \<Longrightarrow> usb_rx_msg s = Some m \<Longrightarrow> ow (m # ext) (s\<lparr>usb_rx_msg := None\<rparr>)"
  by (simp add: ow_def own_def owned_def held_def fw_wf_def)

lemma own_wfD: "ow ext s \<Longrightarrow> mq_inv (tx_q s)" "ow ext s \<Longrightarrow> mq_inv (rx_q s)" "ow ext s \<Longrightarrow> pool_inv (pool s)"
  by (simp_all add: ow_def own_def fw_wf_def)

lemma tx_dequeue_ow:
  assumes o: "ow ext s" and "btctl_tx_dequeue s = Inr (m, s')"
  shows "ow (opt_list m @ ext) s' \<and> usb_tx_msg s' = usb_tx_msg s"
proof -
  obtain q where q: "msg_dequeue (tx_q s) = Inr (m, q)" "s' = s\<lparr>tx_q := q\<rparr>"
    using assms(2) by (auto simp: btctl_tx_dequeue_def bnd_Inr_iff)
  then have "mq_inv q \<and> mset (opt_list m) + mset (mq_list q) = mset (mq_list (tx_q s))"
    using msg_dequeue_cases [OF own_wfD(1) [OF o]] own_wfD(1) [OF o] by (auto split: list.splits)
  then have "mq_inv q" "mset (mq_list (tx_q s)) = mset (opt_list m) + mset (mq_list q)" by simp_all
  then show ?thesis using o by (simp add: ow_def own_def owned_def held_def fw_wf_def q(2) ac_simps)
qed

lemma rx_enqueue_Inr:
  assumes "mq_inv (rx_q s)" and "btctl_rx_enqueue h s = Inr (rc, s')"
  shows "\<exists>q. s' = s\<lparr>rx_q := q\<rparr> \<and> mq_inv q \<and> (q = rx_q s \<or> mq_list q = mq_list (rx_q s) @ [h])"
proof (cases "length (mq_list (rx_q s)) = 7")
  case True
  then show ?thesis using msg_enqueue_cases [OF assms(1), of h] assms by (intro exI [of _ "rx_q s"]) (simp add: btctl_rx_enqueue_def)
next
  case False
  then obtain q where "msg_enqueue (rx_q s) h = Inr (0, q)" "mq_inv q" "mq_list q = mq_list (rx_q s) @ [h]"
    using msg_enqueue_cases [OF assms(1), of h] by auto
  then show ?thesis using assms(2) by (intro exI [of _ q]) (simp add: btctl_rx_enqueue_def)
qed

lemma post_usb_tx_start: "ow ext s \<Longrightarrow> post (usb_tx_start s) (ow ext)"
  using tx_dequeue_ow [of ext s] ow_usb_tx by (auto simp: usb_tx_start_def post_def bnd_Inr_iff)

lemma post_usb_tx_end: "ow ext s \<Longrightarrow> post (usb_tx_end s) (ow ext)"
proof (cases "usb_tx_msg s")
  case (Some h)
  assume "ow ext s"
  from ow_usb_tx_out [OF this Some] have o: "own (h # ext @ held (s\<lparr>usb_tx_msg := None\<rparr>)) (s\<lparr>usb_tx_msg := None\<rparr>)"
    by (simp add: ow_def)
  from own_free [OF this] obtain p where p: "msg_free h (s\<lparr>usb_tx_msg := None\<rparr>) = Inr (s\<lparr>usb_tx_msg := None, pool := p\<rparr>)"
      "own (ext @ held (s\<lparr>usb_tx_msg := None\<rparr>)) (s\<lparr>usb_tx_msg := None, pool := p\<rparr>)" by auto
  then have "msg_free h s = Inr (s\<lparr>pool := p\<rparr>)" by (auto simp: msg_free_def bnd_Inr_iff dest: arg_cong [where f = pool])
  moreover have "own (ext @ held (s\<lparr>usb_tx_msg := None\<rparr>)) (s\<lparr>pool := p, usb_tx_msg := None\<rparr>)"
    by (rule own_state [OF p(2)]) (simp add: fw.truncate_def)
  then have "ow ext (s\<lparr>pool := p, usb_tx_msg := None\<rparr>)" by (simp add: ow_def held_def)
  ultimately show ?thesis using Some by (simp add: usb_tx_end_def)
qed (simp add: usb_tx_end_def)

lemma post_usb_rx_start: "ow ext s \<Longrightarrow> post (usb_rx_start n s) (ow ext)"
proof -
  assume o: "ow ext s"
  have "ow ext s'" if r: "usb_rx_start n s = Inr s'" for s'
  proof -
    obtain h0 p0 where r0: "mem_pool_alloc (12 + unat n) (pool s) = Inr (h0, p0)" and rx: "usb_rx_msg s = None"
        and s': "s' = s\<lparr>pool := p0, usb_rx_msg := Some h0\<rparr>"
      using r by (auto simp: usb_rx_start_def bnd_Inr_iff split: if_splits)
    then have n: "12 + unat n \<le> BUF_SIZE" by (auto simp: mem_pool_alloc_def split: if_splits)
    show ?thesis
    proof (cases "free_list (pool s)")
      case Nil
      then show ?thesis using pool_alloc_nil [OF own_wfD(3) [OF o], of "12 + unat n"] r0 by simp
    next
      case (Cons h hs)
      then have "pool_inv p0" "free_list p0 = hs" "h0 = h" using pool_alloc_cons [OF own_wfD(3) [OF o] _ n, of h hs] r0 by auto
      then show ?thesis unfolding s' using o Cons rx by (simp add: ow_def own_def owned_def held_def fw_wf_def)
    qed
  qed
  then show ?thesis by (cases "usb_rx_start n s") simp_all
qed

lemma post_usb_rx_end: "ow ext s \<Longrightarrow> post (usb_rx_end msg s) (ow ext)"
proof (cases "usb_rx_msg s")
  case (Some h)
  assume o: "ow ext s"
  have "ow ext s'" if r: "usb_rx_end msg s = Inr s'" for s'
  proof -
    obtain s1 rc where "btctl_rx_enqueue h (s\<lparr>bufs := (bufs s)[h := msg]\<rparr>) = Inr (rc, s1)" "s' = s1\<lparr>usb_rx_msg := None\<rparr>"
      using r Some by (auto simp: usb_rx_end_def bnd_Inr_iff wr_Inr_iff)
    then obtain q where q: "s' = s\<lparr>bufs := (bufs s)[h := msg], rx_q := q, usb_rx_msg := None\<rparr>" "mq_inv q"
        "q = rx_q s \<or> mq_list q = mq_list (rx_q s) @ [h]"
      using rx_enqueue_Inr [of "s\<lparr>bufs := (bufs s)[h := msg]\<rparr>" h rc s1] own_wfD(2) [OF o] by auto
    from q(3) show ?thesis
    proof
      assume e: "q = rx_q s"
      have "own (ext @ held (s\<lparr>usb_rx_msg := None\<rparr>)) s"
        by (rule own_sub [OF o [unfolded ow_def]]) (simp add: held_def Some)
      then have "own (ext @ held (s\<lparr>usb_rx_msg := None\<rparr>)) (s\<lparr>bufs := (bufs s)[h := msg]\<rparr>)" by simp
      then have "own (ext @ held (s\<lparr>usb_rx_msg := None\<rparr>)) s'"
        by (rule own_state) (simp add: q(1) e fw.truncate_def)
      then show ?thesis by (simp add: ow_def held_def q(1))
    next
      assume "mq_list q = mq_list (rx_q s) @ [h]"
      then show ?thesis using o q(2) Some by (simp add: q(1) ow_def own_def owned_def held_def fw_wf_def ac_simps)
    qed
  qed
  then show ?thesis by (simp add: post_def)
qed (simp add: usb_rx_end_def)

lemma step_ow: "fw_step s s' \<Longrightarrow> ow [] s \<Longrightarrow> ow [] s'"
proof (induction rule: fw_step.induct)
  case (Frame s s')
  show ?case by (rule post_Inr [OF _ Frame(1)]) (rule wp_TIMER0 [OF Frame(2)])
next
  case (Fifo s s')
  show ?case by (rule post_Inr [OF _ Fifo(1)]) (rule wp_EINT3 [OF Fifo(2)])
next
  case (Work s rc s')
  have "(\<lambda>(rc, s). ow [] s) (rc, s')" by (rule post_Inr [OF _ Work(1)]) (rule wp_work [OF Work(2)], simp)
  then show ?case by simp
next
  case (Rx_start n s s')
  show ?case by (rule post_Inr [OF post_usb_rx_start [OF Rx_start(2)] Rx_start(1)])
next
  case (Rx_end msg s s')
  show ?case by (rule post_Inr [OF post_usb_rx_end [OF Rx_end(2)] Rx_end(1)])
next
  case (Tx_start s s')
  show ?case by (rule post_Inr [OF post_usb_tx_start [OF Tx_start(2)] Tx_start(1)])
next
  case (Tx_end s s')
  show ?case by (rule post_Inr [OF post_usb_tx_end [OF Tx_end(2)] Tx_end(1)])
qed simp

lemma reach_ow: "fw_reach s0 s \<Longrightarrow> ow [] s0 \<Longrightarrow> ow [] s"
  by (induction rule: fw_reach.induct) (auto intro: step_ow)


section \<open>From the start\<close>

text \<open>What the linker and the compiler give the firmware: zeroed static memory with arrays of their declared sizes.\<close>

definition cold :: "btbr \<Rightarrow> bool" where
  "cold s \<longleftrightarrow> held s = [] \<and> length (el_li (pool s)) = BUF_NUM \<and> length (bufs s) = BUF_NUM \<and>
     length (mq_msg (rx_q s)) = MSG_QUEUE_SIZE \<and> length (mq_msg (tx_q s)) = MSG_QUEUE_SIZE \<and> length (mq_msg (acl_tx_q s)) = MSG_QUEUE_SIZE"

lemma queue_init:
  "length (mq_msg q) = MSG_QUEUE_SIZE \<Longrightarrow> mq_inv (msg_queue_init q) \<and> mq_list (msg_queue_init q) = []"
  using ring_empty [of 0 8 0 "mq_msg q"] by (simp add: mq_inv_def msg_queue_init_def mq_list_def)

lemma wp_btphy_init: "ow ext s \<Longrightarrow> post (btphy_init s) (ow ext)"
proof -
  assume o: "ow ext s"
  have r: "ow ext s \<Longrightarrow> post (rx_task_reset s) (ow ext)" for s
  proof (cases "rx_msg (rx_task s)")
    case (Some m)
    assume o: "ow ext s"
    have "own (m # ext @ held (s\<lparr>rx_task := (rx_task s)\<lparr>rx_msg := None\<rparr>\<rparr>)) s"
      by (rule own_perm [OF o [unfolded ow_def]]) (simp add: held_def Some)
    from own_free [OF this] obtain p where p: "msg_free m s = Inr (s\<lparr>pool := p\<rparr>)"
        "own (ext @ held (s\<lparr>rx_task := (rx_task s)\<lparr>rx_msg := None\<rparr>\<rparr>)) (s\<lparr>pool := p\<rparr>)" by blast
    have "own (ext @ held (s\<lparr>rx_task := (rx_task s)\<lparr>rx_msg := None\<rparr>\<rparr>)) (s\<lparr>pool := p, rx_task := (rx_task s)\<lparr>rx_msg := None\<rparr>\<rparr>)"
      by (rule own_state [OF p(2)]) (simp add: fw.truncate_def)
    then show ?thesis using p(1) Some by (simp add: rx_task_reset_def ow_def held_def)
  qed (simp add: rx_task_reset_def)
  show ?thesis unfolding btphy_init_def tdma_sched_reset_def btphy_timers_reset_def clkn_start_def using o
    by (auto simp: Let_def intro!: wp post_mono [OF r])
qed

lemma firmware_init_ow:
  assumes "cold s" and "firmware_init s = Inr s'"
  shows "ow [] s'"
proof -
  obtain p where p: "mem_pool_init (pool s) = Inr p" "pool_inv p" "free_list p = [0..<16]"
    using mem_pool_init_ok [of "pool s"] assms(1) by (auto simp: cold_def)
  let ?s = "s\<lparr>pool := p, bt_state := BTCTL_STATE_STANDBY, eir_msg := None, rx_q := msg_queue_init (rx_q s),
       tx_q := msg_queue_init (tx_q s), acl_tx_q := msg_queue_init (acl_tx_q s)\<rparr>"
  have h: "held ?s = []" using assms(1) by (simp add: cold_def held_def)
  have "own [] ?s" using assms(1) p queue_init [of "rx_q s"] queue_init [of "tx_q s"] queue_init [of "acl_tx_q s"]
    by (simp add: own_def owned_def fw_wf_def cold_def mset_upt atLeast0LessThan)
  then have o: "ow [] ?s" unfolding ow_def h by simp
  have "btphy_init ?s = Inr s'" using assms(2) unfolding firmware_init_def btctl_init_def p(1) by simp
  then show ?thesis by (rule post_Inr [OF wp_btphy_init [OF o]])
qed

lemma sub_distinct:
  assumes "mset xs \<subseteq># mset_set {..<n :: nat}"
  shows "distinct xs \<and> set xs \<subseteq> {..<n}"
proof
  have "count (mset xs) x \<le> 1" for x
  proof -
    have "count (mset xs) x \<le> count (mset_set {..<n}) x" by (rule mset_subset_eq_count [OF assms])
    also have "\<dots> \<le> 1" by (simp add: count_mset_set')
    finally show ?thesis .
  qed
  then have "count (mset xs) x = (if x \<in> set xs then 1 else 0)" for x
    by (auto simp: count_eq_zero_iff le_Suc_eq)
  then show "distinct xs" by (simp add: distinct_count_atmost_1)
  show "set xs \<subseteq> {..<n}" using set_mset_mono [OF assms] by simp
qed

text \<open>
  C3 Message buffers never have two owners: in every state the firmware reaches after its start, the queues
  to and from the host, the queue of packets to send, the stored EIR packet, the messages under way in the
  reception task, the USB driver and the two link layers, and the free list of the pool share no buffer and name only
  buffers of the pool.  No event, in whatever order they come and whatever the hardware delivers, frees a
  buffer that is still in use or uses one twice.
\<close>

theorem buffers_one_owner:
  assumes "cold s0" and "firmware_init s0 = Inr s1" and "fw_reach s1 s"
  shows "distinct (held s @ mq_list (rx_q s) @ mq_list (tx_q s) @ mq_list (acl_tx_q s) @ opt_list (eir_msg s) @ free_list (pool s)) \<and>
    set (held s @ mq_list (rx_q s) @ mq_list (tx_q s) @ mq_list (acl_tx_q s) @ opt_list (eir_msg s) @ free_list (pool s)) \<subseteq> {..<BUF_NUM}"
proof -
  let ?all = "held s @ mq_list (rx_q s) @ mq_list (tx_q s) @ mq_list (acl_tx_q s) @ opt_list (eir_msg s) @ free_list (pool s)"
  have "ow [] s" by (rule reach_ow [OF assms(3) firmware_init_ow [OF assms(1,2)]])
  then have o: "mset ?all \<subseteq># mset_set {..<BUF_NUM}"
    by (simp add: ow_def own_def owned_def opt_list_def add.assoc split: option.splits)
  then show ?thesis by (rule sub_distinct)
qed

end
