(* ===== verification/Planning.thy ===== *)
theory Planning
  imports Ownership
begin

text \<open>
  What the firmware does with its frame scheduler and its timers: every operation only adds items to the wheel, so what is
  planned stays planned and comes one frame closer with every frame interrupt, and runs in its frame in order of priority.
  The proofs follow the operations, as those of theory Ownership do, with rules collected in \<open>pl\<close>.
\<close>

section \<open>What operations keep\<close>

named_theorems pl "rules for the operations of the firmware and its scheduler"

text \<open>From \<open>a\<close> to \<open>s\<close> the wheel only grew, the memory the start of a mode needs kept its size, and the timers stayed well formed.\<close>

definition kept :: "btbr \<Rightarrow> btbr \<Rightarrow> bool" where
  "kept a s \<longleftrightarrow> (sched_inv (sched a) \<longrightarrow> grows (sched a) (sched s)) \<and> length (basic_bank (hop s)) = length (basic_bank (hop a)) \<and>
     length (fhs_data (paging_state s)) = length (fhs_data (paging_state a)) \<and>
     (timers_inv (timers a) \<longrightarrow> timers_inv (timers s))"

lemma kept_refl: "kept s s"
  by (simp add: kept_def grows_refl)

lemma kept_update [simp]:
  "kept a (s\<lparr>pool := p\<rparr>) = kept a s" "kept a (s\<lparr>bufs := bs\<rparr>) = kept a s" "kept a (s\<lparr>bt_state := st\<rparr>) = kept a s"
  "kept a (s\<lparr>rx_q := q\<rparr>) = kept a s" "kept a (s\<lparr>tx_q := q\<rparr>) = kept a s" "kept a (s\<lparr>acl_tx_q := q\<rparr>) = kept a s"
  "kept a (s\<lparr>eir_msg := em\<rparr>) = kept a s" "kept a (s\<lparr>phy := ph\<rparr>) = kept a s" "kept a (s\<lparr>cc2400 := cc\<rparr>) = kept a s"
  "kept a (s\<lparr>freq_off_reg := fo\<rparr>) = kept a s" "kept a (s\<lparr>max_ac_errors := ma\<rparr>) = kept a s" "kept a (s\<lparr>t0mr0 := t0\<rparr>) = kept a s"
  "kept a (s\<lparr>t1tc := t1\<rparr>) = kept a s" "kept a (s\<lparr>afh_buf := ab\<rparr>) = kept a s" "kept a (s\<lparr>rx_task := rt\<rparr>) = kept a s"
  "kept a (s\<lparr>tx_task := tt\<rparr>) = kept a s" "kept a (s\<lparr>scan_task := st'\<rparr>) = kept a s" "kept a (s\<lparr>inquiry_state := i\<rparr>) = kept a s"
  "kept a (s\<lparr>inquiry_scan_state := f\<rparr>) = kept a s" "kept a (s\<lparr>page_scan_state := g\<rparr>) = kept a s" "kept a (s\<lparr>monitor1_state := g\<rparr>) = kept a s"
  "kept a (s\<lparr>monitor2_bdaddr := ba\<rparr>) = kept a s" "kept a (s\<lparr>master_ll := ll\<rparr>) = kept a s" "kept a (s\<lparr>slave_state := sl\<rparr>) = kept a s"
  "kept a (s\<lparr>usb_tx_msg := m\<rparr>) = kept a s" "kept a (s\<lparr>usb_rx_msg := m\<rparr>) = kept a s" "kept a (s\<lparr>hardware := h\<rparr>) = kept a s"
  "length (fhs_data f) = length (fhs_data (paging_state s)) \<Longrightarrow> kept a (s\<lparr>paging_state := f\<rparr>) = kept a s"
  "length (basic_bank hs) = length (basic_bank (hop s)) \<Longrightarrow> kept a (s\<lparr>hop := hs\<rparr>) = kept a s"
  by (simp_all add: kept_def)

lemma kept_sched: "kept a s \<Longrightarrow> (sched_inv (sched s) \<Longrightarrow> grows (sched s) sc) \<Longrightarrow> kept a (s\<lparr>sched := sc\<rparr>)"
  by (auto simp: kept_def intro: grows_trans dest: grows_inv)

lemma kept_timers: "kept a s \<Longrightarrow> (timers_inv (timers s) \<Longrightarrow> timers_inv ts) \<Longrightarrow> kept a (s\<lparr>timers := ts\<rparr>)"
  by (simp add: kept_def)

text \<open>Computations that do not touch the state.\<close>

lemmas pl_pure [pl] = wp_rd wp_wr
  post_any [of _ "hop_channel m c h" for m c h]
  post_any [of _ "as_rx m" for m] post_any [of _ "as_tx m" for m] post_any [of _ "as_reg m" for m]
  post_any [of _ "as_bdaddr m" for m] post_any [of _ "as_afh m" for m] post_any [of _ "m_put n m" for n m]
  post_any [of _ "typ_of c" for c] post_any [of _ "bbcodec_decode_header c i" for c i]
  post_any [of _ "bbcodec_decode_chunk c u i n" for c u i n] post_any [of _ "bbcodec_decode_finalize c u" for c u]
  post_any [of _ "bbcodec_encode_header c a h t d" for c a h t d] post_any [of _ "bbpkt_decode_fhs d" for d]
  post_any [of _ "wait_strobe l t g" for l t g] post_any [of _ "btphy_rf_fifo_write d n" for d n]
  post_any [of _ "window n f b" for n f b] post_any [of _ "loop n f b" for n f b]
  post_any [of _ "mem_pool_alloc n p" for n p] post_any [of _ "mem_pool_free n p" for n p]
  post_any [of _ "msg_enqueue q n" for q n] post_any [of _ "msg_dequeue q" for q]

section \<open>The memory that keeps its size\<close>

lemma loop_keeps:
  assumes "\<And>i x. P x \<Longrightarrow> post (f i x) P" and "P x"
  shows "post (loop n f x) P"
  using assms(2) by (induction n) (auto intro: post_mono assms(1))

lemma pl_hop_init [pl]: "(\<And>hs'. length (basic_bank hs') = length (basic_bank hs) \<Longrightarrow> Q hs') \<Longrightarrow> post (hop_init ad hs) Q"
proof -
  assume Q: "\<And>hs'. length (basic_bank hs') = length (basic_bank hs) \<Longrightarrow> Q hs'"
  have l: "post (loop n (\<lambda>i b. wr b i (g i)) (basic_bank hs)) (\<lambda>b. length b = length (basic_bank hs))" for n and g :: "nat \<Rightarrow> u8"
    by (rule loop_keeps) (auto intro!: wp_wr)
  then show ?thesis unfolding hop_init_def by (auto intro!: post_mono [OF l] Q)
qed

lemma pl_hop_cfg_afh [pl]: "(\<And>hs'. basic_bank hs' = basic_bank hs \<Longrightarrow> Q hs') \<Longrightarrow> post (hop_cfg_afh buf hs) Q"
  unfolding hop_cfg_afh_def hop_set_afh_map_def by (auto simp: Let_def intro!: pl)

lemma stores_length: "post (stores xs k vs) (\<lambda>ys. length ys = length xs)"
proof (induction vs arbitrary: xs k)
  case (Cons v vs)
  show ?case using Cons.IH [of "xs[k := v]" "Suc k"] by (auto intro!: pl)
qed simp

lemma pl_fhs_finalize [pl]: "(\<And>d'. length d' = length d \<Longrightarrow> Q d') \<Longrightarrow> post (bbpkt_fhs_finalize_payload d c) Q"
  unfolding bbpkt_fhs_finalize_payload_def by (auto intro!: pl post_mono [OF stores_length])

lemma pl_fhs_prepare [pl]: "(\<And>d'. length d' = length d \<Longrightarrow> Q d') \<Longrightarrow> post (fhs_prepare l e d s) Q"
  unfolding fhs_prepare_def bbpkt_fhs_prepare_payload_def by (erule post_mono [OF stores_length])

lemma pl_encode_chunk [pl]:
  "(\<And>c' a' d'. length d' = length d \<Longrightarrow> Q (c', a', d')) \<Longrightarrow> post (bbcodec_encode_chunk c a d t) Q"
  unfolding bbcodec_encode_chunk_def
  by (auto simp: Let_def intro!: pl post_any [of _ "crc_compute x y z" for x y z] post_any [of _ "whiten x y z w" for x y z w])

section \<open>Messages and the link layer\<close>

lemma pl_free [pl]: "kept a s \<Longrightarrow> (\<And>s'. kept a s' \<Longrightarrow> Q s') \<Longrightarrow> post (msg_free h s) Q"
  unfolding msg_free_def by (auto intro!: pl)

lemma pl_alloc [pl]: "kept a s \<Longrightarrow> (\<And>x s'. kept a s' \<Longrightarrow> Q (x, s')) \<Longrightarrow> post (btctl_msg_alloc t s) Q"
  unfolding btctl_msg_alloc_def by (auto intro!: pl)

lemma pl_tx_enqueue [pl]: "kept a s \<Longrightarrow> (\<And>x s'. kept a s' \<Longrightarrow> Q (x, s')) \<Longrightarrow> post (btctl_tx_enqueue h s) Q"
  unfolding btctl_tx_enqueue_def by (auto intro!: pl)

lemma pl_tx_dequeue [pl]: "kept a s \<Longrightarrow> (\<And>x s'. kept a s' \<Longrightarrow> Q (x, s')) \<Longrightarrow> post (btctl_tx_dequeue s) Q"
  unfolding btctl_tx_dequeue_def by (auto intro!: pl)

lemma pl_rx_enqueue [pl]: "kept a s \<Longrightarrow> (\<And>x s'. kept a s' \<Longrightarrow> Q (x, s')) \<Longrightarrow> post (btctl_rx_enqueue h s) Q"
  unfolding btctl_rx_enqueue_def by (auto intro!: pl)

lemma pl_rx_dequeue [pl]: "kept a s \<Longrightarrow> (\<And>x s'. kept a s' \<Longrightarrow> Q (x, s')) \<Longrightarrow> post (btctl_rx_dequeue s) Q"
  unfolding btctl_rx_dequeue_def by (auto intro!: pl)

lemma pl_acl_tx_enqueue [pl]: "kept a s \<Longrightarrow> (\<And>x s'. kept a s' \<Longrightarrow> Q (x, s')) \<Longrightarrow> post (btctl_acl_tx_enqueue h s) Q"
  unfolding btctl_acl_tx_enqueue_def by (auto intro!: pl)

lemma pl_acl_tx_dequeue [pl]: "kept a s \<Longrightarrow> (\<And>x s'. kept a s' \<Longrightarrow> Q (x, s')) \<Longrightarrow> post (btctl_acl_tx_dequeue s) Q"
  unfolding btctl_acl_tx_dequeue_def by (auto intro!: pl)

lemma pl_state_resp [pl]: "kept a s \<Longrightarrow> (\<And>s'. kept a s' \<Longrightarrow> Q s') \<Longrightarrow> post (btctl_send_state_resp st r s) Q"
  unfolding btctl_send_state_resp_def by (auto intro!: pl)

lemma pl_set_state [pl]: "kept a s \<Longrightarrow> (\<And>s'. kept a s' \<Longrightarrow> Q s') \<Longrightarrow> post (btctl_set_state st r s) Q"
  unfolding btctl_set_state_def by (auto intro!: pl simp: Let_def)

lemma pl_ll_rx_connect [pl]: "kept a s \<Longrightarrow> (\<And>x s'. kept a s' \<Longrightarrow> Q (x, s')) \<Longrightarrow> post (ll_rx_connect ll s) Q"
  unfolding ll_rx_connect_def by (auto intro!: pl)

lemma pl_ll_rx_arqn [pl]: "kept a s \<Longrightarrow> (\<And>x s'. kept a s' \<Longrightarrow> Q (x, s')) \<Longrightarrow> post (ll_rx_arqn ll h s) Q"
  unfolding ll_rx_arqn_def by (auto intro!: pl split: option.split)

lemma pl_ll_rx_seqn [pl]: "kept a s \<Longrightarrow> (\<And>x y s'. kept a s' \<Longrightarrow> Q (x, y, s')) \<Longrightarrow> post (ll_rx_seqn ll pkt m s) Q"
  unfolding ll_rx_seqn_def by (auto intro!: pl)

lemma pl_ll_rx_accept [pl]: "kept a s \<Longrightarrow> (\<And>x y s'. kept a s' \<Longrightarrow> Q (x, y, s')) \<Longrightarrow> post (ll_rx_accept ll pkt m rc s) Q"
  unfolding ll_rx_accept_def by (auto intro!: pl simp: Let_def)

lemma pl_ll_process_rx [pl]: "kept a s \<Longrightarrow> (\<And>x y s'. kept a s' \<Longrightarrow> Q (x, y, s')) \<Longrightarrow> post (ll_process_rx ll m s) Q"
  unfolding ll_process_rx_def by (auto intro!: pl simp: Let_def)

lemma pl_ll_tx_dequeue [pl]: "kept a s \<Longrightarrow> (\<And>x s'. kept a s' \<Longrightarrow> Q (x, s')) \<Longrightarrow> post (ll_tx_dequeue ll s) Q"
  unfolding ll_tx_dequeue_def by (auto intro!: pl)

lemma pl_ll_prepare_tx [pl]: "kept a s \<Longrightarrow> (\<And>x y s'. kept a s' \<Longrightarrow> Q (x, y, s')) \<Longrightarrow> post (ll_prepare_tx ll s) Q"
  unfolding ll_prepare_tx_def by (auto intro!: pl simp: Let_def split: option.split)

lemma pl_ll_reset [pl]: "kept a s \<Longrightarrow> (\<And>x s'. kept a s' \<Longrightarrow> Q (x, s')) \<Longrightarrow> post (ll_reset ll s) Q"
  unfolding ll_reset_def by (auto intro!: pl split: option.split)

section \<open>The wheel\<close>

lemma push_grows:
  assumes inv: "sched_inv s" and n: "n < 16" and b: "bucket_ok (bucket s ! n)" "num_items (bucket s ! n) < 4"
  shows "grows s (s\<lparr>bucket := (bucket s)[n := (bucket s ! n)\<lparr>item := (item (bucket s ! n))[num_items (bucket s ! n) := it],
    num_items := Suc (num_items (bucket s ! n))\<rparr>]\<rparr>)"
proof -
  have c: "cur_bucket s < 16" using inv by (simp add: sched_inv_def)
  let ?k = "16 + n - cur_bucket s"
  have nk: "n = (cur_bucket s + ?k) mod 16" using n c by simp
  have "length (due s ?k) < 4" using length_due [OF inv, of ?k] b nk by simp
  note pu = push_item_due [OF inv nk this, of it]
  have "grows s (push_item n it s)" using pu due_wraps by (simp add: grows_def)
  then show ?thesis by (simp add: push_item_def)
qed

lemma schedule_grows: "sched_inv s \<Longrightarrow> post (tdma_schedule off c q1 q2 q3 pr s) (\<lambda>(rc, s'). grows s s')"
  using push_grows [of s "wrap_bucket off s"] sched_bucket [of s "wrap_bucket off s"]
  unfolding tdma_schedule_def
  by (auto simp: Let_def wrap_bucket_def grows_refl intro!: pl)

lemma schedule_set_loop_grows:
  "grows s0 s \<Longrightarrow> bn < 16 \<Longrightarrow> post (schedule_set_loop items off bn j q3 s) (\<lambda>(rc, s'). grows s0 s')"
proof (induction items off bn j q3 s rule: schedule_set_loop.induct)
  case (2 it items off bn j q3 s)
  have inv: "sched_inv s" by (rule grows_inv [OF "2.prems"(1)])
  note g = push_grows [OF inv "2.prems"(2) sched_bucket [OF inv "2.prems"(2)]]
  show ?case
  proof (cases "cb it")
    case Cb_null
    then show ?thesis using "2.IH"(1) [OF Cb_null "2.prems"(1)] by (simp add: wrap_bucket_def)
  next
    case Cb_end_set
    then show ?thesis using "2.prems" by simp
  next
    case (Cb c)
    then show ?thesis using "2.prems"(1)
      by (auto intro!: pl "2.IH"(2) [OF Cb _ _ _ _ _ "2.prems"(2)] grows_trans [OF "2.prems"(1)] g)
  qed
qed simp

lemma kept_wheel:
  assumes "kept a s" and "sched_inv (sched s) \<Longrightarrow> post r (\<lambda>(rc, sc). grows (sched s) sc)" and "\<And>s'. kept a s' \<Longrightarrow> Q s'"
  shows "post (bnd r (\<lambda>(_, sc). Inr (s\<lparr>sched := sc\<rparr>))) Q"
  using assms by (auto simp: post_def bnd_Inr_iff intro: kept_sched)

lemma pl_schedule [pl]: "kept a s \<Longrightarrow> (\<And>s'. kept a s' \<Longrightarrow> Q s') \<Longrightarrow> post (schedule d t p s) Q"
  unfolding schedule_def by (rule kept_wheel [OF _ schedule_grows])

lemma pl_schedule_items [pl]: "kept a s \<Longrightarrow> (\<And>s'. kept a s' \<Longrightarrow> Q s') \<Longrightarrow> post (schedule_items d items s) Q"
  unfolding schedule_items_def tdma_schedule_set_def
  by (rule kept_wheel [OF _ schedule_set_loop_grows [OF grows_refl]]) (simp_all add: wrap_bucket_def)

section \<open>Modes and planning\<close>

lemma kept_radio [simp]:
  "kept a (cc2400_set r v s) = kept a s" "kept a (btphy_rf_cfg_sync y s) = kept a s" "kept a (btphy_rf_tune_chan ch tx s) = kept a s"
  "kept a (btphy_rf_cfg_rx s) = kept a s" "kept a (btphy_rf_cfg_tx s) = kept a s" "kept a (btphy_rf_set_freq_off n s) = kept a s"
  "kept a (btphy_rf_set_max_ac_errors n s) = kept a s" "kept a (btphy_set_bdaddr ba s) = kept a s"
  "kept a (btphy_adj_clkn_delay d s) = kept a s" "kept a (btphy_cancel_clkn_delay s) = kept a s"
  "kept a (tx_task_reset s) = kept a s" "kept a (sync_slave_clkn fi pk s) = kept a s" "kept a (set_slave_ll ll s) = kept a s"
  "kept a (btphy_tick s) = kept a s"
  by (simp_all add: cc2400_set_def btphy_rf_cfg_sync_def btphy_rf_tune_chan_def btphy_rf_cfg_rx_def btphy_rf_cfg_tx_def
      btphy_rf_set_freq_off_def btphy_rf_set_max_ac_errors_def btphy_set_bdaddr_def btphy_adj_clkn_delay_def btphy_cancel_clkn_delay_def
      tx_task_reset_def sync_slave_clkn_def set_slave_ll_def btphy_tick_def Let_def)

lemma hop_radio [simp]: "hop (cc2400_set r v s) = hop s" "hop (btphy_rf_cfg_sync y s) = hop s"
  by (simp_all add: cc2400_set_def btphy_rf_cfg_sync_def)

lemma basic_bank_increment [simp]: "basic_bank (hop_increment hs) = basic_bank hs"
  by (simp add: hop_increment_def)

lemma kept_upd [simp]: "kept a (upd_hw f s) = kept a s" "kept a (upd_rx g s) = kept a s" "kept a (upd_tx h s) = kept a s"
  "kept a (upd_scan k s) = kept a s"
  by (simp_all add: upd_hw_def upd_rx_def upd_tx_def upd_scan_def)

lemma pl_set_mode [pl]: "kept a s \<Longrightarrow> (\<And>s'. kept a s' \<Longrightarrow> Q s') \<Longrightarrow> post (btphy_set_mode m l u s) Q"
  unfolding btphy_set_mode_def by (auto intro!: pl simp: Let_def)

lemma pl_rx_task_schedule [pl]: "kept a s \<Longrightarrow> (\<And>s'. kept a s' \<Longrightarrow> Q s') \<Longrightarrow> post (rx_task_schedule d c f s) Q"
  unfolding rx_task_schedule_def by (auto intro!: pl)

lemma pl_tx_task_schedule [pl]: "kept a s \<Longrightarrow> (\<And>s'. kept a s' \<Longrightarrow> Q s') \<Longrightarrow> post (tx_task_schedule d c p s) Q"
  unfolding tx_task_schedule_def by (auto intro!: pl)

lemma pl_scan_task_schedule [pl]: "kept a s \<Longrightarrow> (\<And>s'. kept a s' \<Longrightarrow> Q s') \<Longrightarrow> post (scan_task_schedule d c s) Q"
  unfolding scan_task_schedule_def by (auto intro!: pl)

lemma pl_pkt_of [pl]: "(\<And>h p. Q (h, p)) \<Longrightarrow> post (pkt_of m s) Q"
  by (rule post_any) auto

section \<open>States\<close>

lemma pl_inquiry_schedule [pl]: "kept a s \<Longrightarrow> (\<And>s'. kept a s' \<Longrightarrow> Q s') \<Longrightarrow> post (inquiry_schedule d s) Q"
  unfolding inquiry_schedule_def by (auto intro!: pl)

lemma pl_inquiry_rx_cb [pl]: "kept a s \<Longrightarrow> (\<And>s'. kept a s' \<Longrightarrow> Q s') \<Longrightarrow> post (inquiry_rx_cb m s) Q"
  unfolding inquiry_rx_cb_def by (auto intro!: pl)

lemma pl_inquiry_start_sync [pl]: "kept a s \<Longrightarrow> (\<And>s'. kept a s' \<Longrightarrow> Q s') \<Longrightarrow> post (inquiry_start_sync s) Q"
  unfolding inquiry_start_sync_def by (auto intro!: pl simp: Let_def)

lemma pl_inquiry_state_setup [pl]: "kept a s \<Longrightarrow> (\<And>s'. kept a s' \<Longrightarrow> Q s') \<Longrightarrow> post (inquiry_state_setup s) Q"
  unfolding inquiry_state_setup_def by (auto intro!: pl)

lemma pl_inquiry_scan_schedule [pl]: "kept a s \<Longrightarrow> (\<And>s'. kept a s' \<Longrightarrow> Q s') \<Longrightarrow> post (inquiry_scan_schedule d s) Q"
  unfolding inquiry_scan_schedule_def by (auto intro!: pl)

lemma pl_tx_eir_cb [pl]: "kept a s \<Longrightarrow> (\<And>s'. kept a s' \<Longrightarrow> Q s') \<Longrightarrow> post (tx_eir_cb s) Q"
  unfolding tx_eir_cb_def by (auto intro!: pl)

lemma pl_tx_fhs_cb [pl]: "kept a s \<Longrightarrow> (\<And>s'. kept a s' \<Longrightarrow> Q s') \<Longrightarrow> post (tx_fhs_cb s) Q"
  unfolding tx_fhs_cb_def by (auto intro!: pl split: option.split)

lemma pl_inquiry_scan_rx_cb [pl]: "kept a s \<Longrightarrow> (\<And>s'. kept a s' \<Longrightarrow> Q s') \<Longrightarrow> post (inquiry_scan_rx_cb sw s) Q"
  unfolding inquiry_scan_rx_cb_def by (auto intro!: pl simp: Let_def)

lemma pl_inquiry_scan_state_setup [pl]: "kept a s \<Longrightarrow> (\<And>s'. kept a s' \<Longrightarrow> Q s') \<Longrightarrow> post (inquiry_scan_state_setup s) Q"
  unfolding inquiry_scan_state_setup_def by (auto intro!: pl simp: Let_def)

lemma pl_master_state_schedule_rx [pl]: "kept a s \<Longrightarrow> (\<And>s'. kept a s' \<Longrightarrow> Q s') \<Longrightarrow> post (master_state_schedule_rx k s) Q"
  unfolding master_state_schedule_rx_def by (auto intro!: pl)

lemma pl_master_tx_done_cb [pl]: "kept a s \<Longrightarrow> (\<And>s'. kept a s' \<Longrightarrow> Q s') \<Longrightarrow> post (master_tx_done_cb s) Q"
  unfolding master_tx_done_cb_def by (auto intro!: pl)

lemma pl_master_state_schedule_tx [pl]: "kept a s \<Longrightarrow> (\<And>s'. kept a s' \<Longrightarrow> Q s') \<Longrightarrow> post (master_state_schedule_tx k s) Q"
  unfolding master_state_schedule_tx_def by (auto intro!: pl simp: Let_def)

lemma pl_master_rx_cb [pl]: "kept a s \<Longrightarrow> (\<And>s'. kept a s' \<Longrightarrow> Q s') \<Longrightarrow> post (master_rx_cb m s) Q"
  unfolding master_rx_cb_def by (auto intro!: pl simp: Let_def)

lemma pl_master_state_init [pl]: "kept a s \<Longrightarrow> (\<And>s'. kept a s' \<Longrightarrow> Q s') \<Longrightarrow> post (master_state_init s) Q"
  unfolding master_state_init_def by (auto intro!: pl)

lemma pl_paging_schedule [pl]: "kept a s \<Longrightarrow> (\<And>s'. kept a s' \<Longrightarrow> Q s') \<Longrightarrow> post (paging_schedule d s) Q"
  unfolding paging_schedule_def by (auto intro!: pl)

lemma pl_paging_rx_ack_cb [pl]: "kept a s \<Longrightarrow> (\<And>s'. kept a s' \<Longrightarrow> Q s') \<Longrightarrow> post (paging_rx_ack_cb m s) Q"
  unfolding paging_rx_ack_cb_def by (auto intro!: pl)

lemma pl_paging_rx_cb [pl]: "kept a s \<Longrightarrow> (\<And>s'. kept a s' \<Longrightarrow> Q s') \<Longrightarrow> post (paging_rx_cb m s) Q"
  unfolding paging_rx_cb_def by (auto intro!: pl simp: Let_def)

lemma pl_paging_start_sync [pl]: "kept a s \<Longrightarrow> (\<And>s'. kept a s' \<Longrightarrow> Q s') \<Longrightarrow> post (paging_start_sync s) Q"
  unfolding paging_start_sync_def by (auto intro!: pl simp: Let_def)

lemma pl_paging_state_setup [pl]: "kept a s \<Longrightarrow> (\<And>s'. kept a s' \<Longrightarrow> Q s') \<Longrightarrow> post (paging_state_setup l u s) Q"
  unfolding paging_state_setup_def by (auto intro!: pl simp: Let_def)

lemma pl_slave_state_schedule_rx [pl]: "kept a s \<Longrightarrow> (\<And>s'. kept a s' \<Longrightarrow> Q s') \<Longrightarrow> post (slave_state_schedule_rx k s) Q"
  unfolding slave_state_schedule_rx_def by (auto intro!: pl)

lemma pl_slave_tx_done_cb [pl]: "kept a s \<Longrightarrow> (\<And>s'. kept a s' \<Longrightarrow> Q s') \<Longrightarrow> post (slave_tx_done_cb s) Q"
  unfolding slave_tx_done_cb_def by (auto intro!: pl)

lemma pl_slave_state_schedule_tx [pl]: "kept a s \<Longrightarrow> (\<And>s'. kept a s' \<Longrightarrow> Q s') \<Longrightarrow> post (slave_state_schedule_tx k s) Q"
  unfolding slave_state_schedule_tx_def by (auto intro!: pl simp: Let_def)

lemma pl_slave_rx_cb [pl]: "kept a s \<Longrightarrow> (\<And>s'. kept a s' \<Longrightarrow> Q s') \<Longrightarrow> post (slave_rx_cb m t s) Q"
  unfolding slave_rx_cb_def by (auto intro!: pl simp: Let_def)

lemma pl_slave_state_init [pl]: "kept a s \<Longrightarrow> (\<And>s'. kept a s' \<Longrightarrow> Q s') \<Longrightarrow> post (slave_state_init ad l s) Q"
  unfolding slave_state_init_def by (auto intro!: pl simp: Let_def)

lemma pl_page_scan_tx_cb [pl]: "kept a s \<Longrightarrow> (\<And>s'. kept a s' \<Longrightarrow> Q s') \<Longrightarrow> post (page_scan_tx_cb s) Q"
  unfolding page_scan_tx_cb_def by (auto intro!: pl)

lemma pl_page_scan_schedule [pl]: "kept a s \<Longrightarrow> (\<And>s'. kept a s' \<Longrightarrow> Q s') \<Longrightarrow> post (page_scan_schedule d s) Q"
  unfolding page_scan_schedule_def by (auto intro!: pl)

lemma pl_page_scan_rx_fhs_cb [pl]: "kept a s \<Longrightarrow> (\<And>s'. kept a s' \<Longrightarrow> Q s') \<Longrightarrow> post (page_scan_rx_fhs_cb m s) Q"
  unfolding page_scan_rx_fhs_cb_def by (auto intro!: pl simp: Let_def)

lemma pl_page_scan_rx_id_cb [pl]: "kept a s \<Longrightarrow> (\<And>s'. kept a s' \<Longrightarrow> Q s') \<Longrightarrow> post (page_scan_rx_id_cb sw s) Q"
  unfolding page_scan_rx_id_cb_def by (auto intro!: pl simp: Let_def)

lemma pl_page_scan_state_setup [pl]: "kept a s \<Longrightarrow> (\<And>s'. kept a s' \<Longrightarrow> Q s') \<Longrightarrow> post (page_scan_state_setup s) Q"
  unfolding page_scan_state_setup_def by (auto intro!: pl)

lemma pl_monitor2_state_schedule_rx [pl]: "kept a s \<Longrightarrow> (\<And>s'. kept a s' \<Longrightarrow> Q s') \<Longrightarrow> post (monitor2_state_schedule_rx k s) Q"
  unfolding monitor2_state_schedule_rx_def by (auto intro!: pl)

lemma pl_monitor2_rx_cb [pl]: "kept a s \<Longrightarrow> (\<And>s'. kept a s' \<Longrightarrow> Q s') \<Longrightarrow> post (monitor2_rx_cb m t s) Q"
  unfolding monitor2_rx_cb_def by (auto intro!: pl simp: Let_def)

lemma pl_monitor2_state_init [pl]: "kept a s \<Longrightarrow> (\<And>s'. kept a s' \<Longrightarrow> Q s') \<Longrightarrow> post (monitor2_state_init ad s) Q"
  unfolding monitor2_state_init_def by (auto intro!: pl simp: Let_def)

lemma pl_start_monitor2 [pl]: "kept a s \<Longrightarrow> (\<And>s'. kept a s' \<Longrightarrow> Q s') \<Longrightarrow> post (start_monitor2 s) Q"
  unfolding start_monitor2_def by (auto intro!: pl)

lemma pl_monitor1_schedule [pl]: "kept a s \<Longrightarrow> (\<And>s'. kept a s' \<Longrightarrow> Q s') \<Longrightarrow> post (monitor1_schedule d s) Q"
  unfolding monitor1_schedule_def by (auto intro!: pl)

lemma pl_monitor1_rx_fhs_cb [pl]: "kept a s \<Longrightarrow> (\<And>s'. kept a s' \<Longrightarrow> Q s') \<Longrightarrow> post (monitor1_rx_fhs_cb m s) Q"
  unfolding monitor1_rx_fhs_cb_def by (auto intro!: pl)

lemma pl_monitor1_rx_id_cb [pl]: "kept a s \<Longrightarrow> (\<And>s'. kept a s' \<Longrightarrow> Q s') \<Longrightarrow> post (monitor1_rx_id_cb sw s) Q"
  unfolding monitor1_rx_id_cb_def by (auto intro!: pl simp: Let_def)

lemma pl_monitor1_state_setup [pl]: "kept a s \<Longrightarrow> (\<And>s'. kept a s' \<Longrightarrow> Q s') \<Longrightarrow> post (monitor1_state_setup ad s) Q"
  unfolding monitor1_state_setup_def by (auto intro!: pl simp: Let_def)

lemma pl_rx_callback [pl]: "kept a s \<Longrightarrow> (\<And>s'. kept a s' \<Longrightarrow> Q s') \<Longrightarrow> post (rx_callback c m t s) Q"
  unfolding rx_callback_def by (cases c) (auto intro!: pl)

lemma pl_tx_callback [pl]: "kept a s \<Longrightarrow> (\<And>s'. kept a s' \<Longrightarrow> Q s') \<Longrightarrow> post (tx_callback c s) Q"
  unfolding tx_callback_def by (cases c) (auto intro!: pl)

lemma pl_scan_callback [pl]: "kept a s \<Longrightarrow> (\<And>s'. kept a s' \<Longrightarrow> Q s') \<Longrightarrow> post (scan_callback c sw s) Q"
  unfolding scan_callback_def by (cases c) (auto intro!: pl)

section \<open>Tasks\<close>

lemma pl_wait_packet [pl]: "kept a s \<Longrightarrow> (\<And>x s'. kept a s' \<Longrightarrow> Q (x, s')) \<Longrightarrow> post (wait_packet l s) Q"
  unfolding wait_packet_def by (auto intro!: pl)

lemma pl_rx_buf_update [pl]: "kept a s \<Longrightarrow> (\<And>x s'. kept a s' \<Longrightarrow> Q (x, s')) \<Longrightarrow> post (rx_buf_update s) Q"
  unfolding rx_buf_update_def by (auto intro!: pl simp: Let_def split: list.split)

lemma pl_wait_bytes_loop [pl]: "kept a s \<Longrightarrow> (\<And>x s'. kept a s' \<Longrightarrow> Q (x, s')) \<Longrightarrow> post (wait_bytes_loop k m s) Q"
  by (induction k arbitrary: s) (auto intro!: pl)

lemma pl_wait_bytes [pl]: "kept a s \<Longrightarrow> (\<And>x s'. kept a s' \<Longrightarrow> Q (x, s')) \<Longrightarrow> post (wait_bytes m s) Q"
  unfolding wait_bytes_def by (auto intro!: pl)

lemma pl_cur_rx [pl]: "(\<And>m h p. Q (m, h, p)) \<Longrightarrow> post (cur_rx s) Q"
  by (rule post_any) auto

lemma pl_upd_rx_pkt [pl]: "kept a s \<Longrightarrow> (\<And>s'. kept a s' \<Longrightarrow> Q s') \<Longrightarrow> post (upd_rx_pkt f s) Q"
  unfolding upd_rx_pkt_def by (auto intro!: pl)

lemma pl_rx_close [pl]:
  assumes "kept a s" and Q: "\<And>x s'. kept a s' \<Longrightarrow> Q (x, s')"
  shows "post (rx_close s) Q"
  unfolding rx_close_def using assms(1) by (auto simp: Let_def intro!: pl Q)

lemma pl_rx_finalize [pl]: "kept a s \<Longrightarrow> (\<And>s'. kept a s' \<Longrightarrow> Q s') \<Longrightarrow> post (rx_finalize s) Q"
  unfolding rx_finalize_def by (auto intro!: pl split: option.split)

lemma pl_tune [pl]: "kept a s \<Longrightarrow> (\<And>x s'. kept a s' \<Longrightarrow> Q (x, s')) \<Longrightarrow> post (tune tx c s) Q"
  unfolding tune_def by (auto intro!: pl simp: Let_def)

lemma pl_rx_prepare [pl]: "kept a s \<Longrightarrow> (\<And>s'. kept a s' \<Longrightarrow> Q s') \<Longrightarrow> post (rx_prepare s) Q"
  unfolding rx_prepare_def by (auto intro!: pl simp: Let_def)

lemma pl_rx_decode_chunk [pl]: "kept a s \<Longrightarrow> (\<And>x s'. kept a s' \<Longrightarrow> Q (x, s')) \<Longrightarrow> post (rx_decode_chunk n s) Q"
  unfolding rx_decode_chunk_def by (auto intro!: pl)

lemma pl_rx_pkt_hdr_callback [pl]: "kept a s \<Longrightarrow> (\<And>x s'. kept a s' \<Longrightarrow> Q (x, s')) \<Longrightarrow> post (rx_pkt_hdr_callback s) Q"
  unfolding rx_pkt_hdr_callback_def by (auto intro!: pl simp: Let_def split: option.split)

lemma pl_rx_data_hdr_callback [pl]: "kept a s \<Longrightarrow> (\<And>s'. kept a s' \<Longrightarrow> Q s') \<Longrightarrow> post (rx_data_hdr_callback s) Q"
  unfolding rx_data_hdr_callback_def by (auto intro!: pl split: chunk_rc.split)

lemma pl_rx_execute [pl]: "kept a s \<Longrightarrow> (\<And>s'. kept a s' \<Longrightarrow> Q s') \<Longrightarrow> post (rx_execute s) Q"
  unfolding rx_execute_def by (auto intro!: pl simp: Let_def split: list.split option.split)

lemma pl_wait_end_loop [pl]: "kept a s \<Longrightarrow> (\<And>x s'. kept a s' \<Longrightarrow> Q (x, s')) \<Longrightarrow> post (wait_end_loop k n s) Q"
  by (induction k arbitrary: n s) (auto simp: Let_def intro!: pl split: list.split)

lemma pl_wait_end [pl]: "kept a s \<Longrightarrow> (\<And>x s'. kept a s' \<Longrightarrow> Q (x, s')) \<Longrightarrow> post (wait_end n s) Q"
  unfolding wait_end_def by (rule pl_wait_end_loop)

lemma pl_decode_chunks [pl]: "kept a s \<Longrightarrow> (\<And>x s'. kept a s' \<Longrightarrow> Q (x, s')) \<Longrightarrow> post (decode_chunks k n s) Q"
  by (induction k arbitrary: s) (auto intro!: pl)

lemma pl_rx_decode [pl]: "kept a s \<Longrightarrow> (\<And>s'. kept a s' \<Longrightarrow> Q s') \<Longrightarrow> post (rx_decode s) Q"
  unfolding rx_decode_def by (auto intro!: pl simp: Let_def)

lemma pl_tx_user_hdr [pl]: "(\<And>h. Q h) \<Longrightarrow> post (tx_user_hdr p s) Q"
  by (rule post_any)

lemma pl_tx_msg_pkt [pl]: "(\<And>h p. Q (h, p)) \<Longrightarrow> post (tx_msg_pkt m s) Q"
  by (rule post_any) auto

text \<open>The data of the FHS packet goes through the encoder, which keeps its size.\<close>

lemma pl_tx_user_data [pl]:
  "(\<And>od. (\<forall>d. od = Some d \<and> p = Paging_fhs \<longrightarrow> d = fhs_data (paging_state s)) \<Longrightarrow> (od = None \<longrightarrow> p \<noteq> Paging_fhs) \<Longrightarrow> Q od) \<Longrightarrow> post (tx_user_data p s) Q"
  unfolding tx_user_data_def by (cases p) (auto intro!: pl)

lemma pl_set_user_data:
  "kept a s \<Longrightarrow> (p = Paging_fhs \<Longrightarrow> length d = length (fhs_data (paging_state s))) \<Longrightarrow> (\<And>s'. kept a s' \<Longrightarrow> Q s') \<Longrightarrow> post (set_user_data p d s) Q"
  unfolding set_user_data_def by (cases p) (auto intro!: pl)

lemma paging_upd_tx [simp]: "paging_state (upd_tx f s) = paging_state s"
  by (simp add: upd_tx_def)

lemma pl_tx_encode [pl]: "kept a s \<Longrightarrow> (\<And>s'. kept a s' \<Longrightarrow> Q s') \<Longrightarrow> post (tx_encode p s) Q"
  unfolding tx_encode_def by (auto intro!: pl pl_set_user_data split: option.splits)

lemma pl_fifo_write [pl]: "kept a s \<Longrightarrow> (\<And>s'. kept a s' \<Longrightarrow> Q s') \<Longrightarrow> post (fifo_write d n s) Q"
  unfolding fifo_write_def by (auto intro!: pl)

lemma pl_tx_push [pl]: "kept a s \<Longrightarrow> (\<And>s'. kept a s' \<Longrightarrow> Q s') \<Longrightarrow> post (tx_push n s) Q"
  unfolding tx_push_def by (auto intro!: pl simp: Let_def split: option.split)

lemma pl_tx_fifo_cb [pl]: "kept a s \<Longrightarrow> (\<And>s'. kept a s' \<Longrightarrow> Q s') \<Longrightarrow> post (tx_fifo_cb s) Q"
  unfolding tx_fifo_cb_def by (auto intro!: pl split: option.split)

lemma pl_tx_load [pl]: "kept a s \<Longrightarrow> (\<And>x s'. kept a s' \<Longrightarrow> Q (x, s')) \<Longrightarrow> post (tx_load clk p s) Q"
  unfolding tx_load_def by (auto intro!: pl simp: Let_def)

lemma pl_tx_prepare [pl]: "kept a s \<Longrightarrow> (\<And>s'. kept a s' \<Longrightarrow> Q s') \<Longrightarrow> post (tx_prepare s) Q"
  unfolding tx_prepare_def by (auto intro!: pl simp: Let_def split: option.split)

lemma pl_tx_execute [pl]: "kept a s \<Longrightarrow> (\<And>s'. kept a s' \<Longrightarrow> Q s') \<Longrightarrow> post (tx_execute s) Q"
  unfolding tx_execute_def by (auto intro!: pl simp: Let_def split: list.split)

lemma pl_tx_finalize [pl]: "kept a s \<Longrightarrow> (\<And>s'. kept a s' \<Longrightarrow> Q s') \<Longrightarrow> post (tx_finalize s) Q"
  unfolding tx_finalize_def by (auto intro!: pl simp: Let_def split: option.split)

lemma pl_scan_finalize [pl]: "kept a s \<Longrightarrow> (\<And>s'. kept a s' \<Longrightarrow> Q s') \<Longrightarrow> post (scan_finalize s) Q"
  unfolding scan_finalize_def by (auto intro!: pl split: option.split)

lemma pl_scan_wait [pl]: "kept a s \<Longrightarrow> (\<And>s'. kept a s' \<Longrightarrow> Q s') \<Longrightarrow> post (scan_wait s) Q"
  unfolding scan_wait_def by (auto intro!: pl simp: Let_def split: option.split)

lemma pl_scan_wait_more [pl]: "kept a s \<Longrightarrow> (\<And>s'. kept a s' \<Longrightarrow> Q s') \<Longrightarrow> post (scan_wait_more s) Q"
  unfolding scan_wait_more_def by (auto intro!: pl)

lemma pl_scan_start [pl]: "kept a s \<Longrightarrow> (\<And>s'. kept a s' \<Longrightarrow> Q s') \<Longrightarrow> post (scan_start s) Q"
  unfolding scan_start_def by (auto intro!: pl)

lemma pl_run_task [pl]: "kept a s \<Longrightarrow> (\<And>s'. kept a s' \<Longrightarrow> Q s') \<Longrightarrow> post (run_task t s) Q"
  unfolding run_task_def by (cases t) (auto intro!: pl)

section \<open>The frame interrupt\<close>

text \<open>The callbacks of the scheduler are the tasks: they only add to the wheel.\<close>

lemma task_call_append: "calls_append task_call"
proof -
  have "grows sc sc'" if i: "sched_inv sc" and c: "task_call t q1 q2 q3 (sc, ts, s) = Inr (rc, sc', ts', s')"
    for t q1 q2 q3 sc ts s rc sc' ts' s'
  proof -
    have "run_task t (s\<lparr>sched := sc\<rparr>) = Inr s'" "sc' = sched s'" using c by (auto simp: task_call_def bnd_Inr_iff)
    moreover have "post (run_task t (s\<lparr>sched := sc\<rparr>)) (kept (s\<lparr>sched := sc\<rparr>))" by (rule pl_run_task [OF kept_refl])
    ultimately show ?thesis using i by (simp add: post_def kept_def)
  qed
  then show ?thesis unfolding calls_append_def by auto
qed

text \<open>The memory the tasks do not resize.\<close>

definition sized :: "btbr \<Rightarrow> btbr \<Rightarrow> bool" where
  "sized a s \<longleftrightarrow> length (basic_bank (hop s)) = length (basic_bank (hop a)) \<and>
     length (fhs_data (paging_state s)) = length (fhs_data (paging_state a))"

lemma sized_refl [simp]: "sized s s"
  by (simp add: sized_def)

lemma task_call_sized:
  assumes "fst st = ts \<and> sized a (snd st)"
  shows "post (task_call t q1 q2 q3 (sc, st)) (\<lambda>(rc, sc', st'). fst st' = ts \<and> sized a (snd st'))"
proof -
  have "post (run_task t ((snd st)\<lparr>sched := sc\<rparr>)) (kept ((snd st)\<lparr>sched := sc\<rparr>))" by (rule pl_run_task [OF kept_refl])
  then show ?thesis using assms unfolding task_call_def by (cases st) (auto simp: sized_def kept_def elim!: post_mono)
qed

lemma fire_timer_sized: "sized a s \<Longrightarrow> post (fire_timer c s) (sized a)"
  unfolding fire_timer_def by (auto simp: sized_def intro!: pl)

lemma tick_sized [simp]: "sized a (btphy_tick s) = sized a s"
  by (simp add: sized_def btphy_tick_def Let_def)

text \<open>What a frame interrupt does to the plan: every frame comes one closer.\<close>

definition moved :: "btbr \<Rightarrow> btbr \<Rightarrow> bool" where
  "moved s s' \<longleftrightarrow> sized s s' \<and> (timers_inv (timers s) \<longrightarrow> timers_inv (timers s')) \<and>
     (sched_inv (sched s) \<longrightarrow> sched_inv (sched s') \<and> (\<forall>k. Suc k < 16 \<longrightarrow> prefix (due (sched s) (Suc k)) (due (sched s') k)))"

lemma TIMER0_moves: "TIMER0_IRQHandler s = Inr s' \<Longrightarrow> moved s s'"
proof -
  assume "TIMER0_IRQHandler s = Inr s'"
  then obtain ts x sc ts' x' where e: "btphy_timers_execute fire_timer (btphy_cur_clkn (btphy_tick s)) (timers s, btphy_tick s) = Inr (ts, x)"
      and f: "tdma_frame task_call (sched s, ts, x) = Inr (sc, ts', x')" and s': "s' = x'\<lparr>sched := sc, timers := ts'\<rparr>"
    by (auto simp: TIMER0_IRQHandler_def btphy_handler_def Let_def bnd_Inr_iff)
  have "post (btphy_timers_execute fire_timer (btphy_cur_clkn (btphy_tick s)) (timers s, btphy_tick s)) (\<lambda>(ts, x). sized s x)"
    unfolding btphy_timers_execute_def by (rule timers_keep [OF fire_timer_sized]) simp_all
  then have z: "sized s x" using e by (simp add: post_def)
  have "post (tdma_frame task_call (sched s, ts, x)) (\<lambda>(sc', st). fst st = ts \<and> sized s (snd st))"
    by (rule frame_keeps_rest [where P = "\<lambda>st. fst st = ts \<and> sized s (snd st)"], rule task_call_sized) (simp_all add: z)
  then have "ts' = ts" "sized s x'" using f by (auto simp: post_def)
  moreover have "timers_inv (timers s) \<Longrightarrow> timers_inv ts"
    using timers_loop_inv [OF _ _ e [unfolded btphy_timers_execute_def]] by simp
  ultimately show ?thesis using frame_moves [OF task_call_append _ f] by (simp add: moved_def s' sized_def)
qed

section \<open>Requests and events\<close>

lemma pl_timer_add [pl]:
  "(\<And>ts'. (timers_inv ts \<Longrightarrow> timers_inv ts') \<Longrightarrow> Q ts') \<Longrightarrow> post (btphy_timer_add i c an ts) Q"
proof -
  assume Q: "\<And>ts'. (timers_inv ts \<Longrightarrow> timers_inv ts') \<Longrightarrow> Q ts'"
  have "timers_inv ts'" if "timers_inv ts" "btphy_timer_add i c an ts = Inr ts'" for ts'
  proof -
    have "tm_count ts \<le> 10" using that(1) length_filter_le [of "\<lambda>t. tm_cb t \<noteq> None" "tm_timers ts"] by (simp add: timers_inv_def)
    moreover have "tm_count ts \<noteq> 10" using that(2) by (auto simp: btphy_timer_add_def)
    ultimately show ?thesis using timer_add_ok [OF that(1), of i c an] that(2) by auto
  qed
  then show ?thesis using Q by (simp add: post_def)
qed

lemma pl_flush_loop: "kept a s \<Longrightarrow> (\<And>s'. kept a s' \<Longrightarrow> Q s') \<Longrightarrow> post (flush_loop n s) Q"
  by (induction n arbitrary: s) (auto intro!: pl split: option.split)

lemma pl_flush [pl]: "kept a s \<Longrightarrow> (\<And>s'. kept a s' \<Longrightarrow> Q s') \<Longrightarrow> post (btctl_flush_acl_tx_queue s) Q"
  unfolding btctl_flush_acl_tx_queue_def by (rule pl_flush_loop)

lemma pl_set_afh_req [pl]:
  assumes "kept a s" and Q: "\<And>s'. kept a s' \<Longrightarrow> Q s'"
  shows "post (btctl_handle_set_afh_req m s) Q"
  unfolding btctl_handle_set_afh_req_def using assms(1) by (auto intro!: pl Q kept_timers)

lemma pl_request [pl]: "kept a s \<Longrightarrow> (\<And>s'. kept a s' \<Longrightarrow> Q s') \<Longrightarrow> post (btctl_request m s) Q"
  unfolding btctl_request_def request_defs by (auto intro!: pl)

lemma pl_handle_msg [pl]: "kept a s \<Longrightarrow> (\<And>s'. kept a s' \<Longrightarrow> Q s') \<Longrightarrow> post (btctl_handle_msg m s) Q"
  unfolding btctl_handle_msg_def btctl_handle_tx_acl_req_def btctl_handle_set_eir_req_def by (auto intro!: pl split: option.split)

lemma pl_work [pl]: "kept a s \<Longrightarrow> (\<And>x s'. kept a s' \<Longrightarrow> Q (x, s')) \<Longrightarrow> post (btctl_work s) Q"
  unfolding btctl_work_def by (auto intro!: pl split: option.split)

lemma pl_EINT3 [pl]: "kept a s \<Longrightarrow> (\<And>s'. kept a s' \<Longrightarrow> Q s') \<Longrightarrow> post (EINT3_IRQHandler s) Q"
  unfolding EINT3_IRQHandler_def by (auto intro!: pl)

lemma pl_usb [pl]:
  "kept a s \<Longrightarrow> (\<And>s'. kept a s' \<Longrightarrow> Q s') \<Longrightarrow> post (usb_rx_start n s) Q" "kept a s \<Longrightarrow> (\<And>s'. kept a s' \<Longrightarrow> Q s') \<Longrightarrow> post (usb_rx_end msg s) Q"
  "kept a s \<Longrightarrow> (\<And>s'. kept a s' \<Longrightarrow> Q s') \<Longrightarrow> post (usb_tx_start s) Q" "kept a s \<Longrightarrow> (\<And>s'. kept a s' \<Longrightarrow> Q s') \<Longrightarrow> post (usb_tx_end s) Q"
  unfolding usb_rx_start_def usb_rx_end_def usb_tx_start_def usb_tx_end_def by (auto intro!: pl split: option.split)

text \<open>An event is a frame interrupt, or leaves the plan in place.\<close>

lemma step_cases: "fw_step s s' \<Longrightarrow> TIMER0_IRQHandler s = Inr s' \<or> kept s s'"
proof (induction rule: fw_step.induct)
  case (Fifo s s')
  show ?case by (rule disjI2, rule post_Inr [OF pl_EINT3 [OF kept_refl] Fifo])
next
  case (Work s rc s')
  have "(\<lambda>(rc, s'). kept s s') (rc, s')" by (rule post_Inr [OF pl_work [OF kept_refl] Work]) simp
  then show ?case by simp
next
  case (Rx_start n s s')
  show ?case by (rule disjI2, rule post_Inr [OF pl_usb(1) [OF kept_refl] Rx_start])
next
  case (Rx_end msg s s')
  show ?case by (rule disjI2, rule post_Inr [OF pl_usb(2) [OF kept_refl] Rx_end])
next
  case (Tx_start s s')
  show ?case by (rule disjI2, rule post_Inr [OF pl_usb(3) [OF kept_refl] Tx_start])
next
  case (Tx_end s s')
  show ?case by (rule disjI2, rule post_Inr [OF pl_usb(4) [OF kept_refl] Tx_end])
qed (simp_all add: kept_refl)

section \<open>The states the firmware reaches\<close>

definition fit :: "btbr \<Rightarrow> bool" where
  "fit s \<longleftrightarrow> sched_inv (sched s) \<and> timers_inv (timers s) \<and> length (basic_bank (hop s)) = 79 \<and> length (fhs_data (paging_state s)) = 20"

lemma step_fit: "fw_step s s' \<Longrightarrow> fit s \<Longrightarrow> fit s'"
  using step_cases [of s s'] TIMER0_moves [of s s'] by (auto simp: fit_def moved_def sized_def kept_def dest: grows_inv)

lemma reach_fit: "fw_reach s0 s \<Longrightarrow> fit s0 \<Longrightarrow> fit s"
  by (induction rule: fw_reach.induct) (auto intro: step_fit)

text \<open>The static memory before the start: arrays of their declared sizes, no item in the wheel beyond its room.\<close>

definition static_mem :: "btbr \<Rightarrow> bool" where
  "static_mem s \<longleftrightarrow> cold s \<and> sched_inv (sched s) \<and> length (tm_timers (timers s)) = BTPHY_TIMER_COUNT \<and>
     length (basic_bank (hop s)) = 79 \<and> length (fhs_data (paging_state s)) = 20"

lemma timers_reset_ok:
  assumes "length (tm_timers ts) = BTPHY_TIMER_COUNT"
  shows "btphy_timers_reset ts = Inr (ts\<lparr>tm_count := 0, tm_timers := map (\<lambda>t. t\<lparr>tm_cb := None\<rparr>) (tm_timers ts)\<rparr>)"
proof -
  have "n \<le> length tms \<Longrightarrow> loop n (\<lambda>i tms. bnd (rd tms i) (\<lambda>t. wr tms i (t\<lparr>tm_cb := None\<rparr>))) tms =
      Inr (map (\<lambda>t. t\<lparr>tm_cb := None\<rparr>) (take n tms) @ drop n tms)" for n and tms :: "'a btphy_timer list"
  proof (induction n)
    case (Suc n)
    then have "drop n tms = tms ! n # drop (Suc n) tms" by (simp add: Cons_nth_drop_Suc)
    then show ?case using Suc by (simp add: nth_append list_update_append take_Suc_conv_app_nth)
  qed simp
  from this [of BTPHY_TIMER_COUNT "tm_timers ts"] show ?thesis using assms by (simp add: btphy_timers_reset_def)
qed

lemma firmware_init_fit:
  assumes m: "static_mem s" and i: "firmware_init s = Inr s'"
  shows "fit s'"
proof -
  obtain x where b: "btphy_init x = Inr s'"
      and x: "sched x = sched s" "timers x = timers s" "hop x = hop s" "paging_state x = paging_state s"
    using i by (auto simp: firmware_init_def btctl_init_def bnd_Inr_iff)
  have f: "post (btphy_init x) fit"
    if x: "sched_inv (sched x)" "length (tm_timers (timers x)) = 10" "length (basic_bank (hop x)) = 79" "length (fhs_data (paging_state x)) = 20" for x
  proof -
    obtain sc where sc: "tdma_sched_reset (sched x) = Inr sc" "sched_inv sc" using reset_due [OF x(1)] by blast
    let ?x = "tx_task_reset (btphy_rf_init (clkn_start (x\<lparr>sched := sc\<rparr>)))"
    have "timers_inv (ts\<lparr>tm_count := 0, tm_timers := map (\<lambda>t. t\<lparr>tm_cb := None\<rparr>) (tm_timers ts)\<rparr>)"
      if "length (tm_timers ts) = 10" for ts :: "unit btphy_timers"
      using that by (simp add: timers_inv_def filter_empty_conv)
    moreover have rr: "post (rx_task_reset y) (\<lambda>y'. sched y' = sched y \<and> timers y' = timers y \<and> hop y' = hop y \<and> paging_state y' = paging_state y)" for y
      unfolding rx_task_reset_def msg_free_def by (auto intro!: pl split: option.split)
    moreover have "sched ?x = sc" "timers ?x = timers x" "hop ?x = hop x" "paging_state ?x = paging_state x"
      by (simp_all add: tx_task_reset_def btphy_rf_init_def cc2400_set_def clkn_start_def Let_def)
    ultimately show ?thesis unfolding btphy_init_def using sc x
      by (auto simp: Let_def btphy_set_bdaddr_def fit_def timers_reset_ok intro!: post_mono [OF rr])
  qed
  have "post (btphy_init x) fit" by (rule f) (use m x in \<open>simp_all add: static_mem_def\<close>)
  then show ?thesis using b by (simp add: post_def)
qed

lemma reached_fit: "static_mem s0 \<Longrightarrow> firmware_init s0 = Inr s1 \<Longrightarrow> fw_reach s1 s \<Longrightarrow> fit s"
  using firmware_init_fit reach_fit by blast

text \<open>
  C6 (functional).  In every state the firmware reaches, an execution of the frame scheduler runs the tasks that are due in the current
  frame, each once and in ascending order of priority, then those that these tasks have put into the frame, in the order they
  were put there, and no others; then the frame is empty and the other frames hold what the tasks left there.  It stops
  early only when a task itself fails, with that failure: the sorting and the loop never leave their arrays.
\<close>

theorem frame_runs_due:
  assumes "static_mem s0" and "firmware_init s0 = Inr s1" and "fw_reach s1 s"
  shows "\<exists>its. mset its = mset (due (sched s) 0) \<and> sorted_wrt (\<lambda>a b. prio a \<le> prio b) its \<and>
    (\<forall>st. frame_ends task_call its (sched s, st) (tdma_sched_execute task_call (sched s, st)))"
proof -
  have "sched_inv (sched s)" using reached_fit [OF assms] by (simp add: fit_def)
  then show ?thesis by (rule execute_runs_due [OF task_call_append])
qed

section \<open>Planned for later\<close>

text \<open>Any sequence of events from \<open>s\<close> on, with \<open>n\<close> frame interrupts among them.\<close>

inductive frames :: "btbr \<Rightarrow> nat \<Rightarrow> btbr \<Rightarrow> bool" for s where
  Now: "frames s 0 s"
| Tick: "frames s n s1 \<Longrightarrow> TIMER0_IRQHandler s1 = Inr s2 \<Longrightarrow> frames s (Suc n) s2"
| Other: "frames s n s1 \<Longrightarrow> fw_step s1 s2 \<Longrightarrow> TIMER0_IRQHandler s1 \<noteq> Inr s2 \<Longrightarrow> frames s n s2"

lemma frames_due:
  "frames s n s' \<Longrightarrow> sched_inv (sched s) \<Longrightarrow>
    sched_inv (sched s') \<and> (\<forall>k. n + k < 16 \<longrightarrow> prefix (due (sched s) (n + k)) (due (sched s') k))"
proof (induction rule: frames.induct)
  case (Tick n s1 s2)
  then have "moved s1 s2" using TIMER0_moves by blast
  then have m: "sched_inv (sched s2)" "Suc k < 16 \<Longrightarrow> prefix (due (sched s1) (Suc k)) (due (sched s2) k)" for k
    using Tick by (simp_all add: moved_def)
  have "prefix (due (sched s) (Suc n + k)) (due (sched s2) k)" if "Suc n + k < 16" for k
    using Tick.IH [OF Tick.prems] m(2) [of k] that by (auto intro: prefix_order.trans dest!: spec [of _ "Suc k"])
  then show ?case using m(1) by simp
next
  case (Other n s1 s2)
  then have "grows (sched s1) (sched s2)" using step_cases [OF Other.hyps(2)] Other by (simp add: kept_def)
  then show ?case using Other by (auto simp: grows_def intro: prefix_order.trans)
qed simp

text \<open>
  C7 (liveness).  What the firmware plans comes due: a task scheduled \<open>d\<close> frames ahead (at most fifteen) into a frame that is
  not full is due after exactly \<open>d\<close> frame interrupts, after \<open>n\<close> of them \<open>d - n\<close> frames ahead, behind the tasks that were planned for
  that frame before and in front of all planned later; whatever tasks run in between, and whatever the host, the radio and the USB do.
\<close>

theorem planned_comes_due:
  assumes "static_mem s0" and "firmware_init s0 = Inr s1" and "fw_reach s1 s"
    and "schedule delay t pr s = Inr s'" and "unat (ucast delay :: u8) = d" and "d < TDMASCHED_NUM_FRAMES"
    and "length (due (sched s) d) < TDMASCHED_NUM_CB" and "frames s' n s''" and "n \<le> d"
  shows "\<exists>it. cb it = Cb t \<and> prio it = pr \<and> prefix (due (sched s) d @ [it]) (due (sched s'') (d - n))"
proof -
  have inv: "sched_inv (sched s)" using reached_fit [OF assms(1-3)] by (simp add: fit_def)
  have "length (due (sched s) (unat (ucast delay :: u8))) \<noteq> 4" using assms(5,7) by simp
  then obtain sc it where sc: "tdma_schedule (ucast delay) (Cb t) 0 0 0 pr (sched s) = Inr (0, sc)" "sched_inv sc"
      and it: "cb it = Cb t" "prio it = pr" and du: "\<And>j. due sc j = (if j mod 16 = d mod 16 then due (sched s) j @ [it] else due (sched s) j)"
    using tdma_schedule_room [OF inv, of "ucast delay" "Cb t" 0 0 0 pr] assms(5) by metis
  then have s': "sched s' = sc" using assms(4) by (auto simp: schedule_def)
  have d: "n + (d - n) = d" using assms(9) by simp
  have "\<forall>k. n + k < 16 \<longrightarrow> prefix (due (sched s') (n + k)) (due (sched s'') k)" using frames_due [OF assms(8)] sc(2) s' by simp
  then have "prefix (due sc d) (due (sched s'') (d - n))" using assms(6) d s' by metis
  then show ?thesis using it du [of d] by (intro exI [of _ it]) simp
qed

end
