(* ===== verification/Behaviour.thy ===== *)
theory Behaviour
  imports Planning
begin

text \<open>
  Behaviour of the firmware as a whole: the state right after the start, the slots master and slave use, requests
  in the wrong state, the adaptive hopping request, a reception that leaves the firmware without work, and a
  transmission that leaves a count behind.
\<close>

section \<open>The zeroed memory\<close>

definition hdr_zero :: bbhdr where
  "hdr_zero = \<lparr>lt_addr = 0, btype = 0, flags = 0, hec = 0\<rparr>"

definition ll_zero :: link_layer where
  "ll_zero = \<lparr>ll_connected = 0, ll_master = 0, clkn_start = 0, clkn_last_rx = 0, rx_count = 0, ll_lt_addr = 0,
     rmt_seqn = 0, loc_seqn = 0, loc_arqn = 0, ll_tx_hdr = hdr_zero, cur_tx_msg = None\<rparr>"

definition codec_zero :: bbcodec where
  "codec_zero = (bbcodec_init 0 0 False False)"

definition fhs_zero :: fhs_st where
  "fhs_zero = \<lparr>fh_clkn_start = 0, fhs_hdr = hdr_zero, fhs_data = replicate 20 0\<rparr>"

definition page_scan_zero :: page_scan_st where
  "page_scan_zero = \<lparr>ps_fhs_info = \<lparr>bdaddr = 0, clk27_2 = 0, fhs_lt_addr = 0\<rparr>, ps_clkn_start = 0\<rparr>"

definition hw_zero :: hw where
  "hw_zero = \<lparr>clkn_offset = [], gio6 = [], dma_offset = [], fsm_rx = [], fs_tuned = [], dma_air = [],
     leftover = replicate 344 0, mosi = [], fifo_int = False\<rparr>"

definition timer_free :: "unit btphy_timer" where
  "timer_free = \<lparr>tm_instant = 0, tm_cb = None, tm_anyway = False\<rparr>"

definition btbr_zero :: btbr where
  "btbr_zero = \<lparr>pool = \<lparr>pool_init = False, pool_li = None, el_li = replicate 16 None\<rparr>,
     bufs = replicate 16 \<lparr>m_type = 0, m_len = 0, m_body = No_body\<rparr>, bt_state = BTCTL_STATE_STANDBY,
     rx_q = queue_zero, tx_q = queue_zero, acl_tx_q = queue_zero, eir_msg = None, phy = phy_zero, hop = hop_zero,
     cc2400 = (\<lambda>_. 0), freq_off_reg = 0, max_ac_errors = 0, t0mr0 = 0, t1tc = 0,
     sched = sched_zero, timers = \<lparr>tm_count = 0, tm_timers = replicate 10 timer_free\<rparr>, afh_buf = replicate 11 0,
     rx_task = \<lparr>rx_pkt_cb = None, rx_msg = None, rx_codec = codec_zero, do_rx_payload = False, rx_dma_buf = replicate 528 0,
       rx_pkt_time = 0, rx_offset = 0, rx_done = False, slot_num = 0, rx_raw_flag = False\<rparr>,
     tx_task = \<lparr>tx_cb = None, tx_user = None, tx_codec = codec_zero, tx_data_size = 0, air_data = replicate 524 0, tx_p = None\<rparr>,
     scan_task = \<lparr>sc_cb = None, sc_pkt_time = 0, sc_pkt_received = False, sc_num_slots = 0\<rparr>,
     inquiry_state = \<lparr>inq_clkn_start = 0\<rparr>, inquiry_scan_state = fhs_zero, paging_state = fhs_zero,
     page_scan_state = page_scan_zero, monitor1_state = page_scan_zero, monitor2_bdaddr = 0, master_ll = ll_zero,
     slave_state = \<lparr>sl_master_bdaddr = 0, sl_lt_addr = 0, sl_ll = ll_zero\<rparr>, usb_tx_msg = None, usb_rx_msg = None, hardware = hw_zero\<rparr>"

lemma btbr_zero_cold: "cold btbr_zero"
  by (simp add: cold_def btbr_zero_def held_def ll_zero_def queue_zero_def)

lemma btbr_zero_static: "static_mem btbr_zero"
  using btbr_zero_cold sched_zero_inv(1) by (simp add: static_mem_def btbr_zero_def fhs_zero_def hop_zero_def)

text \<open>The start succeeds from zeroed memory; the state it leaves.\<close>

definition started :: "btbr \<Rightarrow> bool" where
  "started s \<longleftrightarrow> sched_inv (sched s) \<and> (\<forall>k. due (sched s) k = []) \<and> timers_inv (timers s) \<and> tm_count (timers s) = 0 \<and>
     bt_state s = BTCTL_STATE_STANDBY \<and> hop_mem (hop s) \<and> length (afh_buf s) = 11 \<and> length (bufs s) = 16 \<and>
     rx_msg (rx_task s) = None \<and> tx_user (tx_task s) = None \<and> length (fhs_data (paging_state s)) = 20 \<and>
     pool_inv (pool s) \<and> free_list (pool s) = [0..<16] \<and> usb_rx_msg s = None"

lemma start_ok: "\<exists>s. firmware_init btbr_zero = Inr s \<and> started s"
proof -
  obtain p where p: "mem_pool_init (pool btbr_zero) = Inr p" "pool_inv p" "free_list p = [0..<16]"
    using mem_pool_init_ok [of "pool btbr_zero"] by (auto simp: btbr_zero_def)
  obtain sc where sc: "tdma_sched_reset (sched btbr_zero) = Inr sc" "sched_inv sc" "\<forall>k. due sc k = []"
    using reset_due [OF sched_zero_inv(1)] unfolding sched_zero_inv(2) by (auto simp: btbr_zero_def)
  have z: "hop btbr_zero = hop_zero" "length (afh_buf btbr_zero) = 11" "length (bufs btbr_zero) = 16" "rx_msg (rx_task btbr_zero) = None"
      "length (fhs_data (paging_state btbr_zero)) = 20" "length (tm_timers (timers btbr_zero)) = 10" "usb_rx_msg btbr_zero = None"
      "\<forall>t \<in> set (tm_timers (timers btbr_zero)). tm_cb t = None"
    by (simp_all add: btbr_zero_def fhs_zero_def timer_free_def)
  have t: "timers_inv (timers btbr_zero\<lparr>tm_count := 0, tm_timers := map (\<lambda>t. t\<lparr>tm_cb := None\<rparr>) (tm_timers (timers btbr_zero))\<rparr>)"
    using z(6) by (simp add: timers_inv_def filter_empty_conv)
  have tr: "btphy_timers_reset (timers btbr_zero) =
      Inr (timers btbr_zero\<lparr>tm_count := 0, tm_timers := map (\<lambda>t. t\<lparr>tm_cb := None\<rparr>) (tm_timers (timers btbr_zero))\<rparr>)"
    by (rule timers_reset_ok) (simp add: z)
  show ?thesis
    unfolding firmware_init_def btctl_init_def p(1) btphy_init_def
    using sc t z p(2,3) by (simp add: tr Let_def rx_task_reset_def started_def tx_task_reset_def btphy_rf_init_def cc2400_set_def clkn_start_def
        btphy_set_bdaddr_def hop_zero_mem)
qed

theorem buffers_one_owner_witness:
  "\<exists>s0 s. firmware_init btbr_zero = Inr s0 \<and> fw_reach s0 s \<and> usb_rx_msg s = Some 0 \<and>
    distinct (held s @ mq_list (rx_q s) @ mq_list (tx_q s) @ mq_list (acl_tx_q s) @ opt_list (eir_msg s) @ free_list (pool s))"
proof -
  obtain s0 where s0: "firmware_init btbr_zero = Inr s0" "started s0" using start_ok by blast
  have u: "usb_rx_msg s0 = None" and inv: "pool_inv (pool s0)" and f: "free_list (pool s0) = 0 # [1..<16]"
    using s0(2) by (simp_all add: started_def upt_conv_Cons)
  obtain p where "mem_pool_alloc (12 + unat (8 :: u16)) (pool s0) = Inr (0, p)"
    using pool_alloc_cons [OF inv f, of "12 + 8"] by (auto simp: BUF_SIZE_def)
  then have "usb_rx_start 8 s0 = Inr (s0\<lparr>pool := p, usb_rx_msg := Some 0\<rparr>)" by (simp add: usb_rx_start_def u)
  then have "fw_step s0 (s0\<lparr>pool := p, usb_rx_msg := Some 0\<rparr>)" by (rule Rx_start)
  then have r: "fw_reach s0 (s0\<lparr>pool := p, usb_rx_msg := Some 0\<rparr>)" by (rule Step [OF Start])
  have "usb_rx_msg (s0\<lparr>pool := p, usb_rx_msg := Some 0\<rparr>) = Some 0" by simp
  then show ?thesis using buffers_one_owner [OF btbr_zero_cold s0(1) r] s0(1) r by blast
qed


section \<open>Slots\<close>

lemma schedule_set_push:
  assumes inv: "sched_inv s" and n: "n = (cur_bucket s + k) mod 16" and room: "length (due s k) < 4" and c: "cb it = Cb c"
  shows "schedule_set_loop (it # is) off n j q3 s = schedule_set_loop is off n j q3 (push_item n (it\<lparr>p3 := q3\<rparr>) s)"
proof -
  let ?b = "bucket s ! n"
  have b: "bucket_ok ?b" "num_items ?b < 4" using sched_bucket [OF inv, of n] room length_due [OF inv, of k] n by simp_all
  have "n < length (bucket s)" using inv n by (simp add: sched_inv_def)
  then show ?thesis using b by (simp add: c push_item_def bucket_ok_def)
qed

lemma wrap_succ: "unat off < 255 \<Longrightarrow> wrap_bucket (off + 1) s = (cur_bucket s + Suc (unat off)) mod 16"
proof -
  assume "unat off < 255"
  then have "unat (off + 1) = Suc (unat off)" by (simp add: unat_word_ariths unatSuc)
  then show ?thesis by (simp add: wrap_bucket_def)
qed

lemma schedule_set_two:
  assumes inv: "sched_inv s" and off: "unat off < 15" and room: "\<forall>k. length (due s k) < 4"
  shows "\<exists>s'. tdma_schedule_set off (sched_set P E) 0 s = Inr (2, s') \<and>
    (\<forall>j < 16. due s' j = due s j @ (if j = unat off then [\<lparr>cb = Cb P, p1 = 0, p2 = 0, p3 = 0, prio = 0, item_flags = 0\<rparr>] else []) @
      (if j = unat off + 1 then [\<lparr>cb = Cb E, p1 = 0, p2 = 0, p3 = 0, prio = - 3, item_flags = 0\<rparr>] else []))"
proof -
  define ip :: "task sched_item" where "ip = \<lparr>cb = Cb P, p1 = 0, p2 = 0, p3 = 0, prio = 0, item_flags = 0\<rparr>"
  define ie :: "task sched_item" where "ie = \<lparr>cb = Cb E, p1 = 0, p2 = 0, p3 = 0, prio = - 3, item_flags = 0\<rparr>"
  let ?k = "unat off"
  let ?n = "(cur_bucket s + ?k) mod 16" and ?m = "(cur_bucket s + Suc ?k) mod 16"
  let ?s1 = "push_item ?n ip s"
  note d1 = push_item_due [OF inv refl, of ?k ip]
  have r1: "length (due s ?k) < 4" using room by simp
  have i1: "sched_inv ?s1" and c1: "cur_bucket ?s1 = cur_bucket s" and du1: "\<And>j. due ?s1 j = (if j mod 16 = ?k mod 16 then due s j @ [ip] else due s j)"
    using d1 r1 by simp_all
  have "Suc ?k mod 16 \<noteq> ?k mod 16" using off by simp
  then have r2: "length (due ?s1 (Suc ?k)) < 4" using room by (simp add: du1)
  have m: "?m = (cur_bucket ?s1 + Suc ?k) mod 16" by (simp add: c1)
  let ?s2 = "push_item ?m ie ?s1"
  have du2: "\<And>j. due ?s2 j = (if j mod 16 = Suc ?k mod 16 then due ?s1 j @ [ie] else due ?s1 j)"
    by (rule push_item_due(3) [OF i1 m r2])
  have pe: "ip\<lparr>p3 := 0\<rparr> = ip" "ie\<lparr>p3 := 0\<rparr> = ie" "cb ip = Cb P" "cb ie = Cb E" by (simp_all add: ip_def ie_def)
  have "tdma_schedule_set off (sched_set P E) 0 s = Inr (2, ?s2)"
  proof -
    have set_eq: "sched_set P E = ip # \<lparr>cb = Cb_null, p1 = 0, p2 = 0, p3 = 0, prio = 0, item_flags = 0\<rparr> # ie #
        \<lparr>cb = Cb_null, p1 = 0, p2 = 0, p3 = 0, prio = 0, item_flags = 0\<rparr> # [\<lparr>cb = Cb_end_set, p1 = 0, p2 = 0, p3 = 0, prio = 0, item_flags = 0\<rparr>]"
      by (simp add: sched_set_def ip_def ie_def)
    have w: "wrap_bucket off s = ?n" "wrap_bucket (off + 1) ?s1 = ?m"
      using wrap_succ [of off ?s1] off c1 by (simp_all add: wrap_bucket_def)
    show ?thesis unfolding tdma_schedule_set_def set_eq w
      using schedule_set_push [OF inv refl r1 pe(3)] schedule_set_push [OF i1 m r2 pe(4)] by (simp add: pe w)
  qed
  moreover have "\<forall>j < 16. due ?s2 j = due s j @ (if j = ?k then [ip] else []) @ (if j = ?k + 1 then [ie] else [])"
    unfolding du2 du1 using off by auto
  ultimately show ?thesis unfolding ip_def ie_def by blast
qed

section \<open>Which slot a packet falls into\<close>

text \<open>\<open>t\<close> is planned for a frame in which the clock, now \<open>clk\<close>, has the slot number \<open>slot\<close>, \<open>prep\<close> for the frame before, and
  nothing else.\<close>

definition planned :: "task \<Rightarrow> task \<Rightarrow> u32 \<Rightarrow> u32 \<Rightarrow> btbr \<Rightarrow> btbr \<Rightarrow> bool" where
  "planned prep t clk slot s s' \<longleftrightarrow>
     (\<exists>d it ip. d + 1 < TDMASCHED_NUM_FRAMES \<and> due (sched s') d = due (sched s) d @ [ip] \<and> cb ip = Cb prep \<and>
        due (sched s') (d + 1) = due (sched s) (d + 1) @ [it] \<and> cb it = Cb t \<and> (clk + of_nat (d + 1)) AND 3 = slot \<and>
        (\<forall>j < TDMASCHED_NUM_FRAMES. j \<noteq> d \<and> j \<noteq> d + 1 \<longrightarrow> due (sched s') j = due (sched s) j))"

lemma schedule_items_planned:
  assumes "sched_inv (sched s)" and "\<forall>k. length (due (sched s) k) < 4" and "unat (ucast delay :: u8) < 15"
    and "schedule_items delay (sched_set P E) s = Inr s'" and "(clk + (delay + 1)) AND 3 = slot" and "unat delay < 15"
  shows "planned P E clk slot s s'"
proof -
  let ?o = "ucast delay :: u8"
  obtain sc where sc: "tdma_schedule_set ?o (sched_set P E) 0 (sched s) = Inr (2, sc)"
      and d: "\<forall>j < 16. due sc j = due (sched s) j @ (if j = unat ?o then [\<lparr>cb = Cb P, p1 = 0, p2 = 0, p3 = 0, prio = 0, item_flags = 0\<rparr>] else []) @
        (if j = unat ?o + 1 then [\<lparr>cb = Cb E, p1 = 0, p2 = 0, p3 = 0, prio = - 3, item_flags = 0\<rparr>] else [])"
    using schedule_set_two [OF assms(1) assms(3) assms(2)] by blast
  have s': "sched s' = sc" using assms(4) sc by (simp add: schedule_items_def) (auto)
  have u: "unat ?o = unat delay" using assms(6) by (simp add: unsigned_ucast_eq unsigned_take_bit_eq take_bit_eq_mod)
  have "(clk + of_nat (unat delay + 1)) AND 3 = slot" using assms(5) by (simp add: add.commute)
  then show ?thesis unfolding planned_def s' using d assms(3) u
    by (intro exI [of _ "unat delay"] exI [of _ "\<lparr>cb = Cb E, p1 = 0, p2 = 0, p3 = 0, prio = - 3, item_flags = 0\<rparr>"]
        exI [of _ "\<lparr>cb = Cb P, p1 = 0, p2 = 0, p3 = 0, prio = 0, item_flags = 0\<rparr>"]) simp
qed

text \<open>The wait until a slot of the frame: the sum reaches it whatever the clock is.\<close>

lemma times4: "(4 :: u32) * x = push_bit 2 x" by (simp add: push_bit_eq_mult)

lemma unat_take2: "unat (take_bit 2 (c :: u32)) = unat c mod 4"
  by (simp only: unsigned_take_bit_eq) (simp add: take_bit_eq_mod)

lemma and3_4: "((4 :: u32) * x + y) AND 3 = y AND 3"
proof -
  have "unat (4 * x + y) mod 4 = unat y mod 4"
  proof -
    have "unat (4 * x + y) mod 4 = (unat (4 :: u32) * unat x + unat y) mod 2 ^ 32 mod 4" by (simp add: unat_word_ariths mod_simps)
    also have "\<dots> = (4 * unat x + unat y) mod 4" by (simp add: mod_mod_cancel)
    finally show ?thesis by simp
  qed
  then show ?thesis unfolding and_masks word_unat_eq_iff unat_take2 .
qed

lemma take2_cases: "take_bit 2 (c :: u32) \<in> {0, 1, 2, 3}"
proof -
  have "unat c mod 4 \<in> {0, 1, 2, 3}" by auto
  then have "unat (take_bit 2 c) \<in> {unat (0::u32), unat (1::u32), unat (2::u32), unat (3::u32)}" unfolding unat_take2 by simp
  then show ?thesis by (auto simp only: word_unat_eq_iff insert_iff empty_iff)
qed

lemma split4: "\<exists>q r. (c :: u32) = 4 * q + r \<and> r \<in> {0, 1, 2, 3}"
proof (intro exI conjI)
  show "c = 4 * drop_bit 2 c + take_bit 2 c" unfolding times4 by (simp add: bits_ident)
  show "take_bit 2 c \<in> {0, 1, 2, 3}" by (rule take2_cases)
qed

lemma wait_slot0: "r \<in> {0, 1, 2, 3 :: u32} \<Longrightarrow> idx \<in> {1, 3 :: u32} \<Longrightarrow> (r + (3 AND (idx - (r AND 3))) + 1) AND 3 = (idx + 1) AND 3"
  by (elim insertE emptyE) simp_all

lemma wait_slot:
  fixes c k idx :: u32
  assumes "idx \<in> {1, 3}"
  shows "(c + (4 * k + (3 AND (idx - (c AND 3))) + 1)) AND 3 = (idx + 1) AND 3"
proof -
  obtain q r where c: "c = 4 * q + r" "r \<in> {0, 1, 2, 3}" using split4 by blast
  have a: "c AND 3 = r AND 3" unfolding c(1) and3_4 ..
  have e: "c + (4 * k + x + 1) = 4 * (q + k) + (r + x + 1)" for x unfolding c(1) by (simp add: algebra_simps)
  show ?thesis unfolding a e and3_4 by (rule wait_slot0 [OF c(2) assms])
qed

lemma wait_small: "unat k < 3 \<Longrightarrow> unat (4 * k + (3 AND x) :: u32) < 12"
proof -
  assume k: "unat k < 3"
  have "unat (3 AND x) < 4" unfolding and_masks unat_take2 by simp
  moreover have "unat (4 * k) = 4 * unat k" using k by (simp add: unat_word_ariths)
  ultimately show ?thesis using k by (simp add: unat_word_ariths)
qed

lemma ll_prepare_tx_keeps:
  fixes s :: btbr
  assumes "ll_prepare_tx ll s = Inr (src, ll', s')"
  shows "sched s' = sched s \<and> phy s' = phy s \<and> tx_task s' = tx_task s"
proof -
  obtain l1 s1 where d: "ll_tx_dequeue ll s = Inr (l1, s1)"
      and r: "(case cur_tx_msg l1 of
        None \<Rightarrow> let h = (ll_tx_hdr l1)\<lparr>lt_addr := ll_lt_addr l1, btype := (if ll_master l1 \<noteq> 0 then BB_TYPE_POLL else BB_TYPE_NULL)\<rparr> in
          Inr (Src_own, l1\<lparr>ll_tx_hdr := h\<lparr>flags := ll_tx_flags l1\<rparr>, loc_arqn := 0\<rparr>, s1)
      | Some m \<Rightarrow> bnd (rd (bufs s1) m) (\<lambda>msg. if m_type msg \<noteq> BTCTL_TX_ACL_REQ then Inl Die
          else bnd (as_tx msg) (\<lambda>pkt. let pkt = pkt\<lparr>tx_hdr := (tx_hdr pkt)\<lparr>flags := ll_tx_flags l1\<rparr>\<rparr> in
            bnd (wr (bufs s1) m (msg\<lparr>m_body := Tx_body pkt\<rparr>)) (\<lambda>bs. Inr (Src_msg m, l1\<lparr>loc_arqn := 0\<rparr>, s1\<lparr>bufs := bs\<rparr>))))) =
        Inr (src, ll', s')"
    using assms unfolding ll_prepare_tx_def by (elim bnd_InrE) (auto simp del: Let_def)
  have "sched s1 = sched s \<and> phy s1 = phy s \<and> tx_task s1 = tx_task s"
    using d by (auto simp: ll_tx_dequeue_def btctl_acl_tx_dequeue_def bnd_Inr_iff split: if_splits)
  moreover have "sched s' = sched s1 \<and> phy s' = phy s1 \<and> tx_task s' = tx_task s1"
    using r by (cases "cur_tx_msg l1") (auto simp: Let_def bnd_Inr_iff split: if_splits)
  ultimately show ?thesis by simp
qed

definition roomy :: "btbr \<Rightarrow> bool" where
  "roomy s \<longleftrightarrow> sched_inv (sched s) \<and> (\<forall>k. length (due (sched s) k) < 4)"

lemma schedule_items_slot:
  assumes "roomy s" and "unat k < 3" and "idx \<in> {1, 3}" and "delay = 4 * k + (3 AND (idx - (clk AND 3)))"
    and "schedule_items delay (sched_set P E) s = Inr s'"
  shows "planned P E clk ((idx + 1) AND 3) s s'"
proof -
  have u: "unat delay < 12" unfolding assms(4) by (rule wait_small [OF assms(2)])
  then have v: "unat (ucast delay :: u8) < 15" by (simp add: unsigned_ucast_eq unsigned_take_bit_eq take_bit_eq_mod)
  have w: "(clk + (delay + 1)) AND 3 = (idx + 1) AND 3" unfolding assms(4) by (rule wait_slot [OF assms(3)])
  show ?thesis
    by (rule schedule_items_planned [OF _ _ v assms(5) w]) (use assms(1) u in \<open>simp_all add: roomy_def\<close>)
qed

lemma rx_task_slot:
  assumes "roomy s" and "unat k < 3" and "idx \<in> {1, 3}" and "rx_task_schedule (4 * k + (3 AND (idx - (clk AND 3)))) c fl s = Inr s'"
  shows "planned Rx_prepare Rx_execute clk ((idx + 1) AND 3) s s'"
proof -
  obtain t where "schedule_items (4 * k + (3 AND (idx - (clk AND 3)))) (sched_set Rx_prepare Rx_execute) (s\<lparr>rx_task := t\<rparr>) = Inr s'"
    using assms(4) by (auto simp: rx_task_schedule_def rx_sched_set_def split: if_splits)
  from schedule_items_slot [OF _ assms(2,3) refl this] assms(1) show ?thesis by (simp add: roomy_def planned_def)
qed

lemma tx_task_slot:
  assumes "roomy s" and "unat k < 3" and "idx \<in> {1, 3}" and "tx_task_schedule (4 * k + (3 AND (idx - (clk AND 3)))) c p s = Inr s'"
  shows "planned Tx_prepare Tx_execute clk ((idx + 1) AND 3) s s'"
proof -
  obtain t where "schedule_items (4 * k + (3 AND (idx - (clk AND 3)))) (sched_set Tx_prepare Tx_execute) (s\<lparr>tx_task := t\<rparr>) = Inr s'"
    using assms(4) by (auto simp: tx_task_schedule_def tx_sched_set_def split: if_splits)
  from schedule_items_slot [OF _ assms(2,3) refl this] assms(1) show ?thesis by (simp add: roomy_def planned_def)
qed

lemma wait_slots: "((1 :: u32) + 1) AND 3 = 2" "((3 :: u32) + 1) AND 3 = 0" by simp_all

lemma master_rx_slot:
  "roomy s \<Longrightarrow> unat k < 3 \<Longrightarrow> master_state_schedule_rx k s = Inr s' \<Longrightarrow> planned Rx_prepare Rx_execute (master_clkn (phy s)) 2 s s'"
  using rx_task_slot [of s k 1 "master_clkn (phy s)" Master_rx_cb 1 s'] by (simp add: master_state_schedule_rx_def master_wait_def)

lemma slave_rx_slot:
  "roomy s \<Longrightarrow> unat k < 3 \<Longrightarrow> slave_state_schedule_rx k s = Inr s' \<Longrightarrow> planned Rx_prepare Rx_execute (slave_clkn (phy s)) 0 s s'"
  using rx_task_slot [of s k 3 "slave_clkn (phy s)" Slave_rx_cb 1 s'] by (simp add: slave_state_schedule_rx_def slave_wait_def)

lemma master_tx_slot:
  assumes "roomy s" and "unat k < 3" and "master_state_schedule_tx k s = Inr s'"
  shows "planned Tx_prepare Tx_execute (master_clkn (phy s)) 0 s s'"
proof -
  let ?d = "4 * k + (3 AND (3 - (master_clkn (phy s) AND 3)))"
  obtain src ll s1 c p where l: "ll_prepare_tx (master_ll s) s = Inr (src, ll, s1)"
      and t: "tx_task_schedule ?d c p (s1\<lparr>master_ll := ll\<rparr>) = Inr s'"
    using assms(3) by (auto simp: master_state_schedule_tx_def master_wait_def Let_def bnd_Inr_iff mult.commute)
  from tx_task_slot [OF _ assms(2) _ t] ll_prepare_tx_keeps [OF l] assms(1) show ?thesis by (simp add: roomy_def planned_def)
qed

lemma slave_tx_slot:
  assumes "roomy s" and "unat k < 3" and "slave_state_schedule_tx k s = Inr s'"
  shows "planned Tx_prepare Tx_execute (slave_clkn (phy s)) 2 s s'"
proof -
  let ?d = "4 * k + (3 AND (1 - (slave_clkn (phy s) AND 3)))"
  obtain src ll s1 c p where l: "ll_prepare_tx (sl_ll (slave_state s)) s = Inr (src, ll, s1)"
      and t: "tx_task_schedule ?d c p (set_slave_ll ll s1) = Inr s'"
    using assms(3) by (auto simp: slave_state_schedule_tx_def slave_wait_def Let_def bnd_Inr_iff)
  from tx_task_slot [OF _ assms(2) _ t] ll_prepare_tx_keeps [OF l] assms(1) show ?thesis by (simp add: roomy_def planned_def set_slave_ll_def)
qed

text \<open>
  C4 (safety).  Master and slave never plan for the same half of a frame: from any clock value and with room in the
  scheduler, the master transmits when its clock has the slot number 0 and listens when it has 2, the slave listens at 0
  and transmits at 2 of its clock.  The preparation is planned for the frame before, and no other frame changes.
\<close>

theorem slots_alternate:
  assumes "roomy s" and "unat k < 3"
  shows "(master_state_schedule_tx k s = Inr s' \<longrightarrow> planned Tx_prepare Tx_execute (master_clkn (phy s)) 0 s s') \<and>
    (master_state_schedule_rx k s = Inr s' \<longrightarrow> planned Rx_prepare Rx_execute (master_clkn (phy s)) 2 s s') \<and>
    (slave_state_schedule_rx k s = Inr s' \<longrightarrow> planned Rx_prepare Rx_execute (slave_clkn (phy s)) 0 s s') \<and>
    (slave_state_schedule_tx k s = Inr s' \<longrightarrow> planned Tx_prepare Tx_execute (slave_clkn (phy s)) 2 s s')"
  using master_tx_slot [OF assms] master_rx_slot [OF assms] slave_rx_slot [OF assms] slave_tx_slot [OF assms] by blast

lemma started_roomy: "started s \<Longrightarrow> roomy s" by (simp add: started_def roomy_def)

lemma started_rx: "started s \<Longrightarrow> unat (ucast d :: u8) < 15 \<Longrightarrow> \<exists>s'. rx_task_schedule d c fl s = Inr s'"
  using schedule_set_two [of "sched s" "ucast d" Rx_prepare Rx_execute]
  by (auto simp: started_def rx_task_schedule_def rx_sched_set_def schedule_items_def)

theorem slots_alternate_witness:
  "\<exists>s s1 s2. firmware_init btbr_zero = Inr s \<and> master_state_schedule_rx 1 s = Inr s1 \<and> slave_state_schedule_rx 1 s = Inr s2 \<and>
    planned Rx_prepare Rx_execute (master_clkn (phy s)) 2 s s1 \<and> planned Rx_prepare Rx_execute (slave_clkn (phy s)) 0 s s2"
proof -
  obtain s where s: "firmware_init btbr_zero = Inr s" "started s" using start_ok by blast
  have w: "unat (4 * 1 + (3 AND x) :: u32) < 15" for x using wait_small [of 1 x] by simp
  have u: "unat (ucast (4 * 1 + (3 AND x) :: u32) :: u8) < 15" for x
    using w [of x] by (simp add: unsigned_ucast_eq unsigned_take_bit_eq take_bit_eq_mod)
  obtain s1 where s1: "master_state_schedule_rx 1 s = Inr s1"
    using started_rx [OF s(2) u] unfolding master_state_schedule_rx_def master_wait_def by blast
  obtain s2 where s2: "slave_state_schedule_rx 1 s = Inr s2"
    using started_rx [OF s(2) u] unfolding slave_state_schedule_rx_def slave_wait_def by blast
  have k: "unat (1 :: u32) < 3" by simp
  show ?thesis
    using slots_alternate [OF started_roomy [OF s(2)] k, of s1] slots_alternate [OF started_roomy [OF s(2)] k, of s2] s(1) s1 s2 by blast
qed

section \<open>The decoding loop\<close>

lemma unwhiten_at_air: "unwhiten_at codec out pos n = Inr (c, out') \<Longrightarrow> air_off_b c = air_off_b codec"
  by (auto simp: unwhiten_at_def bnd_Inr_iff split: if_splits)

lemma if_Inl_InrE:
  assumes "(if P then Inl e else r) = Inr y"
  obtains "\<not> P" and "r = Inr y"
  using assms by (cases P) simp_all

lemma calc_length_air: "bbcodec_calc_payload_length codec p = Inr c \<Longrightarrow> air_off_b c = air_off_b codec"
  unfolding bbcodec_calc_payload_length_def Let_def
  by (elim bnd_InrE if_Inl_InrE) (drule sym [of "Inr _"], simp)

lemma update_crc_air: "bbcodec_decode_update_crc codec d = Inr c \<Longrightarrow> air_off_b c = air_off_b codec"
  by (auto simp: bbcodec_decode_update_crc_def Let_def bnd_Inr_iff split: if_splits)

lemma decode_chunk_body_advances:
  assumes "decode_chunk_body codec t n w out inp = Inr (rc, codec', out')"
  shows "air_off_b codec' = air_off_b codec + w"
proof -
  from assms [unfolded decode_chunk_body_def Let_def] obtain o2 r
    where r: "unwhiten_at codec o2 (coded_pos codec) n = Inr r" and
      k: "(case r of (c2, out) \<Rightarrow> bnd (if coded_pos codec = 0
            then bbcodec_calc_payload_length (c2\<lparr>air_off_b := air_off_b c2 + w, coded_pos := coded_pos c2 + n\<rparr>) (Some out)
            else Inr (c2\<lparr>air_off_b := air_off_b c2 + w, coded_pos := coded_pos c2 + n\<rparr>)) (\<lambda>c3.
          bnd (if \<not> rx_raw c3 \<and> has_crc t then bbcodec_decode_update_crc c3 out else Inr c3) (\<lambda>c4.
          Inr (if coded_pos c4 \<ge> coded_total c4 then Bbcodec_done else Bbcodec_more, c4, out)))) = Inr (rc, codec', out')"
    by (elim bnd_InrE)
  obtain c2 o3 where c2: "r = (c2, o3)" by fastforce
  from k [unfolded c2 prod.case] obtain c3
    where c3: "(if coded_pos codec = 0
            then bbcodec_calc_payload_length (c2\<lparr>air_off_b := air_off_b c2 + w, coded_pos := coded_pos c2 + n\<rparr>) (Some o3)
            else Inr (c2\<lparr>air_off_b := air_off_b c2 + w, coded_pos := coded_pos c2 + n\<rparr>)) = Inr c3"
      and c4: "(if \<not> rx_raw c3 \<and> has_crc t then bbcodec_decode_update_crc c3 o3 else Inr c3) = Inr codec'"
    by (elim bnd_InrE) simp
  have "air_off_b c2 = air_off_b codec" using r unfolding c2 by (rule unwhiten_at_air)
  moreover have "air_off_b c3 = air_off_b c2 + w" using c3 by (auto dest: calc_length_air split: if_splits)
  moreover have "air_off_b codec' = air_off_b c3" using c4 by (auto dest: update_crc_air split: if_splits)
  ultimately show ?thesis by simp
qed

lemma decode_chunk_advances:
  assumes "bbcodec_decode_chunk codec out inp sz = Inr (Bbcodec_more, codec', out')"
  shows "air_off_b codec + 8 \<le> air_off_b codec' \<and> air_off_b codec' \<le> 8 * sz"
  using assms unfolding bbcodec_decode_chunk_def Let_def
  by (elim bnd_InrE) (auto dest!: decode_chunk_body_advances split: if_splits)

lemma rx_decode_chunk_advances:
  assumes "rx_decode_chunk sz s = Inr (Bbcodec_more, s')"
  shows "air_off_b (rx_codec (rx_task s)) + 8 \<le> air_off_b (rx_codec (rx_task s')) \<and> air_off_b (rx_codec (rx_task s')) \<le> 8 * sz"
proof -
  obtain pkt :: rx_pkt and codec out where d: "bbcodec_decode_chunk (rx_codec (rx_task s)) (rx_data pkt) (drop 4 (rx_dma_buf (rx_task s))) sz = Inr (Bbcodec_more, codec, out)"
      and u: "upd_rx_pkt (\<lambda>pkt. pkt\<lparr>rx_data := out\<rparr>) (upd_rx (\<lambda>r. r\<lparr>rx_codec := codec\<rparr>) s) = Inr s'"
    using assms unfolding rx_decode_chunk_def by (auto simp: bnd_Inr_iff intro: that)
  have "rx_task s' = rx_task (upd_rx (\<lambda>r. r\<lparr>rx_codec := codec\<rparr>) s)" using u by (auto simp: upd_rx_pkt_def bnd_Inr_iff)
  then show ?thesis using decode_chunk_advances [OF d] by (simp add: upd_rx_def)
qed

text \<open>\<open>n\<close> chunks, every one of which asks for more.\<close>

primrec chunks_more :: "nat \<Rightarrow> nat \<Rightarrow> btbr \<Rightarrow> btbr \<Rightarrow> bool" where
  "chunks_more 0 sz s s' \<longleftrightarrow> s' = s"
| "chunks_more (Suc n) sz s s' \<longleftrightarrow> (\<exists>t. rx_decode_chunk sz s = Inr (Bbcodec_more, t) \<and> chunks_more n sz t s')"

lemma chunks_more_bound:
  "chunks_more n sz s s' \<Longrightarrow> n = 0 \<or> air_off_b (rx_codec (rx_task s)) + 8 * n \<le> 8 * sz"
proof (induction n arbitrary: s)
  case (Suc n)
  then obtain t where t: "rx_decode_chunk sz s = Inr (Bbcodec_more, t)" "chunks_more n sz t s'" by auto
  from Suc.IH [OF t(2)] rx_decode_chunk_advances [OF t(1)] show ?case by auto
qed simp

lemma decode_chunks_run:
  "(\<exists>n s'. n < k \<and> chunks_more n sz s s' \<and> decode_chunks k sz s = rx_decode_chunk sz s' \<and> (\<nexists>t. rx_decode_chunk sz s' = Inr (Bbcodec_more, t)))
    \<or> (\<exists>s'. chunks_more k sz s s')"
proof (induction k arbitrary: s)
  case (Suc k)
  show ?case
  proof (cases "rx_decode_chunk sz s")
    case (Inl e)
    then show ?thesis by (intro disjI1 exI [of _ 0] exI [of _ s]) simp
  next
    case (Inr r)
    obtain rc t where r: "r = (rc, t)" by fastforce
    show ?thesis
    proof (cases "rc = Bbcodec_more")
      case True
      from Suc.IH [of t] show ?thesis
      proof (elim disjE exE conjE)
        fix n s' assume "n < k" "chunks_more n sz t s'" "decode_chunks k sz t = rx_decode_chunk sz s'"
          "\<nexists>t. rx_decode_chunk sz s' = Inr (Bbcodec_more, t)"
        then show ?thesis using Inr r True by (intro disjI1 exI [of _ "Suc n"] exI [of _ s']) simp
      qed (use Inr r True in auto)
    next
      case False
      then show ?thesis using Inr r by (intro disjI1 exI [of _ 0] exI [of _ s]) simp
    qed
  qed
qed auto

text \<open>
  C37 (termination).  The decoding loop of \<open>rx_decode\<close> ends: of the \<open>sz\<close> bytes received at most \<open>sz\<close> chunks ask for
  more, then a chunk is the last one, and what the loop returns is the result of that chunk, so the bound \<open>rx_decode\<close>
  puts on the loop is never what ends it.
\<close>

theorem decode_loop_ends:
  "\<exists>n s'. n \<le> sz \<and> chunks_more n sz s s' \<and> decode_chunks (sz + 2) sz s = rx_decode_chunk sz s' \<and>
    (\<nexists>t. rx_decode_chunk sz s' = Inr (Bbcodec_more, t))"
proof -
  have b: "chunks_more n sz s s' \<Longrightarrow> n \<le> sz" for n s' using chunks_more_bound by fastforce
  from decode_chunks_run [of "sz + 2" sz s] show ?thesis
  proof (elim disjE exE)
    fix s' assume "chunks_more (sz + 2) sz s s'"
    from b [OF this] show ?thesis by simp
  qed (use b in blast)
qed
section \<open>Requests that start an activity\<close>

lemma set_state_dies:
  "bt_state s \<noteq> BTCTL_STATE_STANDBY \<Longrightarrow> st \<notin> {BTCTL_STATE_STANDBY, BTCTL_STATE_CONNECTED} \<Longrightarrow> btctl_set_state st r s = Inl Die"
  by (simp add: btctl_set_state_def btctl_state_transition_valid_def)

text \<open>What a setup does before it changes the state succeeds in every state that is \<open>fit\<close>, and changes nothing that matters here.\<close>

definition same_ctl :: "btbr \<Rightarrow> btbr \<Rightarrow> bool" where
  "same_ctl s s' \<longleftrightarrow> fit s' \<and> bt_state s' = bt_state s \<and> pool s' = pool s \<and> bufs s' = bufs s \<and> rx_q s' = rx_q s \<and> tx_q s' = tx_q s \<and>
     acl_tx_q s' = acl_tx_q s \<and> eir_msg s' = eir_msg s \<and> held s' = held s \<and> paging_state s' = paging_state s"

lemma set_mode_ok: "fit s \<Longrightarrow> \<exists>s'. btphy_set_mode m l u s = Inr s' \<and> same_ctl s s'"
  by (simp add: btphy_set_mode_def hop_init_def fill_bank79 Let_def same_ctl_def fit_def held_def btphy_rf_cfg_sync_def cc2400_set_def)

lemma schedule_ok: "fit s \<Longrightarrow> \<exists>s'. schedule d t pr s = Inr s' \<and> same_ctl s s'"
proof -
  assume f: "fit s"
  then have inv: "sched_inv (sched s)" by (simp add: fit_def)
  obtain rc sc where "tdma_schedule (ucast d) (Cb t) 0 0 0 pr (sched s) = Inr (rc, sc)" "sched_inv sc"
    using tdma_schedule_due [OF inv, of "ucast d" "Cb t" 0 0 0 pr] inv by (metis (no_types, lifting))
  then show ?thesis using f by (simp add: schedule_def same_ctl_def fit_def held_def)
qed

lemma fhs_prepare_ok: "length d = 20 \<Longrightarrow> \<exists>d'. fhs_prepare lta eir d s = Inr d' \<and> length d' = 20"
  unfolding fhs_prepare_def bbpkt_fhs_prepare_payload_def by (subst stores_ok) simp_all

lemma flush_ok:
  assumes "ow ext s" and "length (mq_list (acl_tx_q s)) < n" and "fit s"
  shows "\<exists>s'. flush_loop n s = Inr s' \<and> fit s' \<and> bt_state s' = bt_state s \<and> paging_state s' = paging_state s"
  using assms
proof (induction n arbitrary: s)
  case (Suc n)
  have own: "own (ext @ held s) s" using Suc.prems(1) by (simp add: ow_def)
  show ?case
  proof (cases "mq_list (acl_tx_q s)")
    case Nil
    then show ?thesis using acl_tx_dequeue_nil [OF own] Suc.prems(3) by simp
  next
    case (Cons h hs)
    obtain q where q: "btctl_acl_tx_dequeue s = Inr (Some h, s\<lparr>acl_tx_q := q\<rparr>)" "mq_list q = hs" "own (h # ext @ held s) (s\<lparr>acl_tx_q := q\<rparr>)"
      using own_acl_tx_dequeue [OF own Cons] by blast
    obtain p where p: "msg_free h (s\<lparr>acl_tx_q := q\<rparr>) = Inr (s\<lparr>acl_tx_q := q, pool := p\<rparr>)" "own (ext @ held s) (s\<lparr>acl_tx_q := q, pool := p\<rparr>)"
      using own_free [OF q(3)] by blast
    have "ow ext (s\<lparr>acl_tx_q := q, pool := p\<rparr>)" using p(2) by (simp add: ow_def held_def)
    then show ?thesis using Suc.IH [of "s\<lparr>acl_tx_q := q, pool := p\<rparr>"] Suc.prems(2,3) Cons q(1,2) p(1) by (simp add: fit_def)
  qed
qed simp

lemma btctl_flush_ok:
  assumes "ow ext s" and "fit s"
  shows "\<exists>s'. btctl_flush_acl_tx_queue s = Inr s' \<and> fit s' \<and> bt_state s' = bt_state s \<and> paging_state s' = paging_state s"
proof -
  have "mq_inv (acl_tx_q s)" using assms(1) by (simp add: ow_def own_def fw_wf_def)
  then have "length (mq_list (acl_tx_q s)) < 8" using ring_len_less [of 8 "mq_head (acl_tx_q s)" "mq_tail (acl_tx_q s)"]
    by (simp add: mq_list_def mq_inv_def)
  then show ?thesis unfolding btctl_flush_acl_tx_queue_def by (rule flush_ok [OF assms(1) _ assms(2)])
qed

lemma set_bdaddr_ok: "fit s \<Longrightarrow> same_ctl s (btphy_set_bdaddr ba s)"
  by (simp add: btphy_set_bdaddr_def Let_def same_ctl_def fit_def held_def)

lemma set_mode_sched: "btphy_set_mode m l u (s :: btbr) = Inr s' \<Longrightarrow> sched s' = sched s \<and> timers s' = timers s"
  by (auto simp: btphy_set_mode_def Let_def bnd_Inr_iff btphy_rf_cfg_sync_def cc2400_set_def)

lemma schedule_due:
  assumes "fit s" and "schedule d t pr s = Inr s'" and "length (due (sched s) (unat (ucast d :: u8))) \<noteq> TDMASCHED_NUM_CB"
  shows "\<exists>it. cb it = Cb t \<and> timers s' = timers s \<and>
    (\<forall>j. due (sched s') j = (if j mod 16 = unat (ucast d :: u8) mod 16 then due (sched s) j @ [it] else due (sched s) j))"
proof -
  have "sched_inv (sched s)" using assms(1) by (simp add: fit_def)
  from tdma_schedule_room [OF this assms(3), of "Cb t" 0 0 0 pr] obtain sc it where
      "tdma_schedule (ucast d) (Cb t) 0 0 0 pr (sched s) = Inr (0, sc)" "cb it = Cb t"
      "\<And>j. due sc j = (if j mod 16 = unat (ucast d :: u8) mod 16 then due (sched s) j @ [it] else due (sched s) j)" by metis
  then show ?thesis using assms(2) by (intro exI [of _ it]) (auto simp: schedule_def)
qed

text \<open>So the setups come to the change of the state, and die there.\<close>

lemma inquiry_setup_dies:
  assumes "fit s" and "bt_state s \<noteq> BTCTL_STATE_STANDBY"
  shows "inquiry_state_setup s = Inl Die"
proof -
  obtain s1 where s1: "btphy_set_mode BT_MODE_INQUIRY GIAC 0 s = Inr s1" "same_ctl s s1" using set_mode_ok [OF assms(1)] by blast
  then obtain s2 where s2: "schedule 2 Inquiry_start_sync (- 3) s1 = Inr s2" "same_ctl s1 s2" using schedule_ok unfolding same_ctl_def by blast
  then have "bt_state s2 \<noteq> BTCTL_STATE_STANDBY" using s1(2) assms(2) by (simp add: same_ctl_def)
  then show ?thesis unfolding inquiry_state_setup_def using s1(1) s2(1) set_state_dies [of s2] by simp
qed

lemma scan_setups_die:
  assumes "fit s" and "bt_state s \<noteq> BTCTL_STATE_STANDBY"
  shows "inquiry_scan_state_setup s = Inl Die" and "page_scan_state_setup s = Inl Die" and "monitor1_state_setup ba s = Inl Die"
proof -
  have d: "bnd (btphy_set_mode m l u s) (\<lambda>s. bnd (btctl_set_state st r s) f) = Inl Die"
    if f: "fit s" and n: "bt_state s \<noteq> BTCTL_STATE_STANDBY" "st \<notin> {BTCTL_STATE_STANDBY, BTCTL_STATE_CONNECTED}" for m l u st r f and s :: btbr
  proof -
    obtain s' where "btphy_set_mode m l u s = Inr s'" "bt_state s' = bt_state s" using set_mode_ok [OF f, of m l u] by (auto simp: same_ctl_def)
    then show ?thesis using set_state_dies [of s' st r] n by simp
  qed
  show "inquiry_scan_state_setup s = Inl Die" "page_scan_state_setup s = Inl Die"
    unfolding inquiry_scan_state_setup_def page_scan_state_setup_def using assms by (intro d; simp)+
  have "fit (btphy_set_bdaddr ba s)" "bt_state (btphy_set_bdaddr ba s) \<noteq> BTCTL_STATE_STANDBY"
    using set_bdaddr_ok [OF assms(1)] assms(2) by (simp_all add: same_ctl_def)
  then show "monitor1_state_setup ba s = Inl Die" unfolding monitor1_state_setup_def Let_def by (intro d) simp_all
qed

lemma paging_setup_dies:
  assumes "fit s" and "bt_state s \<noteq> BTCTL_STATE_STANDBY"
  shows "paging_state_setup l u s = Inl Die"
proof -
  obtain s1 where s1: "btphy_set_mode BT_MODE_PAGING l u s = Inr s1" "same_ctl s s1" using set_mode_ok [OF assms(1)] by blast
  then have "fit s1" by (simp add: same_ctl_def)
  then have "length (fhs_data (paging_state s1)) = 20" by (simp add: fit_def)
  then obtain d where d: "fhs_prepare 1 0 (fhs_data (paging_state s1)) s1 = Inr d" "length d = 20" using fhs_prepare_ok by blast
  let ?s = "s1\<lparr>paging_state := (paging_state s1)\<lparr>fhs_hdr := fhs_header (fhs_hdr (paging_state s1)), fhs_data := d\<rparr>\<rparr>"
  have "fit ?s" using s1(2) d(2) by (simp add: same_ctl_def fit_def)
  then obtain s2 where s2: "schedule 2 Paging_start_sync (- 3) ?s = Inr s2" "same_ctl ?s s2" using schedule_ok by blast
  then have "bt_state s2 \<noteq> BTCTL_STATE_STANDBY" using s1(2) assms(2) by (simp add: same_ctl_def)
  then show ?thesis unfolding paging_state_setup_def Let_def using s1(1) d(1) s2(1) set_state_dies [of s2] by simp
qed

text \<open>
  C38 (error).  A request for an inquiry, a scan, a paging or a monitoring that the host has queued while the device is not in standby
  stops the firmware with \<open>DIE\<close>, in every state the firmware reaches: nothing the request does before goes wrong, and no reason for
  another fault comes first (the address a paging or monitoring request carries is its body).
\<close>

theorem request_outside_standby_dies:
  assumes "static_mem s0" and "firmware_init s0 = Inr s1" and "fw_reach s1 s"
    and "mq_list (rx_q s) = m # ms" and "bt_state s \<noteq> BTCTL_STATE_STANDBY"
    and "m_type (bufs s ! m) \<in> {BTCTL_INQUIRY_REQ, BTCTL_PAGING_REQ, BTCTL_INQUIRY_SCAN_REQ, BTCTL_PAGE_SCAN_REQ, BTCTL_MONITOR_REQ}"
    and "m_type (bufs s ! m) \<in> {BTCTL_PAGING_REQ, BTCTL_MONITOR_REQ} \<Longrightarrow> \<exists>ba. m_body (bufs s ! m) = Bdaddr_body ba"
  shows "btctl_work s = Inl Die"
proof -
  have o: "ow [] s" using reach_ow [OF assms(3) firmware_init_ow [OF _ assms(2)]] assms(1) by (simp add: static_mem_def)
  then have own: "own (held s) s" by (simp add: ow_def)
  obtain q where q: "btctl_rx_dequeue s = Inr (Some m, s\<lparr>rx_q := q\<rparr>)" "own (m # held s) (s\<lparr>rx_q := q\<rparr>)"
    using own_rx_dequeue [OF own assms(4)] by blast
  let ?s = "s\<lparr>rx_q := q\<rparr>"
  have f: "fit ?s" using reached_fit [OF assms(1-3)] by (simp add: fit_def)
  have os: "ow [m] ?s" using q(2) by (simp add: ow_def held_def)
  have lm: "m < length (bufs s)" using own_buf [OF q(2)] by simp
  obtain s2 where fl: "btctl_flush_acl_tx_queue ?s = Inr s2" "fit s2" "bt_state s2 = bt_state s"
    using btctl_flush_ok [OF os f] by auto
  have n: "bt_state ?s \<noteq> BTCTL_STATE_STANDBY" "bt_state s2 \<noteq> BTCTL_STATE_STANDBY" using assms(5) fl(3) by simp_all
  note dies = inquiry_setup_dies [OF f n(1)] scan_setups_die [OF f n(1)] scan_setups_die [OF fl(2) n(2)] paging_setup_dies [OF fl(2) n(2)]
  have "btctl_request (bufs s ! m) ?s = Inl Die"
    using assms(6,7) by (auto simp: btctl_request_def request_defs as_bdaddr_def fl(1) dies)
  then have "btctl_handle_msg m ?s = Inl Die" using lm assms(6) by (auto simp: btctl_handle_msg_def)
  then show ?thesis by (simp add: btctl_work_def q(1))
qed

text \<open>A host that asks for an inquiry twice.\<close>

definition inquiry_msg :: message where
  "inquiry_msg = \<lparr>m_type = BTCTL_INQUIRY_REQ, m_len = 4, m_body = No_body\<rparr>"

lemma host_sends:
  assumes o: "ow [] s" and u: "usb_rx_msg s = None" and f: "free_list (pool s) = h # hs" and l: "length (mq_list (rx_q s)) < 7"
  shows "\<exists>p q. fw_reach s (s\<lparr>pool := p, bufs := (bufs s)[h := msg], rx_q := q, usb_rx_msg := None\<rparr>) \<and> free_list p = hs \<and>
    mq_list q = mq_list (rx_q s) @ [h]"
proof -
  have inv: "pool_inv (pool s)" "mq_inv (rx_q s)" using o by (simp_all add: ow_def own_def fw_wf_def)
  have n: "12 + unat (8 :: u16) \<le> BUF_SIZE" by (simp add: BUF_SIZE_def)
  obtain p where p: "mem_pool_alloc (12 + unat (8 :: u16)) (pool s) = Inr (h, p)" "free_list p = hs"
    using pool_alloc_cons [OF inv(1) f n] by blast
  obtain q where q: "msg_enqueue (rx_q s) h = Inr (0, q)" "mq_list q = mq_list (rx_q s) @ [h]"
    using msg_enqueue_cases [OF inv(2), of h] l by auto
  have hl: "h < length (bufs s)"
    using o f own_mem [of "held s" s h] by (auto simp: ow_def own_def owned_def fw_wf_def)
  let ?s1 = "s\<lparr>pool := p, usb_rx_msg := Some h\<rparr>"
  have "usb_rx_start 8 s = Inr ?s1" using p(1) u by (simp add: usb_rx_start_def)
  then have r: "fw_reach s ?s1" using Step [OF Start Rx_start] by blast
  have "usb_rx_end msg ?s1 = Inr (s\<lparr>pool := p, bufs := (bufs s)[h := msg], rx_q := q, usb_rx_msg := None\<rparr>)"
    using q(1) hl by (simp add: usb_rx_end_def btctl_rx_enqueue_def)
  then show ?thesis using Step [OF r Rx_end] p(2) q(2) by blast
qed

lemma fw_reach_trans: "fw_reach a b \<Longrightarrow> fw_reach s a \<Longrightarrow> fw_reach s b"
  by (induction rule: fw_reach.induct) (auto intro: Step)

lemma inquiry_work:
  assumes o: "ow [] s" and f: "fit s" and st: "bt_state s = BTCTL_STATE_STANDBY" and q: "mq_list (rx_q s) = m # k # ms"
    and m: "bufs s ! m = inquiry_msg" and fr: "free_list (pool s) \<noteq> []" and idle: "\<And>j. due (sched s) j = []"
  shows "\<exists>s' it. btctl_work s = Inr (1, s') \<and> bt_state s' = BTCTL_STATE_INQUIRY \<and> mq_list (rx_q s') = k # ms \<and> bufs s' ! k = bufs s ! k \<and>
    timers s' = timers s \<and> cb it = Cb Inquiry_start_sync \<and> (\<forall>j. due (sched s') j = (if j mod 16 = 2 then [it] else []))"
proof -
  obtain q where dq: "btctl_rx_dequeue s = Inr (Some m, s\<lparr>rx_q := q\<rparr>)" "mq_list q = k # ms" "own (m # held s) (s\<lparr>rx_q := q\<rparr>)"
    using own_rx_dequeue [OF _ q, of "held s"] o by (auto simp: ow_def)
  let ?s = "s\<lparr>rx_q := q\<rparr>"
  have fs: "fit ?s" using f by (simp add: fit_def)
  obtain s1 where s1: "btphy_set_mode BT_MODE_INQUIRY GIAC 0 ?s = Inr s1" "same_ctl ?s s1" using set_mode_ok [OF fs] by blast
  then obtain s2 where s2: "schedule 2 Inquiry_start_sync (- 3) s1 = Inr s2" "same_ctl s1 s2" using schedule_ok unfolding same_ctl_def by blast
  have sc: "sched s1 = sched s" "timers s1 = timers s" using set_mode_sched [OF s1(1)] by simp_all
  have "length (due (sched s1) (unat (ucast (2 :: u32) :: u8))) \<noteq> 4" by (simp add: sc idle)
  then obtain it where it: "cb it = Cb Inquiry_start_sync" "timers s2 = timers s1"
      "\<forall>j. due (sched s2) j = (if j mod 16 = unat (ucast (2 :: u32) :: u8) mod 16 then due (sched s1) j @ [it] else due (sched s1) j)"
    using schedule_due [OF _ s2(1)] s1(2) by (auto simp: same_ctl_def)
  have c: "same_ctl ?s s2" using s1(2) s2(2) by (simp add: same_ctl_def)
  have o2: "own (m # held s) s2" using dq(3) c by (simp add: same_ctl_def own_def owned_def fw_wf_def)
  have "bt_state s2 = BTCTL_STATE_STANDBY" "free_list (pool s2) \<noteq> []" using c st fr by (simp_all add: same_ctl_def)
  then obtain s3 where s3: "btctl_set_state BTCTL_STATE_INQUIRY BTCTL_REASON_SUCCESS s2 = Inr s3"
    using set_state_total [OF o2, of BTCTL_STATE_INQUIRY] by (auto simp: btctl_state_transition_valid_def)
  note ss = set_state_Inr [OF o2 s3]
  obtain p where p: "msg_free m s3 = Inr (s3\<lparr>pool := p\<rparr>)" using own_free [OF ss(1)] by blast
  have "rx_q s2 = q" "bufs s2 = bufs s" using c by (simp_all add: same_ctl_def)
  then have k: "rx_q s3 = q" "bufs s3 ! k = bufs s ! k" using ss(3) dq(2) by (simp_all add: untouched_def in_use_def)
  have "fw.more s3 = fw.more s2" using ss(3) by (simp add: untouched_def)
  then have sc3: "sched s3 = sched s2" "timers s3 = timers s2" by (cases s3; cases s2; simp)+
  have "inquiry_state_setup ?s = Inr s3" unfolding inquiry_state_setup_def using s1(1) s2(1) s3 by simp
  moreover have "m < length (bufs s)" using own_buf [OF dq(3)] by simp
  ultimately have "btctl_handle_msg m ?s = Inr (s3\<lparr>pool := p\<rparr>)"
    using p m by (simp add: btctl_handle_msg_def btctl_request_def btctl_handle_inquiry_req_def inquiry_msg_def)
  then have "btctl_work s = Inr (1, s3\<lparr>pool := p\<rparr>)" by (simp add: btctl_work_def dq(1))
  then show ?thesis using ss(2) k dq(2) it sc sc3 idle by (intro exI [of _ "s3\<lparr>pool := p\<rparr>"] exI [of _ it]) simp
qed

text \<open>The state after that host's first request: the second one waits, and the inquiry starts in two frames.\<close>

lemma inquiry_started:
  "\<exists>s1 s it. firmware_init btbr_zero = Inr s1 \<and> fw_reach s1 s \<and> bt_state s = BTCTL_STATE_INQUIRY \<and> mq_list (rx_q s) = [1] \<and>
    bufs s ! 1 = inquiry_msg \<and> tm_count (timers s) = 0 \<and> cb it = Cb Inquiry_start_sync \<and>
    (\<forall>j. due (sched s) j = (if j mod 16 = 2 then [it] else []))"
proof -
  obtain s1 where i: "firmware_init btbr_zero = Inr s1" and st: "started s1" using start_ok by blast
  have o1: "ow [] s1" by (rule firmware_init_ow [OF btbr_zero_cold i])
  have l16: "length (bufs s1) = 16" and f1: "free_list (pool s1) = 0 # [1..<16]" using st by (simp_all add: started_def upt_conv_Cons)
  have "size (owned (held s1) s1) \<le> size (mset_set {..<BUF_NUM})" using o1 by (intro size_mset_mono) (simp add: ow_def own_def)
  then have q1: "mq_list (rx_q s1) = []" using st by (simp add: owned_def started_def)
  obtain p2 r2 where s2: "fw_reach s1 (s1\<lparr>pool := p2, bufs := (bufs s1)[0 := inquiry_msg], rx_q := r2, usb_rx_msg := None\<rparr>)"
      "free_list p2 = [1..<16]" "mq_list r2 = [0]"
    using host_sends [OF o1 _ f1, of inquiry_msg] st q1 by (auto simp: started_def)
  let ?s2 = "s1\<lparr>pool := p2, bufs := (bufs s1)[0 := inquiry_msg], rx_q := r2, usb_rx_msg := None\<rparr>"
  have o2: "ow [] ?s2" by (rule reach_ow [OF s2(1) o1])
  have f2: "free_list (pool ?s2) = 1 # [2..<16]" using s2(2) by (simp add: upt_conv_Cons)
  obtain p3 r3 where s3: "fw_reach ?s2 (?s2\<lparr>pool := p3, bufs := (bufs ?s2)[1 := inquiry_msg], rx_q := r3, usb_rx_msg := None\<rparr>)"
      "free_list p3 = [2..<16]" "mq_list r3 = [0, 1]"
    using host_sends [OF o2 _ f2, of inquiry_msg] s2(3) by auto
  let ?s3 = "?s2\<lparr>pool := p3, bufs := (bufs ?s2)[1 := inquiry_msg], rx_q := r3, usb_rx_msg := None\<rparr>"
  have r3: "fw_reach s1 ?s3" by (rule fw_reach_trans [OF s3(1) s2(1)])
  have f3: "fit ?s3" by (rule reached_fit [OF btbr_zero_static i r3])
  have b3: "bt_state ?s3 = BTCTL_STATE_STANDBY" "mq_list (rx_q ?s3) = 0 # 1 # []" "bufs ?s3 ! 0 = inquiry_msg" "bufs ?s3 ! 1 = inquiry_msg"
      "free_list (pool ?s3) \<noteq> []"
    using st l16 s3(2,3) by (simp_all add: started_def)
  obtain s it where s: "btctl_work ?s3 = Inr (1, s)" "bt_state s = BTCTL_STATE_INQUIRY" "mq_list (rx_q s) = [1]" "bufs s ! 1 = inquiry_msg"
      "timers s = timers s1" "cb it = Cb Inquiry_start_sync" "\<forall>j. due (sched s) j = (if j mod 16 = 2 then [it] else [])"
    using inquiry_work [OF reach_ow [OF r3 o1] f3 b3(1-3,5)] b3(4) st by (auto simp: started_def)
  have "fw_reach s1 s" by (rule Step [OF r3 Work [OF s(1)]])
  moreover have "tm_count (timers s) = 0" using s(5) st by (simp add: started_def)
  ultimately show ?thesis using i s(2-4,6,7) by blast
qed

theorem request_outside_standby_dies_witness:
  "\<exists>s1 s. firmware_init btbr_zero = Inr s1 \<and> fw_reach s1 s \<and> bt_state s = BTCTL_STATE_INQUIRY \<and>
    mq_list (rx_q s) = [1] \<and> bufs s ! 1 = inquiry_msg \<and> btctl_work s = Inl Die"
proof -
  obtain s1 s where s: "firmware_init btbr_zero = Inr s1" "fw_reach s1 s" "bt_state s = BTCTL_STATE_INQUIRY" "mq_list (rx_q s) = [1]"
      "bufs s ! 1 = inquiry_msg"
    using inquiry_started by blast
  have "btctl_work s = Inl Die"
    by (rule request_outside_standby_dies [OF btbr_zero_static s(1,2,4)]) (simp_all only: s(3,5), simp_all add: inquiry_msg_def)
  then show ?thesis using s by blast
qed

section \<open>Frames of a plan\<close>

text \<open>A frame interrupt without timers and tasks only turns the wheel.\<close>

lemma idle_execute:
  assumes "sched_inv s" and "due s 0 = []"
  shows "tdma_sched_execute call (s, x) = Inr (0, s, x)"
proof -
  let ?nr = "cur_bucket s" let ?b = "bucket s ! ?nr"
  have nr: "?nr < 16" "?nr < length (bucket s)" using assms(1) by (simp_all add: sched_inv_def)
  have n: "num_items ?b = 0" using length_due [OF assms(1), of 0] assms(2) nr by simp
  then have "?b\<lparr>num_items := 0\<rparr> = ?b" by (cases ?b) simp
  then have "s\<lparr>bucket := (bucket s)[?nr := ?b\<lparr>num_items := 0\<rparr>]\<rparr> = s" by simp
  moreover have "exec_loop (Suc 4) call ?nr sq 0 (s, x) = Inr (int 0, s\<lparr>bucket := (bucket s)[?nr := ?b\<lparr>num_items := 0\<rparr>]\<rparr>, x)" for sq
    using n nr by (subst exec_loop.simps(2)) simp
  moreover have "TDMASCHED_NUM_CB + 1 = Suc 4" by simp
  ultimately have "exec_loop (TDMASCHED_NUM_CB + 1) call ?nr sq 0 (s, x) = Inr (0, s, x)" for sq by simp
  then show ?thesis unfolding tdma_sched_execute_def tdma_sched_bucket_sort_def using n nr by simp
qed

lemma idle_frame:
  assumes "sched_inv (sched s)" and "due (sched s) 0 = []" and "tm_count (timers s) = 0"
  shows "\<exists>s'. TIMER0_IRQHandler s = Inr s' \<and> sched s' = tdma_sched_advance (sched s) \<and> timers s' = timers s"
proof -
  have "timers_loop (Suc 9) fire_timer c 0 0 (timers s, x) = Inr (timers s, x)" for c x using assms(3) by (subst timers_loop.simps(2)) simp
  moreover have "BTPHY_TIMER_COUNT = Suc 9" by simp
  ultimately have "btphy_timers_execute fire_timer c (timers s, x) = Inr (timers s, x)" for c x
    unfolding btphy_timers_execute_def by metis
  then show ?thesis unfolding TIMER0_IRQHandler_def btphy_handler_def tdma_frame_def
    by (simp add: Let_def idle_execute [OF assms(1,2)])
qed

lemma two_idle_frames:
  assumes "sched_inv (sched s)" and "\<And>j. due (sched s) j = (if j mod 16 = 2 then [it] else [])" and "tm_count (timers s) = 0"
  shows "\<exists>sa sb. TIMER0_IRQHandler s = Inr sa \<and> TIMER0_IRQHandler sa = Inr sb \<and> due (sched sb) 0 = [it]"
proof -
  have "due (sched s) 0 = []" by (simp add: assms(2))
  from idle_frame [OF assms(1) this assms(3)] obtain sa where
      a: "TIMER0_IRQHandler s = Inr sa" "sched sa = tdma_sched_advance (sched s)" "timers sa = timers s" by blast
  have da: "sched_inv (sched sa)" "\<And>k. due (sched sa) k = due (sched s) (Suc k)" using advance_due [OF assms(1)] a(2) by simp_all
  have "due (sched sa) 0 = []" by (simp add: da(2) assms(2))
  from idle_frame [OF da(1) this] a(3) assms(3) obtain sb where
      b: "TIMER0_IRQHandler sa = Inr sb" "sched sb = tdma_sched_advance (sched sa)" by auto
  have "due (sched sb) 0 = [it]" using advance_due [OF da(1), of 0] b(2) by (simp add: da(2) assms(2))
  then show ?thesis using a b by blast
qed

theorem frame_runs_due_witness:
  "\<exists>s1 s it. firmware_init btbr_zero = Inr s1 \<and> fw_reach s1 s \<and> due (sched s) 0 = [it] \<and> cb it = Cb Inquiry_start_sync \<and>
    (\<forall>st. frame_ends task_call [it] (sched s, st) (tdma_sched_execute task_call (sched s, st)))"
proof -
  obtain s1 s it where i: "firmware_init btbr_zero = Inr s1" and r: "fw_reach s1 s" and t: "tm_count (timers s) = 0"
      and it: "cb it = Cb Inquiry_start_sync" "\<And>j. due (sched s) j = (if j mod 16 = 2 then [it] else [])"
    using inquiry_started by blast
  have "sched_inv (sched s)" using reached_fit [OF btbr_zero_static i r] by (simp add: fit_def)
  from two_idle_frames [OF this it(2) t] obtain sa sb where
      f: "TIMER0_IRQHandler s = Inr sa" "TIMER0_IRQHandler sa = Inr sb" "due (sched sb) 0 = [it]" by blast
  have rb: "fw_reach s1 sb" by (rule Step [OF Step [OF r Frame [OF f(1)]] Frame [OF f(2)]])
  obtain its where m: "mset its = mset (due (sched sb) 0)"
      and e: "\<forall>st. frame_ends task_call its (sched sb, st) (tdma_sched_execute task_call (sched sb, st))"
    using frame_runs_due [OF btbr_zero_static i rb] by blast
  have "its = [it]" using m f(3) by simp
  then show ?thesis using i rb f(3) it(1) e by blast
qed

theorem planned_comes_due_witness:
  "\<exists>s1 s s' it. firmware_init btbr_zero = Inr s1 \<and> schedule 2 Start_monitor2 (- 3) s1 = Inr s \<and> frames s 2 s' \<and>
    cb it = Cb Start_monitor2 \<and> prefix [it] (due (sched s') 0)"
proof -
  obtain s1 where i: "firmware_init btbr_zero = Inr s1" and st: "started s1" using start_ok by blast
  have r: "fw_reach s1 s1" by (rule Start)
  have f: "fit s1" by (rule reached_fit [OF btbr_zero_static i r])
  obtain s where s: "schedule 2 Start_monitor2 (- 3) s1 = Inr s" "fit s" using schedule_ok [OF f, of 2 Start_monitor2 "- 3"] by (auto simp: same_ctl_def)
  have idle: "due (sched s1) k = []" for k using st by (simp add: started_def)
  have u: "unat (ucast (2 :: u32) :: u8) = 2" by simp
  have "length (due (sched s1) (unat (ucast (2 :: u32) :: u8))) \<noteq> 4" by (simp add: idle)
  from schedule_due [OF f s(1) this] obtain it0 where it0: "timers s = timers s1"
      and "\<forall>j. due (sched s) j = (if j mod 16 = unat (ucast (2 :: u32) :: u8) mod 16 then due (sched s1) j @ [it0] else due (sched s1) j)"
    by blast
  then have du: "due (sched s) j = (if j mod 16 = 2 then [it0] else [])" for j by (simp add: u idle)
  have "sched_inv (sched s)" "tm_count (timers s) = 0" using s(2) it0 st by (simp_all add: fit_def started_def)
  from two_idle_frames [OF this(1) du this(2)] obtain sa sb where
      t: "TIMER0_IRQHandler s = Inr sa" "TIMER0_IRQHandler sa = Inr sb" by blast
  have fr: "frames s (Suc (Suc 0)) sb" by (rule Tick [OF Tick [OF Now t(1)] t(2)])
  then have fr2: "frames s 2 sb" by (simp only: Suc_Suc_0)
  have "length (due (sched s1) 2) < 4" by (simp add: idle)
  moreover have "(2 :: nat) < TDMASCHED_NUM_FRAMES" by simp
  ultimately obtain it where it: "cb it = Cb Start_monitor2" "prefix (due (sched s1) 2 @ [it]) (due (sched sb) (2 - 2))"
    using planned_comes_due [OF btbr_zero_static i r s(1) u _ _ fr2 order_refl] by blast
  have "prefix [it] (due (sched sb) 0)" using it(2) by (simp only: idle append_Nil diff_self_eq_0)
  then show ?thesis using i s(1) fr2 it(1) by blast
qed

end
