(* ===== verification/Ble.thy ===== *)
theory Ble
  imports Crc
begin

text \<open>
  The Bluetooth Low Energy code of firmware/bluetooth_rxtx/bluetooth_le.c and the tables of its header: channels, hopping, CRC,
  whitening and channel maps.
\<close>

section \<open>Channels\<close>

text \<open>The subtraction is done on \<open>int\<close>, the division truncates towards zero, and the result is stored in 16 bits.\<close>

definition btle_channel_index :: "u16 \<Rightarrow> u8" where
  "btle_channel_index channel =
     (let d = uint channel - 2402;
          ch = word_of_int (if 0 \<le> d then d div 2 else - ((- d) div 2)) :: u16
      in if ch = 0 then 37
         else if ch < 12 then ucast ch - 1
         else if ch = 12 then 38
         else if ch < 39 then ucast ch - 2
         else 39)"

definition btle_channel_index_to_phys :: "u8 \<Rightarrow> u16" where
  "btle_channel_index_to_phys idx =
     (if idx < 11 then 2404 + 2 * ucast idx
      else if idx < 37 then 2428 + 2 * (ucast idx - 11)
      else if idx = 37 then 2402
      else if idx = 38 then 2426
      else 2480)"

text \<open>The two fields of \<open>le_state_t\<close> that \<open>btle_next_hop\<close> works on, channel and increment; the sum is an \<open>int\<close>.\<close>

definition le_next_idx :: "u8 \<Rightarrow> u8 \<Rightarrow> u8" where
  "le_next_idx idx incr = of_nat ((unat idx + unat incr) mod 37)"

definition btle_next_hop :: "u8 \<Rightarrow> u8 \<Rightarrow> u16 \<times> u8" where
  "btle_next_hop channel_idx channel_increment =
     (btle_channel_index_to_phys channel_idx, le_next_idx channel_idx channel_increment)"

section \<open>CRC\<close>

primrec btle_crc_bits :: "nat \<Rightarrow> u8 \<Rightarrow> u32 \<Rightarrow> u32" where
  "btle_crc_bits 0 cur state = state"
| "btle_crc_bits (Suc n) cur state =
     (let next_bit = (state XOR ucast cur) AND 1;
          state = drop_bit 1 state
      in btle_crc_bits n (drop_bit 1 cur) (if next_bit \<noteq> 0 then (state OR push_bit 23 1) XOR 0x5a6000 else state))"

definition btle_calc_crc :: "u32 \<Rightarrow> u8 list \<Rightarrow> nat \<Rightarrow> u32 res" where
  "btle_calc_crc crc_init data len =
     loop len (\<lambda>i state. bnd (rd data i) (\<lambda>cur. Inr (btle_crc_bits 8 cur state))) (crc_init AND 0xffffff)"

text \<open>One step of the CRC backwards, with bit \<open>k\<close> of the byte, and the reversal of the 24 bits at the end.\<close>

definition btle_uncrc_bit :: "u8 \<Rightarrow> nat \<Rightarrow> u32 \<Rightarrow> u32" where
  "btle_uncrc_bit cur k state =
     (let top_bit = drop_bit 23 state;
          state = push_bit 1 state AND 0xffffff;
          state = state OR (top_bit XOR (drop_bit k (ucast cur) AND 1))
      in if top_bit \<noteq> 0 then state XOR 0xb4c000 else state)"

definition reverse24 :: "u32 \<Rightarrow> u32" where
  "reverse24 state = fold (\<lambda>i r. r OR push_bit (23 - i) (drop_bit i state AND 1)) [0..<24] 0"

definition btle_reverse_crc :: "u32 \<Rightarrow> u8 list \<Rightarrow> nat \<Rightarrow> u32 res" where
  "btle_reverse_crc crc data len =
     bnd (loop len (\<lambda>i state. bnd (rd data (len - 1 - i)) (\<lambda>cur.
       Inr (fold (\<lambda>j. btle_uncrc_bit cur (7 - j)) [0..<8] state))) crc) (\<lambda>state.
     Inr (reverse24 state))"

definition btle_crc_lut :: "u32 list" where
  "btle_crc_lut = [
    0x000000, 0x01b4c0, 0x036980, 0x02dd40, 0x06d300, 0x0767c0, 0x05ba80, 0x040e40,
    0x0da600, 0x0c12c0, 0x0ecf80, 0x0f7b40, 0x0b7500, 0x0ac1c0, 0x081c80, 0x09a840,
    0x1b4c00, 0x1af8c0, 0x182580, 0x199140, 0x1d9f00, 0x1c2bc0, 0x1ef680, 0x1f4240,
    0x16ea00, 0x175ec0, 0x158380, 0x143740, 0x103900, 0x118dc0, 0x135080, 0x12e440,
    0x369800, 0x372cc0, 0x35f180, 0x344540, 0x304b00, 0x31ffc0, 0x332280, 0x329640,
    0x3b3e00, 0x3a8ac0, 0x385780, 0x39e340, 0x3ded00, 0x3c59c0, 0x3e8480, 0x3f3040,
    0x2dd400, 0x2c60c0, 0x2ebd80, 0x2f0940, 0x2b0700, 0x2ab3c0, 0x286e80, 0x29da40,
    0x207200, 0x21c6c0, 0x231b80, 0x22af40, 0x26a100, 0x2715c0, 0x25c880, 0x247c40,
    0x6d3000, 0x6c84c0, 0x6e5980, 0x6fed40, 0x6be300, 0x6a57c0, 0x688a80, 0x693e40,
    0x609600, 0x6122c0, 0x63ff80, 0x624b40, 0x664500, 0x67f1c0, 0x652c80, 0x649840,
    0x767c00, 0x77c8c0, 0x751580, 0x74a140, 0x70af00, 0x711bc0, 0x73c680, 0x727240,
    0x7bda00, 0x7a6ec0, 0x78b380, 0x790740, 0x7d0900, 0x7cbdc0, 0x7e6080, 0x7fd440,
    0x5ba800, 0x5a1cc0, 0x58c180, 0x597540, 0x5d7b00, 0x5ccfc0, 0x5e1280, 0x5fa640,
    0x560e00, 0x57bac0, 0x556780, 0x54d340, 0x50dd00, 0x5169c0, 0x53b480, 0x520040,
    0x40e400, 0x4150c0, 0x438d80, 0x423940, 0x463700, 0x4783c0, 0x455e80, 0x44ea40,
    0x4d4200, 0x4cf6c0, 0x4e2b80, 0x4f9f40, 0x4b9100, 0x4a25c0, 0x48f880, 0x494c40,
    0xda6000, 0xdbd4c0, 0xd90980, 0xd8bd40, 0xdcb300, 0xdd07c0, 0xdfda80, 0xde6e40,
    0xd7c600, 0xd672c0, 0xd4af80, 0xd51b40, 0xd11500, 0xd0a1c0, 0xd27c80, 0xd3c840,
    0xc12c00, 0xc098c0, 0xc24580, 0xc3f140, 0xc7ff00, 0xc64bc0, 0xc49680, 0xc52240,
    0xcc8a00, 0xcd3ec0, 0xcfe380, 0xce5740, 0xca5900, 0xcbedc0, 0xc93080, 0xc88440,
    0xecf800, 0xed4cc0, 0xef9180, 0xee2540, 0xea2b00, 0xeb9fc0, 0xe94280, 0xe8f640,
    0xe15e00, 0xe0eac0, 0xe23780, 0xe38340, 0xe78d00, 0xe639c0, 0xe4e480, 0xe55040,
    0xf7b400, 0xf600c0, 0xf4dd80, 0xf56940, 0xf16700, 0xf0d3c0, 0xf20e80, 0xf3ba40,
    0xfa1200, 0xfba6c0, 0xf97b80, 0xf8cf40, 0xfcc100, 0xfd75c0, 0xffa880, 0xfe1c40,
    0xb75000, 0xb6e4c0, 0xb43980, 0xb58d40, 0xb18300, 0xb037c0, 0xb2ea80, 0xb35e40,
    0xbaf600, 0xbb42c0, 0xb99f80, 0xb82b40, 0xbc2500, 0xbd91c0, 0xbf4c80, 0xbef840,
    0xac1c00, 0xada8c0, 0xaf7580, 0xaec140, 0xaacf00, 0xab7bc0, 0xa9a680, 0xa81240,
    0xa1ba00, 0xa00ec0, 0xa2d380, 0xa36740, 0xa76900, 0xa6ddc0, 0xa40080, 0xa5b440,
    0x81c800, 0x807cc0, 0x82a180, 0x831540, 0x871b00, 0x86afc0, 0x847280, 0x85c640,
    0x8c6e00, 0x8ddac0, 0x8f0780, 0x8eb340, 0x8abd00, 0x8b09c0, 0x89d480, 0x886040,
    0x9a8400, 0x9b30c0, 0x99ed80, 0x985940, 0x9c5700, 0x9de3c0, 0x9f3e80, 0x9e8a40,
    0x972200, 0x9696c0, 0x944b80, 0x95ff40, 0x91f100, 0x9045c0, 0x929880, 0x932c40]"

definition btle_crcgen_lut :: "u32 \<Rightarrow> u8 list \<Rightarrow> nat \<Rightarrow> u32 res" where
  "btle_crcgen_lut crc_init data len =
     loop len (\<lambda>i state. bnd (rd data i) (\<lambda>d.
       let key = d XOR ucast (state AND 0xff) in
       Inr (drop_bit 8 state XOR btle_crc_lut ! unat key))) (crc_init AND 0xffffff)"

section \<open>Whitening\<close>

definition whitening :: "u8 list" where
  "whitening = [
    1, 1, 1, 1, 0, 1, 0, 1, 0, 1, 0, 0, 0, 0, 1, 0, 1, 1, 0, 1, 1, 1, 1, 0, 0, 1, 1, 1, 0, 0, 1, 0,
    1, 0, 1, 1, 0, 0, 1, 1, 0, 0, 0, 0, 0, 1, 1, 0, 1, 1, 0, 1, 0, 1, 1, 1, 0, 1, 0, 0, 0, 1, 1, 0,
    0, 1, 0, 0, 0, 1, 0, 0, 0, 0, 0, 0, 1, 0, 0, 1, 0, 0, 1, 1, 0, 1, 0, 0, 1, 1, 1, 1, 0, 1, 1, 1,
    0, 0, 0, 0, 1, 1, 1, 1, 1, 1, 1, 0, 0, 0, 1, 1, 1, 0, 1, 1, 0, 0, 0, 1, 0, 1, 0, 0, 1, 0, 1]"

definition whitening_index :: "nat list" where
  "whitening_index = [
    70, 62, 120, 111, 77, 46, 15, 101, 66, 39, 31, 26, 80, 83, 125, 89, 10, 35, 8, 54, 122, 17, 33, 0, 58, 115,
    6, 94, 86, 49, 52, 20, 40, 27, 84, 90, 63, 112, 47, 102]"

definition hop_interval_lut :: "nat list" where
  "hop_interval_lut = [
    0, 1, 19, 25, 28, 15, 31, 16, 14, 33, 26, 27, 34, 20, 8, 5, 7, 24, 35, 2, 13, 30, 32, 29, 17, 3,
    10, 11, 4, 23, 21, 6, 22, 9, 12, 18, 36]"

definition whitening_word :: "u32 list list" where
  "whitening_word = [
    [0xc3bcb240, 0x5f4a371f, 0x9a9cf685, 0x44c5d6c1, 0xe1de5920, 0xafa51b8f,
     0xcd4e7b42, 0x2262eb60, 0xf0ef2c90, 0x57d28dc7, 0x66a73da1, 0x113175b0],
    [0xbcb24089, 0x4a371fc3, 0x9cf6855f, 0xc5d6c19a, 0xde592044, 0xa51b8fe1,
     0x4e7b42af, 0x62eb60cd, 0xef2c9022, 0xd28dc7f0, 0xa73da157, 0x3175b066],
    [0x3da157d2, 0x75b066a7, 0x96481131, 0x46e3f877, 0x9ed0abe9, 0xbad83353,
     0xcb240898, 0xa371fc3b, 0xcf6855f4, 0x5d6c19a9, 0xe592044c, 0x51b8fe1d],
    [0x42afa51b, 0x60cd4e7b, 0x902262eb, 0xc7f0ef2c, 0xa157d28d, 0xb066a73d,
     0x48113175, 0xe3f87796, 0xd0abe946, 0xd833539e, 0x240898ba, 0x71fc3bcb],
    [0x3f877964, 0xabe946e, 0x833539ed, 0x40898bad, 0x1fc3bcb2, 0x855f4a37,
     0xc19a9cf6, 0x2044c5d6, 0x8fe1de59, 0x42afa51b, 0x60cd4e7b, 0x902262eb],
    [0x40898bad, 0x1fc3bcb2, 0x855f4a37, 0xc19a9cf6, 0x2044c5d6, 0x8fe1de59,
     0x42afa51b, 0x60cd4e7b, 0x902262eb, 0xc7f0ef2c, 0xa157d28d, 0xb066a73d],
    [0xc19a9cf6, 0x2044c5d6, 0x8fe1de59, 0x42afa51b, 0x60cd4e7b, 0x902262eb,
     0xc7f0ef2c, 0xa157d28d, 0xb066a73d, 0x48113175, 0xe3f87796, 0xd0abe946],
    [0xbe946e3f, 0x3539ed0a, 0x898bad83, 0xc3bcb240, 0x5f4a371f, 0x9a9cf685,
     0x44c5d6c1, 0xe1de5920, 0xafa51b8f, 0xcd4e7b42, 0x2262eb60, 0xf0ef2c90],
    [0x3bcb2408, 0xf4a371fc, 0xa9cf6855, 0x4c5d6c19, 0x1de59204, 0xfa51b8fe,
     0xd4e7b42a, 0x262eb60c, 0xef2c902, 0x7d28dc7f, 0x6a73da15, 0x13175b06],
    [0x44c5d6c1, 0xe1de5920, 0xafa51b8f, 0xcd4e7b42, 0x2262eb60, 0xf0ef2c90,
     0x57d28dc7, 0x66a73da1, 0x113175b0, 0xf8779648, 0xabe946e3, 0x33539ed0],
    [0xc5d6c19a, 0xde592044, 0xa51b8fe1, 0x4e7b42af, 0x62eb60cd, 0xef2c9022,
     0xd28dc7f0, 0xa73da157, 0x3175b066, 0x77964811, 0xe946e3f8, 0x539ed0ab],
    [0xbad83353, 0xcb240898, 0xa371fc3b, 0xcf6855f4, 0x5d6c19a9, 0xe592044c,
     0x51b8fe1d, 0xe7b42afa, 0x2eb60cd4, 0xf2c90226, 0x28dc7f0e, 0x73da157d],
    [0xc7f0ef2c, 0xa157d28d, 0xb066a73d, 0x48113175, 0xe3f87796, 0xd0abe946,
     0xd833539e, 0x240898ba, 0x71fc3bcb, 0x6855f4a3, 0x6c19a9cf, 0x92044c5d],
    [0xb8fe1de5, 0xb42afa51, 0xb60cd4e7, 0xc902262e, 0xdc7f0ef2, 0xda157d28,
     0x5b066a73, 0x64811317, 0x6e3f8779, 0xed0abe94, 0xad833539, 0xb240898b],
    [0x39ed0abe, 0x8bad8335, 0xbcb24089, 0x4a371fc3, 0x9cf6855f, 0xc5d6c19a,
     0xde592044, 0xa51b8fe1, 0x4e7b42af, 0x62eb60cd, 0xef2c9022, 0xd28dc7f0],
    [0x46e3f877, 0x9ed0abe9, 0xbad83353, 0xcb240898, 0xa371fc3b, 0xcf6855f4,
     0x5d6c19a9, 0xe592044c, 0x51b8fe1d, 0xe7b42afa, 0x2eb60cd4, 0xf2c90226],
    [0x33539ed0, 0x898bad8, 0xfc3bcb24, 0x55f4a371, 0x19a9cf68, 0x44c5d6c,
     0xfe1de592, 0x2afa51b8, 0xcd4e7b4, 0x2262eb6, 0x7f0ef2c9, 0x157d28dc],
    [0x4c5d6c19, 0x1de59204, 0xfa51b8fe, 0xd4e7b42a, 0x262eb60c, 0xef2c902,
     0x7d28dc7f, 0x6a73da15, 0x13175b06, 0x87796481, 0xbe946e3f, 0x3539ed0a],
    [0xcd4e7b42, 0x2262eb60, 0xf0ef2c90, 0x57d28dc7, 0x66a73da1, 0x113175b0,
     0xf8779648, 0xabe946e3, 0x33539ed0, 0x898bad8, 0xfc3bcb24, 0x55f4a371],
    [0xb240898b, 0x371fc3bc, 0xf6855f4a, 0xd6c19a9c, 0x592044c5, 0x1b8fe1de,
     0x7b42afa5, 0xeb60cd4e, 0x2c902262, 0x8dc7f0ef, 0x3da157d2, 0x75b066a7],
    [0xcf6855f4, 0x5d6c19a9, 0xe592044c, 0x51b8fe1d, 0xe7b42afa, 0x2eb60cd4,
     0xf2c90226, 0x28dc7f0e, 0x73da157d, 0x175b066a, 0x79648113, 0x946e3f87],
    [0xb066a73d, 0x48113175, 0xe3f87796, 0xd0abe946, 0xd833539e, 0x240898ba,
     0x71fc3bcb, 0x6855f4a3, 0x6c19a9cf, 0x92044c5d, 0xb8fe1de5, 0xb42afa51],
    [0x3175b066, 0x77964811, 0xe946e3f8, 0x539ed0ab, 0x98bad833, 0x3bcb2408,
     0xf4a371fc, 0xa9cf6855, 0x4c5d6c19, 0x1de59204, 0xfa51b8fe, 0xd4e7b42a],
    [0x4e7b42af, 0x62eb60cd, 0xef2c9022, 0xd28dc7f0, 0xa73da157, 0x3175b066,
     0x77964811, 0xe946e3f8, 0x539ed0ab, 0x98bad833, 0x3bcb2408, 0xf4a371fc],
    [0xcb240898, 0xa371fc3b, 0xcf6855f4, 0x5d6c19a9, 0xe592044c, 0x51b8fe1d,
     0xe7b42afa, 0x2eb60cd4, 0xf2c90226, 0x28dc7f0e, 0x73da157d, 0x175b066a],
    [0xb42afa51, 0xb60cd4e7, 0xc902262e, 0xdc7f0ef2, 0xda157d28, 0x5b066a73,
     0x64811317, 0x6e3f8779, 0xed0abe94, 0xad833539, 0xb240898b, 0x371fc3bc],
    [0x3539ed0a, 0x898bad83, 0xc3bcb240, 0x5f4a371f, 0x9a9cf685, 0x44c5d6c1,
     0xe1de5920, 0xafa51b8f, 0xcd4e7b42, 0x2262eb60, 0xf0ef2c90, 0x57d28dc7],
    [0x4a371fc3, 0x9cf6855f, 0xc5d6c19a, 0xde592044, 0xa51b8fe1, 0x4e7b42af,
     0x62eb60cd, 0xef2c9022, 0xd28dc7f0, 0xa73da157, 0x3175b066, 0x77964811],
    [0x371fc3bc, 0xf6855f4a, 0xd6c19a9c, 0x592044c5, 0x1b8fe1de, 0x7b42afa5,
     0xeb60cd4e, 0x2c902262, 0x8dc7f0ef, 0x3da157d2, 0x75b066a7, 0x96481131],
    [0x48113175, 0xe3f87796, 0xd0abe946, 0xd833539e, 0x240898ba, 0x71fc3bcb,
     0x6855f4a3, 0x6c19a9cf, 0x92044c5d, 0xb8fe1de5, 0xb42afa51, 0xb60cd4e7],
    [0xc902262e, 0xdc7f0ef2, 0xda157d28, 0x5b066a73, 0x64811317, 0x6e3f8779,
     0xed0abe94, 0xad833539, 0xb240898b, 0x371fc3bc, 0xf6855f4a, 0xd6c19a9c],
    [0xb60cd4e7, 0xc902262e, 0xdc7f0ef2, 0xda157d28, 0x5b066a73, 0x64811317,
     0x6e3f8779, 0xed0abe94, 0xad833539, 0xb240898b, 0x371fc3bc, 0xf6855f4a],
    [0x2262eb60, 0xf0ef2c90, 0x57d28dc7, 0x66a73da1, 0x113175b0, 0xf8779648,
     0xabe946e3, 0x33539ed0, 0x898bad8, 0xfc3bcb24, 0x55f4a371, 0x19a9cf68],
    [0x5d6c19a9, 0xe592044c, 0x51b8fe1d, 0xe7b42afa, 0x2eb60cd4, 0xf2c90226,
     0x28dc7f0e, 0x73da157d, 0x175b066a, 0x79648113, 0x946e3f87, 0x39ed0abe],
    [0xdc7f0ef2, 0xda157d28, 0x5b066a73, 0x64811317, 0x6e3f8779, 0xed0abe94,
     0xad833539, 0xb240898b, 0x371fc3bc, 0xf6855f4a, 0xd6c19a9c, 0x592044c5],
    [0xa371fc3b, 0xcf6855f4, 0x5d6c19a9, 0xe592044c, 0x51b8fe1d, 0xe7b42afa,
     0x2eb60cd4, 0xf2c90226, 0x28dc7f0e, 0x73da157d, 0x175b066a, 0x79648113],
    [0xde592044, 0xa51b8fe1, 0x4e7b42af, 0x62eb60cd, 0xef2c9022, 0xd28dc7f0,
     0xa73da157, 0x3175b066, 0x77964811, 0xe946e3f8, 0x539ed0ab, 0x98bad833],
    [0xa157d28d, 0xb066a73d, 0x48113175, 0xe3f87796, 0xd0abe946, 0xd833539e,
     0x240898ba, 0x71fc3bcb, 0x6855f4a3, 0x6c19a9cf, 0x92044c5d, 0xb8fe1de5],
    [0x2044c5d6, 0x8fe1de59, 0x42afa51b, 0x60cd4e7b, 0x902262eb, 0xc7f0ef2c,
     0xa157d28d, 0xb066a73d, 0x48113175, 0xe3f87796, 0xd0abe946, 0xd833539e],
    [0x5f4a371f, 0x9a9cf685, 0x44c5d6c1, 0xe1de5920, 0xafa51b8f, 0xcd4e7b42,
     0x2262eb60, 0xf0ef2c90, 0x57d28dc7, 0x66a73da1, 0x113175b0, 0xf8779648]]"

text \<open>One byte: bit \<open>j\<close> of the result is bit \<open>7 - j\<close> of the data with the key bit \<open>(idx + j) mod 127\<close> added.\<close>

definition le_dewhiten_byte :: "nat \<Rightarrow> u8 \<Rightarrow> u8" where
  "le_dewhiten_byte idx b =
     fold (\<lambda>j r. r OR push_bit j ((drop_bit (7 - j) b AND 1) XOR whitening ! ((idx + j) mod 127))) [0..<8] 0"

definition le_dewhiten :: "u8 list \<Rightarrow> nat \<Rightarrow> u16 \<Rightarrow> u8 list res" where
  "le_dewhiten data size0 channel =
     bnd (rd whitening_index (unat (btle_channel_index channel))) (\<lambda>idx.
     loop size0 (\<lambda>i data. bnd (rd data i) (\<lambda>b. wr data i (le_dewhiten_byte ((idx + 8 * i) mod 127) b))) data)"

section \<open>Channel maps\<close>

record le_channel_remapping =
  channel_in_use :: "bool list"
  remapping_index :: "u8 list"
  total_channels :: nat

definition remapping_zero :: le_channel_remapping where
  "remapping_zero = \<lparr>channel_in_use = replicate 37 False, remapping_index = replicate 37 0, total_channels = 0\<rparr>"

text \<open>The inner loop over the bits of a byte leaves at channel 37; there it is in the last byte.\<close>

definition le_map_bit :: "u8 \<Rightarrow> nat \<Rightarrow> le_channel_remapping \<Rightarrow> le_channel_remapping res" where
  "le_map_bit b idx r =
     (if b AND 1 \<noteq> 0 then
        bnd (wr (channel_in_use r) idx True) (\<lambda>u.
        bnd (wr (remapping_index r) (total_channels r) (of_nat idx)) (\<lambda>m.
        Inr (r\<lparr>channel_in_use := u, remapping_index := m, total_channels := total_channels r + 1\<rparr>)))
      else bnd (wr (channel_in_use r) idx False) (\<lambda>u. Inr (r\<lparr>channel_in_use := u\<rparr>)))"

primrec le_map_byte :: "nat \<Rightarrow> u8 \<Rightarrow> nat \<Rightarrow> le_channel_remapping \<Rightarrow> (nat \<times> le_channel_remapping) res" where
  "le_map_byte 0 b idx r = Inr (idx, r)"
| "le_map_byte (Suc n) b idx r =
     bnd (le_map_bit b idx r) (\<lambda>r. if idx + 1 = 37 then Inr (idx + 1, r) else le_map_byte n (drop_bit 1 b) (idx + 1) r)"

definition le_parse_channel_map :: "u8 list \<Rightarrow> le_channel_remapping res" where
  "le_parse_channel_map channel_map =
     bnd (loop 5 (\<lambda>i (idx, r). bnd (rd channel_map i) (\<lambda>b. le_map_byte 8 b idx r)) (0, remapping_zero)) (\<lambda>(_, r). Inr r)"

definition le_map_channel :: "u8 \<Rightarrow> le_channel_remapping \<Rightarrow> u8 res" where
  "le_map_channel channel_idx remapping =
     bnd (rd (channel_in_use remapping) (unat channel_idx)) (\<lambda>used.
     if used then Inr channel_idx
     else if total_channels remapping = 0 then Inl Div0
     else rd (remapping_index remapping) (unat channel_idx mod total_channels remapping))"

section \<open>Channels: lemmas\<close>

lemma u8_below40: "(x :: u8) < 40 \<Longrightarrow> x \<in> set (map of_nat [0..<40])"
proof -
  assume "x < 40"
  then have "unat x \<in> set [0..<40]" by (simp add: word_less_nat_alt)
  moreover have "x = of_nat (unat x)" by simp
  ultimately show ?thesis unfolding set_map by (rule rev_image_eqI)
qed

lemma channel_index_phys: "idx < 40 \<Longrightarrow> btle_channel_index (btle_channel_index_to_phys idx) = idx"
proof -
  have "\<forall>x \<in> set (map of_nat [0..<40]). btle_channel_index (btle_channel_index_to_phys x) = x"
    by (simp add: upt_conv_Cons btle_channel_index_def btle_channel_index_to_phys_def)
  then show "idx < 40 \<Longrightarrow> ?thesis" using u8_below40 by blast
qed

lemma phys_channel_index: "k < 40 \<Longrightarrow> btle_channel_index_to_phys (btle_channel_index (2402 + 2 * of_nat k)) = 2402 + 2 * of_nat k"
proof -
  have "\<forall>k \<in> set [0..<40]. btle_channel_index_to_phys (btle_channel_index (2402 + 2 * of_nat k)) = 2402 + 2 * of_nat k"
    by (simp add: upt_conv_Cons btle_channel_index_def btle_channel_index_to_phys_def)
  then show "k < 40 \<Longrightarrow> ?thesis" by simp
qed

lemma index_le: "(if c = 0 then 37 else if c < 12 then ucast c - 1 else if c = 12 then 38 else if c < 39 then ucast c - 2 else 39 :: u8) < 40"
  for c :: u16
proof -
  have u: "c < 39 \<Longrightarrow> unat (ucast c :: u8) = unat c" by (simp add: word_less_nat_alt unsigned_ucast_eq take_bit_eq_mod)
  have "c \<noteq> 0 \<Longrightarrow> c < 39 \<Longrightarrow> unat (ucast c - 1 :: u8) < 40"
    using u by (simp add: unat_sub_if' word_less_nat_alt unat_gt_0 Suc_leI)
  moreover have "\<not> c < 12 \<Longrightarrow> c < 39 \<Longrightarrow> unat (ucast c - 2 :: u8) < 40"
    using u by (simp add: unat_sub_if' word_less_nat_alt)
  moreover have "c < 12 \<Longrightarrow> c < 39" by (simp add: word_less_nat_alt)
  ultimately show ?thesis by (simp add: word_less_nat_alt)
qed

lemma channel_index_le: "btle_channel_index ch < 40"
  unfolding btle_channel_index_def Let_def by (rule index_le)

lemma btle_crc_lut_lin: "btle_crc_lut = lin_tab [0x01b4c0, 0x036980, 0x06d300, 0x0da600, 0x1b4c00, 0x369800, 0x6d3000, 0xda6000]"
  by (simp add: lin_tab_def btle_crc_lut_def)


section \<open>The CRC register\<close>

definition b24 :: "u32 \<Rightarrow> bool" where
  "b24 s \<longleftrightarrow> (\<forall>n \<ge> 24. \<not> bit s n)"

lemma b24_mask: "b24 (s AND 0xffffff)"
proof -
  have m: "(0xffffff :: u32) = mask 24" by (simp add: mask_eq_exp_minus_1)
  show ?thesis unfolding m b24_def by (auto simp: bit_simps)
qed

lemma b24_poly: "b24 0xda6000"
proof -
  have "(0xda6000 :: u32) = 0xda6000 AND 0xffffff" by simp
  then show ?thesis using b24_mask by metis
qed

lemma b24_lfsr: "b24 s \<Longrightarrow> b24 (lfsr 0xda6000 s)"
  using b24_poly by (auto simp: b24_def lfsr_def bit_simps)

lemma b24_feed: "b24 s \<Longrightarrow> b24 (s XOR (ucast (cur :: u8) AND 1))"
  by (auto simp: b24_def bit_simps and_masks)

lemma crc_step:
  fixes cur :: u8
  assumes "b24 s"
  shows "(let nb = (s XOR ucast cur) AND 1; t = drop_bit 1 s in if nb \<noteq> 0 then (t OR push_bit 23 1) XOR 0x5a6000 else t) =
    lfsr 0xda6000 (s XOR (ucast cur AND 1))"
proof -
  have b: "bit (s XOR (ucast cur AND 1)) 0 \<longleftrightarrow> (s XOR ucast cur) AND 1 \<noteq> 0"
    unfolding one_and_nonzero by (simp add: bit_simps)
  have d: "drop_bit 1 (s XOR (ucast cur AND 1)) = drop_bit 1 s" by (rule bit_word_eqI) (auto simp: bit_simps and_masks)
  have m: "(0xda6000 :: u32) = push_bit 23 1 XOR 0x5a6000" by simp
  have "(drop_bit 1 s OR push_bit 23 1) = drop_bit 1 s XOR push_bit 23 1"
  proof (rule bit_word_eqI)
    fix n
    have "bit (8388608 :: u32) n \<Longrightarrow> n = 23" using bit_exp_iff [where 'a = u32, of 23 n] by simp
    then show "bit (drop_bit 1 s OR push_bit 23 1) n = bit (drop_bit 1 s XOR push_bit 23 1) n"
      using assms by (auto simp: bit_simps b24_def)
  qed
  then show ?thesis unfolding Let_def lfsr_def d m using b by (simp add: xor.assoc)
qed

lemma crc_bits_lfsr:
  "b24 s \<Longrightarrow> btle_crc_bits n cur s = lfsr_in 0xda6000 n (ucast cur) s \<and> b24 (btle_crc_bits n cur s)"
proof (induction n arbitrary: cur s)
  case (Suc n)
  let ?s = "lfsr 0xda6000 (s XOR (ucast cur AND 1))"
  have "b24 ?s" by (rule b24_lfsr [OF b24_feed [OF Suc.prems]])
  moreover have "btle_crc_bits (Suc n) cur s = btle_crc_bits n (drop_bit 1 cur) ?s"
    using crc_step [OF Suc.prems, of cur] by (simp add: Let_def)
  moreover have "(ucast (drop_bit 1 cur) :: u32) = drop_bit 1 (ucast cur)" by (rule bit_word_eqI) (auto simp: bit_simps dest: bit_imp_le_length)
  ultimately show ?case using Suc.IH [of ?s "drop_bit 1 cur"] by (metis lfsr_in.simps(2))
qed simp

lemma crc_bits_b24: "b24 s \<Longrightarrow> b24 (btle_crc_bits n cur s)"
  using crc_bits_lfsr by blast

lemma btle_lut_lfsr: "unat d < 256 \<Longrightarrow> btle_crc_lut ! unat (d :: u32) = (lfsr 0xda6000 ^^ 8) d"
  unfolding btle_crc_lut_lin
  by (rule lin_tab_eq_map [OF linear_funpow [OF lfsr_linear]])
    (simp_all add: upt_conv_Cons funpow_eval lfsr_def)

lemma crc_byte_lut:
  assumes "b24 s"
  shows "btle_crc_bits 8 cur s = drop_bit 8 s XOR btle_crc_lut ! unat (cur XOR ucast (s AND 0xff))"
proof -
  have c: "take_bit 8 (ucast cur :: u32) = ucast cur" by (rule bit_word_eqI) (auto simp: bit_simps dest: bit_imp_le_length)
  let ?k = "cur XOR ucast (s AND 0xff)"
  have k: "take_bit 8 (s XOR ucast cur) = (ucast ?k :: u32)"
  proof -
    have m: "(0xff :: u32) = mask 8" by (simp add: mask_eq_exp_minus_1)
    show ?thesis unfolding m by (intro bit_word_eqI) (auto simp: bit_simps dest: bit_imp_le_length)
  qed
  have u: "unat (ucast ?k :: u32) = unat ?k" using unat_u8 [of ?k] by (simp add: unsigned_ucast_eq take_bit_nat_eq_self)
  have d: "drop_bit 8 (s XOR ucast cur) = drop_bit 8 s" by (rule bit_word_eqI) (auto simp: bit_simps dest: bit_imp_le_length)
  have "btle_crc_bits 8 cur s = (lfsr 0xda6000 ^^ 8) (s XOR ucast cur)"
    using crc_bits_lfsr [OF assms, of 8 cur] c by (simp add: lfsr_in_eq)
  also have "\<dots> = (lfsr 0xda6000 ^^ 8) (ucast ?k) XOR drop_bit 8 s" unfolding lfsr_table [of 8 _ "s XOR ucast cur"] k d ..
  also have "(lfsr 0xda6000 ^^ 8) (ucast ?k) = btle_crc_lut ! unat ?k" using btle_lut_lfsr [of "ucast ?k"] u unat_u8 [of ?k] by simp
  finally show ?thesis by (simp add: xor.commute)
qed


lemma crcgen_loop:
  assumes "b24 s"
  shows "loop n (\<lambda>i state. bnd (rd data i) (\<lambda>d.
      let key = d XOR ucast (state AND 0xff) in Inr (drop_bit 8 state XOR btle_crc_lut ! unat key))) s =
    loop n (\<lambda>i state. bnd (rd data i) (\<lambda>cur. Inr (btle_crc_bits 8 cur state))) s \<and>
    (\<forall>t. loop n (\<lambda>i state. bnd (rd data i) (\<lambda>cur. Inr (btle_crc_bits 8 cur state))) s = Inr t \<longrightarrow> b24 t)"
proof (induction n)
  case (Suc n)
  let ?L = "loop n (\<lambda>i state. bnd (rd data i) (\<lambda>cur. Inr (btle_crc_bits 8 cur state))) s"
  show ?case
  proof (cases ?L)
    case (Inr t)
    then have t: "b24 t" using Suc.IH by blast
    show ?thesis using Suc.IH Inr crc_bits_b24 [OF t]
      by (cases "rd data n") (auto simp: Let_def simp flip: crc_byte_lut [OF t])
  qed (use Suc.IH in simp)
qed (use assms in simp)

text \<open>The table driven CRC of \<open>btle_crcgen_lut\<close> is the bit serial one of \<open>btle_calc_crc\<close>, for every initial value and length, out of
  range reads included.\<close>

theorem crcgen_lut_eq: "btle_crcgen_lut crc_init data len = btle_calc_crc crc_init data len"
  unfolding btle_crcgen_lut_def btle_calc_crc_def using crcgen_loop [OF b24_mask] by blast

definition crc_next :: "u32 \<Rightarrow> u32 \<Rightarrow> u32" where
  "crc_next c s = (let nb = (s XOR c) AND 1; u = drop_bit 1 s in if nb \<noteq> 0 then (u OR push_bit 23 1) XOR 0x5a6000 else u)"

lemma crc_bits_next: "btle_crc_bits (Suc n) cur s = btle_crc_bits n (drop_bit 1 cur) (crc_next (ucast cur) s)"
  by (simp add: crc_next_def Let_def)

lemma crc_bits_snoc: "btle_crc_bits (Suc n) cur s = crc_next (drop_bit n (ucast cur)) (btle_crc_bits n cur s)"
proof (induction n arbitrary: cur s)
  case 0
  show ?case unfolding crc_bits_next by simp
next
  case (Suc n)
  have "(drop_bit n (ucast (drop_bit 1 cur)) :: u32) = drop_bit (Suc n) (ucast cur)"
    by (rule bit_word_eqI) (auto simp: bit_simps dest: bit_imp_le_length)
  then show ?case using Suc.IH [of "drop_bit 1 cur" "crc_next (ucast cur) s"] by (metis crc_bits_next)
qed

lemma b24_less: "b24 s \<Longrightarrow> bit s n \<Longrightarrow> n < 24"
  by (auto simp: b24_def not_le [symmetric])

lemma bit_and1: "bit (x AND (1 :: u32)) n \<longleftrightarrow> n = 0 \<and> bit x 0"
  by (auto simp: bit_simps)

lemma uncrc_next_bits:
  fixes t c a b :: u32
  assumes t: "b24 t" and a: "\<And>n. bit a n \<longleftrightarrow> n = 23" and b: "\<And>n. bit b n \<Longrightarrow> n < 23"
  shows "bit t 0 \<noteq> bit c 0 \<Longrightarrow> ((push_bit 1 ((drop_bit 1 t OR a) XOR b) AND mask 24) OR (1 XOR (c AND 1))) XOR push_bit 1 b = t"
    (is "?d \<Longrightarrow> ?l = t")
    and "bit t 0 = bit c 0 \<Longrightarrow> (push_bit 1 (drop_bit 1 t) AND mask 24) OR (c AND 1) = t"
    (is "_ \<Longrightarrow> ?m = t")
proof -
  show "?l = t" if "?d"
  proof (rule bit_word_eqI)
    fix n :: nat
    assume "n < LENGTH(32)"
    then show "bit ?l n = bit t n"
      using b24_less [OF t, of n] b [of "n - 1"] that by (cases n) (auto simp: bit_and1 a bit_simps)
  qed
  show "?m = t" if "bit t 0 = bit c 0"
  proof (rule bit_word_eqI)
    fix n :: nat
    assume "n < LENGTH(32)"
    then show "bit ?m n = bit t n" using b24_less [OF t, of n] that by (cases n) (auto simp: bit_and1 bit_simps)
  qed
qed

lemma crc_consts: "bit (push_bit 23 1 :: u32) n \<longleftrightarrow> n = 23" "bit (0x5a6000 :: u32) n \<Longrightarrow> n < 23"
proof -
  show "bit (push_bit 23 1 :: u32) n \<longleftrightarrow> n = 23" using bit_exp_iff [where 'a = u32, of 23 n] by auto
  have "(0x5a6000 :: u32) = take_bit 23 0x5a6000" by simp
  then show "bit (0x5a6000 :: u32) n \<Longrightarrow> n < 23" by (metis bit_take_bit_iff)
qed

lemma uncrc_next:
  assumes "b24 t"
  shows "btle_uncrc_bit cur k (crc_next (drop_bit k (ucast cur)) t) = t"
proof -
  let ?c = "drop_bit k (ucast cur) :: u32"
  let ?u = "drop_bit 1 t"
  have m: "(0xffffff :: u32) = mask 24" by (simp add: mask_eq_exp_minus_1)
  have nb: "(t XOR ?c) AND 1 \<noteq> 0 \<longleftrightarrow> bit t 0 \<noteq> bit ?c 0" unfolding one_and_nonzero by (simp add: bit_simps)
  have t0: "drop_bit 23 ?u = 0" by (rule bit_word_eqI) (auto simp: bit_simps dest: b24_less [OF assms])
  show ?thesis
  proof (cases "bit t 0 = bit ?c 0")
    case True
    then have n: "crc_next ?c t = ?u" using nb by (simp add: crc_next_def)
    show ?thesis unfolding n btle_uncrc_bit_def Let_def t0 m using uncrc_next_bits(2) [where b = "0x5a6000", OF assms crc_consts True] by simp
  next
    case False
    let ?v = "(?u OR push_bit 23 1) XOR 0x5a6000"
    have n: "crc_next ?c t = ?v" using False nb by (simp add: crc_next_def)
    have "drop_bit 23 ?v = (drop_bit 23 ?u OR drop_bit 23 (push_bit 23 1)) XOR drop_bit 23 0x5a6000"
      by (simp only: drop_bit_xor drop_bit_or)
    then have d: "drop_bit 23 ?v = 1" unfolding t0 by simp
    have p: "(0xb4c000 :: u32) = push_bit 1 0x5a6000" by simp
    show ?thesis unfolding n btle_uncrc_bit_def Let_def d p m using uncrc_next_bits(1) [where b = "0x5a6000", OF assms crc_consts False] by simp
  qed
qed

lemma uncrc_bits: "b24 s \<Longrightarrow> fold (\<lambda>j. btle_uncrc_bit cur (n - 1 - j)) [0..<n] (btle_crc_bits n cur s) = s"
proof (induction n)
  case (Suc n)
  have "fold (\<lambda>j. btle_uncrc_bit cur (Suc n - 1 - j)) (map Suc [0..<n]) t = fold (\<lambda>j. btle_uncrc_bit cur (n - 1 - j)) [0..<n] t" for t
    by (simp add: fold_map comp_def)
  moreover have "btle_uncrc_bit cur n (btle_crc_bits (Suc n) cur s) = btle_crc_bits n cur s"
    unfolding crc_bits_snoc using crc_bits_b24 [OF Suc.prems] by (intro uncrc_next)
  ultimately show ?case unfolding upt_conv_Cons [OF zero_less_Suc] map_Suc_upt [symmetric]
    using Suc by (simp del: btle_crc_bits.simps)
qed simp

lemma uncrc_byte: "b24 s \<Longrightarrow> fold (\<lambda>j. btle_uncrc_bit cur (7 - j)) [0..<8] (btle_crc_bits 8 cur s) = s"
  using uncrc_bits [of s cur 8] by simp

lemma uncrc_loop:
  assumes "\<And>i. i < n \<Longrightarrow> st (Suc i) = btle_crc_bits 8 (data ! i) (st i)" and "\<And>i. i \<le> n \<Longrightarrow> b24 (st i)" and "n \<le> length data"
  shows "m \<le> n \<Longrightarrow> loop m (\<lambda>i state. bnd (rd data (n - 1 - i)) (\<lambda>cur.
       Inr (fold (\<lambda>j. btle_uncrc_bit cur (7 - j)) [0..<8] state))) (st n) = Inr (st (n - m))"
proof (induction m)
  case (Suc m)
  have s: "Suc (n - Suc m) = n - m" using Suc.prems by simp
  have "st (n - m) = btle_crc_bits 8 (data ! (n - 1 - m)) (st (n - Suc m))" using assms(1) [of "n - Suc m"] Suc.prems s by simp
  then show ?case using Suc assms(2) [of "n - Suc m"] assms(3) by (simp add: rd_def uncrc_byte)
qed simp

lemma calc_crc_states:
  assumes "n \<le> length data" and "b24 s"
  obtains st where "st 0 = s" and "\<And>i. i < n \<Longrightarrow> st (Suc i) = btle_crc_bits 8 (data ! i) (st i)" and "\<And>i. b24 (st i)"
    and "loop n (\<lambda>i state. bnd (rd data i) (\<lambda>cur. Inr (btle_crc_bits 8 cur state))) s = Inr (st n)"
proof -
  define st where "st = rec_nat s (\<lambda>i. btle_crc_bits 8 (data ! i))"
  have b: "b24 (st i)" for i by (induction i) (use assms crc_bits_b24 in \<open>auto simp: st_def\<close>)
  have "m \<le> n \<Longrightarrow> loop m (\<lambda>i state. bnd (rd data i) (\<lambda>cur. Inr (btle_crc_bits 8 cur state))) s = Inr (st m)" for m
    by (induction m) (use assms in \<open>auto simp: st_def rd_def\<close>)
  then show ?thesis using b by (intro that [of st]) (auto simp: st_def)
qed

text \<open>\<open>btle_reverse_crc\<close> applied to the CRC of a packet gives the initial value back, the 24 bits in reverse order.\<close>

theorem reverse_crc_inverts:
  assumes "len \<le> length data" and "btle_calc_crc crc_init data len = Inr crc"
  shows "btle_reverse_crc crc data len = Inr (reverse24 (crc_init AND 0xffffff))"
proof -
  obtain st where "st 0 = crc_init AND 0xffffff" and st: "\<And>i. i < len \<Longrightarrow> st (Suc i) = btle_crc_bits 8 (data ! i) (st i)" "\<And>i. b24 (st i)"
    and "loop len (\<lambda>i state. bnd (rd data i) (\<lambda>cur. Inr (btle_crc_bits 8 cur state))) (crc_init AND 0xffffff) = Inr (st len)"
    using calc_crc_states [OF assms(1) b24_mask] by blast
  then show ?thesis using assms uncrc_loop [of len st data len] by (simp add: btle_calc_crc_def btle_reverse_crc_def)
qed

theorem reverse_crc_inverts_witness:
  "\<exists>crc. btle_calc_crc 0x555555 [0x40, 0x06, 0xa1] 3 = Inr crc \<and> btle_reverse_crc crc [0x40, 0x06, 0xa1] 3 = Inr (reverse24 0x555555)"
proof -
  obtain crc where "btle_calc_crc 0x555555 [0x40, 0x06, 0xa1] 3 = Inr crc" by (simp add: btle_calc_crc_def loop_numeral rd_def)
  then show ?thesis using reverse_crc_inverts [of 3 "[0x40, 0x06, 0xa1]" "0x555555" crc] by simp
qed

section \<open>The whitening register\<close>

text \<open>The specification: a register of seven bits, seeded with a one and the channel index, most significant bit first.\<close>

definition le_white_step :: "u8 \<Rightarrow> u8" where
  "le_white_step s = (push_bit 1 s AND 0x7f) XOR (if bit s 6 then 0x11 else 0)"

definition le_white_seed :: "nat \<Rightarrow> u8" where
  "le_white_seed idx = fold (\<lambda>j r. if bit idx (6 - j) then r OR push_bit j 1 else r) [1..<7] 1"

definition le_white_bit :: "nat \<Rightarrow> nat \<Rightarrow> bool" where
  "le_white_bit idx n = bit ((le_white_step ^^ n) (le_white_seed idx)) 6"

definition le_white_states :: "u8 list" where
  "le_white_states = [
    117, 123, 103, 95, 47, 94, 45, 90, 37, 74, 5, 10, 20, 40, 80, 49, 98, 85, 59, 118, 125, 107, 71, 31, 62,
    124, 105, 67, 23, 46, 92, 41, 82, 53, 106, 69, 27, 54, 108, 73, 3, 6, 12, 24, 48, 96, 81, 51, 102, 93,
    43, 86, 61, 122, 101, 91, 39, 78, 13, 26, 52, 104, 65, 19, 38, 76, 9, 18, 36, 72, 1, 2, 4, 8, 16,
    32, 64, 17, 34, 68, 25, 50, 100, 89, 35, 70, 29, 58, 116, 121, 99, 87, 63, 126, 109, 75, 7, 14, 28, 56,
    112, 113, 115, 119, 127, 111, 79, 15, 30, 60, 120, 97, 83, 55, 110, 77, 11, 22, 44, 88, 33, 66, 21, 42, 84,
    57, 114]"

lemma white_states_step: "map le_white_step le_white_states = rotate1 le_white_states"
  by (simp add: le_white_states_def le_white_step_def)

lemma white_states_out: "map (\<lambda>s. of_bool (bit s 6)) le_white_states = whitening"
  by (simp add: le_white_states_def whitening_def)

lemma white_states_len: "length le_white_states = 127" by (simp add: le_white_states_def)

lemma white_seeds: "map (\<lambda>k. le_white_states ! k) whitening_index = map le_white_seed [0..<40]"
  by (simp add: le_white_states_def whitening_index_def le_white_seed_def upt_conv_Cons bit_0)

lemma white_states_next: "k < 127 \<Longrightarrow> le_white_step (le_white_states ! k) = le_white_states ! ((k + 1) mod 127)"
  using white_states_step white_states_len nth_rotate1 [of k le_white_states] by (metis nth_map Suc_eq_plus1)

lemma white_states_pow: "k < 127 \<Longrightarrow> (le_white_step ^^ n) (le_white_states ! k) = le_white_states ! ((k + n) mod 127)"
  by (induction n) (simp_all add: white_states_next mod_Suc_eq)

lemma whitening_len: "length whitening = 127" "length whitening_index = 40" by (simp_all add: whitening_def whitening_index_def)

lemma whitening_index_less: "i < 40 \<Longrightarrow> whitening_index ! i < 127"
proof -
  have "\<forall>x \<in> set whitening_index. x < 127" by (simp add: whitening_index_def)
  then show "i < 40 \<Longrightarrow> ?thesis" using whitening_len by simp
qed

lemma whitening_nth: "k < 127 \<Longrightarrow> whitening ! k = of_bool (bit (le_white_states ! k) 6)"
  using white_states_out white_states_len by (metis nth_map)

lemma whitening_lfsr:
  assumes "i < 40"
  shows "whitening ! ((whitening_index ! i + n) mod 127) = of_bool (le_white_bit i n)"
proof -
  have "le_white_states ! (whitening_index ! i) = le_white_seed i"
    using arg_cong [OF white_seeds, of "\<lambda>l. l ! i"] assms whitening_len by simp
  then show ?thesis using white_states_pow [OF whitening_index_less [OF assms], of n]
    by (simp add: whitening_nth le_white_bit_def)
qed

text \<open>A whitened byte as it leaves \<open>le_dewhiten\<close>: bit \<open>j\<close> of byte \<open>i\<close> comes with bit \<open>8 i + j\<close> of the register's output.\<close>

definition le_white_byte :: "nat \<Rightarrow> nat \<Rightarrow> u8 \<Rightarrow> u8" where
  "le_white_byte idx i b = fold (\<lambda>j r. r OR push_bit j (of_bool (bit b (7 - j) \<noteq> le_white_bit idx (8 * i + j)))) [0..<8] 0"

lemma drop_bit_and_1: "drop_bit k (b :: u8) AND 1 = of_bool (bit b k)"
  by (simp add: and_one_eq bit_iff_odd_drop_bit odd_iff_mod_2_eq_one)

lemma dewhiten_byte_lfsr:
  assumes "i < 40"
  shows "le_dewhiten_byte ((whitening_index ! i + 8 * n) mod 127) b = le_white_byte i n b"
proof -
  have "whitening ! (((whitening_index ! i + 8 * n) mod 127 + j) mod 127) = of_bool (le_white_bit i (8 * n + j))" for j
    using whitening_lfsr [OF assms, of "8 * n + j"] by (simp add: mod_add_left_eq add.assoc)
  moreover have "(of_bool x XOR of_bool y :: u8) = of_bool (x \<noteq> y)" for x y by simp
  ultimately show ?thesis unfolding le_dewhiten_byte_def le_white_byte_def drop_bit_and_1 by presburger
qed

text \<open>\<open>le_dewhiten\<close> adds to each bit the output of the whitening register of the specification, seeded with the index of the
  channel, and reverses the bits of each byte; its tables of 127 bits and 40 positions are that register.\<close>

theorem dewhiten_lfsr:
  assumes "size0 \<le> length data"
  shows "le_dewhiten data size0 channel =
    Inr (map (\<lambda>i. le_white_byte (unat (btle_channel_index channel)) i (data ! i)) [0..<size0] @ drop size0 data)"
proof -
  let ?c = "unat (btle_channel_index channel)"
  have c: "?c < 40" using channel_index_le [of channel] by (simp add: word_less_nat_alt)
  have "rd whitening_index ?c = Inr (whitening_index ! ?c)" using c whitening_len by (simp add: rd_def)
  moreover have "m \<le> size0 \<Longrightarrow> loop m (\<lambda>i data. bnd (rd data i) (\<lambda>b. wr data i (le_dewhiten_byte ((whitening_index ! ?c + 8 * i) mod 127) b))) data =
    Inr (map (\<lambda>i. le_white_byte ?c i (data ! i)) [0..<m] @ drop m data)" for m
  proof (induction m)
    case (Suc m)
    have "drop m data = data ! m # drop (Suc m) data" using Suc.prems assms by (simp add: Cons_nth_drop_Suc)
    then show ?case using Suc assms by (simp add: rd_def wr_def nth_append list_update_append dewhiten_byte_lfsr [OF c])
  qed simp
  ultimately show ?thesis by (simp add: le_dewhiten_def)
qed

theorem dewhiten_lfsr_witness:
  "le_dewhiten [0x12, 0x34, 0x56] 2 2402 = Inr [le_white_byte 37 0 0x12, le_white_byte 37 1 0x34, 0x56]"
  using dewhiten_lfsr [of 2 "[0x12, 0x34, 0x56]" 2402] by (simp add: upt_conv_Cons btle_channel_index_def)

text \<open>The 32 bits from each position of the whitening sequence on.\<close>

definition le_white_words :: "u32 list" where
  "le_white_words = [
    0x4e7b42af, 0xa73da157, 0x539ed0ab, 0xa9cf6855, 0xd4e7b42a, 0x6a73da15, 0x3539ed0a, 0x9a9cf685, 0xcd4e7b42, 0x66a73da1,
    0x33539ed0, 0x19a9cf68, 0xcd4e7b4, 0x66a73da, 0x833539ed, 0xc19a9cf6, 0x60cd4e7b, 0xb066a73d, 0xd833539e, 0x6c19a9cf,
    0xb60cd4e7, 0x5b066a73, 0xad833539, 0xd6c19a9c, 0xeb60cd4e, 0x75b066a7, 0xbad83353, 0x5d6c19a9, 0x2eb60cd4, 0x175b066a,
    0x8bad8335, 0xc5d6c19a, 0x62eb60cd, 0x3175b066, 0x98bad833, 0x4c5d6c19, 0x262eb60c, 0x13175b06, 0x898bad83, 0x44c5d6c1,
    0x2262eb60, 0x113175b0, 0x898bad8, 0x44c5d6c, 0x2262eb6, 0x8113175b, 0x40898bad, 0x2044c5d6, 0x902262eb, 0x48113175,
    0x240898ba, 0x92044c5d, 0xc902262e, 0x64811317, 0xb240898b, 0x592044c5, 0x2c902262, 0x96481131, 0xcb240898, 0xe592044c,
    0xf2c90226, 0x79648113, 0xbcb24089, 0xde592044, 0xef2c9022, 0x77964811, 0x3bcb2408, 0x1de59204, 0xef2c902, 0x87796481,
    0xc3bcb240, 0xe1de5920, 0xf0ef2c90, 0xf8779648, 0xfc3bcb24, 0xfe1de592, 0x7f0ef2c9, 0x3f877964, 0x1fc3bcb2, 0x8fe1de59,
    0xc7f0ef2c, 0xe3f87796, 0x71fc3bcb, 0xb8fe1de5, 0xdc7f0ef2, 0x6e3f8779, 0x371fc3bc, 0x1b8fe1de, 0x8dc7f0ef, 0x46e3f877,
    0xa371fc3b, 0x51b8fe1d, 0x28dc7f0e, 0x946e3f87, 0x4a371fc3, 0xa51b8fe1, 0xd28dc7f0, 0xe946e3f8, 0xf4a371fc, 0xfa51b8fe,
    0x7d28dc7f, 0xbe946e3f, 0x5f4a371f, 0xafa51b8f, 0x57d28dc7, 0xabe946e3, 0x55f4a371, 0x2afa51b8, 0x157d28dc, 0xabe946e,
    0x855f4a37, 0x42afa51b, 0xa157d28d, 0xd0abe946, 0x6855f4a3, 0xb42afa51, 0xda157d28, 0xed0abe94, 0xf6855f4a, 0x7b42afa5,
    0x3da157d2, 0x9ed0abe9, 0xcf6855f4, 0xe7b42afa, 0x73da157d, 0x39ed0abe, 0x9cf6855f]"

lemma white_words_rotate:
  "rotate1 le_white_words = map2 (\<lambda>v b. drop_bit 1 v OR push_bit 31 (ucast b)) le_white_words (drop 32 whitening @ take 32 whitening)"
  by (simp add: le_white_words_def whitening_def)

lemma white_words_len: "length le_white_words = 127" by (simp add: le_white_words_def)

text \<open>The same words 32 positions apart, and the place of each channel's row among them.\<close>

definition le_white_hops :: "u32 list" where
  "le_white_hops = [
    0x4e7b42af, 0x62eb60cd, 0xef2c9022, 0xd28dc7f0, 0xa73da157, 0x3175b066, 0x77964811, 0xe946e3f8, 0x539ed0ab, 0x98bad833,
    0x3bcb2408, 0xf4a371fc, 0xa9cf6855, 0x4c5d6c19, 0x1de59204, 0xfa51b8fe, 0xd4e7b42a, 0x262eb60c, 0xef2c902, 0x7d28dc7f,
    0x6a73da15, 0x13175b06, 0x87796481, 0xbe946e3f, 0x3539ed0a, 0x898bad83, 0xc3bcb240, 0x5f4a371f, 0x9a9cf685, 0x44c5d6c1,
    0xe1de5920, 0xafa51b8f, 0xcd4e7b42, 0x2262eb60, 0xf0ef2c90, 0x57d28dc7, 0x66a73da1, 0x113175b0, 0xf8779648, 0xabe946e3,
    0x33539ed0, 0x898bad8, 0xfc3bcb24, 0x55f4a371, 0x19a9cf68, 0x44c5d6c, 0xfe1de592, 0x2afa51b8, 0xcd4e7b4, 0x2262eb6,
    0x7f0ef2c9, 0x157d28dc, 0x66a73da, 0x8113175b, 0x3f877964, 0xabe946e, 0x833539ed, 0x40898bad, 0x1fc3bcb2, 0x855f4a37,
    0xc19a9cf6, 0x2044c5d6, 0x8fe1de59, 0x42afa51b, 0x60cd4e7b, 0x902262eb, 0xc7f0ef2c, 0xa157d28d, 0xb066a73d, 0x48113175,
    0xe3f87796, 0xd0abe946, 0xd833539e, 0x240898ba, 0x71fc3bcb, 0x6855f4a3, 0x6c19a9cf, 0x92044c5d, 0xb8fe1de5, 0xb42afa51,
    0xb60cd4e7, 0xc902262e, 0xdc7f0ef2, 0xda157d28, 0x5b066a73, 0x64811317, 0x6e3f8779, 0xed0abe94, 0xad833539, 0xb240898b,
    0x371fc3bc, 0xf6855f4a, 0xd6c19a9c, 0x592044c5, 0x1b8fe1de, 0x7b42afa5, 0xeb60cd4e, 0x2c902262, 0x8dc7f0ef, 0x3da157d2,
    0x75b066a7, 0x96481131, 0x46e3f877, 0x9ed0abe9, 0xbad83353, 0xcb240898, 0xa371fc3b, 0xcf6855f4, 0x5d6c19a9, 0xe592044c,
    0x51b8fe1d, 0xe7b42afa, 0x2eb60cd4, 0xf2c90226, 0x28dc7f0e, 0x73da157d, 0x175b066a, 0x79648113, 0x946e3f87, 0x39ed0abe,
    0x8bad8335, 0xbcb24089, 0x4a371fc3, 0x9cf6855f, 0xc5d6c19a, 0xde592044, 0xa51b8fe1]"

definition le_white_starts :: "nat list" where
  "le_white_starts = [26, 121, 99, 63, 54, 57, 60, 23, 10, 29, 124, 104, 66, 78, 119, 102, 40, 13, 32, 89, 107, 68, 5, 0, 105, 79, 24, 122, 90, 69, 81, 80, 33, 108, 82, 106, 125, 67, 61, 27]"

lemma white_hops: "le_white_hops = map (\<lambda>m. le_white_words ! ((32 * m) mod 127)) [0..<127]"
  by (simp add: upt_conv_Cons le_white_words_def le_white_hops_def)

lemma white_starts: "map (\<lambda>p. (32 * p) mod 127) le_white_starts = whitening_index"
  by (simp add: le_white_starts_def whitening_index_def)

lemma white_starts_rows: "whitening_word = map (\<lambda>p. take 12 (drop p (le_white_hops @ le_white_hops))) le_white_starts"
  by (simp add: whitening_word_def le_white_starts_def le_white_hops_def)

lemma white_words_table:
  assumes "i < 40" and "j < 12"
  shows "whitening_word ! i ! j = le_white_words ! ((whitening_index ! i + 32 * j) mod 127)"
proof -
  have len: "length le_white_starts = 40" "length le_white_hops = 127" by (simp_all add: le_white_starts_def white_hops)
  let ?p = "le_white_starts ! i"
  have "\<forall>p \<in> set le_white_starts. p < 127" by (simp add: le_white_starts_def)
  then have p: "?p < 127" using assms len by simp
  have "whitening_word ! i ! j = (le_white_hops @ le_white_hops) ! (?p + j)"
    unfolding white_starts_rows using assms len p by (simp del: take_append drop_append)
  also have "\<dots> = le_white_hops ! ((?p + j) mod 127)" using assms p by (simp add: nth_append len mod_if)
  also have "\<dots> = le_white_words ! ((32 * (?p + j)) mod 127)" unfolding white_hops by (simp add: mod_mult_right_eq)
  also have "(32 * (?p + j)) mod 127 = ((32 * ?p) mod 127 + 32 * j) mod 127" unfolding mod_add_left_eq by (simp add: algebra_simps)
  also have "(32 * ?p) mod 127 = whitening_index ! i" using assms len white_starts by (metis nth_map)
  finally show ?thesis .
qed

lemma whitening_01: "k < 127 \<Longrightarrow> whitening ! k = of_bool (whitening ! k = 1)"
  by (simp add: whitening_nth)

lemma white_words_next:
  assumes "w < 127"
  shows "le_white_words ! ((w + 1) mod 127) = drop_bit 1 (le_white_words ! w) OR push_bit 31 (of_bool (whitening ! ((w + 32) mod 127) = 1))"
proof -
  have "(drop 32 whitening @ take 32 whitening) ! w = whitening ! ((w + 32) mod 127)"
    using assms whitening_len by (simp add: nth_append mod_if add.commute)
  then have "rotate1 le_white_words ! w = drop_bit 1 (le_white_words ! w) OR push_bit 31 (ucast (whitening ! ((w + 32) mod 127)))"
    unfolding white_words_rotate using assms whitening_len white_words_len by simp
  moreover have "(ucast (whitening ! ((w + 32) mod 127)) :: u32) = of_bool (whitening ! ((w + 32) mod 127) = 1)"
    by (subst whitening_01) simp_all
  ultimately show ?thesis using nth_rotate1 [of w le_white_words] assms white_words_len by simp
qed

lemma white_words_bit:
  "d \<le> 31 \<Longrightarrow> w < 127 \<Longrightarrow> bit (le_white_words ! ((w + 1) mod 127)) (31 - d) \<longleftrightarrow> whitening ! ((w + 32 - d) mod 127) = 1"
proof (induction d arbitrary: w)
  case 0
  then show ?case using white_words_next [of w] by (auto simp: bit_simps dest: bit_imp_le_length)
next
  case (Suc d)
  define v where "v = (w + 126) mod 127"
  have v: "v < 127" "(v + 1) mod 127 = w" using Suc.prems by (auto simp: v_def mod_if)
  have "(v + 32 - d) mod 127 = (w + 32 - Suc d) mod 127" using Suc.prems by (auto simp: v_def mod_if)
  moreover have "bit (le_white_words ! ((w + 1) mod 127)) (31 - Suc d) = bit (le_white_words ! w) (31 - d)"
    using Suc.prems white_words_next [of w] by (auto simp: bit_simps Suc_diff_le [symmetric])
  ultimately show ?case using Suc.IH [of v] Suc.prems v by simp
qed

text \<open>The words \<open>whitening_word\<close> that older code adds four bytes at a time hold the output of the same register.\<close>

theorem whitening_word_lfsr:
  assumes "i < 40" and "j < 12" and "k < 32"
  shows "bit (whitening_word ! i ! j) k \<longleftrightarrow> le_white_bit i (32 * j + k)"
proof -
  define w where "w = (whitening_index ! i + 32 * j) mod 127"
  define v where "v = (w + 126) mod 127"
  have w: "w < 127" by (simp add: w_def)
  have v: "v < 127" "(v + 1) mod 127 = w" using w by (auto simp: v_def mod_if)
  have "whitening_word ! i ! j = le_white_words ! w"
    unfolding w_def by (rule white_words_table [OF assms(1,2)])
  then have "bit (whitening_word ! i ! j) k \<longleftrightarrow> whitening ! ((v + 1 + k) mod 127) = 1"
    using white_words_bit [of "31 - k" v] assms v by simp
  also have "(v + 1 + k) mod 127 = (w + k) mod 127" using v(2) by (metis mod_add_left_eq)
  also have "\<dots> = (whitening_index ! i + (32 * j + k)) mod 127" by (simp add: w_def mod_add_left_eq add.assoc)
  finally show ?thesis unfolding whitening_lfsr [OF assms(1)] by simp
qed

theorem whitening_word_lfsr_witness: "bit (whitening_word ! 39 ! 11) 31 \<longleftrightarrow> le_white_bit 39 383"
  using whitening_word_lfsr [of 39 11 31] by simp

section \<open>Hopping over the data channels\<close>

lemma hop_pow: "idx < 37 \<Longrightarrow> ((\<lambda>c. snd (btle_next_hop c incr)) ^^ n) idx = of_nat ((unat idx + n * unat incr) mod 37)"
proof (induction n)
  case 0
  then show ?case by (simp add: word_less_nat_alt)
next
  case (Suc n)
  let ?m = "(unat idx + n * unat incr) mod 37"
  have "?m < 37" by simp
  then have "unat (of_nat ?m :: u8) = ?m" by (simp add: unat_of_nat take_bit_nat_eq_self)
  moreover have "(?m + unat incr) mod 37 = (unat idx + Suc n * unat incr) mod 37" unfolding mod_add_left_eq by (simp add: algebra_simps)
  ultimately show ?case using Suc by (simp add: btle_next_hop_def le_next_idx_def)
qed

lemma hop_interval_inverse: "0 < k \<Longrightarrow> k < 37 \<Longrightarrow> (k * hop_interval_lut ! k) mod 37 = 1"
proof -
  have "\<forall>k \<in> set [1..<37]. (k * hop_interval_lut ! k) mod 37 = 1" by (simp add: upt_conv_Cons hop_interval_lut_def)
  then show "0 < k \<Longrightarrow> k < 37 \<Longrightarrow> ?thesis" by simp
qed

text \<open>From any data channel and with any increment from 1 to 36, 37 hops visit each of the 37 data channels.\<close>

theorem hops_visit_all:
  assumes "idx < 37" and "0 < incr" and "incr < 37"
  shows "set (map (\<lambda>n. ((\<lambda>c. snd (btle_next_hop c incr)) ^^ n) idx) [0..<37]) = {c. c < 37}"
proof (intro equalityI subsetI)
  fix c :: u8
  assume "c \<in> {c. c < 37}"
  then have c: "unat c < 37" by (simp add: word_less_nat_alt)
  have i: "unat idx < 37" "0 < unat incr" "unat incr < 37" using assms by (simp_all add: word_less_nat_alt unat_gt_0)
  let ?v = "hop_interval_lut ! unat incr" and ?d = "unat c + 37 - unat idx"
  let ?n = "(?v * ?d) mod 37"
  have "(?n * unat incr) mod 37 = ((unat incr * ?v) mod 37 * ?d) mod 37" unfolding mod_mult_left_eq by (simp add: ac_simps)
  then have "(?n * unat incr) mod 37 = ?d mod 37" using hop_interval_inverse [OF i(2,3)] by simp
  then have "(unat idx + ?n * unat incr) mod 37 = (unat idx + ?d) mod 37" by (metis mod_add_right_eq)
  then have "(unat idx + ?n * unat incr) mod 37 = unat c" using c i(1) by simp
  then have "c = ((\<lambda>c. snd (btle_next_hop c incr)) ^^ ?n) idx" unfolding hop_pow [OF assms(1)] by (simp del: mult_mod_right)
  moreover have "?n \<in> set [0..<37]" by simp
  ultimately show "c \<in> set (map (\<lambda>n. ((\<lambda>c. snd (btle_next_hop c incr)) ^^ n) idx) [0..<37])"
    unfolding set_map by blast
next
  fix c assume "c \<in> set (map (\<lambda>n. ((\<lambda>c. snd (btle_next_hop c incr)) ^^ n) idx) [0..<37])"
  then obtain n where "c = of_nat ((unat idx + n * unat incr) mod 37)" using hop_pow [OF assms(1)] by auto
  moreover have "unat (of_nat ((unat idx + n * unat incr) mod 37) :: u8) < 37" by (simp add: unat_of_nat take_bit_nat_eq_self)
  ultimately show "c \<in> {c. c < 37}" by (simp add: word_less_nat_alt)
qed

theorem hops_visit_all_witness: "set (map (\<lambda>n. ((\<lambda>c. snd (btle_next_hop c 7)) ^^ n) 3) [0..<37]) = {c. c < 37}"
  by (rule hops_visit_all) simp_all

section \<open>Channel maps: lemmas\<close>

text \<open>The remapping after the first \<open>n\<close> channels, of those that \<open>p\<close> holds for.\<close>

definition used_upto :: "(nat \<Rightarrow> bool) \<Rightarrow> nat \<Rightarrow> nat list" where
  "used_upto p n = filter p [0..<n]"

definition remap_upto :: "(nat \<Rightarrow> bool) \<Rightarrow> nat \<Rightarrow> le_channel_remapping" where
  "remap_upto p n = \<lparr>channel_in_use = map p [0..<n] @ replicate (37 - n) False,
     remapping_index = map of_nat (used_upto p n) @ replicate (37 - length (used_upto p n)) 0,
     total_channels = length (used_upto p n)\<rparr>"

lemma used_upto_len: "length (used_upto p n) \<le> n"
  using length_filter_le [of p "[0..<n]"] by (simp add: used_upto_def)

lemma list_update_fill: "length xs = k \<Longrightarrow> k < n \<Longrightarrow> (xs @ replicate (n - k) z)[k := y] = xs @ y # replicate (n - Suc k) z"
  by (simp add: list_update_append Suc_diff_Suc [symmetric])

lemma map_bit_step:
  assumes "n < 37" and "b AND 1 \<noteq> 0 \<longleftrightarrow> p n"
  shows "le_map_bit b n (remap_upto p n) = Inr (remap_upto p (Suc n))"
  using assms used_upto_len [of p n] 
  by (simp add: le_map_bit_def remap_upto_def wr_def list_update_fill) (simp add: used_upto_def list_update_fill)

lemma map_byte_steps:
  "i < 37 \<Longrightarrow> 0 < n \<Longrightarrow> (\<And>k. k < n \<Longrightarrow> i + k < 37 \<Longrightarrow> bit b k = p (i + k)) \<Longrightarrow>
    le_map_byte n b i (remap_upto p i) = Inr (min 37 (i + n), remap_upto p (min 37 (i + n)))"
proof (induction n arbitrary: b i)
  case (Suc n)
  have "b AND 1 \<noteq> 0 \<longleftrightarrow> p i" using Suc.prems(3) [of 0] Suc.prems(1) by (simp add: one_and_nonzero)
  then have s: "le_map_bit b i (remap_upto p i) = Inr (remap_upto p (Suc i))" using Suc.prems by (simp add: map_bit_step)
  show ?case
  proof (cases "Suc i = 37 \<or> n = 0")
    case True
    then show ?thesis using s Suc.prems(1) by auto
  next
    case False
    have "k < n \<Longrightarrow> Suc i + k < 37 \<Longrightarrow> bit (drop_bit 1 b) k = p (Suc i + k)" for k
      using Suc.prems(3) [of "Suc k"] by (simp add: bit_simps)
    then show ?thesis using s Suc.prems(1) Suc.IH [of "Suc i" "drop_bit 1 b"] False by simp
  qed
qed simp

definition map_used :: "u8 list \<Rightarrow> nat \<Rightarrow> bool" where
  "map_used m k \<longleftrightarrow> bit (m ! (k div 8)) (k mod 8)"

lemma parse_channel_map:
  assumes "5 \<le> length m"
  shows "le_parse_channel_map m = Inr (remap_upto (map_used m) 37)"
proof -
  have z: "remapping_zero = remap_upto (map_used m) 0" by (simp add: remapping_zero_def remap_upto_def used_upto_def)
  have "n \<le> 5 \<Longrightarrow> loop n (\<lambda>i (idx, r). bnd (rd m i) (\<lambda>b. le_map_byte 8 b idx r)) (0, remapping_zero) =
    Inr (min 37 (8 * n), remap_upto (map_used m) (min 37 (8 * n)))" for n
  proof (induction n)
    case (Suc n)
    have "k < 8 \<Longrightarrow> 8 * n + k < 37 \<Longrightarrow> bit (m ! n) k = map_used m (8 * n + k)" for k by (simp add: map_used_def)
    then have "le_map_byte 8 (m ! n) (8 * n) (remap_upto (map_used m) (8 * n)) =
      Inr (min 37 (8 * n + 8), remap_upto (map_used m) (min 37 (8 * n + 8)))" using Suc.prems by (intro map_byte_steps) auto
    moreover have "min 37 (8 * n) = 8 * n" using Suc.prems by simp
    ultimately show ?case using Suc assms by (simp add: rd_def add.commute)
  qed (simp add: z)
  then show ?thesis by (simp add: le_parse_channel_map_def)
qed

text \<open>A parsed channel map leaves a used channel alone and sends an unused one to the used channel whose position is its number
  modulo their count; a map without channels divides by zero.\<close>

theorem channel_remap:
  assumes "5 \<le> length m" and "c < 37"
  shows "bnd (le_parse_channel_map m) (le_map_channel c) =
    (let us = filter (\<lambda>k. bit (m ! (k div 8)) (k mod 8)) [0..<37]
     in if unat c \<in> set us then Inr c
        else if us = [] then Inl Div0
        else Inr (of_nat (us ! (unat c mod length us))))"
proof -
  let ?us = "used_upto (map_used m) 37"
  have c: "unat c < 37" using assms by (simp add: word_less_nat_alt)
  have u: "filter (\<lambda>k. bit (m ! (k div 8)) (k mod 8)) [0..<37] = ?us"
    unfolding used_upto_def by (rule filter_cong) (simp_all add: map_used_def)
  have "unat c \<in> set ?us \<longleftrightarrow> map_used m (unat c)" using c by (simp add: used_upto_def)
  moreover have "?us \<noteq> [] \<Longrightarrow> rd (remapping_index (remap_upto (map_used m) 37)) (unat c mod length ?us) = Inr (of_nat (?us ! (unat c mod length ?us)))"
    using used_upto_len [of "map_used m" 37] mod_less_divisor [of "length ?us" "unat c"]
    by (simp add: remap_upto_def rd_def nth_append) (metis length_greater_0_conv mod_less_divisor order_less_le_trans)
  ultimately show ?thesis unfolding u using c
    by (simp add: parse_channel_map [OF assms(1)] le_map_channel_def remap_upto_def [of _ 37, THEN arg_cong, of channel_in_use] remap_upto_def [of _ 37, THEN arg_cong, of total_channels] rd_def Let_def)
qed

theorem channel_remap_witness: "bnd (le_parse_channel_map [0x06, 0, 0, 0, 0x10]) (le_map_channel 8) = Inr 36"
  using channel_remap [of "[0x06, 0, 0, 0, 0x10]" 8] by (simp add: upt_conv_Cons Let_def bit_simps)

end
