(* ===== verification/RxtxUsb.thy ===== *)
theory RxtxUsb
  imports Fifo
begin

text \<open>
  The queue of received packets for the host and its sending in firmware/bluetooth_rxtx/ubertooth_usb.c, and the serial number
  in the USB descriptors.
\<close>

section \<open>The ring of packets\<close>

abbreviation RX_DMA_SIZE :: nat where "RX_DMA_SIZE \<equiv> 50"

record usb_pkt_rx =
  pkt_type :: u8
  pkt_status :: u8
  pkt_channel :: u8
  clkn_high :: u8
  clk100ns :: u32
  pkt_rssi_max :: u8
  pkt_rssi_min :: u8
  pkt_rssi_avg :: u8
  pkt_rssi_count :: u8
  pkt_reserved :: "u8 list"
  pkt_data :: "u8 list"

text \<open>The enumeration \<open>usb_pkt_types\<close>.\<close>

abbreviation BR_PACKET :: u8 where "BR_PACKET \<equiv> 0"
abbreviation LE_PACKET :: u8 where "LE_PACKET \<equiv> 1"
abbreviation KEEP_ALIVE :: u8 where "KEEP_ALIVE \<equiv> 3"
abbreviation LE_PROMISC :: u8 where "LE_PROMISC \<equiv> 5"

definition usb_pkt_zero :: usb_pkt_rx where
  "usb_pkt_zero = \<lparr>pkt_type = 0, pkt_status = 0, pkt_channel = 0, clkn_high = 0, clk100ns = 0, pkt_rssi_max = 0,
     pkt_rssi_min = 0, pkt_rssi_avg = 0, pkt_rssi_count = 0, pkt_reserved = replicate 2 0, pkt_data = replicate RX_DMA_SIZE 0\<rparr>"

text \<open>What is written to the endpoint: a packet of the ring, or the one byte of a keep alive.\<close>

datatype usb_out = Out_pkt usb_pkt_rx | Out_keep_alive

record usb_ring =
  ring_fifo :: "usb_pkt_rx list"
  ring_head :: u32
  ring_tail :: u32
  last_usb_pkt :: u32
  ep_out :: "usb_out list"

definition usb_queue_init :: "usb_ring \<Rightarrow> usb_ring" where
  "usb_queue_init r = r\<lparr>ring_head := 0, ring_tail := 0, ring_fifo := replicate 128 usb_pkt_zero\<rparr>"

text \<open>The result is the element of the ring the caller fills, \<open>None\<close> a null pointer.\<close>

definition usb_enqueue :: "usb_ring \<Rightarrow> nat option \<times> usb_ring" where
  "usb_enqueue r =
     (let h = ucast (ring_head r AND 0x7f) :: u8; t = ucast (ring_tail r AND 0x7f) :: u8; n = (t + 1) AND 0x7f in
      if h = n then (None, r) else (Some (unat t), r\<lparr>ring_tail := ring_tail r + 1\<rparr>))"

definition dequeue :: "usb_ring \<Rightarrow> nat option \<times> usb_ring" where
  "dequeue r =
     (let h = ucast (ring_head r AND 0x7f) :: u8; t = ucast (ring_tail r AND 0x7f) :: u8 in
      if h = t then (None, r) else (Some (unat h), r\<lparr>ring_head := ring_head r + 1\<rparr>))"

abbreviation USB_KEEP_ALIVE :: u32 where "USB_KEEP_ALIVE \<equiv> 400000"

definition dequeue_send :: "u32 \<Rightarrow> usb_ring \<Rightarrow> (int \<times> usb_ring) res" where
  "dequeue_send clkn r =
     (case dequeue r of
        (Some i, r) \<Rightarrow>
          bnd (rd (ring_fifo r) i) (\<lambda>p. Inr (1, r\<lparr>last_usb_pkt := clkn, ep_out := ep_out r @ [Out_pkt p]\<rparr>))
      | (None, r) \<Rightarrow>
          if clkn - last_usb_pkt r > USB_KEEP_ALIVE
          then Inr (0, r\<lparr>last_usb_pkt := clkn, ep_out := ep_out r @ [Out_keep_alive]\<rparr>)
          else Inr (0, r))"

text \<open>\<open>epstat\<close> is the status of the endpoint; the polled \<open>USBHwISR\<close> at the end is the USB stack.\<close>

definition handle_usb :: "u8 \<Rightarrow> u32 \<Rightarrow> usb_ring \<Rightarrow> usb_ring res" where
  "handle_usb epstat clkn r =
     bnd (if epstat AND push_bit 5 1 = 0 then bnd (dequeue_send clkn r) (\<lambda>(_, r). Inr r) else Inr r) (\<lambda>r.
     if epstat AND push_bit 6 1 = 0 then bnd (dequeue_send clkn r) (\<lambda>(_, r). Inr r) else Inr r)"

section \<open>The serial number\<close>

abbreviation USB_SERIAL_OFFSET :: nat where "USB_SERIAL_OFFSET \<equiv> 124"

definition serial_digit :: "u8 \<Rightarrow> u8" where
  "serial_digit nibble = (if nibble > 9 then 0x61 + nibble - 10 else 0x30 + nibble)"

text \<open>\<open>buf\<close> is what \<open>get_device_serial\<close> returns: the result of the call and sixteen bytes.\<close>

definition set_serial_descriptor :: "u8 list \<Rightarrow> u8 list \<Rightarrow> u8 list res" where
  "set_serial_descriptor buf descriptors =
     bnd (rd buf 0) (\<lambda>rc.
     if rc = 0 then
       loop 16 (\<lambda>i d.
         bnd (rd buf (i + 1)) (\<lambda>b.
         bnd (wr d (USB_SERIAL_OFFSET + i * 4) (serial_digit (drop_bit 4 b AND 0xf))) (\<lambda>d.
         bnd (wr d (USB_SERIAL_OFFSET + 1 + i * 4) 0) (\<lambda>d.
         bnd (wr d (USB_SERIAL_OFFSET + 2 + i * 4) (serial_digit (b AND 0xf))) (\<lambda>d.
         wr d (USB_SERIAL_OFFSET + 3 + i * 4) 0))))) descriptors
     else Inr descriptors)"

section \<open>The ring as a queue\<close>

definition ring_inv :: "usb_ring \<Rightarrow> bool" where
  "ring_inv r \<longleftrightarrow> length (ring_fifo r) = 128"

definition ring_pkts :: "usb_ring \<Rightarrow> usb_pkt_rx list" where
  "ring_pkts r = ring_list 128 (ring_fifo r) (unat (ring_head r) mod 128) (unat (ring_tail r) mod 128)"

text \<open>A packet is put into the ring by taking an element and filling it, and taken out by the send.\<close>

definition ring_put :: "usb_ring \<Rightarrow> usb_pkt_rx \<Rightarrow> usb_ring option" where
  "ring_put r x =
     (case usb_enqueue r of (None, _) \<Rightarrow> None | (Some i, r) \<Rightarrow> Some (r\<lparr>ring_fifo := (ring_fifo r)[i := x]\<rparr>))"

definition ring_get :: "usb_ring \<Rightarrow> (usb_pkt_rx \<times> usb_ring) option" where
  "ring_get r = (case dequeue r of (None, _) \<Rightarrow> None | (Some i, r) \<Rightarrow> Some (ring_fifo r ! i, r))"

lemma unat_and_mask7: "unat (x AND mask 7 :: u32) = unat x mod 128" "unat (y AND mask 7 :: u8) = unat y mod 128"
  by (simp_all add: take_bit_eq_mask [symmetric] unsigned_take_bit_eq take_bit_eq_mod unat_mod)

lemma unat_ucast_and_7f: "unat (ucast (x AND 0x7f :: u32) :: u8) = unat x mod 128"
proof -
  have m: "(0x7f :: u32) = mask 7" by (simp add: mask_eq_exp_minus_1)
  show ?thesis unfolding m using unat_and_mask7(1) [of x] by (simp add: unsigned_ucast_eq take_bit_nat_eq_self)
qed

lemma and_7f_Suc:
  fixes t :: u8
  assumes "unat t < 128"
  shows "unat ((t + 1) AND 0x7f) = Suc (unat t) mod 128"
proof -
  have m: "(0x7f :: u8) = mask 7" by (simp add: mask_eq_exp_minus_1)
  show ?thesis unfolding m unat_and_mask7 using assms by (simp add: unat_word_ariths)
qed

lemma Suc_unat_mod: "unat (x + 1 :: u32) mod 128 = Suc (unat x mod 128) mod 128"
proof -
  have "unat (x + 1) mod 128 = (Suc (unat x) mod 2 ^ 32) mod 2 ^ 7" by (simp add: unat_word_ariths)
  also have "\<dots> = Suc (unat x) mod 2 ^ 7" by (rule mod_mod_cancel) (simp add: le_imp_power_dvd)
  finally show ?thesis by (simp add: mod_Suc_eq)
qed

lemma usb_enqueue_eq:
  "usb_enqueue r = (let h = unat (ring_head r) mod 128; t = unat (ring_tail r) mod 128 in
     if Suc t mod 128 = h then (None, r) else (Some t, r\<lparr>ring_tail := ring_tail r + 1\<rparr>))"
proof -
  let ?h = "ucast (ring_head r AND 0x7f) :: u8" and ?t = "ucast (ring_tail r AND 0x7f) :: u8"
  have "unat ?t < 128" unfolding unat_ucast_and_7f by simp
  then have "?h = (?t + 1) AND 0x7f \<longleftrightarrow> Suc (unat ?t) mod 128 = unat ?h" using and_7f_Suc [of ?t] word_unat_eq_iff by metis
  then show ?thesis unfolding usb_enqueue_def Let_def unat_ucast_and_7f by simp
qed

lemma dequeue_eq:
  "dequeue r = (let h = unat (ring_head r) mod 128 in
     if h = unat (ring_tail r) mod 128 then (None, r) else (Some h, r\<lparr>ring_head := ring_head r + 1\<rparr>))"
proof -
  let ?h = "ucast (ring_head r AND 0x7f) :: u8" and ?t = "ucast (ring_tail r AND 0x7f) :: u8"
  have "?h = ?t \<longleftrightarrow> unat ?h = unat ?t" by (rule word_unat_eq_iff)
  then show ?thesis unfolding dequeue_def Let_def unat_ucast_and_7f by simp
qed

interpretation ur: bounded_fifo ring_put ring_get ring_pkts ring_inv 127
proof
  fix r :: usb_ring and x y ys assume inv: "ring_inv r"
  let ?h = "unat (ring_head r) mod 128" and ?t = "unat (ring_tail r) mod 128"
  have b: "?h < 128" "?t < 128" by simp_all
  have len: "length (ring_fifo r) = 128" using inv by (simp add: ring_inv_def)
  note full = ring_full [OF b] and emp = ring_empty [OF b]
  show "length (ring_pkts r) = 127 \<Longrightarrow> ring_put r x = None"
    using full by (simp add: ring_put_def ring_pkts_def usb_enqueue_eq)
  show "\<exists>r'. ring_put r x = Some r' \<and> ring_inv r' \<and> ring_pkts r' = ring_pkts r @ [x]" if "length (ring_pkts r) < 127"
  proof -
    have n: "Suc ?t mod 128 \<noteq> ?h" using that full by (simp add: ring_pkts_def)
    then show ?thesis using ring_put [OF b n len, of x] len
      by (simp add: ring_put_def usb_enqueue_eq ring_pkts_def ring_inv_def Suc_unat_mod)
  qed
  show "ring_pkts r = [] \<Longrightarrow> ring_get r = None"
    using emp [of "ring_fifo r"] by (simp add: ring_get_def dequeue_eq ring_pkts_def)
  show "\<exists>r'. ring_get r = Some (y, r') \<and> ring_inv r' \<and> ring_pkts r' = ys" if "ring_pkts r = y # ys"
  proof -
    have n: "?h \<noteq> ?t" using that emp [of "ring_fifo r"] by (auto simp: ring_pkts_def)
    then show ?thesis using Fifo.ring_get [OF b n, of "ring_fifo r"] len that
      by (simp add: ring_get_def dequeue_eq ring_pkts_def ring_inv_def Suc_unat_mod)
  qed
  show "length (ring_pkts r) \<le> 127"
    using ring_len_less [of 128 ?h ?t] by (simp add: ring_pkts_def)
qed

text \<open>
  Whatever sequence of calls fills and empties the ring of packets, from the state after \<open>usb_queue_init\<close>
  on, the packets come out in the order in which they were accepted, none is lost or repeated, and the ring holds at most 127.
\<close>

theorem usb_ring_order:
  assumes "fifo_run ring_put ring_get ops (usb_queue_init r0) = (r, accepted, taken)"
  shows "accepted = taken @ ring_pkts r \<and> length (ring_pkts r) \<le> 127"
proof -
  have inv: "ring_inv (usb_queue_init r0)" and emp: "ring_pkts (usb_queue_init r0) = []"
    using ring_empty [of 0 128 0 "ring_fifo (usb_queue_init r0)"] by (simp_all add: ring_inv_def usb_queue_init_def ring_pkts_def)
  show ?thesis using ur.run_prefix [OF inv emp assms] ur.run_order [OF inv assms] by simp
qed

theorem usb_ring_order_witness:
  "\<exists>r. fifo_run ring_put ring_get [Put usb_pkt_zero, Get, Get] (usb_queue_init r0) = (r, [usb_pkt_zero], [usb_pkt_zero]) \<and>
    [usb_pkt_zero] = [usb_pkt_zero] @ ring_pkts r"
proof -
  obtain r where r: "fifo_run ring_put ring_get [Put usb_pkt_zero, Get, Get] (usb_queue_init r0) = (r, [usb_pkt_zero], [usb_pkt_zero])"
    by (simp add: ring_put_def ring_get_def usb_enqueue_eq dequeue_eq usb_queue_init_def)
  then show ?thesis using usb_ring_order [OF r] by blast
qed

text \<open>A full ring of 127 packets loses the next one.\<close>

lemma ring_put_None: "ring_inv r \<Longrightarrow> ring_put r x = None \<longleftrightarrow> length (ring_pkts r) = 127"
  using ur.put_full [of r x] ur.put_ok [of r x] ur.bounded [of r] by (metis le_neq_implies_less option.distinct(1))

section \<open>Sending\<close>

lemma dequeue_send_eq:
  assumes "ring_inv r"
  shows "dequeue_send clkn r = (case ring_get r of
      Some (p, r') \<Rightarrow> Inr (1, r'\<lparr>last_usb_pkt := clkn, ep_out := ep_out r @ [Out_pkt p]\<rparr>)
    | None \<Rightarrow> if clkn - last_usb_pkt r > USB_KEEP_ALIVE
        then Inr (0, r\<lparr>last_usb_pkt := clkn, ep_out := ep_out r @ [Out_keep_alive]\<rparr>) else Inr (0, r))"
  using assms by (auto simp: dequeue_send_def ring_get_def dequeue_eq ring_inv_def Let_def)

end
