(* ===== verification/Spi.thy ===== *)
theory Spi
  imports Prelude
begin

text \<open>
  The radio's serial interface and the identification of the chip in firmware/common/ubertooth.c: a transaction clocks bits out
  of \<open>MOSI\<close> and in from \<open>MISO\<close>, between the falling and the rising edge of \<open>CSN\<close>.
\<close>

section \<open>Pins\<close>

text \<open>What the radio sees: the edges of the select line and, at a rising edge of the clock, the level of \<open>MOSI\<close>.\<close>

datatype spi_ev = Csn bool | Clk bool

text \<open>The levels of \<open>MISO\<close> are inputs, in the order they are read.\<close>

record spi =
  spi_mosi :: bool
  spi_trace :: "spi_ev list"
  in_miso :: "bool list"

definition CSN_CLR :: "spi \<Rightarrow> spi" where "CSN_CLR s = s\<lparr>spi_trace := spi_trace s @ [Csn False]\<rparr>"
definition CSN_SET :: "spi \<Rightarrow> spi" where "CSN_SET s = s\<lparr>spi_trace := spi_trace s @ [Csn True]\<rparr>"
definition SCLK_SET :: "spi \<Rightarrow> spi" where "SCLK_SET s = s\<lparr>spi_trace := spi_trace s @ [Clk (spi_mosi s)]\<rparr>"

definition MISO :: "spi \<Rightarrow> (bool \<times> spi) res" where
  "MISO s = (case in_miso s of [] \<Rightarrow> Inl Hang | b # bs \<Rightarrow> Inr (b, s\<lparr>in_miso := bs\<rparr>))"

section \<open>Transactions\<close>

primrec spi_bits :: "nat \<Rightarrow> u32 \<Rightarrow> u32 \<Rightarrow> spi \<Rightarrow> (u32 \<times> spi) res" where
  "spi_bits 0 msb data s = Inr (data, s)"
| "spi_bits (Suc len) msb data s =
     (let s = s\<lparr>spi_mosi := (data AND msb \<noteq> 0)\<rparr>; data = push_bit 1 data; s = SCLK_SET s in
      bnd (MISO s) (\<lambda>(b, s). spi_bits len msb (data OR of_bool b) s))"

definition cc2400_spi :: "nat \<Rightarrow> u32 \<Rightarrow> spi \<Rightarrow> (u32 \<times> spi) res" where
  "cc2400_spi len data s =
     (let msb = push_bit (len - 1) 1 in
      bnd (spi_bits len msb data (CSN_CLR s)) (\<lambda>(data, s). Inr (data, CSN_SET s)))"

definition spi_get :: "u8 \<Rightarrow> spi \<Rightarrow> (u16 \<times> spi) res" where
  "spi_get reg s =
     (let out = push_bit 16 (ucast reg OR 0x80) in
      bnd (cc2400_spi 24 out s) (\<lambda>(i, s). Inr (ucast (i AND 0xFFFF), s)))"

definition spi_set :: "u8 \<Rightarrow> u16 \<Rightarrow> spi \<Rightarrow> spi res" where
  "spi_set reg val s =
     (let out = push_bit 16 (ucast reg) OR ucast val in bnd (cc2400_spi 24 out s) (\<lambda>(_, s). Inr s))"

text \<open>The 8-bit accesses; \<open>out\<close> is 16 bits wide in the reading one.\<close>

definition spi_get8 :: "u8 \<Rightarrow> spi \<Rightarrow> (u8 \<times> spi) res" where
  "spi_get8 reg s =
     (let out = push_bit 8 (ucast reg OR 0x80) :: u16 in
      bnd (cc2400_spi 16 (ucast out) s) (\<lambda>(i, s). Inr (ucast ((ucast i :: u16) AND 0xFF), s)))"

definition spi_set8 :: "u8 \<Rightarrow> u8 \<Rightarrow> spi \<Rightarrow> spi res" where
  "spi_set8 reg val s =
     (let out = push_bit 8 (ucast reg) OR ucast val in bnd (cc2400_spi 16 out s) (\<lambda>(_, s). Inr s))"

definition spi_status :: "spi \<Rightarrow> (u8 \<times> spi) res" where
  "spi_status s = bnd (cc2400_spi 8 0 s) (\<lambda>(i, s). Inr (ucast i, s))"

definition spi_strobe :: "u8 \<Rightarrow> spi \<Rightarrow> (u8 \<times> spi) res" where
  "spi_strobe reg s = bnd (cc2400_spi 8 (ucast reg) s) (\<lambda>(i, s). Inr (ucast i, s))"

abbreviation FIFOREG :: u8 where "FIFOREG \<equiv> 0x70"

text \<open>A byte out, highest bit first, and a byte in.\<close>

primrec spi_out :: "nat \<Rightarrow> u8 \<Rightarrow> spi \<Rightarrow> spi" where
  "spi_out 0 temp s = s"
| "spi_out (Suc n) temp s = spi_out n (push_bit 1 temp) (SCLK_SET (s\<lparr>spi_mosi := (temp AND 0x80 \<noteq> 0)\<rparr>))"

primrec spi_in :: "nat \<Rightarrow> u8 \<Rightarrow> spi \<Rightarrow> (u8 \<times> spi) res" where
  "spi_in 0 temp s = Inr (temp, s)"
| "spi_in (Suc n) temp s = bnd (MISO (SCLK_SET s)) (\<lambda>(b, s). spi_in n (push_bit 1 temp OR of_bool b) s)"

definition cc2400_fifo_write :: "u8 \<Rightarrow> u8 list \<Rightarrow> spi \<Rightarrow> spi res" where
  "cc2400_fifo_write len data s =
     (let s = spi_out 8 FIFOREG (CSN_CLR s) in
      bnd (loop (unat len) (\<lambda>i s. bnd (rd data i) (\<lambda>temp. Inr (spi_out 8 temp s))) s) (\<lambda>s.
      Inr (CSN_SET ((SCLK_SET ^^ 8) s))))"

definition cc2400_fifo_read :: "u8 \<Rightarrow> u8 list \<Rightarrow> spi \<Rightarrow> (u8 list \<times> spi) res" where
  "cc2400_fifo_read len buf s =
     (let s = spi_out 8 (0x80 OR FIFOREG) (CSN_CLR s) in
      bnd (loop (unat len) (\<lambda>i (buf, s).
        bnd (spi_in 8 0 s) (\<lambda>(temp, s). bnd (wr buf i temp) (\<lambda>buf. Inr (buf, s)))) (buf, s)) (\<lambda>(buf, s).
      Inr (buf, CSN_SET s)))"

text \<open>Tuning and hopping; the waits read the status until a bit is set or clear, \<open>fuel\<close> passes.\<close>

abbreviation FSDIV :: u8 where "FSDIV \<equiv> 0x02"
abbreviation SFSON :: u8 where "SFSON \<equiv> 0x61"
abbreviation SRX :: u8 where "SRX \<equiv> 0x62"
abbreviation SRFOFF :: u8 where "SRFOFF \<equiv> 0x64"

definition cc2400_tune_rx :: "u16 \<Rightarrow> spi \<Rightarrow> spi res" where
  "cc2400_tune_rx channel s = spi_set FSDIV (channel - 1) s"

definition cc2400_tune_tx :: "u16 \<Rightarrow> spi \<Rightarrow> spi res" where
  "cc2400_tune_tx channel s = spi_set FSDIV channel s"

primrec spi_wait :: "nat \<Rightarrow> (u8 \<Rightarrow> bool) \<Rightarrow> spi \<Rightarrow> spi res" where
  "spi_wait 0 ready s = Inl Hang"
| "spi_wait (Suc fuel) ready s = bnd (spi_status s) (\<lambda>(v, s). if ready v then Inr s else spi_wait fuel ready s)"

definition cc2400_hop_rx :: "nat \<Rightarrow> u16 \<Rightarrow> spi \<Rightarrow> spi res" where
  "cc2400_hop_rx fuel channel s =
     bnd (spi_strobe SRFOFF s) (\<lambda>(_, s).
     bnd (spi_wait fuel (\<lambda>v. v AND 4 = 0) s) (\<lambda>s.
     bnd (cc2400_tune_rx channel s) (\<lambda>s.
     bnd (spi_wait fuel (\<lambda>v. v AND 0x40 \<noteq> 0) s) (\<lambda>s.
     bnd (spi_strobe SFSON s) (\<lambda>(_, s).
     bnd (spi_wait fuel (\<lambda>v. v AND 4 \<noteq> 0) s) (\<lambda>s.
     bnd (spi_strobe SRX s) (\<lambda>(_, s). Inr s)))))))"

text \<open>The hop for sending has the same body: it tunes for receiving and starts the receiver.\<close>

definition cc2400_hop_tx :: "nat \<Rightarrow> u16 \<Rightarrow> spi \<Rightarrow> spi res" where
  "cc2400_hop_tx fuel channel s =
     bnd (spi_strobe SRFOFF s) (\<lambda>(_, s).
     bnd (spi_wait fuel (\<lambda>v. v AND 4 = 0) s) (\<lambda>s.
     bnd (cc2400_tune_rx channel s) (\<lambda>s.
     bnd (spi_wait fuel (\<lambda>v. v AND 0x40 \<noteq> 0) s) (\<lambda>s.
     bnd (spi_strobe SFSON s) (\<lambda>(_, s).
     bnd (spi_wait fuel (\<lambda>v. v AND 4 \<noteq> 0) s) (\<lambda>s.
     bnd (spi_strobe SRX s) (\<lambda>(_, s). Inr s)))))))"

section \<open>The chip\<close>

text \<open>\<open>result\<close> is what the boot ROM's in-application programming call leaves in its five words.\<close>

definition result_byte :: "u32 list \<Rightarrow> nat \<Rightarrow> nat \<Rightarrow> u8" where
  "result_byte result i k = ucast (drop_bit (8 * k) (result ! i) AND 0xFF)"

definition store_all :: "u8 list \<Rightarrow> u8 list \<Rightarrow> u8 list res" where
  "store_all xs buf = loop (length xs) (\<lambda>i buf. wr buf i (xs ! i)) buf"

definition get_part_num :: "u32 list \<Rightarrow> u8 list \<Rightarrow> (u8 list \<times> nat) res" where
  "get_part_num result buffer =
     bnd (store_all (result_byte result 0 0 # map (result_byte result 1) [0..<4]) buffer) (\<lambda>buffer. Inr (buffer, 5))"

definition get_device_serial :: "u32 list \<Rightarrow> u8 list \<Rightarrow> (u8 list \<times> nat) res" where
  "get_device_serial result buffer =
     bnd (store_all (result_byte result 0 0 # concat (map (\<lambda>i. map (result_byte result i) [0..<4]) [1..<5])) buffer)
       (\<lambda>buffer. Inr (buffer, 17))"

text \<open>\<open>rbit\<close> is the processor's instruction that reverses the bits of a word.\<close>

definition rbit :: "u32 \<Rightarrow> u32" where
  "rbit v = horner_sum of_bool 2 (rev (map (bit v) [0..<32]))"

abbreviation XOSC16M_STABLE :: u16 where "XOSC16M_STABLE \<equiv> 0x40"
abbreviation FS_LOCK :: u16 where "FS_LOCK \<equiv> 4"

section \<open>What goes over the wire\<close>

definition msb_bits :: "nat \<Rightarrow> 'a::len word \<Rightarrow> bool list" where
  "msb_bits n w = map (\<lambda>i. bit w (n - 1 - i)) [0..<n]"

definition spi_shift :: "bool \<Rightarrow> 'a::len word \<Rightarrow> 'a word" where
  "spi_shift b w = push_bit 1 w OR of_bool b"

lemma length_msb_bits [simp]: "length (msb_bits n w) = n"
  by (simp add: msb_bits_def)

lemma bit_spi_shift: "bit (spi_shift b w) j \<longleftrightarrow> (if j = 0 then b else j < LENGTH('a) \<and> bit w (j - 1))"
  for w :: "'a::len word"
  by (cases j) (auto simp: spi_shift_def bit_simps)

lemma bit_shifted:
  fixes w :: "'a::len word"
  shows "j < LENGTH('a) \<Longrightarrow>
    bit (fold spi_shift bs w) j \<longleftrightarrow> (if j < length bs then bs ! (length bs - 1 - j) else bit w (j - length bs))"
proof (induction bs arbitrary: w)
  case (Cons b bs)
  show ?case
  proof (cases "j < length bs")
    case True
    then have "length bs - j = Suc (length bs - 1 - j)" by simp
    then show ?thesis using Cons True by simp
  next
    case False
    then show ?thesis using Cons by (auto simp: bit_spi_shift not_less_less_Suc_eq)
  qed
qed simp

lemma and_push_bit: "x AND push_bit k 1 \<noteq> 0 \<longleftrightarrow> bit (x :: 'a::len word) k"
  by (auto simp: and_exp_eq_0_iff_not_bit push_bit_eq_mult)

lemma spi_bits_eq:
  assumes "n \<le> length (in_miso s)" and "n \<le> k" and "0 < k" and "k \<le> 32"
  shows "\<exists>m. spi_bits n (push_bit (k - 1) 1) data s =
    Inr (fold spi_shift (take n (in_miso s)) data,
         s\<lparr>spi_mosi := m, spi_trace := spi_trace s @ map (\<lambda>i. Clk (bit data (k - 1 - i))) [0..<n], in_miso := drop n (in_miso s)\<rparr>)"
  using assms
proof (induction n arbitrary: data s)
  case 0
  then show ?case by (intro exI [of _ "spi_mosi s"]) simp
next
  case (Suc n)
  obtain b bs where m: "in_miso s = b # bs" using Suc.prems by (cases "in_miso s") auto
  note top = and_push_bit [of data "k - 1"]
  let ?s = "s\<lparr>spi_mosi := bit data (k - 1), spi_trace := spi_trace s @ [Clk (bit data (k - 1))], in_miso := bs\<rparr>"
  have step: "spi_bits (Suc n) (push_bit (k - 1) 1) data s = spi_bits n (push_bit (k - 1) 1) (spi_shift b data) ?s"
    unfolding spi_bits.simps Let_def top by (simp add: MISO_def SCLK_SET_def m spi_shift_def)
  have up: "map (\<lambda>i. Clk (bit data (k - 1 - i))) [0..<Suc n] =
      Clk (bit data (k - 1)) # map (\<lambda>i. Clk (bit (spi_shift b data) (k - 1 - i))) [0..<n]"
  proof -
    have "bit (spi_shift b data) (k - 1 - i) = bit data (k - 1 - Suc i)" if "i < n" for i
      using that Suc.prems by (auto simp: bit_spi_shift dest: bit_imp_le_length)
    then show ?thesis by (simp add: upt_conv_Cons map_Suc_upt [symmetric] del: upt_Suc)
  qed
  from Suc.IH [of ?s "spi_shift b data"] Suc.prems show ?case unfolding step up by (simp add: m)
qed

text \<open>The events of a transaction that sends the bits \<open>bs\<close>.\<close>

definition frame_of :: "bool list \<Rightarrow> spi_ev list" where
  "frame_of bs = Csn False # map Clk bs @ [Csn True]"

lemma cc2400_spi_eq:
  assumes "n \<le> length (in_miso s)" and "0 < n" and "n \<le> 32"
  shows "\<exists>m. cc2400_spi n data s = Inr (fold spi_shift (take n (in_miso s)) data,
    s\<lparr>spi_mosi := m, spi_trace := spi_trace s @ frame_of (msb_bits n data), in_miso := drop n (in_miso s)\<rparr>)"
proof -
  from spi_bits_eq [of n "CSN_CLR s" n data] assms obtain m
    where "spi_bits n (push_bit (n - 1) 1) data (CSN_CLR s) = Inr (fold spi_shift (take n (in_miso s)) data,
      (CSN_CLR s)\<lparr>spi_mosi := m, spi_trace := spi_trace (CSN_CLR s) @ map (\<lambda>i. Clk (bit data (n - 1 - i))) [0..<n],
        in_miso := drop n (in_miso s)\<rparr>)"
    by (auto simp: CSN_CLR_def)
  then show ?thesis
    by (intro exI [of _ m])
      (simp add: cc2400_spi_def CSN_CLR_def CSN_SET_def frame_of_def msb_bits_def comp_def del: push_bit_of_1)
qed

lemma msb_bits_append:
  fixes hi :: "'a::len word" and lo :: "'b::len word" and w :: u32
  assumes "n + m \<le> 32" and "\<And>j. j < n \<Longrightarrow> bit w (m + j) = bit hi j" and "\<And>j. j < m \<Longrightarrow> bit w j = bit lo j"
  shows "msb_bits (n + m) w = msb_bits n hi @ msb_bits m lo"
proof (rule nth_equalityI)
  fix i assume "i < length (msb_bits (n + m) w)"
  then have i: "i < n + m" by simp
  show "msb_bits (n + m) w ! i = (msb_bits n hi @ msb_bits m lo) ! i"
  proof (cases "i < n")
    case True
    then have "n + m - 1 - i = m + (n - 1 - i)" by simp
    then have "bit w (n + m - 1 - i) = bit hi (n - 1 - i)" using assms(2) [of "n - 1 - i"] True by simp
    then show ?thesis using True by (simp add: msb_bits_def nth_append del: One_nat_def)
  next
    case False
    then have k: "n + m - 1 - i = m - 1 - (i - n)" "m - 1 - (i - n) < m" "i - n < m" using i by simp_all
    then have "bit w (n + m - 1 - i) = bit lo (m - 1 - (i - n))" using assms(3) by simp
    then show ?thesis using False i k by (simp add: msb_bits_def nth_append del: One_nat_def)
  qed
qed simp

text \<open>
  A register is read in one transaction: the radio sees the register's number with the read flag and then
  sixteen zeros, highest bit first, and the result has the last sixteen of the levels it answers with.
\<close>

theorem spi_get_reads:
  assumes "24 \<le> length (in_miso s)"
  shows "\<exists>v s'. spi_get reg s = Inr (v, s')
    \<and> (\<forall>j<16. bit v j = in_miso s ! (23 - j))
    \<and> spi_trace s' = spi_trace s @ frame_of (msb_bits 8 (reg OR 0x80) @ replicate 16 False)
    \<and> in_miso s' = drop 24 (in_miso s)"
proof -
  define w where "w = (ucast reg OR 0x80 :: u32)"
  let ?o = "push_bit 16 w"
  obtain m where e: "cc2400_spi 24 ?o s = Inr (fold spi_shift (take 24 (in_miso s)) ?o,
      s\<lparr>spi_mosi := m, spi_trace := spi_trace s @ frame_of (msb_bits 24 ?o), in_miso := drop 24 (in_miso s)\<rparr>)"
    using cc2400_spi_eq [of 24 s ?o] assms by auto
  have z: "msb_bits 16 (0 :: u16) = replicate 16 False" by (simp add: msb_bits_def map_replicate_const)
  have "(0x80 :: u32) = push_bit 7 1" "(0x80 :: u8) = push_bit 7 1" by simp_all
  then have h: "bit w j = bit (reg OR 0x80) j" if "j < 8" for j
    unfolding w_def using that by (simp only: bit_simps) auto
  have "msb_bits (8 + 16) ?o = msb_bits 8 (reg OR 0x80) @ msb_bits 16 (0 :: u16)"
    by (rule msb_bits_append) (use h in \<open>auto simp: bit_push_bit_iff\<close>)
  then have f: "msb_bits 24 ?o = msb_bits 8 (reg OR 0x80) @ replicate 16 False" unfolding z by simp
  have "bit (ucast (w AND 0xFFFF :: u32) :: u16) j = bit w j" if "j < 16" for w j
    using that unfolding and_masks by (simp add: bit_simps)
  then show ?thesis unfolding spi_get_def Let_def w_def [symmetric] e f using assms
    by (simp add: bit_shifted del: One_nat_def)
qed

lemma spi_set_sends:
  assumes "24 \<le> length (in_miso s)"
  shows "\<exists>s'. spi_set reg val s = Inr s' \<and> spi_trace s' = spi_trace s @ frame_of (msb_bits 8 reg @ msb_bits 16 val)
    \<and> in_miso s' = drop 24 (in_miso s)"
proof -
  let ?o = "push_bit 16 (ucast reg) OR ucast val :: u32"
  obtain m where e: "cc2400_spi 24 ?o s = Inr (fold spi_shift (take 24 (in_miso s)) ?o,
      s\<lparr>spi_mosi := m, spi_trace := spi_trace s @ frame_of (msb_bits 24 ?o), in_miso := drop 24 (in_miso s)\<rparr>)"
    using cc2400_spi_eq [of 24 s ?o] assms by auto
  have "msb_bits (8 + 16) ?o = msb_bits 8 reg @ msb_bits 16 val"
    by (rule msb_bits_append) (auto simp: bit_simps dest: bit_imp_le_length)
  then show ?thesis unfolding spi_set_def Let_def e by simp
qed

definition spi_idle :: spi where
  "spi_idle = \<lparr>spi_mosi = False, spi_trace = [], in_miso = replicate 24 True\<rparr>"

theorem spi_get_reads_witness:
  "\<exists>v s'. spi_get 0x06 spi_idle = Inr (v, s') \<and> (\<forall>j<16. bit v j = in_miso spi_idle ! (23 - j))
    \<and> spi_trace s' = spi_trace spi_idle @ frame_of (msb_bits 8 (0x06 OR 0x80 :: u8) @ replicate 16 False)
    \<and> in_miso s' = drop 24 (in_miso spi_idle)"
  by (rule spi_get_reads) (simp add: spi_idle_def)

section \<open>The FIFO\<close>

lemma spi_out_eq:
  "n \<le> 8 \<Longrightarrow> \<exists>m. spi_out n temp s = s\<lparr>spi_mosi := m, spi_trace := spi_trace s @ map (\<lambda>i. Clk (bit temp (7 - i))) [0..<n]\<rparr>"
proof (induction n arbitrary: temp s)
  case 0
  then show ?case by (intro exI [of _ "spi_mosi s"]) simp
next
  case (Suc n)
  have "(0x80 :: u8) = push_bit 7 1" by simp
  then have top: "temp AND 0x80 \<noteq> 0 \<longleftrightarrow> bit temp 7" using and_push_bit [of temp 7] by simp
  let ?s = "s\<lparr>spi_mosi := bit temp 7, spi_trace := spi_trace s @ [Clk (bit temp 7)]\<rparr>"
  have "bit (push_bit 1 temp) (7 - i) = bit temp (7 - Suc i)" if "i < n" for i
    using that Suc.prems by (auto simp: bit_simps Suc_diff_Suc)
  then have up: "map (\<lambda>i. Clk (bit temp (7 - i))) [0..<Suc n] = Clk (bit temp 7) # map (\<lambda>i. Clk (bit (push_bit 1 temp) (7 - i))) [0..<n]"
    by (simp add: upt_conv_Cons map_Suc_upt [symmetric] del: upt_Suc)
  have "spi_out (Suc n) temp s = spi_out n (push_bit 1 temp) ?s"
    unfolding spi_out.simps top by (simp add: SCLK_SET_def)
  then show ?case using Suc.IH [of "push_bit 1 temp" ?s] Suc.prems unfolding up by simp
qed

lemma spi_out_byte: "\<exists>m. spi_out 8 temp s = s\<lparr>spi_mosi := m, spi_trace := spi_trace s @ map Clk (msb_bits 8 temp)\<rparr>"
  using spi_out_eq [of 8 temp s] by (simp add: msb_bits_def comp_def)

lemma spi_in_eq:
  "n \<le> length (in_miso s) \<Longrightarrow> spi_in n temp s = Inr (fold spi_shift (take n (in_miso s)) temp,
     s\<lparr>spi_trace := spi_trace s @ replicate n (Clk (spi_mosi s)), in_miso := drop n (in_miso s)\<rparr>)"
proof (induction n arbitrary: temp s)
  case (Suc n)
  obtain b bs where m: "in_miso s = b # bs" using Suc.prems by (cases "in_miso s") auto
  let ?s = "s\<lparr>spi_trace := spi_trace s @ [Clk (spi_mosi s)], in_miso := bs\<rparr>"
  have "spi_in (Suc n) temp s = spi_in n (spi_shift b temp) ?s"
    by (simp add: MISO_def SCLK_SET_def m spi_shift_def)
  then show ?case using Suc.IH [of ?s "spi_shift b temp"] Suc.prems by (simp add: m)
qed simp

lemma shift_msb_bits: "fold spi_shift (msb_bits 8 b) 0 = (b :: u8)"
proof (rule bit_word_eqI)
  fix j :: nat assume "j < LENGTH(8)"
  then have j: "j < 8" by simp
  then have "bit (fold spi_shift (msb_bits 8 b) 0 :: u8) j = msb_bits 8 b ! (7 - j)"
    using bit_shifted [where 'a = 8, of j "msb_bits 8 b" 0] by simp
  moreover have "7 - (7 - j) = j" "7 - j < 8" using j by simp_all
  ultimately show "bit (fold spi_shift (msb_bits 8 b) 0 :: u8) j = bit b j" by (simp add: msb_bits_def)
qed

lemma write_bytes_eq:
  "n \<le> length data \<Longrightarrow> \<exists>m. loop n (\<lambda>i s. bnd (rd data i) (\<lambda>temp. Inr (spi_out 8 temp s))) s =
    Inr (s\<lparr>spi_mosi := m, spi_trace := spi_trace s @ map Clk (concat (map (msb_bits 8) (take n data)))\<rparr>)"
proof (induction n)
  case 0
  then show ?case by (intro exI [of _ "spi_mosi s"]) simp
next
  case (Suc n)
  then obtain m where m: "loop n (\<lambda>i s. bnd (rd data i) (\<lambda>temp. Inr (spi_out 8 temp s))) s =
      Inr (s\<lparr>spi_mosi := m, spi_trace := spi_trace s @ map Clk (concat (map (msb_bits 8) (take n data)))\<rparr>)" by auto
  let ?s = "s\<lparr>spi_mosi := m, spi_trace := spi_trace s @ map Clk (concat (map (msb_bits 8) (take n data)))\<rparr>"
  obtain m' where "spi_out 8 (data ! n) ?s = ?s\<lparr>spi_mosi := m', spi_trace := spi_trace ?s @ map Clk (msb_bits 8 (data ! n))\<rparr>"
    using spi_out_byte [of "data ! n" ?s] by blast
  then show ?case using Suc.prems m by (intro exI [of _ m']) (simp add: take_Suc_conv_app_nth)
qed

lemma read_bytes_eq:
  assumes "in_miso s = concat (map (msb_bits 8) xs) @ rest" and "length xs \<le> length buf"
  shows "n \<le> length xs \<Longrightarrow> \<exists>s'. loop n (\<lambda>i (buf, s).
      bnd (spi_in 8 0 s) (\<lambda>(temp, s). bnd (wr buf i temp) (\<lambda>buf. Inr (buf, s)))) (buf, s) =
    Inr (take n xs @ drop n buf, s') \<and> in_miso s' = concat (map (msb_bits 8) (drop n xs)) @ rest"
proof (induction n)
  case 0
  then show ?case using assms by simp
next
  case (Suc n)
  let ?f = "\<lambda>i (buf, s). bnd (spi_in 8 0 s) (\<lambda>(temp, s). bnd (wr buf i temp) (\<lambda>buf. Inr (buf, s)))"
  from Suc obtain s1 where l: "loop n ?f (buf, s) = Inr (take n xs @ drop n buf, s1)"
    and m: "in_miso s1 = concat (map (msb_bits 8) (drop n xs)) @ rest" by auto
  have d: "drop n xs = xs ! n # drop (Suc n) xs" using Suc.prems by (simp add: Cons_nth_drop_Suc)
  have i: "spi_in 8 0 s1 = Inr (xs ! n, s1\<lparr>spi_trace := spi_trace s1 @ replicate 8 (Clk (spi_mosi s1)),
      in_miso := concat (map (msb_bits 8) (drop (Suc n) xs)) @ rest\<rparr>)"
    using spi_in_eq [of 8 s1 "0 :: u8"] by (simp add: m d shift_msb_bits)
  have "(take n xs @ drop n buf)[n := xs ! n] = take (Suc n) xs @ drop (Suc n) buf"
    using Suc.prems assms(2) by (simp add: list_update_append take_Suc_conv_app_nth Cons_nth_drop_Suc [symmetric])
  then show ?case using Suc.prems assms(2) l i by simp
qed

text \<open>The levels at the clocks of the transaction after \<open>n\<close> events, without those of the first byte.\<close>

fun level :: "spi_ev \<Rightarrow> bool list" where
  "level (Clk b) = [b]"
| "level (Csn b) = []"

definition payload_levels :: "nat \<Rightarrow> spi \<Rightarrow> bool list" where
  "payload_levels n s = drop 8 (concat (map level (drop n (spi_trace s))))"

text \<open>
  The bytes written to the radio's FIFO are clocked out so that the reading routine, at the other end of such a
  wire, gets the same bytes.
\<close>

theorem fifo_write_read:
  assumes "unat len \<le> length data" and "unat len \<le> length buf"
    and "cc2400_fifo_write len data s = Inr s1" and "in_miso t = payload_levels (length (spi_trace s)) s1"
  shows "\<exists>t1. cc2400_fifo_read len buf t = Inr (take (unat len) data @ drop (unat len) buf, t1)"
proof -
  have lv: "concat (map level (map Clk bs)) = bs" for bs by (induction bs) auto
  obtain m0 where h: "spi_out 8 FIFOREG (CSN_CLR s) =
      (CSN_CLR s)\<lparr>spi_mosi := m0, spi_trace := spi_trace (CSN_CLR s) @ map Clk (msb_bits 8 FIFOREG)\<rparr>" using spi_out_byte by blast
  obtain m1 where w: "loop (unat len) (\<lambda>i s. bnd (rd data i) (\<lambda>temp. Inr (spi_out 8 temp s))) (spi_out 8 FIFOREG (CSN_CLR s)) =
      Inr ((spi_out 8 FIFOREG (CSN_CLR s))\<lparr>spi_mosi := m1, spi_trace := spi_trace (spi_out 8 FIFOREG (CSN_CLR s)) @
        map Clk (concat (map (msb_bits 8) (take (unat len) data)))\<rparr>)" using write_bytes_eq [OF assms(1)] by blast
  have c: "(SCLK_SET ^^ k) u = u\<lparr>spi_trace := spi_trace u @ replicate k (Clk (spi_mosi u))\<rparr>" for k u
    by (induction k) (simp_all add: SCLK_SET_def replicate_append_same)
  have tr: "spi_trace s1 = spi_trace s @ Csn False # map Clk (msb_bits 8 FIFOREG) @
      map Clk (concat (map (msb_bits 8) (take (unat len) data))) @ replicate 8 (Clk m1) @ [Csn True]"
    using assms(3) unfolding cc2400_fifo_write_def Let_def w unfolding h by (auto simp: c CSN_SET_def CSN_CLR_def)
  have m: "in_miso t = concat (map (msb_bits 8) (take (unat len) data)) @ replicate 8 m1"
    unfolding assms(4) payload_levels_def tr by (simp add: lv del: map_map map_concat replicate.simps)
  obtain m2 where r: "spi_out 8 (0x80 OR FIFOREG) (CSN_CLR t) =
      (CSN_CLR t)\<lparr>spi_mosi := m2, spi_trace := spi_trace (CSN_CLR t) @ map Clk (msb_bits 8 (0x80 OR FIFOREG))\<rparr>"
    using spi_out_byte by blast
  have "in_miso (spi_out 8 (0x80 OR FIFOREG) (CSN_CLR t)) = in_miso t" unfolding r by (simp add: CSN_CLR_def)
  from read_bytes_eq [OF this [unfolded m], of buf "unat len"] assms(1,2)
  show ?thesis unfolding cc2400_fifo_read_def Let_def by auto
qed

theorem fifo_write_read_witness:
  "\<exists>s1 t1. cc2400_fifo_write 2 [0xA5, 0x3C] spi_idle = Inr s1
    \<and> cc2400_fifo_read 2 [0, 0] (spi_idle\<lparr>in_miso := payload_levels 0 s1\<rparr>) = Inr ([0xA5, 0x3C], t1)"
proof -
  obtain s1 where w: "cc2400_fifo_write 2 [0xA5, 0x3C] spi_idle = Inr s1"
    by (simp add: cc2400_fifo_write_def loop_numeral Let_def)
  have "\<exists>t1. cc2400_fifo_read 2 [0, 0] (spi_idle\<lparr>in_miso := payload_levels 0 s1\<rparr>) =
      Inr (take (unat (2 :: u8)) [0xA5, 0x3C] @ drop (unat (2 :: u8)) [0, 0], t1)"
    by (rule fifo_write_read [OF _ _ w]) (simp_all add: spi_idle_def)
  then show ?thesis using w by simp
qed

end
