(* ===== verification/LePhy.thy ===== *)
theory LePhy
  imports Ble Queues RxtxUsb Spi
begin

text \<open>
  The LE sniffer of firmware/bluetooth_rxtx/le_phy.c: the pool of packet buffers, the connection and its events, the DMA
  handler that takes one byte, the timer handler that follows the connection, and the main loop that handles whole packets.
\<close>

section \<open>State\<close>

text \<open>Times are counted in 100 ns.\<close>

abbreviation USEC :: "u32 \<Rightarrow> u32" where "USEC x \<equiv> x * 10"
abbreviation MSEC :: "u32 \<Rightarrow> u32" where "MSEC x \<equiv> x * 10000"
abbreviation SEC :: "u32 \<Rightarrow> u32" where "SEC x \<equiv> x * 10000000"
abbreviation ADVERTISING_AA :: u32 where "ADVERTISING_AA \<equiv> 0x8e89bed6"
abbreviation RX_WARMUP_TIME :: u32 where "RX_WARMUP_TIME \<equiv> USEC 300"
abbreviation IFS_TIMEOUT :: u32 where "IFS_TIMEOUT \<equiv> USEC 300"
abbreviation ANCHOR_EPSILON :: u32 where "ANCHOR_EPSILON \<equiv> USEC 3"
abbreviation LE_BUFFER_POOL_SIZE :: nat where "LE_BUFFER_POOL_SIZE \<equiv> 4"
abbreviation MODE_BT_FOLLOW_LE :: u8 where "MODE_BT_FOLLOW_LE \<equiv> 9"

record le_rx =
  rx_data :: "u8 list"
  rx_size :: nat
  rx_pos :: nat
  rx_timestamp :: u32
  rx_channel :: u16
  rx_access_address :: u32
  rx_available :: bool
  rx_rssi_min :: u8
  rx_rssi_max :: u8
  rx_rssi_sum :: int

record le_conn =
  access_address :: u32
  crc_init :: u32
  crc_init_reversed :: u32
  channel_idx :: u8
  hop_increment :: u8
  conn_interval :: u32
  supervision_timeout :: u32
  win_size :: u8
  win_offset :: u32
  remapping :: le_channel_remapping
  last_anchor :: u32
  anchor_set :: bool
  last_packet_ts :: u32
  conn_event_counter :: u16
  conn_update_pending :: bool
  conn_update_pending_interval :: u32
  conn_update_pending_supervision_timeout :: u32
  conn_update_instant :: u16
  channel_map_update_pending :: bool
  channel_map_update_instant :: u16
  pending_remapping :: le_channel_remapping

record le_conn_event =
  ev_anchor :: u32
  num_packets :: nat
  opened :: bool

text \<open>The radio's registers the code writes.\<close>

datatype cc_reg = MANAND | LMTST | MDMTST0 | GRMDM | SYNCL | SYNCH | FSDIV | MDMCTRL

text \<open>
  A buffer is its index in the pool, \<open>None\<close> a null pointer.  \<open>packet\<close> is the local variable of the main loop.  \<open>dma_next\<close>
  is the element of \<open>le_dma_dest\<close> the DMA controller writes next, \<open>dma_on\<close> whether it moves bytes, \<open>dma_irq\<close> whether its
  interrupt is enabled, \<open>rx_on\<close> whether the radio was last strobed to receive; \<open>t1mr\<close> and \<open>mri\<close> are the match registers of the
  timer and their interrupt enables.  The last three fields are the readings of the timer, of the radio's status and of its
  RSSI register still to come.
\<close>

record le_phy =
  le_buffer_pool :: "le_rx list"
  current_rxbuf :: "nat option"
  packet_queue :: "nat queue_t"
  packet :: "nat option"
  conn :: le_conn
  conn_event :: le_conn_event
  rf_channel :: u16
  le_adv_channel :: u16
  requested_mode :: u8
  cancel_follow :: bool
  do_follow :: bool
  target :: "u8 list"
  target_mask :: "u8 list"
  target_set :: bool
  le_dma_dest :: "u8 list"
  dma_next :: nat
  dma_on :: bool
  dma_irq :: bool
  rx_on :: bool
  cc_regs :: "cc_reg \<Rightarrow> u16"
  t1mr :: "nat \<Rightarrow> u32"
  mri :: "nat \<Rightarrow> bool"
  leds :: "bool \<times> bool \<times> bool"
  usb_fifo :: usb_ring
  in_time :: "u32 list"
  in_status :: "u16 list"
  in_rssi :: "u16 list"

definition conn_zero :: le_conn where
  "conn_zero = \<lparr>access_address = 0, crc_init = 0, crc_init_reversed = 0, channel_idx = 0, hop_increment = 0, conn_interval = 0,
     supervision_timeout = 0, win_size = 0, win_offset = 0, remapping = remapping_zero, last_anchor = 0, anchor_set = False,
     last_packet_ts = 0, conn_event_counter = 0, conn_update_pending = False, conn_update_pending_interval = 0,
     conn_update_pending_supervision_timeout = 0, conn_update_instant = 0, channel_map_update_pending = False,
     channel_map_update_instant = 0, pending_remapping = remapping_zero\<rparr>"

definition reset_conn :: "le_phy \<Rightarrow> le_phy" where
  "reset_conn s = s\<lparr>conn := conn_zero\<lparr>access_address := ADVERTISING_AA\<rparr>\<rparr>"

abbreviation upd_conn :: "(le_conn \<Rightarrow> le_conn) \<Rightarrow> le_phy \<Rightarrow> le_phy" where
  "upd_conn f s \<equiv> s\<lparr>conn := f (conn s)\<rparr>"

text \<open>The readings of the hardware.\<close>

definition NOW :: "le_phy \<Rightarrow> (u32 \<times> le_phy) res" where
  "NOW s = (case in_time s of [] \<Rightarrow> Inl Hang | t # ts \<Rightarrow> Inr (t, s\<lparr>in_time := ts\<rparr>))"

definition cc2400_status :: "le_phy \<Rightarrow> (u16 \<times> le_phy) res" where
  "cc2400_status s = (case in_status s of [] \<Rightarrow> Inl Hang | t # ts \<Rightarrow> Inr (t, s\<lparr>in_status := ts\<rparr>))"

definition cc2400_get_rssi :: "le_phy \<Rightarrow> (u16 \<times> le_phy) res" where
  "cc2400_get_rssi s = (case in_rssi s of [] \<Rightarrow> Inl Hang | t # ts \<Rightarrow> Inr (t, s\<lparr>in_rssi := ts\<rparr>))"

section \<open>Buffers\<close>

definition buffers_init :: "le_phy \<Rightarrow> le_phy" where
  "buffers_init s = s\<lparr>le_buffer_pool := map (\<lambda>b. b\<lparr>rx_available := True\<rparr>) (le_buffer_pool s)\<rparr>"

definition rx_clear :: "le_rx \<Rightarrow> le_rx" where
  "rx_clear b = b\<lparr>rx_pos := 0, rx_size := 0, rx_data := replicate (length (rx_data b)) 0, rx_rssi_min := 127,
     rx_rssi_max := - 128, rx_rssi_sum := 0\<rparr>"

text \<open>A change of the buffer behind a pointer; there is nothing behind a null pointer.\<close>

definition upd_rxbuf :: "nat option \<Rightarrow> (le_rx \<Rightarrow> le_rx) \<Rightarrow> le_phy \<Rightarrow> le_phy res" where
  "upd_rxbuf p f s =
     (case p of None \<Rightarrow> Inl Oob
      | Some i \<Rightarrow> bnd (rd (le_buffer_pool s) i) (\<lambda>b.
          bnd (wr (le_buffer_pool s) i (f b)) (\<lambda>bs. Inr (s\<lparr>le_buffer_pool := bs\<rparr>))))"

definition get_rx :: "nat option \<Rightarrow> le_phy \<Rightarrow> le_rx res" where
  "get_rx p s = (case p of None \<Rightarrow> Inl Oob | Some i \<Rightarrow> rd (le_buffer_pool s) i)"

definition buffer_clear :: "nat option \<Rightarrow> le_phy \<Rightarrow> le_phy res" where
  "buffer_clear p s = upd_rxbuf p rx_clear s"

primrec first_available :: "nat \<Rightarrow> le_rx list \<Rightarrow> nat option" where
  "first_available i [] = None"
| "first_available i (b # bs) = (if rx_available b then Some i else first_available (i + 1) bs)"

definition buffer_get :: "le_phy \<Rightarrow> (nat option \<times> le_phy) res" where
  "buffer_get s =
     (case first_available 0 (le_buffer_pool s) of
        None \<Rightarrow> Inr (None, s)
      | Some i \<Rightarrow>
          bnd (upd_rxbuf (Some i) (\<lambda>b. b\<lparr>rx_available := False\<rparr>) s) (\<lambda>s.
          bnd (buffer_clear (Some i) s) (\<lambda>s. Inr (Some i, s))))"

definition buffer_release :: "nat option \<Rightarrow> le_phy \<Rightarrow> le_phy res" where
  "buffer_release p s = upd_rxbuf p (\<lambda>b. b\<lparr>rx_available := True\<rparr>) s"

section \<open>Timer and radio\<close>

definition timer1_set_match :: "u32 \<Rightarrow> le_phy \<Rightarrow> le_phy" where
  "timer1_set_match m s = s\<lparr>t1mr := (t1mr s)(0 := m), mri := (mri s)(0 := True)\<rparr>"

definition timer1_clear_match :: "le_phy \<Rightarrow> le_phy" where
  "timer1_clear_match s = s\<lparr>mri := (mri s)(0 := False)\<rparr>"

definition timer1_wait_fs_lock :: "le_phy \<Rightarrow> le_phy res" where
  "timer1_wait_fs_lock s = bnd (NOW s) (\<lambda>(t, s). Inr (s\<lparr>t1mr := (t1mr s)(2 := t + USEC 3), mri := (mri s)(2 := True)\<rparr>))"

definition timer1_cancel_fs_lock :: "le_phy \<Rightarrow> le_phy" where
  "timer1_cancel_fs_lock s = s\<lparr>mri := (mri s)(2 := False)\<rparr>"

definition timer1_wait_buffer :: "le_phy \<Rightarrow> le_phy res" where
  "timer1_wait_buffer s = bnd (NOW s) (\<lambda>(t, s). Inr (s\<lparr>t1mr := (t1mr s)(3 := t + USEC 100), mri := (mri s)(3 := True)\<rparr>))"

definition blink :: "bool \<Rightarrow> bool \<Rightarrow> bool \<Rightarrow> le_phy \<Rightarrow> le_phy res" where
  "blink tx rx usr s =
     (let (t0, r0, u0) = leds s; s = s\<lparr>leds := (t0 \<or> tx, r0 \<or> rx, u0 \<or> usr)\<rparr> in
      bnd (NOW s) (\<lambda>(t, s). Inr (s\<lparr>t1mr := (t1mr s)(1 := t + MSEC 10), mri := (mri s)(1 := True)\<rparr>)))"

text \<open>The two list items point at each other, so the bytes go to the two elements of \<open>le_dma_dest\<close> in turn.\<close>

definition le_dma_init :: "le_phy \<Rightarrow> le_phy" where
  "le_dma_init s = s\<lparr>dma_next := 0\<rparr>"

definition dio_ssp_start :: "le_phy \<Rightarrow> le_phy" where
  "dio_ssp_start s = s\<lparr>dma_on := True\<rparr>"

definition dio_ssp_stop :: "le_phy \<Rightarrow> le_phy" where
  "dio_ssp_stop s = s\<lparr>dma_on := False\<rparr>"

definition le_cc2400_set :: "cc_reg \<Rightarrow> u16 \<Rightarrow> le_phy \<Rightarrow> le_phy" where
  "le_cc2400_set r v s = s\<lparr>cc_regs := (cc_regs s)(r := v)\<rparr>"

text \<open>The strobes \<open>SFSON\<close> (tune), \<open>SRFOFF\<close> (off) and \<open>SRX\<close> (receive).\<close>

definition strobe_SFSON :: "le_phy \<Rightarrow> le_phy" where "strobe_SFSON s = s\<lparr>rx_on := False\<rparr>"
definition strobe_SRFOFF :: "le_phy \<Rightarrow> le_phy" where "strobe_SRFOFF s = s\<lparr>rx_on := False\<rparr>"
definition le_cc2400_strobe_rx :: "le_phy \<Rightarrow> le_phy" where "le_cc2400_strobe_rx s = s\<lparr>rx_on := True\<rparr>"

primrec wait_xosc :: "u16 list \<Rightarrow> u16 list res" where
  "wait_xosc [] = Inl Hang"
| "wait_xosc (v # vs) = (if v AND XOSC16M_STABLE \<noteq> 0 then Inr vs else wait_xosc vs)"

definition le_cc2400_init_rf :: "le_phy \<Rightarrow> le_phy res" where
  "le_cc2400_init_rf s =
     (let sync = rbit (access_address (conn s));
          s = le_cc2400_set MANAND 0x7ffe s;
          s = le_cc2400_set LMTST 0x2b22 s;
          s = le_cc2400_set MDMTST0 0x124b s;
          s = le_cc2400_set GRMDM 0x44e1 s;
          s = le_cc2400_set SYNCL (ucast (sync AND 0xffff)) s;
          s = le_cc2400_set SYNCH (ucast (drop_bit 16 sync AND 0xffff)) s;
          s = le_cc2400_set FSDIV (rf_channel s - 1) s;
          s = le_cc2400_set MDMCTRL 0x0040 s
      in bnd (wait_xosc (in_status s)) (\<lambda>rest. timer1_wait_fs_lock (strobe_SFSON (s\<lparr>in_status := rest\<rparr>))))"

definition adv_channel_idx :: "u16 \<Rightarrow> u8" where
  "adv_channel_idx ch = (if ch = 2402 then 37 else if ch = 2426 then 38 else if ch = 2480 then 39 else 37)"

text \<open>The channel of the next reception: the advertising channel, or the next hop of the connection.\<close>

definition next_channel :: "le_phy \<Rightarrow> (u8 \<times> le_phy) res" where
  "next_channel s =
     (if access_address (conn s) = ADVERTISING_AA then Inr (adv_channel_idx (le_adv_channel s), s)
      else
        let s = upd_conn (\<lambda>c. c\<lparr>channel_idx := le_next_idx (channel_idx c) (hop_increment c)\<rparr>) s in
        bnd (le_map_channel (channel_idx (conn s)) (remapping (conn s))) (\<lambda>i. Inr (i, s)))"

definition change_channel :: "le_phy \<Rightarrow> le_phy res" where
  "change_channel s =
     (let s = dio_ssp_stop (strobe_SRFOFF s) in
      bnd (buffer_clear (current_rxbuf s) s) (\<lambda>s.
      let s = dio_ssp_start (le_dma_init s) in
      bnd (next_channel s) (\<lambda>(i, s).
      le_cc2400_init_rf (s\<lparr>rf_channel := btle_channel_index_to_phys i\<rparr>))))"

section \<open>Connection events\<close>

definition reset_conn_event :: "le_phy \<Rightarrow> le_phy" where
  "reset_conn_event s = s\<lparr>conn_event := (conn_event s)\<lparr>num_packets := 0, opened := False\<rparr>\<rparr>"

text \<open>The anchor this event has shown, if it has: of two packets the first, of one packet when it is close to the estimate.\<close>

definition observed_anchor :: "le_conn \<Rightarrow> le_conn_event \<Rightarrow> u32 option" where
  "observed_anchor c e =
     (if num_packets e = 2 then Some (ev_anchor e)
      else if num_packets e = 1 \<and> anchor_set c then
        let estimated_anchor = last_anchor c + conn_interval c;
            delta = estimated_anchor - ev_anchor e;
            delta = delta + ANCHOR_EPSILON
        in if delta < 2 * ANCHOR_EPSILON then Some (ev_anchor e) else None
      else None)"

definition update_anchor :: "le_phy \<Rightarrow> le_phy res" where
  "update_anchor s =
     (case observed_anchor (conn s) (conn_event s) of
        Some a \<Rightarrow> Inr (upd_conn (\<lambda>c. c\<lparr>last_anchor := a, anchor_set := True\<rparr>) s)
      | None \<Rightarrow>
          if anchor_set (conn s) then Inr (upd_conn (\<lambda>c. c\<lparr>last_anchor := last_anchor c + conn_interval c\<rparr>) s)
          else bnd (NOW s) (\<lambda>(t, s).
            Inr (upd_conn (\<lambda>c. c\<lparr>last_anchor := ev_anchor (conn_event s), last_packet_ts := t\<rparr>) s)))"

definition update_packet_ts :: "le_phy \<Rightarrow> le_phy res" where
  "update_packet_ts s =
     (if num_packets (conn_event s) > 0
      then bnd (NOW s) (\<lambda>(t, s). Inr (upd_conn (\<lambda>c. c\<lparr>last_packet_ts := t\<rparr>) s)) else Inr s)"

text \<open>Back to advertising after the timeout or a cancelled connection, or on to the next event.\<close>

definition next_event :: "le_phy \<Rightarrow> le_phy res" where
  "next_event s =
     bnd (NOW s) (\<lambda>(t, s).
     if t - last_packet_ts (conn s) > supervision_timeout (conn s) then change_channel (reset_conn s)
     else if cancel_follow s then change_channel (reset_conn (s\<lparr>cancel_follow := False\<rparr>))
     else Inr (timer1_set_match (last_anchor (conn s) + conn_interval (conn s) - RX_WARMUP_TIME) s))"

definition finish_conn_event :: "le_phy \<Rightarrow> le_phy res" where
  "finish_conn_event s =
     bnd (update_anchor s) (\<lambda>s.
     bnd (update_packet_ts s) (\<lambda>s.
     next_event (upd_conn (\<lambda>c. c\<lparr>conn_event_counter := conn_event_counter c + 1\<rparr>) (reset_conn_event s))))"

section \<open>The DMA handler\<close>

definition dewhiten_length :: "u16 \<Rightarrow> u8 \<Rightarrow> u8 res" where
  "dewhiten_length channel b =
     bnd (rd whitening_index (unat (btle_channel_index channel))) (\<lambda>idx. Inr (le_dewhiten_byte ((idx + 8) mod 127) b))"

definition rx_add_rssi :: "u8 \<Rightarrow> le_rx \<Rightarrow> le_rx" where
  "rx_add_rssi rssi b =
     (let b = b\<lparr>rx_rssi_sum := rx_rssi_sum b + sint rssi\<rparr>;
          b = (if sint rssi < sint (rx_rssi_min b) then b\<lparr>rx_rssi_min := rssi\<rparr> else b)
      in if sint rssi > sint (rx_rssi_max b) then b\<lparr>rx_rssi_max := rssi\<rparr> else b)"

text \<open>The byte goes into the buffer, \<open>pos\<close> is advanced.\<close>

definition rx_put :: "le_phy \<Rightarrow> (nat \<times> le_phy) res" where
  "rx_put s =
     bnd (get_rx (current_rxbuf s) s) (\<lambda>b.
     bnd (rd (le_dma_dest s) (rx_pos b mod 2)) (\<lambda>x.
     bnd (wr (rx_data b) (rx_pos b) x) (\<lambda>d.
     bnd (upd_rxbuf (current_rxbuf s) (\<lambda>b. b\<lparr>rx_data := d, rx_pos := rx_pos b + 1\<rparr>) s) (\<lambda>s.
     Inr (rx_pos b + 1, s)))))"

definition rx_first :: "u32 \<Rightarrow> le_phy \<Rightarrow> le_phy res" where
  "rx_first timestamp s =
     bnd (upd_rxbuf (current_rxbuf s) (\<lambda>b. b\<lparr>rx_timestamp := timestamp - USEC (8 + 32), rx_channel := rf_channel s,
       rx_access_address := access_address (conn s)\<rparr>) s) (\<lambda>s.
     Inr (if btle_channel_index (rf_channel s) < 37 then timer1_clear_match s else s))"

definition rx_length :: "le_phy \<Rightarrow> le_phy res" where
  "rx_length s =
     bnd (get_rx (current_rxbuf s) s) (\<lambda>b.
     bnd (rd (rx_data b) 1) (\<lambda>x.
     bnd (dewhiten_length (rx_channel b) x) (\<lambda>len.
     upd_rxbuf (current_rxbuf s) (\<lambda>b. b\<lparr>rx_size := unat len + 2 + 3\<rparr>) s)))"

text \<open>A new buffer and the radio, or a wait for a buffer.\<close>

definition rx_next :: "le_phy \<Rightarrow> le_phy res" where
  "rx_next s =
     bnd (buffer_get s) (\<lambda>(p, s).
     let s = s\<lparr>current_rxbuf := p\<rparr> in
     if p = None then timer1_wait_buffer s else timer1_wait_fs_lock s)"

text \<open>The packet is complete; the result of the insertion is not looked at.\<close>

definition rx_finished :: "le_phy \<Rightarrow> le_phy res" where
  "rx_finished s =
     (let s = (dio_ssp_stop (strobe_SFSON s))\<lparr>dma_irq := False\<rparr> in
      case current_rxbuf s of None \<Rightarrow> Inl Oob
      | Some cur \<Rightarrow>
     bnd (queue_insert (packet_queue s) cur) (\<lambda>(_, q).
     let s = s\<lparr>packet_queue := q\<rparr> in
     if btle_channel_index (rf_channel s) < 37 then
       let n = num_packets (conn_event s) + 1; s = s\<lparr>conn_event := (conn_event s)\<lparr>num_packets := n\<rparr>\<rparr> in
       if n = 1 then
         bnd (get_rx (Some cur) s) (\<lambda>b.
         bnd (NOW (s\<lparr>conn_event := (conn_event s)\<lparr>ev_anchor := rx_timestamp b\<rparr>\<rparr>)) (\<lambda>(t, s).
         rx_next (timer1_set_match (t + IFS_TIMEOUT) s)))
       else if n = 2 then
         bnd (buffer_get (strobe_SRFOFF s)) (\<lambda>(p, s). finish_conn_event (s\<lparr>current_rxbuf := p\<rparr>))
       else rx_next s
     else rx_next s))"

text \<open>
  \<open>stat\<close> and \<open>tc\<close> are the bits of channel 0 in the interrupt status and the terminal count status; the error status is only
  acknowledged.
\<close>

definition le_DMA_IRQHandler :: "bool \<Rightarrow> bool \<Rightarrow> le_phy \<Rightarrow> le_phy res" where
  "le_DMA_IRQHandler stat tc s =
     bnd (NOW s) (\<lambda>(timestamp, s).
     if stat \<and> tc then
       bnd (cc2400_get_rssi s) (\<lambda>(v, s).
       bnd (upd_rxbuf (current_rxbuf s) (rx_add_rssi (ucast (drop_bit 8 v))) s) (\<lambda>s.
       bnd (rx_put s) (\<lambda>(pos, s).
       bnd (if pos = 1 then rx_first timestamp s else Inr s) (\<lambda>s.
       bnd (if pos = 2 then rx_length s else Inr s) (\<lambda>s.
       bnd (get_rx (current_rxbuf s) s) (\<lambda>b.
       if pos > 2 \<and> pos \<ge> rx_size b then rx_finished s else Inr s))))))
     else Inr s)"

section \<open>The timer handler\<close>

text \<open>MR0, first case: a connection update at its instant.\<close>

definition t1_update :: "le_phy \<Rightarrow> le_phy res" where
  "t1_update s =
     (let c = conn s in
      if \<not> opened (conn_event s) \<and> win_offset c > 0 then
        let s = timer1_set_match (last_anchor c + conn_interval c + win_offset c - RX_WARMUP_TIME) s
        in Inr (s\<lparr>conn_event := (conn_event s)\<lparr>opened := True\<rparr>\<rparr>)
      else
        let s = s\<lparr>conn_event := (conn_event s)\<lparr>opened := True\<rparr>\<rparr>;
            s = upd_conn (\<lambda>c. c\<lparr>anchor_set := False, conn_interval := conn_update_pending_interval c,
              supervision_timeout := conn_update_pending_supervision_timeout c, conn_update_pending := False\<rparr>) s;
            c = conn s
        in change_channel (timer1_set_match (last_anchor c + conn_interval c + win_offset c + ucast (win_size c) + USEC 2120) s))"

definition t1_map_update :: "le_phy \<Rightarrow> le_phy" where
  "t1_map_update s =
     (if channel_map_update_pending (conn s) \<and> conn_event_counter (conn s) = channel_map_update_instant (conn s)
      then upd_conn (\<lambda>c. c\<lparr>remapping := pending_remapping c, channel_map_update_pending := False\<rparr>) s else s)"

text \<open>The code tests \<open>opened\<close> a second time in its else branch, where it is set.\<close>

definition t1_event :: "le_phy \<Rightarrow> le_phy res" where
  "t1_event s =
     (if \<not> opened (conn_event s) then
        bnd (NOW (s\<lparr>conn_event := (conn_event s)\<lparr>opened := True\<rparr>\<rparr>)) (\<lambda>(t, s).
        change_channel (timer1_set_match (t + USEC 2120 + RX_WARMUP_TIME) s))
      else finish_conn_event s)"

definition t1_leds :: "le_phy \<Rightarrow> le_phy" where
  "t1_leds s = s\<lparr>mri := (mri s)(1 := False), leds := (False, False, False)\<rparr>"

definition t1_start_rx :: "le_phy \<Rightarrow> le_phy" where
  "t1_start_rx s = le_cc2400_strobe_rx ((dio_ssp_start (le_dma_init s))\<lparr>dma_irq := True\<rparr>)"

definition t1_fs_lock :: "le_phy \<Rightarrow> le_phy res" where
  "t1_fs_lock s =
     bnd (cc2400_status s) (\<lambda>(v, s).
     if v AND FS_LOCK \<noteq> 0 then Inr (timer1_cancel_fs_lock (t1_start_rx s)) else timer1_wait_fs_lock s)"

definition t1_buffer :: "le_phy \<Rightarrow> le_phy res" where
  "t1_buffer s =
     bnd (buffer_get s) (\<lambda>(p, s).
     let s = s\<lparr>current_rxbuf := p\<rparr> in
     if p = None then timer1_wait_buffer s
     else bnd (cc2400_status s) (\<lambda>(v, s).
       if v AND FS_LOCK \<noteq> 0 then Inr (t1_start_rx s) else timer1_wait_fs_lock s))"

definition t1_rest :: "bool \<Rightarrow> bool \<Rightarrow> bool \<Rightarrow> le_phy \<Rightarrow> le_phy res" where
  "t1_rest ir1 ir2 ir3 s =
     (let s = (if ir1 then t1_leds s else s) in
      bnd (if ir2 then t1_fs_lock s else Inr s) (\<lambda>s. if ir3 then t1_buffer s else Inr s))"

text \<open>The arguments are the four match interrupts in \<open>T1IR\<close>.  A connection update leaves the handler early.\<close>

definition le_TIMER1_IRQHandler :: "bool \<Rightarrow> bool \<Rightarrow> bool \<Rightarrow> bool \<Rightarrow> le_phy \<Rightarrow> le_phy res" where
  "le_TIMER1_IRQHandler ir0 ir1 ir2 ir3 s =
     (if ir0 then
        if conn_update_pending (conn s) \<and> conn_event_counter (conn s) = conn_update_instant (conn s) then t1_update s
        else bnd (t1_event (t1_map_update s)) (t1_rest ir1 ir2 ir3)
      else t1_rest ir1 ir2 ir3 s)"

section \<open>Packets\<close>

definition extract_field :: "le_rx \<Rightarrow> nat \<Rightarrow> nat \<Rightarrow> u32 res" where
  "extract_field buf offset size0 =
     loop size0 (\<lambda>i ret. bnd (rd (rx_data buf) (offset + i)) (\<lambda>x. Inr (ret OR push_bit (i * 8) (ucast x)))) 0"

text \<open>The connection a CONNECT_REQ describes, fields as they come in the packet.\<close>

definition connect_fields :: "le_rx \<Rightarrow> le_conn \<Rightarrow> le_conn res" where
  "connect_fields buf c =
     bnd (extract_field buf 14 4) (\<lambda>aa.
     bnd (extract_field buf 18 3) (\<lambda>ci.
     bnd (extract_field buf 21 1) (\<lambda>ws.
     bnd (extract_field buf 22 2) (\<lambda>wo.
     bnd (extract_field buf 24 2) (\<lambda>iv.
     bnd (extract_field buf 28 2) (\<lambda>st.
     bnd (extract_field buf 35 1) (\<lambda>hi.
     Inr (c\<lparr>access_address := aa, crc_init := ci, crc_init_reversed := rbit ci, win_size := ucast ws, win_offset := wo,
       conn_interval := iv, supervision_timeout := st, hop_increment := ucast (hi AND 0x1f)\<rparr>))))))))"

text \<open>The checks, with the units put right on the way; \<open>None\<close> is the jump to \<open>err_out\<close>.\<close>

definition connect_checked :: "le_conn \<Rightarrow> le_conn option" where
  "connect_checked c =
     (if conn_interval c < 6 \<or> conn_interval c > 3200 then None
      else
        let c = c\<lparr>conn_interval := conn_interval c * USEC 1250\<rparr>;
            c = c\<lparr>win_offset := win_offset c * USEC 1250\<rparr>
        in if win_offset c > conn_interval c then None
        else
          let ws = ucast (win_size c) * USEC 1250;
              mx = conn_interval c - USEC 1250;
              mx = (if mx > MSEC 10 then MSEC 10 else mx)
          in if ws < USEC 1250 \<or> ws > mx then None
          else
            let c = c\<lparr>supervision_timeout := supervision_timeout c * MSEC 10\<rparr>
            in if supervision_timeout c < MSEC 100 \<or> supervision_timeout c > SEC 32 then None else Some c)"

abbreviation PACKET_DURATION :: "le_rx \<Rightarrow> u32" where
  "PACKET_DURATION b \<equiv> USEC (40 + of_nat (rx_size b) * 8)"

definition le_connect_handler :: "le_rx \<Rightarrow> le_phy \<Rightarrow> le_phy res" where
  "le_connect_handler buf s =
     (if \<not> do_follow s then Inr s
      else if rx_size buf \<noteq> 2 + 6 + 6 + 22 + 3 then Inr s
      else
        let s = s\<lparr>cancel_follow := False\<rparr> in
        bnd (connect_fields buf (conn s)) (\<lambda>c.
        case connect_checked c of None \<Rightarrow> Inr (reset_conn s)
        | Some c \<Rightarrow>
            bnd (le_parse_channel_map (drop 30 (rx_data buf))) (\<lambda>m.
            if total_channels m = 0 then Inr (reset_conn s)
            else
              let s = reset_conn_event (timer1_cancel_fs_lock (s\<lparr>conn := c\<lparr>remapping := m\<rparr>\<rparr>)) in
              Inr (timer1_set_match (rx_timestamp buf + PACKET_DURATION buf + win_offset c + USEC 1250 - RX_WARMUP_TIME) s))))"

text \<open>\<open>conn.win_size\<close> has eight bits, so the product is cut there.\<close>

definition connection_update_handler :: "le_rx \<Rightarrow> le_phy \<Rightarrow> le_phy res" where
  "connection_update_handler buf s =
     bnd (extract_field buf 3 1) (\<lambda>ws.
     bnd (extract_field buf 4 2) (\<lambda>wo.
     bnd (extract_field buf 6 2) (\<lambda>iv.
     bnd (extract_field buf 10 2) (\<lambda>st.
     bnd (extract_field buf 12 2) (\<lambda>inst.
     Inr (upd_conn (\<lambda>c. c\<lparr>win_size := ucast (ucast (ucast ws :: u8) * USEC 1250), win_offset := wo * USEC 1250,
       conn_update_pending_interval := iv * USEC 1250, conn_update_pending_supervision_timeout := st * MSEC 10,
       conn_update_instant := ucast inst, conn_update_pending := True\<rparr>) s))))))"

definition channel_map_update_handler :: "le_rx \<Rightarrow> le_phy \<Rightarrow> le_phy res" where
  "channel_map_update_handler buf s =
     bnd (extract_field buf 8 2) (\<lambda>inst.
     bnd (le_parse_channel_map (drop 3 (rx_data buf))) (\<lambda>m.
     Inr (upd_conn (\<lambda>c. c\<lparr>channel_map_update_pending := True, channel_map_update_instant := ucast inst,
       pending_remapping := m\<rparr>) s)))"

definition packet_handler :: "le_rx \<Rightarrow> le_phy \<Rightarrow> le_phy res" where
  "packet_handler buf s =
     bnd (rd (rx_data buf) 0) (\<lambda>d0.
     if btle_channel_index (rx_channel buf) \<ge> 37 then
       if d0 AND 0xf = 5 then le_connect_handler buf s else Inr s
     else
       bnd (rd (rx_data buf) 1) (\<lambda>d1.
       if d0 AND 3 = 3 \<and> d1 > 0 then
         bnd (rd (rx_data buf) 2) (\<lambda>d2.
         if d2 = 0 then (if d1 = 12 then connection_update_handler buf s else Inr s)
         else if d2 = 1 then (if d1 = 8 then channel_map_update_handler buf s else Inr s)
         else Inr s)
       else Inr s))"

text \<open>The loop ends at the first byte that differs.\<close>

primrec bd_addr_loop :: "nat \<Rightarrow> nat \<Rightarrow> u8 list \<Rightarrow> le_phy \<Rightarrow> bool res" where
  "bd_addr_loop 0 i a s = Inr True"
| "bd_addr_loop (Suc n) i a s =
     bnd (rd a i) (\<lambda>x. bnd (rd (target_mask s) i) (\<lambda>m. bnd (rd (target s) i) (\<lambda>t.
     if x AND m \<noteq> t then Inr False else bd_addr_loop n (i + 1) a s)))"

definition bd_addr_cmp :: "u8 list \<Rightarrow> le_phy \<Rightarrow> bool res" where
  "bd_addr_cmp bd_addr s = bd_addr_loop 6 0 bd_addr s"

definition filter_match :: "le_rx \<Rightarrow> le_phy \<Rightarrow> bool res" where
  "filter_match buf s =
     (if \<not> target_set s then Inr True
      else if btle_channel_index (rx_channel buf) < 37 then Inr True
      else
        bnd (rd (rx_data buf) 0) (\<lambda>d0.
        let k = d0 AND 0xf in
        if k = 0 \<or> k = 2 \<or> k = 6 \<or> k = 4 then
          if rx_size buf < 2 + 6 then Inr False else bd_addr_cmp (drop 2 (rx_data buf)) s
        else if k = 1 \<or> k = 3 \<or> k = 5 then
          if rx_size buf < 2 + 6 + 6 then Inr False
          else bnd (bd_addr_cmp (drop 2 (rx_data buf)) s) (\<lambda>m. if m then Inr True else bd_addr_cmp (drop 8 (rx_data buf)) s)
        else Inr False))"

definition le_bytes :: "u32 \<Rightarrow> u8 list" where
  "le_bytes w = map (\<lambda>i. ucast (drop_bit (8 * i) w)) [0..<4]"

text \<open>The average divides the sum, an \<open>int\<close>, by the size, an unsigned: the sum is converted first.\<close>

definition usb_enqueue_le :: "le_rx \<Rightarrow> le_phy \<Rightarrow> (int \<times> le_phy) res" where
  "usb_enqueue_le buf s =
     (case usb_enqueue (usb_fifo s) of
        (None, _) \<Rightarrow> Inr (0, s)
      | (Some i, r) \<Rightarrow>
          if rx_size buf = 0 then Inl Div0
          else
            bnd (rd (ring_fifo r) i) (\<lambda>f.
            bnd (memcpy (pkt_data f) (le_bytes (rx_access_address buf)) 4) (\<lambda>d.
            bnd (window 4 (\<lambda>d. memcpy d (rx_data buf) (RX_DMA_SIZE - 4)) d) (\<lambda>d.
            bnd (wr (ring_fifo r) i (f\<lparr>pkt_type := LE_PACKET, clkn_high := 0, clk100ns := rx_timestamp buf,
              pkt_channel := ucast ((rx_channel buf - 2402) AND 0xff),
              pkt_rssi_avg := ucast ((word_of_int (rx_rssi_sum buf) :: u32) div of_nat (rx_size buf)),
              pkt_rssi_min := rx_rssi_min buf, pkt_rssi_max := rx_rssi_max buf, pkt_rssi_count := 0,
              pkt_data := d, pkt_status := 0\<rparr>)) (\<lambda>fs.
            Inr (1, s\<lparr>usb_fifo := r\<lparr>ring_fifo := fs\<rparr>\<rparr>))))))"

section \<open>The main loop\<close>

definition le_sys_init :: "le_phy \<Rightarrow> le_phy" where
  "le_sys_init s = dio_ssp_start (le_dma_init (s\<lparr>usb_fifo := usb_queue_init (usb_fifo s)\<rparr>))"

text \<open>\<open>le_phy_main\<close> up to its loop.\<close>

definition le_phy_start :: "le_phy \<Rightarrow> le_phy res" where
  "le_phy_start s =
     (let s = buffers_init s; s = s\<lparr>packet_queue := queue_init (packet_queue s)\<rparr> in
      bnd (buffer_get s) (\<lambda>(p, s).
      let s = upd_conn (\<lambda>c. c\<lparr>access_address := ADVERTISING_AA\<rparr>) (s\<lparr>current_rxbuf := p, rf_channel := le_adv_channel s\<rparr>) in
      bnd (le_cc2400_init_rf (le_sys_init s)) (\<lambda>s.
      Inr (s\<lparr>cancel_follow := False\<rparr>))))"

text \<open>
  One pass of the loop in the steps between which an interrupt may come: take a packet, dewhiten it, show and handle it,
  release it, serve USB.
\<close>

definition main_take :: "le_phy \<Rightarrow> le_phy res" where
  "main_take s = bnd (queue_remove (packet_queue s)) (\<lambda>(_, p, q). Inr (s\<lparr>packet := p, packet_queue := q\<rparr>))"

definition main_dewhiten :: "le_phy \<Rightarrow> le_phy res" where
  "main_dewhiten s =
     bnd (get_rx (packet s) s) (\<lambda>b.
     bnd (le_dewhiten (rx_data b) (rx_size b) (rx_channel b)) (\<lambda>d.
     upd_rxbuf (packet s) (\<lambda>b. b\<lparr>rx_data := d\<rparr>) s))"

definition main_handle :: "le_phy \<Rightarrow> le_phy res" where
  "main_handle s =
     bnd (get_rx (packet s) s) (\<lambda>b.
     bnd (filter_match b s) (\<lambda>m.
     if m then
       bnd (blink False True False s) (\<lambda>s.
       bnd (usb_enqueue_le b s) (\<lambda>(_, s).
       packet_handler b s))
     else Inr s))"

definition main_release :: "le_phy \<Rightarrow> le_phy res" where
  "main_release s = bnd (buffer_release (packet s) s) (\<lambda>s. Inr (s\<lparr>packet := None\<rparr>))"

definition main_usb :: "u8 \<Rightarrow> le_phy \<Rightarrow> le_phy res" where
  "main_usb epstat s = bnd (handle_usb epstat 0 (usb_fifo s)) (\<lambda>r. Inr (s\<lparr>usb_fifo := r\<rparr>))"

text \<open>The loop ends when the mode has changed; the rest of the end stops the timer.\<close>

definition le_phy_end :: "le_phy \<Rightarrow> le_phy" where
  "le_phy_end s = s\<lparr>leds := (False, False, False)\<rparr>"

end
