(* ===== verification/LePhyInv.thy ===== *)
theory LePhyInv
  imports LePhy Wp
begin

text \<open>
  The packet buffers of the LE sniffer: each of the four has at most one owner, the queue is never full, no byte is
  written behind a buffer.
\<close>

section \<open>The invariant\<close>

definition remap_wf :: "le_channel_remapping \<Rightarrow> bool" where
  "remap_wf r \<longleftrightarrow> length (channel_in_use r) = 37 \<and> length (remapping_index r) = 37 \<and> total_channels r \<le> 37"

text \<open>A buffer that receives: the length is known from the second byte on and is not yet reached.\<close>

definition rx_receiving :: "le_rx \<Rightarrow> bool" where
  "rx_receiving b \<longleftrightarrow> rx_pos b \<le> 1 \<or> 5 \<le> rx_size b \<and> rx_pos b < rx_size b"

definition rx_ok :: "le_rx \<Rightarrow> bool" where
  "rx_ok b \<longleftrightarrow> length (rx_data b) = 260 \<and> rx_size b \<le> 260"

text \<open>The buffers with complete packets.\<close>

definition waiting :: "le_phy \<Rightarrow> nat list" where
  "waiting s = q_list (packet_queue s) @ opt_list (packet s)"

definition base_inv :: "le_phy \<Rightarrow> bool" where
  "base_inv s \<longleftrightarrow> length (le_dma_dest s) = 2 \<and> length (le_buffer_pool s) = 4 \<and> (\<forall>b \<in> set (le_buffer_pool s). rx_ok b) \<and> q_inv (packet_queue s) \<and>
     distinct (waiting s) \<and> (\<forall>i \<in> set (waiting s). i < 4 \<and> \<not> rx_available (le_buffer_pool s ! i) \<and> 5 \<le> rx_size (le_buffer_pool s ! i)) \<and>
     remap_wf (remapping (conn s)) \<and> remap_wf (pending_remapping (conn s))"

text \<open>Buffer \<open>i\<close> is nobody else's.\<close>

definition apart :: "nat \<Rightarrow> le_phy \<Rightarrow> bool" where
  "apart i s \<longleftrightarrow> i < 4 \<and> \<not> rx_available (le_buffer_pool s ! i) \<and> i \<notin> set (waiting s)"

definition phy_inv :: "le_phy \<Rightarrow> bool" where
  "phy_inv s \<longleftrightarrow> base_inv s \<and> (\<forall>i \<in> set_option (current_rxbuf s). apart i s \<and> rx_receiving (le_buffer_pool s ! i))"

lemma base_inv_update [simp]:
  "base_inv (s\<lparr>current_rxbuf := x1\<rparr>) = base_inv s" "base_inv (s\<lparr>conn_event := x2\<rparr>) = base_inv s"
  "base_inv (s\<lparr>rf_channel := x3\<rparr>) = base_inv s" "base_inv (s\<lparr>cancel_follow := x4\<rparr>) = base_inv s"
  "base_inv (s\<lparr>dma_next := x5\<rparr>) = base_inv s" "base_inv (s\<lparr>dma_on := x6\<rparr>) = base_inv s"
  "base_inv (s\<lparr>dma_irq := x7\<rparr>) = base_inv s" "base_inv (s\<lparr>rx_on := x8\<rparr>) = base_inv s"
  "base_inv (s\<lparr>cc_regs := x9\<rparr>) = base_inv s" "base_inv (s\<lparr>t1mr := x10\<rparr>) = base_inv s"
  "base_inv (s\<lparr>mri := x11\<rparr>) = base_inv s" "base_inv (s\<lparr>leds := x12\<rparr>) = base_inv s"
  "base_inv (s\<lparr>usb_fifo := x13\<rparr>) = base_inv s" "base_inv (s\<lparr>in_time := x14\<rparr>) = base_inv s"
  "base_inv (s\<lparr>in_status := x15\<rparr>) = base_inv s" "base_inv (s\<lparr>in_rssi := x16\<rparr>) = base_inv s"
 
  "base_inv (s\<lparr>do_follow := y0\<rparr>) = base_inv s"
  "base_inv (s\<lparr>target := y1\<rparr>) = base_inv s"
  "base_inv (s\<lparr>target_mask := y2\<rparr>) = base_inv s"
  "base_inv (s\<lparr>target_set := y3\<rparr>) = base_inv s"
  "base_inv (s\<lparr>requested_mode := y4\<rparr>) = base_inv s"
  "base_inv (s\<lparr>le_adv_channel := y5\<rparr>) = base_inv s"
  by (simp_all add: base_inv_def waiting_def)

lemma apart_update [simp]:
  "apart i (s\<lparr>current_rxbuf := x1\<rparr>) = apart i s" "apart i (s\<lparr>conn_event := x2\<rparr>) = apart i s"
  "apart i (s\<lparr>rf_channel := x3\<rparr>) = apart i s" "apart i (s\<lparr>cancel_follow := x4\<rparr>) = apart i s"
  "apart i (s\<lparr>dma_next := x5\<rparr>) = apart i s" "apart i (s\<lparr>dma_on := x6\<rparr>) = apart i s"
  "apart i (s\<lparr>dma_irq := x7\<rparr>) = apart i s" "apart i (s\<lparr>rx_on := x8\<rparr>) = apart i s"
  "apart i (s\<lparr>cc_regs := x9\<rparr>) = apart i s" "apart i (s\<lparr>t1mr := x10\<rparr>) = apart i s"
  "apart i (s\<lparr>mri := x11\<rparr>) = apart i s" "apart i (s\<lparr>leds := x12\<rparr>) = apart i s"
  "apart i (s\<lparr>usb_fifo := x13\<rparr>) = apart i s" "apart i (s\<lparr>in_time := x14\<rparr>) = apart i s"
  "apart i (s\<lparr>in_status := x15\<rparr>) = apart i s" "apart i (s\<lparr>in_rssi := x16\<rparr>) = apart i s"
  "apart i (s\<lparr>le_dma_dest := x17\<rparr>) = apart i s" "apart i (s\<lparr>conn := x18\<rparr>) = apart i s"
  "apart i (s\<lparr>do_follow := y0\<rparr>) = apart i s"
  "apart i (s\<lparr>target := y1\<rparr>) = apart i s"
  "apart i (s\<lparr>target_mask := y2\<rparr>) = apart i s"
  "apart i (s\<lparr>target_set := y3\<rparr>) = apart i s"
  "apart i (s\<lparr>requested_mode := y4\<rparr>) = apart i s"
  "apart i (s\<lparr>le_adv_channel := y5\<rparr>) = apart i s"
  by (simp_all add: apart_def waiting_def)

lemma base_inv_conn:
  "base_inv s \<Longrightarrow> remap_wf (remapping c) \<Longrightarrow> remap_wf (pending_remapping c) \<Longrightarrow> base_inv (s\<lparr>conn := c\<rparr>)"
  by (simp add: base_inv_def waiting_def)

lemma base_inv_wf: "base_inv s \<Longrightarrow> remap_wf (remapping (conn s)) \<and> remap_wf (pending_remapping (conn s))"
  by (simp add: base_inv_def)

text \<open>A change of one buffer that leaves it in the pool or out of it, and complete if it was.\<close>

lemma base_inv_pool:
  assumes "base_inv s" and "i < 4" and "rx_ok b"
    and "i \<in> set (waiting s) \<Longrightarrow> \<not> rx_available b \<and> 5 \<le> rx_size b"
  shows "base_inv (s\<lparr>le_buffer_pool := (le_buffer_pool s)[i := b]\<rparr>)"
  using assms by (auto simp: base_inv_def waiting_def nth_list_update dest!: set_update_subset_insert [THEN subsetD])

lemma apart_pool: "length (le_buffer_pool s) = 4 \<Longrightarrow> apart i (s\<lparr>le_buffer_pool := (le_buffer_pool s)[j := b]\<rparr>) \<longleftrightarrow>
    i < 4 \<and> i \<notin> set (waiting s) \<and> (if i = j then \<not> rx_available b else \<not> rx_available (le_buffer_pool s ! i))"
  by (auto simp: apart_def waiting_def nth_list_update)

section \<open>Rules\<close>

lemma wp_NOW [wp]: "(\<And>t ts. in_time s = t # ts \<Longrightarrow> Q (t, s\<lparr>in_time := ts\<rparr>)) \<Longrightarrow> post (NOW s) Q"
  by (auto simp: NOW_def post_def split: list.splits)

lemma wp_status [wp]: "(\<And>t ts. in_status s = t # ts \<Longrightarrow> Q (t, s\<lparr>in_status := ts\<rparr>)) \<Longrightarrow> post (cc2400_status s) Q"
  by (auto simp: cc2400_status_def post_def split: list.splits)

lemma wp_rssi [wp]: "(\<And>t ts. in_rssi s = t # ts \<Longrightarrow> Q (t, s\<lparr>in_rssi := ts\<rparr>)) \<Longrightarrow> post (cc2400_get_rssi s) Q"
  by (auto simp: cc2400_get_rssi_def post_def split: list.splits)

lemma wp_upd_rxbuf [wp]:
  "(\<And>i. p = Some i \<Longrightarrow> i < length (le_buffer_pool s) \<Longrightarrow> Q (s\<lparr>le_buffer_pool := (le_buffer_pool s)[i := f (le_buffer_pool s ! i)]\<rparr>)) \<Longrightarrow>
    post (upd_rxbuf p f s) Q"
  by (cases p) (auto simp: upd_rxbuf_def post_def bnd_Inr_iff rd_Inr_iff wr_Inr_iff)

lemma wp_get_rx [wp]:
  "(\<And>i. p = Some i \<Longrightarrow> i < length (le_buffer_pool s) \<Longrightarrow> Q (le_buffer_pool s ! i)) \<Longrightarrow> post (get_rx p s) Q"
  by (cases p) (auto simp: get_rx_def post_def rd_Inr_iff)

lemma first_available_Some: "first_available k bs = Some i \<Longrightarrow> k \<le> i \<and> i < k + length bs \<and> rx_available (bs ! (i - k))"
proof (induction bs arbitrary: k)
  case (Cons b bs)
  then show ?case
  proof (cases "rx_available b")
    case False
    then have *: "Suc k \<le> i \<and> i < Suc k + length bs \<and> rx_available (bs ! (i - Suc k))"
      using Cons.IH [of "Suc k"] Cons.prems by simp
    then have "i - k = Suc (i - Suc k)" using Suc_diff_Suc [of k i] by linarith
    then show ?thesis using * by simp
  qed simp
qed simp

lemma rx_clear_ok [simp]: "rx_ok (rx_clear b) \<longleftrightarrow> length (rx_data b) = 260" "rx_receiving (rx_clear b)"
    "rx_available (rx_clear b) = rx_available b"
  by (simp_all add: rx_clear_def rx_ok_def rx_receiving_def)

lemma base_inv_buf: "base_inv s \<Longrightarrow> i < 4 \<Longrightarrow> rx_ok (le_buffer_pool s ! i)"
  by (simp add: base_inv_def)

lemma base_inv_len: "base_inv s \<Longrightarrow> length (le_buffer_pool s) = 4"
  by (simp add: base_inv_def)

lemma wp_buffer_get:
  assumes "base_inv s" and "\<And>p bs. phy_inv (s\<lparr>le_buffer_pool := bs, current_rxbuf := p\<rparr>) \<Longrightarrow> Q (p, s\<lparr>le_buffer_pool := bs\<rparr>)"
  shows "post (buffer_get s) Q"
proof (cases "first_available 0 (le_buffer_pool s)")
  case None
  have "phy_inv (s\<lparr>le_buffer_pool := le_buffer_pool s, current_rxbuf := None\<rparr>)" using assms(1) by (simp add: phy_inv_def)
  from assms(2) [OF this] show ?thesis using None by (simp add: buffer_get_def)
next
  case (Some i)
  let ?b = "le_buffer_pool s ! i"
  let ?c = "rx_clear (?b\<lparr>rx_available := False\<rparr>)"
  have i: "i < 4" "rx_available ?b" using first_available_Some [OF Some] base_inv_len [OF assms(1)] by simp_all
  then have n: "i \<notin> set (waiting s)" using assms(1) by (auto simp: base_inv_def)
  have "rx_ok ?c" using base_inv_buf [OF assms(1) i(1)] by (simp add: rx_ok_def rx_clear_def)
  then have "base_inv (s\<lparr>le_buffer_pool := (le_buffer_pool s)[i := ?c]\<rparr>)" using n i by (intro base_inv_pool [OF assms(1)]) auto
  moreover have "apart i (s\<lparr>le_buffer_pool := (le_buffer_pool s)[i := ?c]\<rparr>)"
    using n i by (simp add: apart_pool base_inv_len [OF assms(1)])
  ultimately have "phy_inv (s\<lparr>le_buffer_pool := (le_buffer_pool s)[i := ?c], current_rxbuf := Some i\<rparr>)"
    using i base_inv_len [OF assms(1)] by (simp add: phy_inv_def)
  from assms(2) [OF this] show ?thesis
    using Some i base_inv_len [OF assms(1)] by (simp add: buffer_get_def buffer_clear_def upd_rxbuf_def)
qed

lemma phy_inv_update [simp]:
  "phy_inv (s\<lparr>conn_event := x1\<rparr>) = phy_inv s" "phy_inv (s\<lparr>rf_channel := x2\<rparr>) = phy_inv s"
  "phy_inv (s\<lparr>cancel_follow := x3\<rparr>) = phy_inv s" "phy_inv (s\<lparr>dma_next := x4\<rparr>) = phy_inv s"
  "phy_inv (s\<lparr>dma_on := x5\<rparr>) = phy_inv s" "phy_inv (s\<lparr>dma_irq := x6\<rparr>) = phy_inv s"
  "phy_inv (s\<lparr>rx_on := x7\<rparr>) = phy_inv s" "phy_inv (s\<lparr>cc_regs := x8\<rparr>) = phy_inv s"
  "phy_inv (s\<lparr>t1mr := x9\<rparr>) = phy_inv s" "phy_inv (s\<lparr>mri := x10\<rparr>) = phy_inv s"
  "phy_inv (s\<lparr>leds := x11\<rparr>) = phy_inv s" "phy_inv (s\<lparr>usb_fifo := x12\<rparr>) = phy_inv s"
  "phy_inv (s\<lparr>in_time := x13\<rparr>) = phy_inv s" "phy_inv (s\<lparr>in_status := x14\<rparr>) = phy_inv s"
  "phy_inv (s\<lparr>in_rssi := x15\<rparr>) = phy_inv s"
  "phy_inv (s\<lparr>do_follow := y0\<rparr>) = phy_inv s"
  "phy_inv (s\<lparr>target := y1\<rparr>) = phy_inv s"
  "phy_inv (s\<lparr>target_mask := y2\<rparr>) = phy_inv s"
  "phy_inv (s\<lparr>target_set := y3\<rparr>) = phy_inv s"
  "phy_inv (s\<lparr>requested_mode := y4\<rparr>) = phy_inv s"
  "phy_inv (s\<lparr>le_adv_channel := y5\<rparr>) = phy_inv s"
  by (simp_all add: phy_inv_def)

lemma phy_inv_base: "phy_inv s \<Longrightarrow> base_inv s"
  by (simp add: phy_inv_def)

lemma phy_inv_conn:
  "phy_inv s \<Longrightarrow> remap_wf (remapping c) \<Longrightarrow> remap_wf (pending_remapping c) \<Longrightarrow> phy_inv (s\<lparr>conn := c\<rparr>)"
  by (simp add: phy_inv_def base_inv_conn)

lemma phy_inv_wf [simp]: "phy_inv s \<Longrightarrow> remap_wf (remapping (conn s))" "phy_inv s \<Longrightarrow> remap_wf (pending_remapping (conn s))"
  using base_inv_wf by (auto simp: phy_inv_def)

text \<open>Buffers that are neither complete nor receiving may change freely, the receiving one as long as it goes on receiving.\<close>

lemma phy_inv_current:
  assumes "phy_inv s" and "current_rxbuf s = Some i" and "rx_ok b" and "rx_receiving b" and "\<not> rx_available b"
  shows "phy_inv (s\<lparr>le_buffer_pool := (le_buffer_pool s)[i := b]\<rparr>)"
proof -
  have a: "base_inv s" "apart i s" using assms(1,2) by (simp_all add: phy_inv_def)
  then have i: "i < 4" "i \<notin> set (waiting s)" "length (le_buffer_pool s) = 4" by (simp_all add: apart_def base_inv_len)
  have "base_inv (s\<lparr>le_buffer_pool := (le_buffer_pool s)[i := b]\<rparr>)" using i assms by (intro base_inv_pool [OF a(1)]) auto
  then show ?thesis using assms i by (simp add: phy_inv_def apart_pool)
qed

lemma phy_inv_receiving:
  "phy_inv s \<Longrightarrow> current_rxbuf s = Some i \<Longrightarrow>
    i < 4 \<and> \<not> rx_available (le_buffer_pool s ! i) \<and> rx_ok (le_buffer_pool s ! i) \<and> rx_receiving (le_buffer_pool s ! i)"
  by (auto simp: phy_inv_def apart_def base_inv_buf)

lemma wp_buffer_clear:
  assumes "phy_inv s"
    and "\<And>bs. phy_inv (s\<lparr>le_buffer_pool := bs\<rparr>) \<Longrightarrow> Q (s\<lparr>le_buffer_pool := bs\<rparr>)"
  shows "post (buffer_clear (current_rxbuf s) s) Q"
  unfolding buffer_clear_def
proof (rule wp_upd_rxbuf)
  fix i assume "current_rxbuf s = Some i"
  then show "Q (s\<lparr>le_buffer_pool := (le_buffer_pool s)[i := rx_clear (le_buffer_pool s ! i)]\<rparr>)"
    using phy_inv_receiving [OF assms(1)] by (intro assms(2) phy_inv_current [OF assms(1)]) (auto simp: rx_ok_def rx_clear_def rx_receiving_def)
qed

lemma wp_wait_fs_lock [wp]: "phy_inv s \<Longrightarrow> post (timer1_wait_fs_lock s) phy_inv"
  by (simp add: timer1_wait_fs_lock_def) (rule wp_NOW, simp)

lemma wp_wait_buffer [wp]: "phy_inv s \<Longrightarrow> post (timer1_wait_buffer s) phy_inv"
  by (simp add: timer1_wait_buffer_def) (rule wp_NOW, simp)

lemma wp_init_rf [wp]: "phy_inv s \<Longrightarrow> post (le_cc2400_init_rf s) phy_inv"
  by (simp add: le_cc2400_init_rf_def Let_def le_cc2400_set_def strobe_SFSON_def)
    (rule post_any, rule wp_wait_fs_lock, simp)

lemma wp_next_channel: "phy_inv s \<Longrightarrow> (\<And>i s'. phy_inv s' \<Longrightarrow> Q (i, s')) \<Longrightarrow> post (next_channel s) Q"
  by (auto simp: next_channel_def Let_def phy_inv_conn intro!: post_any)

lemma wp_change_channel [wp]:
  assumes "phy_inv s"
  shows "post (change_channel s) phy_inv"
proof -
  let ?s = "dio_ssp_stop (strobe_SRFOFF s)"
  have c: "current_rxbuf s = current_rxbuf ?s" by (simp add: dio_ssp_stop_def strobe_SRFOFF_def)
  have "phy_inv ?s" using assms by (simp add: dio_ssp_stop_def strobe_SRFOFF_def)
  then show ?thesis unfolding change_channel_def Let_def c post_simps
    by (rule wp_buffer_clear) (auto simp: dio_ssp_start_def le_dma_init_def intro!: wp_next_channel wp_init_rf)
qed

lemma remap_zero_wf [simp]: "remap_wf remapping_zero"
  by (simp add: remap_wf_def remapping_zero_def)

lemma reset_conn_inv [simp]: "phy_inv s \<Longrightarrow> phy_inv (reset_conn s)"
  by (simp add: reset_conn_def phy_inv_conn conn_zero_def)

lemma reset_conn_event_inv [simp]: "phy_inv (reset_conn_event s) = phy_inv s"
  by (simp add: reset_conn_event_def)

lemma set_match_inv [simp]: "phy_inv (timer1_set_match m s) = phy_inv s" "phy_inv (timer1_clear_match s) = phy_inv s"
    "phy_inv (timer1_cancel_fs_lock s) = phy_inv s"
  by (simp_all add: timer1_set_match_def timer1_clear_match_def timer1_cancel_fs_lock_def)

lemma wp_update_anchor: "phy_inv s \<Longrightarrow> post (update_anchor s) phy_inv"
  by (auto simp: update_anchor_def phy_inv_conn intro!: wp_NOW split: option.split)

lemma wp_packet_ts: "phy_inv s \<Longrightarrow> post (update_packet_ts s) phy_inv"
  by (auto simp: update_packet_ts_def phy_inv_conn intro!: wp_NOW)

lemma wp_next_event: "phy_inv s \<Longrightarrow> post (next_event s) phy_inv"
  by (auto simp: next_event_def intro!: wp_NOW wp_change_channel)

lemma wp_finish_conn_event [wp]: "phy_inv s \<Longrightarrow> post (finish_conn_event s) phy_inv"
  unfolding finish_conn_event_def post_simps
  by (rule post_mono [OF wp_update_anchor], assumption, rule post_mono [OF wp_packet_ts], assumption,
      rule wp_next_event, rule phy_inv_conn) (auto simp: reset_conn_event_def)

section \<open>The DMA handler\<close>

lemma rx_add_rssi_same [simp]:
  "rx_data (rx_add_rssi r b) = rx_data b" "rx_size (rx_add_rssi r b) = rx_size b" "rx_pos (rx_add_rssi r b) = rx_pos b"
  "rx_available (rx_add_rssi r b) = rx_available b"
  by (simp_all add: rx_add_rssi_def Let_def)

text \<open>
  Between the put of a byte and the check for the end the buffer in front has its position advanced: \<open>half\<close> is the invariant
  without \<open>rx_receiving\<close> of that buffer.
\<close>

definition half :: "nat \<Rightarrow> le_phy \<Rightarrow> bool" where
  "half i s \<longleftrightarrow> base_inv s \<and> apart i s \<and> current_rxbuf s = Some i"

lemma phy_inv_half: "phy_inv s \<Longrightarrow> current_rxbuf s = Some i \<Longrightarrow> half i s"
  by (simp add: phy_inv_def half_def)

lemma half_phy_inv: "half i s \<Longrightarrow> rx_receiving (le_buffer_pool s ! i) \<Longrightarrow> phy_inv s"
  by (simp add: phy_inv_def half_def)

lemma half_len: "half i s \<Longrightarrow> i < 4 \<and> length (le_buffer_pool s) = 4"
  by (simp add: half_def apart_def base_inv_len)

lemma half_pool:
  assumes "half i s" and "rx_ok b" and "\<not> rx_available b"
  shows "half i (s\<lparr>le_buffer_pool := (le_buffer_pool s)[i := b]\<rparr>)"
proof -
  have a: "base_inv s" "i < 4" "i \<notin> set (waiting s)" "length (le_buffer_pool s) = 4"
    using assms(1) by (simp_all add: half_def apart_def base_inv_len)
  have "base_inv (s\<lparr>le_buffer_pool := (le_buffer_pool s)[i := b]\<rparr>)" using a assms by (intro base_inv_pool) auto
  then show ?thesis using a assms by (simp add: half_def apart_pool)
qed

lemma half_buf: "half i s \<Longrightarrow> rx_ok (le_buffer_pool s ! i) \<and> \<not> rx_available (le_buffer_pool s ! i)"
  by (simp add: half_def apart_def base_inv_buf)

lemma half_clear_match [simp]: "half i (timer1_clear_match s) = half i s"
  by (simp add: half_def timer1_clear_match_def)

text \<open>What a byte leaves in the buffer in front.\<close>

definition advanced :: "nat \<Rightarrow> nat \<Rightarrow> le_phy \<Rightarrow> bool" where
  "advanced i pos s \<longleftrightarrow> half i s \<and> rx_pos (le_buffer_pool s ! i) = pos \<and> 1 \<le> pos \<and>
     (2 < pos \<longrightarrow> 5 \<le> rx_size (le_buffer_pool s ! i) \<and> pos \<le> rx_size (le_buffer_pool s ! i))"

lemma wp_rx_put:
  assumes "phy_inv s" and "\<And>i pos s'. advanced i pos s' \<Longrightarrow> Q (pos, s')"
  shows "post (rx_put s) Q"
  unfolding rx_put_def post_simps
proof (rule wp_get_rx, rule wp_rd, rule wp_wr, rule wp_upd_rxbuf)
  fix i j
  let ?b = "le_buffer_pool s ! i"
  assume i: "current_rxbuf s = Some i" "current_rxbuf s = Some j" and p: "rx_pos ?b < length (rx_data ?b)"
  then have j: "j = i" by simp
  note h = phy_inv_half [OF assms(1) i(1)]
  let ?c = "?b\<lparr>rx_data := (rx_data ?b)[rx_pos ?b := le_dma_dest s ! (rx_pos ?b mod 2)], rx_pos := rx_pos ?b + 1\<rparr>"
  have "half i (s\<lparr>le_buffer_pool := (le_buffer_pool s)[i := ?c]\<rparr>)" using half_buf [OF h] by (intro half_pool [OF h]) (auto simp: rx_ok_def)
  then have "advanced i (rx_pos ?b + 1) (s\<lparr>le_buffer_pool := (le_buffer_pool s)[i := ?c]\<rparr>)"
    using half_len [OF h] phy_inv_receiving [OF assms(1) i(1)] by (auto simp: advanced_def rx_receiving_def)
  then show "Q (rx_pos ?b + 1, s\<lparr>le_buffer_pool := (le_buffer_pool s)[j := (le_buffer_pool s ! j)
      \<lparr>rx_data := (rx_data ?b)[rx_pos ?b := le_dma_dest s ! (rx_pos ?b mod 2)], rx_pos := rx_pos (le_buffer_pool s ! j) + 1\<rparr>]\<rparr>)"
    using assms(2) j by simp
qed

text \<open>Changes of the buffer in front that leave its data, position and size.\<close>

lemma advanced_pool:
  assumes "advanced i pos s" and "current_rxbuf s = Some j" and "rx_ok b" "\<not> rx_available b" "rx_pos b = pos" "pos \<le> 2 \<or> rx_size b = rx_size (le_buffer_pool s ! i)"
  shows "advanced i pos (s\<lparr>le_buffer_pool := (le_buffer_pool s)[j := b]\<rparr>)"
proof -
  have h: "half i s" "j = i" using assms(1,2) by (simp_all add: advanced_def half_def)
  show ?thesis using half_pool [OF h(1) assms(3,4)] half_len [OF h(1)] assms h(2) by (auto simp: advanced_def)
qed

lemma wp_rx_first:
  assumes "advanced i pos s"
  shows "post (rx_first t s) (advanced i pos)"
  unfolding rx_first_def post_simps
proof (rule wp_upd_rxbuf)
  fix j assume j: "current_rxbuf s = Some j"
  have h: "half i s" "j = i" using assms j by (simp_all add: advanced_def half_def)
  let ?b = "le_buffer_pool s ! j"
  let ?c = "?b\<lparr>rx_timestamp := t - USEC (8 + 32), rx_channel := rf_channel s, rx_access_address := access_address (conn s)\<rparr>"
  have "advanced i pos (s\<lparr>le_buffer_pool := (le_buffer_pool s)[j := ?c]\<rparr>)"
    using assms half_buf [OF h(1)] h(2) by (intro advanced_pool [OF assms j]) (auto simp: rx_ok_def advanced_def)
  moreover have "advanced i pos (timer1_clear_match s') = advanced i pos s'" for s'
    by (simp add: advanced_def timer1_clear_match_def half_def)
  ultimately show "advanced i pos (if btle_channel_index (rf_channel (s\<lparr>le_buffer_pool := (le_buffer_pool s)[j := ?c]\<rparr>)) < 37
      then timer1_clear_match (s\<lparr>le_buffer_pool := (le_buffer_pool s)[j := ?c]\<rparr>) else s\<lparr>le_buffer_pool := (le_buffer_pool s)[j := ?c]\<rparr>)"
    by simp
qed

text \<open>Both lengths come from a byte.\<close>

lemma wp_rx_length:
  assumes "advanced i 2 s"
  shows "post (rx_length s) (\<lambda>s'. advanced i 2 s' \<and> 5 \<le> rx_size (le_buffer_pool s' ! i))"
  unfolding rx_length_def post_simps
proof (rule wp_get_rx, rule wp_rd, rule post_any, rule wp_upd_rxbuf)
  fix len :: u8 and j
  assume j: "current_rxbuf s = Some j"
  have h: "half i s" "j = i" using assms j by (simp_all add: advanced_def half_def)
  let ?b = "le_buffer_pool s ! j"
  have "unat len \<le> 255" using unat_u8 [of len] by simp
  then have "advanced i 2 (s\<lparr>le_buffer_pool := (le_buffer_pool s)[j := ?b\<lparr>rx_size := unat len + 2 + 3\<rparr>]\<rparr>)"
    using assms half_buf [OF h(1)] h(2) by (intro advanced_pool [OF assms j]) (auto simp: rx_ok_def advanced_def)
  then show "advanced i 2 (s\<lparr>le_buffer_pool := (le_buffer_pool s)[j := ?b\<lparr>rx_size := unat len + 2 + 3\<rparr>]\<rparr>) \<and>
      5 \<le> rx_size (le_buffer_pool (s\<lparr>le_buffer_pool := (le_buffer_pool s)[j := ?b\<lparr>rx_size := unat len + 2 + 3\<rparr>]\<rparr>) ! i)"
    using half_len [OF h(1)] h(2) by simp
qed

text \<open>A complete packet is put into the queue, which has room for it.\<close>

lemma waiting_few: "base_inv s \<Longrightarrow> apart i s \<Longrightarrow> length (waiting s) \<le> 3"
proof -
  assume a: "base_inv s" "apart i s"
  then have "set (waiting s) \<subseteq> {..<4} - {i}" by (auto simp: base_inv_def apart_def)
  then have "card (set (waiting s)) \<le> card ({..<4} - {i})" by (intro card_mono) auto
  moreover have "card (set (waiting s)) = length (waiting s)" using a by (simp add: base_inv_def distinct_card)
  ultimately show ?thesis using a by (simp add: apart_def)
qed

lemma insert_waiting:
  assumes "base_inv s" and "apart i s" and "5 \<le> rx_size (le_buffer_pool s ! i)"
  obtains q where "queue_insert (packet_queue s) i = Inr (1, q)" and "q_list q = q_list (packet_queue s) @ [i]"
    and "base_inv (s\<lparr>packet_queue := q\<rparr>)"
proof -
  have q: "q_inv (packet_queue s)" using assms(1) by (simp add: base_inv_def)
  have "length (q_list (packet_queue s)) < 9" using waiting_few [OF assms(1,2)] by (simp add: waiting_def)
  then obtain q' where p: "q_put (packet_queue s) i = Some q'" "q_inv q'" "q_list q' = q_list (packet_queue s) @ [i]"
    using rq.put_ok [OF q] by blast
  then have "queue_insert (packet_queue s) i = Inr (1, q')" by (auto simp: q_put_def split: sum.splits prod.splits if_splits)
  moreover have "base_inv (s\<lparr>packet_queue := q'\<rparr>)"
    using assms p by (auto simp: base_inv_def apart_def waiting_def)
  ultimately show ?thesis using that p by blast
qed

lemma wp_rx_next [wp]: "base_inv s \<Longrightarrow> post (rx_next s) phy_inv"
  unfolding rx_next_def post_simps Let_def
  by (rule wp_buffer_get) (auto simp: phy_inv_def intro!: wp_wait_fs_lock wp_wait_buffer)

lemma wp_rx_finished [wp]:
  assumes "half i s" and "5 \<le> rx_size (le_buffer_pool s ! i)"
  shows "post (rx_finished s) phy_inv"
proof -
  let ?s = "(dio_ssp_stop (strobe_SFSON s))\<lparr>dma_irq := False\<rparr>"
  have s: "base_inv ?s" "apart i ?s" "current_rxbuf ?s = Some i" "5 \<le> rx_size (le_buffer_pool ?s ! i)"
    using assms by (simp_all add: half_def dio_ssp_stop_def strobe_SFSON_def)
  obtain q where q: "queue_insert (packet_queue ?s) i = Inr (1, q)" and b: "base_inv (?s\<lparr>packet_queue := q\<rparr>)"
    using insert_waiting [OF s(1,2,4)] by metis
  show ?thesis unfolding rx_finished_def Let_def s(3) option.case q bnd_simps prod.case
    using b by (auto simp: timer1_set_match_def strobe_SRFOFF_def intro!: wp_rx_next wp_get_rx wp_NOW wp_buffer_get wp_finish_conn_event)
qed

text \<open>After the byte and, at the second, the length: the end of the packet or another byte.\<close>

lemma advanced_end:
  assumes "advanced i pos s" and "pos = 2 \<Longrightarrow> 5 \<le> rx_size (le_buffer_pool s ! i)"
  shows "pos > 2 \<and> pos \<ge> rx_size (le_buffer_pool s ! i) \<Longrightarrow> half i s \<and> 5 \<le> rx_size (le_buffer_pool s ! i)"
    and "\<not> (pos > 2 \<and> pos \<ge> rx_size (le_buffer_pool s ! i)) \<Longrightarrow> phy_inv s"
proof -
  show "pos > 2 \<and> pos \<ge> rx_size (le_buffer_pool s ! i) \<Longrightarrow> half i s \<and> 5 \<le> rx_size (le_buffer_pool s ! i)"
    using assms(1) by (simp add: advanced_def)
  assume "\<not> (pos > 2 \<and> pos \<ge> rx_size (le_buffer_pool s ! i))"
  then have "rx_receiving (le_buffer_pool s ! i)"
    using assms by (cases "pos = 2") (auto simp: advanced_def rx_receiving_def)
  then show "phy_inv s" using assms(1) half_phy_inv [of i s] by (simp add: advanced_def)
qed

lemma wp_rx_header:
  assumes "advanced i pos s"
  shows "post (bnd (if pos = 1 then rx_first t s else Inr s) (\<lambda>s. if pos = 2 then rx_length s else Inr s))
    (\<lambda>s. advanced i pos s \<and> (pos = 2 \<longrightarrow> 5 \<le> rx_size (le_buffer_pool s ! i)))"
  using assms wp_rx_first [OF assms] wp_rx_length [of i s] by (cases "pos = 1"; cases "pos = 2") (auto elim: post_mono)

lemma wp_rssi_added:
  assumes "phy_inv s" and "p = current_rxbuf s"
  shows "post (upd_rxbuf p (rx_add_rssi r) s) phy_inv"
  unfolding assms(2)
proof (rule wp_upd_rxbuf)
  fix i assume i: "current_rxbuf s = Some i"
  show "phy_inv (s\<lparr>le_buffer_pool := (le_buffer_pool s)[i := rx_add_rssi r (le_buffer_pool s ! i)]\<rparr>)"
    using phy_inv_receiving [OF assms(1) i] by (intro phy_inv_current [OF assms(1) i]) (auto simp: rx_ok_def rx_receiving_def)
qed

text \<open>The handler from the byte on.\<close>

definition dma_tail :: "u32 \<Rightarrow> le_phy \<Rightarrow> le_phy res" where
  "dma_tail t s =
     bnd (rx_put s) (\<lambda>(pos, s).
     bnd (bnd (if pos = 1 then rx_first t s else Inr s) (\<lambda>s. if pos = 2 then rx_length s else Inr s)) (\<lambda>s.
     bnd (get_rx (current_rxbuf s) s) (\<lambda>b.
     if pos > 2 \<and> pos \<ge> rx_size b then rx_finished s else Inr s)))"

lemma DMA_tail:
  "le_DMA_IRQHandler stat tc s =
     bnd (NOW s) (\<lambda>(t, s).
     if stat \<and> tc then
       bnd (cc2400_get_rssi s) (\<lambda>(v, s).
       bnd (upd_rxbuf (current_rxbuf s) (rx_add_rssi (ucast (drop_bit 8 v))) s) (dma_tail t))
     else Inr s)"
  unfolding le_DMA_IRQHandler_def dma_tail_def bnd_assoc by (intro arg_cong2 [where f = bnd] refl ext)

lemma wp_dma_tail:
  assumes "phy_inv s"
  shows "post (dma_tail t s) phy_inv"
  unfolding dma_tail_def
proof (subst post_simps(3), rule wp_rx_put [OF assms])
  fix i pos s' assume a: "advanced i pos s'"
  show "post (case (pos, s') of (pos, s) \<Rightarrow>
     bnd (bnd (if pos = 1 then rx_first t s else Inr s) (\<lambda>s. if pos = 2 then rx_length s else Inr s)) (\<lambda>s.
     bnd (get_rx (current_rxbuf s) s) (\<lambda>b.
     if pos > 2 \<and> pos \<ge> rx_size b then rx_finished s else Inr s))) phy_inv"
    unfolding prod.case
  proof (subst post_simps(3), rule post_mono [OF wp_rx_header [OF a]], elim conjE)
    fix u assume u: "advanced i pos u" "pos = 2 \<longrightarrow> 5 \<le> rx_size (le_buffer_pool u ! i)"
    then have c: "current_rxbuf u = Some i" by (simp add: advanced_def half_def)
    note e = advanced_end [OF u(1) mp [OF u(2)]]
    show "post (bnd (get_rx (current_rxbuf u) u) (\<lambda>b. if pos > 2 \<and> pos \<ge> rx_size b then rx_finished u else Inr u)) phy_inv"
      unfolding post_simps(3) c using e wp_rx_finished [of i u] by (intro wp_get_rx) (auto simp del: post_if)
  qed
qed

lemma wp_DMA [wp]:
  assumes "phy_inv s"
  shows "post (le_DMA_IRQHandler stat tc s) phy_inv"
  unfolding DMA_tail
  by (auto simp: assms intro!: wp_NOW wp_rssi post_mono [OF wp_rssi_added] wp_dma_tail)

section \<open>The timer handler\<close>

lemma t1_start_rx_inv [simp]: "phy_inv (t1_start_rx s) = phy_inv s"
  by (simp add: t1_start_rx_def le_cc2400_strobe_rx_def dio_ssp_start_def le_dma_init_def)

lemma phy_inv_no_current: "phy_inv s \<Longrightarrow> phy_inv (s\<lparr>current_rxbuf := None\<rparr>)"
  by (simp add: phy_inv_def)

lemma wp_t1_fs_lock: "phy_inv s \<Longrightarrow> post (t1_fs_lock s) phy_inv"
  by (auto simp: t1_fs_lock_def intro!: wp_status wp_wait_fs_lock)

lemma wp_t1_buffer: "phy_inv s \<Longrightarrow> post (t1_buffer s) phy_inv"
  unfolding t1_buffer_def post_simps Let_def
  by (rule wp_buffer_get, erule phy_inv_base) (auto intro!: wp_status wp_wait_fs_lock wp_wait_buffer)

lemma wp_t1_rest: "phy_inv s \<Longrightarrow> post (t1_rest ir1 ir2 ir3 s) phy_inv"
  by (auto simp: t1_rest_def Let_def t1_leds_def intro: post_mono [OF wp_t1_fs_lock] wp_t1_buffer)

lemma wp_t1_update: "phy_inv s \<Longrightarrow> post (t1_update s) phy_inv"
  by (auto simp: t1_update_def Let_def intro!: wp_change_channel phy_inv_conn)

lemma t1_map_update_inv: "phy_inv s \<Longrightarrow> phy_inv (t1_map_update s)"
  by (simp add: t1_map_update_def phy_inv_conn)

lemma wp_t1_event: "phy_inv s \<Longrightarrow> post (t1_event s) phy_inv"
  by (auto simp: t1_event_def intro!: wp_NOW wp_change_channel wp_finish_conn_event)

lemma wp_TIMER1 [wp]: "phy_inv s \<Longrightarrow> post (le_TIMER1_IRQHandler ir0 ir1 ir2 ir3 s) phy_inv"
  unfolding le_TIMER1_IRQHandler_def post_if post_simps
  by (intro conjI impI wp_t1_update wp_t1_rest post_mono [OF wp_t1_event] t1_map_update_inv)

section \<open>The main loop\<close>

text \<open>The packet in hand may change as long as it stays complete.\<close>

lemma phy_inv_packet:
  assumes "phy_inv s" and "packet s = Some i" and "rx_ok b" and "\<not> rx_available b" and "5 \<le> rx_size b"
  shows "phy_inv (s\<lparr>le_buffer_pool := (le_buffer_pool s)[i := b]\<rparr>)"
proof -
  have a: "base_inv s" by (rule phy_inv_base [OF assms(1)])
  have w: "i \<in> set (waiting s)" using assms(2) by (simp add: waiting_def)
  then have i: "i < 4" using a by (simp add: base_inv_def)
  have "base_inv (s\<lparr>le_buffer_pool := (le_buffer_pool s)[i := b]\<rparr>)" using i assms by (intro base_inv_pool [OF a]) auto
  moreover have "current_rxbuf s = Some j \<Longrightarrow> j \<noteq> i" for j using w assms(1) by (auto simp: phy_inv_def apart_def)
  ultimately show ?thesis using assms(1) base_inv_len [OF a] by (auto simp: phy_inv_def apart_pool) (auto simp: apart_def)
qed

lemma phy_inv_complete:
  assumes "phy_inv s" and "packet s = Some i"
  shows "i < 4 \<and> rx_ok (le_buffer_pool s ! i) \<and> \<not> rx_available (le_buffer_pool s ! i) \<and> 5 \<le> rx_size (le_buffer_pool s ! i)"
proof -
  have a: "base_inv s" and w: "i \<in> set (waiting s)" using assms by (simp_all add: phy_inv_def waiting_def)
  then show ?thesis using base_inv_buf [OF a] by (simp add: base_inv_def)
qed

lemma waiting_swap:
  assumes "phy_inv s" and "q_inv q" and "distinct (q_list q @ opt_list p)" and "set (q_list q @ opt_list p) \<subseteq> set (waiting s)"
  shows "phy_inv (s\<lparr>packet := p, packet_queue := q\<rparr>)"
proof -
  let ?t = "s\<lparr>packet := p, packet_queue := q\<rparr>"
  have w: "waiting ?t = q_list q @ opt_list p" by (simp add: waiting_def)
  have "base_inv ?t" using phy_inv_base [OF assms(1)] assms(2-4) unfolding base_inv_def w by (simp add: subset_iff) blast
  moreover have "current_rxbuf s = Some j \<Longrightarrow> apart j ?t" for j
    using assms(1,4) unfolding phy_inv_def apart_def w by auto
  moreover have "current_rxbuf s = Some j \<Longrightarrow> rx_receiving (le_buffer_pool s ! j)" for j
    using assms(1) by (simp add: phy_inv_def)
  ultimately show ?thesis by (auto simp: phy_inv_def)
qed

lemma wp_main_take:
  assumes "phy_inv s" and "packet s = None"
  shows "post (main_take s) phy_inv"
proof -
  have q: "q_inv (packet_queue s)" using phy_inv_base [OF assms(1)] by (simp add: base_inv_def)
  have d: "distinct (q_list (packet_queue s))" using phy_inv_base [OF assms(1)] assms(2) by (simp add: base_inv_def waiting_def)
  from rq.get_cases [OF q] show ?thesis
  proof cases
    case 1
    then have "post (queue_remove (packet_queue s)) (\<lambda>(_, p, q'). p = None \<and> q' = packet_queue s)"
      by (auto simp: post_def q_get_def queue_remove_def Let_def bnd_Inr_iff split: sum.splits option.splits)
    then show ?thesis unfolding main_take_def post_simps
      by (rule post_mono) (use waiting_swap [OF assms(1) q, of None] d in \<open>auto simp: waiting_def\<close>)
  next
    case (2 x q')
    then have "queue_remove (packet_queue s) = Inr (1, Some x, q')"
      by (auto simp: q_get_def queue_remove_def Let_def bnd_Inr_iff split: sum.splits option.splits prod.splits if_splits)
    then show ?thesis using waiting_swap [OF assms(1) 2(2), of "Some x"] 2(3) d by (auto simp: main_take_def waiting_def)
  qed
qed

lemma wp_main_dewhiten:
  assumes "phy_inv s"
  shows "post (main_dewhiten s) phy_inv"
  unfolding main_dewhiten_def post_simps
proof (rule wp_get_rx)
  fix i assume i: "packet s = Some i"
  let ?b = "le_buffer_pool s ! i"
  note c = phy_inv_complete [OF assms i]
  show "post (le_dewhiten (rx_data ?b) (rx_size ?b) (rx_channel ?b)) (\<lambda>d. post (upd_rxbuf (packet s) (\<lambda>b. b\<lparr>rx_data := d\<rparr>) s) phy_inv)"
    using c i dewhiten_lfsr [of "rx_size ?b" "rx_data ?b"]
    by (auto simp: rx_ok_def intro!: wp_upd_rxbuf phy_inv_packet [OF assms])
qed

lemma wp_main_release:
  assumes "phy_inv s"
  shows "post (main_release s) phy_inv"
  unfolding main_release_def buffer_release_def post_simps
proof (rule wp_upd_rxbuf)
  fix i assume i: "packet s = Some i"
  let ?t = "s\<lparr>le_buffer_pool := (le_buffer_pool s)[i := (le_buffer_pool s ! i)\<lparr>rx_available := True\<rparr>], packet := None\<rparr>"
  have a: "base_inv s" by (rule phy_inv_base [OF assms])
  have w: "waiting s = waiting ?t @ [i]" using i by (simp add: waiting_def)
  note c = phy_inv_complete [OF assms i]
  have "rx_ok ((le_buffer_pool s ! i)\<lparr>rx_available := True\<rparr>)" using c by (simp add: rx_ok_def)
  then have "base_inv ?t" using a w c by (auto simp: base_inv_def nth_list_update dest!: set_update_subset_insert [THEN subsetD])
  moreover have "current_rxbuf s = Some j \<Longrightarrow> apart j ?t \<and> rx_receiving (le_buffer_pool ?t ! j)" for j
    using assms w by (auto simp: phy_inv_def apart_def nth_list_update)
  ultimately show "phy_inv ?t" by (auto simp: phy_inv_def)
qed

lemma remap_upto_wf: "remap_wf (remap_upto p 37)"
  using used_upto_len [of p 37] by (simp add: remap_wf_def remap_upto_def)

lemma wp_parse_map: "5 \<le> length m \<Longrightarrow> (\<And>r. remap_wf r \<Longrightarrow> Q r) \<Longrightarrow> post (le_parse_channel_map m) Q"
  by (simp add: parse_channel_map remap_upto_wf)

lemma connect_fields_wf:
  "connect_fields b c = Inr c' \<Longrightarrow> remapping c' = remapping c \<and> pending_remapping c' = pending_remapping c"
  by (auto simp: connect_fields_def bnd_Inr_iff)

lemma connect_checked_wf:
  "connect_checked c = Some c' \<Longrightarrow> remapping c' = remapping c \<and> pending_remapping c' = pending_remapping c"
  by (auto simp: connect_checked_def Let_def split: if_splits)

lemma wp_connect:
  assumes "phy_inv s" and "rx_ok b"
  shows "post (le_connect_handler b s) phy_inv"
proof -
  have "post (connect_fields b (conn s)) (\<lambda>c. remap_wf (remapping c) \<and> remap_wf (pending_remapping c))"
    using assms(1) connect_fields_wf by (auto simp: post_def)
  moreover have "remap_wf (remapping c) \<and> remap_wf (pending_remapping c) \<Longrightarrow> connect_checked c = Some c' \<Longrightarrow> remap_wf m \<Longrightarrow>
      phy_inv (s\<lparr>cancel_follow := False, conn := c'\<lparr>remapping := m\<rparr>\<rparr>)" for c c' m
    using assms(1) connect_checked_wf [of c c'] by (intro phy_inv_conn) auto
  ultimately show ?thesis using assms
    by (auto simp: le_connect_handler_def Let_def rx_ok_def elim!: post_mono intro!: wp_parse_map split: option.split)
qed

lemma wp_packet_handler:
  assumes "phy_inv s" and "rx_ok b"
  shows "post (packet_handler b s) phy_inv"
proof -
  have "post (connection_update_handler b s) phy_inv"
    using assms by (auto simp: connection_update_handler_def phy_inv_conn intro!: post_any)
  moreover have "post (channel_map_update_handler b s) phy_inv"
    unfolding channel_map_update_handler_def post_simps
    by (rule post_any, rule wp_parse_map) (use assms in \<open>auto simp: phy_inv_conn rx_ok_def\<close>)
  ultimately show ?thesis using assms wp_connect [OF assms]
    by (auto simp: packet_handler_def intro!: wp_rd)
qed

lemma wp_usb_enqueue_le: "phy_inv s \<Longrightarrow> post (usb_enqueue_le b s) (\<lambda>(_, s'). phy_inv s')"
  by (auto simp: usb_enqueue_le_def post_def bnd_Inr_iff split: prod.splits option.splits if_splits)

lemma wp_blink: "phy_inv s \<Longrightarrow> post (blink a b c s) phy_inv"
  by (cases "leds s") (auto simp: blink_def Let_def intro!: wp_NOW)

lemma wp_main_handle:
  assumes "phy_inv s"
  shows "post (main_handle s) phy_inv"
  unfolding main_handle_def post_simps
proof (rule wp_get_rx, rule post_any)
  fix i m assume i: "packet s = Some i"
  let ?b = "le_buffer_pool s ! i"
  have b: "rx_ok ?b" using phy_inv_complete [OF assms i] by simp
  show "post (if m then bnd (blink False True False s) (\<lambda>s. bnd (usb_enqueue_le ?b s) (\<lambda>(_, s). packet_handler ?b s)) else Inr s) phy_inv"
    using assms b by (auto intro!: post_mono [OF wp_blink] post_mono [OF wp_usb_enqueue_le] wp_packet_handler)
qed

section \<open>Steps\<close>

text \<open>Where the main loop is; an interrupt may come between any two of its steps.\<close>

datatype main_pc = At_take | At_dewhiten | At_handle | At_release | At_usb

text \<open>What the hardware will answer during a step, and the byte the DMA controller has moved.\<close>

definition inputs :: "u32 list \<Rightarrow> u16 list \<Rightarrow> u16 list \<Rightarrow> le_phy \<Rightarrow> le_phy" where
  "inputs ts vs rs s = s\<lparr>in_time := ts, in_status := vs, in_rssi := rs\<rparr>"

definition dma_byte :: "u8 \<Rightarrow> le_phy \<Rightarrow> le_phy" where
  "dma_byte x s = s\<lparr>le_dma_dest := (le_dma_dest s)[dma_next s := x], dma_next := 1 - dma_next s\<rparr>"

text \<open>What the host may change through its requests while the loop serves USB.\<close>

definition host_sets :: "bool \<Rightarrow> u8 list \<Rightarrow> u8 list \<Rightarrow> bool \<Rightarrow> bool \<Rightarrow> u8 \<Rightarrow> u16 \<Rightarrow> le_phy \<Rightarrow> le_phy" where
  "host_sets f t m ts cf md ch s = s\<lparr>do_follow := f, target := t, target_mask := m, target_set := ts, cancel_follow := cf,
     requested_mode := md, le_adv_channel := ch\<rparr>"

inductive le_step :: "main_pc \<times> le_phy \<Rightarrow> main_pc \<times> le_phy \<Rightarrow> bool" where
  byte: "rx_on s \<Longrightarrow> dma_on s \<Longrightarrow> dma_irq s \<Longrightarrow> le_DMA_IRQHandler True True (inputs ts vs rs (dma_byte x s)) = Inr s' \<Longrightarrow>
    le_step (pc, s) (pc, s')"
| timer: "le_TIMER1_IRQHandler ir0 ir1 ir2 ir3 (inputs ts vs rs s) = Inr s' \<Longrightarrow> le_step (pc, s) (pc, s')"
| take: "requested_mode s = MODE_BT_FOLLOW_LE \<Longrightarrow> packet s = None \<Longrightarrow> main_take s = Inr s' \<Longrightarrow>
    le_step (At_take, s) (if packet s' = None then At_usb else At_dewhiten, s')"
| dewhiten: "main_dewhiten s = Inr s' \<Longrightarrow> le_step (At_dewhiten, s) (At_handle, s')"
| handle: "main_handle (inputs ts vs rs s) = Inr s' \<Longrightarrow> le_step (At_handle, s) (At_release, s')"
| release: "main_release s = Inr s' \<Longrightarrow> le_step (At_release, s) (At_usb, s')"
| usb: "main_usb ep s = Inr s' \<Longrightarrow> le_step (At_usb, s) (At_take, host_sets f t m ts cf md ch s')"

text \<open>The memory before the start: four buffers, the ten slots of the queue, the two bytes of the DMA, a connection from before or none.\<close>

definition le_memory :: "le_phy \<Rightarrow> bool" where
  "le_memory s \<longleftrightarrow> length (le_dma_dest s) = 2 \<and> length (le_buffer_pool s) = 4 \<and> (\<forall>b \<in> set (le_buffer_pool s). rx_ok b) \<and> length (q_data (packet_queue s)) = 10 \<and>
     packet s = None \<and> remap_wf (remapping (conn s)) \<and> remap_wf (pending_remapping (conn s))"

inductive le_reach :: "main_pc \<times> le_phy \<Rightarrow> bool" where
  start: "le_memory s \<Longrightarrow> le_phy_start (inputs ts vs rs s) = Inr s' \<Longrightarrow> le_reach (At_take, s')"
| step: "le_reach c \<Longrightarrow> le_step c c' \<Longrightarrow> le_reach c'"

lemma host_sets_inv [simp]: "phy_inv (host_sets f t m ts cf md ch s) = phy_inv s"
  by (simp add: host_sets_def)

lemma inputs_inv [simp]: "phy_inv (inputs ts vs rs s) = phy_inv s"
  by (simp add: inputs_def)

lemma dma_byte_inv [simp]: "phy_inv (dma_byte x s) = phy_inv s"
  by (simp add: phy_inv_def base_inv_def apart_def waiting_def dma_byte_def del: phy_inv_wf)

lemma packet_done [simp]: "main_release s = Inr s' \<Longrightarrow> packet s' = None"
  by (auto simp: main_release_def bnd_Inr_iff)

lemma wp_main_usb: "phy_inv s \<Longrightarrow> post (main_usb ep s) phy_inv"
  by (simp add: main_usb_def) (rule post_any, simp)

lemma le_step_inv: "le_step c c' \<Longrightarrow> phy_inv (snd c) \<Longrightarrow> phy_inv (snd c')"
proof (induction rule: le_step.induct)
  case (byte s ts vs rs x s' pc)
  then show ?case using post_Inr [OF wp_DMA byte(4)] by simp
next
  case (timer ir0 ir1 ir2 ir3 ts vs rs s s' pc)
  then show ?case using post_Inr [OF wp_TIMER1 timer(1)] by simp
next
  case (take s s')
  then show ?case using post_Inr [OF wp_main_take take(3)] by simp
next
  case (dewhiten s s')
  then show ?case using post_Inr [OF wp_main_dewhiten dewhiten(1)] by simp
next
  case (handle ts vs rs s s')
  then show ?case using post_Inr [OF wp_main_handle handle(1)] by simp
next
  case (release s s')
  then show ?case using post_Inr [OF wp_main_release release(1)] by simp
next
  case (usb ep s s' f t m ts cf md ch)
  then show ?case using post_Inr [OF wp_main_usb usb(1)] by simp
qed

lemma memory_inv:
  assumes "le_memory s"
  shows "base_inv ((buffers_init s)\<lparr>packet_queue := queue_init (packet_queue s)\<rparr>)"
proof -
  have "q_list (queue_init (packet_queue s)) = []" using ring_empty [of 1 10 1 "q_data (packet_queue s)"] by (simp add: q_list_def queue_init_def)
  then show ?thesis using assms by (auto simp: base_inv_def le_memory_def buffers_init_def waiting_def q_inv_def queue_init_def rx_ok_def)
qed

lemma wp_start:
  assumes "le_memory s"
  shows "post (le_phy_start s) phy_inv"
proof -
  have b: "base_inv ((buffers_init s)\<lparr>packet_queue := queue_init (packet_queue (buffers_init s))\<rparr>)"
    using memory_inv [OF assms] by (simp add: buffers_init_def)
  show ?thesis unfolding le_phy_start_def Let_def post_simps
  proof (rule wp_buffer_get [OF b])
    fix p bs
    let ?u = "(buffers_init s)\<lparr>packet_queue := queue_init (packet_queue (buffers_init s)), le_buffer_pool := bs, current_rxbuf := p\<rparr>"
    assume u: "phy_inv ?u"
    show "post (case (p, (buffers_init s)\<lparr>packet_queue := queue_init (packet_queue (buffers_init s)), le_buffer_pool := bs\<rparr>) of
        (p, s) \<Rightarrow> bnd (le_cc2400_init_rf (le_sys_init (upd_conn (\<lambda>c. c\<lparr>access_address := ADVERTISING_AA\<rparr>)
            (s\<lparr>current_rxbuf := p, rf_channel := le_adv_channel s\<rparr>)))) (\<lambda>s. Inr (s\<lparr>cancel_follow := False\<rparr>))) phy_inv"
      using u phy_inv_wf [OF u] by (auto simp: le_sys_init_def dio_ssp_start_def le_dma_init_def intro!: post_mono [OF wp_init_rf] phy_inv_conn)
  qed
qed

theorem le_reach_inv: "le_reach c \<Longrightarrow> phy_inv (snd c)"
proof (induction rule: le_reach.induct)
  case (start s ts vs rs s')
  have "le_memory (inputs ts vs rs s)" using start(1) by (simp add: le_memory_def inputs_def)
  then show ?case using post_Inr [OF wp_start start(2)] by simp
qed (auto dest: le_step_inv)

section \<open>Buffers and bounds\<close>

text \<open>
  C8 (invariant).  Whatever the radio, the timer and the host do, a buffer of the pool is at most one of: free, receiving, waiting in
  the queue, in the hands of the main loop.  A waiting packet has a length the buffer has room for, and the queue takes the
  packet that is being received: the result of \<open>queue_insert\<close> the code does not look at is always success.
\<close>

theorem le_buffers_one_owner:
  assumes "le_reach (pc, s)"
  shows "distinct (opt_list (current_rxbuf s) @ q_list (packet_queue s) @ opt_list (packet s)) \<and>
    (\<forall>i \<in> set (opt_list (current_rxbuf s) @ q_list (packet_queue s) @ opt_list (packet s)). i < 4 \<and> \<not> rx_available (le_buffer_pool s ! i)) \<and>
    (\<forall>i \<in> set (q_list (packet_queue s) @ opt_list (packet s)). rx_size (le_buffer_pool s ! i) \<in> {5..260}) \<and>
    (\<forall>i. current_rxbuf s = Some i \<longrightarrow> (\<exists>q. queue_insert (packet_queue s) i = Inr (1, q)))"
proof -
  have inv: "phy_inv s" using le_reach_inv [OF assms] by simp
  then have b: "base_inv s" and w: "waiting s = q_list (packet_queue s) @ opt_list (packet s)" by (simp_all add: phy_inv_def waiting_def)
  have cur: "apart i s" if "current_rxbuf s = Some i" for i using inv that by (simp add: phy_inv_def)
  have "distinct (opt_list (current_rxbuf s) @ waiting s)" using b cur by (cases "current_rxbuf s") (auto simp: base_inv_def apart_def)
  moreover have "\<forall>i \<in> set (opt_list (current_rxbuf s) @ waiting s). i < 4 \<and> \<not> rx_available (le_buffer_pool s ! i)"
    using b cur by (cases "current_rxbuf s") (auto simp: base_inv_def apart_def)
  moreover have "\<forall>i \<in> set (waiting s). rx_size (le_buffer_pool s ! i) \<in> {5..260}"
    using b base_inv_buf [OF b] by (auto simp: base_inv_def rx_ok_def)
  moreover have "\<exists>q. queue_insert (packet_queue s) i = Inr (1, q)" if "current_rxbuf s = Some i" for i
  proof -
    have q: "q_inv (packet_queue s)" using b by (simp add: base_inv_def)
    have "length (q_list (packet_queue s)) < 9" using waiting_few [OF b cur [OF that]] w by simp
    then obtain q' where "q_put (packet_queue s) i = Some q'" using rq.put_ok [OF q] by blast
    then show ?thesis by (auto simp: q_put_def split: sum.splits prod.splits if_splits)
  qed
  ultimately show ?thesis unfolding w by blast
qed

text \<open>Absence of accesses outside an array.\<close>

definition in_bounds :: "'a res \<Rightarrow> bool" where
  "in_bounds r \<longleftrightarrow> r \<noteq> Inl Oob"

lemma in_bounds_simps [simp]: "in_bounds (Inr x)" "in_bounds (Inl e) \<longleftrightarrow> e \<noteq> Oob"
  by (simp_all add: in_bounds_def)

lemma in_bounds_bnd: "in_bounds r \<Longrightarrow> post r (\<lambda>x. in_bounds (f x)) \<Longrightarrow> in_bounds (bnd r f)"
  by (cases r) (simp_all add: in_bounds_def)

lemma in_bounds_if: "(c \<Longrightarrow> in_bounds r) \<Longrightarrow> (\<not> c \<Longrightarrow> in_bounds r') \<Longrightarrow> in_bounds (if c then r else r')"
  by simp

lemma in_bounds_inputs [simp]: "in_bounds (NOW s)" "in_bounds (cc2400_status s)" "in_bounds (cc2400_get_rssi s)"
  by (simp_all add: in_bounds_def NOW_def cc2400_status_def cc2400_get_rssi_def split: list.split)

lemma in_bounds_wait [simp]: "in_bounds (timer1_wait_fs_lock s)" "in_bounds (timer1_wait_buffer s)"
  by (auto simp: timer1_wait_fs_lock_def timer1_wait_buffer_def intro!: in_bounds_bnd post_any)

lemma in_bounds_upd_rx: "p = Some i \<Longrightarrow> i < length (le_buffer_pool s) \<Longrightarrow> in_bounds (upd_rxbuf p f s)"
  by (simp add: upd_rxbuf_def)

lemma in_bounds_get_rx: "p = Some i \<Longrightarrow> i < length (le_buffer_pool s) \<Longrightarrow> in_bounds (get_rx p s)"
  by (simp add: get_rx_def)

lemma in_bounds_xosc: "in_bounds (wait_xosc l)"
  by (induction l) simp_all

lemma in_bounds_init_rf [simp]: "in_bounds (le_cc2400_init_rf s)"
  by (simp add: le_cc2400_init_rf_def Let_def in_bounds_bnd in_bounds_xosc post_any)

lemma in_bounds_change_channel_adv:
  assumes "current_rxbuf s = Some i" and "i < length (le_buffer_pool s)" and "access_address (conn s) = ADVERTISING_AA"
  shows "in_bounds (change_channel s)"
  using assms by (simp add: change_channel_def next_channel_def buffer_clear_def upd_rxbuf_def dio_ssp_start_def dio_ssp_stop_def
      le_dma_init_def strobe_SRFOFF_def)

text \<open>An event ends within bounds when the new buffer is there.\<close>

definition cur_there :: "le_phy \<Rightarrow> bool" where
  "cur_there s \<longleftrightarrow> (\<exists>i. current_rxbuf s = Some i \<and> i < length (le_buffer_pool s))"

lemma cur_there_update [simp]:
  "cur_there (s\<lparr>conn := x1\<rparr>) = cur_there s" "cur_there (s\<lparr>in_time := x2\<rparr>) = cur_there s"
  "cur_there (s\<lparr>conn_event := x3\<rparr>) = cur_there s" "cur_there (s\<lparr>cancel_follow := x4\<rparr>) = cur_there s"
  by (simp_all add: cur_there_def)

lemma post_anchor_there: "cur_there s \<Longrightarrow> post (update_anchor s) cur_there"
  by (auto simp: update_anchor_def intro!: wp_NOW split: option.split)

lemma post_packet_ts_there: "cur_there s \<Longrightarrow> post (update_packet_ts s) cur_there"
  by (auto simp: update_packet_ts_def intro!: wp_NOW)

lemma in_bounds_anchor: "in_bounds (update_anchor s)" "in_bounds (update_packet_ts s)"
  by (auto simp: update_anchor_def update_packet_ts_def intro!: in_bounds_bnd post_any split: option.split)

lemma in_bounds_change_there: "cur_there s \<Longrightarrow> in_bounds (change_channel (reset_conn s))"
  unfolding cur_there_def by (elim exE, rule in_bounds_change_channel_adv) (auto simp: reset_conn_def)

lemma in_bounds_next_event: "cur_there s \<Longrightarrow> in_bounds (next_event s)"
  by (auto simp: next_event_def intro!: in_bounds_bnd wp_NOW in_bounds_change_there)

lemma in_bounds_finish: "cur_there s \<Longrightarrow> in_bounds (finish_conn_event s)"
  unfolding finish_conn_event_def
  by (rule in_bounds_bnd, rule in_bounds_anchor, rule post_mono [OF post_anchor_there], assumption,
      rule in_bounds_bnd, rule in_bounds_anchor, rule post_mono [OF post_packet_ts_there], assumption,
      rule in_bounds_next_event) (simp add: reset_conn_event_def)

lemma buffer_get_bounds: "in_bounds (buffer_get s)"
proof (cases "first_available 0 (le_buffer_pool s)")
  case (Some i)
  then show ?thesis using first_available_Some [OF Some] by (simp add: buffer_get_def buffer_clear_def upd_rxbuf_def)
qed (simp add: buffer_get_def)

lemma buffer_get_there:
  "first_available 0 (le_buffer_pool s) \<noteq> None \<Longrightarrow> post (buffer_get s) (\<lambda>(p, s'). cur_there (s'\<lparr>current_rxbuf := p\<rparr>))"
  using first_available_Some [of 0 "le_buffer_pool s"]
  by (auto simp: buffer_get_def buffer_clear_def upd_rxbuf_def cur_there_def)

lemma in_bounds_rx_next: "in_bounds (rx_next s)"
  by (auto simp: rx_next_def Let_def intro!: in_bounds_bnd buffer_get_bounds post_any)

lemma in_bounds_second:
  "first_available 0 (le_buffer_pool s) \<noteq> None \<Longrightarrow> in_bounds (bnd (buffer_get s) (\<lambda>(p, s). finish_conn_event (s\<lparr>current_rxbuf := p\<rparr>)))"
  by (rule in_bounds_bnd, rule buffer_get_bounds, rule post_mono [OF buffer_get_there]) (auto intro!: in_bounds_finish)

lemma in_bounds_rx_finished:
  assumes "half i s" and "5 \<le> rx_size (le_buffer_pool s ! i)" and "first_available 0 (le_buffer_pool s) \<noteq> None"
  shows "in_bounds (rx_finished s)"
proof -
  let ?s = "(dio_ssp_stop (strobe_SFSON s))\<lparr>dma_irq := False\<rparr>"
  have s: "base_inv ?s" "apart i ?s" "current_rxbuf ?s = Some i" "5 \<le> rx_size (le_buffer_pool ?s ! i)" "le_buffer_pool ?s = le_buffer_pool s"
    using assms by (simp_all add: half_def dio_ssp_stop_def strobe_SFSON_def)
  obtain q where q: "queue_insert (packet_queue ?s) i = Inr (1, q)" using insert_waiting [OF s(1,2,4)] by metis
  have i: "i < length (le_buffer_pool ?s)" using half_len [OF assms(1)] s(5) by simp
  show ?thesis unfolding rx_finished_def Let_def s(3) option.case q bnd_simps prod.case
    using i assms(3) s(5)
    by (intro in_bounds_if in_bounds_second in_bounds_rx_next)
      (auto simp: strobe_SRFOFF_def intro!: in_bounds_bnd in_bounds_get_rx in_bounds_rx_next post_any)
qed

lemma in_bounds_rx_put: "phy_inv s \<Longrightarrow> current_rxbuf s = Some i \<Longrightarrow> in_bounds (rx_put s)"
proof -
  assume a: "phy_inv s" "current_rxbuf s = Some i"
  let ?b = "le_buffer_pool s ! i"
  have h: "i < 4" "length (le_buffer_pool s) = 4" "length (le_dma_dest s) = 2"
    using half_len [OF phy_inv_half [OF a]] phy_inv_base [OF a(1)] by (simp_all add: base_inv_def)
  have "rx_pos ?b < length (rx_data ?b)" using phy_inv_receiving [OF a] by (auto simp: rx_receiving_def rx_ok_def)
  then show ?thesis using h a(2) by (simp add: rx_put_def get_rx_def upd_rxbuf_def)
qed

lemma dewhiten_length_bounds: "in_bounds (dewhiten_length c x)"
proof -
  have "unat (btle_channel_index c) < 40" using channel_index_le [of c] by (simp add: word_less_nat_alt)
  then show ?thesis by (simp add: dewhiten_length_def whitening_len)
qed

lemma in_bounds_header:
  assumes "advanced i pos s"
  shows "in_bounds (bnd (if pos = 1 then rx_first t s else Inr s) (\<lambda>s. if pos = 2 then rx_length s else Inr s))"
proof -
  have h: "half i s" "current_rxbuf s = Some i" "i < length (le_buffer_pool s)" "1 < length (rx_data (le_buffer_pool s ! i))"
    using assms half_len [of i s] half_buf [of i s] by (simp_all add: advanced_def half_def rx_ok_def)
  have "in_bounds (rx_first t s)" unfolding rx_first_def using h by (auto intro!: in_bounds_bnd in_bounds_upd_rx post_any)
  moreover have "in_bounds (rx_length s)" unfolding rx_length_def
    using h by (auto intro!: in_bounds_bnd in_bounds_get_rx in_bounds_upd_rx post_any dewhiten_length_bounds simp: get_rx_def)
  ultimately show ?thesis by (cases "pos = 1"; cases "pos = 2") (auto intro!: in_bounds_bnd post_any)
qed

text \<open>The handler does not free or take buffers before the end of the packet.\<close>

definition avail :: "le_phy \<Rightarrow> bool list" where
  "avail s = map rx_available (le_buffer_pool s)"

lemma first_available_None: "first_available k bs = None \<longleftrightarrow> True \<notin> set (map rx_available bs)"
  by (induction bs arbitrary: k) auto

lemma avail_upd: "i < length (le_buffer_pool s) \<Longrightarrow> rx_available b = rx_available (le_buffer_pool s ! i) \<Longrightarrow>
    avail (s\<lparr>le_buffer_pool := (le_buffer_pool s)[i := b]\<rparr>) = avail s"
  by (simp add: avail_def map_update list_update_same_conv)

lemma avail_other [simp]: "avail (timer1_clear_match s) = avail s" "avail (s\<lparr>in_time := ts\<rparr>) = avail s"
    "avail (s\<lparr>in_rssi := vs\<rparr>) = avail s"
  by (simp_all add: avail_def timer1_clear_match_def)

lemma avail_upd_rx: "(\<And>b. rx_available (f b) = rx_available b) \<Longrightarrow> post (upd_rxbuf p f s) (\<lambda>s'. avail s' = avail s)"
  by (rule wp_upd_rxbuf) (simp add: avail_upd)

lemma avail_rx_put: "post (rx_put s) (\<lambda>(_, s'). avail s' = avail s)"
  by (simp add: rx_put_def) (rule post_any, rule post_any, rule post_any, rule post_mono [OF avail_upd_rx], auto)

lemma avail_header:
  "post (bnd (if pos = 1 then rx_first t s else Inr s) (\<lambda>s. if pos = 2 then rx_length s else Inr s)) (\<lambda>s'. avail s' = avail s)"
  for pos :: nat
proof -
  have "post (rx_first t s) (\<lambda>s'. avail s' = avail s)" unfolding rx_first_def
    by (auto intro!: post_mono [OF avail_upd_rx])
  moreover have "post (rx_length s) (\<lambda>s'. avail s' = avail s)" unfolding rx_length_def post_simps
    by (rule post_any, rule post_any, rule post_any, rule post_mono [OF avail_upd_rx]) auto
  ultimately show ?thesis by (cases "pos = 1"; cases "pos = 2") auto
qed

lemma post_conj: "post r P \<Longrightarrow> post r Q \<Longrightarrow> post r (\<lambda>x. P x \<and> Q x)"
  by (simp add: post_def)

lemma in_bounds_dma_tail:
  assumes "phy_inv s" and "current_rxbuf s = Some i" and "True \<in> set (avail s)"
  shows "in_bounds (dma_tail t s)"
  unfolding dma_tail_def
proof (rule in_bounds_bnd [OF in_bounds_rx_put [OF assms(1,2)]])
  have "post (rx_put s) (\<lambda>(pos, s'). \<exists>i. advanced i pos s')" by (rule wp_rx_put [OF assms(1)]) auto
  from post_conj [OF this avail_rx_put]
  show "post (rx_put s) (\<lambda>x. in_bounds (case x of (pos, s) \<Rightarrow>
     bnd (bnd (if pos = 1 then rx_first t s else Inr s) (\<lambda>s. if pos = 2 then rx_length s else Inr s)) (\<lambda>s.
     bnd (get_rx (current_rxbuf s) s) (\<lambda>b.
     if pos > 2 \<and> pos \<ge> rx_size b then rx_finished s else Inr s))))"
  proof (rule post_mono, clarify)
    fix pos s' j assume a: "advanced j pos s'" and v: "avail s' = avail s"
    show "in_bounds (bnd (bnd (if pos = 1 then rx_first t s' else Inr s') (\<lambda>s. if pos = 2 then rx_length s else Inr s)) (\<lambda>s.
       bnd (get_rx (current_rxbuf s) s) (\<lambda>b.
       if pos > 2 \<and> pos \<ge> rx_size b then rx_finished s else Inr s)))"
    proof (rule in_bounds_bnd [OF in_bounds_header [OF a]], rule post_mono [OF post_conj [OF wp_rx_header [OF a] avail_header]], elim conjE)
      fix u assume u: "advanced j pos u" "pos = 2 \<longrightarrow> 5 \<le> rx_size (le_buffer_pool u ! j)" and v': "avail u = avail s'"
      have c: "current_rxbuf u = Some j" "j < length (le_buffer_pool u)" using u(1) half_len [of j u] by (simp_all add: advanced_def half_def)
      have f: "first_available 0 (le_buffer_pool u) \<noteq> None" using assms(3) v v' by (simp add: first_available_None avail_def)
      note e = advanced_end(1) [OF u(1) mp [OF u(2)]]
      show "in_bounds (bnd (get_rx (current_rxbuf u) u) (\<lambda>b. if pos > 2 \<and> pos \<ge> rx_size b then rx_finished u else Inr u))"
        using c e in_bounds_rx_finished [of j u, OF _ _ f] by (auto simp: get_rx_def)
    qed
  qed
qed

text \<open>
  C11 (bounds).  The DMA handler stays within the buffers: for every length byte the air may bring, a byte is stored inside the 260 of
  the buffer.  Only without a free buffer, at the second packet of a connection event, does it follow a null pointer.
\<close>

theorem le_dma_in_bounds:
  assumes "le_reach (pc, s)" and "current_rxbuf s \<noteq> None" and "first_available 0 (le_buffer_pool s) \<noteq> None"
  shows "le_DMA_IRQHandler stat tc (inputs ts vs rs (dma_byte x s)) \<noteq> Inl Oob"
proof -
  define u where "u = inputs ts vs rs (dma_byte x s)"
  have inv: "phy_inv u" using le_reach_inv [OF assms(1)] by (simp add: u_def)
  have c: "current_rxbuf u \<noteq> None" and a: "True \<in> set (avail u)"
    using assms(2,3) by (simp_all add: u_def inputs_def dma_byte_def avail_def first_available_None)
  have "in_bounds (bnd (upd_rxbuf (current_rxbuf v) (rx_add_rssi r) v) (dma_tail t))"
    if v: "phy_inv v" "current_rxbuf v \<noteq> None" "avail v = avail u" for v r t
  proof (rule in_bounds_bnd)
    obtain i where i: "current_rxbuf v = Some i" using v(2) by blast
    then have l: "i < length (le_buffer_pool v)" using half_len [OF phy_inv_half [OF v(1)]] by simp
    show "in_bounds (upd_rxbuf (current_rxbuf v) (rx_add_rssi r) v)" using i l by (rule in_bounds_upd_rx)
    have "post (upd_rxbuf (current_rxbuf v) (rx_add_rssi r) v) (\<lambda>w. current_rxbuf w = Some i)" using i by (intro wp_upd_rxbuf) simp
    moreover have "post (upd_rxbuf (current_rxbuf v) (rx_add_rssi r) v) (\<lambda>w. avail w = avail v)" by (rule avail_upd_rx) simp
    ultimately have "post (upd_rxbuf (current_rxbuf v) (rx_add_rssi r) v) (\<lambda>w. phy_inv w \<and> current_rxbuf w = Some i \<and> avail w = avail v)"
      using wp_rssi_added [OF v(1) refl] by (intro post_conj)
    then show "post (upd_rxbuf (current_rxbuf v) (rx_add_rssi r) v) (\<lambda>x. in_bounds (dma_tail t x))"
      by (rule post_mono) (use a v(3) in_bounds_dma_tail in auto)
  qed
  note tail = this
  have "in_bounds (le_DMA_IRQHandler stat tc u)"
    unfolding DMA_tail
  proof (rule in_bounds_bnd [OF in_bounds_inputs(1)], rule wp_NOW, unfold prod.case, rule in_bounds_if)
    fix t ts' let ?u = "u\<lparr>in_time := ts'\<rparr>"
    show "in_bounds (bnd (cc2400_get_rssi ?u) (\<lambda>(v, s). bnd (upd_rxbuf (current_rxbuf s) (rx_add_rssi (ucast (drop_bit 8 v))) s) (dma_tail t)))"
    proof (rule in_bounds_bnd [OF in_bounds_inputs(3)], rule wp_rssi, unfold prod.case)
      fix v vs' show "in_bounds (bnd (upd_rxbuf (current_rxbuf (?u\<lparr>in_rssi := vs'\<rparr>)) (rx_add_rssi (ucast (drop_bit 8 v))) (?u\<lparr>in_rssi := vs'\<rparr>)) (dma_tail t))"
        by (rule tail) (use inv c in simp_all)
    qed
  qed simp
  then show ?thesis by (simp add: u_def in_bounds_def)
qed


section \<open>A first run\<close>

definition rx_boot :: "u8 list \<Rightarrow> le_rx" where
  "rx_boot d = \<lparr>rx_data = d, rx_size = 0, rx_pos = 0, rx_timestamp = 0, rx_channel = 0,
       rx_access_address = 0, rx_available = False, rx_rssi_min = 0, rx_rssi_max = 0, rx_rssi_sum = 0\<rparr>"

text \<open>Memory before the start with buffers of the bytes \<open>d\<close>.\<close>

definition le_boot :: "u8 list \<Rightarrow> le_phy" where
  "le_boot d = \<lparr>le_buffer_pool = [rx_boot d, rx_boot d, rx_boot d, rx_boot d],
     current_rxbuf = None, packet_queue = \<lparr>q_data = replicate 10 0, q_head = 0, q_tail = 0\<rparr>, packet = None, conn = conn_zero,
     conn_event = \<lparr>ev_anchor = 0, num_packets = 0, opened = False\<rparr>, rf_channel = 0, le_adv_channel = 2402,
     requested_mode = MODE_BT_FOLLOW_LE, cancel_follow = False, do_follow = True, target = replicate 6 0,
     target_mask = replicate 6 0, target_set = False, le_dma_dest = [0, 0], dma_next = 0, dma_on = False, dma_irq = False,
     rx_on = False, cc_regs = (\<lambda>_. 0), t1mr = (\<lambda>_. 0), mri = (\<lambda>_. False), leds = (False, False, False),
     usb_fifo = \<lparr>ring_fifo = [], ring_head = 0, ring_tail = 0, last_usb_pkt = 0, ep_out = []\<rparr>,
     in_time = [], in_status = [], in_rssi = []\<rparr>"

lemma boot_memory: "length d = 260 \<Longrightarrow> le_memory (le_boot d)"
  by (simp add: le_memory_def le_boot_def rx_boot_def rx_ok_def conn_zero_def)

text \<open>The program is ready to receive on the advertising channel in the first buffer.\<close>

lemma boot_start:
  obtains s where "le_phy_start (inputs [t] [XOSC16M_STABLE] [] (le_boot d)) = Inr s" and "current_rxbuf s = Some 0"
    and "length (le_buffer_pool s) = 4" and "rx_available (le_buffer_pool s ! 1)" and "packet s = None" and "requested_mode s = MODE_BT_FOLLOW_LE"
    and "rf_channel s = 2402" and "le_buffer_pool s ! 0 = rx_clear (rx_boot d)" and "dma_next s = 0"
proof -
  let ?b = "(rx_boot d)\<lparr>rx_available := True\<rparr>"
  let ?s0 = "inputs [t] [XOSC16M_STABLE] [] (le_boot d)"
  have b: "buffers_init ?s0 = ?s0\<lparr>le_buffer_pool := [?b, ?b, ?b, ?b]\<rparr>" by (simp add: buffers_init_def inputs_def le_boot_def)
  let ?s1 = "?s0\<lparr>le_buffer_pool := [?b, ?b, ?b, ?b], packet_queue := queue_init (packet_queue ?s0)\<rparr>"
  have g: "buffer_get ?s1 = Inr (Some 0, ?s1\<lparr>le_buffer_pool := [rx_clear (rx_boot d), ?b, ?b, ?b]\<rparr>)"
    by (simp add: buffer_get_def upd_rxbuf_def buffer_clear_def rx_boot_def)
  define s2 where "s2 = le_sys_init (upd_conn (\<lambda>c. c\<lparr>access_address := ADVERTISING_AA\<rparr>)
    (?s1\<lparr>le_buffer_pool := [rx_clear (rx_boot d), ?b, ?b, ?b], current_rxbuf := Some 0, rf_channel := 2402\<rparr>))"
  have i: "in_status s2 = [XOSC16M_STABLE]" "in_time s2 = [t]" "le_buffer_pool s2 = [rx_clear (rx_boot d), ?b, ?b, ?b]" "current_rxbuf s2 = Some 0"
    "rf_channel s2 = 2402" "packet s2 = None" "requested_mode s2 = MODE_BT_FOLLOW_LE" "dma_next s2 = 0"
    by (simp_all add: s2_def le_sys_init_def dio_ssp_start_def le_dma_init_def inputs_def le_boot_def)
  obtain s3 where s3: "le_cc2400_init_rf s2 = Inr s3" "le_buffer_pool s3 = [rx_clear (rx_boot d), ?b, ?b, ?b]" "current_rxbuf s3 = Some 0"
    "rf_channel s3 = 2402" "packet s3 = None" "requested_mode s3 = MODE_BT_FOLLOW_LE" "dma_next s3 = 0"
    using i by (simp add: le_cc2400_init_rf_def timer1_wait_fs_lock_def NOW_def le_cc2400_set_def strobe_SFSON_def Let_def)
  have "le_phy_start ?s0 = Inr (s3\<lparr>cancel_follow := False\<rparr>)"
    unfolding le_phy_start_def b Let_def using g s3(1) unfolding s2_def by (simp add: inputs_def le_boot_def)
  then show ?thesis using s3 by (intro that [of "s3\<lparr>cancel_follow := False\<rparr>"]) simp_all
qed

lemma boot_reach:
  fixes d :: "u8 list"
  assumes "length d = 260"
  obtains s where "le_reach (At_take, s)" and "current_rxbuf s = Some 0" and "first_available 0 (le_buffer_pool s) \<noteq> None"
    and "rf_channel s = 2402" and "le_buffer_pool s ! 0 = rx_clear (rx_boot d)" and "dma_next s = 0"
proof -
  obtain s where s: "le_phy_start (inputs [0] [XOSC16M_STABLE] [] (le_boot d)) = Inr s" "current_rxbuf s = Some 0"
      "length (le_buffer_pool s) = 4" "rx_available (le_buffer_pool s ! 1)"
      "rf_channel s = 2402" "le_buffer_pool s ! 0 = rx_clear (rx_boot d)" "dma_next s = 0"
    by (rule boot_start)
  have "le_reach (At_take, s)" by (rule le_reach.start [OF boot_memory [OF assms] s(1)])
  moreover have "first_available 0 (le_buffer_pool s) \<noteq> None"
    using s(3,4) nth_mem [of 1 "le_buffer_pool s"] by (auto simp: first_available_None)
  ultimately show ?thesis using that s(2,5-7) by blast
qed

theorem le_buffers_one_owner_witness:
  "\<exists>s. le_reach (At_take, s) \<and> current_rxbuf s = Some 0 \<and>
    distinct (opt_list (current_rxbuf s) @ q_list (packet_queue s) @ opt_list (packet s)) \<and>
    (\<exists>q. queue_insert (packet_queue s) 0 = Inr (1, q))"
proof -
  obtain s where s: "le_reach (At_take, s)" "current_rxbuf s = Some 0" by (rule boot_reach [of "replicate 260 0"]) simp
  then show ?thesis using le_buffers_one_owner [OF s(1)] by blast
qed

theorem le_dma_in_bounds_witness:
  "\<exists>s. le_reach (At_take, s) \<and> current_rxbuf s \<noteq> None \<and> first_available 0 (le_buffer_pool s) \<noteq> None \<and>
    le_DMA_IRQHandler True True (inputs [5] [] [0xe000] (dma_byte 0x55 s)) \<noteq> Inl Oob"
proof -
  obtain s where s: "le_reach (At_take, s)" "current_rxbuf s = Some 0" "first_available 0 (le_buffer_pool s) \<noteq> None"
    by (rule boot_reach [of "replicate 260 0"]) simp
  then show ?thesis using le_dma_in_bounds [OF s(1) _ s(3), of True True "[5]" "[]" "[0xe000]" "0x55"] by auto
qed

end
