(* ===== verification/LeFollow.thy ===== *)
theory LeFollow
  imports LePhyInv
begin

text \<open>
  What the LE sniffer does over several interrupts: the reception of a packet byte by byte, the hops of a connection whose
  packets are missed, a connection update, and the second packet of an event when no buffer is free.
\<close>

section \<open>Missed connection events\<close>

text \<open>The state a connection is followed in, between two events.\<close>

definition following :: "le_phy \<Rightarrow> bool" where
  "following s \<longleftrightarrow> access_address (conn s) \<noteq> ADVERTISING_AA \<and> anchor_set (conn s) \<and> \<not> conn_update_pending (conn s) \<and>
     \<not> channel_map_update_pending (conn s) \<and> remap_wf (remapping (conn s)) \<and> 0 < total_channels (remapping (conn s)) \<and>
     channel_idx (conn s) < 37 \<and> \<not> opened (conn_event s) \<and> num_packets (conn_event s) = 0 \<and> \<not> cancel_follow s \<and> cur_there s"

text \<open>One event without a packet: the hop interrupt with its two readings of the timer, and the timeout with its reading.\<close>

definition miss_event :: "u32 \<times> u32 \<times> u32 \<Rightarrow> le_phy \<Rightarrow> le_phy res" where
  "miss_event = (\<lambda>(t1, t2, t3) s.
     bnd (le_TIMER1_IRQHandler True False False False (inputs [t1, t2] [XOSC16M_STABLE] [] s)) (\<lambda>s.
     le_TIMER1_IRQHandler True False False False (inputs [t3] [] [] s)))"

primrec miss_events :: "(u32 \<times> u32 \<times> u32) list \<Rightarrow> le_phy \<Rightarrow> le_phy res" where
  "miss_events [] s = Inr s"
| "miss_events (t # ts) s = bnd (miss_event t s) (miss_events ts)"

lemma map_channel_total:
  assumes "remap_wf r" and "0 < total_channels r" and "i < 37"
  shows "\<exists>c. le_map_channel i r = Inr c"
proof -
  have "unat i < 37" using assms(3) by (simp add: word_less_nat_alt)
  moreover have "unat i mod total_channels r < 37" using assms(1,2) mod_less_divisor [of "total_channels r" "unat i"] unfolding remap_wf_def by linarith
  ultimately show ?thesis using assms by (simp add: le_map_channel_def remap_wf_def)
qed

lemma next_idx_less: "le_next_idx i h < 37"
proof -
  have "unat (of_nat ((unat i + unat h) mod 37) :: u8) = (unat i + unat h) mod 37" by (simp add: unat_of_nat take_bit_nat_eq_self)
  then show ?thesis by (simp add: le_next_idx_def word_less_nat_alt)
qed

text \<open>Opening an event: the radio is tuned to the next channel of the map.\<close>

lemma open_event:
  assumes "following s"
  obtains s' c where "le_TIMER1_IRQHandler True False False False (inputs [t1, t2] [XOSC16M_STABLE] [] s) = Inr s'"
    and "le_map_channel (le_next_idx (channel_idx (conn s)) (hop_increment (conn s))) (remapping (conn s)) = Inr c"
    and "rf_channel s' = btle_channel_index_to_phys c"
    and "conn s' = (conn s)\<lparr>channel_idx := le_next_idx (channel_idx (conn s)) (hop_increment (conn s))\<rparr>"
    and "conn_event s' = (conn_event s)\<lparr>opened := True\<rparr>" and "cancel_follow s' = cancel_follow s" and "cur_there s'"
proof -
  let ?i = "le_next_idx (channel_idx (conn s)) (hop_increment (conn s))"
  obtain c where c: "le_map_channel ?i (remapping (conn s)) = Inr c"
    using assms map_channel_total [of "remapping (conn s)" ?i] next_idx_less by (auto simp: following_def)
  obtain k where k: "current_rxbuf s = Some k" "k < length (le_buffer_pool s)" using assms by (auto simp: following_def cur_there_def)
  let ?r = "le_TIMER1_IRQHandler True False False False (inputs [t1, t2] [XOSC16M_STABLE] [] s)"
  obtain s' where "?r = Inr s' \<and> rf_channel s' = btle_channel_index_to_phys c \<and>
      conn s' = (conn s)\<lparr>channel_idx := ?i\<rparr> \<and> conn_event s' = (conn_event s)\<lparr>opened := True\<rparr> \<and> cancel_follow s' = cancel_follow s \<and>
      current_rxbuf s' = Some k \<and> length (le_buffer_pool s') = length (le_buffer_pool s)"
    using assms c k
    by (simp add: following_def le_TIMER1_IRQHandler_def t1_map_update_def t1_event_def t1_rest_def inputs_def NOW_def timer1_set_match_def
        change_channel_def buffer_clear_def upd_rxbuf_def next_channel_def dio_ssp_start_def dio_ssp_stop_def le_dma_init_def strobe_SRFOFF_def
        le_cc2400_init_rf_def le_cc2400_set_def strobe_SFSON_def timer1_wait_fs_lock_def Let_def)
  then show ?thesis using that c k by (auto simp: cur_there_def)
qed

lemma close_event:
  assumes "anchor_set (conn s)" and "\<not> conn_update_pending (conn s)" and "\<not> channel_map_update_pending (conn s)"
    and "opened (conn_event s)" and "num_packets (conn_event s) = 0" and "\<not> cancel_follow s"
    and "t3 - last_packet_ts (conn s) \<le> supervision_timeout (conn s)"
  obtains s' where "le_TIMER1_IRQHandler True False False False (inputs [t3] [] [] s) = Inr s'"
    and "conn s' = (conn s)\<lparr>last_anchor := last_anchor (conn s) + conn_interval (conn s),
      conn_event_counter := conn_event_counter (conn s) + 1\<rparr>"
    and "conn_event s' = (conn_event s)\<lparr>num_packets := 0, opened := False\<rparr>" and "cancel_follow s' = cancel_follow s"
    and "cur_there s' = cur_there s" and "rf_channel s' = rf_channel s"
    and "t1mr s' 0 = last_anchor (conn s') + conn_interval (conn s') - RX_WARMUP_TIME" and "mri s' 0"
proof -
  have "\<not> supervision_timeout (conn s) < t3 - last_packet_ts (conn s)" using assms(7) by (simp add: not_less)
  then show ?thesis using assms
    by (intro that [of "projr (le_TIMER1_IRQHandler True False False False (inputs [t3] [] [] s))"])
      (simp_all add: le_TIMER1_IRQHandler_def t1_map_update_def t1_event_def t1_rest_def inputs_def finish_conn_event_def update_anchor_def
      observed_anchor_def update_packet_ts_def next_event_def reset_conn_event_def NOW_def timer1_set_match_def cur_there_def Let_def)
qed

text \<open>The connection after \<open>n\<close> missed events.\<close>

definition conn_after :: "nat \<Rightarrow> le_conn \<Rightarrow> le_conn" where
  "conn_after n c = c\<lparr>channel_idx := of_nat ((unat (channel_idx c) + n * unat (hop_increment c)) mod 37),
     last_anchor := last_anchor c + of_nat n * conn_interval c, conn_event_counter := conn_event_counter c + of_nat n\<rparr>"

lemma miss_one:
  assumes "following s" and "t3 - last_packet_ts (conn s) \<le> supervision_timeout (conn s)"
  obtains s' c where "miss_event (t1, t2, t3) s = Inr s'" and "following s'" and "conn s' = conn_after 1 (conn s)"
    and "le_map_channel (channel_idx (conn s')) (remapping (conn s)) = Inr c" and "rf_channel s' = btle_channel_index_to_phys c"
    and "t1mr s' 0 = last_anchor (conn s') + conn_interval (conn s') - RX_WARMUP_TIME" and "mri s' 0"
proof -
  let ?i = "le_next_idx (channel_idx (conn s)) (hop_increment (conn s))"
  obtain u c where u: "le_TIMER1_IRQHandler True False False False (inputs [t1, t2] [XOSC16M_STABLE] [] s) = Inr u"
      and c: "le_map_channel ?i (remapping (conn s)) = Inr c" "rf_channel u = btle_channel_index_to_phys c"
      and eq: "conn u = (conn s)\<lparr>channel_idx := ?i\<rparr>" "conn_event u = (conn_event s)\<lparr>opened := True\<rparr>" "cancel_follow u = cancel_follow s" "cur_there u"
    by (rule open_event [OF assms(1)])
  obtain s' where s': "le_TIMER1_IRQHandler True False False False (inputs [t3] [] [] u) = Inr s'"
      and cn: "conn s' = (conn u)\<lparr>last_anchor := last_anchor (conn u) + conn_interval (conn u), conn_event_counter := conn_event_counter (conn u) + 1\<rparr>"
      and e: "conn_event s' = (conn_event u)\<lparr>num_packets := 0, opened := False\<rparr>" "cancel_follow s' = cancel_follow u"
        "cur_there s' = cur_there u" "rf_channel s' = rf_channel u"
        "t1mr s' 0 = last_anchor (conn s') + conn_interval (conn s') - RX_WARMUP_TIME" "mri s' 0"
  proof (rule close_event [of u t3])
  qed (use assms eq in \<open>simp_all add: following_def\<close>)
  have 1: "miss_event (t1, t2, t3) s = Inr s'" using u s' by (simp add: miss_event_def)
  have 2: "conn s' = conn_after 1 (conn s)" using eq cn by (simp add: conn_after_def le_next_idx_def)
  have 3: "following s'" using assms(1) eq next_idx_less by (simp add: e cn following_def)
  have "channel_idx (conn s') = ?i" using cn eq by simp
  then have 4: "le_map_channel (channel_idx (conn s')) (remapping (conn s)) = Inr c" using c(1) by simp
  have 5: "rf_channel s' = btle_channel_index_to_phys c" using c(2) e(4) by simp
  show ?thesis by (rule that [OF 1 3 2 4 5 e(5,6)])
qed

lemma conn_after_0: "channel_idx c < 37 \<Longrightarrow> conn_after 0 c = c"
  by (simp add: conn_after_def word_less_nat_alt)

lemma conn_after_Suc: "channel_idx c < 37 \<Longrightarrow> conn_after n (conn_after 1 c) = conn_after (Suc n) c"
proof -
  have "unat (of_nat ((unat (channel_idx c) + unat (hop_increment c)) mod 37) :: u8) = (unat (channel_idx c) + unat (hop_increment c)) mod 37"
    by (simp add: unat_of_nat take_bit_nat_eq_self)
  then show ?thesis by (simp add: conn_after_def algebra_simps mod_simps)
qed

text \<open>
  C10 (functional).  A connection is followed through events whose packets are missed: as long as the supervision timeout is not reached,
  after \<open>n\<close> of them the channel index has made \<open>n\<close> hops, the anchor has moved by \<open>n\<close> intervals, the event counter by \<open>n\<close>; the radio
  is on the channel the map gives for the index, and the timer is set to the next anchor less the warm up.
\<close>

theorem missed_events_hop:
  assumes "following s" and "ts \<noteq> []"
    and "\<forall>(t1, t2, t3) \<in> set ts. t3 - last_packet_ts (conn s) \<le> supervision_timeout (conn s)"
  shows "\<exists>s' c. miss_events ts s = Inr s' \<and> following s' \<and> conn s' = conn_after (length ts) (conn s) \<and>
    le_map_channel (channel_idx (conn s')) (remapping (conn s)) = Inr c \<and> rf_channel s' = btle_channel_index_to_phys c \<and>
    t1mr s' 0 = last_anchor (conn s') + conn_interval (conn s') - RX_WARMUP_TIME \<and> mri s' 0"
  using assms
proof (induction ts arbitrary: s)
  case (Cons t ts)
  obtain t1 t2 t3 where t: "t = (t1, t2, t3)" by (cases t)
  have le: "t3 - last_packet_ts (conn s) \<le> supervision_timeout (conn s)" using Cons.prems(3) t by simp
  obtain u c where u: "miss_event (t1, t2, t3) s = Inr u" "following u" "conn u = conn_after 1 (conn s)"
      and c: "le_map_channel (channel_idx (conn u)) (remapping (conn s)) = Inr c" "rf_channel u = btle_channel_index_to_phys c"
      "t1mr u 0 = last_anchor (conn u) + conn_interval (conn u) - RX_WARMUP_TIME" "mri u 0"
    by (rule miss_one [OF Cons.prems(1) le])
  have i: "channel_idx (conn s) < 37" using Cons.prems(1) by (simp add: following_def)
  show ?case
  proof (cases "ts = []")
    case True
    then show ?thesis using u c t by auto
  next
    case False
    have same: "last_packet_ts (conn u) = last_packet_ts (conn s)" "supervision_timeout (conn u) = supervision_timeout (conn s)"
      "remapping (conn u) = remapping (conn s)" using u(3) by (simp_all add: conn_after_def)
    have "\<forall>(t1, t2, t3) \<in> set ts. t3 - last_packet_ts (conn u) \<le> supervision_timeout (conn u)" using Cons.prems(3) same by simp
    from Cons.IH [OF u(2) False this] show ?thesis using u t same conn_after_Suc [OF i] by simp
  qed
qed simp

text \<open>A connection on all channels.\<close>

definition le_followed :: "u8 list \<Rightarrow> le_phy" where
  "le_followed d = (le_boot d)\<lparr>current_rxbuf := Some 0, conn := conn_zero\<lparr>access_address := 0x12345678, anchor_set := True,
     hop_increment := 7, conn_interval := 75000, supervision_timeout := 1000000, remapping := remap_upto (\<lambda>_. True) 37\<rparr>\<rparr>"

lemma followed_following: "following (le_followed d)"
proof -
  have "total_channels (remap_upto (\<lambda>_. True) 37) = 37" by (simp add: remap_upto_def used_upto_def)
  then show ?thesis by (simp add: le_followed_def following_def le_boot_def conn_zero_def remap_upto_wf cur_there_def)
qed

theorem missed_events_hop_witness:
  "\<exists>s'. miss_events [(75000, 75010, 80000), (150000, 150010, 155000)] (le_followed []) = Inr s' \<and> channel_idx (conn s') = 14 \<and>
    last_anchor (conn s') = 150000 \<and> t1mr s' 0 = 222000"
proof -
  have "\<forall>(t1, t2, t3) \<in> set [(75000, 75010, 80000), (150000, 150010, 155000)].
      t3 - last_packet_ts (conn (le_followed [])) \<le> supervision_timeout (conn (le_followed []))"
    by (simp add: le_followed_def conn_zero_def)
  from missed_events_hop [OF followed_following _ this] obtain s' where 1:
    "miss_events [(75000, 75010, 80000), (150000, 150010, 155000)] (le_followed []) = Inr s'"
    and 2: "conn s' = conn_after (length [(75000, 75010, 80000), (150000, 150010, 155000) :: u32 \<times> u32 \<times> u32]) (conn (le_followed []))"
    and 3: "t1mr s' 0 = last_anchor (conn s') + conn_interval (conn s') - RX_WARMUP_TIME"
    by blast
  have c: "channel_idx (conn s') = 14" "last_anchor (conn s') = 150000" "conn_interval (conn s') = 75000"
    unfolding 2 by (simp_all add: conn_after_def le_followed_def conn_zero_def)
  show ?thesis using 1 3 c by (intro exI [of _ s']) simp
qed

section \<open>A connection update\<close>

lemma init_rf_match: "post (le_cc2400_init_rf s) (\<lambda>v. t1mr v 0 = t1mr s 0)"
  by (simp add: le_cc2400_init_rf_def le_cc2400_set_def strobe_SFSON_def timer1_wait_fs_lock_def Let_def)
    (rule post_any, rule wp_NOW, simp)

lemma next_channel_match: "post (next_channel s) (\<lambda>(i, v). t1mr v 0 = t1mr s 0)"
  by (auto simp: next_channel_def Let_def intro!: post_any)

lemma change_channel_match: "post (change_channel s) (\<lambda>v. t1mr v 0 = t1mr s 0)"
  unfolding change_channel_def buffer_clear_def Let_def post_simps
  by (rule wp_upd_rxbuf, rule post_mono [OF next_channel_match])
    (auto simp: dio_ssp_start_def dio_ssp_stop_def le_dma_init_def strobe_SRFOFF_def intro!: post_mono [OF init_rf_match])

lemma u8_product: "unat (of_nat (n * 12500) :: u8) = n * 12500 mod 256"
  using unat_of_nat [where 'a = 8, of "n * 12500"] by (simp add: take_bit_eq_mod del: of_nat_mult)

lemma extract_byte: "k < length (rx_data buf) \<Longrightarrow> extract_field buf k 1 = Inr (ucast (rx_data buf ! k))"
  by (simp add: extract_field_def)

lemma u8_via_u32: "ucast (ucast x :: u32) = (x :: u8)"
  by (rule bit_word_eqI) (auto simp: bit_simps dest: bit_imp_le_length)

lemma update_window_size:
  assumes "connection_update_handler buf s = Inr u"
  shows "win_size (conn u) = of_nat (unat (rx_data buf ! 3) * 12500)"
proof -
  obtain ws where ws: "extract_field buf 3 1 = Inr ws" and w: "win_size (conn u) = ucast (ucast (ucast ws :: u8) * (12500 :: u32))"
    using assms by (auto simp: connection_update_handler_def bnd_Inr_iff)
  have "3 < length (rx_data buf)" using ws by (auto simp: extract_field_def bnd_Inr_iff rd_Inr_iff)
  then have e: "ws = ucast (rx_data buf ! 3)" using ws extract_byte by simp
  have "(ucast (ucast (rx_data buf ! 3) * 12500 :: u32) :: u8) = of_nat (unat (rx_data buf ! 3) * 12500)"
  proof (rule word_unat_eq_iff [THEN iffD2])
    let ?n = "unat (rx_data buf ! 3)"
    have n: "?n < 256" by (rule unat_u8)
    then have "unat (ucast (rx_data buf ! 3) * 12500 :: u32) = ?n * 12500"
      by (simp add: unat_word_ariths unsigned_ucast_eq take_bit_nat_eq_self)
    then show "unat (ucast (ucast (rx_data buf ! 3) * 12500 :: u32) :: u8) = unat (of_nat (?n * 12500) :: u8)"
      unfolding u8_product by (simp add: unsigned_ucast_eq take_bit_eq_mod)
  qed
  then show ?thesis using w unfolding e u8_via_u32 by simp
qed

text \<open>
  After a LL_CONNECTION_UPDATE_REQ the first packet may come anywhere in a transmit window of \<open>w\<close> times 1.25 ms.  The size of the
  window is kept in eight bits, so the timer set at the instant ends the reception early, by at least 1.2 ms for each unit of
  the window.
\<close>

theorem update_window_short:
  assumes "connection_update_handler buf s = Inr u" and "w = unat (rx_data buf ! 3)" and "1 \<le> w" and "w \<le> 8"
    and "win_size (conn t) = win_size (conn u)" and "opened (conn_event t)" and "t1_update t = Inr v"
  shows "\<exists>d. t1mr v 0 + of_nat d = last_anchor (conn t) + conn_update_pending_interval (conn t) + win_offset (conn t) + of_nat (w * 12500) + USEC 2120 \<and>
    w * 12000 \<le> d \<and> d \<le> w * 12500"
proof -
  have ws: "win_size (conn t) = of_nat (w * 12500)" using update_window_size [OF assms(1)] assms(2,5) by simp
  have m: "t1mr v 0 = last_anchor (conn t) + conn_update_pending_interval (conn t) + win_offset (conn t) + ucast (win_size (conn t)) + USEC 2120"
    using post_Inr [OF change_channel_match] assms(6,7) by (auto simp: t1_update_def Let_def timer1_set_match_def)
  let ?d = "256 * (w * 12500 div 256)"
  have "(ucast (of_nat (w * 12500) :: u8) :: u32) = of_nat (w * 12500 mod 256)"
    unfolding u8_product [symmetric] by (simp del: of_nat_mult)
  then have "ucast (win_size (conn t)) + of_nat ?d = (of_nat (w * 12500) :: u32)"
    unfolding ws using mod_mult_div_eq [of "w * 12500" 256] by (metis of_nat_add)
  then have "t1mr v 0 + of_nat ?d = last_anchor (conn t) + conn_update_pending_interval (conn t) + win_offset (conn t) + of_nat (w * 12500) + USEC 2120"
    unfolding m by (simp add: algebra_simps)
  moreover have "w * 12000 \<le> ?d" using assms(3) mod_mult_div_eq [of "w * 12500" 256] mod_less_divisor [of 256 "w * 12500"] by linarith
  moreover have "?d \<le> w * 12500" by simp
  ultimately show ?thesis by blast
qed

text \<open>An update to a window of 1.25 ms, and the instant.\<close>

definition update_pkt :: le_rx where
  "update_pkt = rx_boot [3, 12, 0, 1, 0, 0, 24, 0, 0, 0, 100, 0, 5, 0]"

definition at_instant :: "le_phy \<Rightarrow> le_phy" where
  "at_instant u = u\<lparr>conn_event := \<lparr>ev_anchor = 0, num_packets = 0, opened = True\<rparr>, in_time := [0], in_status := [XOSC16M_STABLE]\<rparr>"

lemma update_pkt_handled: "\<exists>u. connection_update_handler update_pkt s = Inr u \<and> current_rxbuf u = current_rxbuf s \<and>
    le_buffer_pool u = le_buffer_pool s \<and> remapping (conn u) = remapping (conn s) \<and> access_address (conn u) = access_address (conn s)"
  by (simp add: connection_update_handler_def extract_field_def update_pkt_def rx_boot_def loop_numeral)

lemma update_at_instant:
  assumes "current_rxbuf u = Some 0" and "le_buffer_pool u \<noteq> []" and "remapping (conn u) = remap_upto (\<lambda>_. True) 37"
  shows "\<exists>v. t1_update (at_instant u) = Inr v"
proof -
  have "0 < total_channels (remap_upto (\<lambda>_. True) 37)" by (simp add: remap_upto_def used_upto_def)
  then obtain c where "le_map_channel (le_next_idx (channel_idx (conn u)) (hop_increment (conn u))) (remap_upto (\<lambda>_. True) 37) = Inr c"
    using map_channel_total [OF remap_upto_wf _ next_idx_less] by blast
  then show ?thesis using assms
    by (simp add: at_instant_def t1_update_def timer1_set_match_def change_channel_def buffer_clear_def upd_rxbuf_def next_channel_def
      dio_ssp_start_def dio_ssp_stop_def le_dma_init_def strobe_SRFOFF_def NOW_def
      le_cc2400_init_rf_def le_cc2400_set_def strobe_SFSON_def timer1_wait_fs_lock_def Let_def)
qed

theorem update_window_short_witness:
  "\<exists>u v d. connection_update_handler update_pkt (le_followed []) = Inr u \<and> t1_update (at_instant u) = Inr v \<and>
    t1mr v 0 + of_nat d = last_anchor (conn u) + conn_update_pending_interval (conn u) + win_offset (conn u) + 12500 + USEC 2120 \<and> 12000 \<le> d"
proof -
  obtain u where u: "connection_update_handler update_pkt (le_followed []) = Inr u" "current_rxbuf u = Some 0" "le_buffer_pool u \<noteq> []"
      "remapping (conn u) = remap_upto (\<lambda>_. True) 37"
    using update_pkt_handled [of "le_followed []"] by (auto simp: le_followed_def le_boot_def)
  obtain v where v: "t1_update (at_instant u) = Inr v" using update_at_instant [OF u(2-4)] by blast
  have c: "conn (at_instant u) = conn u" "opened (conn_event (at_instant u))" by (simp_all add: at_instant_def)
  have w: "unat (rx_data update_pkt ! 3) = 1" by (simp add: update_pkt_def rx_boot_def)
  show ?thesis using update_window_short [OF u(1) refl _ _ _ c(2) v] u(1) v unfolding w c(1) by auto
qed

section \<open>The reception of a packet\<close>

text \<open>What a sender puts on the air: the bits in the order of transmission, whitened.\<close>

definition le_air_byte :: "nat \<Rightarrow> nat \<Rightarrow> u8 \<Rightarrow> u8" where
  "le_air_byte idx i p = fold (\<lambda>j r. r OR push_bit (7 - j) (of_bool (bit p j \<noteq> le_white_bit idx (8 * i + j)))) [0..<8] 0"

definition le_air :: "nat \<Rightarrow> u8 list \<Rightarrow> u8 list" where
  "le_air idx p = map (\<lambda>i. le_air_byte idx i (p ! i)) [0..<length p]"

lemma bit_fold_or:
  "bit (fold (\<lambda>j r. r OR push_bit (f j) (of_bool (P j))) js (r :: u8)) k \<longleftrightarrow> bit r k \<or> (\<exists>j \<in> set js. f j = k \<and> k < 8 \<and> P j)"
proof (induction js arbitrary: r)
  case (Cons j js)
  have "bit (push_bit (f j) (of_bool (P j)) :: u8) k \<longleftrightarrow> f j = k \<and> k < 8 \<and> P j" by (auto simp: bit_simps)
  then show ?case using Cons by (auto simp: bit_simps)
qed simp

lemma bit_air_byte: "bit (le_air_byte idx i p) k \<longleftrightarrow> k < 8 \<and> (bit p (7 - k) \<noteq> le_white_bit idx (8 * i + (7 - k)))"
proof -
  have "(\<exists>j \<in> set [0..<8]. 7 - j = k \<and> k < 8 \<and> Q j) \<longleftrightarrow> k < 8 \<and> Q (7 - k)" for Q by (auto intro!: bexI [of _ "7 - k"])
  then show ?thesis unfolding le_air_byte_def bit_fold_or by simp
qed

lemma bit_white_byte: "bit (le_white_byte idx i b) k \<longleftrightarrow> k < 8 \<and> (bit b (7 - k) \<noteq> le_white_bit idx (8 * i + k))"
  unfolding le_white_byte_def bit_fold_or [where f = "\<lambda>j. j", simplified] by auto

lemma white_air: "le_white_byte idx i (le_air_byte idx i p) = p"
proof (rule bit_word_eqI)
  fix k :: nat assume "k < LENGTH(8)"
  then show "bit (le_white_byte idx i (le_air_byte idx i p)) k = bit p k" by (auto simp: bit_white_byte bit_air_byte)
qed

lemma length_air [simp]: "length (le_air idx p) = length p" and nth_air [simp]: "i < length p \<Longrightarrow> le_air idx p ! i = le_air_byte idx i (p ! i)"
  by (simp_all add: le_air_def)

text \<open>The receiver takes the whitening off.\<close>

lemma dewhiten_air:
  assumes "length p \<le> length d" and "take (length p) d = le_air (unat (btle_channel_index c)) p"
  shows "le_dewhiten d (length p) c = Inr (p @ drop (length p) d)"
proof -
  let ?x = "unat (btle_channel_index c)"
  have "d ! i = le_air_byte ?x i (p ! i)" if "i < length p" for i
    using arg_cong [OF assms(2), of "\<lambda>l. l ! i"] that by simp
  then have "map (\<lambda>i. le_white_byte ?x i (d ! i)) [0..<length p] = map (\<lambda>i. p ! i) [0..<length p]"
    by (intro map_cong refl) (simp add: white_air)
  then show ?thesis using dewhiten_lfsr [OF assms(1), of c] by (simp add: map_nth)
qed

lemma dewhiten_length_air: "dewhiten_length c (le_air_byte (unat (btle_channel_index c)) 1 x) = Inr x"
proof -
  have "unat (btle_channel_index c) < 40" using channel_index_le [of c] by (simp add: word_less_nat_alt)
  then show ?thesis using dewhiten_byte_lfsr [of "unat (btle_channel_index c)" 1] whitening_len
    by (simp add: dewhiten_length_def white_air)
qed

text \<open>Bytes come in one by one, each with the readings of its interrupt.\<close>

primrec feed :: "(u8 \<times> u32 list \<times> u16) list \<Rightarrow> le_phy \<Rightarrow> le_phy res" where
  "feed [] s = Inr s"
| "feed (b # bs) s = bnd (case b of (x, ts, r) \<Rightarrow> le_DMA_IRQHandler True True (inputs ts [] [r] (dma_byte x s))) (feed bs)"

text \<open>The state after \<open>m\<close> bytes of the packet \<open>p\<close> into buffer \<open>i\<close> from the state \<open>s0\<close> on.\<close>

definition got :: "le_phy \<Rightarrow> u8 list \<Rightarrow> nat \<Rightarrow> nat \<Rightarrow> le_phy \<Rightarrow> bool" where
  "got s0 p i m s \<longleftrightarrow> (let b = le_buffer_pool s ! i in
     current_rxbuf s = Some i \<and> i < length (le_buffer_pool s) \<and> length (rx_data b) = 260 \<and> rx_pos b = m \<and>
     take m (rx_data b) = take m (le_air (unat (btle_channel_index (rf_channel s0))) p) \<and>
     (1 \<le> m \<longrightarrow> rx_channel b = rf_channel s0) \<and> (2 \<le> m \<longrightarrow> rx_size b = length p) \<and> \<not> rx_available b \<and>
     length (le_dma_dest s) = 2 \<and> dma_next s = m mod 2 \<and> rf_channel s = rf_channel s0 \<and> conn_event s = conn_event s0 \<and>
     packet_queue s = packet_queue s0)"

text \<open>One byte up to the decision whether the packet is complete.\<close>

lemma rx_put_eq:
  assumes "current_rxbuf s = Some i" and "i < length (le_buffer_pool s)" and "rx_pos (le_buffer_pool s ! i) < length (rx_data (le_buffer_pool s ! i))"
    and "rx_pos (le_buffer_pool s ! i) mod 2 < length (le_dma_dest s)"
  shows "rx_put s = (let b = le_buffer_pool s ! i in
    Inr (rx_pos b + 1, s\<lparr>le_buffer_pool := (le_buffer_pool s)[i := b\<lparr>rx_data := (rx_data b)[rx_pos b := le_dma_dest s ! (rx_pos b mod 2)], rx_pos := rx_pos b + 1\<rparr>]\<rparr>))"
  using assms by (simp add: rx_put_def get_rx_def upd_rxbuf_def Let_def)

lemma dma_tail_eq:
  assumes "rx_put s = Inr (m + 1, v)" and "current_rxbuf v = Some i" and "i < length (le_buffer_pool v)"
    and "(if m = 0 then rx_first t v else if m = 1 then rx_length v else Inr v) = Inr u"
    and "current_rxbuf u = Some i" and "i < length (le_buffer_pool u)"
  shows "dma_tail t s = (if 2 < m + 1 \<and> rx_size (le_buffer_pool u ! i) \<le> m + 1 then rx_finished u else Inr u)"
  using assms by (auto simp: dma_tail_def get_rx_def split: if_splits)

lemma got_put:
  assumes g: "got s0 p i m s" and m: "m < length p" and n: "length p \<le> 260"
    and x: "x = le_air_byte (unat (btle_channel_index (rf_channel s0))) m (p ! m)"
    and w: "w = (dma_byte x s)\<lparr>in_status := l2, in_time := l1, in_rssi := l3, le_buffer_pool := (le_buffer_pool s)[i := rx_add_rssi r (le_buffer_pool s ! i)]\<rparr>"
  obtains v where "rx_put w = Inr (m + 1, v)" and "in_time v = l1" and "got s0 p i (m + 1) (v\<lparr>le_buffer_pool := (le_buffer_pool v)[i := (le_buffer_pool v ! i)\<lparr>rx_channel := rf_channel s0, rx_size := length p\<rparr>]\<rparr>)"
    and "1 \<le> m \<longrightarrow> rx_channel (le_buffer_pool v ! i) = rf_channel s0" and "2 \<le> m \<longrightarrow> rx_size (le_buffer_pool v ! i) = length p"
    and "rx_data (le_buffer_pool v ! i) ! m = x"
proof -
  let ?b = "le_buffer_pool s ! i"
  let ?air = "le_air (unat (btle_channel_index (rf_channel s0))) p"
  let ?v = "w\<lparr>le_buffer_pool := (le_buffer_pool w)[i := (rx_add_rssi r ?b)\<lparr>rx_data := (rx_data ?b)[m := x], rx_pos := m + 1\<rparr>]\<rparr>"
  have b: "current_rxbuf s = Some i" "i < length (le_buffer_pool s)" "length (rx_data ?b) = 260" "rx_pos ?b = m"
    "take m (rx_data ?b) = take m ?air" "1 \<le> m \<longrightarrow> rx_channel ?b = rf_channel s0" "2 \<le> m \<longrightarrow> rx_size ?b = length p" "\<not> rx_available ?b"
    "length (le_dma_dest s) = 2" "dma_next s = m mod 2" "rf_channel s = rf_channel s0" "conn_event s = conn_event s0" "packet_queue s = packet_queue s0"
    using g by (simp_all add: got_def Let_def)
  have pos: "m < length (rx_data ?b)" using m n b(3) by simp
  have "rx_put w = Inr (m + 1, ?v)"
    using rx_put_eq [of w i] b pos by (simp add: w dma_byte_def Let_def)
  moreover have "take (m + 1) ((rx_data ?b)[m := x]) = take (m + 1) ?air"
    using b(5) pos m x by (simp add: take_Suc_conv_app_nth)
  moreover have "1 - m mod 2 = Suc m mod 2" by presburger
  moreover have "rx_channel (rx_add_rssi r ?b) = rx_channel ?b" by (simp add: rx_add_rssi_def Let_def)
  ultimately show ?thesis using b pos by (intro that [of ?v]) (simp_all add: got_def w dma_byte_def)
qed

lemma handler_tail:
  assumes "current_rxbuf s = Some i" and "i < length (le_buffer_pool s)"
  shows "le_DMA_IRQHandler True True (inputs (t # ts) vs [r] (dma_byte x s)) =
    dma_tail t ((dma_byte x s)\<lparr>in_status := vs, in_time := ts, in_rssi := [],
      le_buffer_pool := (le_buffer_pool s)[i := rx_add_rssi (ucast (drop_bit 8 r)) (le_buffer_pool s ! i)]\<rparr>)"
  using assms by (simp add: DMA_tail NOW_def cc2400_get_rssi_def inputs_def dma_byte_def upd_rxbuf_def)

lemma got_byte:
  assumes g: "got s0 p i m s" and m: "m < length p" and len: "length p = unat (p ! 1) + 5"
    and x: "x = le_air_byte (unat (btle_channel_index (rf_channel s0))) m (p ! m)"
  obtains u where "got s0 p i (m + 1) u" and "in_time u = ts" and
    "le_DMA_IRQHandler True True (inputs (t # ts) vs [r] (dma_byte x s)) = (if 2 < m + 1 \<and> length p \<le> m + 1 then rx_finished u else Inr u)"
proof -
  define w where "w = (dma_byte x s)\<lparr>in_status := vs, in_time := ts, in_rssi := [],
      le_buffer_pool := (le_buffer_pool s)[i := rx_add_rssi (ucast (drop_bit 8 r)) (le_buffer_pool s ! i)]\<rparr>"
  have n: "length p \<le> 260" using len unat_u8 [of "p ! 1"] by simp
  obtain v where v: "rx_put w = Inr (m + 1, v)" "in_time v = ts"
      and g': "got s0 p i (m + 1) (v\<lparr>le_buffer_pool := (le_buffer_pool v)[i := (le_buffer_pool v ! i)\<lparr>rx_channel := rf_channel s0, rx_size := length p\<rparr>]\<rparr>)"
      and c: "1 \<le> m \<longrightarrow> rx_channel (le_buffer_pool v ! i) = rf_channel s0" "2 \<le> m \<longrightarrow> rx_size (le_buffer_pool v ! i) = length p"
        "rx_data (le_buffer_pool v ! i) ! m = x"
    by (rule got_put [OF g m n x w_def])
  have h: "current_rxbuf v = Some i" "i < length (le_buffer_pool v)" "rf_channel v = rf_channel s0" "length (rx_data (le_buffer_pool v ! i)) = 260"
    using g' by (auto simp: got_def Let_def)
  have start: "le_DMA_IRQHandler True True (inputs (t # ts) vs [r] (dma_byte x s)) = dma_tail t w"
    unfolding w_def using g by (intro handler_tail) (simp_all add: got_def Let_def)
  have "\<exists>u. (if m = 0 then rx_first t v else if m = 1 then rx_length v else Inr v) = Inr u \<and> got s0 p i (m + 1) u \<and> in_time u = ts \<and>
    (2 \<le> m + 1 \<longrightarrow> rx_size (le_buffer_pool u ! i) = length p)"
  proof (cases "m = 0")
    case True
    then show ?thesis using h g' v(2) by (simp add: rx_first_def upd_rxbuf_def got_def timer1_clear_match_def Let_def)
  next
    case False
    show ?thesis
    proof (cases "m = 1")
      case True
      have "dewhiten_length (rx_channel (le_buffer_pool v ! i)) (rx_data (le_buffer_pool v ! i) ! 1) = Inr (p ! 1)"
        using c(1,3) True x dewhiten_length_air by simp
      then show ?thesis using True h g' v(2) c(1) len by (simp add: rx_length_def get_rx_def upd_rxbuf_def got_def Let_def)
    next
      case False
      then show ?thesis using \<open>m \<noteq> 0\<close> h g' v(2) c by (simp add: got_def Let_def)
    qed
  qed
  then obtain u where u: "(if m = 0 then rx_first t v else if m = 1 then rx_length v else Inr v) = Inr u" "got s0 p i (m + 1) u" "in_time u = ts"
      "2 \<le> m + 1 \<longrightarrow> rx_size (le_buffer_pool u ! i) = length p" by blast
  have "current_rxbuf u = Some i" "i < length (le_buffer_pool u)" using u(2) by (simp_all add: got_def Let_def)
  from dma_tail_eq [OF v(1) h(1,2) u(1) this] show ?thesis using that [OF u(2,3)] start u(4) by auto
qed

text \<open>All bytes but the last leave the handler waiting for more.\<close>

lemma got_feed:
  assumes "got s0 p i m s" and "m + length bs < length p" and "5 \<le> length p" and "length p = unat (p ! 1) + 5"
    and "\<forall>k < length bs. \<exists>t ts r. bs ! k = (le_air_byte (unat (btle_channel_index (rf_channel s0))) (m + k) (p ! (m + k)), t # ts, r)"
  shows "\<exists>u. feed bs s = Inr u \<and> got s0 p i (m + length bs) u"
  using assms
proof (induction bs arbitrary: m s)
  case (Cons b bs)
  obtain t ts r where b: "b = (le_air_byte (unat (btle_channel_index (rf_channel s0))) m (p ! m), t # ts, r)" using Cons.prems(5) by fastforce
  have m: "m < length p" using Cons.prems(2) by simp
  obtain u where u: "got s0 p i (m + 1) u" and e: "le_DMA_IRQHandler True True
      (inputs (t # ts) [] [r] (dma_byte (le_air_byte (unat (btle_channel_index (rf_channel s0))) m (p ! m)) s)) =
      (if 2 < m + 1 \<and> length p \<le> m + 1 then rx_finished u else Inr u)"
    by (rule got_byte [OF Cons.prems(1) m Cons.prems(4) refl])
  have "\<forall>k < length bs. \<exists>t ts r. bs ! k = (le_air_byte (unat (btle_channel_index (rf_channel s0))) (m + 1 + k) (p ! (m + 1 + k)), t # ts, r)"
    using Cons.prems(5) by (auto dest: spec [of _ "Suc _"])
  from Cons.IH [OF u _ Cons.prems(3,4) this] show ?case using e b Cons.prems(2) by simp
qed simp

lemma rx_next_ok:
  assumes "in_time s \<noteq> []"
  shows "\<exists>s'. rx_next s = Inr s' \<and> packet_queue s' = packet_queue s \<and>
    (\<forall>i. \<not> rx_available (le_buffer_pool s ! i) \<longrightarrow> le_buffer_pool s' ! i = le_buffer_pool s ! i)"
proof -
  obtain t ts where t: "in_time s = t # ts" using assms by (cases "in_time s") auto
  show ?thesis
  proof (cases "first_available 0 (le_buffer_pool s)")
    case None
    then show ?thesis using t by (simp add: rx_next_def buffer_get_def timer1_wait_buffer_def NOW_def)
  next
    case (Some j)
    then have "j < length (le_buffer_pool s)" "rx_available (le_buffer_pool s ! j)" using first_available_Some by fastforce+
    then show ?thesis using Some t
      by (auto simp: rx_next_def buffer_get_def upd_rxbuf_def buffer_clear_def timer1_wait_fs_lock_def NOW_def nth_list_update Let_def)
  qed
qed

lemma rx_finished_ok:
  assumes "current_rxbuf s = Some i" and "i < length (le_buffer_pool s)" and "\<not> rx_available (le_buffer_pool s ! i)"
    and "queue_insert (packet_queue s) i = Inr (1, q)" and "2 \<le> length (in_time s)"
    and "37 \<le> btle_channel_index (rf_channel s) \<or> num_packets (conn_event s) = 0"
  shows "\<exists>s'. rx_finished s = Inr s' \<and> packet_queue s' = q \<and> le_buffer_pool s' ! i = le_buffer_pool s ! i"
proof -
  obtain t1 t2 ts where t: "in_time s = t1 # t2 # ts" using assms(5) by (cases "in_time s"; cases "tl (in_time s)") auto
  let ?s = "((dio_ssp_stop (strobe_SFSON s))\<lparr>dma_irq := False\<rparr>)\<lparr>packet_queue := q\<rparr>"
  have s: "le_buffer_pool ?s = le_buffer_pool s" "in_time ?s = t1 # t2 # ts" "packet_queue ?s = q" "rf_channel ?s = rf_channel s" "conn_event ?s = conn_event s"
    by (simp_all add: dio_ssp_stop_def strobe_SFSON_def t)
  show ?thesis
  proof (cases "btle_channel_index (rf_channel s) < 37")
    case False
    then have "rx_finished s = rx_next ?s" using assms(1,4) by (simp add: rx_finished_def dio_ssp_stop_def strobe_SFSON_def Let_def)
    then show ?thesis using rx_next_ok [of ?s] s assms(3) by auto
  next
    case True
    then have "num_packets (conn_event s) = 0" using assms(6) by (auto simp: not_le)
    then obtain u where "rx_finished s = rx_next u" and u: "le_buffer_pool u = le_buffer_pool s" "in_time u = t2 # ts" "packet_queue u = q"
      using assms(1,2,4) True t by (simp add: rx_finished_def dio_ssp_stop_def strobe_SFSON_def get_rx_def NOW_def timer1_set_match_def)
    then show ?thesis using rx_next_ok [of u] assms(3) by auto
  qed
qed

text \<open>All bytes of a packet: the last one ends the reception.\<close>

lemma got_packet:
  assumes "got s p i 0 s" and "length p = unat (p ! 1) + 5"
    and "map fst bs = le_air (unat (btle_channel_index (rf_channel s))) p" and "\<forall>(x, ts, r) \<in> set bs. 3 \<le> length ts"
  obtains v where "feed bs s = rx_finished v" and "got s p i (length p) v" and "2 \<le> length (in_time v)"
proof -
  let ?air = "le_air (unat (btle_channel_index (rf_channel s))) p"
  have n: "length bs = length p" using arg_cong [OF assms(3), of length] by simp
  have byte: "\<exists>t1 t2 t3 ts r. bs ! k = (le_air_byte (unat (btle_channel_index (rf_channel s))) k (p ! k), t1 # t2 # t3 # ts, r)" if k: "k < length p" for k
  proof -
    obtain x ts r where b: "bs ! k = (x, ts, r)" by (metis prod_cases3)
    have "bs ! k \<in> set bs" using k n by simp
    then have "3 \<le> length ts" using assms(4) b by auto
    then obtain t1 t2 t3 ts' where "ts = t1 # t2 # t3 # ts'" by (cases ts; cases "tl ts"; cases "tl (tl ts)") auto
    moreover have "x = ?air ! k" using arg_cong [OF assms(3), of "\<lambda>l. l ! k"] b k n by simp
    ultimately show ?thesis using b k by auto
  qed
  obtain bs' b where bs: "bs = bs' @ [b]" using n assms(2) by (cases bs rule: rev_cases) auto
  then have n': "length p = length bs' + 1" using n by simp
  have "\<exists>t ts r. bs' ! k = (le_air_byte (unat (btle_channel_index (rf_channel s))) (0 + k) (p ! (0 + k)), t # ts, r)" if "k < length bs'" for k
    using byte [of k] that n' bs by (auto simp: nth_append)
  then obtain u where u: "feed bs' s = Inr u" "got s p i (length bs') u"
    using got_feed [OF assms(1), of bs'] n' assms(2) by auto
  obtain t1 t2 t3 ts rr where b: "b = (le_air_byte (unat (btle_channel_index (rf_channel s))) (length bs') (p ! length bs'), t1 # t2 # t3 # ts, rr)"
    using byte [of "length bs'"] n' bs by auto
  have m: "length bs' < length p" using n' by simp
  obtain v where v: "got s p i (length bs' + 1) v" "in_time v = t2 # t3 # ts" and e: "le_DMA_IRQHandler True True
      (inputs (t1 # t2 # t3 # ts) [] [rr] (dma_byte (le_air_byte (unat (btle_channel_index (rf_channel s))) (length bs') (p ! length bs')) u)) =
      (if 2 < length bs' + 1 \<and> length p \<le> length bs' + 1 then rx_finished v else Inr v)"
    by (rule got_byte [OF u(2) m assms(2) refl])
  have feed: "feed (bs' @ [b]) s = rx_finished v"
  proof -
    have "feed (xs @ [b]) w = bnd (feed xs w) (feed [b])" for xs w by (induction xs arbitrary: w) (auto simp: bnd_assoc intro: bnd_cong)
    then show ?thesis using u(1) e b n' assms(2) by (simp add: bnd_def split: sum.split)
  qed
  show ?thesis using that [of v] feed bs v n' by simp
qed

text \<open>
  C9 (roundtrip).  A packet sent on the air arrives: fed byte by byte, whitened and in the order of the bits on the air, on an advertising
  channel or as the first packet of a connection event, it is put at the end of the queue, with its channel and its length,
  and the main loop's dewhitening gives the bytes that were sent.
\<close>

theorem packet_received:
  assumes "le_reach (pc, s)" and "current_rxbuf s = Some i" and "rx_pos (le_buffer_pool s ! i) = 0" and "dma_next s = 0"
    and "length p = unat (p ! 1) + 5"
    and "37 \<le> btle_channel_index (rf_channel s) \<or> num_packets (conn_event s) = 0"
    and "map fst bs = le_air (unat (btle_channel_index (rf_channel s))) p" and "\<forall>(x, ts, r) \<in> set bs. 3 \<le> length ts"
  shows "\<exists>s' b d. feed bs s = Inr s' \<and> q_list (packet_queue s') = q_list (packet_queue s) @ [i] \<and> le_buffer_pool s' ! i = b \<and>
    rx_channel b = rf_channel s \<and> rx_size b = length p \<and> le_dewhiten (rx_data b) (rx_size b) (rx_channel b) = Inr (p @ d)"
proof -
  have inv: "phy_inv s" using le_reach_inv [OF assms(1)] by simp
  note r = phy_inv_receiving [OF inv assms(2)]
  have l: "length (le_buffer_pool s) = 4" "length (le_dma_dest s) = 2" using phy_inv_base [OF inv] by (simp_all add: base_inv_def)
  have g0: "got s p i 0 s" using r l assms(2-4) by (simp add: got_def rx_ok_def Let_def)
  obtain v where feed: "feed bs s = rx_finished v" and v: "got s p i (length p) v" and t: "2 \<le> length (in_time v)"
    by (rule got_packet [OF g0 assms(5,7,8)])
  let ?b = "le_buffer_pool v ! i"
  have "5 \<le> length p" using assms(5) by linarith
  then have w: "current_rxbuf v = Some i" "i < length (le_buffer_pool v)" "\<not> rx_available ?b" "packet_queue v = packet_queue s"
    "rf_channel v = rf_channel s" "conn_event v = conn_event s" "length (rx_data ?b) = 260"
    "take (length p) (rx_data ?b) = le_air (unat (btle_channel_index (rf_channel s))) p" "rx_channel ?b = rf_channel s" "rx_size ?b = length p"
    using v by (auto simp: got_def Let_def)
  have q: "q_inv (packet_queue s)" using phy_inv_base [OF inv] by (simp add: base_inv_def)
  have a: "apart i s" using inv assms(2) by (simp add: phy_inv_def)
  have "length (q_list (packet_queue s)) < 9" using waiting_few [OF phy_inv_base [OF inv] a] by (simp add: waiting_def)
  then obtain q' where q': "q_put (packet_queue s) i = Some q'" "q_list q' = q_list (packet_queue s) @ [i]" using rq.put_ok [OF q] by blast
  have ins: "queue_insert (packet_queue v) i = Inr (1, q')" using q'(1) w(4) by (auto simp: q_put_def split: sum.splits prod.splits if_splits)
  have ch: "37 \<le> btle_channel_index (rf_channel v) \<or> num_packets (conn_event v) = 0" using assms(6) w(5,6) by simp
  obtain s' where "rx_finished v = Inr s'" "packet_queue s' = q'" "le_buffer_pool s' ! i = ?b"
    using rx_finished_ok [OF w(1-3) ins t ch] by blast
  moreover have "le_dewhiten (rx_data ?b) (length p) (rf_channel s) = Inr (p @ drop (length p) (rx_data ?b))"
    using w(7,8) unat_u8 [of "p ! 1"] assms(5) by (intro dewhiten_air) simp_all
  ultimately show ?thesis using feed q'(2) w(9,10) by auto
qed

text \<open>An empty advertising packet, received after the start.\<close>

theorem packet_received_witness:
  "\<exists>s s' bs d. le_reach (At_take, s) \<and> map fst bs = le_air 37 [0, 0, 1, 2, 3] \<and> feed bs s = Inr s' \<and>
    le_dewhiten (rx_data (le_buffer_pool s' ! 0)) 5 2402 = Inr ([0, 0, 1, 2, 3] @ d)"
proof -
  obtain s where s: "le_reach (At_take, s)" "current_rxbuf s = Some 0" "rf_channel s = 2402" "le_buffer_pool s ! 0 = rx_clear (rx_boot (replicate 260 0))"
      "dma_next s = 0" by (rule boot_reach [of "replicate 260 0"]) simp
  let ?p = "[0, 0, 1, 2, 3] :: u8 list"
  let ?bs = "map (\<lambda>x. (x, [1, 2, 3] :: u32 list, 0 :: u16)) (le_air 37 ?p)"
  have i: "btle_channel_index (rf_channel s) = 37" by (simp add: s(3) btle_channel_index_def)
  have m: "map fst ?bs = le_air (unat (btle_channel_index (rf_channel s))) ?p" by (simp add: i comp_def)
  have c: "37 \<le> btle_channel_index (rf_channel s) \<or> num_packets (conn_event s) = 0" by (simp add: i)
  have t: "\<forall>(x, ts, r) \<in> set ?bs. 3 \<le> length ts" by auto
  have z: "rx_pos (le_buffer_pool s ! 0) = 0" by (simp add: s(4) rx_clear_def)
  have l: "length ?p = unat (?p ! 1) + 5" by simp
  from packet_received [OF s(1,2) z s(5) l c m t] obtain s' b d where "feed ?bs s = Inr s'" "le_buffer_pool s' ! 0 = b" "rx_channel b = rf_channel s"
    "rx_size b = length ?p" "le_dewhiten (rx_data b) (rx_size b) (rx_channel b) = Inr (?p @ d)" by blast
  then show ?thesis using s(1,3) m i by (intro exI [of _ s] exI [of _ s'] exI [of _ ?bs] exI [of _ d]) simp
qed

section \<open>The second packet of an event without a free buffer\<close>

text \<open>
  When the second packet of a connection event is complete and no buffer is free, the handler goes on with a null pointer and,
  unlike after any other packet, arms no wait for a buffer: the next hop interrupt clears the buffer behind the null pointer.
\<close>

theorem second_packet_without_buffer:
  assumes "current_rxbuf s = Some cur" and "btle_channel_index (rf_channel s) < 37" and "num_packets (conn_event s) = 1"
    and "first_available 0 (le_buffer_pool s) = None" and "rx_finished s = Inr s'"
  shows "current_rxbuf s' = None \<and> mri s' 3 = mri s 3 \<and>
    (\<not> (conn_update_pending (conn s') \<and> conn_event_counter (conn s') = conn_update_instant (conn s')) \<longrightarrow>
      le_TIMER1_IRQHandler True ir1 ir2 ir3 (inputs (t # ts) vs rs s') = Inl Oob)"
proof -
  have null: "change_channel u = Inl Oob" if "current_rxbuf u = None" for u
    using that by (simp add: change_channel_def buffer_clear_def upd_rxbuf_def dio_ssp_stop_def strobe_SRFOFF_def Let_def)
  define P where "P = (\<lambda>u :: le_phy. current_rxbuf u = None \<and> mri u 3 = mri s 3)"
  obtain u where u: "finish_conn_event u = Inr s'" "P u"
    using assms by (auto simp: rx_finished_def buffer_get_def bnd_Inr_iff P_def strobe_SRFOFF_def dio_ssp_stop_def strobe_SFSON_def Let_def)
  have a: "post (update_anchor u) P" using u(2) by (auto simp: update_anchor_def P_def intro!: wp_NOW split: option.split)
  have b: "post (update_packet_ts v) P" if "P v" for v using that by (auto simp: update_packet_ts_def P_def intro!: wp_NOW)
  have c: "post (next_event v) (\<lambda>w. P w \<and> opened (conn_event w) = opened (conn_event v))" if "P v" for v
    using that null by (auto simp: next_event_def P_def reset_conn_def timer1_set_match_def intro!: wp_NOW)
  have d: "post (next_event (upd_conn f (reset_conn_event v))) (\<lambda>w. P w \<and> \<not> opened (conn_event w))" if "P v" for v f
  proof (rule post_mono [OF c])
    show "P (upd_conn f (reset_conn_event v))" using that by (simp add: P_def reset_conn_event_def)
  qed (simp add: reset_conn_event_def)
  have "post (finish_conn_event u) (\<lambda>w. P w \<and> \<not> opened (conn_event w))"
    unfolding finish_conn_event_def post_simps
  proof (rule post_mono [OF a])
    fix v assume v: "P v"
    show "post (update_packet_ts v) (\<lambda>s. post (next_event (upd_conn (\<lambda>c. c\<lparr>conn_event_counter := conn_event_counter c + 1\<rparr>) (reset_conn_event s)))
      (\<lambda>w. P w \<and> \<not> opened (conn_event w)))" by (rule post_mono [OF b [OF v] d])
  qed
  then have "P s' \<and> \<not> opened (conn_event s')" using u(1) by (rule post_Inr)
  then have s': "P s'" "\<not> opened (conn_event s')" by simp_all
  have "le_TIMER1_IRQHandler True ir1 ir2 ir3 (inputs (t # ts) vs rs s') = Inl Oob"
    if n: "\<not> (conn_update_pending (conn s') \<and> conn_event_counter (conn s') = conn_update_instant (conn s'))"
  proof -
    define w where "w = t1_map_update (inputs (t # ts) vs rs s')"
    have w: "current_rxbuf w = None" "in_time w = t # ts" "\<not> opened (conn_event w)"
      using s' by (simp_all add: w_def t1_map_update_def inputs_def P_def)
    have "t1_event w = change_channel (timer1_set_match (t + USEC 2120 + RX_WARMUP_TIME) (w\<lparr>conn_event := (conn_event w)\<lparr>opened := True\<rparr>, in_time := ts\<rparr>))"
      using w by (simp add: t1_event_def NOW_def)
    also have "\<dots> = Inl Oob" by (rule null) (simp add: timer1_set_match_def w)
    finally have e: "t1_event w = Inl Oob" .
    let ?v = "inputs (t # ts) vs rs s'"
    have "\<not> (conn_update_pending (conn ?v) \<and> conn_event_counter (conn ?v) = conn_update_instant (conn ?v))" using n by (simp add: inputs_def)
    then show ?thesis using e by (simp only: le_TIMER1_IRQHandler_def if_True if_False w_def [symmetric] bnd_simps)
  qed
  then show ?thesis using s'(1) by (simp add: P_def)
qed

text \<open>All buffers in use and one packet of the event received.\<close>

definition no_buffer :: le_phy where
  "no_buffer = (le_followed [])\<lparr>rf_channel := 2404, conn_event := \<lparr>ev_anchor = 500, num_packets = 1, opened = True\<rparr>, in_time := [900, 910]\<rparr>"

theorem second_packet_without_buffer_witness:
  "\<exists>s'. rx_finished no_buffer = Inr s' \<and> current_rxbuf s' = None \<and> \<not> mri s' 3 \<and>
    le_TIMER1_IRQHandler True False False False (inputs [72000] [] [] s') = Inl Oob"
proof -
  have h: "current_rxbuf no_buffer = Some 0" "btle_channel_index (rf_channel no_buffer) < 37" "num_packets (conn_event no_buffer) = 1"
    "first_available 0 (le_buffer_pool no_buffer) = None" "\<not> mri no_buffer 3"
    by (simp_all add: no_buffer_def le_followed_def le_boot_def rx_boot_def btle_channel_index_def)
  obtain s' where s': "rx_finished no_buffer = Inr s'" "\<not> conn_update_pending (conn s')"
    by (simp add: rx_finished_def no_buffer_def le_followed_def le_boot_def rx_boot_def conn_zero_def strobe_SFSON_def dio_ssp_stop_def queue_insert_def
        btle_channel_index_def buffer_get_def strobe_SRFOFF_def finish_conn_event_def update_anchor_def observed_anchor_def update_packet_ts_def
        next_event_def reset_conn_event_def NOW_def timer1_set_match_def Let_def)
  from second_packet_without_buffer [OF h(1-4) s'(1), of False False False 72000 "[]" "[]" "[]"] show ?thesis using s' h(5) by auto
qed

section \<open>Connection requests\<close>

lemma hop_increment_range: "connect_fields b c0 = Inr c \<Longrightarrow> hop_increment c < 32"
proof -
  assume "connect_fields b c0 = Inr c"
  then obtain hi where h: "hop_increment c = ucast (hi AND 0x1f :: u32)" by (auto simp: connect_fields_def bnd_Inr_iff)
  have m: "(0x1f :: u32) = mask 5" by (simp add: mask_eq_exp_minus_1)
  have "(ucast (hi AND 0x1f :: u32) :: u8) = take_bit 5 (ucast hi)"
    unfolding m by (rule bit_word_eqI) (auto simp: bit_simps)
  then show ?thesis using h by (simp add: word_less_nat_alt take_bit_eq_mod unat_mod)
qed

lemma interval_range: "6 \<le> i \<Longrightarrow> i \<le> 3200 \<Longrightarrow> 75000 \<le> i * 12500 \<and> i * 12500 \<le> 40000000" for i :: u32
proof -
  assume a: "6 \<le> i" "i \<le> 3200"
  then have "unat (i * 12500) = unat i * 12500" by (simp add: word_le_nat_alt unat_word_ariths)
  then show ?thesis using a by (simp add: word_le_nat_alt)
qed

text \<open>
  Whatever a CONNECT_REQ says, the sniffer ignores it, goes back to advertising, or follows a connection whose parameters are in
  the range of the specification: interval 7.5 ms to 4 s, window offset within the interval, supervision timeout 100 ms to
  32 s, increment below 32 and at least one used channel; the wake up is set to the start of the transmit window.
\<close>

theorem connect_in_range:
  assumes "le_connect_handler buf s = Inr s'"
  shows "conn s' = conn s \<or> conn s' = conn_zero\<lparr>access_address := ADVERTISING_AA\<rparr> \<or>
    (let c = conn s' in 75000 \<le> conn_interval c \<and> conn_interval c \<le> 40000000 \<and> win_offset c \<le> conn_interval c \<and>
      1000000 \<le> supervision_timeout c \<and> supervision_timeout c \<le> 320000000 \<and> hop_increment c < 32 \<and>
      1 \<le> total_channels (remapping c) \<and> total_channels (remapping c) \<le> 37 \<and>
      t1mr s' 0 = rx_timestamp buf + USEC (40 + 39 * 8) + win_offset c + USEC 1250 - RX_WARMUP_TIME)"
proof (cases "do_follow s \<and> rx_size buf = 39")
  case False
  then have "s' = s" using assms by (auto simp: le_connect_handler_def split: if_splits)
  then show ?thesis by simp
next
  case True
  let ?s = "s\<lparr>cancel_follow := False\<rparr>"
  obtain c where c: "connect_fields buf (conn s) = Inr c"
    and r: "(case connect_checked c of None \<Rightarrow> Inr (reset_conn ?s)
        | Some c \<Rightarrow> bnd (le_parse_channel_map (drop 30 (rx_data buf))) (\<lambda>m. if total_channels m = 0 then Inr (reset_conn ?s)
            else Inr (timer1_set_match (rx_timestamp buf + PACKET_DURATION buf + win_offset c + USEC 1250 - RX_WARMUP_TIME)
              (reset_conn_event (timer1_cancel_fs_lock (?s\<lparr>conn := c\<lparr>remapping := m\<rparr>\<rparr>)))))) = Inr s'"
    using assms True unfolding le_connect_handler_def Let_def by (auto simp: bnd_Inr_iff)
  show ?thesis
  proof (cases "connect_checked c")
    case None
    then show ?thesis using r by (auto simp: reset_conn_def)
  next
    case (Some d)
    obtain m where m: "le_parse_channel_map (drop 30 (rx_data buf)) = Inr m"
      and r': "(if total_channels m = 0 then Inr (reset_conn ?s) :: le_phy res
            else Inr (timer1_set_match (rx_timestamp buf + PACKET_DURATION buf + win_offset d + USEC 1250 - RX_WARMUP_TIME)
              (reset_conn_event (timer1_cancel_fs_lock (?s\<lparr>conn := d\<lparr>remapping := m\<rparr>\<rparr>))))) = Inr s'"
      using r unfolding Some option.case by (rule bnd_InrE)
    show ?thesis
    proof (cases "total_channels m = 0")
      case True
      then show ?thesis using r' by (auto simp: reset_conn_def)
    next
      case False
      have "35 < length (rx_data buf)" using c by (auto simp: connect_fields_def bnd_Inr_iff extract_field_def rd_Inr_iff)
      then have "remap_wf m" using m parse_channel_map [of "drop 30 (rx_data buf)"] remap_upto_wf by auto
      then have t: "1 \<le> total_channels m" "total_channels m \<le> 37" using False by (simp_all add: remap_wf_def)
      have i: "conn_interval d = conn_interval c * 12500" "6 \<le> conn_interval c" "conn_interval c \<le> 3200" "win_offset d \<le> conn_interval d"
          "1000000 \<le> supervision_timeout d" "supervision_timeout d \<le> 320000000" "hop_increment d = hop_increment c"
        using Some by (auto simp: connect_checked_def Let_def not_less split: if_splits)
      have s': "s' = timer1_set_match (rx_timestamp buf + PACKET_DURATION buf + win_offset d + USEC 1250 - RX_WARMUP_TIME)
              (reset_conn_event (timer1_cancel_fs_lock (?s\<lparr>conn := d\<lparr>remapping := m\<rparr>\<rparr>)))" using r' False by simp
      show ?thesis using i interval_range [OF i(2,3)] hop_increment_range [OF c] t \<open>do_follow s \<and> rx_size buf = 39\<close>
        by (simp add: s' timer1_set_match_def reset_conn_event_def timer1_cancel_fs_lock_def Let_def)
    qed
  qed
qed

definition connect_pkt :: le_rx where
  "connect_pkt = (rx_boot ([5, 34, 1, 2, 3, 4, 5, 6, 7, 8, 9, 10, 11, 12, 0x78, 0x56, 0x34, 0x12, 1, 2, 3, 2, 1, 0, 24, 0, 0, 0, 100, 0] @
     [0xff, 0xff, 0xff, 0xff, 0x1f, 7, 0, 0, 0]))\<lparr>rx_size := 39\<rparr>"

lemma connect_pkt_ok: "\<exists>s'. le_connect_handler connect_pkt s = Inr s'"
proof (cases "do_follow s")
  case True
  have "\<exists>c. connect_fields connect_pkt (conn s) = Inr c"
    by (simp add: connect_fields_def extract_field_def connect_pkt_def rx_boot_def loop_numeral)
  then obtain c where c: "connect_fields connect_pkt (conn s) = Inr c" ..
  have "\<exists>m. le_parse_channel_map (drop 30 (rx_data connect_pkt)) = Inr m" by (simp add: connect_pkt_def rx_boot_def parse_channel_map)
  then obtain m where m: "le_parse_channel_map (drop 30 (rx_data connect_pkt)) = Inr m" ..
  have "rx_size connect_pkt = 39" by (simp add: connect_pkt_def)
  then show ?thesis using c m by (simp add: le_connect_handler_def Let_def split: option.split)
qed (simp add: le_connect_handler_def)

theorem connect_in_range_witness:
  "\<exists>s'. le_connect_handler connect_pkt (le_boot []) = Inr s' \<and> (conn s' = conn (le_boot []) \<or>
    conn s' = conn_zero\<lparr>access_address := ADVERTISING_AA\<rparr> \<or> hop_increment (conn s') < 32)"
proof -
  obtain s' where s': "le_connect_handler connect_pkt (le_boot []) = Inr s'" using connect_pkt_ok by blast
  then show ?thesis using connect_in_range [OF s'] by (auto simp: Let_def)
qed

text \<open>The products with the units are not checked for overflow: a supervision timeout of 429.6 s, out of range, is taken for one of 103 ms.\<close>

lemma connect_timeout_wraps:
  "map_option supervision_timeout (connect_checked (conn_zero\<lparr>conn_interval := 24, win_size := 1, supervision_timeout := 42960\<rparr>)) = Some 1032704"
  by (simp add: connect_checked_def conn_zero_def)

end
