(* ===== verification/Rssi.thy ===== *)
theory Rssi
  imports Prelude "HOL-Library.Signed_Division"
begin

text \<open>
  Signal strength and carrier sense: firmware/bluetooth_rxtx/ubertooth_rssi.c and ubertooth_cs.c.  The types \<open>int8_t\<close> and
  \<open>int16_t\<close> are words read with \<open>sint\<close>; the \<open>int\<close> arithmetic in between is on integers, with the division of C.
\<close>

section \<open>Signal strength\<close>

abbreviation RSSI_IIR_ALPHA :: int where "RSSI_IIR_ALPHA \<equiv> 3"

record rssi_st =
  rssi_max :: u8
  rssi_min :: u8
  rssi_count :: u8
  rssi_sum :: u32
  rssi_iir :: "u16 list"

definition rssi_reset :: "rssi_st \<Rightarrow> rssi_st" where
  "rssi_reset r = r\<lparr>rssi_iir := replicate 79 0, rssi_count := 0, rssi_sum := 0, rssi_max := 0x80, rssi_min := 0x7f\<rparr>"

definition rssi_add :: "u8 \<Rightarrow> rssi_st \<Rightarrow> rssi_st" where
  "rssi_add v r =
     r\<lparr>rssi_max := (if sint v > sint (rssi_max r) then v else rssi_max r),
       rssi_min := (if sint v < sint (rssi_min r) then v else rssi_min r),
       rssi_sum := rssi_sum r + word_of_int (sint v * 256),
       rssi_count := rssi_count r + 1\<rparr>"

definition rssi_slot :: "u16 \<Rightarrow> nat" where
  "rssi_slot channel = (let channel = (if channel < 2402 \<or> channel < 2480 then 2402 else channel) in unat channel - 2402)"

definition rssi_filter :: "u16 \<Rightarrow> rssi_st \<Rightarrow> rssi_st res" where
  "rssi_filter channel r =
     (let i = rssi_slot channel;
          avg = (if rssi_count r \<noteq> 0 then (sint (rssi_sum r) + 128) sdiv uint (rssi_count r) else 0) in
      bnd (rd (rssi_iir r) i) (\<lambda>v.
      let acc = sint v * (256 - RSSI_IIR_ALPHA) + avg * RSSI_IIR_ALPHA in
      bnd (wr (rssi_iir r) i (word_of_int ((acc + 128) sdiv 256))) (\<lambda>iir. Inr (r\<lparr>rssi_iir := iir\<rparr>))))"

definition rssi_get_avg :: "u16 \<Rightarrow> rssi_st \<Rightarrow> u8 res" where
  "rssi_get_avg channel r = bnd (rd (rssi_iir r) (rssi_slot channel)) (\<lambda>v. Inr (word_of_int ((sint v + 128) sdiv 256)))"

section \<open>Carrier sense\<close>

abbreviation CS_SAMPLES_4 :: u8 where "CS_SAMPLES_4 \<equiv> 3"
abbreviation CS_THRESHOLD_DEFAULT :: u8 where "CS_THRESHOLD_DEFAULT \<equiv> 0x88"

text \<open>\<open>rssi_reg\<close> is what the radio's register \<open>RSSI\<close> was last set to, \<open>cs_int\<close> whether the carrier sense interrupt is enabled.\<close>

record cs_st =
  cs_no_squelch :: bool
  cs_threshold_req :: u8
  cs_threshold_cur :: u8
  cs_trigger :: bool
  cs_int :: bool
  rssi_reg :: u16

definition cs_threshold_set :: "u8 \<Rightarrow> u8 \<Rightarrow> cs_st \<Rightarrow> cs_st" where
  "cs_threshold_set level samples c =
     (let level = (if sint level < - 120 then word_of_int (- 120) else level);
          level = (if sint level > - 20 then word_of_int (- 20) else level)
      in c\<lparr>rssi_reg := ucast (word_of_int (sint level + 56) AND push_bit 2 0x3f :: u8) OR (ucast samples AND 3),
           cs_threshold_cur := level, cs_no_squelch := (sint level \<le> - 120)\<rparr>)"

definition cs_threshold_calc_and_set :: "u16 \<Rightarrow> rssi_st \<Rightarrow> cs_st \<Rightarrow> cs_st res" where
  "cs_threshold_calc_and_set channel r c =
     bnd (if sint (cs_threshold_req c) > 0
          then bnd (rssi_get_avg channel r) (\<lambda>rssi. Inr (word_of_int (sint rssi - 54 + sint (cs_threshold_req c))))
          else Inr (cs_threshold_req c)) (\<lambda>level.
     Inr (cs_threshold_set level CS_SAMPLES_4 c))"

definition cs_trigger_enable :: "cs_st \<Rightarrow> cs_st" where
  "cs_trigger_enable c = c\<lparr>cs_trigger := False, cs_int := True\<rparr>"

definition cs_trigger_disable :: "cs_st \<Rightarrow> cs_st" where
  "cs_trigger_disable c = c\<lparr>cs_int := False, cs_trigger := False\<rparr>"

definition cs_reset :: "cs_st \<Rightarrow> cs_st" where
  "cs_reset c = (cs_trigger_disable c)\<lparr>cs_no_squelch := False, cs_threshold_req := CS_THRESHOLD_DEFAULT,
     cs_threshold_cur := CS_THRESHOLD_DEFAULT\<rparr>"

section \<open>Ranges\<close>

lemma sint8: "sint (v :: u8) \<ge> - 128" "sint (v :: u8) \<le> 127"
  using sint_ge [of v] sint_lt [of v] by simp_all

lemma sint_of8: "- 128 \<le> x \<Longrightarrow> x \<le> 127 \<Longrightarrow> sint (word_of_int x :: u8) = x"
  by (simp add: signed_of_int signed_take_bit_int_eq_self)

lemma sint_of16: "- 32768 \<le> x \<Longrightarrow> x \<le> 32767 \<Longrightarrow> sint (word_of_int x :: u16) = x"
  by (simp add: signed_of_int signed_take_bit_int_eq_self)

lemma sint_of32: "- 2147483648 \<le> x \<Longrightarrow> x \<le> 2147483647 \<Longrightarrow> sint (word_of_int x :: u32) = x"
  by (simp add: signed_of_int signed_take_bit_int_eq_self)

lemma div_upper: "(0 :: int) < d \<Longrightarrow> x < (h + 1) * d \<Longrightarrow> x div d \<le> h"
proof -
  assume d: "0 < d" and x: "x < (h + 1) * d"
  have "x div d * d \<le> x" using d by (metis minus_mod_eq_div_mult diff_le_self pos_mod_sign add_le_same_cancel1 diff_le_eq le_add_same_cancel1)
  then have "x div d * d < (h + 1) * d" using x by linarith
  then have "x div d < h + 1" using d by (simp add: mult_less_cancel_right)
  then show ?thesis by simp
qed

lemma sdiv_bounds:
  fixes x :: int
  assumes "l * d \<le> x" and "x < (h + 1) * d" and "0 < d" and "l \<le> 0" and "0 \<le> h"
  shows "l \<le> x sdiv d" "x sdiv d \<le> h"
proof -
  have d: "x sdiv d = (if 0 \<le> x then x div d else - ((- x) div d))" using assms(3) by (auto simp: signed_divide_int_def sgn_if)
  show "l \<le> x sdiv d"
  proof (cases "0 \<le> x")
    case True
    then have "0 \<le> x div d" using assms(3) by (simp add: pos_imp_zdiv_nonneg_iff)
    then show ?thesis using True d assms(4) by simp
  next
    case False
    have "- x < (- l + 1) * d" using assms(1,3) by (simp add: algebra_simps)
    then have "- x div d \<le> - l" by (rule div_upper [OF assms(3)])
    then show ?thesis using d False by simp
  qed
  show "x sdiv d \<le> h"
  proof (cases "0 \<le> x")
    case True
    then show ?thesis using div_upper [OF assms(3,2)] d by simp
  next
    case False
    then have "0 \<le> - x div d" using assms(3) by (simp add: pos_imp_zdiv_nonneg_iff)
    then show ?thesis using False d assms(5) by simp
  qed
qed

text \<open>
  What the statistics of at most 255 samples are: the sum of the samples times 256, and the filtered values of the slots in a
  range that their average, times 256 and rounded, cannot leave.
\<close>

definition rssi_ok :: "int list \<Rightarrow> rssi_st \<Rightarrow> bool" where
  "rssi_ok vs r \<longleftrightarrow> length vs < 256 \<and> (\<forall>v \<in> set vs. - 128 \<le> v \<and> v \<le> 127) \<and>
     unat (rssi_count r) = length vs \<and> sint (rssi_sum r) = 256 * sum_list vs \<and>
     length (rssi_iir r) = 79 \<and> (\<forall>x \<in> set (rssi_iir r). - 32768 \<le> sint x \<and> sint x \<le> 32598)"

lemma rssi_reset_ok: "rssi_ok [] (rssi_reset r)"
  by (simp add: rssi_ok_def rssi_reset_def)

lemma sum_bounds:
  fixes vs :: "int list"
  assumes "\<forall>v \<in> set vs. - 128 \<le> v \<and> v \<le> 127"
  shows "- 128 * int (length vs) \<le> sum_list vs" "sum_list vs \<le> 127 * int (length vs)"
  using assms by (induction vs) auto

lemma rssi_add_ok:
  assumes "rssi_ok vs r" and "length vs < 255"
  shows "rssi_ok (vs @ [sint v]) (rssi_add v r)"
proof -
  have s: "\<forall>x \<in> set (vs @ [sint v]). - 128 \<le> x \<and> x \<le> 127" using assms(1) sint8 [of v] by (auto simp: rssi_ok_def)
  have c: "unat (rssi_count r + 1) = Suc (length vs)"
    using assms by (simp add: rssi_ok_def unat_word_ariths)
  have "sint (rssi_sum r + word_of_int (sint v * 256)) = sint (rssi_sum r) + sint v * 256"
  proof -
    have b: "\<bar>sum_list (vs @ [sint v])\<bar> \<le> 128 * 255" using sum_bounds [OF s] assms(2) by auto
    then have "sint (word_of_int (256 * sum_list (vs @ [sint v])) :: u32) = 256 * sum_list (vs @ [sint v])" by (intro sint_of32) auto
    moreover have "256 * sum_list (vs @ [sint v]) = sint (rssi_sum r) + sint v * 256" using assms(1) by (simp add: rssi_ok_def)
    ultimately have "sint (word_of_int (sint (rssi_sum r) + sint v * 256) :: u32) = sint (rssi_sum r) + sint v * 256" by metis
    then show ?thesis by simp
  qed
  then show ?thesis using assms s c by (auto simp: rssi_ok_def rssi_add_def)
qed

lemma avg_bounds:
  assumes "rssi_ok vs r"
  defines "avg \<equiv> (if rssi_count r \<noteq> 0 then (sint (rssi_sum r) + 128) sdiv uint (rssi_count r) else 0)"
  shows "- 32768 \<le> avg" "avg \<le> 32640"
proof -
  let ?n = "int (length vs)"
  have n: "uint (rssi_count r) = ?n" using assms(1) by (metis rssi_ok_def uint_nat)
  have c: "rssi_count r \<noteq> 0 \<longleftrightarrow> vs \<noteq> []" using assms(1) by (auto simp: rssi_ok_def unat_eq_0)
  have vs: "\<forall>v \<in> set vs. - 128 \<le> v \<and> v \<le> 127" and s: "sint (rssi_sum r) = 256 * sum_list vs"
    using assms(1) by (simp_all add: rssi_ok_def)
  have "- 32768 \<le> avg \<and> avg \<le> 32640"
  proof (cases "vs = []")
    case False
    then have p: "0 < ?n" by simp
    then have "1 \<le> ?n" by linarith
    then have "- 32768 * ?n \<le> 256 * sum_list vs + 128" "256 * sum_list vs + 128 < (32640 + 1) * ?n"
      using sum_bounds [OF vs] unfolding distrib_right by linarith+
    from sdiv_bounds [OF this p] show ?thesis using False c unfolding avg_def n s by simp
  qed (simp add: avg_def c)
  then show "- 32768 \<le> avg" "avg \<le> 32640" by simp_all
qed

text \<open>
  With at most 255 samples since the last reset, the filter of a Bluetooth channel computes without overflow: the
  slot gets the rounded 253/256 of its old value and 3/256 of the average sample, and it stays in the range whose average fits
  eight bits, so that \<open>rssi_get_avg\<close> returns it exactly.
\<close>

theorem rssi_filter_exact:
  assumes "rssi_ok vs r" and "channel \<le> 2480"
  shows "\<exists>r' a. rssi_filter channel r = Inr r' \<and> rssi_ok vs r'
    \<and> sint (rssi_iir r' ! rssi_slot channel) =
        (253 * sint (rssi_iir r ! rssi_slot channel) + 3 * (if vs = [] then 0 else (256 * sum_list vs + 128) sdiv int (length vs)) + 128) sdiv 256
    \<and> rssi_get_avg channel r' = Inr a \<and> sint a = (sint (rssi_iir r' ! rssi_slot channel) + 128) sdiv 256"
proof -
  let ?i = "rssi_slot channel"
  let ?avg = "if rssi_count r \<noteq> 0 then (sint (rssi_sum r) + 128) sdiv uint (rssi_count r) else 0"
  have i: "?i < 79" using assms(2) by (simp add: rssi_slot_def word_le_nat_alt word_less_nat_alt)
  have len: "length (rssi_iir r) = 79" using assms(1) by (simp add: rssi_ok_def)
  let ?v = "sint (rssi_iir r ! ?i)"
  have v: "- 32768 \<le> ?v" "?v \<le> 32598" using assms(1) i by (auto simp: rssi_ok_def)
  have a: "?avg = (if vs = [] then 0 else (256 * sum_list vs + 128) sdiv int (length vs))"
    using assms(1) by (auto simp: rssi_ok_def unat_eq_0 uint_nat)
  let ?n = "(253 * ?v + 3 * ?avg + 128) sdiv 256"
  have n: "- 32768 \<le> ?n" "?n \<le> 32598"
    using sdiv_bounds [of "- 32768" 256 "253 * ?v + 3 * ?avg + 128" 32598] v avg_bounds [OF assms(1)] by simp_all
  let ?w = "word_of_int ?n :: u16"
  have w: "sint ?w = ?n" using n by (intro sint_of16) simp_all
  let ?r = "r\<lparr>rssi_iir := (rssi_iir r)[?i := ?w]\<rparr>"
  have u: "rssi_filter channel r = Inr ?r"
    unfolding rssi_filter_def Let_def using i len by (simp add: algebra_simps)
  have "\<forall>x \<in> set ((rssi_iir r)[?i := ?w]). - 32768 \<le> sint x \<and> sint x \<le> 32598"
    using assms(1) n w set_update_subset_insert [of "rssi_iir r" ?i ?w] by (auto simp: rssi_ok_def)
  then have ok: "rssi_ok vs ?r" using assms(1) by (simp add: rssi_ok_def)
  have at: "rssi_iir ?r ! ?i = ?w" using i len by simp
  have "- 128 \<le> (?n + 128) sdiv 256" "(?n + 128) sdiv 256 \<le> 127"
    using sdiv_bounds [of "- 128" 256 "?n + 128" 127] n by simp_all
  then have "sint (word_of_int ((sint ?w + 128) sdiv 256) :: u8) = (sint ?w + 128) sdiv 256"
    unfolding w by (intro sint_of8)
  moreover have "rssi_get_avg channel ?r = Inr (word_of_int ((sint ?w + 128) sdiv 256))"
    unfolding rssi_get_avg_def using at i len by simp
  ultimately show ?thesis
    by (intro exI [of _ ?r] exI [of _ "word_of_int ((sint ?w + 128) sdiv 256)"] conjI)
      (simp_all only: u ok at w a [symmetric])
qed

definition rssi_zero :: rssi_st where
  "rssi_zero = \<lparr>rssi_max = 0, rssi_min = 0, rssi_count = 0, rssi_sum = 0, rssi_iir = replicate 79 0\<rparr>"

theorem rssi_filter_exact_witness:
  "\<exists>r' a. rssi_filter 2441 (rssi_add 0xd8 (rssi_reset rssi_zero)) = Inr r' \<and> rssi_ok [- 40] r'
    \<and> sint (rssi_iir r' ! rssi_slot 2441) = - 118 \<and> rssi_get_avg 2441 r' = Inr a"
proof -
  have "rssi_ok ([] @ [sint (0xd8 :: u8)]) (rssi_add 0xd8 (rssi_reset rssi_zero))" by (rule rssi_add_ok [OF rssi_reset_ok]) simp
  then have ok: "rssi_ok [- 40] (rssi_add 0xd8 (rssi_reset rssi_zero))" by simp
  from rssi_filter_exact [OF ok, of 2441] show ?thesis
    by (auto simp: rssi_add_def rssi_reset_def rssi_slot_def signed_divide_int_def)
qed

text \<open>
  The channels are not told apart: every frequency below 2480 MHz has the first slot.  A frequency above 2480 MHz,
  which the host may set, indexes behind the array, in the update as well as in the query.
\<close>

theorem rssi_slots_wrong:
  assumes "rssi_ok vs r"
  shows "(channel < 2480 \<longrightarrow> rssi_slot channel = 0) \<and> (2480 < channel \<longrightarrow> rssi_filter channel r = Inl Oob \<and> rssi_get_avg channel r = Inl Oob)"
proof -
  have "length (rssi_iir r) = 79" using assms by (simp add: rssi_ok_def)
  moreover have "2480 < channel \<Longrightarrow> 79 \<le> rssi_slot channel"
  proof -
    assume c: "2480 < channel"
    then have "\<not> (channel < 2402 \<or> channel < 2480)" by (simp add: word_less_nat_alt)
    then show ?thesis using c by (simp add: rssi_slot_def word_less_nat_alt)
  qed
  ultimately show ?thesis by (simp add: rssi_slot_def rssi_filter_def rssi_get_avg_def Let_def)
qed

theorem rssi_slots_wrong_witness:
  "rssi_slot 2404 = 0 \<and> rssi_filter 2483 (rssi_reset rssi_zero) = Inl Oob \<and> rssi_get_avg 2483 (rssi_reset rssi_zero) = Inl Oob"
  using rssi_slots_wrong [OF rssi_reset_ok, of 2404 rssi_zero] rssi_slots_wrong [OF rssi_reset_ok, of 2483 rssi_zero] by simp

text \<open>The counter of samples has eight bits: after 256 samples the average is taken to be 0, whatever the samples were.\<close>

lemma rssi_count_wraps: "rssi_count (fold rssi_add (replicate 256 v) (rssi_reset r)) = 0"
proof -
  have "rssi_count (fold rssi_add vs r) = rssi_count r + of_nat (length vs)" for vs r
    by (induction vs arbitrary: r) (simp_all add: rssi_add_def)
  from this [of "replicate 256 v" "rssi_reset r"] show ?thesis by (simp add: rssi_reset_def del: fold_replicate)
qed

section \<open>The threshold\<close>

definition clamp_level :: "int \<Rightarrow> int" where
  "clamp_level x = max (- 120) (min (- 20) x)"

text \<open>The level asked for, with an average of \<open>avg\<close>.\<close>

definition cs_level :: "u8 \<Rightarrow> int \<Rightarrow> int" where
  "cs_level req avg = (if sint req > 0 then avg - 54 + sint req else sint req)"

lemma threshold_set_level:
  "sint (cs_threshold_cur (cs_threshold_set level samples c)) = clamp_level (sint level)"
  "cs_no_squelch (cs_threshold_set level samples c) \<longleftrightarrow> clamp_level (sint level) = - 120"
  by (auto simp: cs_threshold_set_def clamp_level_def Let_def)

text \<open>
  The threshold is the requested level, or, for a positive request, that much above the average, limited to -120
  to -20 dBm; the squelch is off at -120 exactly.  This needs the level to fit eight bits: with an average so low that it falls
  below -128, it wraps to a positive number and the threshold is the highest one, which hears almost nothing.
\<close>

theorem cs_threshold_level:
  assumes "rssi_get_avg channel r = Inr a" and "level = cs_level (cs_threshold_req c) (sint a)" and "level \<le> 127"
  shows "\<exists>c'. cs_threshold_calc_and_set channel r c = Inr c'
    \<and> sint (cs_threshold_cur c') = (if - 128 \<le> level then clamp_level level else - 20)
    \<and> (cs_no_squelch c' \<longleftrightarrow> sint (cs_threshold_cur c') = - 120)"
proof -
  note level_def = assms(2) [unfolded cs_level_def]
  let ?l = "if sint (cs_threshold_req c) > 0 then word_of_int (sint a - 54 + sint (cs_threshold_req c)) else cs_threshold_req c"
  have e: "cs_threshold_calc_and_set channel r c = Inr (cs_threshold_set ?l CS_SAMPLES_4 c)"
    using assms(1) by (simp add: cs_threshold_calc_and_set_def)
  have "clamp_level (sint ?l) = (if - 128 \<le> level then clamp_level level else - 20)"
  proof (cases "- 128 \<le> level")
    case True
    have "sint ?l = level"
    proof (cases "sint (cs_threshold_req c) > 0")
      case p: True
      have "sint (word_of_int level :: u8) = level" using True assms(3) by (rule sint_of8)
      then show ?thesis using p by (simp only: level_def if_True)
    qed (simp add: level_def)
    then show ?thesis using True by simp
  next
    case False
    then have p: "sint (cs_threshold_req c) > 0" using sint8(1) [of "cs_threshold_req c"] unfolding level_def by (simp split: if_splits)
    then have l: "level = sint a - 54 + sint (cs_threshold_req c)" by (simp add: level_def)
    then have b: "- 256 \<le> level" using sint8(1) [of a] p by simp
    have "(word_of_int level :: u8) = word_of_int (level + 256)" by simp
    moreover have "sint (word_of_int (level + 256) :: u8) = level + 256" by (rule sint_of8) (use b False in simp_all)
    ultimately have "sint (word_of_int level :: u8) = level + 256" by metis
    moreover have "sint ?l = sint (word_of_int level :: u8)" using p by (simp only: l if_True)
    moreover have "- 20 \<le> level + 256" using l sint8(1) [of a] p by simp
    ultimately show ?thesis using False by (simp add: clamp_level_def)
  qed
  then show ?thesis using e threshold_set_level [of ?l CS_SAMPLES_4 c] by auto
qed

definition cs_zero :: cs_st where
  "cs_zero = \<lparr>cs_no_squelch = False, cs_threshold_req = 10, cs_threshold_cur = 0, cs_trigger = False, cs_int = False, rssi_reg = 0\<rparr>"

theorem cs_threshold_level_witness:
  "\<exists>c'. cs_threshold_calc_and_set 2441 (rssi_reset rssi_zero) cs_zero = Inr c' \<and> sint (cs_threshold_cur c') = - 44"
proof -
  have a: "rssi_get_avg 2441 (rssi_reset rssi_zero) = Inr 0"
    by (simp add: rssi_get_avg_def rssi_slot_def rssi_reset_def signed_divide_int_def)
  from cs_threshold_level [OF a refl, of cs_zero] show ?thesis by (auto simp: cs_zero_def clamp_level_def cs_level_def)
qed

end
