(* ===== verification/Sniffer.thy ===== *)
theory Sniffer
  imports Ble HopRxtx RxtxUsb Spi Rssi
begin

text \<open>
  The sniffer firmware, firmware/bluetooth_rxtx/bluetooth_rxtx.c, first part: its state, the clock and the interrupt handlers, the
  packets for the host, the set up of the radio, hopping and sending.  It is built for the Ubertooth One with \<open>TX_ENABLE\<close>.
\<close>

section \<open>State\<close>

text \<open>The radio sees a sequence of register writes, strobes and FIFO transfers; \<open>Spi\<close> has how each of them is sent.\<close>

datatype cc_op = Cc_set u8 u16 | Cc_strobe u8 | Cc_fifo "u8 list"

text \<open>The fields of \<open>le_state_t\<close>; \<open>_new\<close> is the source's \<open>_update\<close>.\<close>

datatype link_state = LINK_INACTIVE | LINK_LISTENING | LINK_CONN_PENDING | LINK_CONNECTED

record le_state =
  l_access_address :: u32
  l_synch :: u16
  l_syncl :: u16
  l_crc_init :: u32
  l_crc_init_reversed :: u32
  l_crc_verify :: bool
  l_link_state :: link_state
  l_channel_idx :: u8
  l_channel_increment :: u8
  l_conn_epoch :: u32
  l_interval_timer :: u16
  l_conn_interval :: u16
  l_conn_count :: u16
  l_win_size :: u8
  l_win_offset :: u16
  l_update_pending :: bool
  l_update_instant :: u16
  l_interval_new :: u16
  l_win_size_new :: u8
  l_win_offset_new :: u16
  l_do_follow :: u16
  l_target :: "u8 list"
  l_target_mask :: "u8 list"
  l_target_set :: bool
  l_last_packet :: u32

text \<open>The cache of access addresses with their counts, and the recovery of the hop interval.\<close>

record promisc_state =
  active_aa :: "(u32 \<times> int) list"
  smallest_hop_interval :: u32
  consec_intervals :: int

datatype packet_cb = No_packet_cb | Connection_follow | Promisc_follow | Promisc_hop_interval | Promisc_hop_increment
datatype data_cb = No_data_cb | Follow_le | Le_promisc

record tx_packet =
  tx_synch :: u16
  tx_syncl :: u16
  tx_channel :: u16
  tx_length :: u8
  tx_pa_level :: u8
  tx_data :: "u8 list"

text \<open>The clocks of ubertooth_clock.c and the match register of the timer.\<close>

record clocks =
  clkn :: u32
  last_hop :: u32
  clkn_offset :: u32
  clk100ns_offset :: u16
  clk_drift_ppm :: u16
  clk_drift_correction :: u16
  clkn_last_drift_fix :: u32
  clkn_next_drift_fix :: u32
  t0mr0 :: u32
  t0_on :: bool
  t0_int :: bool

text \<open>
  The globals.  \<open>active1\<close> says that the DMA writes to \<open>rxbuf1\<close>; \<open>first_ts\<close> and \<open>prev_clk\<close> are the static variables of the two
  functions that recover the hop sequence; \<open>rr\<close> are the five bytes of the range test's result, the access code and the packet length
  belong to ego.c, \<open>dfu\<close> is the flag for the boot loader, and the two strings come from the build.  What is read from the hardware is a
  list of inputs: the status byte and the registers of the radio, the timer's counter, the pin \<open>GIO6\<close> and the bytes of the radio's
  serial interface and its FIFO; \<open>iap\<close> is what the boot ROM's call leaves.
\<close>

record snif =
  clk :: clocks
  hop_mode :: u8
  do_hop :: bool
  cur_channel :: u16
  hop_direct_channel :: u16
  hop_timeout :: u16
  requested_channel :: u16
  adv_channel :: u16
  follow_cancelled :: bool
  idle_buf_clkn_high :: u8
  idle_buf_clk100ns :: u32
  idle_buf_channel :: u16
  dma_discard :: bool
  usb_status :: u8
  op_mode :: u8
  requested_mode :: u8
  jam_mode :: u8
  ego_mode :: u8
  modulation :: u8
  low_freq :: u16
  high_freq :: u16
  rssi_threshold :: u8
  tx_pkt :: tx_packet
  slave_mac_address :: "u8 list"
  le_adv_data :: "u8 list"
  le_adv_len :: u32
  le :: le_state
  le_promisc :: promisc_state
  le_jam_count :: int
  data_cb :: data_cb
  packet_cb :: packet_cb
  unpacked :: "u8 list"
  first_ts :: u32
  prev_clk :: u32
  restart_jamming :: bool
  rxbuf1 :: "u8 list"
  rxbuf2 :: "u8 list"
  active1 :: bool
  rx_tc :: u32
  rx_err :: u32
  dma_run :: bool
  dio_ssel :: bool
  bt :: bt_state
  sig :: rssi_st
  cs :: cs_st
  ring :: usb_ring
  radio :: "cc_op list"
  pa_en :: bool
  hgm :: bool
  led_usr :: bool
  led_rx :: bool
  led_tx :: bool
  cc1v8 :: bool
  in_cc_status :: "u8 list"
  in_reg :: "u16 list"
  in_t0tc :: "u32 list"
  in_gio6 :: "bool list"
  rr :: "u8 list"
  access_code :: u32
  access_code_len :: nat
  packet_len :: u8
  dfu :: bool
  git_revision :: "u8 list"
  compile_info :: "u8 list"
  in_ssp :: "u8 list"
  iap :: "u32 list"

text \<open>The globals as they are initialised, with nothing to read from the hardware.\<close>

definition le_start :: le_state where
  "le_start = \<lparr>l_access_address = 0x8e89bed6, l_synch = 0x6b7d, l_syncl = 0x9171, l_crc_init = 0x555555,
     l_crc_init_reversed = 0xAAAAAA, l_crc_verify = False, l_link_state = LINK_INACTIVE, l_channel_idx = 0,
     l_channel_increment = 0, l_conn_epoch = 0, l_interval_timer = 0, l_conn_interval = 0, l_conn_count = 0, l_win_size = 0,
     l_win_offset = 0, l_update_pending = False, l_update_instant = 0, l_interval_new = 0, l_win_size_new = 0, l_win_offset_new = 0,
     l_do_follow = 1, l_target = replicate 6 0, l_target_mask = replicate 6 0, l_target_set = False, l_last_packet = 0\<rparr>"

definition clocks_start :: clocks where
  "clocks_start = \<lparr>clkn = 0, last_hop = 0, clkn_offset = 0, clk100ns_offset = 0, clk_drift_ppm = 0, clk_drift_correction = 0,
     clkn_last_drift_fix = 0, clkn_next_drift_fix = 0, t0mr0 = 0, t0_on = False, t0_int = False\<rparr>"

definition snif_start :: snif where
  "snif_start = \<lparr>clk = clocks_start, hop_mode = 0, do_hop = False, cur_channel = 2441, hop_direct_channel = 0, hop_timeout = 158,
     requested_channel = 0, adv_channel = 2402, follow_cancelled = False, idle_buf_clkn_high = 0, idle_buf_clk100ns = 0,
     idle_buf_channel = 0, dma_discard = False, usb_status = 0, op_mode = 0, requested_mode = 0, jam_mode = 0, ego_mode = 0,
     modulation = 0, low_freq = 2400, high_freq = 2483, rssi_threshold = - 30,
     tx_pkt = \<lparr>tx_synch = 0, tx_syncl = 0, tx_channel = 0, tx_length = 0, tx_pa_level = 0, tx_data = replicate 50 0\<rparr>,
     slave_mac_address = replicate 6 0, le_adv_data = [0x02, 0x01, 0x05] @ replicate 252 0, le_adv_len = 3, le = le_start,
     le_promisc = \<lparr>active_aa = replicate 32 (0, 0), smallest_hop_interval = 0, consec_intervals = 0\<rparr>, le_jam_count = 0,
     data_cb = No_data_cb, packet_cb = No_packet_cb, unpacked = replicate 800 0, first_ts = 0, prev_clk = 0, restart_jamming = False,
     rxbuf1 = replicate 50 0, rxbuf2 = replicate 50 0, active1 = True, rx_tc = 0, rx_err = 0, dma_run = False, dio_ssel = True,
     bt = bt_zero 0,
     sig = \<lparr>rssi_max = 0, rssi_min = 0, rssi_count = 0, rssi_sum = 0, rssi_iir = replicate 79 0\<rparr>,
     cs = \<lparr>cs_no_squelch = False, cs_threshold_req = 0, cs_threshold_cur = 0, cs_trigger = False, cs_int = False, rssi_reg = 0\<rparr>,
     ring = \<lparr>ring_fifo = replicate 128 usb_pkt_zero, ring_head = 0, ring_tail = 0, last_usb_pkt = 0, ep_out = []\<rparr>,
     radio = [], pa_en = False, hgm = False, led_usr = False, led_rx = False, led_tx = False, cc1v8 = False,
     in_cc_status = [], in_reg = [], in_t0tc = [], in_gio6 = [], rr = replicate 5 0, access_code = 0x630f9ffe, access_code_len = 4,
     packet_len = 18, dfu = False, git_revision = [], compile_info = [], in_ssp = [], iap = replicate 5 0\<rparr>"

text \<open>Modes, hopping modes, modulations, status flags.\<close>

abbreviation MODE_IDLE :: u8 where "MODE_IDLE \<equiv> 0"
abbreviation MODE_RX_SYMBOLS :: u8 where "MODE_RX_SYMBOLS \<equiv> 1"
abbreviation MODE_TX_SYMBOLS :: u8 where "MODE_TX_SYMBOLS \<equiv> 2"
abbreviation MODE_TX_TEST :: u8 where "MODE_TX_TEST \<equiv> 3"
abbreviation MODE_SPECAN :: u8 where "MODE_SPECAN \<equiv> 4"
abbreviation MODE_RANGE_TEST :: u8 where "MODE_RANGE_TEST \<equiv> 5"
abbreviation MODE_REPEATER :: u8 where "MODE_REPEATER \<equiv> 6"
abbreviation MODE_LED_SPECAN :: u8 where "MODE_LED_SPECAN \<equiv> 7"
abbreviation MODE_BT_FOLLOW :: u8 where "MODE_BT_FOLLOW \<equiv> 8"
abbreviation MODE_FOLLOW_LE :: u8 where "MODE_FOLLOW_LE \<equiv> 9"
abbreviation MODE_BT_PROMISC_LE :: u8 where "MODE_BT_PROMISC_LE \<equiv> 10"
abbreviation MODE_RESET :: u8 where "MODE_RESET \<equiv> 11"
abbreviation MODE_BT_SLAVE_LE :: u8 where "MODE_BT_SLAVE_LE \<equiv> 12"
abbreviation MODE_EGO :: u8 where "MODE_EGO \<equiv> 13"
abbreviation MODE_AFH :: u8 where "MODE_AFH \<equiv> 14"
abbreviation MODE_RX_GENERIC :: u8 where "MODE_RX_GENERIC \<equiv> 15"
abbreviation MODE_TX_GENERIC :: u8 where "MODE_TX_GENERIC \<equiv> 16"
abbreviation MODE_XMAS :: u8 where "MODE_XMAS \<equiv> 17"

abbreviation HOP_NONE :: u8 where "HOP_NONE \<equiv> 0"
abbreviation HOP_SWEEP :: u8 where "HOP_SWEEP \<equiv> 1"
abbreviation HOP_BLUETOOTH :: u8 where "HOP_BLUETOOTH \<equiv> 2"
abbreviation HOP_BTLE :: u8 where "HOP_BTLE \<equiv> 3"
abbreviation HOP_DIRECT :: u8 where "HOP_DIRECT \<equiv> 4"
abbreviation HOP_AFH :: u8 where "HOP_AFH \<equiv> 5"

abbreviation MOD_BT_BASIC_RATE :: u8 where "MOD_BT_BASIC_RATE \<equiv> 0"
abbreviation MOD_BT_LOW_ENERGY :: u8 where "MOD_BT_LOW_ENERGY \<equiv> 1"
abbreviation MOD_NONE :: u8 where "MOD_NONE \<equiv> 3"

abbreviation JAM_NONE :: u8 where "JAM_NONE \<equiv> 0"
abbreviation JAM_ONCE :: u8 where "JAM_ONCE \<equiv> 1"
abbreviation JAM_COUNT_DEFAULT :: int where "JAM_COUNT_DEFAULT \<equiv> 40"

abbreviation DMA_OVERFLOW :: u8 where "DMA_OVERFLOW \<equiv> 0x01"
abbreviation DMA_ERROR :: u8 where "DMA_ERROR \<equiv> 0x02"
abbreviation FIFO_OVERFLOW :: u8 where "FIFO_OVERFLOW \<equiv> 0x04"
abbreviation CS_TRIGGER :: u8 where "CS_TRIGGER \<equiv> 0x08"
abbreviation RSSI_TRIGGER :: u8 where "RSSI_TRIGGER \<equiv> 0x10"
abbreviation DISCARD :: u8 where "DISCARD \<equiv> 0x20"

abbreviation MESSAGE :: u8 where "MESSAGE \<equiv> 2"
abbreviation SPECAN :: u8 where "SPECAN \<equiv> 4"
abbreviation EGO_PACKET :: u8 where "EGO_PACKET \<equiv> 6"

text \<open>Registers and strobes of the radio.\<close>

abbreviation MDMCTRL :: u8 where "MDMCTRL \<equiv> 0x03"
abbreviation FREND :: u8 where "FREND \<equiv> 0x05"
abbreviation RSSI :: u8 where "RSSI \<equiv> 0x06"
abbreviation IOCFG :: u8 where "IOCFG \<equiv> 0x08"
abbreviation MANAND :: u8 where "MANAND \<equiv> 0x0D"
abbreviation LMTST :: u8 where "LMTST \<equiv> 0x12"
abbreviation MDMTST0 :: u8 where "MDMTST0 \<equiv> 0x14"
abbreviation GRMDM :: u8 where "GRMDM \<equiv> 0x20"
abbreviation GRDEC :: u8 where "GRDEC \<equiv> 0x21"
abbreviation CC_INT :: u8 where "CC_INT \<equiv> 0x23"
abbreviation SYNCL :: u8 where "SYNCL \<equiv> 0x2C"
abbreviation SYNCH :: u8 where "SYNCH \<equiv> 0x2D"
abbreviation STX :: u8 where "STX \<equiv> 0x63"

section \<open>Hardware\<close>

definition cc_set :: "u8 \<Rightarrow> u16 \<Rightarrow> snif \<Rightarrow> snif" where
  "cc_set r v s = s\<lparr>radio := radio s @ [Cc_set r v]\<rparr>"

definition cc_strobe :: "u8 \<Rightarrow> snif \<Rightarrow> snif" where
  "cc_strobe r s = s\<lparr>radio := radio s @ [Cc_strobe r]\<rparr>"

definition cc_fifo_write :: "u8 list \<Rightarrow> snif \<Rightarrow> snif" where
  "cc_fifo_write bytes s = s\<lparr>radio := radio s @ [Cc_fifo bytes]\<rparr>"

definition cc_get :: "snif \<Rightarrow> (u16 \<times> snif) res" where
  "cc_get s = (case in_reg s of [] \<Rightarrow> Inl Hang | v # vs \<Rightarrow> Inr (v, s\<lparr>in_reg := vs\<rparr>))"

definition cc_status :: "snif \<Rightarrow> (u8 \<times> snif) res" where
  "cc_status s = (case in_cc_status s of [] \<Rightarrow> Inl Hang | v # vs \<Rightarrow> Inr (v, s\<lparr>in_cc_status := vs\<rparr>))"

definition cc_read_bytes :: "nat \<Rightarrow> snif \<Rightarrow> (u8 list \<times> snif) res" where
  "cc_read_bytes n s = (if length (in_ssp s) < n then Inl Hang else Inr (take n (in_ssp s), s\<lparr>in_ssp := drop n (in_ssp s)\<rparr>))"

primrec wait_for :: "('a \<Rightarrow> bool) \<Rightarrow> 'a list \<Rightarrow> 'a list res" where
  "wait_for p [] = Inl Hang"
| "wait_for p (v # vs) = (if p v then Inr vs else wait_for p vs)"

definition wait_status :: "(u8 \<Rightarrow> bool) \<Rightarrow> snif \<Rightarrow> snif res" where
  "wait_status p s = bnd (wait_for p (in_cc_status s)) (\<lambda>vs. Inr (s\<lparr>in_cc_status := vs\<rparr>))"

abbreviation cc_wait_xosc :: "snif \<Rightarrow> snif res" where "cc_wait_xosc \<equiv> wait_status (\<lambda>v. v AND 0x40 \<noteq> 0)"
abbreviation wait_lock :: "snif \<Rightarrow> snif res" where "wait_lock \<equiv> wait_status (\<lambda>v. v AND 4 \<noteq> 0)"
abbreviation wait_unlock :: "snif \<Rightarrow> snif res" where "wait_unlock \<equiv> wait_status (\<lambda>v. v AND 4 = 0)"

abbreviation STATE_STROBE_FS_ON :: u16 where "STATE_STROBE_FS_ON \<equiv> 15"

definition wait_fs_on :: "snif \<Rightarrow> snif res" where
  "wait_fs_on s = bnd (wait_for (\<lambda>v. v AND 0x1f = STATE_STROBE_FS_ON) (in_reg s)) (\<lambda>vs. Inr (s\<lparr>in_reg := vs\<rparr>))"

definition CLK100NS :: "snif \<Rightarrow> (u32 \<times> snif) res" where
  "CLK100NS s =
     (case in_t0tc s of [] \<Rightarrow> Inl Hang | t # ts \<Rightarrow> Inr (3125 * (clkn (clk s) AND 0xfffff) + t, s\<lparr>in_t0tc := ts\<rparr>))"

definition retune_squelch :: "u16 \<Rightarrow> snif \<Rightarrow> snif res" where
  "retune_squelch ch s = bnd (cs_threshold_calc_and_set ch (sig s) (cs s)) (\<lambda>c. Inr (s\<lparr>cs := c\<rparr>))"

section \<open>Clock\<close>

definition clkn_stop :: "clocks \<Rightarrow> clocks" where
  "clkn_stop c = c\<lparr>t0_on := False, clkn := 0, last_hop := 0, clkn_offset := 0, clk100ns_offset := 0, clk_drift_ppm := 0,
     clk_drift_correction := 0, clkn_last_drift_fix := 0, clkn_next_drift_fix := 0\<rparr>"

definition rxtx_clkn_start :: "clocks \<Rightarrow> clocks" where
  "rxtx_clkn_start c = c\<lparr>t0_on := True\<rparr>"

definition clkn_init :: "clocks \<Rightarrow> clocks" where
  "clkn_init c = (clkn_stop c)\<lparr>t0mr0 := 3124, t0_int := True\<rparr>"

definition clkn_disable :: "clocks \<Rightarrow> clocks" where
  "clkn_disable c = (clkn_stop c)\<lparr>t0_int := False\<rparr>"

text \<open>The handler of the clock, in its four parts: the count, the hop, the correction of the drift, the next match.\<close>

definition clk_count :: "clocks \<Rightarrow> clocks" where
  "clk_count c = c\<lparr>clkn := clkn c + clkn_offset c + 1, clkn_offset := 0\<rparr>"

definition clk_hop :: "snif \<Rightarrow> snif" where
  "clk_hop s =
     (let n = clkn (clk s); le_clk = (n - l_conn_epoch (le s)) AND 3 in
      if hop_mode s = HOP_NONE \<or> hop_mode s = HOP_SWEEP then
        (if n AND 0x7f = 0 then s\<lparr>do_hop := True\<rparr> else s)
      else if hop_mode s = HOP_BLUETOOTH then
        (if n AND 1 = 0 then s\<lparr>do_hop := True\<rparr> else s)
      else if hop_mode s = HOP_BTLE then
        (if l_link_state (le s) = LINK_CONNECTED \<and> le_clk = 0 then
           let t = l_interval_timer (le s) - 1 in
           if t = 0
           then s\<lparr>do_hop := True, le := (le s)\<lparr>l_conn_count := l_conn_count (le s) + 1, l_interval_timer := l_conn_interval (le s)\<rparr>\<rparr>
           else s\<lparr>led_tx := False, le := (le s)\<lparr>l_interval_timer := t\<rparr>\<rparr>
         else s)
      else if hop_mode s = HOP_AFH then
        (if last_hop (clk s) + ucast (hop_timeout s) = n then s\<lparr>do_hop := True\<rparr> else s)
      else s)"

definition clk_drift :: "clocks \<Rightarrow> clocks" where
  "clk_drift c =
     (if clkn_next_drift_fix c \<noteq> 0 \<and> clk100ns_offset c = 0 \<and> clkn c \<ge> clkn_next_drift_fix c then
        c\<lparr>clk100ns_offset := (if sint (clk_drift_ppm c) \<ge> 0 then 1 else 6249), clkn_last_drift_fix := clkn c,
          clkn_next_drift_fix := clkn c + ucast (clk_drift_correction c)\<rparr>
      else c)"

definition clk_match :: "clocks \<Rightarrow> clocks" where
  "clk_match c =
     (let c = (if clk100ns_offset c > 3124 then c\<lparr>clkn := clkn c + 2\<rparr> else c)
      in c\<lparr>t0mr0 := 3124 + ucast (clk100ns_offset c), clk100ns_offset := 0\<rparr>)"

definition rxtx_TIMER0 :: "snif \<Rightarrow> snif" where
  "rxtx_TIMER0 s =
     (let s = s\<lparr>clk := clk_count (clk s)\<rparr>; s = clk_hop s in s\<lparr>clk := clk_match (clk_drift (clk s))\<rparr>)"

definition rxtx_EINT3 :: "snif \<Rightarrow> snif" where
  "rxtx_EINT3 s =
     (let s = s\<lparr>dio_ssel := False, cs := (cs s)\<lparr>cs_trigger := True\<rparr>\<rparr>
      in if hop_mode s = HOP_BLUETOOTH then s\<lparr>dma_discard := False\<rparr> else s)"

text \<open>The bytes the DMA has written, and the handler of its end or its error.\<close>

definition dma_fill :: "u8 list \<Rightarrow> snif \<Rightarrow> snif" where
  "dma_fill bytes s = (if active1 s then s\<lparr>rxbuf1 := bytes\<rparr> else s\<lparr>rxbuf2 := bytes\<rparr>)"

definition legacy_DMA :: "bool \<Rightarrow> bool \<Rightarrow> snif \<Rightarrow> snif res" where
  "legacy_DMA tc err s =
     (if op_mode s \<in> {MODE_RX_SYMBOLS, MODE_BT_FOLLOW, MODE_SPECAN, MODE_FOLLOW_LE, MODE_BT_PROMISC_LE, MODE_BT_SLAVE_LE,
          MODE_RX_GENERIC} then
        bnd (if tc then
               let s = (if hop_mode s = HOP_BLUETOOTH then s\<lparr>dio_ssel := True\<rparr> else s) in
               bnd (CLK100NS s) (\<lambda>(t, s).
               Inr (s\<lparr>idle_buf_clk100ns := t, idle_buf_clkn_high := ucast (drop_bit 20 (clkn (clk s)) AND 0xff),
                 idle_buf_channel := cur_channel s, active1 := \<not> active1 s, rx_tc := rx_tc s + 1\<rparr>))
             else Inr s) (\<lambda>s.
        Inr (if err then s\<lparr>rx_err := rx_err s + 1\<rparr> else s))
      else Inr s)"

definition idle_rxbuf :: "snif \<Rightarrow> u8 list" where
  "idle_rxbuf s = (if active1 s then rxbuf2 s else rxbuf1 s)"

definition set_idle_rxbuf :: "u8 list \<Rightarrow> snif \<Rightarrow> snif" where
  "set_idle_rxbuf b s = (if active1 s then s\<lparr>rxbuf2 := b\<rparr> else s\<lparr>rxbuf1 := b\<rparr>)"

text \<open>The busy wait; the first reading of the clock is taken as the start, the others in the loop.\<close>

definition msleep_over :: "u32 \<Rightarrow> u32 \<Rightarrow> u32 \<Rightarrow> bool" where
  "msleep_over now millis c =
     (let stop_at = now + millis * 10000 div 3125; c = c AND 0xffffff in
      if stop_at \<ge> push_bit 28 1 then let stop_at = stop_at - push_bit 28 1 in \<not> (c \<ge> now \<or> c < stop_at)
      else \<not> c < stop_at)"

definition msleep :: "u32 \<Rightarrow> u32 list \<Rightarrow> u32 list res" where
  "msleep millis readings =
     (case readings of [] \<Rightarrow> Inl Hang
      | c # rest \<Rightarrow> let now = c AND 0xffffff in wait_for (msleep_over now millis) rest)"

section \<open>Packets for the host\<close>

text \<open>The bytes of an integer in memory.\<close>

definition mem_bytes :: "nat \<Rightarrow> 'a::len word \<Rightarrow> u8 list" where
  "mem_bytes n w = map (\<lambda>i. ucast (drop_bit (8 * i) w)) [0..<n]"

definition pkt_bytes :: "usb_pkt_rx \<Rightarrow> u8 list" where
  "pkt_bytes p = [pkt_type p, pkt_status p, pkt_channel p, clkn_high p] @ mem_bytes 4 (clk100ns p) @
     [pkt_rssi_max p, pkt_rssi_min p, pkt_rssi_avg p, pkt_rssi_count p] @ pkt_reserved p @ pkt_data p"

text \<open>The elements of the ring are reused: what a call does not set is left from an earlier packet.\<close>

definition enqueue_pkt :: "u8 \<Rightarrow> u8 list \<Rightarrow> usb_pkt_rx \<Rightarrow> snif \<Rightarrow> (usb_pkt_rx \<times> snif) res" where
  "enqueue_pkt type buf f s =
     (let f = f\<lparr>pkt_type := type\<rparr> in
      bnd (if type = SPECAN then
             bnd (CLK100NS s) (\<lambda>(t, s).
             Inr (f\<lparr>clkn_high := ucast (drop_bit 20 (clkn (clk s)) AND 0xff), clk100ns := t\<rparr>, s))
           else
             bnd (rssi_get_avg (idle_buf_channel s) (sig s)) (\<lambda>a.
             Inr (f\<lparr>clkn_high := idle_buf_clkn_high s, clk100ns := idle_buf_clk100ns s,
               pkt_channel := ucast ((idle_buf_channel s - 2402) AND 0xff), pkt_rssi_min := rssi_min (sig s),
               pkt_rssi_max := rssi_max (sig s), pkt_rssi_avg := a, pkt_rssi_count := rssi_count (sig s)\<rparr>, s))) (\<lambda>(f, s).
      bnd (memcpy (pkt_data f) buf RX_DMA_SIZE) (\<lambda>d.
      Inr (f\<lparr>pkt_data := d, pkt_status := usb_status s\<rparr>, s\<lparr>usb_status := 0\<rparr>))))"

definition enqueue_ts_pkt :: "u8 \<Rightarrow> u8 list \<Rightarrow> u32 \<Rightarrow> usb_pkt_rx \<Rightarrow> snif \<Rightarrow> (usb_pkt_rx \<times> snif) res" where
  "enqueue_ts_pkt type buf ts f s =
     bnd (memcpy (pkt_data f) buf RX_DMA_SIZE) (\<lambda>d.
     Inr (f\<lparr>pkt_type := type, clkn_high := 0, clk100ns := ts, pkt_channel := ucast ((cur_channel s - 2402) AND 0xff),
       pkt_rssi_avg := 0, pkt_rssi_count := 0, pkt_data := d, pkt_status := usb_status s\<rparr>, s\<lparr>usb_status := 0\<rparr>))"

text \<open>The frame of the two: an element of the ring is taken and filled.\<close>

definition enqueue_with :: "(usb_pkt_rx \<Rightarrow> snif \<Rightarrow> (usb_pkt_rx \<times> snif) res) \<Rightarrow> snif \<Rightarrow> (bool \<times> snif) res" where
  "enqueue_with fill s =
     (case usb_enqueue (ring s) of
        (None, r) \<Rightarrow> Inr (False, s\<lparr>ring := r, usb_status := usb_status s OR FIFO_OVERFLOW\<rparr>)
      | (Some i, r) \<Rightarrow>
          bnd (rd (ring_fifo r) i) (\<lambda>f.
          bnd (fill f (s\<lparr>ring := r\<rparr>)) (\<lambda>(f, s).
          bnd (wr (ring_fifo (ring s)) i f) (\<lambda>q. Inr (True, s\<lparr>ring := (ring s)\<lparr>ring_fifo := q\<rparr>\<rparr>)))))"

definition enqueue :: "u8 \<Rightarrow> u8 list \<Rightarrow> snif \<Rightarrow> (bool \<times> snif) res" where
  "enqueue type buf = enqueue_with (enqueue_pkt type buf)"

definition enqueue_with_ts :: "u8 \<Rightarrow> u8 list \<Rightarrow> u32 \<Rightarrow> snif \<Rightarrow> (bool \<times> snif) res" where
  "enqueue_with_ts type buf ts = enqueue_with (enqueue_ts_pkt type buf ts)"

definition host_usb :: "u8 \<Rightarrow> snif \<Rightarrow> snif res" where
  "host_usb epstat s = bnd (handle_usb epstat (clkn (clk s)) (ring s)) (\<lambda>r. Inr (s\<lparr>ring := r\<rparr>))"

section \<open>The radio\<close>

definition snif_ssp_stop :: "snif \<Rightarrow> snif" where
  "snif_ssp_stop s = s\<lparr>dio_ssel := True, dma_run := False\<rparr>"

definition snif_ssp_start :: "snif \<Rightarrow> snif" where
  "snif_ssp_start s = s\<lparr>dio_ssel := False, dma_run := True\<rparr>"

definition dma_init_rx_symbols :: "snif \<Rightarrow> snif" where
  "dma_init_rx_symbols s = s\<lparr>rx_tc := 0, rx_err := 0, active1 := True, dma_run := True\<rparr>"

text \<open>The LE set up has eleven list items of four bytes that all go to \<open>rxbuf1\<close>.\<close>

definition dma_init_le :: "snif \<Rightarrow> snif" where
  "dma_init_le s = s\<lparr>dma_run := False\<rparr>"

definition leds_off :: "snif \<Rightarrow> snif" where
  "leds_off s = s\<lparr>led_rx := False, led_tx := False, led_usr := False\<rparr>"

definition cc2400_idle :: "snif \<Rightarrow> snif res" where
  "cc2400_idle s =
     bnd (wait_unlock (cc_strobe SRFOFF s)) (\<lambda>s.
     let s = leds_off (s\<lparr>pa_en := False, hgm := False\<rparr>);
         s = snif_ssp_stop (s\<lparr>clk := clkn_stop (clk s)\<rparr>);
         s = s\<lparr>cs := cs_reset (cs s), sig := rssi_reset (sig s)\<rparr>;
         s = s\<lparr>hop_mode := HOP_NONE, do_hop := False, cur_channel := 2441, hop_direct_channel := 0, hop_timeout := 158,
               requested_channel := 0, adv_channel := 2402\<rparr>;
         s = s\<lparr>idle_buf_clkn_high := 0, idle_buf_clk100ns := 0, idle_buf_channel := 0, dma_discard := False, usb_status := 0\<rparr>;
         s = s\<lparr>op_mode := MODE_IDLE, requested_mode := MODE_IDLE, jam_mode := JAM_NONE, ego_mode := 0\<rparr>;
         s = s\<lparr>modulation := MOD_BT_BASIC_RATE, low_freq := 2400, high_freq := 2483, rssi_threshold := word_of_int (- 30)\<rparr>
     in Inr (s\<lparr>bt := (bt s)\<lparr>target_address := 0, target_syncword := 0\<rparr>\<rparr>))"

text \<open>The common ends: start the synthesizer, wait for the lock and receive or send.\<close>

definition cc_start :: "snif \<Rightarrow> snif res" where
  "cc_start s = bnd (cc_wait_xosc s) (\<lambda>s. wait_lock (cc_strobe SFSON s))"

definition cc_start_rx :: "snif \<Rightarrow> snif res" where
  "cc_start_rx s = bnd (cc_start s) (\<lambda>s. Inr ((cc_strobe SRX s)\<lparr>pa_en := True, hgm := True\<rparr>))"

definition cc2400_rx :: "snif \<Rightarrow> snif res" where
  "cc2400_rx s =
     (let s = (if modulation s = MOD_BT_BASIC_RATE \<or> modulation s = MOD_BT_LOW_ENERGY then
                 let mdmctrl = (if modulation s = MOD_BT_BASIC_RATE then 0x0029 else 0x0040);
                     s = cc_set MANAND 0x7fff s;
                     s = cc_set LMTST 0x2b22 s;
                     s = cc_set MDMTST0 0x134b s;
                     s = cc_set GRMDM 0x0101 s;
                     s = cc_set FSDIV (cur_channel s - 1) s
                 in cc_set MDMCTRL mdmctrl s
               else s) in
      bnd (retune_squelch (cur_channel s) s) (\<lambda>s. cc_start_rx (s\<lparr>clk := rxtx_clkn_start (clk s)\<rparr>)))"

definition cc2400_rx_sync :: "u32 \<Rightarrow> snif \<Rightarrow> snif res" where
  "cc2400_rx_sync sync s =
     (if modulation s \<noteq> MOD_BT_BASIC_RATE \<and> modulation s \<noteq> MOD_BT_LOW_ENERGY then Inr s
      else
        let (mdmctrl, grmdm) = (if modulation s = MOD_BT_BASIC_RATE then (0x0029, 0x0461) else (0x0040, 0x0561));
            s = cc_set MANAND 0x7fff s;
            s = cc_set LMTST 0x2b22 s;
            s = cc_set MDMTST0 0x124b s;
            s = cc_set GRMDM grmdm s;
            s = cc_set SYNCL (ucast (sync AND 0xffff)) s;
            s = cc_set SYNCH (ucast (drop_bit 16 sync AND 0xffff)) s;
            s = cc_set FSDIV (cur_channel s - 1) s;
            s = cc_set MDMCTRL mdmctrl s in
        bnd (retune_squelch (cur_channel s) s) (\<lambda>s. cc_start_rx (s\<lparr>clk := rxtx_clkn_start (clk s)\<rparr>)))"

definition cc2400_tx_sync :: "u32 \<Rightarrow> snif \<Rightarrow> snif res" where
  "cc2400_tx_sync sync s =
     (let s = cc_set MANAND 0x7fff s;
          s = cc_set LMTST 0x2b22 s;
          s = cc_set MDMTST0 0x134b s;
          s = cc_set GRMDM 0x0c01 s;
          s = cc_set SYNCL (ucast (sync AND 0xffff)) s;
          s = cc_set SYNCH (ucast (drop_bit 16 sync AND 0xffff)) s;
          s = cc_set FSDIV (cur_channel s) s;
          s = cc_set FREND 11 s
      in if modulation s \<noteq> MOD_BT_BASIC_RATE \<and> modulation s \<noteq> MOD_BT_LOW_ENERGY then Inr s
         else
           let s = cc_set MDMCTRL (if modulation s = MOD_BT_BASIC_RATE then 0x0029 else 0x0040) s in
           bnd (cc_start (s\<lparr>clk := rxtx_clkn_start (clk s)\<rparr>)) (\<lambda>s.
           bnd (wait_fs_on (s\<lparr>pa_en := True\<rparr>)) (\<lambda>s. Inr (cc_strobe STX s))))"

section \<open>Sending an LE packet\<close>

text \<open>The bytes are whitened and their bits put in the order of the air, the first one highest.\<close>

definition air_byte :: "nat \<Rightarrow> u8 \<Rightarrow> u8" where
  "air_byte idx b =
     fold (\<lambda>j r. r OR push_bit (7 - j) ((drop_bit j b AND 1) XOR whitening ! ((idx + j) mod 127))) [0..<8] 0"

definition le_txbuf :: "nat \<Rightarrow> nat \<Rightarrow> u8 list \<Rightarrow> u8 list res" where
  "le_txbuf idx len data =
     loop len (\<lambda>i txbuf. bnd (rd data i) (\<lambda>b. wr txbuf i (air_byte ((idx + 8 * i) mod 127) b))) (replicate 255 0)"

abbreviation LE_ADV_MAX_LEN :: nat where "LE_ADV_MAX_LEN \<equiv> 255"

definition wait_gio6 :: "snif \<Rightarrow> snif res" where
  "wait_gio6 s = bnd (wait_for (\<lambda>b. b) (in_gio6 s)) (\<lambda>bs. Inr (s\<lparr>in_gio6 := bs\<rparr>))"

text \<open>The FIFO takes 32 bytes at first and 16 whenever it is half empty.\<close>

function le_fifo_loop :: "nat \<Rightarrow> nat \<Rightarrow> nat \<Rightarrow> u8 list \<Rightarrow> snif \<Rightarrow> snif res" where
  "le_fifo_loop len fifo_space i txbuf s =
     (if len = 0 then Inr s
      else
        bnd (wait_gio6 s) (\<lambda>s.
        let tx_len = (if len \<ge> fifo_space then fifo_space else len) in
        bnd (if i + tx_len \<le> length txbuf then Inr (take tx_len (drop i txbuf)) else Inl Oob) (\<lambda>bytes.
        le_fifo_loop (len - tx_len) 16 (i + tx_len) txbuf (cc_strobe STX (cc_fifo_write bytes s)))))"
  by pat_completeness auto

termination
  by (relation "measure (\<lambda>(len, fifo_space, _). 2 * len + (if fifo_space = 0 then 1 else 0))") (auto split: if_splits)

declare le_fifo_loop.simps [simp del]

definition le_transmit :: "u32 \<Rightarrow> u8 \<Rightarrow> u8 list \<Rightarrow> snif \<Rightarrow> snif res" where
  "le_transmit aa len data s =
     (let sync = rbit aa in
      bnd (rd whitening_index (unat (btle_channel_index (cur_channel s)))) (\<lambda>idx.
      bnd (le_txbuf idx (unat len) data) (\<lambda>txbuf.
      let s = cc_set MANAND 0x7fff s;
          s = cc_set LMTST 0x2b22 s;
          s = cc_set MDMTST0 0x134b s;
          s = cc_set GRMDM 0x0ce1 s;
          s = cc_set FSDIV (cur_channel s) s;
          s = cc_set FREND 11 s;
          s = cc_set MDMCTRL 0x0040 s;
          s = cc_set CC_INT 0x0010 s;
          s = cc_set SYNCL (ucast (sync AND 0xffff)) s;
          s = cc_set SYNCH (ucast (drop_bit 16 sync AND 0xffff)) s in
      bnd (cc_get s) (\<lambda>(gio_save, s).
      let s = cc_set IOCFG (push_bit 9 38 OR (gio_save AND 0x1ff)) s in
      bnd (cc_start s) (\<lambda>s.
      bnd (wait_fs_on (s\<lparr>led_tx := True, pa_en := True\<rparr>)) (\<lambda>s.
      bnd (le_fifo_loop (unat len) 32 0 txbuf s) (\<lambda>s.
      bnd (wait_fs_on s) (\<lambda>s.
      bnd (wait_unlock (cc_strobe SRFOFF (s\<lparr>led_tx := False\<rparr>))) (\<lambda>s.
      Inr (cc_set IOCFG gio_save (s\<lparr>pa_en := False\<rparr>)))))))))))"

definition le_jam :: "snif \<Rightarrow> snif res" where
  "le_jam s =
     (let s = cc_set MANAND 0x7fff s;
          s = cc_set LMTST 0x2b22 s;
          s = cc_set MDMTST0 0x234b s;
          s = cc_set GRMDM 0x0c01 s;
          s = cc_set FREND 11 s;
          s = cc_set MDMCTRL 0x0040 s in
      bnd (cc_start s) (\<lambda>s.
      bnd (wait_fs_on (s\<lparr>led_tx := True, pa_en := True\<rparr>)) (\<lambda>s. Inr (cc_strobe STX s))))"

section \<open>Hopping\<close>

definition afh_step :: "u16 \<Rightarrow> u16" where
  "afh_step ch = (let ch = ch + 32 in if ch > 2480 then ch - 79 else ch)"

text \<open>The bit of a channel in the map; below 2402 the index or the shift is negative.\<close>

definition afh_bit :: "u8 list \<Rightarrow> u16 \<Rightarrow> bool res" where
  "afh_bit m ch =
     (if ch < 2402 then Inl Oob
      else bnd (rd m ((unat ch - 2402) div 8)) (\<lambda>b. Inr (b AND push_bit ((unat ch - 2402) mod 8) 1 \<noteq> 0)))"

text \<open>The loops end at a channel with the right bit; after a round of 79 channels they go on for ever.\<close>

primrec afh_search :: "bool \<Rightarrow> nat \<Rightarrow> u8 list \<Rightarrow> u16 \<Rightarrow> u16 res" where
  "afh_search want 0 m ch = Inl Hang"
| "afh_search want (Suc n) m ch =
     (let ch = afh_step ch in bnd (afh_bit m ch) (\<lambda>b. if b = want then Inr ch else afh_search want n m ch))"

definition hop_sweep :: "bt_state \<Rightarrow> u16 \<Rightarrow> u16 res" where
  "hop_sweep b ch =
     (if used_channels b \<noteq> 0 \<and> rx_afh_enabled b \<noteq> 0 then afh_search True 80 (rx_afh_map b) ch else Inr (afh_step ch))"

definition hop_afh :: "bt_state \<Rightarrow> u16 \<Rightarrow> u16 res" where
  "hop_afh b ch = (if used_channels b \<noteq> 79 then afh_search False 80 (rx_afh_map b) ch else Inr (afh_step ch))"

definition rxtx_hop_channel :: "snif \<Rightarrow> snif res" where
  "rxtx_hop_channel s =
     (if hop_mode s = HOP_SWEEP then bnd (hop_sweep (bt s) (cur_channel s)) (\<lambda>c. Inr (s\<lparr>cur_channel := c\<rparr>))
      else if hop_mode s = HOP_AFH then bnd (hop_afh (bt s) (cur_channel s)) (\<lambda>c. Inr (s\<lparr>cur_channel := c\<rparr>))
      else if hop_mode s = HOP_BLUETOOTH then bnd (next_hop (clkn (clk s)) (bt s)) (\<lambda>c. Inr (s\<lparr>cur_channel := c\<rparr>))
      else if hop_mode s = HOP_BTLE then
        let (c, i) = btle_next_hop (l_channel_idx (le s)) (l_channel_increment (le s)) in
        Inr (s\<lparr>cur_channel := c, le := (le s)\<lparr>l_channel_idx := i\<rparr>\<rparr>)
      else if hop_mode s = HOP_DIRECT then Inr (s\<lparr>cur_channel := hop_direct_channel s\<rparr>)
      else Inr s)"

definition hop_retune :: "snif \<Rightarrow> snif res" where
  "hop_retune s =
     bnd (wait_unlock (cc_strobe SRFOFF s)) (\<lambda>s.
     let s = cc_set FSDIV (if op_mode s = MODE_TX_SYMBOLS then cur_channel s else cur_channel s - 1) s in
     bnd (if hop_mode s > 0 then retune_squelch (cur_channel s) s else Inr s) (\<lambda>s.
     bnd (wait_lock (cc_strobe SFSON s)) (\<lambda>s.
     Inr (cc_strobe (if op_mode s = MODE_TX_SYMBOLS then STX else SRX) (s\<lparr>dma_discard := True\<rparr>)))))"

definition rxtx_hop :: "snif \<Rightarrow> snif res" where
  "rxtx_hop s =
     (let s = s\<lparr>do_hop := False, clk := (clk s)\<lparr>last_hop := clkn (clk s)\<rparr>\<rparr> in
      if hop_mode s = HOP_NONE then
        bnd (cc_get s) (\<lambda>(v, s). if v = cur_channel s - 1 then Inr s else hop_retune s)
      else bnd (rxtx_hop_channel s) hop_retune)"

end
