(* ===== verification/SniffClock.thy ===== *)
theory SniffClock
  imports Sniffer
begin


section \<open>Waiting\<close>

lemma wait_for_eq:
  "wait_for p xs = (case dropWhile (\<lambda>x. \<not> p x) xs of [] \<Rightarrow> Inl Hang | _ # rest \<Rightarrow> Inr rest)"
  by (induction xs) simp_all

lemma low24: "unat ((x :: u32) AND 0xffffff) < 2 ^ 24"
  unfolding and_masks unsigned_take_bit_eq by (rule take_bit_nat_less_exp)

lemma sleep_end:
  assumes "millis \<le> 400000"
  shows "unat ((c AND 0xffffff) + (millis :: u32) * 10000 div 3125) = unat (c AND 0xffffff) + unat millis * 10000 div 3125"
    and "unat (c AND 0xffffff) + unat millis * 10000 div 3125 < 2 ^ 28"
proof -
  have m: "unat millis \<le> 400000" using assms by (simp add: word_le_nat_alt)
  then have p: "unat (millis * 10000) = unat millis * 10000" using unat_mult_lem [of millis 10000] by simp
  have d: "unat millis * 10000 div 3125 \<le> 1280000" using m by (simp add: div_le_mono [of _ 4000000000 3125, simplified])
  show "unat (c AND 0xffffff) + unat millis * 10000 div 3125 < 2 ^ 28" using d low24 [of c] by simp
  then show "unat ((c AND 0xffffff) + millis * 10000 div 3125) = unat (c AND 0xffffff) + unat millis * 10000 div 3125"
    by (subst unat_add_lem [THEN iffD1]) (simp_all add: unat_div p)
qed

lemma sleep_over_iff:
  assumes "millis \<le> 400000"
  shows "msleep_over (c AND 0xffffff) millis r \<longleftrightarrow> unat (c AND 0xffffff) + unat millis * 10000 div 3125 \<le> unat (r AND 0xffffff)"
proof -
  let ?s = "(c AND 0xffffff) + millis * 10000 div 3125"
  have "\<not> push_bit 28 1 \<le> ?s" using sleep_end [OF assms, of c] by (simp add: word_le_nat_alt)
  then show ?thesis by (simp add: msleep_over_def Let_def sleep_end(1) [OF assms] word_less_nat_alt not_less)
qed

text \<open>\<open>msleep\<close> returns with the first reading of the clock that has reached the end of the time, as long as this end is
  below \<open>2 ^ 24\<close>.  Otherwise it never returns, whatever the clock shows: the clock is read with 24 bits, but the end of the time is
  only taken back at \<open>2 ^ 28\<close>.  This is so in the last second of every 87 minutes for \<open>millis = 1000\<close>.\<close>

theorem msleep_ends_or_hangs:
  fixes c millis :: u32
  assumes "millis \<le> 400000"
  defines "stop \<equiv> unat (c AND 0xffffff) + unat millis * 10000 div 3125"
  shows "msleep millis (c # readings) =
    (if stop < 2 ^ 24 then
       (case dropWhile (\<lambda>r. unat (r AND 0xffffff) < stop) readings of [] \<Rightarrow> Inl Hang | _ # rest \<Rightarrow> Inr rest)
     else Inl Hang)"
proof -
  have over: "(\<not> msleep_over (c AND 0xffffff) millis r) = (unat (r AND 0xffffff) < stop)" for r
    unfolding sleep_over_iff [OF assms(1)] stop_def by (simp add: not_le)
  have eq: "msleep millis (c # readings) =
      (case dropWhile (\<lambda>r. unat (r AND 0xffffff) < stop) readings of [] \<Rightarrow> Inl Hang | _ # rest \<Rightarrow> Inr rest)"
    unfolding msleep_def Let_def wait_for_eq list.case over by (rule refl)
  have none: "dropWhile (\<lambda>r. unat (r AND 0xffffff) < stop) readings = []" if "\<not> stop < 2 ^ 24"
    unfolding dropWhile_eq_Nil_conv using low24 that by (meson not_less order.strict_trans1 order.strict_trans2)
  show ?thesis
  proof (cases "stop < 2 ^ 24")
    case True
    then show ?thesis unfolding eq by (simp only: if_True)
  next
    case False
    then show ?thesis unfolding eq none [OF False] by (simp only: if_False list.case)
  qed
qed

theorem msleep_ends_or_hangs_witness:
  "msleep 100 [5, 300, 324, 325, 326] = Inr [326] \<and> msleep 100 [0xffffff, 0xffffff, 0, 1] = Inl Hang"
  using msleep_ends_or_hangs [of 100 5 "[300, 324, 325, 326]"] msleep_ends_or_hangs [of 100 "0xffffff" "[0xffffff, 0, 1]"]
  by simp

section \<open>Drift\<close>

lemma clk_hop_clk [simp]: "clk (clk_hop s) = clk s"
  by (simp add: clk_hop_def Let_def)









section \<open>The hops of a connection\<close>

text \<open>The clock without corrections.\<close>

definition steady :: "snif \<Rightarrow> bool" where
  "steady s \<longleftrightarrow> clkn_offset (clk s) = 0 \<and> clk100ns_offset (clk s) = 0 \<and> clkn_next_drift_fix (clk s) = 0"

definition conn_steady :: "snif \<Rightarrow> bool" where
  "conn_steady s \<longleftrightarrow> steady s \<and> hop_mode s = HOP_BTLE \<and> l_link_state (le s) = LINK_CONNECTED"

lemma TIMER0_following:
  assumes "conn_steady s"
  defines "n \<equiv> clkn (clk s) + 1"
  shows "clkn (clk (rxtx_TIMER0 s)) = n" and "conn_steady (rxtx_TIMER0 s)"
    and "le (rxtx_TIMER0 s) = (if (n - l_conn_epoch (le s)) AND 3 \<noteq> 0 then le s
      else if l_interval_timer (le s) = 1 then (le s)\<lparr>l_conn_count := l_conn_count (le s) + 1, l_interval_timer := l_conn_interval (le s)\<rparr>
      else (le s)\<lparr>l_interval_timer := l_interval_timer (le s) - 1\<rparr>)"
    and "do_hop (rxtx_TIMER0 s) \<longleftrightarrow> do_hop s \<or> (n - l_conn_epoch (le s)) AND 3 = 0 \<and> l_interval_timer (le s) = 1"
  using assms by (auto simp: conn_steady_def steady_def rxtx_TIMER0_def clk_count_def clk_hop_def clk_drift_def clk_match_def Let_def)

text \<open>The clock's distance to the start of the connection, modulo 4, counts the quarters of a unit of 1.25 ms.\<close>

definition quarter :: "snif \<Rightarrow> nat" where
  "quarter s = unat (clkn (clk s) - l_conn_epoch (le s)) mod 4"

lemma mod4_zero: "(x :: u32) AND 3 = 0 \<longleftrightarrow> unat x mod 4 = 0"
proof -
  have "unat (x AND 3) = unat x mod 4" unfolding and_masks unsigned_take_bit_eq by (simp add: take_bit_eq_mod)
  then show ?thesis by (metis unat_eq_zero)
qed

lemma quarter_next:
  assumes "conn_steady s"
  shows "quarter (rxtx_TIMER0 s) = (quarter s + 1) mod 4"
    and "(clkn (clk s) + 1 - l_conn_epoch (le s)) AND 3 = 0 \<longleftrightarrow> quarter s = 3"
proof -
  let ?d = "clkn (clk s) - l_conn_epoch (le s)"
  have "unat (?d + 1) mod 4 = (unat ?d mod 4 + 1) mod 4"
    unfolding unat_word_ariths by (simp add: mod_mod_cancel mod_Suc_eq)
  moreover have d: "clkn (clk s) + 1 - l_conn_epoch (le s) = ?d + 1" by simp
  ultimately have q: "unat (clkn (clk s) + 1 - l_conn_epoch (le s)) mod 4 = (quarter s + 1) mod 4" unfolding quarter_def d by simp
  have e: "l_conn_epoch (le (rxtx_TIMER0 s)) = l_conn_epoch (le s)" unfolding TIMER0_following(3) [OF assms] by simp
  show "quarter (rxtx_TIMER0 s) = (quarter s + 1) mod 4" unfolding quarter_def e TIMER0_following(1) [OF assms] using q by (simp add: quarter_def)
  have "quarter s < 4" by (simp add: quarter_def)
  then show "(clkn (clk s) + 1 - l_conn_epoch (le s)) AND 3 = 0 \<longleftrightarrow> quarter s = 3"
    unfolding mod4_zero q by presburger
qed

text \<open>Before the hop.\<close>

lemma TIMER0_before_hop:
  assumes "conn_steady s" "quarter s = 0" "\<not> do_hop s" "m < 4 * unat (l_interval_timer (le s))"
  shows "let s' = (rxtx_TIMER0 ^^ m) s in conn_steady s' \<and> quarter s' = m mod 4 \<and> \<not> do_hop s' \<and>
    clkn (clk s') = clkn (clk s) + of_nat m \<and>
    le s' = (le s)\<lparr>l_interval_timer := l_interval_timer (le s) - of_nat (m div 4)\<rparr>"
  using assms(4)
proof (induction m)
  case 0
  then show ?case using assms(1-3) by simp
next
  case (Suc m)
  let ?s = "(rxtx_TIMER0 ^^ m) s" and ?k = "l_interval_timer (le s)"
  have I: "conn_steady ?s" "quarter ?s = m mod 4" "\<not> do_hop ?s" "clkn (clk ?s) = clkn (clk s) + of_nat m"
    "le ?s = (le s)\<lparr>l_interval_timer := ?k - of_nat (m div 4)\<rparr>" using Suc by (simp_all add: Let_def)
  have q: "m mod 4 = 3 \<Longrightarrow> Suc m div 4 = Suc (m div 4)" "m mod 4 \<noteq> 3 \<Longrightarrow> Suc m div 4 = m div 4" by presburger+
  have nz: "?k - of_nat (m div 4) \<noteq> 1" if "m mod 4 = 3"
  proof
    assume "?k - of_nat (m div 4) = 1"
    then have k: "?k = of_nat (Suc (m div 4))" by (simp add: diff_eq_eq)
    have "Suc (m div 4) < unat ?k" using Suc.prems q(1) [OF that] by linarith
    moreover have "unat ?k \<le> Suc (m div 4)" unfolding k unat_of_nat by (simp add: take_bit_nat_less_eq_self)
    ultimately show False by simp
  qed
  show ?case
  proof (cases "m mod 4 = 3")
    case True
    then show ?thesis using TIMER0_following [OF I(1)] quarter_next [OF I(1)] nz [OF True] I q(1) [OF True]
      by (simp add: Let_def mod_Suc algebra_simps)
  next
    case False
    then show ?thesis using TIMER0_following [OF I(1)] quarter_next [OF I(1)] I q(2) [OF False]
      by (simp add: Let_def mod_Suc algebra_simps)
  qed
qed

text \<open>C12 (functional).  A connection that is followed hops by the clock: with \<open>k\<close> left in the interval timer at the start of a unit of
  1.25 ms, the timer's handler asks for the hop at the end of the \<open>k\<close>-th unit and not before, counts the event and starts the next
  interval, again at the start of a unit.\<close>

theorem hops_by_interval:
  assumes "conn_steady s" and "quarter s = 0" and "\<not> do_hop s" and "0 < l_interval_timer (le s)"
  defines "k \<equiv> unat (l_interval_timer (le s))"
  shows "(\<forall>i \<in> {0..<4 * k}. \<not> do_hop ((rxtx_TIMER0 ^^ i) s)) \<and>
    (let s' = (rxtx_TIMER0 ^^ (4 * k)) s in do_hop s' \<and> conn_steady s' \<and> quarter s' = 0 \<and> clkn (clk s') = clkn (clk s) + of_nat (4 * k) \<and>
       le s' = (le s)\<lparr>l_conn_count := l_conn_count (le s) + 1, l_interval_timer := l_conn_interval (le s)\<rparr>)"
proof -
  let ?m = "4 * k - 1" and ?t = "l_interval_timer (le s)"
  let ?s = "(rxtx_TIMER0 ^^ ?m) s"
  have k: "0 < k" using assms(4) by (simp add: k_def unat_gt_0)
  then obtain j where j: "k = Suc j" by (cases k) simp_all
  then have "?m = 4 * j + 3" by simp
  then have m: "Suc ?m = 4 * k" "?m mod 4 = 3" "?m div 4 = k - 1" using j by simp_all
  have l: "?m < 4 * unat ?t" using k unfolding k_def by simp
  note I = TIMER0_before_hop [OF assms(1-3) l, unfolded Let_def m(2,3)]
  have one: "?t - of_nat (k - 1) = 1" using k by (simp add: k_def of_nat_diff)
  have s': "(rxtx_TIMER0 ^^ (4 * k)) s = rxtx_TIMER0 ?s" using m(1) by (metis funpow.simps(2) o_apply)
  have "of_nat ?m + 1 = (of_nat (4 * k) :: u32)" using m(1) by (metis of_nat_Suc add.commute)
  then have c: "clkn (clk s) + of_nat ?m + 1 = clkn (clk s) + of_nat (4 * k)" by (simp only: add.assoc)
  have "\<not> do_hop ((rxtx_TIMER0 ^^ i) s)" if "i < 4 * k" for i
    using TIMER0_before_hop [OF assms(1-3)] that by (simp add: Let_def k_def)
  moreover have "conn_steady (rxtx_TIMER0 ?s)" "quarter (rxtx_TIMER0 ?s) = 0" "do_hop (rxtx_TIMER0 ?s)"
    "clkn (clk (rxtx_TIMER0 ?s)) = clkn (clk s) + of_nat (4 * k)"
    "le (rxtx_TIMER0 ?s) = (le s)\<lparr>l_conn_count := l_conn_count (le s) + 1, l_interval_timer := l_conn_interval (le s)\<rparr>"
    using TIMER0_following [of ?s] quarter_next [of ?s] I one c by simp_all
  ultimately show ?thesis unfolding s' by (simp add: Let_def)
qed

theorem hops_by_interval_witness:
  "let s = snif_start\<lparr>hop_mode := HOP_BTLE, le := le_start\<lparr>l_link_state := LINK_CONNECTED, l_interval_timer := 6,
     l_conn_interval := 6\<rparr>\<rparr> in \<not> do_hop ((rxtx_TIMER0 ^^ 23) s) \<and> do_hop ((rxtx_TIMER0 ^^ 24) s)"
proof -
  let ?s = "snif_start\<lparr>hop_mode := HOP_BTLE, le := le_start\<lparr>l_link_state := LINK_CONNECTED, l_interval_timer := 6,
     l_conn_interval := 6\<rparr>\<rparr>"
  have "conn_steady ?s" "quarter ?s = 0" "\<not> do_hop ?s" "0 < l_interval_timer (le ?s)"
    by (simp_all add: conn_steady_def steady_def quarter_def snif_start_def clocks_start_def le_start_def)
  from hops_by_interval [OF this] show ?thesis by (simp add: Let_def)
qed

section \<open>Hopping over the channels\<close>

definition in_band :: "u16 \<Rightarrow> bool" where
  "in_band ch \<longleftrightarrow> 2402 \<le> ch \<and> ch \<le> 2480"

lemma afh_step_index:
  assumes "in_band ch"
  shows "in_band (afh_step ch)" and "unat (afh_step ch) = 2402 + (unat ch - 2402 + 32) mod 79"
proof -
  have c: "2402 \<le> unat ch" "unat ch \<le> 2480" using assms by (simp_all add: in_band_def word_le_nat_alt)
  have p: "unat (ch + 32) = unat ch + 32" using c by (subst unat_add_lem [THEN iffD1]) simp_all
  show u: "unat (afh_step ch) = 2402 + (unat ch - 2402 + 32) mod 79"
  proof (cases "unat ch \<le> 2448")
    case True
    then have "\<not> ch + 32 > 2480" by (simp add: word_less_nat_alt p)
    then show ?thesis using True c by (simp add: afh_step_def p)
  next
    case False
    then have g: "ch + 32 > 2480" by (simp add: word_less_nat_alt p)
    have "unat (ch + 32 - 79) = unat ch + 32 - 79" using c by (subst unat_sub) (simp_all add: word_le_nat_alt p)
    moreover have "(unat ch - 2402 + 32) mod 79 = unat ch - 2402 + 32 - 79" using c False by (simp add: mod_if)
    ultimately show ?thesis using g False c by (simp add: afh_step_def)
  qed
  show "in_band (afh_step ch)" unfolding in_band_def word_le_nat_alt u by simp
qed

lemma afh_steps:
  assumes "in_band ch"
  shows "in_band ((afh_step ^^ n) ch) \<and> unat ((afh_step ^^ n) ch) = 2402 + (unat ch - 2402 + 32 * n) mod 79"
proof (induction n)
  case 0
  have c: "2402 \<le> unat ch" "unat ch \<le> 2480" using assms by (simp_all add: in_band_def word_le_nat_alt)
  then have "unat ch - 2402 < 79" by arith
  then show ?case using assms c(1) by simp
next
  case (Suc n)
  have "((unat ch - 2402 + 32 * n) mod 79 + 32) mod 79 = (unat ch - 2402 + 32 * Suc n) mod 79"
    unfolding mod_add_left_eq by (simp add: algebra_simps)
  then show ?case using Suc afh_step_index [of "(afh_step ^^ n) ch"] by simp
qed

text \<open>The sequence of 79 hops visits every channel: 42 is the inverse of 32.\<close>

lemma sweep_visits:
  assumes "in_band ch"
  shows "set (map (\<lambda>n. (afh_step ^^ n) ch) [1..<80]) = {c. in_band c}"
proof (intro equalityI subsetI)
  fix c assume "c \<in> {c. in_band c}"
  then have c: "2402 \<le> unat c" "unat c \<le> 2480" and h: "2402 \<le> unat ch" "unat ch \<le> 2480"
    using assms by (simp_all add: in_band_def word_le_nat_alt)
  define d where "d = unat c - 2402 + 79 - (unat ch - 2402)"
  define m where "m = (42 * d) mod 79"
  define n where "n = (if m = 0 then 79 else m)"
  have "n mod 79 = m" "1 \<le> n" "n < 80" by (auto simp: n_def m_def)
  have "(32 * n) mod 79 = (32 * (n mod 79)) mod 79" by (simp add: mod_mult_right_eq)
  also have "\<dots> = (32 * (42 * d)) mod 79" by (simp add: \<open>n mod 79 = m\<close> m_def mod_mult_right_eq)
  also have "\<dots> = (d + 79 * (17 * d)) mod 79" by simp
  also have "\<dots> = d mod 79" by (rule mod_mult_self2)
  finally have "(unat ch - 2402 + 32 * n) mod 79 = (unat ch - 2402 + d) mod 79" by (metis mod_add_right_eq)
  also have "unat ch - 2402 + d = unat c - 2402 + 79" using h by (simp add: d_def)
  also have "(unat c - 2402 + 79) mod 79 = (unat c - 2402) mod 79" by (rule mod_add_self2)
  also have "\<dots> = unat c - 2402" by (rule mod_less) (use c in arith)
  finally have "unat ((afh_step ^^ n) ch) = unat c" using afh_steps [OF assms, of n] c by simp
  then have "c = (afh_step ^^ n) ch" by (simp add: word_unat_eq_iff)
  moreover have "n \<in> set [1..<80]" using \<open>1 \<le> n\<close> \<open>n < 80\<close> by simp
  ultimately show "c \<in> set (map (\<lambda>n. (afh_step ^^ n) ch) [1..<80])" unfolding set_map by blast
next
  fix c assume "c \<in> set (map (\<lambda>n. (afh_step ^^ n) ch) [1..<80])"
  then show "c \<in> {c. in_band c}" using afh_steps [OF assms] by auto
qed

text \<open>The bit of a channel in a map of ten bytes, and the first channel of the sequence with some property.\<close>

definition map_bit :: "u8 list \<Rightarrow> u16 \<Rightarrow> bool" where
  "map_bit m ch = bitat m (unat ch - 2402)"

definition first_channel :: "(u16 \<Rightarrow> bool) \<Rightarrow> u16 list \<Rightarrow> u16 res" where
  "first_channel p xs = (case filter p xs of [] \<Rightarrow> Inl Hang | c # _ \<Rightarrow> Inr c)"

lemma afh_bit_eq:
  assumes "length m = 10" and "in_band ch"
  shows "afh_bit m ch = Inr (map_bit m ch)"
proof -
  have c: "2402 \<le> unat ch" "unat ch \<le> 2480" using assms(2) by (simp_all add: in_band_def word_le_nat_alt)
  then have i: "(unat ch - 2402) div 8 < length m" using assms(1) by simp
  have "\<not> ch < 2402" using c by (simp add: word_less_nat_alt)
  moreover have "x AND push_bit k 1 \<noteq> 0 \<longleftrightarrow> bit x k" for x :: u8 and k
    by (rule bit_iff_and_push_bit_not_eq_0 [symmetric])
  ultimately show ?thesis using i by (simp add: afh_bit_def map_bit_def bitat_def)
qed

lemma afh_search_eq:
  assumes "length m = 10" and "in_band ch"
  shows "afh_search want n m ch = first_channel (\<lambda>c. map_bit m c = want) (map (\<lambda>k. (afh_step ^^ k) ch) [1..<Suc n])"
  using assms(2)
proof (induction n arbitrary: ch)
  case 0
  then show ?case by (simp add: first_channel_def)
next
  case (Suc n)
  have b: "in_band (afh_step ch)" by (rule afh_step_index [OF Suc.prems])
  have "map (\<lambda>k. (afh_step ^^ k) ch) [1..<Suc (Suc n)] = afh_step ch # map (\<lambda>k. (afh_step ^^ k) (afh_step ch)) [1..<Suc n]"
    by (simp add: upt_conv_Cons funpow_swap1 flip: map_Suc_upt del: upt_Suc)
  then show ?case using Suc.IH [OF b] by (simp add: afh_bit_eq [OF assms(1) b] Let_def first_channel_def del: upt_Suc)
qed

text \<open>Slow hopping.  Without a map of the used channels the sweep takes the channels in steps of 32, and 79 hops visit
  all of them.  With a map, the sweep goes to the next used channel of this sequence and the search for unused channels to the
  next unused one; if there is none, the search never ends.\<close>

theorem hops_in_map:
  assumes "in_band ch" and "length (rx_afh_map b) = 10"
  defines "next \<equiv> map (\<lambda>n. (afh_step ^^ n) ch) [1..<80]"
  shows "hop_sweep b ch = (if used_channels b \<noteq> 0 \<and> rx_afh_enabled b \<noteq> 0 then first_channel (map_bit (rx_afh_map b)) next else Inr (hd next))
    \<and> hop_afh b ch = (if used_channels b \<noteq> 79 then first_channel (\<lambda>c. \<not> map_bit (rx_afh_map b) c) next else Inr (hd next))
    \<and> set next = {c. in_band c}"
proof -
  have e: "afh_search want 80 (rx_afh_map b) ch = first_channel (\<lambda>c. map_bit (rx_afh_map b) c = want) next" for want
  proof -
    have "map (\<lambda>k. (afh_step ^^ k) ch) [1..<Suc 80] = next @ [(afh_step ^^ 80) ch]"
      unfolding next_def by (subst upt_Suc_append) simp_all
    moreover have "(afh_step ^^ 80) ch \<in> set next"
      using sweep_visits [OF assms(1)] afh_steps [OF assms(1), of 80] unfolding next_def by simp
    then have "filter (\<lambda>c. map_bit (rx_afh_map b) c = want) next = [] \<Longrightarrow> map_bit (rx_afh_map b) ((afh_step ^^ 80) ch) \<noteq> want"
      by (auto simp: filter_empty_conv)
    ultimately show ?thesis unfolding afh_search_eq [OF assms(2,1)] first_channel_def
      by (cases "filter (\<lambda>c. map_bit (rx_afh_map b) c = want) next") auto
  qed
  have h: "hd next = afh_step ch" by (simp add: next_def upt_conv_Cons)
  have "set next = {c. in_band c}" unfolding next_def by (rule sweep_visits [OF assms(1)])
  then show ?thesis by (simp add: hop_sweep_def hop_afh_def e h)
qed

theorem hops_in_map_witness:
  "hop_sweep ((bt_zero 0)\<lparr>rx_afh_enabled := 1, used_channels := 79, rx_afh_map := replicate 10 0xff\<rparr>) 2402 = Inr 2434"
proof -
  let ?b = "(bt_zero 0)\<lparr>rx_afh_enabled := 1, used_channels := 79, rx_afh_map := replicate 10 0xff\<rparr>"
  have n: "map (\<lambda>n. (afh_step ^^ n) 2402) [1..<80] = 2434 # map (\<lambda>n. (afh_step ^^ n) 2402) [Suc 1..<80]"
    by (subst upt_conv_Cons) (simp_all add: afh_step_def)
  have "map_bit (replicate 10 0xff) 2434" by (simp add: map_bit_def bitat_def nth_replicate)
  then show ?thesis using hops_in_map [of 2402 ?b] unfolding n by (simp add: in_band_def bt_zero_def first_channel_def)
qed

end
