(* ===== verification/Ego.thy ===== *)
theory Ego
  imports Sniffer
begin

text \<open>
  The receiver and jammer of firmware/bluetooth_rxtx/ego.c: a state machine whose states are functions, one table of them for each
  of its three modes, and the requests that set its access code and packet length.
\<close>

section \<open>State\<close>

datatype ego_state = EGO_ST_INIT | EGO_ST_START_RX | EGO_ST_CAP | EGO_ST_SLEEP | EGO_ST_START_JAMMING | EGO_ST_JAMMING

record ego_fsm =
  ego_st :: ego_state
  channel_index :: nat
  sleep_start :: u32
  sleep_duration :: u32
  timer_active :: bool
  packet_observed :: bool
  anchor :: u32

definition ego_channels :: "u16 list" where
  "ego_channels = [2408, 2418, 2423, 2469]"

abbreviation EGO_MAX_PACKET_LEN :: nat where "EGO_MAX_PACKET_LEN \<equiv> 48"
abbreviation EGO_FOLLOW :: u8 where "EGO_FOLLOW \<equiv> 0"
abbreviation EGO_CONTINUOUS_RX :: u8 where "EGO_CONTINUOUS_RX \<equiv> 1"
abbreviation EGO_JAM :: u8 where "EGO_JAM \<equiv> 2"

section \<open>Timing\<close>

definition sleep_ms :: "u32 \<Rightarrow> ego_fsm \<Rightarrow> snif \<Rightarrow> (ego_fsm \<times> snif) res" where
  "sleep_ms duration e s =
     bnd (CLK100NS s) (\<lambda>(t, s). Inr (e\<lparr>sleep_start := t, sleep_duration := duration * 1000 * 10\<rparr>, s))"

definition sleep_ms_anchor :: "u32 \<Rightarrow> ego_fsm \<Rightarrow> ego_fsm" where
  "sleep_ms_anchor duration e = e\<lparr>sleep_start := anchor e, sleep_duration := duration * 1000 * 10\<rparr>"

definition elapsed_at :: "u32 \<Rightarrow> ego_fsm \<Rightarrow> bool" where
  "elapsed_at now e =
     (let now = (if now < sleep_start e then now + 3276800000 else now) in now - sleep_start e \<ge> sleep_duration e)"

definition sleep_elapsed :: "ego_fsm \<Rightarrow> snif \<Rightarrow> (bool \<times> snif) res" where
  "sleep_elapsed e s = bnd (CLK100NS s) (\<lambda>(now, s). Inr (elapsed_at now e, s))"

section \<open>Radio\<close>

definition rf_on :: "snif \<Rightarrow> snif res" where
  "rf_on s =
     (let s = cc_set MANAND 0x7fff s;
          s = cc_set LMTST 0x2b22 s;
          s = cc_set MDMTST0 0x134b s;
          s = cc_set GRMDM 0x04e0 s;
          s = cc_set FSDIV (cur_channel s - 1) s;
          s = cc_set MDMCTRL 0x0040 s;
          s = cc_set GRDEC 3 s;
          s = cc_set SYNCH (ucast (drop_bit 16 (access_code s) AND 0xffff)) s;
          s = cc_set SYNCL (ucast (access_code s AND 0xffff)) s in
      bnd (cc_wait_xosc s) (\<lambda>s.
      bnd (wait_lock (cc_strobe SFSON (s\<lparr>dio_ssel := False\<rparr>))) (\<lambda>s.
      bnd (wait_fs_on s) (\<lambda>s. Inr (cc_strobe SRX s)))))"

text \<open>The bytes are stored in a buffer of 48, however many there are.\<close>

definition do_rx :: "u8 list \<Rightarrow> snif \<Rightarrow> (u8 list \<times> snif) res" where
  "do_rx rxbuf s =
     loop (unat (packet_len s)) (\<lambda>i (rxbuf, s).
       case in_ssp s of [] \<Rightarrow> Inl Hang
       | b # bs \<Rightarrow> bnd (wr rxbuf i b) (\<lambda>rxbuf. Inr (rxbuf, s\<lparr>in_ssp := bs\<rparr>))) (rxbuf, s)"

definition sync_received :: "snif \<Rightarrow> (bool \<times> snif) res" where
  "sync_received s = bnd (cc_status s) (\<lambda>(v, s). Inr (v AND 0x10 \<noteq> 0, s))"

text \<open>\<open>ego_packet_t\<close>: the buffer, followed by the time of the reception, which the copy of fifty bytes runs into.\<close>

definition ego_receive :: "u32 \<Rightarrow> snif \<Rightarrow> snif res" where
  "ego_receive rxtime s =
     bnd (do_rx (replicate EGO_MAX_PACKET_LEN 0) (s\<lparr>led_rx := True\<rparr>)) (\<lambda>(rxbuf, s).
     bnd (enqueue_with_ts EGO_PACKET (rxbuf @ mem_bytes 4 rxtime) rxtime s) (\<lambda>(_, s).
     Inr (s\<lparr>led_rx := False\<rparr>)))"

section \<open>States\<close>

type_synonym ego_st_handler = "ego_fsm \<Rightarrow> snif \<Rightarrow> (ego_fsm \<times> snif) res"

definition nop_state :: ego_st_handler where
  "nop_state e s = Inr (e, s)"

definition init_state :: ego_st_handler where
  "init_state e s = Inr (e\<lparr>channel_index := 0, ego_st := EGO_ST_START_RX\<rparr>, s\<lparr>cur_channel := ego_channels ! 0\<rparr>)"

definition start_rf_state :: ego_st_handler where
  "start_rf_state e s = bnd (rf_on s) (\<lambda>s. Inr (e\<lparr>ego_st := EGO_ST_CAP\<rparr>, s))"

definition ego_kill :: "snif \<Rightarrow> snif" where
  "ego_kill s = (cc_strobe SRFOFF s)\<lparr>dio_ssel := True\<rparr>"

definition cap_state :: ego_st_handler where
  "cap_state e s =
     bnd (CLK100NS s) (\<lambda>(rxtime, s).
     bnd (sleep_elapsed e s) (\<lambda>(over, s).
     bnd (if over then bnd (sleep_ms 4 e s) (\<lambda>(e, s). Inr (e\<lparr>ego_st := EGO_ST_SLEEP\<rparr>, s)) else Inr (e, s)) (\<lambda>(e, s).
     bnd (sync_received s) (\<lambda>(sync, s).
     bnd (if sync then
            bnd (ego_receive rxtime s) (\<lambda>s.
            bnd (sleep_ms 6 e s) (\<lambda>(e, s). Inr (e\<lparr>ego_st := EGO_ST_SLEEP\<rparr>, s)))
          else Inr (e, s)) (\<lambda>(e, s).
     if ego_st e \<noteq> EGO_ST_CAP then Inr (e\<lparr>timer_active := True\<rparr>, ego_kill s) else Inr (e, s))))))"

definition ego_next_channel :: "ego_fsm \<Rightarrow> snif \<Rightarrow> ego_fsm \<times> snif" where
  "ego_next_channel e s =
     (let i = (channel_index e + 1) mod 4 in (e\<lparr>channel_index := i\<rparr>, s\<lparr>cur_channel := ego_channels ! i\<rparr>))"

definition sleep_state :: ego_st_handler where
  "sleep_state e s =
     bnd (sleep_elapsed e s) (\<lambda>(over, s).
     if over then
       let (e, s) = ego_next_channel e s in
       bnd (sleep_ms 7 e s) (\<lambda>(e, s). Inr (e\<lparr>timer_active := True, ego_st := EGO_ST_START_RX\<rparr>, s))
     else Inr (e, s))"

definition continuous_init_state :: ego_st_handler where
  "continuous_init_state e s = Inr (e\<lparr>ego_st := EGO_ST_START_RX\<rparr>, s)"

text \<open>The flush of the serial interface takes what is left of its bytes.\<close>

definition continuous_cap_state :: ego_st_handler where
  "continuous_cap_state e s =
     bnd (CLK100NS s) (\<lambda>(rxtime, s).
     bnd (sync_received s) (\<lambda>(sync, s).
     if sync then
       bnd (ego_receive rxtime s) (\<lambda>s.
       bnd (wait_lock (cc_strobe SFSON (s\<lparr>dio_ssel := True\<rparr>))) (\<lambda>s.
       bnd (wait_fs_on s) (\<lambda>s.
       Inr (e, cc_strobe SRX (s\<lparr>in_ssp := [], dio_ssel := False\<rparr>)))))
     else Inr (e, s)))"

definition jam_cap_state :: ego_st_handler where
  "jam_cap_state e s =
     bnd (sync_received s) (\<lambda>(sync, s).
     bnd (if sync then
            bnd (CLK100NS s) (\<lambda>(t, s). Inr (e\<lparr>ego_st := EGO_ST_START_JAMMING, packet_observed := True, anchor := t\<rparr>, s))
          else Inr (e, s)) (\<lambda>(e, s).
     bnd (if timer_active e then sleep_elapsed e s else Inr (False, s)) (\<lambda>(over, s).
     bnd (if over then sleep_ms 11 (e\<lparr>ego_st := EGO_ST_START_JAMMING, packet_observed := False\<rparr>) s else Inr (e, s)) (\<lambda>(e, s).
     if ego_st e \<noteq> EGO_ST_CAP then Inr (e, ego_kill s) else Inr (e, s)))))"

definition start_jamming_state :: ego_st_handler where
  "start_jamming_state e s =
     (let s = cc_set MANAND 0x7fff s;
          s = cc_set LMTST 0x2b22 s;
          s = cc_set MDMTST0 0x334b s;
          s = cc_set GRMDM 0x04c0 s;
          s = cc_set FSDIV (cur_channel s) s;
          s = cc_set MDMCTRL 0x0026 s;
          s = cc_set GRDEC 3 s;
          s = cc_set FREND 0xf s in
      bnd (cc_start s) (\<lambda>s.
      bnd (wait_fs_on s) (\<lambda>s.
      Inr (sleep_ms_anchor 2 (e\<lparr>ego_st := EGO_ST_JAMMING\<rparr>), (cc_strobe STX (s\<lparr>pa_en := True\<rparr>))\<lparr>led_tx := True\<rparr>))))"

definition jamming_state :: ego_st_handler where
  "jamming_state e s =
     bnd (sleep_elapsed e s) (\<lambda>(over, s).
     if over then
       let (e, s) = ego_next_channel e ((cc_strobe SRFOFF s)\<lparr>pa_en := False, led_tx := False\<rparr>) in
       Inr (sleep_ms_anchor 6 (e\<lparr>ego_st := EGO_ST_SLEEP\<rparr>), s)
     else Inr (e, s))"

definition jam_sleep_state :: ego_st_handler where
  "jam_sleep_state e s =
     bnd (sleep_elapsed e s) (\<lambda>(over, s).
     Inr (if over then sleep_ms_anchor 11 (e\<lparr>ego_st := EGO_ST_START_RX, timer_active := True\<rparr>) else e, s))"

section \<open>The machine\<close>

fun follow_handler :: "ego_state \<Rightarrow> ego_st_handler" where
  "follow_handler EGO_ST_INIT = init_state"
| "follow_handler EGO_ST_START_RX = start_rf_state"
| "follow_handler EGO_ST_CAP = cap_state"
| "follow_handler EGO_ST_SLEEP = sleep_state"
| "follow_handler _ = nop_state"

fun continuous_rx_handler :: "ego_state \<Rightarrow> ego_st_handler" where
  "continuous_rx_handler EGO_ST_INIT = continuous_init_state"
| "continuous_rx_handler EGO_ST_START_RX = start_rf_state"
| "continuous_rx_handler EGO_ST_CAP = continuous_cap_state"
| "continuous_rx_handler _ = nop_state"

fun jam_handler :: "ego_state \<Rightarrow> ego_st_handler" where
  "jam_handler EGO_ST_INIT = init_state"
| "jam_handler EGO_ST_START_RX = start_rf_state"
| "jam_handler EGO_ST_CAP = jam_cap_state"
| "jam_handler EGO_ST_SLEEP = jam_sleep_state"
| "jam_handler EGO_ST_START_JAMMING = start_jamming_state"
| "jam_handler EGO_ST_JAMMING = jamming_state"

definition ego_handler :: "u8 \<Rightarrow> (ego_state \<Rightarrow> ego_st_handler) option" where
  "ego_handler m =
     (if m = EGO_FOLLOW then Some follow_handler
      else if m = EGO_CONTINUOUS_RX then Some continuous_rx_handler
      else if m = EGO_JAM then Some jam_handler else None)"

definition ego_fsm_init :: ego_fsm where
  "ego_fsm_init = \<lparr>ego_st = EGO_ST_INIT, channel_index = 0, sleep_start = 0, sleep_duration = 0, timer_active = False,
     packet_observed = False, anchor = 0\<rparr>"

text \<open>The main loop, \<open>n\<close> passes of it or until another mode is requested.\<close>

primrec ego_loop :: "nat \<Rightarrow> (ego_state \<Rightarrow> ego_st_handler) \<Rightarrow> ego_fsm \<Rightarrow> snif \<Rightarrow> (ego_fsm \<times> snif) res" where
  "ego_loop 0 h e s = Inr (e, s)"
| "ego_loop (Suc n) h e s =
     (if requested_mode s \<noteq> MODE_EGO then Inr (e, ego_kill s)
      else bnd (h (ego_st e) e s) (\<lambda>(e, s). ego_loop n h e s))"

definition ego_main :: "nat \<Rightarrow> u8 \<Rightarrow> snif \<Rightarrow> snif res" where
  "ego_main n m s =
     (let s = s\<lparr>clk := rxtx_clkn_start (clk s)\<rparr> in
      case ego_handler m of
        None \<Rightarrow> Inr (s\<lparr>requested_mode := MODE_IDLE\<rparr>)
      | Some h \<Rightarrow> bnd (ego_loop n h ego_fsm_init s) (\<lambda>(_, s). Inr s))"

section \<open>Requests\<close>

abbreviation RFCAT_SET_AA :: u16 where "RFCAT_SET_AA \<equiv> 1"
abbreviation RFCAT_CAP_LEN :: u16 where "RFCAT_CAP_LEN \<equiv> 2"

text \<open>The new bytes are counted by the old length, which is replaced afterwards.\<close>

definition rfcat_subcommand :: "u16 \<Rightarrow> u8 list \<Rightarrow> nat \<Rightarrow> snif \<Rightarrow> (bool \<times> snif) res" where
  "rfcat_subcommand cmd body body_len s =
     (if cmd = RFCAT_SET_AA then
        if body_len < 1 \<or> body_len > 4 then Inr (False, s)
        else
          bnd (loop 4 (\<lambda>i a.
            let a = push_bit 8 a in
            if i < access_code_len s then bnd (rd body i) (\<lambda>b. Inr (a OR ucast b)) else Inr a) (access_code s)) (\<lambda>a.
          Inr (True, s\<lparr>access_code := a, access_code_len := body_len\<rparr>))
      else if cmd = RFCAT_CAP_LEN then
        if body_len \<noteq> 1 then Inr (False, s) else bnd (rd body 0) (\<lambda>b. Inr (True, s\<lparr>packet_len := b\<rparr>))
      else Inr (False, s))"

end
