(* ===== verification/SniffLe.thy ===== *)
theory SniffLe
  imports Ego
begin

text \<open>
  The Low Energy code of firmware/bluetooth_rxtx/bluetooth_rxtx.c: the access address, following a connection whose CONNECT_REQ
  was seen, and the promiscuous mode, which finds a connection by its empty packets and recovers its CRC initial value, hop interval
  and hop increment.
\<close>

section \<open>State\<close>

definition le_set_access_address :: "u32 \<Rightarrow> le_state \<Rightarrow> le_state" where
  "le_set_access_address aa l =
     l\<lparr>l_access_address := aa, l_syncl := ucast (rbit aa AND 0xffff), l_synch := ucast (drop_bit 16 (rbit aa))\<rparr>"

definition reset_le :: "snif \<Rightarrow> snif" where
  "reset_le s =
     (let l = le_set_access_address 0x8e89bed6 (le s);
          l = l\<lparr>l_crc_init := 0x555555, l_crc_init_reversed := 0xAAAAAA, l_crc_verify := False, l_last_packet := 0\<rparr>;
          l = l\<lparr>l_link_state := LINK_INACTIVE, l_channel_idx := 0, l_channel_increment := 0\<rparr>;
          l = l\<lparr>l_conn_epoch := 0, l_interval_timer := 0, l_conn_interval := 0, l_conn_count := 0\<rparr>;
          l = l\<lparr>l_win_size := 0, l_win_offset := 0, l_update_pending := False, l_update_instant := 0\<rparr>;
          l = l\<lparr>l_interval_new := 0, l_win_size_new := 0, l_win_offset_new := 0\<rparr>
      in s\<lparr>le := l, do_hop := False\<rparr>)"

abbreviation AA_LIST_SIZE :: nat where "AA_LIST_SIZE \<equiv> 32"

definition reset_le_promisc :: "snif \<Rightarrow> snif" where
  "reset_le_promisc s =
     s\<lparr>le_promisc := \<lparr>active_aa = replicate AA_LIST_SIZE (0, 0), smallest_hop_interval = 0xffffffff, consec_intervals = 0\<rparr>\<rparr>"

definition le_promisc_state :: "u8 \<Rightarrow> u8 list \<Rightarrow> nat \<Rightarrow> snif \<Rightarrow> snif res" where
  "le_promisc_state type data len s =
     (let len = (if len > 49 then 49 else len) in
      bnd (window 1 (\<lambda>b. memcpy b data len) (type # replicate 49 0)) (\<lambda>buf.
      bnd (enqueue LE_PROMISC buf s) (\<lambda>(_, s). Inr s)))"

section \<open>Following a connection\<close>

text \<open>Two bytes of a packet, low byte first.\<close>

definition pkt_u16 :: "u8 list \<Rightarrow> nat \<Rightarrow> u16 res" where
  "pkt_u16 p i = bnd (rd p i) (\<lambda>lo. bnd (rd p (i + 1)) (\<lambda>hi. Inr (ucast lo + push_bit 8 (ucast hi))))"

definition pkt_u24 :: "u8 list \<Rightarrow> nat \<Rightarrow> u32 res" where
  "pkt_u24 p i =
     bnd (rd p (i + 2)) (\<lambda>b2. bnd (rd p (i + 1)) (\<lambda>b1. bnd (rd p i) (\<lambda>b0.
     Inr (push_bit 16 (ucast b2) OR push_bit 8 (ucast b1) OR ucast b0))))"

text \<open>\<open>memcmp\<close> of the six bytes of the target is 0.\<close>

definition is_target :: "le_state \<Rightarrow> u8 list \<Rightarrow> nat \<Rightarrow> bool res" where
  "is_target l p i = (if i + 6 \<le> length p \<and> 6 \<le> length (l_target l) then Inr (take 6 (drop i p) = take 6 (l_target l)) else Inl Oob)"

text \<open>The first packet of a pending connection.\<close>

definition follow_pending :: "snif \<Rightarrow> snif" where
  "follow_pending s =
     (let l = (le s)\<lparr>l_link_state := LINK_CONNECTED, l_conn_epoch := clkn (clk s),
            l_interval_timer := l_conn_interval (le s) - 1, l_conn_count := 0, l_update_pending := False\<rparr>;
          s = s\<lparr>le := l\<rparr>
      in if jam_mode s \<noteq> JAM_NONE then s\<lparr>le_jam_count := JAM_COUNT_DEFAULT\<rparr> else s)"

text \<open>A packet of the connection: a pending update takes effect, and the packet may announce another one.\<close>

definition follow_apply :: "u32 \<Rightarrow> le_state \<Rightarrow> le_state" where
  "follow_apply now l =
     (if l_update_pending l \<and> l_conn_count l = l_update_instant l then
        l\<lparr>l_conn_epoch := now, l_conn_interval := l_interval_new l, l_interval_timer := l_interval_new l - 1,
          l_win_size := l_win_size_new l, l_win_offset := l_win_offset_new l, l_update_pending := False\<rparr>
      else l)"

definition follow_connected :: "u8 list \<Rightarrow> u32 \<Rightarrow> le_state \<Rightarrow> le_state res" where
  "follow_connected p now l =
     bnd (rd p 4) (\<lambda>header.
     let l = follow_apply now l in
     bnd (if header AND 0x03 = 3 then rd p 6 else Inr 1) (\<lambda>op.
     if header AND 0x03 = 3 \<and> op = 0 then
       bnd (rd p 7) (\<lambda>ws. bnd (pkt_u16 p 8) (\<lambda>wo. bnd (pkt_u16 p 10) (\<lambda>iv. bnd (pkt_u16 p 16) (\<lambda>inst.
       let l = l\<lparr>l_win_size_new := ws, l_win_offset_new := wo, l_interval_new := iv, l_update_instant := inst\<rparr>
       in Inr (if int (unat inst) - int (unat (l_conn_count l)) < 32767 then l\<lparr>l_update_pending := True\<rparr> else l)))))
     else Inr l))"

text \<open>A CONNECT_REQ: checks, then the parameters of the connection.\<close>

definition follow_target :: "u8 list \<Rightarrow> le_state \<Rightarrow> bool res" where
  "follow_target p l =
     (if l_target_set l then bnd (is_target l p 6) (\<lambda>a. if a then Inr True else is_target l p 12) else Inr True)"

definition follow_request :: "u8 list \<Rightarrow> le_state \<Rightarrow> le_state res" where
  "follow_request p l =
     bnd (loop 4 (\<lambda>i aa. bnd (rd p (18 + i)) (\<lambda>b. Inr (aa OR push_bit (i * 8) (ucast b)))) 0) (\<lambda>aa.
     bnd (pkt_u24 p 22) (\<lambda>crc. bnd (rd p 25) (\<lambda>ws. bnd (rd p 26) (\<lambda>wo. bnd (pkt_u16 p 28) (\<lambda>iv. bnd (rd p 39) (\<lambda>inc.
     let l = le_set_access_address aa (l\<lparr>l_link_state := LINK_CONN_PENDING, l_crc_verify := False\<rparr>);
         l = l\<lparr>l_crc_init := crc, l_crc_init_reversed := rbit crc, l_win_size := ws, l_win_offset := ucast wo, l_conn_interval := iv\<rparr>
     in Inr (l\<lparr>l_channel_increment := inc AND 0x1f, l_channel_idx := inc AND 0x1f\<rparr>)))))))"

definition follow_listening :: "u8 list \<Rightarrow> snif \<Rightarrow> snif res" where
  "follow_listening p s =
     bnd (rd p 4) (\<lambda>h.
     if h AND 0x0F \<noteq> 5 then Inr s
     else
       bnd (rd p 5) (\<lambda>len.
       if len \<noteq> 34 then Inr s
       else
         bnd (pkt_u16 p 28) (\<lambda>iv.
         if iv < 6 \<or> iv > 3200 then Inr s
         else
           bnd (follow_target p (le s)) (\<lambda>t.
           if \<not> t then Inr s
           else bnd (follow_request p (le s)) (\<lambda>l. Inr (s\<lparr>le := l, do_hop := True\<rparr>))))))"

definition connection_follow_cb :: "u8 list \<Rightarrow> snif \<Rightarrow> snif res" where
  "connection_follow_cb p s =
     (case l_link_state (le s) of
        LINK_CONN_PENDING \<Rightarrow> Inr (follow_pending s)
      | LINK_CONNECTED \<Rightarrow> bnd (follow_connected p (clkn (clk s)) (le s)) (\<lambda>l. Inr (s\<lparr>le := l\<rparr>))
      | LINK_LISTENING \<Rightarrow> follow_listening p s
      | LINK_INACTIVE \<Rightarrow> Inr s)"

section \<open>Recovering a connection\<close>

abbreviation LE_BASECLK :: u32 where "LE_BASECLK \<equiv> 12500"

definition DIVIDE_ROUND :: "u32 \<Rightarrow> u32 \<Rightarrow> u32 res" where
  "DIVIDE_ROUND n d = (if d = 0 then Inl Div0 else Inr ((n + d div 2) div d))"

definition promisc_follow_cb :: "u8 list \<Rightarrow> snif \<Rightarrow> snif res" where
  "promisc_follow_cb p s =
     bnd (rd p 4) (\<lambda>p4. bnd (rd p 5) (\<lambda>p5.
     if \<not> l_crc_verify (le s) \<and> p4 = 1 \<and> p5 = 0 then
       bnd (pkt_u24 p 6) (\<lambda>crc.
       bnd (btle_reverse_crc crc (drop 4 p) 2) (\<lambda>init.
       let s = s\<lparr>le := (le s)\<lparr>l_crc_init := init, l_crc_init_reversed := reverse24 init, l_crc_verify := True\<rparr>,
                 packet_cb := Promisc_hop_interval\<rparr>
       in le_promisc_state 1 (mem_bytes 4 init) 3 s))
     else Inr s))"

text \<open>The distance to the packet before; early returns leave \<open>prev_clk\<close> as it is.\<close>

definition promisc_recover_hop_interval :: "snif \<Rightarrow> snif res" where
  "promisc_recover_hop_interval s =
     bnd (CLK100NS s) (\<lambda>(cur_clk, s).
     let cur_clk = (if cur_clk < prev_clk s then cur_clk + 3267800000 else cur_clk); clk_diff = cur_clk - prev_clk s in
     if clk_diff < 2 * LE_BASECLK then Inr s
     else
       let small = (if clk_diff < smallest_hop_interval (le_promisc s) then clk_diff else smallest_hop_interval (le_promisc s));
           s = s\<lparr>le_promisc := (le_promisc s)\<lparr>smallest_hop_interval := small\<rparr>\<rparr> in
       bnd (DIVIDE_ROUND small (37 * LE_BASECLK)) (\<lambda>q.
       let obsv = ucast q :: u16 in
       bnd (if l_conn_interval (le s) = obsv then
              let n = consec_intervals (le_promisc s) + 1; s = s\<lparr>le_promisc := (le_promisc s)\<lparr>consec_intervals := n\<rparr>\<rparr> in
              if n = 5
              then le_promisc_state 2 (mem_bytes 2 (l_conn_interval (le s))) 2
                     (s\<lparr>packet_cb := Promisc_hop_increment, hop_direct_channel := 2404, hop_mode := HOP_DIRECT, do_hop := True\<rparr>)
              else Inr s
            else Inr (s\<lparr>le := (le s)\<lparr>l_conn_interval := obsv\<rparr>, le_promisc := (le_promisc s)\<lparr>consec_intervals := 0\<rparr>\<rparr>)) (\<lambda>s.
       Inr (s\<lparr>prev_clk := cur_clk\<rparr>))))"

text \<open>The connection is known: go on with the following of the first section.\<close>

definition promisc_start_following :: "u8 \<Rightarrow> snif \<Rightarrow> snif res" where
  "promisc_start_following inc s =
     (let l = (le s)\<lparr>l_channel_increment := inc, l_interval_timer := l_conn_interval (le s) div 2, l_conn_count := 0, l_conn_epoch := 0,
            l_channel_idx := of_nat ((1 + unat inc) mod 37), l_link_state := LINK_CONNECTED, l_crc_verify := False\<rparr> in
      bnd (le_promisc_state 3 [inc] 1 (s\<lparr>le := l, do_hop := False, hop_mode := HOP_BTLE, packet_cb := Connection_follow\<rparr>)) (\<lambda>s.
      Inr (if jam_mode s \<noteq> JAM_NONE then s\<lparr>le_jam_count := JAM_COUNT_DEFAULT\<rparr> else s)))"

definition promisc_recover_hop_increment :: "snif \<Rightarrow> snif res" where
  "promisc_recover_hop_increment s =
     (if cur_channel s = 2404 then
        bnd (CLK100NS s) (\<lambda>(t, s). Inr (s\<lparr>first_ts := t, hop_direct_channel := 2406, do_hop := True\<rparr>))
      else if cur_channel s = 2406 then
        bnd (CLK100NS s) (\<lambda>(second_ts, s).
        let second_ts = (if second_ts < first_ts s then second_ts + 3276800000 else second_ts) in
        bnd (DIVIDE_ROUND (second_ts - first_ts s) (ucast (l_conn_interval (le s)) * LE_BASECLK)) (\<lambda>hopped.
        if hopped < 37 then bnd (rd hop_interval_lut (unat hopped)) (\<lambda>inc. promisc_start_following (of_nat inc) s)
        else Inr (s\<lparr>hop_direct_channel := 2404, do_hop := True\<rparr>)))
      else Inr (s\<lparr>hop_direct_channel := 2404, do_hop := True\<rparr>))"

text \<open>A call through the null pointer is a fault.\<close>

definition run_packet_cb :: "u8 list \<Rightarrow> snif \<Rightarrow> snif res" where
  "run_packet_cb p s =
     (case packet_cb s of
        No_packet_cb \<Rightarrow> Inl Oob
      | Connection_follow \<Rightarrow> connection_follow_cb p s
      | Promisc_follow \<Rightarrow> promisc_follow_cb p s
      | Promisc_hop_interval \<Rightarrow> promisc_recover_hop_interval s
      | Promisc_hop_increment \<Rightarrow> promisc_recover_hop_increment s)"

section \<open>The cache of access addresses\<close>

definition aa_victim :: "(u32 \<times> int) list \<Rightarrow> (int \<times> nat option)" where
  "aa_victim xs =
     fold (\<lambda>i (mx, kill). if snd (xs ! i) < mx \<or> mx < 0 then (snd (xs ! i), Some i) else (mx, kill)) [0..<length xs] (-1, None)"

primrec aa_find :: "u32 \<Rightarrow> (u32 \<times> int) list \<Rightarrow> nat option" where
  "aa_find aa [] = None"
| "aa_find aa (x # xs) = (if fst x = aa then Some 0 else map_option Suc (aa_find aa xs))"

definition see_aa :: "u32 \<Rightarrow> (u32 \<times> int) list \<Rightarrow> (u32 \<times> int) list res" where
  "see_aa aa xs =
     (case aa_find aa xs of
        Some i \<Rightarrow> Inr (xs[i := (fst (xs ! i), snd (xs ! i) + 1)])
      | None \<Rightarrow> (case snd (aa_victim xs) of None \<Rightarrow> Inl Oob | Some k \<Rightarrow> wr xs k (aa, 1)))"

end
