(* ===== verification/SniffReq.thy ===== *)
theory SniffReq
  imports SniffLe
begin

text \<open>
  The requests of the host, \<open>vendor_request_handler\<close> of firmware/bluetooth_rxtx/bluetooth_rxtx.c.  A request has a number, three
  parameters of 16 bits and a buffer; the answer is whether it is supported, the buffer and the number of bytes to send from it.
\<close>

section \<open>Answers\<close>

text \<open>The buffer, the length of the answer, and the state.\<close>

type_synonym answer = "(bool \<times> u8 list \<times> nat \<times> snif) res"

definition done_with :: "u8 list \<Rightarrow> nat \<Rightarrow> snif \<Rightarrow> answer" where
  "done_with data len s = Inr (True, data, len, s)"

definition stalled :: "u8 list \<Rightarrow> nat \<Rightarrow> snif \<Rightarrow> answer" where
  "stalled data len s = Inr (False, data, len, s)"

definition put_bytes_at :: "nat \<Rightarrow> u8 list \<Rightarrow> u8 list \<Rightarrow> u8 list res" where
  "put_bytes_at k xs data = window k (store_all xs) data"

text \<open>An answer of some bytes from the start of the buffer.\<close>

definition answer_bytes :: "u8 list \<Rightarrow> u8 list \<Rightarrow> snif \<Rightarrow> answer" where
  "answer_bytes xs data s = bnd (store_all xs data) (\<lambda>data. done_with data (length xs) s)"

definition flag_byte :: "bool \<Rightarrow> u8" where
  "flag_byte b = (if b then 1 else 0)"

text \<open>The 64 bits of an address, low byte first.\<close>

definition buf_u64 :: "u8 list \<Rightarrow> nat \<Rightarrow> u64 res" where
  "buf_u64 data k = loop 8 (\<lambda>i a. bnd (rd data (k + i)) (\<lambda>b. Inr (a OR push_bit (8 * i) (ucast b)))) 0"

definition buf_u32 :: "u8 list \<Rightarrow> u32 res" where
  "buf_u32 data = loop 4 (\<lambda>i a. bnd (rd data i) (\<lambda>b. Inr (a OR push_bit (8 * i) (ucast b)))) 0"

section \<open>Pins and the radio's registers\<close>

fun req_pins :: "u8 \<Rightarrow> u16 \<Rightarrow> u8 list \<Rightarrow> nat \<Rightarrow> snif \<Rightarrow> answer" where
  "req_pins r v data len s =
     (if r = 3 then answer_bytes [flag_byte (led_usr s)] data s
      else if r = 4 then done_with data len (s\<lparr>led_usr := (v \<noteq> 0)\<rparr>)
      else if r = 5 then answer_bytes [flag_byte (led_rx s)] data s
      else if r = 6 then done_with data len (s\<lparr>led_rx := (v \<noteq> 0)\<rparr>)
      else if r = 7 then answer_bytes [flag_byte (led_tx s)] data s
      else if r = 8 then done_with data len (s\<lparr>led_tx := (v \<noteq> 0)\<rparr>)
      else if r = 9 then answer_bytes [flag_byte (cc1v8 s)] data s
      else if r = 10 then done_with data len (s\<lparr>cc1v8 := (v \<noteq> 0)\<rparr>)
      else if r = 16 then answer_bytes [flag_byte (pa_en s)] data s
      else if r = 17 then done_with data len (s\<lparr>pa_en := (v \<noteq> 0)\<rparr>)
      else if r = 18 then answer_bytes [flag_byte (hgm s)] data s
      else done_with data len (s\<lparr>hgm := (v \<noteq> 0)\<rparr>))"

definition req_get_palevel :: "u8 list \<Rightarrow> snif \<Rightarrow> answer" where
  "req_get_palevel data s = bnd (cc_get s) (\<lambda>(v, s). answer_bytes [ucast (v AND 7)] data s)"

definition req_set_palevel :: "u16 \<Rightarrow> u8 list \<Rightarrow> nat \<Rightarrow> snif \<Rightarrow> answer" where
  "req_set_palevel v data len s = (if v < 8 then done_with data len (cc_set FREND (8 OR v) s) else stalled data len s)"

definition req_read_register :: "u8 list \<Rightarrow> snif \<Rightarrow> answer" where
  "req_read_register data s =
     bnd (cc_get s) (\<lambda>(v, s). answer_bytes [ucast (drop_bit 8 v AND 0xff), ucast (v AND 0xff)] data s)"

definition req_write_registers :: "u16 \<Rightarrow> u8 list \<Rightarrow> nat \<Rightarrow> snif \<Rightarrow> answer" where
  "req_write_registers n data len s =
     bnd (loop (unat n) (\<lambda>i s.
       bnd (rd data (i * 3 + 1)) (\<lambda>hi. bnd (rd data (i * 3 + 2)) (\<lambda>lo. bnd (rd data (i * 3)) (\<lambda>r.
       Inr (cc_set r (push_bit 8 (ucast hi) OR ucast lo) s))))) s) (\<lambda>s.
     done_with data len s)"

abbreviation MAX_READ_REG :: nat where "MAX_READ_REG \<equiv> 0x2d"

definition req_read_all_registers :: "u8 list \<Rightarrow> snif \<Rightarrow> answer" where
  "req_read_all_registers data s =
     bnd (loop (MAX_READ_REG + 1) (\<lambda>i (data, s).
       bnd (cc_get s) (\<lambda>(v, s).
       bnd (put_bytes_at (i * 3) [of_nat i, ucast (drop_bit 8 v AND 0xff), ucast (v AND 0xff)] data) (\<lambda>data.
       Inr (data, s)))) (data, s)) (\<lambda>(data, s).
     done_with data (MAX_READ_REG * 3) s)"

section \<open>Channels, modes and squelch\<close>

abbreviation MIN_FREQ :: u16 where "MIN_FREQ \<equiv> 2268"
abbreviation MAX_FREQ :: u16 where "MAX_FREQ \<equiv> 2794"

definition req_set_channel :: "u16 \<Rightarrow> snif \<Rightarrow> snif res" where
  "req_set_channel v s =
     (let s = (if v > MAX_FREQ then s\<lparr>hop_mode := HOP_SWEEP, requested_channel := 2402\<rparr>
               else s\<lparr>hop_mode := HOP_NONE, requested_channel := min (max v MIN_FREQ) MAX_FREQ\<rparr>);
          s = s\<lparr>adv_channel := requested_channel s\<rparr> in
      if op_mode s \<noteq> MODE_FOLLOW_LE then
        let s = s\<lparr>cur_channel := requested_channel s, requested_channel := 0\<rparr> in retune_squelch (cur_channel s) s
      else Inr s)"

definition req_specan :: "u16 \<Rightarrow> u16 \<Rightarrow> snif \<Rightarrow> bool \<times> nat \<times> snif" where
  "req_specan lo hi s =
     (if lo < 2049 \<or> lo > 3072 \<or> hi < 2049 \<or> hi > 3072 \<or> hi < lo then (False, 0, s)
      else (True, 0, s\<lparr>low_freq := lo, high_freq := hi, requested_mode := MODE_SPECAN\<rparr>))"

definition req_led_specan :: "u16 \<Rightarrow> snif \<Rightarrow> bool \<times> snif" where
  "req_led_specan v s =
     (if v > 256 then (False, s)
      else (True, s\<lparr>rssi_threshold := word_of_int (54 - uint v), requested_mode := MODE_LED_SPECAN\<rparr>))"

definition req_set_squelch :: "u16 \<Rightarrow> snif \<Rightarrow> snif res" where
  "req_set_squelch v s = retune_squelch (cur_channel s) (s\<lparr>cs := (cs s)\<lparr>cs_threshold_req := ucast v\<rparr>\<rparr>)"

section \<open>Bluetooth\<close>

definition req_set_bdaddr :: "u8 list \<Rightarrow> snif \<Rightarrow> snif res" where
  "req_set_bdaddr data s =
     bnd (buf_u64 data 0) (\<lambda>a. bnd (buf_u64 data 8) (\<lambda>w.
     bnd (precalc ((bt s)\<lparr>target_address := a, target_syncword := w\<rparr>)) (\<lambda>b. Inr (s\<lparr>bt := b\<rparr>))))"

definition buf_be16 :: "u8 list \<Rightarrow> nat \<Rightarrow> u16 res" where
  "buf_be16 data i = bnd (rd data i) (\<lambda>hi. bnd (rd data (i + 1)) (\<lambda>lo. Inr (push_bit 8 (ucast hi) OR ucast lo)))"

definition req_start_hopping :: "u8 list \<Rightarrow> snif \<Rightarrow> snif res" where
  "req_start_hopping data s =
     bnd (loop 4 (\<lambda>i o'. bnd (rd data i) (\<lambda>b. Inr (push_bit 8 o' OR ucast b))) 0) (\<lambda>off.
     bnd (buf_be16 data 4) (\<lambda>off100.
     Inr (s\<lparr>clk := (clk s)\<lparr>clkn_offset := off, clk100ns_offset := off100\<rparr>, hop_mode := HOP_BLUETOOTH, dma_discard := True,
       dio_ssel := True, requested_mode := MODE_BT_FOLLOW\<rparr>)))"

definition req_afh :: "snif \<Rightarrow> snif res" where
  "req_afh s =
     bnd (memset0 (rx_afh_map (bt s)) 10) (\<lambda>m.
     Inr (s\<lparr>hop_mode := HOP_AFH, requested_mode := MODE_AFH,
       bt := (bt s)\<lparr>rx_afh_map := m, used_channels := 0, rx_afh_enabled := 1\<rparr>\<rparr>))"

definition req_set_afhmap :: "u8 list \<Rightarrow> snif \<Rightarrow> snif res" where
  "req_set_afhmap data s =
     bnd (memcpy (rx_afh_map (bt s)) data 10) (\<lambda>m. Inr (s\<lparr>bt := (bt s)\<lparr>rx_afh_map := m, rx_afh_enabled := 1\<rparr>\<rparr>))"

definition req_clear_afhmap :: "snif \<Rightarrow> snif res" where
  "req_clear_afhmap s =
     bnd (memset0 (rx_afh_map (bt s)) 10) (\<lambda>m. Inr (s\<lparr>bt := (bt s)\<lparr>rx_afh_map := m, rx_afh_enabled := 0\<rparr>\<rparr>))"

definition req_set_clock :: "u8 list \<Rightarrow> snif \<Rightarrow> snif res" where
  "req_set_clock data s =
     bnd (buf_u32 data) (\<lambda>c. retune_squelch (cur_channel s) (s\<lparr>clk := (clk s)\<lparr>clkn := c\<rparr>\<rparr>))"

definition req_trim_clock :: "u8 list \<Rightarrow> snif \<Rightarrow> snif res" where
  "req_trim_clock data s = bnd (buf_be16 data 0) (\<lambda>o'. Inr (s\<lparr>clk := (clk s)\<lparr>clk100ns_offset := o'\<rparr>\<rparr>))"

definition drift_fix :: "clocks \<Rightarrow> clocks" where
  "drift_fix c =
     (let ppm = sint (clk_drift_ppm c) in
      if ppm < 0 then
        let n = word_of_int (320 sdiv uint (word_of_int (- ppm) :: u16))
        in c\<lparr>clk_drift_correction := n, clkn_next_drift_fix := clkn_last_drift_fix c + ucast n\<rparr>
      else if ppm > 0 then
        let n = word_of_int (320 sdiv ppm) in c\<lparr>clk_drift_correction := n, clkn_next_drift_fix := clkn_last_drift_fix c + ucast n\<rparr>
      else c\<lparr>clk_drift_correction := 0, clkn_next_drift_fix := 0\<rparr>)"

definition req_fix_clock_drift :: "u8 list \<Rightarrow> snif \<Rightarrow> snif res" where
  "req_fix_clock_drift data s =
     bnd (buf_be16 data 0) (\<lambda>d. Inr (s\<lparr>clk := drift_fix ((clk s)\<lparr>clk_drift_ppm := clk_drift_ppm (clk s) + d\<rparr>)\<rparr>))"

section \<open>Low Energy\<close>

definition req_btle_sniffing :: "u16 \<Rightarrow> snif \<Rightarrow> snif res" where
  "req_btle_sniffing v s =
     retune_squelch (cur_channel s)
       (s\<lparr>le := (le s)\<lparr>l_do_follow := v\<rparr>, do_hop := False, hop_mode := HOP_BTLE, requested_mode := MODE_FOLLOW_LE,
          ring := usb_queue_init (ring s)\<rparr>)"

definition req_btle_promisc :: "snif \<Rightarrow> snif res" where
  "req_btle_promisc s =
     retune_squelch (cur_channel s)
       (s\<lparr>hop_mode := HOP_NONE, requested_mode := MODE_BT_PROMISC_LE, ring := usb_queue_init (ring s)\<rparr>)"

definition req_set_access_address :: "u8 list \<Rightarrow> snif \<Rightarrow> snif res" where
  "req_set_access_address data s =
     bnd (buf_u32 data) (\<lambda>aa. Inr (s\<lparr>le := (le_set_access_address aa (le s))\<lparr>l_target_set := True\<rparr>\<rparr>))"

definition req_set_adv_data :: "u16 \<Rightarrow> u8 list \<Rightarrow> snif \<Rightarrow> (bool \<times> snif) res" where
  "req_set_adv_data n data s =
     (if unat n > LE_ADV_MAX_LEN then Inr (False, s)
      else bnd (memcpy (le_adv_data s) data (unat n)) (\<lambda>d. Inr (True, s\<lparr>le_adv_len := ucast n, le_adv_data := d\<rparr>)))"

text \<open>
  The mask of the target: whole bytes from the last one down while more than eight bits are left, then the first bits of the byte
  before; \<open>data[6]\<close> is counted down on the way.
\<close>

fun target_mask :: "nat \<Rightarrow> nat \<Rightarrow> u8 list \<Rightarrow> (nat \<times> nat \<times> u8 list) res" where
  "target_mask i bits m =
     (if bits > 8 then
        bnd (wr m i 0xff) (\<lambda>m. if i = 0 then Inl Oob else target_mask (i - 1) (bits - 8) m)
      else Inr (i, bits, m))"

declare target_mask.simps [simp del]

definition req_set_target :: "u8 list \<Rightarrow> nat \<Rightarrow> snif \<Rightarrow> answer" where
  "req_set_target data len s =
     bnd (rd data 6) (\<lambda>bits.
     if bits > 48 then stalled data len s
     else if bits = 0 then
       bnd (memset0 (l_target (le s)) 6) (\<lambda>t. bnd (memset0 (l_target_mask (le s)) 6) (\<lambda>m.
       done_with data len (s\<lparr>le := (le s)\<lparr>l_target := t, l_target_mask := m, l_target_set := False\<rparr>\<rparr>)))
     else
       bnd (loop 6 (\<lambda>i t. bnd (rd data (5 - i)) (\<lambda>b. wr t i b)) (l_target (le s))) (\<lambda>t.
       bnd (memset0 (l_target_mask (le s)) 6) (\<lambda>m.
       bnd (target_mask 5 (unat bits) m) (\<lambda>(last, left, m).
       bnd (if left > 0 then wr m last (fold (\<lambda>_ b. drop_bit 1 b OR 0x80) [0..<left] 0) else Inr m) (\<lambda>m.
       bnd (loop 5 (\<lambda>i t. bnd (rd t i) (\<lambda>b. bnd (rd m i) (\<lambda>k. wr t i (b AND k)))) t) (\<lambda>t.
       bnd (wr data 6 (of_nat left)) (\<lambda>data.
       done_with data len (s\<lparr>le := (le s)\<lparr>l_target := t, l_target_mask := m, l_target_set := True\<rparr>\<rparr>))))))))"

section \<open>Packets\<close>

definition req_poll :: "u8 list \<Rightarrow> snif \<Rightarrow> answer" where
  "req_poll data s =
     (case dequeue (ring s) of
        (Some i, r) \<Rightarrow>
          bnd (rd (ring_fifo r) i) (\<lambda>p. bnd (memcpy data (pkt_bytes p) 64) (\<lambda>data. done_with data 64 (s\<lparr>ring := r\<rparr>)))
      | (None, r) \<Rightarrow> answer_bytes [0] data (s\<lparr>ring := r\<rparr>))"

text \<open>The packet to send is copied as it is in memory; \<open>i\<close> has eight bits.\<close>

definition tx_pkt_bytes :: "tx_packet \<Rightarrow> u8 list" where
  "tx_pkt_bytes p = mem_bytes 2 (tx_synch p) @ mem_bytes 2 (tx_syncl p) @ mem_bytes 2 (tx_channel p) @
     [tx_length p, tx_pa_level p] @ tx_data p"

definition mem_u16 :: "u8 list \<Rightarrow> nat \<Rightarrow> u16" where
  "mem_u16 m i = ucast (m ! i) OR push_bit 8 (ucast (m ! (i + 1)))"

definition tx_pkt_of :: "u8 list \<Rightarrow> tx_packet" where
  "tx_pkt_of m = \<lparr>tx_synch = mem_u16 m 0, tx_syncl = mem_u16 m 2, tx_channel = mem_u16 m 4, tx_length = m ! 6, tx_pa_level = m ! 7,
     tx_data = drop 8 m\<rparr>"

definition req_tx_generic :: "u8 list \<Rightarrow> snif \<Rightarrow> snif res" where
  "req_tx_generic data s =
     bnd (rd data 6) (\<lambda>n.
     let i = 7 + n in
     bnd (memcpy (tx_pkt_bytes (tx_pkt s)) data (unat i)) (\<lambda>m.
     Inr (s\<lparr>tx_pkt := tx_pkt_of m, requested_mode := MODE_TX_GENERIC\<rparr>)))"

definition req_btle_slave :: "u8 list \<Rightarrow> snif \<Rightarrow> snif res" where
  "req_btle_slave data s =
     bnd (memcpy (slave_mac_address s) data 6) (\<lambda>m. Inr (s\<lparr>slave_mac_address := m, requested_mode := MODE_BT_SLAVE_LE\<rparr>))"

definition req_rev_num :: "u8 list \<Rightarrow> snif \<Rightarrow> answer" where
  "req_rev_num data s =
     (let n = of_nat (length (git_revision s)) :: u8 in
      bnd (store_all [0, 0, n] data) (\<lambda>data.
      bnd (window 3 (\<lambda>d. memcpy d (git_revision s) (unat n)) data) (\<lambda>data. done_with data (2 + 1 + unat n) s)))"

definition req_compile_info :: "u8 list \<Rightarrow> snif \<Rightarrow> answer" where
  "req_compile_info data s =
     (let n = of_nat (length (compile_info s)) :: u8 in
      bnd (store_all [n] data) (\<lambda>data.
      bnd (window 1 (\<lambda>d. memcpy d (compile_info s) (unat n)) data) (\<lambda>data. done_with data (1 + unat n) s)))"

section \<open>The handler\<close>

text \<open>
  The restart in the boot ROM's programming mode does not return.
\<close>

abbreviation BOARD_ID :: u8 where "BOARD_ID \<equiv> 1"

definition ok_if :: "u8 list \<Rightarrow> nat \<Rightarrow> bool \<times> snif \<Rightarrow> answer" where
  "ok_if data len r = (case r of (True, s) \<Rightarrow> done_with data len s | (False, s) \<Rightarrow> stalled data len s)"

definition vendor_request :: "u8 \<Rightarrow> u16 list \<Rightarrow> u8 list \<Rightarrow> nat \<Rightarrow> snif \<Rightarrow> answer" where
  "vendor_request r params data len s =
     bnd (rd params 0) (\<lambda>p0. bnd (rd params 1) (\<lambda>p1. bnd (rd params 2) (\<lambda>p2.
     let m = (\<lambda>mode. s\<lparr>requested_mode := mode\<rparr>); st = (\<lambda>len x. bnd x (\<lambda>s. done_with data len s)) in
     if r = 0 then done_with data 0 s
     else if r = 1 then done_with data 0 (m MODE_RX_SYMBOLS)
     else if r = 2 then done_with data 0 ((m MODE_TX_SYMBOLS)\<lparr>hop_mode := HOP_BLUETOOTH\<rparr>)
     else if 3 \<le> r \<and> r \<le> 10 \<or> 16 \<le> r \<and> r \<le> 19 then req_pins r p0 data len s
     else if r = 11 then answer_bytes [ucast (cur_channel s AND 0xff), ucast (drop_bit 8 (cur_channel s) AND 0xff)] data s
     else if r = 12 then st len (req_set_channel p0 s)
     else if r = 13 then done_with data len (m MODE_RESET)
     else if r = 14 then bnd (get_device_serial (iap s) data) (\<lambda>(d, n). done_with d n s)
     else if r = 15 then bnd (get_part_num (iap s) data) (\<lambda>(d, n). done_with d n s)
     else if r = 20 then done_with data len (m MODE_TX_TEST)
     else if r = 21 then done_with data len (m MODE_IDLE)
     else if r = 22 then answer_bytes [modulation s] data s
     else if r = 23 then done_with data len (s\<lparr>modulation := ucast p0\<rparr>)
     else if r = 24 then Inl Hang
     else if r = 25 then done_with data len ((m MODE_RESET)\<lparr>dfu := True\<rparr>)
     else if r = 27 then (case req_specan p0 p1 s of (True, n, s) \<Rightarrow> done_with data n s | (False, _, s) \<Rightarrow> stalled data len s)
     else if r = 28 then req_get_palevel data s
     else if r = 29 then req_set_palevel p0 data len s
     else if r = 30 then done_with data len (m MODE_REPEATER)
     else if r = 31 then done_with data len (m MODE_RANGE_TEST)
     else if r = 32 then answer_bytes (take 5 (rr s)) data s
     else if r = 33 then req_rev_num data s
     else if r = 34 then (case req_led_specan p0 s of (True, s) \<Rightarrow> done_with data 0 s | (False, s) \<Rightarrow> stalled data len s)
     else if r = 35 then answer_bytes [BOARD_ID] data s
     else if r = 36 then st len (req_set_squelch p0 s)
     else if r = 37 then answer_bytes [cs_threshold_req (cs s)] data s
     else if r = 38 then st len (req_set_bdaddr data s)
     else if r = 39 then st len (req_start_hopping data s)
     else if r = 40 then st len (req_set_clock data s)
     else if r = 41 then answer_bytes (mem_bytes 4 (clkn (clk s))) data s
     else if r = 42 then st 0 (req_btle_sniffing p0 s)
     else if r = 43 then answer_bytes (mem_bytes 4 (l_access_address (le s))) data s
     else if r = 44 then st len (req_set_access_address data s)
     else if r = 45 then done_with data len s
     else if r = 46 then answer_bytes [0x13, 0x37] data s
     else if r = 47 then answer_bytes [flag_byte (l_crc_verify (le s))] data s
     else if r = 48 then done_with data len (s\<lparr>le := (le s)\<lparr>l_crc_verify := (p0 \<noteq> 0)\<rparr>\<rparr>)
     else if r = 49 then req_poll data s
     else if r = 50 then st 0 (req_btle_promisc s)
     else if r = 51 then st 10 (req_set_afhmap data s)
     else if r = 52 then st 10 (req_clear_afhmap s)
     else if r = 53 then req_read_register data s
     else if r = 54 then st len (req_btle_slave data s)
     else if r = 55 then req_compile_info data s
     else if r = 56 then req_set_target data len s
     else if r = 58 then done_with data len (cc_set (ucast (p0 AND 0xff)) p1 s)
     else if r = 59 then done_with data len (s\<lparr>jam_mode := ucast p0\<rparr>)
     else if r = 60 then done_with data len ((m MODE_EGO)\<lparr>ego_mode := ucast p0\<rparr>)
     else if r = 61 then st len (req_afh s)
     else if r = 62 then done_with data len (s\<lparr>do_hop := True\<rparr>)
     else if r = 63 then st len (req_trim_clock data s)
     else if r = 65 then req_write_registers p0 data len s
     else if r = 66 then req_read_all_registers data s
     else if r = 67 then done_with data 0 (m MODE_RX_GENERIC)
     else if r = 68 then st 0 (req_tx_generic data s)
     else if r = 69 then st len (req_fix_clock_drift data s)
     else if r = 70 then done_with data len (s\<lparr>follow_cancelled := True\<rparr>)
     else if r = 71 then bnd (req_set_adv_data p2 data s) (ok_if data len)
     else if r = 72 then bnd (rfcat_subcommand p0 data len s) (ok_if data len)
     else if r = 73 then done_with data len (m MODE_XMAS)
     else stalled data len s)))"

end
