(* ===== verification/SniffRun.thy ===== *)
theory SniffRun
  imports SniffReq
begin

text \<open>
  The modes of firmware/bluetooth_rxtx/bluetooth_rxtx.c and its main loop.  Interrupts come at the points where a loop waits: each pass
  of a waiting loop has the interrupts that come before it as an input.
\<close>

section \<open>Interrupts\<close>

text \<open>The timer, carrier sense, the DMA (end, error, and the bytes it has written), a request of the host.\<close>

datatype irq = Timer0 | Eint3 | Dma bool bool "u8 list" | Usb u8 "u16 list" "u8 list" nat

fun rxtx_irq :: "irq \<Rightarrow> snif \<Rightarrow> snif res" where
  "rxtx_irq Timer0 s = Inr (rxtx_TIMER0 s)"
| "rxtx_irq Eint3 s = Inr (rxtx_EINT3 s)"
| "rxtx_irq (Dma tc err bytes) s = legacy_DMA tc err (dma_fill bytes s)"
| "rxtx_irq (Usb r params data len) s = bnd (vendor_request r params data len s) (\<lambda>(_, _, _, s). Inr s)"

primrec run_irqs :: "irq list \<Rightarrow> snif \<Rightarrow> snif res" where
  "run_irqs [] s = Inr s"
| "run_irqs (i # is) s = bnd (rxtx_irq i s) (run_irqs is)"

text \<open>\<open>while (!p) body\<close>; a pass consumes the interrupts before it.\<close>

primrec wait_until :: "(snif \<Rightarrow> bool) \<Rightarrow> (snif \<Rightarrow> snif res) \<Rightarrow> irq list list \<Rightarrow> snif \<Rightarrow> (irq list list \<times> snif) res" where
  "wait_until p body [] s = Inl Hang"
| "wait_until p body (is # rest) s =
     bnd (run_irqs is s) (\<lambda>s. if p s then Inr (rest, s) else bnd (body s) (wait_until p body rest))"

section \<open>Receiving symbols\<close>

definition set_flag :: "u8 \<Rightarrow> bool \<Rightarrow> snif \<Rightarrow> snif" where
  "set_flag f b s = (if b then s\<lparr>usb_status := usb_status s OR f\<rparr> else s)"

text \<open>A sample of the signal strength; the first one after a trigger is at least the threshold.  0x80 is \<open>INT8_MIN\<close>.\<close>

definition sample_rssi :: "u8 \<Rightarrow> snif \<Rightarrow> (u8 \<times> snif) res" where
  "sample_rssi at_trigger s =
     bnd (cc_get s) (\<lambda>(v, s).
     let v = ucast (drop_bit 8 v) :: u8;
         hit = (cs_trigger (cs s) \<and> at_trigger = 0x80);
         v = (if hit then word_of_int (max (sint v) (sint (cs_threshold_cur (cs s)) + 54)) else v)
     in Inr (if hit then v else at_trigger, s\<lparr>sig := rssi_add v (sig s)\<rparr>))"

primrec stream_wait :: "(irq list \<times> u8) list \<Rightarrow> u8 \<Rightarrow> snif \<Rightarrow> snif res" where
  "stream_wait [] at_trigger s = Inl Hang"
| "stream_wait (x # rest) at_trigger s =
     bnd (run_irqs (fst x) s) (\<lambda>s.
     if rx_tc s \<noteq> 0 then Inr s
     else
       bnd (sample_rssi at_trigger s) (\<lambda>(at_trigger, s).
       bnd (host_usb (snd x) s) (\<lambda>s.
       bnd (if do_hop s then rxtx_hop s else Inr (s\<lparr>led_tx := False\<rparr>)) (stream_wait rest at_trigger))))"

text \<open>The status of a transfer, and whether a trigger has opened the squelch.\<close>

definition transfer_flags :: "snif \<Rightarrow> snif" where
  "transfer_flags s = set_flag DMA_OVERFLOW (rx_tc s > 1) (set_flag DMA_ERROR (rx_err s \<noteq> 0) s)"

definition trigger_flags :: "snif \<Rightarrow> bool \<times> snif" where
  "trigger_flags s =
     (let cst = (cs_trigger (cs s) \<or> cs_no_squelch (cs s));
          s = (if cst then (set_flag CS_TRIGGER True s)\<lparr>cs := (cs s)\<lparr>cs_trigger := False\<rparr>\<rparr> else s);
          strong = (sint (rssi_max (sig s)) \<ge> sint (cs_threshold_cur (cs s)) + 54)
      in (cst \<or> strong, set_flag RSSI_TRIGGER strong s))"

definition stream_packet :: "u8 \<Rightarrow> snif \<Rightarrow> snif res" where
  "stream_packet epstat s =
     (let s = transfer_flags (s\<lparr>led_rx := True\<rparr>);
          s = (if dma_discard s then (set_flag DISCARD True s)\<lparr>dma_discard := False\<rparr> else s) in
      bnd (rssi_filter (cur_channel s) (sig s)) (\<lambda>r.
      let (_, s) = trigger_flags (s\<lparr>sig := r\<rparr>) in
      bnd (enqueue BR_PACKET (idle_rxbuf s) s) (\<lambda>(_, s).
      bnd (host_usb epstat s) (\<lambda>s. Inr (s\<lparr>rx_tc := 0, rx_err := 0\<rparr>)))))"

definition stream_pass :: "(irq list \<times> u8) list \<Rightarrow> u8 \<Rightarrow> snif \<Rightarrow> snif res" where
  "stream_pass items epstat s =
     bnd (stream_wait items 0x80 (s\<lparr>led_rx := False, sig := rssi_reset (sig s)\<rparr>)) (stream_packet epstat)"

definition stream_start :: "snif \<Rightarrow> snif res" where
  "stream_start s =
     (let s = dma_init_rx_symbols (s\<lparr>led_rx := False, ring := usb_queue_init (ring s), dio_ssel := True\<rparr>) in
      bnd (cc2400_rx (snif_ssp_start s)) (\<lambda>s. Inr (s\<lparr>cs := cs_trigger_enable (cs s)\<rparr>)))"

definition stream_stop :: "snif \<Rightarrow> snif" where
  "stream_stop s = (snif_ssp_stop s)\<lparr>cs := cs_trigger_disable (cs s)\<rparr>"

primrec stream_loop :: "((irq list \<times> u8) list \<times> u8) list \<Rightarrow> snif \<Rightarrow> snif res" where
  "stream_loop [] s = (if requested_mode s = MODE_RX_SYMBOLS \<or> requested_mode s = MODE_BT_FOLLOW then Inl Hang else Inr (stream_stop s))"
| "stream_loop (x # xs) s =
     (if requested_mode s = MODE_RX_SYMBOLS \<or> requested_mode s = MODE_BT_FOLLOW
      then bnd (stream_pass (fst x) (snd x) s) (stream_loop xs) else Inr (stream_stop s))"

definition bt_stream_rx :: "((irq list \<times> u8) list \<times> u8) list \<Rightarrow> snif \<Rightarrow> snif res" where
  "bt_stream_rx xs s = bnd (stream_start s) (stream_loop xs)"

section \<open>Sending Bluetooth packets\<close>

definition rxtx_reverse8 :: "u8 \<Rightarrow> u8" where
  "rxtx_reverse8 data = fold (\<lambda>i r. r OR push_bit (7 - i) (drop_bit i data AND 1)) [0..<8] 0"

definition rxtx_reverse16 :: "u16 \<Rightarrow> u16" where
  "rxtx_reverse16 data = fold (\<lambda>i r. r OR push_bit (15 - i) (drop_bit i data AND 1)) [0..<16] 0"

definition br_preamble :: "u64 \<Rightarrow> u16" where
  "br_preamble w = (if w AND 1 = 1 then 0x5555 else 0xaaaa)"

definition br_trailer :: "u64 \<Rightarrow> u8" where
  "br_trailer w = (if drop_bit 63 w AND 1 = 1 then 0xaa else 0x55)"

definition br_packet :: "u64 \<Rightarrow> u8 list" where
  "br_packet w = map rxtx_reverse8 (mem_bytes 8 w @ [br_trailer w, 0x77, 0x66, 0x55, 0x44, 0x33, 0x22, 0x11])"

text \<open>One packet: wait for the slot, fill the FIFO, wait for the end, tune and send again.\<close>

primrec br_wait :: "u32 \<Rightarrow> irq list list \<Rightarrow> snif \<Rightarrow> snif res" where
  "br_wait saved [] s = Inl Hang"
| "br_wait saved (is # rest) s =
     bnd (run_irqs is s) (\<lambda>s.
     let same = (drop_bit 1 (clkn (clk s)) = drop_bit 1 saved) in
     bnd (if same then Inr (True, s)
          else (case in_t0tc s of [] \<Rightarrow> Inl Hang | t # ts \<Rightarrow> Inr (t < 2250, s\<lparr>in_t0tc := ts\<rparr>))) (\<lambda>(again, s).
     if again then bnd (if do_hop s then rxtx_hop s else Inr s) (br_wait saved rest) else Inr s))"

definition br_pass :: "u8 list \<Rightarrow> irq list list \<Rightarrow> u8 \<Rightarrow> u32 \<Rightarrow> snif \<Rightarrow> (u32 \<times> snif) res" where
  "br_pass data items epstat saved s =
     (bnd (br_wait saved items s) (\<lambda>s.
      let saved = clkn (clk s) in
      bnd (wait_fs_on (cc_fifo_write data (s\<lparr>led_tx := True\<rparr>))) (\<lambda>s.
      bnd (wait_unlock (cc_strobe SRFOFF (s\<lparr>led_tx := False\<rparr>))) (\<lambda>s.
      bnd (cc_start s) (\<lambda>s.
      bnd (wait_fs_on s) (\<lambda>s.
      bnd (host_usb epstat (cc_strobe STX s)) (\<lambda>s. Inr (saved, s))))))))"

definition br_start :: "snif \<Rightarrow> (u16 \<times> snif) res" where
  "br_start s =
     bnd (cc2400_tx_sync (ucast (rxtx_reverse16 (br_preamble (target_syncword (bt s))))) s) (\<lambda>s.
     bnd (cc_get (cc_set CC_INT 0x0014 s)) (\<lambda>(gio_save, s).
     Inr (gio_save, cc_set IOCFG (push_bit 9 39 OR (gio_save AND 0x1ff)) s)))"

primrec br_loop :: "u8 list \<Rightarrow> (irq list list \<times> u8) list \<Rightarrow> u32 \<Rightarrow> snif \<Rightarrow> snif res" where
  "br_loop data [] saved s = (if requested_mode s = MODE_TX_SYMBOLS then Inl Hang else Inr s)"
| "br_loop data (x # xs) saved s =
     (if requested_mode s = MODE_TX_SYMBOLS then bnd (br_pass data (fst x) (snd x) saved s) (\<lambda>(saved, s). br_loop data xs saved s) else Inr s)"

definition br_transmit :: "(irq list list \<times> u8) list \<Rightarrow> snif \<Rightarrow> snif res" where
  "br_transmit xs s =
     (let data = br_packet (target_syncword (bt s)) in
     bnd (br_start s) (\<lambda>(gio_save, s).
     bnd (br_loop data xs 0 s) (\<lambda>s. Inr (cc_set IOCFG gio_save (s\<lparr>pa_en := False\<rparr>)))))"

end
