(* ===== verification/SniffModes.thy ===== *)
theory SniffModes
  imports SniffRun
begin

text \<open>
  The Low Energy and the generic modes of firmware/bluetooth_rxtx/bluetooth_rxtx.c, its spectrum analyser and the main loop.
\<close>

section \<open>Searching a stream of LE symbols\<close>

text \<open>
  Byte \<open>j\<close> of the packet whose first symbol is at \<open>start\<close>; the symbols from the fifth byte on are unwhitened, those behind the buffer
  are left out.
\<close>

definition unpack_byte :: "nat \<Rightarrow> u8 list \<Rightarrow> nat \<Rightarrow> nat \<Rightarrow> u8 res" where
  "unpack_byte idx u start j =
     loop 8 (\<lambda>k byte.
       let offset = k + j * 8 + start in
       if offset \<ge> RX_DMA_SIZE * 8 * 2 then Inr byte
       else
         bnd (rd u offset) (\<lambda>bit.
         let bit = (if j \<ge> 4 then bit XOR whitening ! ((idx + 8 * (j - 4) + k) mod 127) else bit)
         in Inr (byte OR push_bit k bit))) 0"

definition unpack_packet :: "nat \<Rightarrow> nat \<Rightarrow> u8 list \<Rightarrow> nat \<Rightarrow> u8 list \<Rightarrow> u8 list res" where
  "unpack_packet n idx u start buf = loop n (\<lambda>j buf. bnd (unpack_byte idx u start j) (wr buf j)) buf"

definition aa_shift :: "u32 \<Rightarrow> u8 \<Rightarrow> u32" where
  "aa_shift aa b = drop_bit 1 aa OR push_bit 31 (ucast b)"

text \<open>The CRC of the packet after its four bytes of access address, compared with the three bytes behind the payload.\<close>

definition crc_matches :: "u32 \<Rightarrow> u8 list \<Rightarrow> bool res" where
  "crc_matches init buf =
     bnd (rd buf 5) (\<lambda>b.
     let len = unat (b AND 0x3f) + 2 in
     bnd (btle_crcgen_lut init (drop 4 buf) len) (\<lambda>calc.
     bnd (pkt_u24 buf (4 + len)) (\<lambda>wire. Inr (calc = wire))))"

definition follow_found :: "nat \<Rightarrow> nat \<Rightarrow> snif \<Rightarrow> snif res" where
  "follow_found idx i s =
     bnd (unpack_packet 46 idx (unpacked s) (i - 31) (idle_rxbuf s)) (\<lambda>buf.
     let s = set_idle_rxbuf buf s in
     bnd (if l_crc_verify (le s) then crc_matches (l_crc_init_reversed (le s)) buf else Inr True) (\<lambda>good.
     if good then
       bnd (enqueue LE_PACKET buf s) (\<lambda>(_, s). run_packet_cb buf (s\<lparr>led_rx := True\<rparr>))
     else Inr s))"

primrec follow_search :: "nat \<Rightarrow> nat \<Rightarrow> u32 \<Rightarrow> snif \<Rightarrow> snif res" where
  "follow_search idx 0 aa s = Inr s"
| "follow_search idx (Suc n) aa s =
     (let i = RX_DMA_SIZE * 8 + 32 - Suc n in
      bnd (rd (unpacked s) i) (\<lambda>b.
      let aa = aa_shift aa b in
      if aa = l_access_address (le s) then follow_found idx i s else follow_search idx n aa s))"

definition cb_follow_le :: "snif \<Rightarrow> snif res" where
  "cb_follow_le s =
     bnd (rd whitening_index (unat (btle_channel_index (cur_channel s)))) (\<lambda>idx.
     bnd (loop 31 (\<lambda>i aa. bnd (rd (unpacked s) i) (\<lambda>b. Inr (aa_shift aa b))) 0) (\<lambda>aa.
     follow_search idx (RX_DMA_SIZE * 8 + 1) aa s))"

section \<open>Promiscuous mode\<close>

text \<open>The header of an empty packet for the four values of its sequence bits, as symbols, and whitened.\<close>

definition empty_headers :: "u8 list list" where
  "empty_headers = [
    [1, 0, 0, 0, 0, 0, 0, 0, 0, 0, 0, 0, 0, 0, 0, 0],
    [1, 0, 0, 1, 0, 0, 0, 0, 0, 0, 0, 0, 0, 0, 0, 0],
    [1, 0, 1, 0, 0, 0, 0, 0, 0, 0, 0, 0, 0, 0, 0, 0],
    [1, 0, 1, 1, 0, 0, 0, 0, 0, 0, 0, 0, 0, 0, 0, 0]]"

definition desired_headers :: "nat \<Rightarrow> u8 list list" where
  "desired_headers idx = map (\<lambda>d. map (\<lambda>j. d ! j XOR whitening ! ((idx + j) mod 127)) [0..<16]) empty_headers"

definition promisc_found :: "nat \<Rightarrow> nat \<Rightarrow> snif \<Rightarrow> snif res" where
  "promisc_found idx i s =
     bnd (unpack_packet (4 + 3 + 3) idx (unpacked s) (i - 32) (idle_rxbuf s)) (\<lambda>buf.
     let s = set_idle_rxbuf buf s in
     bnd (buf_u32 buf) (\<lambda>aa.
     bnd (see_aa aa (active_aa (le_promisc s))) (\<lambda>xs.
     bnd (enqueue LE_PACKET buf (s\<lparr>le_promisc := (le_promisc s)\<lparr>active_aa := xs\<rparr>\<rparr>)) (\<lambda>(_, s). Inr s))))"

definition promisc_search :: "nat \<Rightarrow> snif \<Rightarrow> snif res" where
  "promisc_search idx s =
     loop (RX_DMA_SIZE * 8 * 2 - 32 - 16 - 32) (\<lambda>k s.
       let i = k + 32 in
       if length (unpacked s) < i + 16 then Inl Oob
       else if take 16 (drop i (unpacked s)) \<in> set (desired_headers idx) then promisc_found idx i s else Inr s) s"

text \<open>The result says whether to go on; the first address that was seen more than three times is followed.\<close>

definition cb_le_promisc :: "snif \<Rightarrow> (bool \<times> snif) res" where
  "cb_le_promisc s =
     bnd (rd whitening_index (unat (btle_channel_index (cur_channel s)))) (\<lambda>idx.
     bnd (promisc_search idx s) (\<lambda>s.
     case filter (\<lambda>x. snd x > 3) (active_aa (le_promisc s)) of
       [] \<Rightarrow> Inr (True, s)
     | x # _ \<Rightarrow>
         let l = (le_set_access_address (fst x) (le s))\<lparr>l_crc_verify := False\<rparr> in
         bnd (le_promisc_state 0 (mem_bytes 4 (l_access_address l)) 4
           (s\<lparr>le := l, data_cb := Follow_le, packet_cb := Promisc_follow\<rparr>)) (\<lambda>s. Inr (False, s))))"

definition run_data_cb :: "snif \<Rightarrow> (bool \<times> snif) res" where
  "run_data_cb s =
     (case data_cb s of
        No_data_cb \<Rightarrow> Inl Oob
      | Follow_le \<Rightarrow> bnd (cb_follow_le s) (\<lambda>s. Inr (True, s))
      | Le_promisc \<Rightarrow> cb_le_promisc s)"

section \<open>The generic LE mode\<close>

text \<open>One symbol per byte: the symbols of the buffer are appended to those of the one before.\<close>

definition unpack_symbols :: "u8 list \<Rightarrow> u8 list" where
  "unpack_symbols bytes = concat (map (\<lambda>b. map (\<lambda>j. drop_bit (7 - j) b AND 1) [0..<8]) bytes)"

definition generic_unpack :: "snif \<Rightarrow> snif" where
  "generic_unpack s =
     (let b = take RX_DMA_SIZE (idle_rxbuf s) in
      set_idle_rxbuf (replicate RX_DMA_SIZE 0) (s\<lparr>unpacked := drop (RX_DMA_SIZE * 8) (unpacked s) @ unpack_symbols b\<rparr>))"

abbreviation CS_HOLD_TIME :: nat where "CS_HOLD_TIME \<equiv> 2"

definition radio_retune :: "snif \<Rightarrow> snif res" where
  "radio_retune s =
     (if requested_channel s \<noteq> 0 then
        bnd (wait_unlock (cc_strobe SRFOFF s)) (\<lambda>s.
        bnd (wait_lock (cc_strobe SFSON (cc_set FSDIV (cur_channel s - 1) s))) (\<lambda>s.
        Inr ((cc_strobe SRX s)\<lparr>requested_channel := 0\<rparr>)))
      else Inr s)"

primrec generic_wait :: "irq list list \<Rightarrow> u8 \<Rightarrow> snif \<Rightarrow> snif res" where
  "generic_wait [] at_trigger s = Inl Hang"
| "generic_wait (is # rest) at_trigger s =
     bnd (run_irqs is s) (\<lambda>s.
     if rx_tc s \<noteq> 0 \<or> rx_err s \<noteq> 0 then Inr s
     else bnd (sample_rssi at_trigger s) (\<lambda>(at_trigger, s). generic_wait rest at_trigger s))"

text \<open>A pass; the result has whether to go on and for how many packets the squelch stays open.\<close>

definition generic_pass :: "irq list list \<Rightarrow> nat \<Rightarrow> snif \<Rightarrow> (bool \<times> nat \<times> snif) res" where
  "generic_pass items hold s =
     (let clear = (\<lambda>s. s\<lparr>rx_tc := 0, rx_err := 0\<rparr>) in
      bnd (radio_retune s) (\<lambda>s.
      bnd (if do_hop s then rxtx_hop s else Inr (s\<lparr>led_tx := False\<rparr>)) (\<lambda>s.
      bnd (generic_wait items 0x80 (s\<lparr>led_rx := False, sig := rssi_reset (sig s)\<rparr>)) (\<lambda>s.
      if rx_tc s = 0 then Inr (True, hold, clear (set_flag DMA_ERROR (rx_err s \<noteq> 0) s))
      else
        bnd (rssi_filter (cur_channel s) (sig s)) (\<lambda>r.
        let (opened, s) = trigger_flags ((transfer_flags s)\<lparr>sig := r\<rparr>); hold = (if opened then CS_HOLD_TIME else hold) in
        if hold = 0 then Inr (True, 0, clear s)
        else
          bnd (run_data_cb (generic_unpack s)) (\<lambda>(cont, s).
          Inr (cont, hold - 1, if cont then clear s else s)))))))"

definition generic_start :: "u8 \<Rightarrow> snif \<Rightarrow> snif res" where
  "generic_start active s =
     (let s = reset_le (s\<lparr>modulation := MOD_BT_LOW_ENERGY, op_mode := active\<rparr>);
          s = dma_init_rx_symbols (s\<lparr>led_rx := False, ring := usb_queue_init (ring s), dio_ssel := True\<rparr>) in
      bnd (cc2400_rx (snif_ssp_start s)) (\<lambda>s. Inr (s\<lparr>cs := cs_trigger_enable (cs s)\<rparr>)))"

definition generic_stop :: "snif \<Rightarrow> snif res" where
  "generic_stop s = bnd (cc2400_idle s) (\<lambda>s. Inr (stream_stop s))"

primrec generic_loop :: "u8 \<Rightarrow> irq list list list \<Rightarrow> nat \<Rightarrow> snif \<Rightarrow> snif res" where
  "generic_loop active [] hold s = (if requested_mode s = active then Inl Hang else generic_stop s)"
| "generic_loop active (x # xs) hold s =
     (if requested_mode s = active then
        bnd (generic_pass x hold s) (\<lambda>(cont, hold, s). if cont then generic_loop active xs hold s else generic_stop s)
      else generic_stop s)"

definition bt_generic_le :: "u8 \<Rightarrow> irq list list list \<Rightarrow> snif \<Rightarrow> snif res" where
  "bt_generic_le active xs s = bnd (generic_start active s) (generic_loop active xs 0)"

section \<open>The synchronised LE mode\<close>

text \<open>Four bytes from the air as a word with the first bit lowest, unwhitened; the words of the packet after its access address.\<close>

definition sync_word :: "nat \<Rightarrow> u8 list \<Rightarrow> nat \<Rightarrow> u32 res" where
  "sync_word idx rx k =
     bnd (rd rx (4 * k)) (\<lambda>b0. bnd (rd rx (4 * k + 1)) (\<lambda>b1. bnd (rd rx (4 * k + 2)) (\<lambda>b2. bnd (rd rx (4 * k + 3)) (\<lambda>b3.
     Inr (rbit (push_bit 24 (ucast b0) OR push_bit 16 (ucast b1) OR push_bit 8 (ucast b2) OR ucast b3) XOR whitening_word ! idx ! k)))))"

text \<open>The packet as it lies in memory: the access address, eleven words, and a word of zeros.\<close>

definition sync_packet :: "u32 \<Rightarrow> nat \<Rightarrow> u8 list \<Rightarrow> u8 list res" where
  "sync_packet aa idx rx =
     bnd (loop 11 (\<lambda>k p. bnd (sync_word idx rx k) (\<lambda>w. wr p (k + 1) w)) (aa # replicate 12 0)) (\<lambda>p.
     Inr (concat (map (mem_bytes 4) p)))"

definition le_sync_receive :: "snif \<Rightarrow> snif res" where
  "le_sync_receive s =
     (let idx = unat (btle_channel_index (cur_channel s)) in
      bnd (sync_word idx (rxbuf1 s) 0) (\<lambda>w.
      let len = unat (mem_bytes 4 w ! 1 AND 0x3f) + 2 in
      if len > 39 then Inr s
      else
        bnd (sync_packet (l_access_address (le s)) idx (rxbuf1 s)) (\<lambda>p.
        let s = cc_strobe SFSON s in
        bnd (if l_crc_verify (le s) then crc_matches (l_crc_init_reversed (le s)) p else Inr True) (\<lambda>good.
        if \<not> good then Inr s
        else
          bnd (run_packet_cb p (s\<lparr>led_rx := True\<rparr>)) (\<lambda>s.
          bnd (enqueue LE_PACKET p s) (\<lambda>(_, s).
          bnd (CLK100NS s) (\<lambda>(t, s). Inr (s\<lparr>le := (le s)\<lparr>l_last_packet := t\<rparr>\<rparr>))))))))"

text \<open>The connection is given up five seconds after its last packet, or when the jamming is over.\<close>

definition le_sync_over :: "u32 \<Rightarrow> snif \<Rightarrow> bool" where
  "le_sync_over now s =
     (let now = (if now < l_last_packet (le s) then now + 3276800000 else now)
      in (l_link_state (le s) = LINK_CONNECTED \<or> l_link_state (le s) = LINK_CONN_PENDING) \<and> now - l_last_packet (le s) > 50000000
         \<or> le_jam_count s = 1)"

text \<open>The result is \<open>False\<close> to leave the mode.\<close>

definition le_sync_give_up :: "u8 \<Rightarrow> snif \<Rightarrow> (bool \<times> snif) res" where
  "le_sync_give_up active s =
     (let s = (reset_le s)\<lparr>le_jam_count := 0, led_tx := False\<rparr> in
      if jam_mode s = JAM_ONCE then Inr (False, s\<lparr>jam_mode := JAM_NONE, requested_mode := MODE_IDLE\<rparr>)
      else if active = MODE_BT_PROMISC_LE then Inr (False, s)
      else
        bnd (wait_unlock (cc_strobe SRFOFF (s\<lparr>le := (le s)\<lparr>l_link_state := LINK_LISTENING\<rparr>\<rparr>))) (\<lambda>s.
        Inr (True, s\<lparr>cur_channel := (if adv_channel s \<noteq> 0 then adv_channel s else 2402), restart_jamming := True\<rparr>)))"

definition le_sync_restart :: "snif \<Rightarrow> snif res" where
  "le_sync_restart s =
     (let s = cc_set SYNCH (l_synch (le s)) (cc_set SYNCL (l_syncl (le s)) s) in
      bnd (if do_hop s then rxtx_hop s else Inr s) (\<lambda>s.
      bnd (if le_jam_count s > 0 then bnd (le_jam s) (\<lambda>s. Inr (s\<lparr>le_jam_count := le_jam_count s - 1\<rparr>))
           else
             let s = snif_ssp_start (dma_init_le s) in
             if restart_jamming s
             then bnd (cc2400_rx_sync (rbit (l_access_address (le s))) s) (\<lambda>s. Inr (s\<lparr>restart_jamming := False\<rparr>))
             else bnd (wait_lock s) (\<lambda>s. Inr (cc_strobe SRX s))) (\<lambda>s.
      Inr (s\<lparr>rx_tc := 0, rx_err := 0\<rparr>))))"

definition le_sync_flush :: "u8 \<Rightarrow> snif \<Rightarrow> (bool \<times> snif) res" where
  "le_sync_flush active s =
     bnd (CLK100NS (cc_strobe SFSON s)) (\<lambda>(now, s).
     bnd (if le_sync_over now s then le_sync_give_up active s else Inr (True, s)) (\<lambda>(cont, s).
     if cont then bnd (le_sync_restart s) (\<lambda>s. Inr (True, s)) else Inr (False, s)))"

text \<open>A pass; the waits for the rest of the DMA are left out, \<open>rxbuf1\<close> is taken to hold the packet.\<close>

definition le_sync_pass :: "u8 \<Rightarrow> irq list list \<Rightarrow> snif \<Rightarrow> (bool \<times> snif) res" where
  "le_sync_pass active items s =
     bnd (radio_retune s) (\<lambda>s.
     bnd (wait_until (\<lambda>s. rx_tc s \<noteq> 0 \<or> rx_err s \<noteq> 0 \<or> do_hop s \<or> requested_mode s \<noteq> active) Inr items
       (s\<lparr>led_rx := False, sig := rssi_reset (sig s)\<rparr>)) (\<lambda>(_, s).
     bnd (cc_get s) (\<lambda>(v, s).
     let rssi = ucast (drop_bit 8 v); s = s\<lparr>sig := (sig s)\<lparr>rssi_min := rssi, rssi_max := rssi\<rparr>\<rparr> in
     if requested_mode s \<noteq> active then Inr (False, s)
     else
       let s = set_flag DMA_ERROR (rx_err s \<noteq> 0) s in
       if do_hop s then le_sync_flush active s
       else if rx_tc s = 0 then Inr (True, s)
       else bnd (le_sync_receive s) (le_sync_flush active))))"

definition le_sync_start :: "u8 \<Rightarrow> snif \<Rightarrow> snif res" where
  "le_sync_start active s =
     (let s = s\<lparr>modulation := MOD_BT_LOW_ENERGY, op_mode := active, le := (le s)\<lparr>l_link_state := LINK_LISTENING\<rparr>,
                led_rx := False, ring := usb_queue_init (ring s), dio_ssel := True\<rparr>
      in cc2400_rx_sync (rbit (l_access_address (le s))) (snif_ssp_start (dma_init_le s)))"

primrec le_sync_loop :: "u8 \<Rightarrow> irq list list list \<Rightarrow> snif \<Rightarrow> snif res" where
  "le_sync_loop active [] s = (if requested_mode s = active then Inl Hang else generic_stop s)"
| "le_sync_loop active (x # xs) s =
     (if requested_mode s = active then bnd (le_sync_pass active x s) (\<lambda>(cont, s). if cont then le_sync_loop active xs s else generic_stop s)
      else generic_stop s)"

definition bt_le_sync :: "u8 \<Rightarrow> irq list list list \<Rightarrow> snif \<Rightarrow> snif res" where
  "bt_le_sync active xs s = bnd (le_sync_start active s) (le_sync_loop active xs)"

text \<open>A pass of the promiscuous mode's loop, with the inputs of the two modes it goes through.\<close>

definition promisc_pass :: "irq list list list \<Rightarrow> irq list list list \<Rightarrow> snif \<Rightarrow> (bool \<times> snif) res" where
  "promisc_pass xs ys s =
     (let s = reset_le_promisc s;
          s = (if cur_channel s AND 1 = 1 then s\<lparr>cur_channel := 2440\<rparr> else s) in
      bnd (if l_target_set (le s) then Inr s
           else bnd (retune_squelch (cur_channel s) s) (\<lambda>s. bt_generic_le MODE_BT_PROMISC_LE xs (s\<lparr>data_cb := Le_promisc\<rparr>))) (\<lambda>s.
      if requested_mode s \<noteq> MODE_BT_PROMISC_LE then Inr (False, s)
      else
        bnd (le_promisc_state 0 (mem_bytes 4 (l_access_address (le s))) 4 s) (\<lambda>s.
        bnd (bt_le_sync MODE_BT_PROMISC_LE ys (s\<lparr>packet_cb := Promisc_follow, le := (le s)\<lparr>l_crc_verify := False\<rparr>\<rparr>)) (\<lambda>s.
        Inr (True, s)))))"

end
