(* ===== verification/SniffPromisc.thy ===== *)
theory SniffPromisc
  imports SniffModes
begin

text \<open>
  The promiscuous mode of the sniffer: the cache of access addresses, the recovery of the CRC's initial value and of the hop
  increment, the measurement of the hop interval, and the end of the mode.
\<close>

section \<open>The cache of access addresses\<close>

lemma aa_find_Some:
  "aa_find aa xs = Some i \<Longrightarrow> i < length xs \<and> fst (xs ! i) = aa"
  by (induction xs arbitrary: i) (auto split: if_splits)

lemma aa_find_None: "aa_find aa xs = None \<longleftrightarrow> aa \<notin> fst ` set xs"
  by (induction xs) auto

text \<open>The victim has the smallest count.\<close>

lemma aa_victim_min:
  assumes "xs \<noteq> []" and "\<forall>x \<in> set xs. 0 \<le> snd x"
  shows "\<exists>k. snd (aa_victim xs) = Some k \<and> k < length xs \<and> (\<forall>j < length xs. snd (xs ! k) \<le> snd (xs ! j))"
proof -
  have c: "0 \<le> snd (xs ! i)" if "i < length xs" for i using assms(2) that by simp
  let ?step = "\<lambda>i (mx, kill). if snd (xs ! i) < mx \<or> mx < 0 then (snd (xs ! i), Some i) else (mx, kill)"
  have "0 < n \<Longrightarrow> n \<le> length xs \<Longrightarrow> \<exists>k. fold ?step [0..<n] (-1, None) = (snd (xs ! k), Some k) \<and> k < n \<and> (\<forall>j < n. snd (xs ! k) \<le> snd (xs ! j))" for n
  proof (induction n)
    case (Suc n)
    show ?case
    proof (cases n)
      case 0
      then show ?thesis by simp
    next
      case (Suc m)
      then obtain k where k: "fold ?step [0..<n] (-1, None) = (snd (xs ! k), Some k)" "k < n" "\<forall>j < n. snd (xs ! k) \<le> snd (xs ! j)"
        using Suc.IH Suc.prems by auto
      have nn: "\<not> snd (xs ! k) < 0" using c [of k] k(2) Suc.prems by simp
      show ?thesis
      proof (cases "snd (xs ! n) < snd (xs ! k)")
        case True
        then have "\<forall>j < Suc n. snd (xs ! n) \<le> snd (xs ! j)" using k(3) by (auto simp: less_Suc_eq)
        then show ?thesis using k(1) True by (intro exI [of _ n]) simp
      next
        case False
        then have "\<forall>j < Suc n. snd (xs ! k) \<le> snd (xs ! j)" using k(3) by (auto simp: less_Suc_eq)
        then show ?thesis using k(1,2) False nn by (intro exI [of _ k]) simp
      qed
    qed
  qed simp
  from this [of "length xs"] show ?thesis using assms(1) by (auto simp: aa_victim_def)
qed

text \<open>The cache after a number of sightings.\<close>

primrec see_all :: "u32 list \<Rightarrow> (u32 \<times> int) list \<Rightarrow> (u32 \<times> int) list res" where
  "see_all [] xs = Inr xs"
| "see_all (a # as) xs = bnd (see_aa a xs) (see_all as)"

text \<open>What the cache holds after the sightings \<open>seen\<close>: no count is too high; and while there are no more addresses than entries, each address
  that was seen has one entry with its exact count.\<close>

definition aa_exact :: "u32 list \<Rightarrow> (u32 \<times> int) list \<Rightarrow> bool" where
  "aa_exact seen xs \<longleftrightarrow>
     (\<forall>i < AA_LIST_SIZE. fst (xs ! i) = 0 \<and> snd (xs ! i) = 0 \<or>
        fst (xs ! i) \<in> set seen \<and> snd (xs ! i) = int (count_list seen (fst (xs ! i)))) \<and>
     (\<forall>i < AA_LIST_SIZE. \<forall>j < AA_LIST_SIZE. i \<noteq> j \<longrightarrow> fst (xs ! i) = fst (xs ! j) \<longrightarrow> fst (xs ! i) = 0) \<and>
     (\<forall>a \<in> set seen. \<exists>i < AA_LIST_SIZE. fst (xs ! i) = a)"

definition aa_ok :: "u32 list \<Rightarrow> (u32 \<times> int) list \<Rightarrow> bool" where
  "aa_ok seen xs \<longleftrightarrow> length xs = AA_LIST_SIZE \<and> 0 \<notin> set seen \<and>
     (\<forall>i < AA_LIST_SIZE. 0 \<le> snd (xs ! i) \<and> snd (xs ! i) \<le> int (count_list seen (fst (xs ! i)))) \<and>
     (card (set seen) \<le> AA_LIST_SIZE \<longrightarrow> aa_exact seen xs)"

lemma count_pos: "a \<in> set xs \<Longrightarrow> 0 < count_list xs a"
  by (induction xs) auto

lemma aa_ok_start: "aa_ok [] (replicate AA_LIST_SIZE (0, 0))"
  by (simp add: aa_ok_def aa_exact_def)

text \<open>A free entry.\<close>

lemma aa_free:
  assumes "aa_exact seen xs" "0 \<notin> set seen" "card (set seen) < AA_LIST_SIZE"
  shows "\<exists>i < AA_LIST_SIZE. xs ! i = (0, 0)"
proof (rule ccontr)
  assume n: "\<not> ?thesis"
  have s: "fst (xs ! i) \<in> set seen" if "i < AA_LIST_SIZE" for i
  proof -
    have "fst (xs ! i) = 0 \<and> snd (xs ! i) = 0 \<or> fst (xs ! i) \<in> set seen" using assms(1) that unfolding aa_exact_def by blast
    then show ?thesis using n that by (metis prod.collapse)
  qed
  have "inj_on (\<lambda>i. fst (xs ! i)) {0..<AA_LIST_SIZE}"
  proof (rule inj_onI)
    fix i j assume ij: "i \<in> {0..<AA_LIST_SIZE}" "j \<in> {0..<AA_LIST_SIZE}" "fst (xs ! i) = fst (xs ! j)"
    then have "i \<noteq> j \<Longrightarrow> fst (xs ! i) = 0" using assms(1) unfolding aa_exact_def by (meson atLeastLessThan_iff)
    then show "i = j" using s [of i] ij assms(2) by (metis atLeastLessThan_iff)
  qed
  moreover have "(\<lambda>i. fst (xs ! i)) ` {0..<AA_LIST_SIZE} \<subseteq> set seen" using s by auto
  ultimately have "card {0..<AA_LIST_SIZE} \<le> card (set seen)" by (metis card_inj_on_le List.finite_set)
  then show False using assms(3) by simp
qed

lemma see_aa_found:
  assumes "aa_ok seen xs" "a \<noteq> 0" "aa_find a xs = Some i"
  shows "see_aa a xs = Inr (xs[i := (a, snd (xs ! i) + 1)]) \<and> aa_ok (seen @ [a]) (xs[i := (a, snd (xs ! i) + 1)])"
proof -
  have i: "i < length xs" "fst (xs ! i) = a" using aa_find_Some [OF assms(3)] by simp_all
  have len: "length xs = AA_LIST_SIZE" using assms(1) by (simp add: aa_ok_def)
  have b: "0 \<le> snd (xs ! j)" "snd (xs ! j) \<le> int (count_list seen (fst (xs ! j)))" if "j < AA_LIST_SIZE" for j
    using assms(1) that by (simp_all add: aa_ok_def)
  have "aa_exact (seen @ [a]) (xs[i := (a, snd (xs ! i) + 1)])" if c: "card (set (seen @ [a])) \<le> AA_LIST_SIZE"
  proof -
    have "card (set seen) \<le> card (set (seen @ [a]))" by (rule card_mono) auto
    then have e: "aa_exact seen xs" using assms(1) c unfolding aa_ok_def by linarith
    have o': "fst (xs ! j) \<noteq> a" if "j < AA_LIST_SIZE" "j \<noteq> i" for j
      using e that i len assms(2) unfolding aa_exact_def by metis
    have x: "snd (xs ! i) = int (count_list seen a)" using e i len assms(2) unfolding aa_exact_def by metis
    show ?thesis unfolding aa_exact_def
    proof (intro conjI allI impI ballI)
      fix j assume j: "j < AA_LIST_SIZE"
      let ?y = "xs[i := (a, snd (xs ! i) + 1)] ! j"
      show "fst ?y = 0 \<and> snd ?y = 0 \<or> fst ?y \<in> set (seen @ [a]) \<and> snd ?y = int (count_list (seen @ [a]) (fst ?y))"
      proof (cases "j = i")
        case True
        then show ?thesis using i x by simp
      next
        case False
        then have "fst (xs ! j) = 0 \<and> snd (xs ! j) = 0 \<or> fst (xs ! j) \<in> set seen \<and> snd (xs ! j) = int (count_list seen (fst (xs ! j)))"
          using e j unfolding aa_exact_def by blast
        then show ?thesis using False o' [OF j False] by auto
      qed
    next
      fix j k assume jk: "j < AA_LIST_SIZE" "k < AA_LIST_SIZE" "j \<noteq> k"
        "fst (xs[i := (a, snd (xs ! i) + 1)] ! j) = fst (xs[i := (a, snd (xs ! i) + 1)] ! k)"
      have f: "fst (xs[i := (a, snd (xs ! i) + 1)] ! m) = fst (xs ! m)" if "m < AA_LIST_SIZE" for m
        using i len by (cases "m = i") simp_all
      show "fst (xs[i := (a, snd (xs ! i) + 1)] ! j) = 0" using e jk unfolding f [OF jk(1)] f [OF jk(2)] aa_exact_def by blast
    next
      fix c assume "c \<in> set (seen @ [a])"
      then have "\<exists>m < AA_LIST_SIZE. fst (xs ! m) = c" using e i len unfolding aa_exact_def by auto
      then obtain m where "m < AA_LIST_SIZE" "fst (xs ! m) = c" by blast
      then show "\<exists>m < AA_LIST_SIZE. fst (xs[i := (a, snd (xs ! i) + 1)] ! m) = c" using i len
        by (intro exI [of _ m]) (cases "m = i"; simp)
    qed
  qed
  moreover have "0 \<le> snd (xs[i := (a, snd (xs ! i) + 1)] ! j) \<and>
      snd (xs[i := (a, snd (xs ! i) + 1)] ! j) \<le> int (count_list (seen @ [a]) (fst (xs[i := (a, snd (xs ! i) + 1)] ! j)))"
    if j: "j < AA_LIST_SIZE" for j using b [OF j] i by (cases "j = i") auto
  ultimately show ?thesis using assms i len by (simp add: see_aa_def aa_ok_def)
qed

lemma see_aa_new:
  assumes "aa_ok seen xs" "a \<noteq> 0" "aa_find a xs = None"
  shows "\<exists>k < length xs. see_aa a xs = Inr (xs[k := (a, 1)]) \<and> aa_ok (seen @ [a]) (xs[k := (a, 1)])"
proof -
  have len: "length xs = AA_LIST_SIZE" using assms(1) by (simp add: aa_ok_def)
  have b: "0 \<le> snd (xs ! j)" "snd (xs ! j) \<le> int (count_list seen (fst (xs ! j)))" if "j < AA_LIST_SIZE" for j
    using assms(1) that by (simp_all add: aa_ok_def)
  have "\<forall>x \<in> set xs. 0 \<le> snd x" using b(1) len by (metis in_set_conv_nth)
  moreover have "xs \<noteq> []" using len by auto
  ultimately obtain k where k: "snd (aa_victim xs) = Some k" "k < length xs" "\<forall>j < length xs. snd (xs ! k) \<le> snd (xs ! j)"
    using aa_victim_min by blast
  have new: "fst (xs ! j) \<noteq> a" if "j < AA_LIST_SIZE" for j
    using assms(3) that len unfolding aa_find_None by (metis image_eqI nth_mem)
  have "aa_exact (seen @ [a]) (xs[k := (a, 1)])" if c: "card (set (seen @ [a])) \<le> AA_LIST_SIZE"
  proof -
    have "card (set seen) \<le> card (set (seen @ [a]))" by (rule card_mono) auto
    then have e: "aa_exact seen xs" using assms(1) c unfolding aa_ok_def by linarith
    have as: "a \<notin> set seen" using e new unfolding aa_exact_def by blast
    then have "card (set seen) < AA_LIST_SIZE" using c by simp
    then obtain i where i: "i < AA_LIST_SIZE" "xs ! i = (0, 0)" using aa_free [OF e] assms(1) unfolding aa_ok_def by blast
    then have z: "snd (xs ! k) = 0" using k(3) b(1) [of k] k(2) len by fastforce
    have "fst (xs ! k) = 0 \<and> snd (xs ! k) = 0 \<or> fst (xs ! k) \<in> set seen \<and> snd (xs ! k) = int (count_list seen (fst (xs ! k)))"
      using e k(2) len unfolding aa_exact_def by simp
    then have zz: "fst (xs ! k) = 0" using z count_pos [of "fst (xs ! k)" seen] by auto
    show ?thesis unfolding aa_exact_def
    proof (intro conjI allI impI ballI)
      fix j assume j: "j < AA_LIST_SIZE"
      let ?y = "xs[k := (a, 1)] ! j"
      show "fst ?y = 0 \<and> snd ?y = 0 \<or> fst ?y \<in> set (seen @ [a]) \<and> snd ?y = int (count_list (seen @ [a]) (fst ?y))"
      proof (cases "j = k")
        case True
        then show ?thesis using k(2) as by simp
      next
        case False
        then have "fst (xs ! j) = 0 \<and> snd (xs ! j) = 0 \<or> fst (xs ! j) \<in> set seen \<and> snd (xs ! j) = int (count_list seen (fst (xs ! j)))"
          using e j unfolding aa_exact_def by blast
        then show ?thesis using False new [OF j] by auto
      qed
    next
      fix j m assume jm: "j < AA_LIST_SIZE" "m < AA_LIST_SIZE" "j \<noteq> m" "fst (xs[k := (a, 1)] ! j) = fst (xs[k := (a, 1)] ! m)"
      have "j \<noteq> k" "m \<noteq> k" using jm new [OF jm(1)] new [OF jm(2)] k(2) by auto
      then show "fst (xs[k := (a, 1)] ! j) = 0" using e jm unfolding aa_exact_def by simp
    next
      fix c assume "c \<in> set (seen @ [a])"
      then consider "c = a" | "c \<in> set seen" by auto
      then show "\<exists>m < AA_LIST_SIZE. fst (xs[k := (a, 1)] ! m) = c"
      proof cases
        case 1
        then show ?thesis using k(2) len by (intro exI [of _ k]) simp
      next
        case 2
        then obtain m where m: "m < AA_LIST_SIZE" "fst (xs ! m) = c" using e unfolding aa_exact_def by blast
        have "c \<noteq> 0" using 2 assms(1) by (auto simp: aa_ok_def)
        then have "m \<noteq> k" using m zz by auto
        then show ?thesis using m by (intro exI [of _ m]) simp
      qed
    qed
  qed
  moreover have "0 \<le> snd (xs[k := (a, 1)] ! j) \<and> snd (xs[k := (a, 1)] ! j) \<le> int (count_list (seen @ [a]) (fst (xs[k := (a, 1)] ! j)))"
    if j: "j < AA_LIST_SIZE" for j using b [OF j] k(2) by (cases "j = k") auto
  ultimately have "aa_ok (seen @ [a]) (xs[k := (a, 1)])" using assms len by (simp add: aa_ok_def)
  then show ?thesis using k(1,2) assms(3) by (intro exI [of _ k]) (simp add: see_aa_def)
qed

lemma see_all_ok: "aa_ok seen xs \<Longrightarrow> 0 \<notin> set as \<Longrightarrow> \<exists>xs'. see_all as xs = Inr xs' \<and> aa_ok (seen @ as) xs'"
proof (induction as arbitrary: seen xs)
  case (Cons a as)
  then have a: "a \<noteq> 0" by auto
  obtain xs' where x: "see_aa a xs = Inr xs'" and ok: "aa_ok (seen @ [a]) xs'"
    using see_aa_found [OF Cons.prems(1) a] see_aa_new [OF Cons.prems(1) a] by (cases "aa_find a xs") blast+
  then show ?case using Cons.IH [OF ok] Cons.prems(2) by simp
qed simp

text \<open>The cache of access addresses after any sequence of sightings of addresses other than 0: no address is counted more
  often than it was seen, so that an address is only followed after it was seen at least four times; and as long as no more than 32
  different addresses were seen, each of them is in the cache with the exact number of its sightings.\<close>

theorem address_cache_counts:
  assumes "0 \<notin> set seen"
  shows "\<exists>xs. see_all seen (replicate AA_LIST_SIZE (0, 0)) = Inr xs \<and> length xs = AA_LIST_SIZE \<and>
    (\<forall>(a, n) \<in> set xs. n \<le> int (count_list seen a)) \<and>
    (card (set seen) \<le> AA_LIST_SIZE \<longrightarrow> (\<forall>a \<in> set seen. (a, int (count_list seen a)) \<in> set xs))"
proof -
  obtain xs where x: "see_all seen (replicate AA_LIST_SIZE (0, 0)) = Inr xs" and ok: "aa_ok seen xs"
    using see_all_ok [OF aa_ok_start assms] by auto
  have len: "length xs = AA_LIST_SIZE" using ok by (simp add: aa_ok_def)
  have "n \<le> int (count_list seen a)" if "(a, n) \<in> set xs" for a n
    using that ok len unfolding aa_ok_def in_set_conv_nth by (metis fst_conv snd_conv)
  moreover have "(a, int (count_list seen a)) \<in> set xs" if a: "a \<in> set seen" and c: "card (set seen) \<le> AA_LIST_SIZE" for a
  proof -
    have e: "aa_exact seen xs" using ok c by (simp add: aa_ok_def)
    then obtain i where i: "i < AA_LIST_SIZE" "fst (xs ! i) = a" using a unfolding aa_exact_def by blast
    then have "snd (xs ! i) = int (count_list seen a)" using e a assms unfolding aa_exact_def by metis
    then show ?thesis using i len by (metis nth_mem prod.collapse)
  qed
  ultimately show ?thesis using x len by auto
qed

theorem address_cache_counts_witness:
  "\<exists>xs. see_all [5, 7, 5, 5, 5] (replicate AA_LIST_SIZE (0, 0)) = Inr xs \<and> (5, 4) \<in> set xs"
  using address_cache_counts [of "[5, 7, 5, 5, 5]"] by (auto simp: card_insert_if)

section \<open>The CRC's initial value\<close>

lemma bit_reverse24: "bit (reverse24 s) n \<longleftrightarrow> n < 24 \<and> bit s (23 - n)"
proof -
  have step: "bit (fold (\<lambda>i r. r OR push_bit (23 - i) (drop_bit i s AND 1)) [0..<m] (0 :: u32)) n \<longleftrightarrow>
      n < 24 \<and> 23 - n < m \<and> bit s (23 - n)" if "m \<le> 24" for m
    using that
  proof (induction m)
    case (Suc m)
    have "bit (push_bit (23 - m) (drop_bit m s AND 1)) n \<longleftrightarrow> n = 23 - m \<and> bit s m"
      using Suc.prems by (auto simp: bit_push_bit_iff bit_and_iff bit_drop_bit_eq bit_1_iff bit_exp_iff)
    then show ?case using Suc by (auto simp: bit_or_iff less_Suc_eq)
  qed simp
  show ?thesis using step [of 24] by (auto simp: reverse24_def)
qed

lemma reverse24_twice: "reverse24 (reverse24 s) = s AND 0xffffff"
  unfolding and_masks by (rule bit_word_eqI) (auto simp: bit_reverse24 bit_take_bit_iff)

lemma crc_low24: "btle_crcgen_lut (s AND 0xffffff) = btle_crcgen_lut s"
  by (rule ext)+ (simp add: btle_crcgen_lut_def and.assoc)

text \<open>C13 (roundtrip).  An empty packet gives the initial value of the CRC away: if its three last bytes are the CRC of its header for some initial value,
  then \<open>promisc_follow_cb\<close> finds this value, with it the CRC check accepts exactly the packets that are right for the connection, and
  the recovery goes on with the hop interval.\<close>

theorem crc_init_recovered:
  assumes "length p = 9 + n" and "p ! 4 = 1" and "p ! 5 = 0" and "\<not> l_crc_verify (le s)"
    and "btle_calc_crc init (drop 4 p) 2 = Inr crc" and "pkt_u24 p 6 = Inr crc"
  defines "s' \<equiv> s\<lparr>le := (le s)\<lparr>l_crc_init := reverse24 init, l_crc_init_reversed := init AND 0xffffff, l_crc_verify := True\<rparr>,
      packet_cb := Promisc_hop_interval\<rparr>"
  shows "promisc_follow_cb p s = le_promisc_state 1 (mem_bytes 4 (reverse24 init)) 3 s' \<and>
    (\<forall>buf. crc_matches (l_crc_init_reversed (le s')) buf = crc_matches init buf)"
proof -
  have r: "reverse24 (init AND 0xffffff) = reverse24 init"
    unfolding and_masks by (rule bit_word_eqI) (auto simp: bit_reverse24 bit_take_bit_iff)
  have "2 \<le> length (drop 4 p)" using assms(1) by simp
  from reverse_crc_inverts [OF this assms(5)] have c: "btle_reverse_crc crc (drop 4 p) 2 = Inr (reverse24 init)" unfolding r .
  have "promisc_follow_cb p s = le_promisc_state 1 (mem_bytes 4 (reverse24 init)) 3 s'"
    using assms(1-4,6) c reverse24_twice [of init] by (simp add: promisc_follow_cb_def s'_def)
  moreover have "crc_matches (l_crc_init_reversed (le s')) buf = crc_matches init buf" for buf
    by (simp add: s'_def crc_matches_def crc_low24)
  ultimately show ?thesis by blast
qed

theorem crc_init_recovered_witness:
  "\<exists>s'. promisc_follow_cb [0xd6, 0xbe, 0x89, 0x8e, 1, 0, 0xa9, 0xe4, 0x8f] snif_start =
     le_promisc_state 1 (mem_bytes 4 (reverse24 0xaaaaaa)) 3 s' \<and> l_crc_init_reversed (le s') = 0xaaaaaa"
proof -
  let ?p = "[0xd6, 0xbe, 0x89, 0x8e, 1, 0, 0xa9, 0xe4, 0x8f] :: u8 list"
  have c: "btle_calc_crc 0xaaaaaa [1, 0] 2 = Inr 0x8fe4a9"
  proof -
    have n: "btle_crc_bits (numeral k) c t = btle_crc_bits (pred_numeral k) (drop_bit 1 c) (crc_next (ucast c) t)" for k c t
      unfolding numeral_eq_Suc by (rule crc_bits_next)
    have o': "btle_crc_bits (Suc 0) c t = crc_next (ucast c) t" for c t unfolding crc_bits_next by simp
    have "btle_crc_bits 8 1 0xaaaaaa = 0xe329ea" by (simp add: n o' crc_next_def del: btle_crc_bits.simps)
    moreover have "btle_crc_bits 8 0 0xe329ea = 0x8fe4a9" by (simp add: n o' crc_next_def del: btle_crc_bits.simps)
    ultimately show ?thesis by (simp add: btle_calc_crc_def loop_numeral rd_def)
  qed
  have p: "pkt_u24 ?p 6 = Inr 0x8fe4a9" by (simp add: pkt_u24_def)
  have s: "\<not> l_crc_verify (le snif_start)" by (simp add: snif_start_def le_start_def)
  have l: "length ?p = 9 + 0" "?p ! 4 = 1" "?p ! 5 = 0" "btle_calc_crc 0xaaaaaa (drop 4 ?p) 2 = Inr 0x8fe4a9" using c by (simp_all add: btle_calc_crc_def loop_numeral)
  from crc_init_recovered [OF l(1-3) s l(4) p] show ?thesis by auto
qed

section \<open>The hop increment\<close>

text \<open>\<open>CLK100NS\<close> starts again at 0 after 3276800000, \<open>2 ^ 20\<close> counts of the clock.\<close>

lemma clock_distance:
  assumes "unat t2 = (unat t1 + d) mod 3276800000" "unat t1 < 3276800000" "d < 3276800000"
  shows "unat ((if t2 < t1 then t2 + 3276800000 else t2) - (t1 :: u32)) = d"
proof (cases "unat t1 + d < 3276800000")
  case True
  then have "unat t2 = unat t1 + d" using assms(1) by simp
  moreover from this have "\<not> t2 < t1" "t1 \<le> t2" by (simp_all add: word_less_nat_alt word_le_nat_alt)
  ultimately show ?thesis by (simp add: unat_sub)
next
  case False
  have m: "(unat t1 + d) mod 3276800000 = unat t1 + d - 3276800000" using False assms(2,3) by (simp add: mod_if)
  then have t: "unat t2 = unat t1 + d - 3276800000" using assms(1) by simp
  then have l: "t2 < t1" using False assms(2,3) by (simp add: word_less_nat_alt)
  have "t2 = t1 + of_nat d - 3276800000"
  proof -
    have "of_nat (unat t2) = of_nat (unat t1 + d) - (3276800000 :: u32)" unfolding t using False by (simp add: of_nat_diff)
    then show ?thesis by simp
  qed
  then have "t2 + 3276800000 - t1 = of_nat d" by simp
  moreover have "unat (of_nat d :: u32) = d" using assms(3) by (simp add: unat_of_nat take_bit_nat_eq_self)
  ultimately show ?thesis using l by simp
qed

lemma inverse_unique:
  assumes "(k * h) mod 37 = 1" "h < 37" "k < (37 :: nat)"
  shows "hop_interval_lut ! k = h"
proof -
  have k: "0 < k" using assms(1) by (cases k) simp_all
  have "\<forall>k \<in> set [0..<37]. hop_interval_lut ! k < 37" by (simp add: upt_conv_Cons hop_interval_lut_def)
  then have l: "hop_interval_lut ! k < 37" using assms(3) by simp
  have i: "(k * hop_interval_lut ! k) mod 37 = 1" by (rule hop_interval_inverse [OF k assms(3)])
  have "h mod 37 = (((k * hop_interval_lut ! k) mod 37) * h) mod 37" unfolding i by simp
  also have "\<dots> = (hop_interval_lut ! k * ((k * h) mod 37)) mod 37" unfolding mod_mult_left_eq mod_mult_right_eq by (simp add: ac_simps)
  finally show ?thesis using l assms(1,2) by simp
qed

text \<open>Rounded division.\<close>

lemma divide_round:
  assumes "0 < D" "n < 2 ^ 31" "unat N = n" "unat M = D" "D < 2 ^ 31" "k * D \<le> n + D div 2" "n + D div 2 < (k + 1) * D"
  shows "DIVIDE_ROUND N M = Inr (of_nat k)"
proof -
  have M: "M \<noteq> 0" using assms(1,4) by auto
  have h: "unat (M div 2) = D div 2" by (simp add: unat_div assms(4))
  have "n + D div 2 < 2 ^ 32" using assms(2,5) by simp
  then have "unat (N + M div 2) = n + D div 2" using unat_add_lem [of N "M div 2"] by (simp add: assms(3) h)
  moreover have "(n + D div 2) div D = k"
    by (rule div_nat_eqI) (use assms(6,7) in \<open>simp_all only: mult.commute Suc_eq_plus1\<close>)
  ultimately have "unat ((N + M div 2) div M) = k" by (simp only: unat_div assms(4))
  then have "(N + M div 2) div M = of_nat k" by (metis of_nat_unat ucast_id)
  then show ?thesis using M by (simp add: DIVIDE_ROUND_def)
qed

text \<open>C14 (functional).  The hop increment.  A connection that hops by \<open>h\<close> gets from the data channel 0 (2404 MHz) to the channel 1 (2406 MHz)
  after \<open>k\<close> hops with \<open>k h = 1\<close> modulo 37.  If the time between the packets on these two channels is \<open>k\<close> intervals, give or take less
  than half of one, then \<open>h\<close> is recovered and the connection followed with it, even if the clock started again in between.\<close>

theorem hop_increment_recovered:
  assumes "cur_channel s = 2406" and "CLK100NS s = Inr (now, s')"
    and "unat now = (unat (first_ts s) + d) mod 3276800000" and "unat (first_ts s) < 3276800000"
    and "(k * h) mod 37 = 1" and "h < 37" and "k < 37"
    and "0 < unat (l_conn_interval (le s))" and "unat (l_conn_interval (le s)) \<le> 3200"
  defines "interval \<equiv> unat (l_conn_interval (le s)) * 12500"
  assumes "2 * k * interval \<le> 2 * d + interval" and "2 * d < 2 * k * interval + interval"
  shows "promisc_recover_hop_increment s = promisc_start_following (of_nat h) s'"
proof -
  have s': "first_ts s' = first_ts s" "le s' = le s" using assms(2) by (auto simp: CLK100NS_def split: list.splits)
  have iv: "0 < interval" "interval \<le> 40000000" "interval div 2 + interval div 2 = interval" using assms(8,9) by (simp_all add: interval_def)
  have "2 * k * interval \<le> 2 * 36 * 40000000" using assms(7) iv by (intro mult_mono) simp_all
  then have d: "d < 1500000000" using assms(12) iv by linarith
  have D: "unat (ucast (l_conn_interval (le s)) * LE_BASECLK) = interval"
  proof -
    have "unat (ucast (l_conn_interval (le s)) :: u32) = unat (l_conn_interval (le s))" using assms(9) by (simp add: unsigned_ucast_eq) (rule take_bit_nat_eq_self, simp)
    then show ?thesis using assms(9) unat_mult_lem [of "ucast (l_conn_interval (le s)) :: u32" LE_BASECLK] by (simp add: interval_def)
  qed
  have c: "unat ((if now < first_ts s then now + 3276800000 else now) - first_ts s) = d"
    using clock_distance [OF assms(3,4)] d by simp
  have r: "DIVIDE_ROUND ((if now < first_ts s then now + 3276800000 else now) - first_ts s) (ucast (l_conn_interval (le s)) * LE_BASECLK) = Inr (of_nat k)"
    by (rule divide_round [OF iv(1) _ c D]) (use d iv assms(11,12) in \<open>simp_all add: algebra_simps\<close>)
  have k: "unat (of_nat k :: u32) = k" "(of_nat k :: u32) < 37" using assms(7)
    by (simp_all add: unat_of_nat take_bit_nat_eq_self word_less_nat_alt)
  have "length hop_interval_lut = 37" by (simp add: hop_interval_lut_def)
  then show ?thesis using assms(1,2,7) r k inverse_unique [OF assms(5-7)]
    by (simp add: promisc_recover_hop_increment_def s' Let_def)
qed

theorem hop_increment_recovered_witness:
  "let s = snif_start\<lparr>cur_channel := 2406, first_ts := 3276700000, clk := clocks_start\<lparr>clkn := 355\<rparr>, in_t0tc := [625],
     le := le_start\<lparr>l_conn_interval := 6\<rparr>\<rparr> in
   promisc_recover_hop_increment s = promisc_start_following 7 (s\<lparr>in_t0tc := []\<rparr>)"
proof -
  let ?s = "snif_start\<lparr>cur_channel := 2406, first_ts := 3276700000, clk := clocks_start\<lparr>clkn := 355\<rparr>, in_t0tc := [625],
     le := le_start\<lparr>l_conn_interval := 6\<rparr>\<rparr>"
  have c: "CLK100NS ?s = Inr (1110000, ?s\<lparr>in_t0tc := []\<rparr>)" by (simp add: CLK100NS_def snif_start_def clocks_start_def)
  have "promisc_recover_hop_increment ?s = promisc_start_following (of_nat 7) (?s\<lparr>in_t0tc := []\<rparr>)"
    by (rule hop_increment_recovered [OF _ c, where d = 1210000 and k = 16]) (simp_all add: snif_start_def le_start_def)
  then show ?thesis by (simp add: Let_def)
qed

section \<open>The hop interval\<close>

text \<open>The queueing of a packet leaves the rest alone.\<close>

lemma enqueue_pkt_keeps:
  "enqueue_pkt t b f s = Inr (f', s') \<Longrightarrow> le_promisc s' = le_promisc s \<and> le s' = le s \<and> requested_mode s' = requested_mode s"
  by (auto simp: enqueue_pkt_def CLK100NS_def bnd_Inr_iff Let_def split: if_splits list.splits)

lemma enqueue_keeps:
  "enqueue t b s = Inr (ok, s') \<Longrightarrow> le_promisc s' = le_promisc s \<and> le s' = le s \<and> requested_mode s' = requested_mode s"
  by (auto simp: enqueue_def enqueue_with_def bnd_Inr_iff split: option.splits prod.splits dest!: enqueue_pkt_keeps)

lemma promisc_state_keeps:
  "le_promisc_state t b n s = Inr s' \<Longrightarrow> le_promisc s' = le_promisc s \<and> le s' = le s \<and> requested_mode s' = requested_mode s"
  using enqueue_keeps by (auto simp: le_promisc_state_def bnd_Inr_iff Let_def split: prod.splits)

lemma smallest_shrinks:
  assumes "promisc_recover_hop_interval s = Inr s'"
  shows "smallest_hop_interval (le_promisc s') \<le> smallest_hop_interval (le_promisc s)"
  using assms by (auto simp: promisc_recover_hop_interval_def CLK100NS_def bnd_Inr_iff Let_def not_less
    split: list.splits if_splits dest!: promisc_state_keeps)

text \<open>The clock starts again at 0 after 3276800000, but \<open>promisc_recover_hop_interval\<close> adds 3267800000 (two digits changed places):
  the time between two packets is measured 0.9 s too short when the clock has started again in between.  A connection
  with an interval of \<open>c \<ge> 20\<close> units, for which \<open>c\<close> was already found, is from then on taken to have an interval of \<open>c - 19\<close> units, and the
  shortest time, which the interval is computed from, never gets longer again.\<close>

theorem interval_wrong_after_rollover:
  assumes "CLK100NS s = Inr (now, s')" and "unat now + 3276800000 = unat (prev_clk s) + d" and "unat (prev_clk s) < 3276800000"
    and "d = 37 * c * 12500" and "20 \<le> c" and "c \<le> 3200"
    and "unat (smallest_hop_interval (le_promisc s)) = d" and "unat (l_conn_interval (le s)) = c"
  shows "\<exists>s''. promisc_recover_hop_interval s = Inr s'' \<and> unat (l_conn_interval (le s'')) = c - 19 \<and>
    unat (smallest_hop_interval (le_promisc s'')) = d - 9000000 \<and> consec_intervals (le_promisc s'') = 0 \<and>
    (\<forall>t t'. promisc_recover_hop_interval t = Inr t' \<longrightarrow>
      unat (smallest_hop_interval (le_promisc t')) \<le> unat (smallest_hop_interval (le_promisc t)))"
proof -
  have keep: "prev_clk s' = prev_clk s" "le_promisc s' = le_promisc s" "le s' = le s"
    using assms(1) by (auto simp: CLK100NS_def split: list.splits)
  have d: "9250000 \<le> d" "d \<le> 1480000000" using assms(4-6) by simp_all
  have lt: "now < prev_clk s" using assms(2,3) d by (simp add: word_less_nat_alt)
  have nowd: "unat now = unat (prev_clk s) + d - 3276800000" using assms(2) by linarith
  define diff where "diff = now + 3267800000 - prev_clk s"
  have "of_nat (unat now) + 3276800000 = (of_nat (unat (prev_clk s)) + of_nat d :: u32)"
    using arg_cong [OF assms(2), of "of_nat :: nat \<Rightarrow> u32"] by simp
  then have "diff = of_nat d - 9000000" by (simp add: diff_def algebra_simps)
  also have "\<dots> = of_nat (d - 9000000)" using d by (simp add: of_nat_diff)
  finally have df: "diff = of_nat (d - 9000000)" .
  have u: "unat diff = d - 9000000" unfolding df unat_of_nat using d by (simp add: take_bit_nat_eq_self)
  have big: "\<not> diff < 2 * LE_BASECLK" using d by (simp add: word_less_nat_alt u)
  have small: "diff < smallest_hop_interval (le_promisc s)" using d assms(7) by (simp add: word_less_nat_alt u)
  have e: "d = 462500 * c" using assms(4) by simp
  have q: "DIVIDE_ROUND diff (37 * LE_BASECLK) = Inr (of_nat (c - 19))"
    by (rule divide_round [where D = 462500, OF _ _ u]) (use d e assms(5) in \<open>simp_all add: algebra_simps\<close>)
  have c: "unat (ucast (of_nat (c - 19) :: u32) :: u16) = c - 19"
  proof -
    have "unat (ucast (of_nat m :: u32) :: u16) = m" if "m < 2 ^ 16" for m
      using that by (simp add: unsigned_ucast_eq unat_of_nat take_bit_nat_eq_self)
    from this [of "c - 19"] show ?thesis using assms(6) by simp
  qed
  have ne: "l_conn_interval (le s) \<noteq> ucast (of_nat (c - 19) :: u32)" using c assms(5,8) by (metis diff_less less_irrefl less_le_trans zero_less_numeral)
  define s1 where "s1 = s'\<lparr>le_promisc := (le_promisc s)\<lparr>smallest_hop_interval := diff, consec_intervals := 0\<rparr>,
    le := (le s)\<lparr>l_conn_interval := ucast (of_nat (c - 19) :: u32)\<rparr>, prev_clk := now + 3267800000\<rparr>"
  have "promisc_recover_hop_interval s = Inr s1"
    using lt big small q ne unfolding promisc_recover_hop_interval_def assms(1) bnd_simps prod.case Let_def keep
    by (simp add: diff_def s1_def keep)
  moreover have "unat (smallest_hop_interval (le_promisc t')) \<le> unat (smallest_hop_interval (le_promisc t))"
    if "promisc_recover_hop_interval t = Inr t'" for t t'
    using smallest_shrinks [OF that] by (simp add: word_le_nat_alt)
  ultimately show ?thesis by (intro exI [of _ s1]) (simp add: s1_def c u)
qed

theorem interval_wrong_after_rollover_witness:
  "\<exists>s''. promisc_recover_hop_interval (snif_start\<lparr>prev_clk := 3276675000, clk := clocks_start\<lparr>clkn := 7360\<rparr>, in_t0tc := [0],
      le := le_start\<lparr>l_conn_interval := 50\<rparr>,
      le_promisc := \<lparr>active_aa = [], smallest_hop_interval = 23125000, consec_intervals = 2\<rparr>\<rparr>) = Inr s'' \<and>
    unat (l_conn_interval (le s'')) = 31"
proof -
  let ?s = "snif_start\<lparr>prev_clk := 3276675000, clk := clocks_start\<lparr>clkn := 7360\<rparr>, in_t0tc := [0],
      le := le_start\<lparr>l_conn_interval := 50\<rparr>,
      le_promisc := \<lparr>active_aa = [], smallest_hop_interval = 23125000, consec_intervals = 2\<rparr>\<rparr>"
  have c: "CLK100NS ?s = Inr (23000000, ?s\<lparr>in_t0tc := []\<rparr>)" by (simp add: CLK100NS_def snif_start_def clocks_start_def)
  have p: "unat (23000000 :: u32) + 3276800000 = unat (prev_clk ?s) + 23125000" "unat (prev_clk ?s) < 3276800000"
    "23125000 = 37 * 50 * (12500 :: nat)" "20 \<le> (50 :: nat)" "50 \<le> (3200 :: nat)"
    "unat (smallest_hop_interval (le_promisc ?s)) = 23125000" "unat (l_conn_interval (le ?s)) = 50"
    by (simp_all add: snif_start_def le_start_def)
  from interval_wrong_after_rollover [OF c p] show ?thesis by (elim exE conjE) (intro exI conjI, assumption, simp)
qed

section \<open>The end of the mode\<close>

lemma generic_stop_idle: "generic_stop s = Inr s' \<Longrightarrow> requested_mode s' = MODE_IDLE"
  by (auto simp: generic_stop_def cc2400_idle_def stream_stop_def snif_ssp_stop_def bnd_Inr_iff Let_def)

lemma generic_loop_idle: "generic_loop active xs hold s = Inr s' \<Longrightarrow> requested_mode s' = MODE_IDLE"
  by (induction xs arbitrary: hold s) (auto simp: bnd_Inr_iff generic_stop_idle split: if_splits prod.splits)

text \<open>The promiscuous mode does not follow what it finds.  When an access address was seen often enough, \<open>cb_le_promisc\<close> ends the
  generic mode so that \<open>bt_promisc_le\<close> can go on with the synchronised one; but the generic mode ends with \<open>cc2400_idle\<close>, which sets the
  requested mode to idle, and the test after it takes this for a new request and leaves.  This is so for all interrupts and
  all data from the air, and the synchronised mode's inputs are never used.\<close>

theorem promisc_mode_gives_up:
  assumes "\<not> l_target_set (le s)"
  defines "s' \<equiv> (reset_le_promisc s)\<lparr>cur_channel := (if cur_channel s AND 1 = 1 then 2440 else cur_channel s)\<rparr>"
  shows "promisc_pass xs ys s = bnd (retune_squelch (cur_channel s') s') (\<lambda>s.
    bnd (bt_generic_le MODE_BT_PROMISC_LE xs (s\<lparr>data_cb := Le_promisc\<rparr>)) (\<lambda>s. Inr (False, s)))"
proof -
  have e: "(if cur_channel (reset_le_promisc s) AND 1 = 1 then (reset_le_promisc s)\<lparr>cur_channel := 2440\<rparr> else reset_le_promisc s) = s'"
    by (cases s) (simp add: s'_def reset_le_promisc_def)
  have l: "\<not> l_target_set (le s')" using assms(1) by (simp add: s'_def reset_le_promisc_def)
  have "requested_mode t = MODE_IDLE" if "bt_generic_le MODE_BT_PROMISC_LE xs u = Inr t" for t u
    using that generic_loop_idle by (auto simp: bt_generic_le_def bnd_Inr_iff)
  then have b: "bnd (bt_generic_le MODE_BT_PROMISC_LE xs u) f = bnd (bt_generic_le MODE_BT_PROMISC_LE xs u) (\<lambda>s. Inr (False, s))"
    if "\<And>t. requested_mode t = MODE_IDLE \<Longrightarrow> f t = Inr (False, t)" for u f
    using that by (cases "bt_generic_le MODE_BT_PROMISC_LE xs u") auto
  show ?thesis unfolding promisc_pass_def Let_def e if_not_P [OF l] bnd_assoc
    by (rule bnd_cong [OF refl], rule b) simp
qed

theorem promisc_mode_gives_up_witness:
  "\<exists>t. promisc_pass [] [] (snif_start\<lparr>in_cc_status := [0x40, 4, 0]\<rparr>) = Inr (False, t)"
proof -
  let ?s = "snif_start\<lparr>in_cc_status := [0x40, 4, 0]\<rparr>"
  let ?t = "(reset_le_promisc ?s)\<lparr>cur_channel := 2440\<rparr>"
  have l: "\<not> l_target_set (le ?s)" and odd: "cur_channel ?s AND 1 = 1" by (simp_all add: snif_start_def le_start_def)
  have r: "\<exists>u. retune_squelch 2440 ?t = Inr u \<and> in_cc_status u = [0x40, 4, 0] \<and> requested_mode u = 0 \<and> cs_threshold_req (cs u) = 0 \<and> cur_channel u = 2440"
    by (simp add: retune_squelch_def reset_le_promisc_def cs_threshold_calc_and_set_def cs_threshold_set_def snif_start_def Let_def)
  then obtain u where u: "retune_squelch 2440 ?t = Inr u" "in_cc_status u = [0x40, 4, 0]" "requested_mode u = 0" "cs_threshold_req (cs u) = 0"
    "cur_channel u = 2440" by blast
  have "\<exists>v. bt_generic_le MODE_BT_PROMISC_LE [] (u\<lparr>data_cb := Le_promisc\<rparr>) = Inr v"
    using u by (simp add: bt_generic_le_def generic_start_def reset_le_def dma_init_rx_symbols_def snif_ssp_start_def cc2400_rx_def
      cc_start_rx_def cc_start_def wait_status_def cc_set_def cc_strobe_def retune_squelch_def cs_threshold_calc_and_set_def
      cs_threshold_set_def generic_stop_def cc2400_idle_def Let_def)
  then show ?thesis using promisc_mode_gives_up [OF l, of "[]" "[]"] odd u(1) by auto
qed

end
