(* ===== verification/SniffMain.thy ===== *)
theory SniffMain
  imports SniffModes
begin

text \<open>
  The advertiser, the generic radio modes, the spectrum analysers and the main loop of firmware/bluetooth_rxtx/bluetooth_rxtx.c.
\<close>

section \<open>Advertising\<close>

text \<open>The advertising packet: header, address, data and CRC, in an array of 32 bytes; its length has eight bits.\<close>

definition slave_packet :: "u32 \<Rightarrow> u8 list \<Rightarrow> u32 \<Rightarrow> u8 list \<Rightarrow> (u8 \<times> u8 list) res" where
  "slave_packet crc_init adv_data adv_len mac =
     (let n = 6 + ucast adv_len :: u8 in
      bnd (wr (replicate 32 0) 1 n) (\<lambda>p.
      bnd (loop 6 (\<lambda>i p. bnd (rd mac (5 - i)) (wr p (i + 2))) p) (\<lambda>p.
      bnd (window (2 + 6) (\<lambda>d. memcpy d adv_data (unat adv_len)) p) (\<lambda>p.
      let n = n + 2 in
      bnd (btle_calc_crc crc_init p (unat n)) (\<lambda>crc.
      bnd (put_bytes_at (unat n) (mem_bytes 3 crc) p) (\<lambda>p.
      Inr (n, p)))))))"

text \<open>A pass of the loop: send, and sleep for 100 ms; \<open>readings\<close> is what the clock shows in the busy wait.\<close>

definition slave_pass :: "u8 \<Rightarrow> u8 list \<Rightarrow> u32 list \<Rightarrow> snif \<Rightarrow> snif res" where
  "slave_pass n p readings s =
     bnd (le_transmit 0x8e89bed6 (n + 3) p s) (\<lambda>s. bnd (msleep 100 readings) (\<lambda>_. Inr s))"

primrec slave_loop :: "u8 \<Rightarrow> u8 list \<Rightarrow> (irq list \<times> u32 list) list \<Rightarrow> snif \<Rightarrow> snif res" where
  "slave_loop n p [] s = (if requested_mode s = MODE_BT_SLAVE_LE then Inl Hang else Inr s)"
| "slave_loop n p (x # xs) s =
     (if requested_mode s = MODE_BT_SLAVE_LE
      then bnd (slave_pass n p (snd x) s) (\<lambda>s. bnd (run_irqs (fst x) s) (slave_loop n p xs)) else Inr s)"

definition bt_slave_le :: "(irq list \<times> u32 list) list \<Rightarrow> snif \<Rightarrow> snif res" where
  "bt_slave_le xs s =
     (if unat (le_adv_len s) > LE_ADV_MAX_LEN then Inr (s\<lparr>requested_mode := MODE_IDLE\<rparr>)
      else
        bnd (slave_packet (l_crc_init_reversed (le s)) (le_adv_data s) (le_adv_len s) (slave_mac_address s)) (\<lambda>(n, p).
        slave_loop n p xs (s\<lparr>clk := rxtx_clkn_start (clk s)\<rparr>)))"

section \<open>Generic packets\<close>

text \<open>The sync word from the radio, then the packets it receives; the loop has no end.\<close>

definition generic_sync_pass :: "u8 \<Rightarrow> u8 list \<Rightarrow> snif \<Rightarrow> (u8 list \<times> snif) res" where
  "generic_sync_pass epstat buf s =
     bnd (wait_fs_on s) (\<lambda>s.
     bnd (wait_status (\<lambda>v. v AND 0x10 \<noteq> 0) ((cc_strobe SRX s)\<lparr>led_usr := False\<rparr>)) (\<lambda>s.
     bnd (cc_read_bytes 32 (s\<lparr>led_usr := True\<rparr>)) (\<lambda>(bytes, s).
     let buf = take 4 buf @ bytes in
     bnd (enqueue BR_PACKET buf s) (\<lambda>(_, s).
     bnd (host_usb epstat s) (\<lambda>s. Inr (buf, s))))))"

primrec generic_sync_loop :: "u8 list \<Rightarrow> u8 list \<Rightarrow> snif \<Rightarrow> snif res" where
  "generic_sync_loop [] buf s = Inl Hang"
| "generic_sync_loop (e # es) buf s = bnd (generic_sync_pass e buf s) (\<lambda>(buf, s). generic_sync_loop es buf s)"

definition rx_generic_sync :: "u8 list \<Rightarrow> snif \<Rightarrow> snif res" where
  "rx_generic_sync es s =
     bnd (cc_get s) (\<lambda>(h, s).
     bnd (cc_get s) (\<lambda>(l, s).
     let buf = [ucast (drop_bit 8 h AND 0xff), ucast (h AND 0xff), ucast (drop_bit 8 l AND 0xff), ucast (l AND 0xff)] @ replicate 32 0;
         s = s\<lparr>ring := usb_queue_init (ring s), clk := rxtx_clkn_start (clk s)\<rparr> in
     bnd (cc_start s) (\<lambda>s. generic_sync_loop es buf (s\<lparr>led_rx := True, pa_en := True, hgm := True\<rparr>))))"

text \<open>The test of the packet mode is a logical conjunction with a constant, so any value but 0 passes it.\<close>

definition rx_generic :: "u8 list \<Rightarrow> ((irq list \<times> u8) list \<times> u8) list \<Rightarrow> snif \<Rightarrow> snif res" where
  "rx_generic es xs s =
     bnd (cc_get s) (\<lambda>(grmdm, s).
     if grmdm \<noteq> 0 \<and> (0x0400 :: u16) \<noteq> 0 then rx_generic_sync es s else bt_stream_rx xs (s\<lparr>modulation := MOD_NONE\<rparr>))"

definition tx_generic :: "snif \<Rightarrow> snif res" where
  "tx_generic s =
     (let prev_mode = op_mode s; s = s\<lparr>op_mode := MODE_TX_GENERIC\<rparr> in
      bnd (cc_get s) (\<lambda>(synch, s).
      bnd (cc_get s) (\<lambda>(syncl, s).
      let s = cc_set SYNCH (tx_synch (tx_pkt s)) s;
          s = cc_set SYNCL (tx_syncl (tx_pkt s)) s;
          s = cc_set MDMCTRL 0x0057 s;
          s = cc_set MDMTST0 0x134b s;
          s = cc_set GRMDM 0x0f61 s;
          s = cc_set FSDIV (tx_channel (tx_pkt s)) s;
          s = cc_set FREND (ucast (tx_pa_level (tx_pkt s))) s in
      bnd (cc_start s) (\<lambda>s.
      bnd (wait_fs_on (s\<lparr>led_tx := True, pa_en := True\<rparr>)) (\<lambda>s.
      let p = tx_pkt s in
      bnd (if unat (tx_length p) \<le> length (tx_data p) then Inr (cc_fifo_write (take (unat (tx_length p)) (tx_data p)) s) else Inl Oob) (\<lambda>s.
      bnd (wait_fs_on (cc_strobe STX s)) (\<lambda>s.
      bnd (wait_unlock (cc_strobe SRFOFF (s\<lparr>led_tx := False\<rparr>))) (\<lambda>s.
      Inr ((cc_set SYNCL syncl (cc_set SYNCH synch (s\<lparr>pa_en := False\<rparr>)))\<lparr>requested_mode := prev_mode\<rparr>)))))))))"

section \<open>Spectrum analysis\<close>

text \<open>One frequency: its number and the signal strength go into the buffer, sixteen of them are a packet.\<close>

definition specan_step :: "u8 \<Rightarrow> u16 \<Rightarrow> nat \<times> u8 list \<Rightarrow> snif \<Rightarrow> ((nat \<times> u8 list) \<times> snif) res" where
  "specan_step epstat f ib s =
     (let (i, buf) = ib in
      bnd (wait_lock (cc_strobe SFSON (cc_set FSDIV (f - 1) s))) (\<lambda>s.
      bnd (cc_get (cc_strobe SRX s)) (\<lambda>(v, s).
      bnd (put_bytes_at (3 * i) [ucast (drop_bit 8 f AND 0xFF), ucast (f AND 0xFF), ucast (drop_bit 8 v)] buf) (\<lambda>buf.
      bnd (if i + 1 = 16
           then bnd (enqueue SPECAN buf s) (\<lambda>(_, s). bnd (host_usb epstat s) (\<lambda>s. Inr (0, s))) else Inr (i + 1, s)) (\<lambda>(i, s).
      bnd (wait_unlock (cc_strobe SRFOFF s)) (\<lambda>s. Inr ((i, buf), s)))))))"

definition specan_sweep :: "(nat \<Rightarrow> u8) \<Rightarrow> nat \<times> u8 list \<Rightarrow> snif \<Rightarrow> ((nat \<times> u8 list) \<times> snif) res" where
  "specan_sweep epstat ib s =
     loop (unat (high_freq s) + 1 - unat (low_freq s)) (\<lambda>k (ib, s').
       specan_step (epstat k) (low_freq s + of_nat k) ib s') (ib, s)"

definition specan_start :: "snif \<Rightarrow> snif res" where
  "specan_start s =
     (let s = s\<lparr>led_rx := True, ring := usb_queue_init (ring s), clk := rxtx_clkn_start (clk s), pa_en := True\<rparr>;
          s = cc_set LMTST 0x2b22 s;
          s = cc_set MDMTST0 0x134b s;
          s = cc_set GRMDM 0x0101 s;
          s = cc_set MDMCTRL 0x0029 s
      in bnd (cc_wait_xosc s) wait_unlock)"

primrec specan_loop :: "(irq list \<times> (nat \<Rightarrow> u8)) list \<Rightarrow> nat \<times> u8 list \<Rightarrow> snif \<Rightarrow> snif res" where
  "specan_loop [] ib s = (if requested_mode s = MODE_SPECAN then Inl Hang else Inr (s\<lparr>led_rx := False\<rparr>))"
| "specan_loop (x # xs) ib s =
     (if requested_mode s = MODE_SPECAN
      then bnd (specan_sweep (snd x) ib s) (\<lambda>(ib, s). bnd (run_irqs (fst x) s) (specan_loop xs ib))
      else Inr (s\<lparr>led_rx := False\<rparr>))"

definition specan :: "u8 list \<Rightarrow> (irq list \<times> (nat \<Rightarrow> u8)) list \<Rightarrow> snif \<Rightarrow> snif res" where
  "specan buf xs s = bnd (specan_start s) (specan_loop xs (0, buf))"

definition led_channels :: "u16 list" where
  "led_channels = [2412, 2437, 2462]"

definition set_led :: "nat \<Rightarrow> bool \<Rightarrow> snif \<Rightarrow> snif" where
  "set_led i b s = (if i = 0 then s\<lparr>led_tx := b\<rparr> else if i = 1 then s\<lparr>led_rx := b\<rparr> else s\<lparr>led_usr := b\<rparr>)"

definition led_specan_step :: "u8 \<Rightarrow> nat \<Rightarrow> snif \<Rightarrow> (nat \<times> snif) res" where
  "led_specan_step epstat i s =
     bnd (rd led_channels i) (\<lambda>c.
     bnd (wait_lock (cc_strobe SFSON (cc_set FSDIV (c - 1) s))) (\<lambda>s.
     bnd (cc_get (cc_strobe SRX s)) (\<lambda>(v, s).
     let lvl = ucast (drop_bit 8 v AND 0xff) :: u8; s = set_led i (sint lvl > sint (rssi_threshold s)) s in
     bnd (host_usb epstat s) (\<lambda>s.
     bnd (wait_unlock (cc_strobe SRFOFF s)) (\<lambda>s. Inr ((i + 1) mod 3, s))))))"

definition led_specan_start :: "snif \<Rightarrow> snif res" where
  "led_specan_start s =
     (let s = s\<lparr>pa_en := True\<rparr>;
          s = cc_set LMTST 0x2b22 s;
          s = cc_set MDMTST0 0x134b s;
          s = cc_set GRMDM 0x0101 s;
          s = cc_set MDMCTRL 0x0029 s;
          s = cc_set RSSI 0x00F1 s
      in bnd (cc_wait_xosc s) wait_unlock)"

primrec led_specan_loop :: "(irq list \<times> u8) list \<Rightarrow> nat \<Rightarrow> snif \<Rightarrow> snif res" where
  "led_specan_loop [] i s = (if requested_mode s = MODE_LED_SPECAN then Inl Hang else Inr s)"
| "led_specan_loop (x # xs) i s =
     (if requested_mode s = MODE_LED_SPECAN
      then bnd (led_specan_step (snd x) i s) (\<lambda>(i, s). bnd (run_irqs (fst x) s) (led_specan_loop xs i)) else Inr s)"

definition led_specan :: "(irq list \<times> u8) list \<Rightarrow> snif \<Rightarrow> snif res" where
  "led_specan xs s = bnd (led_specan_start s) (led_specan_loop xs 0)"

section \<open>The main loop\<close>

text \<open>What the main loop runs when the requested mode is not the current one.\<close>

datatype activity = Stay | Reset_device | Stream_rx | Br_tx | Follow_le_phy | Promisc_mode | Slave_mode | Tx_test | Range_test
  | Repeater | Specan_mode | Led_specan_mode | Ego_mode | Rx_generic_mode | Tx_generic_mode | Xmas_mode | Idle_mode

text \<open>Most modes become the current one before they run; the others are set by the mode itself, or not at all.\<close>

definition main_dispatch :: "snif \<Rightarrow> activity \<times> snif" where
  "main_dispatch s =
     (let m = requested_mode s; enter = s\<lparr>op_mode := m\<rparr> in
      if m = op_mode s then (Stay, s)
      else if m = MODE_RESET then (Reset_device, s)
      else if m \<in> {MODE_AFH, MODE_RX_SYMBOLS, MODE_BT_FOLLOW} then (Stream_rx, enter)
      else if m = MODE_TX_SYMBOLS then (Br_tx, enter)
      else if m = MODE_FOLLOW_LE then (Follow_le_phy, enter)
      else if m = MODE_BT_PROMISC_LE then (Promisc_mode, s)
      else if m = MODE_BT_SLAVE_LE then (Slave_mode, s)
      else if m = MODE_TX_TEST then (Tx_test, enter)
      else if m = MODE_RANGE_TEST then (Range_test, enter)
      else if m = MODE_REPEATER then (Repeater, enter)
      else if m = MODE_SPECAN then (Specan_mode, s)
      else if m = MODE_LED_SPECAN then (Led_specan_mode, s)
      else if m = MODE_EGO then (Ego_mode, enter)
      else if m = MODE_RX_GENERIC then (Rx_generic_mode, enter)
      else if m = MODE_TX_GENERIC then (Tx_generic_mode, s)
      else if m = MODE_XMAS then (Xmas_mode, enter)
      else if m = MODE_IDLE then (Idle_mode, s)
      else (Stay, s))"

end
