(* ===== verification/SniffAir.thy ===== *)
theory SniffAir
  imports SniffMain
begin

text \<open>
  What the sniffer sends: packets for the host, Low Energy packets on the air, advertisements.
\<close>

section \<open>Packets for the host\<close>

text \<open>A state in which a packet can be queued.\<close>

definition queue_ready :: "snif \<Rightarrow> bool" where
  "queue_ready s \<longleftrightarrow> ring_inv (ring s) \<and> (\<forall>p \<in> set (ring_fifo (ring s)). length (pkt_data p) = RX_DMA_SIZE) \<and>
     length (rssi_iir (sig s)) = 79 \<and> idle_buf_channel s \<le> 2480"

lemma rssi_get_avg_ok: "length (rssi_iir r) = 79 \<Longrightarrow> ch \<le> 2480 \<Longrightarrow> \<exists>a. rssi_get_avg ch r = Inr a"
proof -
  assume l: "length (rssi_iir r) = 79" and "ch \<le> 2480"
  then have "rssi_slot ch < 79" by (auto simp: rssi_slot_def word_le_nat_alt word_less_nat_alt unat_sub)
  then show ?thesis using l by (simp add: rssi_get_avg_def)
qed

lemma ring_taken:
  assumes "ring_inv r"
  shows "length (ring_pkts r) = 127 \<Longrightarrow> usb_enqueue r = (None, r)"
    and "length (ring_pkts r) \<noteq> 127 \<Longrightarrow> \<exists>i r'. usb_enqueue r = (Some i, r') \<and> i < 128 \<and> ring_fifo r' = ring_fifo r \<and>
      ring_inv r' \<and> (\<forall>p. ring_inv (r'\<lparr>ring_fifo := (ring_fifo r')[i := p]\<rparr>) \<and>
        ring_pkts (r'\<lparr>ring_fifo := (ring_fifo r')[i := p]\<rparr>) = ring_pkts r @ [p])"
proof -
  show "usb_enqueue r = (None, r)" if "length (ring_pkts r) = 127"
    using ur.put_full [OF assms that, of usb_pkt_zero] by (auto simp: ring_put_def usb_enqueue_eq Let_def split: if_splits)
  show "\<exists>i r'. usb_enqueue r = (Some i, r') \<and> i < 128 \<and> ring_fifo r' = ring_fifo r \<and>
      ring_inv r' \<and> (\<forall>p. ring_inv (r'\<lparr>ring_fifo := (ring_fifo r')[i := p]\<rparr>) \<and>
        ring_pkts (r'\<lparr>ring_fifo := (ring_fifo r')[i := p]\<rparr>) = ring_pkts r @ [p])" if n: "length (ring_pkts r) \<noteq> 127"
  proof -
    have lt: "length (ring_pkts r) < 127" using n ur.bounded [OF assms] by simp
    have p: "\<exists>r'. ring_put r x = Some r' \<and> ring_inv r' \<and> ring_pkts r' = ring_pkts r @ [x]" for x by (rule ur.put_ok [OF assms lt])
    obtain i r' where e: "usb_enqueue r = (Some i, r')" using p [of usb_pkt_zero] by (auto simp: ring_put_def split: option.splits prod.splits)
    then have i: "i < 128" "ring_fifo r' = ring_fifo r" by (auto simp: usb_enqueue_eq Let_def split: if_splits)
    have "ring_inv (r'\<lparr>ring_fifo := (ring_fifo r')[i := x]\<rparr>) \<and> ring_pkts (r'\<lparr>ring_fifo := (ring_fifo r')[i := x]\<rparr>) = ring_pkts r @ [x]" for x
      using p [of x] e by (simp add: ring_put_def)
    then show ?thesis using e i assms by (simp add: ring_inv_def)
  qed
qed

text \<open>C16 (refinement).  \<open>enqueue\<close> puts exactly one packet at the end of the queue for the host, or, when 127 are waiting, none, and
  remembers the overflow for the next packet.  The packet has the first 50 bytes of the buffer, its type, the status flags collected so far (which are
  cleared) and the time and channel stored by the DMA's handler, whatever was left in the element of the ring from before.\<close>

theorem enqueue_appends:
  assumes "queue_ready s" and "RX_DMA_SIZE \<le> length buf" and "type \<noteq> SPECAN"
  shows "\<exists>ok s'. enqueue type buf s = Inr (ok, s') \<and> queue_ready s' \<and>
    (if length (ring_pkts (ring s)) = 127
     then \<not> ok \<and> ring_pkts (ring s') = ring_pkts (ring s) \<and> usb_status s' = usb_status s OR FIFO_OVERFLOW
     else ok \<and> usb_status s' = 0 \<and>
       (\<exists>p. ring_pkts (ring s') = ring_pkts (ring s) @ [p] \<and> pkt_type p = type \<and> pkt_status p = usb_status s \<and>
         pkt_data p = take RX_DMA_SIZE buf \<and> clkn_high p = idle_buf_clkn_high s \<and> clk100ns p = idle_buf_clk100ns s \<and>
         pkt_channel p = ucast ((idle_buf_channel s - 2402) AND 0xff) \<and> pkt_rssi_count p = rssi_count (sig s)))"
proof (cases "length (ring_pkts (ring s)) = 127")
  case True
  have "ring_inv (ring s)" using assms(1) by (simp add: queue_ready_def)
  from ring_taken(1) [OF this True] show ?thesis using True assms(1)
    by (intro exI [of _ False]) (simp add: enqueue_def enqueue_with_def queue_ready_def)
next
  case False
  have inv: "ring_inv (ring s)" using assms(1) by (simp add: queue_ready_def)
  obtain i r' where e: "usb_enqueue (ring s) = (Some i, r')" "i < 128" "ring_fifo r' = ring_fifo (ring s)" "ring_inv r'"
    and put: "\<And>p. ring_inv (r'\<lparr>ring_fifo := (ring_fifo r')[i := p]\<rparr>)"
      "\<And>p. ring_pkts (r'\<lparr>ring_fifo := (ring_fifo r')[i := p]\<rparr>) = ring_pkts (ring s) @ [p]"
    using ring_taken(2) [OF inv False] by blast
  have len: "length (ring_fifo r') = 128" using e(4) by (simp add: ring_inv_def)
  obtain a where a: "rssi_get_avg (idle_buf_channel s) (sig s) = Inr a" using rssi_get_avg_ok assms(1) unfolding queue_ready_def by blast
  define f where "f = ring_fifo r' ! i"
  have fl: "length (pkt_data f) = RX_DMA_SIZE" using assms(1) e(2,3) len unfolding f_def queue_ready_def by (metis nth_mem)
  define p where "p = f\<lparr>pkt_type := type, clkn_high := idle_buf_clkn_high s, clk100ns := idle_buf_clk100ns s,
      pkt_channel := ucast ((idle_buf_channel s - 2402) AND 0xff), pkt_rssi_min := rssi_min (sig s), pkt_rssi_max := rssi_max (sig s),
      pkt_rssi_avg := a, pkt_rssi_count := rssi_count (sig s), pkt_data := take RX_DMA_SIZE buf, pkt_status := usb_status s\<rparr>"
  have "enqueue_pkt type buf f (s\<lparr>ring := r'\<rparr>) = Inr (p, s\<lparr>ring := r', usb_status := 0\<rparr>)"
    using assms(2,3) a fl by (simp add: enqueue_pkt_def p_def memcpy_ok Let_def)
  then have q: "enqueue type buf s = Inr (True, s\<lparr>ring := r'\<lparr>ring_fifo := (ring_fifo r')[i := p]\<rparr>, usb_status := 0\<rparr>)"
    using e(1,2) len by (simp add: enqueue_def enqueue_with_def f_def)
  have pd: "length (pkt_data p) = RX_DMA_SIZE" using assms(2) by (simp add: p_def)
  have "\<forall>x \<in> set ((ring_fifo r')[i := p]). length (pkt_data x) = RX_DMA_SIZE"
    using assms(1) pd set_update_subset_insert [of "ring_fifo r'" i p] unfolding queue_ready_def e(3) by blast
  then have "queue_ready (s\<lparr>ring := r'\<lparr>ring_fifo := (ring_fifo r')[i := p]\<rparr>, usb_status := 0\<rparr>)"
    using assms(1) put(1) [of p] by (simp add: queue_ready_def)
  then show ?thesis unfolding q using False put(2) [of p] by (intro exI conjI) (auto simp: p_def)
qed

lemma start_ready: "queue_ready snif_start" "ring_pkts (ring snif_start) = []"
  by (simp_all add: queue_ready_def snif_start_def ring_inv_def usb_pkt_zero_def ring_pkts_def ring_list_def ring_len_def)

theorem enqueue_appends_witness:
  "\<exists>s' p. enqueue BR_PACKET (replicate 50 7) snif_start = Inr (True, s') \<and> ring_pkts (ring s') = [p] \<and> pkt_data p = replicate 50 7"
proof -
  from enqueue_appends [OF start_ready(1), of "replicate 50 7" BR_PACKET] show ?thesis by (auto simp: start_ready(2))
qed

section \<open>Whitened bytes\<close>

lemma bit_fold_ors:
  "bit (fold (\<lambda>j r. r OR push_bit (p j) (of_bool (q j))) xs (r :: u8)) n \<longleftrightarrow> bit r n \<or> (\<exists>j \<in> set xs. n = p j \<and> n < 8 \<and> q j)"
  by (induction xs arbitrary: r) (auto simp: bit_or_iff bit_push_bit_iff bit_exp_iff bit_1_iff split: if_splits)

lemma xor_of_bools: "(of_bool x XOR of_bool y :: u8) = of_bool (x \<noteq> y)"
  by simp

lemma bit_sent_byte:
  assumes "n < 8"
  shows "bit (air_byte k b) n \<longleftrightarrow> bit b (7 - n) \<noteq> (whitening ! ((k + (7 - n)) mod 127) = 1)"
proof -
  have w: "whitening ! (m mod 127) = of_bool (whitening ! (m mod 127) = 1)" for m by (rule whitening_01) simp
  have "air_byte k b = fold (\<lambda>j r. r OR push_bit (7 - j) (of_bool (bit b j \<noteq> (whitening ! ((k + j) mod 127) = 1)))) [0..<8] 0"
    unfolding air_byte_def drop_bit_and_1 by (subst w) (simp only: xor_of_bools)
  then have "bit (air_byte k b) n \<longleftrightarrow> (\<exists>j \<in> {0..<8}. n = 7 - j \<and> n < 8 \<and> bit b j \<noteq> (whitening ! ((k + j) mod 127) = 1))"
    by (simp only: bit_fold_ors bit_0_eq bot_fun_def set_upt) auto
  also have "\<dots> \<longleftrightarrow> bit b (7 - n) \<noteq> (whitening ! ((k + (7 - n)) mod 127) = 1)"
  proof
    assume "bit b (7 - n) \<noteq> (whitening ! ((k + (7 - n)) mod 127) = 1)"
    then show "\<exists>j \<in> {0..<8}. n = 7 - j \<and> n < 8 \<and> bit b j \<noteq> (whitening ! ((k + j) mod 127) = 1)"
      using assms by (intro bexI [of _ "7 - n"]) simp_all
  next
    assume "\<exists>j \<in> {0..<8}. n = 7 - j \<and> n < 8 \<and> bit b j \<noteq> (whitening ! ((k + j) mod 127) = 1)"
    then obtain j where "j \<in> {0..<8}" "n = 7 - j" "bit b j \<noteq> (whitening ! ((k + j) mod 127) = 1)" by blast
    moreover from this have "7 - n = j" by simp
    ultimately show "bit b (7 - n) \<noteq> (whitening ! ((k + (7 - n)) mod 127) = 1)" by simp
  qed
  finally show ?thesis .
qed

lemma dewhiten_air_byte: "le_dewhiten_byte k (air_byte k b) = b"
proof (rule bit_word_eqI)
  fix n :: nat assume "n < LENGTH(8)"
  then have n: "n < 8" by simp
  have w: "whitening ! (m mod 127) = of_bool (whitening ! (m mod 127) = 1)" for m by (rule whitening_01) simp
  let ?x = "air_byte k b"
  have "le_dewhiten_byte k ?x = fold (\<lambda>j r. r OR push_bit j (of_bool (bit ?x (7 - j) \<noteq> (whitening ! ((k + j) mod 127) = 1)))) [0..<8] 0"
    unfolding le_dewhiten_byte_def drop_bit_and_1 by (subst w) (simp only: xor_of_bools)
  then have 1: "bit (le_dewhiten_byte k ?x) n \<longleftrightarrow> bit ?x (7 - n) \<noteq> (whitening ! ((k + n) mod 127) = 1)"
    using n by (simp only: bit_fold_ors bit_0_eq bot_fun_def set_upt) auto
  have "7 - (7 - n) = n" "7 - n < 8" using n by simp_all
  then have 2: "bit ?x (7 - n) \<longleftrightarrow> bit b n \<noteq> (whitening ! ((k + n) mod 127) = 1)" using bit_sent_byte [of "7 - n" k b] by simp
  show "bit (le_dewhiten_byte k ?x) n = bit b n" unfolding 1 2 by blast
qed

section \<open>The FIFO of the radio\<close>

fun fifo_chunks :: "cc_op list \<Rightarrow> u8 list list" where
  "fifo_chunks [] = []"
| "fifo_chunks (Cc_fifo b # ops) = b # fifo_chunks ops"
| "fifo_chunks (_ # ops) = fifo_chunks ops"

lemma fifo_chunks_append [simp]: "fifo_chunks (xs @ ys) = fifo_chunks xs @ fifo_chunks ys"
  by (induction xs rule: fifo_chunks.induct) simp_all

text \<open>What the radio was sent since the state \<open>s\<close>.\<close>

definition sent :: "snif \<Rightarrow> u8 list list" where
  "sent s = fifo_chunks (radio s)"

lemma sent_simps [simp]:
  "sent (cc_set r v s) = sent s" "sent (cc_strobe r s) = sent s" "sent (cc_fifo_write b s) = sent s @ [b]"
  "sent (s\<lparr>led_tx := x\<rparr>) = sent s" "sent (s\<lparr>pa_en := x\<rparr>) = sent s"
  by (simp_all add: sent_def cc_set_def cc_strobe_def cc_fifo_write_def)

lemma channel_set [simp]: "cur_channel (cc_set r v s) = cur_channel s"
  by (simp add: cc_set_def)

lemma wait_sent: "wait_status p s = Inr s' \<Longrightarrow> sent s' = sent s" "wait_fs_on s = Inr s' \<Longrightarrow> sent s' = sent s"
    "wait_gio6 s = Inr s' \<Longrightarrow> sent s' = sent s" "cc_get s = Inr (v, s') \<Longrightarrow> sent s' = sent s"
    "cc_start s = Inr s' \<Longrightarrow> sent s' = sent s"
  by (auto simp: wait_status_def wait_fs_on_def wait_gio6_def cc_get_def cc_start_def cc_strobe_def sent_def bnd_Inr_iff split: list.splits)

lemma fifo_loop_sent:
  assumes "le_fifo_loop len space i txbuf s = Inr s'" and "i + len \<le> length txbuf" and "16 \<le> space"
  shows "\<exists>cs. sent s' = sent s @ cs \<and> concat cs = take len (drop i txbuf) \<and> (\<forall>c \<in> set cs. length c \<le> space) \<and> (\<forall>c \<in> set (tl cs). length c \<le> 16)"
  using assms
proof (induction len space i txbuf s rule: le_fifo_loop.induct)
  case (1 len space i txbuf s)
  show ?case
  proof (cases "len = 0")
    case True
    then show ?thesis using "1.prems" by (intro exI [of _ "[]"]) (simp add: le_fifo_loop.simps)
  next
    case False
    define n where "n = (if len \<ge> space then space else len)"
    have n: "n \<le> len" "0 < n" "n \<le> space" using False "1.prems"(3) by (auto simp: n_def)
    have e: "le_fifo_loop len space i txbuf s = bnd (wait_gio6 s) (\<lambda>s. le_fifo_loop (len - n) 16 (i + n) txbuf (cc_strobe STX (cc_fifo_write (take n (drop i txbuf)) s)))"
      using False "1.prems"(2) n(1) by (subst le_fifo_loop.simps) (simp add: n_def Let_def)
    obtain s1 where s1: "wait_gio6 s = Inr s1"
      and r: "le_fifo_loop (len - n) 16 (i + n) txbuf (cc_strobe STX (cc_fifo_write (take n (drop i txbuf)) s1)) = Inr s'"
      using "1.prems"(1) [unfolded e] by (rule bnd_InrE)
    have "Inr (take n (drop i txbuf)) = (if i + n \<le> length txbuf then Inr (take n (drop i txbuf)) else Inl Oob :: u8 list res)"
      using "1.prems"(2) n(1) by simp
    then have "\<exists>cs. sent s' = sent (cc_strobe STX (cc_fifo_write (take n (drop i txbuf)) s1)) @ cs \<and> concat cs = take (len - n) (drop (i + n) txbuf) \<and>
        (\<forall>c \<in> set cs. length c \<le> 16) \<and> (\<forall>c \<in> set (tl cs). length c \<le> 16)"
      using "1.IH" [OF False s1 n_def] r "1.prems"(2) n(1) by simp
    then obtain cs where cs: "sent s' = sent s1 @ [take n (drop i txbuf)] @ cs" "concat cs = take (len - n) (drop (i + n) txbuf)"
      "\<forall>c \<in> set cs. length c \<le> 16" by auto
    have "take len (drop i txbuf) = take n (drop i txbuf) @ take (len - n) (drop (i + n) txbuf)"
      using n(1) by (metis add.commute drop_drop le_add_diff_inverse take_add)
    then show ?thesis using cs n(3) "1.prems"(3) wait_sent(3) [OF s1]
      by (intro exI [of _ "take n (drop i txbuf) # cs"]) auto
  qed
qed

text \<open>With a reading for each byte that finds room in the FIFO, the filling ends.\<close>

lemma fifo_loop_ends:
  assumes "in_gio6 s = replicate m True" and "len \<le> m" and "i + len \<le> length txbuf" and "16 \<le> space"
  shows "\<exists>s'. le_fifo_loop len space i txbuf s = Inr s' \<and> in_reg s' = in_reg s \<and> in_cc_status s' = in_cc_status s"
  using assms
proof (induction len space i txbuf s arbitrary: m rule: le_fifo_loop.induct)
  case (1 len space i txbuf s)
  show ?case
  proof (cases "len = 0")
    case True
    then show ?thesis by (simp add: le_fifo_loop.simps)
  next
    case False
    define n where "n = (if len \<ge> space then space else len)"
    have n: "n \<le> len" "0 < n" using False "1.prems"(4) by (auto simp: n_def)
    obtain m' where m: "m = Suc m'" using False "1.prems"(2) by (cases m) auto
    define s1 where "s1 = s\<lparr>in_gio6 := replicate m' True\<rparr>"
    define s2 where "s2 = cc_strobe STX (cc_fifo_write (take n (drop i txbuf)) s1)"
    have w: "wait_gio6 s = Inr s1" using "1.prems"(1) by (simp add: wait_gio6_def s1_def m)
    have e: "le_fifo_loop len space i txbuf s = le_fifo_loop (len - n) 16 (i + n) txbuf s2"
      using False "1.prems"(3) n(1) w by (subst le_fifo_loop.simps) (simp add: n_def s2_def Let_def)
    have "Inr (take n (drop i txbuf)) = (if i + n \<le> length txbuf then Inr (take n (drop i txbuf)) else Inl Oob :: u8 list res)"
      using "1.prems"(3) n(1) by simp
    moreover have "in_gio6 s2 = replicate m' True" by (simp add: s2_def s1_def cc_strobe_def cc_fifo_write_def)
    ultimately have "\<exists>s'. le_fifo_loop (len - n) 16 (i + n) txbuf s2 = Inr s' \<and> in_reg s' = in_reg s2 \<and> in_cc_status s' = in_cc_status s2"
      using "1.IH" [OF False w n_def, of _ m'] "1.prems"(2,3) n m by (simp add: s2_def)
    then show ?thesis by (simp add: e s2_def s1_def cc_strobe_def cc_fifo_write_def)
  qed
qed

section \<open>Sending a packet\<close>

lemma le_txbuf_eq:
  assumes "len \<le> length data" "len \<le> 255"
  shows "le_txbuf idx len data = Inr (map (\<lambda>i. air_byte ((idx + 8 * i) mod 127) (data ! i)) [0..<len] @ drop len (replicate 255 0))"
proof -
  have "le_txbuf idx len data = loop len (\<lambda>i t. bnd (bnd (rd data i) (\<lambda>b. Inr (air_byte ((idx + 8 * i) mod 127) b))) (\<lambda>x. wr t i x)) (replicate 255 0)"
    unfolding le_txbuf_def bnd_assoc by simp
  also have "\<dots> = Inr (map (\<lambda>i. air_byte ((idx + 8 * i) mod 127) (data ! i)) [0..<len] @ drop len (replicate 255 0))"
    by (rule loop_fill) (use assms in simp_all)
  finally show ?thesis .
qed

lemma le_dewhiten_eq:
  assumes "n \<le> length data"
  shows "le_dewhiten data n ch = Inr (map (\<lambda>i. le_dewhiten_byte ((whitening_index ! unat (btle_channel_index ch) + 8 * i) mod 127) (data ! i)) [0..<n] @ drop n data)"
proof -
  let ?c = "unat (btle_channel_index ch)"
  have c: "?c < 40" using channel_index_le [of ch] by (simp add: word_less_nat_alt)
  have "m \<le> n \<Longrightarrow> loop m (\<lambda>i data. bnd (rd data i) (\<lambda>b. wr data i (le_dewhiten_byte ((whitening_index ! ?c + 8 * i) mod 127) b))) data =
    Inr (map (\<lambda>i. le_dewhiten_byte ((whitening_index ! ?c + 8 * i) mod 127) (data ! i)) [0..<m] @ drop m data)" for m
  proof (induction m)
    case (Suc m)
    have "drop m data = data ! m # drop (Suc m) data" using Suc.prems assms by (simp add: Cons_nth_drop_Suc)
    then show ?case using Suc assms by (simp add: rd_def wr_def nth_append list_update_append)
  qed simp
  then show ?thesis using c whitening_len by (simp add: le_dewhiten_def rd_def)
qed

lemma transmit_sent:
  assumes "le_transmit aa len data s = Inr s'" and "unat len \<le> length data"
  shows "\<exists>cs. sent s' = sent s @ cs \<and> (\<forall>c \<in> set cs. length c \<le> 32) \<and> (\<forall>c \<in> set (tl cs). length c \<le> 16) \<and>
    le_dewhiten (concat cs) (unat len) (cur_channel s) = Inr (take (unat len) data)"
proof -
  let ?n = "unat len" and ?idx = "whitening_index ! unat (btle_channel_index (cur_channel s))"
  have c: "unat (btle_channel_index (cur_channel s)) < 40" using channel_index_le [of "cur_channel s"] by (simp add: word_less_nat_alt)
  have n: "?n \<le> 255" using unsigned_less [of len, where 'a = nat] by simp
  define txbuf where "txbuf = map (\<lambda>i. air_byte ((?idx + 8 * i) mod 127) (data ! i)) [0..<?n] @ drop ?n (replicate 255 0)"
  have t: "le_txbuf ?idx ?n data = Inr txbuf" using le_txbuf_eq [OF assms(2) n] by (simp add: txbuf_def)
  have r: "rd whitening_index (unat (btle_channel_index (cur_channel s))) = Inr ?idx" using c whitening_len by (simp add: rd_def)
  obtain s1 s2 where "le_fifo_loop ?n 32 0 txbuf s1 = Inr s2" "sent s1 = sent s" "sent s' = sent s2"
    using assms(1) unfolding le_transmit_def Let_def r t bnd_simps
    by (auto simp: bnd_Inr_iff split: prod.splits dest!: wait_sent)
  moreover have "length txbuf = 255" using n by (simp add: txbuf_def)
  ultimately obtain cs where cs: "sent s' = sent s @ cs" "concat cs = take ?n txbuf" "\<forall>c \<in> set cs. length c \<le> 32" "\<forall>c \<in> set (tl cs). length c \<le> 16"
    using fifo_loop_sent [of ?n 32 0 txbuf s1 s2] n by auto
  have "concat cs = map (\<lambda>i. air_byte ((?idx + 8 * i) mod 127) (data ! i)) [0..<?n]" unfolding cs(2) txbuf_def by simp
  then have "le_dewhiten (concat cs) ?n (cur_channel s) = Inr (map (\<lambda>i. data ! i) [0..<?n])"
    by (simp add: le_dewhiten_eq dewhiten_air_byte)
  also have "map (\<lambda>i. data ! i) [0..<?n] = take ?n data" by (rule nth_equalityI) (use assms(2) in simp_all)
  finally show ?thesis using cs by blast
qed

text \<open>The readings with which a transmission returns at once.\<close>

definition radio_ready :: "nat \<Rightarrow> snif \<Rightarrow> snif" where
  "radio_ready n s = s\<lparr>in_cc_status := [0x40, 4, 0], in_reg := [0, 15, 15], in_gio6 := replicate n True\<rparr>"

lemma bnd_returns: "\<exists>u. r = Inr u \<and> P u \<Longrightarrow> (\<And>u. P u \<Longrightarrow> \<exists>v. f u = Inr v) \<Longrightarrow> \<exists>v. bnd r f = Inr v"
  by auto

lemma transmit_returns:
  assumes "unat len \<le> length data"
  shows "\<exists>s'. le_transmit aa len data (radio_ready (unat len) s) = Inr s'"
proof -
  let ?n = "unat len" and ?idx = "whitening_index ! unat (btle_channel_index (cur_channel s))"
  have c: "unat (btle_channel_index (cur_channel s)) < 40" using channel_index_le [of "cur_channel s"] by (simp add: word_less_nat_alt)
  have n: "?n \<le> 255" using unsigned_less [of len, where 'a = nat] by simp
  have r: "rd whitening_index (unat (btle_channel_index (cur_channel s))) = Inr ?idx" using c whitening_len by (simp add: rd_def)
  have l: "\<exists>u'. le_fifo_loop ?n 32 0 (map f [0..<?n] @ replicate (255 - ?n) 0) u = Inr u' \<and> in_reg u' = [15] \<and> in_cc_status u' = [0]"
    if "in_gio6 u = replicate ?n True" "in_reg u = [15]" "in_cc_status u = [0]" for f u
    using fifo_loop_ends [OF that(1), of ?n 0 "map f [0..<?n] @ replicate (255 - ?n) 0" 32] that n by auto
  show ?thesis
    unfolding le_transmit_def Let_def
    by (simp add: radio_ready_def r le_txbuf_eq [OF assms n] cc_get_def cc_set_def cc_start_def wait_status_def cc_strobe_def wait_fs_on_def)
      (rule bnd_returns [OF l], simp_all)
qed

text \<open>C15 (roundtrip).  What \<open>le_transmit\<close> puts into the FIFO of the radio, in portions of at most 32 and then 16 bytes, is the whitened packet with the
  bits in the order of the air: a receiver on the same channel that dewhitens it gets the packet back.  And it does return, from every state,
  when the radio gets ready (\<open>radio_ready\<close>).\<close>

theorem transmit_received:
  assumes "unat len \<le> length data"
  shows "(\<exists>s'. le_transmit aa len data (radio_ready (unat len) s) = Inr s') \<and>
    (\<forall>s'. le_transmit aa len data s = Inr s' \<longrightarrow>
      (\<exists>cs. sent s' = sent s @ cs \<and> (\<forall>c \<in> set cs. length c \<le> 32) \<and> (\<forall>c \<in> set (tl cs). length c \<le> 16) \<and>
        le_dewhiten (concat cs) (unat len) (cur_channel s) = Inr (take (unat len) data)))"
  using transmit_returns [OF assms] transmit_sent [OF _ assms] by blast

theorem transmit_received_witness:
  "\<exists>s' cs. le_transmit 0x8e89bed6 2 [0x40, 0x00] (radio_ready 2 (snif_start\<lparr>cur_channel := 2426\<rparr>)) = Inr s' \<and> sent s' = cs \<and>
    le_dewhiten (concat cs) 2 2426 = Inr [0x40, 0x00]"
proof -
  let ?s = "radio_ready 2 (snif_start\<lparr>cur_channel := 2426\<rparr>)"
  have n: "unat (2::u8) = 2" "unat (2::u8) \<le> length [0x40, 0x00 :: u8]" by simp_all
  have i: "radio_ready 2 ?s = ?s" "cur_channel ?s = 2426" "sent ?s = []" by (simp_all add: radio_ready_def snif_start_def sent_def)
  from transmit_received [where s = ?s and aa = "0x8e89bed6", OF n(2)] show ?thesis unfolding n(1) i by auto
qed

section \<open>Advertising\<close>

lemma store_all_eq: "store_all xs buf = (if length xs \<le> length buf then Inr (xs @ drop (length xs) buf) else Inl Oob)"
proof (cases "length xs \<le> length buf")
  case True
  have "store_all xs buf = loop (length xs) (\<lambda>i o'. bnd (Inr (xs ! i)) (\<lambda>x. wr o' i x)) buf" by (simp add: store_all_def)
  also have "\<dots> = Inr (map ((!) xs) [0..<length xs] @ drop (length xs) buf)" by (rule loop_fill [OF True]) simp
  finally show ?thesis using True by (simp add: map_nth)
next
  case False
  have "\<exists>b. length b = length buf \<and> loop m (\<lambda>i buf. wr buf i (xs ! i)) buf = Inr b" if "m \<le> length buf" for m
    using that by (induction m) auto
  then obtain b where b: "length b = length buf" "loop (length buf) (\<lambda>i buf. wr buf i (xs ! i)) buf = Inr b" by blast
  have "loop (length buf + Suc k) (\<lambda>i buf. wr buf i (xs ! i)) buf = Inl Oob" for k
    by (induction k) (simp_all add: b)
  moreover obtain k where "length xs = length buf + Suc k" using False by (metis less_iff_Suc_add not_le add_Suc_right)
  ultimately have "loop (length xs) (\<lambda>i buf. wr buf i (xs ! i)) buf = Inl Oob" by (simp only:)
  then show ?thesis using False by (simp add: store_all_def)
qed

text \<open>The advertisement as it should be: header, address, data, CRC.\<close>

definition advert :: "u32 \<Rightarrow> u8 list \<Rightarrow> u8 list \<Rightarrow> u8 list res" where
  "advert crc_init adv mac =
     (let p = [0, of_nat (6 + length adv)] @ rev mac @ adv in
      bnd (btle_calc_crc crc_init p (length p)) (\<lambda>crc. Inr (p @ mem_bytes 3 crc)))"

lemma calc_crc_prefix: "btle_calc_crc c (xs @ ys) (length xs) = btle_calc_crc c xs (length xs)"
  unfolding btle_calc_crc_def by (rule loop_cong) (simp_all add: rd_def nth_append)

lemma calc_crc_ok: "n \<le> length xs \<Longrightarrow> \<exists>crc. btle_calc_crc c xs n = Inr crc"
  using calc_crc_states [of n xs "c AND 0xffffff"] b24_mask by (metis btle_calc_crc_def)

lemma window_append: "window (length xs) f (xs @ ys) = bnd (f ys) (\<lambda>zs. Inr (xs @ zs))"
  by (simp add: window_def)

lemma slave_header:
  assumes "length mac = 6"
  shows "bnd (wr (replicate 32 0) 1 n) (\<lambda>p. loop 6 (\<lambda>i p. bnd (rd mac (5 - i)) (wr p (i + 2))) p) = Inr ([0, n] @ rev mac @ replicate 24 (0 :: u8))"
proof -
  have "rev mac = map (\<lambda>i. mac ! (5 - i)) [0..<6]" by (rule nth_equalityI) (use assms in \<open>simp_all add: rev_nth\<close>)
  then have m: "rev mac = [mac ! 5, mac ! 4, mac ! 3, mac ! 2, mac ! 1, mac ! 0]" by (simp add: upt_conv_Cons)
  have "replicate 8 (0 :: u8) = map (\<lambda>_. 0) [0..<8]" by (simp add: map_replicate_const)
  then have e: "replicate 8 (0 :: u8) = [0, 0, 0, 0, 0, 0, 0, 0]" by (simp add: upt_conv_Cons)
  have "replicate 32 (0 :: u8) = replicate 8 0 @ replicate 24 0" by (simp flip: replicate_add)
  then show ?thesis unfolding m e by (simp add: loop_numeral assms)
qed

text \<open>The advertisement \<open>bt_slave_le\<close> sends is well formed, header, address, data and CRC, for up to 21 bytes of data.  The
  host may set up to 255: with more than 21 bytes the packet does not fit into its array of 32 bytes, and the copying of the data or of the CRC runs out of it.\<close>

theorem advert_fits:
  assumes "length mac = 6" and "length data = LE_ADV_MAX_LEN" and "unat len \<le> LE_ADV_MAX_LEN"
  defines "n \<equiv> unat (len :: u32)"
  shows "slave_packet crc_init data len mac =
    (if n \<le> 21 then bnd (advert crc_init (take n data) mac) (\<lambda>p. Inr (of_nat (8 + n), p @ replicate (21 - n) 0)) else Inl Oob)"
proof -
  define k where "k = (6 + ucast len :: u8)"
  let ?p = "[0, k] @ rev mac @ replicate 24 (0 :: u8)"
  have hd: "slave_packet crc_init data len mac = bnd (window (2 + 6) (\<lambda>d. memcpy d data n) ?p) (\<lambda>p.
      bnd (btle_calc_crc crc_init p (unat (k + 2))) (\<lambda>crc. bnd (put_bytes_at (unat (k + 2)) (mem_bytes 3 crc) p) (\<lambda>p. Inr (k + 2, p))))"
    using slave_header [OF assms(1), of k] by (simp add: slave_packet_def Let_def k_def n_def bnd_Inr_iff)
  show ?thesis
  proof (cases "n \<le> 24")
    case False
    then show ?thesis unfolding hd using assms(1) by (simp add: window_def memcpy_def)
  next
    case True
    have k: "k = of_nat (6 + n)" by (simp add: k_def n_def word_unat_eq_iff unat_word_ariths unsigned_ucast_eq unat_of_nat take_bit_eq_mod mod_simps)
    have k2: "k + 2 = of_nat (8 + n)" "unat (k + 2) = 8 + n" using True by (simp_all add: k unat_word_ariths unat_of_nat take_bit_nat_eq_self)
    let ?a = "[0, k] @ rev mac @ take n data"
    have w: "window (2 + 6) (\<lambda>d. memcpy d data n) ?p = Inr (?a @ replicate (24 - n) 0)"
      using True assms(1,2) by (simp add: window_def memcpy_def)
    have la: "length ?a = 8 + n" using True assms(1,2) by simp
    obtain crc where crc: "btle_calc_crc crc_init ?a (8 + n) = Inr crc" using calc_crc_ok [of "8 + n" ?a] la by auto
    have c: "btle_calc_crc crc_init (?a @ replicate (24 - n) 0) (8 + n) = Inr crc" using calc_crc_prefix [of crc_init ?a] la crc by metis
    have pb: "put_bytes_at (8 + n) (mem_bytes 3 crc) (?a @ replicate (24 - n) 0) =
        (if n \<le> 21 then Inr (?a @ mem_bytes 3 crc @ replicate (21 - n) 0) else Inl Oob)"
    proof -
      have "put_bytes_at (8 + n) (mem_bytes 3 crc) (?a @ replicate (24 - n) 0) =
          bnd (store_all (mem_bytes 3 crc) (replicate (24 - n) 0)) (\<lambda>zs. Inr (?a @ zs))"
        unfolding put_bytes_at_def la [symmetric] by (rule window_append)
      also have "store_all (mem_bytes 3 crc) (replicate (24 - n) 0) = (if n \<le> 21 then Inr (mem_bytes 3 crc @ replicate (21 - n) 0) else Inl Oob)"
        using True by (auto simp: store_all_eq mem_bytes_def)
      finally show ?thesis by simp
    qed
    have ad: "advert crc_init (take n data) mac = Inr (?a @ mem_bytes 3 crc)"
      using True assms(1,2) crc la by (simp add: advert_def Let_def k)
    show ?thesis unfolding hd w bnd_simps k2(2) c pb ad by (simp add: k2(1))
  qed
qed

theorem advert_fits_witness:
  "(\<exists>p. slave_packet 0xAAAAAA (take 3 [0x02, 0x01, 0x05] @ replicate 252 0) 3 [1, 2, 3, 4, 5, 6] = Inr (11, p) \<and>
     advert 0xAAAAAA [0x02, 0x01, 0x05] [1, 2, 3, 4, 5, 6] = Inr (take 14 p)) \<and>
   slave_packet 0xAAAAAA (replicate 255 0) 22 [1, 2, 3, 4, 5, 6] = Inl Oob"
proof -
  have l: "length [1, 2, 3, 4, 5, 6 :: u8] = 6" by simp
  obtain crc where "btle_calc_crc 0xAAAAAA [0, 9, 6, 5, 4, 3, 2, 1, 2, 1, 5] 11 = Inr crc" using calc_crc_ok [of 11 "[0, 9, 6, 5, 4, 3, 2, 1, 2, 1, 5]"] by auto
  then have "advert 0xAAAAAA [0x02, 0x01, 0x05] [1, 2, 3, 4, 5, 6] = Inr ([0, 9, 6, 5, 4, 3, 2, 1, 2, 1, 5] @ mem_bytes 3 crc)" by (simp add: advert_def)
  then show ?thesis using advert_fits [OF l, of "take 3 [0x02, 0x01, 0x05] @ replicate 252 0" 3 "0xAAAAAA"] advert_fits [OF l, of "replicate 255 0" 22 "0xAAAAAA"]
    by (simp add: mem_bytes_def)
qed

end
