(* ===== verification/Spec2Isabelle.thy ===== *)
theory Spec2Isabelle
  imports Codec HopRxtx Packet SyncWord Arq Usb Behaviour LeFollow SniffClock SniffPromisc SniffAir
begin

text \<open>
  A model of the Ubertooth firmware's Bluetooth code.

  The repository has two firmwares for the LPC175x/CC2400 board.  The one under firmware/btbr implements a Bluetooth
  baseband: the codec turns packets into air bits and back (src/codec), the physical layer schedules slots and
  hops (src/btphy), and the controller (src/btctl) talks to the host over USB.  The older one under firmware/bluetooth_rxtx is a
  sniffer: it hops along with a Bluetooth piconet (bluetooth.c) or a Low Energy connection (bluetooth_le.c, le_phy.c) and queues
  what it receives for the host (ubertooth_usb.c); bluetooth_rxtx.c has its modes, and it can transmit, jam and scan the spectrum.

  Theories:
  \<^item> \<open>Prelude\<close>: machine words, the result type of fallible code, array accesses, counted loops, the
    bit view of a byte buffer.
  \<^item> \<open>Linear\<close>: lookup tables and shift registers that are linear over XOR.
  \<^item> \<open>Tables\<close>: the constant tables of src/codec/bitstream_proc.c.
  \<^item> \<open>Crc\<close>, \<open>Whiten\<close>, \<open>BitFields\<close>, \<open>Fec23\<close>: bit reversal, HEC and CRC, whitening, the bit field macros
    and the 2/3 rate code.
  \<^item> \<open>Fec13\<close>, \<open>NullCode\<close>: the 1/3 rate code and the unprotected copy.
  \<^item> \<open>Codec\<close>: src/codec/codec.c, the packet header and the payload chunks in both directions.
  \<^item> \<open>Packet\<close>, \<open>SyncWord\<close>: the FHS payload (src/codec/packet_proc.c) and the sync words (src/codec/btbb.c).
  \<^item> \<open>Perm5Tab\<close>, \<open>Perm5\<close>, \<open>Hop\<close>: the hop permutation with its tables (src/codec/perm5.c) and the hop
    selection kernel with AFH (src/btphy/hop.c).
  \<^item> \<open>HopRxtx\<close>: the hop selection and the access code search of bluetooth_rxtx/bluetooth.c.
  \<^item> \<open>Fifo\<close>, \<open>Queues\<close>, \<open>MemPool\<close>, \<open>Msg\<close>: the queue interface and the four rings that implement it, the
    block allocator and the message buffers.
  \<^item> \<open>Firmware\<close>: the state the controller, the link layer and the physical layer share, message buffers and
    their owners, the controller state machine (include/ubtbr/btctl_intf.h, src/btctl/btctl.c).
  \<^item> \<open>LinkLayer\<close>, \<open>Arq\<close>: the link layer (src/btphy/ll.c), and two of them over a lossy channel.
  \<^item> \<open>Tdma\<close>: the frame scheduler (src/btphy/tdma_sched.c).  What a frame runs is proved there for all callbacks that only add
    items, in the running frame or a later one, and that may fail (\<open>calls_append\<close>).
  \<^item> \<open>Btphy\<close>: clocks, slot timer, software timers, access code and radio settings (src/btphy/btphy.c, rf.c).
  \<^item> \<open>Tasks\<close>, \<open>States\<close>, \<open>Run\<close>: what is planned, by whom, and what runs in a frame. \<open>Tasks\<close> has the state of the
    whole firmware and the planning of src/btphy/rx_task.c, tx_task.c and scan_task.c; \<open>States\<close> the state files of src/btphy
    (inquiry, inquiry scan, paging, page scan, master, slave, monitor) with their callbacks; \<open>Run\<close> the tasks themselves and the
    interrupt handlers that run them.  The values of hardware registers (time in the slot, packet strobe, DMA position, radio
    state) are lists of inputs, in the order they are read; a wait that uses them up is the fault \<open>Hang\<close>.
  \<^item> \<open>Btctl\<close>: the requests of the host (src/btctl/btctl.c), the start of the firmware, and its events as a step relation.
  \<^item> \<open>Ownership\<close>: partial correctness rules for every operation above, and the invariant they keep: no message buffer
    has two owners, in any state the firmware reaches.
  \<^item> \<open>Planning\<close>: rules of the same kind for the scheduler's wheel: the firmware's own callbacks (\<open>task_call\<close>) are such callbacks and
    every event only adds to the wheel, so in the states the firmware reaches a frame runs its tasks in order and a planned
    task comes due.
  \<^item> \<open>Behaviour\<close>: the state after the start, the slots of master and slave, the decoding loop, and that a request of the host
    for a new activity outside standby stops the firmware with \<open>DIE\<close> and nothing else.
  \<^item> \<open>Usb\<close>: the packets of the USB driver (src/drivers/ubertooth_usb.c) in both directions.
  \<^item> \<open>Ble\<close>: bluetooth_rxtx/bluetooth_le.c and .h, the Low Energy channels and hops, CRC, whitening and channel maps.
  \<^item> \<open>RxtxUsb\<close>: bluetooth_rxtx/ubertooth_usb.c, the ring of received packets for the host and its sending.
  \<^item> \<open>Wp\<close>: partial correctness of operations that return a value or a fault, the rules \<open>Ownership\<close>, \<open>Planning\<close> and \<open>LePhyInv\<close> share.
  \<^item> \<open>LePhy\<close>, \<open>LePhyInv\<close>, \<open>LeFollow\<close>: bluetooth_rxtx/le_phy.c. \<open>LePhy\<close> has the state and the whole code: buffers, DMA
    and timer handlers, connection following, packet handlers, the main loop. \<open>LePhyInv\<close> has its events as a step relation
    and the invariant they keep (who holds a buffer, the bounds of the DMA handler); \<open>LeFollow\<close> what happens to a
    connection: missed packets, updates, the reception of a packet, what a CONNECT_REQ is accepted with.
  \<^item> \<open>Spi\<close>: the radio's serial interface, tuning and the identification of the chip in common/ubertooth.c.
  \<^item> \<open>Rssi\<close>: bluetooth_rxtx/ubertooth_rssi.c and ubertooth_cs.c, the signal strength and the threshold of the carrier sense.
  \<^item> \<open>Sniffer\<close>: bluetooth_rxtx/bluetooth_rxtx.c, first part: its state, the clock (ubertooth_clock.c) with the timer's
    handler, the DMA's handler, the packets for the host, the set up of the radio, hopping and sending.
  \<^item> \<open>Ego\<close>: the state machines of bluetooth_rxtx/ego.c.
  \<^item> \<open>SniffLe\<close>, \<open>SniffReq\<close>, \<open>SniffRun\<close>, \<open>SniffModes\<close>, \<open>SniffMain\<close>: the rest of bluetooth_rxtx.c. \<open>SniffLe\<close> has what is done with
    a received Low Energy packet, \<open>SniffReq\<close> the requests of the host, the other three the modes and the choice of the main loop.
  \<^item> \<open>SniffClock\<close>, \<open>SniffPromisc\<close>, \<open>SniffAir\<close>: the theorems about the sniffer: its clock, its hops and its waits; the recovery of
    a connection in the promiscuous mode; what it sends to the host and on the air.

  The sniffer.  The modes of bluetooth_rxtx.c are loops that wait for flags which interrupts set.  Each of them has a list with one
  entry for every pass as an argument; the entry holds the interrupts that come before the pass, and \<open>run_irqs\<close> runs their handlers, a
  request of the host among them.  A loop that uses up its list is the fault \<open>Hang\<close>.  The radio is a list of what is sent to it (register
  writes, strobes, FIFO transfers); what is read from it is a list of inputs.  The model is that of the Ubertooth One with \<open>TX_ENABLE\<close>.

  Bounds.  A loop whose number of passes depends on data is a recursion with a bound: the decoding loop of a reception gets
  the bytes received plus two (a chunk takes at least eight bits, \<open>decode_loop_ends\<close>), the flushing of a queue its size, the
  waits one pass per input.  In \<open>LePhy\<close> the readings of the timer, the radio's status and its RSSI are lists of inputs in the same way.
  The search for a channel in \<open>Sniffer\<close> gets 80 steps, after 79 it is back where it began.

  Not modelled: registers and what only drives them (pins, interrupt masks, the set up of DMA and USB), console output,
  \<open>vendor_request_handler\<close> of the firmware btbr.  In \<open>LePhyInv\<close> and \<open>Btctl\<close> an interrupt handler and each call of the main loop is one
  step; what a handler does in the middle of the main loop's work is not followed.  The range test, the repeater, the Christmas lights and
  the debug UART of bluetooth_rxtx are not modelled, nor are the host tools and the plugins; of the rest of the repository the models
  cover the serial FIFO of common and the packet FIFO of the host library.
\<close>

end
